(* ===== verification/Prelude.thy ===== *)
theory Prelude
  imports Main "HOL-Library.Word" "HOL-Library.Char_ord" "HOL-Library.List_Lexorder"
begin

unbundle bit_operations_syntax

text \<open>
  Shared vocabulary of the development: the machine types of the Rust code, its results
  (an error value or a panic on the left, a value on the right), the checked arithmetic
  of \<open>usize\<close>/\<open>u32\<close> counters, little- and big-endian byte conversions,
  strings as UTF-8 byte sequences, and the generic lemmas about them that the component
  theories use.
\<close>

section \<open>Theorem collections\<close>

named_theorems result_simps \<open>equations that evaluate result-valued operations\<close>
named_theorems buffer_simps \<open>what a writer holds after an operation\<close>
named_theorems unread_simps \<open>what a reader still has to read after an operation\<close>
named_theorems limit_defs \<open>definitions of the limit checks\<close>

section \<open>Machine types\<close>

type_synonym byte = "8 word"
type_synonym u16 = "16 word"
type_synonym u32 = "32 word"
type_synonym u64 = "64 word"
type_synonym i32 = "32 word"
type_synonym i64 = "64 word"

section \<open>Results, errors and panics\<close>

text \<open>
  A Rust function that returns \<open>Result<T, E>\<close> and may also panic is modelled by a
  value of \<open>('e, 'a) res\<close>: \<open>Inl (Raised e)\<close> is \<open>Err(e)\<close>, \<open>Inl (Panicked m)\<close>
  is a panic, \<open>Inr x\<close> is \<open>Ok(x)\<close>. The \<open>?\<close> operator is \<open>bind_result\<close>.
  \<open>Inl Diverges\<close> is what a loop with a fuel argument returns when the fuel is used up; the
  lemmas about each such loop show that it never occurs with the fuel the model gives it.
\<close>

datatype 'e fault = Raised 'e | Panicked string | Diverges

type_synonym ('e, 'a) res = "'e fault + 'a"

definition bind_result :: "('e, 'a) res \<Rightarrow> ('a \<Rightarrow> ('e, 'b) res) \<Rightarrow> ('e, 'b) res" where
  "bind_result m f = (case m of Inl e \<Rightarrow> Inl e | Inr x \<Rightarrow> f x)"

definition map_fault :: "('e \<Rightarrow> 'f) \<Rightarrow> ('e, 'a) res \<Rightarrow> ('f, 'a) res" where
  "map_fault g m = (case m of Inl (Raised e) \<Rightarrow> Inl (Raised (g e))
     | Inl (Panicked s) \<Rightarrow> Inl (Panicked s) | Inl Diverges \<Rightarrow> Inl Diverges | Inr x \<Rightarrow> Inr x)"

definition panics :: "('e, 'a) res \<Rightarrow> bool" where
  "panics m \<longleftrightarrow> (case m of Inl (Panicked _) \<Rightarrow> True | _ \<Rightarrow> False)"

definition diverges :: "('e, 'a) res \<Rightarrow> bool" where
  "diverges m \<longleftrightarrow> m = Inl Diverges"

lemma bind_result_Inl [simp]: "bind_result (Inl e) f = Inl e"
  by (simp add: bind_result_def)

lemma bind_result_Inr [simp]: "bind_result (Inr x) f = f x"
  by (simp add: bind_result_def)

lemma bind_result_cong [fundef_cong]:
  assumes "m = m'" and "\<And>x. m' = Inr x \<Longrightarrow> f x = g x"
  shows "bind_result m f = bind_result m' g"
  using assms by (cases m') (auto simp: bind_result_def)

lemma bind_result_eq_Inr:
  "bind_result m f = Inr y \<longleftrightarrow> (\<exists>x. m = Inr x \<and> f x = Inr y)"
  by (cases m) auto

lemma bind_result_InrE:
  assumes "bind_result m f = Inr y"
  obtains x where "m = Inr x" and "f x = Inr y"
  using assms by (cases m) auto

lemma bind_result_assoc:
  "bind_result (bind_result m f) g = bind_result m (\<lambda>x. bind_result (f x) g)"
  by (cases m) auto

lemma panics_simps [simp]:
  "panics (Inr x) = False" "panics (Inl (Raised e)) = False" "panics (Inl (Panicked s)) = True"
  "panics (Inl Diverges) = False"
  by (simp_all add: panics_def)

lemma diverges_simps [simp]:
  "diverges (Inr x) = False" "diverges (Inl (Raised e)) = False"
  "diverges (Inl (Panicked s)) = False" "diverges (Inl Diverges) = True"
  by (simp_all add: diverges_def)

lemma diverges_bind:
  "diverges (bind_result m f) \<longleftrightarrow> diverges m \<or> (\<exists>x. m = Inr x \<and> diverges (f x))"
  by (cases m) (auto simp: diverges_def)

lemma panics_bind:
  "panics (bind_result m f) \<longleftrightarrow> panics m \<or> (\<exists>x. m = Inr x \<and> panics (f x))"
  by (cases m) (auto simp: panics_def)

lemma not_panics_bindI:
  assumes "\<not> panics m" and "\<And>x. m = Inr x \<Longrightarrow> \<not> panics (f x)"
  shows "\<not> panics (bind_result m f)"
  using assms by (auto simp: panics_bind)

lemma map_fault_simps [simp]:
  "map_fault g (Inr x) = Inr x" "map_fault g (Inl (Raised e)) = Inl (Raised (g e))"
  "map_fault g (Inl (Panicked s)) = Inl (Panicked s)" "map_fault g (Inl Diverges) = Inl Diverges"
  by (simp_all add: map_fault_def)

lemma map_fault_eq_Inr [simp]: "map_fault g m = Inr x \<longleftrightarrow> m = Inr x"
  by (auto simp: map_fault_def split: sum.splits fault.splits)

lemma panics_map_fault [simp]: "panics (map_fault g m) = panics m"
  by (auto simp: map_fault_def panics_def split: sum.splits fault.splits)

text \<open>\<open>match m { Ok(x) => ok x, Err(e) => err e }\<close>: a panic in \<open>m\<close> goes on.\<close>

definition match_result :: "('e, 'a) res \<Rightarrow> ('e \<Rightarrow> ('f, 'b) res) \<Rightarrow> ('a \<Rightarrow> ('f, 'b) res) \<Rightarrow> ('f, 'b) res" where
  "match_result m err ok = (case m of Inl (Raised e) \<Rightarrow> err e
     | Inl (Panicked s) \<Rightarrow> Inl (Panicked s) | Inl Diverges \<Rightarrow> Inl Diverges | Inr x \<Rightarrow> ok x)"

lemma match_result_simps [simp]:
  "match_result (Inr x) err ok = ok x" "match_result (Inl (Raised e)) err ok = err e"
  "match_result (Inl (Panicked s)) err ok = Inl (Panicked s)" "match_result (Inl Diverges) err ok = Inl Diverges"
  by (simp_all add: match_result_def)

section \<open>Checked arithmetic\<close>

text \<open>
  \<open>usize\<close> (64 bits on the modelled target) and \<open>u32\<close> counters are \<open>nat\<close>s below the
  width's bound. An addition that leaves the width panics, as it does in a build with
  overflow checks; the theorems that no such panic is reachable make the model also
  exact for builds without the checks, where the sum would wrap.
\<close>

definition checked_add :: "nat \<Rightarrow> nat \<Rightarrow> nat \<Rightarrow> ('e, nat) res" where
  "checked_add w a b =
     (if a + b < 2 ^ w then Inr (a + b) else Inl (Panicked ''attempt to add with overflow''))"

definition usize_add :: "nat \<Rightarrow> nat \<Rightarrow> ('e, nat) res" where
  "usize_add a b = checked_add 64 a b"

definition u32_add :: "nat \<Rightarrow> nat \<Rightarrow> ('e, nat) res" where
  "u32_add a b = checked_add 32 a b"

lemma usize_add_ok [result_simps]: "a + b < 2 ^ 64 \<Longrightarrow> usize_add a b = Inr (a + b)"
  by (simp add: usize_add_def checked_add_def)

lemma u32_add_ok [result_simps]: "a + b < 2 ^ 32 \<Longrightarrow> u32_add a b = Inr (a + b)"
  by (simp add: u32_add_def checked_add_def)

lemma usize_add_InrD: "usize_add a b = Inr c \<Longrightarrow> c = a + b \<and> a + b < 2 ^ 64"
  by (auto simp: usize_add_def checked_add_def split: if_splits)

lemma u32_add_InrD: "u32_add a b = Inr c \<Longrightarrow> c = a + b \<and> a + b < 2 ^ 32"
  by (auto simp: u32_add_def checked_add_def split: if_splits)

lemma usize_add_not_Raised: "usize_add a b \<noteq> Inl (Raised e)"
  by (simp add: usize_add_def checked_add_def)

lemma u32_add_not_Raised: "u32_add a b \<noteq> Inl (Raised e)"
  by (simp add: u32_add_def checked_add_def)

lemma panics_usize_add [simp]: "panics (usize_add a b) \<longleftrightarrow> 2 ^ 64 \<le> a + b"
  by (auto simp: usize_add_def checked_add_def panics_def)

lemma panics_u32_add [simp]: "panics (u32_add a b) \<longleftrightarrow> 2 ^ 32 \<le> a + b"
  by (auto simp: u32_add_def checked_add_def panics_def)

lemma diverges_usize_add [simp]: "\<not> diverges (usize_add a b)"
  by (simp add: usize_add_def checked_add_def)

lemma diverges_u32_add [simp]: "\<not> diverges (u32_add a b)"
  by (simp add: u32_add_def checked_add_def)

text \<open>The slice \<open>&xs[s..e]\<close>, which panics when the range is not inside \<open>xs\<close>.\<close>

definition slice :: "'a list \<Rightarrow> nat \<Rightarrow> nat \<Rightarrow> ('e, 'a list) res" where
  "slice xs s e =
     (if s \<le> e \<and> e \<le> length xs then Inr (take (e - s) (drop s xs))
      else Inl (Panicked ''range out of bounds for slice''))"

lemma slice_ok [result_simps]:
  "s \<le> e \<Longrightarrow> e \<le> length xs \<Longrightarrow> slice xs s e = Inr (take (e - s) (drop s xs))"
  by (simp add: slice_def)

lemma slice_InrD: "slice xs s e = Inr ys \<Longrightarrow> ys = take (e - s) (drop s xs) \<and> s \<le> e \<and> e \<le> length xs"
  by (auto simp: slice_def split: if_splits)

lemma panics_slice [simp]: "panics (slice xs s e) \<longleftrightarrow> \<not> (s \<le> e \<and> e \<le> length xs)"
  by (simp add: slice_def)

lemma diverges_slice [simp]: "\<not> diverges (slice xs s e)"
  by (simp add: slice_def)

text \<open>An optional cap, as the decode limits use it: \<open>None\<close> is no cap.\<close>

definition within :: "nat option \<Rightarrow> nat \<Rightarrow> bool" where
  "within cap n = (case cap of None \<Rightarrow> True | Some c \<Rightarrow> n \<le> c)"

lemma within_simps [simp]: "within None n" "within (Some c) n \<longleftrightarrow> n \<le> c"
  by (simp_all add: within_def)

lemma within_mono: "within cap n \<Longrightarrow> m \<le> n \<Longrightarrow> within cap m"
  by (cases cap) auto

section \<open>Bits of the constants the codecs mask with\<close>

lemma bit_0x7F_int: "bit (0x7F :: int) n \<longleftrightarrow> n < 7"
proof -
  have "(0x7F :: int) = mask 7"
    by (simp add: mask_eq_exp_minus_1)
  then show ?thesis
    by (simp only: bit_mask_iff) simp
qed

lemma bit_0x80_int: "bit (0x80 :: int) n \<longleftrightarrow> n = 7"
proof -
  have "(0x80 :: int) = push_bit 7 1"
    by simp
  then show ?thesis
    by (simp only: bit_push_bit_iff bit_1_iff) auto
qed

lemma bit_0x7F: "bit (0x7F :: 'a::len word) n \<longleftrightarrow> n < 7 \<and> n < LENGTH('a)"
  by (simp add: bit_0x7F_int conj_commute)

lemma bit_0x80: "bit (0x80 :: 'a::len word) n \<longleftrightarrow> n = 7 \<and> n < LENGTH('a)"
  by (simp add: bit_0x80_int conj_commute)

lemmas bit_consts = bit_0x7F_int bit_0x80_int

lemma take_bit_7_self: "(v :: u64) < 0x80 \<Longrightarrow> take_bit 7 v = v"
  using less_mask_eq [of v 7] by (simp add: take_bit_eq_mask)

lemma unat_drop_bit_div: "unat (drop_bit k v) = unat v div 2 ^ k"
  unfolding unat_drop_bit_eq by (simp add: drop_bit_eq_div)

section \<open>Byte order\<close>

definition le_bytes :: "nat \<Rightarrow> 'a::len word \<Rightarrow> byte list" where
  "le_bytes n w = map (\<lambda>i. ucast (drop_bit (8 * i) w)) [0..<n]"

definition of_le_bytes :: "byte list \<Rightarrow> 'a::len word" where
  "of_le_bytes bs = foldr (\<lambda>b acc. ucast b OR push_bit 8 acc) bs 0"

lemma length_le_bytes [simp]: "length (le_bytes n w) = n"
  by (simp add: le_bytes_def)

lemma of_le_bytes_simps [simp]:
  "of_le_bytes [] = 0" "of_le_bytes (b # bs) = ucast b OR push_bit 8 (of_le_bytes bs)"
  by (simp_all add: of_le_bytes_def)

lemma le_bytes_0 [simp]: "le_bytes 0 w = []"
  by (simp add: le_bytes_def)

lemma le_bytes_Suc: "le_bytes (Suc n) w = ucast w # le_bytes n (drop_bit 8 w)"
  by (simp add: le_bytes_def upt_rec [of 0] map_Suc_upt [symmetric] del: upt_Suc)
     (simp add: drop_bit_drop_bit add.commute)

lemma bit_of_le_bytes_le_bytes:
  "bit (of_le_bytes (le_bytes n w) :: 'a::len word) k \<longleftrightarrow> k < 8 * n \<and> bit (w :: 'a word) k"
proof (induction n arbitrary: w k)
  case 0
  then show ?case by simp
next
  case (Suc n)
  have "bit (of_le_bytes (le_bytes (Suc n) w) :: 'a word) k \<longleftrightarrow>
      k < 8 \<and> bit w k \<or> 8 \<le> k \<and> k < LENGTH('a) \<and> k - 8 < 8 * n \<and> bit w k"
    using bit_imp_le_length [of w k]
    by (auto simp: le_bytes_Suc bit_or_iff bit_push_bit_iff bit_ucast_iff Suc.IH bit_drop_bit_eq)
  then show ?case
    using bit_imp_le_length [of w k] by auto
qed

lemma of_le_bytes_le_bytes: "LENGTH('a) \<le> 8 * n \<Longrightarrow> of_le_bytes (le_bytes n w) = (w :: 'a::len word)"
  by (rule bit_eqI) (simp add: bit_of_le_bytes_le_bytes)

definition be_bytes :: "nat \<Rightarrow> 'a::len word \<Rightarrow> byte list" where
  "be_bytes n w = rev (le_bytes n w)"

definition of_be_bytes :: "byte list \<Rightarrow> 'a::len word" where
  "of_be_bytes bs = of_le_bytes (rev bs)"

lemma length_be_bytes [simp]: "length (be_bytes n w) = n"
  by (simp add: be_bytes_def)

lemma of_be_bytes_be_bytes: "LENGTH('a) \<le> 8 * n \<Longrightarrow> of_be_bytes (be_bytes n w) = (w :: 'a::len word)"
  by (simp add: of_be_bytes_def be_bytes_def of_le_bytes_le_bytes)

section \<open>Strings\<close>

text \<open>
  A Rust \<open>String\<close>/\<open>&str\<close> is its sequence of UTF-8 bytes. It is modelled as a HOL
  \<open>string\<close>, whose characters are exactly the 256 byte values; \<open>as_bytes\<close> and
  \<open>str_of_bytes\<close> convert to and from \<open>byte list\<close>.
\<close>

definition as_bytes :: "string \<Rightarrow> byte list" where
  "as_bytes s = map of_char s"

definition str_of_bytes :: "byte list \<Rightarrow> string" where
  "str_of_bytes bs = map (\<lambda>b. char_of (unat b)) bs"

lemma length_as_bytes [simp]: "length (as_bytes s) = length s"
  by (simp add: as_bytes_def)

lemma length_str_of_bytes [simp]: "length (str_of_bytes bs) = length bs"
  by (simp add: str_of_bytes_def)

lemma unat_byte_less: "unat (b :: byte) < 256"
proof -
  have "unat b < 2 ^ LENGTH(8)"
    by (rule unsigned_less)
  then show ?thesis by simp
qed

lemma unat_of_char: "unat (of_char c :: byte) = of_char c"
proof -
  have "(of_char c :: byte) = word_of_nat (of_char c)"
    by (cases c) simp
  moreover have "of_char c < (256 :: nat)"
    by (rule nat_of_char_less_256)
  ultimately show ?thesis
    by (simp add: unat_of_nat)
qed

lemma str_of_bytes_as_bytes [simp]: "str_of_bytes (as_bytes s) = s"
  by (simp add: str_of_bytes_def as_bytes_def unat_of_char comp_def)

lemma as_bytes_str_of_bytes [simp]: "as_bytes (str_of_bytes bs) = bs"
proof -
  have "(of_char (char_of (unat b)) :: byte) = b" for b :: byte
  proof -
    have "unat (of_char (char_of (unat b)) :: byte) = unat b mod 256"
      by (simp add: unat_of_char)
    also have "\<dots> = unat b"
      using unat_byte_less [of b] by simp
    finally show ?thesis
      by (simp only: unsigned_word_eqI)
  qed
  then show ?thesis
    by (simp add: str_of_bytes_def as_bytes_def comp_def)
qed

lemma as_bytes_inject [simp]: "as_bytes s = as_bytes t \<longleftrightarrow> s = t"
  by (metis str_of_bytes_as_bytes)

lemma as_bytes_simps [simp]:
  "as_bytes [] = []" "as_bytes (s @ t) = as_bytes s @ as_bytes t" "as_bytes s = [] \<longleftrightarrow> s = []"
  by (simp_all add: as_bytes_def)

end
