(* ===== verification/Text.thy ===== *)
theory Text
  imports Prelude
begin

text \<open>
  The parts of Rust's standard library the program uses on text: UTF-8 validation
  (\<open>str::from_utf8\<close> and the offset its error reports), decimal formatting and parsing of
  integers, and the prefix/suffix/ASCII predicates of \<open>str\<close> and \<open>u8\<close>.
\<close>

section \<open>UTF-8\<close>

definition is_cont_byte :: "byte \<Rightarrow> bool" where
  "is_cont_byte b \<longleftrightarrow> 0x80 \<le> b \<and> b \<le> 0xBF"

text \<open>
  The length of the well-formed UTF-8 sequence at the head of a byte list (Table 3-7 of the
  Unicode standard), 0 when there is none.
\<close>

definition utf8_lead :: "byte \<Rightarrow> nat" where
  "utf8_lead b =
     (if b < 0x80 then 1
      else if 0xC2 \<le> b \<and> b \<le> 0xDF then 2
      else if 0xE0 \<le> b \<and> b \<le> 0xEF then 3
      else if 0xF0 \<le> b \<and> b \<le> 0xF4 then 4
      else 0)"

definition utf8_second :: "byte \<Rightarrow> byte \<Rightarrow> bool" where
  "utf8_second b c \<longleftrightarrow> is_cont_byte c
     \<and> (b = 0xE0 \<longrightarrow> 0xA0 \<le> c) \<and> (b = 0xED \<longrightarrow> c \<le> 0x9F)
     \<and> (b = 0xF0 \<longrightarrow> 0x90 \<le> c) \<and> (b = 0xF4 \<longrightarrow> c \<le> 0x8F)"

fun utf8_char_len :: "byte list \<Rightarrow> nat" where
  "utf8_char_len [] = 0"
| "utf8_char_len [b] = (if utf8_lead b = 1 then 1 else 0)"
| "utf8_char_len (b # c # cs) =
     (let n = utf8_lead b
      in if n \<le> 1 then n
         else if utf8_second b c \<and> n - 2 \<le> length cs \<and> list_all is_cont_byte (take (n - 2) cs)
         then n else 0)"

text \<open>\<open>None\<close> for valid input, otherwise the offset \<open>Utf8Error::valid_up_to\<close> reports.\<close>

function utf8_error_from :: "nat \<Rightarrow> byte list \<Rightarrow> nat option" where
  "utf8_error_from off bs =
     (if bs = [] then None
      else if utf8_char_len bs = 0 then Some off
      else utf8_error_from (off + utf8_char_len bs) (drop (utf8_char_len bs) bs))"
  by pat_completeness auto
termination
  by (relation "measure (\<lambda>(off, bs). length bs)") auto

declare utf8_error_from.simps [simp del]

definition utf8_error :: "byte list \<Rightarrow> nat option" where
  "utf8_error bs = utf8_error_from 0 bs"

definition utf8_valid :: "byte list \<Rightarrow> bool" where
  "utf8_valid bs \<longleftrightarrow> utf8_error bs = None"

lemma utf8_error_from_Nil [simp]: "utf8_error_from off [] = None"
  by (simp add: utf8_error_from.simps)

lemma utf8_char_len_le: "utf8_char_len bs \<le> length bs"
  by (induction bs rule: utf8_char_len.induct) (auto simp: Let_def)

lemma utf8_char_len_append:
  "utf8_char_len xs \<noteq> 0 \<Longrightarrow> utf8_char_len (xs @ ys) = utf8_char_len xs"
proof (induction xs rule: utf8_char_len.induct)
  case (2 b)
  then show ?case by (cases ys) (auto simp: Let_def split: if_splits)
next
  case (3 b c cs)
  then show ?case by (auto simp: Let_def split: if_splits)
qed simp

lemma utf8_error_from_append:
  "utf8_error_from off xs = None \<Longrightarrow>
   utf8_error_from off (xs @ ys) = utf8_error_from (off + length xs) ys"
proof (induction off xs rule: utf8_error_from.induct)
  case (1 off bs)
  show ?case
  proof (cases "bs = []")
    case False
    with "1.prems" have n: "utf8_char_len bs \<noteq> 0"
      and r: "utf8_error_from (off + utf8_char_len bs) (drop (utf8_char_len bs) bs) = None"
      by (auto simp: utf8_error_from.simps [of off bs] split: if_splits)
    have "utf8_error_from off (bs @ ys) =
        utf8_error_from (off + utf8_char_len bs) (drop (utf8_char_len bs) bs @ ys)"
      using False n utf8_char_len_le [of bs]
      by (simp add: utf8_error_from.simps [of off "bs @ ys"] utf8_char_len_append)
    also have "\<dots> = utf8_error_from (off + length bs) ys"
      using "1.IH" [OF False n r] utf8_char_len_le [of bs] by simp
    finally show ?thesis .
  qed simp
qed

lemma utf8_error_from_shift:
  "utf8_error_from (k + off) bs = map_option (\<lambda>n. k + n) (utf8_error_from off bs)"
proof (induction off bs rule: utf8_error_from.induct)
  case (1 off bs)
  consider "bs = []" | "bs \<noteq> []" "utf8_char_len bs = 0" | "bs \<noteq> []" "utf8_char_len bs \<noteq> 0"
    by blast
  then show ?case
    by cases (simp_all add: utf8_error_from.simps [of _ bs] 1 add.assoc)
qed

lemma utf8_error_from_None: "utf8_error_from off bs = None \<longleftrightarrow> utf8_valid bs"
  using utf8_error_from_shift [of off 0 bs] by (simp add: utf8_valid_def utf8_error_def)

lemma utf8_valid_append: "utf8_valid xs \<Longrightarrow> utf8_valid (xs @ ys) = utf8_valid ys"
proof -
  assume "utf8_valid xs"
  then have "utf8_error_from 0 (xs @ ys) = utf8_error_from (length xs) ys"
    by (simp add: utf8_error_from_append utf8_error_from_None)
  then show ?thesis
    using utf8_error_from_None [of 0 "xs @ ys"] utf8_error_from_None [of "length xs" ys] by simp
qed

lemma utf8_valid_Nil [simp]: "utf8_valid []"
  by (simp add: utf8_valid_def utf8_error_def)

lemma utf8_valid_ascii: "\<forall>b \<in> set bs. b < 0x80 \<Longrightarrow> utf8_valid bs"
proof (induction bs)
  case (Cons b bs)
  then have "utf8_valid [b]"
    by (simp add: utf8_valid_def utf8_error_def utf8_error_from.simps [of _ "[b]"] utf8_lead_def)
  then show ?case
    using Cons utf8_valid_append [of "[b]" bs] by simp
qed simp

text \<open>A \<open>&str\<close> holds valid UTF-8.\<close>

definition str_ok :: "string \<Rightarrow> bool" where
  "str_ok s \<longleftrightarrow> utf8_valid (as_bytes s)"

lemma str_ok_Nil [simp]: "str_ok []"
  by (simp add: str_ok_def)

definition str_ascii :: "string \<Rightarrow> bool" where
  "str_ascii s \<longleftrightarrow> (\<forall>c \<in> set s. (of_char c :: nat) < 128)"

lemma str_ascii_ok: "str_ascii s \<Longrightarrow> str_ok s"
proof -
  assume a: "str_ascii s"
  have "(of_char c :: byte) < 0x80" if "c \<in> set s" for c
    using a that by (simp add: str_ascii_def word_less_nat_alt unat_of_char)
  then show "str_ok s"
    by (auto simp: str_ok_def as_bytes_def intro!: utf8_valid_ascii)
qed

section \<open>Decimal numbers\<close>

fun show_nat :: "nat \<Rightarrow> string" where
  "show_nat n = (if n < 10 then [char_of (48 + n)]
     else show_nat (n div 10) @ [char_of (48 + n mod 10)])"

declare show_nat.simps [simp del]

definition show_int :: "int \<Rightarrow> string" where
  "show_int i = (if i < 0 then CHR ''-'' # show_nat (nat (- i)) else show_nat (nat i))"

definition digit_of :: "char \<Rightarrow> nat option" where
  "digit_of c = (let n = of_char c :: nat in if 48 \<le> n \<and> n \<le> 57 then Some (n - 48) else None)"

fun digits_value :: "nat \<Rightarrow> string \<Rightarrow> nat option" where
  "digits_value acc [] = Some acc"
| "digits_value acc (c # cs) =
     (case digit_of c of None \<Rightarrow> None | Some d \<Rightarrow> digits_value (10 * acc + d) cs)"

text \<open>
  \<open>str::parse\<close> for an unsigned type of \<open>w\<close> bits and for a signed one: an optional sign
  (\<open>-\<close> only for signed types), at least one digit, a value in range.
\<close>

definition parse_unsigned :: "nat \<Rightarrow> string \<Rightarrow> nat option" where
  "parse_unsigned w s =
     (let ds = (case s of c # cs \<Rightarrow> if c = CHR ''+'' then cs else s | [] \<Rightarrow> [])
      in if ds = [] then None
         else (case digits_value 0 ds of None \<Rightarrow> None
               | Some n \<Rightarrow> if n < 2 ^ w then Some n else None))"

definition parse_signed :: "nat \<Rightarrow> string \<Rightarrow> int option" where
  "parse_signed w s =
     (let neg = (case s of c # _ \<Rightarrow> c = CHR ''-'' | [] \<Rightarrow> False);
          ds = (case s of c # cs \<Rightarrow> if c = CHR ''+'' \<or> c = CHR ''-'' then cs else s | [] \<Rightarrow> [])
      in if ds = [] then None
         else (case digits_value 0 ds of None \<Rightarrow> None
               | Some n \<Rightarrow> (let i = if neg then - int n else int n
                            in if - (2 ^ (w - 1)) \<le> i \<and> i < 2 ^ (w - 1) then Some i else None)))"

lemma of_char_digit: "n < 10 \<Longrightarrow> of_char (char_of (48 + n) :: char) = 48 + (n :: nat)"
  by simp

lemma digit_of_char_of [simp]: "n < 10 \<Longrightarrow> digit_of (char_of (48 + n :: nat)) = Some n"
  by (simp add: digit_of_def)

lemma digits_value_append:
  "digits_value acc (xs @ ys) =
     (case digits_value acc xs of None \<Rightarrow> None | Some m \<Rightarrow> digits_value m ys)"
  by (induction acc xs rule: digits_value.induct) (auto split: option.splits)

lemma digits_value_show_nat: "digits_value 0 (show_nat n) = Some n"
proof (induction n rule: show_nat.induct)
  case (1 n)
  show ?case
  proof (cases "n < 10")
    case True
    then show ?thesis by (simp add: show_nat.simps [of n])
  next
    case False
    then show ?thesis
      using 1 by (simp add: show_nat.simps [of n] digits_value_append)
  qed
qed

lemma show_nat_not_Nil [simp]: "show_nat n \<noteq> []"
  by (simp add: show_nat.simps [of n])

lemma show_nat_digits: "c \<in> set (show_nat n) \<Longrightarrow> \<exists>d < 10. c = char_of (48 + d :: nat)"
proof (induction n rule: show_nat.induct)
  case (1 n)
  then show ?case
    by (cases "n < 10") (auto simp: show_nat.simps [of n] intro: exI [of _ "n mod 10"])
qed

lemma show_nat_sign_free: "c \<in> set (show_nat n) \<Longrightarrow> c \<noteq> CHR ''+'' \<and> c \<noteq> CHR ''-''"
proof -
  assume "c \<in> set (show_nat n)"
  then obtain d where d: "d < 10" "c = char_of (48 + d :: nat)"
    using show_nat_digits by blast
  then have "(of_char c :: nat) \<ge> 48"
    by (simp only: d(2) of_char_digit)
  then show ?thesis by auto
qed

lemma show_nat_ConsE:
  obtains c cs where "show_nat n = c # cs" and "c \<noteq> CHR ''+''" and "c \<noteq> CHR ''-''"
  using show_nat_sign_free [of _ n] by (cases "show_nat n") auto

lemma parse_unsigned_show_nat:
  assumes "n < 2 ^ w"
  shows "parse_unsigned w (show_nat n) = Some n"
proof (rule show_nat_ConsE [of n])
  fix c cs
  assume s: "show_nat n = c # cs" and c: "c \<noteq> CHR ''+''"
  have "digits_value 0 (c # cs) = Some n"
    using digits_value_show_nat [of n] by (simp only: s)
  then show ?thesis
    using assms c by (simp add: parse_unsigned_def s del: digits_value.simps)
qed

lemma parse_signed_show_int:
  assumes "- (2 ^ (w - 1)) \<le> i" and "i < 2 ^ (w - 1)"
  shows "parse_signed w (show_int i) = Some i"
proof (cases "i < 0")
  case True
  then show ?thesis
    using assms by (simp add: parse_signed_def show_int_def digits_value_show_nat Let_def)
next
  case False
  show ?thesis
  proof (rule show_nat_ConsE [of "nat i"])
    fix c cs
    assume s: "show_nat (nat i) = c # cs" and c: "c \<noteq> CHR ''+''" "c \<noteq> CHR ''-''"
    have "digits_value 0 (c # cs) = Some (nat i)"
      using digits_value_show_nat [of "nat i"] by (simp only: s)
    then show ?thesis
      using False assms c
      by (simp add: parse_signed_def show_int_def s Let_def del: digits_value.simps)
  qed
qed

lemma str_ascii_show_nat: "str_ascii (show_nat n)"
  using show_nat_digits [of _ n] of_char_digit by (fastforce simp: str_ascii_def)

section \<open>Prefixes and suffixes\<close>

definition starts_with :: "string \<Rightarrow> string \<Rightarrow> bool" where
  "starts_with s p \<longleftrightarrow> take (length p) s = p"

definition ends_with :: "string \<Rightarrow> string \<Rightarrow> bool" where
  "ends_with s p \<longleftrightarrow> length p \<le> length s \<and> drop (length s - length p) s = p"

definition strip_prefix :: "string \<Rightarrow> string \<Rightarrow> string option" where
  "strip_prefix p s = (if starts_with s p then Some (drop (length p) s) else None)"

lemma strip_prefix_append [simp]: "strip_prefix p (p @ s) = Some s"
  by (simp add: strip_prefix_def starts_with_def)

lemma strip_prefix_Some: "strip_prefix p s = Some t \<Longrightarrow> s = p @ t"
  by (auto simp: strip_prefix_def starts_with_def split: if_splits)
     (metis append_take_drop_id)

definition strip_suffix :: "string \<Rightarrow> string \<Rightarrow> string option" where
  "strip_suffix p s = (if ends_with s p then Some (take (length s - length p) s) else None)"

lemma starts_with_append [simp]: "starts_with (p @ s) p"
  by (simp add: starts_with_def)

text \<open>\<open>split_once\<close> and \<open>rsplit_once\<close> at an ASCII character.\<close>

definition split_once :: "char \<Rightarrow> string \<Rightarrow> (string \<times> string) option" where
  "split_once c s =
     (if c \<in> set s then Some (takeWhile (\<lambda>x. x \<noteq> c) s, tl (dropWhile (\<lambda>x. x \<noteq> c) s)) else None)"

definition rsplit_once :: "char \<Rightarrow> string \<Rightarrow> (string \<times> string) option" where
  "rsplit_once c s = map_option (\<lambda>(post, pre). (rev pre, rev post)) (split_once c (rev s))"

lemma split_once_append: "c \<notin> set p \<Longrightarrow> split_once c (p @ c # s) = Some (p, s)"
  by (induction p) (auto simp: split_once_def)

lemma rsplit_once_append: "c \<notin> set s \<Longrightarrow> rsplit_once c (p @ c # s) = Some (p, s)"
  by (simp add: rsplit_once_def split_once_append)

lemma split_once_SomeD: "split_once c s = Some (p, t) \<Longrightarrow> s = p @ c # t \<and> c \<notin> set p"
proof -
  assume a: "split_once c s = Some (p, t)"
  then have c: "c \<in> set s" and p: "p = takeWhile (\<lambda>x. x \<noteq> c) s" and t: "t = tl (dropWhile (\<lambda>x. x \<noteq> c) s)"
    by (auto simp: split_once_def split: if_splits)
  have "dropWhile (\<lambda>x. x \<noteq> c) s \<noteq> []"
    using c by (auto simp: dropWhile_eq_Nil_conv)
  then have "dropWhile (\<lambda>x. x \<noteq> c) s = c # t"
    using hd_dropWhile [of "\<lambda>x. x \<noteq> c" s] by (cases "dropWhile (\<lambda>x. x \<noteq> c) s") (auto simp: t)
  then show ?thesis
    using takeWhile_dropWhile_id [of "\<lambda>x. x \<noteq> c" s] set_takeWhileD [of c "\<lambda>x. x \<noteq> c" s] by (auto simp: p)
qed

lemma rsplit_once_SomeD:
  assumes "rsplit_once c s = Some (p, t)"
  shows "s = p @ c # t \<and> c \<notin> set t"
proof -
  obtain post pre where e: "split_once c (rev s) = Some (post, pre)" "p = rev pre" "t = rev post"
    using assms by (auto simp: rsplit_once_def)
  then have "rev s = post @ c # pre" "c \<notin> set post"
    using split_once_SomeD by blast+
  then have "s = rev (post @ c # pre)"
    by (metis rev_rev_ident)
  with e \<open>c \<notin> set post\<close> show ?thesis by simp
qed

lemma split_once_None: "split_once c s = None \<longleftrightarrow> c \<notin> set s"
  by (simp add: split_once_def)

section \<open>Lossy conversion\<close>

text \<open>
  \<open>String::from_utf8_lossy\<close>: each maximal prefix of an ill-formed sequence becomes U+FFFD.
  \<open>utf8_bad_len\<close> is the length of that prefix at the head of a list with no well-formed
  sequence there.
\<close>

definition utf8_bad_len :: "byte list \<Rightarrow> nat" where
  "utf8_bad_len bs = (case bs of
      b # c # d # _ \<Rightarrow>
        if utf8_lead b \<le> 1 \<or> \<not> utf8_second b c then 1
        else if utf8_lead b = 4 \<and> is_cont_byte d then 3
        else if utf8_lead b = 2 then 1 else 2
    | [b, c] \<Rightarrow> if 3 \<le> utf8_lead b \<and> utf8_second b c then 2 else 1
    | _ \<Rightarrow> 1)"

definition replacement_char :: "byte list" where
  "replacement_char = [0xEF, 0xBF, 0xBD]"

function lossy_bytes :: "byte list \<Rightarrow> byte list" where
  "lossy_bytes bs =
     (if bs = [] then []
      else if utf8_char_len bs = 0 then replacement_char @ lossy_bytes (drop (utf8_bad_len bs) bs)
      else take (utf8_char_len bs) bs @ lossy_bytes (drop (utf8_char_len bs) bs))"
  by pat_completeness auto
termination
  by (relation "measure length") (auto simp: utf8_bad_len_def split: list.splits)

declare lossy_bytes.simps [simp del]

definition from_utf8_lossy :: "byte list \<Rightarrow> string" where
  "from_utf8_lossy bs = str_of_bytes (lossy_bytes bs)"

lemma lossy_bytes_valid: "utf8_error_from off bs = None \<Longrightarrow> lossy_bytes bs = bs"
proof (induction off bs rule: utf8_error_from.induct)
  case (1 off bs)
  show ?case
  proof (cases "bs = []")
    case False
    with "1.prems" have n: "utf8_char_len bs \<noteq> 0"
      by (auto simp: utf8_error_from.simps [of off bs] split: if_splits)
    then have "utf8_error_from (off + utf8_char_len bs) (drop (utf8_char_len bs) bs) = None"
      using "1.prems" False by (simp add: utf8_error_from.simps [of off bs])
    with "1.IH" [OF False n] show ?thesis
      using False n by (simp add: lossy_bytes.simps [of bs])
  qed (simp add: lossy_bytes.simps)
qed

lemma from_utf8_lossy_valid: "str_ok s \<Longrightarrow> from_utf8_lossy (as_bytes s) = s"
  using lossy_bytes_valid [of 0 "as_bytes s"]
  by (simp add: from_utf8_lossy_def str_ok_def utf8_valid_def utf8_error_def)

section \<open>White space and case\<close>

text \<open>The characters with the Unicode property \<open>White_Space\<close>, as UTF-8, and \<open>str::trim\<close>.\<close>

definition white_space :: "string list" where
  "white_space = map (\<lambda>n. [char_of n]) [9, 10, 11, 12, 13, 32 :: nat]
     @ map str_of_bytes [[0xC2, 0x85], [0xC2, 0xA0], [0xE1, 0x9A, 0x80], [0xE2, 0x80, 0xA8],
         [0xE2, 0x80, 0xA9], [0xE2, 0x80, 0xAF], [0xE2, 0x81, 0x9F], [0xE3, 0x80, 0x80]]
     @ map (\<lambda>n. str_of_bytes [0xE2, 0x80, word_of_nat n]) [128..<139]"

lemma white_space_not_Nil: "p \<in> set white_space \<Longrightarrow> p \<noteq> []"
  by (auto simp: white_space_def str_of_bytes_def)

function trim_start :: "string \<Rightarrow> string" where
  "trim_start s = (case find (starts_with s) white_space of
      None \<Rightarrow> s
    | Some p \<Rightarrow> trim_start (drop (length p) s))"
  by pat_completeness auto
termination
proof (relation "measure length")
  fix s p
  assume "find (starts_with s) white_space = Some p"
  then have "p \<in> set white_space" "starts_with s p"
    by (auto simp: find_Some_iff)
  then have "0 < length p" "length p \<le> length s"
    using white_space_not_Nil [of p] by (auto simp: starts_with_def) (metis length_take min.cobounded1)
  then show "(drop (length p) s, s) \<in> measure length"
    by (cases s) auto
qed simp

function trim_end :: "string \<Rightarrow> string" where
  "trim_end s = (case find (ends_with s) white_space of
      None \<Rightarrow> s
    | Some p \<Rightarrow> trim_end (take (length s - length p) s))"
  by pat_completeness auto
termination
proof (relation "measure length")
  fix s p
  assume "find (ends_with s) white_space = Some p"
  then have "p \<in> set white_space" "ends_with s p"
    by (auto simp: find_Some_iff)
  then have "0 < length p" "length p \<le> length s"
    using white_space_not_Nil [of p] by (auto simp: ends_with_def)
  then show "(take (length s - length p) s, s) \<in> measure length"
    by (cases s) auto
qed simp

declare trim_start.simps [simp del] trim_end.simps [simp del]

definition str_trim :: "string \<Rightarrow> string" where
  "str_trim s = trim_end (trim_start s)"

definition ascii_lower :: "char \<Rightarrow> char" where
  "ascii_lower c = (let n = of_char c :: nat in if 65 \<le> n \<and> n \<le> 90 then char_of (n + 32) else c)"

definition to_ascii_lowercase :: "string \<Rightarrow> string" where
  "to_ascii_lowercase s = map ascii_lower s"

end
