(* ===== verification/Core_Error.thy ===== *)
theory Core_Error
  imports Text
begin

text \<open>
  The error type of the wire-format runtime (\<open>tpt-proto-core/src/error.rs\<close>), its
  messages and its conversion from a UTF-8 validation error.
\<close>

datatype error =
    UnexpectedEof
  | VarintTooLong
  | InvalidTag u32
  | LengthLimitExceeded nat
  | Utf8Error nat
  | IntegerOverflow
  | UnterminatedGroup u32
  | DepthLimitExceeded
  | LimitExceeded string
  | UnexpectedWireType byte
  | MalformedInput string
  | Custom string

type_synonym 'a core_res = "(error, 'a) res"

fun error_display :: "error \<Rightarrow> string" where
  "error_display UnexpectedEof = ''unexpected end of input buffer''"
| "error_display VarintTooLong = ''varint is longer than 10 bytes''"
| "error_display (InvalidTag tag) = ''invalid field tag: '' @ show_nat (unat tag)"
| "error_display (LengthLimitExceeded len) =
     ''length-delimited field length '' @ show_nat len @ '' exceeds remaining input''"
| "error_display (Utf8Error off) =
     ''string field contained invalid UTF-8 at byte '' @ show_nat off"
| "error_display IntegerOverflow = ''integer value did not fit in the target type''"
| "error_display (UnterminatedGroup n) = ''unterminated group for field '' @ show_nat (unat n)"
| "error_display DepthLimitExceeded = ''maximum nesting depth exceeded''"
| "error_display (LimitExceeded which) = ''decode limit exceeded: '' @ which"
| "error_display (UnexpectedWireType found) = ''unexpected wire type '' @ show_nat (unat found)"
| "error_display (MalformedInput what) = ''malformed input: '' @ what"
| "error_display (Custom msg) = msg"

text \<open>\<open>std::str::from_utf8(bytes)?\<close>: the text, or the error with its offset.\<close>

definition from_utf8 :: "byte list \<Rightarrow> string core_res" where
  "from_utf8 bs = (case utf8_error bs of None \<Rightarrow> Inr (str_of_bytes bs)
     | Some off \<Rightarrow> Inl (Raised (Utf8Error off)))"

lemma from_utf8_as_bytes [result_simps]: "str_ok s \<Longrightarrow> from_utf8 (as_bytes s) = Inr s"
  by (simp add: from_utf8_def str_ok_def utf8_valid_def)

lemma from_utf8_InrD: "from_utf8 bs = Inr s \<Longrightarrow> s = str_of_bytes bs \<and> str_ok s"
  by (auto simp: from_utf8_def str_ok_def utf8_valid_def split: option.splits)

lemma panics_from_utf8 [simp]: "\<not> panics (from_utf8 bs)"
  by (simp add: from_utf8_def split: option.splits)

end
