(* ===== verification/Limits.thy ===== *)
theory Limits
  imports Core_Error
begin

text \<open>
  Decode limits (\<open>tpt-proto-core/src/limits.rs\<close>): the caps a reader enforces, the defaults,
  and the checks, each of which fails with the name of the cap it found exceeded.
\<close>

record decoder_limits =
  max_bytes :: "nat option"
  max_depth :: nat
  max_fields :: "nat option"
  max_length_delimited :: "nat option"
  max_string_len :: "nat option"
  max_unknown_bytes :: "nat option"

definition default_limits :: decoder_limits where
  "default_limits = \<lparr>max_bytes = Some (64 * 1024 * 1024), max_depth = 100,
     max_fields = Some 1000000, max_length_delimited = Some (16 * 1024 * 1024),
     max_string_len = Some (16 * 1024 * 1024), max_unknown_bytes = Some (16 * 1024 * 1024)\<rparr>"

definition unlimited :: decoder_limits where
  "unlimited = \<lparr>max_bytes = None, max_depth = 2 ^ 32 - 1, max_fields = None,
     max_length_delimited = None, max_string_len = None, max_unknown_bytes = None\<rparr>"

definition check_bytes :: "decoder_limits \<Rightarrow> nat \<Rightarrow> unit core_res" where
  "check_bytes l n = (case max_bytes l of None \<Rightarrow> Inr ()
     | Some cap \<Rightarrow> if cap < n then Inl (Raised (LimitExceeded ''max_bytes'')) else Inr ())"

definition check_field :: "decoder_limits \<Rightarrow> nat \<Rightarrow> unit core_res" where
  "check_field l count = (case max_fields l of None \<Rightarrow> Inr ()
     | Some cap \<Rightarrow> if cap < count then Inl (Raised (LimitExceeded ''max_fields'')) else Inr ())"

definition check_length :: "decoder_limits \<Rightarrow> nat \<Rightarrow> unit core_res" where
  "check_length l len = (case max_length_delimited l of None \<Rightarrow> Inr ()
     | Some cap \<Rightarrow> if cap < len then Inl (Raised (LimitExceeded ''max_length_delimited'')) else Inr ())"

definition check_string :: "decoder_limits \<Rightarrow> nat \<Rightarrow> unit core_res" where
  "check_string l len = (case max_string_len l of None \<Rightarrow> Inr ()
     | Some cap \<Rightarrow> if cap < len then Inl (Raised (LimitExceeded ''max_string_len'')) else Inr ())"

definition check_unknown :: "decoder_limits \<Rightarrow> nat \<Rightarrow> unit core_res" where
  "check_unknown l n = (case max_unknown_bytes l of None \<Rightarrow> Inr ()
     | Some cap \<Rightarrow> if cap < n then Inl (Raised (LimitExceeded ''max_unknown_bytes'')) else Inr ())"

lemmas check_defs = check_bytes_def check_field_def check_length_def check_string_def check_unknown_def

lemma check_eq [limit_defs]:
  "check_bytes l n = (if within (max_bytes l) n then Inr () else Inl (Raised (LimitExceeded ''max_bytes'')))"
  "check_field l n = (if within (max_fields l) n then Inr () else Inl (Raised (LimitExceeded ''max_fields'')))"
  "check_length l n = (if within (max_length_delimited l) n then Inr ()
     else Inl (Raised (LimitExceeded ''max_length_delimited'')))"
  "check_string l n = (if within (max_string_len l) n then Inr ()
     else Inl (Raised (LimitExceeded ''max_string_len'')))"
  "check_unknown l n = (if within (max_unknown_bytes l) n then Inr ()
     else Inl (Raised (LimitExceeded ''max_unknown_bytes'')))"
  by (simp_all add: check_defs within_def split: option.splits)

lemma panics_check [simp]:
  "\<not> panics (check_bytes l n)" "\<not> panics (check_field l n)" "\<not> panics (check_length l n)"
  "\<not> panics (check_string l n)" "\<not> panics (check_unknown l n)"
  by (simp_all add: check_eq)

lemma diverges_check [simp]:
  "\<not> diverges (check_bytes l n)" "\<not> diverges (check_field l n)" "\<not> diverges (check_length l n)"
  "\<not> diverges (check_string l n)" "\<not> diverges (check_unknown l n)"
  by (simp_all add: check_eq)

text \<open>
  Limits under which no reader can overflow a counter: every length is capped well inside
  \<open>usize\<close>, and the depth counter cannot reach its maximum.
\<close>

definition capped :: "decoder_limits \<Rightarrow> bool" where
  "capped l \<longleftrightarrow> (\<exists>c. max_length_delimited l = Some c \<and> c < 2 ^ 63) \<and> max_depth l < 2 ^ 32 - 1"

lemma capped_default [simp]: "capped default_limits"
  by (simp add: capped_def default_limits_def)

lemma cappedD: "capped l \<Longrightarrow> within (max_length_delimited l) n \<Longrightarrow> n < 2 ^ 63"
  by (auto simp: capped_def)

end
