(* ===== verification/Varint.thy ===== *)
theory Varint
  imports Core_Error
begin

text \<open>
  Base-128 varints and zigzag integers (\<open>tpt-proto-core/src/varint.rs\<close>). The loops of
  the source are the recursive functions here: \<open>encode_varint\<close> on the remaining value,
  \<open>decode_varint_loop\<close> on the position \<open>i\<close>, the \<open>shift\<close> and the accumulated
  \<open>result\<close>.
\<close>

section \<open>Definitions\<close>

definition MAX_VARINT_LEN :: nat where
  "MAX_VARINT_LEN = 10"

lemma unat_drop_bit_less: "0x80 \<le> (v :: u64) \<Longrightarrow> unat (drop_bit 7 v) < unat v"
  unfolding unat_drop_bit_div by (simp add: word_le_nat_alt)

function encode_varint :: "u64 \<Rightarrow> byte list \<Rightarrow> byte list" where
  "encode_varint value buf =
     (if 0x80 \<le> value
      then encode_varint (drop_bit 7 value) (buf @ [ucast value OR 0x80])
      else buf @ [ucast value])"
  by pat_completeness auto
termination
  by (relation "measure (\<lambda>(v, b). unat v)") (auto intro: unat_drop_bit_less)

declare encode_varint.simps [simp del]

function decode_varint_loop ::
  "byte list \<Rightarrow> nat \<Rightarrow> u64 \<Rightarrow> nat \<Rightarrow> nat \<Rightarrow> (u64 \<times> nat) core_res" where
  "decode_varint_loop bytes start result shift i =
     (if length bytes \<le> i then Inl (Raised UnexpectedEof)
      else let byte = bytes ! i in
      if i - start = MAX_VARINT_LEN \<and> 1 < byte AND 0x7F then Inl (Raised VarintTooLong)
      else if 64 \<le> shift then Inl (Raised VarintTooLong)
      else let result' = result OR push_bit shift (ucast (byte AND 0x7F)) in
      if byte AND 0x80 = 0 then Inr (result', Suc i - start)
      else decode_varint_loop bytes start result' (shift + 7) (Suc i))"
  by pat_completeness auto
termination
  by (relation "measure (\<lambda>(bytes, start, result, shift, i). length bytes - i)") auto

declare decode_varint_loop.simps [simp del]

definition decode_varint :: "byte list \<Rightarrow> nat \<Rightarrow> (u64 \<times> nat) core_res" where
  "decode_varint bytes start = decode_varint_loop bytes start 0 0 start"

definition encode_zigzag32 :: "i32 \<Rightarrow> u32" where
  "encode_zigzag32 value = push_bit 1 value XOR signed_drop_bit 31 value"

definition decode_zigzag32 :: "u32 \<Rightarrow> i32" where
  "decode_zigzag32 value = drop_bit 1 value XOR - (value AND 1)"

definition encode_zigzag64 :: "i64 \<Rightarrow> u64" where
  "encode_zigzag64 value = push_bit 1 value XOR signed_drop_bit 63 value"

definition decode_zigzag64 :: "u64 \<Rightarrow> i64" where
  "decode_zigzag64 value = drop_bit 1 value XOR - (value AND 1)"

section \<open>The bytes of a varint\<close>

text \<open>\<open>varint v\<close> is what \<open>encode_varint\<close> appends.\<close>

definition varint :: "u64 \<Rightarrow> byte list" where
  "varint v = encode_varint v []"

lemma encode_varint_append: "encode_varint v (xs @ buf) = xs @ encode_varint v buf"
proof (induction v buf arbitrary: xs rule: encode_varint.induct)
  case (1 v buf)
  then show ?case
    by (cases "0x80 \<le> v") (simp_all add: encode_varint.simps [of v])
qed

lemma encode_varint_eq [buffer_simps]: "encode_varint v buf = buf @ varint v"
  using encode_varint_append [of v buf "[]"] by (simp add: varint_def)

lemma varint_small: "v < 0x80 \<Longrightarrow> varint v = [ucast v]"
  by (simp add: varint_def encode_varint.simps)

lemma varint_big: "0x80 \<le> v \<Longrightarrow> varint v = (ucast v OR 0x80) # varint (drop_bit 7 v)"
  using encode_varint.simps [of v "[]"] encode_varint_eq [of "drop_bit 7 v" "[ucast v OR 0x80]"]
  by (simp add: varint_def)

lemma varint_induct [case_names small big]:
  assumes "\<And>v. v < 0x80 \<Longrightarrow> P v"
    and "\<And>v. 0x80 \<le> v \<Longrightarrow> P (drop_bit 7 v) \<Longrightarrow> P v"
  shows "P (v :: u64)"
proof (induction v rule: measure_induct_rule [where f = unat])
  case (less v)
  then show ?case
    using assms unat_drop_bit_less [of v] by (cases "0x80 \<le> v") (auto simp: not_le)
qed

lemma varint_not_Nil [simp]: "varint v \<noteq> []"
  by (cases "0x80 \<le> v") (auto simp: varint_small varint_big not_le)

lemma length_varint_pos: "0 < length (varint v)"
  by simp

lemma length_varint_le: "unat v < 2 ^ (7 * k) \<Longrightarrow> 0 < k \<Longrightarrow> length (varint v) \<le> k"
proof (induction v arbitrary: k rule: varint_induct)
  case (small v)
  then show ?case by (simp add: varint_small)
next
  case (big v)
  then obtain j where k: "k = Suc j" by (cases k) auto
  have v: "128 \<le> unat v" using big.hyps(1) by (simp add: word_le_nat_alt)
  have "unat (drop_bit 7 v) < 2 ^ (7 * j)"
    using big.prems(1) unfolding unat_drop_bit_div
    by (simp add: k power_add less_mult_imp_div_less mult.commute)
  moreover have "0 < j"
    using big.prems(1) v by (cases j) (auto simp: k)
  ultimately show ?case
    using big by (simp add: varint_big k)
qed

lemma length_varint_le_10: "length (varint v) \<le> 10"
proof -
  have "unat v < 2 ^ LENGTH(64)" by (rule unsigned_less)
  then have "unat v < 2 ^ (7 * 10)" by simp
  then show ?thesis by (rule length_varint_le) simp
qed

section \<open>Decoding what was encoded\<close>

lemma low7_of_cont: "(ucast (((ucast (v :: u64) :: byte) OR 0x80) AND 0x7F) :: u64) = v AND 0x7F"
  by (rule bit_eqI) (auto simp: bit_simps bit_consts)

lemma low7_of_last: "v < 0x80 \<Longrightarrow> (ucast ((ucast (v :: u64) :: byte) AND 0x7F) :: u64) = v"
proof -
  assume "v < 0x80"
  moreover have "ucast ((ucast v :: byte) AND 0x7F) = take_bit 7 v"
    by (rule bit_eqI) (auto simp: bit_simps bit_consts)
  ultimately show ?thesis
    by (simp add: take_bit_7_self)
qed

lemma high_bit_cont: "((ucast (v :: u64) :: byte) OR 0x80) AND 0x80 \<noteq> 0"
proof
  assume "((ucast v :: byte) OR 0x80) AND 0x80 = 0"
  then have "bit (((ucast v :: byte) OR 0x80) AND 0x80) 7 = bit (0 :: byte) 7"
    by (rule arg_cong)
  then show False
    by (simp add: bit_and_iff bit_or_iff bit_consts)
qed

lemma high_bit_last: "(v :: u64) < 0x80 \<Longrightarrow> (ucast v :: byte) AND 0x80 = 0"
proof (rule bit_eqI)
  fix n
  assume "v < 0x80"
  then have "\<not> bit v 7"
    by (metis bit_take_bit_iff less_irrefl take_bit_7_self)
  then show "bit ((ucast v :: byte) AND 0x80) n = bit (0 :: byte) n"
    by (auto simp: bit_and_iff bit_ucast_iff bit_consts)
qed

text \<open>
  The reading of the encoding guide, independent of the loop: a varint is one to ten bytes,
  all but the last with the continuation bit, and stands for the base-128 number of their
  low seven bits, least significant group first.
\<close>

fun varint_bytes :: "byte list \<Rightarrow> bool" where
  "varint_bytes [] = False"
| "varint_bytes [b] = (b AND 0x80 = 0)"
| "varint_bytes (b # c # cs) = (b AND 0x80 \<noteq> 0 \<and> varint_bytes (c # cs))"

fun leb128 :: "byte list \<Rightarrow> nat" where
  "leb128 [] = 0"
| "leb128 (b # bs) = unat (b AND 0x7F) + 128 * leb128 bs"

lemma varint_bytes_not_Nil: "varint_bytes bs \<Longrightarrow> bs \<noteq> []"
  by auto

lemma varint_bytes_Cons:
  "varint_bytes (b # bs) \<longleftrightarrow> (if bs = [] then b AND 0x80 = 0 else b AND 0x80 \<noteq> 0 \<and> varint_bytes bs)"
  by (cases bs) auto

lemma word_of_leb128_Cons:
  "(word_of_nat (leb128 (b # bs)) :: u64) = ucast (b AND 0x7F) OR push_bit 7 (word_of_nat (leb128 bs))"
proof -
  have "ucast (b AND 0x7F) AND push_bit 7 (word_of_nat (leb128 bs)) = (0 :: u64)"
    by (rule bit_eqI) (auto simp: bit_simps bit_consts)
  then have "ucast (b AND 0x7F) OR push_bit 7 (word_of_nat (leb128 bs)) =
      ucast (b AND 0x7F) + (push_bit 7 (word_of_nat (leb128 bs)) :: u64)"
    by (simp add: disjunctive_add_eq_or)
  also have "ucast (b AND 0x7F) = (word_of_nat (unat (b AND 0x7F)) :: u64)"
    by simp
  finally show ?thesis
    by (simp add: push_bit_eq_mult mult.commute)
qed

lemma varint_bytes_varint: "varint_bytes (varint v)"
proof (induction v rule: varint_induct)
  case (small v)
  then show ?case by (simp add: varint_small high_bit_last)
next
  case (big v)
  then show ?case using high_bit_cont [of v] by (simp add: varint_big varint_bytes_Cons)
qed

lemma leb128_varint: "word_of_nat (leb128 (varint v)) = v"
proof (induction v rule: varint_induct)
  case (small v)
  then show ?case
    using word_of_leb128_Cons [of "ucast v" "[]"] by (simp add: varint_small low7_of_last)
next
  case (big v)
  have "n < 7 \<or> 7 + (n - 7) = n" for n :: nat
    by linarith
  then have "v AND 0x7F OR push_bit 7 (drop_bit 7 v) = v"
    by (intro bit_eqI) (auto simp: bit_simps bit_consts, metis)
  then show ?case
    using word_of_leb128_Cons [of "ucast v OR 0x80" "varint (drop_bit 7 v)"] big
    by (simp add: varint_big low7_of_cont del: leb128.simps)
qed

section \<open>What the decoding loop accepts\<close>

lemma decode_varint_loop_accepts:
  assumes "varint_bytes bs" and "drop i bytes = bs @ rest" and "start \<le> i"
    and "shift = 7 * (i - start)" and "i - start + length bs \<le> 10"
  shows "decode_varint_loop bytes start result shift i =
      Inr (result OR push_bit shift (word_of_nat (leb128 bs)), i - start + length bs)"
  using assms
proof (induction bs arbitrary: i result shift)
  case Nil
  then show ?case by simp
next
  case (Cons b bs)
  have i: "i < length bytes" "bytes ! i = b"
    using Cons.prems(2) by (auto simp: nth_via_drop intro: ccontr)
  have ok: "i - start \<noteq> MAX_VARINT_LEN" "\<not> 64 \<le> shift"
    using Cons.prems(4,5) by (auto simp: MAX_VARINT_LEN_def)
  show ?case
  proof (cases "bs = []")
    case True
    then show ?thesis
      using Cons.prems i ok word_of_leb128_Cons [of b "[]"]
      by (simp add: decode_varint_loop.simps [of bytes start result "7 * (i - start)" i] Let_def Suc_diff_le)
  next
    case False
    have d: "drop (Suc i) bytes = bs @ rest"
      using Cons.prems(2) by (metis append_Cons drop_Suc list.sel(3) tl_drop)
    have b: "b AND 0x80 \<noteq> 0" "varint_bytes bs"
      using Cons.prems(1) False by (simp_all add: varint_bytes_Cons)
    have "decode_varint_loop bytes start (result OR push_bit shift (ucast (b AND 0x7F))) (shift + 7) (Suc i)
        = Inr ((result OR push_bit shift (ucast (b AND 0x7F))) OR push_bit (shift + 7) (word_of_nat (leb128 bs)),
            Suc i - start + length bs)"
      using Cons.prems b d by (intro Cons.IH) auto
    then show ?thesis
      using Cons.prems(3) i ok b(1)
      by (simp add: decode_varint_loop.simps [of bytes start result shift i] Let_def or.assoc
          word_of_leb128_Cons push_bit_or push_bit_push_bit Suc_diff_le add.commute del: leb128.simps)
  qed
qed

lemma decode_varint_loop_accepted:
  assumes "decode_varint_loop bytes start result shift i = Inr (v, m)" and "start \<le> i"
    and "shift = 7 * (i - start)"
  shows "\<exists>bs rest. drop i bytes = bs @ rest \<and> varint_bytes bs \<and> i - start + length bs \<le> 10"
  using assms
proof (induction bytes start result shift i rule: decode_varint_loop.induct)
  case (1 bytes start result shift i)
  let ?b = "bytes ! i"
  from "1.prems"(1) have i: "i < length bytes" and sh: "shift < 64"
    and n: "\<not> (i - start = MAX_VARINT_LEN \<and> 1 < ?b AND 0x7F)"
    by (auto simp: decode_varint_loop.simps [of bytes start result shift i] Let_def split: if_splits)
  have d: "drop i bytes = ?b # drop (Suc i) bytes"
    using i by (rule Cons_nth_drop_Suc [symmetric])
  have le: "i - start \<le> 9"
    using sh "1.prems"(3) by simp
  show ?case
  proof (cases "?b AND 0x80 = 0")
    case True
    have "drop i bytes = [?b] @ drop (Suc i) bytes \<and> varint_bytes [?b] \<and> i - start + length [?b] \<le> 10"
      using d True le by simp
    then show ?thesis by blast
  next
    case False
    from "1.prems"(1) False i sh n
    have "decode_varint_loop bytes start (result OR push_bit shift (ucast (?b AND 0x7F))) (shift + 7) (Suc i)
        = Inr (v, m)"
      by (simp add: decode_varint_loop.simps [of bytes start result shift i] Let_def split: if_splits)
    moreover have next_shift: "shift + 7 = 7 * (Suc i - start)" "start \<le> Suc i"
      using "1.prems"(2,3) by simp_all
    ultimately obtain bs rest where bs: "drop (Suc i) bytes = bs @ rest" "varint_bytes bs"
        "Suc i - start + length bs \<le> 10"
      using "1.IH" [of ?b "result OR push_bit shift (ucast (?b AND 0x7F))"] next_shift False i sh n
      by auto
    have "drop i bytes = (?b # bs) @ rest \<and> varint_bytes (?b # bs) \<and> i - start + length (?b # bs) \<le> 10"
      using d bs False "1.prems"(2) by (auto simp: varint_bytes_Cons Suc_diff_le)
    then show ?thesis by blast
  qed
qed

lemma decode_varint_accepts:
  assumes "drop start bytes = bs @ rest" and "varint_bytes bs" and "length bs \<le> 10"
  shows "decode_varint bytes start = Inr (word_of_nat (leb128 bs), length bs)"
  using decode_varint_loop_accepts [OF assms(2,1), of start 0 0] assms(3)
  by (simp add: decode_varint_def)

lemma decode_varint_accepted:
  assumes "decode_varint bytes start = Inr (v, n)"
  obtains bs rest where "drop start bytes = bs @ rest" and "varint_bytes bs" and "length bs \<le> 10"
    and "v = word_of_nat (leb128 bs)" and "n = length bs"
proof -
  obtain bs rest where bs: "drop start bytes = bs @ rest" "varint_bytes bs" "length bs \<le> 10"
    using decode_varint_loop_accepted [of bytes start 0 0 start v n] assms
    by (auto simp: decode_varint_def)
  then have "decode_varint bytes start = Inr (word_of_nat (leb128 bs), length bs)"
    by (rule decode_varint_accepts)
  with assms bs show thesis
    by (intro that) auto
qed

lemma decode_varint_varint:
  "drop start bytes = varint v @ rest \<Longrightarrow> decode_varint bytes start = Inr (v, length (varint v))"
  using decode_varint_accepts [of start bytes "varint v" rest]
  by (simp add: varint_bytes_varint length_varint_le_10 leb128_varint)

lemma decode_varint_bounds:
  "decode_varint bytes start = Inr (v, n) \<Longrightarrow> 0 < n \<and> n \<le> 10 \<and> start + n \<le> length bytes"
proof (elim decode_varint_accepted)
  fix bs rest
  assume "drop start bytes = bs @ rest" "varint_bytes bs" "length bs \<le> 10" "n = length bs"
  moreover from this have "length bytes - start = length bs + length rest"
    by (metis length_append length_drop)
  ultimately show ?thesis
    using varint_bytes_not_Nil [of bs] by (cases bs) auto
qed

lemma panics_decode_varint_loop: "\<not> panics (decode_varint_loop bytes start result shift i)"
  by (induction bytes start result shift i rule: decode_varint_loop.induct)
     (subst decode_varint_loop.simps, simp add: Let_def)

lemma panics_decode_varint [simp]: "\<not> panics (decode_varint bytes start)"
  by (simp add: decode_varint_def panics_decode_varint_loop)

lemma decode_varint_error:
  "decode_varint bytes start = Inl (Raised e) \<Longrightarrow> e = UnexpectedEof \<or> e = VarintTooLong"
proof -
  have "decode_varint_loop bytes start result shift i = Inl (Raised e) \<Longrightarrow>
      e = UnexpectedEof \<or> e = VarintTooLong" for result shift i
    by (induction bytes start result shift i rule: decode_varint_loop.induct)
       (subst (asm) decode_varint_loop.simps, auto simp: Let_def split: if_splits)
  then show "decode_varint bytes start = Inl (Raised e) \<Longrightarrow> ?thesis"
    by (simp add: decode_varint_def)
qed

section \<open>Zigzag\<close>

lemma bit_uminus_and_1: "bit (- (x AND 1) :: 'a::len word) n \<longleftrightarrow> bit x 0 \<and> n < LENGTH('a)"
  by (simp add: and_one_eq mod_2_eq_odd bit_0 of_bool_def)

lemma bit_times_2: "bit ((v :: 'a::len word) * 2) n \<longleftrightarrow> 0 < n \<and> n < LENGTH('a) \<and> bit v (n - 1)"
proof -
  have "v * 2 = push_bit 1 v"
    by (simp add: push_bit_eq_mult)
  then show ?thesis
    by (simp only: bit_push_bit_iff) auto
qed

lemma bit_sign_fill:
  fixes v :: "'a::len word"
  assumes "LENGTH('a) = Suc k"
  shows "bit (signed_drop_bit k v) n \<longleftrightarrow> bit v k \<and> n < LENGTH('a)"
  using assms by (cases n) (auto simp: bit_signed_drop_bit_iff dest: bit_imp_le_length)

lemma zigzag_roundtrip:
  fixes v :: "'a::len word"
  assumes "LENGTH('a) = Suc k" and "0 < k"
  shows "drop_bit 1 (push_bit 1 v XOR signed_drop_bit k v)
      XOR - ((push_bit 1 v XOR signed_drop_bit k v) AND 1) = v"
  using assms
  by (intro bit_eqI)
     (auto simp: bit_xor_iff bit_drop_bit_eq bit_times_2 bit_sign_fill bit_uminus_and_1
        less_Suc_eq)

lemma zigzag_nonneg:
  fixes v :: "'a::len word"
  assumes "LENGTH('a) = Suc k" and "\<not> bit v k"
  shows "push_bit 1 v XOR signed_drop_bit k v = push_bit 1 v"
  using assms
  by (intro bit_eqI) (auto simp: bit_xor_iff bit_sign_fill)

lemma zigzag_neg:
  fixes v :: "'a::len word"
  assumes "LENGTH('a) = Suc k" and "bit v k"
  shows "push_bit 1 v XOR signed_drop_bit k v = NOT (push_bit 1 v)"
  using assms
  by (intro bit_eqI) (auto simp: bit_xor_iff bit_not_iff bit_sign_fill)

lemma decode_encode_zigzag32 [simp]: "decode_zigzag32 (encode_zigzag32 v) = v"
  using zigzag_roundtrip [of 31 v] by (simp add: decode_zigzag32_def encode_zigzag32_def)

lemma decode_encode_zigzag64 [simp]: "decode_zigzag64 (encode_zigzag64 v) = v"
  using zigzag_roundtrip [of 63 v] by (simp add: decode_zigzag64_def encode_zigzag64_def)

lemma sint_nonneg_bit: "LENGTH('a) = Suc k \<Longrightarrow> 0 \<le> sint (v :: 'a::len word) \<longleftrightarrow> \<not> bit v k"
  using bit_last_iff [of v] by auto

lemma zigzag_value:
  fixes v :: "'a::len word"
  assumes "LENGTH('a) = Suc k"
  shows "uint (push_bit 1 v XOR signed_drop_bit k v)
      = (if 0 \<le> sint v then 2 * sint v else - 2 * sint v - 1)"
proof -
  let ?e = "push_bit 1 v XOR signed_drop_bit k v" and ?z = "if 0 \<le> sint v then 2 * sint v else - 2 * sint v - 1"
  have b: "- (2 ^ k) \<le> sint v" "sint v < 2 ^ k"
    using sint_range_size [of v] assms by (simp_all add: word_size)
  have v: "v = word_of_int (sint v)" by simp
  have "?e = word_of_int ?z"
  proof (cases "0 \<le> sint v")
    case True
    then have "?e = push_bit 1 v"
      using assms by (intro zigzag_nonneg) (simp_all add: sint_nonneg_bit)
    also have "\<dots> = 2 * v" by (simp add: push_bit_eq_mult)
    also have "\<dots> = 2 * word_of_int (sint v)" by simp
    finally show ?thesis using True by simp
  next
    case False
    then have "?e = NOT (push_bit 1 v)"
      using assms by (intro zigzag_neg) (simp_all add: sint_nonneg_bit)
    also have "\<dots> = - 2 * v - 1" by (simp add: push_bit_eq_mult not_eq_complement)
    also have "\<dots> = - 2 * word_of_int (sint v) - 1" by simp
    finally show ?thesis using False by simp
  qed
  moreover have "0 \<le> ?z" "?z < 2 ^ LENGTH('a)"
    using b assms by auto
  ultimately show ?thesis
    by (simp add: uint_word_of_int)
qed

lemma left_inverse_finite:
  fixes f :: "'a::finite \<Rightarrow> 'a"
  assumes "\<And>v. g (f v) = v"
  shows "f (g u) = u"
proof -
  have "inj f"
    using assms by (metis injI)
  then have "surj f"
    by (simp add: finite_UNIV_inj_surj)
  then obtain v where "u = f v" by (metis surjD)
  then show ?thesis by (simp add: assms)
qed

lemma zigzag_inverse32: "encode_zigzag32 (decode_zigzag32 u) = u"
  by (rule left_inverse_finite) simp

lemma zigzag_inverse64: "encode_zigzag64 (decode_zigzag64 u) = u"
  by (rule left_inverse_finite) simp

lemma uint_encode_zigzag32:
  "uint (encode_zigzag32 v) = (if 0 \<le> sint v then 2 * sint v else - 2 * sint v - 1)"
  unfolding encode_zigzag32_def by (rule zigzag_value) simp

lemma uint_encode_zigzag64:
  "uint (encode_zigzag64 v) = (if 0 \<le> sint v then 2 * sint v else - 2 * sint v - 1)"
  unfolding encode_zigzag64_def by (rule zigzag_value) simp

lemma leb128_append: "leb128 (xs @ ys) = leb128 xs + 128 ^ length xs * leb128 ys"
  by (induction xs) (auto simp: algebra_simps)

lemma replicate_9: "replicate 9 x = [x, x, x, x, x, x, x, x, x]"
  by (simp add: eval_nat_numeral)

lemma bytes_and_7F_80: "(b AND 0x7F) AND 0x80 = (0 :: byte)"
  by (rule bit_eqI) (auto simp: bit_and_iff bit_consts)

lemma push_bit_63_low: "push_bit 63 (ucast (b AND 0x7F) :: u64) = (if odd b then 2 ^ 63 else 0)"
proof -
  have "push_bit 63 (ucast (b AND 0x7F) :: u64) = push_bit 63 (of_bool (odd b))"
  proof (rule bit_word_eqI)
    fix n
    assume "n < LENGTH(64)"
    then have "n = 63 \<or> n < 63" by auto
    then show "bit (push_bit 63 (ucast (b AND 0x7F) :: u64)) n = bit (push_bit 63 (of_bool (odd b) :: u64)) n"
      by (auto simp: bit_push_bit_iff bit_ucast_iff bit_and_iff bit_consts bit_0)
  qed
  then show ?thesis by simp
qed

lemma tenth_byte_value:
  "(word_of_nat (leb128 (replicate 9 0xFF @ [b AND 0x7F])) :: u64)
     = (if odd b then 2 ^ 64 - 1 else 2 ^ 63 - 1)"
proof -
  let ?n = "unat (b AND 0x7F)"
  have "leb128 (replicate 9 0xFF) = 2 ^ 63 - 1"
    by (simp add: replicate_9)
  then have "leb128 (replicate 9 0xFF @ [b AND 0x7F]) = 2 ^ 63 - 1 + 2 ^ 63 * ?n"
    by (simp add: leb128_append and.assoc)
  then have "(word_of_nat (leb128 (replicate 9 0xFF @ [b AND 0x7F])) :: u64)
      = 2 ^ 63 - 1 + push_bit 63 (ucast (b AND 0x7F))"
    by (simp add: push_bit_eq_mult mult.commute)
  then show ?thesis
    by (simp add: push_bit_63_low)
qed

section \<open>Properties\<close>

lemma leb128_less: "leb128 bs < 128 ^ length bs"
proof (induction bs)
  case (Cons b bs)
  have "unat (b AND 0x7F) \<le> 0x7F"
    using word_and_le1 [of b "0x7F"] by (simp add: word_le_nat_alt)
  then show ?case using Cons by simp
qed simp

lemma varint_bytes_last: "varint_bytes (xs @ [b]) \<Longrightarrow> b AND 0x80 = 0"
  by (induction xs) (auto simp: varint_bytes_Cons split: if_splits)

lemma low7_id:
  assumes "(b :: byte) AND 0x80 = 0"
  shows "b AND 0x7F = b"
proof (rule bit_eqI)
  fix n
  have "bit (b AND 0x80) 7 = bit (0 :: byte) 7" by (simp only: assms)
  then have "\<not> bit b 7" by (simp add: bit_and_iff bit_consts)
  moreover have "bit b n \<Longrightarrow> n < 8" by (auto dest: bit_imp_le_length)
  ultimately show "bit (b AND 0x7F) n = bit b n"
    by (cases "n = 7") (auto simp: bit_and_iff bit_consts)
qed

text \<open>The number fits in 64 bits unless there is a tenth byte with more than its lowest bit.\<close>

lemma leb128_fits:
  assumes "varint_bytes bs" and "length bs \<le> 10"
  shows "leb128 bs < 2 ^ 64 \<longleftrightarrow> length bs < 10 \<or> bs ! 9 \<le> 1"
proof (cases "length bs < 10")
  case True
  then have "(128 :: nat) ^ length bs \<le> 128 ^ 9"
    by (intro power_increasing) simp_all
  with leb128_less [of bs] have "leb128 bs < 128 ^ 9" by linarith
  then show ?thesis using True by simp
next
  case False
  then obtain xs b where bs: "bs = xs @ [b]" "length xs = 9"
    using assms(2) by (cases bs rule: rev_cases) auto
  have "b AND 0x7F = b"
    using low7_id varint_bytes_last assms(1) by (simp add: bs)
  then have "leb128 bs = leb128 xs + 2 ^ 63 * unat b"
    by (simp add: bs leb128_append)
  moreover have "leb128 xs < 2 ^ 63"
    using leb128_less [of xs] by (simp add: bs)
  ultimately have "leb128 bs < 2 ^ 64 \<longleftrightarrow> unat b \<le> 1" by auto
  then show ?thesis using False by (simp add: bs nth_append word_le_nat_alt)
qed

text \<open>
  C1: \<open>decode_varint\<close> returns a value exactly on base-128 numbers of at most ten bytes: it accepts
  \<open>n\<close> bytes at \<open>start\<close> iff they are one to ten bytes of which all but the last carry the
  continuation bit, and the value is their base-128 number modulo \<open>2 ^ 64\<close>. That is the number
  itself exactly when there is no tenth byte above 1. The comment in the code announces that such a tenth
  byte is refused; it is accepted, and the value is not the one that was written.
\<close>

theorem decode_varint_iff:
  "(decode_varint bytes start = Inr (v, n) \<longleftrightarrow>
     1 \<le> n \<and> n \<le> 10 \<and> start + n \<le> length bytes
     \<and> varint_bytes (take n (drop start bytes))
     \<and> unat v = leb128 (take n (drop start bytes)) mod 2 ^ 64)
   \<and> (decode_varint bytes start = Inr (v, n) \<longrightarrow>
     (unat v = leb128 (take n (drop start bytes)) \<longleftrightarrow> n < 10 \<or> bytes ! (start + 9) \<le> 1))"
proof -
  have v: "v = word_of_nat k \<longleftrightarrow> unat v = k mod 2 ^ 64" for k
    using unat_of_nat [of k, where 'a = 64] by (auto simp: word_unat_eq_iff)
  have iff: "decode_varint bytes start = Inr (v, n) \<longleftrightarrow>
     1 \<le> n \<and> n \<le> 10 \<and> start + n \<le> length bytes
     \<and> varint_bytes (take n (drop start bytes))
     \<and> unat v = leb128 (take n (drop start bytes)) mod 2 ^ 64" (is "?l \<longleftrightarrow> ?r")
  proof
    assume l: ?l
    then have "0 < n \<and> n \<le> 10 \<and> start + n \<le> length bytes"
      by (rule decode_varint_bounds)
    moreover from l obtain bs rest where "drop start bytes = bs @ rest" "varint_bytes bs"
        "v = word_of_nat (leb128 bs)" "n = length bs"
      by (rule decode_varint_accepted)
    ultimately show ?r by (auto simp: unat_of_nat Suc_le_eq)
  next
    assume ?r
    then have "word_of_nat (leb128 (take n (drop start bytes))) = v"
      using v by metis
    with \<open>?r\<close> show ?l
      using decode_varint_accepts [of start bytes "take n (drop start bytes)" "drop n (drop start bytes)",
          OF append_take_drop_id [symmetric]]
      by (simp add: min_absorb2 min_absorb1 le_diff_conv2)
  qed
  moreover have "unat v = leb128 (take n (drop start bytes)) \<longleftrightarrow> n < 10 \<or> bytes ! (start + 9) \<le> 1"
    if "decode_varint bytes start = Inr (v, n)"
  proof -
    let ?bs = "take n (drop start bytes)"
    from that iff have r: "n \<le> 10" "start + n \<le> length bytes" "varint_bytes ?bs" "unat v = leb128 ?bs mod 2 ^ 64"
      by auto
    have l: "length ?bs = n" using r(2) by simp
    have "unat v = leb128 ?bs \<longleftrightarrow> leb128 ?bs < 2 ^ 64"
      using unsigned_less [of v] by (auto simp: r(4))
    also have "\<dots> \<longleftrightarrow> n < 10 \<or> ?bs ! 9 \<le> 1"
      using leb128_fits [OF r(3)] r(1) l by simp
    also have "\<dots> \<longleftrightarrow> n < 10 \<or> bytes ! (start + 9) \<le> 1"
      using r(1,2) by (cases "n < 10") auto
    finally show ?thesis .
  qed
  ultimately show ?thesis by blast
qed

theorem decode_varint_iff_witness:
  "decode_varint [0xAC, 0x02] 0 = Inr (300, 2) \<and> (unat (300 :: u64) = leb128 [0xAC, 0x02] \<longleftrightarrow> (2 :: nat) < 10 \<or> [0xAC, 0x02] ! (0 + 9) \<le> (1 :: byte))"
proof -
  have "(0xAC AND 0x80 :: byte) \<noteq> 0" "(0x02 AND 0x80 :: byte) = 0" "unat (0xAC AND 0x7F :: byte) = 44" "unat (0x02 AND 0x7F :: byte) = 2"
    by code_simp+
  then show ?thesis
    using decode_varint_iff [of "[0xAC, 0x02]" 0 300 2] by simp
qed

text \<open>
  C2: every 64-bit value is decoded back from the bytes \<open>encode_varint\<close> appends for
  it, wherever they stand in a buffer, and those bytes are at most ten.
\<close>

theorem varint_roundtrip:
  "decode_varint (encode_varint v pre @ post) (length pre)
     = Inr (v, length (encode_varint v pre) - length pre)
   \<and> length (encode_varint v pre) \<le> length pre + 10"
  using decode_varint_varint [of "length pre" "encode_varint v pre @ post" v post] length_varint_le_10 [of v]
  by (simp add: encode_varint_eq)

text \<open>
  C3: zigzag coding is a bijection that sends a signed value of magnitude \<open>m\<close> to \<open>2 * m\<close>
  (or \<open>2 * m - 1\<close> when negative), so small magnitudes have small codes.
\<close>

theorem zigzag_correct:
  "decode_zigzag32 (encode_zigzag32 v) = v \<and> encode_zigzag32 (decode_zigzag32 u) = u
   \<and> uint (encode_zigzag32 v) = (if 0 \<le> sint v then 2 * sint v else - 2 * sint v - 1)
   \<and> decode_zigzag64 (encode_zigzag64 w) = w \<and> encode_zigzag64 (decode_zigzag64 x) = x
   \<and> uint (encode_zigzag64 w) = (if 0 \<le> sint w then 2 * sint w else - 2 * sint w - 1)"
  by (simp add: zigzag_inverse32 zigzag_inverse64 uint_encode_zigzag32 uint_encode_zigzag64)

text \<open>
  The check the source announces for the tenth byte (\<open>only the lowest bit is allowed\<close>)
  never fires: it compares the byte count with 10 where it is at most 9, so a tenth byte with
  any of its bits 1 to 6 set is accepted and those bits are dropped. Here every tenth byte
  without continuation bit is accepted, and only its lowest bit matters.
\<close>

lemma decode_varint_tenth_byte_unchecked:
  "decode_varint (replicate 9 0xFF @ [b AND 0x7F]) 0
     = Inr (if odd b then 2 ^ 64 - 1 else 2 ^ 63 - 1, 10)"
proof -
  have "varint_bytes (replicate 9 0xFF @ [b AND 0x7F])"
    using bytes_and_7F_80 [of b] by (simp add: replicate_9)
  moreover have "(word_of_nat (leb128 (replicate 9 0xFF @ [b AND 0x7F])) :: u64)
      = (if odd b then 2 ^ 64 - 1 else 2 ^ 63 - 1)"
    by (rule tenth_byte_value)
  ultimately show ?thesis
    using decode_varint_accepts [of 0 "replicate 9 0xFF @ [b AND 0x7F]" _ "[]"] by simp
qed

end
