(* ===== verification/Wire_Type.thy ===== *)
theory Wire_Type
  imports Varint
begin

text \<open>
  Wire types and field tags (\<open>tpt-proto-core/src/wire_type.rs\<close>): a tag is the varint of
  \<open>(field_number << 3) | wire_type\<close>.
\<close>

datatype wire_type = Varint | Fixed64 | LengthDelimited | StartGroup | EndGroup | Fixed32

definition WireType_from_u8 :: "byte \<Rightarrow> wire_type option" where
  "WireType_from_u8 value =
     (if value = 0 then Some Varint
      else if value = 1 then Some Fixed64
      else if value = 2 then Some LengthDelimited
      else if value = 3 then Some StartGroup
      else if value = 4 then Some EndGroup
      else if value = 5 then Some Fixed32
      else None)"

fun WireType_as_u8 :: "wire_type \<Rightarrow> byte" where
  "WireType_as_u8 Varint = 0"
| "WireType_as_u8 Fixed64 = 1"
| "WireType_as_u8 LengthDelimited = 2"
| "WireType_as_u8 StartGroup = 3"
| "WireType_as_u8 EndGroup = 4"
| "WireType_as_u8 Fixed32 = 5"

record tag =
  field_number :: u32
  wire_type :: wire_type

definition Tag_new :: "u32 \<Rightarrow> wire_type \<Rightarrow> tag option" where
  "Tag_new f wt = (if f = 0 then None else Some \<lparr>field_number = f, wire_type = wt\<rparr>)"

definition Tag_encode :: "tag \<Rightarrow> byte list \<Rightarrow> byte list" where
  "Tag_encode t buf =
     encode_varint (ucast (push_bit 3 (field_number t) OR (ucast (WireType_as_u8 (wire_type t)) :: u32))) buf"

definition Tag_decode :: "byte list \<Rightarrow> nat \<Rightarrow> (tag \<times> nat) core_res" where
  "Tag_decode bytes start =
     bind_result (decode_varint bytes start) (\<lambda>(raw, n).
       let fnum = ucast (drop_bit 3 raw) :: u32;
           wire_value = ucast (raw AND 0x7) :: byte
       in case WireType_from_u8 wire_value of
            None \<Rightarrow> Inl (Raised (InvalidTag (ucast raw)))
          | Some wt \<Rightarrow>
              (case Tag_new fnum wt of
                 None \<Rightarrow> Inl (Raised (InvalidTag fnum))
               | Some t \<Rightarrow> Inr (t, n)))"

section \<open>Wire types\<close>

lemma WireType_from_as_u8 [simp]: "WireType_from_u8 (WireType_as_u8 wt) = Some wt"
  by (cases wt) (simp_all add: WireType_from_u8_def)

lemma WireType_as_u8_less: "WireType_as_u8 wt < 8"
  by (cases wt) simp_all

section \<open>Tags\<close>

lemma Tag_new_Some: "Tag_new f wt = Some t \<longleftrightarrow> f \<noteq> 0 \<and> t = \<lparr>field_number = f, wire_type = wt\<rparr>"
  by (auto simp: Tag_new_def)

definition tag_raw :: "u32 \<Rightarrow> wire_type \<Rightarrow> u64" where
  "tag_raw f wt = ucast (push_bit 3 f OR (ucast (WireType_as_u8 wt) :: u32))"

definition tag_bytes :: "u32 \<Rightarrow> wire_type \<Rightarrow> byte list" where
  "tag_bytes f wt = varint (tag_raw f wt)"

lemma Tag_encode_eq [buffer_simps]: "Tag_encode t buf = buf @ tag_bytes (field_number t) (wire_type t)"
  by (simp add: Tag_encode_def encode_varint_eq tag_bytes_def tag_raw_def)

lemma bit_7_int: "bit (7 :: int) n \<longleftrightarrow> n < 3"
proof -
  have "(7 :: int) = mask 3"
    by (simp add: mask_eq_exp_minus_1)
  then show ?thesis
    by (simp only: bit_mask_iff) simp
qed

lemma bit_WireType_as_u8: "bit (WireType_as_u8 wt) n \<Longrightarrow> n < 3"
proof -
  assume b: "bit (WireType_as_u8 wt) n"
  have "WireType_as_u8 wt = take_bit 3 (WireType_as_u8 wt)"
    using less_mask_eq [of "WireType_as_u8 wt" 3] WireType_as_u8_less [of wt]
    by (simp add: take_bit_eq_mask)
  with b show ?thesis
    by (metis bit_take_bit_iff)
qed

lemma tag_raw_wire: "(ucast (tag_raw f wt AND 0x7) :: byte) = WireType_as_u8 wt"
  by (rule bit_word_eqI)
     (auto simp: tag_raw_def bit_simps bit_7_int dest: bit_WireType_as_u8)

lemma tag_raw_field: "f < 2 ^ 29 \<Longrightarrow> (ucast (drop_bit 3 (tag_raw f wt)) :: u32) = f"
proof (rule bit_word_eqI)
  fix n
  assume f: "f < 2 ^ 29" and n: "n < LENGTH(32)"
  have "bit f n \<Longrightarrow> n < 29"
    using less_mask_eq [of f 29] f by (metis bit_take_bit_iff take_bit_eq_mask)
  then show "bit (ucast (drop_bit 3 (tag_raw f wt)) :: u32) n = bit f n"
    using n by (auto simp: tag_raw_def bit_simps dest: bit_WireType_as_u8)
qed

lemma tag_raw_truncates: "tag_raw f wt = tag_raw (f AND mask 29) wt"
  by (rule bit_word_eqI) (auto simp: tag_raw_def bit_simps)

lemma length_tag_bytes_pos [simp]: "0 < length (tag_bytes f wt)"
  by (simp add: tag_bytes_def)

lemma tag_bytes_not_Nil [simp]: "tag_bytes f wt \<noteq> []"
  by (simp add: tag_bytes_def)

lemma length_tag_bytes_le: "length (tag_bytes f wt) \<le> 5"
proof -
  have "unat (tag_raw f wt) < 2 ^ 32"
    using unsigned_less [of "push_bit 3 f OR (ucast (WireType_as_u8 wt) :: u32)", where ?'a = nat]
    by (simp add: tag_raw_def unsigned_ucast_eq take_bit_nat_eq_self)
  then show ?thesis
    unfolding tag_bytes_def by (intro length_varint_le) auto
qed

lemma Tag_decode_tag_bytes:
  assumes "drop start bytes = tag_bytes f wt @ rest" and "0 < f" and "f < 2 ^ 29"
  shows "Tag_decode bytes start = Inr (\<lparr>field_number = f, wire_type = wt\<rparr>, length (tag_bytes f wt))"
proof -
  have "decode_varint bytes start = Inr (tag_raw f wt, length (tag_bytes f wt))"
    using assms(1) unfolding tag_bytes_def by (rule decode_varint_varint)
  moreover have "f \<noteq> 0"
    using assms(2) by auto
  ultimately show ?thesis
    by (simp add: Tag_decode_def Let_def tag_raw_wire tag_raw_field [OF assms(3)] Tag_new_def)
qed

lemma Tag_decode_bounds:
  assumes "Tag_decode bytes start = Inr (t, n)"
  shows "0 < n \<and> n \<le> 10 \<and> start + n \<le> length bytes" and "field_number t \<noteq> 0"
  using assms decode_varint_bounds [of bytes start]
  by (auto simp: Tag_decode_def bind_result_eq_Inr Let_def Tag_new_Some split: option.splits)

lemma panics_Tag_decode [simp]: "\<not> panics (Tag_decode bytes start)"
  by (auto simp: Tag_decode_def panics_bind Let_def split: option.splits prod.splits)

section \<open>Properties\<close>

text \<open>
  a tag with a field number in protobuf's range (1 to 2^29 - 1) is decoded back from the
  bytes it is encoded to, with the number of bytes it took.
\<close>

lemma tag_roundtrip:
  assumes "0 < f" and "f < 2 ^ 29"
  shows "Tag_decode (Tag_encode \<lparr>field_number = f, wire_type = wt\<rparr> pre @ post) (length pre)
    = Inr (\<lparr>field_number = f, wire_type = wt\<rparr>,
           length (Tag_encode \<lparr>field_number = f, wire_type = wt\<rparr> pre) - length pre)"
  using Tag_decode_tag_bytes [of "length pre" "pre @ tag_bytes f wt @ post" f wt post] assms
  by (simp add: Tag_encode_eq)

lemma tag_roundtrip_witness:
  "Tag_decode (Tag_encode \<lparr>field_number = 300, wire_type = Fixed64\<rparr> [7] @ [8]) 1
    = Inr (\<lparr>field_number = 300, wire_type = Fixed64\<rparr>,
           length (Tag_encode \<lparr>field_number = 300, wire_type = Fixed64\<rparr> [7]) - 1)"
  using tag_roundtrip [of 300 Fixed64 "[7]" "[8]"] by simp

text \<open>
  the encoder shifts the field number in 32 bits without a range check, so a number of
  2^29 or more is silently written as the tag of another field: the two numbers that agree
  in their low 29 bits have the same encoding.
\<close>

lemma tag_encode_truncates:
  "Tag_encode \<lparr>field_number = f, wire_type = wt\<rparr> buf
     = Tag_encode \<lparr>field_number = f AND mask 29, wire_type = wt\<rparr> buf"
  using tag_raw_truncates [of f wt] by (simp add: Tag_encode_eq tag_bytes_def)

end
