(* ===== verification/Writer.thy ===== *)
theory Writer
  imports Wire_Type
begin

text \<open>
  The encoding writer (\<open>tpt-proto-core/src/writer.rs\<close>): a growing byte buffer. Writing a tag
  with field number zero panics (\<open>expect\<close>), so \<open>write_tag\<close> returns a result; the other
  operations always succeed.
\<close>

record writer =
  wbuf :: "byte list"

definition Writer_new :: writer where
  "Writer_new = \<lparr>wbuf = []\<rparr>"

definition writer_with_capacity :: "nat \<Rightarrow> writer" where
  "writer_with_capacity cap = \<lparr>wbuf = []\<rparr>"

definition into_vec :: "writer \<Rightarrow> byte list" where
  "into_vec w = wbuf w"

definition clear :: "writer \<Rightarrow> writer" where
  "clear w = w\<lparr>wbuf := []\<rparr>"

definition push :: "writer \<Rightarrow> byte \<Rightarrow> writer" where
  "push w b = w\<lparr>wbuf := wbuf w @ [b]\<rparr>"

definition extend_from_slice :: "writer \<Rightarrow> byte list \<Rightarrow> writer" where
  "extend_from_slice w bs = w\<lparr>wbuf := wbuf w @ bs\<rparr>"

definition write_tag :: "writer \<Rightarrow> u32 \<Rightarrow> wire_type \<Rightarrow> ('e, writer) res" where
  "write_tag w fnum wt = (case Tag_new fnum wt of
      None \<Rightarrow> Inl (Panicked ''field number must be non-zero'')
    | Some t \<Rightarrow> Inr (w\<lparr>wbuf := Tag_encode t (wbuf w)\<rparr>))"

definition write_varint :: "writer \<Rightarrow> u64 \<Rightarrow> writer" where
  "write_varint w v = w\<lparr>wbuf := encode_varint v (wbuf w)\<rparr>"

definition write_length_delimited :: "writer \<Rightarrow> byte list \<Rightarrow> writer" where
  "write_length_delimited w bs = w\<lparr>wbuf := encode_varint (word_of_nat (length bs)) (wbuf w) @ bs\<rparr>"

definition write_fixed32 :: "writer \<Rightarrow> u32 \<Rightarrow> writer" where
  "write_fixed32 w v = w\<lparr>wbuf := wbuf w @ le_bytes 4 v\<rparr>"

definition write_fixed64 :: "writer \<Rightarrow> u64 \<Rightarrow> writer" where
  "write_fixed64 w v = w\<lparr>wbuf := wbuf w @ le_bytes 8 v\<rparr>"

definition write_string :: "writer \<Rightarrow> string \<Rightarrow> writer" where
  "write_string w s = write_length_delimited w (as_bytes s)"

section \<open>Every operation appends\<close>

text \<open>
  \<open>emit w bs\<close> is the writer after \<open>bs\<close> was appended. Every operation but \<open>clear\<close> is an
  \<open>emit\<close>; \<open>length_delimited bs\<close> is the framing of a payload.
\<close>

definition emit :: "writer \<Rightarrow> byte list \<Rightarrow> writer" where
  "emit w bs = w\<lparr>wbuf := wbuf w @ bs\<rparr>"

definition length_delimited :: "byte list \<Rightarrow> byte list" where
  "length_delimited bs = varint (word_of_nat (length bs)) @ bs"

lemma emit_simps [simp]: "wbuf (emit w bs) = wbuf w @ bs" "emit (emit w as) bs = emit w (as @ bs)"
  "emit w [] = w"
  by (simp_all add: emit_def)

lemma write_tag_eq [buffer_simps]: "fnum \<noteq> 0 \<Longrightarrow> write_tag w fnum wt = Inr (emit w (tag_bytes fnum wt))"
  by (simp add: write_tag_def Tag_new_def Tag_encode_eq emit_def)

lemma write_tag_zero: "panics (write_tag w 0 wt)"
  by (simp add: write_tag_def Tag_new_def)

lemma write_eq [buffer_simps]:
  "write_varint w v = emit w (varint v)"
  "write_length_delimited w bs = emit w (length_delimited bs)"
  "write_fixed32 w a = emit w (le_bytes 4 a)"
  "write_fixed64 w b = emit w (le_bytes 8 b)"
  "write_string w s = emit w (length_delimited (as_bytes s))"
  "push w c = emit w [c]"
  "extend_from_slice w bs = emit w bs"
  by (simp_all add: write_varint_def write_length_delimited_def write_fixed32_def write_fixed64_def
      write_string_def push_def extend_from_slice_def emit_def encode_varint_eq length_delimited_def)

lemma wbuf_new [simp]: "wbuf Writer_new = []" "into_vec w = wbuf w" "wbuf (clear w) = []"
  by (simp_all add: Writer_new_def into_vec_def clear_def)

end
