(* ===== verification/Reader.thy ===== *)
theory Reader
  imports Limits Writer
begin

text \<open>
  The decoding reader (\<open>tpt-proto-core/src/reader.rs\<close>): a cursor over a byte buffer with
  depth, field and byte counters. A read operation returns its value with the reader after
  it; an operation that fails returns only the error, because every caller in the workspace
  propagates it and abandons the reader. What it leaves behind in a reader that is kept is in \<open>Reader_State\<close>.
\<close>

section \<open>Definitions\<close>

record reader =
  buf :: "byte list"
  pos :: nat
  depth :: nat
  field_count :: nat
  limits :: decoder_limits
  bytes_read :: nat

definition Reader_with_limits :: "byte list \<Rightarrow> decoder_limits \<Rightarrow> reader" where
  "Reader_with_limits b l =
     \<lparr>buf = b, pos = 0, depth = 0, field_count = 0, limits = l, bytes_read = 0\<rparr>"

definition Reader_new :: "byte list \<Rightarrow> reader" where
  "Reader_new b = Reader_with_limits b default_limits"

definition set_pos :: "reader \<Rightarrow> nat \<Rightarrow> reader core_res" where
  "set_pos r p = (if length (buf r) < p then Inl (Raised UnexpectedEof) else Inr (r\<lparr>pos := p\<rparr>))"

definition buf_slice :: "reader \<Rightarrow> nat \<Rightarrow> nat \<Rightarrow> byte list core_res" where
  "buf_slice r s e =
     (if length (buf r) < e \<or> e < s then Inl (Raised UnexpectedEof) else slice (buf r) s e)"

definition remaining :: "reader \<Rightarrow> nat" where
  "remaining r = length (buf r) - pos r"

definition is_empty :: "reader \<Rightarrow> bool" where
  "is_empty r \<longleftrightarrow> length (buf r) \<le> pos r"

definition advance :: "reader \<Rightarrow> nat \<Rightarrow> reader core_res" where
  "advance r n =
     bind_result (usize_add (pos r) n) (\<lambda>p.
       if length (buf r) < p then Inl (Raised UnexpectedEof)
       else bind_result (usize_add (bytes_read r) n) (\<lambda>b.
         bind_result (check_bytes (limits r) b) (\<lambda>_.
           Inr (r\<lparr>pos := p, bytes_read := b\<rparr>))))"

definition read_varint :: "reader \<Rightarrow> (u64 \<times> reader) core_res" where
  "read_varint r =
     bind_result (decode_varint (buf r) (pos r)) (\<lambda>(v, n).
       bind_result (advance r n) (\<lambda>r'. Inr (v, r')))"

definition read_varint_raw :: "reader \<Rightarrow> ((u64 \<times> byte list) \<times> reader) core_res" where
  "read_varint_raw r =
     bind_result (decode_varint (buf r) (pos r)) (\<lambda>(v, n).
       bind_result (usize_add (pos r) n) (\<lambda>e.
         bind_result (slice (buf r) (pos r) e) (\<lambda>raw.
           bind_result (advance r n) (\<lambda>r'. Inr ((v, raw), r')))))"

definition read_tag :: "reader \<Rightarrow> (tag \<times> reader) core_res" where
  "read_tag r =
     bind_result (Tag_decode (buf r) (pos r)) (\<lambda>(t, n).
       bind_result (advance r n) (\<lambda>r'.
         bind_result (usize_add (field_count r') 1) (\<lambda>c.
           bind_result (check_field (limits r') c) (\<lambda>_.
             Inr (t, r'\<lparr>field_count := c\<rparr>)))))"

definition read_length_delimited :: "reader \<Rightarrow> (byte list \<times> reader) core_res" where
  "read_length_delimited r =
     bind_result (read_varint r) (\<lambda>(v, r1).
       bind_result (check_length (limits r1) (unat v)) (\<lambda>_.
         bind_result (usize_add (pos r1) (unat v)) (\<lambda>e.
           if length (buf r1) < e then Inl (Raised (LengthLimitExceeded (unat v)))
           else bind_result (slice (buf r1) (pos r1) e) (\<lambda>s.
             bind_result (advance r1 (unat v)) (\<lambda>r2. Inr (s, r2))))))"

definition read_fixed32 :: "reader \<Rightarrow> (u32 \<times> reader) core_res" where
  "read_fixed32 r =
     bind_result (usize_add (pos r) 4) (\<lambda>e.
       if length (buf r) < e then Inl (Raised UnexpectedEof)
       else bind_result (slice (buf r) (pos r) e) (\<lambda>s.
         bind_result (advance r 4) (\<lambda>r'. Inr (of_le_bytes s, r'))))"

definition read_fixed64 :: "reader \<Rightarrow> (u64 \<times> reader) core_res" where
  "read_fixed64 r =
     bind_result (usize_add (pos r) 8) (\<lambda>e.
       if length (buf r) < e then Inl (Raised UnexpectedEof)
       else bind_result (slice (buf r) (pos r) e) (\<lambda>s.
         bind_result (advance r 8) (\<lambda>r'. Inr (of_le_bytes s, r'))))"

definition read_string :: "reader \<Rightarrow> (string \<times> reader) core_res" where
  "read_string r =
     bind_result (read_length_delimited r) (\<lambda>(bs, r').
       bind_result (check_string (limits r') (length bs)) (\<lambda>_.
         bind_result (from_utf8 bs) (\<lambda>s. Inr (s, r'))))"

definition read_string_owned :: "reader \<Rightarrow> (string \<times> reader) core_res" where
  "read_string_owned r =
     bind_result (read_length_delimited r) (\<lambda>(bs, r').
       bind_result (check_string (limits r') (length bs)) (\<lambda>_.
         bind_result (from_utf8 bs) (\<lambda>s. Inr (s, r'))))"

definition nested :: "reader \<Rightarrow> byte list \<Rightarrow> reader core_res" where
  "nested r b =
     bind_result (u32_add (depth r) 1) (\<lambda>d.
       if max_depth (limits r) < d then Inl (Raised DepthLimitExceeded)
       else Inr \<lparr>buf = b, pos = 0, depth = d, field_count = 0, limits = limits r, bytes_read = 0\<rparr>)"

section \<open>Progress and the reader invariant\<close>

text \<open>
  The counters of a reader agree with its position: it never stands past the end of its
  buffer, it has accounted for at most the bytes it passed, and for at most one field per
  byte, and its counters are inside the limits. A Rust slice has fewer than 2^63 bytes.
\<close>

definition reader_ok :: "reader \<Rightarrow> bool" where
  "reader_ok r \<longleftrightarrow> pos r \<le> length (buf r) \<and> length (buf r) < 2 ^ 63
     \<and> bytes_read r \<le> pos r \<and> field_count r \<le> bytes_read r \<and> depth r \<le> max_depth (limits r)
     \<and> within (max_bytes (limits r)) (bytes_read r) \<and> within (max_fields (limits r)) (field_count r)"

text \<open>
  \<open>moved k r r'\<close>: \<open>r'\<close> is \<open>r\<close> moved forward by \<open>k\<close> bytes, over the same buffer,
  with the same limits and depth, inside the byte budget, and with the invariant kept.
\<close>

definition moved :: "nat \<Rightarrow> reader \<Rightarrow> reader \<Rightarrow> bool" where
  "moved k r r' \<longleftrightarrow> buf r' = buf r \<and> limits r' = limits r \<and> depth r' = depth r
     \<and> pos r' = pos r + k \<and> pos r' \<le> length (buf r')
     \<and> bytes_read r \<le> bytes_read r' \<and> field_count r \<le> field_count r'
     \<and> (reader_ok r \<longrightarrow> reader_ok r')"

definition forward :: "reader \<Rightarrow> reader \<Rightarrow> bool" where
  "forward r r' \<longleftrightarrow> (\<exists>k. moved k r r')"

definition strictly_forward :: "reader \<Rightarrow> reader \<Rightarrow> bool" where
  "strictly_forward r r' \<longleftrightarrow> (\<exists>k > 0. moved k r r')"

lemma moved_trans: "moved k r s \<Longrightarrow> moved l s t \<Longrightarrow> moved (k + l) r t"
  by (auto simp: moved_def)

lemma moved_forward: "moved k r s \<Longrightarrow> forward r s"
  by (auto simp: forward_def)

lemma forward_trans: "forward r s \<Longrightarrow> forward s t \<Longrightarrow> forward r t"
  unfolding forward_def by (blast intro: moved_trans)

lemma strictly_forward_imp [simp]: "strictly_forward r s \<Longrightarrow> forward r s"
  by (auto simp: forward_def strictly_forward_def)

lemma strictly_forward_trans1: "strictly_forward r s \<Longrightarrow> forward s t \<Longrightarrow> strictly_forward r t"
  unfolding forward_def strictly_forward_def
  by (metis moved_trans trans_less_add1)

lemma forwardD:
  assumes "forward r r'"
  shows "buf r' = buf r" "limits r' = limits r" "depth r' = depth r" "pos r \<le> pos r'"
    "pos r' \<le> length (buf r')" "reader_ok r \<Longrightarrow> reader_ok r'" "remaining r' \<le> remaining r"
  using assms by (auto simp: forward_def moved_def remaining_def)

lemma strictly_forward_remaining: "strictly_forward r r' \<Longrightarrow> remaining r' < remaining r"
  by (auto simp: strictly_forward_def moved_def remaining_def)

lemma forward_reader_ok: "forward r r' \<Longrightarrow> reader_ok r \<Longrightarrow> reader_ok r'"
  by (rule forwardD(6))

lemma within_0 [simp]: "within cap 0"
  by (cases cap) auto

lemma reader_ok_with_limits: "length b < 2 ^ 63 \<Longrightarrow> reader_ok (Reader_with_limits b l)"
  by (simp add: reader_ok_def Reader_with_limits_def)

lemma reader_ok_nested:
  "reader_ok r \<Longrightarrow> length b < 2 ^ 63 \<Longrightarrow> nested r b = Inr r' \<Longrightarrow>
   reader_ok r' \<and> limits r' = limits r \<and> depth r' = depth r + 1 \<and> buf r' = b \<and> pos r' = 0"
  by (auto simp: reader_ok_def nested_def bind_result_eq_Inr dest!: u32_add_InrD split: if_splits)

lemma advance_moved: "advance r n = Inr r' \<Longrightarrow> moved n r r' \<and> within (max_bytes (limits r')) (bytes_read r')"
  by (auto simp: advance_def bind_result_eq_Inr moved_def reader_ok_def check_eq
      dest!: usize_add_InrD split: if_splits)

lemma advance_strict_budget:
  "advance r n = Inr r' \<Longrightarrow> bytes_read r' = bytes_read r + n \<and> field_count r' = field_count r"
  by (auto simp: advance_def bind_result_eq_Inr dest!: usize_add_InrD split: if_splits)

lemma read_varint_moved: "read_varint r = Inr (v, r') \<Longrightarrow> strictly_forward r r'"
  by (auto simp: read_varint_def bind_result_eq_Inr strictly_forward_def
      dest!: advance_moved decode_varint_bounds)

lemma read_varint_raw_moved: "read_varint_raw r = Inr (v, r') \<Longrightarrow> strictly_forward r r'"
  by (auto simp: read_varint_raw_def bind_result_eq_Inr strictly_forward_def
      dest!: advance_moved decode_varint_bounds)

lemma read_tag_moved:
  assumes "read_tag r = Inr (t, r')"
  shows "strictly_forward r r'" and "field_number t \<noteq> 0"
proof -
  from assms obtain n r1 where t: "Tag_decode (buf r) (pos r) = Inr (t, n)" and a: "advance r n = Inr r1"
    and r': "r' = r1\<lparr>field_count := field_count r1 + 1\<rparr>"
    and c: "within (max_fields (limits r1)) (field_count r1 + 1)"
    by (auto simp: read_tag_def bind_result_eq_Inr check_eq dest!: usize_add_InrD split: if_splits)
  note n = Tag_decode_bounds [OF t] and m = advance_moved [OF a] advance_strict_budget [OF a]
  show "field_number t \<noteq> 0" by (rule n(2))
  have "moved n r r'"
    using n(1) m c by (auto simp: moved_def r' reader_ok_def)
  then show "strictly_forward r r'"
    using n(1) by (auto simp: strictly_forward_def)
qed

lemma read_length_delimited_moved: "read_length_delimited r = Inr (bs, r') \<Longrightarrow> strictly_forward r r'"
  by (auto simp: read_length_delimited_def bind_result_eq_Inr
      dest!: advance_moved read_varint_moved intro: strictly_forward_trans1 moved_forward split: if_splits)

lemma read_fixed32_moved: "read_fixed32 r = Inr (v, r') \<Longrightarrow> strictly_forward r r'"
  by (auto simp: read_fixed32_def bind_result_eq_Inr strictly_forward_def
      dest!: advance_moved split: if_splits intro: exI [of _ 4])

lemma read_fixed64_moved: "read_fixed64 r = Inr (v, r') \<Longrightarrow> strictly_forward r r'"
  by (auto simp: read_fixed64_def bind_result_eq_Inr strictly_forward_def
      dest!: advance_moved split: if_splits intro: exI [of _ 8])

lemma read_string_moved: "read_string r = Inr (s, r') \<Longrightarrow> strictly_forward r r'"
  by (auto simp: read_string_def bind_result_eq_Inr dest: read_length_delimited_moved)

lemma read_string_owned_eq: "read_string_owned = read_string"
  by (simp add: fun_eq_iff read_string_owned_def read_string_def)

lemmas reads_moved = read_varint_moved read_varint_raw_moved read_tag_moved(1)
  read_length_delimited_moved read_fixed32_moved read_fixed64_moved read_string_moved

section \<open>Skipping a value\<close>

text \<open>
  \<open>skip_inner\<close> and its group loop. The loop ends because every tag it reads moves the
  reader forward and \<open>skip_inner\<close> never moves it back; both facts are proved on the
  function's domain before its termination.
\<close>

function skip_inner :: "wire_type \<Rightarrow> nat \<Rightarrow> reader \<Rightarrow> reader core_res"
  and skip_group :: "nat \<Rightarrow> reader \<Rightarrow> reader core_res" where
  "skip_inner wt d r =
     (case wt of
        Varint \<Rightarrow> bind_result (read_varint r) (\<lambda>(v, r'). Inr r')
      | Fixed64 \<Rightarrow> bind_result (read_fixed64 r) (\<lambda>(v, r'). Inr r')
      | Fixed32 \<Rightarrow> bind_result (read_fixed32 r) (\<lambda>(v, r'). Inr r')
      | LengthDelimited \<Rightarrow>
          bind_result (read_varint r) (\<lambda>(v, r').
            bind_result (check_length (limits r') (unat v)) (\<lambda>_. advance r' (unat v)))
      | StartGroup \<Rightarrow>
          bind_result (u32_add d 1) (\<lambda>child_depth.
            if max_depth (limits r) < child_depth then Inl (Raised DepthLimitExceeded)
            else skip_group child_depth r)
      | EndGroup \<Rightarrow> Inl (Raised (UnexpectedWireType 4)))"
| "skip_group child_depth r =
     (if is_empty r then Inl (Raised (UnterminatedGroup 0))
      else bind_result (read_tag r) (\<lambda>(t, r').
        if wire_type t = EndGroup then Inr r'
        else bind_result (skip_inner (wire_type t) child_depth r') (\<lambda>r''.
          skip_group child_depth r'')))"
  by pat_completeness auto

lemma skip_dom_forward:
  "skip_inner_skip_group_dom (Inl (wt, d, r)) \<Longrightarrow> skip_inner wt d r = Inr r' \<Longrightarrow> strictly_forward r r'"
  "skip_inner_skip_group_dom (Inr (cd, r)) \<Longrightarrow> skip_group cd r = Inr r' \<Longrightarrow> strictly_forward r r'"
proof (induction wt d r and cd r arbitrary: r' and r' rule: skip_inner_skip_group.pinduct)
  case (1 wt d r)
  have "read_varint r = Inr (v, r1) \<Longrightarrow> advance r1 n = Inr r' \<Longrightarrow> strictly_forward r r'" for v r1 n
    by (metis advance_moved forward_def read_varint_moved strictly_forward_trans1)
  with 1 show ?case
    by (cases wt) (auto simp: skip_inner.psimps bind_result_eq_Inr split: if_splits dest: reads_moved)
next
  case (2 cd r)
  from "2.prems" obtain t r1 where t: "read_tag r = Inr (t, r1)" and ne: "\<not> is_empty r"
    and k: "(if wire_type t = EndGroup then Inr r1
       else bind_result (skip_inner (wire_type t) cd r1) (\<lambda>r''. skip_group cd r'')) = Inr r'"
    using "2.hyps" by (auto simp: skip_group.psimps bind_result_eq_Inr split: if_splits)
  note f = read_tag_moved(1) [OF t]
  show ?case
  proof (cases "wire_type t = EndGroup")
    case True
    with k f show ?thesis by simp
  next
    case False
    with k obtain r2 where "skip_inner (wire_type t) cd r1 = Inr r2" "skip_group cd r2 = Inr r'"
      by (auto simp: bind_result_eq_Inr)
    with "2.IH"(1) [OF ne t refl False] "2.IH"(2) [OF ne t refl False, of r2] show ?thesis
      using f by (metis strictly_forward_imp strictly_forward_trans1)
  qed
qed

lemma skip_total: "All skip_inner_skip_group_dom"
proof (rule "skip_inner_skip_group.termination"
    [of "measure (\<lambda>x. case x of Inl (wt, d, r) \<Rightarrow> 2 * remaining r + 1 | Inr (cd, r) \<Rightarrow> 2 * remaining r)"])
  fix cd r x t r1 r2
  assume "read_tag r = Inr x" "(t, r1) = x" "skip_inner_skip_group_dom (Inl (wire_type t, cd, r1))"
    "skip_inner (wire_type t) cd r1 = Inr r2"
  then have "strictly_forward r r1" "strictly_forward r1 r2"
    using skip_dom_forward(1) read_tag_moved(1) by auto
  then show "(Inr (cd, r2), Inr (cd, r)) \<in> measure
      (\<lambda>x. case x of Inl (wt, d, r) \<Rightarrow> 2 * remaining r + 1 | Inr (cd, r) \<Rightarrow> 2 * remaining r)"
    by (auto dest!: strictly_forward_remaining)
qed (auto dest!: read_tag_moved(1) strictly_forward_remaining)

termination skip_inner
  by (rule skip_total)

lemma skip_inner_forward:
  "skip_inner wt d r = Inr r' \<Longrightarrow> strictly_forward r r'"
  "skip_group cd r = Inr r' \<Longrightarrow> strictly_forward r r'"
  by (rule skip_dom_forward, rule skip_total [THEN spec], assumption)+

declare skip_inner.simps [simp del] skip_group.simps [simp del]

definition skip :: "reader \<Rightarrow> wire_type \<Rightarrow> reader core_res" where
  "skip r wt = skip_inner wt (depth r) r"

end
