(* ===== verification/Reading.thy ===== *)
theory Reading
  imports Reader
begin

text \<open>
  The reasoning layer over the reader. \<open>reads d f bs v\<close> says that the read operation \<open>f\<close>,
  started in front of the bytes \<open>bs\<close> with enough budget left (\<open>ample\<close>) and room for \<open>d\<close>
  nesting levels, returns \<open>v\<close>, consumes exactly \<open>bs\<close> and keeps the budget; such facts
  compose along the sequence of operations of a decoder. \<open>while_unread\<close> is the decode loop
  \<open>while !r.is_empty() { ... }\<close> that every message decoder of the workspace runs, and
  \<open>loops\<close> is its counterpart of \<open>reads\<close>.
\<close>

section \<open>Decode loops\<close>

fun read_loop :: "nat \<Rightarrow> ('s \<Rightarrow> reader \<Rightarrow> ('e, 's \<times> reader) res) \<Rightarrow> 's \<Rightarrow> reader
    \<Rightarrow> ('e, 's \<times> reader) res" where
  "read_loop 0 body s r = Inl Diverges"
| "read_loop (Suc n) body s r =
     (if is_empty r then Inr (s, r)
      else bind_result (body s r) (\<lambda>(s', r'). read_loop n body s' r'))"

definition while_unread :: "('s \<Rightarrow> reader \<Rightarrow> ('e, 's \<times> reader) res) \<Rightarrow> 's \<Rightarrow> reader
    \<Rightarrow> ('e, 's \<times> reader) res" where
  "while_unread body s r = read_loop (Suc (remaining r)) body s r"

text \<open>
  A loop body that reads at least one byte whenever it succeeds. For such a body one
  iteration per unread byte is enough, so the fuel is never used up and the loop obeys the
  equation of the source's \<open>while\<close>.
\<close>

definition progressive :: "('s \<Rightarrow> reader \<Rightarrow> ('e, 's \<times> reader) res) \<Rightarrow> bool" where
  "progressive body \<longleftrightarrow>
     (\<forall>s r s' r'. body s r = Inr (s', r') \<longrightarrow> strictly_forward r r') \<and> (\<forall>s r. \<not> diverges (body s r))"

lemma progressiveI:
  assumes "\<And>s r s' r'. body s r = Inr (s', r') \<Longrightarrow> strictly_forward r r'"
    and "\<And>s r. \<not> diverges (body s r)"
  shows "progressive body"
  using assms by (auto simp: progressive_def)

lemma read_loop_fuel:
  assumes "progressive body" and "remaining r < n"
  shows "read_loop n body s r = read_loop (Suc (remaining r)) body s r"
  using assms(2)
proof (induction n arbitrary: s r rule: less_induct)
  case (less n)
  then obtain m where n: "n = Suc m" by (cases n) auto
  show ?case
  proof (cases "is_empty r")
    case False
    have "read_loop m body s' r' = read_loop (remaining r) body s' r'" if b: "body s r = Inr (s', r')" for s' r'
    proof -
      have lt: "remaining r' < remaining r"
        using assms(1) b by (auto simp: progressive_def intro: strictly_forward_remaining)
      show ?thesis
      proof (cases "m = remaining r")
        case False
        with less.prems n lt have "remaining r < n" "remaining r' < m" "m < n" "remaining r' < remaining r"
          by auto
        then show ?thesis using less.IH [of m r' s'] less.IH [of "remaining r" r' s'] by simp
      qed simp
    qed
    then show ?thesis
      using False by (auto simp: n intro!: bind_result_cong)
  qed (simp add: n)
qed

theorem while_unread_unfold:
  assumes "progressive body"
  shows "while_unread body s r =
    (if is_empty r then Inr (s, r) else bind_result (body s r) (\<lambda>(s', r'). while_unread body s' r'))"
proof -
  have "read_loop (remaining r) body s' r' = while_unread body s' r'" if "body s r = Inr (s', r')" for s' r'
  proof -
    have "remaining r' < remaining r"
      using assms that by (auto simp: progressive_def intro: strictly_forward_remaining)
    then show ?thesis
      unfolding while_unread_def by (rule read_loop_fuel [OF assms])
  qed
  then show ?thesis
    by (auto simp: while_unread_def [of body s r] intro!: bind_result_cong)
qed

theorem while_unread_terminates:
  assumes "progressive body"
  shows "\<not> diverges (while_unread body s r)"
proof -
  have "remaining r < n \<Longrightarrow> \<not> diverges (read_loop n body s r)" for n
  proof (induction n arbitrary: s r)
    case (Suc n)
    have "\<not> diverges (read_loop n body s' r')" if b: "body s r = Inr (s', r')" for s' r'
    proof -
      have "remaining r' < remaining r"
        using assms b by (auto simp: progressive_def intro: strictly_forward_remaining)
      with Suc.prems have "remaining r' < n" by simp
      then show ?thesis by (rule Suc.IH)
    qed
    then show ?case
      using assms by (auto simp: diverges_bind progressive_def)
  qed simp
  then show ?thesis unfolding while_unread_def by blast
qed

lemma while_unread_forward:
  assumes "progressive body" and "while_unread body s r = Inr (s', r')" and "pos r \<le> length (buf r)"
  shows "forward r r' \<and> is_empty r'"
proof -
  have "read_loop n body s r = Inr (s', r') \<Longrightarrow> pos r \<le> length (buf r) \<Longrightarrow> forward r r' \<and> is_empty r'" for n
  proof (induction n arbitrary: s r)
    case (Suc n)
    show ?case
    proof (cases "is_empty r")
      case True
      with Suc.prems show ?thesis
        by (auto simp: forward_def moved_def intro!: exI [of _ 0])
    next
      case False
      with Suc.prems(1) obtain s1 r1 where b: "body s r = Inr (s1, r1)" "read_loop n body s1 r1 = Inr (s', r')"
        by (auto simp: bind_result_eq_Inr)
      then have f: "forward r r1" using assms(1) by (auto simp: progressive_def)
      then have "pos r1 \<le> length (buf r1)" by (rule forwardD)
      with Suc.IH b(2) f show ?thesis by (blast intro: forward_trans)
    qed
  qed simp
  then show ?thesis using assms(2,3) unfolding while_unread_def by blast
qed

section \<open>Reading known bytes\<close>

definition unread :: "reader \<Rightarrow> byte list" where
  "unread r = drop (pos r) (buf r)"

definition ample :: "reader \<Rightarrow> bool" where
  "ample r \<longleftrightarrow> pos r \<le> length (buf r) \<and> length (buf r) < 2 ^ 63
     \<and> bytes_read r + remaining r < 2 ^ 64 \<and> field_count r + remaining r < 2 ^ 64
     \<and> within (max_bytes (limits r)) (bytes_read r + remaining r)
     \<and> within (max_fields (limits r)) (field_count r + remaining r)
     \<and> within (max_length_delimited (limits r)) (remaining r)
     \<and> within (max_string_len (limits r)) (remaining r)"

definition room :: "nat \<Rightarrow> reader \<Rightarrow> bool" where
  "room d r \<longleftrightarrow> depth r + d \<le> max_depth (limits r) \<and> depth r + d < 2 ^ 32"

definition after :: "reader \<Rightarrow> reader \<Rightarrow> byte list \<Rightarrow> bool" where
  "after r r' rest \<longleftrightarrow> ample r' \<and> unread r' = rest \<and> depth r' = depth r \<and> limits r' = limits r"

definition reads :: "nat \<Rightarrow> (reader \<Rightarrow> ('e, 'a \<times> reader) res) \<Rightarrow> byte list \<Rightarrow> 'a \<Rightarrow> bool" where
  "reads d f bs v \<longleftrightarrow>
     (\<forall>r rest. ample r \<longrightarrow> room d r \<longrightarrow> unread r = bs @ rest
        \<longrightarrow> (\<exists>r'. f r = Inr (v, r') \<and> after r r' rest))"

lemma length_unread: "length (unread r) = remaining r"
  by (simp add: unread_def remaining_def)

lemma is_empty_unread: "is_empty r \<longleftrightarrow> unread r = []"
  by (simp add: is_empty_def unread_def)

lemma room_mono: "room d r \<Longrightarrow> e \<le> d \<Longrightarrow> room e r"
  by (auto simp: room_def)

lemma room_after: "after r r' rest \<Longrightarrow> room d r' \<longleftrightarrow> room d r"
  by (simp add: room_def after_def)

lemma after_trans: "after r s xs \<Longrightarrow> after s t ys \<Longrightarrow> after r t ys"
  by (simp add: after_def)

lemma readsI:
  assumes "\<And>r rest. ample r \<Longrightarrow> room d r \<Longrightarrow> unread r = bs @ rest \<Longrightarrow> \<exists>r'. f r = Inr (v, r') \<and> after r r' rest"
  shows "reads d f bs v"
  using assms by (simp add: reads_def)

lemma readsE:
  assumes "reads d f bs v" and "ample r" and "room d r" and "unread r = bs @ rest"
  obtains r' where "f r = Inr (v, r')" and "after r r' rest"
  using assms by (auto simp: reads_def)

lemma reads_mono: "reads d f bs v \<Longrightarrow> d \<le> e \<Longrightarrow> reads e f bs v"
  unfolding reads_def by (meson room_mono)

lemma reads_return: "reads d (\<lambda>r. Inr (v, r)) [] v"
  by (simp add: reads_def after_def)

lemma reads_bind:
  assumes "reads d f bs v" and "reads d (g v) cs w"
  shows "reads d (\<lambda>r. bind_result (f r) (\<lambda>(x, r'). g x r')) (bs @ cs) w"
proof (rule readsI)
  fix r rest
  assume r: "ample r" "room d r" "unread r = (bs @ cs) @ rest"
  then have u: "unread r = bs @ (cs @ rest)" by simp
  obtain r1 where 1: "f r = Inr (v, r1)" "after r r1 (cs @ rest)"
    using readsE [OF assms(1) r(1,2) u] by blast
  then have r1: "ample r1" "room d r1" "unread r1 = cs @ rest"
    using r(2) by (simp_all add: after_def room_def)
  obtain r2 where "g v r1 = Inr (w, r2)" "after r1 r2 rest"
    using readsE [OF assms(2) r1] by blast
  with 1 show "\<exists>r'. bind_result (f r) (\<lambda>(x, r'). g x r') = Inr (w, r') \<and> after r r' rest"
    by (auto intro: after_trans)
qed

lemma reads_map:
  assumes "reads d f bs v" and "h v = w"
  shows "reads d (\<lambda>r. bind_result (f r) (\<lambda>(x, r'). Inr (h x, r'))) bs w"
  using reads_bind [OF assms(1), of "\<lambda>x r'. Inr (h x, r')" "[]" w] assms(2) reads_return [of d w]
  by simp

lemma reads_map_fault: "reads d f bs v \<Longrightarrow> reads d (\<lambda>r. map_fault h (f r)) bs v"
  by (fastforce simp: reads_def)

lemma ample_shrink:
  assumes "ample r" and "limits r' = limits r" and "pos r' \<le> length (buf r')"
    and "length (buf r') < 2 ^ 63"
    and "bytes_read r' + remaining r' \<le> bytes_read r + remaining r"
    and "field_count r' + remaining r' \<le> field_count r + remaining r"
    and "remaining r' \<le> remaining r"
  shows "ample r'"
proof -
  note a = assms(1) [unfolded ample_def]
  have "within (max_bytes (limits r')) (bytes_read r' + remaining r')"
    "within (max_fields (limits r')) (field_count r' + remaining r')"
    "within (max_length_delimited (limits r')) (remaining r')"
    "within (max_string_len (limits r')) (remaining r')"
    using a assms(2,5-7) within_mono by metis+
  moreover have "bytes_read r' + remaining r' < 2 ^ 64" "field_count r' + remaining r' < 2 ^ 64"
    using a assms(5,6) by linarith+
  ultimately show ?thesis
    using assms(3,4) by (simp add: ample_def)
qed

lemma advance_ample:
  assumes "ample r" and "n \<le> remaining r"
  shows "\<exists>r'. advance r n = Inr r' \<and> after r r' (drop n (unread r))
    \<and> pos r' = pos r + n \<and> field_count r' = field_count r \<and> buf r' = buf r"
proof -
  let ?r = "r\<lparr>pos := pos r + n, bytes_read := bytes_read r + n\<rparr>"
  have len: "pos r \<le> length (buf r)" "length (buf r) < 2 ^ 63" and sum: "bytes_read r + remaining r < 2 ^ 64"
    and w: "within (max_bytes (limits r)) (bytes_read r + remaining r)"
    using assms(1) by (simp_all add: ample_def)
  have p: "pos r + n \<le> length (buf r)" and rem: "remaining ?r = remaining r - n"
    using assms(2) len(1) by (simp_all add: remaining_def)
  have "advance r n = Inr ?r"
    using p len sum assms(2) within_mono [OF w, of "bytes_read r + n"]
    by (simp add: advance_def usize_add_ok check_eq)
  moreover have "ample ?r"
    using assms(2) p len rem by (intro ample_shrink [OF assms(1)]) simp_all
  ultimately show ?thesis
    by (auto simp: after_def unread_def add.commute)
qed

lemma reads_varint: "reads d read_varint (varint v) v"
proof (rule readsI)
  fix r rest
  assume r: "ample r" "unread r = varint v @ rest"
  then have "decode_varint (buf r) (pos r) = Inr (v, length (varint v))"
    by (simp add: unread_def decode_varint_varint)
  moreover have "length (varint v) \<le> remaining r"
    using r(2) length_unread [of r] by simp
  then obtain r' where "advance r (length (varint v)) = Inr r'" "after r r' (drop (length (varint v)) (unread r))"
    using advance_ample [OF r(1)] by blast
  ultimately show "\<exists>r'. read_varint r = Inr (v, r') \<and> after r r' rest"
    using r(2) by (simp add: read_varint_def)
qed

lemma reads_tag:
  assumes "0 < f" and "f < 2 ^ 29"
  shows "reads d read_tag (tag_bytes f wt) \<lparr>field_number = f, wire_type = wt\<rparr>"
proof (rule readsI)
  fix r rest
  assume r: "ample r" "unread r = tag_bytes f wt @ rest"
  let ?n = "length (tag_bytes f wt)"
  have t: "Tag_decode (buf r) (pos r) = Inr (\<lparr>field_number = f, wire_type = wt\<rparr>, ?n)"
    using r(2) assms by (intro Tag_decode_tag_bytes) (simp_all add: unread_def)
  obtain k where "?n = Suc k"
    using length_tag_bytes_pos by (cases ?n) auto
  moreover have le: "?n \<le> remaining r"
    using r(2) length_unread [of r] by simp
  moreover from le obtain r' where a: "advance r ?n = Inr r'" "after r r' rest"
      "pos r' = pos r + ?n" "field_count r' = field_count r" "buf r' = buf r"
    using advance_ample [OF r(1)] r(2) by fastforce
  ultimately have rem: "field_count r + 1 + remaining r' \<le> field_count r + remaining r"
    by (auto simp: remaining_def)
  have l: "limits r' = limits r" using a(2) by (simp add: after_def)
  have fc: "field_count r + 1 < 2 ^ 64" "within (max_fields (limits r)) (field_count r + 1)"
    using r(1) rem within_mono [of "max_fields (limits r)" "field_count r + remaining r" "field_count r + 1"]
    by (simp_all add: ample_def)
  have am: "ample r'" using a(2) by (simp add: after_def)
  have "ample (r'\<lparr>field_count := field_count r + 1\<rparr>)"
  proof (rule ample_shrink [OF r(1)])
    have "bytes_read r' = bytes_read r + ?n"
      using advance_strict_budget [OF a(1)] by simp
    then show "bytes_read (r'\<lparr>field_count := field_count r + 1\<rparr>) +
        remaining (r'\<lparr>field_count := field_count r + 1\<rparr>) \<le> bytes_read r + remaining r"
      using a(3,5) le by (simp add: remaining_def)
  qed (use am rem l in \<open>simp_all add: ample_def remaining_def\<close>)
  then have "after r (r'\<lparr>field_count := field_count r + 1\<rparr>) rest"
    using a(2) by (simp add: after_def unread_def)
  then show "\<exists>r'. read_tag r = Inr (\<lparr>field_number = f, wire_type = wt\<rparr>, r') \<and> after r r' rest"
    using t a(1,4) fc(1,2) l by (simp add: read_tag_def usize_add_ok check_eq)
qed

lemma reads_exact:
  assumes "length bs = n" and "0 < n" and "n < 2 ^ 32"
    and "\<And>r. f r = bind_result (usize_add (pos r) n) (\<lambda>e.
       if length (buf r) < e then Inl (Raised UnexpectedEof)
       else bind_result (slice (buf r) (pos r) e) (\<lambda>s.
         bind_result (advance r n) (\<lambda>r'. Inr (g s, r'))))"
  shows "reads d f bs (g bs)"
proof (rule readsI)
  fix r rest
  assume r: "ample r" "unread r = bs @ rest"
  have le: "n \<le> remaining r"
    using r(2) assms(1) length_unread [of r] by simp
  then obtain r' where "advance r n = Inr r'" "after r r' rest"
    using advance_ample [OF r(1)] r(2) assms(1) by fastforce
  moreover have "pos r + n \<le> length (buf r)" "pos r + n < 2 ^ 64"
    using le r(1) assms(2) by (auto simp: ample_def remaining_def)
  moreover have "take n (drop (pos r) (buf r)) = bs"
    using r(2) assms(1) by (simp add: unread_def)
  ultimately show "\<exists>r'. f r = Inr (g bs, r') \<and> after r r' rest"
    by (simp add: assms(4) usize_add_ok slice_ok)
qed

lemma reads_fixed32: "reads d read_fixed32 (le_bytes 4 v) v"
  using reads_exact [of "le_bytes 4 v" 4 read_fixed32 of_le_bytes d]
  by (simp add: read_fixed32_def of_le_bytes_le_bytes)

lemma reads_fixed64: "reads d read_fixed64 (le_bytes 8 v) v"
  using reads_exact [of "le_bytes 8 v" 8 read_fixed64 of_le_bytes d]
  by (simp add: read_fixed64_def of_le_bytes_le_bytes)

lemma reads_length_delimited: "reads d read_length_delimited (length_delimited bs) bs"
proof (rule readsI)
  fix r rest
  assume r: "ample r" "room d r" "unread r = length_delimited bs @ rest"
  have "length bs < 2 ^ 63"
    using r(1,3) length_unread [of r] by (auto simp: ample_def remaining_def length_delimited_def)
  then have n: "unat (word_of_nat (length bs) :: u64) = length bs"
    by (simp add: unat_of_nat)
  obtain r1 where 1: "read_varint r = Inr (word_of_nat (length bs), r1)" "after r r1 (bs @ rest)"
    using r by (metis append.assoc length_delimited_def readsE reads_varint)
  have am: "ample r1" and u: "unread r1 = bs @ rest"
    using 1(2) by (simp_all add: after_def)
  have le: "length bs \<le> remaining r1"
    using u length_unread [of r1] by simp
  obtain r2 where 2: "advance r1 (length bs) = Inr r2" "after r1 r2 rest"
    using advance_ample [OF am le] u by fastforce
  have "within (max_length_delimited (limits r1)) (length bs)" "pos r1 + length bs \<le> length (buf r1)"
    "pos r1 + length bs < 2 ^ 64" "take (length bs) (drop (pos r1) (buf r1)) = bs"
    using am le u by (auto simp: ample_def remaining_def unread_def intro: within_mono)
  then show "\<exists>r'. read_length_delimited r = Inr (bs, r') \<and> after r r' rest"
    using 1 2 n by (auto simp: read_length_delimited_def check_eq usize_add_ok slice_ok intro: after_trans)
qed

lemma reads_string: "str_ok s \<Longrightarrow> reads d read_string (length_delimited (as_bytes s)) s"
proof (rule readsI)
  fix r rest
  assume s: "str_ok s" and r: "ample r" "room d r" "unread r = length_delimited (as_bytes s) @ rest"
  then obtain r' where 1: "read_length_delimited r = Inr (as_bytes s, r')" "after r r' rest"
    by (metis readsE reads_length_delimited)
  have "within (max_string_len (limits r)) (length s)"
    using r length_unread [of r] by (auto simp: ample_def length_delimited_def intro: within_mono)
  then show "\<exists>r'. read_string r = Inr (s, r') \<and> after r r' rest"
    using 1 s by (auto simp: read_string_def check_eq from_utf8_as_bytes after_def)
qed

lemma reads_string_owned: "str_ok s \<Longrightarrow> reads d read_string_owned (length_delimited (as_bytes s)) s"
  by (simp add: read_string_owned_eq reads_string)

section \<open>Loops over known bytes\<close>

inductive loops :: "nat \<Rightarrow> ('s \<Rightarrow> reader \<Rightarrow> ('e, 's \<times> reader) res) \<Rightarrow> 's \<Rightarrow> byte list \<Rightarrow> 's \<Rightarrow> bool"
  for d body where
  loops_done: "loops d body s [] s"
| loops_step: "reads d (body s) as s1 \<Longrightarrow> as \<noteq> [] \<Longrightarrow> loops d body s1 bs s2 \<Longrightarrow> loops d body s (as @ bs) s2"

lemma loops_one: "reads d (body s) as s1 \<Longrightarrow> as \<noteq> [] \<Longrightarrow> loops d body s as s1"
  using loops_step [OF _ _ loops_done, of d body s as s1] by simp

lemma loops_append: "loops d body s as s1 \<Longrightarrow> loops d body s1 bs s2 \<Longrightarrow> loops d body s (as @ bs) s2"
  by (induction rule: loops.induct) (auto intro: loops_step)

lemma loops_concat:
  assumes "\<And>s x. x \<in> set xs \<Longrightarrow> loops d body s (f x) (g s x)"
  shows "loops d body s (concat (map f xs)) (foldl g s xs)"
  using assms
  by (induction xs arbitrary: s) (auto intro: loops_done loops_append)

lemma loops_mono: "loops d body s bs s' \<Longrightarrow> d \<le> e \<Longrightarrow> loops e body s bs s'"
  by (induction rule: loops.induct) (auto intro: loops.intros reads_mono)

lemma while_unread_loops:
  assumes "loops d body s bs s'" and "ample r" and "room d r" and "unread r = bs"
  shows "\<exists>r'. while_unread body s r = Inr (s', r') \<and> after r r' []"
proof -
  have "remaining r < n \<Longrightarrow> \<exists>r'. read_loop n body s r = Inr (s', r') \<and> after r r' []" for n
    using assms
  proof (induction arbitrary: r n rule: loops.induct)
    case (loops_done s)
    then show ?case by (cases n) (auto simp: is_empty_unread after_def)
  next
    case (loops_step s as s1 bs s2)
    then obtain m where n: "n = Suc m" by (cases n) auto
    from loops_step obtain r1 where 1: "body s r = Inr (s1, r1)" "after r r1 bs"
      by (metis readsE)
    have "\<not> is_empty r" using loops_step by (simp add: is_empty_unread)
    moreover have "remaining r1 < m"
      using loops_step.prems loops_step.hyps(2) 1(2) length_unread [of r] length_unread [of r1]
      by (cases as) (auto simp: n after_def)
    then obtain r2 where "read_loop m body s1 r1 = Inr (s2, r2)" "after r1 r2 []"
      using loops_step.IH [of r1 m] 1(2) loops_step.prems(3) by (auto simp: after_def room_def)
    ultimately show ?case
      using 1 by (auto simp: n intro: after_trans)
  qed
  then show ?thesis unfolding while_unread_def by blast
qed

text \<open>A length-delimited payload decoded through a nested reader.\<close>

lemma nested_ample:
  assumes "ample r" and "room (Suc d) r" and "length b \<le> remaining r0" and "ample r0"
    and "limits r = limits r0"
  shows "\<exists>sub. nested r b = Inr sub \<and> ample sub \<and> room d sub \<and> unread sub = b"
proof -
  let ?sub = "\<lparr>buf = b, pos = 0, depth = depth r + 1, field_count = 0, limits = limits r, bytes_read = 0\<rparr>"
  have "nested r b = Inr ?sub"
    using assms(2) by (simp add: nested_def u32_add_ok room_def)
  moreover have "ample ?sub"
    using assms(3,4,5)
    by (intro ample_shrink [OF assms(4)]) (auto simp: remaining_def ample_def)
  moreover have "room d ?sub" "unread ?sub = b"
    using assms(2) by (auto simp: room_def unread_def)
  ultimately show ?thesis by blast
qed

text \<open>
  \<open>decodes d f bs x\<close>: on a reader whose whole remaining input is \<open>bs\<close>, the decoder \<open>f\<close>
  returns \<open>x\<close> and leaves nothing unread.
\<close>

definition decodes :: "nat \<Rightarrow> (reader \<Rightarrow> ('e, 'a \<times> reader) res) \<Rightarrow> byte list \<Rightarrow> 'a \<Rightarrow> bool" where
  "decodes d f bs x \<longleftrightarrow>
     (\<forall>r. ample r \<longrightarrow> room d r \<longrightarrow> unread r = bs \<longrightarrow> (\<exists>r'. f r = Inr (x, r') \<and> after r r' []))"

lemma decodesE:
  assumes "decodes d f bs x" and "ample r" and "room d r" and "unread r = bs"
  obtains r' where "f r = Inr (x, r')" and "after r r' []"
  using assms by (auto simp: decodes_def)

lemma decodes_loops: "loops d body s bs s' \<Longrightarrow> decodes d (while_unread body s) bs s'"
  by (simp add: decodes_def while_unread_loops)

lemma decodes_mono: "decodes d f bs x \<Longrightarrow> d \<le> e \<Longrightarrow> decodes e f bs x"
  unfolding decodes_def using room_mono by blast

lemma reads_payload:
  assumes f: "decodes d f bs x" and k: "reads (Suc d) (k x) cs y"
  shows "reads (Suc d) (\<lambda>r. bind_result (read_length_delimited r) (\<lambda>(b, r1).
      bind_result (nested r1 b) (\<lambda>sub. bind_result (f sub) (\<lambda>(x, _). k x r1)))) (length_delimited bs @ cs) y"
proof (rule readsI)
  fix r rest
  assume r: "ample r" "room (Suc d) r" "unread r = (length_delimited bs @ cs) @ rest"
  then have u: "unread r = length_delimited bs @ (cs @ rest)" by simp
  obtain r1 where 1: "read_length_delimited r = Inr (bs, r1)" "after r r1 (cs @ rest)"
    by (rule readsE [OF reads_length_delimited r(1,2) u])
  have r1: "ample r1" "room (Suc d) r1" "unread r1 = cs @ rest" "limits r1 = limits r"
    using 1(2) r(2) by (simp_all add: after_def room_def)
  have "length bs \<le> remaining r"
    using u length_unread [of r] by (simp add: length_delimited_def)
  then obtain sub where 2: "nested r1 bs = Inr sub" "ample sub" "room d sub" "unread sub = bs"
    using nested_ample [OF r1(1,2) _ r(1) r1(4)] by blast
  obtain sub' where 3: "f sub = Inr (x, sub')"
    by (rule decodesE [OF f 2(2-4)])
  obtain r2 where "k x r1 = Inr (y, r2)" "after r1 r2 rest"
    by (rule readsE [OF k r1(1-3)])
  with 1 2 3 show "\<exists>r'. bind_result (read_length_delimited r) (\<lambda>(b, r1).
      bind_result (nested r1 b) (\<lambda>sub. bind_result (f sub) (\<lambda>(x, _). k x r1))) = Inr (y, r') \<and> after r r' rest"
    by (auto intro: after_trans)
qed

lemma reads_payload_return:
  "decodes d f bs x \<Longrightarrow> k x = y \<Longrightarrow>
   reads (Suc d) (\<lambda>r. bind_result (read_length_delimited r) (\<lambda>(b, r1).
      bind_result (nested r1 b) (\<lambda>sub. bind_result (f sub) (\<lambda>(x, _). Inr (k x, r1))))) (length_delimited bs) y"
  using reads_payload [of d f bs x "\<lambda>x r. Inr (k x, r)" "[]" y] by (simp add: reads_return)

text \<open>A whole buffer with the default limits.\<close>

lemma ample_new: "length b \<le> 1000000 \<Longrightarrow> ample (Reader_new b) \<and> room 100 (Reader_new b) \<and> unread (Reader_new b) = b"
  by (simp add: ample_def room_def Reader_new_def Reader_with_limits_def default_limits_def
      unread_def remaining_def)

end
