(* ===== verification/Reader_State.thy ===== *)
theory Reader_State
  imports Reader
begin

text \<open>
  The reader that an operation leaves behind. The operations of \<open>Reader\<close> return the reader only with
  an \<open>Ok\<close>, which is what the decoders need: they pass every error on and drop the reader. A client
  that keeps its \<open>&mut Reader\<close> after an \<open>Err\<close> holds the reader as it was when the operation stopped,
  with position and counters already moved. Here every operation of the source is written
  once more with its result next to that reader, and shown to agree with \<open>Reader\<close>.
\<close>

section \<open>Operations with the reader they leave\<close>

type_synonym 'a left = "'a core_res \<times> reader"

definition then_left :: "'a left \<Rightarrow> ('a \<Rightarrow> reader \<Rightarrow> 'b left) \<Rightarrow> 'b left" where
  "then_left m f = (case m of (Inl e, r) \<Rightarrow> (Inl e, r) | (Inr x, r) \<Rightarrow> f x r)"

lemma then_left_simps [simp]:
  "then_left (Inl e, r) f = (Inl e, r)" "then_left (Inr x, r) f = f x r"
  by (simp_all add: then_left_def)

lemma then_left_cong [fundef_cong]:
  "m = m' \<Longrightarrow> (\<And>x r. m' = (Inr x, r) \<Longrightarrow> f x r = g x r) \<Longrightarrow> then_left m f = then_left m' g"
  by (auto simp: then_left_def split: prod.split sum.split)

definition advance_left :: "reader \<Rightarrow> nat \<Rightarrow> unit left" where
  "advance_left r n =
     then_left (usize_add (pos r) n, r) (\<lambda>p r.
       if length (buf r) < p then (Inl (Raised UnexpectedEof), r)
       else then_left (usize_add (bytes_read r) n, r\<lparr>pos := p\<rparr>) (\<lambda>b r.
         (check_bytes (limits r) b, r\<lparr>bytes_read := b\<rparr>)))"

definition read_varint_left :: "reader \<Rightarrow> u64 left" where
  "read_varint_left r =
     then_left (decode_varint (buf r) (pos r), r) (\<lambda>(v, n) r.
       then_left (advance_left r n) (\<lambda>_ r. (Inr v, r)))"

definition read_varint_raw_left :: "reader \<Rightarrow> (u64 \<times> byte list) left" where
  "read_varint_raw_left r =
     then_left (decode_varint (buf r) (pos r), r) (\<lambda>(v, n) r.
       then_left (usize_add (pos r) n, r) (\<lambda>e r.
         then_left (slice (buf r) (pos r) e, r) (\<lambda>raw r.
           then_left (advance_left r n) (\<lambda>_ r. (Inr (v, raw), r)))))"

definition read_tag_left :: "reader \<Rightarrow> tag left" where
  "read_tag_left r =
     then_left (Tag_decode (buf r) (pos r), r) (\<lambda>(t, n) r.
       then_left (advance_left r n) (\<lambda>_ r.
         then_left (usize_add (field_count r) 1, r) (\<lambda>c r.
           then_left (check_field (limits r) c, r\<lparr>field_count := c\<rparr>) (\<lambda>_ r. (Inr t, r)))))"

definition read_length_delimited_left :: "reader \<Rightarrow> byte list left" where
  "read_length_delimited_left r =
     then_left (read_varint_left r) (\<lambda>v r.
       then_left (check_length (limits r) (unat v), r) (\<lambda>_ r.
         then_left (usize_add (pos r) (unat v), r) (\<lambda>e r.
           if length (buf r) < e then (Inl (Raised (LengthLimitExceeded (unat v))), r)
           else then_left (slice (buf r) (pos r) e, r) (\<lambda>s r.
             then_left (advance_left r (unat v)) (\<lambda>_ r. (Inr s, r))))))"

definition read_fixed32_left :: "reader \<Rightarrow> u32 left" where
  "read_fixed32_left r =
     then_left (usize_add (pos r) 4, r) (\<lambda>e r.
       if length (buf r) < e then (Inl (Raised UnexpectedEof), r)
       else then_left (slice (buf r) (pos r) e, r) (\<lambda>s r.
         then_left (advance_left r 4) (\<lambda>_ r. (Inr (of_le_bytes s), r))))"

definition read_fixed64_left :: "reader \<Rightarrow> u64 left" where
  "read_fixed64_left r =
     then_left (usize_add (pos r) 8, r) (\<lambda>e r.
       if length (buf r) < e then (Inl (Raised UnexpectedEof), r)
       else then_left (slice (buf r) (pos r) e, r) (\<lambda>s r.
         then_left (advance_left r 8) (\<lambda>_ r. (Inr (of_le_bytes s), r))))"

definition read_string_left :: "reader \<Rightarrow> string left" where
  "read_string_left r =
     then_left (read_length_delimited_left r) (\<lambda>bs r.
       then_left (check_string (limits r) (length bs), r) (\<lambda>_ r. (from_utf8 bs, r)))"

function skip_inner_left :: "wire_type \<Rightarrow> nat \<Rightarrow> reader \<Rightarrow> unit left"
  and skip_group_left :: "nat \<Rightarrow> reader \<Rightarrow> unit left" where
  "skip_inner_left wt d r =
     (case wt of
        Varint \<Rightarrow> then_left (read_varint_left r) (\<lambda>_ r. (Inr (), r))
      | Fixed64 \<Rightarrow> then_left (read_fixed64_left r) (\<lambda>_ r. (Inr (), r))
      | Fixed32 \<Rightarrow> then_left (read_fixed32_left r) (\<lambda>_ r. (Inr (), r))
      | LengthDelimited \<Rightarrow>
          then_left (read_varint_left r) (\<lambda>v r.
            then_left (check_length (limits r) (unat v), r) (\<lambda>_ r. advance_left r (unat v)))
      | StartGroup \<Rightarrow>
          then_left (u32_add d 1, r) (\<lambda>child_depth r.
            if max_depth (limits r) < child_depth then (Inl (Raised DepthLimitExceeded), r)
            else skip_group_left child_depth r)
      | EndGroup \<Rightarrow> (Inl (Raised (UnexpectedWireType 4)), r))"
| "skip_group_left child_depth r =
     (if is_empty r then (Inl (Raised (UnterminatedGroup 0)), r)
      else then_left (read_tag_left r) (\<lambda>t r.
        if wire_type t = EndGroup then (Inr (), r)
        else then_left (skip_inner_left (wire_type t) child_depth r) (\<lambda>_ r.
          skip_group_left child_depth r)))"
  by pat_completeness auto

section \<open>Agreement with the operations that drop the reader\<close>

definition as_returned :: "'a left \<Rightarrow> ('a \<times> reader) core_res" where
  "as_returned m = (case m of (Inl e, r) \<Rightarrow> Inl e | (Inr x, r) \<Rightarrow> Inr (x, r))"

lemma as_returned_simps [simp]: "as_returned (Inl e, r) = Inl e" "as_returned (Inr x, r) = Inr (x, r)"
  by (simp_all add: as_returned_def)

lemma as_returned_pure: "as_returned (m, r) = bind_result m (\<lambda>x. Inr (x, r))"
  by (cases m) simp_all

lemma as_returned_then: "as_returned (then_left m f) = bind_result (as_returned m) (\<lambda>(x, r). as_returned (f x r))"
  by (auto simp: as_returned_def then_left_def split: prod.split sum.split)

lemma as_returned_case: "as_returned (case x of (a, b) \<Rightarrow> f a b r) = (case x of (a, b) \<Rightarrow> as_returned (f a b r))"
  by (cases x) simp

lemma as_returned_if: "as_returned (if c then m else m') = (if c then as_returned m else as_returned m')"
  by simp

lemmas as_returned_rules = as_returned_then as_returned_pure as_returned_case as_returned_if bind_result_assoc

lemma as_returned_eqD: "as_returned m = Inr (x, r) \<Longrightarrow> m = (Inr x, r)"
  by (auto simp: as_returned_def split: prod.splits sum.splits)

lemma as_returned_advance: "as_returned (advance_left r n) = bind_result (advance r n) (\<lambda>r'. Inr ((), r'))"
  by (auto simp: advance_left_def advance_def as_returned_rules intro!: bind_result_cong)

lemma as_returned_read:
  "as_returned (read_varint_left r) = read_varint r"
  "as_returned (read_varint_raw_left r) = read_varint_raw r"
  "as_returned (read_tag_left r) = read_tag r"
  "as_returned (read_fixed32_left r) = read_fixed32 r"
  "as_returned (read_fixed64_left r) = read_fixed64 r"
  by (auto simp: read_varint_left_def read_varint_def read_varint_raw_left_def read_varint_raw_def
      read_tag_left_def read_tag_def read_fixed32_left_def read_fixed32_def read_fixed64_left_def read_fixed64_def
      as_returned_rules as_returned_advance case_prod_unfold intro!: bind_result_cong)

lemma as_returned_read_length_delimited: "as_returned (read_length_delimited_left r) = read_length_delimited r"
  by (auto simp: read_length_delimited_left_def read_length_delimited_def as_returned_rules as_returned_read as_returned_advance
      case_prod_unfold intro!: bind_result_cong)

lemma as_returned_read_string: "as_returned (read_string_left r) = read_string r"
  by (auto simp: read_string_left_def read_string_def as_returned_rules as_returned_read_length_delimited
      case_prod_unfold intro!: bind_result_cong)

lemma skip_left_dom_as_returned:
  "skip_inner_left_skip_group_left_dom (Inl (wt, d, r)) \<Longrightarrow>
     as_returned (skip_inner_left wt d r) = bind_result (skip_inner wt d r) (\<lambda>r'. Inr ((), r'))"
  "skip_inner_left_skip_group_left_dom (Inr (cd, r)) \<Longrightarrow>
     as_returned (skip_group_left cd r) = bind_result (skip_group cd r) (\<lambda>r'. Inr ((), r'))"
proof (induction wt d r and cd r rule: skip_inner_left_skip_group_left.pinduct)
  case (1 wt d r)
  show ?case
  proof (cases wt)
    case StartGroup
    have "bind_result (u32_add d 1) (\<lambda>x. as_returned (if max_depth (limits r) < x then (Inl (Raised DepthLimitExceeded), r) else skip_group_left x r))
        = bind_result (u32_add d 1) (\<lambda>x. if max_depth (limits r) < x then Inl (Raised DepthLimitExceeded)
            else bind_result (skip_group x r) (\<lambda>r'. Inr ((), r')))"
      using "1.IH" [OF StartGroup] by (intro bind_result_cong) auto
    then show ?thesis
      using "1.hyps"
      by (simp add: skip_inner_left.psimps skip_inner.simps [of wt] StartGroup as_returned_rules
          if_distrib [of as_returned])
         (simp add: skip_inner.simps as_returned_rules if_distrib [of "\<lambda>m. bind_result m f" for f] cong: if_cong)
  qed (use "1.hyps" in \<open>simp_all add: skip_inner_left.psimps skip_inner.simps as_returned_rules as_returned_read as_returned_advance case_prod_unfold\<close>)
next
  case (2 cd r)
  show ?case
  proof (cases "is_empty r")
    case True
    with "2.hyps" show ?thesis by (simp add: skip_group_left.psimps skip_group.simps [of cd r])
  next
    case ne: False
    have "as_returned (if wire_type t = EndGroup then (Inr (), r1)
          else then_left (skip_inner_left (wire_type t) cd r1) (\<lambda>_ r2. skip_group_left cd r2))
        = bind_result (if wire_type t = EndGroup then Inr r1
          else bind_result (skip_inner (wire_type t) cd r1) (\<lambda>r2. skip_group cd r2)) (\<lambda>r'. Inr ((), r'))"
      if t: "read_tag r = Inr (t, r1)" for t r1
    proof (cases "wire_type t = EndGroup")
      case False
      have tl: "read_tag_left r = (Inr t, r1)"
        using t by (intro as_returned_eqD) (simp add: as_returned_read)
      note IH = "2.IH" [OF ne tl False]
      have "as_returned (skip_group_left cd r2) = bind_result (skip_group cd r2) (\<lambda>r'. Inr ((), r'))"
        if "skip_inner (wire_type t) cd r1 = Inr r2" for r2
        using IH(1) that by (intro IH(2) [of "()"] as_returned_eqD) simp
      then show ?thesis
        using False IH(1) by (auto simp: as_returned_rules intro!: bind_result_cong)
    qed simp
    then show ?thesis
      using "2.hyps" ne
      by (auto simp: skip_group_left.psimps skip_group.simps [of cd r] as_returned_rules as_returned_read intro!: bind_result_cong)
  qed
qed

lemma skip_left_total: "All skip_inner_left_skip_group_left_dom"
proof (rule "skip_inner_left_skip_group_left.termination" [of "measure (\<lambda>x. case x of Inl (wt, d, r) \<Rightarrow> 2 * remaining r + 1 | Inr (cd, r) \<Rightarrow> 2 * remaining r)"])
  fix cd r t r1 x r2
  assume t: "read_tag_left r = (Inr t, r1)" and d: "skip_inner_left_skip_group_left_dom (Inl (wire_type t, cd, r1))"
    and s: "skip_inner_left (wire_type t) cd r1 = (Inr x, r2)"
  have "read_tag r = Inr (t, r1)" "skip_inner (wire_type t) cd r1 = Inr r2"
    using as_returned_read(3) [of r] skip_left_dom_as_returned(1) [OF d]
    by (auto simp: t s bind_result_eq_Inr dest!: sym [of "Inr _"])
  then have "strictly_forward r r1" "strictly_forward r1 r2"
    using read_tag_moved(1) skip_inner_forward(1) by auto
  then show "(Inr (cd, r2), Inr (cd, r)) \<in> measure
      (\<lambda>x. case x of Inl (wt, d, r) \<Rightarrow> 2 * remaining r + 1 | Inr (cd, r) \<Rightarrow> 2 * remaining r)"
    by (auto dest!: strictly_forward_remaining)
next
  fix cd r t r1
  assume "read_tag_left r = (Inr t, r1)"
  then have "read_tag r = Inr (t, r1)" using as_returned_read(3) [of r] by simp
  then show "(Inl (wire_type t, cd, r1), Inr (cd, r)) \<in> measure
      (\<lambda>x. case x of Inl (wt, d, r) \<Rightarrow> 2 * remaining r + 1 | Inr (cd, r) \<Rightarrow> 2 * remaining r)"
    by (auto dest!: read_tag_moved(1) strictly_forward_remaining)
qed (auto simp: then_left_def)

termination skip_inner_left
  by (rule skip_left_total)

lemma as_returned_skip: "as_returned (skip_inner_left wt d r) = bind_result (skip_inner wt d r) (\<lambda>r'. Inr ((), r'))"
  by (rule skip_left_dom_as_returned(1), rule skip_left_total [THEN spec])

declare skip_inner_left.simps [simp del] skip_group_left.simps [simp del]

section \<open>How an operation moves the reader\<close>

text \<open>
  \<open>glides r m\<close>: unless it panics, an operation started on \<open>r\<close> leaves the reader on the same buffer with
  the same limits and depth, its position and byte count moved by the same amount, inside the
  buffer, with at most one field counted per byte; when it succeeds and moved, the byte count is within its
  limit, and so is the field count when it changed.
\<close>

definition glides :: "reader \<Rightarrow> 'a left \<Rightarrow> bool" where
  "glides r m \<longleftrightarrow> (\<not> panics (fst m) \<longrightarrow> (\<exists>k.
     buf (snd m) = buf r \<and> limits (snd m) = limits r \<and> depth (snd m) = depth r
     \<and> pos (snd m) = pos r + k \<and> bytes_read (snd m) = bytes_read r + k
     \<and> field_count r \<le> field_count (snd m) \<and> field_count (snd m) \<le> field_count r + k
     \<and> (pos r \<le> length (buf r) \<longrightarrow> pos r + k \<le> length (buf r))
     \<and> (\<not> isl (fst m) \<longrightarrow> (k = 0 \<or> within (max_bytes (limits r)) (bytes_read r + k))
          \<and> (field_count (snd m) = field_count r \<or> within (max_fields (limits r)) (field_count (snd m))))))"

lemma glides_stay: "glides r (x, r)"
  by (auto simp: glides_def)

lemma glides_then:
  assumes "glides r m" and "\<And>x r'. m = (Inr x, r') \<Longrightarrow> glides r' (f x r')"
  shows "glides r (then_left m f)"
proof (cases m)
  case (Pair y r1)
  show ?thesis
  proof (cases y)
    case (Inl e)
    then show ?thesis using assms(1) Pair by (simp add: glides_def panics_def)
  next
    case (Inr x)
    have "glides r1 (f x r1)" using assms(2) Pair Inr by simp
    moreover have "glides r (Inr x :: _ core_res, r1)" using assms(1) Pair Inr by simp
    then obtain k where k: "buf r1 = buf r" "limits r1 = limits r" "depth r1 = depth r" "pos r1 = pos r + k"
        "bytes_read r1 = bytes_read r + k" "field_count r \<le> field_count r1" "field_count r1 \<le> field_count r + k"
        "pos r \<le> length (buf r) \<Longrightarrow> pos r + k \<le> length (buf r)"
        "k = 0 \<or> within (max_bytes (limits r)) (bytes_read r + k)"
        "field_count r1 = field_count r \<or> within (max_fields (limits r)) (field_count r1)"
      by (auto simp: glides_def)
    moreover have "then_left m f = f x r1" by (simp add: Pair Inr)
    ultimately show ?thesis
      by (auto simp: glides_def add.assoc)
  qed
qed

lemma glides_if: "(c \<Longrightarrow> glides r m) \<Longrightarrow> (\<not> c \<Longrightarrow> glides r m') \<Longrightarrow> glides r (if c then m else m')"
  by simp

lemma glides_case: "(\<And>a b. x = (a, b) \<Longrightarrow> glides r (f a b s)) \<Longrightarrow> glides r ((case x of (a, b) \<Rightarrow> f a b) s)"
  by (cases x) simp

lemma glides_advance: "glides r (advance_left r n)"
  by (auto simp: glides_def advance_left_def then_left_def usize_add_def checked_add_def check_eq panics_def
      split: sum.splits)

lemma glides_read_varint: "glides r (read_varint_left r)"
  unfolding read_varint_left_def
  by (intro glides_then glides_case glides_stay glides_advance)

lemma glides_read_tag: "glides r (read_tag_left r)"
proof -
  have "glides r (then_left (advance_left r n) (\<lambda>_ r. then_left (usize_add (field_count r) 1, r) (\<lambda>c r.
      then_left (check_field (limits r) c, r\<lparr>field_count := c\<rparr>) (\<lambda>_ r. (Inr t, r)))))"
    if "0 < n" for t n
    using that
    by (auto simp: glides_def advance_left_def then_left_def usize_add_def checked_add_def check_eq panics_def
        split: sum.splits prod.splits)
  note step = this
  show ?thesis
    unfolding read_tag_left_def
  proof (rule glides_then [OF glides_stay], goal_cases)
    case (1 x r')
    then show ?case
      using step by (cases x) (auto dest!: Tag_decode_bounds(1))
  qed
qed

lemma glides_read_length_delimited: "glides r (read_length_delimited_left r)"
  unfolding read_length_delimited_left_def
  by (intro glides_then glides_if glides_stay glides_advance glides_read_varint)

lemma glides_read_fixed32: "glides r (read_fixed32_left r)"
  unfolding read_fixed32_left_def
  by (intro glides_then glides_if glides_stay glides_advance)

lemma glides_read_fixed64: "glides r (read_fixed64_left r)"
  unfolding read_fixed64_left_def
  by (intro glides_then glides_if glides_stay glides_advance)

lemma glides_read_varint_raw: "glides r (read_varint_raw_left r)"
  unfolding read_varint_raw_left_def
  by (intro glides_then glides_case glides_stay glides_advance)

lemma glides_read_string: "glides r (read_string_left r)"
  unfolding read_string_left_def
  by (intro glides_then glides_stay glides_read_length_delimited)

lemma glides_skip:
  "glides r (skip_inner_left wt d r)"
  "glides r (skip_group_left cd r)"
proof (induction wt d r and cd r rule: skip_inner_left_skip_group_left.induct)
  case (1 wt d r)
  then show ?case
    by (cases wt) (simp_all only: skip_inner_left.simps [of _ d r] wire_type.case,
      auto intro!: glides_then glides_stay glides_advance glides_read_varint glides_read_fixed32 glides_read_fixed64)
next
  case (2 cd r)
  show ?case
    unfolding skip_group_left.simps [of cd r]
    by (intro glides_if glides_then glides_stay glides_read_tag 2) (auto)
qed

lemmas glides_reads = glides_read_varint glides_read_varint_raw glides_read_tag glides_read_length_delimited
  glides_read_fixed32 glides_read_fixed64 glides_read_string

section \<open>No operation panics\<close>

text \<open>
  What keeps the additions of the reader inside 64 bits: the position is inside the buffer, and the
  counters leave room for the bytes that are left. It does not ask that the counters are within their limits,
  so it also holds after an error.
\<close>

definition sane :: "reader \<Rightarrow> bool" where
  "sane r \<longleftrightarrow> pos r \<le> length (buf r) \<and> length (buf r) < 2 ^ 63 \<and> depth r \<le> max_depth (limits r)
     \<and> bytes_read r + remaining r < 2 ^ 64 \<and> field_count r + remaining r < 2 ^ 64"

lemma sane_reader_ok: "reader_ok r \<Longrightarrow> sane r"
  by (auto simp: sane_def reader_ok_def remaining_def)

lemma glides_Inr:
  assumes "glides r m" and "m = (Inr x, r')"
  shows "limits r' = limits r" "depth r' = depth r" "buf r' = buf r" "pos r \<le> pos r'" "sane r \<Longrightarrow> sane r'"
  using assms by (auto simp: glides_def sane_def remaining_def)

lemma not_panics_then:
  "\<not> panics (fst m) \<Longrightarrow> (\<And>x r'. m = (Inr x, r') \<Longrightarrow> \<not> panics (fst (f x r'))) \<Longrightarrow> \<not> panics (fst (then_left m f))"
  by (cases m; cases "fst m") (auto simp: panics_def)

lemma panics_then:
  "panics (fst (then_left m f)) \<longleftrightarrow> panics (fst m) \<or> (\<exists>x r'. m = (Inr x, r') \<and> panics (fst (f x r')))"
  by (cases m; cases "fst m") (auto simp: panics_def)

lemma panics_as_returned: "panics (as_returned m) = panics (fst m)"
  by (cases m; cases "fst m") (auto simp: panics_def)

lemma safe_advance: "sane r \<Longrightarrow> n < 2 ^ 63 \<Longrightarrow> \<not> panics (fst (advance_left r n))"
  by (auto simp: panics_then advance_left_def sane_def remaining_def dest!: usize_add_InrD)

lemma safe_read_varint: "sane r \<Longrightarrow> \<not> panics (fst (read_varint_left r))"
  unfolding read_varint_left_def
  by (auto simp: panics_then safe_advance dest!: decode_varint_bounds)

lemma safe_read_varint_raw: "sane r \<Longrightarrow> \<not> panics (fst (read_varint_raw_left r))"
  unfolding read_varint_raw_left_def
  by (auto simp: panics_then safe_advance sane_def not_le
      dest!: decode_varint_bounds usize_add_InrD)

lemma safe_read_tag:
  assumes "sane r"
  shows "\<not> panics (fst (read_tag_left r))"
proof -
  have "field_count r1 + 1 < 2 ^ 64" if "advance_left r n = (Inr (), r1)" "0 < n" for n r1
    using glides_advance [of r n] that assms by (auto simp: advance_left_def then_left_def sane_def remaining_def
      dest!: usize_add_InrD split: if_splits sum.splits)
  then show ?thesis
    using assms unfolding read_tag_left_def
    by (auto simp: panics_then safe_advance not_le dest!: Tag_decode_bounds(1))
qed

lemma safe_length:
  assumes "sane r" and "capped (limits r)" and "check_length (limits r) n = Inr x"
  shows "n < 2 ^ 63" "pos r + n < 2 ^ 64"
proof -
  show "n < 2 ^ 63"
    using assms(2,3) by (auto simp: check_eq dest: cappedD split: if_splits)
  then show "pos r + n < 2 ^ 64"
    using assms(1) by (simp add: sane_def)
qed

lemma safe_read_length_delimited:
  assumes "sane r" and "capped (limits r)"
  shows "\<not> panics (fst (read_length_delimited_left r))"
  unfolding read_length_delimited_left_def
proof (rule not_panics_then [OF safe_read_varint [OF assms(1)]], goal_cases)
  case (1 v r1)
  note g = glides_Inr [OF glides_read_varint 1]
  have s: "sane r1" "capped (limits r1)" using g(1,5) assms by simp_all
  show ?case
    using safe_length [OF s] s(1)
    by (auto simp: panics_then safe_advance not_le dest!: usize_add_InrD)
qed

lemma safe_read_fixed:
  assumes "sane r"
  shows "\<not> panics (fst (read_fixed32_left r))" "\<not> panics (fst (read_fixed64_left r))"
  using assms unfolding read_fixed32_left_def read_fixed64_left_def
  by (auto simp: panics_then safe_advance not_le sane_def dest!: usize_add_InrD)

lemma safe_read_string:
  assumes "sane r" and "capped (limits r)"
  shows "\<not> panics (fst (read_string_left r))"
  unfolding read_string_left_def
  by (auto simp: panics_then safe_read_length_delimited assms)

lemma safe_skip:
  "sane r \<Longrightarrow> capped (limits r) \<Longrightarrow> d \<le> max_depth (limits r) \<Longrightarrow> \<not> panics (fst (skip_inner_left wt d r))"
  "sane r \<Longrightarrow> capped (limits r) \<Longrightarrow> cd \<le> max_depth (limits r) \<Longrightarrow> \<not> panics (fst (skip_group_left cd r))"
proof (induction wt d r and cd r rule: skip_inner_left_skip_group_left.induct)
  case (1 wt d r)
  show ?case
  proof (cases wt)
    case LengthDelimited
    have "\<not> panics (fst (then_left (check_length (limits r1) (unat v), r1) (\<lambda>_ r. advance_left r (unat v))))"
      if v: "read_varint_left r = (Inr v, r1)" for v r1
    proof -
      note g = glides_Inr [OF glides_read_varint v]
      have "sane r1" "capped (limits r1)" using g(1,5) "1.prems" by simp_all
      then show ?thesis
        using safe_length by (auto simp: panics_then safe_advance)
    qed
    then show ?thesis
      using safe_read_varint [OF "1.prems"(1)]
      by (auto simp: skip_inner_left.simps LengthDelimited panics_then)
  next
    case StartGroup
    have "d + 1 < 2 ^ 32"
      using "1.prems"(2,3) by (simp add: capped_def)
    with StartGroup "1.IH" [OF StartGroup] "1.prems" show ?thesis
      by (auto simp: skip_inner_left.simps u32_add_ok panics_then)
  qed (use "1.prems" in \<open>auto simp: skip_inner_left.simps safe_read_varint safe_read_fixed panics_then\<close>)
next
  case (2 cd r)
  show ?case
  proof (cases "is_empty r")
    case ne: False
    have "\<not> panics (fst (if wire_type t = EndGroup then (Inr (), r1)
        else then_left (skip_inner_left (wire_type t) cd r1) (\<lambda>_ r. skip_group_left cd r)))"
      if t: "read_tag_left r = (Inr t, r1)" for t r1
    proof (cases "wire_type t = EndGroup")
      case neq: False
      have r1: "sane r1" "limits r1 = limits r"
        using glides_Inr(1,5) [OF glides_read_tag t] "2.prems" by simp_all
      have "sane r2 \<and> limits r2 = limits r" if "skip_inner_left (wire_type t) cd r1 = (Inr x, r2)" for x r2
        using glides_Inr(1,5) [OF glides_skip(1) that] r1 by simp
      then show ?thesis
        using "2.IH" [OF ne t neq] r1 "2.prems" neq by (auto simp: panics_then)
    qed simp
    then show ?thesis
      using ne safe_read_tag [OF "2.prems"(1)] by (auto simp: skip_group_left.simps [of cd r] panics_then)
  qed (simp add: skip_group_left.simps [of cd r])
qed

end
