(* ===== verification/Reader_Safety.thy ===== *)
theory Reader_Safety
  imports Reading Reader_State
begin

text \<open>
  What the reader guarantees on arbitrary input: no operation panics under capped limits,
  every reader a client can hold (after errors, \<open>set_pos\<close> and in sub-readers) respects its limits as far as the operations
  succeed, skipping consumes exactly one value and is bounded by the depth limit.
\<close>

section \<open>No operation panics\<close>

lemma advance_no_panic:
  assumes "reader_ok r" and "n < 2 ^ 63"
  shows "\<not> panics (advance r n)"
  using assms by (auto simp: advance_def panics_bind reader_ok_def dest!: usize_add_InrD)

lemma read_varint_no_panic: "reader_ok r \<Longrightarrow> \<not> panics (read_varint r)"
  using safe_read_varint [OF sane_reader_ok] panics_as_returned [of "read_varint_left r"] by (simp add: as_returned_read)

lemma read_varint_raw_no_panic: "reader_ok r \<Longrightarrow> \<not> panics (read_varint_raw r)"
  using safe_read_varint_raw [OF sane_reader_ok] panics_as_returned [of "read_varint_raw_left r"]
  by (simp add: as_returned_read)

lemma read_tag_no_panic: "reader_ok r \<Longrightarrow> \<not> panics (read_tag r)"
  using safe_read_tag [OF sane_reader_ok] panics_as_returned [of "read_tag_left r"] by (simp add: as_returned_read)

lemma read_forward_ok:
  assumes "strictly_forward r r1" and "reader_ok r"
  shows "reader_ok r1" "limits r1 = limits r"
  using assms by (auto dest!: strictly_forward_imp simp: forwardD)

lemma capped_advance:
  assumes "reader_ok r" and "capped (limits r)" and "check_length (limits r) n = Inr x"
  shows "pos r + n < 2 ^ 64" "\<not> panics (advance r n)"
proof -
  have "n < 2 ^ 63"
    using assms(2,3) by (auto simp: check_eq dest: cappedD split: if_splits)
  then show "pos r + n < 2 ^ 64" "\<not> panics (advance r n)"
    using assms(1) advance_no_panic [OF assms(1), of n] by (simp_all add: reader_ok_def)
qed

lemma read_length_delimited_no_panic:
  "reader_ok r \<Longrightarrow> capped (limits r) \<Longrightarrow> \<not> panics (read_length_delimited r)"
  using safe_read_length_delimited [OF sane_reader_ok] panics_as_returned [of "read_length_delimited_left r"]
  by (simp add: as_returned_read_length_delimited)

lemma read_fixed_no_panic:
  "reader_ok r \<Longrightarrow> \<not> panics (read_fixed32 r)" "reader_ok r \<Longrightarrow> \<not> panics (read_fixed64 r)"
  using safe_read_fixed [OF sane_reader_ok] panics_as_returned [of "read_fixed32_left r"]
    panics_as_returned [of "read_fixed64_left r"]
  by (simp_all add: as_returned_read)

lemma read_string_no_panic: "reader_ok r \<Longrightarrow> capped (limits r) \<Longrightarrow> \<not> panics (read_string r)"
  using safe_read_string [OF sane_reader_ok] panics_as_returned [of "read_string_left r"]
  by (simp add: as_returned_read_string)

lemma nested_no_panic: "reader_ok r \<Longrightarrow> capped (limits r) \<Longrightarrow> \<not> panics (nested r b)"
  by (auto simp: nested_def panics_bind reader_ok_def capped_def)

lemma skip_no_panic: "reader_ok r \<Longrightarrow> capped (limits r) \<Longrightarrow> \<not> panics (skip r wt)"
  using safe_skip(1) [OF sane_reader_ok, of r "depth r" wt] panics_as_returned [of "skip_inner_left wt (depth r) r"]
  by (auto simp: skip_def as_returned_skip panics_bind reader_ok_def)

lemma skip_forward: "skip r wt = Inr r' \<Longrightarrow> strictly_forward r r'"
  by (simp add: skip_def skip_inner_forward)

lemma read_length_delimited_length:
  assumes "read_length_delimited r = Inr (body, r')"
  shows "length body \<le> length (buf r)"
proof -
  obtain v r1 e where v: "read_varint r = Inr (v, r1)" and s: "(slice (buf r1) (pos r1) e :: byte list core_res) = Inr body"
    using assms by (auto simp: read_length_delimited_def bind_result_eq_Inr split: if_splits)
  have "buf r1 = buf r"
    using forwardD(1) [OF strictly_forward_imp [OF read_varint_moved [OF v]]] .
  then show ?thesis
    using slice_InrD [OF s] by simp
qed

section \<open>Reachable readers\<close>

text \<open>
  What a client can do with a reader: run an operation, keep the reader whatever the result was, move it with
  \<open>set_pos\<close>, and enter any slice with a sub-reader. \<open>reachable keep seek b l\<close> are the readers it
  can hold when it started on \<open>b\<close> with limits \<open>l\<close>; \<open>keep\<close> says whether it goes on with a
  reader after an \<open>Err\<close>, \<open>seek\<close> whether it calls \<open>set_pos\<close>. A panic ends the run.
\<close>

datatype reader_op =
  ReadVarint | ReadVarintRaw | ReadTag | ReadLengthDelimited | ReadFixed32 | ReadFixed64
  | ReadString | Skip wire_type

fun run_op :: "reader_op \<Rightarrow> reader \<Rightarrow> unit left" where
  "run_op ReadVarint r = then_left (read_varint_left r) (\<lambda>_ r'. (Inr (), r'))"
| "run_op ReadVarintRaw r = then_left (read_varint_raw_left r) (\<lambda>_ r'. (Inr (), r'))"
| "run_op ReadTag r = then_left (read_tag_left r) (\<lambda>_ r'. (Inr (), r'))"
| "run_op ReadLengthDelimited r = then_left (read_length_delimited_left r) (\<lambda>_ r'. (Inr (), r'))"
| "run_op ReadFixed32 r = then_left (read_fixed32_left r) (\<lambda>_ r'. (Inr (), r'))"
| "run_op ReadFixed64 r = then_left (read_fixed64_left r) (\<lambda>_ r'. (Inr (), r'))"
| "run_op ReadString r = then_left (read_string_left r) (\<lambda>_ r'. (Inr (), r'))"
| "run_op (Skip wt) r = skip_inner_left wt (depth r) r"

inductive reachable :: "bool \<Rightarrow> bool \<Rightarrow> byte list \<Rightarrow> decoder_limits \<Rightarrow> reader \<Rightarrow> bool"
  for keep seek b l where
  reachable_start: "reachable keep seek b l (Reader_with_limits b l)"
| reachable_ok: "reachable keep seek b l r \<Longrightarrow> run_op op r = (Inr (), r') \<Longrightarrow> reachable keep seek b l r'"
| reachable_err: "keep \<Longrightarrow> reachable keep seek b l r \<Longrightarrow> run_op op r = (Inl (Raised e), r')
    \<Longrightarrow> reachable keep seek b l r'"
| reachable_seek: "seek \<Longrightarrow> reachable keep seek b l r \<Longrightarrow> set_pos r p = Inr r' \<Longrightarrow> reachable keep seek b l r'"
| reachable_enter: "reachable keep seek b l r \<Longrightarrow> length body < 2 ^ 63 \<Longrightarrow> nested r body = Inr sub
    \<Longrightarrow> reachable keep seek b l sub"

lemma run_op_glides: "glides r (run_op op r)"
  by (cases op) (auto intro!: glides_then glides_stay glides_reads glides_skip)

lemma run_op_forward: "run_op op r = (Inr (), r') \<Longrightarrow> strictly_forward r r'"
proof -
  assume "run_op op r = (Inr (), r')"
  then have "as_returned (run_op op r) = Inr ((), r')" by simp
  then show ?thesis
    by (cases op) (auto simp: as_returned_then as_returned_read as_returned_read_length_delimited as_returned_read_string as_returned_skip
        bind_result_eq_Inr dest: reads_moved skip_inner_forward(1))
qed

lemma run_op_no_panic: "sane r \<Longrightarrow> capped (limits r) \<Longrightarrow> \<not> panics (fst (run_op op r))"
  by (cases op) (auto simp: panics_then safe_read_varint safe_read_varint_raw safe_read_tag
      safe_read_length_delimited safe_read_fixed safe_read_string safe_skip sane_def [of r])

text \<open>What a successful operation costs: it moves the reader, and stays within the byte and field limits.\<close>

lemma run_op_within:
  assumes "run_op op r = (Inr (), r')"
  shows "pos r < pos r'" and "within (max_bytes (limits r)) (bytes_read r')"
    and "field_count r' = field_count r \<or> within (max_fields (limits r)) (field_count r')"
  using run_op_glides [of r op] run_op_forward [OF assms]
  by (auto simp: assms glides_def strictly_forward_def moved_def)




text \<open>The invariant of every reader that can be held.\<close>

definition held :: "bool \<Rightarrow> bool \<Rightarrow> decoder_limits \<Rightarrow> reader \<Rightarrow> bool" where
  "held keep seek l r \<longleftrightarrow> limits r = l \<and> pos r \<le> length (buf r) \<and> length (buf r) < 2 ^ 63
     \<and> depth r \<le> max_depth l \<and> field_count r \<le> bytes_read r \<and> (seek \<or> bytes_read r \<le> pos r)
     \<and> (keep \<or> within (max_bytes l) (bytes_read r) \<and> within (max_fields l) (field_count r))"

lemma held_run_op:
  assumes "held keep seek l r" and "run_op op r = (x, r')" and "x = Inr () \<or> keep \<and> \<not> panics x"
  shows "held keep seek l r'"
proof (cases x)
  case (Inl e)
  with assms run_op_glides [of r op] show ?thesis
    by (auto simp: held_def glides_def)
next
  case (Inr u)
  have "r' = r' \<and> run_op op r = (Inr (), r')" using assms(2) Inr by simp
  then show ?thesis
    using assms(1) run_op_glides [of r op] run_op_within [of op r r']
    by (auto simp: held_def glides_def)
qed

lemma held_reachable:
  assumes "reachable keep seek b l r" and "length b < 2 ^ 63"
  shows "held keep seek l r"
  using assms(1)
proof (induction rule: reachable.induct)
  case (reachable_ok r op r')
  then show ?case by (auto intro: held_run_op)
next
  case (reachable_err r op e r')
  then show ?case by (auto intro: held_run_op)
next
  case (reachable_seek r p r')
  then show ?case by (auto simp: held_def set_pos_def split: if_splits)
next
  case (reachable_enter r body sub)
  then show ?case
    by (auto simp: held_def nested_def bind_result_eq_Inr dest!: u32_add_InrD split: if_splits)
qed (use assms(2) in \<open>simp add: held_def Reader_with_limits_def\<close>)

section \<open>The grammar of values and exact skipping\<close>

text \<open>
  \<open>wire_value d wt bs\<close>: \<open>bs\<close> is one value of wire type \<open>wt\<close>, with groups nested at most
  \<open>d\<close> deep. A group is a sequence of fields closed by any end-group tag: the reader does
  not compare the field number of the closing tag with the opening one.
\<close>

inductive wire_value :: "nat \<Rightarrow> wire_type \<Rightarrow> byte list \<Rightarrow> bool"
  and wire_group :: "nat \<Rightarrow> byte list \<Rightarrow> bool" where
  value_varint: "wire_value d Varint (varint v)"
| value_fixed64: "length bs = 8 \<Longrightarrow> wire_value d Fixed64 bs"
| value_fixed32: "length bs = 4 \<Longrightarrow> wire_value d Fixed32 bs"
| value_bytes: "wire_value d LengthDelimited (length_delimited bs)"
| value_group: "wire_group d bs \<Longrightarrow> wire_value (Suc d) StartGroup bs"
| group_end: "0 < f \<Longrightarrow> f < 2 ^ 29 \<Longrightarrow> wire_group d (tag_bytes f EndGroup)"
| group_field: "0 < f \<Longrightarrow> f < 2 ^ 29 \<Longrightarrow> wire_value d wt v \<Longrightarrow> wire_group d bs
    \<Longrightarrow> wire_group d (tag_bytes f wt @ v @ bs)"

definition skips :: "nat \<Rightarrow> nat \<Rightarrow> (reader \<Rightarrow> reader core_res) \<Rightarrow> byte list \<Rightarrow> bool" where
  "skips d k f bs \<longleftrightarrow> (\<forall>r rest. ample r \<longrightarrow> depth r \<le> k \<longrightarrow> k + d \<le> max_depth (limits r)
     \<longrightarrow> k + d < 2 ^ 32 \<longrightarrow> unread r = bs @ rest \<longrightarrow> (\<exists>r'. f r = Inr r' \<and> after r r' rest))"

lemma skipsI:
  assumes "\<And>r rest. ample r \<Longrightarrow> depth r \<le> k \<Longrightarrow> k + d \<le> max_depth (limits r) \<Longrightarrow> k + d < 2 ^ 32
    \<Longrightarrow> unread r = bs @ rest \<Longrightarrow> \<exists>r'. f r = Inr r' \<and> after r r' rest"
  shows "skips d k f bs"
  using assms by (simp add: skips_def)

lemma skipsE:
  assumes "skips d k f bs" and "ample r" and "depth r \<le> k" and "k + d \<le> max_depth (limits r)"
    and "k + d < 2 ^ 32" and "unread r = bs @ rest"
  obtains r' where "f r = Inr r'" and "after r r' rest"
  using assms by (auto simp: skips_def)

lemma skips_read:
  assumes "reads 0 f bs v" and "\<And>r. g r = bind_result (f r) (\<lambda>(v, r'). Inr r')"
  shows "skips d k g bs"
proof (rule skipsI)
  fix r rest
  assume r: "ample r" "depth r \<le> k" "k + d \<le> max_depth (limits r)" "k + d < 2 ^ 32" "unread r = bs @ rest"
  obtain r' where "f r = Inr (v, r')" "after r r' rest"
    by (rule readsE [OF assms(1), of r rest]) (use r in \<open>simp_all add: room_def\<close>)
  then show "\<exists>r'. g r = Inr r' \<and> after r r' rest"
    by (simp add: assms(2) [of r])
qed

lemma skips_length_delimited: "skips d k (skip_inner LengthDelimited k) (length_delimited bs)"
proof (rule skipsI)
  fix r rest
  assume r: "ample r" "depth r \<le> k" "k + d \<le> max_depth (limits r)" "k + d < 2 ^ 32"
    "unread r = length_delimited bs @ rest"
  have "length bs < 2 ^ 63"
    using r(1,5) length_unread [of r] by (auto simp: ample_def remaining_def length_delimited_def)
  then have n: "unat (word_of_nat (length bs) :: u64) = length bs"
    by (simp add: unat_of_nat)
  have u: "unread r = varint (word_of_nat (length bs)) @ (bs @ rest)"
    using r(5) by (simp add: length_delimited_def)
  obtain r1 where 1: "read_varint r = Inr (word_of_nat (length bs), r1)" "after r r1 (bs @ rest)"
  proof (rule readsE [OF reads_varint [of 0] r(1) _ u])
    show "room 0 r" using r(2-4) by (simp add: room_def)
  qed
  then have am: "ample r1" and u1: "unread r1 = bs @ rest" by (simp_all add: after_def)
  then have le: "length bs \<le> remaining r1"
    using length_unread [of r1] by simp
  obtain r2 where "advance r1 (length bs) = Inr r2" "after r1 r2 rest"
    using advance_ample [OF am le] u1 by fastforce
  moreover have "within (max_length_delimited (limits r1)) (length bs)"
    using am le by (auto simp: ample_def intro: within_mono)
  ultimately show "\<exists>r'. skip_inner LengthDelimited k r = Inr r' \<and> after r r' rest"
    using 1 n by (simp add: skip_inner.simps check_eq after_def)
qed

lemma skips_group_end:
  assumes "0 < f" and "f < 2 ^ 29"
  shows "skips d k (skip_group k) (tag_bytes f EndGroup)"
proof (rule skipsI)
  fix r rest
  assume r: "ample r" "depth r \<le> k" "k + d \<le> max_depth (limits r)" "k + d < 2 ^ 32"
    "unread r = tag_bytes f EndGroup @ rest"
  then have "\<not> is_empty r" by (simp add: is_empty_unread)
  moreover obtain r' where "read_tag r = Inr (\<lparr>field_number = f, wire_type = EndGroup\<rparr>, r')" "after r r' rest"
  proof (rule readsE [OF reads_tag [OF assms, of 0] r(1) _ r(5)])
    show "room 0 r" using r(2-4) by (simp add: room_def)
  qed
  ultimately show "\<exists>r'. skip_group k r = Inr r' \<and> after r r' rest"
    by (simp add: skip_group.simps [of k r])
qed

lemma skips_group_field:
  assumes "0 < f" and "f < 2 ^ 29" and "wt \<noteq> EndGroup"
    and "skips d k (skip_inner wt k) v" and "skips d k (skip_group k) bs"
  shows "skips d k (skip_group k) (tag_bytes f wt @ v @ bs)"
proof (rule skipsI)
  fix r rest
  assume r: "ample r" "depth r \<le> k" "k + d \<le> max_depth (limits r)" "k + d < 2 ^ 32"
    "unread r = (tag_bytes f wt @ v @ bs) @ rest"
  then have u: "unread r = tag_bytes f wt @ (v @ bs @ rest)" and ne: "\<not> is_empty r"
    by (simp_all add: is_empty_unread)
  obtain r1 where 1: "read_tag r = Inr (\<lparr>field_number = f, wire_type = wt\<rparr>, r1)" "after r r1 (v @ bs @ rest)"
  proof (rule readsE [OF reads_tag [OF assms(1,2), of 0] r(1) _ u])
    show "room 0 r" using r(2-4) by (simp add: room_def)
  qed
  obtain r2 where 2: "skip_inner wt k r1 = Inr r2" "after r1 r2 (bs @ rest)"
    by (rule skipsE [OF assms(4), of r1 "bs @ rest"]) (use 1(2) r in \<open>simp_all add: after_def\<close>)
  obtain r3 where 3: "skip_group k r2 = Inr r3" "after r2 r3 rest"
    by (rule skipsE [OF assms(5), of r2 rest]) (use 1(2) 2(2) r in \<open>simp_all add: after_def\<close>)
  show "\<exists>r'. skip_group k r = Inr r' \<and> after r r' rest"
    using 1 2 3 ne assms(3) by (simp add: skip_group.simps [of k r] after_def)
qed

lemma wire_value_not_EndGroup: "wire_value d wt bs \<Longrightarrow> wt \<noteq> EndGroup"
  by (cases rule: wire_value.cases) auto

lemma wire_value_skips:
  "wire_value d wt bs \<Longrightarrow> skips d k (skip_inner wt k) bs"
  "wire_group d bs \<Longrightarrow> skips d k (skip_group k) bs"
proof (induction d wt bs and d bs arbitrary: k and k rule: wire_value_wire_group.inducts)
  case (value_varint d v)
  then show ?case by (intro skips_read [OF reads_varint]) (simp add: skip_inner.simps)
next
  case (value_fixed64 bs d)
  then show ?case
    using reads_exact [of bs 8 read_fixed64 of_le_bytes 0]
    by (intro skips_read [of read_fixed64]) (simp_all add: skip_inner.simps read_fixed64_def)
next
  case (value_fixed32 bs d)
  then show ?case
    using reads_exact [of bs 4 read_fixed32 of_le_bytes 0]
    by (intro skips_read [of read_fixed32]) (simp_all add: skip_inner.simps read_fixed32_def)
next
  case (value_bytes d bs)
  then show ?case by (rule skips_length_delimited)
next
  case (value_group d bs)
  show ?case
  proof (rule skipsI)
    fix r rest
    assume "ample r" "depth r \<le> k" "k + Suc d \<le> max_depth (limits r)" "k + Suc d < 2 ^ 32"
      "unread r = bs @ rest"
    note r = this
    obtain r' where "skip_group (k + 1) r = Inr r'" "after r r' rest"
      by (rule skipsE [OF value_group.IH [of "k + 1"], of r rest]) (use r in simp_all)
    then show "\<exists>r'. skip_inner StartGroup k r = Inr r' \<and> after r r' rest"
      using r(3,4) by (simp add: skip_inner.simps u32_add_ok)
  qed
next
  case (group_end f d)
  then show ?case by (rule skips_group_end)
next
  case (group_field f d wt v bs)
  then show ?case by (intro skips_group_field) (auto dest: wire_value_not_EndGroup)
qed

section \<open>Properties\<close>



text \<open>
  C5: With capped limits (the default ones are) no operation of a reader panics on any input:
  every failure is an \<open>Err\<close> value. The operations include \<open>skip\<close> of any wire type and
  entering a nested reader, and the reader may have been kept after errors. A client that goes back
  with \<open>set_pos\<close> must not have read \<open>2 ^ 63\<close> bytes in all, because the byte counter only grows.
\<close>

theorem reachable_reader_no_panic:
  assumes "reachable keep seek b l r" and "length b < 2 ^ 63" and "capped l"
    and "seek \<longrightarrow> bytes_read r < 2 ^ 63"
  shows "\<not> panics (fst (run_op op r)) \<and> \<not> panics (nested r body)"
proof -
  have h: "held keep seek l r" by (rule held_reachable [OF assms(1,2)])
  then have "sane r" using assms(4) by (auto simp: held_def sane_def remaining_def)
  then show ?thesis
    using run_op_no_panic [of r op] h assms(3)
    by (auto simp: held_def nested_def panics_bind capped_def)
qed

theorem reachable_reader_no_panic_witness:
  "\<not> panics (fst (run_op (Skip StartGroup) (Reader_with_limits [0xFF] default_limits)))
     \<and> \<not> panics (nested (Reader_with_limits [0xFF] default_limits) [])"
  by (rule reachable_reader_no_panic [OF reachable_start [of True False]]) simp_all

text \<open>
  The cap is needed. Without limits, a length prefix of \<open>u64::MAX\<close> makes the addition
  \<open>pos + len\<close> of \<open>read_length_delimited\<close> and of \<open>skip\<close> overflow.
\<close>

lemma unlimited_length_overflows:
  "panics (read_length_delimited (Reader_with_limits (varint (- 1)) unlimited))
   \<and> panics (skip (Reader_with_limits (varint (- 1)) unlimited) LengthDelimited)"
proof -
  let ?r = "Reader_with_limits (varint (- 1)) unlimited"
  have a: "ample ?r" "room 0 ?r" "unread ?r = varint (- 1) @ []"
    using length_varint_le_10 [of "- 1"]
    by (simp_all add: ample_def room_def unlimited_def Reader_with_limits_def unread_def remaining_def)
  obtain r1 where 1: "read_varint ?r = Inr (- 1, r1)" "after ?r r1 []"
    by (rule readsE [OF reads_varint a])
  then have "pos r1 \<ge> 1" "limits r1 = unlimited"
    using read_varint_moved [OF 1(1)]
    by (auto simp: strictly_forward_def moved_def after_def Reader_with_limits_def)
  moreover have "unat (- 1 :: u64) = 2 ^ 64 - 1"
    by (simp add: unsigned_minus_1_eq_mask mask_eq_exp_minus_1)
  ultimately show ?thesis
    using 1 by (simp add: read_length_delimited_def skip_def skip_inner.simps check_eq unlimited_def
        panics_bind advance_def)
qed

text \<open>
  C6: Skipping is exact: in front of one value of the announced wire type (a group nested at
  most as deep as the limit leaves room for) \<open>skip\<close> consumes that value and nothing more.
\<close>

theorem skip_consumes_one_value:
  assumes "wire_value d wt bs" and "ample r" and "room d r" and "unread r = bs @ rest"
  shows "\<exists>r'. skip r wt = Inr r' \<and> after r r' rest"
proof -
  obtain r' where "skip_inner wt (depth r) r = Inr r'" "after r r' rest"
    by (rule skipsE [OF wire_value_skips(1) [OF assms(1), of "depth r"] assms(2) _ _ _ assms(4)])
       (use assms(3) in \<open>simp_all add: room_def\<close>)
  then show ?thesis by (simp add: skip_def)
qed

theorem skip_consumes_one_value_witness:
  "\<exists>r'. skip (Reader_new (tag_bytes 2 Varint @ varint 300 @ tag_bytes 1 EndGroup @ [7])) StartGroup = Inr r'
     \<and> unread r' = [7]"
proof -
  have "wire_group 5 (tag_bytes 2 Varint @ varint 300 @ tag_bytes 1 EndGroup)"
    by (intro group_field group_end value_varint) simp_all
  from value_group [OF this]
  have v: "wire_value 6 StartGroup (tag_bytes 2 Varint @ varint 300 @ tag_bytes 1 EndGroup)" by simp
  have "length (tag_bytes 2 Varint @ varint 300 @ tag_bytes 1 EndGroup @ [7]) \<le> 1000000"
    using length_varint_le_10 [of 300] length_varint_le_10 [of "tag_raw 2 Varint"]
      length_varint_le_10 [of "tag_raw 1 EndGroup"]
    by (simp add: tag_bytes_def)
  note a = ample_new [OF this]
  have "room 6 (Reader_new (tag_bytes 2 Varint @ varint 300 @ tag_bytes 1 EndGroup @ [7]))"
    using a by (auto intro: room_mono [of 100])
  then obtain r' where "skip (Reader_new (tag_bytes 2 Varint @ varint 300 @ tag_bytes 1 EndGroup @ [7]))
      StartGroup = Inr r'" "after (Reader_new (tag_bytes 2 Varint @ varint 300 @ tag_bytes 1 EndGroup @ [7])) r' [7]"
    using skip_consumes_one_value [OF v conjunct1 [OF a], of "[7]"] a by auto
  then show ?thesis by (auto simp: after_def)
qed

text \<open>
  \<open>beyond d bs\<close>: behind an opening tag that leaves \<open>d\<close> levels, \<open>bs\<close> opens one group too many:
  no level is left, or fields that can be skipped come first and then an opening tag behind which
  the same holds with one level less. The group need not be closed, and nothing is said of what follows.
\<close>

inductive beyond :: "nat \<Rightarrow> byte list \<Rightarrow> bool" where
  beyond_here: "beyond 0 bs"
| beyond_open: "0 < f \<Longrightarrow> f < 2 ^ 29 \<Longrightarrow> beyond d bs \<Longrightarrow> beyond (Suc d) (tag_bytes f StartGroup @ bs)"
| beyond_field: "0 < f \<Longrightarrow> f < 2 ^ 29 \<Longrightarrow> wire_value d wt v \<Longrightarrow> beyond (Suc d) bs
    \<Longrightarrow> beyond (Suc d) (tag_bytes f wt @ v @ bs)"

lemma beyond_append: "beyond d bs \<Longrightarrow> beyond d (bs @ xs)"
  by (induction rule: beyond.induct) (auto intro: beyond.intros)

text \<open>A value nested deeper than \<open>d\<close> is beyond \<open>d\<close>.\<close>

lemma wire_value_beyond:
  "wire_value e wt bs \<Longrightarrow> wire_value d wt bs \<or> wt = StartGroup \<and> beyond d bs"
  "wire_group e bs \<Longrightarrow> wire_group d bs \<or> beyond (Suc d) bs"
proof (induction e wt bs and e bs arbitrary: d and d rule: wire_value_wire_group.inducts)
  case (value_group e bs)
  show ?case
  proof (cases d)
    case 0
    then show ?thesis by (simp add: beyond_here)
  next
    case (Suc d')
    then show ?thesis using value_group.IH [of d'] by (auto intro: wire_value_wire_group.value_group)
  qed
next
  case (group_field f e wt v bs)
  from group_field.IH(1) [of d] group_field.IH(2) [of d] show ?case
    using group_field.hyps(1,2)
    by (auto intro: wire_value_wire_group.group_field beyond_field beyond_open beyond_append)
qed (auto intro: wire_value_wire_group.intros)

lemma beyond_skip_group:
  assumes "beyond d bs" and "ample r" and "k + d = max_depth (limits r)" and "max_depth (limits r) < 2 ^ 32 - 1"
    and "depth r \<le> k" and "unread r = bs @ rest"
  shows "d = 0 \<or> skip_group (k + 1) r = Inl (Raised DepthLimitExceeded)"
  using assms
proof (induction arbitrary: k r rule: beyond.induct)
  case (beyond_open f d bs)
  note r = beyond_open.prems
  have u: "unread r = tag_bytes f StartGroup @ (bs @ rest)" using r(5) by simp
  then have ne: "\<not> is_empty r" by (simp add: is_empty_unread)
  obtain r1 where 1: "read_tag r = Inr (\<lparr>field_number = f, wire_type = StartGroup\<rparr>, r1)" "after r r1 (bs @ rest)"
  proof (rule readsE [OF reads_tag [OF beyond_open.hyps(1,2), of 0] r(1) _ u])
    show "room 0 r" using r(2-4) by (simp add: room_def)
  qed
  then have "d = 0 \<or> skip_group (k + 1 + 1) r1 = Inl (Raised DepthLimitExceeded)"
    using r by (intro beyond_open.IH) (simp_all add: after_def)
  then have "skip_inner StartGroup (k + 1) r1 = Inl (Raised DepthLimitExceeded)"
    using 1 r(2,3) by (auto simp: skip_inner.simps u32_add_ok after_def)
  with 1 ne show ?case by (simp add: skip_group.simps [of _ r])
next
  case (beyond_field f d wt v bs)
  note r = beyond_field.prems
  have u: "unread r = tag_bytes f wt @ (v @ bs @ rest)" using r(5) by simp
  then have ne: "\<not> is_empty r" by (simp add: is_empty_unread)
  obtain r1 where 1: "read_tag r = Inr (\<lparr>field_number = f, wire_type = wt\<rparr>, r1)" "after r r1 (v @ bs @ rest)"
  proof (rule readsE [OF reads_tag [OF beyond_field.hyps(1,2), of 0] r(1) _ u])
    show "room 0 r" using r(2-4) by (simp add: room_def)
  qed
  obtain r2 where 2: "skip_inner wt (k + 1) r1 = Inr r2" "after r1 r2 (bs @ rest)"
    by (rule skipsE [OF wire_value_skips(1) [OF beyond_field.hyps(3), of "k + 1"], of r1 "bs @ rest"])
       (use 1(2) r in \<open>simp_all add: after_def\<close>)
  have "Suc d = 0 \<or> skip_group (k + 1) r2 = Inl (Raised DepthLimitExceeded)"
    using 1(2) 2(2) r by (intro beyond_field.IH) (simp_all add: after_def)
  with 1 2 ne wire_value_not_EndGroup [OF beyond_field.hyps(3)] show ?case
    by (simp add: skip_group.simps [of _ r])
qed simp

text \<open>
  C7: Nesting is bounded: \<open>skip\<close> of a group returns \<open>DepthLimitExceeded\<close> as soon as the groups inside it,
  with whatever fields between their opening tags and whether or not they are ever closed, open one level
  more than the depth limit leaves; in particular on every complete group value that is nested deeper than
  that, whatever follows it. So the recursion of the source is never deeper than \<open>max_depth\<close>.
\<close>

theorem skip_rejects_group_bomb:
  assumes "ample r" and "depth r \<le> max_depth (limits r)" and "max_depth (limits r) < 2 ^ 32 - 1"
    and "unread r = bs @ rest"
    and "beyond (max_depth (limits r) - depth r) bs
      \<or> wire_value e StartGroup bs \<and> \<not> wire_value (max_depth (limits r) - depth r) StartGroup bs"
  shows "skip r StartGroup = Inl (Raised DepthLimitExceeded)"
proof -
  have "beyond (max_depth (limits r) - depth r) bs"
    using assms(5) wire_value_beyond(1) by blast
  then have "max_depth (limits r) - depth r = 0 \<or> skip_group (depth r + 1) r = Inl (Raised DepthLimitExceeded)"
    by (rule beyond_skip_group [OF _ assms(1) _ assms(3) _ assms(4)]) (use assms(2) in simp_all)
  then show ?thesis
    using assms(2,3) by (auto simp: skip_def skip_inner.simps u32_add_ok)
qed

text \<open>Groups of field 3, each with a number field before the next group: 200 levels against the default 100.\<close>

theorem skip_rejects_group_bomb_witness:
  "skip (Reader_new (concat (replicate 200 (tag_bytes 5 Varint @ varint 7 @ tag_bytes 3 StartGroup)))) StartGroup
     = Inl (Raised DepthLimitExceeded)"
proof -
  let ?bs = "\<lambda>n. concat (replicate n (tag_bytes 5 Varint @ varint 7 @ tag_bytes 3 StartGroup))"
  have b: "d \<le> n \<Longrightarrow> beyond d (?bs n)" for d n
  proof (induction n arbitrary: d)
    case (Suc n)
    show ?case
    proof (cases d)
      case (Suc d')
      then have "beyond (Suc d') (tag_bytes 5 Varint @ varint 7 @ tag_bytes 3 StartGroup @ ?bs n)"
        using Suc.prems by (intro beyond_field beyond_open value_varint Suc.IH) simp_all
      then show ?thesis using Suc by simp
    qed (simp add: beyond_here)
  qed (simp add: beyond_here)
  have "length (?bs n) \<le> n * 30" for n
    using length_varint_le_10 [of "tag_raw 5 Varint"] length_varint_le_10 [of "tag_raw 3 StartGroup"]
      length_varint_le_10 [of 7]
    by (induction n) (simp_all add: tag_bytes_def)
  from this [of 200] have "length (?bs 200) \<le> 1000000" by simp
  from ample_new [OF this] b [of 100 200] show ?thesis
    by (intro skip_rejects_group_bomb [of _ "?bs 200" "[]"])
       (simp_all add: Reader_new_def Reader_with_limits_def default_limits_def)
qed

end
