(* ===== verification/Sound.thy ===== *)
theory Sound
  imports Reader_Safety
begin

text \<open>
  What every decoder built from reader operations owes its caller, whatever the input: it
  ends, it never panics under capped limits, and it hands back the reader moved forward over
  the same buffer. \<open>sound_step n f\<close> is the contract of an operation that reads at least one
  byte, \<open>sound n f\<close> of one that may read none, both for readers with fewer than \<open>n\<close> bytes
  left: a decoder that calls itself on a payload is shown sound for \<open>Suc n\<close> from its
  soundness for \<open>n\<close>. The rules of \<open>sound_rules\<close> carry the contract from the reader's
  operations through sequencing, branching, loops and sub-readers.
\<close>

named_theorems sound_rules \<open>introduction rules for sound and sound_step\<close>

definition sound_step :: "nat \<Rightarrow> (reader \<Rightarrow> ('e, 'a \<times> reader) res) \<Rightarrow> bool" where
  "sound_step n f \<longleftrightarrow> (\<forall>r. remaining r < n \<longrightarrow> (\<forall>v r'. f r = Inr (v, r') \<longrightarrow> strictly_forward r r')
     \<and> \<not> diverges (f r) \<and> (reader_ok r \<longrightarrow> capped (limits r) \<longrightarrow> \<not> panics (f r)))"

definition sound :: "nat \<Rightarrow> (reader \<Rightarrow> ('e, 'a \<times> reader) res) \<Rightarrow> bool" where
  "sound n f \<longleftrightarrow> (\<forall>r. remaining r < n \<longrightarrow> pos r \<le> length (buf r) \<longrightarrow> (\<forall>v r'. f r = Inr (v, r') \<longrightarrow> forward r r')
     \<and> \<not> diverges (f r) \<and> (reader_ok r \<longrightarrow> capped (limits r) \<longrightarrow> \<not> panics (f r)))"

lemma sound_stepI:
  assumes "\<And>r v r'. remaining r < n \<Longrightarrow> f r = Inr (v, r') \<Longrightarrow> strictly_forward r r'"
    and "\<And>r. remaining r < n \<Longrightarrow> \<not> diverges (f r)"
    and "\<And>r. remaining r < n \<Longrightarrow> reader_ok r \<Longrightarrow> capped (limits r) \<Longrightarrow> \<not> panics (f r)"
  shows "sound_step n f"
  using assms by (simp add: sound_step_def)

lemma soundI:
  assumes "\<And>r v r'. remaining r < n \<Longrightarrow> pos r \<le> length (buf r) \<Longrightarrow> f r = Inr (v, r') \<Longrightarrow> forward r r'"
    and "\<And>r. remaining r < n \<Longrightarrow> pos r \<le> length (buf r) \<Longrightarrow> \<not> diverges (f r)"
    and "\<And>r. remaining r < n \<Longrightarrow> reader_ok r \<Longrightarrow> capped (limits r) \<Longrightarrow> \<not> panics (f r)"
  shows "sound n f"
  using assms by (simp add: sound_def)

lemma sound_stepD:
  assumes "sound_step n f" and "remaining r < n"
  shows "f r = Inr (v, r') \<Longrightarrow> strictly_forward r r'" "\<not> diverges (f r)"
    "reader_ok r \<Longrightarrow> capped (limits r) \<Longrightarrow> \<not> panics (f r)"
  using assms by (simp_all add: sound_step_def)

lemma soundD:
  assumes "sound n f" and "remaining r < n" and "pos r \<le> length (buf r)"
  shows "f r = Inr (v, r') \<Longrightarrow> forward r r'" "\<not> diverges (f r)"
    "reader_ok r \<Longrightarrow> capped (limits r) \<Longrightarrow> \<not> panics (f r)"
  using assms by (simp_all add: sound_def)

lemma sound_step_sound: "sound_step n f \<Longrightarrow> sound n f"
  by (simp add: sound_def sound_step_def)

lemma sound_mono: "sound n f \<Longrightarrow> m \<le> n \<Longrightarrow> sound m f"
  by (simp add: sound_def)

lemma forward_refl: "pos r \<le> length (buf r) \<Longrightarrow> forward r r"
  by (auto simp: forward_def moved_def intro!: exI [of _ 0])

lemma forward_after:
  assumes "forward r r1" and "remaining r < n"
  shows "remaining r1 < n" "pos r1 \<le> length (buf r1)"
  using forwardD(5,7) [OF assms(1)] assms(2) by simp_all

section \<open>Composition\<close>

lemma sound_return [sound_rules]: "sound n (\<lambda>r. Inr (v, r))"
  by (auto intro: soundI forward_refl)

lemma sound_step_error: "sound_step n (\<lambda>r. Inl (Raised e))"
  by (auto intro: sound_stepI)

lemmas sound_errors [sound_rules] = sound_step_error sound_step_error [THEN sound_step_sound]

lemma sound_bind [sound_rules]:
  assumes "sound n f" and "\<And>x. sound n (g x)"
  shows "sound n (\<lambda>r. bind_result (f r) (\<lambda>(x, r'). g x r'))"
proof (rule soundI)
  show "forward r r'" if "remaining r < n" "pos r \<le> length (buf r)" "bind_result (f r) (\<lambda>(x, r'). g x r') = Inr (v, r')"
    for r v r'
  proof -
    from that(3) obtain x r1 where x: "f r = Inr (x, r1)" "g x r1 = Inr (v, r')"
      by (auto simp: bind_result_eq_Inr)
    note fw = soundD(1) [OF assms(1) that(1,2) x(1)]
    from fw soundD(1) [OF assms(2) forward_after [OF fw that(1)] x(2)] show ?thesis
      by (rule forward_trans)
  qed
  show "\<not> diverges (bind_result (f r) (\<lambda>(x, r'). g x r'))" if "remaining r < n" "pos r \<le> length (buf r)" for r
    using soundD(1,2) [OF assms(1) that] soundD(2) [OF assms(2)] forward_after [OF _ that(1)]
    by (auto simp: diverges_bind)
  show "\<not> panics (bind_result (f r) (\<lambda>(x, r'). g x r'))" if "remaining r < n" "reader_ok r" "capped (limits r)" for r
  proof -
    have p: "pos r \<le> length (buf r)" using that(2) by (simp add: reader_ok_def)
    show ?thesis
    proof (rule not_panics_bindI, rule soundD(3) [OF assms(1) that(1) p that(2,3)], goal_cases)
      case (1 y)
      obtain x r1 where y: "y = (x, r1)" by (cases y)
      have fw: "forward r r1"
        using soundD(1) [OF assms(1) that(1) p] 1 y by simp
      have "reader_ok r1" "limits r1 = limits r"
        using forwardD(2,6) [OF fw] that(2) by simp_all
      then show ?case
        using soundD(3) [OF assms(2) forward_after [OF fw that(1)]] that(3) by (simp add: y)
    qed
  qed
qed

lemma sound_step_bind [sound_rules]:
  assumes f: "sound_step n f" and "\<And>x. sound n (g x)"
  shows "sound_step n (\<lambda>r. bind_result (f r) (\<lambda>(x, r'). g x r'))"
proof (rule sound_stepI)
  show "strictly_forward r r'" if "remaining r < n" "bind_result (f r) (\<lambda>(x, r'). g x r') = Inr (v, r')" for r v r'
  proof -
    from that(2) obtain x r1 where x: "f r = Inr (x, r1)" "g x r1 = Inr (v, r')"
      by (auto simp: bind_result_eq_Inr)
    note fw = sound_stepD(1) [OF f that(1) x(1)]
    from fw soundD(1) [OF assms(2) forward_after [OF strictly_forward_imp [OF fw] that(1)] x(2)] show ?thesis
      by (rule strictly_forward_trans1)
  qed
  show "\<not> diverges (bind_result (f r) (\<lambda>(x, r'). g x r'))" if "remaining r < n" for r
    using sound_stepD(1,2) [OF f that] soundD(2) [OF assms(2)] forward_after [OF strictly_forward_imp that]
    by (auto simp: diverges_bind)
  show "\<not> panics (bind_result (f r) (\<lambda>(x, r'). g x r'))" if "remaining r < n" "reader_ok r" "capped (limits r)" for r
    using soundD(3) [OF sound_bind [OF sound_step_sound [OF f] assms(2)] that(1) _ that(2,3)] that(2)
    by (simp add: reader_ok_def)
qed

lemma sound_if [sound_rules]: "sound n f \<Longrightarrow> sound n g \<Longrightarrow> sound n (\<lambda>r. if b then f r else g r)"
  by (cases b) simp_all

lemma sound_case_wire_type [sound_rules]:
  "sound n f0 \<Longrightarrow> sound n f1 \<Longrightarrow> sound n f2 \<Longrightarrow> sound n f3 \<Longrightarrow> sound n f4 \<Longrightarrow> sound n f5 \<Longrightarrow>
   sound n (\<lambda>r. case wt of Varint \<Rightarrow> f0 r | Fixed64 \<Rightarrow> f1 r | LengthDelimited \<Rightarrow> f2 r
     | StartGroup \<Rightarrow> f3 r | EndGroup \<Rightarrow> f4 r | Fixed32 \<Rightarrow> f5 r)"
  by (cases wt) simp_all

lemma sound_map_fault [sound_rules]: "sound n f \<Longrightarrow> sound n (\<lambda>r. map_fault h (f r))"
  by (auto simp: sound_def diverges_def map_fault_def split: sum.splits fault.splits)

lemma sound_step_map_fault [sound_rules]: "sound_step n f \<Longrightarrow> sound_step n (\<lambda>r. map_fault h (f r))"
  by (auto simp: sound_step_def diverges_def map_fault_def split: sum.splits fault.splits)

section \<open>The reader's operations\<close>

lemma diverges_advance [simp]: "\<not> diverges (advance r n)"
  by (auto simp: advance_def diverges_bind)

lemma diverges_decode_varint_loop: "\<not> diverges (decode_varint_loop b st i sh acc)"
  by (induction b st i sh acc rule: decode_varint_loop.induct)
     (subst decode_varint_loop.simps, simp add: Let_def split: option.splits)

lemma diverges_decode_varint [simp]: "\<not> diverges (decode_varint b n)"
  by (simp add: decode_varint_def diverges_decode_varint_loop)

lemma diverges_Tag_decode [simp]: "\<not> diverges (Tag_decode b n)"
  by (auto simp: Tag_decode_def diverges_bind Let_def split: option.splits)

lemma diverges_read [simp]:
  "\<not> diverges (read_varint r)" "\<not> diverges (read_varint_raw r)" "\<not> diverges (read_tag r)"
  "\<not> diverges (read_length_delimited r)" "\<not> diverges (read_fixed32 r)" "\<not> diverges (read_fixed64 r)"
  "\<not> diverges (read_string r)" "\<not> diverges (nested r b)"
  by (auto simp: read_varint_def read_varint_raw_def read_tag_def read_length_delimited_def
      read_fixed32_def read_fixed64_def read_string_def nested_def from_utf8_def diverges_bind
      split: option.splits)

lemma diverges_skip_inner:
  "\<not> diverges (skip_inner wt d r)" "\<not> diverges (skip_group cd r)"
proof (induction wt d r and cd r rule: skip_inner_skip_group.induct)
  case (1 wt d r)
  then show ?case
    by (cases wt) (auto simp: skip_inner.simps diverges_bind)
next
  case (2 cd r)
  show ?case
  proof (cases "is_empty r")
    case False
    then show ?thesis
      using "2.IH" by (auto simp: skip_group.simps [of cd r] diverges_bind)
  qed (simp add: skip_group.simps)
qed

lemma diverges_skip [simp]: "\<not> diverges (skip r wt)"
  by (simp add: skip_def diverges_skip_inner)

lemma sound_step_read:
  "sound_step n read_varint" "sound_step n read_varint_raw" "sound_step n read_tag" "sound_step n read_length_delimited"
  "sound_step n read_fixed32" "sound_step n read_fixed64" "sound_step n read_string" "sound_step n read_string_owned"
  by (auto simp: read_string_owned_eq intro!: sound_stepI dest: reads_moved read_varint_no_panic
      read_varint_raw_no_panic read_tag_no_panic read_length_delimited_no_panic read_fixed_no_panic
      read_string_no_panic)

lemmas sound_reads [sound_rules] = sound_step_read sound_step_read [THEN sound_step_sound]

lemma sound_step_skip:
  assumes "sound n g"
  shows "sound_step n (\<lambda>r. bind_result (skip r wt) (\<lambda>r'. g r'))"
proof -
  have "sound_step n (\<lambda>r. bind_result (skip r wt) (\<lambda>r'. Inr ((), r')))"
    by (rule sound_stepI) (auto simp: bind_result_eq_Inr diverges_bind panics_bind skip_no_panic dest: skip_forward)
  from sound_step_bind [OF this, of "\<lambda>_. g"] assms show ?thesis
    by (simp add: bind_result_assoc)
qed

lemmas sound_skips [sound_rules] = sound_step_skip sound_step_skip [THEN sound_step_sound]

section \<open>Loops and sub-readers\<close>

lemma sound_step_progressive: "(\<And>n s. sound_step n (body s)) \<Longrightarrow> progressive body"
  by (rule progressiveI) (metis lessI sound_stepD(1), metis lessI sound_stepD(2))

lemma sound_read_loop:
  assumes "\<And>s. sound_step n (body s)" and "remaining r < n" and "pos r \<le> length (buf r)"
  shows "(\<forall>s' r'. read_loop k body s r = Inr (s', r') \<longrightarrow> forward r r')
    \<and> (remaining r < k \<longrightarrow> \<not> diverges (read_loop k body s r))
    \<and> (reader_ok r \<longrightarrow> capped (limits r) \<longrightarrow> \<not> panics (read_loop k body s r))"
  using assms(2,3)
proof (induction k arbitrary: s r)
  case (Suc k)
  note st = sound_stepD [OF assms(1) Suc.prems(1)]
  have next_ok: "strictly_forward r r1 \<and> remaining r1 < n \<and> pos r1 \<le> length (buf r1)" if "body s r = Inr (s1, r1)" for s1 r1
    using st(1) [OF that] forward_after [OF strictly_forward_imp [OF st(1) [OF that]] Suc.prems(1)] by simp
  show ?case
  proof (cases "is_empty r")
    case True
    with Suc.prems show ?thesis by (simp add: forward_refl)
  next
    case False
    have fw: "forward r r'" if "read_loop (Suc k) body s r = Inr (s', r')" for s' r'
    proof -
      from that False obtain s1 r1 where b: "body s r = Inr (s1, r1)" "read_loop k body s1 r1 = Inr (s', r')"
        by (auto simp: bind_result_eq_Inr)
      with Suc.IH [of r1 s1] next_ok [OF b(1)] have "forward r1 r'" by blast
      with next_ok [OF b(1)] show ?thesis by (blast intro: forward_trans strictly_forward_imp)
    qed
    have "\<not> diverges (read_loop k body s1 r1)" if "remaining r < Suc k" "body s r = Inr (s1, r1)" for s1 r1
      using Suc.IH [of r1 s1] next_ok [OF that(2)] strictly_forward_remaining [of r r1] that(1) by simp
    moreover have "\<not> panics (read_loop k body s1 r1)"
      if "reader_ok r" "capped (limits r)" "body s r = Inr (s1, r1)" for s1 r1
      using Suc.IH [of r1 s1] next_ok [OF that(3)] read_forward_ok [of r r1] that(1,2) by simp
    ultimately show ?thesis
      using fw False st(2) [of s] st(3) [of s] by (auto simp: diverges_bind panics_bind simp del: read_loop.simps(2))
         (auto simp: diverges_bind panics_bind)
  qed
qed simp

lemma sound_while_unread [sound_rules]:
  assumes "\<And>s. sound_step n (body s)"
  shows "sound n (while_unread body s)"
  unfolding sound_def while_unread_def
  using sound_read_loop [of n body, OF assms] by blast

lemma nested_reader_ok:
  assumes "read_length_delimited r = Inr (body, r1)" and "nested r1 body = Inr sub" and "reader_ok r"
  shows "reader_ok sub" "limits sub = limits r"
proof -
  have r1: "reader_ok r1" "limits r1 = limits r"
    using read_forward_ok [OF read_length_delimited_moved [OF assms(1)] assms(3)] .
  moreover have "length body < 2 ^ 63"
    using read_length_delimited_length [OF assms(1)] assms(3) by (simp add: reader_ok_def)
  ultimately show "reader_ok sub" "limits sub = limits r"
    using reader_ok_nested [OF r1(1) _ assms(2)] by simp_all
qed

lemma nested_pos: "nested r b = Inr sub \<Longrightarrow> pos sub \<le> length (buf sub)"
  by (auto simp: nested_def bind_result_eq_Inr split: if_splits)

lemma length_payload:
  assumes "read_length_delimited r = Inr (b, r1)"
  shows "length b < remaining r"
proof -
  from assms obtain v r0 e where v: "read_varint r = Inr (v, r0)"
    and s: "(slice (buf r0) (pos r0) e :: byte list core_res) = Inr b"
    by (auto simp: read_length_delimited_def bind_result_eq_Inr split: if_splits)
  have "remaining r0 < remaining r"
    by (rule strictly_forward_remaining [OF read_varint_moved [OF v]])
  moreover have "length b \<le> remaining r0"
    using slice_InrD [OF s] by (auto simp: remaining_def)
  ultimately show ?thesis by simp
qed

lemma remaining_nested: "nested r b = Inr sub \<Longrightarrow> remaining sub = length b"
  by (auto simp: nested_def remaining_def bind_result_eq_Inr split: if_splits)

lemma remaining_payload:
  "read_length_delimited r = Inr (b, r1) \<Longrightarrow> nested r1 b = Inr sub \<Longrightarrow> remaining sub < remaining r"
  by (simp add: length_payload remaining_nested)

text \<open>A payload decoded by \<open>f\<close> through a sub-reader, before the rest.\<close>

lemma sound_step_payload_rec:
  assumes f: "sound n f" and "\<And>x. sound (Suc n) (g x)"
  shows "sound_step (Suc n) (\<lambda>r. bind_result (read_length_delimited r) (\<lambda>(b, r1).
    bind_result (nested r1 b) (\<lambda>sub. bind_result (f sub) (\<lambda>(x, _). g x r1))))"
proof -
  let ?h = "\<lambda>r. bind_result (read_length_delimited r) (\<lambda>(b, r1).
    bind_result (nested r1 b) (\<lambda>sub. bind_result (f sub) (\<lambda>(x, _). Inr (x, r1))))"
  have "sound_step (Suc n) ?h"
  proof (rule sound_stepI)
    show "strictly_forward r r'" if "?h r = Inr (v, r')" for r v r'
      using that by (auto simp: bind_result_eq_Inr dest: read_length_delimited_moved)
    have sub: "remaining sub < n \<and> pos sub \<le> length (buf sub)"
      if "remaining r < Suc n" "read_length_delimited r = Inr (b, r1)" "nested r1 b = Inr sub" for r b r1 sub
      using remaining_payload [OF that(2,3)] that(1) nested_pos [OF that(3)] by simp
    show "\<not> diverges (?h r)" if "remaining r < Suc n" for r
      using soundD(2) [OF f] sub [OF that] by (auto simp: diverges_bind)
    show "\<not> panics (?h r)" if "remaining r < Suc n" "reader_ok r" "capped (limits r)" for r
    proof (rule not_panics_bindI, rule read_length_delimited_no_panic [OF that(2,3)], goal_cases)
      case (1 y)
      obtain b r1 where y: "y = (b, r1)" by (cases y)
      have r1: "reader_ok r1" "limits r1 = limits r"
        using read_forward_ok [OF read_length_delimited_moved] 1 y that(2) by simp_all
      have "\<not> panics (f sub)" if "nested r1 b = Inr sub" for sub
        using nested_reader_ok [OF 1 [unfolded y] that] soundD(3) [OF f]
          sub [OF \<open>remaining r < Suc n\<close> 1 [unfolded y] that] \<open>reader_ok r\<close> \<open>capped (limits r)\<close> by simp
      then show ?case
        using nested_no_panic [OF r1(1)] that(3) r1(2) by (auto simp: y panics_bind)
    qed
  qed
  from sound_step_bind [OF this assms(2)] show ?thesis
    by (simp add: bind_result_assoc case_prod_unfold)
qed

lemma sound_step_0: "sound_step 0 f"
  by (simp add: sound_step_def)

lemma sound_step_payload:
  assumes "sound n f" and "\<And>x. sound n (g x)"
  shows "sound_step n (\<lambda>r. bind_result (read_length_delimited r) (\<lambda>(b, r1).
    bind_result (nested r1 b) (\<lambda>sub. bind_result (f sub) (\<lambda>(x, _). g x r1))))"
proof (cases n)
  case (Suc m)
  then show ?thesis
    using sound_step_payload_rec [of m f g] sound_mono [OF assms(1), of m] assms(2) by simp
qed (simp add: sound_step_0)

lemmas sound_payloads [sound_rules] = sound_step_payload sound_step_payload [THEN sound_step_sound]
lemmas sound_payloads_rec = sound_step_payload_rec sound_step_payload_rec [THEN sound_step_sound]

end
