(* ===== verification/Scalar.thy ===== *)
theory Scalar
  imports Sound
begin

text \<open>
  Scalar field codecs (\<open>tpt-proto-core/src/scalar.rs\<close>). An encoder writes the tag and the
  value of one field, a decoder reads the value after the tag. A \<open>f32\<close>/\<open>f64\<close> is its bit
  pattern: the codecs only move the bits (\<open>to_bits\<close>, \<open>from_bits\<close>). The locale
  \<open>scalar_codec\<close> is the contract the message codecs rely on, interpreted for every pair.
\<close>

type_synonym f32 = "32 word"
type_synonym f64 = "64 word"

section \<open>Encoders\<close>

definition encode_int32 :: "writer \<Rightarrow> u32 \<Rightarrow> i32 \<Rightarrow> ('e, writer) res" where
  "encode_int32 w field v =
     bind_result (write_tag w field Varint) (\<lambda>w. Inr (write_varint w (scast v)))"

definition encode_int64 :: "writer \<Rightarrow> u32 \<Rightarrow> i64 \<Rightarrow> ('e, writer) res" where
  "encode_int64 w field v = bind_result (write_tag w field Varint) (\<lambda>w. Inr (write_varint w v))"

definition encode_uint32 :: "writer \<Rightarrow> u32 \<Rightarrow> u32 \<Rightarrow> ('e, writer) res" where
  "encode_uint32 w field v =
     bind_result (write_tag w field Varint) (\<lambda>w. Inr (write_varint w (ucast v)))"

definition encode_uint64 :: "writer \<Rightarrow> u32 \<Rightarrow> u64 \<Rightarrow> ('e, writer) res" where
  "encode_uint64 w field v = bind_result (write_tag w field Varint) (\<lambda>w. Inr (write_varint w v))"

definition encode_bool :: "writer \<Rightarrow> u32 \<Rightarrow> bool \<Rightarrow> ('e, writer) res" where
  "encode_bool w field v =
     bind_result (write_tag w field Varint) (\<lambda>w. Inr (write_varint w (if v then 1 else 0)))"

definition encode_sint32 :: "writer \<Rightarrow> u32 \<Rightarrow> i32 \<Rightarrow> ('e, writer) res" where
  "encode_sint32 w field v =
     bind_result (write_tag w field Varint) (\<lambda>w. Inr (write_varint w (ucast (encode_zigzag32 v))))"

definition encode_sint64 :: "writer \<Rightarrow> u32 \<Rightarrow> i64 \<Rightarrow> ('e, writer) res" where
  "encode_sint64 w field v =
     bind_result (write_tag w field Varint) (\<lambda>w. Inr (write_varint w (encode_zigzag64 v)))"

definition encode_enum :: "writer \<Rightarrow> u32 \<Rightarrow> i32 \<Rightarrow> ('e, writer) res" where
  "encode_enum w field v = encode_int32 w field v"

definition encode_fixed32 :: "writer \<Rightarrow> u32 \<Rightarrow> u32 \<Rightarrow> ('e, writer) res" where
  "encode_fixed32 w field v = bind_result (write_tag w field Fixed32) (\<lambda>w. Inr (write_fixed32 w v))"

definition encode_sfixed32 :: "writer \<Rightarrow> u32 \<Rightarrow> i32 \<Rightarrow> ('e, writer) res" where
  "encode_sfixed32 w field v = encode_fixed32 w field v"

definition encode_fixed64 :: "writer \<Rightarrow> u32 \<Rightarrow> u64 \<Rightarrow> ('e, writer) res" where
  "encode_fixed64 w field v = bind_result (write_tag w field Fixed64) (\<lambda>w. Inr (write_fixed64 w v))"

definition encode_sfixed64 :: "writer \<Rightarrow> u32 \<Rightarrow> i64 \<Rightarrow> ('e, writer) res" where
  "encode_sfixed64 w field v = encode_fixed64 w field v"

definition encode_float :: "writer \<Rightarrow> u32 \<Rightarrow> f32 \<Rightarrow> ('e, writer) res" where
  "encode_float w field v = encode_fixed32 w field v"

definition encode_double :: "writer \<Rightarrow> u32 \<Rightarrow> f64 \<Rightarrow> ('e, writer) res" where
  "encode_double w field v = encode_fixed64 w field v"

definition encode_string :: "writer \<Rightarrow> u32 \<Rightarrow> string \<Rightarrow> ('e, writer) res" where
  "encode_string w field s =
     bind_result (write_tag w field LengthDelimited) (\<lambda>w. Inr (write_string w s))"

definition encode_bytes :: "writer \<Rightarrow> u32 \<Rightarrow> byte list \<Rightarrow> ('e, writer) res" where
  "encode_bytes w field bs =
     bind_result (write_tag w field LengthDelimited) (\<lambda>w. Inr (write_length_delimited w bs))"

definition encode_message :: "writer \<Rightarrow> u32 \<Rightarrow> byte list \<Rightarrow> ('e, writer) res" where
  "encode_message w field bs = encode_bytes w field bs"

section \<open>Decoders\<close>

definition read_int32 :: "reader \<Rightarrow> (i32 \<times> reader) core_res" where
  "read_int32 r = bind_result (read_varint r) (\<lambda>(v, r). Inr (ucast v, r))"

definition read_int64 :: "reader \<Rightarrow> (i64 \<times> reader) core_res" where
  "read_int64 r = bind_result (read_varint r) (\<lambda>(v, r). Inr (v, r))"

definition read_uint32 :: "reader \<Rightarrow> (u32 \<times> reader) core_res" where
  "read_uint32 r = bind_result (read_varint r) (\<lambda>(v, r). Inr (ucast v, r))"

definition read_uint64 :: "reader \<Rightarrow> (u64 \<times> reader) core_res" where
  "read_uint64 r = read_varint r"

definition read_bool :: "reader \<Rightarrow> (bool \<times> reader) core_res" where
  "read_bool r = bind_result (read_varint r) (\<lambda>(v, r). Inr (v \<noteq> 0, r))"

definition read_sint32 :: "reader \<Rightarrow> (i32 \<times> reader) core_res" where
  "read_sint32 r = bind_result (read_varint r) (\<lambda>(v, r). Inr (decode_zigzag32 (ucast v), r))"

definition read_sint64 :: "reader \<Rightarrow> (i64 \<times> reader) core_res" where
  "read_sint64 r = bind_result (read_varint r) (\<lambda>(v, r). Inr (decode_zigzag64 v, r))"

definition scalar_read_fixed32 :: "reader \<Rightarrow> (u32 \<times> reader) core_res" where
  "scalar_read_fixed32 r = read_fixed32 r"

definition read_sfixed32 :: "reader \<Rightarrow> (i32 \<times> reader) core_res" where
  "read_sfixed32 r = bind_result (read_fixed32 r) (\<lambda>(v, r). Inr (v, r))"

definition scalar_read_fixed64 :: "reader \<Rightarrow> (u64 \<times> reader) core_res" where
  "scalar_read_fixed64 r = read_fixed64 r"

definition read_sfixed64 :: "reader \<Rightarrow> (i64 \<times> reader) core_res" where
  "read_sfixed64 r = bind_result (read_fixed64 r) (\<lambda>(v, r). Inr (v, r))"

definition read_float :: "reader \<Rightarrow> (f32 \<times> reader) core_res" where
  "read_float r = bind_result (read_fixed32 r) (\<lambda>(v, r). Inr (v, r))"

definition read_double :: "reader \<Rightarrow> (f64 \<times> reader) core_res" where
  "read_double r = bind_result (read_fixed64 r) (\<lambda>(v, r). Inr (v, r))"

section \<open>The contract of a scalar codec\<close>

text \<open>
  \<open>payload v\<close> is the encoding of \<open>v\<close> without its tag, \<open>lv\<close> the nesting levels its decoder
  enters. The encoder appends tag and payload;
  the decoder, in front of a payload, returns the value and consumes exactly the payload; on
  any other input it is sound.
\<close>

locale scalar_codec =
  fixes lv :: nat
    and wt :: wire_type
    and ok :: "'a \<Rightarrow> bool"
    and payload :: "'a \<Rightarrow> byte list"
    and enc :: "writer \<Rightarrow> u32 \<Rightarrow> 'a \<Rightarrow> (error, writer) res"
    and dec :: "reader \<Rightarrow> ('a \<times> reader) core_res"
  assumes enc_eq: "f \<noteq> 0 \<Longrightarrow> enc w f v = Inr (emit w (tag_bytes f wt @ payload v))"
    and dec_reads: "ok v \<Longrightarrow> lv \<le> d \<Longrightarrow> reads d dec (payload v) v"
    and dec_sound: "sound_step n dec"
begin

lemma field_reads:
  assumes "ok v" and "0 < f" and "f < 2 ^ 29" and "lv \<le> d"
  shows "reads d (\<lambda>r. bind_result (read_tag r) (\<lambda>(t, r). bind_result (dec r) (\<lambda>(x, r). Inr ((t, x), r))))
    (tag_bytes f wt @ payload v) (\<lparr>field_number = f, wire_type = wt\<rparr>, v)"
  by (rule reads_bind [OF reads_tag [OF assms(2,3)]], rule reads_map [OF dec_reads [OF assms(1,4)]]) (rule refl)

lemma field_roundtrip:
  assumes "ok v" and "0 < f" and "f < 2 ^ 29" and "length (tag_bytes f wt @ payload v) \<le> 1000000" and "lv \<le> 100"
  shows "\<exists>w r1 r2. enc Writer_new f v = Inr w
    \<and> read_tag (Reader_new (into_vec w)) = Inr (\<lparr>field_number = f, wire_type = wt\<rparr>, r1)
    \<and> dec r1 = Inr (v, r2) \<and> is_empty r2"
proof -
  let ?b = "tag_bytes f wt @ payload v"
  have w: "enc Writer_new f v = Inr (emit Writer_new ?b)" and b: "into_vec (emit Writer_new ?b) = ?b"
    using assms(2) by (auto simp: enc_eq)
  have a: "ample (Reader_new ?b)" "room 100 (Reader_new ?b)" "unread (Reader_new ?b) = ?b @ []"
    using ample_new [OF assms(4)] by simp_all
  obtain r' where r': "bind_result (read_tag (Reader_new ?b)) (\<lambda>(t, r). bind_result (dec r)
      (\<lambda>(x, r). Inr ((t, x), r))) = Inr ((\<lparr>field_number = f, wire_type = wt\<rparr>, v), r')" "after (Reader_new ?b) r' []"
    by (rule readsE [OF field_reads [OF assms(1-3,5)] a])
  then obtain r1 where "read_tag (Reader_new ?b) = Inr (\<lparr>field_number = f, wire_type = wt\<rparr>, r1)"
      "dec r1 = Inr (v, r')"
    by (auto simp: bind_result_eq_Inr)
  then show ?thesis
    using w b r'(2) by (auto simp: is_empty_unread after_def)
qed

end

lemma sound_step_return:
  "sound_step n f \<Longrightarrow> sound_step n (\<lambda>r. bind_result (f r) (\<lambda>(v, r). Inr (h v, r)))"
  by (intro sound_rules)

lemma bind_result_return: "bind_result m Inr = m" "bind_result m (\<lambda>(v, r). Inr (v, r)) = m"
  by (cases m; auto)+

lemma ucast_scast_i32 [simp]: "ucast (scast (v :: i32) :: u64) = v"
  by (rule bit_word_eqI) (simp add: bit_ucast_iff bit_signed_iff)

lemma ucast_ucast_u32 [simp]: "ucast (ucast (v :: u32) :: u64) = v"
  by (rule bit_word_eqI) (simp add: bit_ucast_iff)

interpretation int32: scalar_codec 0 Varint "\<lambda>_. True" "\<lambda>v. varint (scast v)" encode_int32 read_int32
  by unfold_locales
     (simp_all add: encode_int32_def read_int32_def [abs_def] buffer_simps reads_map [OF reads_varint]
        sound_step_return sound_step_read)

interpretation int64: scalar_codec 0 Varint "\<lambda>_. True" varint encode_int64 read_int64
  by unfold_locales
     (simp_all add: encode_int64_def read_int64_def [abs_def] buffer_simps reads_varint
        bind_result_return sound_step_read)

interpretation uint32: scalar_codec 0 Varint "\<lambda>_. True" "\<lambda>v. varint (ucast v)" encode_uint32 read_uint32
  by unfold_locales
     (simp_all add: encode_uint32_def read_uint32_def [abs_def] buffer_simps reads_map [OF reads_varint]
        sound_step_return sound_step_read)

interpretation uint64: scalar_codec 0 Varint "\<lambda>_. True" varint encode_uint64 read_uint64
  by unfold_locales
     (simp_all add: encode_uint64_def read_uint64_def [abs_def] buffer_simps reads_varint sound_step_read)

interpretation bool: scalar_codec 0 Varint "\<lambda>_. True" "\<lambda>v. varint (if v then 1 else 0)" encode_bool read_bool
  by unfold_locales
     (simp_all add: encode_bool_def read_bool_def [abs_def] buffer_simps reads_map [OF reads_varint]
        sound_step_return sound_step_read)

interpretation sint32: scalar_codec 0 Varint "\<lambda>_. True" "\<lambda>v. varint (ucast (encode_zigzag32 v))"
  encode_sint32 read_sint32
  by unfold_locales
     (simp_all add: encode_sint32_def read_sint32_def [abs_def] buffer_simps reads_map [OF reads_varint]
        decode_encode_zigzag32 sound_step_return sound_step_read)

interpretation sint64: scalar_codec 0 Varint "\<lambda>_. True" "\<lambda>v. varint (encode_zigzag64 v)"
  encode_sint64 read_sint64
  by unfold_locales
     (simp_all add: encode_sint64_def read_sint64_def [abs_def] buffer_simps reads_map [OF reads_varint]
        decode_encode_zigzag64 sound_step_return sound_step_read)

interpretation enum: scalar_codec 0 Varint "\<lambda>_. True" "\<lambda>v. varint (scast v)" encode_enum read_int32
  by unfold_locales (simp_all add: encode_enum_def int32.enc_eq int32.dec_reads int32.dec_sound)

interpretation fixed32: scalar_codec 0 Fixed32 "\<lambda>_. True" "le_bytes 4" encode_fixed32 scalar_read_fixed32
  by unfold_locales
     (simp_all add: encode_fixed32_def scalar_read_fixed32_def [abs_def] buffer_simps reads_fixed32 sound_step_read)

interpretation fixed64: scalar_codec 0 Fixed64 "\<lambda>_. True" "le_bytes 8" encode_fixed64 scalar_read_fixed64
  by unfold_locales
     (simp_all add: encode_fixed64_def scalar_read_fixed64_def [abs_def] buffer_simps reads_fixed64 sound_step_read)

interpretation sfixed32: scalar_codec 0 Fixed32 "\<lambda>_. True" "le_bytes 4" encode_sfixed32 read_sfixed32
  by unfold_locales
     (simp_all add: encode_sfixed32_def fixed32.enc_eq read_sfixed32_def [abs_def] reads_fixed32
        bind_result_return sound_step_read)

interpretation sfixed64: scalar_codec 0 Fixed64 "\<lambda>_. True" "le_bytes 8" encode_sfixed64 read_sfixed64
  by unfold_locales
     (simp_all add: encode_sfixed64_def fixed64.enc_eq read_sfixed64_def [abs_def] reads_fixed64
        bind_result_return sound_step_read)

interpretation float: scalar_codec 0 Fixed32 "\<lambda>_. True" "le_bytes 4" encode_float read_float
  by unfold_locales
     (simp_all add: encode_float_def fixed32.enc_eq read_float_def [abs_def] reads_fixed32
        bind_result_return sound_step_read)

interpretation double: scalar_codec 0 Fixed64 "\<lambda>_. True" "le_bytes 8" encode_double read_double
  by unfold_locales
     (simp_all add: encode_double_def fixed64.enc_eq read_double_def [abs_def] reads_fixed64
        bind_result_return sound_step_read)

interpretation str: scalar_codec 0 LengthDelimited str_ok "\<lambda>s. length_delimited (as_bytes s)"
  encode_string read_string_owned
  by unfold_locales (simp_all add: encode_string_def buffer_simps reads_string_owned sound_step_read)

interpretation bytes: scalar_codec 0 LengthDelimited "\<lambda>_. True" length_delimited encode_bytes read_length_delimited
  by unfold_locales (simp_all add: encode_bytes_def buffer_simps reads_length_delimited sound_step_read)

section \<open>Property\<close>

definition field_roundtrip ::
  "wire_type \<Rightarrow> (writer \<Rightarrow> u32 \<Rightarrow> 'a \<Rightarrow> (error, writer) res) \<Rightarrow> (reader \<Rightarrow> ('a \<times> reader) core_res)
    \<Rightarrow> u32 \<Rightarrow> 'a \<Rightarrow> bool" where
  "field_roundtrip wt enc dec f v \<longleftrightarrow> (\<exists>w r1 r2. enc Writer_new f v = Inr w
     \<and> read_tag (Reader_new (into_vec w)) = Inr (\<lparr>field_number = f, wire_type = wt\<rparr>, r1)
     \<and> dec r1 = Inr (v, r2) \<and> is_empty r2)"

lemma length_tag_bytes_10: "length (tag_bytes f wt) \<le> 10"
  by (simp add: tag_bytes_def length_varint_le_10)

lemma length_field_varint: "length (tag_bytes f wt @ varint v) \<le> 1000000"
  using length_tag_bytes_10 [of f wt] length_varint_le_10 [of v] by simp

lemma length_field_fixed: "length (tag_bytes f wt @ le_bytes 8 v) \<le> 1000000" "length (tag_bytes f wt @ le_bytes 4 v) \<le> 1000000"
  using length_tag_bytes_10 [of f wt] by simp_all

lemma length_field_bytes: "length bs \<le> 900000 \<Longrightarrow> length (tag_bytes f wt @ length_delimited bs) \<le> 1000000"
  using length_tag_bytes_10 [of f wt] length_varint_le_10 [of "word_of_nat (length bs)"]
  by (simp add: length_delimited_def)

text \<open>
  C8: Every scalar codec round-trips: a field written by the encoder of each of the fifteen
  scalar types is read back, its tag with the field number and wire type written, its value by
  the matching decoder, with nothing left over. Strings and byte fields are bounded here so
  that the default decode limits admit them.
\<close>

theorem scalar_fields_roundtrip:
  assumes f: "0 < f" "f < 2 ^ 29" and s: "str_ok s" "length s \<le> 900000" and bs: "length bs \<le> 900000"
  shows "field_roundtrip Varint encode_int32 read_int32 f v32 \<and> field_roundtrip Varint encode_int64 read_int64 f v64
    \<and> field_roundtrip Varint encode_uint32 read_uint32 f v32 \<and> field_roundtrip Varint encode_uint64 read_uint64 f v64
    \<and> field_roundtrip Varint encode_sint32 read_sint32 f v32 \<and> field_roundtrip Varint encode_sint64 read_sint64 f v64
    \<and> field_roundtrip Varint encode_bool read_bool f b \<and> field_roundtrip Varint encode_enum read_int32 f v32
    \<and> field_roundtrip Fixed32 encode_fixed32 scalar_read_fixed32 f v32
    \<and> field_roundtrip Fixed64 encode_fixed64 scalar_read_fixed64 f v64
    \<and> field_roundtrip Fixed32 encode_sfixed32 read_sfixed32 f v32
    \<and> field_roundtrip Fixed64 encode_sfixed64 read_sfixed64 f v64
    \<and> field_roundtrip Fixed32 encode_float read_float f v32 \<and> field_roundtrip Fixed64 encode_double read_double f v64
    \<and> field_roundtrip LengthDelimited encode_string read_string_owned f s
    \<and> field_roundtrip LengthDelimited encode_bytes read_length_delimited f bs"
  unfolding field_roundtrip_def
  by (intro conjI int32.field_roundtrip int64.field_roundtrip uint32.field_roundtrip uint64.field_roundtrip
      sint32.field_roundtrip sint64.field_roundtrip bool.field_roundtrip enum.field_roundtrip
      fixed32.field_roundtrip fixed64.field_roundtrip sfixed32.field_roundtrip sfixed64.field_roundtrip
      float.field_roundtrip double.field_roundtrip str.field_roundtrip bytes.field_roundtrip
      length_field_varint length_field_fixed length_field_bytes f s(1) bs TrueI) (simp_all add: s(2))

theorem scalar_fields_roundtrip_witness:
  "field_roundtrip Varint encode_int32 read_int32 1 (- 1)
   \<and> field_roundtrip LengthDelimited encode_string read_string_owned 1 ''abc''"
proof -
  have "str_ok ''abc''"
    by (intro str_ascii_ok) (simp add: str_ascii_def)
  then show ?thesis
    using scalar_fields_roundtrip [of 1 "''abc''" "[]" "- 1"] by simp
qed

end
