(* ===== verification/Packed.thy ===== *)
theory Packed
  imports Scalar
begin

text \<open>
  Packed repeated fields and map entries (\<open>tpt-proto-core/src/packed.rs\<close>). The payload is
  decoded through a sub-reader, so depth is counted across it.
\<close>

section \<open>Packed repeated fields\<close>

definition encode_packed_varint :: "writer \<Rightarrow> u32 \<Rightarrow> u64 list \<Rightarrow> ('e, writer) res" where
  "encode_packed_varint w field vs =
     (let inner = fold encode_varint vs [] in
      bind_result (write_tag w field LengthDelimited) (\<lambda>w. Inr (write_length_delimited w inner)))"

definition encode_packed_fixed32 :: "writer \<Rightarrow> u32 \<Rightarrow> u32 list \<Rightarrow> ('e, writer) res" where
  "encode_packed_fixed32 w field vs =
     (let inner = fold (\<lambda>v inner. inner @ le_bytes 4 v) vs [] in
      bind_result (write_tag w field LengthDelimited) (\<lambda>w. Inr (write_length_delimited w inner)))"

definition encode_packed_fixed64 :: "writer \<Rightarrow> u32 \<Rightarrow> u64 list \<Rightarrow> ('e, writer) res" where
  "encode_packed_fixed64 w field vs =
     (let inner = fold (\<lambda>v inner. inner @ le_bytes 8 v) vs [] in
      bind_result (write_tag w field LengthDelimited) (\<lambda>w. Inr (write_length_delimited w inner)))"

definition collect :: "(reader \<Rightarrow> ('a \<times> reader) core_res) \<Rightarrow> reader \<Rightarrow> ('a list \<times> reader) core_res" where
  "collect read_one =
     while_unread (\<lambda>out r. bind_result (read_one r) (\<lambda>(v, r). Inr (out @ [v], r))) []"

definition read_packed_varint ::
  "(reader \<Rightarrow> ('a \<times> reader) core_res) \<Rightarrow> reader \<Rightarrow> ('a list \<times> reader) core_res" where
  "read_packed_varint read_one r =
     bind_result (read_length_delimited r) (\<lambda>(body, r).
       bind_result (nested r body) (\<lambda>sub.
         bind_result (collect read_one sub) (\<lambda>(out, _). Inr (out, r))))"

definition read_packed_fixed32 :: "reader \<Rightarrow> (u32 list \<times> reader) core_res" where
  "read_packed_fixed32 r =
     bind_result (read_length_delimited r) (\<lambda>(body, r).
       if length body mod 4 \<noteq> 0
       then Inl (Raised (MalformedInput ''packed fixed32 length not a multiple of 4''))
       else bind_result (nested r body) (\<lambda>sub.
         bind_result (collect read_fixed32 sub) (\<lambda>(out, _). Inr (out, r))))"

definition read_packed_fixed64 :: "reader \<Rightarrow> (u64 list \<times> reader) core_res" where
  "read_packed_fixed64 r =
     bind_result (read_length_delimited r) (\<lambda>(body, r).
       if length body mod 8 \<noteq> 0
       then Inl (Raised (MalformedInput ''packed fixed64 length not a multiple of 8''))
       else bind_result (nested r body) (\<lambda>sub.
         bind_result (collect read_fixed64 sub) (\<lambda>(out, _). Inr (out, r))))"

section \<open>Map entries\<close>

definition encode_map_entry :: "writer \<Rightarrow> u32 \<Rightarrow> byte list \<Rightarrow> byte list \<Rightarrow> ('e, writer) res" where
  "encode_map_entry w field key val =
     (let entry = key @ val in
      bind_result (write_tag w field LengthDelimited) (\<lambda>w. Inr (write_length_delimited w entry)))"

definition read_raw_value :: "wire_type \<Rightarrow> reader \<Rightarrow> (byte list \<times> reader) core_res" where
  "read_raw_value wt r = (case wt of
      Varint \<Rightarrow> bind_result (read_varint_raw r) (\<lambda>((v, raw), r). Inr (raw, r))
    | Fixed32 \<Rightarrow> (let start = pos r in
        bind_result (read_fixed32 r) (\<lambda>(_, r).
          bind_result (usize_add start 4) (\<lambda>e.
            bind_result (buf_slice r start e) (\<lambda>raw. Inr (raw, r)))))
    | Fixed64 \<Rightarrow> (let start = pos r in
        bind_result (read_fixed64 r) (\<lambda>(_, r).
          bind_result (usize_add start 8) (\<lambda>e.
            bind_result (buf_slice r start e) (\<lambda>raw. Inr (raw, r)))))
    | LengthDelimited \<Rightarrow> (let start = pos r in
        bind_result (read_varint r) (\<lambda>(v, r).
          bind_result (check_length (limits r) (unat v)) (\<lambda>_.
            bind_result (usize_add (pos r) (unat v)) (\<lambda>e.
              if length (buf r) < e then Inl (Raised (LengthLimitExceeded (unat v)))
              else bind_result (buf_slice r start e) (\<lambda>framed.
                bind_result (set_pos r e) (\<lambda>r. Inr (framed, r)))))))
    | StartGroup \<Rightarrow> Inl (Raised (UnexpectedWireType (WireType_as_u8 wt)))
    | EndGroup \<Rightarrow> Inl (Raised (UnexpectedWireType (WireType_as_u8 wt))))"

definition map_entry_step ::
  "byte list option \<times> byte list option \<Rightarrow> reader \<Rightarrow> ((byte list option \<times> byte list option) \<times> reader) core_res" where
  "map_entry_step kv r =
     bind_result (read_tag r) (\<lambda>(t, r).
       bind_result (read_raw_value (wire_type t) r) (\<lambda>(bytes, r).
         Inr ((if field_number t = 1 then (Some bytes, snd kv)
               else if field_number t = 2 then (fst kv, Some bytes) else kv), r)))"

definition decode_map_entry_frames :: "reader \<Rightarrow> ((byte list \<times> byte list) \<times> reader) core_res" where
  "decode_map_entry_frames r =
     bind_result (read_length_delimited r) (\<lambda>(body, r).
       bind_result (nested r body) (\<lambda>er.
         bind_result (while_unread map_entry_step (None, None) er) (\<lambda>(kv, _).
           case fst kv of
             None \<Rightarrow> Inl (Raised (MalformedInput ''map entry missing key''))
           | Some key \<Rightarrow> Inr ((key, case snd kv of None \<Rightarrow> [] | Some v \<Rightarrow> v), r))))"

definition decode_map_entry :: "reader \<Rightarrow> ((byte list \<times> byte list) \<times> reader) core_res" where
  "decode_map_entry r = bind_result (decode_map_entry_frames r) (\<lambda>((k, v), r). Inr ((k, v), r))"

section \<open>Packed fields round-trip\<close>

lemma fold_encode_varint: "fold encode_varint vs inner = inner @ concat (map varint vs)"
  by (induction vs arbitrary: inner) (simp_all add: encode_varint_eq)

lemma fold_append_map: "fold (\<lambda>v inner. inner @ f v) vs inner = inner @ concat (map f vs)"
  by (induction vs arbitrary: inner) simp_all

lemma foldl_snoc: "foldl (\<lambda>out v. out @ [v]) acc vs = acc @ vs"
  by (induction vs arbitrary: acc) simp_all

lemma decodes_collect:
  assumes "\<And>v. v \<in> set vs \<Longrightarrow> reads d f (g v) v \<and> g v \<noteq> []"
  shows "decodes d (collect f) (concat (map g vs)) vs"
proof -
  let ?body = "\<lambda>out r. bind_result (f r) (\<lambda>(v, r). Inr (out @ [v], r))"
  have "loops d ?body out (g v) (out @ [v])" if "v \<in> set vs" for out v
    using assms [OF that] by (intro loops_one reads_map) auto
  then have "loops d ?body [] (concat (map g vs)) (foldl (\<lambda>out v. out @ [v]) [] vs)"
    by (rule loops_concat)
  from decodes_loops [OF this] show ?thesis
    by (simp add: collect_def foldl_snoc)
qed

lemma sound_collect [sound_rules]: "sound_step n f \<Longrightarrow> sound n (collect f)"
  unfolding collect_def by (intro sound_rules)

lemma sound_step_payload_if:
  assumes "sound n f" and "\<And>x. sound n (g x)"
  shows "sound_step n (\<lambda>r. bind_result (read_length_delimited r) (\<lambda>(b, r1). if P b then Inl (Raised e) else
    bind_result (nested r1 b) (\<lambda>sub. bind_result (f sub) (\<lambda>(x, _). g x r1))))"
proof -
  let ?g = "\<lambda>r. bind_result (read_length_delimited r) (\<lambda>(b, r1).
    bind_result (nested r1 b) (\<lambda>sub. bind_result (f sub) (\<lambda>(x, _). g x r1)))"
  let ?h = "\<lambda>r. bind_result (read_length_delimited r) (\<lambda>(b, r1). if P b then Inl (Raised e) else
    bind_result (nested r1 b) (\<lambda>sub. bind_result (f sub) (\<lambda>(x, _). g x r1)))"
  have "?h r = ?g r \<or> ?h r = Inl (Raised e)" for r
    by (cases "read_length_delimited r") auto
  then show ?thesis
    using sound_step_payload [of n f g, OF assms] unfolding sound_step_def
    by (metis (no_types, lifting) Inl_Inr_False diverges_simps(2) panics_simps(2))
qed

lemmas sound_payloads_if [sound_rules] = sound_step_payload_if sound_step_payload_if [THEN sound_step_sound]

lemma word_of_mod: "length (concat (map (\<lambda>v. le_bytes n (h v)) vs)) = n * length vs"
  by (induction vs) simp_all

lemma reads_packed_checked:
  assumes "\<And>v. v \<in> set vs \<Longrightarrow> reads d f (le_bytes n v) v" and "0 < n"
  shows "reads (Suc d) (\<lambda>r. bind_result (read_length_delimited r) (\<lambda>(b, r1). if length b mod n \<noteq> 0 then Inl (Raised e)
     else bind_result (nested r1 b) (\<lambda>sub. bind_result (collect f sub) (\<lambda>(x, _). Inr (x, r1)))))
    (length_delimited (concat (map (le_bytes n) vs))) vs"
proof -
  let ?b = "concat (map (le_bytes n) vs)"
  have len: "length ?b mod n = 0"
    using word_of_mod [of n "\<lambda>v. v" vs] by simp
  have d: "decodes d (collect f) ?b vs"
    using assms by (intro decodes_collect) (auto simp: le_bytes_def)
  show ?thesis
  proof (rule readsI)
    fix r rest
    assume r: "ample r" "room (Suc d) r" "unread r = length_delimited ?b @ rest"
    obtain r1 where 1: "read_length_delimited r = Inr (?b, r1)" "after r r1 rest"
      by (rule readsE [OF reads_length_delimited r])
    obtain r2 where 2: "bind_result (read_length_delimited r) (\<lambda>(b, r1). bind_result (nested r1 b)
        (\<lambda>sub. bind_result (collect f sub) (\<lambda>(x, _). Inr (x, r1)))) = Inr (vs, r2)" "after r r2 rest"
      by (rule readsE [OF reads_payload_return [OF d refl, of "\<lambda>x. x"] r])
    show "\<exists>r'. bind_result (read_length_delimited r) (\<lambda>(b, r1). if length b mod n \<noteq> 0 then Inl (Raised e)
        else bind_result (nested r1 b) (\<lambda>sub. bind_result (collect f sub) (\<lambda>(x, _). Inr (x, r1)))) = Inr (vs, r')
      \<and> after r r' rest"
      using 1 2 len by simp
  qed
qed

interpretation packed_varint: scalar_codec 1 LengthDelimited "\<lambda>_. True" "\<lambda>vs. length_delimited (concat (map varint vs))"
  encode_packed_varint "read_packed_varint read_varint"
proof unfold_locales
  fix vs :: "u64 list" and d :: nat
  assume "1 \<le> d"
  then obtain e where d: "d = Suc e" by (cases d) auto
  have "decodes e (collect read_varint) (concat (map varint vs)) vs"
    by (intro decodes_collect conjI reads_varint varint_not_Nil)
  from reads_payload_return [OF this refl, of "\<lambda>x. x"]
  show "reads d (read_packed_varint read_varint) (length_delimited (concat (map varint vs))) vs"
    by (simp add: d read_packed_varint_def [abs_def])
qed (auto simp: encode_packed_varint_def buffer_simps fold_encode_varint read_packed_varint_def [abs_def]
      intro!: sound_rules)

interpretation packed_fixed32: scalar_codec 1 LengthDelimited "\<lambda>_. True" "\<lambda>vs. length_delimited (concat (map (le_bytes 4) vs))"
  encode_packed_fixed32 read_packed_fixed32
proof unfold_locales
  fix vs :: "u32 list" and d :: nat
  assume "1 \<le> d"
  then obtain e where d: "d = Suc e" by (cases d) auto
  show "reads d read_packed_fixed32 (length_delimited (concat (map (le_bytes 4) vs))) vs"
    unfolding d read_packed_fixed32_def [abs_def] by (rule reads_packed_checked) (simp_all add: reads_fixed32)
qed (auto simp: encode_packed_fixed32_def buffer_simps fold_append_map read_packed_fixed32_def [abs_def]
      intro!: sound_rules)

interpretation packed_fixed64: scalar_codec 1 LengthDelimited "\<lambda>_. True" "\<lambda>vs. length_delimited (concat (map (le_bytes 8) vs))"
  encode_packed_fixed64 read_packed_fixed64
proof unfold_locales
  fix vs :: "u64 list" and d :: nat
  assume "1 \<le> d"
  then obtain e where d: "d = Suc e" by (cases d) auto
  show "reads d read_packed_fixed64 (length_delimited (concat (map (le_bytes 8) vs))) vs"
    unfolding d read_packed_fixed64_def [abs_def] by (rule reads_packed_checked) (simp_all add: reads_fixed64)
qed (auto simp: encode_packed_fixed64_def buffer_simps fold_append_map read_packed_fixed64_def [abs_def]
      intro!: sound_rules)

text \<open>
  C9: Packed repeated fields round-trip: a packed field of any list of varints, 32-bit or 64-bit
  values is read back as that list, element by element through a sub-reader.
\<close>

theorem packed_roundtrip:
  assumes "0 < f" and "f < 2 ^ 29" and "length vs \<le> 90000" and "length ws \<le> 200000" and "length xs \<le> 100000"
  shows "field_roundtrip LengthDelimited encode_packed_varint (read_packed_varint read_varint) f vs
    \<and> field_roundtrip LengthDelimited encode_packed_fixed32 read_packed_fixed32 f ws
    \<and> field_roundtrip LengthDelimited encode_packed_fixed64 read_packed_fixed64 f xs"
proof -
  have "length (concat (map varint vs)) \<le> 10 * length vs"
    by (induction vs) (auto intro: order.trans [OF add_mono [OF length_varint_le_10]])
  moreover have "length (concat (map (le_bytes 4) ws)) = 4 * length ws"
    "length (concat (map (le_bytes 8) xs)) = 8 * length xs"
    using word_of_mod [of 4 "\<lambda>v. v" ws] word_of_mod [of 8 "\<lambda>v. v" xs] by simp_all
  ultimately show ?thesis
    unfolding field_roundtrip_def
    by (intro conjI packed_varint.field_roundtrip packed_fixed32.field_roundtrip packed_fixed64.field_roundtrip
        length_field_bytes TrueI assms(1,2)) (use assms(3-5) in simp_all)
qed

theorem packed_roundtrip_witness:
  "field_roundtrip LengthDelimited encode_packed_varint (read_packed_varint read_varint) 4 [1, 300, - 1]
    \<and> field_roundtrip LengthDelimited encode_packed_fixed32 read_packed_fixed32 4 [7, 8]
    \<and> field_roundtrip LengthDelimited encode_packed_fixed64 read_packed_fixed64 4 []"
  by (rule packed_roundtrip) simp_all

section \<open>Raw values and map entries\<close>

lemma sound_step_read_raw_value: "sound_step n (read_raw_value wt)"
proof (rule sound_stepI)
  have set_pos: "strictly_forward r r'"
    if "read_varint r = Inr (v, r1)" "set_pos r1 (pos r1 + n) = Inr r'" for r v r1 n r'
  proof -
    from that(2) have "moved n r1 r'"
      by (auto simp: set_pos_def moved_def reader_ok_def split: if_splits)
    with read_varint_moved [OF that(1)] show ?thesis
      by (blast intro: strictly_forward_trans1 moved_forward)
  qed
  show "strictly_forward r r'" if "read_raw_value wt r = Inr (v, r')" for r v r'
    using that
    by (cases wt)
       (auto simp: read_raw_value_def bind_result_eq_Inr Let_def dest: reads_moved set_pos
          dest!: usize_add_InrD split: if_splits)
  show "\<not> diverges (read_raw_value wt r)" for r
    by (cases wt) (auto simp: read_raw_value_def diverges_bind Let_def buf_slice_def set_pos_def)
  have fixed: "pos r < 2 ^ 63" if "reader_ok r" for r
    using that by (simp add: reader_ok_def)
  have slice: "\<not> panics (buf_slice r s e)" "\<not> panics (set_pos r e)" for r s e
    by (auto simp: buf_slice_def set_pos_def)
  have len: "pos r1 + unat v < 2 ^ 64"
    if "reader_ok r" "capped (limits r)" "read_varint r = Inr (v, r1)" "check_length (limits r1) (unat v) = Inr ()"
    for r r1 v
    using read_forward_ok [OF read_varint_moved [OF that(3)] that(1)] capped_advance(1) [OF _ _ that(4)] that(2)
    by simp
  show "\<not> panics (read_raw_value wt r)" if "reader_ok r" "capped (limits r)" for r
    using that fixed [OF that(1)] len [OF that]
    by (cases wt) (auto simp: read_raw_value_def panics_bind Let_def slice read_varint_raw_no_panic
        read_varint_no_panic read_fixed_no_panic dest!: usize_add_InrD)
qed

lemmas sound_raw_values [sound_rules] = sound_step_read_raw_value sound_step_read_raw_value [THEN sound_step_sound]

lemma sound_map_entry_step [sound_rules]: "sound_step n (map_entry_step kv)"
  unfolding map_entry_step_def by (intro sound_rules)

lemma reads_varint_raw: "reads d read_varint_raw (varint v) (v, varint v)"
proof (rule readsI)
  fix r rest
  assume r: "ample r" "unread r = varint v @ rest"
  have d: "decode_varint (buf r) (pos r) = Inr (v, length (varint v))"
    using r(2) by (simp add: unread_def decode_varint_varint)
  have le: "length (varint v) \<le> remaining r"
    using r(2) length_unread [of r] by simp
  obtain r' where a: "advance r (length (varint v)) = Inr r'" "after r r' rest"
    using advance_ample [OF r(1) le] r(2) by fastforce
  have p: "pos r + length (varint v) \<le> length (buf r)" "pos r + length (varint v) < 2 ^ 64"
    using le r(1) by (auto simp: ample_def remaining_def)
  moreover have "take (length (varint v)) (drop (pos r) (buf r)) = varint v"
    using r(2) by (simp add: unread_def)
  ultimately show "\<exists>r'. read_varint_raw r = Inr ((v, varint v), r') \<and> after r r' rest"
    using d a by (simp add: read_varint_raw_def usize_add_ok slice_ok)
qed

lemma reads_buf_slice:
  assumes "reads 0 f bs v" and "length bs = n" and "n < 2 ^ 32"
    and moved: "\<And>r v r'. f r = Inr (v, r') \<Longrightarrow> strictly_forward r r'"
    and h: "\<And>r. h r = (let start = pos r in bind_result (f r) (\<lambda>(_, r). bind_result (usize_add start n) (\<lambda>e.
            bind_result (buf_slice r start e) (\<lambda>raw. Inr (raw, r)))))"
  shows "reads d h bs bs"
proof (rule readsI)
  fix r rest
  assume r: "ample r" "room d r" "unread r = bs @ rest"
  have "room 0 r" using r(2) by (simp add: room_def)
  then obtain r' where 1: "f r = Inr (v, r')" "after r r' rest"
    using readsE [OF assms(1) r(1) _ r(3)] by blast
  have "buf r' = buf r"
    using forwardD(1) [OF strictly_forward_imp [OF moved [OF 1(1)]]] .
  moreover have "pos r + n \<le> length (buf r)" "pos r + n < 2 ^ 64"
    using r length_unread [of r] assms(2) by (auto simp: ample_def remaining_def)
  moreover have "take n (drop (pos r) (buf r)) = bs"
    using r(3) assms(2) by (simp add: unread_def)
  ultimately have "h r = Inr (bs, r')"
    using 1(1) by (simp add: h Let_def usize_add_ok buf_slice_def slice_ok)
  with 1(2) show "\<exists>r'. h r = Inr (bs, r') \<and> after r r' rest" by blast
qed

lemma reads_raw_length_delimited: "reads d (read_raw_value LengthDelimited) (length_delimited bs) (length_delimited bs)"
proof (rule readsI)
  fix r rest
  assume r: "ample r" "room d r" "unread r = length_delimited bs @ rest"
  then have u: "unread r = varint (word_of_nat (length bs)) @ (bs @ rest)"
    by (simp add: length_delimited_def)
  have "length bs < 2 ^ 63"
    using r(1) u length_unread [of r] by (auto simp: ample_def remaining_def)
  then have n: "unat (word_of_nat (length bs) :: u64) = length bs"
    by (simp add: unat_of_nat)
  obtain r1 where 1: "read_varint r = Inr (word_of_nat (length bs), r1)" "after r r1 (bs @ rest)"
    by (rule readsE [OF reads_varint r(1,2) u])
  have same: "buf r1 = buf r" "bytes_read r \<le> bytes_read r1" "pos r \<le> pos r1"
    using read_varint_moved [OF 1(1)] by (auto simp: strictly_forward_def moved_def)
  have am: "ample r1" and u1: "unread r1 = bs @ rest"
    using 1(2) by (simp_all add: after_def)
  have le: "length bs \<le> remaining r1"
    using u1 length_unread [of r1] by simp
  let ?e = "pos r1 + length bs"
  let ?r2 = "r1\<lparr>pos := ?e\<rparr>"
  have e: "?e \<le> length (buf r1)" "?e < 2 ^ 64"
    using am le by (auto simp: ample_def remaining_def)
  have w: "within (max_length_delimited (limits r1)) (length bs)"
    using am le by (auto simp: ample_def intro: within_mono)
  have "length (unread r) = length (length_delimited bs) + length rest"
    "length (unread r1) = length bs + length rest"
    using r(3) u1 by simp_all
  then have d: "?e - pos r = length (length_delimited bs)"
    using same e(1) am by (auto simp: length_unread remaining_def ample_def)
  have "take (?e - pos r) (drop (pos r) (buf r)) = length_delimited bs"
    using r(3) unfolding d unread_def by simp
  then have "read_raw_value LengthDelimited r = Inr (length_delimited bs, ?r2)"
    using 1(1) n w e same by (simp add: read_raw_value_def Let_def check_eq usize_add_ok buf_slice_def slice_ok set_pos_def)
  moreover have "ample ?r2"
    using am e le by (intro ample_shrink [OF am]) (auto simp: ample_def remaining_def)
  then have "after r ?r2 rest"
    using 1(2) u1 by (simp add: after_def unread_def add.commute [of "pos r1"] drop_drop [symmetric] del: drop_drop)
  ultimately show "\<exists>r'. read_raw_value LengthDelimited r = Inr (length_delimited bs, r') \<and> after r r' rest"
    by blast
qed

lemma reads_raw_value:
  assumes "wire_value 0 wt bs"
  shows "reads d (read_raw_value wt) bs bs"
  using assms
proof (cases rule: wire_value.cases)
  case (value_varint v)
  then show ?thesis
    using reads_map [OF reads_varint_raw [of d v], of snd]
    by (simp add: read_raw_value_def [abs_def] case_prod_unfold)
next
  case value_fixed64
  then show ?thesis
    using reads_exact [of bs 8 read_fixed64 of_le_bytes 0] read_fixed64_moved
    by (intro reads_buf_slice [of read_fixed64 bs _ 8]) (auto simp: read_raw_value_def read_fixed64_def)
next
  case value_fixed32
  then show ?thesis
    using reads_exact [of bs 4 read_fixed32 of_le_bytes 0] read_fixed32_moved
    by (intro reads_buf_slice [of read_fixed32 bs _ 4]) (auto simp: read_raw_value_def read_fixed32_def)
qed (simp_all add: reads_raw_length_delimited)

text \<open>
  A map entry as a list of fields: field number, wire type and raw value. \<open>entry_field fs n\<close>
  is the value of the last field numbered \<open>n\<close>.
\<close>

type_synonym raw_field = "u32 \<times> wire_type \<times> byte list"

fun raw_field_ok :: "raw_field \<Rightarrow> bool" where
  "raw_field_ok (f, wt, v) \<longleftrightarrow> 0 < f \<and> f < 2 ^ 29 \<and> wire_value 0 wt v"

fun raw_field_bytes :: "raw_field \<Rightarrow> byte list" where
  "raw_field_bytes (f, wt, v) = tag_bytes f wt @ v"

definition entry_bytes :: "raw_field list \<Rightarrow> byte list" where
  "entry_bytes fs = concat (map raw_field_bytes fs)"

definition entry_field :: "raw_field list \<Rightarrow> u32 \<Rightarrow> byte list option" where
  "entry_field fs n = map_of (rev (map (\<lambda>(f, wt, v). (f, v)) fs)) n"

fun entry_update :: "byte list option \<times> byte list option \<Rightarrow> raw_field \<Rightarrow> byte list option \<times> byte list option" where
  "entry_update kv (f, wt, v) =
     (if f = 1 then (Some v, snd kv) else if f = 2 then (fst kv, Some v) else kv)"

lemma foldl_entry_update:
  "foldl entry_update (None, None) fs = (entry_field fs 1, entry_field fs 2)"
proof (induction fs rule: rev_induct)
  case (snoc x fs)
  then show ?case by (cases x) (auto simp: entry_field_def)
qed (simp add: entry_field_def)

lemma decodes_map_entry:
  assumes "list_all raw_field_ok fs"
  shows "decodes d (while_unread map_entry_step (None, None)) (entry_bytes fs) (entry_field fs 1, entry_field fs 2)"
proof -
  have "loops d map_entry_step kv (raw_field_bytes x) (entry_update kv x)" if "x \<in> set fs" for kv x
  proof -
    obtain f wt v where x: "x = (f, wt, v)" by (cases x)
    then have ok: "0 < f" "f < 2 ^ 29" "wire_value 0 wt v"
      using assms that by (auto simp: list_all_iff)
    have "reads d (map_entry_step kv) (tag_bytes f wt @ v) (entry_update kv x)"
      unfolding map_entry_step_def
      by (rule reads_bind [OF reads_tag [OF ok(1,2)]])
         (simp add: reads_map [OF reads_raw_value [OF ok(3)]] x)
    then show ?thesis by (intro loops_one) (simp_all add: x tag_bytes_not_Nil)
  qed
  then have "loops d map_entry_step (None, None) (concat (map raw_field_bytes fs)) (foldl entry_update (None, None) fs)"
    by (rule loops_concat)
  then show ?thesis
    unfolding entry_bytes_def foldl_entry_update by (rule decodes_loops)
qed

text \<open>
  Decoding a map entry takes the last key and the last value of the entry, ignores other
  fields, reads a missing value as empty and refuses an entry without a key; the raw values come
  back framed as they were on the wire, and the reader stands after the entry.
\<close>

lemma decode_map_entry_last_wins:
  assumes "list_all raw_field_ok fs" and "ample r" and "room 1 r"
    and "unread r = length_delimited (entry_bytes fs) @ rest"
  shows "case entry_field fs 1 of
      None \<Rightarrow> decode_map_entry r = Inl (Raised (MalformedInput ''map entry missing key''))
    | Some k \<Rightarrow> \<exists>r'. decode_map_entry r = Inr ((k, case entry_field fs 2 of None \<Rightarrow> [] | Some v \<Rightarrow> v), r')
        \<and> after r r' rest"
proof -
  let ?kv = "(entry_field fs 1, entry_field fs 2)"
  let ?f = "\<lambda>r. bind_result (read_length_delimited r) (\<lambda>(b, r1). bind_result (nested r1 b) (\<lambda>sub.
    bind_result (while_unread map_entry_step (None, None) sub) (\<lambda>(kv, _). Inr (kv, r1))))"
  have rm: "room (Suc 0) r" using assms(3) by simp
  obtain r' where r': "?f r = Inr (?kv, r')" "after r r' rest"
    by (rule readsE [OF reads_payload_return [OF decodes_map_entry [OF assms(1)] refl] assms(2) rm assms(4)])
  have "decode_map_entry_frames r = bind_result (?f r) (\<lambda>(kv, r). case fst kv of
      None \<Rightarrow> Inl (Raised (MalformedInput ''map entry missing key''))
    | Some key \<Rightarrow> Inr ((key, case snd kv of None \<Rightarrow> [] | Some v \<Rightarrow> v), r))"
    by (auto simp: decode_map_entry_frames_def bind_result_assoc case_prod_unfold
        intro!: bind_result_cong split: option.split)
  then show ?thesis
    using r' by (simp add: decode_map_entry_def split: option.splits)
qed

lemma decode_map_entry_last_wins_witness:
  "\<exists>r'. decode_map_entry (Reader_new (length_delimited (entry_bytes
       [(2, Varint, varint 5), (1, Varint, varint 7), (2, Varint, varint 6)]))) = Inr ((varint 7, varint 6), r')"
proof -
  let ?fs = "[(2, Varint, varint 5), (1, Varint, varint 7), (2, Varint, varint 6)] :: raw_field list"
  have ok: "list_all raw_field_ok ?fs"
    by (simp add: wire_value_wire_group.value_varint)
  have "length (length_delimited (entry_bytes ?fs)) \<le> 1000000"
    using length_varint_le_10 [of "tag_raw 1 Varint"] length_varint_le_10 [of "tag_raw 2 Varint"]
      length_varint_le_10 [of "word_of_nat (length (entry_bytes ?fs))"]
    by (simp add: length_delimited_def entry_bytes_def tag_bytes_def varint_small)
  note a = ample_new [OF this]
  have "room 1 (Reader_new (length_delimited (entry_bytes ?fs)))"
    using a by (auto intro: room_mono [of 100])
  from decode_map_entry_last_wins [OF ok _ this, of "[]"] a show ?thesis
    by (auto simp: entry_field_def)
qed

lemma sound_decode_map_entry_frames: "sound_step n decode_map_entry_frames"
proof -
  have k: "sound n (\<lambda>r. case fst kv of None \<Rightarrow> Inl (Raised e) | Some key \<Rightarrow> Inr ((key, h kv), r))" for kv e h
    by (cases "fst kv") (auto intro!: sound_rules)
  show ?thesis
    unfolding decode_map_entry_frames_def by (intro sound_step_payload k sound_rules)
qed

lemma sound_decode_map_entry: "sound_step n decode_map_entry"
proof -
  have eq: "decode_map_entry = (\<lambda>r. bind_result (decode_map_entry_frames r) (\<lambda>(kv, r). Inr (kv, r)))"
    by (simp add: fun_eq_iff decode_map_entry_def case_prod_unfold)
  show ?thesis by (subst eq) (intro sound_rules sound_decode_map_entry_frames)
qed

end
