(* ===== verification/Ordered_Map.thy ===== *)
theory Ordered_Map
  imports Prelude "HOL-Library.Multiset"
begin

text \<open>
  \<open>BTreeMap\<close>: what the components rely on is stated as the locale \<open>ordered_map\<close>; the model's
  maps are association lists in strictly ascending key order, which interpret it. Strings are
  ordered byte by byte, as Rust orders them.
\<close>

section \<open>Sorted association lists\<close>

type_synonym ('k, 'v) omap = "('k \<times> 'v) list"

fun om_alter :: "'k::linorder \<Rightarrow> ('v option \<Rightarrow> 'v) \<Rightarrow> ('k, 'v) omap \<Rightarrow> ('k, 'v) omap" where
  "om_alter k f [] = [(k, f None)]"
| "om_alter k f ((k', v) # m) =
     (if k < k' then (k, f None) # (k', v) # m
      else if k = k' then (k', f (Some v)) # m
      else (k', v) # om_alter k f m)"

definition om_insert :: "'k::linorder \<Rightarrow> 'v \<Rightarrow> ('k, 'v) omap \<Rightarrow> ('k, 'v) omap" where
  "om_insert k v m = om_alter k (\<lambda>_. v) m"

definition om_lookup :: "('k::linorder, 'v) omap \<Rightarrow> 'k \<Rightarrow> 'v option" where
  "om_lookup m = map_of m"

definition om_remove :: "'k::linorder \<Rightarrow> ('k, 'v) omap \<Rightarrow> ('k, 'v) omap" where
  "om_remove k m = filter (\<lambda>(k', v). k' \<noteq> k) m"

definition om_ok :: "('k::linorder, 'v) omap \<Rightarrow> bool" where
  "om_ok m \<longleftrightarrow> sorted_wrt (<) (map fst m)"

lemma om_ok_Nil [simp]: "om_ok []"
  by (simp add: om_ok_def)

lemma om_ok_Cons: "om_ok ((k, v) # m) \<longleftrightarrow> om_ok m \<and> (\<forall>k' \<in> fst ` set m. k < k')"
  by (auto simp: om_ok_def)

lemma keys_om_alter: "fst ` set (om_alter k f m) = insert k (fst ` set m)"
  by (induction k f m rule: om_alter.induct) auto

lemma om_ok_alter: "om_ok m \<Longrightarrow> om_ok (om_alter k f m)"
proof (induction k f m rule: om_alter.induct)
  case (2 k f k' v m)
  then show ?case
    by (auto simp: om_ok_Cons keys_om_alter)
qed (simp add: om_ok_def)

lemma map_of_om_alter:
  "om_ok m \<Longrightarrow> map_of (om_alter k f m) = (map_of m)(k \<mapsto> f (map_of m k))"
proof (induction k f m rule: om_alter.induct)
  case (2 k f k' v m)
  have "map_of m k = None" if "k < k'"
    using "2.prems" that by (auto simp: om_ok_Cons map_of_eq_None_iff)
  then show ?case
    using 2 by (auto simp: om_ok_Cons fun_eq_iff)
qed (simp add: fun_eq_iff)

lemma map_of_om_remove: "map_of (om_remove k m) = (map_of m)(k := None)"
  by (induction m) (auto simp: om_remove_def fun_eq_iff)

lemma om_ok_remove: "om_ok m \<Longrightarrow> om_ok (om_remove k m)"
  by (induction m) (auto simp: om_remove_def om_ok_def)

section \<open>The interface\<close>

locale ordered_map =
  fixes ok :: "'m \<Rightarrow> bool"
    and empty :: 'm
    and alter :: "'k::linorder \<Rightarrow> ('v option \<Rightarrow> 'v) \<Rightarrow> 'm \<Rightarrow> 'm"
    and lookup :: "'m \<Rightarrow> 'k \<Rightarrow> 'v option"
    and entries :: "'m \<Rightarrow> ('k \<times> 'v) list"
  assumes empty_ok: "ok empty" and lookup_empty: "lookup empty k = None"
    and alter_ok: "ok m \<Longrightarrow> ok (alter k f m)"
    and lookup_alter: "ok m \<Longrightarrow> lookup (alter k f m) k' = (if k' = k then Some (f (lookup m k)) else lookup m k')"
    and entries_sorted: "ok m \<Longrightarrow> sorted_wrt (<) (map fst (entries m))"
    and entries_lookup: "ok m \<Longrightarrow> map_of (entries m) = lookup m"
begin

lemma entries_distinct: "ok m \<Longrightarrow> distinct (map fst (entries m))"
  using entries_sorted strict_sorted_iff by blast

lemma entries_mem: "ok m \<Longrightarrow> (k, v) \<in> set (entries m) \<longleftrightarrow> lookup m k = Some v"
  by (simp add: entries_distinct map_of_eq_Some_iff [symmetric] entries_lookup)

lemma entries_unique:
  assumes "ok m" and "ok m'" and "\<And>k. lookup m k = lookup m' k"
  shows "entries m = entries m'"
proof -
  have "set (entries m) = set (entries m')"
    using assms entries_mem by auto
  then have "set (map fst (entries m)) = set (map fst (entries m'))" by simp
  then have k: "map fst (entries m) = map fst (entries m')"
    by (intro strict_sorted_equal entries_sorted assms)
  have e: "entries n = map (\<lambda>k. (k, the (lookup n k))) (map fst (entries n))" if "ok n" for n
  proof -
    have "(fst p, the (lookup n (fst p))) = p" if "p \<in> set (entries n)" for p
      using entries_mem [OF \<open>ok n\<close>, of "fst p" "snd p"] that by simp
    then have "map (\<lambda>p. (fst p, the (lookup n (fst p)))) (entries n) = entries n"
      by (rule map_idI)
    then show ?thesis by (simp add: comp_def)
  qed
  have "entries m = map (\<lambda>k. (k, the (lookup m k))) (map fst (entries m))"
    by (rule e [OF assms(1)])
  also have "\<dots> = map (\<lambda>k. (k, the (lookup m' k))) (map fst (entries m'))"
    by (simp only: k assms(3))
  also have "\<dots> = entries m'"
    by (rule e [OF assms(2), symmetric])
  finally show ?thesis .
qed

end

interpretation om: ordered_map om_ok "[]" om_alter om_lookup "\<lambda>m. m"
  by unfold_locales (auto simp: om_lookup_def om_ok_alter map_of_om_alter om_ok_def [symmetric])

lemma om_lookup_insert: "om_ok m \<Longrightarrow> om_lookup (om_insert k v m) k' = (if k' = k then Some v else om_lookup m k')"
  by (simp add: om_insert_def om.lookup_alter)

lemma om_ok_insert: "om_ok m \<Longrightarrow> om_ok (om_insert k v m)"
  by (simp add: om_insert_def om.alter_ok)

section \<open>Maps to lists\<close>

text \<open>
  A map from keys to lists of values, iterated in key order: \<open>flat m\<close> are its (key, value)
  pairs. Pushing values one by one is a stable sort by key.
\<close>

definition flat :: "('k::linorder, 'v list) omap \<Rightarrow> ('k \<times> 'v) list" where
  "flat m = concat (map (\<lambda>(k, vs). map (Pair k) vs) m)"

definition or_empty :: "'v list option \<Rightarrow> 'v list" where
  "or_empty x = (case x of None \<Rightarrow> [] | Some vs \<Rightarrow> vs)"

lemma or_empty_simps [simp]: "or_empty None = []" "or_empty (Some vs) = vs"
  by (simp_all add: or_empty_def)

lemma flat_Nil [simp]: "flat [] = []"
  by (simp add: flat_def)

lemma flat_Cons [simp]: "flat ((k, vs) # m) = map (Pair k) vs @ flat m"
  by (simp add: flat_def)

lemma fst_flat: "fst ` set (flat m) \<subseteq> fst ` set m"
proof (induction m)
  case (Cons x m)
  then show ?case by (cases x) (auto simp: image_iff)
qed simp

lemma sorted_flat: "om_ok m \<Longrightarrow> sorted (map fst (flat m))"
proof (induction m)
  case (Cons x m)
  obtain k vs where x: "x = (k, vs)" by (cases x)
  have "k \<le> k'" if "k' \<in> fst ` set (flat m)" for k'
    using Cons.prems fst_flat that by (fastforce simp: x om_ok_Cons)
  then show ?case
    using Cons by (auto simp: x om_ok_Cons sorted_append comp_def map_replicate_const)
qed simp

lemma filter_flat: "om_ok m \<Longrightarrow> filter (\<lambda>p. fst p = k) (flat m) = map (Pair k) (or_empty (om_lookup m k))"
proof (induction m)
  case (Cons x m)
  obtain k' vs where x: "x = (k', vs)" by (cases x)
  have "map_of m k = None" if "k = k'"
    using Cons.prems that by (auto simp: x om_ok_Cons map_of_eq_None_iff)
  then show ?case
    using Cons by (auto simp: x om_ok_Cons om_lookup_def filter_empty_conv comp_def)
qed (simp add: om_lookup_def)

lemma flat_push:
  assumes "om_ok m"
  shows "filter (\<lambda>p. fst p = k) (flat (om_alter k' (\<lambda>x. or_empty x @ vs) m))
    = filter (\<lambda>p. fst p = k) (flat m) @ (if k = k' then map (Pair k) vs else [])"
  using assms by (simp add: filter_flat om.alter_ok om.lookup_alter)

lemma flat_is_stable_sort:
  assumes "om_ok m" and "\<And>k. filter (\<lambda>p. fst p = k) (flat m) = filter (\<lambda>p. fst p = k) xs"
  shows "flat m = sort_key fst xs"
proof (rule properties_for_sort_key [symmetric])
  show "mset (flat m) = mset xs"
  proof (rule multiset_eqI)
    fix p
    have "count (mset ys) p = length (filter (\<lambda>q. q = p) (filter (\<lambda>q. fst q = fst p) ys))" for ys :: "('a \<times> 'b) list"
      by (induction ys) auto
    then show "count (mset (flat m)) p = count (mset xs) p"
      by (simp only: assms(2))
  qed
  show "filter (\<lambda>x. fst p = fst x) (flat m) = filter (\<lambda>x. fst p = fst x) xs" for p
    using assms(2) [of "fst p"] by (simp add: eq_commute)
qed (rule sorted_flat [OF assms(1)])

end
