(* ===== verification/Unknown.thy ===== *)
theory Unknown
  imports Packed Ordered_Map
begin

text \<open>
  Unknown-field storage (\<open>tpt-proto-core/src/unknown.rs\<close>): values kept per field number, in
  ascending order, with an encoded size maintained on every change. The size is a natural
  number: each stored value takes more memory than its share of it, so the \<open>usize\<close> of the code
  cannot overflow before memory is exhausted.
\<close>

section \<open>Definitions\<close>

datatype unknown_value = UVarint u64 | UFixed32 u32 | UFixed64 u64 | ULengthDelimited "byte list"

record unknown_fields =
  ufields :: "(u32, unknown_value list) omap"
  total_len :: nat

definition unknown_new :: unknown_fields where
  "unknown_new = \<lparr>ufields = [], total_len = 0\<rparr>"

definition unknown_is_empty :: "unknown_fields \<Rightarrow> bool" where
  "unknown_is_empty u \<longleftrightarrow> ufields u = []"

definition unknown_len :: "unknown_fields \<Rightarrow> nat" where
  "unknown_len u = length (ufields u)"

definition encoded_len :: "unknown_fields \<Rightarrow> nat" where
  "encoded_len u = total_len u"

function varint_len_loop :: "u64 \<Rightarrow> nat \<Rightarrow> nat" where
  "varint_len_loop v n = (if v < 0x80 then n else varint_len_loop (drop_bit 7 v) (n + 1))"
  by pat_completeness auto
termination
  by (relation "measure (\<lambda>(v, n). unat v)") (auto intro: unat_drop_bit_less)

declare varint_len_loop.simps [simp del]

definition tag_len :: "u32 \<Rightarrow> nat" where
  "tag_len field = varint_len_loop (ucast (push_bit 3 field OR ucast (WireType_as_u8 Varint))) 1"

definition varint_len :: "u64 \<Rightarrow> nat" where
  "varint_len v = varint_len_loop v 1"

fun value_len :: "unknown_value \<Rightarrow> nat" where
  "value_len (UVarint x) = varint_len x"
| "value_len (UFixed32 x) = 4"
| "value_len (UFixed64 x) = 8"
| "value_len (ULengthDelimited b) = varint_len (word_of_nat (length b)) + length b"

definition unknown_insert :: "u32 \<Rightarrow> unknown_value \<Rightarrow> unknown_fields \<Rightarrow> unknown_fields" where
  "unknown_insert f v u =
     u\<lparr>total_len := total_len u + (tag_len f + value_len v),
       ufields := om_alter f (\<lambda>x. or_empty x @ [v]) (ufields u)\<rparr>"

definition read_unknown_value :: "wire_type \<Rightarrow> reader \<Rightarrow> (unknown_value \<times> reader) core_res" where
  "read_unknown_value wt r = (case wt of
      Varint \<Rightarrow> bind_result (read_varint r) (\<lambda>(v, r). Inr (UVarint v, r))
    | Fixed64 \<Rightarrow> bind_result (read_fixed64 r) (\<lambda>(v, r). Inr (UFixed64 v, r))
    | LengthDelimited \<Rightarrow> bind_result (read_length_delimited r) (\<lambda>(b, r). Inr (ULengthDelimited b, r))
    | StartGroup \<Rightarrow> Inl (Raised (UnexpectedWireType (WireType_as_u8 wt)))
    | EndGroup \<Rightarrow> Inl (Raised (UnexpectedWireType (WireType_as_u8 wt)))
    | Fixed32 \<Rightarrow> bind_result (read_fixed32 r) (\<lambda>(v, r). Inr (UFixed32 v, r)))"

definition unknown_store :: "unknown_fields \<Rightarrow> tag \<Rightarrow> reader \<Rightarrow> (unknown_fields \<times> reader) core_res" where
  "unknown_store u t r =
     bind_result (read_unknown_value (wire_type t) r) (\<lambda>(v, r).
       let u' = unknown_insert (field_number t) v u in
       bind_result (check_unknown (limits r) (encoded_len u')) (\<lambda>_. Inr (u', r)))"

fun write_value :: "writer \<Rightarrow> u32 \<Rightarrow> unknown_value \<Rightarrow> ('e, writer) res" where
  "write_value w field (UVarint x) =
     bind_result (write_tag w field Varint) (\<lambda>w. Inr (write_varint w x))"
| "write_value w field (UFixed32 x) =
     bind_result (write_tag w field Fixed32) (\<lambda>w. Inr (write_fixed32 w x))"
| "write_value w field (UFixed64 x) =
     bind_result (write_tag w field Fixed64) (\<lambda>w. Inr (write_fixed64 w x))"
| "write_value w field (ULengthDelimited b) =
     bind_result (write_tag w field LengthDelimited) (\<lambda>w. Inr (write_length_delimited w b))"

fun write_values :: "u32 \<Rightarrow> unknown_value list \<Rightarrow> writer \<Rightarrow> ('e, writer) res" where
  "write_values field [] w = Inr w"
| "write_values field (v # vs) w = bind_result (write_value w field v) (write_values field vs)"

fun write_fields :: "(u32, unknown_value list) omap \<Rightarrow> writer \<Rightarrow> ('e, writer) res" where
  "write_fields [] w = Inr w"
| "write_fields ((field, vs) # m) w = bind_result (write_values field vs w) (write_fields m)"

definition unknown_encode :: "unknown_fields \<Rightarrow> writer \<Rightarrow> ('e, writer) res" where
  "unknown_encode u w = write_fields (ufields u) w"

definition unknown_iter :: "unknown_fields \<Rightarrow> (u32 \<times> unknown_value) list" where
  "unknown_iter u = concat (map (\<lambda>(f, vs). map (\<lambda>v. (f, v)) vs) (ufields u))"

definition merge_field :: "u32 \<times> unknown_value list \<Rightarrow> unknown_fields \<Rightarrow> unknown_fields" where
  "merge_field fvs u = (case fvs of (f, vs) \<Rightarrow>
     u\<lparr>total_len := total_len u + sum_list (map (\<lambda>v. tag_len f + value_len v) vs),
       ufields := om_alter f (\<lambda>x. or_empty x @ vs) (ufields u)\<rparr>)"

definition unknown_merge :: "unknown_fields \<Rightarrow> unknown_fields \<Rightarrow> unknown_fields" where
  "unknown_merge u other = fold merge_field (ufields other) u"

section \<open>Sizes\<close>

lemma varint_len_loop_eq: "varint_len_loop v n + 1 = n + length (varint v)"
proof (induction v n rule: varint_len_loop.induct)
  case (1 v n)
  then show ?case
    by (cases "v < 0x80") (simp_all add: varint_len_loop.simps [of v n] varint_small varint_big not_less)
qed

lemma varint_len_eq: "varint_len v = length (varint v)"
  using varint_len_loop_eq [of v 1] by (simp add: varint_len_def)

fun wire_of :: "unknown_value \<Rightarrow> wire_type" where
  "wire_of (UVarint x) = Varint"
| "wire_of (UFixed32 x) = Fixed32"
| "wire_of (UFixed64 x) = Fixed64"
| "wire_of (ULengthDelimited b) = LengthDelimited"

fun payload_of :: "unknown_value \<Rightarrow> byte list" where
  "payload_of (UVarint x) = varint x"
| "payload_of (UFixed32 x) = le_bytes 4 x"
| "payload_of (UFixed64 x) = le_bytes 8 x"
| "payload_of (ULengthDelimited b) = length_delimited b"

fun value_bytes :: "u32 \<times> unknown_value \<Rightarrow> byte list" where
  "value_bytes (f, v) = tag_bytes f (wire_of v) @ payload_of v"

lemma length_varint_high:
  assumes "drop_bit 7 a = drop_bit 7 b"
  shows "length (varint a) = length (varint b)"
proof -
  have small: "v < 0x80 \<longleftrightarrow> drop_bit 7 v = 0" for v :: u64
  proof -
    have "drop_bit 7 v = 0 \<longleftrightarrow> unat (drop_bit 7 v) = 0"
      by (rule unsigned_eq_0_iff [symmetric])
    also have "\<dots> \<longleftrightarrow> unat v < 128"
      unfolding unat_drop_bit_div by (simp add: div_eq_0_iff)
    finally show ?thesis
      by (simp add: word_less_nat_alt)
  qed
  show ?thesis
    using small [of a] small [of b] assms
    by (cases "a < 0x80") (simp_all add: varint_small varint_big not_less)
qed

lemma length_tag_bytes_wire: "length (tag_bytes f wt) = length (tag_bytes f Varint)"
proof -
  have "drop_bit 7 (tag_raw f wt) = drop_bit 7 (tag_raw f Varint)"
    by (rule bit_word_eqI) (auto simp: tag_raw_def bit_simps dest: bit_WireType_as_u8)
  then show ?thesis
    unfolding tag_bytes_def by (rule length_varint_high)
qed

lemma tag_len_eq: "tag_len f = length (tag_bytes f wt)"
  unfolding length_tag_bytes_wire [of f wt]
  using varint_len_loop_eq [of "tag_raw f Varint" 1] by (simp add: tag_len_def tag_bytes_def tag_raw_def)

lemma length_value_bytes: "length (value_bytes (f, v)) = tag_len f + value_len v"
  by (cases v) (simp_all add: tag_len_eq [symmetric] varint_len_eq length_delimited_def)

declare value_bytes.simps [simp del]

section \<open>The set as a stably sorted list of values\<close>

definition unknown_ok :: "unknown_fields \<Rightarrow> bool" where
  "unknown_ok u \<longleftrightarrow> om_ok (ufields u) \<and> 0 \<notin> fst ` set (ufields u)
     \<and> total_len u = sum_list (map (length \<circ> value_bytes) (flat (ufields u)))"

lemma unknown_iter_eq: "unknown_iter u = flat (ufields u)"
  by (simp add: unknown_iter_def flat_def)

lemma unknown_ok_new: "unknown_ok unknown_new"
  by (simp add: unknown_ok_def unknown_new_def)

lemma sum_flat_push:
  assumes "om_ok m"
  shows "sum_list (map g (flat (om_alter f (\<lambda>x. or_empty x @ vs) m)))
    = sum_list (map g (flat m)) + sum_list (map (\<lambda>v. g (f, v)) vs :: nat list)"
  using assms
proof (induction f "\<lambda>x. or_empty x @ vs" m rule: om_alter.induct)
  case (2 k k' v m)
  then show ?case
    by (auto simp: om_ok_Cons comp_def)
qed (simp add: comp_def)

lemma sum_value_bytes: "sum_list (map (length \<circ> value_bytes \<circ> Pair f) vs) = sum_list (map (\<lambda>v. tag_len f + value_len v) vs)"
  by (simp add: comp_def length_value_bytes)

lemma merge_field_ok:
  assumes "unknown_ok u" and "f \<noteq> 0"
  shows "unknown_ok (merge_field (f, vs) u)"
  using assms sum_flat_push [of "ufields u" "length \<circ> value_bytes" f vs]
  by (simp add: unknown_ok_def merge_field_def om.alter_ok keys_om_alter comp_def length_value_bytes)

lemma unknown_insert_merge_field: "unknown_insert f v u = merge_field (f, [v]) u"
  by (simp add: unknown_insert_def merge_field_def)

lemma unknown_insert_ok: "unknown_ok u \<Longrightarrow> f \<noteq> 0 \<Longrightarrow> unknown_ok (unknown_insert f v u)"
  by (simp add: unknown_insert_merge_field merge_field_ok)

lemma unknown_merge_ok:
  assumes "unknown_ok u" and "unknown_ok other"
  shows "unknown_ok (unknown_merge u other)"
proof -
  have "0 \<notin> fst ` set m \<Longrightarrow> unknown_ok (fold merge_field m u)" for m
    using assms(1)
  proof (induction m arbitrary: u)
    case (Cons x m)
    then show ?case by (cases x) (simp add: merge_field_ok)
  qed simp
  then show ?thesis
    using assms(2) by (simp add: unknown_merge_def unknown_ok_def)
qed

lemma unknown_store_ok:
  assumes "unknown_ok u" and "field_number t \<noteq> 0" and "unknown_store u t r = Inr (u', r')"
  shows "unknown_ok u'"
  using assms unknown_insert_ok
  by (auto simp: unknown_store_def bind_result_eq_Inr Let_def)

section \<open>Encoding\<close>

lemma write_value_eq: "f \<noteq> 0 \<Longrightarrow> write_value w f v = Inr (emit w (value_bytes (f, v)))"
  by (cases v) (simp_all add: buffer_simps value_bytes.simps)

lemma write_values_eq: "f \<noteq> 0 \<Longrightarrow> write_values f vs w = Inr (emit w (concat (map (value_bytes \<circ> Pair f) vs)))"
  by (induction vs arbitrary: w) (simp_all add: write_value_eq)

lemma write_fields_eq:
  "0 \<notin> fst ` set m \<Longrightarrow> write_fields m w = Inr (emit w (concat (map value_bytes (flat m))))"
proof (induction m arbitrary: w)
  case (Cons x m)
  then show ?case by (cases x) (simp add: write_values_eq)
qed simp

lemma unknown_encode_eq:
  "unknown_ok u \<Longrightarrow> unknown_encode u w = Inr (emit w (concat (map value_bytes (flat (ufields u)))))"
  by (simp add: unknown_encode_def write_fields_eq unknown_ok_def)

lemma length_unknown_bytes:
  "unknown_ok u \<Longrightarrow> length (concat (map value_bytes (flat (ufields u)))) = encoded_len u"
  by (simp add: unknown_ok_def encoded_len_def length_concat comp_def)

section \<open>Sets a client can build\<close>

inductive built :: "unknown_fields \<Rightarrow> bool" where
  built_new: "built unknown_new"
| built_insert: "built u \<Longrightarrow> f \<noteq> 0 \<Longrightarrow> built (unknown_insert f v u)"
| built_store: "built u \<Longrightarrow> read_tag r0 = Inr (t, r) \<Longrightarrow> unknown_store u t r = Inr (u', r') \<Longrightarrow> built u'"
| built_merge: "built u \<Longrightarrow> built other \<Longrightarrow> built (unknown_merge u other)"

lemma built_ok: "built u \<Longrightarrow> unknown_ok u"
proof (induction rule: built.induct)
  case (built_store u r0 t r u' r')
  then show ?case
    using unknown_store_ok read_tag_moved(2) by blast
qed (simp_all add: unknown_ok_new unknown_insert_ok unknown_merge_ok)

text \<open>
  C10: The incrementally maintained size is exact: for every set built by inserting, storing from
  a reader and merging, encoding succeeds and appends exactly \<open>encoded_len\<close> bytes. This is what
  makes the \<open>max_unknown_bytes\<close> check, which only looks at the counter, a bound on memory.
\<close>

theorem unknown_encoded_len_exact:
  assumes "built u"
  shows "\<exists>bytes. (\<forall>w. unknown_encode u w = Inr (emit w bytes)) \<and> length bytes = encoded_len u"
  using built_ok [OF assms] unknown_encode_eq length_unknown_bytes by blast

theorem unknown_encoded_len_exact_witness:
  "\<exists>bytes. (\<forall>w. unknown_encode (unknown_insert 9 (UFixed32 7) (unknown_insert 5 (UVarint 1) unknown_new)) w
      = Inr (emit w bytes))
    \<and> length bytes = encoded_len (unknown_insert 9 (UFixed32 7) (unknown_insert 5 (UVarint 1) unknown_new))"
  by (rule unknown_encoded_len_exact) (intro built_insert built_new; simp)

section \<open>Passthrough\<close>

definition store_step :: "unknown_fields \<Rightarrow> reader \<Rightarrow> (unknown_fields \<times> reader) core_res" where
  "store_step u r = bind_result (read_tag r) (\<lambda>(t, r). unknown_store u t r)"

lemma sound_unknown_store [sound_rules]: "sound n (unknown_store u t)"
proof -
  have "sound n (read_unknown_value (wire_type t))"
    unfolding read_unknown_value_def by (intro sound_rules)
  moreover have "sound n (\<lambda>r. bind_result (check_unknown (limits r) m) (\<lambda>_. Inr (u', r)))" for m u'
    by (auto simp: check_eq intro!: soundI forward_refl split: if_splits)
  ultimately show ?thesis
    unfolding unknown_store_def Let_def by (intro sound_bind) auto
qed

lemma sound_store_step [sound_rules]: "sound_step n (store_step u)"
  unfolding store_step_def by (intro sound_step_bind sound_rules)

lemma reads_unknown_value: "reads d (read_unknown_value (wire_of v)) (payload_of v) v"
  by (cases v) (auto simp: read_unknown_value_def [abs_def] intro!: reads_map reads_varint reads_fixed32
      reads_fixed64 reads_length_delimited)

lemma store_step_reads:
  assumes r: "ample r" "room 0 r" "unread r = value_bytes (f, v) @ rest" and f: "0 < f" "f < 2 ^ 29"
    and w: "within (max_unknown_bytes (limits r)) (encoded_len (unknown_insert f v u))"
  obtains r' where "store_step u r = Inr (unknown_insert f v u, r')" and "after r r' rest"
proof -
  have u: "unread r = tag_bytes f (wire_of v) @ (payload_of v @ rest)"
    using r(3) by (simp add: value_bytes.simps)
  obtain r1 where 1: "read_tag r = Inr (\<lparr>field_number = f, wire_type = wire_of v\<rparr>, r1)"
      "after r r1 (payload_of v @ rest)"
    by (rule readsE [OF reads_tag [OF f] r(1,2) u])
  have r1: "ample r1" "room 0 r1" "unread r1 = payload_of v @ rest"
    using 1(2) r(2) by (simp_all add: after_def room_def)
  obtain r2 where 2: "read_unknown_value (wire_of v) r1 = Inr (v, r2)" "after r1 r2 rest"
    by (rule readsE [OF reads_unknown_value r1])
  have "limits r2 = limits r"
    using 1(2) 2(2) by (simp add: after_def)
  then have "store_step u r = Inr (unknown_insert f v u, r2)"
    using 1 2 w by (simp add: store_step_def unknown_store_def check_eq)
  moreover have "after r r2 rest"
    using 1(2) 2(2) by (rule after_trans)
  ultimately show thesis by (rule that)
qed

lemma encoded_len_insert: "encoded_len (unknown_insert f v u) = encoded_len u + length (value_bytes (f, v))"
  by (simp add: encoded_len_def unknown_insert_def length_value_bytes)

lemma store_loop:
  assumes "ample r" and "room 0 r" and "unread r = concat (map value_bytes fs)"
    and "\<forall>(f, v) \<in> set fs. 0 < f \<and> f < 2 ^ 29"
    and "within (max_unknown_bytes (limits r)) (encoded_len u + length (concat (map value_bytes fs)))"
  shows "\<exists>r'. while_unread store_step u r = Inr (fold (\<lambda>(f, v). unknown_insert f v) fs u, r')"
  using assms
proof (induction fs arbitrary: u r)
  case Nil
  then show ?case
    by (simp add: while_unread_unfold [OF sound_step_progressive [OF sound_store_step]] is_empty_unread)
next
  case (Cons x fs)
  obtain f v where x: "x = (f, v)" by (cases x)
  have u: "unread r = value_bytes (f, v) @ concat (map value_bytes fs)"
    and f: "0 < f" "f < 2 ^ 29" and ne: "\<not> is_empty r"
    using Cons.prems(3,4) by (auto simp: x is_empty_unread tag_bytes_not_Nil value_bytes.simps)
  have w: "within (max_unknown_bytes (limits r)) (encoded_len (unknown_insert f v u))"
    using Cons.prems(5) by (rule within_mono) (simp add: encoded_len_insert x)
  obtain r1 where 1: "store_step u r = Inr (unknown_insert f v u, r1)" "after r r1 (concat (map value_bytes fs))"
    by (rule store_step_reads [OF Cons.prems(1,2) u f w])
  have "\<exists>r'. while_unread store_step (unknown_insert f v u) r1 = Inr (fold (\<lambda>(f, v). unknown_insert f v) fs (unknown_insert f v u), r')"
  proof (rule Cons.IH)
    show "within (max_unknown_bytes (limits r1)) (encoded_len (unknown_insert f v u) + length (concat (map value_bytes fs)))"
      using Cons.prems(5) 1(2) by (simp add: encoded_len_insert x after_def add.assoc)
  qed (use 1(2) Cons.prems(2,4) in \<open>auto simp: after_def room_def\<close>)
  then show ?case
    using 1(1) ne by (simp add: while_unread_unfold [OF sound_step_progressive [OF sound_store_step]] x)
qed

lemma fold_insert:
  assumes "unknown_ok u" and "0 \<notin> fst ` set fs"
  shows "unknown_ok (fold (\<lambda>(f, v). unknown_insert f v) fs u)
    \<and> (\<forall>k. filter (\<lambda>p. fst p = k) (flat (ufields (fold (\<lambda>(f, v). unknown_insert f v) fs u)))
        = filter (\<lambda>p. fst p = k) (flat (ufields u)) @ filter (\<lambda>p. fst p = k) fs)"
  using assms
proof (induction fs arbitrary: u)
  case (Cons x fs)
  obtain f v where x: "x = (f, v)" by (cases x)
  have ok: "unknown_ok (unknown_insert f v u)"
    using Cons.prems by (auto simp: x intro: unknown_insert_ok)
  show ?case
    using Cons.IH [OF ok] Cons.prems flat_push [of "ufields u" _ f "[v]"]
    by (auto simp: x unknown_ok_def unknown_insert_def)
qed simp

text \<open>
  C11: Unknown fields pass through: a decode that stores every field of a message and then
  encodes the set emits the same fields with the same bytes, stably sorted by field number, so
  fields with distinct numbers in ascending order come back byte for byte.
\<close>

theorem unknown_passthrough:
  assumes "\<forall>(f, v) \<in> set fs. 0 < f \<and> f < 2 ^ 29" and "length (concat (map value_bytes fs)) \<le> 1000000"
  shows "\<exists>u r'. while_unread store_step unknown_new (Reader_new (concat (map value_bytes fs))) = Inr (u, r')
    \<and> unknown_encode u Writer_new = Inr (emit Writer_new (concat (map value_bytes (sort_key fst fs))))"
proof -
  let ?u = "fold (\<lambda>(f, v). unknown_insert f v) fs unknown_new"
  let ?r = "Reader_new (concat (map value_bytes fs))"
  have a: "ample ?r" "room 0 ?r" "unread ?r = concat (map value_bytes fs)"
    using ample_new [OF assms(2)] by (auto intro: room_mono)
  have "within (max_unknown_bytes (limits ?r)) (encoded_len unknown_new + length (concat (map value_bytes fs)))"
    using assms(2) by (simp add: Reader_new_def Reader_with_limits_def default_limits_def unknown_new_def encoded_len_def)
  then obtain r' where "while_unread store_step unknown_new ?r = Inr (?u, r')"
    using store_loop [OF a assms(1)] by blast
  moreover have "0 \<notin> fst ` set fs"
    using assms(1) by auto
  then have ok: "unknown_ok ?u" and "flat (ufields ?u) = sort_key fst fs"
    using fold_insert [OF unknown_ok_new, of fs]
    by (auto simp: unknown_ok_def unknown_new_def intro!: flat_is_stable_sort)
  then have "unknown_encode ?u Writer_new = Inr (emit Writer_new (concat (map value_bytes (sort_key fst fs))))"
    using unknown_encode_eq [OF ok, of Writer_new] by simp
  ultimately show ?thesis by blast
qed

theorem unknown_passthrough_witness:
  "\<exists>u r'. while_unread store_step unknown_new (Reader_new (concat (map value_bytes [(9, UFixed32 7), (5, UVarint 1)])))
      = Inr (u, r')
    \<and> unknown_encode u Writer_new = Inr (emit Writer_new (value_bytes (5, UVarint 1) @ value_bytes (9, UFixed32 7)))"
proof -
  have s: "sort_key fst [(9, UFixed32 7), (5, UVarint 1)] = [(5 :: u32, UVarint 1), (9, UFixed32 7)]"
    by simp
  show ?thesis
    using unknown_passthrough [of "[(9, UFixed32 7), (5, UVarint 1)]"] length_tag_bytes_10 [of 9 Fixed32]
      length_tag_bytes_10 [of 5 Varint] by (simp add: s varint_small value_bytes.simps)
qed

end
