(* ===== verification/Message.thy ===== *)
theory Message
  imports Unknown
begin

text \<open>
  The \<open>Message\<close> contract (\<open>tpt-proto-core/src/message.rs\<close>). The trait's required methods are
  parameters of its provided methods \<open>decode\<close> and \<open>encode_to_vec\<close>; what an implementation owes
  is the locale \<open>message\<close>. \<open>field_message\<close> is the contract of the implementations whose
  \<open>merge_from\<close> is the standard field loop; it gives \<open>message\<close>, and that fields the message
  does not know are skipped.
\<close>

datatype unknown_field_policy = Preserve | Discard | FailUnknown

definition default_policy :: unknown_field_policy where
  "default_policy = Preserve"

record deterministic_config =
  det_enabled :: bool
  canonical_varints :: bool

definition default_deterministic :: deterministic_config where
  "default_deterministic = \<lparr>det_enabled = False, canonical_varints = False\<rparr>"

section \<open>Provided methods\<close>

definition decode :: "'m \<Rightarrow> ('m \<Rightarrow> reader \<Rightarrow> ('m \<times> reader) core_res) \<Rightarrow> byte list \<Rightarrow> 'm core_res" where
  "decode empty_msg merge bs =
     bind_result (merge empty_msg (Reader_with_limits bs default_limits)) (\<lambda>(m, r).
       if \<not> is_empty r then Inl (Raised (MalformedInput ''trailing bytes after message'')) else Inr m)"

definition encode_to_vec :: "('m \<Rightarrow> writer \<Rightarrow> writer core_res) \<Rightarrow> 'm \<Rightarrow> byte list core_res" where
  "encode_to_vec encode m = bind_result (encode m Writer_new) (\<lambda>w. Inr (into_vec w))"

definition decode_with_limits ::
  "'m \<Rightarrow> ('m \<Rightarrow> reader \<Rightarrow> ('m \<times> reader) core_res) \<Rightarrow> byte list \<Rightarrow> decoder_limits \<Rightarrow> 'm core_res" where
  "decode_with_limits empty_msg merge bs l =
     bind_result (merge empty_msg (Reader_with_limits bs l)) (\<lambda>(m, r). Inr m)"

section \<open>The contract\<close>

text \<open>
  \<open>bytes m\<close> is the encoding of \<open>m\<close> and \<open>levels m\<close> the nesting levels its decoding enters.
  \<open>ok\<close> excludes what the Rust types exclude: a \<open>String\<close> that is not UTF-8, a map with a
  duplicate key.
\<close>

locale message =
  fixes ok :: "'m \<Rightarrow> bool"
    and levels :: "'m \<Rightarrow> nat"
    and bytes :: "'m \<Rightarrow> byte list"
    and empty_msg :: 'm
    and encode :: "'m \<Rightarrow> writer \<Rightarrow> writer core_res"
    and merge :: "'m \<Rightarrow> reader \<Rightarrow> ('m \<times> reader) core_res"
  assumes encode_eq: "ok m \<Longrightarrow> encode m w = Inr (emit w (bytes m))"
    and merge_decodes: "ok m \<Longrightarrow> decodes (levels m) (merge empty_msg) (bytes m) m"
    and merge_sound: "sound n (merge m)"
begin

lemma encode_to_vec_eq: "ok m \<Longrightarrow> encode_to_vec encode m = Inr (bytes m)"
  by (simp add: encode_to_vec_def encode_eq)

lemma decode_eq:
  assumes "ok m" and "levels m \<le> 100" and "length (bytes m) \<le> 1000000"
  shows "decode empty_msg merge (bytes m) = Inr m"
proof -
  have a: "ample (Reader_new (bytes m))" "room (levels m) (Reader_new (bytes m))" "unread (Reader_new (bytes m)) = bytes m"
    using ample_new [OF assms(3)] assms(2) by (auto intro: room_mono)
  obtain r' where "merge empty_msg (Reader_new (bytes m)) = Inr (m, r')" "after (Reader_new (bytes m)) r' []"
    by (rule decodesE [OF merge_decodes [OF assms(1)] a])
  then show ?thesis
    by (simp add: decode_def Reader_new_def [symmetric] is_empty_unread after_def)
qed

lemma roundtrip:
  assumes "ok m" and "levels m \<le> 100" and "length (bytes m) \<le> 1000000"
  shows "bind_result (encode_to_vec encode m) (decode empty_msg merge) = Inr m"
  by (simp add: encode_to_vec_eq decode_eq assms)

lemma decode_total:
  assumes "length bs < 2 ^ 63"
  shows "(\<exists>m. decode empty_msg merge bs = Inr m) \<or> (\<exists>e. decode empty_msg merge bs = Inl (Raised e))"
proof -
  let ?r = "Reader_with_limits bs default_limits"
  have r: "reader_ok ?r" "pos ?r \<le> length (buf ?r)" "limits ?r = default_limits"
    using reader_ok_with_limits [OF assms] by (simp_all add: Reader_with_limits_def)
  have s: "\<not> diverges (merge empty_msg ?r)" "\<not> panics (merge empty_msg ?r)"
    using soundD [OF merge_sound lessI r(2)] r(1,3) by simp_all
  show ?thesis
  proof (cases "merge empty_msg ?r")
    case (Inl e)
    then show ?thesis using s by (cases e) (auto simp: decode_def)
  next
    case (Inr x)
    then show ?thesis by (cases x) (auto simp: decode_def)
  qed
qed

lemma decode_with_limits_total:
  assumes "length bs < 2 ^ 63" and "capped l"
  shows "(\<exists>m. decode_with_limits empty_msg merge bs l = Inr m) \<or> (\<exists>e. decode_with_limits empty_msg merge bs l = Inl (Raised e))"
proof -
  let ?r = "Reader_with_limits bs l"
  have r: "reader_ok ?r" "pos ?r \<le> length (buf ?r)" "limits ?r = l"
    using reader_ok_with_limits [OF assms(1)] by (simp_all add: Reader_with_limits_def)
  have s: "\<not> diverges (merge empty_msg ?r)" "\<not> panics (merge empty_msg ?r)"
    using soundD [OF merge_sound lessI r(2)] r(1,3) assms(2) by simp_all
  show ?thesis
  proof (cases "merge empty_msg ?r")
    case (Inl e)
    then show ?thesis using s by (cases e) (auto simp: decode_with_limits_def)
  next
    case (Inr x)
    then show ?thesis by (cases x) (auto simp: decode_with_limits_def)
  qed
qed

end

section \<open>Messages decoded by the field loop\<close>

lemma reads_skip:
  assumes "wire_value d wt v"
  shows "reads d (\<lambda>r. bind_result (skip r wt) (\<lambda>r'. Inr (s, r'))) v s"
proof (rule readsI)
  fix r rest
  assume r: "ample r" "room d r" "unread r = v @ rest"
  obtain r' where "skip_inner wt (depth r) r = Inr r'" "after r r' rest"
    by (rule skipsE [OF wire_value_skips(1) [OF assms, of "depth r"] r(1) _ _ _ r(3)])
       (use r(2) in \<open>simp_all add: room_def\<close>)
  then show "\<exists>r'. bind_result (skip r wt) (\<lambda>r'. Inr (s, r')) = Inr (s, r') \<and> after r r' rest"
    by (simp add: skip_def)
qed

text \<open>A sequence of well-formed fields, none of which has a number in \<open>known\<close>.\<close>

definition foreign :: "u32 set \<Rightarrow> nat \<Rightarrow> raw_field list \<Rightarrow> bool" where
  "foreign known d fs \<longleftrightarrow>
     list_all (\<lambda>(f, wt, v). 0 < f \<and> f < 2 ^ 29 \<and> f \<notin> known \<and> wire_value d wt v) fs"

definition fields_bytes :: "raw_field list \<Rightarrow> byte list" where
  "fields_bytes fs = concat (map raw_field_bytes fs)"

locale field_message =
  fixes ok :: "'m \<Rightarrow> bool"
    and levels :: "'m \<Rightarrow> nat"
    and bytes :: "'m \<Rightarrow> byte list"
    and empty_msg :: 'm
    and encode :: "'m \<Rightarrow> writer \<Rightarrow> writer core_res"
    and step :: "'m \<Rightarrow> reader \<Rightarrow> ('m \<times> reader) core_res"
    and known :: "u32 set"
  assumes encode_emits: "ok m \<Longrightarrow> encode m w = Inr (emit w (bytes m))"
    and step_fields: "ok m \<Longrightarrow> loops (levels m) step empty_msg (bytes m) m"
    and step_sound: "sound_step n (step m)"
    and step_unknown: "0 < f \<Longrightarrow> f < 2 ^ 29 \<Longrightarrow> f \<notin> known \<Longrightarrow> wire_value d wt v
      \<Longrightarrow> reads d (step m) (tag_bytes f wt @ v) m"
begin

lemma loops_foreign: "foreign known d fs \<Longrightarrow> loops d step m (fields_bytes fs) m"
proof (induction fs)
  case (Cons x fs)
  obtain f wt v where x: "x = (f, wt, v)" by (cases x)
  have "reads d (step m) (raw_field_bytes x) m" "raw_field_bytes x \<noteq> []"
    using Cons.prems by (simp_all add: x foreign_def step_unknown tag_bytes_not_Nil)
  moreover have "loops d step m (fields_bytes fs) m"
    using Cons by (simp add: foreign_def)
  ultimately show ?case
    by (simp add: loops_step fields_bytes_def)
qed (simp add: loops_done fields_bytes_def)

lemma decodes_with_foreign:
  assumes "ok m" and "levels m \<le> d" and "foreign known d fs" and "foreign known d gs"
  shows "decodes d (while_unread step empty_msg) (fields_bytes fs @ bytes m @ fields_bytes gs) m"
  by (intro decodes_loops loops_append [OF loops_foreign [OF assms(3)]] loops_foreign [OF assms(4)]
      loops_append [OF loops_mono [OF step_fields [OF assms(1)] assms(2)]])

end

sublocale field_message \<subseteq> message ok levels bytes empty_msg encode "while_unread step"
proof unfold_locales
  show "ok m \<Longrightarrow> encode m w = Inr (emit w (bytes m))" for m w
    by (rule encode_emits)
  show "ok m \<Longrightarrow> decodes (levels m) (while_unread step empty_msg) (bytes m) m" for m
    by (intro decodes_loops step_fields)
  show "sound n (while_unread step m)" for n m
    by (intro sound_while_unread step_sound)
qed

context field_message begin

lemma skips_unknown_fields:
  assumes "ok m" and "levels m \<le> 100" and "foreign known 100 fs" and "foreign known 100 gs"
    and "length (fields_bytes fs @ bytes m @ fields_bytes gs) \<le> 1000000"
  shows "decode empty_msg (while_unread step) (fields_bytes fs @ bytes m @ fields_bytes gs) = Inr m"
proof -
  let ?b = "fields_bytes fs @ bytes m @ fields_bytes gs"
  have a: "ample (Reader_new ?b)" "room 100 (Reader_new ?b)" "unread (Reader_new ?b) = ?b"
    using ample_new [OF assms(5)] by simp_all
  obtain r' where "while_unread step empty_msg (Reader_new ?b) = Inr (m, r')" "after (Reader_new ?b) r' []"
    by (rule decodesE [OF decodes_with_foreign [OF assms(1-4)] a])
  then show ?thesis
    by (simp add: decode_def Reader_new_def [symmetric] is_empty_unread after_def)
qed

end

end
