(* ===== verification/Wkt.thy ===== *)
theory Wkt
  imports Message
begin

text \<open>
  The well-known message types (\<open>tpt-proto-wkt/src/lib.rs\<close>): \<open>Timestamp\<close>, \<open>Duration\<close>,
  \<open>FieldMask\<close>, the scalar wrappers, \<open>Empty\<close> and \<open>Any\<close>, each an instance of the \<open>Message\<close>
  contract. (\<open>Struct\<close>, \<open>Value\<close> and \<open>ListValue\<close> are in the next theory.)
\<close>

section \<open>Definitions\<close>

record timestamp =
  ts_seconds :: i64
  ts_nanos :: i32

definition Timestamp_default :: timestamp where
  "Timestamp_default = \<lparr>ts_seconds = 0, ts_nanos = 0\<rparr>"

definition Timestamp_encode :: "timestamp \<Rightarrow> writer \<Rightarrow> writer core_res" where
  "Timestamp_encode m w =
     bind_result (encode_int64 w 1 (ts_seconds m)) (\<lambda>w. encode_int32 w 2 (ts_nanos m))"

definition Timestamp_step :: "timestamp \<Rightarrow> reader \<Rightarrow> (timestamp \<times> reader) core_res" where
  "Timestamp_step m r = bind_result (read_tag r) (\<lambda>(t, r).
     if field_number t = 1 \<and> wire_type t = Varint
     then bind_result (read_int64 r) (\<lambda>(v, r). Inr (m\<lparr>ts_seconds := v\<rparr>, r))
     else if field_number t = 2 \<and> wire_type t = Varint
     then bind_result (read_int32 r) (\<lambda>(v, r). Inr (m\<lparr>ts_nanos := v\<rparr>, r))
     else bind_result (skip r (wire_type t)) (\<lambda>r. Inr (m, r)))"

definition Timestamp_merge :: "timestamp \<Rightarrow> reader \<Rightarrow> (timestamp \<times> reader) core_res" where
  "Timestamp_merge = while_unread Timestamp_step"

record duration =
  dur_seconds :: i64
  dur_nanos :: i32

definition Duration_default :: duration where
  "Duration_default = \<lparr>dur_seconds = 0, dur_nanos = 0\<rparr>"

definition Duration_encode :: "duration \<Rightarrow> writer \<Rightarrow> writer core_res" where
  "Duration_encode m w =
     bind_result (encode_int64 w 1 (dur_seconds m)) (\<lambda>w. encode_int32 w 2 (dur_nanos m))"

definition Duration_step :: "duration \<Rightarrow> reader \<Rightarrow> (duration \<times> reader) core_res" where
  "Duration_step m r = bind_result (read_tag r) (\<lambda>(t, r).
     if field_number t = 1 \<and> wire_type t = Varint
     then bind_result (read_int64 r) (\<lambda>(v, r). Inr (m\<lparr>dur_seconds := v\<rparr>, r))
     else if field_number t = 2 \<and> wire_type t = Varint
     then bind_result (read_int32 r) (\<lambda>(v, r). Inr (m\<lparr>dur_nanos := v\<rparr>, r))
     else bind_result (skip r (wire_type t)) (\<lambda>r. Inr (m, r)))"

definition Duration_merge :: "duration \<Rightarrow> reader \<Rightarrow> (duration \<times> reader) core_res" where
  "Duration_merge = while_unread Duration_step"

record field_mask =
  paths :: "string list"

definition FieldMask_default :: field_mask where
  "FieldMask_default = \<lparr>paths = []\<rparr>"

fun FieldMask_encode_paths :: "string list \<Rightarrow> writer \<Rightarrow> writer core_res" where
  "FieldMask_encode_paths [] w = Inr w"
| "FieldMask_encode_paths (p # ps) w = bind_result (encode_string w 1 p) (FieldMask_encode_paths ps)"

definition FieldMask_encode :: "field_mask \<Rightarrow> writer \<Rightarrow> writer core_res" where
  "FieldMask_encode m w = FieldMask_encode_paths (paths m) w"

definition FieldMask_step :: "field_mask \<Rightarrow> reader \<Rightarrow> (field_mask \<times> reader) core_res" where
  "FieldMask_step m r = bind_result (read_tag r) (\<lambda>(t, r).
     if field_number t = 1 \<and> wire_type t = LengthDelimited
     then bind_result (read_string_owned r) (\<lambda>(s, r). Inr (m\<lparr>paths := paths m @ [s]\<rparr>, r))
     else bind_result (skip r (wire_type t)) (\<lambda>r. Inr (m, r)))"

definition FieldMask_merge :: "field_mask \<Rightarrow> reader \<Rightarrow> (field_mask \<times> reader) core_res" where
  "FieldMask_merge = while_unread FieldMask_step"

text \<open>
  The \<open>wrapper!\<close> macro, for a codec \<open>enc\<close>/\<open>dec\<close>: field 1 is the value, whatever its wire
  type. \<open>StringValue\<close> and \<open>BytesValue\<close> are written out in the source with the same body.
\<close>

definition wrapper_encode :: "(writer \<Rightarrow> u32 \<Rightarrow> 'a \<Rightarrow> writer core_res) \<Rightarrow> 'a \<Rightarrow> writer \<Rightarrow> writer core_res" where
  "wrapper_encode enc m w = bind_result (enc w 1 m) Inr"

definition wrapper_step :: "(reader \<Rightarrow> ('a \<times> reader) core_res) \<Rightarrow> 'a \<Rightarrow> reader \<Rightarrow> ('a \<times> reader) core_res" where
  "wrapper_step dec m r = bind_result (read_tag r) (\<lambda>(t, r).
     if field_number t = 1 then bind_result (dec r) (\<lambda>(v, r). Inr (v, r))
     else bind_result (skip r (wire_type t)) (\<lambda>r. Inr (m, r)))"

definition wrapper_merge :: "(reader \<Rightarrow> ('a \<times> reader) core_res) \<Rightarrow> 'a \<Rightarrow> reader \<Rightarrow> ('a \<times> reader) core_res" where
  "wrapper_merge dec = while_unread (wrapper_step dec)"

definition StringValue_encode :: "string \<Rightarrow> writer \<Rightarrow> writer core_res" where
  "StringValue_encode m w = bind_result (encode_string w 1 m) Inr"

definition StringValue_step :: "string \<Rightarrow> reader \<Rightarrow> (string \<times> reader) core_res" where
  "StringValue_step m r = bind_result (read_tag r) (\<lambda>(t, r).
     if field_number t = 1 then bind_result (read_string_owned r) (\<lambda>(v, r). Inr (v, r))
     else bind_result (skip r (wire_type t)) (\<lambda>r. Inr (m, r)))"

definition BytesValue_encode :: "byte list \<Rightarrow> writer \<Rightarrow> writer core_res" where
  "BytesValue_encode m w = bind_result (encode_bytes w 1 m) Inr"

definition BytesValue_step :: "byte list \<Rightarrow> reader \<Rightarrow> (byte list \<times> reader) core_res" where
  "BytesValue_step m r = bind_result (read_tag r) (\<lambda>(t, r).
     if field_number t = 1 then bind_result (read_length_delimited r) (\<lambda>(v, r). Inr (v, r))
     else bind_result (skip r (wire_type t)) (\<lambda>r. Inr (m, r)))"

definition Empty_encode :: "unit \<Rightarrow> writer \<Rightarrow> writer core_res" where
  "Empty_encode m w = Inr w"

definition Empty_merge :: "unit \<Rightarrow> reader \<Rightarrow> (unit \<times> reader) core_res" where
  "Empty_merge m r = Inr (m, r)"

record any =
  type_url :: string
  any_value :: "byte list"

definition Any_default :: any where
  "Any_default = \<lparr>type_url = [], any_value = []\<rparr>"

definition Any_encode :: "any \<Rightarrow> writer \<Rightarrow> writer core_res" where
  "Any_encode m w =
     bind_result (encode_string w 1 (type_url m)) (\<lambda>w. encode_bytes w 2 (any_value m))"

definition Any_step :: "any \<Rightarrow> reader \<Rightarrow> (any \<times> reader) core_res" where
  "Any_step m r = bind_result (read_tag r) (\<lambda>(t, r).
     if field_number t = 1 \<and> wire_type t = LengthDelimited
     then bind_result (read_string_owned r) (\<lambda>(s, r). Inr (m\<lparr>type_url := s\<rparr>, r))
     else if field_number t = 2 \<and> wire_type t = LengthDelimited
     then bind_result (read_length_delimited r) (\<lambda>(b, r). Inr (m\<lparr>any_value := b\<rparr>, r))
     else bind_result (skip r (wire_type t)) (\<lambda>r. Inr (m, r)))"

definition Any_merge :: "any \<Rightarrow> reader \<Rightarrow> (any \<times> reader) core_res" where
  "Any_merge = while_unread Any_step"

section \<open>The contract of each type\<close>

lemma reads_field:
  assumes "0 < f" and "f < 2 ^ 29" and "reads d (k \<lparr>field_number = f, wire_type = wt\<rparr>) cs y"
  shows "reads d (\<lambda>r. bind_result (read_tag r) (\<lambda>(t, r). k t r)) (tag_bytes f wt @ cs) y"
  using reads_bind [OF reads_tag [OF assms(1,2), of d wt], of k cs y] assms(3) by simp

lemma loops_two:
  "reads d (body s) as s1 \<Longrightarrow> as \<noteq> [] \<Longrightarrow> reads d (body s1) bs s2 \<Longrightarrow> bs \<noteq> [] \<Longrightarrow> loops d body s (as @ bs) s2"
  by (intro loops_step loops_one)

lemmas scalar_enc = int32.enc_eq int64.enc_eq uint32.enc_eq uint64.enc_eq bool.enc_eq enum.enc_eq float.enc_eq
  double.enc_eq str.enc_eq bytes.enc_eq

lemmas scalar_reads = int32.dec_reads [OF TrueI le0] int64.dec_reads [OF TrueI le0] uint32.dec_reads [OF TrueI le0]
  uint64.dec_reads [OF TrueI le0] bool.dec_reads [OF TrueI le0] float.dec_reads [OF TrueI le0]
  double.dec_reads [OF TrueI le0] str.dec_reads [OF _ le0] bytes.dec_reads [OF TrueI le0]

lemmas scalar_sound [sound_rules] = int32.dec_sound int64.dec_sound uint32.dec_sound uint64.dec_sound bool.dec_sound
  float.dec_sound double.dec_sound

lemmas scalar_sound_weak [sound_rules] = scalar_sound [THEN sound_step_sound]

interpretation timestamp: field_message "\<lambda>_. True" "\<lambda>_. 0"
  "\<lambda>m. tag_bytes 1 Varint @ varint (ts_seconds m) @ tag_bytes 2 Varint @ varint (scast (ts_nanos m))"
  Timestamp_default Timestamp_encode Timestamp_step "{1, 2}"
proof unfold_locales
  fix m :: timestamp
  have "reads 0 (Timestamp_step Timestamp_default) (tag_bytes 1 Varint @ varint (ts_seconds m))
      (Timestamp_default\<lparr>ts_seconds := ts_seconds m\<rparr>)"
    unfolding Timestamp_step_def by (rule reads_field) (simp_all add: reads_map [OF scalar_reads(2)])
  moreover have "reads 0 (Timestamp_step (Timestamp_default\<lparr>ts_seconds := ts_seconds m\<rparr>))
      (tag_bytes 2 Varint @ varint (scast (ts_nanos m))) m"
    unfolding Timestamp_step_def
    by (rule reads_field) (auto simp: Timestamp_default_def intro!: reads_map [OF scalar_reads(1)])
  ultimately show "loops 0 Timestamp_step Timestamp_default
      (tag_bytes 1 Varint @ varint (ts_seconds m) @ tag_bytes 2 Varint @ varint (scast (ts_nanos m))) m"
    using loops_two [of 0 Timestamp_step Timestamp_default] by (fastforce simp: tag_bytes_not_Nil)
next
  show "sound_step n (Timestamp_step m)" for n m
    unfolding Timestamp_step_def by (intro sound_rules)
next
  show "reads d (Timestamp_step m) (tag_bytes f wt @ v) m"
    if "0 < f" "f < 2 ^ 29" "f \<notin> {1, 2}" "wire_value d wt v" for f d wt v m
    unfolding Timestamp_step_def using that by (intro reads_field) (simp_all add: reads_skip)
qed (simp add: Timestamp_encode_def scalar_enc)

interpretation duration: field_message "\<lambda>_. True" "\<lambda>_. 0"
  "\<lambda>m. tag_bytes 1 Varint @ varint (dur_seconds m) @ tag_bytes 2 Varint @ varint (scast (dur_nanos m))"
  Duration_default Duration_encode Duration_step "{1, 2}"
proof unfold_locales
  fix m :: duration
  have "reads 0 (Duration_step Duration_default) (tag_bytes 1 Varint @ varint (dur_seconds m))
      (Duration_default\<lparr>dur_seconds := dur_seconds m\<rparr>)"
    unfolding Duration_step_def by (rule reads_field) (simp_all add: reads_map [OF scalar_reads(2)])
  moreover have "reads 0 (Duration_step (Duration_default\<lparr>dur_seconds := dur_seconds m\<rparr>))
      (tag_bytes 2 Varint @ varint (scast (dur_nanos m))) m"
    unfolding Duration_step_def
    by (rule reads_field) (auto simp: Duration_default_def intro!: reads_map [OF scalar_reads(1)])
  ultimately show "loops 0 Duration_step Duration_default
      (tag_bytes 1 Varint @ varint (dur_seconds m) @ tag_bytes 2 Varint @ varint (scast (dur_nanos m))) m"
    using loops_two [of 0 Duration_step Duration_default] by (fastforce simp: tag_bytes_not_Nil)
next
  show "sound_step n (Duration_step m)" for n m
    unfolding Duration_step_def by (intro sound_rules)
next
  show "reads d (Duration_step m) (tag_bytes f wt @ v) m"
    if "0 < f" "f < 2 ^ 29" "f \<notin> {1, 2}" "wire_value d wt v" for f d wt v m
    unfolding Duration_step_def using that by (intro reads_field) (simp_all add: reads_skip)
qed (simp add: Duration_encode_def scalar_enc)

lemma FieldMask_encode_paths_eq:
  "FieldMask_encode_paths ps w = Inr (emit w (concat (map (\<lambda>p. tag_bytes 1 LengthDelimited @ length_delimited (as_bytes p)) ps)))"
  by (induction ps arbitrary: w) (simp_all add: scalar_enc)

interpretation field_mask: field_message "\<lambda>m. list_all str_ok (paths m)" "\<lambda>_. 0"
  "\<lambda>m. concat (map (\<lambda>p. tag_bytes 1 LengthDelimited @ length_delimited (as_bytes p)) (paths m))"
  FieldMask_default FieldMask_encode FieldMask_step "{1}"
proof unfold_locales
  fix m :: field_mask
  assume ok: "list_all str_ok (paths m)"
  have "reads 0 (FieldMask_step s) (tag_bytes 1 LengthDelimited @ length_delimited (as_bytes p)) (s\<lparr>paths := paths s @ [p]\<rparr>)"
    if "str_ok p" for s p
    unfolding FieldMask_step_def using that by (intro reads_field) (auto intro!: reads_map [OF scalar_reads(8)])
  then have "loops 0 FieldMask_step s (tag_bytes 1 LengthDelimited @ length_delimited (as_bytes p)) (s\<lparr>paths := paths s @ [p]\<rparr>)"
    if "p \<in> set (paths m)" for s p
    using ok that by (intro loops_one) (simp_all add: tag_bytes_not_Nil list_all_iff)
  then have "loops 0 FieldMask_step FieldMask_default
      (concat (map (\<lambda>p. tag_bytes 1 LengthDelimited @ length_delimited (as_bytes p)) (paths m)))
      (foldl (\<lambda>s p. s\<lparr>paths := paths s @ [p]\<rparr>) FieldMask_default (paths m))"
    by (rule loops_concat)
  moreover have "foldl (\<lambda>s p. s\<lparr>paths := paths s @ [p]\<rparr>) s ps = s\<lparr>paths := paths s @ ps\<rparr>" for s :: field_mask and ps
    by (induction ps arbitrary: s) simp_all
  ultimately show "loops 0 FieldMask_step FieldMask_default
      (concat (map (\<lambda>p. tag_bytes 1 LengthDelimited @ length_delimited (as_bytes p)) (paths m))) m"
    by (cases m) (simp add: FieldMask_default_def)
next
  show "sound_step n (FieldMask_step m)" for n m
    unfolding FieldMask_step_def by (intro sound_rules)
next
  show "reads d (FieldMask_step m) (tag_bytes f wt @ v) m"
    if "0 < f" "f < 2 ^ 29" "f \<notin> {1}" "wire_value d wt v" for f d wt v m
    unfolding FieldMask_step_def using that by (intro reads_field) (simp_all add: reads_skip)
qed (simp add: FieldMask_encode_def FieldMask_encode_paths_eq)

context scalar_codec begin

text \<open>The wrapper macro at any scalar codec.\<close>

lemma wrapper_message:
  "field_message ok (\<lambda>_. lv) (\<lambda>v. tag_bytes 1 wt @ payload v) m0 (wrapper_encode enc) (wrapper_step dec) {1}"
proof unfold_locales
  show "loops lv (wrapper_step dec) m0 (tag_bytes 1 wt @ payload v) v" if "ok v" for v
    unfolding wrapper_step_def using that
    by (intro loops_one reads_field) (auto simp: tag_bytes_not_Nil bind_result_return intro!: dec_reads)
  show "sound_step n (wrapper_step dec m)" for n m
    unfolding wrapper_step_def by (intro sound_rules dec_sound dec_sound [THEN sound_step_sound])
  show "reads d (wrapper_step dec m) (tag_bytes f wt' @ v) m"
    if "0 < f" "f < 2 ^ 29" "f \<notin> {1}" "wire_value d wt' v" for f d wt' v m
    unfolding wrapper_step_def using that by (intro reads_field) (simp_all add: reads_skip)
qed (simp add: wrapper_encode_def enc_eq)

end

interpretation double_value: field_message "\<lambda>_. True" "\<lambda>_. 0" "\<lambda>v. tag_bytes 1 Fixed64 @ le_bytes 8 v" 0
  "wrapper_encode encode_double" "wrapper_step read_double" "{1}"
  by (rule double.wrapper_message)

interpretation float_value: field_message "\<lambda>_. True" "\<lambda>_. 0" "\<lambda>v. tag_bytes 1 Fixed32 @ le_bytes 4 v" 0
  "wrapper_encode encode_float" "wrapper_step read_float" "{1}"
  by (rule float.wrapper_message)

interpretation int64_value: field_message "\<lambda>_. True" "\<lambda>_. 0" "\<lambda>v. tag_bytes 1 Varint @ varint v" 0
  "wrapper_encode encode_int64" "wrapper_step read_int64" "{1}"
  by (rule int64.wrapper_message)

interpretation uint64_value: field_message "\<lambda>_. True" "\<lambda>_. 0" "\<lambda>v. tag_bytes 1 Varint @ varint v" 0
  "wrapper_encode encode_uint64" "wrapper_step read_uint64" "{1}"
  by (rule uint64.wrapper_message)

interpretation int32_value: field_message "\<lambda>_. True" "\<lambda>_. 0" "\<lambda>v. tag_bytes 1 Varint @ varint (scast v)" 0
  "wrapper_encode encode_int32" "wrapper_step read_int32" "{1}"
  by (rule int32.wrapper_message)

interpretation uint32_value: field_message "\<lambda>_. True" "\<lambda>_. 0" "\<lambda>v. tag_bytes 1 Varint @ varint (ucast v)" 0
  "wrapper_encode encode_uint32" "wrapper_step read_uint32" "{1}"
  by (rule uint32.wrapper_message)

interpretation bool_value: field_message "\<lambda>_. True" "\<lambda>_. 0" "\<lambda>v. tag_bytes 1 Varint @ varint (if v then 1 else 0)"
  False "wrapper_encode encode_bool" "wrapper_step read_bool" "{1}"
  by (rule bool.wrapper_message)

lemma StringValue_wrapper: "StringValue_encode = wrapper_encode encode_string" "StringValue_step = wrapper_step read_string_owned"
  by (simp_all add: fun_eq_iff StringValue_encode_def wrapper_encode_def StringValue_step_def wrapper_step_def)

lemma BytesValue_wrapper: "BytesValue_encode = wrapper_encode encode_bytes" "BytesValue_step = wrapper_step read_length_delimited"
  by (simp_all add: fun_eq_iff BytesValue_encode_def wrapper_encode_def BytesValue_step_def wrapper_step_def)

interpretation string_value: field_message str_ok "\<lambda>_. 0" "\<lambda>v. tag_bytes 1 LengthDelimited @ length_delimited (as_bytes v)" "[]"
  StringValue_encode StringValue_step "{1}"
  unfolding StringValue_wrapper by (rule str.wrapper_message)

interpretation bytes_value: field_message "\<lambda>_. True" "\<lambda>_. 0" "\<lambda>v. tag_bytes 1 LengthDelimited @ length_delimited v" "[]"
  BytesValue_encode BytesValue_step "{1}"
  unfolding BytesValue_wrapper by (rule bytes.wrapper_message)

interpretation empty: message "\<lambda>_. True" "\<lambda>_. 0" "\<lambda>_. []" "()" Empty_encode Empty_merge
  by unfold_locales
     (auto simp: Empty_encode_def Empty_merge_def [abs_def] decodes_def after_def intro: sound_return)

interpretation any: field_message "\<lambda>m. str_ok (type_url m)" "\<lambda>_. 0"
  "\<lambda>m. tag_bytes 1 LengthDelimited @ length_delimited (as_bytes (type_url m))
    @ tag_bytes 2 LengthDelimited @ length_delimited (any_value m)"
  Any_default Any_encode Any_step "{1, 2}"
proof unfold_locales
  fix m :: any
  assume ok: "str_ok (type_url m)"
  have "reads 0 (Any_step Any_default) (tag_bytes 1 LengthDelimited @ length_delimited (as_bytes (type_url m)))
      (Any_default\<lparr>type_url := type_url m\<rparr>)"
    unfolding Any_step_def using ok by (intro reads_field) (auto intro!: reads_map [OF scalar_reads(8)])
  moreover have "reads 0 (Any_step (Any_default\<lparr>type_url := type_url m\<rparr>))
      (tag_bytes 2 LengthDelimited @ length_delimited (any_value m)) m"
    unfolding Any_step_def
    by (rule reads_field) (auto simp: Any_default_def intro!: reads_map [OF scalar_reads(9)])
  ultimately show "loops 0 Any_step Any_default (tag_bytes 1 LengthDelimited @ length_delimited (as_bytes (type_url m))
    @ tag_bytes 2 LengthDelimited @ length_delimited (any_value m)) m"
    using loops_two [of 0 Any_step Any_default] by (fastforce simp: tag_bytes_not_Nil)
next
  show "sound_step n (Any_step m)" for n m
    unfolding Any_step_def by (intro sound_rules)
next
  show "reads d (Any_step m) (tag_bytes f wt @ v) m"
    if "0 < f" "f < 2 ^ 29" "f \<notin> {1, 2}" "wire_value d wt v" for f d wt v m
    unfolding Any_step_def using that by (intro reads_field) (simp_all add: reads_skip)
qed (simp add: Any_encode_def scalar_enc)

end
