(* ===== verification/Hash_Map.thy ===== *)
theory Hash_Map
  imports Prelude
begin

text \<open>
  \<open>HashMap\<close> and \<open>HashSet\<close>. A map is the association list of its entries, a set the list of its
  elements, without duplicates, in the order of iteration; Rust leaves that order open, so the
  lemmas about a component hold for whatever order its lists have.
\<close>

fun hm_insert :: "'k \<Rightarrow> 'v \<Rightarrow> ('k \<times> 'v) list \<Rightarrow> ('k \<times> 'v) list" where
  "hm_insert k v [] = [(k, v)]"
| "hm_insert k v ((k', v') # m) = (if k = k' then (k, v) # m else (k', v') # hm_insert k v m)"

fun hm_remove :: "'k \<Rightarrow> ('k \<times> 'v) list \<Rightarrow> ('k \<times> 'v) list" where
  "hm_remove k [] = []"
| "hm_remove k ((k', v') # m) = (if k = k' then m else (k', v') # hm_remove k m)"

definition hm_ok :: "('k \<times> 'v) list \<Rightarrow> bool" where
  "hm_ok m \<longleftrightarrow> distinct (map fst m)"

lemma hm_ok_simps [simp]: "hm_ok []" "hm_ok (e # m) \<longleftrightarrow> hm_ok m \<and> fst e \<notin> fst ` set m"
  by (auto simp: hm_ok_def)

lemma hm_insert_new: "k \<notin> fst ` set m \<Longrightarrow> hm_insert k v m = m @ [(k, v)]"
  by (induction k v m rule: hm_insert.induct) auto

lemma hm_insert_not_Nil [simp]: "hm_insert k v m \<noteq> []"
  by (cases m) (auto split: if_splits)

lemma foldl_hm_insert:
  "distinct (map fst (m @ s)) \<Longrightarrow> foldl (\<lambda>s kv. hm_insert (fst kv) (snd kv) s) m s = m @ s"
proof (induction s arbitrary: m)
  case (Cons kv s)
  have "hm_insert (fst kv) (snd kv) m = m @ [kv]"
    using Cons.prems by (subst hm_insert_new) auto
  then show ?case
    using Cons.IH [of "m @ [kv]"] Cons.prems by simp
qed simp

lemma keys_hm_insert [simp]: "fst ` set (hm_insert k v m) = insert k (fst ` set m)"
  by (induction k v m rule: hm_insert.induct) auto

lemma map_of_hm_insert [simp]: "map_of (hm_insert k v m) = (map_of m)(k \<mapsto> v)"
  by (induction k v m rule: hm_insert.induct) (auto simp: fun_eq_iff)

lemma hm_ok_insert [simp]: "hm_ok m \<Longrightarrow> hm_ok (hm_insert k v m)"
  by (induction k v m rule: hm_insert.induct) auto

lemma keys_hm_remove: "fst ` set (hm_remove k m) \<subseteq> fst ` set m"
  by (induction k m rule: hm_remove.induct) auto

lemma hm_ok_remove [simp]: "hm_ok m \<Longrightarrow> hm_ok (hm_remove k m)"
proof (induction k m rule: hm_remove.induct)
  case (2 k k' v' m)
  then show ?case
    using keys_hm_remove [of k m] by auto
qed simp

lemma map_of_hm_remove: "hm_ok m \<Longrightarrow> map_of (hm_remove k m) = (map_of m)(k := None)"
proof (induction k m rule: hm_remove.induct)
  case (2 k k' v' m)
  then show ?case
    using map_of_eq_None_iff [of m k] by (auto simp: fun_eq_iff)
qed simp

lemma values_hm: "hm_ok m \<Longrightarrow> v \<in> snd ` set m \<longleftrightarrow> (\<exists>k. map_of m k = Some v)"
  by (force simp: hm_ok_def map_of_eq_Some_iff)

end
