(* ===== verification/Wkt_Value.thy ===== *)
theory Wkt_Value
  imports Wkt Hash_Map
begin

text \<open>
  \<open>Struct\<close>, \<open>Value\<close> and \<open>ListValue\<close> (\<open>tpt-proto-wkt/src/lib.rs\<close>), the recursive
  well-known types. A \<open>Struct\<close>'s \<open>HashMap\<close> is the list of its entries in iteration order,
  with distinct keys; the source leaves that order open, so statements hold for every order of
  the list. The decoder is written with the recursive call as a parameter and closed with one
  level of fuel per byte of input, which is shown to be enough and never to matter.
\<close>

section \<open>Data and encoding\<close>

datatype Value =
    VNull
  | VNumber f64
  | VString string
  | VBool bool
  | VStruct "(string \<times> Value) list"
  | VList "Value list"

type_synonym struct_value = "(string \<times> Value) list"
type_synonym list_value = "Value list"

function (sequential) Value_encode :: "Value \<Rightarrow> writer \<Rightarrow> writer core_res"
  and Struct_encode :: "struct_value \<Rightarrow> writer \<Rightarrow> writer core_res"
  and ListValue_encode :: "list_value \<Rightarrow> writer \<Rightarrow> writer core_res" where
  "Value_encode VNull w = encode_enum w 1 0"
| "Value_encode (VNumber x) w = encode_double w 2 x"
| "Value_encode (VString s) w = encode_string w 3 s"
| "Value_encode (VBool b) w = encode_bool w 4 b"
| "Value_encode (VStruct s) w =
     bind_result (Struct_encode s Writer_new) (\<lambda>inner. encode_message w 5 (wbuf inner))"
| "Value_encode (VList l) w =
     bind_result (ListValue_encode l Writer_new) (\<lambda>inner. encode_message w 6 (wbuf inner))"
| "Struct_encode [] w = Inr w"
| "Struct_encode ((k, v) # s) w =
     bind_result (encode_string Writer_new 1 k) (\<lambda>entry.
       bind_result (Value_encode v Writer_new) (\<lambda>val.
         bind_result (encode_message entry 2 (wbuf val)) (\<lambda>entry.
           bind_result (encode_message w 1 (wbuf entry)) (Struct_encode s))))"
| "ListValue_encode [] w = Inr w"
| "ListValue_encode (v # l) w =
     bind_result (Value_encode v Writer_new) (\<lambda>inner.
       bind_result (encode_message w 1 (wbuf inner)) (ListValue_encode l))"
  by pat_completeness auto
termination
  by (relation "measure (\<lambda>x. case x of Inl (v, w) \<Rightarrow> size v
      | Inr (Inl (s, w)) \<Rightarrow> size_list (size_prod (\<lambda>_. 0) size) s | Inr (Inr (l, w)) \<Rightarrow> size_list size l)") auto

section \<open>Decoding\<close>

type_synonym merge_value = "Value \<Rightarrow> reader \<Rightarrow> (Value \<times> reader) core_res"

definition entry_step :: "merge_value \<Rightarrow> string \<times> Value \<Rightarrow> reader \<Rightarrow> ((string \<times> Value) \<times> reader) core_res" where
  "entry_step vm kv r = bind_result (read_tag r) (\<lambda>(t, r).
     if field_number t = 1 \<and> wire_type t = LengthDelimited
     then bind_result (read_string_owned r) (\<lambda>(key, r). Inr ((key, snd kv), r))
     else if field_number t = 2 \<and> wire_type t = LengthDelimited
     then bind_result (read_length_delimited r) (\<lambda>(vb, r).
       bind_result (nested r vb) (\<lambda>vreader.
         bind_result (vm VNull vreader) (\<lambda>(val, _). Inr ((fst kv, val), r))))
     else bind_result (skip r (wire_type t)) (\<lambda>r. Inr (kv, r)))"

definition Struct_step :: "merge_value \<Rightarrow> struct_value \<Rightarrow> reader \<Rightarrow> (struct_value \<times> reader) core_res" where
  "Struct_step vm s r = bind_result (read_tag r) (\<lambda>(t, r).
     if field_number t = 1 \<and> wire_type t = LengthDelimited
     then bind_result (read_length_delimited r) (\<lambda>(body, r).
       bind_result (nested r body) (\<lambda>sr.
         bind_result (while_unread (entry_step vm) ([], VNull) sr) (\<lambda>(kv, _).
           Inr (hm_insert (fst kv) (snd kv) s, r))))
     else bind_result (skip r (wire_type t)) (\<lambda>r. Inr (s, r)))"

definition ListValue_step :: "merge_value \<Rightarrow> list_value \<Rightarrow> reader \<Rightarrow> (list_value \<times> reader) core_res" where
  "ListValue_step vm l r = bind_result (read_tag r) (\<lambda>(t, r).
     if field_number t = 1 \<and> wire_type t = LengthDelimited
     then bind_result (read_length_delimited r) (\<lambda>(body, r).
       bind_result (decode VNull vm body) (\<lambda>v. Inr (l @ [v], r)))
     else bind_result (skip r (wire_type t)) (\<lambda>r. Inr (l, r)))"

definition Value_step :: "merge_value \<Rightarrow> Value \<Rightarrow> reader \<Rightarrow> (Value \<times> reader) core_res" where
  "Value_step vm m r = bind_result (read_tag r) (\<lambda>(t, r).
     if field_number t = 1 \<and> wire_type t = Varint
     then bind_result (read_int32 r) (\<lambda>(_, r). Inr (VNull, r))
     else if field_number t = 2 \<and> (wire_type t = Varint \<or> wire_type t = Fixed64)
     then bind_result (read_double r) (\<lambda>(x, r). Inr (VNumber x, r))
     else if field_number t = 3 \<and> wire_type t = LengthDelimited
     then bind_result (read_string_owned r) (\<lambda>(s, r). Inr (VString s, r))
     else if field_number t = 4 \<and> wire_type t = Varint
     then bind_result (read_bool r) (\<lambda>(b, r). Inr (VBool b, r))
     else if field_number t = 5 \<and> wire_type t = LengthDelimited
     then bind_result (read_length_delimited r) (\<lambda>(body, r).
       bind_result (nested r body) (\<lambda>sub.
         bind_result (while_unread (Struct_step vm) [] sub) (\<lambda>(s, _). Inr (VStruct s, r))))
     else if field_number t = 6 \<and> wire_type t = LengthDelimited
     then bind_result (read_length_delimited r) (\<lambda>(body, r).
       bind_result (nested r body) (\<lambda>sub.
         bind_result (while_unread (ListValue_step vm) [] sub) (\<lambda>(l, _). Inr (VList l, r))))
     else bind_result (skip r (wire_type t)) (\<lambda>r. Inr (m, r)))"

primrec Value_merge_fuel :: "nat \<Rightarrow> merge_value" where
  "Value_merge_fuel 0 = (\<lambda>m r. Inl Diverges)"
| "Value_merge_fuel (Suc n) = (\<lambda>m r. while_unread (Value_step (Value_merge_fuel n)) VNull r)"

definition Value_merge :: merge_value where
  "Value_merge m r = Value_merge_fuel (Suc (remaining r)) m r"

definition Struct_merge :: "struct_value \<Rightarrow> reader \<Rightarrow> (struct_value \<times> reader) core_res" where
  "Struct_merge = while_unread (Struct_step Value_merge)"

definition ListValue_merge :: "list_value \<Rightarrow> reader \<Rightarrow> (list_value \<times> reader) core_res" where
  "ListValue_merge = while_unread (ListValue_step Value_merge)"

section \<open>The fuel is enough\<close>

text \<open>Two decoders that agree on shorter inputs.\<close>

definition agree :: "nat \<Rightarrow> merge_value \<Rightarrow> merge_value \<Rightarrow> bool" where
  "agree n vm vm' \<longleftrightarrow> (\<forall>m r. remaining r < n \<longrightarrow> vm m r = vm' m r)"

lemma while_unread_cong:
  assumes "\<And>s r'. remaining r' \<le> remaining r \<Longrightarrow> f s r' = g s r'"
    and "\<And>s r' s1 r1. f s r' = Inr (s1, r1) \<Longrightarrow> strictly_forward r' r1"
  shows "while_unread f s r = while_unread g s r"
proof -
  have "remaining r' \<le> remaining r \<Longrightarrow> read_loop n f s r' = read_loop n g s r'" for n s r'
  proof (induction n arbitrary: s r')
    case (Suc n)
    have "read_loop n f s1 r1 = read_loop n g s1 r1" if "g s r' = Inr (s1, r1)" for s1 r1
    proof -
      have "f s r' = Inr (s1, r1)"
        using assms(1) [OF Suc.prems] that by simp
      then have "remaining r1 < remaining r'"
        by (intro strictly_forward_remaining assms(2))
      with Suc.prems show ?thesis by (intro Suc.IH) simp
    qed
    then show ?case
      using assms(1) [OF Suc.prems] by (auto intro!: bind_result_cong)
  qed simp
  then show ?thesis by (simp add: while_unread_def del: read_loop.simps)
qed

lemma payload_cong:
  assumes "\<And>sub. remaining sub < remaining r \<Longrightarrow> f sub = g sub"
  shows "bind_result (read_length_delimited r) (\<lambda>(b, r1). bind_result (nested r1 b) (\<lambda>sub. bind_result (f sub) (\<lambda>x. k x r1)))
    = bind_result (read_length_delimited r) (\<lambda>(b, r1). bind_result (nested r1 b) (\<lambda>sub. bind_result (g sub) (\<lambda>x. k x r1)))"
  using assms remaining_payload by (fastforce intro!: bind_result_cong)

lemma tag_forward: "read_tag r = Inr (t, r1) \<Longrightarrow> remaining r1 < remaining r"
  by (intro strictly_forward_remaining read_tag_moved(1))

lemma value_reads_moved:
  "read_int32 r = Inr (v32, r') \<Longrightarrow> strictly_forward r r'"
  "read_double r = Inr (v64, r') \<Longrightarrow> strictly_forward r r'"
  "read_bool r = Inr (b, r') \<Longrightarrow> strictly_forward r r'"
  "read_string_owned r = Inr (s, r') \<Longrightarrow> strictly_forward r r'"
  by (auto simp: read_int32_def read_double_def read_bool_def bind_result_eq_Inr read_string_owned_eq
      dest: reads_moved)

lemma tag_then:
  assumes "bind_result (read_tag r) (\<lambda>(t, r). f t r) = Inr (x, r')"
    and "\<And>t r1. f t r1 = Inr (x, r') \<Longrightarrow> strictly_forward r1 r'"
  shows "strictly_forward r r'"
proof -
  from assms(1) obtain t r1 where "read_tag r = Inr (t, r1)" "f t r1 = Inr (x, r')"
    by (auto simp: bind_result_eq_Inr)
  then show ?thesis
    using strictly_forward_trans1 [OF read_tag_moved(1) strictly_forward_imp [OF assms(2)]] by blast
qed

lemma tag_cong:
  assumes "\<And>t r1. remaining r1 < remaining r \<Longrightarrow> f t r1 = g t r1"
  shows "bind_result (read_tag r) (\<lambda>(t, r). f t r) = bind_result (read_tag r) (\<lambda>(t, r). g t r)"
  using assms tag_forward by (cases "read_tag r") auto

lemma entry_step_forward: "entry_step vm kv r = Inr (x, r') \<Longrightarrow> strictly_forward r r'"
  unfolding entry_step_def
  by (erule tag_then) (auto simp: bind_result_eq_Inr split: if_splits
      dest: value_reads_moved read_length_delimited_moved skip_forward)

lemma Struct_step_forward: "Struct_step vm m r = Inr (x, r') \<Longrightarrow> strictly_forward r r'"
  unfolding Struct_step_def
  by (erule tag_then) (auto simp: bind_result_eq_Inr split: if_splits
      dest: read_length_delimited_moved skip_forward)

lemma ListValue_step_forward: "ListValue_step vm m r = Inr (x, r') \<Longrightarrow> strictly_forward r r'"
  unfolding ListValue_step_def
  by (erule tag_then) (auto simp: bind_result_eq_Inr split: if_splits
      dest: read_length_delimited_moved skip_forward)

lemma Value_step_forward: "Value_step vm m r = Inr (x, r') \<Longrightarrow> strictly_forward r r'"
  unfolding Value_step_def
  by (erule tag_then) (auto simp: bind_result_eq_Inr split: if_splits
      dest: value_reads_moved read_length_delimited_moved skip_forward)

lemma agree_mono: "agree n vm vm' \<Longrightarrow> m \<le> n \<Longrightarrow> agree m vm vm'"
  by (simp add: agree_def)

lemma entry_step_cong:
  assumes "agree (remaining r) vm vm'"
  shows "entry_step vm kv r = entry_step vm' kv r"
  unfolding entry_step_def
proof (intro tag_cong if_cong payload_cong refl)
  fix r1 sub
  assume "remaining r1 < remaining r" "remaining sub < remaining r1"
  then show "vm VNull sub = vm' VNull sub"
    using assms by (simp add: agree_def)
qed

lemma entry_loop_cong:
  "agree (remaining r) vm vm' \<Longrightarrow> while_unread (entry_step vm) kv r = while_unread (entry_step vm') kv r"
  by (intro while_unread_cong entry_step_cong) (auto intro: agree_mono entry_step_forward)

lemma Struct_step_cong:
  assumes "agree (remaining r) vm vm'"
  shows "Struct_step vm s r = Struct_step vm' s r"
  unfolding Struct_step_def
proof (intro tag_cong if_cong payload_cong refl)
  fix r1 sub
  assume "remaining r1 < remaining r" "remaining sub < remaining r1"
  then have "agree (remaining sub) vm vm'"
    using assms by (auto intro: agree_mono)
  then show "while_unread (entry_step vm) ([], VNull) sub = while_unread (entry_step vm') ([], VNull) sub"
    by (rule entry_loop_cong)
qed

lemma Struct_loop_cong:
  "agree (remaining r) vm vm' \<Longrightarrow> while_unread (Struct_step vm) s r = while_unread (Struct_step vm') s r"
  by (intro while_unread_cong Struct_step_cong) (auto intro: agree_mono Struct_step_forward)

lemma ListValue_step_cong:
  assumes "agree (remaining r) vm vm'"
  shows "ListValue_step vm l r = ListValue_step vm' l r"
  unfolding ListValue_step_def
proof (intro tag_cong if_cong refl)
  fix r1
  assume lt: "remaining r1 < remaining r"
  have "decode VNull vm b = decode VNull vm' b" if b: "read_length_delimited r1 = Inr (b, r2)" for b r2
  proof -
    have "remaining (Reader_with_limits b default_limits) < remaining r"
      using lt length_payload [OF b] by (simp add: Reader_with_limits_def remaining_def)
    then show ?thesis
      using assms by (simp add: decode_def agree_def)
  qed
  then show "bind_result (read_length_delimited r1) (\<lambda>(body, r). bind_result (decode VNull vm body) (\<lambda>v. Inr (l @ [v], r)))
    = bind_result (read_length_delimited r1) (\<lambda>(body, r). bind_result (decode VNull vm' body) (\<lambda>v. Inr (l @ [v], r)))"
    by (cases "read_length_delimited r1") auto
qed

lemma ListValue_loop_cong:
  "agree (remaining r) vm vm' \<Longrightarrow> while_unread (ListValue_step vm) l r = while_unread (ListValue_step vm') l r"
  by (intro while_unread_cong ListValue_step_cong) (auto intro: agree_mono ListValue_step_forward)

lemma Value_step_cong:
  assumes "agree (remaining r) vm vm'"
  shows "Value_step vm m r = Value_step vm' m r"
  unfolding Value_step_def
proof (intro tag_cong if_cong payload_cong refl)
  fix r1 sub
  assume "remaining r1 < remaining r" "remaining sub < remaining r1"
  then have "agree (remaining sub) vm vm'"
    using assms by (auto intro: agree_mono)
  then show "while_unread (Struct_step vm) [] sub = while_unread (Struct_step vm') [] sub"
    and "while_unread (ListValue_step vm) [] sub = while_unread (ListValue_step vm') [] sub"
    by (simp_all add: Struct_loop_cong ListValue_loop_cong)
qed

lemma Value_loop_cong:
  "agree (remaining r) vm vm' \<Longrightarrow> while_unread (Value_step vm) m r = while_unread (Value_step vm') m r"
  by (intro while_unread_cong Value_step_cong) (auto intro: agree_mono Value_step_forward)

lemma Value_merge_fuel_agree: "n \<le> k \<Longrightarrow> n \<le> k' \<Longrightarrow> agree n (Value_merge_fuel k) (Value_merge_fuel k')"
proof (induction n arbitrary: k k')
  case (Suc n)
  then obtain j j' where k: "k = Suc j" "k' = Suc j'" "n \<le> j" "n \<le> j'"
    by (metis Suc_le_D Suc_le_mono)
  have "while_unread (Value_step (Value_merge_fuel j)) VNull r = while_unread (Value_step (Value_merge_fuel j')) VNull r"
    if "remaining r < Suc n" for r
    using Suc.IH [OF k(3,4)] that by (intro Value_loop_cong) (auto intro: agree_mono)
  then show ?case
    by (simp add: agree_def k)
qed (simp add: agree_def)

theorem Value_merge_unfold: "Value_merge m r = while_unread (Value_step Value_merge) VNull r"
proof -
  have "agree (remaining r) (Value_merge_fuel (remaining r)) Value_merge"
  proof -
    have "Value_merge_fuel (remaining r) m' r' = Value_merge_fuel (Suc (remaining r')) m' r'"
      if "remaining r' < remaining r" for m' r'
      using Value_merge_fuel_agree [of "Suc (remaining r')" "remaining r" "Suc (remaining r')"] that
      by (auto simp: agree_def Suc_le_eq simp del: Value_merge_fuel.simps)
    then show ?thesis by (simp add: agree_def Value_merge_def del: Value_merge_fuel.simps)
  qed
  then show ?thesis
    by (simp add: Value_merge_def Value_loop_cong)
qed

section \<open>Soundness\<close>

lemma sound_entry_step:
  assumes "\<And>m. sound n (vm m)"
  shows "sound_step (Suc n) (entry_step vm kv)"
  unfolding entry_step_def by ((rule sound_payloads_rec assms | rule sound_rules)+)

lemma sound_Struct_step:
  assumes "\<And>m. sound n (vm m)"
  shows "sound_step (Suc n) (Struct_step vm s)"
proof -
  have loop: "sound n (while_unread (entry_step vm) kv)" for kv
  proof (cases n)
    case (Suc k)
    then show ?thesis
      using sound_mono [OF assms] by (auto intro!: sound_while_unread sound_entry_step)
  qed (simp add: sound_def)
  show ?thesis
    unfolding Struct_step_def by ((rule sound_payloads_rec loop | rule sound_rules)+)
qed

lemma sound_step_decode:
  assumes "\<And>m. sound n (vm m)" and "\<And>v. sound (Suc n) (g v)"
  shows "sound_step (Suc n) (\<lambda>r. bind_result (read_length_delimited r) (\<lambda>(b, r1).
    bind_result (decode VNull vm b) (\<lambda>v. g v r1)))"
proof -
  let ?h = "\<lambda>r. bind_result (read_length_delimited r) (\<lambda>(b, r1). bind_result (decode VNull vm b) (\<lambda>v. Inr (v, r1)))"
  have d: "\<not> diverges (decode VNull vm b) \<and> (length b < 2 ^ 63 \<longrightarrow> \<not> panics (decode VNull vm b))" if "length b < n" for b
  proof -
    let ?r = "Reader_with_limits b default_limits"
    have p: "remaining ?r < n" "pos ?r \<le> length (buf ?r)" "limits ?r = default_limits"
      using that by (simp_all add: Reader_with_limits_def remaining_def)
    show ?thesis
      using soundD(2,3) [OF assms(1) p(1,2)] reader_ok_with_limits [of b default_limits] p(3)
      by (auto simp: decode_def diverges_bind panics_bind)
  qed
  have "sound_step (Suc n) ?h"
  proof (rule sound_stepI)
    show "strictly_forward r r'" if "?h r = Inr (v, r')" for r v r'
      using that by (auto simp: bind_result_eq_Inr dest: read_length_delimited_moved)
    have len: "length b < n" if "remaining r < Suc n" "read_length_delimited r = Inr (b, r1)" for r b r1
      using length_payload [OF that(2)] that(1) by simp
    show "\<not> diverges (?h r)" if "remaining r < Suc n" for r
      using d len [OF that] by (auto simp: diverges_bind)
    show "\<not> panics (?h r)" if "remaining r < Suc n" "reader_ok r" "capped (limits r)" for r
    proof (rule not_panics_bindI, rule read_length_delimited_no_panic [OF that(2,3)], goal_cases)
      case (1 y)
      obtain b r1 where y: "y = (b, r1)" by (cases y)
      have "length b < 2 ^ 63"
        using read_length_delimited_length [OF 1 [unfolded y]] that(2) by (simp add: reader_ok_def)
      with d [OF len [OF that(1) 1 [unfolded y]]] show ?case
        by (auto simp: y panics_bind)
    qed
  qed
  from sound_step_bind [OF this assms(2)] show ?thesis
    by (simp add: bind_result_assoc case_prod_unfold)
qed

lemma sound_ListValue_step:
  assumes "\<And>m. sound n (vm m)"
  shows "sound_step (Suc n) (ListValue_step vm l)"
  unfolding ListValue_step_def by ((rule sound_step_decode sound_step_decode [THEN sound_step_sound] assms | rule sound_rules)+)

lemma sound_value_loops:
  assumes "\<And>m. sound n (vm m)"
  shows "sound n (while_unread (Struct_step vm) s)" and "sound n (while_unread (ListValue_step vm) l)"
proof -
  have "sound k (vm m)" if "Suc k = n" for k m
    using sound_mono [OF assms, of k] that by simp
  then show "sound n (while_unread (Struct_step vm) s)" "sound n (while_unread (ListValue_step vm) l)"
    by (cases n; auto simp: sound_def [of 0] intro!: sound_while_unread sound_Struct_step sound_ListValue_step)+
qed

lemma sound_Value_step:
  assumes "\<And>m. sound n (vm m)"
  shows "sound_step (Suc n) (Value_step vm m)"
  unfolding Value_step_def
  by ((rule sound_payloads_rec sound_value_loops assms | rule sound_rules)+)

theorem sound_Value_merge: "sound n (Value_merge m)"
proof (induction n arbitrary: m)
  case (Suc n)
  have "Value_merge m = while_unread (Value_step Value_merge) VNull"
    by (rule ext, rule Value_merge_unfold)
  with Suc show ?case by (simp add: sound_while_unread sound_Value_step)
qed (simp add: sound_def)

section \<open>Round trip\<close>

fun value_ok :: "Value \<Rightarrow> bool" where
  "value_ok (VString s) = str_ok s"
| "value_ok (VStruct s) = (distinct (map fst s) \<and> (\<forall>kv \<in> set s. str_ok (fst kv) \<and> value_ok (snd kv)))"
| "value_ok (VList l) = (\<forall>v \<in> set l. value_ok v)"
| "value_ok _ = True"

fun value_bytes' :: "Value \<Rightarrow> byte list" where
  "value_bytes' VNull = tag_bytes 1 Varint @ varint 0"
| "value_bytes' (VNumber x) = tag_bytes 2 Fixed64 @ le_bytes 8 x"
| "value_bytes' (VString s) = tag_bytes 3 LengthDelimited @ length_delimited (as_bytes s)"
| "value_bytes' (VBool b) = tag_bytes 4 Varint @ varint (if b then 1 else 0)"
| "value_bytes' (VStruct s) = tag_bytes 5 LengthDelimited @ length_delimited (concat (map (\<lambda>kv.
     tag_bytes 1 LengthDelimited @ length_delimited (tag_bytes 1 LengthDelimited @ length_delimited (as_bytes (fst kv))
       @ tag_bytes 2 LengthDelimited @ length_delimited (value_bytes' (snd kv)))) s))"
| "value_bytes' (VList l) = tag_bytes 6 LengthDelimited @ length_delimited (concat (map (\<lambda>v.
     tag_bytes 1 LengthDelimited @ length_delimited (value_bytes' v)) l))"

text \<open>
  The nesting levels a decode enters: three per \<open>Struct\<close> (the struct, its entry, the value), but
  one per \<open>ListValue\<close> whatever it contains, because the elements are decoded from scratch.
\<close>

fun value_levels :: "Value \<Rightarrow> nat" where
  "value_levels (VStruct s) = Suc (fold max (map (\<lambda>kv. Suc (Suc (value_levels (snd kv)))) s) 0)"
| "value_levels (VList l) = 1"
| "value_levels _ = 0"

text \<open>The elements of every list inside a value can be decoded on their own.\<close>

fun list_levels_ok :: "Value \<Rightarrow> bool" where
  "list_levels_ok (VStruct s) = (\<forall>kv \<in> set s. list_levels_ok (snd kv))"
| "list_levels_ok (VList l) = (\<forall>v \<in> set l. value_levels v \<le> 100 \<and> list_levels_ok v)"
| "list_levels_ok _ = True"

definition value_fits :: "Value \<Rightarrow> bool" where
  "value_fits v \<longleftrightarrow> value_ok v \<and> list_levels_ok v \<and> length (value_bytes' v) \<le> 1000000"

definition entry_bytes' :: "string \<times> Value \<Rightarrow> byte list" where
  "entry_bytes' kv = tag_bytes 1 LengthDelimited @ length_delimited (tag_bytes 1 LengthDelimited
     @ length_delimited (as_bytes (fst kv)) @ tag_bytes 2 LengthDelimited @ length_delimited (value_bytes' (snd kv)))"

definition item_bytes :: "Value \<Rightarrow> byte list" where
  "item_bytes v = tag_bytes 1 LengthDelimited @ length_delimited (value_bytes' v)"

lemma value_bytes_fold:
  "value_bytes' (VStruct s) = tag_bytes 5 LengthDelimited @ length_delimited (concat (map entry_bytes' s))"
  "value_bytes' (VList l) = tag_bytes 6 LengthDelimited @ length_delimited (concat (map item_bytes l))"
  by (simp_all add: entry_bytes'_def [abs_def] item_bytes_def [abs_def])

lemma encode_bytes_eq: "f \<noteq> 0 \<Longrightarrow> (encode_message w f bs :: writer core_res) = Inr (emit w (tag_bytes f LengthDelimited @ length_delimited bs))"
  by (simp add: encode_message_def bytes.enc_eq)

lemma entry_bytes'_Pair:
  "entry_bytes' (k, v) = tag_bytes 1 LengthDelimited @ length_delimited (tag_bytes 1 LengthDelimited
     @ length_delimited (as_bytes k) @ tag_bytes 2 LengthDelimited @ length_delimited (value_bytes' v))"
  by (simp add: entry_bytes'_def)

lemma value_encode_eq:
  "Value_encode v w = Inr (emit w (value_bytes' v))"
  "Struct_encode s w = Inr (emit w (concat (map entry_bytes' s)))"
  "ListValue_encode l w = Inr (emit w (concat (map item_bytes l)))"
proof (induction v w and s w and l w rule: Value_encode_Struct_encode_ListValue_encode.induct)
qed (simp_all add: scalar_enc encode_bytes_eq value_bytes_fold entry_bytes'_Pair item_bytes_def [symmetric]
    del: value_bytes'.simps(5,6))

lemma le_fold_max: "x \<in> set xs \<Longrightarrow> (x :: nat) \<le> fold max xs a"
proof -
  assume "x \<in> set xs"
  then have "x \<le> Max (set (a # xs))" by (intro Max_ge) auto
  then show ?thesis by (simp only: Max.set_eq_fold)
qed

lemma length_concat_ge: "x \<in> set xs \<Longrightarrow> length (f x) \<le> length (concat (map f xs))"
  by (induction xs) auto

lemma length_sub_values:
  "kv \<in> set s \<Longrightarrow> length (value_bytes' (snd kv)) \<le> length (value_bytes' (VStruct s))"
  "v \<in> set l \<Longrightarrow> length (value_bytes' v) \<le> length (value_bytes' (VList l))"
  using length_concat_ge [of kv s entry_bytes'] length_concat_ge [of v l item_bytes]
  by (auto simp: value_bytes_fold entry_bytes'_def item_bytes_def length_delimited_def simp del: value_bytes'.simps)

lemma value_fits_sub:
  "value_fits (VStruct s) \<Longrightarrow> kv \<in> set s \<Longrightarrow> value_fits (snd kv) \<and> str_ok (fst kv)"
  "value_fits (VList l) \<Longrightarrow> v \<in> set l \<Longrightarrow> value_fits v \<and> value_levels v \<le> 100"
  using length_sub_values(1) [of kv s] length_sub_values(2) [of v l]
  by (auto simp: value_fits_def simp del: value_bytes'.simps)

section \<open>Decoding an encoding\<close>

lemma reads_entry:
  assumes "decodes d (Value_merge VNull) (value_bytes' (snd kv)) (snd kv)" and "str_ok (fst kv)"
  shows "reads (Suc (Suc d)) (Struct_step Value_merge s) (entry_bytes' kv) (hm_insert (fst kv) (snd kv) s)"
proof -
  have "reads (Suc d) (entry_step Value_merge ([], VNull)) (tag_bytes 1 LengthDelimited @ length_delimited (as_bytes (fst kv))) (fst kv, VNull)"
    unfolding entry_step_def using assms(2)
    by (intro reads_field) (auto intro!: reads_map scalar_reads(8))
  moreover have "reads (Suc d) (entry_step Value_merge (fst kv, VNull)) (tag_bytes 2 LengthDelimited @ length_delimited (value_bytes' (snd kv))) kv"
    unfolding entry_step_def
    by (rule reads_field) (auto intro!: reads_payload_return [OF assms(1)])
  ultimately have "loops (Suc d) (entry_step Value_merge) ([], VNull) ((tag_bytes 1 LengthDelimited @ length_delimited (as_bytes (fst kv)))
      @ (tag_bytes 2 LengthDelimited @ length_delimited (value_bytes' (snd kv)))) kv"
    by (intro loops_two) (simp_all add: tag_bytes_not_Nil)
  then have "decodes (Suc d) (while_unread (entry_step Value_merge) ([], VNull)) (tag_bytes 1 LengthDelimited @ length_delimited (as_bytes (fst kv))
      @ tag_bytes 2 LengthDelimited @ length_delimited (value_bytes' (snd kv))) kv"
    by (intro decodes_loops) simp
  then show ?thesis
    unfolding Struct_step_def entry_bytes'_def
    by (intro reads_field) (auto intro!: reads_payload_return)
qed

lemma Struct_loops:
  assumes "\<And>kv. kv \<in> set s \<Longrightarrow> decodes (value_levels (snd kv)) (Value_merge VNull) (value_bytes' (snd kv)) (snd kv)"
    and "\<And>kv. kv \<in> set s \<Longrightarrow> str_ok (fst kv)" and "distinct (map fst s)"
  shows "decodes (fold max (map (\<lambda>kv. Suc (Suc (value_levels (snd kv)))) s) 0) (Struct_merge []) (concat (map entry_bytes' s)) s"
proof -
  let ?d = "fold max (map (\<lambda>kv. Suc (Suc (value_levels (snd kv)))) s) 0"
  have "loops ?d (Struct_step Value_merge) m (entry_bytes' kv) (hm_insert (fst kv) (snd kv) m)" if "kv \<in> set s" for m kv
  proof -
    have "Suc (Suc (value_levels (snd kv))) \<le> ?d"
      using that by (intro le_fold_max) auto
    with reads_entry [OF assms(1) [OF that] assms(2) [OF that], of m] show ?thesis
      by (intro loops_one) (auto intro: reads_mono simp: entry_bytes'_def tag_bytes_not_Nil)
  qed
  then have "loops ?d (Struct_step Value_merge) [] (concat (map entry_bytes' s))
      (foldl (\<lambda>s kv. hm_insert (fst kv) (snd kv) s) [] s)"
    by (rule loops_concat)
  then show ?thesis
    using foldl_hm_insert [of "[]" s] assms(3) by (simp add: Struct_merge_def decodes_loops)
qed

lemma decode_value:
  assumes "decodes (value_levels v) (Value_merge VNull) (value_bytes' v) v" and "value_levels v \<le> 100"
    and "length (value_bytes' v) \<le> 1000000"
  shows "decode VNull Value_merge (value_bytes' v) = Inr v"
proof -
  let ?r = "Reader_new (value_bytes' v)"
  have a: "ample ?r" "room (value_levels v) ?r" "unread ?r = value_bytes' v"
    using ample_new [OF assms(3)] assms(2) by (auto intro: room_mono)
  obtain r' where "Value_merge VNull ?r = Inr (v, r')" "after ?r r' []"
    by (rule decodesE [OF assms(1) a])
  then show ?thesis
    by (simp add: decode_def Reader_new_def [symmetric] is_empty_unread after_def)
qed

lemma ListValue_loops:
  assumes "\<And>v. v \<in> set l \<Longrightarrow> decode VNull Value_merge (value_bytes' v) = Inr v"
  shows "decodes d (ListValue_merge []) (concat (map item_bytes l)) l"
proof -
  have "loops d (ListValue_step Value_merge) m (item_bytes v) (m @ [v])" if "v \<in> set l" for m v
  proof (rule loops_one)
    have "reads d (\<lambda>r. bind_result (read_length_delimited r) (\<lambda>(body, r). bind_result (decode VNull Value_merge body)
        (\<lambda>v. Inr (m @ [v], r)))) (length_delimited (value_bytes' v)) (m @ [v])"
    proof (rule readsI)
      fix r rest
      assume r: "ample r" "room d r" "unread r = length_delimited (value_bytes' v) @ rest"
      obtain r1 where "read_length_delimited r = Inr (value_bytes' v, r1)" "after r r1 rest"
        by (rule readsE [OF reads_length_delimited r])
      then show "\<exists>r'. bind_result (read_length_delimited r) (\<lambda>(body, r). bind_result (decode VNull Value_merge body)
        (\<lambda>v. Inr (m @ [v], r))) = Inr (m @ [v], r') \<and> after r r' rest"
        by (simp add: assms [OF that])
    qed
    then show "reads d (ListValue_step Value_merge m) (item_bytes v) (m @ [v])"
      unfolding ListValue_step_def item_bytes_def by (intro reads_field) simp_all
  qed (simp add: item_bytes_def tag_bytes_not_Nil)
  then have "loops d (ListValue_step Value_merge) [] (concat (map item_bytes l)) (foldl (\<lambda>m v. m @ [v]) [] l)"
    by (rule loops_concat)
  then show ?thesis
    by (simp add: ListValue_merge_def decodes_loops foldl_snoc)
qed

lemma Value_merge_eq: "Value_merge m = while_unread (Value_step Value_merge) VNull"
  by (rule ext, rule Value_merge_unfold)

lemma reads_value_payload:
  assumes "decodes d f bs x" and "fld < 2 ^ 29" and "0 < fld"
    and "\<And>r. Value_step Value_merge VNull r = bind_result (read_tag r) (\<lambda>(t, r). g t r)"
    and "g \<lparr>field_number = fld, wire_type = LengthDelimited\<rparr> = (\<lambda>r. bind_result (read_length_delimited r) (\<lambda>(b, r1).
       bind_result (nested r1 b) (\<lambda>sub. bind_result (f sub) (\<lambda>(x, _). Inr (k x, r1)))))"
  shows "decodes (Suc d) (Value_merge m) (tag_bytes fld LengthDelimited @ length_delimited bs) (k x)"
proof -
  have "reads (Suc d) (Value_step Value_merge VNull) (tag_bytes fld LengthDelimited @ length_delimited bs) (k x)"
    using reads_field [of fld "Suc d" g LengthDelimited "length_delimited bs" "k x"] reads_payload_return [OF assms(1) refl, of k]
      assms(2,3,5) by (simp add: assms(4) [abs_def])
  then show ?thesis
    unfolding Value_merge_eq [of m] by (intro decodes_loops loops_one) (simp_all add: tag_bytes_not_Nil)
qed

lemma decodes_scalar:
  assumes "reads 0 (Value_step Value_merge VNull) bs v" and "bs \<noteq> []"
  shows "decodes 0 (Value_merge m) bs v"
  unfolding Value_merge_eq [of m] using assms by (intro decodes_loops loops_one)

theorem Value_decodes: "value_fits v \<Longrightarrow> decodes (value_levels v) (Value_merge m) (value_bytes' v) v"
proof (induction v arbitrary: m)
  case VNull
  have "reads 0 (\<lambda>r. bind_result (read_int32 r) (\<lambda>(_, r). Inr (VNull, r))) (varint 0) VNull"
    using reads_map [OF scalar_reads(1) [of 0 0], of "\<lambda>_. VNull"] by simp
  then have "reads 0 (Value_step Value_merge VNull) (tag_bytes 1 Varint @ varint 0) VNull"
    unfolding Value_step_def by (intro reads_field) simp_all
  then show ?case by (simp add: decodes_scalar tag_bytes_not_Nil)
next
  case (VNumber x)
  have "reads 0 (Value_step Value_merge VNull) (value_bytes' (VNumber x)) (VNumber x)"
    unfolding Value_step_def value_bytes'.simps by (intro reads_field) (auto intro!: reads_map [OF scalar_reads(7)])
  then show ?case by (simp add: decodes_scalar tag_bytes_not_Nil)
next
  case (VString s)
  then have "reads 0 (Value_step Value_merge VNull) (value_bytes' (VString s)) (VString s)"
    unfolding Value_step_def value_bytes'.simps
    by (intro reads_field) (auto simp: value_fits_def intro!: reads_map [OF scalar_reads(8)])
  then show ?case by (simp add: decodes_scalar tag_bytes_not_Nil)
next
  case (VBool b)
  have "reads 0 (Value_step Value_merge VNull) (value_bytes' (VBool b)) (VBool b)"
    using reads_map [OF scalar_reads(5) [of 0 b], of VBool]
    unfolding Value_step_def value_bytes'.simps by (intro reads_field) simp_all
  then show ?case by (simp add: decodes_scalar tag_bytes_not_Nil)
next
  case (VStruct s)
  have "decodes (fold max (map (\<lambda>kv. Suc (Suc (value_levels (snd kv)))) s) 0) (Struct_merge []) (concat (map entry_bytes' s)) s"
  proof (rule Struct_loops)
    show "decodes (value_levels (snd kv)) (Value_merge VNull) (value_bytes' (snd kv)) (snd kv)" if "kv \<in> set s" for kv
      using that value_fits_sub(1) [OF VStruct.prems that] by (intro VStruct.IH) (auto simp: prod_set_simps snds.simps)
  qed (use VStruct.prems in \<open>auto simp: value_fits_def\<close>)
  from reads_value_payload [OF this, of 5 _ VStruct, OF _ _ Value_step_def] show ?case
    by (simp add: value_bytes_fold Struct_merge_def del: value_bytes'.simps)
next
  case (VList l)
  have "decodes 0 (ListValue_merge []) (concat (map item_bytes l)) l"
  proof (rule ListValue_loops)
    fix v
    assume v: "v \<in> set l"
    note f = value_fits_sub(2) [OF VList.prems v]
    then show "decode VNull Value_merge (value_bytes' v) = Inr v"
      using VList.IH [OF v] by (intro decode_value) (auto simp: value_fits_def)
  qed
  from reads_value_payload [OF this, of 6 _ VList, OF _ _ Value_step_def] show ?case
    by (simp add: value_bytes_fold ListValue_merge_def del: value_bytes'.simps)
qed

interpretation Value: message value_fits value_levels value_bytes' VNull Value_encode Value_merge
  by unfold_locales (simp_all add: value_encode_eq Value_decodes sound_Value_merge)

definition struct_fits :: "struct_value \<Rightarrow> bool" where
  "struct_fits s \<longleftrightarrow> distinct (map fst s) \<and> (\<forall>kv \<in> set s. str_ok (fst kv) \<and> value_fits (snd kv))"

definition struct_levels :: "struct_value \<Rightarrow> nat" where
  "struct_levels s = fold max (map (\<lambda>kv. Suc (Suc (value_levels (snd kv)))) s) 0"

interpretation Struct: message struct_fits struct_levels "\<lambda>s. concat (map entry_bytes' s)" "[]" Struct_encode Struct_merge
proof unfold_locales
  show "decodes (struct_levels s) (Struct_merge []) (concat (map entry_bytes' s)) s" if "struct_fits s" for s
    unfolding struct_levels_def using that
    by (intro Struct_loops Value_decodes) (auto simp: struct_fits_def)
  show "sound n (Struct_merge s)" for n s
    unfolding Struct_merge_def by (rule sound_value_loops) (rule sound_Value_merge)
qed (simp add: value_encode_eq)

interpretation ListValue: message "\<lambda>l. \<forall>v \<in> set l. value_fits v \<and> value_levels v \<le> 100" "\<lambda>_. 0"
  "\<lambda>l. concat (map item_bytes l)" "[]" ListValue_encode ListValue_merge
proof unfold_locales
  show "decodes 0 (ListValue_merge []) (concat (map item_bytes l)) l"
    if "\<forall>v \<in> set l. value_fits v \<and> value_levels v \<le> 100" for l
    using that by (intro ListValue_loops decode_value Value_decodes) (auto simp: value_fits_def)
  show "sound n (ListValue_merge l)" for n l
    unfolding ListValue_merge_def by (rule sound_value_loops) (rule sound_Value_merge)
qed (simp add: value_encode_eq)

end
