(* ===== verification/Message_Fields.thy ===== *)
theory Message_Fields
  imports Wkt_Value
begin

text \<open>
  What hand-written \<open>Message\<close> implementations are made of: a match on field number and wire
  type, values read into a field, sub-messages read through a nested reader or a fresh one,
  optional and repeated fields on the encoding side; with the lemmas that put the contract of a
  message together from its fields. \<open>rec_merge\<close> is the decoder of a message type that contains
  itself.
\<close>

section \<open>Decoding\<close>

abbreviation on_field :: "tag \<Rightarrow> u32 \<Rightarrow> wire_type \<Rightarrow> bool" where
  "on_field t f wt \<equiv> field_number t = f \<and> wire_type t = wt"

definition read_into :: "(reader \<Rightarrow> ('a \<times> reader) core_res) \<Rightarrow> reader \<Rightarrow> ('a \<Rightarrow> 'm) \<Rightarrow> ('m \<times> reader) core_res" where
  "read_into rd r k = bind_result (rd r) (\<lambda>(x, r). Inr (k x, r))"

definition skip_field :: "'m \<Rightarrow> tag \<Rightarrow> reader \<Rightarrow> ('m \<times> reader) core_res" where
  "skip_field m t r = bind_result (skip r (wire_type t)) (\<lambda>r. Inr (m, r))"

text \<open>A sub-message: its payload is read through a nested reader, or through a fresh one.\<close>

definition read_message :: "'a \<Rightarrow> ('a \<Rightarrow> reader \<Rightarrow> ('a \<times> reader) core_res) \<Rightarrow> reader \<Rightarrow> ('a \<times> reader) core_res" where
  "read_message empty_msg merge r =
     bind_result (read_length_delimited r) (\<lambda>(body, r).
       bind_result (nested r body) (\<lambda>sub. bind_result (merge empty_msg sub) (\<lambda>(x, _). Inr (x, r))))"

definition read_fresh :: "'a \<Rightarrow> ('a \<Rightarrow> reader \<Rightarrow> ('a \<times> reader) core_res) \<Rightarrow> reader \<Rightarrow> ('a \<times> reader) core_res" where
  "read_fresh empty_msg merge r =
     bind_result (read_length_delimited r) (\<lambda>(body, r).
       bind_result (merge empty_msg (Reader_new body)) (\<lambda>(x, _). Inr (x, r)))"

section \<open>Encoding\<close>

fun encode_messages :: "('a \<Rightarrow> writer \<Rightarrow> writer core_res) \<Rightarrow> u32 \<Rightarrow> 'a list \<Rightarrow> writer \<Rightarrow> writer core_res" where
  "encode_messages enc f [] w = Inr w"
| "encode_messages enc f (m # ms) w =
     bind_result (write_tag w f LengthDelimited) (\<lambda>w.
       bind_result (enc m Writer_new) (\<lambda>inner.
         encode_messages enc f ms (write_length_delimited w (wbuf inner))))"

lemma encode_messages_cong [fundef_cong]:
  assumes "ms = ms'" and "\<And>m w. m \<in> set ms' \<Longrightarrow> enc m w = enc' m w" and "f = f'" and "w = w'"
  shows "encode_messages enc f ms w = encode_messages enc' f' ms' w'"
  unfolding assms(1,3,4) using assms(2)
  by (induction ms' arbitrary: w') (auto intro!: bind_result_cong)

definition opt_bytes :: "u32 \<Rightarrow> wire_type \<Rightarrow> ('a \<Rightarrow> byte list) \<Rightarrow> 'a option \<Rightarrow> byte list" where
  "opt_bytes f wt pay v = (case v of None \<Rightarrow> [] | Some x \<Rightarrow> tag_bytes f wt @ pay x)"

definition rep_bytes :: "u32 \<Rightarrow> wire_type \<Rightarrow> ('a \<Rightarrow> byte list) \<Rightarrow> 'a list \<Rightarrow> byte list" where
  "rep_bytes f wt pay xs = concat (map (\<lambda>x. tag_bytes f wt @ pay x) xs)"

lemma opt_bytes_simps [simp]: "opt_bytes f wt pay None = []" "opt_bytes f wt pay (Some x) = tag_bytes f wt @ pay x"
  by (simp_all add: opt_bytes_def)

lemma rep_bytes_simps [simp]:
  "rep_bytes f wt pay [] = []" "rep_bytes f wt pay (x # xs) = tag_bytes f wt @ pay x @ rep_bytes f wt pay xs"
  by (simp_all add: rep_bytes_def)

lemma rep_bytes_cong [fundef_cong]:
  "xs = ys \<Longrightarrow> (\<And>x. x \<in> set ys \<Longrightarrow> pay x = pay' x) \<Longrightarrow> rep_bytes f wt pay xs = rep_bytes f wt pay' ys"
  unfolding rep_bytes_def by (intro arg_cong [of _ _ concat] map_cong) simp_all

abbreviation str_payload :: "string \<Rightarrow> byte list" where
  "str_payload s \<equiv> length_delimited (as_bytes s)"

abbreviation i32_payload :: "i32 \<Rightarrow> byte list" where
  "i32_payload v \<equiv> varint (scast v)"

abbreviation bool_payload :: "bool \<Rightarrow> byte list" where
  "bool_payload b \<equiv> varint (if b then 1 else 0)"

lemma encode_messages_eq:
  assumes "\<And>m w. m \<in> set ms \<Longrightarrow> enc m w = Inr (emit w (pay m))" and "f \<noteq> 0"
  shows "encode_messages enc f ms w = Inr (emit w (rep_bytes f LengthDelimited (\<lambda>m. length_delimited (pay m)) ms))"
  using assms(1) by (induction ms arbitrary: w) (simp_all add: assms(2) buffer_simps)

section \<open>Soundness of the handlers\<close>

lemma sound_read_into [sound_rules]:
  "sound_step n rd \<Longrightarrow> sound_step n (\<lambda>r. read_into rd r k)"
  "sound n rd \<Longrightarrow> sound n (\<lambda>r. read_into rd r k)"
  unfolding read_into_def by (intro sound_rules, assumption)+

lemma sound_skip_field [sound_rules]: "sound_step n (skip_field m t)" "sound n (skip_field m t)"
  unfolding skip_field_def [abs_def] by (intro sound_rules)+

lemma sound_read_message_rec: "sound n (merge m0) \<Longrightarrow> sound_step (Suc n) (read_message m0 merge)"
  unfolding read_message_def [abs_def] by (rule sound_step_payload_rec) (assumption | rule sound_return)+

lemma sound_read_message [sound_rules]: "sound n (merge m0) \<Longrightarrow> sound_step n (read_message m0 merge)"
  unfolding read_message_def [abs_def] by (rule sound_step_payload) (assumption | rule sound_return)+

lemma sound_read_fresh [sound_rules]:
  assumes "\<And>n. sound n (merge m0)"
  shows "sound_step n (read_fresh m0 merge)"
proof (rule sound_stepI)
  have p: "pos (Reader_new b) \<le> length (buf (Reader_new b))" for b
    by (simp add: Reader_new_def Reader_with_limits_def)
  show "strictly_forward r r'" if "read_fresh m0 merge r = Inr (v, r')" for r v r'
    using that by (auto simp: read_fresh_def bind_result_eq_Inr dest: read_length_delimited_moved)
  show "\<not> diverges (read_fresh m0 merge r)" for r
    using soundD(2) [OF assms lessI p] by (auto simp: read_fresh_def diverges_bind)
  show "\<not> panics (read_fresh m0 merge r)" if "reader_ok r" "capped (limits r)" for r
    unfolding read_fresh_def
  proof (rule not_panics_bindI, rule read_length_delimited_no_panic [OF that], goal_cases)
    case (1 y)
    obtain b r1 where y: "y = (b, r1)" by (cases y)
    have "length b < 2 ^ 63"
      using read_length_delimited_length [OF 1 [unfolded y]] that(1) by (simp add: reader_ok_def)
    then have "reader_ok (Reader_new b)" "capped (limits (Reader_new b))"
      using reader_ok_with_limits [of b default_limits] by (simp_all add: Reader_new_def Reader_with_limits_def)
    then show ?case
      using soundD(3) [OF assms lessI p] by (auto simp: y panics_bind)
  qed
qed

lemma sound_case_tag [sound_rules]:
  "(\<And>t. sound n (g t)) \<Longrightarrow> sound_step n (\<lambda>r. bind_result (read_tag r) (\<lambda>(t, r). g t r))"
  by (intro sound_rules)

section \<open>Reading back what was written\<close>

lemma reads_into: "reads d rd bs x \<Longrightarrow> k x = y \<Longrightarrow> reads d (\<lambda>r. read_into rd r k) bs y"
  unfolding read_into_def by (rule reads_map)

lemma reads_skip_field: "wire_value d (wire_type t) v \<Longrightarrow> reads d (skip_field m t) v m"
  unfolding skip_field_def [abs_def] by (rule reads_skip)

lemma reads_message: "decodes d (merge m0) bs x \<Longrightarrow> reads (Suc d) (read_message m0 merge) (length_delimited bs) x"
  unfolding read_message_def [abs_def] using reads_payload_return [of d "merge m0" bs x "\<lambda>x. x" x] by simp

lemma reads_fresh:
  assumes "decodes e (merge m0) bs x" and "e \<le> 100" and "length bs \<le> 1000000"
  shows "reads d (read_fresh m0 merge) (length_delimited bs) x"
proof -
  have a: "ample (Reader_new bs)" "room e (Reader_new bs)" "unread (Reader_new bs) = bs"
    using ample_new [OF assms(3)] assms(2) by (auto intro: room_mono)
  obtain r0 where "merge m0 (Reader_new bs) = Inr (x, r0)"
    by (rule decodesE [OF assms(1) a])
  then have "reads d (\<lambda>r. bind_result (merge m0 (Reader_new bs)) (\<lambda>(x, _). Inr (x, r))) [] x"
    by (simp add: reads_return)
  then show ?thesis
    using reads_bind [where f = read_length_delimited and v = bs and cs = "[]"
        and g = "\<lambda>b r. bind_result (merge m0 (Reader_new b)) (\<lambda>(x, _). Inr (x, r))", OF reads_length_delimited]
    by (simp add: read_fresh_def [abs_def])
qed

lemma loops_opt_then:
  assumes "\<And>x. v = Some x \<Longrightarrow> reads d (body s) (tag_bytes f wt @ pay x) (put (Some x) s)"
    and "put None s = s" and "loops d body (put v s) bs s'"
  shows "loops d body s (opt_bytes f wt pay v @ bs) s'"
proof (cases v)
  case None
  then show ?thesis using assms(2,3) by simp
next
  case (Some x)
  then show ?thesis
    using loops_step [OF assms(1) [OF Some] _ assms(3) [unfolded Some]] by (simp add: tag_bytes_not_Nil)
qed

text \<open>\<open>get\<close> and \<open>put\<close> are the selector and the update of the field.\<close>

lemma loops_rep_then:
  assumes "\<And>x s. x \<in> set xs \<Longrightarrow> reads d (body s) (tag_bytes f wt @ pay x) (put (get s @ [x]) s)"
    and "\<And>v s. get (put v s) = v" and "\<And>v w s. put v (put w s) = put v s" and "\<And>s. put (get s) s = s"
    and "get s = []" and "loops d body (put xs s) bs s'"
  shows "loops d body s (rep_bytes f wt pay xs @ bs) s'"
proof -
  have "loops d body t (rep_bytes f wt pay ys) (put (get t @ ys) t)" if "set ys \<subseteq> set xs" for ys t
    using that
  proof (induction ys arbitrary: t)
    case Nil
    show ?case by (simp add: assms(4) loops_done)
  next
    case (Cons y ys)
    have "loops d body (put (get t @ [y]) t) (rep_bytes f wt pay ys) (put (get t @ y # ys) t)"
      using Cons.IH [of "put (get t @ [y]) t"] Cons.prems by (simp add: assms(2,3))
    from loops_step [OF assms(1) _ this] Cons.prems show ?case
      by (simp add: tag_bytes_not_Nil)
  qed
  then have "loops d body s (rep_bytes f wt pay xs) (put xs s)"
    using assms(5) by (metis append_Nil subset_refl)
  from loops_append [OF this assms(6)] show ?thesis .
qed

section \<open>Recursive messages\<close>

primrec fix_fuel :: "(('m \<Rightarrow> reader \<Rightarrow> ('m \<times> reader) core_res) \<Rightarrow> 'm \<Rightarrow> reader \<Rightarrow> ('m \<times> reader) core_res)
    \<Rightarrow> nat \<Rightarrow> 'm \<Rightarrow> reader \<Rightarrow> ('m \<times> reader) core_res" where
  "fix_fuel body 0 = (\<lambda>m r. Inl Diverges)"
| "fix_fuel body (Suc n) = body (fix_fuel body n)"

definition rec_merge :: "(('m \<Rightarrow> reader \<Rightarrow> ('m \<times> reader) core_res) \<Rightarrow> 'm \<Rightarrow> reader \<Rightarrow> ('m \<times> reader) core_res)
    \<Rightarrow> 'm \<Rightarrow> reader \<Rightarrow> ('m \<times> reader) core_res" where
  "rec_merge body m r = fix_fuel body (Suc (remaining r)) m r"

text \<open>
  A recursive decoder calls itself on sub-readers only, which have less to read; then the fuel
  never runs out and \<open>rec_merge\<close> satisfies the recursive equation of the source.
\<close>

locale recursive_decoder =
  fixes body :: "('m \<Rightarrow> reader \<Rightarrow> ('m \<times> reader) core_res) \<Rightarrow> 'm \<Rightarrow> reader \<Rightarrow> ('m \<times> reader) core_res"
  assumes body_cong: "(\<And>m' r'. remaining r' < remaining r \<Longrightarrow> f m' r' = g m' r') \<Longrightarrow> body f m r = body g m r"
begin

lemma fuel_enough: "remaining r < n \<Longrightarrow> remaining r < k \<Longrightarrow> fix_fuel body n m r = fix_fuel body k m r"
proof (induction n arbitrary: k m r)
  case (Suc n)
  then obtain j where k: "k = Suc j" by (cases k) auto
  have "fix_fuel body n m' r' = fix_fuel body j m' r'" if "remaining r' < remaining r" for m' r'
    using Suc.IH [of r' j m'] Suc.prems that by (simp add: k)
  then show ?case
    by (simp add: k body_cong [of r "fix_fuel body n" "fix_fuel body j" m])
qed simp

lemma unfold: "rec_merge body m r = body (rec_merge body) m r"
proof -
  have "fix_fuel body (remaining r) m' r' = rec_merge body m' r'" if "remaining r' < remaining r" for m' r'
    unfolding rec_merge_def using that by (intro fuel_enough) simp_all
  then show ?thesis
    unfolding rec_merge_def [of body m r] fix_fuel.simps by (rule body_cong)
qed

lemma unfold_abs: "rec_merge body m = body (rec_merge body) m"
  by (rule ext, rule unfold)

lemma sound_rec:
  assumes "\<And>n f m. (\<And>m. sound n (f m)) \<Longrightarrow> sound (Suc n) (body f m)"
  shows "sound n (rec_merge body m)"
proof (induction n arbitrary: m)
  case (Suc n)
  then show ?case by (subst unfold_abs) (rule assms)
qed (simp add: sound_def)

end

text \<open>\<open>Value\<close> decodes itself this way.\<close>

interpretation value_decoder: recursive_decoder "\<lambda>vm m r. while_unread (Value_step vm) VNull r"
  by unfold_locales (rule Value_loop_cong, simp add: agree_def)

lemma read_message_cong:
  assumes "\<And>r'. remaining r' < remaining r \<Longrightarrow> f m0 r' = g m0 r'"
  shows "read_message m0 f r = read_message m0 g r"
  unfolding read_message_def using assms by (intro payload_cong)

end
