(* ===== verification/Descriptor_Types.thy ===== *)
theory Descriptor_Types
  imports Message_Fields
begin

text \<open>
  The descriptor messages (\<open>tpt-proto-descriptor/src/types.rs\<close>) with their encoders and the
  bodies of their decoding loops, and the queries on them (\<open>tpt-proto-descriptor/src/lib.rs\<close>).
  Every message is a record; \<open>DescriptorProto\<close>, which contains itself, is a datatype of its other
  fields (\<open>msg_own\<close>) and its nested messages.
\<close>

section \<open>Enumerations\<close>

datatype FieldType =
    TDouble
  | TFloat
  | TInt64
  | TUint64
  | TInt32
  | TFixed64
  | TFixed32
  | TBool
  | TString
  | TGroup
  | TMessage
  | TBytes
  | TUint32
  | TEnum
  | TSfixed32
  | TSfixed64
  | TSint32
  | TSint64

definition FieldType_from_i32 :: "i32 \<Rightarrow> FieldType option" where
  "FieldType_from_i32 v =
     (if v = 1 then Some TDouble
      else if v = 2 then Some TFloat
      else if v = 3 then Some TInt64
      else if v = 4 then Some TUint64
      else if v = 5 then Some TInt32
      else if v = 6 then Some TFixed64
      else if v = 7 then Some TFixed32
      else if v = 8 then Some TBool
      else if v = 9 then Some TString
      else if v = 10 then Some TGroup
      else if v = 11 then Some TMessage
      else if v = 12 then Some TBytes
      else if v = 13 then Some TUint32
      else if v = 14 then Some TEnum
      else if v = 15 then Some TSfixed32
      else if v = 16 then Some TSfixed64
      else if v = 17 then Some TSint32
      else if v = 18 then Some TSint64
      else None)"

fun FieldType_as_i32 :: "FieldType \<Rightarrow> i32" where
  "FieldType_as_i32 TDouble = 1"
| "FieldType_as_i32 TFloat = 2"
| "FieldType_as_i32 TInt64 = 3"
| "FieldType_as_i32 TUint64 = 4"
| "FieldType_as_i32 TInt32 = 5"
| "FieldType_as_i32 TFixed64 = 6"
| "FieldType_as_i32 TFixed32 = 7"
| "FieldType_as_i32 TBool = 8"
| "FieldType_as_i32 TString = 9"
| "FieldType_as_i32 TGroup = 10"
| "FieldType_as_i32 TMessage = 11"
| "FieldType_as_i32 TBytes = 12"
| "FieldType_as_i32 TUint32 = 13"
| "FieldType_as_i32 TEnum = 14"
| "FieldType_as_i32 TSfixed32 = 15"
| "FieldType_as_i32 TSfixed64 = 16"
| "FieldType_as_i32 TSint32 = 17"
| "FieldType_as_i32 TSint64 = 18"

datatype Label = Optional | Required | Repeated

definition Label_from_i32 :: "i32 \<Rightarrow> Label option" where
  "Label_from_i32 v =
     (if v = 1 then Some Optional else if v = 2 then Some Required else if v = 3 then Some Repeated else None)"

fun Label_as_i32 :: "Label \<Rightarrow> i32" where
  "Label_as_i32 Optional = 1"
| "Label_as_i32 Required = 2"
| "Label_as_i32 Repeated = 3"

section \<open>Messages\<close>

record Location =
  loc_path :: "i32 list"
  loc_span :: "i32 list"
  loc_leading_comments :: "string option"
  loc_trailing_comments :: "string option"
  loc_leading_detached_comments :: "string list"

record SourceCodeInfo =
  sci_locations :: "Location list"

record ReservedRange =
  rr_start :: i32
  rr_end :: i32

record ExtensionRange =
  er_start :: i32
  er_end :: i32

record FieldDescriptorProto =
  fld_name :: "string option"
  fld_number :: "i32 option"
  fld_label :: "Label option"
  fld_type :: "FieldType option"
  fld_type_name :: "string option"
  fld_extendee :: "string option"
  fld_default_value :: "string option"
  fld_oneof_index :: "i32 option"
  fld_json_name :: "string option"
  fld_options :: "byte list option"
  fld_proto3_optional :: "bool option"

record EnumValueDescriptorProto =
  ev_name :: "string option"
  ev_number :: "i32 option"
  ev_options :: "byte list option"

record EnumDescriptorProto =
  en_name :: "string option"
  en_value :: "EnumValueDescriptorProto list"
  en_options :: "byte list option"
  en_reserved_range :: "ReservedRange list"
  en_reserved_name :: "string list"

record OneofDescriptorProto =
  oo_name :: "string option"
  oo_options :: "byte list option"

record MethodDescriptorProto =
  mth_name :: "string option"
  mth_input_type :: "string option"
  mth_output_type :: "string option"
  mth_options :: "byte list option"
  mth_client_streaming :: "bool option"
  mth_server_streaming :: "bool option"

record ServiceDescriptorProto =
  svc_name :: "string option"
  svc_method :: "MethodDescriptorProto list"
  svc_options :: "byte list option"

record descriptor_fields =
  msg_name :: "string option"
  msg_field :: "FieldDescriptorProto list"
  msg_extension :: "FieldDescriptorProto list"
  msg_enum_type :: "EnumDescriptorProto list"
  msg_extension_range :: "ExtensionRange list"
  msg_oneof_decl :: "OneofDescriptorProto list"
  msg_options :: "byte list option"
  msg_reserved_range :: "ReservedRange list"
  msg_reserved_name :: "string list"

datatype DescriptorProto = DescriptorProto (msg_own: descriptor_fields) (msg_nested_type: "DescriptorProto list")

record FileDescriptorProto =
  file_name :: "string option"
  file_package :: "string option"
  file_dependency :: "string list"
  file_public_dependency :: "i32 list"
  file_weak_dependency :: "i32 list"
  file_message_type :: "DescriptorProto list"
  file_enum_type :: "EnumDescriptorProto list"
  file_service :: "ServiceDescriptorProto list"
  file_extension :: "FieldDescriptorProto list"
  file_options :: "byte list option"
  file_source_code_info :: "SourceCodeInfo option"
  file_syntax :: "string option"

record FileDescriptorSet =
  fds_file :: "FileDescriptorProto list"

text \<open>The derived \<open>Default\<close> instances.\<close>

definition Location_default :: Location where
  "Location_default =
     \<lparr>loc_path = [], loc_span = [], loc_leading_comments = None, loc_trailing_comments
      = None, loc_leading_detached_comments = []\<rparr>"

definition SourceCodeInfo_default :: SourceCodeInfo where
  "SourceCodeInfo_default =
     \<lparr>sci_locations = []\<rparr>"

definition ReservedRange_default :: ReservedRange where
  "ReservedRange_default =
     \<lparr>rr_start = 0, rr_end = 0\<rparr>"

definition ExtensionRange_default :: ExtensionRange where
  "ExtensionRange_default =
     \<lparr>er_start = 0, er_end = 0\<rparr>"

definition FieldDescriptorProto_default :: FieldDescriptorProto where
  "FieldDescriptorProto_default =
     \<lparr>fld_name = None, fld_number = None, fld_label = None, fld_type = None,
      fld_type_name = None, fld_extendee = None, fld_default_value = None, fld_oneof_index =
      None, fld_json_name = None, fld_options = None, fld_proto3_optional = None\<rparr>"

definition EnumValueDescriptorProto_default :: EnumValueDescriptorProto where
  "EnumValueDescriptorProto_default =
     \<lparr>ev_name = None, ev_number = None, ev_options = None\<rparr>"

definition EnumDescriptorProto_default :: EnumDescriptorProto where
  "EnumDescriptorProto_default =
     \<lparr>en_name = None, en_value = [], en_options = None, en_reserved_range = [],
      en_reserved_name = []\<rparr>"

definition OneofDescriptorProto_default :: OneofDescriptorProto where
  "OneofDescriptorProto_default =
     \<lparr>oo_name = None, oo_options = None\<rparr>"

definition MethodDescriptorProto_default :: MethodDescriptorProto where
  "MethodDescriptorProto_default =
     \<lparr>mth_name = None, mth_input_type = None, mth_output_type = None, mth_options =
      None, mth_client_streaming = None, mth_server_streaming = None\<rparr>"

definition ServiceDescriptorProto_default :: ServiceDescriptorProto where
  "ServiceDescriptorProto_default =
     \<lparr>svc_name = None, svc_method = [], svc_options = None\<rparr>"

definition DescriptorProto_default :: DescriptorProto where
  "DescriptorProto_default =
     DescriptorProto \<lparr>msg_name = None, msg_field = [], msg_extension = [],
      msg_enum_type = [], msg_extension_range = [], msg_oneof_decl = [], msg_options = None,
      msg_reserved_range = [], msg_reserved_name = []\<rparr> []"

definition FileDescriptorProto_default :: FileDescriptorProto where
  "FileDescriptorProto_default =
     \<lparr>file_name = None, file_package = None, file_dependency = [],
      file_public_dependency = [], file_weak_dependency = [], file_message_type = [],
      file_enum_type = [], file_service = [], file_extension = [], file_options = None,
      file_source_code_info = None, file_syntax = None\<rparr>"

definition FileDescriptorSet_default :: FileDescriptorSet where
  "FileDescriptorSet_default = \<lparr>fds_file = []\<rparr>"

section \<open>Encoding\<close>

definition encode_opt_str :: "writer \<Rightarrow> u32 \<Rightarrow> string option \<Rightarrow> writer core_res" where
  "encode_opt_str w f v = (case v of Some s \<Rightarrow> encode_string w f s | None \<Rightarrow> Inr w)"

fun encode_repeated_str :: "writer \<Rightarrow> u32 \<Rightarrow> string list \<Rightarrow> writer core_res" where
  "encode_repeated_str w f [] = Inr w"
| "encode_repeated_str w f (s # ss) = bind_result (encode_string w f s) (\<lambda>w. encode_repeated_str w f ss)"

fun encode_repeated_i32 :: "writer \<Rightarrow> u32 \<Rightarrow> i32 list \<Rightarrow> writer core_res" where
  "encode_repeated_i32 w f [] = Inr w"
| "encode_repeated_i32 w f (i # is) = bind_result (encode_int32 w f i) (\<lambda>w. encode_repeated_i32 w f is)"

definition encode_opt_i32 :: "writer \<Rightarrow> u32 \<Rightarrow> i32 option \<Rightarrow> writer core_res" where
  "encode_opt_i32 w f v = (case v of Some i \<Rightarrow> encode_int32 w f i | None \<Rightarrow> Inr w)"

definition encode_opt_bool :: "writer \<Rightarrow> u32 \<Rightarrow> bool option \<Rightarrow> writer core_res" where
  "encode_opt_bool w f v = (case v of Some b \<Rightarrow> encode_bool w f b | None \<Rightarrow> Inr w)"

definition encode_opt_bytes :: "writer \<Rightarrow> u32 \<Rightarrow> byte list option \<Rightarrow> writer core_res" where
  "encode_opt_bytes w f v = (case v of Some b \<Rightarrow> encode_bytes w f b | None \<Rightarrow> Inr w)"

definition Location_encode :: "Location \<Rightarrow> writer \<Rightarrow> writer core_res" where
  "Location_encode m w =
     bind_result (encode_repeated_i32 w 1 (loc_path m)) (\<lambda>w.
     bind_result (encode_repeated_i32 w 2 (loc_span m)) (\<lambda>w.
     bind_result (encode_opt_str w 3 (loc_leading_comments m)) (\<lambda>w.
     bind_result (encode_opt_str w 4 (loc_trailing_comments m)) (\<lambda>w.
     encode_repeated_str w 6 (loc_leading_detached_comments m)))))"

definition SourceCodeInfo_encode :: "SourceCodeInfo \<Rightarrow> writer \<Rightarrow> writer core_res" where
  "SourceCodeInfo_encode m w =
     encode_messages Location_encode 1 (sci_locations m) w"

definition ReservedRange_encode :: "ReservedRange \<Rightarrow> writer \<Rightarrow> writer core_res" where
  "ReservedRange_encode m w =
     bind_result (encode_opt_i32 w 1 (if rr_start m \<noteq> 0 then Some (rr_start m) else None)) (\<lambda>w.
     encode_opt_i32 w 2 (if rr_end m \<noteq> 0 then Some (rr_end m) else None))"

definition ExtensionRange_encode :: "ExtensionRange \<Rightarrow> writer \<Rightarrow> writer core_res" where
  "ExtensionRange_encode m w =
     bind_result (encode_opt_i32 w 1 (if er_start m \<noteq> 0 then Some (er_start m) else None)) (\<lambda>w.
     encode_opt_i32 w 2 (if er_end m \<noteq> 0 then Some (er_end m) else None))"

definition FieldDescriptorProto_encode :: "FieldDescriptorProto \<Rightarrow> writer \<Rightarrow> writer core_res" where
  "FieldDescriptorProto_encode m w =
     bind_result (encode_opt_str w 1 (fld_name m)) (\<lambda>w.
     bind_result (encode_opt_str w 2 (fld_extendee m)) (\<lambda>w.
     bind_result (encode_opt_i32 w 3 (fld_number m)) (\<lambda>w.
     bind_result (case (fld_label m) of None \<Rightarrow> Inr w | Some x \<Rightarrow> encode_int32 w 4 (Label_as_i32 x)) (\<lambda>w.
     bind_result (case (fld_type m) of None \<Rightarrow> Inr w | Some x \<Rightarrow> encode_int32 w 5 (FieldType_as_i32 x)) (\<lambda>w.
     bind_result (encode_opt_str w 6 (fld_type_name m)) (\<lambda>w.
     bind_result (encode_opt_str w 7 (fld_default_value m)) (\<lambda>w.
     bind_result (encode_opt_i32 w 9 (fld_oneof_index m)) (\<lambda>w.
     bind_result (encode_opt_str w 10 (fld_json_name m)) (\<lambda>w.
     bind_result (encode_opt_bytes w 8 (fld_options m)) (\<lambda>w.
     encode_opt_bool w 17 (fld_proto3_optional m)))))))))))"

definition EnumValueDescriptorProto_encode :: "EnumValueDescriptorProto \<Rightarrow> writer \<Rightarrow> writer core_res" where
  "EnumValueDescriptorProto_encode m w =
     bind_result (encode_opt_str w 1 (ev_name m)) (\<lambda>w.
     bind_result (encode_opt_i32 w 2 (ev_number m)) (\<lambda>w.
     encode_opt_bytes w 3 (ev_options m)))"

definition EnumDescriptorProto_encode :: "EnumDescriptorProto \<Rightarrow> writer \<Rightarrow> writer core_res" where
  "EnumDescriptorProto_encode m w =
     bind_result (encode_opt_str w 1 (en_name m)) (\<lambda>w.
     bind_result (encode_messages EnumValueDescriptorProto_encode 2 (en_value m) w) (\<lambda>w.
     bind_result (encode_opt_bytes w 3 (en_options m)) (\<lambda>w.
     bind_result (encode_messages ReservedRange_encode 4 (en_reserved_range m) w) (\<lambda>w.
     encode_repeated_str w 5 (en_reserved_name m)))))"

definition OneofDescriptorProto_encode :: "OneofDescriptorProto \<Rightarrow> writer \<Rightarrow> writer core_res" where
  "OneofDescriptorProto_encode m w =
     bind_result (encode_opt_str w 1 (oo_name m)) (\<lambda>w.
     encode_opt_bytes w 2 (oo_options m))"

definition MethodDescriptorProto_encode :: "MethodDescriptorProto \<Rightarrow> writer \<Rightarrow> writer core_res" where
  "MethodDescriptorProto_encode m w =
     bind_result (encode_opt_str w 1 (mth_name m)) (\<lambda>w.
     bind_result (encode_opt_str w 2 (mth_input_type m)) (\<lambda>w.
     bind_result (encode_opt_str w 3 (mth_output_type m)) (\<lambda>w.
     bind_result (encode_opt_bytes w 4 (mth_options m)) (\<lambda>w.
     bind_result (encode_opt_bool w 5 (mth_client_streaming m)) (\<lambda>w.
     encode_opt_bool w 6 (mth_server_streaming m))))))"

definition ServiceDescriptorProto_encode :: "ServiceDescriptorProto \<Rightarrow> writer \<Rightarrow> writer core_res" where
  "ServiceDescriptorProto_encode m w =
     bind_result (encode_opt_str w 1 (svc_name m)) (\<lambda>w.
     bind_result (encode_messages MethodDescriptorProto_encode 2 (svc_method m) w) (\<lambda>w.
     encode_opt_bytes w 3 (svc_options m)))"

function DescriptorProto_encode :: "DescriptorProto \<Rightarrow> writer \<Rightarrow> writer core_res" where
  "DescriptorProto_encode (DescriptorProto d ns) w =
     bind_result (encode_opt_str w 1 (msg_name d)) (\<lambda>w.
     bind_result (encode_messages FieldDescriptorProto_encode 2 (msg_field d) w) (\<lambda>w.
     bind_result (encode_messages FieldDescriptorProto_encode 6 (msg_extension d) w) (\<lambda>w.
     bind_result (encode_messages DescriptorProto_encode 3 ns w) (\<lambda>w.
     bind_result (encode_messages EnumDescriptorProto_encode 4 (msg_enum_type d) w) (\<lambda>w.
     bind_result (encode_messages ExtensionRange_encode 5 (msg_extension_range d) w) (\<lambda>w.
     bind_result (encode_messages OneofDescriptorProto_encode 8 (msg_oneof_decl d) w) (\<lambda>w.
     bind_result (encode_opt_bytes w 7 (msg_options d)) (\<lambda>w.
     bind_result (encode_messages ReservedRange_encode 9 (msg_reserved_range d) w) (\<lambda>w.
     encode_repeated_str w 10 (msg_reserved_name d))))))))))"
  by pat_completeness auto
termination DescriptorProto_encode
  by (relation "measure (\<lambda>(m, w). size m)") (auto dest: size_list_estimation' [of _ _ _ size])

definition FileDescriptorProto_encode :: "FileDescriptorProto \<Rightarrow> writer \<Rightarrow> writer core_res" where
  "FileDescriptorProto_encode m w =
     bind_result (encode_opt_str w 1 (file_name m)) (\<lambda>w.
     bind_result (encode_opt_str w 2 (file_package m)) (\<lambda>w.
     bind_result (encode_repeated_str w 3 (file_dependency m)) (\<lambda>w.
     bind_result (encode_repeated_i32 w 10 (file_public_dependency m)) (\<lambda>w.
     bind_result (encode_repeated_i32 w 11 (file_weak_dependency m)) (\<lambda>w.
     bind_result (encode_messages DescriptorProto_encode 4 (file_message_type m) w) (\<lambda>w.
     bind_result (encode_messages EnumDescriptorProto_encode 5 (file_enum_type m) w) (\<lambda>w.
     bind_result (encode_messages ServiceDescriptorProto_encode 6 (file_service m) w) (\<lambda>w.
     bind_result (encode_messages FieldDescriptorProto_encode 7 (file_extension m) w) (\<lambda>w.
     bind_result (encode_opt_bytes w 8 (file_options m)) (\<lambda>w.
     bind_result (case (file_source_code_info m) of None \<Rightarrow> Inr w | Some x \<Rightarrow> encode_messages SourceCodeInfo_encode 9 [x] w) (\<lambda>w.
     encode_opt_str w 12 (file_syntax m))))))))))))"

definition FileDescriptorSet_encode :: "FileDescriptorSet \<Rightarrow> writer \<Rightarrow> writer core_res" where
  "FileDescriptorSet_encode m w = encode_messages FileDescriptorProto_encode 1 (fds_file m) w"

section \<open>Decoding\<close>

definition Location_step :: "Location \<Rightarrow> reader \<Rightarrow> (Location \<times> reader) core_res" where
  "Location_step m r = bind_result (read_tag r) (\<lambda>(t, r).
     if on_field t 1 Varint then read_into read_int32 r (\<lambda>v. m\<lparr>loc_path := loc_path m @ [v]\<rparr>)
     else if on_field t 2 Varint then read_into read_int32 r (\<lambda>v. m\<lparr>loc_span := loc_span m @ [v]\<rparr>)
     else if on_field t 3 LengthDelimited then read_into read_string_owned r (\<lambda>v. m\<lparr>loc_leading_comments := Some v\<rparr>)
     else if on_field t 4 LengthDelimited then read_into read_string_owned r (\<lambda>v. m\<lparr>loc_trailing_comments := Some v\<rparr>)
     else if on_field t 6 LengthDelimited then read_into read_string_owned r (\<lambda>v. m\<lparr>loc_leading_detached_comments := loc_leading_detached_comments m @ [v]\<rparr>)
     else skip_field m t r)"

definition SourceCodeInfo_step :: "SourceCodeInfo \<Rightarrow> reader \<Rightarrow> (SourceCodeInfo \<times> reader) core_res" where
  "SourceCodeInfo_step m r = bind_result (read_tag r) (\<lambda>(t, r).
     if on_field t 1 LengthDelimited then read_into (read_message Location_default (while_unread Location_step)) r (\<lambda>v. m\<lparr>sci_locations := sci_locations m @ [v]\<rparr>)
     else skip_field m t r)"

definition ReservedRange_step :: "ReservedRange \<Rightarrow> reader \<Rightarrow> (ReservedRange \<times> reader) core_res" where
  "ReservedRange_step m r = bind_result (read_tag r) (\<lambda>(t, r).
     if on_field t 1 Varint then read_into read_int32 r (\<lambda>v. m\<lparr>rr_start := v\<rparr>)
     else if on_field t 2 Varint then read_into read_int32 r (\<lambda>v. m\<lparr>rr_end := v\<rparr>)
     else skip_field m t r)"

definition ExtensionRange_step :: "ExtensionRange \<Rightarrow> reader \<Rightarrow> (ExtensionRange \<times> reader) core_res" where
  "ExtensionRange_step m r = bind_result (read_tag r) (\<lambda>(t, r).
     if on_field t 1 Varint then read_into read_int32 r (\<lambda>v. m\<lparr>er_start := v\<rparr>)
     else if on_field t 2 Varint then read_into read_int32 r (\<lambda>v. m\<lparr>er_end := v\<rparr>)
     else skip_field m t r)"

definition FieldDescriptorProto_step :: "FieldDescriptorProto \<Rightarrow> reader \<Rightarrow> (FieldDescriptorProto \<times> reader) core_res" where
  "FieldDescriptorProto_step m r = bind_result (read_tag r) (\<lambda>(t, r).
     if on_field t 1 LengthDelimited then read_into read_string_owned r (\<lambda>v. m\<lparr>fld_name := Some v\<rparr>)
     else if on_field t 2 LengthDelimited then read_into read_string_owned r (\<lambda>v. m\<lparr>fld_extendee := Some v\<rparr>)
     else if on_field t 3 Varint then read_into read_int32 r (\<lambda>v. m\<lparr>fld_number := Some v\<rparr>)
     else if on_field t 4 Varint then read_into read_int32 r (\<lambda>v. m\<lparr>fld_label := Label_from_i32 v\<rparr>)
     else if on_field t 5 Varint then read_into read_int32 r (\<lambda>v. m\<lparr>fld_type := FieldType_from_i32 v\<rparr>)
     else if on_field t 6 LengthDelimited then read_into read_string_owned r (\<lambda>v. m\<lparr>fld_type_name := Some v\<rparr>)
     else if on_field t 7 LengthDelimited then read_into read_string_owned r (\<lambda>v. m\<lparr>fld_default_value := Some v\<rparr>)
     else if on_field t 8 LengthDelimited then read_into read_length_delimited r (\<lambda>v. m\<lparr>fld_options := Some v\<rparr>)
     else if on_field t 9 Varint then read_into read_int32 r (\<lambda>v. m\<lparr>fld_oneof_index := Some v\<rparr>)
     else if on_field t 10 LengthDelimited then read_into read_string_owned r (\<lambda>v. m\<lparr>fld_json_name := Some v\<rparr>)
     else if on_field t 17 Varint then read_into read_bool r (\<lambda>v. m\<lparr>fld_proto3_optional := Some v\<rparr>)
     else skip_field m t r)"

definition EnumValueDescriptorProto_step :: "EnumValueDescriptorProto \<Rightarrow> reader \<Rightarrow> (EnumValueDescriptorProto \<times> reader) core_res" where
  "EnumValueDescriptorProto_step m r = bind_result (read_tag r) (\<lambda>(t, r).
     if on_field t 1 LengthDelimited then read_into read_string_owned r (\<lambda>v. m\<lparr>ev_name := Some v\<rparr>)
     else if on_field t 2 Varint then read_into read_int32 r (\<lambda>v. m\<lparr>ev_number := Some v\<rparr>)
     else if on_field t 3 LengthDelimited then read_into read_length_delimited r (\<lambda>v. m\<lparr>ev_options := Some v\<rparr>)
     else skip_field m t r)"

definition EnumDescriptorProto_step :: "EnumDescriptorProto \<Rightarrow> reader \<Rightarrow> (EnumDescriptorProto \<times> reader) core_res" where
  "EnumDescriptorProto_step m r = bind_result (read_tag r) (\<lambda>(t, r).
     if on_field t 1 LengthDelimited then read_into read_string_owned r (\<lambda>v. m\<lparr>en_name := Some v\<rparr>)
     else if on_field t 2 LengthDelimited then read_into (read_message EnumValueDescriptorProto_default (while_unread EnumValueDescriptorProto_step)) r (\<lambda>v. m\<lparr>en_value := en_value m @ [v]\<rparr>)
     else if on_field t 3 LengthDelimited then read_into read_length_delimited r (\<lambda>v. m\<lparr>en_options := Some v\<rparr>)
     else if on_field t 4 LengthDelimited then read_into (read_message ReservedRange_default (while_unread ReservedRange_step)) r (\<lambda>v. m\<lparr>en_reserved_range := en_reserved_range m @ [v]\<rparr>)
     else if on_field t 5 LengthDelimited then read_into read_string_owned r (\<lambda>v. m\<lparr>en_reserved_name := en_reserved_name m @ [v]\<rparr>)
     else skip_field m t r)"

definition OneofDescriptorProto_step :: "OneofDescriptorProto \<Rightarrow> reader \<Rightarrow> (OneofDescriptorProto \<times> reader) core_res" where
  "OneofDescriptorProto_step m r = bind_result (read_tag r) (\<lambda>(t, r).
     if on_field t 1 LengthDelimited then read_into read_string_owned r (\<lambda>v. m\<lparr>oo_name := Some v\<rparr>)
     else if on_field t 2 LengthDelimited then read_into read_length_delimited r (\<lambda>v. m\<lparr>oo_options := Some v\<rparr>)
     else skip_field m t r)"

definition MethodDescriptorProto_step :: "MethodDescriptorProto \<Rightarrow> reader \<Rightarrow> (MethodDescriptorProto \<times> reader) core_res" where
  "MethodDescriptorProto_step m r = bind_result (read_tag r) (\<lambda>(t, r).
     if on_field t 1 LengthDelimited then read_into read_string_owned r (\<lambda>v. m\<lparr>mth_name := Some v\<rparr>)
     else if on_field t 2 LengthDelimited then read_into read_string_owned r (\<lambda>v. m\<lparr>mth_input_type := Some v\<rparr>)
     else if on_field t 3 LengthDelimited then read_into read_string_owned r (\<lambda>v. m\<lparr>mth_output_type := Some v\<rparr>)
     else if on_field t 4 LengthDelimited then read_into read_length_delimited r (\<lambda>v. m\<lparr>mth_options := Some v\<rparr>)
     else if on_field t 5 Varint then read_into read_bool r (\<lambda>v. m\<lparr>mth_client_streaming := Some v\<rparr>)
     else if on_field t 6 Varint then read_into read_bool r (\<lambda>v. m\<lparr>mth_server_streaming := Some v\<rparr>)
     else skip_field m t r)"

definition ServiceDescriptorProto_step :: "ServiceDescriptorProto \<Rightarrow> reader \<Rightarrow> (ServiceDescriptorProto \<times> reader) core_res" where
  "ServiceDescriptorProto_step m r = bind_result (read_tag r) (\<lambda>(t, r).
     if on_field t 1 LengthDelimited then read_into read_string_owned r (\<lambda>v. m\<lparr>svc_name := Some v\<rparr>)
     else if on_field t 2 LengthDelimited then read_into (read_message MethodDescriptorProto_default (while_unread MethodDescriptorProto_step)) r (\<lambda>v. m\<lparr>svc_method := svc_method m @ [v]\<rparr>)
     else if on_field t 3 LengthDelimited then read_into read_length_delimited r (\<lambda>v. m\<lparr>svc_options := Some v\<rparr>)
     else skip_field m t r)"

definition DescriptorProto_step :: "(DescriptorProto \<Rightarrow> reader \<Rightarrow> (DescriptorProto \<times> reader) core_res)
    \<Rightarrow> DescriptorProto \<Rightarrow> reader \<Rightarrow> (DescriptorProto \<times> reader) core_res" where
  "DescriptorProto_step merge m r = bind_result (read_tag r) (\<lambda>(t, r).
     if on_field t 1 LengthDelimited then read_into read_string_owned r (\<lambda>v. DescriptorProto ((msg_own m)\<lparr>msg_name := Some v\<rparr>) (msg_nested_type m))
     else if on_field t 2 LengthDelimited then read_into (read_message FieldDescriptorProto_default (while_unread FieldDescriptorProto_step)) r (\<lambda>v. DescriptorProto ((msg_own m)\<lparr>msg_field := msg_field (msg_own m) @ [v]\<rparr>) (msg_nested_type m))
     else if on_field t 6 LengthDelimited then read_into (read_message FieldDescriptorProto_default (while_unread FieldDescriptorProto_step)) r (\<lambda>v. DescriptorProto ((msg_own m)\<lparr>msg_extension := msg_extension (msg_own m) @ [v]\<rparr>) (msg_nested_type m))
     else if on_field t 3 LengthDelimited then read_into (read_message DescriptorProto_default merge) r (\<lambda>v. DescriptorProto (msg_own m) (msg_nested_type m @ [v]))
     else if on_field t 4 LengthDelimited then read_into (read_message EnumDescriptorProto_default (while_unread EnumDescriptorProto_step)) r (\<lambda>v. DescriptorProto ((msg_own m)\<lparr>msg_enum_type := msg_enum_type (msg_own m) @ [v]\<rparr>) (msg_nested_type m))
     else if on_field t 5 LengthDelimited then read_into (read_message ExtensionRange_default (while_unread ExtensionRange_step)) r (\<lambda>v. DescriptorProto ((msg_own m)\<lparr>msg_extension_range := msg_extension_range (msg_own m) @ [v]\<rparr>) (msg_nested_type m))
     else if on_field t 8 LengthDelimited then read_into (read_message OneofDescriptorProto_default (while_unread OneofDescriptorProto_step)) r (\<lambda>v. DescriptorProto ((msg_own m)\<lparr>msg_oneof_decl := msg_oneof_decl (msg_own m) @ [v]\<rparr>) (msg_nested_type m))
     else if on_field t 7 LengthDelimited then read_into read_length_delimited r (\<lambda>v. DescriptorProto ((msg_own m)\<lparr>msg_options := Some v\<rparr>) (msg_nested_type m))
     else if on_field t 9 LengthDelimited then read_into (read_message ReservedRange_default (while_unread ReservedRange_step)) r (\<lambda>v. DescriptorProto ((msg_own m)\<lparr>msg_reserved_range := msg_reserved_range (msg_own m) @ [v]\<rparr>) (msg_nested_type m))
     else if on_field t 10 LengthDelimited then read_into read_string_owned r (\<lambda>v. DescriptorProto ((msg_own m)\<lparr>msg_reserved_name := msg_reserved_name (msg_own m) @ [v]\<rparr>) (msg_nested_type m))
     else skip_field m t r)"

definition DescriptorProto_merge :: "DescriptorProto \<Rightarrow> reader \<Rightarrow> (DescriptorProto \<times> reader) core_res" where
  "DescriptorProto_merge = rec_merge (\<lambda>merge. while_unread (DescriptorProto_step merge))"

definition FileDescriptorProto_step :: "FileDescriptorProto \<Rightarrow> reader \<Rightarrow> (FileDescriptorProto \<times> reader) core_res" where
  "FileDescriptorProto_step m r = bind_result (read_tag r) (\<lambda>(t, r).
     if on_field t 1 LengthDelimited then read_into read_string_owned r (\<lambda>v. m\<lparr>file_name := Some v\<rparr>)
     else if on_field t 2 LengthDelimited then read_into read_string_owned r (\<lambda>v. m\<lparr>file_package := Some v\<rparr>)
     else if on_field t 3 LengthDelimited then read_into read_string_owned r (\<lambda>v. m\<lparr>file_dependency := file_dependency m @ [v]\<rparr>)
     else if on_field t 10 Varint then read_into read_int32 r (\<lambda>v. m\<lparr>file_public_dependency := file_public_dependency m @ [v]\<rparr>)
     else if on_field t 11 Varint then read_into read_int32 r (\<lambda>v. m\<lparr>file_weak_dependency := file_weak_dependency m @ [v]\<rparr>)
     else if on_field t 4 LengthDelimited then read_into (read_message DescriptorProto_default DescriptorProto_merge) r (\<lambda>v. m\<lparr>file_message_type := file_message_type m @ [v]\<rparr>)
     else if on_field t 5 LengthDelimited then read_into (read_message EnumDescriptorProto_default (while_unread EnumDescriptorProto_step)) r (\<lambda>v. m\<lparr>file_enum_type := file_enum_type m @ [v]\<rparr>)
     else if on_field t 6 LengthDelimited then read_into (read_message ServiceDescriptorProto_default (while_unread ServiceDescriptorProto_step)) r (\<lambda>v. m\<lparr>file_service := file_service m @ [v]\<rparr>)
     else if on_field t 7 LengthDelimited then read_into (read_message FieldDescriptorProto_default (while_unread FieldDescriptorProto_step)) r (\<lambda>v. m\<lparr>file_extension := file_extension m @ [v]\<rparr>)
     else if on_field t 8 LengthDelimited then read_into read_length_delimited r (\<lambda>v. m\<lparr>file_options := Some v\<rparr>)
     else if on_field t 9 LengthDelimited then read_into (read_message SourceCodeInfo_default (while_unread SourceCodeInfo_step)) r (\<lambda>v. m\<lparr>file_source_code_info := Some v\<rparr>)
     else if on_field t 12 LengthDelimited then read_into read_string_owned r (\<lambda>v. m\<lparr>file_syntax := Some v\<rparr>)
     else skip_field m t r)"

definition FileDescriptorSet_step :: "FileDescriptorSet \<Rightarrow> reader \<Rightarrow> (FileDescriptorSet \<times> reader) core_res" where
  "FileDescriptorSet_step m r = bind_result (read_tag r) (\<lambda>(t, r).
     if on_field t 1 LengthDelimited
     then read_into (read_fresh FileDescriptorProto_default (while_unread FileDescriptorProto_step)) r
            (\<lambda>v. m\<lparr>fds_file := fds_file m @ [v]\<rparr>)
     else skip_field m t r)"

section \<open>Queries\<close>

definition find_field_by_name :: "DescriptorProto \<Rightarrow> string \<Rightarrow> FieldDescriptorProto option" where
  "find_field_by_name m n = find (\<lambda>f. fld_name f = Some n) (msg_field (msg_own m))"

definition find_field_by_number :: "DescriptorProto \<Rightarrow> i32 \<Rightarrow> FieldDescriptorProto option" where
  "find_field_by_number m n = find (\<lambda>f. fld_number f = Some n) (msg_field (msg_own m))"

definition find_oneof_by_name :: "DescriptorProto \<Rightarrow> string \<Rightarrow> OneofDescriptorProto option" where
  "find_oneof_by_name m n = find (\<lambda>f. oo_name f = Some n) (msg_oneof_decl (msg_own m))"

definition find_nested_message :: "DescriptorProto \<Rightarrow> string \<Rightarrow> DescriptorProto option" where
  "find_nested_message m n = find (\<lambda>d. msg_name (msg_own d) = Some n) (msg_nested_type m)"

definition find_nested_enum :: "DescriptorProto \<Rightarrow> string \<Rightarrow> EnumDescriptorProto option" where
  "find_nested_enum m n = find (\<lambda>e. en_name e = Some n) (msg_enum_type (msg_own m))"

definition find_value_by_name :: "EnumDescriptorProto \<Rightarrow> string \<Rightarrow> EnumValueDescriptorProto option" where
  "find_value_by_name e n = find (\<lambda>v. ev_name v = Some n) (en_value e)"

definition find_value_by_number :: "EnumDescriptorProto \<Rightarrow> i32 \<Rightarrow> EnumValueDescriptorProto option" where
  "find_value_by_number e n = find (\<lambda>v. ev_number v = Some n) (en_value e)"

definition find_message :: "FileDescriptorProto \<Rightarrow> string \<Rightarrow> DescriptorProto option" where
  "find_message f n = find (\<lambda>m. msg_name (msg_own m) = Some n) (file_message_type f)"

definition find_enum :: "FileDescriptorProto \<Rightarrow> string \<Rightarrow> EnumDescriptorProto option" where
  "find_enum f n = find (\<lambda>e. en_name e = Some n) (file_enum_type f)"

definition find_service :: "FileDescriptorProto \<Rightarrow> string \<Rightarrow> ServiceDescriptorProto option" where
  "find_service f n = find (\<lambda>s. svc_name s = Some n) (file_service f)"

definition find_file :: "FileDescriptorSet \<Rightarrow> string \<Rightarrow> FileDescriptorProto option" where
  "find_file s n = find (\<lambda>f. file_name f = Some n) (fds_file s)"

end
