(* ===== verification/Descriptor.thy ===== *)
theory Descriptor
  imports Descriptor_Types
begin

text \<open>
  Every descriptor message satisfies the contract \<open>field_message\<close>: its encoding is read back
  exactly, fields it does not know are skipped, and decoding is total. The contracts are put
  together field by field.
\<close>

section \<open>Enumerations\<close>

lemma FieldType_from_as_i32 [simp]: "FieldType_from_i32 (FieldType_as_i32 t) = Some t"
  by (cases t) (simp_all add: FieldType_from_i32_def)

lemma Label_from_as_i32 [simp]: "Label_from_i32 (Label_as_i32 l) = Some l"
  by (cases l) (simp_all add: Label_from_i32_def)

section \<open>Encodings of the fields\<close>

abbreviation nonzero :: "i32 \<Rightarrow> i32 option" where
  "nonzero v \<equiv> if v \<noteq> 0 then Some v else None"

lemma encode_opt_eq:
  "f \<noteq> 0 \<Longrightarrow> encode_opt_str w f s = Inr (emit w (opt_bytes f LengthDelimited str_payload s))"
  "f \<noteq> 0 \<Longrightarrow> encode_opt_i32 w f i = Inr (emit w (opt_bytes f Varint i32_payload i))"
  "f \<noteq> 0 \<Longrightarrow> encode_opt_bool w f b = Inr (emit w (opt_bytes f Varint bool_payload b))"
  "f \<noteq> 0 \<Longrightarrow> encode_opt_bytes w f bs = Inr (emit w (opt_bytes f LengthDelimited length_delimited bs))"
  by (cases s; cases i; cases b; cases bs;
      simp add: encode_opt_str_def encode_opt_i32_def encode_opt_bool_def encode_opt_bytes_def scalar_enc)+

lemma encode_repeated_eq:
  "f \<noteq> 0 \<Longrightarrow> encode_repeated_str w f ss = Inr (emit w (rep_bytes f LengthDelimited str_payload ss))"
  "f \<noteq> 0 \<Longrightarrow> encode_repeated_i32 w f is = Inr (emit w (rep_bytes f Varint i32_payload is))"
  by (induction ss arbitrary: w, simp_all add: scalar_enc) (induction "is" arbitrary: w, simp_all add: scalar_enc)

lemma encode_opt_enum_eq:
  "f \<noteq> 0 \<Longrightarrow> ((case v of None \<Rightarrow> Inr w | Some x \<Rightarrow> encode_int32 w f (g x)) :: writer core_res)
    = Inr (emit w (opt_bytes f Varint (\<lambda>x. i32_payload (g x)) v))"
  by (cases v) (simp_all add: scalar_enc)

lemmas field_encodings = encode_opt_eq encode_repeated_eq encode_opt_enum_eq scalar_enc

section \<open>Reading the fields\<close>

lemma le_fold_max_start: "(a :: nat) \<le> fold max xs a"
  by (induction xs arbitrary: a) (auto intro: order_trans [OF max.cobounded2])

lemma loops_end: "s = s' \<Longrightarrow> loops d body s [] s'"
  by (simp add: loops_done)

lemma reads_message_within:
  "decodes e (merge m0) bs x \<Longrightarrow> Suc e \<le> d \<Longrightarrow> k x = y \<Longrightarrow>
   reads d (\<lambda>r. read_into (read_message m0 merge) r k) (length_delimited bs) y"
  by (intro reads_into) (auto intro: reads_mono [OF reads_message])

lemmas field_reads = reads_into [OF scalar_reads(1)] reads_into [OF scalar_reads(5)] reads_into [OF scalar_reads(8)]
  reads_into [OF scalar_reads(9)] reads_message_within

section \<open>\<open>Location\<close>\<close>

definition Location_bytes :: "Location \<Rightarrow> byte list" where
  "Location_bytes m =
     rep_bytes 1 Varint i32_payload (loc_path m)
     @ rep_bytes 2 Varint i32_payload (loc_span m)
     @ opt_bytes 3 LengthDelimited str_payload (loc_leading_comments m)
     @ opt_bytes 4 LengthDelimited str_payload (loc_trailing_comments m)
     @ rep_bytes 6 LengthDelimited str_payload (loc_leading_detached_comments m)"

definition Location_ok :: "Location \<Rightarrow> bool" where
  "Location_ok m \<longleftrightarrow> pred_option str_ok (loc_leading_comments m) 
     \<and> pred_option str_ok (loc_trailing_comments m) 
     \<and> list_all str_ok (loc_leading_detached_comments m)"

lemma Location_reads:
  "reads l (Location_step s) (tag_bytes 1 Varint @ i32_payload x1) (s\<lparr>loc_path := loc_path s @ [x1]\<rparr>)"
  "reads l (Location_step s) (tag_bytes 2 Varint @ i32_payload x2) (s\<lparr>loc_span := loc_span s @ [x2]\<rparr>)"
  "str_ok x3 \<Longrightarrow> reads l (Location_step s) (tag_bytes 3 LengthDelimited @ str_payload x3) (s\<lparr>loc_leading_comments := Some x3\<rparr>)"
  "str_ok x4 \<Longrightarrow> reads l (Location_step s) (tag_bytes 4 LengthDelimited @ str_payload x4) (s\<lparr>loc_trailing_comments := Some x4\<rparr>)"
  "str_ok x6 \<Longrightarrow> reads l (Location_step s) (tag_bytes 6 LengthDelimited @ str_payload x6) (s\<lparr>loc_leading_detached_comments := loc_leading_detached_comments s @ [x6]\<rparr>)"
  unfolding Location_step_def by ((rule reads_field; auto split del: if_split intro!: field_reads)+)

lemma Location_loops:
  assumes "Location_ok m"
  shows "loops l (Location_step) Location_default (Location_bytes m) m"
proof -
  have "loops l (Location_step) Location_default (
     rep_bytes 1 Varint i32_payload (loc_path m)
     @ rep_bytes 2 Varint i32_payload (loc_span m)
     @ opt_bytes 3 LengthDelimited str_payload (loc_leading_comments m)
     @ opt_bytes 4 LengthDelimited str_payload (loc_trailing_comments m)
     @ rep_bytes 6 LengthDelimited str_payload (loc_leading_detached_comments m) @ []) m"
    by (rule loops_rep_then [where put = "\<lambda>v s. s\<lparr>loc_path := v\<rparr>" and get = "loc_path"],
        (rule Location_reads(1); use assms in \<open>force simp: Location_ok_def list_all_iff\<close>), simp, simp, simp, simp add: Location_default_def,
      rule loops_rep_then [where put = "\<lambda>v s. s\<lparr>loc_span := v\<rparr>" and get = "loc_span"],
        (rule Location_reads(2); use assms in \<open>force simp: Location_ok_def list_all_iff\<close>), simp, simp, simp, simp add: Location_default_def,
      rule loops_opt_then [where put = "\<lambda>v s. s\<lparr>loc_leading_comments := v\<rparr>"],
        (rule Location_reads(3); use assms in \<open>force simp: Location_ok_def \<close>), simp add: Location_default_def,
      rule loops_opt_then [where put = "\<lambda>v s. s\<lparr>loc_trailing_comments := v\<rparr>"],
        (rule Location_reads(4); use assms in \<open>force simp: Location_ok_def \<close>), simp add: Location_default_def,
      rule loops_rep_then [where put = "\<lambda>v s. s\<lparr>loc_leading_detached_comments := v\<rparr>" and get = "loc_leading_detached_comments"],
        (rule Location_reads(5); use assms in \<open>force simp: Location_ok_def list_all_iff\<close>), simp, simp, simp, simp add: Location_default_def,
      rule loops_end, cases m, simp add: Location_default_def)
  then show ?thesis by (simp add: Location_bytes_def)
qed

interpretation Location: field_message Location_ok "\<lambda>_. 0" Location_bytes
  Location_default Location_encode "Location_step" "{1, 2, 3, 4, 6}"
proof unfold_locales
  show "Location_encode m w = Inr (emit w (Location_bytes m))" if "Location_ok m" for m w
    using that by (simp add: Location_encode_def Location_bytes_def Location_ok_def field_encodings)
  show "loops 0 Location_step Location_default (Location_bytes m) m" if "Location_ok m" for m
    using that by (rule Location_loops)
  show "sound_step n (Location_step m)" for n m
    unfolding Location_step_def
    by ((rule sound_case_tag sound_read_into sound_if sound_skip_field sound_read_message sound_read_message [THEN sound_step_sound]
        sound_reads scalar_sound scalar_sound_weak )+)
  show "reads d (Location_step m) (tag_bytes f wt @ v) m"
    if "0 < f" "f < 2 ^ 29" "f \<notin> {1, 2, 3, 4, 6}" "wire_value d wt v" for f d wt v m
    unfolding Location_step_def using that by (intro reads_field) (simp_all add: reads_skip_field)
qed

section \<open>\<open>SourceCodeInfo\<close>\<close>

definition SourceCodeInfo_bytes :: "SourceCodeInfo \<Rightarrow> byte list" where
  "SourceCodeInfo_bytes m =
     rep_bytes 1 LengthDelimited (\<lambda>m. length_delimited (Location_bytes m)) (sci_locations m)"

definition SourceCodeInfo_ok :: "SourceCodeInfo \<Rightarrow> bool" where
  "SourceCodeInfo_ok m \<longleftrightarrow> list_all Location_ok (sci_locations m)"

lemma SourceCodeInfo_reads:
  "Location_ok x1 \<Longrightarrow> Suc 0 \<le> l \<Longrightarrow> reads l (SourceCodeInfo_step s) (tag_bytes 1 LengthDelimited @ (\<lambda>m. length_delimited (Location_bytes m)) x1) (s\<lparr>sci_locations := sci_locations s @ [x1]\<rparr>)"
  unfolding SourceCodeInfo_step_def by ((rule reads_field; auto split del: if_split intro!: field_reads intro: Location.merge_decodes)+)

lemma SourceCodeInfo_loops:
  assumes "SourceCodeInfo_ok m" and "1 \<le> l"
  shows "loops l (SourceCodeInfo_step) SourceCodeInfo_default (SourceCodeInfo_bytes m) m"
proof -
  have "loops l (SourceCodeInfo_step) SourceCodeInfo_default (
     rep_bytes 1 LengthDelimited (\<lambda>m. length_delimited (Location_bytes m)) (sci_locations m) @ []) m"
    by (rule loops_rep_then [where put = "\<lambda>v s. s\<lparr>sci_locations := v\<rparr>" and get = "sci_locations"],
        (rule SourceCodeInfo_reads; use assms in \<open>force simp: SourceCodeInfo_ok_def list_all_iff\<close>), simp, simp, simp, simp add: SourceCodeInfo_default_def,
      rule loops_end, cases m, simp add: SourceCodeInfo_default_def)
  then show ?thesis by (simp add: SourceCodeInfo_bytes_def)
qed

interpretation SourceCodeInfo: field_message SourceCodeInfo_ok "\<lambda>_. 1" SourceCodeInfo_bytes
  SourceCodeInfo_default SourceCodeInfo_encode "SourceCodeInfo_step" "{1}"
proof unfold_locales
  show "SourceCodeInfo_encode m w = Inr (emit w (SourceCodeInfo_bytes m))" if "SourceCodeInfo_ok m" for m w
    using that by (simp add: SourceCodeInfo_encode_def SourceCodeInfo_bytes_def SourceCodeInfo_ok_def field_encodings list_all_iff
      encode_messages_eq [where enc = Location_encode and pay = Location_bytes] Location.encode_emits)
  show "loops 1 SourceCodeInfo_step SourceCodeInfo_default (SourceCodeInfo_bytes m) m" if "SourceCodeInfo_ok m" for m
    using that by (rule SourceCodeInfo_loops) simp
  show "sound_step n (SourceCodeInfo_step m)" for n m
    unfolding SourceCodeInfo_step_def
    by ((rule sound_case_tag sound_read_into sound_if sound_skip_field sound_read_message sound_read_message [THEN sound_step_sound]
        sound_reads scalar_sound scalar_sound_weak Location.merge_sound)+)
  show "reads d (SourceCodeInfo_step m) (tag_bytes f wt @ v) m"
    if "0 < f" "f < 2 ^ 29" "f \<notin> {1}" "wire_value d wt v" for f d wt v m
    unfolding SourceCodeInfo_step_def using that by (intro reads_field) (simp_all add: reads_skip_field)
qed

section \<open>\<open>ReservedRange\<close>\<close>

definition ReservedRange_bytes :: "ReservedRange \<Rightarrow> byte list" where
  "ReservedRange_bytes m =
     opt_bytes 1 Varint i32_payload (nonzero (rr_start m))
     @ opt_bytes 2 Varint i32_payload (nonzero (rr_end m))"

definition ReservedRange_ok :: "ReservedRange \<Rightarrow> bool" where
  "ReservedRange_ok m \<longleftrightarrow> True"

lemma ReservedRange_reads:
  "reads l (ReservedRange_step s) (tag_bytes 1 Varint @ i32_payload x1) (s\<lparr>rr_start := x1\<rparr>)"
  "reads l (ReservedRange_step s) (tag_bytes 2 Varint @ i32_payload x2) (s\<lparr>rr_end := x2\<rparr>)"
  unfolding ReservedRange_step_def by ((rule reads_field; auto split del: if_split intro!: field_reads)+)

lemma ReservedRange_loops:
  assumes "ReservedRange_ok m"
  shows "loops l (ReservedRange_step) ReservedRange_default (ReservedRange_bytes m) m"
proof -
  have "loops l (ReservedRange_step) ReservedRange_default (
     opt_bytes 1 Varint i32_payload (nonzero (rr_start m))
     @ opt_bytes 2 Varint i32_payload (nonzero (rr_end m)) @ []) m"
    by (rule loops_opt_then [where put = "\<lambda>v s. s\<lparr>rr_start := (case v of None \<Rightarrow> 0 | Some x \<Rightarrow> x)\<rparr>"],
        use assms in \<open>force intro: ReservedRange_reads(1) simp: ReservedRange_ok_def split: if_splits\<close>, simp add: ReservedRange_default_def,
      rule loops_opt_then [where put = "\<lambda>v s. s\<lparr>rr_end := (case v of None \<Rightarrow> 0 | Some x \<Rightarrow> x)\<rparr>"],
        use assms in \<open>force intro: ReservedRange_reads(2) simp: ReservedRange_ok_def split: if_splits\<close>, simp add: ReservedRange_default_def,
      rule loops_end, cases m, simp add: ReservedRange_default_def)
  then show ?thesis by (simp add: ReservedRange_bytes_def)
qed

interpretation ReservedRange: field_message ReservedRange_ok "\<lambda>_. 0" ReservedRange_bytes
  ReservedRange_default ReservedRange_encode "ReservedRange_step" "{1, 2}"
proof unfold_locales
  show "ReservedRange_encode m w = Inr (emit w (ReservedRange_bytes m))" if "ReservedRange_ok m" for m w
    using that by (simp add: ReservedRange_encode_def ReservedRange_bytes_def ReservedRange_ok_def field_encodings)
  show "loops 0 ReservedRange_step ReservedRange_default (ReservedRange_bytes m) m" if "ReservedRange_ok m" for m
    using that by (rule ReservedRange_loops)
  show "sound_step n (ReservedRange_step m)" for n m
    unfolding ReservedRange_step_def
    by ((rule sound_case_tag sound_read_into sound_if sound_skip_field sound_read_message sound_read_message [THEN sound_step_sound]
        sound_reads scalar_sound scalar_sound_weak )+)
  show "reads d (ReservedRange_step m) (tag_bytes f wt @ v) m"
    if "0 < f" "f < 2 ^ 29" "f \<notin> {1, 2}" "wire_value d wt v" for f d wt v m
    unfolding ReservedRange_step_def using that by (intro reads_field) (simp_all add: reads_skip_field)
qed

section \<open>\<open>ExtensionRange\<close>\<close>

definition ExtensionRange_bytes :: "ExtensionRange \<Rightarrow> byte list" where
  "ExtensionRange_bytes m =
     opt_bytes 1 Varint i32_payload (nonzero (er_start m))
     @ opt_bytes 2 Varint i32_payload (nonzero (er_end m))"

definition ExtensionRange_ok :: "ExtensionRange \<Rightarrow> bool" where
  "ExtensionRange_ok m \<longleftrightarrow> True"

lemma ExtensionRange_reads:
  "reads l (ExtensionRange_step s) (tag_bytes 1 Varint @ i32_payload x1) (s\<lparr>er_start := x1\<rparr>)"
  "reads l (ExtensionRange_step s) (tag_bytes 2 Varint @ i32_payload x2) (s\<lparr>er_end := x2\<rparr>)"
  unfolding ExtensionRange_step_def by ((rule reads_field; auto split del: if_split intro!: field_reads)+)

lemma ExtensionRange_loops:
  assumes "ExtensionRange_ok m"
  shows "loops l (ExtensionRange_step) ExtensionRange_default (ExtensionRange_bytes m) m"
proof -
  have "loops l (ExtensionRange_step) ExtensionRange_default (
     opt_bytes 1 Varint i32_payload (nonzero (er_start m))
     @ opt_bytes 2 Varint i32_payload (nonzero (er_end m)) @ []) m"
    by (rule loops_opt_then [where put = "\<lambda>v s. s\<lparr>er_start := (case v of None \<Rightarrow> 0 | Some x \<Rightarrow> x)\<rparr>"],
        use assms in \<open>force intro: ExtensionRange_reads(1) simp: ExtensionRange_ok_def split: if_splits\<close>, simp add: ExtensionRange_default_def,
      rule loops_opt_then [where put = "\<lambda>v s. s\<lparr>er_end := (case v of None \<Rightarrow> 0 | Some x \<Rightarrow> x)\<rparr>"],
        use assms in \<open>force intro: ExtensionRange_reads(2) simp: ExtensionRange_ok_def split: if_splits\<close>, simp add: ExtensionRange_default_def,
      rule loops_end, cases m, simp add: ExtensionRange_default_def)
  then show ?thesis by (simp add: ExtensionRange_bytes_def)
qed

interpretation ExtensionRange: field_message ExtensionRange_ok "\<lambda>_. 0" ExtensionRange_bytes
  ExtensionRange_default ExtensionRange_encode "ExtensionRange_step" "{1, 2}"
proof unfold_locales
  show "ExtensionRange_encode m w = Inr (emit w (ExtensionRange_bytes m))" if "ExtensionRange_ok m" for m w
    using that by (simp add: ExtensionRange_encode_def ExtensionRange_bytes_def ExtensionRange_ok_def field_encodings)
  show "loops 0 ExtensionRange_step ExtensionRange_default (ExtensionRange_bytes m) m" if "ExtensionRange_ok m" for m
    using that by (rule ExtensionRange_loops)
  show "sound_step n (ExtensionRange_step m)" for n m
    unfolding ExtensionRange_step_def
    by ((rule sound_case_tag sound_read_into sound_if sound_skip_field sound_read_message sound_read_message [THEN sound_step_sound]
        sound_reads scalar_sound scalar_sound_weak )+)
  show "reads d (ExtensionRange_step m) (tag_bytes f wt @ v) m"
    if "0 < f" "f < 2 ^ 29" "f \<notin> {1, 2}" "wire_value d wt v" for f d wt v m
    unfolding ExtensionRange_step_def using that by (intro reads_field) (simp_all add: reads_skip_field)
qed

section \<open>\<open>FieldDescriptorProto\<close>\<close>

definition FieldDescriptorProto_bytes :: "FieldDescriptorProto \<Rightarrow> byte list" where
  "FieldDescriptorProto_bytes m =
     opt_bytes 1 LengthDelimited str_payload (fld_name m)
     @ opt_bytes 2 LengthDelimited str_payload (fld_extendee m)
     @ opt_bytes 3 Varint i32_payload (fld_number m)
     @ opt_bytes 4 Varint (\<lambda>l. i32_payload (Label_as_i32 l)) (fld_label m)
     @ opt_bytes 5 Varint (\<lambda>t. i32_payload (FieldType_as_i32 t)) (fld_type m)
     @ opt_bytes 6 LengthDelimited str_payload (fld_type_name m)
     @ opt_bytes 7 LengthDelimited str_payload (fld_default_value m)
     @ opt_bytes 9 Varint i32_payload (fld_oneof_index m)
     @ opt_bytes 10 LengthDelimited str_payload (fld_json_name m)
     @ opt_bytes 8 LengthDelimited length_delimited (fld_options m)
     @ opt_bytes 17 Varint bool_payload (fld_proto3_optional m)"

definition FieldDescriptorProto_ok :: "FieldDescriptorProto \<Rightarrow> bool" where
  "FieldDescriptorProto_ok m \<longleftrightarrow> pred_option str_ok (fld_name m) 
     \<and> pred_option str_ok (fld_type_name m) 
     \<and> pred_option str_ok (fld_extendee m) 
     \<and> pred_option str_ok (fld_default_value m) 
     \<and> pred_option str_ok (fld_json_name m)"

lemma FieldDescriptorProto_reads:
  "str_ok x1 \<Longrightarrow> reads l (FieldDescriptorProto_step s) (tag_bytes 1 LengthDelimited @ str_payload x1) (s\<lparr>fld_name := Some x1\<rparr>)"
  "str_ok x2 \<Longrightarrow> reads l (FieldDescriptorProto_step s) (tag_bytes 2 LengthDelimited @ str_payload x2) (s\<lparr>fld_extendee := Some x2\<rparr>)"
  "reads l (FieldDescriptorProto_step s) (tag_bytes 3 Varint @ i32_payload x3) (s\<lparr>fld_number := Some x3\<rparr>)"
  "reads l (FieldDescriptorProto_step s) (tag_bytes 4 Varint @ (\<lambda>l. i32_payload (Label_as_i32 l)) x4) (s\<lparr>fld_label := Some x4\<rparr>)"
  "reads l (FieldDescriptorProto_step s) (tag_bytes 5 Varint @ (\<lambda>t. i32_payload (FieldType_as_i32 t)) x5) (s\<lparr>fld_type := Some x5\<rparr>)"
  "str_ok x6 \<Longrightarrow> reads l (FieldDescriptorProto_step s) (tag_bytes 6 LengthDelimited @ str_payload x6) (s\<lparr>fld_type_name := Some x6\<rparr>)"
  "str_ok x7 \<Longrightarrow> reads l (FieldDescriptorProto_step s) (tag_bytes 7 LengthDelimited @ str_payload x7) (s\<lparr>fld_default_value := Some x7\<rparr>)"
  "reads l (FieldDescriptorProto_step s) (tag_bytes 9 Varint @ i32_payload x9) (s\<lparr>fld_oneof_index := Some x9\<rparr>)"
  "str_ok x10 \<Longrightarrow> reads l (FieldDescriptorProto_step s) (tag_bytes 10 LengthDelimited @ str_payload x10) (s\<lparr>fld_json_name := Some x10\<rparr>)"
  "reads l (FieldDescriptorProto_step s) (tag_bytes 8 LengthDelimited @ length_delimited x8) (s\<lparr>fld_options := Some x8\<rparr>)"
  "reads l (FieldDescriptorProto_step s) (tag_bytes 17 Varint @ bool_payload x17) (s\<lparr>fld_proto3_optional := Some x17\<rparr>)"
  unfolding FieldDescriptorProto_step_def by ((rule reads_field; auto split del: if_split intro!: field_reads)+)

lemma FieldDescriptorProto_loops:
  assumes "FieldDescriptorProto_ok m"
  shows "loops l (FieldDescriptorProto_step) FieldDescriptorProto_default (FieldDescriptorProto_bytes m) m"
proof -
  have "loops l (FieldDescriptorProto_step) FieldDescriptorProto_default (
     opt_bytes 1 LengthDelimited str_payload (fld_name m)
     @ opt_bytes 2 LengthDelimited str_payload (fld_extendee m)
     @ opt_bytes 3 Varint i32_payload (fld_number m)
     @ opt_bytes 4 Varint (\<lambda>l. i32_payload (Label_as_i32 l)) (fld_label m)
     @ opt_bytes 5 Varint (\<lambda>t. i32_payload (FieldType_as_i32 t)) (fld_type m)
     @ opt_bytes 6 LengthDelimited str_payload (fld_type_name m)
     @ opt_bytes 7 LengthDelimited str_payload (fld_default_value m)
     @ opt_bytes 9 Varint i32_payload (fld_oneof_index m)
     @ opt_bytes 10 LengthDelimited str_payload (fld_json_name m)
     @ opt_bytes 8 LengthDelimited length_delimited (fld_options m)
     @ opt_bytes 17 Varint bool_payload (fld_proto3_optional m) @ []) m"
    by (rule loops_opt_then [where put = "\<lambda>v s. s\<lparr>fld_name := v\<rparr>"],
        (rule FieldDescriptorProto_reads(1); use assms in \<open>force simp: FieldDescriptorProto_ok_def \<close>), simp add: FieldDescriptorProto_default_def,
      rule loops_opt_then [where put = "\<lambda>v s. s\<lparr>fld_extendee := v\<rparr>"],
        (rule FieldDescriptorProto_reads(2); use assms in \<open>force simp: FieldDescriptorProto_ok_def \<close>), simp add: FieldDescriptorProto_default_def,
      rule loops_opt_then [where put = "\<lambda>v s. s\<lparr>fld_number := v\<rparr>"],
        (rule FieldDescriptorProto_reads(3); use assms in \<open>force simp: FieldDescriptorProto_ok_def \<close>), simp add: FieldDescriptorProto_default_def,
      rule loops_opt_then [where put = "\<lambda>v s. s\<lparr>fld_label := v\<rparr>"],
        (rule FieldDescriptorProto_reads(4); use assms in \<open>force simp: FieldDescriptorProto_ok_def \<close>), simp add: FieldDescriptorProto_default_def,
      rule loops_opt_then [where put = "\<lambda>v s. s\<lparr>fld_type := v\<rparr>"],
        (rule FieldDescriptorProto_reads(5); use assms in \<open>force simp: FieldDescriptorProto_ok_def \<close>), simp add: FieldDescriptorProto_default_def,
      rule loops_opt_then [where put = "\<lambda>v s. s\<lparr>fld_type_name := v\<rparr>"],
        (rule FieldDescriptorProto_reads(6); use assms in \<open>force simp: FieldDescriptorProto_ok_def \<close>), simp add: FieldDescriptorProto_default_def,
      rule loops_opt_then [where put = "\<lambda>v s. s\<lparr>fld_default_value := v\<rparr>"],
        (rule FieldDescriptorProto_reads(7); use assms in \<open>force simp: FieldDescriptorProto_ok_def \<close>), simp add: FieldDescriptorProto_default_def,
      rule loops_opt_then [where put = "\<lambda>v s. s\<lparr>fld_oneof_index := v\<rparr>"],
        (rule FieldDescriptorProto_reads(8); use assms in \<open>force simp: FieldDescriptorProto_ok_def \<close>), simp add: FieldDescriptorProto_default_def,
      rule loops_opt_then [where put = "\<lambda>v s. s\<lparr>fld_json_name := v\<rparr>"],
        (rule FieldDescriptorProto_reads(9); use assms in \<open>force simp: FieldDescriptorProto_ok_def \<close>), simp add: FieldDescriptorProto_default_def,
      rule loops_opt_then [where put = "\<lambda>v s. s\<lparr>fld_options := v\<rparr>"],
        (rule FieldDescriptorProto_reads(10); use assms in \<open>force simp: FieldDescriptorProto_ok_def \<close>), simp add: FieldDescriptorProto_default_def,
      rule loops_opt_then [where put = "\<lambda>v s. s\<lparr>fld_proto3_optional := v\<rparr>"],
        (rule FieldDescriptorProto_reads(11); use assms in \<open>force simp: FieldDescriptorProto_ok_def \<close>), simp add: FieldDescriptorProto_default_def,
      rule loops_end, cases m, simp add: FieldDescriptorProto_default_def)
  then show ?thesis by (simp add: FieldDescriptorProto_bytes_def)
qed

interpretation FieldDescriptorProto: field_message FieldDescriptorProto_ok "\<lambda>_. 0" FieldDescriptorProto_bytes
  FieldDescriptorProto_default FieldDescriptorProto_encode "FieldDescriptorProto_step" "{1, 2, 3, 4, 5, 6, 7, 8, 9, 10, 17}"
proof unfold_locales
  show "FieldDescriptorProto_encode m w = Inr (emit w (FieldDescriptorProto_bytes m))" if "FieldDescriptorProto_ok m" for m w
    using that by (simp add: FieldDescriptorProto_encode_def FieldDescriptorProto_bytes_def FieldDescriptorProto_ok_def field_encodings)
  show "loops 0 FieldDescriptorProto_step FieldDescriptorProto_default (FieldDescriptorProto_bytes m) m" if "FieldDescriptorProto_ok m" for m
    using that by (rule FieldDescriptorProto_loops)
  show "sound_step n (FieldDescriptorProto_step m)" for n m
    unfolding FieldDescriptorProto_step_def
    by ((rule sound_case_tag sound_read_into sound_if sound_skip_field sound_read_message sound_read_message [THEN sound_step_sound]
        sound_reads scalar_sound scalar_sound_weak )+)
  show "reads d (FieldDescriptorProto_step m) (tag_bytes f wt @ v) m"
    if "0 < f" "f < 2 ^ 29" "f \<notin> {1, 2, 3, 4, 5, 6, 7, 8, 9, 10, 17}" "wire_value d wt v" for f d wt v m
    unfolding FieldDescriptorProto_step_def using that by (intro reads_field) (simp_all add: reads_skip_field)
qed

section \<open>\<open>EnumValueDescriptorProto\<close>\<close>

definition EnumValueDescriptorProto_bytes :: "EnumValueDescriptorProto \<Rightarrow> byte list" where
  "EnumValueDescriptorProto_bytes m =
     opt_bytes 1 LengthDelimited str_payload (ev_name m)
     @ opt_bytes 2 Varint i32_payload (ev_number m)
     @ opt_bytes 3 LengthDelimited length_delimited (ev_options m)"

definition EnumValueDescriptorProto_ok :: "EnumValueDescriptorProto \<Rightarrow> bool" where
  "EnumValueDescriptorProto_ok m \<longleftrightarrow> pred_option str_ok (ev_name m)"

lemma EnumValueDescriptorProto_reads:
  "str_ok x1 \<Longrightarrow> reads l (EnumValueDescriptorProto_step s) (tag_bytes 1 LengthDelimited @ str_payload x1) (s\<lparr>ev_name := Some x1\<rparr>)"
  "reads l (EnumValueDescriptorProto_step s) (tag_bytes 2 Varint @ i32_payload x2) (s\<lparr>ev_number := Some x2\<rparr>)"
  "reads l (EnumValueDescriptorProto_step s) (tag_bytes 3 LengthDelimited @ length_delimited x3) (s\<lparr>ev_options := Some x3\<rparr>)"
  unfolding EnumValueDescriptorProto_step_def by ((rule reads_field; auto split del: if_split intro!: field_reads)+)

lemma EnumValueDescriptorProto_loops:
  assumes "EnumValueDescriptorProto_ok m"
  shows "loops l (EnumValueDescriptorProto_step) EnumValueDescriptorProto_default (EnumValueDescriptorProto_bytes m) m"
proof -
  have "loops l (EnumValueDescriptorProto_step) EnumValueDescriptorProto_default (
     opt_bytes 1 LengthDelimited str_payload (ev_name m)
     @ opt_bytes 2 Varint i32_payload (ev_number m)
     @ opt_bytes 3 LengthDelimited length_delimited (ev_options m) @ []) m"
    by (rule loops_opt_then [where put = "\<lambda>v s. s\<lparr>ev_name := v\<rparr>"],
        (rule EnumValueDescriptorProto_reads(1); use assms in \<open>force simp: EnumValueDescriptorProto_ok_def \<close>), simp add: EnumValueDescriptorProto_default_def,
      rule loops_opt_then [where put = "\<lambda>v s. s\<lparr>ev_number := v\<rparr>"],
        (rule EnumValueDescriptorProto_reads(2); use assms in \<open>force simp: EnumValueDescriptorProto_ok_def \<close>), simp add: EnumValueDescriptorProto_default_def,
      rule loops_opt_then [where put = "\<lambda>v s. s\<lparr>ev_options := v\<rparr>"],
        (rule EnumValueDescriptorProto_reads(3); use assms in \<open>force simp: EnumValueDescriptorProto_ok_def \<close>), simp add: EnumValueDescriptorProto_default_def,
      rule loops_end, cases m, simp add: EnumValueDescriptorProto_default_def)
  then show ?thesis by (simp add: EnumValueDescriptorProto_bytes_def)
qed

interpretation EnumValueDescriptorProto: field_message EnumValueDescriptorProto_ok "\<lambda>_. 0" EnumValueDescriptorProto_bytes
  EnumValueDescriptorProto_default EnumValueDescriptorProto_encode "EnumValueDescriptorProto_step" "{1, 2, 3}"
proof unfold_locales
  show "EnumValueDescriptorProto_encode m w = Inr (emit w (EnumValueDescriptorProto_bytes m))" if "EnumValueDescriptorProto_ok m" for m w
    using that by (simp add: EnumValueDescriptorProto_encode_def EnumValueDescriptorProto_bytes_def EnumValueDescriptorProto_ok_def field_encodings)
  show "loops 0 EnumValueDescriptorProto_step EnumValueDescriptorProto_default (EnumValueDescriptorProto_bytes m) m" if "EnumValueDescriptorProto_ok m" for m
    using that by (rule EnumValueDescriptorProto_loops)
  show "sound_step n (EnumValueDescriptorProto_step m)" for n m
    unfolding EnumValueDescriptorProto_step_def
    by ((rule sound_case_tag sound_read_into sound_if sound_skip_field sound_read_message sound_read_message [THEN sound_step_sound]
        sound_reads scalar_sound scalar_sound_weak )+)
  show "reads d (EnumValueDescriptorProto_step m) (tag_bytes f wt @ v) m"
    if "0 < f" "f < 2 ^ 29" "f \<notin> {1, 2, 3}" "wire_value d wt v" for f d wt v m
    unfolding EnumValueDescriptorProto_step_def using that by (intro reads_field) (simp_all add: reads_skip_field)
qed

section \<open>\<open>EnumDescriptorProto\<close>\<close>

definition EnumDescriptorProto_bytes :: "EnumDescriptorProto \<Rightarrow> byte list" where
  "EnumDescriptorProto_bytes m =
     opt_bytes 1 LengthDelimited str_payload (en_name m)
     @ rep_bytes 2 LengthDelimited (\<lambda>m. length_delimited (EnumValueDescriptorProto_bytes m)) (en_value m)
     @ opt_bytes 3 LengthDelimited length_delimited (en_options m)
     @ rep_bytes 4 LengthDelimited (\<lambda>m. length_delimited (ReservedRange_bytes m)) (en_reserved_range m)
     @ rep_bytes 5 LengthDelimited str_payload (en_reserved_name m)"

definition EnumDescriptorProto_ok :: "EnumDescriptorProto \<Rightarrow> bool" where
  "EnumDescriptorProto_ok m \<longleftrightarrow> pred_option str_ok (en_name m) 
     \<and> list_all EnumValueDescriptorProto_ok (en_value m) 
     \<and> list_all ReservedRange_ok (en_reserved_range m) 
     \<and> list_all str_ok (en_reserved_name m)"

lemma EnumDescriptorProto_reads:
  "str_ok x1 \<Longrightarrow> reads l (EnumDescriptorProto_step s) (tag_bytes 1 LengthDelimited @ str_payload x1) (s\<lparr>en_name := Some x1\<rparr>)"
  "EnumValueDescriptorProto_ok x2 \<Longrightarrow> Suc 0 \<le> l \<Longrightarrow> reads l (EnumDescriptorProto_step s) (tag_bytes 2 LengthDelimited @ (\<lambda>m. length_delimited (EnumValueDescriptorProto_bytes m)) x2) (s\<lparr>en_value := en_value s @ [x2]\<rparr>)"
  "reads l (EnumDescriptorProto_step s) (tag_bytes 3 LengthDelimited @ length_delimited x3) (s\<lparr>en_options := Some x3\<rparr>)"
  "ReservedRange_ok x4 \<Longrightarrow> Suc 0 \<le> l \<Longrightarrow> reads l (EnumDescriptorProto_step s) (tag_bytes 4 LengthDelimited @ (\<lambda>m. length_delimited (ReservedRange_bytes m)) x4) (s\<lparr>en_reserved_range := en_reserved_range s @ [x4]\<rparr>)"
  "str_ok x5 \<Longrightarrow> reads l (EnumDescriptorProto_step s) (tag_bytes 5 LengthDelimited @ str_payload x5) (s\<lparr>en_reserved_name := en_reserved_name s @ [x5]\<rparr>)"
  unfolding EnumDescriptorProto_step_def by ((rule reads_field; auto split del: if_split intro!: field_reads intro: EnumValueDescriptorProto.merge_decodes ReservedRange.merge_decodes)+)

lemma EnumDescriptorProto_loops:
  assumes "EnumDescriptorProto_ok m" and "1 \<le> l"
  shows "loops l (EnumDescriptorProto_step) EnumDescriptorProto_default (EnumDescriptorProto_bytes m) m"
proof -
  have "loops l (EnumDescriptorProto_step) EnumDescriptorProto_default (
     opt_bytes 1 LengthDelimited str_payload (en_name m)
     @ rep_bytes 2 LengthDelimited (\<lambda>m. length_delimited (EnumValueDescriptorProto_bytes m)) (en_value m)
     @ opt_bytes 3 LengthDelimited length_delimited (en_options m)
     @ rep_bytes 4 LengthDelimited (\<lambda>m. length_delimited (ReservedRange_bytes m)) (en_reserved_range m)
     @ rep_bytes 5 LengthDelimited str_payload (en_reserved_name m) @ []) m"
    by (rule loops_opt_then [where put = "\<lambda>v s. s\<lparr>en_name := v\<rparr>"],
        (rule EnumDescriptorProto_reads(1); use assms in \<open>force simp: EnumDescriptorProto_ok_def \<close>), simp add: EnumDescriptorProto_default_def,
      rule loops_rep_then [where put = "\<lambda>v s. s\<lparr>en_value := v\<rparr>" and get = "en_value"],
        (rule EnumDescriptorProto_reads(2); use assms in \<open>force simp: EnumDescriptorProto_ok_def list_all_iff\<close>), simp, simp, simp, simp add: EnumDescriptorProto_default_def,
      rule loops_opt_then [where put = "\<lambda>v s. s\<lparr>en_options := v\<rparr>"],
        (rule EnumDescriptorProto_reads(3); use assms in \<open>force simp: EnumDescriptorProto_ok_def \<close>), simp add: EnumDescriptorProto_default_def,
      rule loops_rep_then [where put = "\<lambda>v s. s\<lparr>en_reserved_range := v\<rparr>" and get = "en_reserved_range"],
        (rule EnumDescriptorProto_reads(4); use assms in \<open>force simp: EnumDescriptorProto_ok_def list_all_iff\<close>), simp, simp, simp, simp add: EnumDescriptorProto_default_def,
      rule loops_rep_then [where put = "\<lambda>v s. s\<lparr>en_reserved_name := v\<rparr>" and get = "en_reserved_name"],
        (rule EnumDescriptorProto_reads(5); use assms in \<open>force simp: EnumDescriptorProto_ok_def list_all_iff\<close>), simp, simp, simp, simp add: EnumDescriptorProto_default_def,
      rule loops_end, cases m, simp add: EnumDescriptorProto_default_def)
  then show ?thesis by (simp add: EnumDescriptorProto_bytes_def)
qed

interpretation EnumDescriptorProto: field_message EnumDescriptorProto_ok "\<lambda>_. 1" EnumDescriptorProto_bytes
  EnumDescriptorProto_default EnumDescriptorProto_encode "EnumDescriptorProto_step" "{1, 2, 3, 4, 5}"
proof unfold_locales
  show "EnumDescriptorProto_encode m w = Inr (emit w (EnumDescriptorProto_bytes m))" if "EnumDescriptorProto_ok m" for m w
    using that by (simp add: EnumDescriptorProto_encode_def EnumDescriptorProto_bytes_def EnumDescriptorProto_ok_def field_encodings list_all_iff
      encode_messages_eq [where enc = EnumValueDescriptorProto_encode and pay = EnumValueDescriptorProto_bytes] EnumValueDescriptorProto.encode_emits encode_messages_eq [where enc = ReservedRange_encode and pay = ReservedRange_bytes] ReservedRange.encode_emits)
  show "loops 1 EnumDescriptorProto_step EnumDescriptorProto_default (EnumDescriptorProto_bytes m) m" if "EnumDescriptorProto_ok m" for m
    using that by (rule EnumDescriptorProto_loops) simp
  show "sound_step n (EnumDescriptorProto_step m)" for n m
    unfolding EnumDescriptorProto_step_def
    by ((rule sound_case_tag sound_read_into sound_if sound_skip_field sound_read_message sound_read_message [THEN sound_step_sound]
        sound_reads scalar_sound scalar_sound_weak EnumValueDescriptorProto.merge_sound ReservedRange.merge_sound)+)
  show "reads d (EnumDescriptorProto_step m) (tag_bytes f wt @ v) m"
    if "0 < f" "f < 2 ^ 29" "f \<notin> {1, 2, 3, 4, 5}" "wire_value d wt v" for f d wt v m
    unfolding EnumDescriptorProto_step_def using that by (intro reads_field) (simp_all add: reads_skip_field)
qed

section \<open>\<open>OneofDescriptorProto\<close>\<close>

definition OneofDescriptorProto_bytes :: "OneofDescriptorProto \<Rightarrow> byte list" where
  "OneofDescriptorProto_bytes m =
     opt_bytes 1 LengthDelimited str_payload (oo_name m)
     @ opt_bytes 2 LengthDelimited length_delimited (oo_options m)"

definition OneofDescriptorProto_ok :: "OneofDescriptorProto \<Rightarrow> bool" where
  "OneofDescriptorProto_ok m \<longleftrightarrow> pred_option str_ok (oo_name m)"

lemma OneofDescriptorProto_reads:
  "str_ok x1 \<Longrightarrow> reads l (OneofDescriptorProto_step s) (tag_bytes 1 LengthDelimited @ str_payload x1) (s\<lparr>oo_name := Some x1\<rparr>)"
  "reads l (OneofDescriptorProto_step s) (tag_bytes 2 LengthDelimited @ length_delimited x2) (s\<lparr>oo_options := Some x2\<rparr>)"
  unfolding OneofDescriptorProto_step_def by ((rule reads_field; auto split del: if_split intro!: field_reads)+)

lemma OneofDescriptorProto_loops:
  assumes "OneofDescriptorProto_ok m"
  shows "loops l (OneofDescriptorProto_step) OneofDescriptorProto_default (OneofDescriptorProto_bytes m) m"
proof -
  have "loops l (OneofDescriptorProto_step) OneofDescriptorProto_default (
     opt_bytes 1 LengthDelimited str_payload (oo_name m)
     @ opt_bytes 2 LengthDelimited length_delimited (oo_options m) @ []) m"
    by (rule loops_opt_then [where put = "\<lambda>v s. s\<lparr>oo_name := v\<rparr>"],
        (rule OneofDescriptorProto_reads(1); use assms in \<open>force simp: OneofDescriptorProto_ok_def \<close>), simp add: OneofDescriptorProto_default_def,
      rule loops_opt_then [where put = "\<lambda>v s. s\<lparr>oo_options := v\<rparr>"],
        (rule OneofDescriptorProto_reads(2); use assms in \<open>force simp: OneofDescriptorProto_ok_def \<close>), simp add: OneofDescriptorProto_default_def,
      rule loops_end, cases m, simp add: OneofDescriptorProto_default_def)
  then show ?thesis by (simp add: OneofDescriptorProto_bytes_def)
qed

interpretation OneofDescriptorProto: field_message OneofDescriptorProto_ok "\<lambda>_. 0" OneofDescriptorProto_bytes
  OneofDescriptorProto_default OneofDescriptorProto_encode "OneofDescriptorProto_step" "{1, 2}"
proof unfold_locales
  show "OneofDescriptorProto_encode m w = Inr (emit w (OneofDescriptorProto_bytes m))" if "OneofDescriptorProto_ok m" for m w
    using that by (simp add: OneofDescriptorProto_encode_def OneofDescriptorProto_bytes_def OneofDescriptorProto_ok_def field_encodings)
  show "loops 0 OneofDescriptorProto_step OneofDescriptorProto_default (OneofDescriptorProto_bytes m) m" if "OneofDescriptorProto_ok m" for m
    using that by (rule OneofDescriptorProto_loops)
  show "sound_step n (OneofDescriptorProto_step m)" for n m
    unfolding OneofDescriptorProto_step_def
    by ((rule sound_case_tag sound_read_into sound_if sound_skip_field sound_read_message sound_read_message [THEN sound_step_sound]
        sound_reads scalar_sound scalar_sound_weak )+)
  show "reads d (OneofDescriptorProto_step m) (tag_bytes f wt @ v) m"
    if "0 < f" "f < 2 ^ 29" "f \<notin> {1, 2}" "wire_value d wt v" for f d wt v m
    unfolding OneofDescriptorProto_step_def using that by (intro reads_field) (simp_all add: reads_skip_field)
qed

section \<open>\<open>MethodDescriptorProto\<close>\<close>

definition MethodDescriptorProto_bytes :: "MethodDescriptorProto \<Rightarrow> byte list" where
  "MethodDescriptorProto_bytes m =
     opt_bytes 1 LengthDelimited str_payload (mth_name m)
     @ opt_bytes 2 LengthDelimited str_payload (mth_input_type m)
     @ opt_bytes 3 LengthDelimited str_payload (mth_output_type m)
     @ opt_bytes 4 LengthDelimited length_delimited (mth_options m)
     @ opt_bytes 5 Varint bool_payload (mth_client_streaming m)
     @ opt_bytes 6 Varint bool_payload (mth_server_streaming m)"

definition MethodDescriptorProto_ok :: "MethodDescriptorProto \<Rightarrow> bool" where
  "MethodDescriptorProto_ok m \<longleftrightarrow> pred_option str_ok (mth_name m) 
     \<and> pred_option str_ok (mth_input_type m) 
     \<and> pred_option str_ok (mth_output_type m)"

lemma MethodDescriptorProto_reads:
  "str_ok x1 \<Longrightarrow> reads l (MethodDescriptorProto_step s) (tag_bytes 1 LengthDelimited @ str_payload x1) (s\<lparr>mth_name := Some x1\<rparr>)"
  "str_ok x2 \<Longrightarrow> reads l (MethodDescriptorProto_step s) (tag_bytes 2 LengthDelimited @ str_payload x2) (s\<lparr>mth_input_type := Some x2\<rparr>)"
  "str_ok x3 \<Longrightarrow> reads l (MethodDescriptorProto_step s) (tag_bytes 3 LengthDelimited @ str_payload x3) (s\<lparr>mth_output_type := Some x3\<rparr>)"
  "reads l (MethodDescriptorProto_step s) (tag_bytes 4 LengthDelimited @ length_delimited x4) (s\<lparr>mth_options := Some x4\<rparr>)"
  "reads l (MethodDescriptorProto_step s) (tag_bytes 5 Varint @ bool_payload x5) (s\<lparr>mth_client_streaming := Some x5\<rparr>)"
  "reads l (MethodDescriptorProto_step s) (tag_bytes 6 Varint @ bool_payload x6) (s\<lparr>mth_server_streaming := Some x6\<rparr>)"
  unfolding MethodDescriptorProto_step_def by ((rule reads_field; auto split del: if_split intro!: field_reads)+)

lemma MethodDescriptorProto_loops:
  assumes "MethodDescriptorProto_ok m"
  shows "loops l (MethodDescriptorProto_step) MethodDescriptorProto_default (MethodDescriptorProto_bytes m) m"
proof -
  have "loops l (MethodDescriptorProto_step) MethodDescriptorProto_default (
     opt_bytes 1 LengthDelimited str_payload (mth_name m)
     @ opt_bytes 2 LengthDelimited str_payload (mth_input_type m)
     @ opt_bytes 3 LengthDelimited str_payload (mth_output_type m)
     @ opt_bytes 4 LengthDelimited length_delimited (mth_options m)
     @ opt_bytes 5 Varint bool_payload (mth_client_streaming m)
     @ opt_bytes 6 Varint bool_payload (mth_server_streaming m) @ []) m"
    by (rule loops_opt_then [where put = "\<lambda>v s. s\<lparr>mth_name := v\<rparr>"],
        (rule MethodDescriptorProto_reads(1); use assms in \<open>force simp: MethodDescriptorProto_ok_def \<close>), simp add: MethodDescriptorProto_default_def,
      rule loops_opt_then [where put = "\<lambda>v s. s\<lparr>mth_input_type := v\<rparr>"],
        (rule MethodDescriptorProto_reads(2); use assms in \<open>force simp: MethodDescriptorProto_ok_def \<close>), simp add: MethodDescriptorProto_default_def,
      rule loops_opt_then [where put = "\<lambda>v s. s\<lparr>mth_output_type := v\<rparr>"],
        (rule MethodDescriptorProto_reads(3); use assms in \<open>force simp: MethodDescriptorProto_ok_def \<close>), simp add: MethodDescriptorProto_default_def,
      rule loops_opt_then [where put = "\<lambda>v s. s\<lparr>mth_options := v\<rparr>"],
        (rule MethodDescriptorProto_reads(4); use assms in \<open>force simp: MethodDescriptorProto_ok_def \<close>), simp add: MethodDescriptorProto_default_def,
      rule loops_opt_then [where put = "\<lambda>v s. s\<lparr>mth_client_streaming := v\<rparr>"],
        (rule MethodDescriptorProto_reads(5); use assms in \<open>force simp: MethodDescriptorProto_ok_def \<close>), simp add: MethodDescriptorProto_default_def,
      rule loops_opt_then [where put = "\<lambda>v s. s\<lparr>mth_server_streaming := v\<rparr>"],
        (rule MethodDescriptorProto_reads(6); use assms in \<open>force simp: MethodDescriptorProto_ok_def \<close>), simp add: MethodDescriptorProto_default_def,
      rule loops_end, cases m, simp add: MethodDescriptorProto_default_def)
  then show ?thesis by (simp add: MethodDescriptorProto_bytes_def)
qed

interpretation MethodDescriptorProto: field_message MethodDescriptorProto_ok "\<lambda>_. 0" MethodDescriptorProto_bytes
  MethodDescriptorProto_default MethodDescriptorProto_encode "MethodDescriptorProto_step" "{1, 2, 3, 4, 5, 6}"
proof unfold_locales
  show "MethodDescriptorProto_encode m w = Inr (emit w (MethodDescriptorProto_bytes m))" if "MethodDescriptorProto_ok m" for m w
    using that by (simp add: MethodDescriptorProto_encode_def MethodDescriptorProto_bytes_def MethodDescriptorProto_ok_def field_encodings)
  show "loops 0 MethodDescriptorProto_step MethodDescriptorProto_default (MethodDescriptorProto_bytes m) m" if "MethodDescriptorProto_ok m" for m
    using that by (rule MethodDescriptorProto_loops)
  show "sound_step n (MethodDescriptorProto_step m)" for n m
    unfolding MethodDescriptorProto_step_def
    by ((rule sound_case_tag sound_read_into sound_if sound_skip_field sound_read_message sound_read_message [THEN sound_step_sound]
        sound_reads scalar_sound scalar_sound_weak )+)
  show "reads d (MethodDescriptorProto_step m) (tag_bytes f wt @ v) m"
    if "0 < f" "f < 2 ^ 29" "f \<notin> {1, 2, 3, 4, 5, 6}" "wire_value d wt v" for f d wt v m
    unfolding MethodDescriptorProto_step_def using that by (intro reads_field) (simp_all add: reads_skip_field)
qed

section \<open>\<open>ServiceDescriptorProto\<close>\<close>

definition ServiceDescriptorProto_bytes :: "ServiceDescriptorProto \<Rightarrow> byte list" where
  "ServiceDescriptorProto_bytes m =
     opt_bytes 1 LengthDelimited str_payload (svc_name m)
     @ rep_bytes 2 LengthDelimited (\<lambda>m. length_delimited (MethodDescriptorProto_bytes m)) (svc_method m)
     @ opt_bytes 3 LengthDelimited length_delimited (svc_options m)"

definition ServiceDescriptorProto_ok :: "ServiceDescriptorProto \<Rightarrow> bool" where
  "ServiceDescriptorProto_ok m \<longleftrightarrow> pred_option str_ok (svc_name m) 
     \<and> list_all MethodDescriptorProto_ok (svc_method m)"

lemma ServiceDescriptorProto_reads:
  "str_ok x1 \<Longrightarrow> reads l (ServiceDescriptorProto_step s) (tag_bytes 1 LengthDelimited @ str_payload x1) (s\<lparr>svc_name := Some x1\<rparr>)"
  "MethodDescriptorProto_ok x2 \<Longrightarrow> Suc 0 \<le> l \<Longrightarrow> reads l (ServiceDescriptorProto_step s) (tag_bytes 2 LengthDelimited @ (\<lambda>m. length_delimited (MethodDescriptorProto_bytes m)) x2) (s\<lparr>svc_method := svc_method s @ [x2]\<rparr>)"
  "reads l (ServiceDescriptorProto_step s) (tag_bytes 3 LengthDelimited @ length_delimited x3) (s\<lparr>svc_options := Some x3\<rparr>)"
  unfolding ServiceDescriptorProto_step_def by ((rule reads_field; auto split del: if_split intro!: field_reads intro: MethodDescriptorProto.merge_decodes)+)

lemma ServiceDescriptorProto_loops:
  assumes "ServiceDescriptorProto_ok m" and "1 \<le> l"
  shows "loops l (ServiceDescriptorProto_step) ServiceDescriptorProto_default (ServiceDescriptorProto_bytes m) m"
proof -
  have "loops l (ServiceDescriptorProto_step) ServiceDescriptorProto_default (
     opt_bytes 1 LengthDelimited str_payload (svc_name m)
     @ rep_bytes 2 LengthDelimited (\<lambda>m. length_delimited (MethodDescriptorProto_bytes m)) (svc_method m)
     @ opt_bytes 3 LengthDelimited length_delimited (svc_options m) @ []) m"
    by (rule loops_opt_then [where put = "\<lambda>v s. s\<lparr>svc_name := v\<rparr>"],
        (rule ServiceDescriptorProto_reads(1); use assms in \<open>force simp: ServiceDescriptorProto_ok_def \<close>), simp add: ServiceDescriptorProto_default_def,
      rule loops_rep_then [where put = "\<lambda>v s. s\<lparr>svc_method := v\<rparr>" and get = "svc_method"],
        (rule ServiceDescriptorProto_reads(2); use assms in \<open>force simp: ServiceDescriptorProto_ok_def list_all_iff\<close>), simp, simp, simp, simp add: ServiceDescriptorProto_default_def,
      rule loops_opt_then [where put = "\<lambda>v s. s\<lparr>svc_options := v\<rparr>"],
        (rule ServiceDescriptorProto_reads(3); use assms in \<open>force simp: ServiceDescriptorProto_ok_def \<close>), simp add: ServiceDescriptorProto_default_def,
      rule loops_end, cases m, simp add: ServiceDescriptorProto_default_def)
  then show ?thesis by (simp add: ServiceDescriptorProto_bytes_def)
qed

interpretation ServiceDescriptorProto: field_message ServiceDescriptorProto_ok "\<lambda>_. 1" ServiceDescriptorProto_bytes
  ServiceDescriptorProto_default ServiceDescriptorProto_encode "ServiceDescriptorProto_step" "{1, 2, 3}"
proof unfold_locales
  show "ServiceDescriptorProto_encode m w = Inr (emit w (ServiceDescriptorProto_bytes m))" if "ServiceDescriptorProto_ok m" for m w
    using that by (simp add: ServiceDescriptorProto_encode_def ServiceDescriptorProto_bytes_def ServiceDescriptorProto_ok_def field_encodings list_all_iff
      encode_messages_eq [where enc = MethodDescriptorProto_encode and pay = MethodDescriptorProto_bytes] MethodDescriptorProto.encode_emits)
  show "loops 1 ServiceDescriptorProto_step ServiceDescriptorProto_default (ServiceDescriptorProto_bytes m) m" if "ServiceDescriptorProto_ok m" for m
    using that by (rule ServiceDescriptorProto_loops) simp
  show "sound_step n (ServiceDescriptorProto_step m)" for n m
    unfolding ServiceDescriptorProto_step_def
    by ((rule sound_case_tag sound_read_into sound_if sound_skip_field sound_read_message sound_read_message [THEN sound_step_sound]
        sound_reads scalar_sound scalar_sound_weak MethodDescriptorProto.merge_sound)+)
  show "reads d (ServiceDescriptorProto_step m) (tag_bytes f wt @ v) m"
    if "0 < f" "f < 2 ^ 29" "f \<notin> {1, 2, 3}" "wire_value d wt v" for f d wt v m
    unfolding ServiceDescriptorProto_step_def using that by (intro reads_field) (simp_all add: reads_skip_field)
qed

section \<open>\<open>DescriptorProto\<close>\<close>

fun DescriptorProto_bytes :: "DescriptorProto \<Rightarrow> byte list" where
  "DescriptorProto_bytes (DescriptorProto d ns) =
     opt_bytes 1 LengthDelimited str_payload (msg_name d)
     @ rep_bytes 2 LengthDelimited (\<lambda>m. length_delimited (FieldDescriptorProto_bytes m)) (msg_field d)
     @ rep_bytes 6 LengthDelimited (\<lambda>m. length_delimited (FieldDescriptorProto_bytes m)) (msg_extension d)
     @ rep_bytes 3 LengthDelimited (\<lambda>m. length_delimited (DescriptorProto_bytes m)) ns
     @ rep_bytes 4 LengthDelimited (\<lambda>m. length_delimited (EnumDescriptorProto_bytes m)) (msg_enum_type d)
     @ rep_bytes 5 LengthDelimited (\<lambda>m. length_delimited (ExtensionRange_bytes m)) (msg_extension_range d)
     @ rep_bytes 8 LengthDelimited (\<lambda>m. length_delimited (OneofDescriptorProto_bytes m)) (msg_oneof_decl d)
     @ opt_bytes 7 LengthDelimited length_delimited (msg_options d)
     @ rep_bytes 9 LengthDelimited (\<lambda>m. length_delimited (ReservedRange_bytes m)) (msg_reserved_range d)
     @ rep_bytes 10 LengthDelimited str_payload (msg_reserved_name d)"

fun DescriptorProto_ok :: "DescriptorProto \<Rightarrow> bool" where
  "DescriptorProto_ok (DescriptorProto d ns) \<longleftrightarrow>
     pred_option str_ok (msg_name d) 
     \<and> list_all FieldDescriptorProto_ok (msg_field d) 
     \<and> list_all FieldDescriptorProto_ok (msg_extension d) 
     \<and> (\<forall>n \<in> set ns. DescriptorProto_ok n) 
     \<and> list_all EnumDescriptorProto_ok (msg_enum_type d) 
     \<and> list_all ExtensionRange_ok (msg_extension_range d) 
     \<and> list_all OneofDescriptorProto_ok (msg_oneof_decl d) 
     \<and> list_all ReservedRange_ok (msg_reserved_range d) 
     \<and> list_all str_ok (msg_reserved_name d)"

text \<open>The nesting levels the decoding enters: two for the values and ranges of enums, one more for each nested message.\<close>

fun DescriptorProto_levels :: "DescriptorProto \<Rightarrow> nat" where
  "DescriptorProto_levels (DescriptorProto d ns) = fold max (map (\<lambda>n. Suc (DescriptorProto_levels n)) ns) 2"

lemma DescriptorProto_step_cong:
  fixes f g :: "DescriptorProto \<Rightarrow> reader \<Rightarrow> (DescriptorProto \<times> reader) core_res"
  assumes "\<And>m' r'. remaining r' < remaining r \<Longrightarrow> f m' r' = g m' r'"
  shows "DescriptorProto_step f m r = DescriptorProto_step g m r"
  unfolding DescriptorProto_step_def read_into_def
proof (intro tag_cong if_cong refl arg_cong2 [where f = bind_result] read_message_cong)
  fix r1 r' assume "remaining r1 < remaining r" "remaining r' < remaining r1"
  then show "f DescriptorProto_default r' = g DescriptorProto_default r'"
    by (intro assms) simp
qed

lemma read_message_forward: "read_message m0 f r = Inr (x, r') \<Longrightarrow> strictly_forward r r'"
  by (auto simp: read_message_def bind_result_eq_Inr dest: read_length_delimited_moved)

lemma arms_forward:
  "read_into read_length_delimited r k = Inr (x, r') \<Longrightarrow> strictly_forward r r'"
  "read_into read_string_owned r ks = Inr (x, r') \<Longrightarrow> strictly_forward r r'"
  "read_into (read_message m0 f) r km = Inr (x, r') \<Longrightarrow> strictly_forward r r'"
  by (auto simp: read_into_def bind_result_eq_Inr
      dest: value_reads_moved read_length_delimited_moved read_message_forward)

lemma if_InrE: "(if b then f else g) = Inr x \<Longrightarrow> (f = Inr x \<Longrightarrow> P) \<Longrightarrow> (g = Inr x \<Longrightarrow> P) \<Longrightarrow> P"
  by (cases b) simp_all

lemma skip_field_forward: "skip_field m t r = Inr (x, r') \<Longrightarrow> strictly_forward r r'"
  by (auto simp: skip_field_def bind_result_eq_Inr dest: skip_forward)

lemma DescriptorProto_step_forward: "DescriptorProto_step f m r = Inr (x, r') \<Longrightarrow> strictly_forward r r'"
  unfolding DescriptorProto_step_def
  by (erule tag_then) ((erule if_InrE, erule arms_forward)+, erule skip_field_forward)

interpretation descriptor_decoder: recursive_decoder "\<lambda>merge. while_unread (DescriptorProto_step merge)"
proof unfold_locales
  fix r m and f g :: "DescriptorProto \<Rightarrow> reader \<Rightarrow> (DescriptorProto \<times> reader) core_res"
  assume "\<And>m' r'. remaining r' < remaining r \<Longrightarrow> f m' r' = g m' r'"
  then show "while_unread (DescriptorProto_step f) m r = while_unread (DescriptorProto_step g) m r"
    by (intro while_unread_cong DescriptorProto_step_cong) (auto intro: DescriptorProto_step_forward)
qed

lemma DescriptorProto_merge_eq: "DescriptorProto_merge = while_unread (DescriptorProto_step DescriptorProto_merge)"
  unfolding DescriptorProto_merge_def by (rule ext, rule descriptor_decoder.unfold_abs)

lemma sound_DescriptorProto_step:
  assumes "\<And>m. sound n (f m)"
  shows "sound_step (Suc n) (DescriptorProto_step f m)"
  unfolding DescriptorProto_step_def
  by ((rule sound_case_tag sound_read_into sound_if sound_skip_field sound_read_message_rec
        sound_read_message_rec [THEN sound_step_sound] sound_reads scalar_sound scalar_sound_weak assms
        FieldDescriptorProto.merge_sound EnumDescriptorProto.merge_sound ExtensionRange.merge_sound
        OneofDescriptorProto.merge_sound ReservedRange.merge_sound)+)

lemma sound_DescriptorProto_merge: "sound n (DescriptorProto_merge m)"
  unfolding DescriptorProto_merge_def
  by (rule descriptor_decoder.sound_rec) (intro sound_while_unread sound_DescriptorProto_step)

lemma DescriptorProto_reads:
  "str_ok x1 \<Longrightarrow> reads l (DescriptorProto_step DescriptorProto_merge s) (tag_bytes 1 LengthDelimited @ str_payload x1) (DescriptorProto ((msg_own s)\<lparr>msg_name := Some x1\<rparr>) (msg_nested_type s))"
  "FieldDescriptorProto_ok x2 \<Longrightarrow> Suc 0 \<le> l \<Longrightarrow> reads l (DescriptorProto_step DescriptorProto_merge s) (tag_bytes 2 LengthDelimited @ (\<lambda>m. length_delimited (FieldDescriptorProto_bytes m)) x2) (DescriptorProto ((msg_own s)\<lparr>msg_field := msg_field (msg_own s) @ [x2]\<rparr>) (msg_nested_type s))"
  "FieldDescriptorProto_ok x6 \<Longrightarrow> Suc 0 \<le> l \<Longrightarrow> reads l (DescriptorProto_step DescriptorProto_merge s) (tag_bytes 6 LengthDelimited @ (\<lambda>m. length_delimited (FieldDescriptorProto_bytes m)) x6) (DescriptorProto ((msg_own s)\<lparr>msg_extension := msg_extension (msg_own s) @ [x6]\<rparr>) (msg_nested_type s))"
  "decodes e (DescriptorProto_merge DescriptorProto_default) (DescriptorProto_bytes x3) x3 \<Longrightarrow> Suc e \<le> l \<Longrightarrow> reads l (DescriptorProto_step DescriptorProto_merge s) (tag_bytes 3 LengthDelimited @ (\<lambda>m. length_delimited (DescriptorProto_bytes m)) x3) (DescriptorProto (msg_own s) (msg_nested_type s @ [x3]))"
  "EnumDescriptorProto_ok x4 \<Longrightarrow> Suc 1 \<le> l \<Longrightarrow> reads l (DescriptorProto_step DescriptorProto_merge s) (tag_bytes 4 LengthDelimited @ (\<lambda>m. length_delimited (EnumDescriptorProto_bytes m)) x4) (DescriptorProto ((msg_own s)\<lparr>msg_enum_type := msg_enum_type (msg_own s) @ [x4]\<rparr>) (msg_nested_type s))"
  "ExtensionRange_ok x5 \<Longrightarrow> Suc 0 \<le> l \<Longrightarrow> reads l (DescriptorProto_step DescriptorProto_merge s) (tag_bytes 5 LengthDelimited @ (\<lambda>m. length_delimited (ExtensionRange_bytes m)) x5) (DescriptorProto ((msg_own s)\<lparr>msg_extension_range := msg_extension_range (msg_own s) @ [x5]\<rparr>) (msg_nested_type s))"
  "OneofDescriptorProto_ok x8 \<Longrightarrow> Suc 0 \<le> l \<Longrightarrow> reads l (DescriptorProto_step DescriptorProto_merge s) (tag_bytes 8 LengthDelimited @ (\<lambda>m. length_delimited (OneofDescriptorProto_bytes m)) x8) (DescriptorProto ((msg_own s)\<lparr>msg_oneof_decl := msg_oneof_decl (msg_own s) @ [x8]\<rparr>) (msg_nested_type s))"
  "reads l (DescriptorProto_step DescriptorProto_merge s) (tag_bytes 7 LengthDelimited @ length_delimited x7) (DescriptorProto ((msg_own s)\<lparr>msg_options := Some x7\<rparr>) (msg_nested_type s))"
  "ReservedRange_ok x9 \<Longrightarrow> Suc 0 \<le> l \<Longrightarrow> reads l (DescriptorProto_step DescriptorProto_merge s) (tag_bytes 9 LengthDelimited @ (\<lambda>m. length_delimited (ReservedRange_bytes m)) x9) (DescriptorProto ((msg_own s)\<lparr>msg_reserved_range := msg_reserved_range (msg_own s) @ [x9]\<rparr>) (msg_nested_type s))"
  "str_ok x10 \<Longrightarrow> reads l (DescriptorProto_step DescriptorProto_merge s) (tag_bytes 10 LengthDelimited @ str_payload x10) (DescriptorProto ((msg_own s)\<lparr>msg_reserved_name := msg_reserved_name (msg_own s) @ [x10]\<rparr>) (msg_nested_type s))"
  unfolding DescriptorProto_step_def by ((rule reads_field; auto split del: if_split intro!: field_reads intro: EnumDescriptorProto.merge_decodes ExtensionRange.merge_decodes FieldDescriptorProto.merge_decodes OneofDescriptorProto.merge_decodes ReservedRange.merge_decodes)+)

lemma DescriptorProto_loops:
  assumes "DescriptorProto_ok (DescriptorProto d ns)" and "2 \<le> l" and "\<And>n. n \<in> set ns \<Longrightarrow> decodes (DescriptorProto_levels n) (DescriptorProto_merge DescriptorProto_default) (DescriptorProto_bytes n) n \<and> Suc (DescriptorProto_levels n) \<le> l"
  shows "loops l (DescriptorProto_step DescriptorProto_merge) DescriptorProto_default (DescriptorProto_bytes (DescriptorProto d ns)) (DescriptorProto d ns)"
proof -
  have "loops l (DescriptorProto_step DescriptorProto_merge) DescriptorProto_default (
     opt_bytes 1 LengthDelimited str_payload (msg_name d)
     @ rep_bytes 2 LengthDelimited (\<lambda>m. length_delimited (FieldDescriptorProto_bytes m)) (msg_field d)
     @ rep_bytes 6 LengthDelimited (\<lambda>m. length_delimited (FieldDescriptorProto_bytes m)) (msg_extension d)
     @ rep_bytes 3 LengthDelimited (\<lambda>m. length_delimited (DescriptorProto_bytes m)) ns
     @ rep_bytes 4 LengthDelimited (\<lambda>m. length_delimited (EnumDescriptorProto_bytes m)) (msg_enum_type d)
     @ rep_bytes 5 LengthDelimited (\<lambda>m. length_delimited (ExtensionRange_bytes m)) (msg_extension_range d)
     @ rep_bytes 8 LengthDelimited (\<lambda>m. length_delimited (OneofDescriptorProto_bytes m)) (msg_oneof_decl d)
     @ opt_bytes 7 LengthDelimited length_delimited (msg_options d)
     @ rep_bytes 9 LengthDelimited (\<lambda>m. length_delimited (ReservedRange_bytes m)) (msg_reserved_range d)
     @ rep_bytes 10 LengthDelimited str_payload (msg_reserved_name d) @ []) (DescriptorProto d ns)"
    by (rule loops_opt_then [where put = "\<lambda>v s. DescriptorProto ((msg_own s)\<lparr>msg_name := v\<rparr>) (msg_nested_type s)"],
        (rule DescriptorProto_reads(1); use assms in \<open>force simp: \<close>), simp add: DescriptorProto_default_def,
      rule loops_rep_then [where put = "\<lambda>v s. DescriptorProto ((msg_own s)\<lparr>msg_field := v\<rparr>) (msg_nested_type s)" and get = "\<lambda>s. msg_field (msg_own s)"],
        (rule DescriptorProto_reads(2); use assms in \<open>force simp: list_all_iff\<close>), simp, simp, simp, simp add: DescriptorProto_default_def,
      rule loops_rep_then [where put = "\<lambda>v s. DescriptorProto ((msg_own s)\<lparr>msg_extension := v\<rparr>) (msg_nested_type s)" and get = "\<lambda>s. msg_extension (msg_own s)"],
        (rule DescriptorProto_reads(3); use assms in \<open>force simp: list_all_iff\<close>), simp, simp, simp, simp add: DescriptorProto_default_def,
      rule loops_rep_then [where put = "\<lambda>v s. DescriptorProto (msg_own s) v" and get = "msg_nested_type"],
        (rule DescriptorProto_reads(4); use assms in \<open>force simp: list_all_iff\<close>), simp, simp, simp, simp add: DescriptorProto_default_def,
      rule loops_rep_then [where put = "\<lambda>v s. DescriptorProto ((msg_own s)\<lparr>msg_enum_type := v\<rparr>) (msg_nested_type s)" and get = "\<lambda>s. msg_enum_type (msg_own s)"],
        (rule DescriptorProto_reads(5); use assms in \<open>force simp: list_all_iff\<close>), simp, simp, simp, simp add: DescriptorProto_default_def,
      rule loops_rep_then [where put = "\<lambda>v s. DescriptorProto ((msg_own s)\<lparr>msg_extension_range := v\<rparr>) (msg_nested_type s)" and get = "\<lambda>s. msg_extension_range (msg_own s)"],
        (rule DescriptorProto_reads(6); use assms in \<open>force simp: list_all_iff\<close>), simp, simp, simp, simp add: DescriptorProto_default_def,
      rule loops_rep_then [where put = "\<lambda>v s. DescriptorProto ((msg_own s)\<lparr>msg_oneof_decl := v\<rparr>) (msg_nested_type s)" and get = "\<lambda>s. msg_oneof_decl (msg_own s)"],
        (rule DescriptorProto_reads(7); use assms in \<open>force simp: list_all_iff\<close>), simp, simp, simp, simp add: DescriptorProto_default_def,
      rule loops_opt_then [where put = "\<lambda>v s. DescriptorProto ((msg_own s)\<lparr>msg_options := v\<rparr>) (msg_nested_type s)"],
        (rule DescriptorProto_reads(8); use assms in \<open>force simp: \<close>), simp add: DescriptorProto_default_def,
      rule loops_rep_then [where put = "\<lambda>v s. DescriptorProto ((msg_own s)\<lparr>msg_reserved_range := v\<rparr>) (msg_nested_type s)" and get = "\<lambda>s. msg_reserved_range (msg_own s)"],
        (rule DescriptorProto_reads(9); use assms in \<open>force simp: list_all_iff\<close>), simp, simp, simp, simp add: DescriptorProto_default_def,
      rule loops_rep_then [where put = "\<lambda>v s. DescriptorProto ((msg_own s)\<lparr>msg_reserved_name := v\<rparr>) (msg_nested_type s)" and get = "\<lambda>s. msg_reserved_name (msg_own s)"],
        (rule DescriptorProto_reads(10); use assms in \<open>force simp: list_all_iff\<close>), simp, simp, simp, simp add: DescriptorProto_default_def,
      rule loops_end, cases d, simp add: DescriptorProto_default_def)
  then show ?thesis by (simp)
qed

interpretation DescriptorProto: field_message DescriptorProto_ok "DescriptorProto_levels" DescriptorProto_bytes
  DescriptorProto_default DescriptorProto_encode "DescriptorProto_step DescriptorProto_merge" "{1, 2, 3, 4, 5, 6, 7, 8, 9, 10}"
proof unfold_locales
  show "DescriptorProto_ok m \<Longrightarrow> DescriptorProto_encode m w = Inr (emit w (DescriptorProto_bytes m))" for m w
  proof (induction m arbitrary: w)
    case (DescriptorProto d ns)
    then have n: "encode_messages DescriptorProto_encode 3 ns w
        = Inr (emit w (rep_bytes 3 LengthDelimited (\<lambda>m. length_delimited (DescriptorProto_bytes m)) ns))" for w
      by (intro encode_messages_eq) auto
    show ?case
      using DescriptorProto.prems
      by (simp add: field_encodings n list_all_iff
          encode_messages_eq [where enc = FieldDescriptorProto_encode and pay = FieldDescriptorProto_bytes]
          encode_messages_eq [where enc = EnumDescriptorProto_encode and pay = EnumDescriptorProto_bytes]
          encode_messages_eq [where enc = ExtensionRange_encode and pay = ExtensionRange_bytes]
          encode_messages_eq [where enc = OneofDescriptorProto_encode and pay = OneofDescriptorProto_bytes]
          encode_messages_eq [where enc = ReservedRange_encode and pay = ReservedRange_bytes]
          FieldDescriptorProto.encode_emits EnumDescriptorProto.encode_emits ExtensionRange.encode_emits
          OneofDescriptorProto.encode_emits ReservedRange.encode_emits)
  qed
  show "loops (DescriptorProto_levels m) (DescriptorProto_step DescriptorProto_merge) DescriptorProto_default (DescriptorProto_bytes m) m"
    if "DescriptorProto_ok m" for m
    using that
  proof (induction m)
    case (DescriptorProto d ns)
    show ?case
    proof (rule DescriptorProto_loops [OF DescriptorProto.prems])
      show "2 \<le> DescriptorProto_levels (DescriptorProto d ns)"
        using le_fold_max_start [of 2] by simp
      fix n assume n: "n \<in> set ns"
      then have "loops (DescriptorProto_levels n) (DescriptorProto_step DescriptorProto_merge) DescriptorProto_default (DescriptorProto_bytes n) n"
        using DescriptorProto by simp
      then have "decodes (DescriptorProto_levels n) (DescriptorProto_merge DescriptorProto_default) (DescriptorProto_bytes n) n"
        by (subst DescriptorProto_merge_eq) (rule decodes_loops)
      moreover have "Suc (DescriptorProto_levels n) \<le> DescriptorProto_levels (DescriptorProto d ns)"
        using n by (auto intro: le_fold_max)
      ultimately show "decodes (DescriptorProto_levels n) (DescriptorProto_merge DescriptorProto_default) (DescriptorProto_bytes n) n
          \<and> Suc (DescriptorProto_levels n) \<le> DescriptorProto_levels (DescriptorProto d ns)"
        by simp
    qed
  qed
  show "sound_step n (DescriptorProto_step DescriptorProto_merge m)" for n m
    using sound_DescriptorProto_step [of "n - 1" DescriptorProto_merge m] sound_DescriptorProto_merge
    by (cases n) (simp_all add: sound_step_0)
  show "reads d (DescriptorProto_step DescriptorProto_merge m) (tag_bytes f wt @ v) m"
    if "0 < f" "f < 2 ^ 29" "f \<notin> {1, 2, 3, 4, 5, 6, 7, 8, 9, 10}" "wire_value d wt v" for f d wt v m
    unfolding DescriptorProto_step_def using that by (intro reads_field) (simp_all add: reads_skip_field)
qed

section \<open>\<open>FileDescriptorProto\<close>\<close>

definition FileDescriptorProto_bytes :: "FileDescriptorProto \<Rightarrow> byte list" where
  "FileDescriptorProto_bytes m =
     opt_bytes 1 LengthDelimited str_payload (file_name m)
     @ opt_bytes 2 LengthDelimited str_payload (file_package m)
     @ rep_bytes 3 LengthDelimited str_payload (file_dependency m)
     @ rep_bytes 10 Varint i32_payload (file_public_dependency m)
     @ rep_bytes 11 Varint i32_payload (file_weak_dependency m)
     @ rep_bytes 4 LengthDelimited (\<lambda>m. length_delimited (DescriptorProto_bytes m)) (file_message_type m)
     @ rep_bytes 5 LengthDelimited (\<lambda>m. length_delimited (EnumDescriptorProto_bytes m)) (file_enum_type m)
     @ rep_bytes 6 LengthDelimited (\<lambda>m. length_delimited (ServiceDescriptorProto_bytes m)) (file_service m)
     @ rep_bytes 7 LengthDelimited (\<lambda>m. length_delimited (FieldDescriptorProto_bytes m)) (file_extension m)
     @ opt_bytes 8 LengthDelimited length_delimited (file_options m)
     @ opt_bytes 9 LengthDelimited (\<lambda>m. length_delimited (SourceCodeInfo_bytes m)) (file_source_code_info m)
     @ opt_bytes 12 LengthDelimited str_payload (file_syntax m)"

definition FileDescriptorProto_ok :: "FileDescriptorProto \<Rightarrow> bool" where
  "FileDescriptorProto_ok m \<longleftrightarrow> pred_option str_ok (file_name m) 
     \<and> pred_option str_ok (file_package m) 
     \<and> list_all str_ok (file_dependency m) 
     \<and> list_all DescriptorProto_ok (file_message_type m) 
     \<and> list_all EnumDescriptorProto_ok (file_enum_type m) 
     \<and> list_all ServiceDescriptorProto_ok (file_service m) 
     \<and> list_all FieldDescriptorProto_ok (file_extension m) 
     \<and> pred_option SourceCodeInfo_ok (file_source_code_info m) 
     \<and> pred_option str_ok (file_syntax m)"

definition FileDescriptorProto_levels :: "FileDescriptorProto \<Rightarrow> nat" where
  "FileDescriptorProto_levels m = fold max (map (\<lambda>n. Suc (DescriptorProto_levels n)) (file_message_type m)) 2"

lemma FileDescriptorProto_reads:
  "str_ok x1 \<Longrightarrow> reads l (FileDescriptorProto_step s) (tag_bytes 1 LengthDelimited @ str_payload x1) (s\<lparr>file_name := Some x1\<rparr>)"
  "str_ok x2 \<Longrightarrow> reads l (FileDescriptorProto_step s) (tag_bytes 2 LengthDelimited @ str_payload x2) (s\<lparr>file_package := Some x2\<rparr>)"
  "str_ok x3 \<Longrightarrow> reads l (FileDescriptorProto_step s) (tag_bytes 3 LengthDelimited @ str_payload x3) (s\<lparr>file_dependency := file_dependency s @ [x3]\<rparr>)"
  "reads l (FileDescriptorProto_step s) (tag_bytes 10 Varint @ i32_payload x10) (s\<lparr>file_public_dependency := file_public_dependency s @ [x10]\<rparr>)"
  "reads l (FileDescriptorProto_step s) (tag_bytes 11 Varint @ i32_payload x11) (s\<lparr>file_weak_dependency := file_weak_dependency s @ [x11]\<rparr>)"
  "DescriptorProto_ok x4 \<Longrightarrow> Suc (DescriptorProto_levels x4) \<le> l \<Longrightarrow> reads l (FileDescriptorProto_step s) (tag_bytes 4 LengthDelimited @ (\<lambda>m. length_delimited (DescriptorProto_bytes m)) x4) (s\<lparr>file_message_type := file_message_type s @ [x4]\<rparr>)"
  "EnumDescriptorProto_ok x5 \<Longrightarrow> Suc 1 \<le> l \<Longrightarrow> reads l (FileDescriptorProto_step s) (tag_bytes 5 LengthDelimited @ (\<lambda>m. length_delimited (EnumDescriptorProto_bytes m)) x5) (s\<lparr>file_enum_type := file_enum_type s @ [x5]\<rparr>)"
  "ServiceDescriptorProto_ok x6 \<Longrightarrow> Suc 1 \<le> l \<Longrightarrow> reads l (FileDescriptorProto_step s) (tag_bytes 6 LengthDelimited @ (\<lambda>m. length_delimited (ServiceDescriptorProto_bytes m)) x6) (s\<lparr>file_service := file_service s @ [x6]\<rparr>)"
  "FieldDescriptorProto_ok x7 \<Longrightarrow> Suc 0 \<le> l \<Longrightarrow> reads l (FileDescriptorProto_step s) (tag_bytes 7 LengthDelimited @ (\<lambda>m. length_delimited (FieldDescriptorProto_bytes m)) x7) (s\<lparr>file_extension := file_extension s @ [x7]\<rparr>)"
  "reads l (FileDescriptorProto_step s) (tag_bytes 8 LengthDelimited @ length_delimited x8) (s\<lparr>file_options := Some x8\<rparr>)"
  "SourceCodeInfo_ok x9 \<Longrightarrow> Suc 1 \<le> l \<Longrightarrow> reads l (FileDescriptorProto_step s) (tag_bytes 9 LengthDelimited @ (\<lambda>m. length_delimited (SourceCodeInfo_bytes m)) x9) (s\<lparr>file_source_code_info := Some x9\<rparr>)"
  "str_ok x12 \<Longrightarrow> reads l (FileDescriptorProto_step s) (tag_bytes 12 LengthDelimited @ str_payload x12) (s\<lparr>file_syntax := Some x12\<rparr>)"
  unfolding FileDescriptorProto_step_def by ((rule reads_field; auto split del: if_split intro!: field_reads intro: DescriptorProto.merge_decodes [folded DescriptorProto_merge_eq] EnumDescriptorProto.merge_decodes FieldDescriptorProto.merge_decodes ServiceDescriptorProto.merge_decodes SourceCodeInfo.merge_decodes)+)

lemma FileDescriptorProto_loops:
  assumes "FileDescriptorProto_ok m" and "2 \<le> l" and "\<And>n. n \<in> set (file_message_type m) \<Longrightarrow> Suc (DescriptorProto_levels n) \<le> l"
  shows "loops l (FileDescriptorProto_step) FileDescriptorProto_default (FileDescriptorProto_bytes m) m"
proof -
  have "loops l (FileDescriptorProto_step) FileDescriptorProto_default (
     opt_bytes 1 LengthDelimited str_payload (file_name m)
     @ opt_bytes 2 LengthDelimited str_payload (file_package m)
     @ rep_bytes 3 LengthDelimited str_payload (file_dependency m)
     @ rep_bytes 10 Varint i32_payload (file_public_dependency m)
     @ rep_bytes 11 Varint i32_payload (file_weak_dependency m)
     @ rep_bytes 4 LengthDelimited (\<lambda>m. length_delimited (DescriptorProto_bytes m)) (file_message_type m)
     @ rep_bytes 5 LengthDelimited (\<lambda>m. length_delimited (EnumDescriptorProto_bytes m)) (file_enum_type m)
     @ rep_bytes 6 LengthDelimited (\<lambda>m. length_delimited (ServiceDescriptorProto_bytes m)) (file_service m)
     @ rep_bytes 7 LengthDelimited (\<lambda>m. length_delimited (FieldDescriptorProto_bytes m)) (file_extension m)
     @ opt_bytes 8 LengthDelimited length_delimited (file_options m)
     @ opt_bytes 9 LengthDelimited (\<lambda>m. length_delimited (SourceCodeInfo_bytes m)) (file_source_code_info m)
     @ opt_bytes 12 LengthDelimited str_payload (file_syntax m) @ []) m"
    by (rule loops_opt_then [where put = "\<lambda>v s. s\<lparr>file_name := v\<rparr>"],
        (rule FileDescriptorProto_reads(1); use assms in \<open>force simp: FileDescriptorProto_ok_def \<close>), simp add: FileDescriptorProto_default_def,
      rule loops_opt_then [where put = "\<lambda>v s. s\<lparr>file_package := v\<rparr>"],
        (rule FileDescriptorProto_reads(2); use assms in \<open>force simp: FileDescriptorProto_ok_def \<close>), simp add: FileDescriptorProto_default_def,
      rule loops_rep_then [where put = "\<lambda>v s. s\<lparr>file_dependency := v\<rparr>" and get = "file_dependency"],
        (rule FileDescriptorProto_reads(3); use assms in \<open>force simp: FileDescriptorProto_ok_def list_all_iff\<close>), simp, simp, simp, simp add: FileDescriptorProto_default_def,
      rule loops_rep_then [where put = "\<lambda>v s. s\<lparr>file_public_dependency := v\<rparr>" and get = "file_public_dependency"],
        (rule FileDescriptorProto_reads(4); use assms in \<open>force simp: FileDescriptorProto_ok_def list_all_iff\<close>), simp, simp, simp, simp add: FileDescriptorProto_default_def,
      rule loops_rep_then [where put = "\<lambda>v s. s\<lparr>file_weak_dependency := v\<rparr>" and get = "file_weak_dependency"],
        (rule FileDescriptorProto_reads(5); use assms in \<open>force simp: FileDescriptorProto_ok_def list_all_iff\<close>), simp, simp, simp, simp add: FileDescriptorProto_default_def,
      rule loops_rep_then [where put = "\<lambda>v s. s\<lparr>file_message_type := v\<rparr>" and get = "file_message_type"],
        (rule FileDescriptorProto_reads(6); use assms in \<open>force simp: FileDescriptorProto_ok_def list_all_iff\<close>), simp, simp, simp, simp add: FileDescriptorProto_default_def,
      rule loops_rep_then [where put = "\<lambda>v s. s\<lparr>file_enum_type := v\<rparr>" and get = "file_enum_type"],
        (rule FileDescriptorProto_reads(7); use assms in \<open>force simp: FileDescriptorProto_ok_def list_all_iff\<close>), simp, simp, simp, simp add: FileDescriptorProto_default_def,
      rule loops_rep_then [where put = "\<lambda>v s. s\<lparr>file_service := v\<rparr>" and get = "file_service"],
        (rule FileDescriptorProto_reads(8); use assms in \<open>force simp: FileDescriptorProto_ok_def list_all_iff\<close>), simp, simp, simp, simp add: FileDescriptorProto_default_def,
      rule loops_rep_then [where put = "\<lambda>v s. s\<lparr>file_extension := v\<rparr>" and get = "file_extension"],
        (rule FileDescriptorProto_reads(9); use assms in \<open>force simp: FileDescriptorProto_ok_def list_all_iff\<close>), simp, simp, simp, simp add: FileDescriptorProto_default_def,
      rule loops_opt_then [where put = "\<lambda>v s. s\<lparr>file_options := v\<rparr>"],
        (rule FileDescriptorProto_reads(10); use assms in \<open>force simp: FileDescriptorProto_ok_def \<close>), simp add: FileDescriptorProto_default_def,
      rule loops_opt_then [where put = "\<lambda>v s. s\<lparr>file_source_code_info := v\<rparr>"],
        (rule FileDescriptorProto_reads(11); use assms in \<open>force simp: FileDescriptorProto_ok_def \<close>), simp add: FileDescriptorProto_default_def,
      rule loops_opt_then [where put = "\<lambda>v s. s\<lparr>file_syntax := v\<rparr>"],
        (rule FileDescriptorProto_reads(12); use assms in \<open>force simp: FileDescriptorProto_ok_def \<close>), simp add: FileDescriptorProto_default_def,
      rule loops_end, cases m, simp add: FileDescriptorProto_default_def)
  then show ?thesis by (simp add: FileDescriptorProto_bytes_def)
qed

interpretation FileDescriptorProto: field_message FileDescriptorProto_ok "FileDescriptorProto_levels" FileDescriptorProto_bytes
  FileDescriptorProto_default FileDescriptorProto_encode "FileDescriptorProto_step" "{1, 2, 3, 4, 5, 6, 7, 8, 9, 10, 11, 12}"
proof unfold_locales
  show "FileDescriptorProto_encode m w = Inr (emit w (FileDescriptorProto_bytes m))" if "FileDescriptorProto_ok m" for m w
    using that by (cases "file_source_code_info m") (simp_all add: buffer_simps FileDescriptorProto_encode_def FileDescriptorProto_bytes_def FileDescriptorProto_ok_def field_encodings list_all_iff
      encode_messages_eq [where enc = DescriptorProto_encode and pay = DescriptorProto_bytes] DescriptorProto.encode_emits encode_messages_eq [where enc = EnumDescriptorProto_encode and pay = EnumDescriptorProto_bytes] EnumDescriptorProto.encode_emits encode_messages_eq [where enc = FieldDescriptorProto_encode and pay = FieldDescriptorProto_bytes] FieldDescriptorProto.encode_emits encode_messages_eq [where enc = ServiceDescriptorProto_encode and pay = ServiceDescriptorProto_bytes] ServiceDescriptorProto.encode_emits encode_messages_eq [where enc = SourceCodeInfo_encode and pay = SourceCodeInfo_bytes] SourceCodeInfo.encode_emits)
  show "loops (FileDescriptorProto_levels m) FileDescriptorProto_step FileDescriptorProto_default (FileDescriptorProto_bytes m) m"
    if "FileDescriptorProto_ok m" for m
    unfolding FileDescriptorProto_levels_def
    using that by (intro FileDescriptorProto_loops) (auto intro: le_fold_max le_fold_max_start)
  show "sound_step n (FileDescriptorProto_step m)" for n m
    unfolding FileDescriptorProto_step_def
    by ((rule sound_case_tag sound_read_into sound_if sound_skip_field sound_read_message sound_read_message [THEN sound_step_sound]
        sound_reads scalar_sound scalar_sound_weak sound_DescriptorProto_merge EnumDescriptorProto.merge_sound FieldDescriptorProto.merge_sound ServiceDescriptorProto.merge_sound SourceCodeInfo.merge_sound)+)
  show "reads d (FileDescriptorProto_step m) (tag_bytes f wt @ v) m"
    if "0 < f" "f < 2 ^ 29" "f \<notin> {1, 2, 3, 4, 5, 6, 7, 8, 9, 10, 11, 12}" "wire_value d wt v" for f d wt v m
    unfolding FileDescriptorProto_step_def using that by (intro reads_field) (simp_all add: reads_skip_field)
qed

end
