(* ===== verification/Descriptor_Properties.thy ===== *)
theory Descriptor_Properties
  imports Descriptor
begin

text \<open>
  Sets of file descriptors, and what the descriptor messages guarantee: round trip, totality, and
  the loss of packed source locations.
\<close>

section \<open>\<open>FileDescriptorSet\<close>\<close>

definition FileDescriptorSet_bytes :: "FileDescriptorSet \<Rightarrow> byte list" where
  "FileDescriptorSet_bytes m = rep_bytes 1 LengthDelimited (\<lambda>f. length_delimited (FileDescriptorProto_bytes f)) (fds_file m)"

text \<open>The files are decoded from scratch, so each has to fit the default limits on its own.\<close>

definition file_fits :: "FileDescriptorProto \<Rightarrow> bool" where
  "file_fits f \<longleftrightarrow> FileDescriptorProto_ok f \<and> FileDescriptorProto_levels f \<le> 100
     \<and> length (FileDescriptorProto_bytes f) \<le> 1000000"

definition FileDescriptorSet_ok :: "FileDescriptorSet \<Rightarrow> bool" where
  "FileDescriptorSet_ok m \<longleftrightarrow> list_all file_fits (fds_file m)"

interpretation FileDescriptorSet: field_message FileDescriptorSet_ok "\<lambda>_. 0" FileDescriptorSet_bytes
  FileDescriptorSet_default FileDescriptorSet_encode FileDescriptorSet_step "{1}"
proof unfold_locales
  show "FileDescriptorSet_encode m w = Inr (emit w (FileDescriptorSet_bytes m))" if "FileDescriptorSet_ok m" for m w
    using that
    by (simp add: FileDescriptorSet_encode_def FileDescriptorSet_bytes_def FileDescriptorSet_ok_def list_all_iff file_fits_def
        encode_messages_eq [where enc = FileDescriptorProto_encode and pay = FileDescriptorProto_bytes] FileDescriptorProto.encode_emits)
  have reads: "reads d (FileDescriptorSet_step s) (tag_bytes 1 LengthDelimited @ length_delimited (FileDescriptorProto_bytes f))
      (s\<lparr>fds_file := fds_file s @ [f]\<rparr>)" if "file_fits f" for d s f
  proof -
    have "reads d (read_fresh FileDescriptorProto_default (while_unread FileDescriptorProto_step))
        (length_delimited (FileDescriptorProto_bytes f)) f"
      using that by (intro reads_fresh [where merge = "while_unread FileDescriptorProto_step" and bs = "FileDescriptorProto_bytes f", OF FileDescriptorProto.merge_decodes]) (simp_all add: file_fits_def)
    then show ?thesis
      unfolding FileDescriptorSet_step_def by (intro reads_field) (auto intro: reads_into)
  qed
  show "loops 0 FileDescriptorSet_step FileDescriptorSet_default (FileDescriptorSet_bytes m) m" if "FileDescriptorSet_ok m" for m
  proof -
    have "loops 0 FileDescriptorSet_step FileDescriptorSet_default (rep_bytes 1 LengthDelimited
        (\<lambda>f. length_delimited (FileDescriptorProto_bytes f)) (fds_file m) @ []) m"
      by (rule loops_rep_then [where put = "\<lambda>v s. s\<lparr>fds_file := v\<rparr>" and get = fds_file],
          (rule reads; use that in \<open>force simp: FileDescriptorSet_ok_def list_all_iff\<close>), simp, simp, simp,
          simp add: FileDescriptorSet_default_def,
          rule loops_end, cases m, simp add: FileDescriptorSet_default_def)
    then show ?thesis by (simp add: FileDescriptorSet_bytes_def)
  qed
  show "sound_step n (FileDescriptorSet_step m)" for n m
    unfolding FileDescriptorSet_step_def
    by ((rule sound_case_tag sound_read_into sound_if sound_skip_field sound_read_fresh
        sound_read_fresh [THEN sound_step_sound] FileDescriptorProto.merge_sound)+)
  show "reads d (FileDescriptorSet_step m) (tag_bytes f wt @ v) m"
    if "0 < f" "f < 2 ^ 29" "f \<notin> {1}" "wire_value d wt v" for f d wt v m
    unfolding FileDescriptorSet_step_def using that by (intro reads_field) (simp_all add: reads_skip_field)
qed

section \<open>Properties\<close>

text \<open>
  C21: Descriptors round-trip: a file descriptor set, with messages nested to any depth the
  limits allow, is decoded from its own encoding unchanged, and so is each file descriptor.
\<close>

theorem descriptor_roundtrip:
  assumes "FileDescriptorSet_ok s" and "length (FileDescriptorSet_bytes s) \<le> 1000000"
  shows "bind_result (encode_to_vec FileDescriptorSet_encode s) (decode FileDescriptorSet_default (while_unread FileDescriptorSet_step)) = Inr s
    \<and> (\<forall>f \<in> set (fds_file s). bind_result (encode_to_vec FileDescriptorProto_encode f)
         (decode FileDescriptorProto_default (while_unread FileDescriptorProto_step)) = Inr f)"
proof (intro conjI ballI)
  show "bind_result (encode_to_vec FileDescriptorSet_encode s) (decode FileDescriptorSet_default (while_unread FileDescriptorSet_step)) = Inr s"
    using assms by (intro FileDescriptorSet.roundtrip) simp_all
  fix f assume "f \<in> set (fds_file s)"
  then have "file_fits f"
    using assms(1) by (simp add: FileDescriptorSet_ok_def list_all_iff)
  then show "bind_result (encode_to_vec FileDescriptorProto_encode f)
      (decode FileDescriptorProto_default (while_unread FileDescriptorProto_step)) = Inr f"
    by (intro FileDescriptorProto.roundtrip) (simp_all add: file_fits_def)
qed

definition sample_file :: FileDescriptorProto where
  "sample_file = FileDescriptorProto_default\<lparr>file_name := Some ''a'', file_message_type :=
     [DescriptorProto ((msg_own DescriptorProto_default)\<lparr>msg_name := Some ''M''\<rparr>) [DescriptorProto_default]]\<rparr>"

lemma sample_file_fits:
  "file_fits sample_file" "length (FileDescriptorSet_bytes \<lparr>fds_file = [sample_file]\<rparr>) \<le> 1000000"
  "length (FileDescriptorProto_bytes sample_file) \<le> 200"
proof -
  have "str_ok ''a''" "str_ok ''M''"
    by (intro str_ascii_ok; simp add: str_ascii_def)+
  then have ok: "FileDescriptorProto_ok sample_file"
    by (simp add: FileDescriptorProto_ok_def sample_file_def FileDescriptorProto_default_def DescriptorProto_default_def)
  have l: "length (length_delimited xs) \<le> length xs + 10" for xs
    using length_varint_le_10 by (simp add: length_delimited_def)
  have t: "length (tag_bytes f wt) \<le> 10" for f wt
    by (rule length_tag_bytes_10)
  let ?n = "DescriptorProto_bytes (DescriptorProto ((msg_own DescriptorProto_default)\<lparr>msg_name := Some ''M''\<rparr>) [DescriptorProto_default])"
  have n: "length ?n \<le> 100"
    using t [of 1 LengthDelimited] t [of 3 LengthDelimited] l [of "as_bytes ''M''"] l [of "[]"]
    by (simp add: DescriptorProto_default_def)
  have f: "length (FileDescriptorProto_bytes sample_file) \<le> 200"
    using t [of 1 LengthDelimited] t [of 4 LengthDelimited] l [of "as_bytes ''a''"] l [of ?n] n
    by (simp add: FileDescriptorProto_bytes_def sample_file_def FileDescriptorProto_default_def del: DescriptorProto_bytes.simps)
  show "length (FileDescriptorProto_bytes sample_file) \<le> 200" by (rule f)
  show "file_fits sample_file"
    using ok f by (simp add: file_fits_def FileDescriptorProto_levels_def sample_file_def FileDescriptorProto_default_def
        DescriptorProto_default_def)
  show "length (FileDescriptorSet_bytes \<lparr>fds_file = [sample_file]\<rparr>) \<le> 1000000"
    using t [of 1 LengthDelimited] l [of "FileDescriptorProto_bytes sample_file"] f
    by (simp add: FileDescriptorSet_bytes_def)
qed

theorem descriptor_roundtrip_witness:
  "bind_result (encode_to_vec FileDescriptorSet_encode \<lparr>fds_file = [sample_file]\<rparr>)
     (decode FileDescriptorSet_default (while_unread FileDescriptorSet_step)) = Inr \<lparr>fds_file = [sample_file]\<rparr>"
  using descriptor_roundtrip [of "\<lparr>fds_file = [sample_file]\<rparr>"] sample_file_fits
  by (simp add: FileDescriptorSet_ok_def)

text \<open>
  Decoding descriptors is total: any bytes are decoded as a file descriptor set, a file or a
  (recursive) message descriptor, or refused with an error; no input makes the decoder panic or
  run for ever.
\<close>

lemma descriptor_decode_total:
  assumes "length bs < 2 ^ 63"
  shows "((\<exists>m. decode FileDescriptorSet_default (while_unread FileDescriptorSet_step) bs = Inr m)
      \<or> (\<exists>e. decode FileDescriptorSet_default (while_unread FileDescriptorSet_step) bs = Inl (Raised e)))
    \<and> ((\<exists>m. decode FileDescriptorProto_default (while_unread FileDescriptorProto_step) bs = Inr m)
      \<or> (\<exists>e. decode FileDescriptorProto_default (while_unread FileDescriptorProto_step) bs = Inl (Raised e)))
    \<and> ((\<exists>m. decode DescriptorProto_default DescriptorProto_merge bs = Inr m)
      \<or> (\<exists>e. decode DescriptorProto_default DescriptorProto_merge bs = Inl (Raised e)))"
  using FileDescriptorSet.decode_total [OF assms] FileDescriptorProto.decode_total [OF assms]
    DescriptorProto.decode_total [OF assms] by (simp add: DescriptorProto_merge_eq [symmetric])

lemma descriptor_decode_total_witness:
  "(\<exists>m. decode DescriptorProto_default DescriptorProto_merge [0xFF] = Inr m)
   \<or> (\<exists>e. decode DescriptorProto_default DescriptorProto_merge [0xFF] = Inl (Raised e))"
  using descriptor_decode_total [of "[0xFF]"] by simp

text \<open>The encoding of a location's path and span as packed fields.\<close>

definition packed_location :: "i32 list \<Rightarrow> i32 list \<Rightarrow> byte list core_res" where
  "packed_location path span =
     bind_result (encode_packed_varint Writer_new 1 (map scast path)) (\<lambda>w.
       bind_result (encode_packed_varint w 2 (map scast span)) (\<lambda>w. Inr (into_vec w)))"

lemma Location_skips_packed:
  assumes "f = 1 \<or> f = 2"
  shows "loops d Location_step m (tag_bytes f LengthDelimited @ length_delimited b) m"
proof -
  have "reads d (skip_field m \<lparr>field_number = f, wire_type = LengthDelimited\<rparr>) (length_delimited b) m"
    by (intro reads_skip_field) (simp add: value_bytes)
  then have "reads d (Location_step m) (tag_bytes f LengthDelimited @ length_delimited b) m"
    unfolding Location_step_def using assms by (intro reads_field) auto
  then show ?thesis
    by (intro loops_one) (simp_all add: tag_bytes_not_Nil)
qed

text \<open>
  Packed source locations are lost: \<open>path\<close> and \<open>span\<close> are packed fields in
  \<open>descriptor.proto\<close>, but \<open>Location\<close> accepts them with wire type \<open>Varint\<close> only; a location in
  the packed encoding, written by this library's own packed encoder, is read without an error as
  one with an empty path and an empty span.
\<close>

lemma packed_location_lost:
  assumes "packed_location path span = Inr bs" and "length bs \<le> 1000000"
  shows "decode Location_default (while_unread Location_step) bs = Inr Location_default"
proof -
  obtain b1 b2 where bs: "bs = (tag_bytes 1 LengthDelimited @ length_delimited b1) @ (tag_bytes 2 LengthDelimited @ length_delimited b2)"
    using assms(1) by (auto simp: packed_location_def encode_packed_varint_def buffer_simps Let_def)
  have a: "ample (Reader_new bs)" "room 0 (Reader_new bs)" "unread (Reader_new bs) = bs"
    using ample_new [OF assms(2)] by (auto intro: room_mono)
  have "loops 0 Location_step Location_default bs Location_default"
    unfolding bs by (rule loops_append; rule Location_skips_packed) simp_all
  from while_unread_loops [OF this a] obtain r' where
      "while_unread Location_step Location_default (Reader_new bs) = Inr (Location_default, r')" "after (Reader_new bs) r' []"
    by blast
  then show ?thesis
    by (simp add: decode_def Reader_new_def [symmetric] is_empty_unread after_def)
qed

lemma packed_location_lost_witness:
  "\<exists>bs. packed_location [4, 0] [7] = Inr bs
     \<and> decode Location_default (while_unread Location_step) bs = Inr Location_default"
proof -
  let ?b = "into_vec (write_length_delimited (emit (write_length_delimited (emit Writer_new (tag_bytes 1 LengthDelimited))
      (fold encode_varint [4, 0] [])) (tag_bytes 2 LengthDelimited)) (fold encode_varint [7] []))"
  have b: "packed_location [4, 0] [7] = Inr ?b"
    by (simp add: packed_location_def encode_packed_varint_def buffer_simps)
  have l: "length (length_delimited xs) \<le> length xs + 10" for xs
    using length_varint_le_10 by (simp add: length_delimited_def)
  have "length ?b \<le> 1000000"
    using l [of "varint 4 @ varint 0"] l [of "varint 7"] length_tag_bytes_10 [of 1 LengthDelimited] length_tag_bytes_10 [of 2 LengthDelimited]
      length_varint_le_10 [of 4] length_varint_le_10 [of 0] length_varint_le_10 [of 7]
    by (simp add: buffer_simps fold_encode_varint)
  from packed_location_lost [OF b this] b show ?thesis by blast
qed

end
