(* ===== verification/Wkt_Properties.thy ===== *)
theory Wkt_Properties
  imports Wkt_Value
begin

text \<open>
  What the well-known types guarantee, read off the interpretations of the message contracts:
  round trips, totality on arbitrary input, skipping of unknown fields; and where they deviate
  from the rest of the runtime.
\<close>

definition roundtrips :: "('m \<Rightarrow> writer \<Rightarrow> writer core_res) \<Rightarrow> 'm \<Rightarrow> ('m \<Rightarrow> reader \<Rightarrow> ('m \<times> reader) core_res) \<Rightarrow> 'm \<Rightarrow> bool" where
  "roundtrips encode m0 merge m \<longleftrightarrow> bind_result (encode_to_vec encode m) (decode m0 merge) = Inr m"

definition returns :: "'a core_res \<Rightarrow> bool" where
  "returns x \<longleftrightarrow> (\<exists>m. x = Inr m) \<or> (\<exists>e. x = Inl (Raised e))"

lemma length_two_fields: "length (tag_bytes f a @ varint x @ tag_bytes g b @ varint y) \<le> 1000000"
  using length_tag_bytes_10 [of f a] length_tag_bytes_10 [of g b] length_varint_le_10 [of x] length_varint_le_10 [of y]
  by simp

lemma length_value_parts:
  "length (item_bytes v) \<le> length (value_bytes' v) + 20"
  "length (entry_bytes' (k, v)) \<le> length k + length (value_bytes' v) + 60"
  "length (value_bytes' (VStruct s)) \<le> length (concat (map entry_bytes' s)) + 20"
  "length (value_bytes' (VList l)) \<le> length (concat (map item_bytes l)) + 20"
  "length (value_bytes' VNull) \<le> 20" "length (value_bytes' (VBool b)) \<le> 20"
proof -
  note t = length_tag_bytes_10
  have d: "length (length_delimited b) \<le> length b + 10" for b
    using length_varint_le_10 by (simp add: length_delimited_def)
  show "length (item_bytes v) \<le> length (value_bytes' v) + 20"
    using t [of 1 LengthDelimited] d [of "value_bytes' v"] by (simp add: item_bytes_def)
  show "length (entry_bytes' (k, v)) \<le> length k + length (value_bytes' v) + 60"
    using t [of 1 LengthDelimited] t [of 2 LengthDelimited] d [of "as_bytes k"] d [of "value_bytes' v"]
      d [of "tag_bytes 1 LengthDelimited @ length_delimited (as_bytes k) @ tag_bytes 2 LengthDelimited @ length_delimited (value_bytes' v)"]
    by (simp add: entry_bytes'_Pair)
  show "length (value_bytes' (VStruct s)) \<le> length (concat (map entry_bytes' s)) + 20"
    using t [of 5 LengthDelimited] d [of "concat (map entry_bytes' s)"] by (simp add: value_bytes_fold del: value_bytes'.simps)
  show "length (value_bytes' (VList l)) \<le> length (concat (map item_bytes l)) + 20"
    using t [of 6 LengthDelimited] d [of "concat (map item_bytes l)"] by (simp add: value_bytes_fold del: value_bytes'.simps)
  show "length (value_bytes' VNull) \<le> 20" "length (value_bytes' (VBool b)) \<le> 20"
    using t [of 1 Varint] t [of 4 Varint] length_varint_le_10 [of 0] length_varint_le_10 [of 1] by auto
qed

text \<open>
  C12: Every one of the seventeen well-known types round-trips: decoding an encoding gives the message back,
  when its strings are UTF-8 and its encoding has at most a million bytes (the model's stand-in for the
  default limits). For the recursive \<open>Value\<close>, \<open>Struct\<close> and \<open>ListValue\<close> this holds for every
  iteration order of the maps inside, when the nesting stays within the default depth limit.
\<close>

theorem wkt_roundtrip:
  assumes "list_all str_ok (paths fm)"
    and "length (concat (map (\<lambda>p. tag_bytes 1 LengthDelimited @ length_delimited (as_bytes p)) (paths fm))) \<le> 1000000"
    and "str_ok s" and "length s \<le> 400000" and "length bs \<le> 400000"
    and "value_fits v" and "value_levels v \<le> 100"
    and "struct_fits st" and "struct_levels st \<le> 100" and "length (concat (map entry_bytes' st)) \<le> 1000000"
    and "\<forall>x \<in> set l. value_fits x \<and> value_levels x \<le> 100" and "length (concat (map item_bytes l)) \<le> 1000000"
  shows "roundtrips Timestamp_encode Timestamp_default Timestamp_merge ts
    \<and> roundtrips Duration_encode Duration_default Duration_merge du
    \<and> roundtrips FieldMask_encode FieldMask_default FieldMask_merge fm
    \<and> roundtrips Any_encode Any_default Any_merge \<lparr>type_url = s, any_value = bs\<rparr>
    \<and> roundtrips (wrapper_encode encode_double) 0 (wrapper_merge read_double) v64
    \<and> roundtrips (wrapper_encode encode_float) 0 (wrapper_merge read_float) v32
    \<and> roundtrips (wrapper_encode encode_int64) 0 (wrapper_merge read_int64) v64
    \<and> roundtrips (wrapper_encode encode_uint64) 0 (wrapper_merge read_uint64) v64
    \<and> roundtrips (wrapper_encode encode_int32) 0 (wrapper_merge read_int32) v32
    \<and> roundtrips (wrapper_encode encode_uint32) 0 (wrapper_merge read_uint32) v32
    \<and> roundtrips (wrapper_encode encode_bool) False (wrapper_merge read_bool) b
    \<and> roundtrips StringValue_encode [] (while_unread StringValue_step) s
    \<and> roundtrips BytesValue_encode [] (while_unread BytesValue_step) bs
    \<and> roundtrips Empty_encode () Empty_merge ()
    \<and> roundtrips Value_encode VNull Value_merge v
    \<and> roundtrips Struct_encode [] Struct_merge st
    \<and> roundtrips ListValue_encode [] ListValue_merge l"
proof -
  have any: "length (tag_bytes 1 LengthDelimited @ length_delimited (as_bytes s) @ tag_bytes 2 LengthDelimited @ length_delimited bs) \<le> 1000000"
    using assms(4,5) length_tag_bytes_10 [of 1 LengthDelimited] length_tag_bytes_10 [of 2 LengthDelimited]
      length_varint_le_10 [of "word_of_nat (length s)"] length_varint_le_10 [of "word_of_nat (length bs)"]
    by (simp add: length_delimited_def)
  have len: "length bs \<le> 900000" "length s \<le> 900000"
    using assms(4,5) by simp_all
  show ?thesis
    unfolding roundtrips_def wrapper_merge_def Timestamp_merge_def Duration_merge_def FieldMask_merge_def Any_merge_def
  proof (intro conjI)
    show "bind_result (encode_to_vec Any_encode \<lparr>type_url = s, any_value = bs\<rparr>) (decode Any_default (while_unread Any_step))
        = Inr \<lparr>type_url = s, any_value = bs\<rparr>"
      using any.roundtrip [of "\<lparr>type_url = s, any_value = bs\<rparr>"] any assms(3) by simp
    show "bind_result (encode_to_vec Value_encode v) (decode VNull Value_merge) = Inr v"
      using assms(6,7) by (intro Value.roundtrip) (simp_all add: value_fits_def)
    show "bind_result (encode_to_vec Struct_encode st) (decode [] Struct_merge) = Inr st"
      by (rule Struct.roundtrip) (fact assms(8-10))+
    show "bind_result (encode_to_vec ListValue_encode l) (decode [] ListValue_merge) = Inr l"
      by (rule ListValue.roundtrip) (use assms(11,12) in simp_all)
  qed (rule timestamp.roundtrip duration.roundtrip field_mask.roundtrip double_value.roundtrip float_value.roundtrip
      int64_value.roundtrip uint64_value.roundtrip int32_value.roundtrip uint32_value.roundtrip bool_value.roundtrip
      string_value.roundtrip bytes_value.roundtrip empty.roundtrip;
      simp add: assms len length_two_fields length_field_varint length_field_fixed length_field_bytes del: length_append)+
qed

theorem wkt_roundtrip_witness:
  "roundtrips Value_encode VNull Value_merge (VStruct [(''a'', VList [VNull, VStruct []]), (''b'', VBool True)])
   \<and> roundtrips Timestamp_encode Timestamp_default Timestamp_merge \<lparr>ts_seconds = - 5, ts_nanos = 7\<rparr>
   \<and> roundtrips Struct_encode [] Struct_merge [(''a'', VList [VNull, VStruct []]), (''b'', VBool True)]
   \<and> roundtrips ListValue_encode [] ListValue_merge [VNull, VStruct []]"
proof -
  let ?l = "VList [VNull, VStruct []]"
  let ?v = "VStruct [(''a'', ?l), (''b'', VBool True)]"
  have s: "str_ok ''a''" "str_ok ''b''"
    by (intro str_ascii_ok; simp add: str_ascii_def)+
  note len = length_value_parts(1) [of VNull] length_value_parts(1) [of "VStruct []"] length_value_parts(2) [of "''a''" ?l]
    length_value_parts(2) [of "''b''" "VBool True"] length_value_parts(3) [of "[(''a'', ?l), (''b'', VBool True)]"]
    length_value_parts(3) [of "[]"] length_value_parts(4) [of "[VNull, VStruct []]"] length_value_parts(5)
  have "length (value_bytes' ?v) \<le> 1000000"
    using len length_value_parts(6) [of True] by (simp del: value_bytes'.simps)
  then have fits: "value_fits ?v"
    using s by (simp add: value_fits_def del: value_bytes'.simps)
  have sub: "value_fits ?l" "value_fits (VBool True)" "value_fits VNull" "value_fits (VStruct [])"
    using value_fits_sub(1) [OF fits, of "(''a'', ?l)"] value_fits_sub(1) [OF fits, of "(''b'', VBool True)"]
      value_fits_sub(2) [of "[VNull, VStruct []]" VNull] value_fits_sub(2) [of "[VNull, VStruct []]" "VStruct []"]
    by simp_all
  have st: "struct_fits [(''a'', ?l), (''b'', VBool True)]" "struct_levels [(''a'', ?l), (''b'', VBool True)] \<le> 100"
    using s sub by (simp_all add: struct_fits_def struct_levels_def)
  have sl: "length (concat (map entry_bytes' [(''a'', ?l), (''b'', VBool True)])) \<le> 1000000"
      "length (concat (map item_bytes [VNull, VStruct []])) \<le> 1000000"
    using len length_value_parts(6) [of True] by (simp_all del: value_bytes'.simps)
  have z: "list_all str_ok (paths \<lparr>paths = []\<rparr>)" "length ''a'' \<le> 400000" "length ([] :: byte list) \<le> 400000"
      "length (concat (map (\<lambda>p. tag_bytes 1 LengthDelimited @ length_delimited (as_bytes p)) (paths \<lparr>paths = []\<rparr>))) \<le> 1000000"
      "value_levels ?v \<le> 100" "\<forall>x \<in> set [VNull, VStruct []]. value_fits x \<and> value_levels x \<le> 100"
    using sub by simp_all
  show ?thesis
    using wkt_roundtrip [OF z(1,4) s(1) z(2,3) fits z(5) st sl(1) z(6) sl(2),
        of "\<lparr>ts_seconds = - 5, ts_nanos = 7\<rparr>"]
    by blast
qed

text \<open>
  Decoding is total: on any input that fits in memory every well-known type's \<open>decode\<close>
  returns \<open>Ok\<close> or \<open>Err\<close>; it never panics and never loops.
\<close>

lemma wkt_decode_total:
  assumes "length bs < 2 ^ 63"
  shows "returns (decode Timestamp_default Timestamp_merge bs) \<and> returns (decode Duration_default Duration_merge bs)
    \<and> returns (decode FieldMask_default FieldMask_merge bs) \<and> returns (decode Any_default Any_merge bs)
    \<and> returns (decode 0 (wrapper_merge read_double) bs) \<and> returns (decode 0 (wrapper_merge read_float) bs)
    \<and> returns (decode 0 (wrapper_merge read_int64) bs) \<and> returns (decode 0 (wrapper_merge read_uint64) bs)
    \<and> returns (decode 0 (wrapper_merge read_int32) bs) \<and> returns (decode 0 (wrapper_merge read_uint32) bs)
    \<and> returns (decode False (wrapper_merge read_bool) bs) \<and> returns (decode [] (while_unread StringValue_step) bs)
    \<and> returns (decode [] (while_unread BytesValue_step) bs) \<and> returns (decode () Empty_merge bs)
    \<and> returns (decode VNull Value_merge bs) \<and> returns (decode [] Struct_merge bs)
    \<and> returns (decode [] ListValue_merge bs)"
  unfolding returns_def wrapper_merge_def Timestamp_merge_def Duration_merge_def FieldMask_merge_def Any_merge_def
  by (intro conjI timestamp.decode_total duration.decode_total field_mask.decode_total any.decode_total
      double_value.decode_total float_value.decode_total int64_value.decode_total uint64_value.decode_total
      int32_value.decode_total uint32_value.decode_total bool_value.decode_total string_value.decode_total
      bytes_value.decode_total empty.decode_total Value.decode_total Struct.decode_total ListValue.decode_total assms)

lemma wkt_decode_total_witness:
  "returns (decode VNull Value_merge [0x32, 0xFF]) \<and> returns (decode Timestamp_default Timestamp_merge [0x32, 0xFF])"
  using wkt_decode_total [of "[0x32, 0xFF]"] by simp

text \<open>
  Forward compatibility: a message surrounded by any well-formed fields it does not know
  (groups included) decodes to itself.
\<close>

lemma wkt_skips_unknown_fields:
  assumes "foreign {1, 2} 100 fs" and "foreign {1, 2} 100 gs"
    and "length (fields_bytes fs) + length (fields_bytes gs) \<le> 100000" and "str_ok s" and "length s \<le> 400000"
    and "length bs \<le> 400000"
  shows "bind_result (encode_to_vec Timestamp_encode ts) (\<lambda>b.
      decode Timestamp_default Timestamp_merge (fields_bytes fs @ b @ fields_bytes gs)) = Inr ts
    \<and> bind_result (encode_to_vec Duration_encode du) (\<lambda>b.
      decode Duration_default Duration_merge (fields_bytes fs @ b @ fields_bytes gs)) = Inr du
    \<and> bind_result (encode_to_vec Any_encode \<lparr>type_url = s, any_value = bs\<rparr>) (\<lambda>b.
      decode Any_default Any_merge (fields_bytes fs @ b @ fields_bytes gs)) = Inr \<lparr>type_url = s, any_value = bs\<rparr>"
proof -
  have two: "length (tag_bytes f a @ varint x @ tag_bytes g b @ varint y) \<le> 40" for f g a b x y
    using length_tag_bytes_10 [of f a] length_tag_bytes_10 [of g b] length_varint_le_10 [of x] length_varint_le_10 [of y]
    by simp
  have any: "length (tag_bytes 1 LengthDelimited @ length_delimited (as_bytes s) @ tag_bytes 2 LengthDelimited @ length_delimited bs) \<le> 800040"
    using assms(5,6) length_tag_bytes_10 [of 1 LengthDelimited] length_tag_bytes_10 [of 2 LengthDelimited]
      length_varint_le_10 [of "word_of_nat (length s)"] length_varint_le_10 [of "word_of_nat (length bs)"]
    by (simp add: length_delimited_def)
  have total: "length (fields_bytes fs @ b @ fields_bytes gs) \<le> 1000000" if "length b \<le> 800040" for b
    using that assms(3) by simp
  let ?any = "\<lparr>type_url = s, any_value = bs\<rparr>"
  show ?thesis
    unfolding Timestamp_merge_def Duration_merge_def Any_merge_def
    using timestamp.encode_to_vec_eq [of ts] timestamp.skips_unknown_fields [where m = ts, OF TrueI _ assms(1,2)]
      duration.encode_to_vec_eq [of du] duration.skips_unknown_fields [where m = du, OF TrueI _ assms(1,2)]
      any.encode_to_vec_eq [of ?any] any.skips_unknown_fields [where m = ?any, OF _ _ assms(1,2)]
      total [OF order.trans [OF two]] total [OF any] assms(4)
    by simp
qed

lemma wkt_skips_unknown_fields_witness:
  "bind_result (encode_to_vec Timestamp_encode \<lparr>ts_seconds = 1, ts_nanos = 2\<rparr>) (\<lambda>b.
      decode Timestamp_default Timestamp_merge (fields_bytes [(7, Varint, varint 3)] @ b @ fields_bytes []))
    = Inr \<lparr>ts_seconds = 1, ts_nanos = 2\<rparr>"
proof -
  have f: "foreign {1, 2} 100 [(7, Varint, varint 3)]" "foreign {1, 2} 100 []"
    by (simp_all add: foreign_def value_varint)
  have l: "length (fields_bytes [(7, Varint, varint 3)]) + length (fields_bytes []) \<le> 100000"
    using length_tag_bytes_10 [of 7 Varint] length_varint_le_10 [of 3] by (simp add: fields_bytes_def)
  show ?thesis
    using wkt_skips_unknown_fields [OF f l, of "[]" "[]"] by simp
qed

text \<open>
  Deviations on fields a message does not expect. A scalar wrapper reads field 1 with its own
  decoder whatever the wire type says, where the other types skip a field of another wire type;
  and \<open>Empty\<close> consumes nothing, so it refuses every message that has a field.
\<close>

lemma wkt_unexpected_fields:
  "decode 0 (wrapper_merge read_int32) (tag_bytes 1 wt @ varint v) = Inr (ucast v)
   \<and> decode () Empty_merge (b # bs) = Inl (Raised (MalformedInput ''trailing bytes after message''))"
proof -
  let ?b = "tag_bytes 1 wt @ varint v"
  have "reads 0 (\<lambda>r. bind_result (read_int32 r) (\<lambda>(v, r). Inr (v, r))) (varint v) (ucast v)"
    using reads_map [OF reads_varint [of 0 v], of "\<lambda>v. ucast v"]
    by (simp add: read_int32_def [abs_def] bind_result_assoc case_prod_unfold)
  then have "loops 0 (wrapper_step read_int32) 0 ?b (ucast v)"
    unfolding wrapper_step_def by (intro loops_one reads_field) (simp_all add: tag_bytes_not_Nil)
  then have d: "decodes 0 (wrapper_merge read_int32 0) ?b (ucast v)"
    by (simp add: wrapper_merge_def decodes_loops)
  have a: "ample (Reader_new ?b)" "room 0 (Reader_new ?b)" "unread (Reader_new ?b) = ?b"
    using ample_new [OF length_field_varint [of 1 wt v]] by (auto intro: room_mono)
  obtain r' where "wrapper_merge read_int32 0 (Reader_new ?b) = Inr (ucast v, r')" "after (Reader_new ?b) r' []"
    by (rule decodesE [OF d a])
  then show ?thesis
    by (simp add: decode_def Reader_new_def [symmetric] is_empty_unread after_def Empty_merge_def)
       (simp add: Reader_new_def Reader_with_limits_def unread_def)
qed

text \<open>A list nested \<open>n\<close> deep.\<close>

fun nested_list :: "nat \<Rightarrow> Value" where
  "nested_list 0 = VNull"
| "nested_list (Suc n) = VList [nested_list n]"

text \<open>
  \<open>ListValue\<close> escapes the depth limit: its elements are decoded with a fresh reader whose
  depth starts at zero, so lists nested thousands deep are accepted although \<open>max_depth\<close> is 100,
  and the decoder recurses as deep as the input says.
\<close>

lemma nested_list_escapes_depth_limit:
  assumes "n \<le> 20000"
  shows "decode VNull Value_merge (value_bytes' (nested_list n)) = Inr (nested_list n)
    \<and> max_depth default_limits = 100"
proof -
  have len: "length (value_bytes' (nested_list k)) \<le> 40 * k + 20" for k
  proof (induction k)
    case 0
    then show ?case using length_value_parts(5) by (simp del: value_bytes'.simps)
  next
    case (Suc k)
    then show ?case
      using length_value_parts(4) [of "[nested_list k]"] length_value_parts(1) [of "nested_list k"]
      by (simp del: value_bytes'.simps)
  qed
  have lv: "value_levels (nested_list k) \<le> 1" for k
    by (cases k) simp_all
  have "value_ok (nested_list k) \<and> list_levels_ok (nested_list k)" for k
    using order.trans [OF lv, of 100] by (induction k) auto
  then have "value_fits (nested_list n)"
    using len [of n] assms by (simp add: value_fits_def del: value_bytes'.simps)
  then show ?thesis
    using Value.decode_eq [of "nested_list n"] lv [of n] len [of n] assms
    by (simp add: default_limits_def del: value_bytes'.simps)
qed

lemma nested_list_escapes_depth_limit_witness:
  "decode VNull Value_merge (value_bytes' (nested_list 15000)) = Inr (nested_list 15000)"
  using nested_list_escapes_depth_limit [of 15000] by simp

end
