(* ===== verification/Metadata.thy ===== *)
theory Metadata
  imports Text Ordered_Map
begin

text \<open>
  gRPC metadata (\<open>tpt-proto-grpc/src/metadata.rs\<close>): the map of keys to binary values, its
  guarded insertion, and the conversion from and to header pairs. Errors of \<open>anyhow\<close> are their
  message. Base64 is a third-party crate: its two functions are the parameters \<open>b64e\<close> and \<open>b64d\<close>.
\<close>

type_synonym 'a anyhow = "(string, 'a) res"

abbreviation bail :: "string \<Rightarrow> 'a anyhow" where
  "bail msg \<equiv> Inl (Raised msg)"

section \<open>Definitions\<close>

definition MAX_METADATA_SIZE_DEFAULT :: nat where
  "MAX_METADATA_SIZE_DEFAULT = 8 * 1024"

record metadata =
  mmap :: "(string, byte list) omap"

definition Metadata_new :: metadata where
  "Metadata_new = \<lparr>mmap = []\<rparr>"

definition key_byte_ok :: "byte \<Rightarrow> bool" where
  "key_byte_ok b \<longleftrightarrow> (97 \<le> b \<and> b \<le> 122) \<or> (48 \<le> b \<and> b \<le> 57) \<or> b = 45 \<or> b = 95 \<or> b = 46"

definition reserved_key :: "string \<Rightarrow> bool" where
  "reserved_key key \<longleftrightarrow> starts_with key ''grpc-'' \<or> starts_with key '':''"

definition validate_key :: "string \<Rightarrow> bool \<Rightarrow> unit anyhow" where
  "validate_key key allow_reserved =
     (if key = [] then bail ''empty metadata key''
      else if \<not> allow_reserved \<and> reserved_key key
      then bail (''reserved metadata key `'' @ key @ ''`'')
      else if \<not> list_all key_byte_ok (as_bytes key)
      then bail (''invalid metadata key `'' @ key @ ''`: keys must be lowercase ASCII'')
      else Inr ())"

definition insert_raw :: "metadata \<Rightarrow> string \<Rightarrow> byte list \<Rightarrow> metadata" where
  "insert_raw m key v = m\<lparr>mmap := om_insert key v (mmap m)\<rparr>"

definition insert_binary_inner :: "metadata \<Rightarrow> string \<Rightarrow> byte list \<Rightarrow> metadata anyhow" where
  "insert_binary_inner m key v =
     (if \<not> ends_with key ''-bin'' \<and> list_ex (\<lambda>b. 128 \<le> b) v
      then bail (''non-ASCII value for non-binary key `'' @ key @ ''`'')
      else Inr (m\<lparr>mmap := om_insert key v (mmap m)\<rparr>))"

definition insert_text :: "metadata \<Rightarrow> string \<Rightarrow> string \<Rightarrow> metadata anyhow" where
  "insert_text m key v =
     bind_result (validate_key key False) (\<lambda>_. insert_binary_inner m key (as_bytes v))"

definition insert_binary :: "metadata \<Rightarrow> string \<Rightarrow> byte list \<Rightarrow> metadata anyhow" where
  "insert_binary m key v =
     bind_result (validate_key key False) (\<lambda>_. insert_binary_inner m key v)"

definition insert_text_received :: "metadata \<Rightarrow> string \<Rightarrow> string \<Rightarrow> metadata anyhow" where
  "insert_text_received m key v =
     bind_result (validate_key key True) (\<lambda>_. insert_binary_inner m key (as_bytes v))"

definition get_text :: "metadata \<Rightarrow> string \<Rightarrow> string option" where
  "get_text m key = (case om_lookup (mmap m) key of
      None \<Rightarrow> None
    | Some v \<Rightarrow> if utf8_valid v then Some (str_of_bytes v) else None)"

definition get_binary :: "metadata \<Rightarrow> string \<Rightarrow> byte list option" where
  "get_binary m key = om_lookup (mmap m) key"

definition contains_key :: "metadata \<Rightarrow> string \<Rightarrow> bool" where
  "contains_key m key \<longleftrightarrow> om_lookup (mmap m) key \<noteq> None"

definition metadata_keys :: "metadata \<Rightarrow> string list" where
  "metadata_keys m = map fst (mmap m)"

definition metadata_len :: "metadata \<Rightarrow> nat" where
  "metadata_len m = length (mmap m)"

definition metadata_is_empty :: "metadata \<Rightarrow> bool" where
  "metadata_is_empty m \<longleftrightarrow> mmap m = []"

definition total_size :: "metadata \<Rightarrow> nat" where
  "total_size m = sum_list (map (\<lambda>(k, v). length k + length v) (mmap m))"

fun parse_headers :: "(string \<Rightarrow> byte list anyhow) \<Rightarrow> (string \<times> string) list \<Rightarrow> bool \<Rightarrow> metadata \<Rightarrow> metadata anyhow" where
  "parse_headers b64d [] allow m = Inr m"
| "parse_headers b64d ((k, v) # hs) allow m =
     bind_result (validate_key k allow) (\<lambda>_.
       bind_result
         (if ends_with k ''-bin''
          then map_fault (\<lambda>e. ''invalid base64 for binary metadata `'' @ k @ ''`: '' @ e) (b64d v)
          else Inr (as_bytes v))
         (\<lambda>val. parse_headers b64d hs allow (m\<lparr>mmap := om_insert k val (mmap m)\<rparr>)))"

definition metadata_parse ::
  "(string \<Rightarrow> byte list anyhow) \<Rightarrow> (string \<times> string) list \<Rightarrow> nat \<Rightarrow> bool \<Rightarrow> metadata anyhow" where
  "metadata_parse b64d headers max_size allow =
     bind_result (parse_headers b64d headers allow Metadata_new) (\<lambda>m.
       if max_size < total_size m
       then bail (''metadata size '' @ show_nat (total_size m) @ '' exceeds maximum '' @ show_nat max_size)
       else Inr m)"

definition from_headers :: "(string \<Rightarrow> byte list anyhow) \<Rightarrow> (string \<times> string) list \<Rightarrow> nat \<Rightarrow> metadata anyhow" where
  "from_headers b64d headers max_size = metadata_parse b64d headers max_size False"

definition metadata_from_trailers :: "(string \<Rightarrow> byte list anyhow) \<Rightarrow> (string \<times> string) list \<Rightarrow> nat \<Rightarrow> metadata anyhow" where
  "metadata_from_trailers b64d headers max_size = metadata_parse b64d headers max_size True"

definition header_value :: "(byte list \<Rightarrow> string) \<Rightarrow> string \<Rightarrow> byte list \<Rightarrow> string" where
  "header_value b64e k v = (if ends_with k ''-bin'' then b64e v else from_utf8_lossy v)"

definition to_headers :: "(byte list \<Rightarrow> string) \<Rightarrow> metadata \<Rightarrow> (string \<times> string) list" where
  "to_headers b64e m = map (\<lambda>(k, v). (k, header_value b64e k v)) (mmap m)"

text \<open>
  \<open>to_header_map\<close> drops the pairs the \<open>http\<close> crate does not accept: \<open>name_ok\<close> and \<open>value_ok\<close>
  are its checks.
\<close>

definition to_header_map ::
  "(byte list \<Rightarrow> string) \<Rightarrow> (string \<Rightarrow> bool) \<Rightarrow> (string \<Rightarrow> bool) \<Rightarrow> metadata \<Rightarrow> (string \<times> string) list" where
  "to_header_map b64e name_ok value_ok m =
     filter (\<lambda>(k, v). name_ok k \<and> value_ok v) (map (\<lambda>(k, v). (k, header_value b64e k v)) (mmap m))"

section \<open>The map invariant\<close>

definition metadata_ok :: "metadata \<Rightarrow> bool" where
  "metadata_ok m \<longleftrightarrow> om_ok (mmap m)"

lemma metadata_ok_new [simp]: "metadata_ok Metadata_new"
  by (simp add: metadata_ok_def Metadata_new_def)

lemma metadata_ok_insert [simp]:
  "metadata_ok m \<Longrightarrow> metadata_ok (m\<lparr>mmap := om_insert k v (mmap m)\<rparr>)"
  "metadata_ok m \<Longrightarrow> metadata_ok (insert_raw m k v)"
  by (simp_all add: metadata_ok_def om_ok_insert insert_raw_def)

lemma get_insert_raw:
  assumes "metadata_ok m"
  shows "get_binary (insert_raw m k v) k' = (if k' = k then Some v else get_binary m k')"
    and "get_text (insert_raw m k v) k' = (if k' = k then (if utf8_valid v then Some (str_of_bytes v) else None) else get_text m k')"
  using assms by (simp_all add: get_binary_def get_text_def insert_raw_def metadata_ok_def om_lookup_insert)

lemma get_new [simp]: "get_binary Metadata_new k = None" "get_text Metadata_new k = None"
  by (simp_all add: get_binary_def get_text_def Metadata_new_def om.lookup_empty)

lemma validate_key_Inr:
  "validate_key key allow = Inr u \<longleftrightarrow> key \<noteq> [] \<and> (allow \<or> \<not> reserved_key key) \<and> list_all key_byte_ok (as_bytes key)"
  by (auto simp: validate_key_def)

lemma metadata_keys_insert [simp]:
  "set (metadata_keys (m\<lparr>mmap := om_insert k v (mmap m)\<rparr>)) = insert k (set (metadata_keys m))"
  by (simp add: metadata_keys_def om_insert_def keys_om_alter)

lemma metadata_keys_insert_raw [simp]:
  "set (metadata_keys (insert_raw m k v)) = insert k (set (metadata_keys m))" "metadata_keys Metadata_new = []"
  by (simp add: insert_raw_def) (simp add: metadata_keys_def Metadata_new_def)

lemma metadata_keys_mem: "(k, v) \<in> set (mmap m) \<Longrightarrow> k \<in> set (metadata_keys m)"
  by (auto simp: metadata_keys_def intro: rev_image_eqI)

lemma insert_inner_keys:
  "insert_binary_inner m key v = Inr m' \<Longrightarrow> set (metadata_keys m') = insert key (set (metadata_keys m))"
  by (auto simp: insert_binary_inner_def split: if_splits)

lemma parse_headers_keys:
  "parse_headers b64d hs allow m = Inr m' \<Longrightarrow>
   set (metadata_keys m') = set (metadata_keys m) \<union> fst ` set hs \<and> (\<forall>k \<in> fst ` set hs. validate_key k allow = Inr ())"
proof (induction b64d hs allow m rule: parse_headers.induct)
  case (2 b64d k v hs allow m)
  then obtain val where k: "validate_key k allow = Inr ()"
    and val: "(if ends_with k ''-bin''
          then map_fault (\<lambda>e. ''invalid base64 for binary metadata `'' @ k @ ''`: '' @ e) (b64d v)
          else Inr (as_bytes v)) = Inr val"
    and rest: "parse_headers b64d hs allow (m\<lparr>mmap := om_insert k val (mmap m)\<rparr>) = Inr m'"
    unfolding parse_headers.simps by (elim bind_result_InrE) auto
  from "2.IH" [OF k val rest] k show ?case
    by auto
qed simp

section \<open>Header round trip\<close>

lemma parse_headers_entries:
  assumes "\<And>k v. (k, v) \<in> set es \<Longrightarrow> validate_key k allow = Inr ()"
    and "\<And>k v. (k, v) \<in> set es \<Longrightarrow> ends_with k ''-bin'' \<or> utf8_valid v"
    and "\<And>x. b64d (b64e x) = Inr x"
  shows "parse_headers b64d (map (\<lambda>(k, v). (k, header_value b64e k v)) es) allow m
    = Inr (fold (\<lambda>(k, v) m. m\<lparr>mmap := om_insert k v (mmap m)\<rparr>) es m)"
  using assms(1,2)
proof (induction es arbitrary: m)
  case (Cons e es)
  obtain k v where e: "e = (k, v)" by (cases e)
  have k: "validate_key k allow = Inr ()" and v: "ends_with k ''-bin'' \<or> utf8_valid v"
    using Cons.prems e by auto
  have "as_bytes (from_utf8_lossy v) = v" if "\<not> ends_with k ''-bin''"
    using v that from_utf8_lossy_valid [of "str_of_bytes v"] by (simp add: str_ok_def)
  moreover have "parse_headers b64d (map (\<lambda>(k, v). (k, header_value b64e k v)) es) allow (m\<lparr>mmap := om_insert k v (mmap m)\<rparr>)
      = Inr (fold (\<lambda>(k, v) m. m\<lparr>mmap := om_insert k v (mmap m)\<rparr>) es (m\<lparr>mmap := om_insert k v (mmap m)\<rparr>))"
    using Cons.prems by (intro Cons.IH) auto
  ultimately show ?case
    by (simp add: e k header_value_def assms(3))
qed simp

lemma fold_insert_lookup:
  assumes "metadata_ok m"
  shows "metadata_ok (fold (\<lambda>(k, v) m. m\<lparr>mmap := om_insert k v (mmap m)\<rparr>) es m)
    \<and> get_binary (fold (\<lambda>(k, v) m. m\<lparr>mmap := om_insert k v (mmap m)\<rparr>) es m) k
      = (case map_of (rev es) k of None \<Rightarrow> get_binary m k | Some v \<Rightarrow> Some v)"
  using assms
proof (induction es arbitrary: m)
  case (Cons e es)
  obtain k' v where e: "e = (k', v)" by (cases e)
  have ok: "metadata_ok (m\<lparr>mmap := om_insert k' v (mmap m)\<rparr>)"
    using Cons.prems by simp
  show ?case
    using Cons.IH [OF ok] Cons.prems
    by (auto simp: e get_binary_def metadata_ok_def om_lookup_insert map_add_def split: option.splits)
qed (simp split: option.splits)

lemma fold_insert_entries:
  assumes "metadata_ok m"
  shows "mmap (fold (\<lambda>(k, v) m. m\<lparr>mmap := om_insert k v (mmap m)\<rparr>) (mmap m) Metadata_new) = mmap m"
proof -
  let ?f = "fold (\<lambda>(k, v) m. m\<lparr>mmap := om_insert k v (mmap m)\<rparr>) (mmap m) Metadata_new"
  have "map_of (rev (mmap m)) = map_of (mmap m)"
    using om.entries_distinct [of "mmap m"] assms
    by (simp add: map_of_inject_set [of "rev (mmap m)" "mmap m"] metadata_ok_def rev_map [symmetric])
  then have "om_lookup (mmap ?f) k = om_lookup (mmap m) k" for k
    using fold_insert_lookup [of Metadata_new "mmap m" k]
    by (simp add: get_binary_def om_lookup_def Metadata_new_def metadata_ok_def split: option.splits)
  moreover have "om_ok (mmap ?f)"
    using fold_insert_lookup [OF metadata_ok_new] by (auto simp: metadata_ok_def)
  ultimately show ?thesis
    using assms by (intro om.entries_unique) (simp_all add: metadata_ok_def)
qed

lemma metadata_parse_to_headers:
  assumes "metadata_ok m" and "\<And>x. b64d (b64e x) = Inr x"
    and "\<And>k. k \<in> set (metadata_keys m) \<Longrightarrow> validate_key k allow = Inr ()"
    and "\<And>k v. get_binary m k = Some v \<Longrightarrow> ends_with k ''-bin'' \<or> utf8_valid v"
    and "total_size m \<le> max_size"
  shows "metadata_parse b64d (to_headers b64e m) max_size allow = Inr m"
proof -
  have "parse_headers b64d (to_headers b64e m) allow Metadata_new
      = Inr (fold (\<lambda>(k, v) m. m\<lparr>mmap := om_insert k v (mmap m)\<rparr>) (mmap m) Metadata_new)"
    unfolding to_headers_def
  proof (rule parse_headers_entries)
    fix k v
    assume e: "(k, v) \<in> set (mmap m)"
    then show "validate_key k allow = Inr ()"
      by (intro assms(3) metadata_keys_mem)
    show "ends_with k ''-bin'' \<or> utf8_valid v"
      using assms(1) assms(4) [of k v] e om.entries_mem [of "mmap m" k v] by (simp add: get_binary_def metadata_ok_def)
  qed (rule assms(2))
  also have "fold (\<lambda>(k, v) m. m\<lparr>mmap := om_insert k v (mmap m)\<rparr>) (mmap m) Metadata_new = m"
    by (rule metadata.equality) (simp_all add: fold_insert_entries [OF assms(1)])
  finally show ?thesis
    using assms(5) by (simp add: metadata_parse_def)
qed

text \<open>
  C13: Metadata survives the wire: rendering metadata as header pairs and parsing the pairs gives
  the same metadata, for keys the parser accepts, text values that are UTF-8 and a total size
  within the maximum, when the base64 crate decodes what it encodes.
\<close>

theorem metadata_headers_roundtrip:
  assumes "metadata_ok m" and "\<And>x. b64d (b64e x) = Inr x"
    and "\<And>k. k \<in> set (metadata_keys m) \<Longrightarrow> validate_key k allow = Inr ()"
    and "\<And>k v. get_binary m k = Some v \<Longrightarrow> ends_with k ''-bin'' \<or> utf8_valid v"
    and "total_size m \<le> max_size"
  shows "metadata_parse b64d (to_headers b64e m) max_size allow = Inr m"
  using assms by (rule metadata_parse_to_headers)

text \<open>A base64 stand-in for the witness: it keeps the bytes as they are.\<close>

theorem metadata_headers_roundtrip_witness:
  "metadata_parse (\<lambda>s. Inr (as_bytes s)) (to_headers str_of_bytes
      (insert_raw (insert_raw Metadata_new ''x-id'' (as_bytes ''7'')) ''k-bin'' [0xFF])) 100 False
    = Inr (insert_raw (insert_raw Metadata_new ''x-id'' (as_bytes ''7'')) ''k-bin'' [0xFF])"
proof (rule metadata_headers_roundtrip)
  have ok: "str_ok ''7''"
    by (intro str_ascii_ok) (simp add: str_ascii_def)
  let ?m = "insert_raw (insert_raw Metadata_new ''x-id'' (as_bytes ''7'')) ''k-bin'' [0xFF]"
  have keys: "set (metadata_keys ?m) = {''k-bin'', ''x-id''}"
    by simp
  show "validate_key k False = Inr ()" if "k \<in> set (metadata_keys ?m)" for k
    using that unfolding keys
    by (auto simp: validate_key_Inr reserved_key_def starts_with_def as_bytes_def key_byte_ok_def)
  show "ends_with k ''-bin'' \<or> utf8_valid v" if "get_binary ?m k = Some v" for k v
    using that ok by (auto simp: get_insert_raw str_ok_def ends_with_def split: if_splits)
  show "total_size ?m \<le> 100"
    by (simp add: total_size_def insert_raw_def Metadata_new_def om_insert_def)
qed simp_all

section \<open>The public interface\<close>

text \<open>Metadata built through the operations available outside the crate.\<close>

inductive public_metadata :: "(string \<Rightarrow> byte list anyhow) \<Rightarrow> metadata \<Rightarrow> bool" for b64d where
  public_new: "public_metadata b64d Metadata_new"
| public_text: "public_metadata b64d m \<Longrightarrow> insert_text m k v = Inr m' \<Longrightarrow> public_metadata b64d m'"
| public_binary: "public_metadata b64d m \<Longrightarrow> insert_binary m k v = Inr m' \<Longrightarrow> public_metadata b64d m'"
| public_headers: "from_headers b64d hs max_size = Inr m \<Longrightarrow> public_metadata b64d m"

text \<open>
  No forged status: metadata built through the public interface (new, \<open>insert_text\<close>,
  \<open>insert_binary\<close>, \<open>from_headers\<close>) holds no reserved key, so in particular no \<open>grpc-status\<close>
  and no pseudo-header, and every key is a non-empty string of lowercase ASCII letters, digits,
  \<open>-\<close>, \<open>_\<close> and \<open>.\<close>; whatever the base64 crate returns.
\<close>

lemma public_metadata_keys:
  assumes "public_metadata b64d m" and "k \<in> set (metadata_keys m)"
  shows "\<not> reserved_key k \<and> k \<noteq> [] \<and> list_all key_byte_ok (as_bytes k)"
proof -
  have "\<forall>k \<in> set (metadata_keys m). validate_key k False = Inr ()"
    using assms(1)
  proof (induction rule: public_metadata.induct)
    case (public_headers hs max_size m)
    then obtain m' where "parse_headers b64d hs False Metadata_new = Inr m'" "m = m'"
      by (auto simp: from_headers_def metadata_parse_def bind_result_eq_Inr split: if_splits)
    then show ?case
      using parse_headers_keys [of b64d hs False Metadata_new m'] by auto
  qed (auto simp: insert_text_def insert_binary_def bind_result_eq_Inr insert_inner_keys)
  then show ?thesis
    using assms(2) by (simp add: validate_key_Inr)
qed

lemma public_metadata_keys_witness:
  "\<not> reserved_key ''x-id''"
proof -
  have "insert_text Metadata_new ''x-id'' ''7'' = Inr (Metadata_new\<lparr>mmap := [(''x-id'', as_bytes ''7'')]\<rparr>)"
    by (simp add: insert_text_def validate_key_def reserved_key_def starts_with_def as_bytes_def key_byte_ok_def
        insert_binary_inner_def om_insert_def Metadata_new_def)
  from public_text [OF public_new this] have "public_metadata (\<lambda>s. Inr []) (Metadata_new\<lparr>mmap := [(''x-id'', as_bytes ''7'')]\<rparr>)" .
  from public_metadata_keys [OF this, of "''x-id''"] show ?thesis
    by (simp add: metadata_keys_def Metadata_new_def)
qed

end
