(* ===== verification/Status.thy ===== *)
theory Status
  imports Metadata Wkt
begin

text \<open>
  gRPC status (\<open>tpt-proto-grpc/src/status.rs\<close>): the codes, the status with its rich details, the
  \<open>google.rpc.Status\<close> encoding of the details and the conversion from and to trailers.
\<close>

section \<open>Codes\<close>

datatype code =
    Ok
  | Cancelled
  | Unknown
  | InvalidArgument
  | DeadlineExceeded
  | NotFound
  | AlreadyExists
  | PermissionDenied
  | ResourceExhausted
  | FailedPrecondition
  | Aborted
  | OutOfRange
  | Unimplemented
  | Internal
  | Unavailable
  | DataLoss
  | Unauthenticated

definition Code_from_i32 :: "i32 \<Rightarrow> code" where
  "Code_from_i32 v =
     (if v = 0 then Ok
      else if v = 1 then Cancelled
      else if v = 2 then Unknown
      else if v = 3 then InvalidArgument
      else if v = 4 then DeadlineExceeded
      else if v = 5 then NotFound
      else if v = 6 then AlreadyExists
      else if v = 7 then PermissionDenied
      else if v = 8 then ResourceExhausted
      else if v = 9 then FailedPrecondition
      else if v = 10 then Aborted
      else if v = 11 then OutOfRange
      else if v = 12 then Unimplemented
      else if v = 13 then Internal
      else if v = 14 then Unavailable
      else if v = 15 then DataLoss
      else if v = 16 then Unauthenticated
      else Unknown)"

fun Code_as_i32 :: "code \<Rightarrow> i32" where
  "Code_as_i32 Ok = 0"
| "Code_as_i32 Cancelled = 1"
| "Code_as_i32 Unknown = 2"
| "Code_as_i32 InvalidArgument = 3"
| "Code_as_i32 DeadlineExceeded = 4"
| "Code_as_i32 NotFound = 5"
| "Code_as_i32 AlreadyExists = 6"
| "Code_as_i32 PermissionDenied = 7"
| "Code_as_i32 ResourceExhausted = 8"
| "Code_as_i32 FailedPrecondition = 9"
| "Code_as_i32 Aborted = 10"
| "Code_as_i32 OutOfRange = 11"
| "Code_as_i32 Unimplemented = 12"
| "Code_as_i32 Internal = 13"
| "Code_as_i32 Unavailable = 14"
| "Code_as_i32 DataLoss = 15"
| "Code_as_i32 Unauthenticated = 16"

fun Code_description :: "code \<Rightarrow> string" where
  "Code_description Ok = ''ok''"
| "Code_description Cancelled = ''cancelled''"
| "Code_description Unknown = ''unknown''"
| "Code_description InvalidArgument = ''invalid argument''"
| "Code_description DeadlineExceeded = ''deadline exceeded''"
| "Code_description NotFound = ''not found''"
| "Code_description AlreadyExists = ''already exists''"
| "Code_description PermissionDenied = ''permission denied''"
| "Code_description ResourceExhausted = ''resource exhausted''"
| "Code_description FailedPrecondition = ''failed precondition''"
| "Code_description Aborted = ''aborted''"
| "Code_description OutOfRange = ''out of range''"
| "Code_description Unimplemented = ''unimplemented''"
| "Code_description Internal = ''internal error''"
| "Code_description Unavailable = ''unavailable''"
| "Code_description DataLoss = ''data loss''"
| "Code_description Unauthenticated = ''unauthenticated''"

definition Code_display :: "code \<Rightarrow> string" where
  "Code_display c = show_int (sint (Code_as_i32 c)) @ '' ('' @ Code_description c @ '')''"

section \<open>Status\<close>

record status =
  s_code :: code
  s_message :: string
  s_details :: "any list"
  s_metadata :: metadata

definition Status_new :: "code \<Rightarrow> string \<Rightarrow> status" where
  "Status_new c msg = \<lparr>s_code = c, s_message = msg, s_details = [], s_metadata = Metadata_new\<rparr>"

definition Status_ok :: status where
  "Status_ok = Status_new Ok []"

definition Status_is_ok :: "status \<Rightarrow> bool" where
  "Status_is_ok s \<longleftrightarrow> s_code s = Ok"

definition with_detail :: "status \<Rightarrow> any \<Rightarrow> status" where
  "with_detail s d = s\<lparr>s_details := s_details s @ [d]\<rparr>"

definition Status_display :: "status \<Rightarrow> string" where
  "Status_display s = ''status '' @ Code_display (s_code s) @ '': '' @ s_message s"

fun encode_details :: "any list \<Rightarrow> writer \<Rightarrow> writer core_res" where
  "encode_details [] w = Inr w"
| "encode_details (d # ds) w =
     (case encode_to_vec Any_encode d of
        Inl (Raised e) \<Rightarrow> Inl (Panicked ''any encoding must succeed'')
      | Inl f \<Rightarrow> Inl f
      | Inr dbytes \<Rightarrow> bind_result (write_tag w 3 LengthDelimited) (\<lambda>w.
          encode_details ds (write_length_delimited w dbytes)))"

definition encode_google_rpc_status :: "code \<Rightarrow> string \<Rightarrow> any list \<Rightarrow> byte list core_res" where
  "encode_google_rpc_status c msg details =
     bind_result (encode_int32 Writer_new 1 (Code_as_i32 c)) (\<lambda>w.
       bind_result (if msg \<noteq> [] then encode_string w 2 msg else Inr w) (\<lambda>w.
         bind_result (encode_details details w) (\<lambda>w. Inr (into_vec w))))"

type_synonym rpc_status = "code \<times> string \<times> any list"

definition rpc_status_step :: "rpc_status \<Rightarrow> reader \<Rightarrow> (rpc_status \<times> reader) core_res" where
  "rpc_status_step s r = (case s of (c, msg, details) \<Rightarrow>
     bind_result (read_tag r) (\<lambda>(t, r).
       if field_number t = 1 then bind_result (read_int32 r) (\<lambda>(v, r). Inr ((Code_from_i32 v, msg, details), r))
       else if field_number t = 2 then bind_result (read_string_owned r) (\<lambda>(m, r). Inr ((c, m, details), r))
       else if field_number t = 3 then bind_result (read_length_delimited r) (\<lambda>(b, r).
         bind_result (Any_merge \<lparr>type_url = [], any_value = []\<rparr> (Reader_new b)) (\<lambda>(a, _).
           Inr ((c, msg, details @ [a]), r)))
       else bind_result (skip r (wire_type t)) (\<lambda>r. Inr ((c, msg, details), r))))"

definition decode_google_rpc_status :: "byte list \<Rightarrow> rpc_status anyhow" where
  "decode_google_rpc_status bs =
     map_fault error_display (bind_result (while_unread rpc_status_step (Ok, [], []) (Reader_new bs))
       (\<lambda>(s, _). Inr s))"

definition Status_from_trailers :: "metadata \<Rightarrow> status" where
  "Status_from_trailers trailers =
     \<lparr>s_code = (case get_text trailers ''grpc-status'' of
          None \<Rightarrow> Unknown
        | Some s \<Rightarrow> (case parse_signed 32 s of None \<Rightarrow> Unknown | Some i \<Rightarrow> Code_from_i32 (word_of_int i))),
      s_message = (case get_text trailers ''grpc-message'' of None \<Rightarrow> [] | Some s \<Rightarrow> s),
      s_details = (case get_binary trailers ''grpc-status-details-bin'' of
          None \<Rightarrow> []
        | Some b \<Rightarrow> (case decode_google_rpc_status b of Inl _ \<Rightarrow> [] | Inr (_, _, d) \<Rightarrow> d)),
      s_metadata = trailers\<rparr>"

fun copy_metadata :: "metadata \<Rightarrow> string list \<Rightarrow> metadata \<Rightarrow> metadata" where
  "copy_metadata src [] m = m"
| "copy_metadata src (key # keys) m =
     copy_metadata src keys
       (if \<not> starts_with key ''grpc-''
        then (case get_binary src key of None \<Rightarrow> m | Some v \<Rightarrow> insert_raw m key v)
        else m)"

definition Status_to_trailers :: "status \<Rightarrow> metadata core_res" where
  "Status_to_trailers s =
     (let m = insert_raw Metadata_new ''grpc-status'' (as_bytes (show_int (sint (Code_as_i32 (s_code s)))));
          m = (if s_message s \<noteq> [] then insert_raw m ''grpc-message'' (as_bytes (s_message s)) else m)
      in bind_result
           (if s_details s \<noteq> []
            then bind_result (encode_google_rpc_status (s_code s) (s_message s) (s_details s))
                   (\<lambda>b. Inr (insert_raw m ''grpc-status-details-bin'' b))
            else Inr m)
           (\<lambda>m. Inr (copy_metadata (s_metadata s) (metadata_keys (s_metadata s)) m)))"

section \<open>Codes round-trip\<close>

lemma Code_from_as_i32 [simp]: "Code_from_i32 (Code_as_i32 c) = c"
  by (cases c) (simp_all add: Code_from_i32_def)

lemma parse_code [simp]: "parse_signed 32 (show_int (sint (Code_as_i32 c))) = Some (sint (Code_as_i32 c))"
  using sint_range_size [of "Code_as_i32 c"]
  by (intro parse_signed_show_int) (simp_all add: word_size)

section \<open>The details message\<close>

definition detail_bytes :: "any \<Rightarrow> byte list" where
  "detail_bytes d = tag_bytes 1 LengthDelimited @ length_delimited (as_bytes (type_url d))
     @ tag_bytes 2 LengthDelimited @ length_delimited (any_value d)"

definition rpc_status_bytes :: "rpc_status \<Rightarrow> byte list" where
  "rpc_status_bytes s = (case s of (c, msg, details) \<Rightarrow>
     tag_bytes 1 Varint @ varint (scast (Code_as_i32 c))
     @ (if msg \<noteq> [] then tag_bytes 2 LengthDelimited @ length_delimited (as_bytes msg) else [])
     @ concat (map (\<lambda>d. tag_bytes 3 LengthDelimited @ length_delimited (detail_bytes d)) details))"

lemma encode_details_eq:
  "list_all (\<lambda>d. str_ok (type_url d)) ds \<Longrightarrow>
   encode_details ds w = Inr (emit w (concat (map (\<lambda>d. tag_bytes 3 LengthDelimited @ length_delimited (detail_bytes d)) ds)))"
  by (induction ds arbitrary: w) (simp_all add: any.encode_to_vec_eq buffer_simps detail_bytes_def)

lemma encode_google_rpc_status_eq:
  "list_all (\<lambda>d. str_ok (type_url d)) ds \<Longrightarrow> encode_google_rpc_status c msg ds = Inr (rpc_status_bytes (c, msg, ds))"
  by (simp add: encode_google_rpc_status_def scalar_enc encode_details_eq rpc_status_bytes_def)

lemma sound_step_any:
  "sound_step n (\<lambda>r. bind_result (read_length_delimited r) (\<lambda>(b, r).
     bind_result (Any_merge m (Reader_new b)) (\<lambda>(a, _). Inr (h a, r))))"
proof (rule sound_stepI)
  have s: "sound n (Any_merge m)" for n
    unfolding Any_merge_def by (rule any.merge_sound)
  have p: "pos (Reader_new b) \<le> length (buf (Reader_new b))" for b
    by (simp add: Reader_new_def Reader_with_limits_def)
  show "strictly_forward r r'" if "bind_result (read_length_delimited r) (\<lambda>(b, r).
     bind_result (Any_merge m (Reader_new b)) (\<lambda>(a, _). Inr (h a, r))) = Inr (v, r')" for r v r'
    using that by (auto simp: bind_result_eq_Inr dest: read_length_delimited_moved)
  show "\<not> diverges (bind_result (read_length_delimited r) (\<lambda>(b, r).
     bind_result (Any_merge m (Reader_new b)) (\<lambda>(a, _). Inr (h a, r))))" for r
    using soundD(2) [OF s lessI p] by (auto simp: diverges_bind)
  show "\<not> panics (bind_result (read_length_delimited r) (\<lambda>(b, r).
     bind_result (Any_merge m (Reader_new b)) (\<lambda>(a, _). Inr (h a, r))))" if "reader_ok r" "capped (limits r)" for r
  proof (rule not_panics_bindI, rule read_length_delimited_no_panic [OF that], goal_cases)
    case (1 y)
    obtain b r1 where y: "y = (b, r1)" by (cases y)
    have "length b < 2 ^ 63"
      using read_length_delimited_length [OF 1 [unfolded y]] that(1) by (simp add: reader_ok_def)
    then have "reader_ok (Reader_new b)" "capped (limits (Reader_new b))"
      using reader_ok_with_limits [of b default_limits] by (simp_all add: Reader_new_def Reader_with_limits_def)
    then show ?case
      using soundD(3) [OF s lessI p] by (auto simp: y panics_bind)
  qed
qed

lemma sound_rpc_status_step [sound_rules]: "sound_step n (rpc_status_step s)"
  unfolding rpc_status_step_def
  by (cases s; simp only: prod.case; (rule sound_step_any sound_step_any [THEN sound_step_sound] | rule sound_rules)+)

lemma Any_merge_detail:
  assumes "str_ok (type_url d)" and "length (detail_bytes d) \<le> 1000000"
  shows "\<exists>r. Any_merge \<lparr>type_url = [], any_value = []\<rparr> (Reader_new (detail_bytes d)) = Inr (d, r)"
proof -
  have a: "ample (Reader_new (detail_bytes d))" "room 0 (Reader_new (detail_bytes d))"
      "unread (Reader_new (detail_bytes d)) = detail_bytes d"
    using ample_new [OF assms(2)] by (auto intro: room_mono)
  have "decodes 0 (Any_merge \<lparr>type_url = [], any_value = []\<rparr>) (detail_bytes d) d"
    using any.merge_decodes [of d] assms(1) by (simp add: Any_merge_def Any_default_def detail_bytes_def)
  from decodesE [OF this a] show ?thesis by metis
qed

lemma reads_detail:
  assumes "str_ok (type_url d)" and "length (detail_bytes d) \<le> 1000000"
  shows "reads 0 (\<lambda>r. bind_result (read_length_delimited r) (\<lambda>(b, r).
     bind_result (Any_merge \<lparr>type_url = [], any_value = []\<rparr> (Reader_new b)) (\<lambda>(a, _). Inr (h a, r))))
     (length_delimited (detail_bytes d)) (h d)"
proof -
  obtain r0 where "Any_merge \<lparr>type_url = [], any_value = []\<rparr> (Reader_new (detail_bytes d)) = Inr (d, r0)"
    using Any_merge_detail [OF assms] by blast
  then have "reads 0 (\<lambda>r. bind_result (Any_merge \<lparr>type_url = [], any_value = []\<rparr> (Reader_new (detail_bytes d)))
      (\<lambda>(a, _). Inr (h a, r))) [] (h d)"
    by (simp add: reads_return)
  then show ?thesis
    using reads_bind [where f = read_length_delimited and v = "detail_bytes d" and cs = "[]"
        and g = "\<lambda>b r. bind_result (Any_merge \<lparr>type_url = [], any_value = []\<rparr> (Reader_new b)) (\<lambda>(a, _). Inr (h a, r))",
        OF reads_length_delimited]
    by simp
qed

lemma rpc_status_fields:
  "reads 0 (rpc_status_step (c, msg, ds)) (tag_bytes 1 Varint @ varint (scast (Code_as_i32 c'))) (c', msg, ds)"
  "str_ok s \<Longrightarrow> reads 0 (rpc_status_step (c, msg, ds)) (tag_bytes 2 LengthDelimited @ length_delimited (as_bytes s)) (c, s, ds)"
  "str_ok (type_url d) \<Longrightarrow> length (detail_bytes d) \<le> 1000000 \<Longrightarrow>
   reads 0 (rpc_status_step (c, msg, ds)) (tag_bytes 3 LengthDelimited @ length_delimited (detail_bytes d)) (c, msg, ds @ [d])"
  unfolding rpc_status_step_def prod.case
  by (rule reads_field; auto intro!: reads_map [OF scalar_reads(1)] reads_map [OF scalar_reads(8)]
        reads_detail [where h = "\<lambda>a. (c, msg, ds @ [a])"])+

lemma detail_bytes_within:
  "d \<in> set ds \<Longrightarrow> length (detail_bytes d) \<le> length (rpc_status_bytes (c, msg, ds))"
  by (induction ds) (auto simp: rpc_status_bytes_def length_delimited_def)

lemma loops_rpc_status:
  assumes "str_ok msg" and "list_all (\<lambda>d. str_ok (type_url d)) ds"
    and "length (rpc_status_bytes (c, msg, ds)) \<le> 1000000"
  shows "loops 0 rpc_status_step (Ok, [], []) (rpc_status_bytes (c, msg, ds)) (c, msg, ds)"
proof -
  let ?d = "\<lambda>d. tag_bytes 3 LengthDelimited @ length_delimited (detail_bytes d)"
  have d: "str_ok (type_url d)" "length (detail_bytes d) \<le> 1000000" if "d \<in> set ds" for d
    using assms detail_bytes_within [OF that, of c msg] that by (auto simp: list_all_iff)
  have details: "loops 0 rpc_status_step (c, msg, ds0) (concat (map ?d es)) (c, msg, ds0 @ es)"
    if "set es \<subseteq> set ds" for ds0 es
    using that
  proof (induction es arbitrary: ds0)
    case (Cons e es)
    then have "loops 0 rpc_status_step (c, msg, ds0) (?d e) (c, msg, ds0 @ [e])"
      using d [of e] by (intro loops_one rpc_status_fields) (simp_all add: tag_bytes_not_Nil)
    from loops_append [OF this Cons.IH] Cons.prems show ?case
      by simp
  qed (simp add: loops_done)
  have "loops 0 rpc_status_step (c, [], []) (if msg \<noteq> [] then tag_bytes 2 LengthDelimited @ length_delimited (as_bytes msg) else [])
      (c, msg, [])"
    using assms(1) by (auto intro!: loops_one rpc_status_fields loops_done simp: tag_bytes_not_Nil)
  from loops_append [OF this details [of ds "[]"]]
  have "loops 0 rpc_status_step (c, [], [])
      ((if msg \<noteq> [] then tag_bytes 2 LengthDelimited @ length_delimited (as_bytes msg) else []) @ concat (map ?d ds))
      (c, msg, ds)"
    by simp
  moreover have "loops 0 rpc_status_step (Ok, [], []) (tag_bytes 1 Varint @ varint (scast (Code_as_i32 c))) (c, [], [])"
    by (intro loops_one rpc_status_fields) (simp add: tag_bytes_not_Nil)
  ultimately show ?thesis
    using loops_append by (fastforce simp: rpc_status_bytes_def)
qed

lemma decode_rpc_status_bytes:
  assumes "str_ok msg" and "list_all (\<lambda>d. str_ok (type_url d)) ds"
    and "length (rpc_status_bytes (c, msg, ds)) \<le> 1000000"
  shows "decode_google_rpc_status (rpc_status_bytes (c, msg, ds)) = Inr (c, msg, ds)"
proof -
  let ?r = "Reader_new (rpc_status_bytes (c, msg, ds))"
  have a: "ample ?r" "room 0 ?r" "unread ?r = rpc_status_bytes (c, msg, ds)"
    using ample_new [OF assms(3)] by (auto intro: room_mono)
  from while_unread_loops [OF loops_rpc_status [OF assms] a] show ?thesis
    by (auto simp: decode_google_rpc_status_def)
qed

section \<open>Trailers\<close>

lemma copy_metadata_spec:
  "metadata_ok m \<Longrightarrow> metadata_ok (copy_metadata src keys m) \<and>
   get_binary (copy_metadata src keys m) k =
     (if k \<in> set keys \<and> \<not> starts_with k ''grpc-'' \<and> get_binary src k \<noteq> None then get_binary src k else get_binary m k)"
  by (induction src keys m rule: copy_metadata.induct)
     (auto simp: get_insert_raw metadata_ok_insert split: option.splits)

lemma get_text_binary:
  "get_text m k = (case get_binary m k of None \<Rightarrow> None | Some v \<Rightarrow> if utf8_valid v then Some (str_of_bytes v) else None)"
  by (simp add: get_text_def get_binary_def)

lemma lookup_in_keys: "get_binary m k \<noteq> None \<Longrightarrow> k \<in> set (metadata_keys m)"
  by (auto simp: get_binary_def om_lookup_def metadata_keys_def intro: rev_image_eqI dest!: map_of_SomeD)

text \<open>The trailers the status writes before it copies its own metadata.\<close>

definition status_headers :: "status \<Rightarrow> byte list \<Rightarrow> metadata" where
  "status_headers s b =
     (let m = insert_raw Metadata_new ''grpc-status'' (as_bytes (show_int (sint (Code_as_i32 (s_code s)))));
          m = (if s_message s \<noteq> [] then insert_raw m ''grpc-message'' (as_bytes (s_message s)) else m)
      in if s_details s \<noteq> [] then insert_raw m ''grpc-status-details-bin'' b else m)"

lemma status_headers_ok: "metadata_ok (status_headers s b)"
  by (simp add: status_headers_def Let_def)

lemma get_status_headers:
  "get_binary (status_headers s b) k =
     (if s_details s \<noteq> [] \<and> k = ''grpc-status-details-bin'' then Some b
      else if s_message s \<noteq> [] \<and> k = ''grpc-message'' then Some (as_bytes (s_message s))
      else if k = ''grpc-status'' then Some (as_bytes (show_int (sint (Code_as_i32 (s_code s))))) else None)"
  by (simp add: status_headers_def Let_def get_insert_raw)

lemma Status_to_trailers_eq:
  assumes "encode_google_rpc_status (s_code s) (s_message s) (s_details s) = Inr b"
  shows "Status_to_trailers s = Inr (copy_metadata (s_metadata s) (metadata_keys (s_metadata s)) (status_headers s b))"
  using assms by (simp add: Status_to_trailers_def status_headers_def Let_def)

lemma show_int_code_ok: "str_ok (show_int (sint (Code_as_i32 c)))"
  using str_ascii_show_nat [of "nat (sint (Code_as_i32 c))"] by (cases c) (simp_all add: show_int_def str_ascii_ok)

text \<open>
  C14: A status survives its trailers: \<open>from_trailers\<close> of \<open>to_trailers\<close> gives back the code, the
  message and every rich detail, and keeps the metadata entries whose key does not start with
  \<open>grpc-\<close>, for UTF-8 strings and an encoded \<open>google.rpc.Status\<close> within the default limits.
\<close>

theorem status_trailers_roundtrip:
  assumes "str_ok (s_message s)" and "list_all (\<lambda>d. str_ok (type_url d)) (s_details s)"
    and "encode_google_rpc_status (s_code s) (s_message s) (s_details s) = Inr b" and "length b \<le> 1000000"
  shows "\<exists>t. Status_to_trailers s = Inr t
    \<and> s_code (Status_from_trailers t) = s_code s
    \<and> s_message (Status_from_trailers t) = s_message s
    \<and> s_details (Status_from_trailers t) = s_details s
    \<and> (\<forall>k. \<not> starts_with k ''grpc-''
         \<longrightarrow> get_binary (s_metadata (Status_from_trailers t)) k = get_binary (s_metadata s) k)"
proof -
  let ?t = "copy_metadata (s_metadata s) (metadata_keys (s_metadata s)) (status_headers s b)"
  have b: "b = rpc_status_bytes (s_code s, s_message s, s_details s)"
    using assms(2,3) by (simp add: encode_google_rpc_status_eq)
  have get: "get_binary ?t k = (if starts_with k ''grpc-'' then get_binary (status_headers s b) k
      else case get_binary (s_metadata s) k of None \<Rightarrow> get_binary (status_headers s b) k | Some v \<Rightarrow> Some v)" for k
    using copy_metadata_spec [OF status_headers_ok, of "s_metadata s" "metadata_keys (s_metadata s)" s b k]
      lookup_in_keys [of "s_metadata s" k] by (auto split: option.splits)
  have grpc: "starts_with ''grpc-status'' ''grpc-''" "starts_with ''grpc-message'' ''grpc-''"
      "starts_with ''grpc-status-details-bin'' ''grpc-''"
    by (simp_all add: starts_with_def)
  have details: "decode_google_rpc_status b = Inr (s_code s, s_message s, s_details s)"
    using assms by (simp add: b decode_rpc_status_bytes)
  have "s_code (Status_from_trailers ?t) = s_code s"
    using show_int_code_ok [of "s_code s"] by (simp add: Status_from_trailers_def get_text_binary get grpc get_status_headers str_ok_def)
  moreover have "s_message (Status_from_trailers ?t) = s_message s"
    using assms(1) by (simp add: Status_from_trailers_def get_text_binary get grpc get_status_headers str_ok_def)
  moreover have "s_details (Status_from_trailers ?t) = s_details s"
    by (simp add: Status_from_trailers_def get grpc get_status_headers details)
  moreover have "get_binary (s_metadata (Status_from_trailers ?t)) k = get_binary (s_metadata s) k"
    if "\<not> starts_with k ''grpc-''" for k
    using that grpc by (auto simp: Status_from_trailers_def get get_status_headers split: option.splits)
  ultimately show ?thesis
    by (auto simp: Status_to_trailers_eq [OF assms(3)])
qed

theorem status_trailers_roundtrip_witness:
  "\<exists>t. Status_to_trailers (with_detail (Status_new NotFound ''gone'') \<lparr>type_url = ''t'', any_value = [0xFF]\<rparr>) = Inr t
     \<and> s_code (Status_from_trailers t) = NotFound
     \<and> s_details (Status_from_trailers t) = [\<lparr>type_url = ''t'', any_value = [0xFF]\<rparr>]"
proof -
  let ?s = "with_detail (Status_new NotFound ''gone'') \<lparr>type_url = ''t'', any_value = [0xFF]\<rparr>"
  have ok: "str_ok ''gone''" "str_ok ''t''"
    by (intro str_ascii_ok; simp add: str_ascii_def)+
  have b: "encode_google_rpc_status (s_code ?s) (s_message ?s) (s_details ?s)
      = Inr (rpc_status_bytes (NotFound, ''gone'', [\<lparr>type_url = ''t'', any_value = [0xFF]\<rparr>]))"
    using ok by (simp add: encode_google_rpc_status_eq with_detail_def Status_new_def)
  have l: "length (length_delimited xs) \<le> length xs + 10" for xs
    using length_varint_le_10 by (simp add: length_delimited_def)
  have "length (rpc_status_bytes (NotFound, ''gone'', [\<lparr>type_url = ''t'', any_value = [0xFF]\<rparr>])) \<le> 1000000"
    using length_tag_bytes_10 [of 1 Varint] length_varint_le_10 [of "scast (Code_as_i32 NotFound)"]
      length_tag_bytes_10 [of 2 LengthDelimited] length_tag_bytes_10 [of 3 LengthDelimited] length_tag_bytes_10 [of 1 LengthDelimited]
      l [of "as_bytes ''gone''"] l [of "detail_bytes \<lparr>type_url = ''t'', any_value = [0xFF]\<rparr>"] l [of "as_bytes ''t''"] l [of "[0xFF]"]
    by (simp add: rpc_status_bytes_def detail_bytes_def as_bytes_def del: Code_as_i32.simps)
  from status_trailers_roundtrip [OF _ _ b this] ok show ?thesis
    by (simp add: with_detail_def Status_new_def) blast
qed

end
