(* ===== verification/Codec.thy ===== *)
theory Codec
  imports Status
begin

text \<open>
  gRPC message framing, one frame at a time: the compression algorithms
  (\<open>tpt-proto-grpc/src/compression.rs\<close>) and the codec of a frame
  (\<open>tpt-proto-grpc/src/codec.rs\<close>). gzip is a third-party crate: \<open>gz data\<close> is the result of
  writing \<open>data\<close> through its encoder and \<open>ungz cap data\<close> the result of reading at most
  \<open>cap\<close> bytes to the end from its decoder.
\<close>

section \<open>Compression\<close>

datatype compression = Identity | Gzip | Other string

definition compression_from_header :: "string \<Rightarrow> compression" where
  "compression_from_header v =
     (if v = [] \<or> v = ''identity'' then Identity
      else if v = ''gzip'' then Gzip
      else Other (to_ascii_lowercase v))"

fun as_header :: "compression \<Rightarrow> string" where
  "as_header Identity = ''identity''"
| "as_header Gzip = ''gzip''"
| "as_header (Other n) = n"

definition compression_name :: "compression \<Rightarrow> string" where
  "compression_name c = as_header c"

fun compress :: "(byte list \<Rightarrow> byte list anyhow) \<Rightarrow> compression \<Rightarrow> byte list \<Rightarrow> byte list anyhow" where
  "compress gz Identity bs = Inr bs"
| "compress gz Gzip bs = gz bs"
| "compress gz (Other n) bs = bail ''unsupported compression algorithm''"

fun decompress :: "(nat \<Rightarrow> byte list \<Rightarrow> byte list anyhow) \<Rightarrow> compression \<Rightarrow> byte list \<Rightarrow> nat \<Rightarrow> byte list anyhow" where
  "decompress ungz Identity bs max_size = Inr bs"
| "decompress ungz Gzip bs max_size =
     bind_result (ungz (min (max_size + 1) (2 ^ 64 - 1)) bs) (\<lambda>out.
       if max_size < length out
       then bail (''decompressed message length exceeds maximum '' @ show_nat max_size)
       else Inr out)"
| "decompress ungz (Other n) bs max_size = bail ''unsupported compression algorithm''"

section \<open>Frames\<close>

definition COMPRESSION_FLAG_UNCOMPRESSED :: byte where
  "COMPRESSION_FLAG_UNCOMPRESSED = 0"

definition COMPRESSION_FLAG_COMPRESSED :: byte where
  "COMPRESSION_FLAG_COMPRESSED = 1"

definition MAX_MESSAGE_SIZE_DEFAULT :: nat where
  "MAX_MESSAGE_SIZE_DEFAULT = 4 * 1024 * 1024"

definition encode_frame ::
  "(byte list \<Rightarrow> byte list anyhow) \<Rightarrow> byte list \<Rightarrow> compression \<Rightarrow> nat \<Rightarrow> byte list anyhow" where
  "encode_frame gz msg c max_size =
     (if max_size < length msg
      then bail (''message length '' @ show_nat (length msg) @ '' exceeds maximum '' @ show_nat max_size)
      else bind_result (compress gz c msg) (\<lambda>compressed.
        let (flag, payload) =
          (if c = Identity then (COMPRESSION_FLAG_UNCOMPRESSED, msg)
           else (COMPRESSION_FLAG_COMPRESSED, compressed))
        in Inr (flag # be_bytes 4 (word_of_nat (length payload) :: u32) @ payload)))"

definition frame_declared :: "byte list \<Rightarrow> nat" where
  "frame_declared bs = unat (of_be_bytes [bs ! 1, bs ! 2, bs ! 3, bs ! 4] :: u32)"

definition decode_frame ::
  "(nat \<Rightarrow> byte list \<Rightarrow> byte list anyhow) \<Rightarrow> byte list \<Rightarrow> compression \<Rightarrow> nat \<Rightarrow> byte list anyhow" where
  "decode_frame ungz frame encoding max_size =
     (if length frame < 5
      then bail (''frame too short: '' @ show_nat (length frame) @ '' bytes (minimum 5)'')
      else let flag = frame ! 0; declared = frame_declared frame
        in if max_size < declared
           then bail (''declared message length '' @ show_nat declared @ '' exceeds maximum '' @ show_nat max_size)
           else let payload = drop 5 frame
             in if length payload \<noteq> declared
                then bail (''frame payload length '' @ show_nat (length payload)
                  @ '' does not match declared length '' @ show_nat declared)
                else if flag = COMPRESSION_FLAG_UNCOMPRESSED then Inr payload
                else if flag = COMPRESSION_FLAG_COMPRESSED
                then bind_result (decompress ungz encoding payload max_size) (\<lambda>bs.
                  if max_size < length bs
                  then bail (''decompressed message length '' @ show_nat (length bs)
                    @ '' exceeds maximum '' @ show_nat max_size)
                  else Inr bs)
                else bail (''invalid compression flag '' @ show_nat (unat flag)))"

section \<open>Headers\<close>

lemma header_roundtrip: "c = Identity \<or> c = Gzip \<Longrightarrow> compression_from_header (as_header c) = c"
  by (auto simp: compression_from_header_def)

text \<open>A header in upper case names the lower-case algorithm, and is not supported.\<close>

lemma upper_case_header: "compression_from_header ''GZIP'' = Other ''gzip''"
  by code_simp

section \<open>The frame header\<close>

lemma be_bytes_4: "\<exists>a b c d. be_bytes 4 (w :: u32) = [a, b, c, d]"
  using length_be_bytes [of 4 w] by (auto simp: length_Suc_conv eval_nat_numeral simp del: length_be_bytes)

lemma frame_declared_header [simp]:
  "frame_declared (x # be_bytes 4 (w :: u32) @ bs) = unat w"
proof -
  obtain a b c d where e: "be_bytes 4 w = [a, b, c, d]"
    using be_bytes_4 by blast
  have "of_be_bytes [a, b, c, d] = w"
    unfolding e [symmetric] by (rule of_be_bytes_be_bytes) simp
  then show ?thesis
    by (simp add: frame_declared_def e)
qed

lemma frame_declared_less: "frame_declared bs < 2 ^ 32"
  unfolding frame_declared_def by (rule order_less_le_trans [OF unsigned_less]) simp

lemma frame_declared_append: "5 \<le> length bs \<Longrightarrow> frame_declared (bs @ cs) = frame_declared bs"
  by (simp add: frame_declared_def nth_append)

lemma frame_declared_take: "5 \<le> n \<Longrightarrow> frame_declared (take n bs) = frame_declared bs"
  by (simp add: frame_declared_def)

text \<open>
  \<open>frame_payload gz c m p\<close>: the encoder sends message \<open>m\<close> as the payload \<open>p\<close>, and its length fits
  in the header.
\<close>

definition frame_payload :: "(byte list \<Rightarrow> byte list anyhow) \<Rightarrow> compression \<Rightarrow> byte list \<Rightarrow> byte list \<Rightarrow> bool" where
  "frame_payload gz c m p \<longleftrightarrow> compress gz c m = Inr p \<and> length p < 2 ^ 32"

lemma encode_frame_eq:
  assumes "frame_payload gz c m p" and "length m \<le> max_size"
  shows "encode_frame gz m c max_size = Inr ((if c = Identity then 0 else 1) # be_bytes 4 (word_of_nat (length p) :: u32) @ p)"
  using assms
  by (cases c) (simp_all add: encode_frame_def frame_payload_def COMPRESSION_FLAG_UNCOMPRESSED_def COMPRESSION_FLAG_COMPRESSED_def)

lemma unat_frame_length: "n < 2 ^ 32 \<Longrightarrow> unat (word_of_nat n :: u32) = n"
  by (simp add: unat_of_nat)

lemma decompress_compress:
  assumes "compress gz c m = Inr p" and "\<And>n. c = Gzip \<Longrightarrow> ungz n p = Inr (take n m)"
    and "length m \<le> max_size" and "max_size < 2 ^ 64" and "length m < 2 ^ 63"
  shows "decompress ungz c p max_size = Inr m"
  using assms by (cases c) auto

lemma decode_encode_frame:
  assumes "frame_payload gz c m p" and "\<And>n. c = Gzip \<Longrightarrow> ungz n p = Inr (take n m)"
    and "length m \<le> max_size" and "length p \<le> max_size" and "max_size < 2 ^ 64" and "length m < 2 ^ 63"
    and "encode_frame gz m c max_size = Inr f"
  shows "decode_frame ungz f c max_size = Inr m" and "5 \<le> length f" and "length f = 5 + frame_declared f"
    and "frame_declared f \<le> max_size"
proof -
  have f: "f = (if c = Identity then 0 else 1) # be_bytes 4 (word_of_nat (length p) :: u32) @ p"
    using assms(7) by (simp add: encode_frame_eq [OF assms(1,3)])
  have p: "unat (word_of_nat (length p) :: u32) = length p"
    using assms(1) by (simp add: frame_payload_def unat_frame_length)
  have d: "frame_declared f = length p"
    unfolding f frame_declared_header by (rule p)
  show "5 \<le> length f" "length f = 5 + frame_declared f" "frame_declared f \<le> max_size"
    using assms(4) by (simp_all add: d) (simp_all add: f)
  have len: "length f = 5 + length p" and payload: "drop 5 f = p"
    by (simp_all add: f)
  have m: "decompress ungz c p max_size = Inr m"
    using assms(1) by (intro decompress_compress assms(2-6)) (auto simp: frame_payload_def)
  show "decode_frame ungz f c max_size = Inr m"
  proof (cases "c = Identity")
    case True
    then have "p = m" "f ! 0 = 0"
      using assms(1) by (simp_all add: frame_payload_def f)
    then show ?thesis
      using assms(4) by (simp add: decode_frame_def len payload d COMPRESSION_FLAG_UNCOMPRESSED_def)
  next
    case False
    then have "f ! 0 = 1"
      by (simp add: f)
    then show ?thesis
      using assms(3,4) m
      by (simp add: decode_frame_def len payload d COMPRESSION_FLAG_UNCOMPRESSED_def COMPRESSION_FLAG_COMPRESSED_def)
  qed
qed

section \<open>Properties\<close>

text \<open>
  C15: No oversized message: whatever bytes arrive as a frame, whatever the negotiated algorithm
  and whatever the gzip decoder returns, a message the codec accepts has at most the configured
  maximum length, and the codec only fails otherwise by an error (it does not panic) when the
  decoder does not.
\<close>

theorem decode_frame_bounded:
  "(\<forall>m. decode_frame ungz frame c max_size = Inr m \<longrightarrow> length m \<le> max_size)
   \<and> (panics (decode_frame ungz frame c max_size)
        \<longrightarrow> c = Gzip \<and> (\<exists>n. panics (ungz n (drop 5 frame))))"
  by (cases c) (auto simp: decode_frame_def Let_def bind_result_eq_Inr panics_bind split: if_splits)

theorem decode_frame_bounded_witness:
  "length [7 :: byte] \<le> 3 \<and> \<not> panics (decode_frame (\<lambda>_ _. bail []) [0, 0, 0, 0, 1, 7] Identity 3)"
proof -
  have "decode_frame (\<lambda>_ _. bail []) [0, 0, 0, 0, 1, 7] Identity 3 = Inr [7]"
    by (simp add: decode_frame_def frame_declared_def of_be_bytes_def of_le_bytes_def COMPRESSION_FLAG_UNCOMPRESSED_def)
  then show ?thesis
    using decode_frame_bounded [of "\<lambda>_ _. bail []" "[0, 0, 0, 0, 1, 7]" Identity 3] by simp
qed

text \<open>
  A payload of 2^32 bytes or more is written with a truncated length (\<open>payload.len() as u32\<close>).
\<close>

lemma encode_frame_truncates:
  assumes "length m = 2 ^ 32 + k" and "k < 2 ^ 32" and "length m \<le> max_size"
    and "encode_frame gz m Identity max_size = Inr f"
  shows "frame_declared f = k" and "length f = 2 ^ 32 + k + 5"
proof -
  have f: "f = 0 # be_bytes 4 (word_of_nat (length m) :: u32) @ m"
    using assms(3,4) by (simp add: encode_frame_def COMPRESSION_FLAG_UNCOMPRESSED_def)
  show "frame_declared f = k"
    unfolding f frame_declared_header unat_of_nat using assms(1,2) by simp
  show "length f = 2 ^ 32 + k + 5"
    using assms(1) by (simp add: f)
qed

end
