(* ===== verification/Framing.thy ===== *)
theory Framing
  imports Codec
begin

text \<open>
  Streams of gRPC messages over HTTP/2 bodies (\<open>tpt-proto-grpc/src/framed.rs\<close>). A body is the
  sequence of what polling it yields: chunks of data, a transport error, or not being ready.
\<close>

section \<open>Definitions\<close>

datatype body_event = Chunk "byte list" | BodyError string | NotReady

datatype 'a poll = Pending | Ready 'a

record deframe =
  df_body :: "body_event list"
  df_buf :: "byte list"
  df_encoding :: compression
  df_max :: nat
  df_eof :: bool

type_synonym 'a item = "(status, 'a) res"

definition deframe_stream :: "body_event list \<Rightarrow> compression \<Rightarrow> nat \<Rightarrow> deframe" where
  "deframe_stream body encoding max_size =
     \<lparr>df_body = body, df_buf = [], df_encoding = encoding, df_max = max_size, df_eof = False\<rparr>"

text \<open>The attempt to take one frame from the buffer, at the head of the polling loop.\<close>

definition take_frame ::
  "(nat \<Rightarrow> byte list \<Rightarrow> byte list anyhow) \<Rightarrow> deframe \<Rightarrow> (byte list item \<times> deframe) option" where
  "take_frame ungz s =
     (if 5 \<le> length (df_buf s)
      then let declared = frame_declared (df_buf s)
        in if df_max s < declared
           then Some (Inl (Raised (Status_new ResourceExhausted
             (''declared message length '' @ show_nat declared @ '' exceeds maximum '' @ show_nat (df_max s)))), s)
           else let n = 5 + declared
             in if n \<le> length (df_buf s)
                then Some (map_fault (\<lambda>e. Status_new Internal (''failed to decode gRPC frame: '' @ e))
                       (decode_frame ungz (take n (df_buf s)) (df_encoding s) (df_max s)),
                     s\<lparr>df_buf := drop n (df_buf s)\<rparr>)
                else None
      else None)"

function (sequential) poll_next ::
  "(nat \<Rightarrow> byte list \<Rightarrow> byte list anyhow) \<Rightarrow> deframe \<Rightarrow> byte list item option poll \<times> deframe" where
  "poll_next ungz s =
     (case take_frame ungz s of
        Some (x, s') \<Rightarrow> (Ready (Some x), s')
      | None \<Rightarrow>
          if df_eof s
          then if df_buf s = [] then (Ready None, s)
               else (Ready (Some (Inl (Raised (Status_new Internal ''connection closed with a partial gRPC frame'')))), s)
          else (case df_body s of
              Chunk bs # es \<Rightarrow> poll_next ungz (s\<lparr>df_body := es, df_buf := df_buf s @ bs\<rparr>)
            | BodyError e # es \<Rightarrow>
                (Ready (Some (Inl (Raised (Status_new Internal (''h2 body error: '' @ e))))), s\<lparr>df_body := es\<rparr>)
            | [] \<Rightarrow> poll_next ungz (s\<lparr>df_eof := True\<rparr>)
            | NotReady # es \<Rightarrow> (Pending, s\<lparr>df_body := es\<rparr>)))"
  by pat_completeness auto
termination poll_next
  by (relation "measure (\<lambda>(ungz, s). 2 * length (df_body s) + (if df_eof s then 0 else 1))") auto

declare poll_next.simps [simp del]

text \<open>The number of bytes a stream has still to deliver, and of the events left in its body.\<close>

fun event_bytes :: "body_event \<Rightarrow> byte list" where
  "event_bytes (Chunk bs) = bs"
| "event_bytes (BodyError e) = []"
| "event_bytes NotReady = []"

definition stream_bytes :: "deframe \<Rightarrow> byte list" where
  "stream_bytes s = df_buf s @ concat (map event_bytes (df_body s))"

definition stream_size :: "deframe \<Rightarrow> nat" where
  "stream_size s = length (stream_bytes s) + length (df_body s)"

lemma take_frame_cases:
  obtains (none) "take_frame ungz s = None"
    | (exceeds) d where "take_frame ungz s = Some (Inl (Raised (Status_new ResourceExhausted
        (''declared message length '' @ show_nat d @ '' exceeds maximum '' @ show_nat (df_max s)))), s)"
        "d = frame_declared (df_buf s)" "df_max s < d" "5 \<le> length (df_buf s)"
    | (frame) n where "take_frame ungz s = Some (map_fault (\<lambda>e. Status_new Internal (''failed to decode gRPC frame: '' @ e))
        (decode_frame ungz (take n (df_buf s)) (df_encoding s) (df_max s)), s\<lparr>df_buf := drop n (df_buf s)\<rparr>)"
        "n = 5 + frame_declared (df_buf s)" "n \<le> length (df_buf s)" "frame_declared (df_buf s) \<le> df_max s"
proof -
  consider "length (df_buf s) < 5" | "5 \<le> length (df_buf s)" "df_max s < frame_declared (df_buf s)"
    | "5 \<le> length (df_buf s)" "frame_declared (df_buf s) \<le> df_max s" "length (df_buf s) < 5 + frame_declared (df_buf s)"
    | "5 \<le> length (df_buf s)" "frame_declared (df_buf s) \<le> df_max s" "5 + frame_declared (df_buf s) \<le> length (df_buf s)"
    by linarith
  then show ?thesis
    by cases (use that in \<open>simp_all add: take_frame_def Let_def\<close>)
qed

lemma poll_next_size:
  "poll_next ungz s = (Pending, s') \<Longrightarrow> stream_size s' < stream_size s"
  "poll_next ungz s = (Ready (Some (Inr m)), s') \<Longrightarrow> stream_size s' < stream_size s"
proof (induction ungz s rule: poll_next.induct)
  case (1 ungz s)
  { case 1
    then show ?case
      using "1.IH"(1,3)
      by (cases rule: take_frame_cases [of ungz s])
         (auto simp: poll_next.simps [of ungz s] stream_size_def stream_bytes_def
           split: if_splits list.splits body_event.splits)
  next
    case 2
    then show ?case
      using "1.IH"(2,4)
      by (cases rule: take_frame_cases [of ungz s])
         (auto simp: poll_next.simps [of ungz s] stream_size_def stream_bytes_def
           split: if_splits list.splits body_event.splits)
  }
qed

text \<open>
  \<open>stream.next().await\<close>: poll until the stream is ready. The messages it delivers, up to the end
  or the first error, and \<open>read_single_message\<close>.
\<close>

function next_item ::
  "(nat \<Rightarrow> byte list \<Rightarrow> byte list anyhow) \<Rightarrow> deframe \<Rightarrow> byte list item option \<times> deframe" where
  "next_item ungz s =
     (case poll_next ungz s of
        (Pending, s') \<Rightarrow> next_item ungz s'
      | (Ready x, s') \<Rightarrow> (x, s'))"
  by pat_completeness auto
termination next_item
  by (relation "measure (\<lambda>(ungz, s). stream_size s)") (auto simp: poll_next_size)

declare next_item.simps [simp del]

lemma next_item_size: "next_item ungz s = (Some (Inr m), s') \<Longrightarrow> stream_size s' < stream_size s"
proof (induction ungz s rule: next_item.induct)
  case (1 ungz s)
  show ?case
  proof (cases "poll_next ungz s")
    case (Pair p t)
    show ?thesis
    proof (cases p)
      case Pending
      have "stream_size t < stream_size s"
        using poll_next_size(1) [of ungz s t] Pair Pending by simp
      moreover have "stream_size s' < stream_size t"
        using 1 Pair Pending by (simp add: next_item.simps [of ungz s])
      ultimately show ?thesis by simp
    next
      case (Ready x)
      then show ?thesis
        using 1 Pair poll_next_size(2) [of ungz s m s'] by (simp add: next_item.simps [of ungz s])
    qed
  qed
qed

function read_messages ::
  "(nat \<Rightarrow> byte list \<Rightarrow> byte list anyhow) \<Rightarrow> deframe \<Rightarrow> byte list option \<Rightarrow> byte list option item" where
  "read_messages ungz s prev =
     (case next_item ungz s of
        (None, _) \<Rightarrow> Inr prev
      | (Some (Inl e), _) \<Rightarrow> Inl e
      | (Some (Inr m), s') \<Rightarrow> read_messages ungz s' (Some m))"
  by pat_completeness auto
termination read_messages
  by (relation "measure (\<lambda>(ungz, s, l). stream_size s)") (auto intro: next_item_size [OF sym])

definition read_single_message ::
  "(nat \<Rightarrow> byte list \<Rightarrow> byte list anyhow) \<Rightarrow> body_event list \<Rightarrow> compression \<Rightarrow> nat \<Rightarrow> byte list option item" where
  "read_single_message ungz body encoding max_size =
     read_messages ungz (deframe_stream body encoding max_size) None"

text \<open>The items of a stream up to and including the first error.\<close>

function stream_items :: "(nat \<Rightarrow> byte list \<Rightarrow> byte list anyhow) \<Rightarrow> deframe \<Rightarrow> byte list item list" where
  "stream_items ungz s =
     (case next_item ungz s of
        (None, _) \<Rightarrow> []
      | (Some (Inl e), _) \<Rightarrow> [Inl e]
      | (Some (Inr m), s') \<Rightarrow> Inr m # stream_items ungz s')"
  by pat_completeness auto
termination stream_items
  by (relation "measure (\<lambda>(ungz, s). stream_size s)") (auto intro: next_item_size [OF sym])

declare read_messages.simps [simp del] stream_items.simps [simp del]

section \<open>What a stream delivers\<close>

text \<open>
  The specification: the messages are those of the bytes of the whole body, one frame after the
  other, however the bytes were split into chunks.
\<close>

definition partial_frame :: status where
  "partial_frame = Status_new Internal ''connection closed with a partial gRPC frame''"

definition head_item ::
  "(nat \<Rightarrow> byte list \<Rightarrow> byte list anyhow) \<Rightarrow> compression \<Rightarrow> nat \<Rightarrow> byte list \<Rightarrow> byte list item option" where
  "head_item ungz c max_size bs =
     (if bs = [] then None
      else if length bs < 5 then Some (Inl (Raised partial_frame))
      else if max_size < frame_declared bs
      then Some (Inl (Raised (Status_new ResourceExhausted
        (''declared message length '' @ show_nat (frame_declared bs) @ '' exceeds maximum '' @ show_nat max_size))))
      else if length bs < 5 + frame_declared bs then Some (Inl (Raised partial_frame))
      else Some (map_fault (\<lambda>e. Status_new Internal (''failed to decode gRPC frame: '' @ e))
        (decode_frame ungz (take (5 + frame_declared bs) bs) c max_size)))"

function split_stream ::
  "(nat \<Rightarrow> byte list \<Rightarrow> byte list anyhow) \<Rightarrow> compression \<Rightarrow> nat \<Rightarrow> byte list \<Rightarrow> byte list item list" where
  "split_stream ungz c max_size bs =
     (case head_item ungz c max_size bs of
        None \<Rightarrow> []
      | Some (Inl e) \<Rightarrow> [Inl e]
      | Some (Inr m) \<Rightarrow> Inr m # split_stream ungz c max_size (drop (5 + frame_declared bs) bs))"
  by pat_completeness auto
termination split_stream
  by (relation "measure (\<lambda>(ungz, c, n, bs). length bs)") (auto simp: head_item_def split: if_splits)

declare split_stream.simps [simp del]

definition no_body_error :: "body_event list \<Rightarrow> bool" where
  "no_body_error es \<longleftrightarrow> list_all (\<lambda>e. case e of BodyError _ \<Rightarrow> False | _ \<Rightarrow> True) es"

lemma no_body_error_simps [simp]:
  "no_body_error []" "no_body_error (Chunk bs # es) = no_body_error es" "\<not> no_body_error (BodyError x # es)"
  "no_body_error (NotReady # es) = no_body_error es"
  by (simp_all add: no_body_error_def)

definition stream_ok :: "compression \<Rightarrow> nat \<Rightarrow> deframe \<Rightarrow> bool" where
  "stream_ok c n s \<longleftrightarrow> no_body_error (df_body s) \<and> (df_eof s \<longrightarrow> df_body s = [])
     \<and> df_encoding s = c \<and> df_max s = n"

lemma take_frame_head:
  assumes "take_frame ungz s = Some (x, s')" and "stream_ok c n s"
  shows "head_item ungz c n (stream_bytes s) = Some x \<and> stream_ok c n s'
    \<and> (\<forall>m. x = Inr m \<longrightarrow> stream_bytes s' = drop (5 + frame_declared (stream_bytes s)) (stream_bytes s))"
  using assms
  by (cases rule: take_frame_cases [of ungz s])
     (auto simp: head_item_def stream_ok_def stream_bytes_def frame_declared_append)

lemma take_frame_None_head:
  assumes "take_frame ungz s = None" and "df_body s = []"
  shows "head_item ungz (df_encoding s) (df_max s) (stream_bytes s) =
    (if df_buf s = [] then None else Some (Inl (Raised partial_frame)))"
  using assms by (auto simp: take_frame_def head_item_def stream_bytes_def Let_def split: if_splits)

lemma poll_next_spec:
  assumes "poll_next ungz s = (p, s')" and "stream_ok c n s"
  shows "stream_ok c n s' \<and> (case p of
      Pending \<Rightarrow> stream_bytes s' = stream_bytes s
    | Ready x \<Rightarrow> x = head_item ungz c n (stream_bytes s)
        \<and> (\<forall>m. x = Some (Inr m) \<longrightarrow> stream_bytes s' = drop (5 + frame_declared (stream_bytes s)) (stream_bytes s)))"
  using assms
proof (induction ungz s arbitrary: p s' rule: poll_next.induct)
  case (1 ungz s)
  show ?case
  proof (cases "take_frame ungz s")
    case (Some y)
    obtain x t where y: "y = (x, t)" by (cases y)
    have "p = Ready (Some x)" "s' = t"
      using "1.prems"(1) Some y by (simp_all add: poll_next.simps [of ungz s])
    then show ?thesis
      using take_frame_head [of ungz s x t c n] Some y "1.prems"(2) by simp
  next
    case None
    show ?thesis
    proof (cases "df_eof s")
      case True
      then show ?thesis
        using "1.prems" None take_frame_None_head [OF None]
        by (auto simp: poll_next.simps [of ungz s] stream_ok_def partial_frame_def split: if_splits)
    next
      case False
      show ?thesis
      proof (cases "df_body s")
        case Nil
        have "stream_ok c n (s\<lparr>df_eof := True\<rparr>)" "stream_bytes (s\<lparr>df_eof := True\<rparr>) = stream_bytes s"
          using "1.prems"(2) Nil by (simp_all add: stream_ok_def stream_bytes_def)
        then show ?thesis
          using "1.IH"(1) [OF None False Nil] "1.prems" None False Nil
          by (cases p) (simp_all add: poll_next.simps [of ungz s])
      next
        case (Cons e es)
        show ?thesis
        proof (cases e)
          case (Chunk bs)
          let ?t = "s\<lparr>df_body := es, df_buf := df_buf s @ bs\<rparr>"
          have "stream_ok c n ?t" "stream_bytes ?t = stream_bytes s"
            using "1.prems"(2) Cons Chunk False by (simp_all add: stream_ok_def stream_bytes_def)
          then show ?thesis
            using "1.IH"(2) [OF None False Cons Chunk] "1.prems" None False Cons Chunk
            by (cases p) (simp_all add: poll_next.simps [of ungz s])
        qed (use "1.prems" None False Cons in
             \<open>auto simp: poll_next.simps [of ungz s] stream_ok_def stream_bytes_def\<close>)
      qed
    qed
  qed
qed

lemma next_item_spec:
  assumes "next_item ungz s = (x, s')" and "stream_ok c n s"
  shows "stream_ok c n s' \<and> x = head_item ungz c n (stream_bytes s)
    \<and> (\<forall>m. x = Some (Inr m) \<longrightarrow> stream_bytes s' = drop (5 + frame_declared (stream_bytes s)) (stream_bytes s))"
  using assms
proof (induction ungz s arbitrary: x s' rule: next_item.induct)
  case (1 ungz s)
  obtain p t where p: "poll_next ungz s = (p, t)" by (cases "poll_next ungz s")
  note spec = poll_next_spec [OF p "1.prems"(2)]
  show ?case
  proof (cases p)
    case Pending
    then have "next_item ungz t = (x, s')"
      using "1.prems"(1) p by (simp add: next_item.simps [of ungz s])
    from "1.IH" [OF p [symmetric] Pending this] spec Pending show ?thesis by simp
  next
    case (Ready y)
    then show ?thesis
      using "1.prems"(1) p spec by (simp add: next_item.simps [of ungz s])
  qed
qed

lemma stream_items_eq:
  "stream_ok c n s \<Longrightarrow> stream_items ungz s = split_stream ungz c n (stream_bytes s)"
proof (induction ungz s rule: stream_items.induct)
  case (1 ungz s)
  obtain x t where x: "next_item ungz s = (x, t)" by (cases "next_item ungz s")
  note spec = next_item_spec [OF x "1.prems"]
  show ?case
    using 1 x spec
    by (auto simp: stream_items.simps [of ungz s] split_stream.simps [of ungz c n "stream_bytes s"]
        split: option.splits sum.splits)
qed

lemma stream_ok_new: "no_body_error body \<Longrightarrow> stream_ok c n (deframe_stream body c n)"
  by (simp add: stream_ok_def deframe_stream_def)

lemma stream_bytes_new: "stream_bytes (deframe_stream body c n) = concat (map event_bytes body)"
  by (simp add: stream_bytes_def deframe_stream_def)

text \<open>
  The source's comment says that the stream ends after an error; a declared length above the
  maximum is reported again by every later poll instead.
\<close>

lemma oversized_frame_repeats:
  "5 \<le> length (df_buf s) \<Longrightarrow> df_max s < frame_declared (df_buf s) \<Longrightarrow>
   poll_next ungz s = (Ready (Some (Inl (Raised (Status_new ResourceExhausted
     (''declared message length '' @ show_nat (frame_declared (df_buf s)) @ '' exceeds maximum '' @ show_nat (df_max s)))))), s)"
  by (simp add: poll_next.simps [of ungz s] take_frame_def Let_def)

section \<open>Properties\<close>

text \<open>
  C17: Chunking does not matter: for a body without transport errors, the items the stream
  delivers are the frames of the concatenated bytes, decoded one after the other up to the first
  error, however the bytes are cut into chunks and however often the body is not ready.
\<close>

theorem deframe_chunking:
  assumes "no_body_error body"
  shows "stream_items ungz (deframe_stream body c max_size) = split_stream ungz c max_size (concat (map event_bytes body))"
  using stream_items_eq [OF stream_ok_new [OF assms, of c max_size]] by (simp add: stream_bytes_new)

theorem deframe_chunking_witness:
  "stream_items (\<lambda>_ _. bail []) (deframe_stream [Chunk [0, 0, 0], NotReady, Chunk [0, 1], Chunk [7]] Identity 4)
    = split_stream (\<lambda>_ _. bail []) Identity 4 [0, 0, 0, 0, 1, 7]"
  using deframe_chunking [of "[Chunk [0, 0, 0], NotReady, Chunk [0, 1], Chunk [7]]" "\<lambda>_ _. bail []" Identity 4] by simp

text \<open>
  A message the encoder can send and the decoder, with the gzip decoder undoing the encoder, can
  receive.
\<close>

definition sendable ::
  "(byte list \<Rightarrow> byte list anyhow) \<Rightarrow> (nat \<Rightarrow> byte list \<Rightarrow> byte list anyhow) \<Rightarrow> compression \<Rightarrow> nat \<Rightarrow> byte list \<Rightarrow> bool" where
  "sendable gz ungz c max_size m \<longleftrightarrow> length m \<le> max_size \<and> length m < 2 ^ 63
     \<and> (\<exists>p. frame_payload gz c m p \<and> length p \<le> max_size \<and> (c = Gzip \<longrightarrow> (\<forall>n. ungz n p = Inr (take n m))))"

lemma split_stream_frame:
  assumes "sendable gz ungz c max_size m" and "max_size < 2 ^ 64" and "encode_frame gz m c max_size = Inr f"
  shows "split_stream ungz c max_size (f @ bs) = Inr m # split_stream ungz c max_size bs"
proof -
  obtain p where p: "frame_payload gz c m p" "length p \<le> max_size" "\<And>n. c = Gzip \<Longrightarrow> ungz n p = Inr (take n m)"
    and m: "length m \<le> max_size" "length m < 2 ^ 63"
    using assms(1) by (auto simp: sendable_def)
  note f = decode_encode_frame [where ungz = ungz, OF p(1) p(3) m(1) p(2) assms(2) m(2) assms(3)]
  have d: "frame_declared (f @ bs) = frame_declared f"
    by (rule frame_declared_append [OF f(2)])
  have len: "5 + frame_declared f = length f" and ne: "f \<noteq> []"
    using f(2,3) by auto
  have "head_item ungz c max_size (f @ bs) = Some (Inr m)"
    using f(2,4) len ne by (simp add: head_item_def d f(1))
  then show ?thesis
    by (simp add: split_stream.simps [of ungz c max_size "f @ bs"] d len)
qed

lemma split_stream_frames:
  assumes "list_all (sendable gz ungz c max_size) msgs" and "max_size < 2 ^ 64"
    and "map (\<lambda>m. encode_frame gz m c max_size) msgs = map Inr fs"
  shows "split_stream ungz c max_size (concat fs) = map Inr msgs"
  using assms
proof (induction msgs arbitrary: fs)
  case Nil
  then show ?case by (simp add: split_stream.simps head_item_def)
next
  case (Cons m msgs)
  then show ?case by (cases fs) (auto simp: split_stream_frame)
qed

lemma read_messages_items:
  "stream_items ungz s = map Inr ms \<Longrightarrow> read_messages ungz s prev = Inr (if ms = [] then prev else Some (last ms))"
proof (induction ungz s prev arbitrary: ms rule: read_messages.induct)
  case (1 ungz s prev)
  then show ?case
    by (cases ms) (auto simp: read_messages.simps [of ungz s] stream_items.simps [of ungz s]
        split: prod.splits option.splits sum.splits)
qed

text \<open>
  C16: Messages survive the wire: when a list of messages is framed by \<open>encode_message\<close> and the
  frames arrive as a body, in any chunks, the stream delivers exactly these messages in order
  and ends, and \<open>read_single_message\<close> returns the last one (none for an empty body). For gzip
  the third-party decoder has to undo the encoder.
\<close>

theorem framed_messages_roundtrip:
  assumes "list_all (sendable gz ungz c max_size) msgs" and "max_size < 2 ^ 64"
    and "map (\<lambda>m. encode_frame gz m c max_size) msgs = map Inr fs"
    and "no_body_error body" and "concat (map event_bytes body) = concat fs"
  shows "stream_items ungz (deframe_stream body c max_size) = map Inr msgs
    \<and> read_single_message ungz body c max_size = Inr (if msgs = [] then None else Some (last msgs))"
proof -
  have "stream_items ungz (deframe_stream body c max_size) = map Inr msgs"
    using stream_items_eq [OF stream_ok_new [OF assms(4), of c max_size]] split_stream_frames [OF assms(1-3)]
    by (simp add: stream_bytes_new assms(5))
  then show ?thesis
    using read_messages_items by (simp add: read_single_message_def)
qed

theorem framed_messages_roundtrip_witness:
  "stream_items (\<lambda>n bs. Inr (take n (rev bs))) (deframe_stream [Chunk [1, 0, 0], NotReady, Chunk [0, 2, 8, 7, 1],
      Chunk [0, 0, 0, 1, 9]] Gzip 4) = [Inr [7, 8], Inr [9]]
   \<and> read_single_message (\<lambda>n bs. Inr (take n (rev bs))) [Chunk [1, 0, 0], NotReady, Chunk [0, 2, 8, 7, 1],
      Chunk [0, 0, 0, 1, 9]] Gzip 4 = Inr (Some [9])"
proof -
  let ?gz = "\<lambda>bs. Inr (rev bs)" and ?ungz = "\<lambda>n bs. Inr (take n (rev bs))"
  have be: "be_bytes 4 (1 :: u32) = [0, 0, 0, 1]" "be_bytes 4 (2 :: u32) = [0, 0, 0, 2]"
    by code_simp+
  have s: "list_all (sendable ?gz ?ungz Gzip 4) [[7, 8], [9]]"
    by (simp add: sendable_def frame_payload_def)
  have e: "map (\<lambda>m. encode_frame ?gz m Gzip 4) [[7, 8], [9]] = map Inr [[1, 0, 0, 0, 2, 8, 7], [1, 0, 0, 0, 1, 9]]"
    by (simp add: encode_frame_def COMPRESSION_FLAG_COMPRESSED_def be)
  show ?thesis
    using framed_messages_roundtrip [OF s _ e, of "[Chunk [1, 0, 0], NotReady, Chunk [0, 2, 8, 7, 1], Chunk [0, 0, 0, 1, 9]]"]
    by simp
qed

end
