(* ===== verification/Timeout.thy ===== *)
theory Timeout
  imports Metadata
begin

text \<open>
  The \<open>grpc-timeout\<close> header (\<open>tpt-proto-grpc/src/timeout.rs\<close>), over a model of
  \<open>std::time::Duration\<close>: whole seconds below 2^64 and nanoseconds below 10^9.
\<close>

section \<open>Durations of the standard library\<close>

record std_duration =
  d_secs :: nat
  d_nanos :: nat

definition duration_ok :: "std_duration \<Rightarrow> bool" where
  "duration_ok d \<longleftrightarrow> d_secs d < 2 ^ 64 \<and> d_nanos d < 1000000000"

definition from_secs :: "nat \<Rightarrow> std_duration" where
  "from_secs n = \<lparr>d_secs = n, d_nanos = 0\<rparr>"

definition from_millis :: "nat \<Rightarrow> std_duration" where
  "from_millis n = \<lparr>d_secs = n div 1000, d_nanos = n mod 1000 * 1000000\<rparr>"

definition from_micros :: "nat \<Rightarrow> std_duration" where
  "from_micros n = \<lparr>d_secs = n div 1000000, d_nanos = n mod 1000000 * 1000\<rparr>"

definition from_nanos :: "nat \<Rightarrow> std_duration" where
  "from_nanos n = \<lparr>d_secs = n div 1000000000, d_nanos = n mod 1000000000\<rparr>"

definition as_nanos :: "std_duration \<Rightarrow> nat" where
  "as_nanos d = d_secs d * 1000000000 + d_nanos d"

definition as_micros :: "std_duration \<Rightarrow> nat" where
  "as_micros d = d_secs d * 1000000 + d_nanos d div 1000"

definition as_millis :: "std_duration \<Rightarrow> nat" where
  "as_millis d = d_secs d * 1000 + d_nanos d div 1000000"

definition u64_checked_mul :: "nat \<Rightarrow> nat \<Rightarrow> nat option" where
  "u64_checked_mul a b = (if a * b < 2 ^ 64 then Some (a * b) else None)"

section \<open>Definitions\<close>

definition split_last :: "string \<Rightarrow> (string \<times> string) anyhow" where
  "split_last s =
     (let n = length s - 1
      in if is_cont_byte (as_bytes s ! n)
         then Inl (Panicked ''failed to slice string'')
         else Inr (take n s, drop n s))"

definition parse_timeout :: "string \<Rightarrow> std_duration anyhow" where
  "parse_timeout v =
     (if length v < 2 then bail (''invalid grpc-timeout `'' @ v @ ''`'')
      else bind_result (split_last v) (\<lambda>(digits, unit).
        case parse_unsigned 64 digits of
          None \<Rightarrow> bail (''invalid grpc-timeout value `'' @ v @ ''`'')
        | Some n \<Rightarrow> bind_result
            (if unit = ''H'' then Inr (map_option from_secs (u64_checked_mul n 3600))
             else if unit = ''M'' then Inr (map_option from_secs (u64_checked_mul n 60))
             else if unit = ''S'' then Inr (Some (from_secs n))
             else if unit = ''m'' then Inr (Some (from_millis n))
             else if unit = ''u'' then Inr (Some (from_micros n))
             else if unit = ''n'' then Inr (Some (from_nanos n))
             else bail (''unknown grpc-timeout unit `'' @ unit @ ''`''))
            (\<lambda>d. case d of None \<Rightarrow> bail (''grpc-timeout `'' @ v @ ''` overflows'') | Some d \<Rightarrow> Inr d)))"

definition format_timeout :: "std_duration \<Rightarrow> string" where
  "format_timeout d =
     (let total_nanos = as_nanos d
      in if total_nanos mod 1000000000 = 0
         then let secs = d_secs d
           in if secs mod 3600 = 0 then show_nat (secs div 3600) @ ''H''
              else if secs mod 60 = 0 then show_nat (secs div 60) @ ''M''
              else show_nat secs @ ''S''
         else if total_nanos mod 1000000 = 0 then show_nat (as_millis d) @ ''m''
         else if total_nanos mod 1000 = 0 then show_nat (as_micros d) @ ''u''
         else show_nat total_nanos @ ''n'')"

section \<open>Round trip\<close>

text \<open>The count in front of the unit in the formatted timeout.\<close>

definition timeout_count :: "std_duration \<Rightarrow> nat" where
  "timeout_count d =
     (if d_nanos d = 0 then 0
      else if d_nanos d mod 1000000 = 0 then as_millis d
      else if d_nanos d mod 1000 = 0 then as_micros d
      else as_nanos d)"

lemma parse_unsigned_show_nat_iff: "parse_unsigned w (show_nat n) = (if n < 2 ^ w then Some n else None)"
proof (rule show_nat_ConsE [of n])
  fix c cs
  assume s: "show_nat n = c # cs" and c: "c \<noteq> CHR ''+''"
  have "digits_value 0 (c # cs) = Some n"
    using digits_value_show_nat [of n] by (simp only: s)
  then show ?thesis
    using c by (simp add: parse_unsigned_def s del: digits_value.simps)
qed

lemma split_last_unit:
  assumes "s \<noteq> []" and "(of_char u :: nat) < 128"
  shows "split_last (s @ [u]) = Inr (s, [u])"
proof -
  have "\<not> 0x80 \<le> (of_char u :: byte)"
    using assms(2) by (simp add: word_le_nat_alt unat_of_char)
  then show ?thesis
    by (simp add: split_last_def as_bytes_def nth_append is_cont_byte_def Let_def)
qed

lemma length_show_nat_unit: "\<not> length (show_nat n @ [u]) < 2"
  by (simp add: not_less Suc_le_eq numeral_2_eq_2)

lemma parse_timeout_number:
  assumes "(of_char u :: nat) < 128" and "2 ^ 64 \<le> n"
  shows "\<exists>e. parse_timeout (show_nat n @ [u]) = bail e"
  unfolding parse_timeout_def using assms length_show_nat_unit [of n u]
  by (simp add: split_last_unit parse_unsigned_show_nat_iff del: length_append)

lemma parse_timeout_units:
  assumes "n < 2 ^ 64"
  shows "parse_timeout (show_nat n @ ''m'') = Inr (from_millis n)"
    and "parse_timeout (show_nat n @ ''u'') = Inr (from_micros n)"
    and "parse_timeout (show_nat n @ ''n'') = Inr (from_nanos n)"
    and "parse_timeout (show_nat n @ ''S'') = Inr (from_secs n)"
    and "n * 60 < 2 ^ 64 \<Longrightarrow> parse_timeout (show_nat n @ ''M'') = Inr (from_secs (n * 60))"
    and "n * 3600 < 2 ^ 64 \<Longrightarrow> parse_timeout (show_nat n @ ''H'') = Inr (from_secs (n * 3600))"
  using assms length_show_nat_unit [of n]
  by (simp_all add: parse_timeout_def split_last_unit parse_unsigned_show_nat_iff u64_checked_mul_def del: length_append)

lemma as_nanos_mod:
  assumes "d_nanos d < 1000000000"
  shows "as_nanos d mod 1000000000 = d_nanos d" and "as_nanos d mod 1000000 = d_nanos d mod 1000000"
    and "as_nanos d mod 1000 = d_nanos d mod 1000"
proof -
  show "as_nanos d mod 1000000000 = d_nanos d"
    using assms by (simp add: as_nanos_def)
  have "as_nanos d = d_secs d * 1000 * 1000000 + d_nanos d"
    by (simp add: as_nanos_def)
  then show "as_nanos d mod 1000000 = d_nanos d mod 1000000"
    by (simp only: mod_mult_self3)
  have "as_nanos d = d_secs d * 1000000 * 1000 + d_nanos d"
    by (simp add: as_nanos_def)
  then show "as_nanos d mod 1000 = d_nanos d mod 1000"
    by (simp only: mod_mult_self3)
qed

lemma timeout_roundtrip_seconds:
  assumes "duration_ok d" and secs: "d_nanos d = 0"
  shows "parse_timeout (format_timeout d) = Inr d \<and> timeout_count d < 2 ^ 64"
proof -
  have d: "d_secs d < 2 ^ 64" "d_nanos d < 1000000000"
    using assms by (simp_all add: duration_ok_def)
  note m = as_nanos_mod [OF d(2)]
  have eq: "from_secs (d_secs d) = d"
    using secs by (cases d) (simp add: from_secs_def)
  have lt: "d_secs d div 3600 < 2 ^ 64" "d_secs d div 60 < 2 ^ 64"
    using d(1) div_le_dividend [of "d_secs d" 3600] div_le_dividend [of "d_secs d" 60] by linarith+
  have "parse_timeout (format_timeout d) = Inr d"
    unfolding format_timeout_def Let_def m secs
    using d(1) lt parse_timeout_units(4) [OF d(1)] parse_timeout_units(5) [OF lt(2)] parse_timeout_units(6) [OF lt(1)]
    by (auto simp: eq)
  then show ?thesis
    using secs d(1) by (simp add: timeout_count_def)
qed

lemma timeout_roundtrip_fraction:
  assumes "duration_ok d" and frac: "d_nanos d \<noteq> 0"
  shows "(parse_timeout (format_timeout d) = Inr d \<longleftrightarrow> timeout_count d < 2 ^ 64)
    \<and> (2 ^ 64 \<le> timeout_count d \<longrightarrow> (\<exists>e. parse_timeout (format_timeout d) = bail e))"
proof -
  have d: "d_nanos d < 1000000000"
    using assms by (simp add: duration_ok_def)
  note m = as_nanos_mod [OF d]
  consider (millis) "d_nanos d \<noteq> 0" "d_nanos d mod 1000000 = 0"
    | (micros) "d_nanos d mod 1000000 \<noteq> 0" "d_nanos d mod 1000 = 0" | (nanos) "d_nanos d mod 1000 \<noteq> 0"
    using frac by blast
  then show ?thesis
  proof cases
    case millis
    have "format_timeout d = show_nat (as_millis d) @ ''m''"
      using millis m by (simp add: format_timeout_def Let_def)
    moreover have "from_millis (as_millis d) = d"
      using millis d by (cases d) (auto simp: from_millis_def as_millis_def)
    moreover have "timeout_count d = as_millis d"
      using millis by (auto simp: timeout_count_def)
    ultimately show ?thesis
      using parse_timeout_units(1) [of "as_millis d"] parse_timeout_number [of "CHR ''m''" "as_millis d"]
      by (cases "timeout_count d < 2 ^ 64") auto
  next
    case micros
    have "format_timeout d = show_nat (as_micros d) @ ''u''"
      using micros m d by (auto simp: format_timeout_def Let_def)
    moreover have "from_micros (as_micros d) = d"
      using micros d by (cases d) (auto simp: from_micros_def as_micros_def)
    moreover have "timeout_count d = as_micros d"
      using micros by (auto simp: timeout_count_def)
    ultimately show ?thesis
      using parse_timeout_units(2) [of "as_micros d"] parse_timeout_number [of "CHR ''u''" "as_micros d"]
      by (cases "timeout_count d < 2 ^ 64") auto
  next
    case nanos
    have z: "d_nanos d \<noteq> 0" "d_nanos d mod 1000000 \<noteq> 0"
      using nanos dvd_trans [of 1000 1000000 "d_nanos d"] by (auto simp: mod_eq_0_iff_dvd intro: ccontr)
    have "format_timeout d = show_nat (as_nanos d) @ ''n''"
      using nanos z m by (simp add: format_timeout_def Let_def)
    moreover have "from_nanos (as_nanos d) = d"
      using d by (cases d) (auto simp: from_nanos_def as_nanos_def)
    moreover have "timeout_count d = as_nanos d"
      using nanos z by (auto simp: timeout_count_def)
    ultimately show ?thesis
      using parse_timeout_units(3) [of "as_nanos d"] parse_timeout_number [of "CHR ''n''" "as_nanos d"]
      by (cases "timeout_count d < 2 ^ 64") auto
  qed
qed

text \<open>
  C18: Timeouts survive the header: parsing a formatted duration gives the same duration exactly
  when the count that is written, in the unit chosen, fits in 64 bits (whole seconds always do),
  and is an error otherwise; it never panics.
\<close>

theorem timeout_roundtrip:
  assumes "duration_ok d"
  shows "(parse_timeout (format_timeout d) = Inr d \<longleftrightarrow> timeout_count d < 2 ^ 64)
    \<and> (2 ^ 64 \<le> timeout_count d \<longrightarrow> (\<exists>e. parse_timeout (format_timeout d) = bail e))"
  using timeout_roundtrip_seconds [OF assms] timeout_roundtrip_fraction [OF assms] by (cases "d_nanos d = 0") auto

theorem timeout_roundtrip_witness:
  "parse_timeout (format_timeout \<lparr>d_secs = 1, d_nanos = 500000000\<rparr>) = Inr \<lparr>d_secs = 1, d_nanos = 500000000\<rparr>"
  using timeout_roundtrip [of "\<lparr>d_secs = 1, d_nanos = 500000000\<rparr>"]
  by (simp add: duration_ok_def timeout_count_def as_millis_def)

text \<open>A header that ends in the middle of a character panics (here the two bytes of U+00E9).\<close>

lemma parse_timeout_panics: "panics (parse_timeout (str_of_bytes [0x31, 0xC3, 0xA9]))"
  by code_simp

end
