(* ===== verification/Transport_Http2.thy ===== *)
theory Transport_Http2
  imports Framing Timeout
begin

text \<open>
  The HTTP/2 client transport (\<open>tpt-proto-grpc/src/transport_http2.rs\<close>): the request it builds,
  and what it makes of a response body with its headers and trailers. The connection itself is
  the third-party \<open>h2\<close> crate: a body is a sequence of events as in \<open>Framing\<close>, a header map the list
  of its pairs in iteration order, and \<open>to_str\<close> the conversion of a header value to text.
\<close>

section \<open>Requests\<close>

record h2_transport =
  h2_endpoint :: string
  h2_compression :: compression
  h2_max :: nat
  h2_timeout :: "std_duration option"

definition H2Transport_new :: "string \<Rightarrow> h2_transport" where
  "H2Transport_new ep =
     \<lparr>h2_endpoint = ep, h2_compression = Identity, h2_max = MAX_MESSAGE_SIZE_DEFAULT, h2_timeout = None\<rparr>"

definition with_compression :: "h2_transport \<Rightarrow> compression \<Rightarrow> h2_transport" where
  "with_compression t c = t\<lparr>h2_compression := c\<rparr>"

definition with_max_message_size :: "h2_transport \<Rightarrow> nat \<Rightarrow> h2_transport" where
  "with_max_message_size t n = t\<lparr>h2_max := n\<rparr>"

definition with_timeout :: "h2_transport \<Rightarrow> std_duration \<Rightarrow> h2_transport" where
  "with_timeout t d = t\<lparr>h2_timeout := Some d\<rparr>"

definition host_and_port :: "h2_transport \<Rightarrow> (string \<times> nat) item" where
  "host_and_port t =
     (let s = str_trim (h2_endpoint t);
          s = (case strip_prefix ''http://'' s of Some u \<Rightarrow> u
               | None \<Rightarrow> (case strip_prefix ''https://'' s of Some u \<Rightarrow> u | None \<Rightarrow> s))
      in case rsplit_once (CHR '':'') s of
           None \<Rightarrow> Inl (Raised (Status_new Internal (''invalid endpoint '' @ [CHR 0x27] @ h2_endpoint t @ [CHR 0x27])))
         | Some (host, port) \<Rightarrow> (case parse_unsigned 16 port of
               None \<Rightarrow> Inl (Raised (Status_new Internal (''invalid port in '' @ [CHR 0x27] @ h2_endpoint t @ [CHR 0x27])))
             | Some p \<Rightarrow> Inr (host, p)))"

text \<open>
  The request is its URI and its headers in order; \<open>build\<close> is the request builder's verdict on
  them (\<open>builder.body(())\<close>).
\<close>

definition build_request ::
  "(byte list \<Rightarrow> string) \<Rightarrow> (string \<Rightarrow> bool) \<Rightarrow> (string \<Rightarrow> bool) \<Rightarrow> (string \<Rightarrow> (string \<times> string) list \<Rightarrow> 'r anyhow)
     \<Rightarrow> h2_transport \<Rightarrow> string \<Rightarrow> metadata \<Rightarrow> 'r item" where
  "build_request b64e name_ok value_ok build t path md =
     bind_result (host_and_port t) (\<lambda>(host, port).
       let headers = [(''content-type'', ''application/grpc''), (''te'', ''trailers''), (''user-agent'', ''tpt-proto-grpc/0.1'')]
             @ filter (\<lambda>(k, v). name_ok k \<and> value_ok v) (to_headers b64e md)
             @ (if h2_compression t \<noteq> Identity then [(''grpc-encoding'', as_header (h2_compression t))] else [])
             @ (case h2_timeout t of Some d \<Rightarrow> [(''grpc-timeout'', format_timeout d)] | None \<Rightarrow> [])
       in map_fault (\<lambda>e. Status_new Internal (''build request: '' @ e))
            (build (''http://'' @ host @ '':'' @ show_nat port @ path) headers))"

section \<open>Responses\<close>

fun collect_body :: "body_event list \<Rightarrow> nat \<Rightarrow> byte list \<Rightarrow> byte list item" where
  "collect_body [] max_size data = Inr data"
| "collect_body (Chunk bs # es) max_size data =
     (let data = data @ bs
      in if max_size < length data
         then Inl (Raised (Status_new ResourceExhausted (''response body exceeds '' @ show_nat max_size @ '' bytes'')))
         else collect_body es max_size data)"
| "collect_body (BodyError e # es) max_size data = Inl (Raised (Status_new Internal (''recv data: '' @ e)))"
| "collect_body (NotReady # es) max_size data = collect_body es max_size data"

text \<open>
  The loop of \<open>split_grpc_frames\<close>; it may run forever, so it is an option: \<open>None\<close> when it does.
\<close>

partial_function (option) split_frames_loop ::
  "byte list \<Rightarrow> nat \<Rightarrow> byte list list \<Rightarrow> byte list list item option" where
  "split_frames_loop data i out =
     (if i < length data
      then if length data < i + 5
           then Some (Inl (Raised (Status_new Internal ''truncated gRPC frame header'')))
           else let len = unat (of_be_bytes [data ! (i + 1), data ! (i + 2), data ! (i + 3), data ! (i + 4)] :: u32);
                    n = 5 + len
             in if length data < n
                then Some (Inl (Raised (Status_new Internal ''truncated gRPC message body'')))
                else (case slice data i n of
                    Inl e \<Rightarrow> Some (Inl e)
                  | Inr f \<Rightarrow> split_frames_loop data n (out @ [f]))
      else Some (Inr out))"

definition split_grpc_frames :: "byte list \<Rightarrow> byte list list item option" where
  "split_grpc_frames data = split_frames_loop data 0 []"

type_synonym header_map = "(string \<times> byte list) list"

fun add_headers :: "(byte list \<Rightarrow> string option) \<Rightarrow> header_map \<Rightarrow> metadata \<Rightarrow> metadata" where
  "add_headers to_str [] md = md"
| "add_headers to_str ((name, v) # hs) md =
     add_headers to_str hs
       (if starts_with name '':'' then md
        else case to_str v of
            None \<Rightarrow> md
          | Some s \<Rightarrow> (case insert_text_received md name s of Inr md' \<Rightarrow> md' | Inl _ \<Rightarrow> md))"

definition merge_metadata :: "(byte list \<Rightarrow> string option) \<Rightarrow> header_map \<Rightarrow> header_map option \<Rightarrow> metadata" where
  "merge_metadata to_str headers trailers =
     (let md = add_headers to_str headers Metadata_new
      in case trailers of Some t \<Rightarrow> add_headers to_str t md | None \<Rightarrow> md)"

definition header_text :: "(byte list \<Rightarrow> string option) \<Rightarrow> header_map \<Rightarrow> string \<Rightarrow> string option" where
  "header_text to_str hs name = (case map_of hs name of None \<Rightarrow> None | Some v \<Rightarrow> to_str v)"

definition status_from_trailers :: "(byte list \<Rightarrow> string option) \<Rightarrow> header_map option \<Rightarrow> status option" where
  "status_from_trailers to_str trailers =
     (case trailers of
        None \<Rightarrow> None
      | Some t \<Rightarrow> (case header_text to_str t ''grpc-status'' of
            None \<Rightarrow> None
          | Some s \<Rightarrow> (case parse_signed 32 s of
                None \<Rightarrow> None
              | Some c \<Rightarrow> if c = 0 then None
                  else Some (Status_new (Code_from_i32 (word_of_int c))
                    (case header_text to_str t ''grpc-message'' of None \<Rightarrow> [] | Some m \<Rightarrow> m)))))"

definition unframe_error :: "string \<Rightarrow> status" where
  "unframe_error e = Status_new Internal (''unframe: '' @ e)"

text \<open>
  The response half of \<open>unary\<close> and \<open>client_streaming\<close> (which is the same), and of
  \<open>server_streaming\<close> and \<open>bidi_streaming\<close>: the body is collected, then split into frames.
\<close>

definition unary_response ::
  "(nat \<Rightarrow> byte list \<Rightarrow> byte list anyhow) \<Rightarrow> (byte list \<Rightarrow> string option) \<Rightarrow> h2_transport
     \<Rightarrow> body_event list \<Rightarrow> header_map \<Rightarrow> header_map option \<Rightarrow> (byte list \<times> metadata) item option" where
  "unary_response ungz to_str t body headers trailers =
     (case collect_body body (h2_max t) [] of
        Inl e \<Rightarrow> Some (Inl e)
      | Inr bs \<Rightarrow> (case status_from_trailers to_str trailers of
            Some st \<Rightarrow> Some (Inl (Raised st))
          | None \<Rightarrow> map_option (\<lambda>frames. bind_result frames (\<lambda>frames.
              bind_result (case frames of [] \<Rightarrow> Inl (Raised (Status_new Internal ''empty response body'')) | f # _ \<Rightarrow> Inr f)
                (\<lambda>raw. bind_result (map_fault unframe_error (decode_frame ungz raw (h2_compression t) (h2_max t)))
                  (\<lambda>payload. Inr (payload, merge_metadata to_str headers trailers)))))
              (split_grpc_frames bs)))"

definition streaming_response ::
  "(nat \<Rightarrow> byte list \<Rightarrow> byte list anyhow) \<Rightarrow> (byte list \<Rightarrow> string option) \<Rightarrow> h2_transport
     \<Rightarrow> body_event list \<Rightarrow> header_map \<Rightarrow> header_map option \<Rightarrow> (byte list item list \<times> metadata) item option" where
  "streaming_response ungz to_str t body headers trailers =
     (case collect_body body (h2_max t) [] of
        Inl e \<Rightarrow> Some (Inl e)
      | Inr bs \<Rightarrow> map_option (\<lambda>frames. bind_result frames (\<lambda>frames.
          Inr (map (\<lambda>raw. map_fault unframe_error (decode_frame ungz raw (h2_compression t) (h2_max t))) frames,
               merge_metadata to_str headers trailers)))
          (split_grpc_frames bs))"

section \<open>The collected body\<close>

lemma collect_body_eq:
  assumes "no_body_error body" and "length (data @ concat (map event_bytes body)) \<le> max_size"
  shows "collect_body body max_size data = Inr (data @ concat (map event_bytes body))"
  using assms
proof (induction body max_size data rule: collect_body.induct)
  case (2 bs es max_size data)
  then show ?case by (simp add: Let_def)
qed simp_all

lemma collect_body_bounded: "collect_body body max_size data = Inr bs \<Longrightarrow> length data \<le> max_size \<Longrightarrow> length bs \<le> max_size"
  by (induction body max_size data rule: collect_body.induct) (auto simp: Let_def split: if_splits)

section \<open>Splitting into frames\<close>

text \<open>A well-formed frame: a header that declares the length of the rest.\<close>

definition is_frame :: "byte list \<Rightarrow> bool" where
  "is_frame f \<longleftrightarrow> 5 \<le> length f \<and> length f = 5 + frame_declared f"

lemma declared_at:
  assumes "5 \<le> length g"
  shows "unat (of_be_bytes [(f @ g @ h) ! (length f + 1), (f @ g @ h) ! (length f + 2), (f @ g @ h) ! (length f + 3),
     (f @ g @ h) ! (length f + 4)] :: u32) = frame_declared g"
  using assms by (simp add: frame_declared_def nth_append)

lemma split_frames_end: "split_frames_loop data (length data) out = Some (Inr out)"
  by (simp add: split_frames_loop.simps)

lemma split_frames_step:
  assumes "i + 5 \<le> length data"
    and "n = 5 + unat (of_be_bytes [data ! (i + 1), data ! (i + 2), data ! (i + 3), data ! (i + 4)] :: u32)"
  shows "split_frames_loop data i out =
    (if length data < n then Some (Inl (Raised (Status_new Internal ''truncated gRPC message body'')))
     else if n < i then Some (Inl (Panicked ''range out of bounds for slice''))
     else split_frames_loop data n (out @ [take (n - i) (drop i data)]))"
  using assms by (subst split_frames_loop.simps) (simp add: Let_def slice_def)

lemma split_frames_first:
  assumes "is_frame f"
  shows "split_grpc_frames (f @ g) = split_frames_loop (f @ g) (length f) [f]"
  using assms declared_at [of f "[]" g]
  by (simp add: split_grpc_frames_def split_frames_step [where i = 0 and n = "length f"] is_frame_def)

lemma split_frames_second:
  assumes "is_frame f" and "is_frame g"
  shows "split_frames_loop (f @ g @ h) (length f) out =
    (if length g < length f then Some (Inl (Panicked ''range out of bounds for slice''))
     else split_frames_loop (f @ g @ h) (length g) (out @ [take (length g - length f) (g @ h)]))"
proof -
  have "5 \<le> length g" and n: "length g = 5 + frame_declared g"
    using assms(2) by (simp_all add: is_frame_def)
  then show ?thesis
    using split_frames_step [of "length f" "f @ g @ h" "length g" out] declared_at [of g f h] by simp
qed

text \<open>The loop does not advance when the frame at \<open>i\<close> declares \<open>i\<close> bytes.\<close>

lemma split_frames_stuck:
  assumes "i + 5 \<le> length data"
    and "5 + unat (of_be_bytes [data ! (i + 1), data ! (i + 2), data ! (i + 3), data ! (i + 4)] :: u32) = i"
  shows "split_frames_loop data i out = None"
proof -
  have "b = data \<longrightarrow> j = i \<longrightarrow> False" if "split_frames_loop b j out = Some x" for b j out x
    using that
  proof (rule split_frames_loop.raw_induct [rotated], goal_cases)
    case (1 loop b j out x)
    show ?case
    proof (intro impI)
      assume e: "b = data" "j = i"
      then have "\<exists>f. loop data i (out @ [f]) = Some x"
        using 1(2) assms by (auto simp: Let_def slice_def split: if_splits)
      then show False
        using 1(1) by blast
    qed
  qed
  then show ?thesis by (cases "split_frames_loop data i out") auto
qed

text \<open>Frames that were pushed stay in front of the result.\<close>

lemma split_frames_keeps: "split_frames_loop data i out = Some (Inr fs) \<Longrightarrow> \<exists>rest. fs = out @ rest"
proof -
  have "y = Inr fs \<longrightarrow> (\<exists>rest. fs = out @ rest)" if "split_frames_loop data i out = Some y" for y
    using that
  proof (rule split_frames_loop.raw_induct [rotated], goal_cases)
    case (1 loop data i out y)
    show ?case
    proof
      assume "y = Inr fs"
      with 1(2) have "fs = out \<or> (\<exists>n f. loop data n (out @ [f]) = Some (Inr fs))"
        by (auto simp: Let_def split: if_split_asm sum.split_asm)
      then consider "fs = out" | n f where "loop data n (out @ [f]) = Some (Inr fs)" by blast
      then show "\<exists>rest. fs = out @ rest"
      proof cases
        case 2
        then have "\<exists>rest. fs = (out @ [f]) @ rest"
          by (rule 1(1) [THEN mp, OF _ refl])
        then show ?thesis by auto
      qed simp
    qed
  qed
  then show "split_frames_loop data i out = Some (Inr fs) \<Longrightarrow> \<exists>rest. fs = out @ rest" by blast
qed

section \<open>Properties\<close>

text \<open>
  C19: A response with more than one message is never split into its messages. For one well-formed frame the
  splitter returns that frame; when a second frame of the same length follows, the loop never ends
  (it pushes empty slices for ever); when a shorter one follows, it panics on the slice
  range; when a longer one follows, what it returns, if it returns at all, has as its second item only the first bytes
  of that frame. The end of a frame is computed as \<open>5 + len\<close> instead of \<open>i + 5 + len\<close>.
\<close>

theorem split_grpc_frames_broken:
  assumes "is_frame f" and "is_frame g"
  shows "split_grpc_frames f = Some (Inr [f])
    \<and> (length g = length f \<longrightarrow> split_grpc_frames (f @ g @ h) = None)
    \<and> (length g < length f \<longrightarrow> (\<exists>msg. split_grpc_frames (f @ g @ h) = Some (Inl (Panicked msg))))
    \<and> (length f < length g \<and> split_grpc_frames (f @ g @ h) = Some (Inr fs) \<longrightarrow>
        (\<exists>rest. fs = f # take (length g - length f) g # rest))
    \<and> split_grpc_frames (f @ g @ h) \<noteq> Some (Inr (f # g # gs))"
proof -
  have g: "5 \<le> length f" "5 \<le> length g" "length g = 5 + frame_declared g"
    using assms by (simp_all add: is_frame_def)
  note first = split_frames_first [OF assms(1)]
  have one: "split_grpc_frames f = Some (Inr [f])"
    using first [of "[]"] by (simp add: split_frames_end)
  have same: "split_grpc_frames (f @ g @ h) = None" if "length g = length f"
    unfolding first
    by (rule split_frames_stuck) (use g that declared_at [OF g(2), of f h] in simp_all)
  have shorter: "\<exists>msg. split_grpc_frames (f @ g @ h) = Some (Inl (Panicked msg))" if "length g < length f"
    unfolding first using split_frames_second [OF assms, of h "[f]"] that by simp
  have longer: "\<exists>rest. fs = f # take (length g - length f) g # rest"
    if "length f < length g" "split_grpc_frames (f @ g @ h) = Some (Inr fs)" for fs
    using that split_frames_second [OF assms, of h "[f]"] by (auto simp: first dest!: split_frames_keeps)
  have never: "split_grpc_frames (f @ g @ h) \<noteq> Some (Inr (f # g # gs))"
  proof (cases "length f" "length g" rule: linorder_cases)
    case less
    show ?thesis
    proof
      assume "split_grpc_frames (f @ g @ h) = Some (Inr (f # g # gs))"
      from longer [OF less this] have "length g = length (take (length g - length f) g)" by force
      then show False using less g by simp
    qed
  next
    case equal
    then show ?thesis using same by simp
  next
    case greater
    then show ?thesis using shorter by auto
  qed
  show ?thesis
    using one same shorter longer [of fs] never by blast
qed

lemma is_frame_example: "is_frame [0, 0, 0, 0, 1, b]" "is_frame [0, 0, 0, 0, 0]"
  by (simp_all add: is_frame_def frame_declared_def of_be_bytes_def of_le_bytes_def)

theorem split_grpc_frames_broken_witness:
  "split_grpc_frames [0, 0, 0, 0, 1, 7, 0, 0, 0, 0, 1, 8] = None
   \<and> split_grpc_frames [0, 0, 0, 0, 0, 0, 0, 0, 0, 1, 8] \<noteq> Some (Inr [[0, 0, 0, 0, 0], [0, 0, 0, 0, 1, 8]])"
  using split_grpc_frames_broken [OF is_frame_example(1) [of 7] is_frame_example(1) [of 8], of "[]"]
    split_grpc_frames_broken [OF is_frame_example(2) is_frame_example(1) [of 8], of "[]" _ "[]"] by simp

lemma encode_frame_is_frame:
  assumes "encode_frame gz m c max_size = Inr f" and "frame_payload gz c m p" and "length m \<le> max_size"
  shows "is_frame f"
proof -
  have "f = (if c = Identity then 0 else 1) # be_bytes 4 (word_of_nat (length p) :: u32) @ p"
    using assms(1) by (simp add: encode_frame_eq [OF assms(2,3)])
  moreover have "unat (word_of_nat (length p) :: u32) = length p"
    using assms(2) by (simp add: frame_payload_def unat_frame_length)
  ultimately show ?thesis
    by (simp add: is_frame_def)
qed

text \<open>
  C20: A unary call delivers its response. Take any body that is received without error and is within the maximum
  size. When the trailers carry a \<open>grpc-status\<close> that is a number other than 0, the client gets that status with the
  \<open>grpc-message\<close> of the trailers, whatever the bytes of the body. When the call has no trailers, or trailers without a
  \<open>grpc-status\<close> that can be read, or with 0, and the body holds, in any chunks, the one frame of a message the server
  encoded, the client gets the message and the metadata merged from headers and trailers.
\<close>

theorem unary_response_correct:
  assumes "no_body_error body" and "length (concat (map event_bytes body)) \<le> h2_max t"
  shows "(trailers = Some hs \<and> header_text to_str hs ''grpc-status'' = Some s \<and> parse_signed 32 s = Some c \<and> c \<noteq> 0 \<longrightarrow>
      unary_response ungz to_str t body headers trailers = Some (Inl (Raised (Status_new (Code_from_i32 (word_of_int c))
        (case header_text to_str hs ''grpc-message'' of None \<Rightarrow> [] | Some msg \<Rightarrow> msg)))))
    \<and> ((trailers = None \<or> trailers = Some hs \<and> (header_text to_str hs ''grpc-status'' = None
            \<or> header_text to_str hs ''grpc-status'' = Some s \<and> (parse_signed 32 s = None \<or> parse_signed 32 s = Some 0)))
        \<and> sendable gz ungz (h2_compression t) (h2_max t) m \<and> h2_max t < 2 ^ 64
        \<and> encode_frame gz m (h2_compression t) (h2_max t) = Inr (concat (map event_bytes body)) \<longrightarrow>
      unary_response ungz to_str t body headers trailers = Some (Inr (m, merge_metadata to_str headers trailers)))"
proof -
  let ?bs = "concat (map event_bytes body)"
  have c: "collect_body body (h2_max t) [] = Inr ?bs"
    using collect_body_eq [OF assms(1), of "[]" "h2_max t"] assms(2) by simp
  have ok: "split_grpc_frames ?bs = Some (Inr [?bs])" "decode_frame ungz ?bs (h2_compression t) (h2_max t) = Inr m"
    if s: "sendable gz ungz (h2_compression t) (h2_max t) m" and n: "h2_max t < 2 ^ 64"
      and e: "encode_frame gz m (h2_compression t) (h2_max t) = Inr ?bs"
  proof -
    obtain p where p: "frame_payload gz (h2_compression t) m p" "length p \<le> h2_max t"
        "\<And>n. h2_compression t = Gzip \<Longrightarrow> ungz n p = Inr (take n m)" and m: "length m \<le> h2_max t" "length m < 2 ^ 63"
      using s by (auto simp: sendable_def)
    have "is_frame ?bs"
      using encode_frame_is_frame [OF e p(1) m(1)] .
    from split_frames_first [OF this, of "[]"] show "split_grpc_frames ?bs = Some (Inr [?bs])"
      by (simp add: split_frames_end)
    show "decode_frame ungz ?bs (h2_compression t) (h2_max t) = Inr m"
      using decode_encode_frame(1) [where ungz = ungz, OF p(1) p(3) m(1) p(2) n m(2) e] .
  qed
  then show ?thesis
    by (auto simp: unary_response_def c status_from_trailers_def)
qed

theorem unary_response_correct_witness:
  "unary_response (\<lambda>_ _. bail []) (\<lambda>v. Some (str_of_bytes v)) (with_max_message_size (H2Transport_new ''h:1'') 9)
     [Chunk [0, 0, 0, 0, 1], Chunk [7]] [] (Some [(''grpc-status'', as_bytes ''0'')]) =
   Some (Inr ([7], merge_metadata (\<lambda>v. Some (str_of_bytes v)) [] (Some [(''grpc-status'', as_bytes ''0'')])))
   \<and> unary_response (\<lambda>_ _. bail []) (\<lambda>v. Some (str_of_bytes v)) (with_max_message_size (H2Transport_new ''h:1'') 9)
     [Chunk [1, 2, 3]] [] (Some [(''grpc-status'', as_bytes ''5''), (''grpc-message'', as_bytes ''gone'')]) =
   Some (Inl (Raised (Status_new NotFound ''gone'')))"
proof -
  have be: "be_bytes 4 (1 :: u32) = [0, 0, 0, 1]"
    by code_simp
  have p: "parse_signed 32 ''0'' = Some 0" "parse_signed 32 ''5'' = Some 5"
    by (simp_all add: parse_signed_def digit_of_def)
  have c: "Code_from_i32 5 = NotFound" by (simp add: Code_from_i32_def)
  let ?hs = "[(''grpc-status'', as_bytes ''5''), (''grpc-message'', as_bytes ''gone'')]"
  have "unary_response (\<lambda>_ _. bail []) (\<lambda>v. Some (str_of_bytes v)) (with_max_message_size (H2Transport_new ''h:1'') 9)
     [Chunk [0, 0, 0, 0, 1], Chunk [7]] [] (Some [(''grpc-status'', as_bytes ''0'')]) =
   Some (Inr ([7], merge_metadata (\<lambda>v. Some (str_of_bytes v)) [] (Some [(''grpc-status'', as_bytes ''0'')])))"
    using unary_response_correct [of "[Chunk [0, 0, 0, 0, 1], Chunk [7]]" "with_max_message_size (H2Transport_new ''h:1'') 9"
        "Some [(''grpc-status'', as_bytes ''0'')]" "[(''grpc-status'', as_bytes ''0'')]" "\<lambda>v. Some (str_of_bytes v)" "''0''" 0
        "\<lambda>_ _. bail []" "[]" "\<lambda>bs. Inr bs" "[7]"]
    by (simp add: sendable_def frame_payload_def with_max_message_size_def H2Transport_new_def encode_frame_def be
        COMPRESSION_FLAG_UNCOMPRESSED_def header_text_def p)
  moreover have "unary_response (\<lambda>_ _. bail []) (\<lambda>v. Some (str_of_bytes v)) (with_max_message_size (H2Transport_new ''h:1'') 9)
     [Chunk [1, 2, 3]] [] (Some ?hs) = Some (Inl (Raised (Status_new NotFound ''gone'')))"
    using unary_response_correct [of "[Chunk [1, 2, 3]]" "with_max_message_size (H2Transport_new ''h:1'') 9"
        "Some ?hs" ?hs "\<lambda>v. Some (str_of_bytes v)" "''5''" 5 "\<lambda>_ _. bail []" "[]"]
    by (simp add: with_max_message_size_def H2Transport_new_def header_text_def p c)
  ultimately show ?thesis by blast
qed

text \<open>
  Binary metadata of a response is kept as the base64 text that was on the wire; the server side
  (\<open>from_headers\<close>) decodes it.
\<close>

lemma merge_metadata_keeps_base64:
  assumes "validate_key k True = Inr ()" and "ends_with k ''-bin''" and "\<not> starts_with k '':''" and "to_str v = Some s"
  shows "get_binary (merge_metadata to_str [(k, v)] None) k = Some (as_bytes s)"
  using assms
  by (simp add: merge_metadata_def insert_text_received_def insert_binary_inner_def get_binary_def Metadata_new_def
      om_insert_def om_lookup_def)

end
