(* ===== verification/Method.thy ===== *)
theory Method
  imports Descriptor_Types
begin

text \<open>
  Services and methods (\<open>tpt-proto-grpc/src/method.rs\<close>) as they are derived from descriptors, and
  the request path of a call (\<open>build_path\<close> and \<open>parse_path\<close> of \<open>tpt-proto-grpc/src/lib.rs\<close>).
\<close>

section \<open>Definitions\<close>

datatype method_kind = Unary | ServerStreaming | ClientStreaming | BidiStreaming

definition MethodKind_from_descriptor :: "MethodDescriptorProto \<Rightarrow> method_kind" where
  "MethodKind_from_descriptor m =
     (let client = case mth_client_streaming m of Some b \<Rightarrow> b | None \<Rightarrow> False;
          server = case mth_server_streaming m of Some b \<Rightarrow> b | None \<Rightarrow> False
      in case (client, server) of
           (False, False) \<Rightarrow> Unary
         | (False, True) \<Rightarrow> ServerStreaming
         | (True, False) \<Rightarrow> ClientStreaming
         | (True, True) \<Rightarrow> BidiStreaming)"

definition kind_client_streaming :: "method_kind \<Rightarrow> bool" where
  "kind_client_streaming k \<longleftrightarrow> k = ClientStreaming \<or> k = BidiStreaming"

definition kind_server_streaming :: "method_kind \<Rightarrow> bool" where
  "kind_server_streaming k \<longleftrightarrow> k = ServerStreaming \<or> k = BidiStreaming"

record rpc_method =
  rm_name :: string
  rm_kind :: method_kind
  rm_input_type :: string
  rm_output_type :: string
  rm_full_path :: string

definition method_client_streaming :: "rpc_method \<Rightarrow> bool" where
  "method_client_streaming m = kind_client_streaming (rm_kind m)"

definition method_server_streaming :: "rpc_method \<Rightarrow> bool" where
  "method_server_streaming m = kind_server_streaming (rm_kind m)"

record rpc_service =
  rs_name :: string
  rs_full_name :: string
  rs_methods :: "rpc_method list"

definition service_method :: "rpc_service \<Rightarrow> string \<Rightarrow> rpc_method option" where
  "service_method s n = find (\<lambda>m. rm_name m = n) (rs_methods s)"

definition method_by_path :: "rpc_service \<Rightarrow> string \<Rightarrow> rpc_method option" where
  "method_by_path s p = find (\<lambda>m. rm_full_path m = p) (rs_methods s)"

definition or_default :: "string option \<Rightarrow> string" where
  "or_default x = (case x of Some s \<Rightarrow> s | None \<Rightarrow> [])"

definition build_method :: "string \<Rightarrow> MethodDescriptorProto \<Rightarrow> rpc_method" where
  "build_method full_name m =
     (let mname = or_default (mth_name m)
      in \<lparr>rm_name = mname, rm_kind = MethodKind_from_descriptor m,
          rm_input_type = or_default (mth_input_type m), rm_output_type = or_default (mth_output_type m),
          rm_full_path = ''/'' @ full_name @ ''/'' @ mname\<rparr>)"

definition build_service :: "FileDescriptorProto \<Rightarrow> ServiceDescriptorProto \<Rightarrow> rpc_service" where
  "build_service f s =
     (let pkg = or_default (file_package f);
          n = or_default (svc_name s);
          full_name = if pkg = [] then n else pkg @ ''.'' @ n
      in \<lparr>rs_name = n, rs_full_name = full_name, rs_methods = map (build_method full_name) (svc_method s)\<rparr>)"

definition build_path :: "string \<Rightarrow> string \<Rightarrow> string \<Rightarrow> string" where
  "build_path package service meth =
     (if package = [] then ''/'' @ service @ ''/'' @ meth
      else ''/'' @ package @ ''.'' @ service @ ''/'' @ meth)"

definition parse_path :: "string \<Rightarrow> (string \<times> string \<times> string) option" where
  "parse_path path =
     (case strip_prefix ''/'' path of
        None \<Rightarrow> None
      | Some p \<Rightarrow> (case rsplit_once (CHR ''/'') p of
            None \<Rightarrow> None
          | Some (svc, meth) \<Rightarrow> (case rsplit_once (CHR ''.'') svc of
                Some (pkg, sname) \<Rightarrow> Some (pkg, sname, meth)
              | None \<Rightarrow> Some ([], svc, meth))))"

section \<open>Paths\<close>

text \<open>The full name of a service, as the server puts it together again from a parsed path.\<close>

definition qualified_name :: "string \<Rightarrow> string \<Rightarrow> string" where
  "qualified_name package service = (if package = [] then service else package @ ''.'' @ service)"

lemma build_path_qualified: "build_path p s m = ''/'' @ qualified_name p s @ ''/'' @ m"
  by (simp add: build_path_def qualified_name_def)

lemma rsplit_once_None: "rsplit_once c s = None \<longleftrightarrow> c \<notin> set s"
  by (simp add: rsplit_once_def split_once_None)

lemma strip_prefix_1 [simp]: "strip_prefix [c] (c # s) = Some s"
  using strip_prefix_append [of "[c]" s] by simp

lemma parse_build_path:
  assumes "CHR ''.'' \<notin> set s" and "CHR ''/'' \<notin> set m"
  shows "parse_path (build_path p s m) = Some (p, s, m)"
proof -
  have "rsplit_once (CHR ''/'') (qualified_name p s @ CHR ''/'' # m) = Some (qualified_name p s, m)"
    by (rule rsplit_once_append [OF assms(2)])
  moreover have "rsplit_once (CHR ''.'') (qualified_name p s) = (if p = [] then None else Some (p, s))"
    using rsplit_once_append [OF assms(1), of p] assms(1) by (simp add: qualified_name_def rsplit_once_None)
  ultimately show ?thesis
    by (simp add: parse_path_def build_path_qualified) (simp add: qualified_name_def)
qed

lemma find_map_distinct:
  assumes "distinct (map f xs)" and "x \<in> set xs"
  shows "find (\<lambda>y. f y = f x) xs = Some x"
  using assms by (induction xs) auto

lemma build_service_paths:
  "rm_full_path m = ''/'' @ rs_full_name (build_service f s) @ ''/'' @ rm_name m"
  if "m \<in> set (rs_methods (build_service f s))"
  using that by (auto simp: build_service_def build_method_def Let_def)

lemma build_service_full_name:
  "rs_full_name (build_service f s) = qualified_name (or_default (file_package f)) (or_default (svc_name s))"
  by (simp add: build_service_def Let_def qualified_name_def)

text \<open>
  Method paths route: a method of a service built from a descriptor is found again by its name
  and by its request path when the method names are distinct, its path parses back into the
  package, the service and the method name (names without the separators), and its kind tells
  exactly which sides of the descriptor stream.
\<close>

lemma method_paths_route:
  assumes "svc = build_service f s" and "distinct (map rm_name (rs_methods svc))" and "m \<in> set (rs_methods svc)"
    and "CHR ''.'' \<notin> set (rs_name svc)" and "CHR ''/'' \<notin> set (rm_name m)"
  shows "service_method svc (rm_name m) = Some m \<and> method_by_path svc (rm_full_path m) = Some m
    \<and> parse_path (rm_full_path m) = Some (or_default (file_package f), rs_name svc, rm_name m)
    \<and> (\<exists>d \<in> set (svc_method s). m = build_method (rs_full_name svc) d
        \<and> (method_client_streaming m \<longleftrightarrow> mth_client_streaming d = Some True)
        \<and> (method_server_streaming m \<longleftrightarrow> mth_server_streaming d = Some True))"
proof (intro conjI)
  show "service_method svc (rm_name m) = Some m"
    using find_map_distinct [OF assms(2,3)] by (simp add: service_method_def)
  have paths: "rm_full_path m' = rm_full_path m \<longleftrightarrow> rm_name m' = rm_name m" if "m' \<in> set (rs_methods svc)" for m'
    using that assms(1,3) build_service_paths by simp
  have "find (\<lambda>m'. rm_full_path m' = rm_full_path m) (rs_methods svc) = find (\<lambda>m'. rm_name m' = rm_name m) (rs_methods svc)"
    by (rule find_cong) (simp_all add: paths)
  then show "method_by_path svc (rm_full_path m) = Some m"
    using find_map_distinct [OF assms(2,3)] by (simp add: method_by_path_def)
  have "rs_name svc = or_default (svc_name s)"
    by (simp add: assms(1) build_service_def Let_def)
  then show "parse_path (rm_full_path m) = Some (or_default (file_package f), rs_name svc, rm_name m)"
    using parse_build_path [OF _ assms(5), of "rs_name svc" "or_default (file_package f)"] assms(1,3,4)
    by (simp add: build_service_paths build_service_full_name build_path_qualified)
  obtain d where d: "d \<in> set (svc_method s)" "m = build_method (rs_full_name svc) d"
    using assms(1,3) by (auto simp: build_service_def Let_def)
  then show "\<exists>d \<in> set (svc_method s). m = build_method (rs_full_name svc) d
        \<and> (method_client_streaming m \<longleftrightarrow> mth_client_streaming d = Some True)
        \<and> (method_server_streaming m \<longleftrightarrow> mth_server_streaming d = Some True)"
    by (intro bexI [of _ d])
       (auto simp: build_method_def Let_def MethodKind_from_descriptor_def method_client_streaming_def
         method_server_streaming_def kind_client_streaming_def kind_server_streaming_def
         split: option.splits bool.splits)
qed

definition sample_service :: rpc_service where
  "sample_service = build_service (FileDescriptorProto_default\<lparr>file_package := Some ''ex''\<rparr>)
     (ServiceDescriptorProto_default\<lparr>svc_name := Some ''S'',
        svc_method := [MethodDescriptorProto_default\<lparr>mth_name := Some ''Get'', mth_server_streaming := Some True\<rparr>]\<rparr>)"

lemma sample_service_eq:
  "sample_service = \<lparr>rs_name = ''S'', rs_full_name = ''ex.S'', rs_methods =
     [\<lparr>rm_name = ''Get'', rm_kind = ServerStreaming, rm_input_type = [], rm_output_type = [], rm_full_path = ''/ex.S/Get''\<rparr>]\<rparr>"
  by (simp add: sample_service_def build_service_def build_method_def or_default_def Let_def FileDescriptorProto_default_def
      ServiceDescriptorProto_default_def MethodDescriptorProto_default_def MethodKind_from_descriptor_def)

lemma method_paths_route_witness:
  "parse_path ''/ex.S/Get'' = Some (''ex'', ''S'', ''Get'')"
  using method_paths_route [OF sample_service_def, of "hd (rs_methods sample_service)"]
  by (simp add: sample_service_eq or_default_def)

end
