(* ===== verification/Http_Env.thy ===== *)
theory Http_Env
  imports Metadata
begin

text \<open>
  The third-party crates that the HTTP/2 client and server use: base64, gzip, the checks of the
  \<open>http\<close> crate on header names and values, and its conversion of a header value to text.
\<close>

record http_env =
  env_b64e :: "byte list \<Rightarrow> string"
  env_b64d :: "string \<Rightarrow> byte list anyhow"
  env_gz :: "byte list \<Rightarrow> byte list anyhow"
  env_ungz :: "nat \<Rightarrow> byte list \<Rightarrow> byte list anyhow"
  env_name_ok :: "string \<Rightarrow> bool"
  env_value_ok :: "string \<Rightarrow> bool"
  env_to_str :: "byte list \<Rightarrow> string option"

type_synonym header_list = "(string \<times> byte list) list"

text \<open>The pairs whose value is text, as \<open>headers_to_pairs\<close> of the client collects them.\<close>

fun header_pairs :: "http_env \<Rightarrow> header_list \<Rightarrow> (string \<times> string) list" where
  "header_pairs env [] = []"
| "header_pairs env ((k, v) # hs) =
     (case env_to_str env v of Some s \<Rightarrow> (k, s) # header_pairs env hs | None \<Rightarrow> header_pairs env hs)"

text \<open>A pair as it is on the wire.\<close>

definition on_wire :: "string \<times> string \<Rightarrow> string \<times> byte list" where
  "on_wire p = (fst p, as_bytes (snd p))"

lemma header_pairs_append: "header_pairs env (hs @ hs') = header_pairs env hs @ header_pairs env hs'"
  by (induction env hs rule: header_pairs.induct) (simp_all split: option.split)

lemma header_pairs_on_wire:
  "(\<And>p. p \<in> set ps \<Longrightarrow> env_to_str env (as_bytes (snd p)) = Some (snd p)) \<Longrightarrow> header_pairs env (map on_wire ps) = ps"
  by (induction ps) (auto simp: on_wire_def)

lemma header_pairs_filter:
  "header_pairs env (filter (\<lambda>(k, v). P k) hs) = filter (\<lambda>(k, v). P k) (header_pairs env hs)"
  by (induction env hs rule: header_pairs.induct) (auto split: option.split)

text \<open>Stand-ins for the witnesses: everything is text, and nothing is transformed.\<close>

definition plain_env :: http_env where
  "plain_env = \<lparr>env_b64e = str_of_bytes, env_b64d = (\<lambda>s. Inr (as_bytes s)), env_gz = Inr,
     env_ungz = (\<lambda>n bs. Inr (take n bs)), env_name_ok = (\<lambda>_. True), env_value_ok = (\<lambda>_. True),
     env_to_str = (\<lambda>bs. Some (str_of_bytes bs))\<rparr>"

lemma plain_env_to_str [simp]: "env_to_str plain_env (as_bytes s) = Some s"
  by (simp add: plain_env_def)

end
