(* ===== verification/Client.thy ===== *)
theory Client
  imports Framing Timeout Http_Env
begin

text \<open>
  The HTTP/2 client (\<open>tpt-proto-grpc/src/client.rs\<close>): endpoints, the request headers, the reading
  of a response body up to its trailers, and the retries of a unary call. Sockets and the \<open>h2\<close>
  connection are arguments: connecting to an endpoint, and the exchange of a request for the
  events of its response.
\<close>

section \<open>Endpoints\<close>

record retry_policy =
  rp_max_retries :: nat
  rp_backoff :: std_duration
  rp_retryable :: "code list"

definition RetryPolicy_default :: retry_policy where
  "RetryPolicy_default = \<lparr>rp_max_retries = 0, rp_backoff = from_millis 50, rp_retryable = [Unavailable, ResourceExhausted]\<rparr>"

record endpoint =
  ep_host :: string
  ep_port :: nat
  ep_compression :: compression
  ep_max_message_size :: nat
  ep_initial_stream_window :: u32
  ep_initial_connection_window :: u32
  ep_max_concurrent_streams :: u32
  ep_connect_timeout :: std_duration
  ep_retry_policy :: retry_policy

definition Endpoint_default :: endpoint where
  "Endpoint_default =
     \<lparr>ep_host = ''localhost'', ep_port = 50051, ep_compression = Identity, ep_max_message_size = 4 * 1024 * 1024,
      ep_initial_stream_window = 256 * 1024, ep_initial_connection_window = 1024 * 1024,
      ep_max_concurrent_streams = 100, ep_connect_timeout = from_secs 10, ep_retry_policy = RetryPolicy_default\<rparr>"

definition Endpoint_from_shared :: "string \<Rightarrow> endpoint item" where
  "Endpoint_from_shared addr =
     (case rsplit_once (CHR '':'') addr of
        None \<Rightarrow> Inl (Raised (Status_new InvalidArgument ''endpoint must be host:port''))
      | Some (host, port) \<Rightarrow> (case parse_unsigned 16 port of
            None \<Rightarrow> Inl (Raised (Status_new InvalidArgument ''invalid port''))
          | Some p \<Rightarrow> Inr (Endpoint_default\<lparr>ep_host := host, ep_port := p\<rparr>)))"

definition ep_with_compression :: "endpoint \<Rightarrow> compression \<Rightarrow> endpoint" where
  "ep_with_compression e c = e\<lparr>ep_compression := c\<rparr>"

definition ep_with_max_message_size :: "endpoint \<Rightarrow> nat \<Rightarrow> endpoint" where
  "ep_with_max_message_size e n = e\<lparr>ep_max_message_size := n\<rparr>"

definition ep_with_retry_policy :: "endpoint \<Rightarrow> retry_policy \<Rightarrow> endpoint" where
  "ep_with_retry_policy e p = e\<lparr>ep_retry_policy := p\<rparr>"

definition authority :: "endpoint \<Rightarrow> string" where
  "authority e = ep_host e @ '':'' @ show_nat (ep_port e)"

section \<open>Connections\<close>

text \<open>
  The loop of \<open>connection\<close> over the endpoints of the load balancer, with \<open>connect\<close> the attempt to
  connect to one: the first connection made is kept.
\<close>

fun connect_first :: "(endpoint \<Rightarrow> 'c item) \<Rightarrow> endpoint list \<Rightarrow> status \<Rightarrow> 'c item" where
  "connect_first connect [] last_err = Inl (Raised last_err)"
| "connect_first connect (e # es) last_err =
     match_result (connect e) (\<lambda>err. connect_first connect es err) Inr"

definition connection ::
  "(endpoint \<Rightarrow> 'c item) \<Rightarrow> endpoint list option \<Rightarrow> endpoint \<Rightarrow> 'c option \<Rightarrow> ('c \<times> 'c option) item" where
  "connection connect balanced e cached =
     (case cached of
        Some c \<Rightarrow> Inr (c, cached)
      | None \<Rightarrow> bind_result
          (connect_first connect (case balanced of Some es \<Rightarrow> es | None \<Rightarrow> [e]) (Status_new Unavailable ''no endpoints''))
          (\<lambda>c. Inr (c, Some c)))"

section \<open>Requests\<close>

definition client_headers :: "http_env \<Rightarrow> endpoint \<Rightarrow> metadata \<Rightarrow> (string \<times> string) list" where
  "client_headers env e md =
     [(''content-type'', ''application/grpc''), (''te'', ''trailers'')]
       @ (if ep_compression e \<noteq> Identity then [(''grpc-encoding'', as_header (ep_compression e))] else [])
       @ to_headers (env_b64e env) md"

text \<open>\<open>build\<close> is the request builder's verdict on the URI and the headers.\<close>

definition send_request_headers ::
  "http_env \<Rightarrow> (string \<Rightarrow> (string \<times> string) list \<Rightarrow> 'r anyhow) \<Rightarrow> endpoint \<Rightarrow> string \<Rightarrow> metadata \<Rightarrow> 'r item" where
  "send_request_headers env build e path md =
     map_fault (\<lambda>err. Status_new Internal (''build request: '' @ err))
       (build (''http://'' @ authority e @ path) (client_headers env e md))"

section \<open>Response bodies\<close>

text \<open>What polling for the trailers yields: not yet, the trailers, or none (or an error).\<close>

datatype trailer_poll = TrailersPending | Trailers header_list | NoTrailers

record response_body =
  rb_body :: "body_event list"
  rb_trailers :: "trailer_poll list"
  rb_buf :: "byte list"
  rb_encoding :: compression
  rb_max :: nat
  rb_eof :: bool
  rb_trailers_checked :: bool
  rb_terminal_status :: "status option"

definition GrpcResponseBody_new :: "body_event list \<Rightarrow> trailer_poll list \<Rightarrow> compression \<Rightarrow> nat \<Rightarrow> response_body" where
  "GrpcResponseBody_new body trailers encoding max_size =
     \<lparr>rb_body = body, rb_trailers = trailers, rb_buf = [], rb_encoding = encoding, rb_max = max_size, rb_eof = False,
      rb_trailers_checked = False, rb_terminal_status = None\<rparr>"

definition trailers_status :: "http_env \<Rightarrow> header_list \<Rightarrow> status" where
  "trailers_status env hs =
     Status_from_trailers
       (case metadata_from_trailers (env_b64d env) (header_pairs env hs) (2 ^ 64 - 1) of
          Inr md \<Rightarrow> md | Inl _ \<Rightarrow> Metadata_new)"

definition resp_take_frame :: "http_env \<Rightarrow> response_body \<Rightarrow> (byte list item \<times> response_body) option" where
  "resp_take_frame env s =
     (if 5 \<le> length (rb_buf s)
      then let declared = frame_declared (rb_buf s)
        in if rb_max s < declared
           then Some (Inl (Raised (Status_new ResourceExhausted
             (''message length '' @ show_nat declared @ '' exceeds maximum '' @ show_nat (rb_max s)))), s)
           else let n = 5 + declared
             in if n \<le> length (rb_buf s)
                then Some (map_fault (\<lambda>e. Status_new Internal (''decode frame: '' @ e))
                       (decode_frame (env_ungz env) (take n (rb_buf s)) (rb_encoding s) (rb_max s)),
                     s\<lparr>rb_buf := drop n (rb_buf s)\<rparr>)
                else None
      else None)"

definition resp_poll_trailers :: "http_env \<Rightarrow> response_body \<Rightarrow> byte list item option poll \<times> response_body" where
  "resp_poll_trailers env s =
     (if \<not> rb_trailers_checked s
      then let s = s\<lparr>rb_trailers_checked := True\<rparr>
        in case rb_trailers s of
             Trailers hs # ps \<Rightarrow>
               (let st = trailers_status env hs; s = s\<lparr>rb_trailers := ps\<rparr>
                in if \<not> Status_is_ok st then (Ready (Some (Inl (Raised st))), s\<lparr>rb_terminal_status := Some st\<rparr>)
                   else (Ready None, s))
           | NoTrailers # ps \<Rightarrow> (Ready None, s\<lparr>rb_trailers := ps\<rparr>)
           | TrailersPending # ps \<Rightarrow> (Pending, s\<lparr>rb_trailers := ps\<rparr>)
           | [] \<Rightarrow> (Ready None, s)
      else (Ready None, s))"

function (sequential) resp_poll_next :: "http_env \<Rightarrow> response_body \<Rightarrow> byte list item option poll \<times> response_body" where
  "resp_poll_next env s =
     (case resp_take_frame env s of
        Some (x, s') \<Rightarrow> (Ready (Some x), s')
      | None \<Rightarrow>
          if rb_eof s
          then if rb_buf s \<noteq> []
               then (Ready (Some (Inl (Raised (Status_new Internal ''connection closed with a partial gRPC frame'')))), s)
               else resp_poll_trailers env s
          else (case rb_body s of
              Chunk bs # es \<Rightarrow> resp_poll_next env (s\<lparr>rb_body := es, rb_buf := rb_buf s @ bs\<rparr>)
            | BodyError e # es \<Rightarrow>
                (Ready (Some (Inl (Raised (Status_new Internal (''h2 body error: '' @ e))))), s\<lparr>rb_body := es\<rparr>)
            | [] \<Rightarrow> resp_poll_next env (s\<lparr>rb_eof := True\<rparr>)
            | NotReady # es \<Rightarrow> (Pending, s\<lparr>rb_body := es\<rparr>)))"
  by pat_completeness auto
termination resp_poll_next
  by (relation "measure (\<lambda>(env, s). 2 * length (rb_body s) + (if rb_eof s then 0 else 1))") auto

declare resp_poll_next.simps [simp del]

section \<open>The body as a stream of messages\<close>

text \<open>Up to the trailers, a response body is the stream of the frames of its bytes.\<close>

definition as_deframe :: "response_body \<Rightarrow> deframe" where
  "as_deframe s = \<lparr>df_body = rb_body s, df_buf = rb_buf s, df_encoding = rb_encoding s, df_max = rb_max s, df_eof = rb_eof s\<rparr>"

definition with_deframe :: "response_body \<Rightarrow> deframe \<Rightarrow> response_body" where
  "with_deframe s d = s\<lparr>rb_body := df_body d, rb_buf := df_buf d, rb_eof := df_eof d\<rparr>"

lemma as_deframe_update [simp]:
  "as_deframe (s\<lparr>rb_body := b, rb_buf := c\<rparr>) = (as_deframe s)\<lparr>df_body := b, df_buf := c\<rparr>"
  "as_deframe (s\<lparr>rb_eof := e\<rparr>) = (as_deframe s)\<lparr>df_eof := e\<rparr>"
  "as_deframe (s\<lparr>rb_buf := c\<rparr>) = (as_deframe s)\<lparr>df_buf := c\<rparr>"
  "as_deframe (s\<lparr>rb_body := b\<rparr>) = (as_deframe s)\<lparr>df_body := b\<rparr>"
  "df_buf (as_deframe s) = rb_buf s" "df_body (as_deframe s) = rb_body s" "df_eof (as_deframe s) = rb_eof s"
  "df_max (as_deframe s) = rb_max s" "df_encoding (as_deframe s) = rb_encoding s"
  by (simp_all add: as_deframe_def)

lemma resp_take_frame_None:
  "resp_take_frame env s = None \<longleftrightarrow> take_frame (env_ungz env) (as_deframe s) = None"
  by (simp add: resp_take_frame_def take_frame_def Let_def)

lemma resp_take_frame_Inr:
  "resp_take_frame env s = Some (Inr m, s') \<longleftrightarrow>
     (\<exists>d. take_frame (env_ungz env) (as_deframe s) = Some (Inr m, d) \<and> s' = s\<lparr>rb_buf := df_buf d\<rparr>)"
  by (auto simp: resp_take_frame_def take_frame_def Let_def)

text \<open>
  The simulation: whenever the deframing stream is not ready or delivers a message, so does the
  response body, and when it ends, the trailers decide.
\<close>

lemma resp_poll_next_sim:
  assumes "poll_next (env_ungz env) (as_deframe s) = (p, d)" and "\<And>e. p \<noteq> Ready (Some (Inl e))"
  shows "\<exists>s'. as_deframe s' = d \<and> rb_trailers s' = rb_trailers s \<and> rb_trailers_checked s' = rb_trailers_checked s
    \<and> resp_poll_next env s = (if p = Ready None then resp_poll_trailers env s' else (p, s'))"
  using assms
proof (induction env s rule: resp_poll_next.induct)
  case (1 env s)
  show ?case
  proof (cases "resp_take_frame env s")
    case (Some y)
    obtain x t where y: "y = (x, t)" by (cases y)
    obtain x' d' where d': "take_frame (env_ungz env) (as_deframe s) = Some (x', d')"
      using Some resp_take_frame_None [of env s] by (cases "take_frame (env_ungz env) (as_deframe s)") auto
    then have "p = Ready (Some x')" "d = d'"
      using "1.prems"(1) by (simp_all add: poll_next.simps [of _ "as_deframe s"])
    then obtain m where m: "x' = Inr m"
      using "1.prems"(2) by (cases x') auto
    from resp_take_frame_Inr [of env s m] d' m
    have e: "resp_take_frame env s = Some (Inr m, s\<lparr>rb_buf := df_buf d'\<rparr>)" by auto
    have "as_deframe (s\<lparr>rb_buf := df_buf d'\<rparr>) = d'"
      using d' by (cases rule: take_frame_cases [of "env_ungz env" "as_deframe s"]) (auto simp: as_deframe_def)
    then show ?thesis
      using e m \<open>p = Ready (Some x')\<close> \<open>d = d'\<close>
      by (intro exI [of _ "s\<lparr>rb_buf := df_buf d'\<rparr>"]) (simp add: resp_poll_next.simps [of env s])
  next
    case None
    then have tf: "take_frame (env_ungz env) (as_deframe s) = None"
      by (simp add: resp_take_frame_None)
    show ?thesis
    proof (cases "rb_eof s")
      case True
      then show ?thesis
        using "1.prems" None tf
        by (intro exI [of _ s]) (auto simp: resp_poll_next.simps [of env s] poll_next.simps [of _ "as_deframe s"] split: if_splits)
    next
      case False
      show ?thesis
      proof (cases "rb_body s")
        case Nil
        then show ?thesis
          using "1.IH"(1) [OF None False Nil] "1.prems" None tf False
          by (simp add: resp_poll_next.simps [of env s] poll_next.simps [of _ "as_deframe s"])
      next
        case (Cons e es)
        show ?thesis
        proof (cases e)
          case (Chunk bs)
          then show ?thesis
            using "1.IH"(2) [OF None False Cons Chunk] "1.prems" None tf False Cons
            by (simp add: resp_poll_next.simps [of env s] poll_next.simps [of _ "as_deframe s"])
        next
          case (BodyError x)
          then have "p = Ready (Some (Inl (Raised (Status_new Internal (''h2 body error: '' @ x)))))"
            using "1.prems"(1) tf False Cons by (simp add: poll_next.simps [of _ "as_deframe s"])
          then show ?thesis
            using "1.prems"(2) by blast
        next
          case NotReady
          then show ?thesis
            using "1.prems" None tf False Cons
            by (intro exI [of _ "s\<lparr>rb_body := es\<rparr>"])
               (auto simp: resp_poll_next.simps [of env s] poll_next.simps [of _ "as_deframe s"])
        qed
      qed
    qed
  qed
qed

definition resp_size :: "response_body \<Rightarrow> nat" where
  "resp_size s = 2 * stream_size (as_deframe s) + (if rb_trailers_checked s then 0 else 1)"

lemma resp_take_frame_cases:
  obtains (none) "resp_take_frame env s = None"
    | (exceeds) e where "resp_take_frame env s = Some (Inl e, s)"
    | (frame) n x where "resp_take_frame env s = Some (x, s\<lparr>rb_buf := drop n (rb_buf s)\<rparr>)" "0 < n" "n \<le> length (rb_buf s)"
proof -
  consider "length (rb_buf s) < 5" | "5 \<le> length (rb_buf s)" "rb_max s < frame_declared (rb_buf s)"
    | "5 \<le> length (rb_buf s)" "frame_declared (rb_buf s) \<le> rb_max s" "length (rb_buf s) < 5 + frame_declared (rb_buf s)"
    | "5 \<le> length (rb_buf s)" "frame_declared (rb_buf s) \<le> rb_max s" "5 + frame_declared (rb_buf s) \<le> length (rb_buf s)"
    by linarith
  then show ?thesis
    by cases (use that in \<open>simp_all add: resp_take_frame_def Let_def\<close>)
qed

lemma resp_poll_trailers_size:
  "resp_poll_trailers env s = (Pending, s') \<Longrightarrow> resp_size s' < resp_size s"
  "resp_poll_trailers env s \<noteq> (Ready (Some (Inr m)), s')"
  by (auto simp: resp_poll_trailers_def resp_size_def as_deframe_def Let_def split: if_splits list.splits trailer_poll.splits)

lemma resp_poll_next_size:
  "resp_poll_next env s = (Pending, s') \<Longrightarrow> resp_size s' < resp_size s"
  "resp_poll_next env s = (Ready (Some (Inr m)), s') \<Longrightarrow> resp_size s' < resp_size s"
proof (induction env s rule: resp_poll_next.induct)
  case (1 env s)
  note sizes = resp_size_def stream_size_def stream_bytes_def
  { case 1
    then show ?case
      using "1.IH"(1,3) resp_poll_trailers_size(1) [of env s s']
      by (cases rule: resp_take_frame_cases [of env s])
         (auto simp: resp_poll_next.simps [of env s] sizes split: if_splits list.splits body_event.splits)
  next
    case 2
    then show ?case
      using "1.IH"(2,4) resp_poll_trailers_size(2) [of env s m s']
      by (cases rule: resp_take_frame_cases [of env s])
         (auto simp: resp_poll_next.simps [of env s] sizes split: if_splits list.splits body_event.splits)
  }
qed

section \<open>Reading a response\<close>

function resp_next_item :: "http_env \<Rightarrow> response_body \<Rightarrow> byte list item option \<times> response_body" where
  "resp_next_item env s =
     (case resp_poll_next env s of
        (Pending, s') \<Rightarrow> resp_next_item env s'
      | (Ready x, s') \<Rightarrow> (x, s'))"
  by pat_completeness auto
termination resp_next_item
  by (relation "measure (\<lambda>(env, s). resp_size s)") (auto simp: resp_poll_next_size)

declare resp_next_item.simps [simp del]

lemma resp_next_item_size: "resp_next_item env s = (Some (Inr m), s') \<Longrightarrow> resp_size s' < resp_size s"
proof (induction env s rule: resp_next_item.induct)
  case (1 env s)
  obtain p t where p: "resp_poll_next env s = (p, t)" by (cases "resp_poll_next env s")
  show ?case
  proof (cases p)
    case Pending
    then show ?thesis
      using 1 p resp_poll_next_size(1) [of env s t] by (simp add: resp_next_item.simps [of env s])
  next
    case (Ready x)
    then show ?thesis
      using 1 p resp_poll_next_size(2) [of env s m s'] by (simp add: resp_next_item.simps [of env s])
  qed
qed

function read_items :: "http_env \<Rightarrow> response_body \<Rightarrow> byte list option \<Rightarrow> byte list option item" where
  "read_items env s prev =
     (case resp_next_item env s of
        (None, _) \<Rightarrow> Inr prev
      | (Some (Inl e), _) \<Rightarrow> Inl e
      | (Some (Inr m), s') \<Rightarrow> read_items env s' (Some m))"
  by pat_completeness auto
termination read_items
  by (relation "measure (\<lambda>(env, s, l). resp_size s)") (auto intro: resp_next_item_size [OF sym])

declare read_items.simps [simp del]

definition read_unary :: "http_env \<Rightarrow> response_body \<Rightarrow> (byte list option \<times> status) item" where
  "read_unary env s = bind_result (read_items env s None) (\<lambda>m. Inr (m, Status_ok))"

text \<open>The items of a streaming response up to its end or its first error.\<close>

function response_items :: "http_env \<Rightarrow> response_body \<Rightarrow> byte list item list" where
  "response_items env s =
     (case resp_next_item env s of
        (None, _) \<Rightarrow> []
      | (Some (Inl e), _) \<Rightarrow> [Inl e]
      | (Some (Inr m), s') \<Rightarrow> Inr m # response_items env s')"
  by pat_completeness auto
termination response_items
  by (relation "measure (\<lambda>(env, s). resp_size s)") (auto intro: resp_next_item_size [OF sym])

declare response_items.simps [simp del]

definition encoding_from_headers :: "http_env \<Rightarrow> header_list \<Rightarrow> compression" where
  "encoding_from_headers env hs =
     (case Option.bind (map_of hs ''grpc-encoding'') (env_to_str env) of
        Some s \<Rightarrow> compression_from_header s
      | None \<Rightarrow> Identity)"

definition metadata_from_response :: "http_env \<Rightarrow> header_list \<Rightarrow> nat \<Rightarrow> metadata" where
  "metadata_from_response env hs max_size =
     (case from_headers (env_b64d env)
         (header_pairs env (filter (\<lambda>(k, _). \<not> starts_with k '':'' \<and> k \<noteq> ''content-type'' \<and> k \<noteq> ''te''
            \<and> k \<noteq> ''grpc-encoding'' \<and> k \<noteq> ''grpc-status'' \<and> k \<noteq> ''grpc-message'') hs)) max_size of
        Inr md \<Rightarrow> md
      | Inl _ \<Rightarrow> Metadata_new)"

section \<open>Calls\<close>

record h2_response =
  hr_headers :: header_list
  hr_body :: "body_event list"
  hr_trailers :: "trailer_poll list"

definition frame_request :: "http_env \<Rightarrow> endpoint \<Rightarrow> byte list \<Rightarrow> byte list item" where
  "frame_request env e msg = map_fault (Status_new Internal) (encode_frame (env_gz env) msg (ep_compression e) (ep_max_message_size e))"

definition response_stream :: "http_env \<Rightarrow> endpoint \<Rightarrow> h2_response \<Rightarrow> response_body" where
  "response_stream env e r =
     GrpcResponseBody_new (hr_body r) (hr_trailers r) (encoding_from_headers env (hr_headers r)) (ep_max_message_size e)"

text \<open>
  One attempt of a unary call: \<open>exchange\<close> sends the request with its framed message and yields
  the response, or the status of the connection's failure.
\<close>

definition unary_once ::
  "http_env \<Rightarrow> (string \<Rightarrow> (string \<times> string) list \<Rightarrow> 'r anyhow) \<Rightarrow> ('r \<Rightarrow> byte list \<Rightarrow> h2_response item)
     \<Rightarrow> endpoint \<Rightarrow> string \<Rightarrow> metadata \<Rightarrow> byte list \<Rightarrow> (byte list \<times> metadata) item" where
  "unary_once env build exchange e path md msg =
     bind_result (send_request_headers env build e path md) (\<lambda>rq.
       bind_result (frame_request env e msg) (\<lambda>framed.
         bind_result (exchange rq framed) (\<lambda>r.
           bind_result (read_unary env (response_stream env e r)) (\<lambda>(m, st).
             if \<not> Status_is_ok st then Inl (Raised st)
             else case m of
                 None \<Rightarrow> Inl (Raised (Status_new Internal ''empty unary response''))
               | Some raw \<Rightarrow> Inr (raw, metadata_from_response env (hr_headers r) (ep_max_message_size e))))))"

definition streaming_call ::
  "http_env \<Rightarrow> (string \<Rightarrow> (string \<times> string) list \<Rightarrow> 'r anyhow) \<Rightarrow> ('r \<Rightarrow> byte list \<Rightarrow> h2_response item)
     \<Rightarrow> endpoint \<Rightarrow> string \<Rightarrow> metadata \<Rightarrow> byte list \<Rightarrow> (byte list item list \<times> metadata) item" where
  "streaming_call env build exchange e path md msg =
     bind_result (send_request_headers env build e path md) (\<lambda>rq.
       bind_result (frame_request env e msg) (\<lambda>framed.
         bind_result (exchange rq framed) (\<lambda>r.
           Inr (response_items env (response_stream env e r),
                metadata_from_response env (hr_headers r) (ep_max_message_size e)))))"

text \<open>
  \<open>backoff * attempt\<close>, which panics when it leaves the range of \<open>Duration\<close>, and the loop of
  \<open>unary\<close>: \<open>once k\<close> is the result of the attempt number \<open>k\<close>; the result with the waits between
  the attempts.
\<close>

definition duration_times :: "std_duration \<Rightarrow> nat \<Rightarrow> ('e, std_duration) res" where
  "duration_times d k =
     (let n = d_nanos d * k; s = d_secs d * k + n div 1000000000
      in if s < 2 ^ 64 then Inr \<lparr>d_secs = s, d_nanos = n mod 1000000000\<rparr>
         else Inl (Panicked ''overflow when multiplying duration by scalar''))"

function unary_attempts :: "retry_policy \<Rightarrow> (nat \<Rightarrow> 'a item) \<Rightarrow> nat \<Rightarrow> 'a item \<times> std_duration list" where
  "unary_attempts policy once attempt =
     (case once attempt of
        Inl (Raised e) \<Rightarrow>
          if rp_max_retries policy \<le> attempt \<or> s_code e \<notin> set (rp_retryable policy) then (Inl (Raised e), [])
          else (case duration_times (rp_backoff policy) (attempt + 1) of
              Inl f \<Rightarrow> (Inl f, [])
            | Inr d \<Rightarrow> (let (r, ds) = unary_attempts policy once (attempt + 1) in (r, d # ds)))
      | r \<Rightarrow> (r, []))"
  by pat_completeness auto
termination
  by (relation "measure (\<lambda>(policy, once, attempt). rp_max_retries policy - attempt)") auto

declare unary_attempts.simps [simp del]

definition client_unary :: "retry_policy \<Rightarrow> (nat \<Rightarrow> 'a item) \<Rightarrow> 'a item \<times> std_duration list" where
  "client_unary policy once = unary_attempts policy once 0"

text \<open>
  The writers of the streaming requests: the data frames they send, each with its end-of-stream
  flag. After an error the client-streaming writer does not end the stream.
\<close>

fun write_task :: "http_env \<Rightarrow> endpoint \<Rightarrow> byte list item list \<Rightarrow> (byte list \<times> bool) list \<times> (status fault) option" where
  "write_task env e [] = ([([], True)], None)"
| "write_task env e (Inl f # xs) = ([([], False)], Some f)"
| "write_task env e (Inr raw # xs) =
     (case frame_request env e raw of
        Inl f \<Rightarrow> ([([], False)], Some f)
      | Inr framed \<Rightarrow> (let (ds, err) = write_task env e xs in ((framed, False) # ds, err)))"

fun bidi_write :: "http_env \<Rightarrow> endpoint \<Rightarrow> byte list item list \<Rightarrow> (byte list \<times> bool) list" where
  "bidi_write env e [] = [([], True)]"
| "bidi_write env e (Inl f # xs) = [([], True)]"
| "bidi_write env e (Inr raw # xs) =
     (case frame_request env e raw of
        Inl f \<Rightarrow> [([], True)]
      | Inr framed \<Rightarrow> (framed, False) # bidi_write env e xs)"

definition client_streaming_call ::
  "http_env \<Rightarrow> (string \<Rightarrow> (string \<times> string) list \<Rightarrow> 'r anyhow) \<Rightarrow> ('r \<Rightarrow> (byte list \<times> bool) list \<Rightarrow> h2_response item)
     \<Rightarrow> endpoint \<Rightarrow> string \<Rightarrow> metadata \<Rightarrow> byte list item list \<Rightarrow> (byte list \<times> metadata) item" where
  "client_streaming_call env build exchange e path md msgs =
     bind_result (send_request_headers env build e path md) (\<lambda>rq.
       let (frames, err) = write_task env e msgs
       in bind_result (exchange rq frames) (\<lambda>r.
            case err of
              Some (Raised st) \<Rightarrow> Inl (Raised st)
            | Some f \<Rightarrow> Inl (Raised (Status_new Internal ''writer task panicked''))
            | None \<Rightarrow> bind_result (read_unary env (response_stream env e r)) (\<lambda>(m, st).
                if \<not> Status_is_ok st then Inl (Raised st)
                else case m of
                    None \<Rightarrow> Inl (Raised (Status_new Internal ''empty response''))
                  | Some raw \<Rightarrow> Inr (raw, metadata_from_response env (hr_headers r) (ep_max_message_size e)))))"

definition bidi_streaming_call ::
  "http_env \<Rightarrow> (string \<Rightarrow> (string \<times> string) list \<Rightarrow> 'r anyhow) \<Rightarrow> ('r \<Rightarrow> (byte list \<times> bool) list \<Rightarrow> h2_response item)
     \<Rightarrow> endpoint \<Rightarrow> string \<Rightarrow> metadata \<Rightarrow> byte list item list \<Rightarrow> (byte list item list \<times> metadata) item" where
  "bidi_streaming_call env build exchange e path md msgs =
     bind_result (send_request_headers env build e path md) (\<lambda>rq.
       bind_result (exchange rq (bidi_write env e msgs)) (\<lambda>r.
         Inr (response_items env (response_stream env e r),
              metadata_from_response env (hr_headers r) (ep_max_message_size e))))"

end
