(* ===== verification/Client_Properties.thy ===== *)
theory Client_Properties
  imports Client
begin

text \<open>What the client reads from a response body and its trailers, and how it retries.\<close>

section \<open>The trailers\<close>

definition trailers_result :: "http_env \<Rightarrow> trailer_poll list \<Rightarrow> byte list item option" where
  "trailers_result env ps =
     (case ps of
        Trailers hs # _ \<Rightarrow> if Status_is_ok (trailers_status env hs) then None else Some (Inl (Raised (trailers_status env hs)))
      | _ \<Rightarrow> None)"

lemma poll_next_end:
  "poll_next ungz s = (Ready None, d) \<Longrightarrow> df_eof d \<and> df_buf d = []"
proof (induction ungz s rule: poll_next.induct)
  case (1 ungz s)
  then show ?case
    by (cases rule: take_frame_cases [of ungz s])
       (auto simp: poll_next.simps [of ungz s] split: if_splits list.splits body_event.splits)
qed

text \<open>Once the body has ended, the first poll for the trailers decides; if it is not ready, the status is lost.\<close>

lemma next_item_at_end:
  assumes "rb_eof s" and "rb_buf s = []" and "resp_poll_next env t = resp_poll_trailers env s" and "\<not> rb_trailers_checked s"
  shows "fst (resp_next_item env t) = trailers_result env (rb_trailers s)"
proof -
  have checked: "resp_poll_next env u = (Ready None, u)" if "rb_eof u" "rb_buf u = []" "rb_trailers_checked u" for u
    using that by (simp add: resp_poll_next.simps [of env u] resp_take_frame_def resp_poll_trailers_def)
  have again: "resp_next_item env u = (None, u)" if "rb_eof u" "rb_buf u = []" "rb_trailers_checked u" for u
    using checked [OF that] by (simp add: resp_next_item.simps [of env u])
  show ?thesis
  proof (cases "rb_trailers s")
    case Nil
    then show ?thesis
      using assms by (simp add: resp_next_item.simps [of env t] resp_poll_trailers_def trailers_result_def)
  next
    case (Cons p ps)
    then show ?thesis
      using assms again [of "s\<lparr>rb_trailers_checked := True, rb_trailers := ps\<rparr>"]
      by (cases p) (auto simp: resp_next_item.simps [of env t] resp_poll_trailers_def trailers_result_def Let_def)
  qed
qed

lemma next_item_sim:
  assumes "next_item (env_ungz env) (as_deframe s) = (x, d)" and "\<not> rb_trailers_checked s"
  shows "(\<forall>m. x = Some (Inr m) \<longrightarrow> (\<exists>s'. resp_next_item env s = (Some (Inr m), s') \<and> as_deframe s' = d
        \<and> rb_trailers s' = rb_trailers s \<and> \<not> rb_trailers_checked s'))
    \<and> (x = None \<longrightarrow> fst (resp_next_item env s) = trailers_result env (rb_trailers s))"
  using assms
proof (induction env s rule: resp_next_item.induct)
  case (1 env s)
  obtain p t where p: "poll_next (env_ungz env) (as_deframe s) = (p, t)"
    by (cases "poll_next (env_ungz env) (as_deframe s)")
  show ?case
  proof (cases "\<exists>e. p = Ready (Some (Inl e))")
    case True
    then show ?thesis
      using "1.prems"(1) p by (auto simp: next_item.simps [of _ "as_deframe s"])
  next
    case False
    then obtain s' where s': "as_deframe s' = t" "rb_trailers s' = rb_trailers s"
        "rb_trailers_checked s' = rb_trailers_checked s"
        "resp_poll_next env s = (if p = Ready None then resp_poll_trailers env s' else (p, s'))"
      using resp_poll_next_sim [OF p] by auto
    show ?thesis
    proof (cases p)
      case Pending
      have "next_item (env_ungz env) (as_deframe s') = (x, d)" and "\<not> rb_trailers_checked s'"
        using "1.prems" p Pending s' by (simp_all add: next_item.simps [of _ "as_deframe s"])
      moreover have "resp_poll_next env s = (Pending, s')"
        using s'(4) Pending by simp
      ultimately have "(\<forall>m. x = Some (Inr m) \<longrightarrow> (\<exists>u. resp_next_item env s' = (Some (Inr m), u) \<and> as_deframe u = d
          \<and> rb_trailers u = rb_trailers s' \<and> \<not> rb_trailers_checked u))
        \<and> (x = None \<longrightarrow> fst (resp_next_item env s') = trailers_result env (rb_trailers s'))"
        by (intro "1.IH" [OF _ refl]) simp_all
      then show ?thesis
        using \<open>resp_poll_next env s = (Pending, s')\<close> s'(2) by (simp add: resp_next_item.simps [of env s])
    next
      case (Ready y)
      then have y: "x = y" "d = t"
        using "1.prems"(1) p by (simp_all add: next_item.simps [of _ "as_deframe s"])
      show ?thesis
      proof (cases y)
        case None
        have "rb_eof s' \<and> rb_buf s' = []"
          using poll_next_end [of "env_ungz env" "as_deframe s" t] p Ready None
          unfolding s'(1) [symmetric] by simp
        then show ?thesis
          using next_item_at_end [of s' env s] s' Ready None y "1.prems"(2) by simp
      next
        case (Some z)
        then show ?thesis
          using s' Ready y "1.prems"(2) by (simp add: resp_next_item.simps [of env s])
      qed
    qed
  qed
qed

lemma read_items_eq:
  assumes "stream_items (env_ungz env) (as_deframe s) = map Inr ms" and "\<not> rb_trailers_checked s"
  shows "read_items env s prev =
    (case trailers_result env (rb_trailers s) of
       Some (Inl e) \<Rightarrow> Inl e
     | _ \<Rightarrow> Inr (if ms = [] then prev else Some (last ms)))"
  using assms
proof (induction ms arbitrary: s prev)
  case Nil
  obtain x d where x: "next_item (env_ungz env) (as_deframe s) = (x, d)"
    by (cases "next_item (env_ungz env) (as_deframe s)")
  then have "x = None"
    using Nil.prems(1) by (auto simp: stream_items.simps [of _ "as_deframe s"] split: option.splits sum.splits)
  then have "fst (resp_next_item env s) = trailers_result env (rb_trailers s)"
    using next_item_sim [OF x Nil.prems(2)] by simp
  then show ?case
    by (cases "resp_next_item env s")
       (auto simp: read_items.simps [of env s] trailers_result_def split: list.splits trailer_poll.splits if_splits)
next
  case (Cons m ms)
  obtain x d where x: "next_item (env_ungz env) (as_deframe s) = (x, d)"
    by (cases "next_item (env_ungz env) (as_deframe s)")
  then have m: "x = Some (Inr m)" "stream_items (env_ungz env) d = map Inr ms"
    using Cons.prems(1) by (auto simp: stream_items.simps [of _ "as_deframe s"] split: option.splits sum.splits)
  then obtain s' where s': "resp_next_item env s = (Some (Inr m), s')" "as_deframe s' = d"
      "rb_trailers s' = rb_trailers s" "\<not> rb_trailers_checked s'"
    using next_item_sim [OF x Cons.prems(2)] by auto
  have "read_items env s prev = read_items env s' (Some m)"
    using s'(1) by (simp add: read_items.simps [of env s])
  also have "\<dots> = (case trailers_result env (rb_trailers s) of
       Some (Inl e) \<Rightarrow> Inl e | _ \<Rightarrow> Inr (if ms = [] then Some m else Some (last ms)))"
    using Cons.IH [of s' "Some m"] s' m by simp
  finally show ?case
    by (simp split: option.split sum.split)
qed

lemma as_deframe_new: "as_deframe (GrpcResponseBody_new body ps c n) = deframe_stream body c n"
  by (simp add: as_deframe_def GrpcResponseBody_new_def deframe_stream_def)

lemma read_unary_eq:
  assumes "no_body_error body" and "split_stream (env_ungz env) c n (concat (map event_bytes body)) = map Inr ms"
  shows "read_unary env (GrpcResponseBody_new body ps c n) =
    (case trailers_result env ps of
       Some (Inl e) \<Rightarrow> Inl e
     | _ \<Rightarrow> Inr (if ms = [] then None else Some (last ms), Status_ok))"
proof -
  have "stream_items (env_ungz env) (as_deframe (GrpcResponseBody_new body ps c n)) = map Inr ms"
    unfolding as_deframe_new stream_items_eq [OF stream_ok_new [OF assms(1)]] stream_bytes_new by (rule assms(2))
  from read_items_eq [OF this] show ?thesis
    by (simp add: read_unary_def GrpcResponseBody_new_def split: option.split sum.split)
qed

section \<open>Retries\<close>

definition retryable :: "retry_policy \<Rightarrow> 'a item \<Rightarrow> bool" where
  "retryable policy r \<longleftrightarrow> (\<exists>e. r = Inl (Raised e) \<and> s_code e \<in> set (rp_retryable policy))"

lemma duration_times_mono:
  assumes "duration_times d k = (Inr e :: (unit, _) res)" and "j \<le> k"
  shows "\<exists>f. duration_times d j = (Inr f :: ('e, _) res)"
proof -
  have "d_secs d * j \<le> d_secs d * k" "d_nanos d * j div 1000000000 \<le> d_nanos d * k div 1000000000"
    using assms(2) by (simp_all add: div_le_mono)
  moreover have "d_secs d * k + d_nanos d * k div 1000000000 < 2 ^ 64"
    using assms(1) by (simp add: duration_times_def Let_def split: if_splits)
  ultimately have "d_secs d * j + d_nanos d * j div 1000000000 < 2 ^ 64" by linarith
  then show ?thesis by (simp add: duration_times_def Let_def)
qed

lemma unary_attempts_eq:
  assumes "k \<le> rp_max_retries policy"
    and "\<And>j. j < k \<Longrightarrow> a \<le> j \<Longrightarrow> retryable policy (once j)"
    and "\<not> retryable policy (once k) \<or> k = rp_max_retries policy"
    and "duration_times (rp_backoff policy) (rp_max_retries policy) = (Inr d :: (unit, _) res)" and "a \<le> k"
  shows "unary_attempts policy once a =
    (once k, map (\<lambda>j. case duration_times (rp_backoff policy) (Suc j) of Inr w \<Rightarrow> w | Inl (_ :: unit fault) \<Rightarrow> from_secs 0) [a..<k])"
  using assms(2,5)
proof (induction "k - a" arbitrary: a)
  case 0
  then have "a = k" by simp
  have "unary_attempts policy once k = (once k, [])"
  proof (cases "once k")
    case (Inl f)
    then show ?thesis
      using assms(1,3) by (cases f) (auto simp: unary_attempts.simps [of policy once k] retryable_def)
  qed (simp add: unary_attempts.simps)
  then show ?case using \<open>a = k\<close> by simp
next
  case (Suc n)
  then have a: "a < k" by simp
  then obtain e where e: "once a = Inl (Raised e)" "s_code e \<in> set (rp_retryable policy)"
    using Suc.prems(1) [of a] by (auto simp: retryable_def)
  obtain w where w: "duration_times (rp_backoff policy) (Suc a) = (Inr w :: (status, _) res)"
    using duration_times_mono [OF assms(4), of "Suc a"] a assms(1) by fastforce
  then have w': "duration_times (rp_backoff policy) (Suc a) = (Inr w :: (unit, _) res)"
    by (simp add: duration_times_def Let_def split: if_splits)
  have "unary_attempts policy once (Suc a) =
    (once k, map (\<lambda>j. case duration_times (rp_backoff policy) (Suc j) of Inr w \<Rightarrow> w | Inl (_ :: unit fault) \<Rightarrow> from_secs 0) [Suc a..<k])"
    using Suc.hyps(1) [of "Suc a"] Suc.hyps(2) Suc.prems a by simp
  then show ?case
    using e w w' a assms(1) by (simp add: unary_attempts.simps [of policy once a] upt_conv_Cons)
qed

text \<open>
  C27: Retries are bounded and fair: when the waits fit in a duration, a unary call makes its
  attempts one after the other until the first that succeeds or fails with a code the policy does
  not retry, or until \<open>max_retries\<close> retries were made; the result is that of its last attempt, and
  the waits between them grow linearly with the number of the attempt.
\<close>

theorem retry_policy_respected:
  assumes "duration_times (rp_backoff policy) (rp_max_retries policy) = (Inr d :: (unit, _) res)"
  shows "\<exists>k \<le> rp_max_retries policy. fst (client_unary policy once) = once k
    \<and> (\<forall>j < k. retryable policy (once j)) \<and> (\<not> retryable policy (once k) \<or> k = rp_max_retries policy)
    \<and> length (snd (client_unary policy once)) = k
    \<and> (\<forall>j < k. duration_times (rp_backoff policy) (Suc j) = (Inr (snd (client_unary policy once) ! j) :: (unit, _) res))"
proof -
  let ?stop = "\<lambda>k. \<not> retryable policy (once k) \<or> k = rp_max_retries policy"
  define k where "k = (LEAST k. ?stop k)"
  have k: "?stop k"
    unfolding k_def by (rule LeastI [of _ "rp_max_retries policy"]) simp
  have least: "\<not> ?stop j" if "j < k" for j
    using that unfolding k_def by (rule not_less_Least)
  have le: "k \<le> rp_max_retries policy"
    unfolding k_def by (rule Least_le) simp
  have eq: "client_unary policy once =
    (once k, map (\<lambda>j. case duration_times (rp_backoff policy) (Suc j) of Inr w \<Rightarrow> w | Inl (_ :: unit fault) \<Rightarrow> from_secs 0) [0..<k])"
    unfolding client_unary_def
    by (rule unary_attempts_eq [where once = once, OF le _ k assms]) (use least in auto)
  have "duration_times (rp_backoff policy) (Suc j) = (Inr (snd (client_unary policy once) ! j) :: (unit, _) res)" if "j < k" for j
    using duration_times_mono [OF assms, of "Suc j", where 'e = unit] that le by (auto simp: eq)
  moreover have "\<And>j. j < k \<Longrightarrow> retryable policy (once j)"
    using least by simp
  ultimately show ?thesis
    using le k eq by (intro exI [of _ k] conjI allI impI) simp_all
qed

theorem retry_policy_respected_witness:
  "fst (client_unary (RetryPolicy_default\<lparr>rp_max_retries := 2\<rparr>)
       (\<lambda>j. if j = 0 then Inl (Raised (Status_new Unavailable [])) else Inr (7 :: nat))) = Inr 7"
proof -
  let ?p = "RetryPolicy_default\<lparr>rp_max_retries := 2\<rparr>"
  let ?once = "\<lambda>j. if j = 0 then Inl (Raised (Status_new Unavailable [])) else Inr (7 :: nat)"
  have "duration_times (rp_backoff ?p) (rp_max_retries ?p) = (Inr \<lparr>d_secs = 0, d_nanos = 100000000\<rparr> :: (unit, _) res)"
    by (simp add: RetryPolicy_default_def duration_times_def from_millis_def Let_def)
  from retry_policy_respected [OF this, of ?once] obtain k
    where k: "fst (client_unary ?p ?once) = ?once k" "\<not> retryable ?p (?once k) \<or> k = rp_max_retries ?p"
    by blast
  have "retryable ?p (?once 0)"
    by (simp add: retryable_def Status_new_def RetryPolicy_default_def)
  then have "k \<noteq> 0"
    using k(2) by (intro notI) (simp add: RetryPolicy_default_def)
  then show ?thesis
    using k(1) by simp
qed

end
