(* ===== verification/Cancel_Token.thy ===== *)
theory Cancel_Token
  imports Prelude
begin

text \<open>
  Cancellation tokens (\<open>tpt-proto-grpc/src/cancellation.rs\<close>). A token is an address of a store of
  flags, so that the clones of a token share its state. How a waiting task and the cancelling task
  interleave is a step relation over the atomic actions of \<open>cancel\<close> and \<open>cancelled\<close>; the
  third-party \<open>tokio::sync::Notify\<close> is a parameter of it.
\<close>

section \<open>Tokens\<close>

type_synonym token = nat
type_synonym token_store = "bool list"

definition CancellationToken_new :: "token_store \<Rightarrow> token \<times> token_store" where
  "CancellationToken_new st = (length st, st @ [False])"

definition is_cancelled :: "token_store \<Rightarrow> token \<Rightarrow> bool" where
  "is_cancelled st t \<longleftrightarrow> t < length st \<and> st ! t"

definition cancel :: "token_store \<Rightarrow> token \<Rightarrow> token_store" where
  "cancel st t = st[t := True]"

lemma new_token_not_cancelled:
  "CancellationToken_new st = (t, st') \<Longrightarrow> \<not> is_cancelled st' t \<and> (\<forall>u. is_cancelled st' u = is_cancelled st u)"
  by (auto simp: CancellationToken_new_def is_cancelled_def nth_append less_Suc_eq split: if_splits)

lemma cancel_is_cancelled:
  "t < length st \<Longrightarrow> is_cancelled (cancel st t) u = (u = t \<or> is_cancelled st u)"
  by (auto simp: cancel_def is_cancelled_def nth_list_update)

lemma cancel_idempotent [simp]: "cancel (cancel st t) t = cancel st t"
  by (simp add: cancel_def)

section \<open>Waiting and cancelling\<close>

text \<open>
  The program counters of a task in \<open>cancelled().await\<close> and of a task in \<open>cancel()\<close>. \<open>Checked\<close> is
  the point after the flag was read as unset and before \<open>notified()\<close> is called.
\<close>

datatype waiter = WaiterStart | Checked | Waiting nat | Resolved

datatype canceller = CancelStart | Stored | CancelDone

record 'n race =
  race_flag :: bool
  race_notify :: 'n
  race_waiter :: waiter
  race_canceller :: canceller

definition race_start :: "'n \<Rightarrow> 'n race" where
  "race_start n = \<lparr>race_flag = False, race_notify = n, race_waiter = WaiterStart, race_canceller = CancelStart\<rparr>"

text \<open>
  The \<open>Notify\<close> operations: \<open>notified n\<close> creates a future, \<open>notify_waiters n\<close> wakes the futures
  created before it, \<open>resolved n w\<close> tells whether future \<open>w\<close> has been woken.
\<close>

inductive race_step ::
  "('n \<Rightarrow> nat \<times> 'n) \<Rightarrow> ('n \<Rightarrow> 'n) \<Rightarrow> ('n \<Rightarrow> nat \<Rightarrow> bool) \<Rightarrow> 'n race \<Rightarrow> 'n race \<Rightarrow> bool"
  for notified and notify_waiters and resolved where
  waiter_returns: "race_waiter s = WaiterStart \<Longrightarrow> race_flag s \<Longrightarrow>
     race_step notified notify_waiters resolved s (s\<lparr>race_waiter := Resolved\<rparr>)"
| waiter_checks: "race_waiter s = WaiterStart \<Longrightarrow> \<not> race_flag s \<Longrightarrow>
     race_step notified notify_waiters resolved s (s\<lparr>race_waiter := Checked\<rparr>)"
| waiter_registers: "race_waiter s = Checked \<Longrightarrow> notified (race_notify s) = (w, n) \<Longrightarrow>
     race_step notified notify_waiters resolved s (s\<lparr>race_waiter := Waiting w, race_notify := n\<rparr>)"
| waiter_woken: "race_waiter s = Waiting w \<Longrightarrow> resolved (race_notify s) w \<Longrightarrow>
     race_step notified notify_waiters resolved s (s\<lparr>race_waiter := Resolved\<rparr>)"
| canceller_stores: "race_canceller s = CancelStart \<Longrightarrow>
     race_step notified notify_waiters resolved s (s\<lparr>race_canceller := Stored, race_flag := True\<rparr>)"
| canceller_notifies: "race_canceller s = Stored \<Longrightarrow>
     race_step notified notify_waiters resolved s
       (s\<lparr>race_canceller := CancelDone, race_notify := notify_waiters (race_notify s)\<rparr>)"

inductive_cases race_stepE: "race_step notified notify_waiters resolved s s'"

inductive reachable_race ::
  "('n \<Rightarrow> nat \<times> 'n) \<Rightarrow> ('n \<Rightarrow> 'n) \<Rightarrow> ('n \<Rightarrow> nat \<Rightarrow> bool) \<Rightarrow> 'n \<Rightarrow> 'n race \<Rightarrow> bool"
  for notified and notify_waiters and resolved and n0 where
  race_init: "reachable_race notified notify_waiters resolved n0 (race_start n0)"
| race_next: "reachable_race notified notify_waiters resolved n0 s \<Longrightarrow> race_step notified notify_waiters resolved s s' \<Longrightarrow>
     reachable_race notified notify_waiters resolved n0 s'"

definition race_stuck :: "('n \<Rightarrow> nat \<times> 'n) \<Rightarrow> ('n \<Rightarrow> 'n) \<Rightarrow> ('n \<Rightarrow> nat \<Rightarrow> bool) \<Rightarrow> 'n race \<Rightarrow> bool" where
  "race_stuck notified notify_waiters resolved s \<longleftrightarrow> (\<forall>s'. \<not> race_step notified notify_waiters resolved s s')"

text \<open>What the code relies on, as \<open>Notify\<close> documents it: a new future has not been woken.\<close>

definition fresh_pending :: "('n \<Rightarrow> nat \<times> 'n) \<Rightarrow> ('n \<Rightarrow> nat \<Rightarrow> bool) \<Rightarrow> bool" where
  "fresh_pending notified resolved \<longleftrightarrow> (\<forall>n. \<not> resolved (snd (notified n)) (fst (notified n)))"

text \<open>The futures woken by \<open>notify_waiters\<close> are the ones created before, and they stay woken.\<close>

definition wakes_created ::
  "('n \<Rightarrow> nat \<times> 'n) \<Rightarrow> ('n \<Rightarrow> 'n) \<Rightarrow> ('n \<Rightarrow> nat \<Rightarrow> bool) \<Rightarrow> bool" where
  "wakes_created notified notify_waiters resolved \<longleftrightarrow>
     (\<forall>n. resolved (notify_waiters (snd (notified n))) (fst (notified n)))"

lemma waiting_after_done_stuck:
  assumes "race_waiter s = Waiting w" and "\<not> resolved (race_notify s) w" and "race_canceller s = CancelDone"
  shows "race_stuck notified notify_waiters resolved s"
  using assms by (auto simp: race_stuck_def elim: race_stepE)

text \<open>The order of the code: the flag is set before the waiters are woken, and never reset.\<close>

lemma race_flag_order:
  "reachable_race notified notify_waiters resolved n0 s \<Longrightarrow>
     (race_flag s \<longleftrightarrow> race_canceller s \<noteq> CancelStart)"
  by (induction rule: reachable_race.induct) (auto simp: race_start_def elim!: race_stepE)

text \<open>A future created before the cancellation notifies is either unwoken or the one to be woken.\<close>

definition race_inv :: "('n \<Rightarrow> nat \<times> 'n) \<Rightarrow> ('n \<Rightarrow> 'n) \<Rightarrow> ('n \<Rightarrow> nat \<Rightarrow> bool) \<Rightarrow> 'n race \<Rightarrow> bool" where
  "race_inv notified notify_waiters resolved s \<longleftrightarrow>
     (\<forall>w. race_waiter s = Waiting w \<longrightarrow> race_canceller s \<noteq> CancelDone \<longrightarrow>
        \<not> resolved (race_notify s) w \<and> resolved (notify_waiters (race_notify s)) w)
     \<and> (race_waiter s = Resolved \<longrightarrow> race_flag s)"

lemma race_inv_reachable:
  assumes "reachable_race notified notify_waiters resolved n0 s"
    and "fresh_pending notified resolved" and "wakes_created notified notify_waiters resolved"
  shows "race_inv notified notify_waiters resolved s"
  using assms(1)
proof (induction rule: reachable_race.induct)
  case race_init
  then show ?case by (simp add: race_inv_def race_start_def)
next
  case (race_next s s')
  note order = race_flag_order [OF race_next.hyps(1)]
  have fresh: "\<not> resolved n w \<and> resolved (notify_waiters n) w" if "notified m = (w, n)" for m w n
    using assms(2,3) that unfolding fresh_pending_def wakes_created_def by (metis fst_conv snd_conv)
  show ?case
    using race_next.hyps(2)
  proof (cases rule: race_step.cases)
    case (waiter_woken w)
    then show ?thesis
      using race_next.IH order by (auto simp: race_inv_def)
  qed (use race_next.IH order in \<open>auto simp: race_inv_def fresh\<close>)
qed

text \<open>
  C22: A waiter can miss the cancellation. Whatever \<open>Notify\<close> is, as long as a new future starts
  unwoken and is woken by a later \<open>notify_waiters\<close>: there is an interleaving of one \<open>cancelled()\<close>
  and one \<open>cancel()\<close> that ends with the token cancelled, the cancelling task finished and the
  waiter blocked for ever, because it reads the flag before it creates its future. Otherwise the
  protocol is right: a waiter returns only once the flag is set, and one that has created its
  future before the notification is woken by it.
\<close>

theorem cancellation_lost_wakeup:
  assumes "fresh_pending notified resolved" and "wakes_created notified notify_waiters resolved"
  shows "(\<exists>s. reachable_race notified notify_waiters resolved n0 s \<and> race_flag s \<and> race_canceller s = CancelDone
        \<and> race_waiter s \<noteq> Resolved \<and> race_stuck notified notify_waiters resolved s)
    \<and> (\<forall>s. reachable_race notified notify_waiters resolved n0 s \<longrightarrow>
        (race_waiter s = Resolved \<longrightarrow> race_flag s)
        \<and> (\<forall>w. race_waiter s = Waiting w \<and> race_canceller s = Stored \<longrightarrow> resolved (notify_waiters (race_notify s)) w))"
proof
  obtain w n where new: "notified (notify_waiters n0) = (w, n)"
    by (cases "notified (notify_waiters n0)")
  let ?s = "\<lparr>race_flag = True, race_notify = n, race_waiter = Waiting w, race_canceller = CancelDone\<rparr>"
  note go = race_next [where notified = notified and notify_waiters = notify_waiters and resolved = resolved and ?n0.0 = n0]
  have "reachable_race notified notify_waiters resolved n0 ((race_start n0)\<lparr>race_waiter := Checked\<rparr>)"
    by (rule go [OF race_init waiter_checks]) (simp_all add: race_start_def)
  from go [OF this canceller_stores]
  have "reachable_race notified notify_waiters resolved n0
      \<lparr>race_flag = True, race_notify = n0, race_waiter = Checked, race_canceller = Stored\<rparr>"
    by (simp add: race_start_def)
  from go [OF this canceller_notifies]
  have "reachable_race notified notify_waiters resolved n0
      \<lparr>race_flag = True, race_notify = notify_waiters n0, race_waiter = Checked, race_canceller = CancelDone\<rparr>"
    by simp
  from go [OF this waiter_registers [where w = w and n = n]]
  have "reachable_race notified notify_waiters resolved n0 ?s"
    by (simp add: new)
  moreover have "\<not> resolved n w"
    using assms(1) new unfolding fresh_pending_def by (metis fst_conv snd_conv)
  ultimately show "\<exists>s. reachable_race notified notify_waiters resolved n0 s \<and> race_flag s \<and> race_canceller s = CancelDone
        \<and> race_waiter s \<noteq> Resolved \<and> race_stuck notified notify_waiters resolved s"
    by (intro exI [of _ ?s]) (simp add: waiting_after_done_stuck)
next
  show "\<forall>s. reachable_race notified notify_waiters resolved n0 s \<longrightarrow>
        (race_waiter s = Resolved \<longrightarrow> race_flag s)
        \<and> (\<forall>w. race_waiter s = Waiting w \<and> race_canceller s = Stored \<longrightarrow> resolved (notify_waiters (race_notify s)) w)"
    using race_inv_reachable [OF _ assms] by (simp add: race_inv_def)
qed

text \<open>A \<open>Notify\<close> that numbers its futures and remembers how many of them have been woken.\<close>

theorem cancellation_lost_wakeup_witness:
  "\<exists>s. reachable_race (\<lambda>(k, m). (k, (Suc k, min k m))) (\<lambda>(k, m). (k, k)) (\<lambda>(k, m) w. w < m) (0 :: nat, 0 :: nat) s
     \<and> race_flag s \<and> race_waiter s \<noteq> Resolved
     \<and> race_stuck (\<lambda>(k, m). (k, (Suc k, min k m))) (\<lambda>(k, m). (k, k)) (\<lambda>(k, m) w. w < m) s"
  using cancellation_lost_wakeup [of "\<lambda>(k, m). (k, (Suc k, min k m))" "\<lambda>(k, m) w. w < m" "\<lambda>(k, m). (k, k)" "(0, 0)"]
  by (auto simp: fresh_pending_def wakes_created_def)

end
