(* ===== verification/Context.thy ===== *)
theory Context
  imports Cancel_Token Timeout Status Hash_Map
begin

text \<open>
  The context of a call (\<open>tpt-proto-grpc/src/context.rs\<close>): its metadata, deadline, cancellation
  token, peer and extensions, and the request and response wrappers. \<open>SystemTime\<close> is the seconds
  and nanoseconds since the epoch, the seconds in 64 bits, signed; the clock is the argument
  \<open>now\<close> of the operations that read it. An extension is stored under the identifier of its type.
\<close>

section \<open>Points in time\<close>

datatype system_time = SystemTime (t_secs: int) (t_nanos: nat)

instantiation system_time :: linorder
begin

definition less_eq_system_time :: "system_time \<Rightarrow> system_time \<Rightarrow> bool" where
  "less_eq_system_time s t \<longleftrightarrow> t_secs s < t_secs t \<or> t_secs s = t_secs t \<and> t_nanos s \<le> t_nanos t"

definition less_system_time :: "system_time \<Rightarrow> system_time \<Rightarrow> bool" where
  "less_system_time s t \<longleftrightarrow> t_secs s < t_secs t \<or> t_secs s = t_secs t \<and> t_nanos s < t_nanos t"

instance
proof
  fix s t u :: system_time
  show "s < t \<longleftrightarrow> s \<le> t \<and> \<not> t \<le> s"
    by (auto simp: less_eq_system_time_def less_system_time_def)
  show "s \<le> s" "s \<le> t \<or> t \<le> s"
    by (auto simp: less_eq_system_time_def)
  show "s \<le> u" if "s \<le> t" "t \<le> u"
    using that by (auto simp: less_eq_system_time_def)
  show "s = t" if "s \<le> t" "t \<le> s"
    using that by (auto simp: less_eq_system_time_def intro: system_time.expand)
qed

end

definition system_time_ok :: "system_time \<Rightarrow> bool" where
  "system_time_ok t \<longleftrightarrow> - (2 ^ 63) \<le> t_secs t \<and> t_secs t < 2 ^ 63 \<and> t_nanos t < 1000000000"

definition system_time_sum :: "system_time \<Rightarrow> std_duration \<Rightarrow> system_time" where
  "system_time_sum t d =
     (let n = t_nanos t + d_nanos d
      in if n < 1000000000 then SystemTime (t_secs t + int (d_secs d)) n
         else SystemTime (t_secs t + int (d_secs d) + 1) (n - 1000000000))"

definition system_time_add :: "system_time \<Rightarrow> std_duration \<Rightarrow> ('e, system_time) res" where
  "system_time_add t d =
     (if t_secs (system_time_sum t d) < 2 ^ 63 then Inr (system_time_sum t d)
      else Inl (Panicked ''overflow when adding duration to instant''))"

definition duration_since :: "system_time \<Rightarrow> system_time \<Rightarrow> std_duration option" where
  "duration_since t earlier =
     (if t < earlier then None
      else if t_nanos earlier \<le> t_nanos t
      then Some \<lparr>d_secs = nat (t_secs t - t_secs earlier), d_nanos = t_nanos t - t_nanos earlier\<rparr>
      else Some \<lparr>d_secs = nat (t_secs t - t_secs earlier - 1), d_nanos = t_nanos t + 1000000000 - t_nanos earlier\<rparr>)"

definition duration_zero :: std_duration where
  "duration_zero = \<lparr>d_secs = 0, d_nanos = 0\<rparr>"

section \<open>Peers and extensions\<close>

record peer_certificate =
  subject_cn :: "string option"
  san_dns :: "string list"
  cert_der :: "byte list"

record peer_info =
  peer_addr :: "string option"
  user_agent :: "string option"
  auth_principal :: "string option"
  peer_cert :: "peer_certificate option"

definition PeerInfo_default :: peer_info where
  "PeerInfo_default = \<lparr>peer_addr = None, user_agent = None, auth_principal = None, peer_cert = None\<rparr>"

type_synonym 'x extensions = "(string \<times> 'x) list"

definition Extensions_new :: "'x extensions" where
  "Extensions_new = []"

definition Extensions_insert :: "string \<Rightarrow> 'x \<Rightarrow> 'x extensions \<Rightarrow> 'x extensions" where
  "Extensions_insert ty x e = hm_insert ty x e"

definition Extensions_get :: "'x extensions \<Rightarrow> string \<Rightarrow> 'x option" where
  "Extensions_get e ty = map_of e ty"

definition Extensions_remove :: "string \<Rightarrow> 'x extensions \<Rightarrow> 'x option \<times> 'x extensions" where
  "Extensions_remove ty e = (map_of e ty, hm_remove ty e)"

definition Extensions_contains :: "'x extensions \<Rightarrow> string \<Rightarrow> bool" where
  "Extensions_contains e ty \<longleftrightarrow> map_of e ty \<noteq> None"

section \<open>Contexts\<close>

record 'x rpc_context =
  ctx_metadata :: metadata
  ctx_deadline :: "system_time option"
  ctx_cancellation :: token
  ctx_peer :: "peer_info option"
  ctx_extensions :: "'x extensions"

definition RpcContext_new :: "token_store \<Rightarrow> 'x rpc_context \<times> token_store" where
  "RpcContext_new st =
     (let (t, st) = CancellationToken_new st
      in (\<lparr>ctx_metadata = Metadata_new, ctx_deadline = None, ctx_cancellation = t, ctx_peer = None,
           ctx_extensions = Extensions_new\<rparr>, st))"

definition RpcContext_with_timeout ::
  "system_time \<Rightarrow> std_duration \<Rightarrow> token_store \<Rightarrow> ('e, 'x rpc_context \<times> token_store) res" where
  "RpcContext_with_timeout now timeout st =
     (let (c, st) = RpcContext_new st
      in bind_result (system_time_add now timeout) (\<lambda>d. Inr (c\<lparr>ctx_deadline := Some d\<rparr>, st)))"

definition ctx_is_cancelled :: "token_store \<Rightarrow> 'x rpc_context \<Rightarrow> bool" where
  "ctx_is_cancelled st c = is_cancelled st (ctx_cancellation c)"

definition ctx_cancel :: "'x rpc_context \<Rightarrow> token_store \<Rightarrow> token_store" where
  "ctx_cancel c st = cancel st (ctx_cancellation c)"

definition remaining_time :: "system_time \<Rightarrow> 'x rpc_context \<Rightarrow> std_duration option" where
  "remaining_time now c =
     map_option (\<lambda>d. case duration_since d now of Some r \<Rightarrow> r | None \<Rightarrow> duration_zero) (ctx_deadline c)"

definition is_expired :: "system_time \<Rightarrow> 'x rpc_context \<Rightarrow> bool" where
  "is_expired now c = (case ctx_deadline c of Some d \<Rightarrow> d \<le> now | None \<Rightarrow> False)"

section \<open>Requests and responses\<close>

record ('m, 'x) request =
  req_message :: 'm
  req_context :: "'x rpc_context"

definition Request_new :: "'m \<Rightarrow> token_store \<Rightarrow> ('m, 'x) request \<times> token_store" where
  "Request_new m st = (let (c, st) = RpcContext_new st in (\<lparr>req_message = m, req_context = c\<rparr>, st))"

definition Request_with_context :: "'m \<Rightarrow> 'x rpc_context \<Rightarrow> ('m, 'x) request" where
  "Request_with_context m c = \<lparr>req_message = m, req_context = c\<rparr>"

definition Request_into_inner :: "('m, 'x) request \<Rightarrow> 'm" where
  "Request_into_inner r = req_message r"

record 'm response =
  resp_message :: 'm
  resp_metadata :: metadata
  resp_status :: "status option"

definition Response_new :: "'m \<Rightarrow> 'm response" where
  "Response_new m = \<lparr>resp_message = m, resp_metadata = Metadata_new, resp_status = None\<rparr>"

definition Response_with_metadata :: "'m response \<Rightarrow> metadata \<Rightarrow> 'm response" where
  "Response_with_metadata r md = r\<lparr>resp_metadata := md\<rparr>"

definition Response_with_status :: "'m response \<Rightarrow> status \<Rightarrow> 'm response" where
  "Response_with_status r s = r\<lparr>resp_status := Some s\<rparr>"

definition Response_into_inner :: "'m response \<Rightarrow> 'm" where
  "Response_into_inner r = resp_message r"

section \<open>Deadlines\<close>

lemma system_time_sum_secs:
  "t_secs (system_time_sum now d) = t_secs now + int (d_secs d) + (if t_nanos now + d_nanos d < 1000000000 then 0 else 1)"
  by (simp add: system_time_sum_def Let_def)

lemma system_time_add_overflow:
  "2 ^ 63 \<le> t_secs now + int (d_secs d) \<Longrightarrow> panics (system_time_add now d)"
  by (simp add: system_time_add_def system_time_sum_secs)

lemma system_time_add_ok:
  "t_secs now + int (d_secs d) + 1 < 2 ^ 63 \<Longrightarrow> system_time_add now d = Inr (system_time_sum now d)"
  by (simp add: system_time_add_def system_time_sum_secs)

lemma system_time_add_InrD: "system_time_add now d = Inr t \<Longrightarrow> t = system_time_sum now d"
  by (simp add: system_time_add_def split: if_splits)

lemma system_time_sum_le: "now \<le> system_time_sum now d"
  by (auto simp: system_time_sum_def Let_def less_eq_system_time_def)

lemma duration_since_sum:
  assumes "duration_ok d" and "t_nanos now < 1000000000"
  shows "duration_since (system_time_sum now d) now = Some d"
  using assms
  by (auto simp: system_time_sum_def duration_since_def duration_ok_def Let_def less_system_time_def)

text \<open>A context made with a timeout has that much time left, and has expired once it has passed.\<close>

lemma with_timeout_remaining:
  assumes "RpcContext_with_timeout now d st = Inr (c, st')" and "duration_ok d" and "t_nanos now < 1000000000"
  shows "remaining_time now c = Some d" and "is_expired t c \<longleftrightarrow> system_time_sum now d \<le> t"
proof -
  from assms(1) have "ctx_deadline c = Some (system_time_sum now d)"
    by (auto simp: RpcContext_with_timeout_def bind_result_eq_Inr dest!: system_time_add_InrD split: prod.splits)
  then show "remaining_time now c = Some d" "is_expired t c \<longleftrightarrow> system_time_sum now d \<le> t"
    using duration_since_sum [OF assms(2,3)] by (simp_all add: remaining_time_def is_expired_def)
qed

lemma new_context_never_expires:
  "RpcContext_new st = (c, st') \<Longrightarrow> \<not> is_expired t c \<and> remaining_time t c = None \<and> \<not> ctx_is_cancelled st' c"
  using new_token_not_cancelled [of st "ctx_cancellation c" st']
  by (auto simp: RpcContext_new_def is_expired_def remaining_time_def ctx_is_cancelled_def split: prod.splits)

lemma extensions_lookup:
  assumes "hm_ok e"
  shows "Extensions_get (Extensions_insert t x e) u = (if u = t then Some x else Extensions_get e u)"
    and "Extensions_get (snd (Extensions_remove t e)) u = (if u = t then None else Extensions_get e u)"
  using assms by (simp_all add: Extensions_get_def Extensions_insert_def Extensions_remove_def map_of_hm_remove)

end
