(* ===== verification/Service_Handler.thy ===== *)
theory Service_Handler
  imports Framing Context Method
begin

text \<open>
  Service handlers (\<open>tpt-proto-grpc/src/service.rs\<close>) and the interceptors wrapped around them
  (\<open>tpt-proto-grpc/src/interceptor.rs\<close>). A handler is the record of its trait methods; a stream is
  the list of its items in order.
\<close>

section \<open>Definitions\<close>

record 'x service_handler =
  sh_full_name :: string
  sh_methods :: "(string \<times> method_kind) list"
  sh_unary :: "string \<Rightarrow> 'x rpc_context \<Rightarrow> byte list \<Rightarrow> byte list item"
  sh_server_streaming :: "string \<Rightarrow> 'x rpc_context \<Rightarrow> byte list \<Rightarrow> byte list item list item"
  sh_client_streaming :: "string \<Rightarrow> 'x rpc_context \<Rightarrow> byte list item list \<Rightarrow> byte list item"
  sh_bidi_streaming :: "string \<Rightarrow> 'x rpc_context \<Rightarrow> byte list item list \<Rightarrow> byte list item list item"

definition unimplemented_method :: "string \<Rightarrow> status" where
  "unimplemented_method meth =
     Status_new Unimplemented (''method `'' @ meth @ ''` is not implemented by this service'')"

type_synonym 'x interceptor = "'x rpc_context \<Rightarrow> string \<Rightarrow> 'x rpc_context item"

fun intercept_apply :: "'x interceptor list \<Rightarrow> 'x rpc_context \<Rightarrow> string \<Rightarrow> 'x rpc_context item" where
  "intercept_apply [] ctx path = Inr ctx"
| "intercept_apply (ic # ics) ctx path = bind_result (ic ctx path) (\<lambda>ctx. intercept_apply ics ctx path)"

definition intercepted_unary ::
  "'x service_handler \<Rightarrow> 'x interceptor list \<Rightarrow> string \<Rightarrow> 'x rpc_context \<Rightarrow> byte list \<Rightarrow> byte list item" where
  "intercepted_unary h ics meth ctx req =
     bind_result (intercept_apply ics ctx (sh_full_name h @ ''/'' @ meth)) (\<lambda>ctx. sh_unary h meth ctx req)"

definition intercepted_server_streaming ::
  "'x service_handler \<Rightarrow> 'x interceptor list \<Rightarrow> string \<Rightarrow> 'x rpc_context \<Rightarrow> byte list \<Rightarrow> byte list item list item" where
  "intercepted_server_streaming h ics meth ctx req =
     bind_result (intercept_apply ics ctx (sh_full_name h @ ''/'' @ meth)) (\<lambda>ctx. sh_server_streaming h meth ctx req)"

definition intercepted_client_streaming ::
  "'x service_handler \<Rightarrow> 'x interceptor list \<Rightarrow> string \<Rightarrow> 'x rpc_context \<Rightarrow> byte list item list \<Rightarrow> byte list item" where
  "intercepted_client_streaming h ics meth ctx req =
     bind_result (intercept_apply ics ctx (sh_full_name h @ ''/'' @ meth)) (\<lambda>ctx. sh_client_streaming h meth ctx req)"

definition intercepted_bidi_streaming ::
  "'x service_handler \<Rightarrow> 'x interceptor list \<Rightarrow> string \<Rightarrow> 'x rpc_context \<Rightarrow> byte list item list \<Rightarrow> byte list item list item" where
  "intercepted_bidi_streaming h ics meth ctx req =
     bind_result (intercept_apply ics ctx (sh_full_name h @ ''/'' @ meth)) (\<lambda>ctx. sh_bidi_streaming h meth ctx req)"

definition InterceptedHandler_new :: "'x service_handler \<Rightarrow> 'x interceptor list \<Rightarrow> 'x service_handler" where
  "InterceptedHandler_new h ics =
     \<lparr>sh_full_name = sh_full_name h, sh_methods = sh_methods h,
      sh_unary = intercepted_unary h ics, sh_server_streaming = intercepted_server_streaming h ics,
      sh_client_streaming = intercepted_client_streaming h ics, sh_bidi_streaming = intercepted_bidi_streaming h ics\<rparr>"

section \<open>Chains\<close>

lemma intercept_apply_append:
  "intercept_apply (ics @ ics') ctx path = bind_result (intercept_apply ics ctx path) (\<lambda>ctx. intercept_apply ics' ctx path)"
  by (induction ics arbitrary: ctx) (simp_all add: bind_result_assoc)

text \<open>Wrapping twice is wrapping once with the outer chain before the inner one.\<close>

lemma InterceptedHandler_compose:
  "InterceptedHandler_new (InterceptedHandler_new h inner) outer = InterceptedHandler_new h (outer @ inner)"
  by (simp add: InterceptedHandler_new_def fun_eq_iff intercepted_unary_def intercepted_server_streaming_def
      intercepted_client_streaming_def intercepted_bidi_streaming_def intercept_apply_append bind_result_assoc)

lemma InterceptedHandler_empty: "InterceptedHandler_new h [] = h"
  by (simp add: InterceptedHandler_new_def fun_eq_iff intercepted_unary_def intercepted_server_streaming_def
      intercepted_client_streaming_def intercepted_bidi_streaming_def)

text \<open>The first interceptor that fails decides the call: the ones after it and the handler are not run.\<close>

lemma intercept_short_circuit:
  assumes "intercept_apply ics ctx path = Inr ctx'" and "ic ctx' path = Inl e"
  shows "intercept_apply (ics @ ic # ics') ctx path = Inl e"
  using assms by (simp add: intercept_apply_append)

end
