(* ===== verification/Security.thy ===== *)
theory Security
  imports Context
begin

text \<open>
  Security (\<open>tpt-proto-grpc/src/security.rs\<close>): TLS material, authenticators, authorizers and the
  policy that composes them. The contracts of the two traits are the locales \<open>authenticating\<close> and
  \<open>authorizing\<close>; every implementation of the source interprets them, and the policy is proved over
  them. Base64 is a third-party crate: its decoder is the parameter \<open>b64d\<close>.
\<close>

section \<open>Peer identities\<close>

record peer_identity =
  id_principal :: string
  id_attributes :: "(string \<times> string) list"

definition PeerIdentity_default :: peer_identity where
  "PeerIdentity_default = \<lparr>id_principal = [], id_attributes = []\<rparr>"

definition PeerIdentity_new :: "string \<Rightarrow> peer_identity" where
  "PeerIdentity_new p = \<lparr>id_principal = p, id_attributes = []\<rparr>"

definition with_attribute :: "peer_identity \<Rightarrow> string \<Rightarrow> string \<Rightarrow> peer_identity" where
  "with_attribute i k v = i\<lparr>id_attributes := hm_insert k v (id_attributes i)\<rparr>"

definition identity_attribute :: "peer_identity \<Rightarrow> string \<Rightarrow> string option" where
  "identity_attribute i k = map_of (id_attributes i) k"

section \<open>TLS material\<close>

datatype security_error =
    MissingCertChain string
  | MissingPrivateKey string
  | MissingClientCa string
  | MissingH2Alpn
  | InvalidTlsMaterial string

record pem_block =
  pem_label :: string
  pem_der :: "byte list"

text \<open>\<open>str::lines\<close>: the lines without their ends, no empty line after the last end.\<close>

fun split_lines :: "string \<Rightarrow> string \<Rightarrow> string list" where
  "split_lines cur [] = (if cur = [] then [] else [cur])"
| "split_lines cur (c # s) =
     (if c = CHR 0x0A
      then (if cur \<noteq> [] \<and> hd (rev cur) = CHR 0x0D then butlast cur else cur) # split_lines [] s
      else split_lines (cur @ [c]) s)"

definition str_lines :: "string \<Rightarrow> string list" where
  "str_lines s = split_lines [] s"

text \<open>The lines of a block up to its end (or the end of the data), and the lines left.\<close>

fun pem_body :: "string \<Rightarrow> string list \<Rightarrow> string \<times> string list" where
  "pem_body b64 [] = (b64, [])"
| "pem_body b64 (l # ls) =
     (let l = str_trim l
      in if starts_with l ''-----END '' then (b64, ls) else pem_body (b64 @ l) ls)"

lemma pem_body_shorter: "length (snd (pem_body b64 ls)) \<le> length ls"
  by (induction b64 ls rule: pem_body.induct) (auto simp: Let_def)

definition pem_begin :: "string \<Rightarrow> string option" where
  "pem_begin line = Option.bind (strip_prefix ''-----BEGIN '' line) (strip_suffix ''-----'')"

function parse_pem_lines ::
  "(string \<Rightarrow> (string, byte list) res) \<Rightarrow> string list \<Rightarrow> pem_block list \<Rightarrow> (security_error, pem_block list) res" where
  "parse_pem_lines b64d [] blocks = Inr blocks"
| "parse_pem_lines b64d (line # ls) blocks =
     (case pem_begin (str_trim line) of
        None \<Rightarrow> parse_pem_lines b64d ls blocks
      | Some label \<Rightarrow>
          bind_result (map_fault MissingCertChain
              (b64d (filter (\<lambda>c. c \<notin> {CHR 0x0D, CHR 0x0A, CHR '' '', CHR 0x09}) (fst (pem_body [] ls)))))
            (\<lambda>der. parse_pem_lines b64d (snd (pem_body [] ls)) (blocks @ [\<lparr>pem_label = label, pem_der = der\<rparr>])))"
  by pat_completeness auto
termination
  by (relation "measure (\<lambda>(b64d, ls, blocks). length ls)")
     (auto simp: le_imp_less_Suc pem_body_shorter)

definition parse_pem :: "(string \<Rightarrow> (string, byte list) res) \<Rightarrow> byte list \<Rightarrow> (security_error, pem_block list) res" where
  "parse_pem b64d bs = parse_pem_lines b64d (str_lines (from_utf8_lossy bs)) []"

record tls_config =
  cert_chain_pem :: "byte list"
  private_key_pem :: "byte list"
  client_ca_pem :: "byte list option"
  require_client_cert :: bool
  alpn_protocols :: "string list"

definition TlsConfig_default :: tls_config where
  "TlsConfig_default = \<lparr>cert_chain_pem = [], private_key_pem = [], client_ca_pem = None,
     require_client_cert = False, alpn_protocols = [''h2'']\<rparr>"

definition TlsConfig_from_pem :: "byte list \<Rightarrow> byte list \<Rightarrow> tls_config" where
  "TlsConfig_from_pem cert key = TlsConfig_default\<lparr>cert_chain_pem := cert, private_key_pem := key\<rparr>"

definition with_client_ca :: "tls_config \<Rightarrow> byte list \<Rightarrow> tls_config" where
  "with_client_ca c ca = c\<lparr>client_ca_pem := Some ca, require_client_cert := True\<rparr>"

definition with_alpn :: "tls_config \<Rightarrow> string list \<Rightarrow> tls_config" where
  "with_alpn c protocols = c\<lparr>alpn_protocols := protocols\<rparr>"

definition validate_structure ::
  "(string \<Rightarrow> (string, byte list) res) \<Rightarrow> tls_config \<Rightarrow> (security_error, unit) res" where
  "validate_structure b64d c =
     bind_result (parse_pem b64d (cert_chain_pem c)) (\<lambda>certs.
       if certs = [] then Inl (Raised (MissingCertChain ''no PEM block found''))
       else bind_result (parse_pem b64d (private_key_pem c)) (\<lambda>keys.
         if keys = [] then Inl (Raised (MissingPrivateKey ''no PEM block found''))
         else bind_result
           (if require_client_cert c
            then (case client_ca_pem c of
                None \<Rightarrow> Inl (Raised (MissingClientCa ''mTLS requires a client CA''))
              | Some ca \<Rightarrow> bind_result (parse_pem b64d ca) (\<lambda>cas.
                  if cas = [] then Inl (Raised (MissingClientCa ''no PEM block found'')) else Inr ()))
            else Inr ())
           (\<lambda>_. if \<not> list_ex (\<lambda>p. p = ''h2'') (alpn_protocols c) then Inl (Raised MissingH2Alpn) else Inr ())))"

definition alpn_as_bytes :: "tls_config \<Rightarrow> byte list list" where
  "alpn_as_bytes c = map as_bytes (alpn_protocols c)"

definition is_mutual :: "tls_config \<Rightarrow> bool" where
  "is_mutual c \<longleftrightarrow> require_client_cert c \<and> client_ca_pem c \<noteq> None"

section \<open>Authenticators\<close>

type_synonym authenticate = "metadata \<Rightarrow> peer_info \<Rightarrow> (status, peer_identity) res"

definition constant_time_eq :: "byte list \<Rightarrow> byte list \<Rightarrow> bool" where
  "constant_time_eq a b \<longleftrightarrow>
     foldl (\<lambda>diff i. diff OR unat (a ! i XOR b ! i)) (length a XOR length b) [0..<min (length a) (length b)] = 0"

record bearer_authenticator =
  bta_accepted :: "string list"
  bta_principal_for :: "(string \<times> string) list"

definition BearerTokenAuthenticator_default :: bearer_authenticator where
  "BearerTokenAuthenticator_default = \<lparr>bta_accepted = [], bta_principal_for = []\<rparr>"

definition add_token :: "string \<Rightarrow> string \<Rightarrow> bearer_authenticator \<Rightarrow> bearer_authenticator" where
  "add_token tok prin a =
     a\<lparr>bta_accepted := List.insert tok (bta_accepted a),
       bta_principal_for := hm_insert tok prin (bta_principal_for a)\<rparr>"

definition BearerTokenAuthenticator_new :: "string \<Rightarrow> string \<Rightarrow> bearer_authenticator" where
  "BearerTokenAuthenticator_new tok prin =
     \<lparr>bta_accepted = List.insert tok [], bta_principal_for = hm_insert tok prin []\<rparr>"

definition strip_bearer :: "string \<Rightarrow> string option" where
  "strip_bearer v = map_option str_trim
     (case strip_prefix ''Bearer '' v of Some t \<Rightarrow> Some t | None \<Rightarrow> strip_prefix ''bearer '' v)"

definition extract_bearer :: "metadata \<Rightarrow> string option" where
  "extract_bearer md =
     (case get_text md ''authorization'' of
        Some v \<Rightarrow> strip_bearer v
      | None \<Rightarrow> (case get_binary md ''authorization-bin'' of
            Some b \<Rightarrow> strip_bearer (from_utf8_lossy b)
          | None \<Rightarrow> None))"

definition bearer_authenticate :: "bearer_authenticator \<Rightarrow> authenticate" where
  "bearer_authenticate a md peer =
     (case extract_bearer md of
        None \<Rightarrow> Inl (Raised (Status_new Unauthenticated ''missing bearer token''))
      | Some tok \<Rightarrow>
          if \<not> list_ex (\<lambda>t. constant_time_eq (as_bytes t) (as_bytes tok)) (bta_accepted a)
          then Inl (Raised (Status_new Unauthenticated ''invalid bearer token''))
          else let prin = (case find (\<lambda>(t, _). constant_time_eq (as_bytes t) (as_bytes tok)) (bta_principal_for a) of
                     Some (_, p) \<Rightarrow> p
                   | None \<Rightarrow> tok)
            in Inr (with_attribute (PeerIdentity_new prin) ''auth'' ''bearer''))"

record metadata_authenticator =
  mda_key :: string
  mda_expected :: string
  mda_principal :: string

definition metadata_authenticate :: "metadata_authenticator \<Rightarrow> authenticate" where
  "metadata_authenticate a md peer =
     (case get_text md (mda_key a) of
        None \<Rightarrow> Inl (Raised (Status_new Unauthenticated (''missing '' @ mda_key a)))
      | Some v \<Rightarrow>
          if \<not> constant_time_eq (as_bytes v) (as_bytes (mda_expected a))
          then Inl (Raised (Status_new Unauthenticated (''invalid '' @ mda_key a)))
          else Inr (with_attribute (PeerIdentity_new (mda_principal a)) ''auth'' ''metadata''))"

fun join_comma :: "string list \<Rightarrow> string" where
  "join_comma [] = []"
| "join_comma [s] = s"
| "join_comma (s # ss) = s @ '','' @ join_comma ss"

definition or_else :: "'a option \<Rightarrow> 'a option \<Rightarrow> 'a option" where
  "or_else x y = (case x of Some v \<Rightarrow> Some v | None \<Rightarrow> y)"

definition peer_principal_identity :: "peer_info \<Rightarrow> peer_identity option" where
  "peer_principal_identity peer =
     map_option (\<lambda>p. with_attribute (PeerIdentity_new p) ''auth'' ''peer'') (auth_principal peer)"

definition identity_from_peer :: "peer_info \<Rightarrow> peer_identity option" where
  "identity_from_peer peer =
     (case peer_cert peer of
        Some cert \<Rightarrow>
          (case or_else (or_else (subject_cn cert) (case san_dns cert of d # _ \<Rightarrow> Some d | [] \<Rightarrow> None)) (auth_principal peer) of
             Some prin \<Rightarrow>
               (let i = with_attribute (PeerIdentity_new prin) ''auth'' ''peer-cert''
                in Some (if san_dns cert \<noteq> []
                     then i\<lparr>id_attributes := hm_insert ''san_dns'' (join_comma (san_dns cert)) (id_attributes i)\<rparr> else i))
           | None \<Rightarrow> peer_principal_identity peer)
      | None \<Rightarrow> peer_principal_identity peer)"

section \<open>Authorizers\<close>

type_synonym authorize = "peer_identity \<Rightarrow> string \<Rightarrow> string \<Rightarrow> (status, unit) res"

definition allow_all_authorize :: authorize where
  "allow_all_authorize i service meth = Inr ()"

record role_authorizer =
  role_rules :: "(string \<times> string list) list"
  role_deny_by_default :: bool

definition RoleAuthorizer_new :: role_authorizer where
  "RoleAuthorizer_new = \<lparr>role_rules = [], role_deny_by_default = False\<rparr>"

definition deny_by_default :: "role_authorizer \<Rightarrow> role_authorizer" where
  "deny_by_default a = a\<lparr>role_deny_by_default := True\<rparr>"

definition role_allow :: "string \<Rightarrow> string \<Rightarrow> role_authorizer \<Rightarrow> role_authorizer" where
  "role_allow path prin a =
     a\<lparr>role_rules := hm_insert path
         (List.insert prin (case map_of (role_rules a) path of Some ps \<Rightarrow> ps | None \<Rightarrow> [])) (role_rules a)\<rparr>"

definition role_allowed :: "role_authorizer \<Rightarrow> string \<Rightarrow> string \<Rightarrow> bool" where
  "role_allowed a path prin =
     (case map_of (role_rules a) path of
        Some ps \<Rightarrow> prin \<in> set ps
      | None \<Rightarrow> (case rsplit_once (CHR ''/'') path of
            Some (svc, _) \<Rightarrow> (case map_of (role_rules a) svc of
                Some ps \<Rightarrow> prin \<in> set ps
              | None \<Rightarrow> \<not> role_deny_by_default a)
          | None \<Rightarrow> \<not> role_deny_by_default a))"

definition role_authorize :: "role_authorizer \<Rightarrow> authorize" where
  "role_authorize a i service meth =
     (let path = service @ ''/'' @ meth
      in if role_allowed a path (id_principal i) then Inr ()
         else Inl (Raised (Status_new PermissionDenied
           (''principal '' @ [CHR 0x27] @ id_principal i @ [CHR 0x27] @ '' may not call '' @ path))))"

section \<open>The policy\<close>

record security_policy =
  sp_authenticator :: "authenticate option"
  sp_authorizer :: authorize

definition SecurityPolicy_default :: security_policy where
  "SecurityPolicy_default = \<lparr>sp_authenticator = None, sp_authorizer = allow_all_authorize\<rparr>"

definition SecurityPolicy_none :: security_policy where
  "SecurityPolicy_none = SecurityPolicy_default"

definition with_authenticator :: "security_policy \<Rightarrow> authenticate \<Rightarrow> security_policy" where
  "with_authenticator p a = p\<lparr>sp_authenticator := Some a\<rparr>"

definition with_authorizer :: "security_policy \<Rightarrow> authorize \<Rightarrow> security_policy" where
  "with_authorizer p a = p\<lparr>sp_authorizer := a\<rparr>"

definition policy_apply :: "security_policy \<Rightarrow> 'x rpc_context \<Rightarrow> string \<Rightarrow> string \<Rightarrow> (status, peer_identity) res" where
  "policy_apply p ctx service meth =
     bind_result
       (case sp_authenticator p of
          Some a \<Rightarrow> a (ctx_metadata ctx) (case ctx_peer ctx of Some i \<Rightarrow> i | None \<Rightarrow> PeerInfo_default)
        | None \<Rightarrow> Inr (case Option.bind (ctx_peer ctx) identity_from_peer of Some i \<Rightarrow> i | None \<Rightarrow> PeerIdentity_default))
       (\<lambda>i. bind_result (sp_authorizer p i service meth) (\<lambda>_. Inr i))"

section \<open>Constant-time comparison\<close>

lemma foldl_or_eq_0: "foldl (\<lambda>d i. d OR (f i :: nat)) d is = 0 \<longleftrightarrow> d = 0 \<and> (\<forall>i \<in> set is. f i = 0)"
  by (induction "is" arbitrary: d) (auto simp: or_eq_0_iff)

lemma xor_eq_0_nat: "(m :: nat) XOR n = 0 \<longleftrightarrow> m = n"
  by (auto simp: bit_eq_iff bit_xor_iff)

lemma xor_eq_0_byte: "(b :: byte) XOR c = 0 \<longleftrightarrow> b = c"
  by (auto simp: bit_eq_iff bit_xor_iff)

lemma constant_time_eq_iff [simp]: "constant_time_eq a b \<longleftrightarrow> a = b"
  by (simp only: constant_time_eq_def foldl_or_eq_0 xor_eq_0_nat unat_eq_0 xor_eq_0_byte list_eq_iff_nth_eq [of a b])
     (auto simp only: set_upt atLeastLessThan_iff min.idem zero_le)

section \<open>The contracts\<close>

text \<open>\<open>Authenticator\<close>: a failure is an \<open>UNAUTHENTICATED\<close> status.\<close>

locale authenticating =
  fixes authenticate :: authenticate
  assumes rejects: "authenticate md peer = Inl e \<Longrightarrow> \<exists>msg. e = Raised (Status_new Unauthenticated msg)"

text \<open>\<open>Authorizer\<close>: a denial is a \<open>PERMISSION_DENIED\<close> status.\<close>

locale authorizing =
  fixes authorize :: authorize
  assumes denies: "authorize i service meth = Inl e \<Longrightarrow> \<exists>msg. e = Raised (Status_new PermissionDenied msg)"

locale policed = authenticating + authorizing
begin

definition policy :: security_policy where
  "policy = \<lparr>sp_authenticator = Some authenticate, sp_authorizer = authorize\<rparr>"

lemma apply_Inr:
  "policy_apply policy ctx service meth = Inr i \<longleftrightarrow>
     authenticate (ctx_metadata ctx) (case ctx_peer ctx of Some p \<Rightarrow> p | None \<Rightarrow> PeerInfo_default) = Inr i
     \<and> authorize i service meth = Inr ()"
  by (auto simp: policy_apply_def policy_def bind_result_eq_Inr)

lemma apply_Inl:
  assumes "policy_apply policy ctx service meth = Inl e"
  shows "\<exists>c msg. e = Raised (Status_new c msg) \<and> (c = Unauthenticated \<or> c = PermissionDenied)"
proof (cases "authenticate (ctx_metadata ctx) (case ctx_peer ctx of Some p \<Rightarrow> p | None \<Rightarrow> PeerInfo_default)")
  case (Inl f)
  then show ?thesis
    using assms rejects [OF Inl] by (auto simp: policy_apply_def policy_def)
next
  case (Inr i)
  then show ?thesis
    using assms denies [of i service meth] by (cases "authorize i service meth") (auto simp: policy_apply_def policy_def)
qed

end

interpretation bearer: authenticating "bearer_authenticate a" for a
  by unfold_locales (auto simp: bearer_authenticate_def Let_def split: option.splits if_splits)

interpretation by_metadata: authenticating "metadata_authenticate a" for a
  by unfold_locales (auto simp: metadata_authenticate_def split: option.splits if_splits)

interpretation allow_all: authorizing allow_all_authorize
  by unfold_locales (simp add: allow_all_authorize_def)

interpretation roles: authorizing "role_authorize a" for a
  by unfold_locales (auto simp: role_authorize_def Let_def split: if_splits)

interpretation bearer_roles: policed "bearer_authenticate a" "role_authorize r" for a r
  by unfold_locales

interpretation metadata_roles: policed "metadata_authenticate a" "role_authorize r" for a r
  by unfold_locales

interpretation bearer_all: policed "bearer_authenticate a" allow_all_authorize for a
  by unfold_locales

section \<open>Grants and rules\<close>

text \<open>
  The specification of the two tables: what they hold is the list of the calls that filled them,
  the last grant of a token winning.
\<close>

definition granting :: "(string \<times> string) list \<Rightarrow> bearer_authenticator" where
  "granting grants = fold (\<lambda>(t, p). add_token t p) grants BearerTokenAuthenticator_default"

definition ruling :: "(string \<times> string) list \<Rightarrow> role_authorizer" where
  "ruling rules = fold (\<lambda>(path, p). role_allow path p) rules RoleAuthorizer_new"

definition permitted :: "bool \<Rightarrow> (string \<times> string) list \<Rightarrow> string \<Rightarrow> string \<Rightarrow> string \<Rightarrow> bool" where
  "permitted deny rules p service meth \<longleftrightarrow>
     (if service @ ''/'' @ meth \<in> fst ` set rules then (service @ ''/'' @ meth, p) \<in> set rules
      else if service \<in> fst ` set rules then (service, p) \<in> set rules
      else \<not> deny)"

lemma BearerTokenAuthenticator_new_eq: "BearerTokenAuthenticator_new t p = granting [(t, p)]"
  by (simp add: granting_def add_token_def BearerTokenAuthenticator_new_def BearerTokenAuthenticator_default_def)

lemma granting_snoc: "granting (gs @ [(t, p)]) = add_token t p (granting gs)"
  by (simp add: granting_def)

lemma ruling_snoc: "ruling (rs @ [(t, p)]) = role_allow t p (ruling rs)"
  by (simp add: ruling_def)

lemma granting_lookup:
  "set (bta_accepted (granting gs)) = fst ` set gs \<and> map_of (bta_principal_for (granting gs)) = map_of (rev gs)"
proof (induction gs rule: rev_induct)
  case Nil
  then show ?case by (simp add: granting_def BearerTokenAuthenticator_default_def)
next
  case (snoc g gs)
  then show ?case
    by (cases g) (simp add: granting_snoc add_token_def fun_eq_iff)
qed

lemma ruling_lookup:
  "(case map_of (role_rules (ruling rs)) path of None \<Rightarrow> path \<notin> fst ` set rs
     | Some ps \<Rightarrow> path \<in> fst ` set rs \<and> set ps = {p. (path, p) \<in> set rs})
   \<and> \<not> role_deny_by_default (ruling rs)"
proof (induction rs rule: rev_induct)
  case Nil
  then show ?case by (simp add: ruling_def RoleAuthorizer_new_def)
next
  case (snoc r rs)
  obtain path' p' where r: "r = (path', p')" by (cases r)
  show ?case
    using snoc unfolding r ruling_snoc by (auto simp: role_allow_def image_iff split: option.splits)
qed

lemma find_key: "find (\<lambda>(t, _). t = k) m = map_option (\<lambda>v. (k, v)) (map_of m k)"
  by (induction m) auto

lemma bearer_authenticate_granting:
  "bearer_authenticate (granting gs) md peer =
     (case extract_bearer md of
        None \<Rightarrow> Inl (Raised (Status_new Unauthenticated ''missing bearer token''))
      | Some tok \<Rightarrow> (case map_of (rev gs) tok of
            None \<Rightarrow> Inl (Raised (Status_new Unauthenticated ''invalid bearer token''))
          | Some p \<Rightarrow> Inr (with_attribute (PeerIdentity_new p) ''auth'' ''bearer'')))"
proof (cases "extract_bearer md")
  case (Some tok)
  have "list_ex (\<lambda>t. t = tok) (bta_accepted (granting gs)) \<longleftrightarrow> map_of (rev gs) tok \<noteq> None"
    using granting_lookup [of gs] map_of_eq_None_iff [of "rev gs" tok] by (auto simp: list_ex_iff)
  then show ?thesis
    using granting_lookup [of gs]
    by (simp add: bearer_authenticate_def Some find_key split: option.split)
qed (simp add: bearer_authenticate_def)

lemma role_allowed_ruling:
  assumes "CHR ''/'' \<notin> set meth"
  shows "role_allowed (if deny then deny_by_default (ruling rs) else ruling rs) (service @ ''/'' @ meth) p
    = permitted deny rs p service meth"
proof -
  have split: "rsplit_once (CHR ''/'') (service @ CHR ''/'' # meth) = Some (service, meth)"
    by (rule rsplit_once_append [OF assms])
  show ?thesis
    using ruling_lookup [where rs = rs and path = "service @ ''/'' @ meth"] ruling_lookup [where rs = rs and path = service]
    by (auto simp: role_allowed_def permitted_def split deny_by_default_def split: option.splits)
qed

lemma bearer_roles_policy:
  "with_authorizer (with_authenticator SecurityPolicy_none (bearer_authenticate a)) (role_authorize r) = bearer_roles.policy a r"
  by (simp add: bearer_roles.policy_def with_authorizer_def with_authenticator_def SecurityPolicy_none_def SecurityPolicy_default_def)

text \<open>
  C23: The bearer and role policy admits exactly the granted calls: with the tokens \<open>grants\<close> added
  to the authenticator and the rules \<open>rules\<close> to the authorizer, a call is let through if and only
  if it carries a bearer token that was granted, to a principal the rules permit to call the
  method (the rule of the path before the rule of the service before the default), and it gets
  the identity of the last grant of that token; otherwise the error is \<open>UNAUTHENTICATED\<close> or
  \<open>PERMISSION_DENIED\<close>, never a panic.
\<close>

theorem bearer_role_policy:
  assumes "CHR ''/'' \<notin> set meth"
    and "p = with_authorizer (with_authenticator SecurityPolicy_none (bearer_authenticate (granting grants)))
          (role_authorize (if deny then deny_by_default (ruling rules) else ruling rules))"
  shows "(\<forall>i. policy_apply p ctx service meth = Inr i \<longleftrightarrow>
        (\<exists>tok prin. extract_bearer (ctx_metadata ctx) = Some tok \<and> map_of (rev grants) tok = Some prin
          \<and> permitted deny rules prin service meth
          \<and> i = \<lparr>id_principal = prin, id_attributes = [(''auth'', ''bearer'')]\<rparr>))
    \<and> (\<forall>e. policy_apply p ctx service meth = Inl e \<longrightarrow>
        (\<exists>c msg. e = Raised (Status_new c msg) \<and> (c = Unauthenticated \<or> c = PermissionDenied)))"
proof (intro conjI allI impI)
  have roles: "role_authorize (if deny then deny_by_default (ruling rules) else ruling rules) j service meth = Inr ()
      \<longleftrightarrow> permitted deny rules (id_principal j) service meth" for j
    by (simp only: role_authorize_def Let_def role_allowed_ruling [OF assms(1)]) simp
  show "policy_apply p ctx service meth = Inr i \<longleftrightarrow>
      (\<exists>tok prin. extract_bearer (ctx_metadata ctx) = Some tok \<and> map_of (rev grants) tok = Some prin
        \<and> permitted deny rules prin service meth
        \<and> i = \<lparr>id_principal = prin, id_attributes = [(''auth'', ''bearer'')]\<rparr>)" for i
    unfolding assms(2) bearer_roles_policy bearer_roles.apply_Inr bearer_authenticate_granting roles
    by (simp add: with_attribute_def PeerIdentity_new_def split: option.split) auto
qed (use bearer_roles.apply_Inl in \<open>simp add: assms(2) bearer_roles_policy\<close>)

text \<open>Alice calls with the token that was granted to her.\<close>

definition alice_context :: "unit rpc_context" where
  "alice_context = \<lparr>ctx_metadata = insert_raw Metadata_new ''authorization'' (as_bytes ''Bearer t''), ctx_deadline = None,
     ctx_cancellation = 0, ctx_peer = None, ctx_extensions = []\<rparr>"

lemma alice_token: "extract_bearer (ctx_metadata alice_context) = Some ''t''"
  by code_simp

theorem bearer_role_policy_witness:
  "policy_apply (with_authorizer (with_authenticator SecurityPolicy_none (bearer_authenticate (granting [(''t'', ''alice'')])))
       (role_authorize (deny_by_default (ruling [(''ex.S'', ''alice'')])))) alice_context ''ex.S'' ''Get''
     = Inr \<lparr>id_principal = ''alice'', id_attributes = [(''auth'', ''bearer'')]\<rparr>
   \<and> (\<forall>i. policy_apply (with_authorizer (with_authenticator SecurityPolicy_none (bearer_authenticate (granting [(''t'', ''alice'')])))
       (role_authorize (deny_by_default (ruling [(''ex.S'', ''bob'')])))) alice_context ''ex.S'' ''Get'' \<noteq> Inr i)"
proof -
  note policy = bearer_role_policy [OF _ refl, of "''Get''" "[(''t'', ''alice'')]" True _ alice_context "''ex.S''"]
  show ?thesis
    using policy [of "[(''ex.S'', ''alice'')]"] policy [of "[(''ex.S'', ''bob'')]"]
    by (simp add: alice_token permitted_def)
qed

section \<open>TLS material\<close>

text \<open>
  A block whose end is missing is accepted, and whatever material fails to decode, the error says
  that the certificate chain is missing.
\<close>

lemma unterminated_pem_accepted:
  "pem_begin (str_trim line) = Some label \<Longrightarrow> b64d [] = Inr der \<Longrightarrow>
   parse_pem_lines b64d [line] blocks = Inr (blocks @ [\<lparr>pem_label = label, pem_der = der\<rparr>])"
  by simp

lemma parse_pem_error:
  "parse_pem b64d bs = Inl (Raised e) \<Longrightarrow> \<exists>msg. e = MissingCertChain msg"
proof -
  have "parse_pem_lines b64d ls blocks = Inl (Raised e) \<Longrightarrow> \<exists>msg. e = MissingCertChain msg" for ls blocks
  proof (induction b64d ls blocks rule: parse_pem_lines.induct)
    case (2 b64d line ls blocks)
    show ?case
    proof (cases "pem_begin (str_trim line)")
      case (Some label)
      show ?thesis
      proof (cases "b64d (filter (\<lambda>c. c \<notin> {CHR 0x0D, CHR 0x0A, CHR '' '', CHR 0x09}) (fst (pem_body [] ls)))")
        case (Inl f)
        then show ?thesis using 2 Some by (cases f) auto
      next
        case (Inr der)
        then show ?thesis using 2 Some by simp
      qed
    qed (use 2 in simp)
  qed simp
  then show "parse_pem b64d bs = Inl (Raised e) \<Longrightarrow> \<exists>msg. e = MissingCertChain msg"
    by (auto simp: parse_pem_def)
qed

lemma validate_structure_Inr:
  assumes "validate_structure b64d c = Inr ()"
  shows "''h2'' \<in> set (alpn_protocols c) \<and> (require_client_cert c \<longrightarrow> is_mutual c)
    \<and> (\<exists>bs. parse_pem b64d (cert_chain_pem c) = Inr bs \<and> bs \<noteq> [])
    \<and> (\<exists>bs. parse_pem b64d (private_key_pem c) = Inr bs \<and> bs \<noteq> [])"
  using assms
  by (auto simp: validate_structure_def bind_result_eq_Inr list_ex_iff is_mutual_def split: if_splits option.splits)

end
