(* ===== verification/Observability.thy ===== *)
theory Observability
  imports Context
begin

text \<open>
  Observability (\<open>tpt-proto-grpc/src/observability.rs\<close>): call labels and outcomes, the in-memory
  metrics, the structured log line, the instrumentor of a call and the log of request identifiers.
  A sink is a consumer of events: a call of a \<open>MetricsRecorder\<close>, \<open>Tracer\<close> or \<open>Logger\<close> method is
  the event of the same name, and the \<open>Noop\<close> sinks ignore theirs.
\<close>

section \<open>Labels and outcomes\<close>

datatype streaming_type = STUnary | STServerStreaming | STClientStreaming | STBidiStreaming

definition StreamingType_from_flags :: "bool \<Rightarrow> bool \<Rightarrow> streaming_type" where
  "StreamingType_from_flags client server = (case (client, server) of
      (False, False) \<Rightarrow> STUnary
    | (False, True) \<Rightarrow> STServerStreaming
    | (True, False) \<Rightarrow> STClientStreaming
    | (True, True) \<Rightarrow> STBidiStreaming)"

fun StreamingType_as_str :: "streaming_type \<Rightarrow> string" where
  "StreamingType_as_str STUnary = ''unary''"
| "StreamingType_as_str STServerStreaming = ''server_streaming''"
| "StreamingType_as_str STClientStreaming = ''client_streaming''"
| "StreamingType_as_str STBidiStreaming = ''bidi_streaming''"

record call_labels =
  cl_service :: string
  cl_method :: string
  cl_status :: code
  cl_streaming :: streaming_type

definition CallLabels_new :: "string \<Rightarrow> string \<Rightarrow> code \<Rightarrow> streaming_type \<Rightarrow> call_labels" where
  "CallLabels_new service meth c ty = \<lparr>cl_service = service, cl_method = meth, cl_status = c, cl_streaming = ty\<rparr>"

datatype call_outcome = OutcomeSuccess | OutcomeError code | OutcomeCancelled | OutcomeDeadlineExceeded

definition CallOutcome_from_status :: "code \<Rightarrow> call_outcome" where
  "CallOutcome_from_status c = (case c of
      Ok \<Rightarrow> OutcomeSuccess
    | Cancelled \<Rightarrow> OutcomeCancelled
    | DeadlineExceeded \<Rightarrow> OutcomeDeadlineExceeded
    | other \<Rightarrow> OutcomeError other)"

fun CallOutcome_as_str :: "call_outcome \<Rightarrow> string" where
  "CallOutcome_as_str OutcomeSuccess = ''success''"
| "CallOutcome_as_str OutcomeCancelled = ''cancelled''"
| "CallOutcome_as_str OutcomeDeadlineExceeded = ''deadline_exceeded''"
| "CallOutcome_as_str (OutcomeError c) = ''error''"

section \<open>Metrics\<close>

datatype metric =
    CallStarted
  | CallCompleted std_duration call_outcome
  | StreamStarted
  | StreamClosed
  | MessageSent nat
  | MessageRecv nat
  | BytesSent nat
  | BytesRecv nat
  | CallCancelled
  | CallDeadlineExceeded
  | ConnectionError
  | StreamReset

record metric_sample =
  ms_call_started :: nat
  ms_call_completed :: nat
  ms_stream_started :: nat
  ms_stream_closed :: nat
  ms_message_sent :: nat
  ms_message_recv :: nat
  ms_bytes_sent :: nat
  ms_bytes_recv :: nat
  ms_cancelled :: nat
  ms_deadline_exceeded :: nat
  ms_connection_error :: nat
  ms_stream_reset :: nat
  ms_duration_micros :: nat

definition MetricSample_default :: metric_sample where
  "MetricSample_default = \<lparr>ms_call_started = 0, ms_call_completed = 0, ms_stream_started = 0, ms_stream_closed = 0,
     ms_message_sent = 0, ms_message_recv = 0, ms_bytes_sent = 0, ms_bytes_recv = 0, ms_cancelled = 0,
     ms_deadline_exceeded = 0, ms_connection_error = 0, ms_stream_reset = 0, ms_duration_micros = 0\<rparr>"

type_synonym in_memory = "(call_labels \<times> metric_sample) list"

definition u64_add :: "nat \<Rightarrow> nat \<Rightarrow> (unit, nat) res" where
  "u64_add a b = checked_add 64 a b"

definition with_sample :: "call_labels \<Rightarrow> (metric_sample \<Rightarrow> (unit, metric_sample) res) \<Rightarrow> in_memory \<Rightarrow> (unit, in_memory) res" where
  "with_sample l f m =
     bind_result (f (case map_of m l of Some s \<Rightarrow> s | None \<Rightarrow> MetricSample_default)) (\<lambda>s. Inr (hm_insert l s m))"

definition record_call_completed :: "std_duration \<Rightarrow> metric_sample \<Rightarrow> (unit, metric_sample) res" where
  "record_call_completed d s =
     bind_result (u64_add (ms_call_completed s) 1) (\<lambda>n.
       bind_result (u64_add (ms_duration_micros s) (as_micros d mod 2 ^ 64)) (\<lambda>u.
         Inr (s\<lparr>ms_call_completed := n, ms_duration_micros := u\<rparr>)))"

fun in_memory_record :: "call_labels \<Rightarrow> metric \<Rightarrow> in_memory \<Rightarrow> (unit, in_memory) res" where
  "in_memory_record l CallStarted m =
     with_sample l (\<lambda>s. bind_result (u64_add (ms_call_started s) 1) (\<lambda>n. Inr (s\<lparr>ms_call_started := n\<rparr>))) m"
| "in_memory_record l (CallCompleted d outcome) m = with_sample l (record_call_completed d) m"
| "in_memory_record l StreamStarted m =
     with_sample l (\<lambda>s. bind_result (u64_add (ms_stream_started s) 1) (\<lambda>n. Inr (s\<lparr>ms_stream_started := n\<rparr>))) m"
| "in_memory_record l StreamClosed m =
     with_sample l (\<lambda>s. bind_result (u64_add (ms_stream_closed s) 1) (\<lambda>n. Inr (s\<lparr>ms_stream_closed := n\<rparr>))) m"
| "in_memory_record l (MessageSent k) m =
     with_sample l (\<lambda>s. bind_result (u64_add (ms_message_sent s) k) (\<lambda>n. Inr (s\<lparr>ms_message_sent := n\<rparr>))) m"
| "in_memory_record l (MessageRecv k) m =
     with_sample l (\<lambda>s. bind_result (u64_add (ms_message_recv s) k) (\<lambda>n. Inr (s\<lparr>ms_message_recv := n\<rparr>))) m"
| "in_memory_record l (BytesSent k) m =
     with_sample l (\<lambda>s. bind_result (u64_add (ms_bytes_sent s) k) (\<lambda>n. Inr (s\<lparr>ms_bytes_sent := n\<rparr>))) m"
| "in_memory_record l (BytesRecv k) m =
     with_sample l (\<lambda>s. bind_result (u64_add (ms_bytes_recv s) k) (\<lambda>n. Inr (s\<lparr>ms_bytes_recv := n\<rparr>))) m"
| "in_memory_record l CallCancelled m =
     with_sample l (\<lambda>s. bind_result (u64_add (ms_cancelled s) 1) (\<lambda>n. Inr (s\<lparr>ms_cancelled := n\<rparr>))) m"
| "in_memory_record l CallDeadlineExceeded m =
     with_sample l (\<lambda>s. bind_result (u64_add (ms_deadline_exceeded s) 1) (\<lambda>n. Inr (s\<lparr>ms_deadline_exceeded := n\<rparr>))) m"
| "in_memory_record l ConnectionError m =
     with_sample l (\<lambda>s. bind_result (u64_add (ms_connection_error s) 1) (\<lambda>n. Inr (s\<lparr>ms_connection_error := n\<rparr>))) m"
| "in_memory_record l StreamReset m =
     with_sample l (\<lambda>s. bind_result (u64_add (ms_stream_reset s) 1) (\<lambda>n. Inr (s\<lparr>ms_stream_reset := n\<rparr>))) m"

definition total_calls_started :: "in_memory \<Rightarrow> (unit, nat) res" where
  "total_calls_started m = fold (\<lambda>(_, s) acc. bind_result acc (\<lambda>n. u64_add n (ms_call_started s))) m (Inr 0)"

section \<open>Spans and log records\<close>

record span_context =
  span_id :: "string option"
  span_request_id :: "string option"
  span_system :: string
  span_service :: string
  span_method :: string
  span_status_code :: i32
  span_peer :: "string option"

definition SpanContext_new :: "string \<Rightarrow> string \<Rightarrow> span_context" where
  "SpanContext_new service meth = \<lparr>span_id = None, span_request_id = None, span_system = ''grpc'',
     span_service = service, span_method = meth, span_status_code = 0, span_peer = None\<rparr>"

definition span_with_status :: "span_context \<Rightarrow> code \<Rightarrow> span_context" where
  "span_with_status s c = s\<lparr>span_status_code := Code_as_i32 c\<rparr>"

definition span_with_request_id :: "span_context \<Rightarrow> string \<Rightarrow> span_context" where
  "span_with_request_id s i = s\<lparr>span_request_id := Some i\<rparr>"

datatype log_level = Debug | Info | Warn | Error

record log_record =
  log_level :: log_level
  log_message :: string
  log_request_id :: "string option"
  log_service :: string
  log_method :: string
  log_status :: string
  log_deadline :: "system_time option"
  log_peer :: "string option"
  log_cancellation_reason :: "string option"
  log_span_id :: "string option"

definition hex_digit :: "nat \<Rightarrow> char" where
  "hex_digit n = (if n < 10 then char_of (48 + n) else char_of (87 + n))"

definition json_char :: "char \<Rightarrow> string" where
  "json_char c =
     (if c = CHR 0x22 then [CHR 0x5C, CHR 0x22]
      else if c = CHR 0x5C then [CHR 0x5C, CHR 0x5C]
      else if c = CHR 0x0A then [CHR 0x5C, CHR ''n'']
      else if c = CHR 0x0D then [CHR 0x5C, CHR ''r'']
      else if c = CHR 0x09 then [CHR 0x5C, CHR ''t'']
      else if (of_char c :: nat) < 32
      then CHR 0x5C # ''u00'' @ [hex_digit (of_char c div 16), hex_digit (of_char c mod 16)]
      else [c])"

definition push_json_string :: "string \<Rightarrow> string \<Rightarrow> string" where
  "push_json_string out s = out @ [CHR 0x22] @ concat (map json_char s) @ [CHR 0x22]"

fun level_json :: "log_level \<Rightarrow> string" where
  "level_json Debug = [CHR 0x22] @ ''debug'' @ [CHR 0x22]"
| "level_json Info = [CHR 0x22] @ ''info'' @ [CHR 0x22]"
| "level_json Warn = [CHR 0x22] @ ''warn'' @ [CHR 0x22]"
| "level_json Error = [CHR 0x22] @ ''error'' @ [CHR 0x22]"

text \<open>The member \<open>,"name":\<close> with its string value, when there is one.\<close>

definition json_member :: "string \<Rightarrow> string" where
  "json_member name = [CHR '','', CHR 0x22] @ name @ [CHR 0x22, CHR '':'']"

definition push_member :: "string \<Rightarrow> string option \<Rightarrow> string \<Rightarrow> string" where
  "push_member name v s = (case v of Some x \<Rightarrow> push_json_string (s @ json_member name) x | None \<Rightarrow> s)"

definition json_log_line :: "log_record \<Rightarrow> string" where
  "json_log_line r =
     (let s = [CHR ''{'', CHR 0x22] @ ''tpt_grpc_log'' @ [CHR 0x22] @ '':true'' @ json_member ''level'';
          s = s @ level_json (log_level r);
          s = push_json_string (s @ json_member ''message'') (log_message r);
          s = push_member ''request_id'' (log_request_id r) s;
          s = push_json_string (s @ json_member ''service'') (log_service r);
          s = push_json_string (s @ json_member ''method'') (log_method r);
          s = push_json_string (s @ json_member ''status'') (log_status r);
          s = (case log_deadline r of
                 None \<Rightarrow> s
               | Some d \<Rightarrow> s @ json_member ''deadline_unix_secs''
                   @ show_nat (case duration_since d (SystemTime 0 0) of Some e \<Rightarrow> d_secs e | None \<Rightarrow> 0));
          s = push_member ''peer'' (log_peer r) s;
          s = push_member ''cancellation_reason'' (log_cancellation_reason r) s;
          s = push_member ''span_id'' (log_span_id r) s
      in s @ ''}'')"

section \<open>The instrumentor of a call\<close>

datatype obs_event =
    Metric call_labels metric
  | SpanStart span_context
  | SpanEnd span_context
  | Log log_record

record call_instrumentor =
  ci_labels :: call_labels
  ci_started :: system_time
  ci_span :: "span_context option"
  ci_finished :: bool

definition CallInstrumentor_start :: "system_time \<Rightarrow> call_labels \<Rightarrow> call_instrumentor \<times> obs_event list" where
  "CallInstrumentor_start now l =
     (let span = SpanContext_new (cl_service l) (cl_method l)
      in (\<lparr>ci_labels = l, ci_started = now, ci_span = Some span, ci_finished = False\<rparr>,
          Metric l CallStarted # (if cl_streaming l \<noteq> STUnary then [Metric l StreamStarted] else []) @ [SpanStart span]))"

definition message_sent :: "call_instrumentor \<Rightarrow> nat \<Rightarrow> obs_event list" where
  "message_sent i bytes = [Metric (ci_labels i) (MessageSent 1), Metric (ci_labels i) (BytesSent bytes)]"

definition message_recv :: "call_instrumentor \<Rightarrow> nat \<Rightarrow> obs_event list" where
  "message_recv i bytes = [Metric (ci_labels i) (MessageRecv 1), Metric (ci_labels i) (BytesRecv bytes)]"

definition instr_cancelled :: "call_instrumentor \<Rightarrow> obs_event list" where
  "instr_cancelled i = [Metric (ci_labels i) CallCancelled]"

definition instr_deadline_exceeded :: "call_instrumentor \<Rightarrow> obs_event list" where
  "instr_deadline_exceeded i = [Metric (ci_labels i) CallDeadlineExceeded]"

definition instr_stream_reset :: "call_instrumentor \<Rightarrow> obs_event list" where
  "instr_stream_reset i = [Metric (ci_labels i) StreamReset]"

definition instr_connection_error :: "call_instrumentor \<Rightarrow> obs_event list" where
  "instr_connection_error i = [Metric (ci_labels i) ConnectionError]"

definition elapsed :: "system_time \<Rightarrow> system_time \<Rightarrow> std_duration" where
  "elapsed now started = (case duration_since now started of Some d \<Rightarrow> d | None \<Rightarrow> duration_zero)"

definition finish_with_status :: "system_time \<Rightarrow> call_instrumentor \<Rightarrow> code \<Rightarrow> call_instrumentor \<times> obs_event list" where
  "finish_with_status now i c =
     (if ci_finished i then (i, [])
      else let l = ci_labels i; l' = l\<lparr>cl_status := c\<rparr>
        in (i\<lparr>ci_finished := True, ci_labels := l', ci_span := None\<rparr>,
            Metric l (CallCompleted (elapsed now (ci_started i)) (CallOutcome_from_status c))
            # (if cl_streaming l' \<noteq> STUnary then [Metric l' StreamClosed] else [])
            @ (case ci_span i of Some s \<Rightarrow> [SpanEnd (span_with_status s c)] | None \<Rightarrow> [])))"

definition instr_finish :: "system_time \<Rightarrow> call_instrumentor \<Rightarrow> call_instrumentor \<times> obs_event list" where
  "instr_finish now i = finish_with_status now i Ok"

definition instr_drop :: "system_time \<Rightarrow> call_instrumentor \<Rightarrow> obs_event list" where
  "instr_drop now i = (if \<not> ci_finished i then snd (instr_finish now i) else [])"

section \<open>Request identifiers\<close>

record request_id_log =
  ril_ids :: "string list"
  ril_cap :: nat

definition RequestIdLog_new :: "nat \<Rightarrow> request_id_log" where
  "RequestIdLog_new cap = \<lparr>ril_ids = [], ril_cap = max cap 1\<rparr>"

function pop_to_cap :: "nat \<Rightarrow> string list \<Rightarrow> string list" where
  "pop_to_cap cap q = (if cap < length q then pop_to_cap cap (tl q) else q)"
  by pat_completeness auto
termination
  by (relation "measure (\<lambda>(cap, q). length q)") (auto simp: less_Suc_eq_le dest: sym)

declare pop_to_cap.simps [simp del]

definition RequestIdLog_push :: "string \<Rightarrow> request_id_log \<Rightarrow> request_id_log" where
  "RequestIdLog_push i q = q\<lparr>ril_ids := pop_to_cap (ril_cap q) (ril_ids q @ [i])\<rparr>"

definition recent :: "request_id_log \<Rightarrow> string list" where
  "recent q = ril_ids q"

section \<open>The life of a call\<close>

text \<open>What can be done with an instrumentor between its start and its drop, each at some time.\<close>

datatype instr_op =
    OpSent nat
  | OpRecv nat
  | OpCancelled
  | OpDeadlineExceeded
  | OpStreamReset
  | OpConnectionError
  | OpFinish code

fun run_instr_op :: "system_time \<Rightarrow> call_instrumentor \<Rightarrow> instr_op \<Rightarrow> call_instrumentor \<times> obs_event list" where
  "run_instr_op now i (OpSent n) = (i, message_sent i n)"
| "run_instr_op now i (OpRecv n) = (i, message_recv i n)"
| "run_instr_op now i OpCancelled = (i, instr_cancelled i)"
| "run_instr_op now i OpDeadlineExceeded = (i, instr_deadline_exceeded i)"
| "run_instr_op now i OpStreamReset = (i, instr_stream_reset i)"
| "run_instr_op now i OpConnectionError = (i, instr_connection_error i)"
| "run_instr_op now i (OpFinish c) = finish_with_status now i c"

fun run_instr :: "call_instrumentor \<Rightarrow> (system_time \<times> instr_op) list \<Rightarrow> call_instrumentor \<times> obs_event list" where
  "run_instr i [] = (i, [])"
| "run_instr i ((now, x) # ops) =
     (let (i, es) = run_instr_op now i x; (i, es') = run_instr i ops in (i, es @ es'))"

lemma run_instr_Cons:
  "fst (run_instr i ((now, x) # ops)) = fst (run_instr (fst (run_instr_op now i x)) ops)"
  "snd (run_instr i ((now, x) # ops)) = snd (run_instr_op now i x) @ snd (run_instr (fst (run_instr_op now i x)) ops)"
  by (simp_all add: split_beta)

declare run_instr.simps(2) [simp del]

definition instrumented :: "system_time \<Rightarrow> call_labels \<Rightarrow> (system_time \<times> instr_op) list \<Rightarrow> system_time \<Rightarrow> obs_event list" where
  "instrumented start l ops stop =
     (let (i, es) = CallInstrumentor_start start l; (i, es') = run_instr i ops in es @ es' @ instr_drop stop i)"

text \<open>The events of the life cycle: of a whole call, of its streams and of its span.\<close>

fun lifecycle :: "obs_event \<Rightarrow> bool" where
  "lifecycle (Metric l m) \<longleftrightarrow> (case m of CallStarted \<Rightarrow> True | CallCompleted _ _ \<Rightarrow> True | StreamStarted \<Rightarrow> True
     | StreamClosed \<Rightarrow> True | _ \<Rightarrow> False)"
| "lifecycle (SpanStart s) \<longleftrightarrow> True"
| "lifecycle (SpanEnd s) \<longleftrightarrow> True"
| "lifecycle (Log r) \<longleftrightarrow> False"

fun first_finish :: "(system_time \<times> instr_op) list \<Rightarrow> system_time \<Rightarrow> system_time \<times> code" where
  "first_finish [] stop = (stop, Ok)"
| "first_finish ((now, OpFinish c) # ops) stop = (now, c)"
| "first_finish (_ # ops) stop = first_finish ops stop"

lemma run_instr_op_quiet:
  "(\<forall>c. x \<noteq> OpFinish c) \<Longrightarrow> fst (run_instr_op now i x) = i \<and> filter lifecycle (snd (run_instr_op now i x)) = []"
  by (cases x) (simp_all add: message_sent_def message_recv_def instr_cancelled_def instr_deadline_exceeded_def
      instr_stream_reset_def instr_connection_error_def)

lemma run_instr_finished:
  "ci_finished i \<Longrightarrow> fst (run_instr i ops) = i \<and> filter lifecycle (snd (run_instr i ops)) = []"
proof (induction ops)
  case (Cons e ops)
  obtain now x where e: "e = (now, x)" by (cases e)
  have "fst (run_instr_op now i x) = i \<and> filter lifecycle (snd (run_instr_op now i x)) = []"
    using run_instr_op_quiet [of x now i] Cons.prems by (cases x) (simp_all add: finish_with_status_def)
  then show ?case
    using Cons by (simp add: e run_instr_Cons)
qed simp

lemma finish_finished: "ci_finished (fst (finish_with_status now i c))"
  by (simp add: finish_with_status_def Let_def)

lemma run_instr_drop:
  assumes "\<not> ci_finished i" and "first_finish ops stop = (now, c)"
  shows "filter lifecycle (snd (run_instr i ops) @ instr_drop stop (fst (run_instr i ops)))
    = filter lifecycle (snd (finish_with_status now i c))"
  using assms
proof (induction ops)
  case Nil
  then show ?case by (simp add: instr_drop_def instr_finish_def)
next
  case (Cons e ops)
  obtain t x where e: "e = (t, x)" by (cases e)
  show ?case
  proof (cases "\<exists>d. x = OpFinish d")
    case True
    then have "x = OpFinish c" "t = now"
      using Cons.prems e by auto
    then show ?thesis
      using run_instr_finished [OF finish_finished, of t i c ops]
      by (simp add: e run_instr_Cons instr_drop_def finish_finished)
  next
    case False
    then have "fst (run_instr_op t i x) = i" "filter lifecycle (snd (run_instr_op t i x)) = []"
      using run_instr_op_quiet [of x t i] by auto
    moreover have "first_finish ops stop = (now, c)"
      using Cons.prems e False by (cases x) simp_all
    ultimately show ?thesis
      using Cons by (simp add: e run_instr_Cons)
  qed
qed

text \<open>
  C24: Every call is accounted for once: whatever happens between the start and the drop of an
  instrumentor, however often it is finished or whether it never is, the sinks see one call
  started, one completed, with the outcome and the duration of the first finish (success when it
  is dropped unfinished), one span started and ended with that status, and for a streaming call
  one stream started and one closed. The closed stream, though, is counted under the final status
  and the started one under the initial status, so that they meet in one label set only when the
  call ends with the status its labels were created with.
\<close>

theorem instrumentor_accounts_once:
  assumes "first_finish ops stop = (now, c)"
  shows "filter lifecycle (instrumented start l ops stop) =
    [Metric l CallStarted] @ (if cl_streaming l \<noteq> STUnary then [Metric l StreamStarted] else [])
      @ [SpanStart (SpanContext_new (cl_service l) (cl_method l)),
         Metric l (CallCompleted (elapsed now start) (CallOutcome_from_status c))]
      @ (if cl_streaming l \<noteq> STUnary then [Metric (l\<lparr>cl_status := c\<rparr>) StreamClosed] else [])
      @ [SpanEnd (span_with_status (SpanContext_new (cl_service l) (cl_method l)) c)]"
proof -
  let ?i = "\<lparr>ci_labels = l, ci_started = start, ci_span = Some (SpanContext_new (cl_service l) (cl_method l)), ci_finished = False\<rparr>"
  have "filter lifecycle (snd (run_instr ?i ops) @ instr_drop stop (fst (run_instr ?i ops)))
      = filter lifecycle (snd (finish_with_status now ?i c))"
    by (rule run_instr_drop [OF _ assms]) simp
  then show ?thesis
    by (simp add: instrumented_def CallInstrumentor_start_def Let_def split_beta finish_with_status_def)
qed

theorem instrumentor_accounts_once_witness:
  "filter lifecycle (instrumented (SystemTime 5 0) (CallLabels_new ''S'' ''M'' Ok STUnary)
       [(SystemTime 6 0, OpSent 3), (SystemTime 7 0, OpFinish NotFound), (SystemTime 8 0, OpFinish Ok)] (SystemTime 9 0)) =
     [Metric (CallLabels_new ''S'' ''M'' Ok STUnary) CallStarted, SpanStart (SpanContext_new ''S'' ''M''),
      Metric (CallLabels_new ''S'' ''M'' Ok STUnary) (CallCompleted \<lparr>d_secs = 2, d_nanos = 0\<rparr> (OutcomeError NotFound)),
      SpanEnd (span_with_status (SpanContext_new ''S'' ''M'') NotFound)]"
  using instrumentor_accounts_once [of "[(SystemTime 6 0, OpSent 3), (SystemTime 7 0, OpFinish NotFound), (SystemTime 8 0, OpFinish Ok)]"
      "SystemTime 9 0" "SystemTime 7 0" NotFound "SystemTime 5 0" "CallLabels_new ''S'' ''M'' Ok STUnary"]
  by (simp add: CallLabels_new_def elapsed_def duration_since_def less_system_time_def CallOutcome_from_status_def)

section \<open>Counting\<close>

text \<open>
  The in-memory recorder as a counter: below the bound of \<open>u64\<close>, an event adds to the sample of
  its label set only.
\<close>

lemma u64_add_ok: "a + b < 2 ^ 64 \<Longrightarrow> u64_add a b = Inr (a + b)"
  by (simp add: u64_add_def checked_add_def)

lemma in_memory_other_labels:
  "in_memory_record l e m = Inr m' \<Longrightarrow> l' \<noteq> l \<Longrightarrow> map_of m' l' = map_of m l'"
  by (cases e) (auto simp: with_sample_def bind_result_eq_Inr record_call_completed_def)

text \<open>A streaming call that fails: its stream stays open in the label set it was started in.\<close>

lemma failed_stream_stays_open:
  assumes "cl_streaming l \<noteq> STUnary" and "cl_status l = Ok" and "c \<noteq> Ok"
  shows "\<exists>m. bind_result (bind_result (in_memory_record l StreamStarted [])
        (in_memory_record l (CallCompleted duration_zero (CallOutcome_from_status c))))
        (in_memory_record (l\<lparr>cl_status := c\<rparr>) StreamClosed) = Inr m
    \<and> map_option ms_stream_started (map_of m l) = Some 1 \<and> map_option ms_stream_closed (map_of m l) = Some 0"
proof -
  have "l\<lparr>cl_status := c\<rparr> \<noteq> l"
    using assms by (metis call_labels.select_convs(3) call_labels.surjective call_labels.update_convs(3))
  then show ?thesis
    by (simp add: with_sample_def record_call_completed_def u64_add_ok MetricSample_default_def as_micros_def duration_zero_def)
qed

section \<open>The request log\<close>

lemma pop_to_cap_eq: "pop_to_cap cap q = drop (length q - cap) q"
proof (induction cap q rule: pop_to_cap.induct)
  case (1 cap q)
  then show ?case
    by (subst pop_to_cap.simps, cases q) (simp_all add: Suc_diff_le less_Suc_eq_le)
qed

text \<open>The log holds the most recent identifiers, oldest first, at most its capacity and at least one.\<close>

lemma recent_pushes:
  "recent (fold RequestIdLog_push ids (RequestIdLog_new cap)) = drop (length ids - max cap 1) ids"
proof -
  let ?k = "max cap 1"
  have "ril_ids (fold RequestIdLog_push ids (RequestIdLog_new cap)) = drop (length ids - ?k) ids
      \<and> ril_cap (fold RequestIdLog_push ids (RequestIdLog_new cap)) = ?k"
  proof (induction ids rule: rev_induct)
    case Nil
    then show ?case by (simp add: RequestIdLog_new_def)
  next
    case (snoc i ids)
    have "drop (length (drop (length ids - ?k) ids @ [i]) - ?k) (drop (length ids - ?k) ids @ [i])
        = drop (Suc (length ids) - ?k) (ids @ [i])"
    proof (cases "length ids < ?k")
      case False
      then have "length (drop (length ids - ?k) ids @ [i]) - ?k = 1" "Suc (length ids) - ?k = Suc (length ids - ?k)"
        "drop (length ids - ?k) (ids @ [i]) = drop (length ids - ?k) ids @ [i]"
        by simp_all
      then show ?thesis
        by (metis One_nat_def drop_drop plus_1_eq_Suc)
    qed simp
    then show ?case
      using snoc by (simp add: RequestIdLog_push_def pop_to_cap_eq)
  qed
  then show ?thesis
    by (simp add: recent_def)
qed

text \<open>A JSON string never holds a raw control character.\<close>

lemma json_char_printable: "d \<in> set (json_char c) \<Longrightarrow> 32 \<le> (of_char d :: nat)"
  by (auto simp: json_char_def hex_digit_def split: if_splits)

end
