(* ===== verification/Server.thy ===== *)
theory Server
  imports Service_Handler Security Observability Http_Env
begin

text \<open>
  The HTTP/2 server (\<open>tpt-proto-grpc/src/server.rs\<close>): its builder, the routing table, and the
  handling of one request, from its headers and body to what is sent back. Listening, TLS and the connection loop are I/O; \<open>tokio::select!\<close>
  is an argument that says which branch is ready first.
\<close>

section \<open>Configuration\<close>

record server_config =
  sc_max_concurrent_streams :: u32
  sc_max_message_size :: nat
  sc_max_metadata_size :: nat
  sc_max_header_list_size :: u32
  sc_initial_stream_window :: u32
  sc_initial_connection_window :: u32
  sc_response_compression :: compression
  sc_graceful_shutdown_timeout :: std_duration
  sc_max_concurrent_rpcs :: nat
  sc_keepalive_interval :: "std_duration option"
  sc_keepalive_timeout :: std_duration
  sc_security :: "security_policy option"
  sc_tls :: "tls_config option"

definition ServerConfig_default :: server_config where
  "ServerConfig_default =
     \<lparr>sc_max_concurrent_streams = 100, sc_max_message_size = 4 * 1024 * 1024, sc_max_metadata_size = 8 * 1024,
      sc_max_header_list_size = 16 * 1024, sc_initial_stream_window = 256 * 1024,
      sc_initial_connection_window = 1024 * 1024, sc_response_compression = Identity,
      sc_graceful_shutdown_timeout = from_secs 30, sc_max_concurrent_rpcs = 1000,
      sc_keepalive_interval = Some (from_secs 30), sc_keepalive_timeout = from_secs 20,
      sc_security = None, sc_tls = None\<rparr>"

record 'x registered_service =
  reg_handler :: "'x service_handler"
  reg_methods :: "(string \<times> method_kind) list"

type_synonym 'x registry = "(string \<times> 'x registered_service) list"

record 'x server_builder =
  sb_config :: server_config
  sb_interceptors :: "'x interceptor list"

definition ServerBuilder_new :: "'x server_builder" where
  "ServerBuilder_new = \<lparr>sb_config = ServerConfig_default, sb_interceptors = []\<rparr>"

definition sb_max_message_size :: "nat \<Rightarrow> 'x server_builder \<Rightarrow> 'x server_builder" where
  "sb_max_message_size n b = b\<lparr>sb_config := (sb_config b)\<lparr>sc_max_message_size := n\<rparr>\<rparr>"

definition sb_max_concurrent_rpcs :: "nat \<Rightarrow> 'x server_builder \<Rightarrow> 'x server_builder" where
  "sb_max_concurrent_rpcs n b = b\<lparr>sb_config := (sb_config b)\<lparr>sc_max_concurrent_rpcs := n\<rparr>\<rparr>"

definition sb_max_concurrent_streams :: "u32 \<Rightarrow> 'x server_builder \<Rightarrow> 'x server_builder" where
  "sb_max_concurrent_streams n b = b\<lparr>sb_config := (sb_config b)\<lparr>sc_max_concurrent_streams := n\<rparr>\<rparr>"

definition sb_response_compression :: "compression \<Rightarrow> 'x server_builder \<Rightarrow> 'x server_builder" where
  "sb_response_compression c b = b\<lparr>sb_config := (sb_config b)\<lparr>sc_response_compression := c\<rparr>\<rparr>"

definition sb_graceful_shutdown_timeout :: "std_duration \<Rightarrow> 'x server_builder \<Rightarrow> 'x server_builder" where
  "sb_graceful_shutdown_timeout d b = b\<lparr>sb_config := (sb_config b)\<lparr>sc_graceful_shutdown_timeout := d\<rparr>\<rparr>"

definition sb_keepalive_interval :: "std_duration \<Rightarrow> 'x server_builder \<Rightarrow> 'x server_builder" where
  "sb_keepalive_interval d b = b\<lparr>sb_config := (sb_config b)\<lparr>sc_keepalive_interval := Some d\<rparr>\<rparr>"

definition sb_disable_keepalive :: "'x server_builder \<Rightarrow> 'x server_builder" where
  "sb_disable_keepalive b = b\<lparr>sb_config := (sb_config b)\<lparr>sc_keepalive_interval := None\<rparr>\<rparr>"

definition sb_keepalive_timeout :: "std_duration \<Rightarrow> 'x server_builder \<Rightarrow> 'x server_builder" where
  "sb_keepalive_timeout d b = b\<lparr>sb_config := (sb_config b)\<lparr>sc_keepalive_timeout := d\<rparr>\<rparr>"

definition with_interceptor :: "'x interceptor \<Rightarrow> 'x server_builder \<Rightarrow> 'x server_builder" where
  "with_interceptor ic b = b\<lparr>sb_interceptors := sb_interceptors b @ [ic]\<rparr>"

definition with_security :: "security_policy \<Rightarrow> 'x server_builder \<Rightarrow> 'x server_builder" where
  "with_security p b = b\<lparr>sb_config := (sb_config b)\<lparr>sc_security := Some p\<rparr>\<rparr>"

definition with_tls :: "tls_config \<Rightarrow> 'x server_builder \<Rightarrow> 'x server_builder" where
  "with_tls t b = b\<lparr>sb_config := (sb_config b)\<lparr>sc_tls := Some t\<rparr>\<rparr>"

record 'x server =
  srv_config :: server_config
  srv_interceptors :: "'x interceptor list"
  srv_registry :: "'x registry"
  srv_shutdown :: token

definition ServerBuilder_build :: "token_store \<Rightarrow> 'x server_builder \<Rightarrow> 'x server \<times> token_store" where
  "ServerBuilder_build st b =
     (let (t, st) = CancellationToken_new st
      in (\<lparr>srv_config = sb_config b, srv_interceptors = sb_interceptors b, srv_registry = [], srv_shutdown = t\<rparr>, st))"

definition Server_new :: "token_store \<Rightarrow> 'x server \<times> token_store" where
  "Server_new st = ServerBuilder_build st ServerBuilder_new"

definition wrap_handler :: "'x server \<Rightarrow> 'x service_handler \<Rightarrow> 'x service_handler" where
  "wrap_handler s h = (if srv_interceptors s = [] then h else InterceptedHandler_new h (srv_interceptors s))"

definition add_service :: "'x service_handler \<Rightarrow> 'x server \<Rightarrow> 'x server" where
  "add_service h s =
     s\<lparr>srv_registry := fold (\<lambda>(path, kind) reg.
          hm_insert path \<lparr>reg_handler = wrap_handler s h, reg_methods = hm_insert path kind []\<rparr> reg)
        (sh_methods h) (srv_registry s)\<rparr>"

definition server_shutdown :: "'x server \<Rightarrow> token_store \<Rightarrow> token_store" where
  "server_shutdown s st = cancel st (srv_shutdown s)"

section \<open>The context of a request\<close>

record request_headers =
  rh_pairs :: "(string \<times> string) list"
  rh_deadline :: "system_time option"
  rh_encoding :: compression
  rh_user_agent :: "string option"

fun context_headers ::
  "http_env \<Rightarrow> system_time \<Rightarrow> header_list \<Rightarrow> request_headers \<Rightarrow> (unit, request_headers) res" where
  "context_headers env now [] a = Inr a"
| "context_headers env now ((name, v) # hs) a =
     (if starts_with name '':'' \<or> name = ''content-type'' \<or> name = ''te'' then context_headers env now hs a
      else case env_to_str env v of
          None \<Rightarrow> context_headers env now hs a
        | Some s \<Rightarrow>
            if name = ''grpc-timeout''
            then match_result (parse_timeout s)
                   (\<lambda>_. context_headers env now hs a)
                   (\<lambda>d. bind_result (system_time_add now d) (\<lambda>t. context_headers env now hs (a\<lparr>rh_deadline := Some t\<rparr>)))
            else if name = ''grpc-encoding''
            then context_headers env now hs (a\<lparr>rh_encoding := compression_from_header s\<rparr>)
            else if name = ''user-agent''
            then context_headers env now hs (a\<lparr>rh_user_agent := Some s\<rparr>)
            else context_headers env now hs (a\<lparr>rh_pairs := rh_pairs a @ [(name, s)]\<rparr>))"

definition request_headers_start :: request_headers where
  "request_headers_start = \<lparr>rh_pairs = [], rh_deadline = None, rh_encoding = Identity, rh_user_agent = None\<rparr>"

definition build_context ::
  "http_env \<Rightarrow> system_time \<Rightarrow> token_store \<Rightarrow> header_list \<Rightarrow> string \<Rightarrow> peer_certificate option \<Rightarrow> nat
     \<Rightarrow> (unit, ('x rpc_context \<times> compression) \<times> token_store) res" where
  "build_context env now st headers addr cert max_metadata_size =
     bind_result (context_headers env now headers request_headers_start) (\<lambda>a.
       bind_result (match_result (from_headers (env_b64d env) (rh_pairs a) max_metadata_size) (\<lambda>_. Inr Metadata_new) Inr) (\<lambda>md.
         let (t, st) = CancellationToken_new st
         in Inr ((\<lparr>ctx_metadata = md, ctx_deadline = rh_deadline a, ctx_cancellation = t,
                  ctx_peer = Some \<lparr>peer_addr = Some addr, user_agent = rh_user_agent a, auth_principal = None, peer_cert = cert\<rparr>,
                  ctx_extensions = Extensions_new\<rparr>, rh_encoding a), st)))"

section \<open>Dispatch\<close>

record handler_output =
  ho_message :: "byte list option"
  ho_stream :: "byte list item list option"
  ho_status :: status

definition path_method :: "string \<Rightarrow> string item" where
  "path_method path =
     (case rsplit_once (CHR ''/'') path of
        Some (_, m) \<Rightarrow> Inr m
      | None \<Rightarrow> Inl (Raised (Status_new Internal ''malformed request path'')))"

definition missing_message :: handler_output where
  "missing_message = \<lparr>ho_message = None, ho_stream = None, ho_status = Status_new InvalidArgument ''missing request message''\<rparr>"

definition dispatch ::
  "http_env \<Rightarrow> method_kind \<Rightarrow> body_event list \<Rightarrow> 'x service_handler \<Rightarrow> 'x rpc_context \<Rightarrow> compression \<Rightarrow> server_config
     \<Rightarrow> string \<Rightarrow> handler_output item" where
  "dispatch env kind body h ctx encoding config path =
     bind_result (path_method path) (\<lambda>meth. case kind of
         Unary \<Rightarrow> bind_result (read_single_message (env_ungz env) body encoding (sc_max_message_size config)) (\<lambda>r. case r of
             None \<Rightarrow> Inr missing_message
           | Some req \<Rightarrow> bind_result (sh_unary h meth ctx req) (\<lambda>raw.
               Inr \<lparr>ho_message = Some raw, ho_stream = None, ho_status = Status_ok\<rparr>))
       | ServerStreaming \<Rightarrow> bind_result (read_single_message (env_ungz env) body encoding (sc_max_message_size config)) (\<lambda>r. case r of
             None \<Rightarrow> Inr missing_message
           | Some req \<Rightarrow> bind_result (sh_server_streaming h meth ctx req) (\<lambda>s.
               Inr \<lparr>ho_message = None, ho_stream = Some s, ho_status = Status_ok\<rparr>))
       | ClientStreaming \<Rightarrow>
           bind_result (sh_client_streaming h meth ctx
               (stream_items (env_ungz env) (deframe_stream body encoding (sc_max_message_size config)))) (\<lambda>raw.
             Inr \<lparr>ho_message = Some raw, ho_stream = None, ho_status = Status_ok\<rparr>)
       | BidiStreaming \<Rightarrow>
           bind_result (sh_bidi_streaming h meth ctx
               (stream_items (env_ungz env) (deframe_stream body encoding (sc_max_message_size config)))) (\<lambda>s.
             Inr \<lparr>ho_message = None, ho_stream = Some s, ho_status = Status_ok\<rparr>))"

section \<open>Responses\<close>

datatype sent = SentHeaders "(string \<times> string) list" | SentData "byte list" | SentTrailers "(string \<times> string) list"

record outcome =
  oc_sent :: "sent list"
  oc_events :: "obs_event list"

definition response_headers :: sent where
  "response_headers = SentHeaders [(''content-type'', ''application/grpc'')]"

definition status_trailers :: "http_env \<Rightarrow> status \<Rightarrow> (unit, sent) res" where
  "status_trailers env s =
     bind_result (map_fault (\<lambda>_. ()) (Status_to_trailers s)) (\<lambda>m.
       let m = insert_raw m ''grpc-status'' (as_bytes (show_int (sint (Code_as_i32 (s_code s)))));
           m = (if s_message s \<noteq> [] then insert_raw m ''grpc-message'' (as_bytes (s_message s)) else m)
       in Inr (SentTrailers (to_header_map (env_b64e env) (env_name_ok env) (env_value_ok env) m)))"

definition send_message :: "http_env \<Rightarrow> server_config \<Rightarrow> byte list \<Rightarrow> byte list item" where
  "send_message env config raw =
     map_fault (Status_new Internal) (encode_frame (env_gz env) raw (sc_response_compression config) (sc_max_message_size config))"

text \<open>
  The messages of the response and then its trailers. A message that cannot be framed ends the
  response without trailers, an error item with its own status.
\<close>

fun send_items ::
  "http_env \<Rightarrow> server_config \<Rightarrow> call_instrumentor \<Rightarrow> byte list item list \<Rightarrow> status \<Rightarrow> (unit, outcome) res" where
  "send_items env config i [] s = bind_result (status_trailers env s) (\<lambda>t. Inr \<lparr>oc_sent = [t], oc_events = []\<rparr>)"
| "send_items env config i (x # xs) s =
     match_result x
       (\<lambda>e. bind_result (status_trailers env e) (\<lambda>t. Inr \<lparr>oc_sent = [t], oc_events = []\<rparr>))
       (\<lambda>raw. match_result (send_message env config raw)
          (\<lambda>_. Inr \<lparr>oc_sent = [], oc_events = message_sent i (length raw)\<rparr>)
          (\<lambda>f. bind_result (send_items env config i xs s) (\<lambda>oc.
             Inr \<lparr>oc_sent = SentData f # oc_sent oc, oc_events = message_sent i (length raw) @ oc_events oc\<rparr>)))"

definition send_output ::
  "http_env \<Rightarrow> server_config \<Rightarrow> call_instrumentor \<Rightarrow> handler_output \<Rightarrow> (unit, outcome) res" where
  "send_output env config i out =
     send_items env config i
       ((case ho_message out of Some raw \<Rightarrow> [Inr raw] | None \<Rightarrow> [])
         @ (case ho_stream out of Some s \<Rightarrow> s | None \<Rightarrow> []))
       (ho_status out)"

definition emit_call_log ::
  "string \<Rightarrow> string \<Rightarrow> code \<Rightarrow> string option \<Rightarrow> system_time option \<Rightarrow> string option \<Rightarrow> obs_event" where
  "emit_call_log service meth c peer deadline request_id =
     Log \<lparr>log_level = (if c = Ok then Info else Warn), log_message = ''rpc completed'', log_request_id = request_id,
          log_service = service, log_method = meth, log_status = Code_description c, log_deadline = deadline,
          log_peer = peer, log_cancellation_reason = None, log_span_id = None\<rparr>"

section \<open>Handling a request\<close>

text \<open>Which branch of the \<open>select!\<close> is ready first.\<close>

datatype winner = WorkDone | ShutdownFirst | DeadlineFirst

definition select_result :: "winner \<Rightarrow> system_time option \<Rightarrow> 'a item \<Rightarrow> 'a item" where
  "select_result win deadline work =
     (case win of
        WorkDone \<Rightarrow> work
      | ShutdownFirst \<Rightarrow> Inl (Raised (Status_new Unavailable ''server shutting down''))
      | DeadlineFirst \<Rightarrow> (case deadline of
            Some _ \<Rightarrow> Inl (Raised (Status_new DeadlineExceeded ''deadline exceeded''))
          | None \<Rightarrow> work))"

record rpc_request =
  rq_path :: string
  rq_headers :: header_list
  rq_body :: "body_event list"

definition full_service :: "string \<Rightarrow> string \<times> string" where
  "full_service path =
     (let (package, svc, meth) = (case parse_path path of Some p \<Rightarrow> p | None \<Rightarrow> ([], [], []))
      in (if package = [] then svc else package @ ''.'' @ svc, meth))"

definition route :: "'x registry \<Rightarrow> string \<Rightarrow> 'x service_handler option \<times> method_kind" where
  "route reg path =
     (case map_of reg path of
        Some svc \<Rightarrow> (Some (reg_handler svc), case map_of (reg_methods svc) path of Some k \<Rightarrow> k | None \<Rightarrow> Unary)
      | None \<Rightarrow> (None, Unary))"

definition set_principal :: "'x rpc_context \<Rightarrow> string \<Rightarrow> 'x rpc_context" where
  "set_principal ctx prin = ctx\<lparr>ctx_peer := map_option (\<lambda>p. p\<lparr>auth_principal := Some prin\<rparr>) (ctx_peer ctx)\<rparr>"

definition authorize_call :: "server_config \<Rightarrow> 'x rpc_context \<Rightarrow> string \<Rightarrow> string \<Rightarrow> 'x rpc_context item" where
  "authorize_call config ctx service meth =
     (case sc_security config of
        Some policy \<Rightarrow> bind_result (policy_apply policy ctx service meth) (\<lambda>i. Inr (set_principal ctx (id_principal i)))
      | None \<Rightarrow> (case Option.bind (ctx_peer ctx) identity_from_peer of
            Some i \<Rightarrow> Inr (set_principal ctx (id_principal i))
          | None \<Rightarrow> Inr ctx))"

definition reject ::
  "http_env \<Rightarrow> system_time \<Rightarrow> call_instrumentor \<Rightarrow> (code \<Rightarrow> obs_event) \<Rightarrow> status \<Rightarrow> (unit, outcome) res" where
  "reject env later i log s =
     bind_result (status_trailers env s) (\<lambda>t.
       Inr \<lparr>oc_sent = [response_headers, t],
            oc_events = snd (finish_with_status later i (s_code s)) @ [log (s_code s)]\<rparr>)"

definition handle_request ::
  "http_env \<Rightarrow> system_time \<Rightarrow> system_time \<Rightarrow> winner \<Rightarrow> token_store \<Rightarrow> server_config \<Rightarrow> 'x registry
     \<Rightarrow> string \<Rightarrow> peer_certificate option \<Rightarrow> rpc_request \<Rightarrow> (unit, outcome) res" where
  "handle_request env now later win st config reg addr cert rq =
     (let (service, meth) = full_service (rq_path rq);
          (handler, kind) = route reg (rq_path rq)
      in bind_result (build_context env now st (rq_headers rq) addr cert (sc_max_metadata_size config)) (\<lambda>((ctx, encoding), st).
        let labels = CallLabels_new service meth Ok
              (StreamingType_from_flags (kind = ClientStreaming \<or> kind = BidiStreaming) (kind = ServerStreaming \<or> kind = BidiStreaming));
            (i, started) = CallInstrumentor_start now labels;
            log = (\<lambda>c. emit_call_log service meth c (Option.bind (ctx_peer ctx) peer_addr) (ctx_deadline ctx)
                    (get_text (ctx_metadata ctx) ''x-request-id''))
        in bind_result
          (match_result (authorize_call config ctx service meth)
            (\<lambda>s. reject env later i log s)
            (\<lambda>ctx. case handler of
                None \<Rightarrow> reject env later i log (Status_new Unimplemented (''no method `'' @ rq_path rq @ ''`''))
              | Some h \<Rightarrow>
                  match_result (select_result win (ctx_deadline ctx)
                      (dispatch env kind (rq_body rq) h ctx encoding config (rq_path rq)))
                    (\<lambda>s. reject env later i log s)
                    (\<lambda>out. let (i, finished) = finish_with_status later i Ok
                      in bind_result (send_output env config i out) (\<lambda>oc.
                        Inr \<lparr>oc_sent = response_headers # oc_sent oc,
                             oc_events = finished @ [log Ok] @ oc_events oc\<rparr>))))
          (\<lambda>oc. Inr (oc\<lparr>oc_events := started @ oc_events oc\<rparr>))))"

end
