(* ===== verification/Server_Properties.thy ===== *)
theory Server_Properties
  imports Server
begin

text \<open>
  What the server makes of a request: the context it builds, the security policy it enforces
  before the handler runs, and two faults of the context: reserved headers and huge timeouts.
\<close>

section \<open>The context\<close>

definition skipped_header :: "string \<Rightarrow> bool" where
  "skipped_header name \<longleftrightarrow> starts_with name '':'' \<or> name = ''content-type'' \<or> name = ''te''"

definition special_header :: "string \<Rightarrow> bool" where
  "special_header name \<longleftrightarrow> skipped_header name \<or> name = ''grpc-timeout'' \<or> name = ''grpc-encoding'' \<or> name = ''user-agent''"

lemma context_headers_skip:
  "skipped_header name \<or> env_to_str env v = None \<Longrightarrow> context_headers env now ((name, v) # hs) a = context_headers env now hs a"
  by (auto simp: skipped_header_def)

lemma context_headers_text:
  assumes "\<not> skipped_header name" and "env_to_str env v = Some s"
  shows "context_headers env now ((name, v) # hs) a =
    (if name = ''grpc-timeout''
     then match_result (parse_timeout s) (\<lambda>_. context_headers env now hs a)
            (\<lambda>d. bind_result (system_time_add now d) (\<lambda>t. context_headers env now hs (a\<lparr>rh_deadline := Some t\<rparr>)))
     else if name = ''grpc-encoding'' then context_headers env now hs (a\<lparr>rh_encoding := compression_from_header s\<rparr>)
     else if name = ''user-agent'' then context_headers env now hs (a\<lparr>rh_user_agent := Some s\<rparr>)
     else context_headers env now hs (a\<lparr>rh_pairs := rh_pairs a @ [(name, s)]\<rparr>))"
  using assms by (auto simp: skipped_header_def)

declare context_headers.simps(2) [simp del]

lemma context_headers_pairs:
  "context_headers env now hs a = Inr a' \<Longrightarrow>
   rh_pairs a' = rh_pairs a @ header_pairs env (filter (\<lambda>(k, v). \<not> special_header k) hs)"
proof (induction hs arbitrary: a)
  case (Cons h hs)
  obtain name v where h: "h = (name, v)" by (cases h)
  show ?case
  proof (cases "skipped_header name \<or> env_to_str env v = None")
    case True
    have "rh_pairs a' = rh_pairs a @ header_pairs env (filter (\<lambda>(k, v). \<not> special_header k) hs)"
      using Cons.IH [of a] Cons.prems unfolding h context_headers_skip [OF True] .
    then show ?thesis
      using True by (auto simp: h special_header_def)
  next
    case False
    then obtain s where s: "env_to_str env v = Some s" and n: "\<not> skipped_header name"
      by auto
    note eq = Cons.prems [unfolded h context_headers_text [OF n s]]
    show ?thesis
    proof (cases "name = ''grpc-timeout''")
      case True
      then have t: "special_header name" by (simp add: special_header_def)
      show ?thesis
      proof (cases "parse_timeout s")
        case (Inl f)
        then show ?thesis
          using Cons.IH [of a] eq True t by (cases f) (simp_all add: h)
      next
        case (Inr d)
        then show ?thesis
          using Cons.IH eq True t by (auto simp: h bind_result_eq_Inr)
      qed
    next
      case False
      then show ?thesis
        using Cons.IH eq n s by (auto simp: h special_header_def split: if_splits)
    qed
  qed
qed simp

lemma build_context_Inr:
  assumes "build_context env now st hs addr cert n = Inr ((ctx, enc), st')"
  shows "ctx_metadata ctx =
      (case from_headers (env_b64d env) (header_pairs env (filter (\<lambda>(k, v). \<not> special_header k) hs)) n of
         Inr md \<Rightarrow> md | Inl _ \<Rightarrow> Metadata_new)"
    and "\<exists>p. ctx_peer ctx = Some p"
proof -
  from assms obtain a md where a: "context_headers env now hs request_headers_start = Inr a"
    and md: "match_result (from_headers (env_b64d env) (rh_pairs a) n) (\<lambda>_. Inr Metadata_new) Inr = (Inr md :: (unit, _) res)"
    and c: "ctx_metadata ctx = md" "\<exists>p. ctx_peer ctx = Some p"
    by (auto simp: build_context_def bind_result_eq_Inr CancellationToken_new_def)
  have "rh_pairs a = header_pairs env (filter (\<lambda>(k, v). \<not> special_header k) hs)"
    using context_headers_pairs [OF a] by (simp add: request_headers_start_def)
  then show "ctx_metadata ctx =
      (case from_headers (env_b64d env) (header_pairs env (filter (\<lambda>(k, v). \<not> special_header k) hs)) n of
         Inr md \<Rightarrow> md | Inl _ \<Rightarrow> Metadata_new)"
    using md c by (auto simp: match_result_def split: sum.splits fault.splits)
  show "\<exists>p. ctx_peer ctx = Some p" by (rule c)
qed

lemma header_pairs_mem:
  "(k, v) \<in> set hs \<Longrightarrow> env_to_str env v = Some s \<Longrightarrow> (k, s) \<in> set (header_pairs env hs)"
  by (induction env hs rule: header_pairs.induct) (auto split: option.split)

lemma from_headers_reserved:
  assumes "(k, s) \<in> set ps" and "reserved_key k"
  shows "\<exists>e. from_headers b64d ps n = Inl e"
proof (cases "parse_headers b64d ps False Metadata_new")
  case (Inl e)
  then show ?thesis by (simp add: from_headers_def metadata_parse_def)
next
  case (Inr m)
  from parse_headers_keys [OF this] have "validate_key k False = Inr ()"
    using assms(1) by force
  then show ?thesis
    using assms(2) by (simp add: validate_key_Inr)
qed

section \<open>The policy\<close>

definition sent_of :: "(unit, outcome) res \<Rightarrow> (unit, sent list) res" where
  "sent_of r = bind_result r (\<lambda>oc. Inr (oc_sent oc))"

lemma sent_of_simps [simp]:
  "sent_of (Inr oc) = Inr (oc_sent oc)" "sent_of (Inl e) = Inl e"
  "sent_of (bind_result r (\<lambda>oc. Inr (oc\<lparr>oc_events := f oc\<rparr>))) = sent_of r"
  by (simp_all add: sent_of_def bind_result_assoc)

lemma sent_of_reject:
  "sent_of (reject env later i log s) = bind_result (status_trailers env s) (\<lambda>t. Inr [response_headers, t])"
  by (simp add: sent_of_def reject_def bind_result_assoc)

text \<open>The answer that only depends on the status.\<close>

definition answer :: "http_env \<Rightarrow> status \<Rightarrow> (unit, sent list) res" where
  "answer env s = bind_result (status_trailers env s) (\<lambda>t. Inr [response_headers, t])"

text \<open>What is sent for the messages of a response and its final status.\<close>

fun items_sent :: "http_env \<Rightarrow> server_config \<Rightarrow> byte list item list \<Rightarrow> status \<Rightarrow> (unit, sent list) res" where
  "items_sent env config [] s = bind_result (status_trailers env s) (\<lambda>t. Inr [t])"
| "items_sent env config (x # xs) s =
     match_result x (\<lambda>e. bind_result (status_trailers env e) (\<lambda>t. Inr [t]))
       (\<lambda>raw. match_result (send_message env config raw) (\<lambda>_. Inr [])
          (\<lambda>f. bind_result (items_sent env config xs s) (\<lambda>ys. Inr (SentData f # ys))))"

definition output_sent :: "http_env \<Rightarrow> server_config \<Rightarrow> handler_output \<Rightarrow> (unit, sent list) res" where
  "output_sent env config out =
     bind_result (items_sent env config
         ((case ho_message out of Some raw \<Rightarrow> [Inr raw] | None \<Rightarrow> []) @ (case ho_stream out of Some s \<Rightarrow> s | None \<Rightarrow> []))
         (ho_status out))
       (\<lambda>xs. Inr (response_headers # xs))"

lemma sent_of_match:
  "sent_of (match_result m err ok) = match_result m (\<lambda>e. sent_of (err e)) (\<lambda>x. sent_of (ok x))"
  by (simp add: match_result_def split: sum.split fault.split)

lemma sent_of_bind: "sent_of (bind_result r (\<lambda>oc. Inr \<lparr>oc_sent = f (oc_sent oc), oc_events = g oc\<rparr>)) = bind_result (sent_of r) (\<lambda>xs. Inr (f xs))"
  by (simp add: sent_of_def bind_result_assoc)

lemma sent_of_final: "sent_of (bind_result r (\<lambda>t. Inr \<lparr>oc_sent = [t], oc_events = []\<rparr>)) = bind_result r (\<lambda>t. Inr [t])"
  by (simp add: sent_of_def bind_result_assoc)

lemma sent_of_items: "sent_of (send_items env config i xs s) = items_sent env config xs s"
  by (induction xs) (simp_all add: sent_of_match sent_of_bind [where f = "\<lambda>xs. SentData _ # xs"] sent_of_final)

lemma handle_request_sent:
  assumes "build_context env now st (rq_headers rq) addr cert (sc_max_metadata_size config) = Inr ((ctx, encoding), st')"
    and "full_service (rq_path rq) = (service, meth)" and "route reg (rq_path rq) = (handler, kind)"
  shows "sent_of (handle_request env now later win st config reg addr cert rq) =
    match_result (authorize_call config ctx service meth) (answer env)
      (\<lambda>ctx'. case handler of
          None \<Rightarrow> answer env (Status_new Unimplemented (''no method `'' @ rq_path rq @ ''`''))
        | Some h \<Rightarrow> match_result (select_result win (ctx_deadline ctx')
              (dispatch env kind (rq_body rq) h ctx' encoding config (rq_path rq)))
            (answer env) (output_sent env config))"
proof -
  have ok: "sent_of (bind_result (send_output env config i out) (\<lambda>oc. Inr \<lparr>oc_sent = response_headers # oc_sent oc, oc_events = g oc\<rparr>))
      = output_sent env config out" for i out g
    by (simp add: sent_of_bind [where f = "\<lambda>xs. response_headers # xs"] send_output_def sent_of_items output_sent_def)
  show ?thesis
    by (cases handler)
       (simp_all add: handle_request_def assms Let_def split_beta sent_of_match sent_of_reject answer_def [symmetric] ok)
qed

lemma handle_request_panics:
  "build_context env now st (rq_headers rq) addr cert (sc_max_metadata_size config) = (Inl f :: (unit, ('x rpc_context \<times> _) \<times> _) res) \<Longrightarrow>
   handle_request env now later win st config (reg :: 'x registry) addr cert rq = Inl f"
  by (simp add: handle_request_def Let_def split_beta)

text \<open>
  C25: The policy decides before the handler: with a security policy configured, the answer to a
  request is the status of the policy's error, whatever is registered, whatever the body and the
  race of the branches; only if the policy admits the caller does the registered handler run, with
  the principal the policy resolved as the caller's identity, and its result, the shutdown or the
  deadline decides what is sent.
\<close>

theorem server_enforces_policy:
  assumes "sc_security config = Some p"
    and "build_context env now st (rq_headers rq) addr cert (sc_max_metadata_size config) = Inr ((ctx, encoding), st')"
    and "full_service (rq_path rq) = (service, meth)"
  shows "sent_of (handle_request env now later win st config reg addr cert rq) =
    match_result (policy_apply p ctx service meth) (answer env)
      (\<lambda>i. case route reg (rq_path rq) of
          (None, _) \<Rightarrow> answer env (Status_new Unimplemented (''no method `'' @ rq_path rq @ ''`''))
        | (Some h, kind) \<Rightarrow> match_result
            (select_result win (ctx_deadline ctx)
              (dispatch env kind (rq_body rq) h (set_principal ctx (id_principal i)) encoding config (rq_path rq)))
            (answer env) (output_sent env config))"
proof -
  obtain handler kind where r: "route reg (rq_path rq) = (handler, kind)"
    by (cases "route reg (rq_path rq)")
  have m: "match_result (bind_result m (\<lambda>i. Inr (g i))) err ok = match_result m err (\<lambda>i. ok (g i))" for m :: "('e, 'b) res" and g err ok
    by (simp add: match_result_def bind_result_def split: sum.split fault.split)
  show ?thesis
    unfolding handle_request_sent [OF assms(2,3) r]
    by (simp add: authorize_call_def assms(1) m r set_principal_def cong: option.case_cong)
qed

text \<open>A server that admits one token.\<close>

definition token_config :: server_config where
  "token_config = ServerConfig_default\<lparr>sc_security := Some (with_authorizer
     (with_authenticator SecurityPolicy_none (bearer_authenticate (granting [(''t'', ''alice'')]))) allow_all_authorize)\<rparr>"

definition get_request :: "header_list \<Rightarrow> rpc_request" where
  "get_request hs = \<lparr>rq_path = ''/ex.S/Get'', rq_headers = hs, rq_body = []\<rparr>"

lemma full_service_get: "full_service ''/ex.S/Get'' = (''ex.S'', ''Get'')"
  by code_simp

definition plain_context :: "metadata \<Rightarrow> unit rpc_context" where
  "plain_context md = \<lparr>ctx_metadata = md, ctx_deadline = None, ctx_cancellation = 0,
     ctx_peer = Some \<lparr>peer_addr = Some ''a'', user_agent = None, auth_principal = None, peer_cert = None\<rparr>, ctx_extensions = []\<rparr>"

lemma plain_build_context:
  "build_context plain_env now [] [] ''a'' None n = Inr ((plain_context Metadata_new, Identity), [False])"
  by (simp add: build_context_def request_headers_start_def from_headers_def metadata_parse_def total_size_def
      Metadata_new_def plain_context_def CancellationToken_new_def Extensions_new_def)

theorem server_enforces_policy_witness:
  "sent_of (handle_request plain_env (SystemTime 5 0) (SystemTime 6 0) WorkDone [] token_config ([] :: unit registry) ''a'' None (get_request []))
     = answer plain_env (Status_new Unauthenticated ''missing bearer token'')"
proof -
  have "policy_apply (with_authorizer (with_authenticator SecurityPolicy_none (bearer_authenticate (granting [(''t'', ''alice'')])))
      allow_all_authorize) (plain_context Metadata_new) ''ex.S'' ''Get'' = Inl (Raised (Status_new Unauthenticated ''missing bearer token''))"
    by (simp add: policy_apply_def with_authorizer_def with_authenticator_def bearer_authenticate_def extract_bearer_def
        plain_context_def)
  then show ?thesis
    using server_enforces_policy [of token_config _ plain_env "SystemTime 5 0" "[]" "get_request []" "''a''" None
        "plain_context Metadata_new" Identity "[False]" "''ex.S''" "''Get''" "SystemTime 6 0" WorkDone "[] :: unit registry"]
    by (simp add: token_config_def get_request_def full_service_get plain_build_context)
qed

section \<open>Reserved headers\<close>

text \<open>
  A reserved header disarms the metadata: a request with any text header of a reserved name
  that the server does not read itself, such as the \<open>grpc-accept-encoding\<close> that gRPC clients
  send, gets an empty metadata map, because the parse error of the reserved key is replaced by the
  default. A call with a valid bearer token is then answered \<open>UNAUTHENTICATED\<close>.
\<close>

lemma reserved_header_drops_metadata:
  assumes "(k, v) \<in> set (rq_headers rq)" and "env_to_str env v = Some s" and "reserved_key k" and "\<not> special_header k"
    and "build_context env now st (rq_headers rq) addr cert (sc_max_metadata_size config) = Inr ((ctx :: 'x rpc_context, encoding), st')"
    and "sc_security config = Some (with_authorizer (with_authenticator SecurityPolicy_none (bearer_authenticate a)) az)"
  shows "ctx_metadata ctx = Metadata_new
    \<and> sent_of (handle_request env now later win st config (reg :: 'x registry) addr cert rq)
      = answer env (Status_new Unauthenticated ''missing bearer token'')"
proof -
  have "(k, s) \<in> set (header_pairs env (filter (\<lambda>(k, v). \<not> special_header k) (rq_headers rq)))"
    by (rule header_pairs_mem [OF _ assms(2)]) (simp add: assms(1,4))
  from from_headers_reserved [OF this assms(3), of "env_b64d env" "sc_max_metadata_size config"] build_context_Inr(1) [OF assms(5)]
  have md: "ctx_metadata ctx = Metadata_new" by auto
  obtain service meth where f: "full_service (rq_path rq) = (service, meth)"
    by (cases "full_service (rq_path rq)")
  have no: "extract_bearer Metadata_new = None"
    by (simp add: extract_bearer_def)
  have "policy_apply (with_authorizer (with_authenticator SecurityPolicy_none (bearer_authenticate a)) az) ctx service meth
      = Inl (Raised (Status_new Unauthenticated ''missing bearer token''))"
    by (simp add: policy_apply_def with_authorizer_def with_authenticator_def bearer_authenticate_def md no)
  then have "authorize_call config ctx service meth = Inl (Raised (Status_new Unauthenticated ''missing bearer token''))"
    by (simp add: authorize_call_def assms(6))
  then show ?thesis
    using handle_request_sent [OF assms(5) f surjective_pairing] md by simp
qed

lemma reserved_header_drops_metadata_witness:
  "sent_of (handle_request plain_env (SystemTime 5 0) (SystemTime 6 0) WorkDone [] token_config ([] :: unit registry) ''a'' None
       (get_request [(''grpc-accept-encoding'', as_bytes ''gzip''), (''authorization'', as_bytes ''Bearer t'')]))
     = answer plain_env (Status_new Unauthenticated ''missing bearer token'')"
proof -
  let ?hs = "[(''grpc-accept-encoding'', as_bytes ''gzip''), (''authorization'', as_bytes ''Bearer t'')]"
  have r: "reserved_key ''grpc-accept-encoding''" "\<not> special_header ''grpc-accept-encoding''"
    by (simp_all add: reserved_key_def special_header_def skipped_header_def starts_with_def)
  have b: "\<exists>ctx st'. build_context plain_env (SystemTime 5 0) [] ?hs ''a'' None n = Inr ((ctx :: unit rpc_context, Identity), st')" for n
    by (simp add: build_context_def request_headers_start_def context_headers_text skipped_header_def starts_with_def
        plain_env_def CancellationToken_new_def from_headers_def metadata_parse_def validate_key_def reserved_key_def)
  obtain ctx st' where "build_context plain_env (SystemTime 5 0) [] ?hs ''a'' None (sc_max_metadata_size token_config)
      = Inr ((ctx :: unit rpc_context, Identity), st')"
    using b by blast
  from reserved_header_drops_metadata [of "''grpc-accept-encoding''" "as_bytes ''gzip''" "get_request ?hs" plain_env "''gzip''",
      OF _ _ r, of "SystemTime 5 0" "[]" "''a''" None token_config ctx Identity st' "granting [(''t'', ''alice'')]" allow_all_authorize]
    this show ?thesis
    by (simp add: get_request_def plain_env_def token_config_def)
qed

section \<open>Deadlines\<close>

text \<open>
  A timeout header becomes the deadline, or kills the task: a request whose \<open>grpc-timeout\<close>
  parses gets the deadline that lies the timeout after its arrival, unless that point in time is
  beyond what the clock type holds; then the addition panics and the request is never answered,
  although the header was valid.
\<close>

lemma timeout_header_deadline:
  assumes "parse_timeout s = Inr d" and "env_to_str env v = Some s" and "rq_headers rq = [(''grpc-timeout'', v)]"
  shows "if t_secs (system_time_sum now d) < 2 ^ 63
    then \<exists>(ctx :: 'x rpc_context) st'. build_context env now st (rq_headers rq) addr cert n = Inr ((ctx, Identity), st')
       \<and> ctx_deadline ctx = Some (system_time_sum now d)
       \<and> (duration_ok d \<and> t_nanos now < 1000000000 \<longrightarrow> remaining_time now ctx = Some d)
    else panics (handle_request env now later win st config (reg :: 'x registry) addr cert rq)"
proof -
  have ch: "context_headers env now (rq_headers rq) a =
      bind_result (system_time_add now d) (\<lambda>t. Inr (a\<lparr>rh_deadline := Some t\<rparr>))" for a
    unfolding assms(3)
    by (subst context_headers_text [OF _ assms(2)]) (simp_all add: skipped_header_def starts_with_def assms(1))
  have pairs: "from_headers b64d [] m = Inr Metadata_new" for b64d m
    by (simp add: from_headers_def metadata_parse_def total_size_def Metadata_new_def)
  show ?thesis
  proof (cases "t_secs (system_time_sum now d) < 2 ^ 63")
    case True
    then show ?thesis
      by (simp add: build_context_def ch system_time_add_def request_headers_start_def pairs CancellationToken_new_def
          remaining_time_def duration_since_sum)
  next
    case False
    then have "build_context env now st (rq_headers rq) addr cert (sc_max_metadata_size config)
        = (Inl (Panicked ''overflow when adding duration to instant'') :: (unit, ('x rpc_context \<times> _) \<times> _) res)"
      by (simp add: build_context_def ch system_time_add_def)
    from handle_request_panics [OF this] False show ?thesis by simp
  qed
qed

lemma timeout_header_deadline_witness:
  "panics (handle_request plain_env (SystemTime 1 0) (SystemTime 1 0) WorkDone [] ServerConfig_default ([] :: unit registry) ''a'' None
     (get_request [(''grpc-timeout'', as_bytes (show_nat 9223372036854775807 @ ''S''))]))"
proof -
  have p: "parse_timeout (show_nat 9223372036854775807 @ ''S'') = Inr \<lparr>d_secs = 9223372036854775807, d_nanos = 0\<rparr>"
    by (simp add: parse_timeout_units from_secs_def del: show_nat.simps)
  have t: "\<not> t_secs (system_time_sum (SystemTime 1 0) \<lparr>d_secs = 9223372036854775807, d_nanos = 0\<rparr>) < 2 ^ 63"
    by (simp add: system_time_sum_def)
  show ?thesis
    using timeout_header_deadline [OF p plain_env_to_str,
        of "get_request [(''grpc-timeout'', as_bytes (show_nat 9223372036854775807 @ ''S''))]" "SystemTime 1 0" "[]" "''a''" None 0
        "SystemTime 1 0" WorkDone ServerConfig_default "[] :: unit registry"]
    by (simp only: t if_False get_request_def rpc_request.simps)
qed

end
