(* ===== verification/Rpc_End_To_End.thy ===== *)
theory Rpc_End_To_End
  imports Client_Properties Server_Properties
begin

text \<open>
  A unary call from the client through the server's handler and back: the client's request headers
  and framed message are what the server handles, and what the server sends is the response the
  client reads, both bodies cut into chunks in any way.
\<close>

section \<open>The connection\<close>

definition sent_data :: "sent list \<Rightarrow> byte list" where
  "sent_data xs = concat (map (\<lambda>x. case x of SentData d \<Rightarrow> d | _ \<Rightarrow> []) xs)"

fun sent_headers :: "sent list \<Rightarrow> header_list" where
  "sent_headers [] = []"
| "sent_headers (SentHeaders hs # xs) = map on_wire hs"
| "sent_headers (_ # xs) = sent_headers xs"

fun sent_trailers :: "sent list \<Rightarrow> trailer_poll list" where
  "sent_trailers [] = [NoTrailers]"
| "sent_trailers (SentTrailers hs # xs) = [Trailers (map on_wire hs)]"
| "sent_trailers (_ # xs) = sent_trailers xs"

definition deliver :: "(byte list \<Rightarrow> body_event list) \<Rightarrow> sent list \<Rightarrow> h2_response" where
  "deliver chunks xs = \<lparr>hr_headers = sent_headers xs, hr_body = chunks (sent_data xs), hr_trailers = sent_trailers xs\<rparr>"

text \<open>A connection may cut the data into chunks and delay them as it likes.\<close>

definition chunking :: "(byte list \<Rightarrow> body_event list) \<Rightarrow> bool" where
  "chunking chunks \<longleftrightarrow> (\<forall>bs. no_body_error (chunks bs) \<and> concat (map event_bytes (chunks bs)) = bs)"

definition through_server ::
  "http_env \<Rightarrow> (byte list \<Rightarrow> body_event list) \<Rightarrow> (rpc_request \<Rightarrow> (unit, outcome) res) \<Rightarrow> string
     \<Rightarrow> (string \<times> string) list \<Rightarrow> byte list \<Rightarrow> h2_response item" where
  "through_server env chunks serve path hs framed =
     match_result (serve \<lparr>rq_path = path, rq_headers = map on_wire hs, rq_body = chunks framed\<rparr>)
       (\<lambda>_. Inl (Raised (Status_new Unavailable ''h2 response''))) (\<lambda>oc. Inr (deliver chunks (oc_sent oc)))"

text \<open>A header value that passes the \<open>http\<close> crate unchanged.\<close>

definition wire_text :: "http_env \<Rightarrow> string \<Rightarrow> bool" where
  "wire_text env s \<longleftrightarrow> env_value_ok env s \<and> env_to_str env (as_bytes s) = Some s"

section \<open>Trailers\<close>

definition status_map :: "code \<Rightarrow> string \<Rightarrow> (string \<times> byte list) list" where
  "status_map c msg =
     (if msg \<noteq> [] then [(''grpc-message'', as_bytes msg)] else [])
       @ [(''grpc-status'', as_bytes (show_int (sint (Code_as_i32 c))))]"

lemma status_trailers_new:
  assumes "str_ok msg" and "wire_text env msg" and "wire_text env (show_int (sint (Code_as_i32 c)))"
    and "env_name_ok env ''grpc-status''" and "env_name_ok env ''grpc-message''"
  shows "status_trailers env (Status_new c msg) = Inr (SentTrailers
    ((if msg \<noteq> [] then [(''grpc-message'', msg)] else []) @ [(''grpc-status'', show_int (sint (Code_as_i32 c)))]))"
proof -
  have "header_value (env_b64e env) ''grpc-status'' (as_bytes (show_int (sint (Code_as_i32 c)))) = show_int (sint (Code_as_i32 c))"
    using from_utf8_lossy_valid [OF show_int_code_ok [of c]] by (simp add: header_value_def ends_with_def)
  moreover have "header_value (env_b64e env) ''grpc-message'' (as_bytes msg) = msg"
    using from_utf8_lossy_valid [OF assms(1)] by (simp add: header_value_def ends_with_def)
  ultimately show ?thesis
    using assms(2-5)
    by (simp add: status_trailers_def Status_to_trailers_def Status_new_def metadata_keys_def Metadata_new_def insert_raw_def
        om_insert_def to_header_map_def wire_text_def Let_def)
qed

lemma trailers_status_new:
  assumes "wire_text env msg" and "wire_text env (show_int (sint (Code_as_i32 c)))" and "str_ok msg" and "length msg < 2 ^ 63"
    and "hs = (if msg \<noteq> [] then [(''grpc-message'', msg)] else []) @ [(''grpc-status'', show_int (sint (Code_as_i32 c)))]"
  shows "s_code (trailers_status env (map on_wire hs)) = c \<and> s_message (trailers_status env (map on_wire hs)) = msg"
proof -
  let ?n = "show_int (sint (Code_as_i32 c))"
  have pairs: "header_pairs env (map on_wire hs) = hs"
    by (rule header_pairs_on_wire) (use assms(1,2,5) in \<open>auto simp: wire_text_def split: if_splits\<close>)
  have n: "length ?n \<le> 2"
    by (cases c) (simp_all add: show_int_def show_nat.simps)
  have v: "validate_key ''grpc-status'' True = Inr ()" "validate_key ''grpc-message'' True = Inr ()"
    by (simp_all add: validate_key_Inr as_bytes_def key_byte_ok_def)
  have "metadata_from_trailers (env_b64d env) hs (2 ^ 64 - 1) = Inr \<lparr>mmap = status_map c msg\<rparr>"
    unfolding assms(5) using n assms(4)
    by (simp add: metadata_from_trailers_def metadata_parse_def v ends_with_def Metadata_new_def om_insert_def total_size_def
        status_map_def)
  moreover have "utf8_valid (as_bytes ?n)" "utf8_valid (as_bytes msg)"
    using show_int_code_ok [of c] assms(3) by (simp_all add: str_ok_def)
  ultimately show ?thesis
    by (simp add: trailers_status_def pairs Status_from_trailers_def get_text_def om_lookup_def status_map_def
        Code_from_as_i32 parse_code)
qed

section \<open>The request\<close>

text \<open>The caller's metadata, as the public interface builds it, on headers the client can send.\<close>

definition callable_metadata :: "http_env \<Rightarrow> nat \<Rightarrow> metadata \<Rightarrow> bool" where
  "callable_metadata env n md \<longleftrightarrow> metadata_ok md \<and> total_size md \<le> n
     \<and> (\<forall>x. env_b64d env (env_b64e env x) = Inr x)
     \<and> (\<forall>k \<in> set (metadata_keys md). validate_key k False = Inr () \<and> \<not> special_header k)
     \<and> (\<forall>k v. get_binary md k = Some v \<longrightarrow> ends_with k ''-bin'' \<or> utf8_valid v)
     \<and> (\<forall>p \<in> set (to_headers (env_b64e env) md). env_to_str env (as_bytes (snd p)) = Some (snd p))"

lemma to_headers_keys: "p \<in> set (to_headers b64e md) \<Longrightarrow> fst p \<in> set (metadata_keys md)"
  by (force simp: to_headers_def metadata_keys_def)

lemma filter_special_headers:
  assumes "\<forall>k \<in> set (metadata_keys md). \<not> special_header k"
  shows "filter (\<lambda>(k, v). \<not> special_header k) (map on_wire (client_headers env e md)) = map on_wire (to_headers (env_b64e env) md)"
proof -
  have "filter (\<lambda>(k, v). \<not> special_header k) (map on_wire (to_headers (env_b64e env) md)) = map on_wire (to_headers (env_b64e env) md)"
    using assms to_headers_keys [of _ "env_b64e env" md] by (intro filter_True) (auto simp: on_wire_def)
  then show ?thesis
    by (simp add: client_headers_def on_wire_def special_header_def skipped_header_def split_beta)
qed

lemma context_headers_quiet:
  assumes "\<forall>p \<in> set hs. fst p \<noteq> ''grpc-timeout'' \<and> fst p \<noteq> ''grpc-encoding'' \<and> fst p \<noteq> ''user-agent''"
  shows "\<exists>a'. context_headers env now hs a = Inr a' \<and> rh_deadline a' = rh_deadline a \<and> rh_encoding a' = rh_encoding a"
  using assms
proof (induction hs arbitrary: a)
  case (Cons h hs)
  obtain k v where h: "h = (k, v)" by (cases h)
  have IH: "\<exists>a'. context_headers env now hs a = Inr a' \<and> rh_deadline a' = rh_deadline a \<and> rh_encoding a' = rh_encoding a" for a
    using Cons by auto
  show ?case
  proof (cases "skipped_header k \<or> env_to_str env v = None")
    case True
    then show ?thesis using IH [of a] by (simp add: h context_headers_skip)
  next
    case False
    then obtain s where "env_to_str env v = Some s" by auto
    then show ?thesis
      using False Cons.prems IH [of "a\<lparr>rh_pairs := rh_pairs a @ [(k, s)]\<rparr>"] by (simp add: h context_headers_text)
  qed
qed simp

lemma context_of_call:
  assumes "callable_metadata env n md" and "ep_compression e = Identity \<or> ep_compression e = Gzip"
    and "env_to_str env (as_bytes (as_header (ep_compression e))) = Some (as_header (ep_compression e))"
  shows "\<exists>(ctx :: 'x rpc_context) st'. build_context env now st (map on_wire (client_headers env e md)) addr cert n
      = Inr ((ctx, ep_compression e), st') \<and> ctx_metadata ctx = md \<and> ctx_deadline ctx = None"
proof -
  let ?hs = "map on_wire (client_headers env e md)"
  let ?md = "map on_wire (to_headers (env_b64e env) md)"
  have quiet: "\<forall>p \<in> set ?md. fst p \<noteq> ''grpc-timeout'' \<and> fst p \<noteq> ''grpc-encoding'' \<and> fst p \<noteq> ''user-agent''"
    using assms(1) to_headers_keys [of _ "env_b64e env" md]
    by (auto simp: callable_metadata_def on_wire_def special_header_def)
  have "\<exists>a'. context_headers env now ?hs request_headers_start = Inr a' \<and> rh_deadline a' = None \<and> rh_encoding a' = ep_compression e"
  proof (cases "ep_compression e = Identity")
    case True
    then show ?thesis
      using context_headers_quiet [OF quiet, where a = request_headers_start and env = env and now = now]
      by (simp add: client_headers_def on_wire_def context_headers_skip skipped_header_def request_headers_start_def)
  next
    case False
    then have g: "ep_compression e = Gzip" using assms(2) by simp
    show ?thesis
      using context_headers_quiet [OF quiet, where a = "request_headers_start\<lparr>rh_encoding := Gzip\<rparr>" and env = env and now = now]
        assms(3) g
      by (simp add: client_headers_def on_wire_def context_headers_skip context_headers_text skipped_header_def starts_with_def
          request_headers_start_def compression_from_header_def)
  qed
  then obtain a where a: "context_headers env now ?hs request_headers_start = Inr a" "rh_deadline a = None" "rh_encoding a = ep_compression e"
    by blast
  have "rh_pairs a = header_pairs env ?md"
    using context_headers_pairs [OF a(1)] assms(1)
    by (simp add: request_headers_start_def filter_special_headers callable_metadata_def)
  also have "\<dots> = to_headers (env_b64e env) md"
    using assms(1) by (intro header_pairs_on_wire) (simp add: callable_metadata_def)
  finally have pairs: "rh_pairs a = to_headers (env_b64e env) md" .
  have md: "from_headers (env_b64d env) (to_headers (env_b64e env) md) n = Inr md"
    unfolding from_headers_def using assms(1)
    by (intro metadata_parse_to_headers) (auto simp: callable_metadata_def)
  show ?thesis
    by (simp add: build_context_def a pairs md CancellationToken_new_def)
qed

section \<open>The call\<close>

lemma request_read:
  assumes "chunking chunks" and "sendable gz ungz c n msg" and "n < 2 ^ 64" and "encode_frame gz msg c n' = Inr framed"
    and "encode_frame gz msg c n = Inr framed"
  shows "read_single_message ungz (chunks framed) c n = Inr (Some msg)"
proof -
  have "split_stream ungz c n (concat (map event_bytes (chunks framed))) = map Inr [msg]"
    using assms(1) split_stream_frames [where msgs = "[msg]" and fs = "[framed]", OF _ assms(3)] assms(2,5)
    by (simp add: chunking_def)
  then have "stream_items ungz (deframe_stream (chunks framed) c n) = map Inr [msg]"
    using assms(1) stream_items_eq [OF stream_ok_new [of "chunks framed" c n]] by (simp add: chunking_def stream_bytes_new)
  from read_messages_items [OF this] show ?thesis
    by (simp add: read_single_message_def)
qed

lemma sent_of_Inr: "sent_of r = Inr xs \<Longrightarrow> \<exists>oc. r = Inr oc \<and> oc_sent oc = xs"
  by (auto simp: sent_of_def bind_result_eq_Inr)

lemma no_policy_authorizes:
  assumes "sc_security config = None"
    and "build_context env now st hs addr None n = Inr ((ctx, enc), st')"
  shows "authorize_call config ctx service meth = Inr ctx"
  using assms
  by (auto simp: authorize_call_def build_context_def bind_result_eq_Inr CancellationToken_new_def identity_from_peer_def
      peer_principal_identity_def)

lemma built_path:
  assumes "CHR ''.'' \<notin> set svc" and "CHR ''/'' \<notin> set meth"
  shows "full_service (build_path pkg svc meth) = (qualified_name pkg svc, meth)" "path_method (build_path pkg svc meth) = Inr meth"
proof -
  show "full_service (build_path pkg svc meth) = (qualified_name pkg svc, meth)"
    by (simp add: full_service_def parse_build_path [OF assms] qualified_name_def)
  have "rsplit_once (CHR ''/'') ((''/'' @ qualified_name pkg svc) @ CHR ''/'' # meth) = Some (''/'' @ qualified_name pkg svc, meth)"
    by (rule rsplit_once_append [OF assms(2)])
  then show "path_method (build_path pkg svc meth) = Inr meth"
    by (simp add: path_method_def build_path_qualified)
qed

lemma response_read:
  assumes "chunking chunks" and "split_stream (env_ungz env) Identity (ep_max_message_size e) (sent_data xs) = map Inr ms"
    and "sent_headers xs = [(''content-type'', as_bytes ''application/grpc'')]" and "sent_trailers xs = ps"
  shows "read_unary env (response_stream env e (deliver chunks xs)) =
    (case trailers_result env ps of
       Some (Inl f) \<Rightarrow> Inl f
     | _ \<Rightarrow> Inr (if ms = [] then None else Some (last ms), Status_ok))"
    and "metadata_from_response env (hr_headers (deliver chunks xs)) n = Metadata_new"
proof -
  have enc: "encoding_from_headers env (sent_headers xs) = Identity"
    by (simp add: encoding_from_headers_def assms(3))
  show "read_unary env (response_stream env e (deliver chunks xs)) =
    (case trailers_result env ps of
       Some (Inl f) \<Rightarrow> Inl f
     | _ \<Rightarrow> Inr (if ms = [] then None else Some (last ms), Status_ok))"
    using read_unary_eq [of "chunks (sent_data xs)" env Identity "ep_max_message_size e" ms ps] assms(1,2,4) enc
    by (simp add: response_stream_def deliver_def chunking_def)
  show "metadata_from_response env (hr_headers (deliver chunks xs)) n = Metadata_new"
    by (simp add: metadata_from_response_def deliver_def assms(3) from_headers_def metadata_parse_def total_size_def Metadata_new_def)
qed

text \<open>What the two ends must have in common, and what the \<open>http\<close> crate lets through.\<close>

definition linked :: "http_env \<Rightarrow> server_config \<Rightarrow> endpoint \<Rightarrow> metadata \<Rightarrow> byte list \<Rightarrow> bool" where
  "linked env config e md msg \<longleftrightarrow>
     (ep_compression e = Identity \<or> ep_compression e = Gzip) \<and> sc_response_compression config = Identity
     \<and> wire_text env (as_header (ep_compression e)) \<and> sc_max_message_size config < 2 ^ 64 \<and> ep_max_message_size e < 2 ^ 64
     \<and> env_name_ok env ''grpc-status'' \<and> env_name_ok env ''grpc-message''
     \<and> (\<forall>c. wire_text env (show_int (sint (Code_as_i32 c)))) \<and> wire_text env []
     \<and> callable_metadata env (sc_max_metadata_size config) md
     \<and> sendable (env_gz env) (env_ungz env) (ep_compression e) (ep_max_message_size e) msg
     \<and> sendable (env_gz env) (env_ungz env) (ep_compression e) (sc_max_message_size config) msg"

text \<open>The request as the server gets it, and the client's side of the answer.\<close>

definition client_outcome :: "http_env \<Rightarrow> endpoint \<Rightarrow> h2_response \<Rightarrow> (byte list \<times> metadata) item" where
  "client_outcome env e r = bind_result (read_unary env (response_stream env e r)) (\<lambda>(m, st).
     if \<not> Status_is_ok st then Inl (Raised st)
     else case m of
         None \<Rightarrow> Inl (Raised (Status_new Internal ''empty unary response''))
       | Some raw \<Rightarrow> Inr (raw, metadata_from_response env (hr_headers r) (ep_max_message_size e)))"

lemma answered_with_message:
  assumes "chunking chunks" and "linked env config e md msg"
    and "sendable (env_gz env) (env_ungz env) Identity (ep_max_message_size e) raw \<and> length raw \<le> sc_max_message_size config"
  shows "\<exists>xs. output_sent env config \<lparr>ho_message = Some raw, ho_stream = None, ho_status = Status_ok\<rparr> = Inr xs
    \<and> client_outcome env e (deliver chunks xs) = Inr (raw, Metadata_new)"
proof -
  let ?n = "ep_max_message_size e" and ?m = "sc_max_message_size config"
  let ?out = "output_sent env config \<lparr>ho_message = Some raw, ho_stream = None, ho_status = Status_ok\<rparr>"
  note link = assms(2) [unfolded linked_def]
  obtain q where q: "frame_payload (env_gz env) Identity raw q" and l: "length raw \<le> ?n"
    using assms(3) by (auto simp: sendable_def)
  obtain g where g: "encode_frame (env_gz env) raw Identity ?n = Inr g" "encode_frame (env_gz env) raw Identity ?m = Inr g"
    using encode_frame_eq [OF q l] encode_frame_eq [OF q, of ?m] assms(3) by auto
  define hs where "hs = [(''grpc-status'', show_int (sint (Code_as_i32 Ok)))]"
  let ?xs = "[response_headers, SentData g, SentTrailers hs]"
  have digits: "wire_text env (show_int (sint (Code_as_i32 Ok)))"
    using link by blast
  then have "status_trailers env (Status_new Ok []) = Inr (SentTrailers hs)"
    using status_trailers_new [OF str_ok_Nil _ digits] link by (simp add: hs_def)
  then have "?out = Inr ?xs"
    using assms(3) link g by (simp add: output_sent_def send_message_def Status_ok_def)
  moreover have "trailers_result env (sent_trailers ?xs) = None"
    using trailers_status_new [OF _ digits str_ok_Nil, of hs] link
    by (simp add: trailers_result_def response_headers_def hs_def Status_is_ok_def)
  moreover have "split_stream (env_ungz env) Identity ?n (sent_data ?xs) = map Inr [raw]"
    using split_stream_frames [where gz = "env_gz env" and ungz = "env_ungz env" and msgs = "[raw]" and fs = "[g]"] assms(3) link g(1)
    by (simp add: sent_data_def response_headers_def)
  ultimately show ?thesis
    using response_read [OF assms(1), of env e ?xs "[raw]"]
    by (intro exI [of _ ?xs]) (simp add: client_outcome_def response_headers_def on_wire_def Status_ok_def Status_new_def Status_is_ok_def)
qed

lemma answered_with_error:
  assumes "chunking chunks" and "linked env config e md msg"
    and "c \<noteq> Ok \<and> str_ok m \<and> wire_text env m \<and> length m < 2 ^ 63"
  shows "\<exists>xs. answer env (Status_new c m) = Inr xs
    \<and> (\<exists>s. client_outcome env e (deliver chunks xs) = Inl (Raised s) \<and> s_code s = c \<and> s_message s = m)"
proof -
  let ?n = "ep_max_message_size e"
  note link = assms(2) [unfolded linked_def]
  define hs where "hs = (if m \<noteq> [] then [(''grpc-message'', m)] else []) @ [(''grpc-status'', show_int (sint (Code_as_i32 c)))]"
  let ?xs = "[response_headers, SentTrailers hs]"
  have "answer env (Status_new c m) = Inr ?xs"
    using assms(3) link status_trailers_new [of m env c] by (simp add: answer_def hs_def)
  moreover have s: "s_code (trailers_status env (map on_wire hs)) = c" "s_message (trailers_status env (map on_wire hs)) = m"
    using trailers_status_new [of env m c hs] assms(3) link by (simp_all add: hs_def)
  moreover have "trailers_result env (sent_trailers ?xs) = Some (Inl (Raised (trailers_status env (map on_wire hs))))"
    using s assms(3) by (simp add: trailers_result_def response_headers_def Status_is_ok_def)
  moreover have "split_stream (env_ungz env) Identity ?n (sent_data ?xs) = map Inr []"
    by (simp add: sent_data_def response_headers_def split_stream.simps head_item_def)
  ultimately show ?thesis
    using response_read [OF assms(1), of env e ?xs "[]"]
    by (intro exI [of _ ?xs]) (simp add: client_outcome_def response_headers_def on_wire_def)
qed

lemma unary_call_handled:
  fixes reg :: "'x registry"
  assumes "chunking chunks" and "linked env config e md msg" and "sc_security config = None"
    and "CHR ''.'' \<notin> set svc" and "CHR ''/'' \<notin> set meth" and "path = build_path pkg svc meth"
    and "route reg path = (Some h, Unary)"
    and "serve = handle_request env now later WorkDone st config reg addr None"
    and "call = unary_once env (\<lambda>uri hs. Inr hs) (through_server env chunks serve path) e path md msg"
  shows "\<exists>(ctx :: 'x rpc_context) rq. ctx_metadata ctx = md
    \<and> sent_of (serve rq) = match_result (sh_unary h meth ctx msg) (answer env)
        (\<lambda>raw. output_sent env config \<lparr>ho_message = Some raw, ho_stream = None, ho_status = Status_ok\<rparr>)
    \<and> (\<forall>xs. sent_of (serve rq) = Inr xs \<longrightarrow> call = client_outcome env e (deliver chunks xs))"
proof -
  let ?c = "ep_compression e" and ?n = "ep_max_message_size e" and ?m = "sc_max_message_size config"
  note link = assms(2) [unfolded linked_def]
  obtain ctx st' where ctx: "build_context env now st (map on_wire (client_headers env e md)) addr None (sc_max_metadata_size config)
      = Inr ((ctx :: 'x rpc_context, ?c), st')" "ctx_metadata ctx = md" "ctx_deadline ctx = None"
    using context_of_call [of env "sc_max_metadata_size config" md e now st addr None] link by (auto simp: wire_text_def)
  obtain p where p: "frame_payload (env_gz env) ?c msg p" and len: "length msg \<le> ?n" "length msg \<le> ?m"
    using link by (auto simp: sendable_def)
  obtain framed where f: "encode_frame (env_gz env) msg ?c ?n = Inr framed" "encode_frame (env_gz env) msg ?c ?m = Inr framed"
    using encode_frame_eq [OF p len(1)] encode_frame_eq [OF p len(2)] by auto
  let ?rq = "\<lparr>rq_path = path, rq_headers = map on_wire (client_headers env e md), rq_body = chunks framed\<rparr>"
  have read: "read_single_message (env_ungz env) (chunks framed) ?c ?m = Inr (Some msg)"
    by (rule request_read [OF assms(1) _ _ f]) (use link in auto)
  have auth: "authorize_call config ctx (qualified_name pkg svc) meth = Inr ctx"
    by (rule no_policy_authorizes [OF assms(3) ctx(1)])
  have path: "full_service path = (qualified_name pkg svc, meth)" "path_method path = Inr meth"
    using built_path [OF assms(4,5)] assms(6) by simp_all
  have sent: "sent_of (serve ?rq) = match_result (sh_unary h meth ctx msg) (answer env)
      (\<lambda>raw. output_sent env config \<lparr>ho_message = Some raw, ho_stream = None, ho_status = Status_ok\<rparr>)"
    unfolding assms(8)
    using handle_request_sent [of env now st ?rq addr None config ctx ?c st' "qualified_name pkg svc" meth reg "Some h" Unary later WorkDone]
      ctx path assms(7) auth
    by (simp add: select_result_def dispatch_def read match_result_def bind_result_def split: sum.split fault.split)
  have through: "through_server env chunks serve path (client_headers env e md) framed = Inr (deliver chunks xs)"
    if "sent_of (serve ?rq) = Inr xs" for xs
    using sent_of_Inr [OF that] by (auto simp: through_server_def)
  have "call = client_outcome env e (deliver chunks xs)" if "sent_of (serve ?rq) = Inr xs" for xs
    by (simp add: assms(9) unary_once_def send_request_headers_def frame_request_def f(1) through [OF that] client_outcome_def)
  with sent ctx(2) show ?thesis
    by blast
qed

text \<open>
  C26: A unary call reaches the handler and its result comes back: for a registered unary method,
  compatible ends, metadata the public interface can build and a server that compresses no
  responses, the handler is called with the method's name, the caller's metadata and the caller's
  message, however the connection cuts the bytes; a message it returns within the limits is what
  the client's call returns, and an error status with a transmissible message is the error it
  returns, code and message.
\<close>

theorem unary_call_end_to_end:
  fixes reg :: "'x registry"
  assumes "chunking chunks" and "linked env config e md msg" and "sc_security config = None"
    and "CHR ''.'' \<notin> set svc" and "CHR ''/'' \<notin> set meth" and "path = build_path pkg svc meth"
    and "route reg path = (Some h, Unary)"
    and "serve = handle_request env now later WorkDone st config reg addr None"
    and "call = unary_once env (\<lambda>uri hs. Inr hs) (through_server env chunks serve path) e path md msg"
  shows "\<exists>ctx. ctx_metadata ctx = md
    \<and> (\<forall>raw. sh_unary h meth ctx msg = Inr raw
         \<and> sendable (env_gz env) (env_ungz env) Identity (ep_max_message_size e) raw \<and> length raw \<le> sc_max_message_size config
         \<longrightarrow> call = Inr (raw, Metadata_new))
    \<and> (\<forall>c m. sh_unary h meth ctx msg = Inl (Raised (Status_new c m)) \<and> c \<noteq> Ok
         \<and> str_ok m \<and> wire_text env m \<and> length m < 2 ^ 63
         \<longrightarrow> (\<exists>s. call = Inl (Raised s) \<and> s_code s = c \<and> s_message s = m))"
proof -
  obtain ctx :: "'x rpc_context" and rq where ctx: "ctx_metadata ctx = md"
    and sent: "sent_of (serve rq) = match_result (sh_unary h meth ctx msg) (answer env)
        (\<lambda>raw. output_sent env config \<lparr>ho_message = Some raw, ho_stream = None, ho_status = Status_ok\<rparr>)"
    and call: "\<And>xs. sent_of (serve rq) = Inr xs \<Longrightarrow> call = client_outcome env e (deliver chunks xs)"
    using unary_call_handled [OF assms] by blast
  show ?thesis
  proof (intro exI [of _ ctx] conjI allI impI)
    show "ctx_metadata ctx = md" by (rule ctx)
  next
    fix raw
    assume raw: "sh_unary h meth ctx msg = Inr raw
         \<and> sendable (env_gz env) (env_ungz env) Identity (ep_max_message_size e) raw \<and> length raw \<le> sc_max_message_size config"
    then show "call = Inr (raw, Metadata_new)"
      using answered_with_message [OF assms(1,2), of raw] call by (auto simp: sent)
  next
    fix c m
    assume err: "sh_unary h meth ctx msg = Inl (Raised (Status_new c m)) \<and> c \<noteq> Ok
         \<and> str_ok m \<and> wire_text env m \<and> length m < 2 ^ 63"
    then show "\<exists>s. call = Inl (Raised s) \<and> s_code s = c \<and> s_message s = m"
      using answered_with_error [OF assms(1,2), of c m] call by (auto simp: sent)
  qed
qed

text \<open>A server that echoes, reached over a connection that delivers byte by byte.\<close>

definition echo_handler :: "unit service_handler" where
  "echo_handler = \<lparr>sh_full_name = ''ex.S'', sh_methods = [(''/ex.S/Get'', Unary)],
     sh_unary = (\<lambda>_ _ req. Inr req), sh_server_streaming = (\<lambda>_ _ req. Inr [Inr req]),
     sh_client_streaming = (\<lambda>_ _ _. Inr []), sh_bidi_streaming = (\<lambda>_ _ xs. Inr xs)\<rparr>"

lemma bytewise_chunking: "chunking (map (\<lambda>b. Chunk [b]))"
proof -
  have "no_body_error (map (\<lambda>b. Chunk [b]) bs) \<and> concat (map event_bytes (map (\<lambda>b. Chunk [b]) bs)) = bs" for bs
    by (induction bs) (simp_all add: no_body_error_def)
  then show ?thesis by (simp add: chunking_def)
qed

lemma plain_sendable: "length m \<le> n \<Longrightarrow> length m < 2 ^ 32 \<Longrightarrow> sendable Inr (\<lambda>n bs. Inr (take n bs)) Identity n m"
  by (simp add: sendable_def frame_payload_def)

lemma plain_linked: "linked plain_env ServerConfig_default Endpoint_default Metadata_new [7]"
  by (simp add: linked_def plain_env_def ServerConfig_default_def Endpoint_default_def wire_text_def callable_metadata_def
      plain_sendable total_size_def to_headers_def) (simp add: Metadata_new_def str_of_bytes_def)

theorem unary_call_end_to_end_witness:
  "unary_once plain_env (\<lambda>uri hs. Inr hs)
     (through_server plain_env (map (\<lambda>b. Chunk [b]))
       (handle_request plain_env (SystemTime 5 0) (SystemTime 6 0) WorkDone [] ServerConfig_default
          (srv_registry (add_service echo_handler (fst (Server_new [])))) ''a'' None) ''/ex.S/Get'')
     Endpoint_default ''/ex.S/Get'' Metadata_new [7] = Inr ([7], Metadata_new)"
proof -
  let ?reg = "srv_registry (add_service echo_handler (fst (Server_new [])))"
  have r: "route ?reg ''/ex.S/Get'' = (Some echo_handler, Unary)"
    by (simp add: route_def add_service_def Server_new_def ServerBuilder_build_def ServerBuilder_new_def CancellationToken_new_def
        wrap_handler_def echo_handler_def)
  have p: "''/ex.S/Get'' = build_path ''ex'' ''S'' ''Get''"
    by (simp add: build_path_def)
  show ?thesis
    using unary_call_end_to_end [OF bytewise_chunking plain_linked _ _ _ p r refl refl] plain_sendable [of "[7]"]
    by (auto simp: ServerConfig_default_def Endpoint_default_def plain_env_def echo_handler_def)
qed

section \<open>Compressed responses\<close>

text \<open>
  The server does not announce the compression of its responses: the client decodes them as
  uncompressed, and hands the compressed bytes to its caller.
\<close>

lemma compressed_response_garbled:
  assumes "encode_frame gz raw Gzip n = Inr f" and "length raw \<le> n" and "gz raw = Inr p" and "length p \<le> n'" and "length p < 2 ^ 32"
  shows "encoding_from_headers env (sent_headers (response_headers # xs)) = Identity" and "decode_frame ungz f Identity n' = Inr p"
proof -
  show "encoding_from_headers env (sent_headers (response_headers # xs)) = Identity"
    by (simp add: encoding_from_headers_def response_headers_def on_wire_def)
  have "frame_payload gz Gzip raw p"
    using assms(3,5) by (simp add: frame_payload_def)
  from encode_frame_eq [OF this assms(2)] have f: "f = 1 # be_bytes 4 (word_of_nat (length p) :: u32) @ p"
    using assms(1) by simp
  then show "decode_frame ungz f Identity n' = Inr p"
    using assms(4) unat_frame_length [OF assms(5)]
    by (simp add: decode_frame_def COMPRESSION_FLAG_UNCOMPRESSED_def COMPRESSION_FLAG_COMPRESSED_def Let_def)
qed

end
