(* ===== verification/Diagnostic.thy ===== *)
theory Diagnostic
  imports Text
begin

text \<open>
  Source positions, spans and diagnostics of the proto language crate
  (\<open>crates/tpt-proto-language/src/diagnostic.rs\<close>). The \<open>u32\<close> line and column numbers are
  natural numbers: they stay below the length of the source, and sources of 4 GiB and more
  are outside the model. A message is kept as the string literal the code writes or as the
  arguments of the \<open>format!\<close> call that prints tokens with \<open>{:?}\<close>; the rendering of that
  debug output is not modelled.
\<close>

section \<open>Positions and spans\<close>

record position =
  p_line :: nat
  p_column :: nat
  p_offset :: nat

record span =
  sp_start :: position
  sp_end :: position

definition Position_default :: position where
  "Position_default = \<lparr>p_line = 0, p_column = 0, p_offset = 0\<rparr>"

definition Span_default :: span where
  "Span_default = \<lparr>sp_start = Position_default, sp_end = Position_default\<rparr>"

section \<open>Diagnostics\<close>

datatype severity = Warning | Error

datatype error_code =
    UnexpectedToken
  | UnexpectedEof
  | InvalidSyntax
  | DuplicateSymbol
  | InvalidFieldNumber
  | ReservedConflict
  | UnknownType
  | InvalidOption
  | InvalidFeature
  | Other_error

text \<open>\<open>'k\<close> is the type of the tokens a message prints.\<close>

datatype 'k diag_message = Literal string | Expected_found 'k "'k option"

record 'k diagnostic =
  dg_severity :: severity
  dg_code :: error_code
  dg_message :: "'k diag_message"
  dg_span :: "span option"
  dg_suggestion :: "string option"

definition Diagnostic_error :: "error_code \<Rightarrow> 'k diag_message \<Rightarrow> span option \<Rightarrow> 'k diagnostic" where
  "Diagnostic_error code msg sp =
     \<lparr>dg_severity = Error, dg_code = code, dg_message = msg, dg_span = sp, dg_suggestion = None\<rparr>"

definition Diagnostic_warning :: "error_code \<Rightarrow> 'k diag_message \<Rightarrow> span option \<Rightarrow> 'k diagnostic" where
  "Diagnostic_warning code msg sp =
     \<lparr>dg_severity = Warning, dg_code = code, dg_message = msg, dg_span = sp, dg_suggestion = None\<rparr>"

definition with_suggestion :: "string \<Rightarrow> 'k diagnostic \<Rightarrow> 'k diagnostic" where
  "with_suggestion s d = d\<lparr>dg_suggestion := Some s\<rparr>"

type_synonym 'k diagnostics = "'k diagnostic list"

definition diag_push :: "'k diagnostic \<Rightarrow> 'k diagnostics \<Rightarrow> 'k diagnostics" where
  "diag_push d ds = ds @ [d]"

definition has_errors :: "'k diagnostics \<Rightarrow> bool" where
  "has_errors ds \<longleftrightarrow> list_ex (\<lambda>d. dg_severity d = Error) ds"

lemma has_errors_simps [simp]:
  "\<not> has_errors []"
  "has_errors (diag_push (Diagnostic_error c m s) ds)"
  "has_errors (diag_push (Diagnostic_warning c m s) ds) = has_errors ds"
  by (simp_all add: has_errors_def diag_push_def Diagnostic_error_def Diagnostic_warning_def)

end
