(* ===== verification/Float_Text.thy ===== *)
theory Float_Text
  imports Text
begin

text \<open>
  What \<open>str::parse::<f64>\<close> of Rust's standard library computes, as the bit pattern of the
  IEEE 754 double: the decimal number is rounded to nearest, ties to even.
\<close>

section \<open>Rounding a fraction to a double\<close>

fun bit_length :: "nat \<Rightarrow> nat" where
  "bit_length n = (if n = 0 then 0 else Suc (bit_length (n div 2)))"

declare bit_length.simps [simp del]

definition round_half_even :: "nat \<Rightarrow> nat \<Rightarrow> nat" where
  "round_half_even n d =
     (let q = n div d; r = n mod d
      in if 2 * r < d \<or> 2 * r = d \<and> even q then q else q + 1)"

text \<open>The fraction \<open>n / (d * 2 ^ q)\<close>.\<close>

definition scaled :: "nat \<Rightarrow> nat \<Rightarrow> int \<Rightarrow> nat \<times> nat" where
  "scaled n d q = (if 0 \<le> q then (n, d * 2 ^ nat q) else (n * 2 ^ nat (- q), d))"

definition f64_infinity :: nat where
  "f64_infinity = 0x7FF0000000000000"

definition f64_of_fraction :: "nat \<Rightarrow> nat \<Rightarrow> nat" where
  "f64_of_fraction n d =
     (if n = 0 then 0
      else let e = int (bit_length n) - int (bit_length d);
               fl = (case scaled n d e of (a, b) \<Rightarrow> if b \<le> a then e else e - 1);
               q = max (fl - 52) (- 1074);
               mant = (case scaled n d q of (a, b) \<Rightarrow> round_half_even a b)
           in min (nat (q + 1074) * 2 ^ 52 + mant) f64_infinity)"

definition f64_of_decimal :: "nat \<Rightarrow> int \<Rightarrow> nat" where
  "f64_of_decimal m e =
     (if 0 \<le> e then f64_of_fraction (m * 10 ^ nat e) 1 else f64_of_fraction m (10 ^ nat (- e)))"

section \<open>Parsing\<close>

definition is_digit :: "char \<Rightarrow> bool" where
  "is_digit c \<longleftrightarrow> digit_of c \<noteq> None"

definition digits_of :: "string \<Rightarrow> nat" where
  "digits_of s = (case digits_value 0 s of Some n \<Rightarrow> n | None \<Rightarrow> 0)"

text \<open>The exponent behind \<open>e\<close> or \<open>E\<close>: an optional sign and at least one digit.\<close>

definition parse_exponent :: "string \<Rightarrow> int option" where
  "parse_exponent s =
     (let neg = (case s of c # _ \<Rightarrow> c = CHR ''-'' | [] \<Rightarrow> False);
          ds = (case s of c # cs \<Rightarrow> if c = CHR ''+'' \<or> c = CHR ''-'' then cs else s | [] \<Rightarrow> [])
      in if ds = [] \<or> \<not> list_all is_digit ds then None
         else Some (if neg then - int (digits_of ds) else int (digits_of ds)))"

definition parse_f64_unsigned :: "string \<Rightarrow> nat option" where
  "parse_f64_unsigned s =
     (let low = to_ascii_lowercase s
      in if low = ''inf'' \<or> low = ''infinity'' then Some f64_infinity
         else if low = ''nan'' then Some 0x7FF8000000000000
         else let ip = takeWhile is_digit s; s1 = dropWhile is_digit s;
                  fp = (case s1 of c # cs \<Rightarrow> if c = CHR ''.'' then takeWhile is_digit cs else [] | [] \<Rightarrow> []);
                  s2 = (case s1 of c # cs \<Rightarrow> if c = CHR ''.'' then dropWhile is_digit cs else s1 | [] \<Rightarrow> [])
              in if ip = [] \<and> fp = [] then None
                 else (case (case s2 of
                            [] \<Rightarrow> Some 0
                          | c # cs \<Rightarrow> if c = CHR ''e'' \<or> c = CHR ''E'' then parse_exponent cs else None) of
                        None \<Rightarrow> None
                      | Some e \<Rightarrow> Some (f64_of_decimal (digits_of (ip @ fp)) (e - int (length fp)))))"

definition parse_f64 :: "string \<Rightarrow> u64 option" where
  "parse_f64 s =
     (case s of
        [] \<Rightarrow> None
      | c # cs \<Rightarrow>
          if c = CHR ''-'' then map_option (\<lambda>n. word_of_nat n OR push_bit 63 1) (parse_f64_unsigned cs)
          else map_option word_of_nat (parse_f64_unsigned (if c = CHR ''+'' then cs else s)))"

end
