(* ===== verification/Lexer.thy ===== *)
theory Lexer
  imports Diagnostic Float_Text
begin

text \<open>
  The lexer of the proto language (\<open>crates/tpt-proto-language/src/lexer.rs\<close>): tokens with
  their source spans, comments kept on the side. The lexer works on the bytes of the source and
  cuts its texts out of the source by byte offsets; a cut that is not on a character boundary
  panics, as the slice operator of \<open>str\<close> does.
\<close>

section \<open>Tokens\<close>

datatype token_kind =
    TkIdent string
  | TkInt int
  | TkFloat u64
  | TkStr string
  | LBrace | RBrace | LParen | RParen | LBracket | RBracket
  | Lt | Gt | Comma | Semicolon | Dot | Equals | Colon

record token =
  tk_kind :: token_kind
  tk_span :: span

record comment =
  cm_span :: span
  cm_text :: string

record lex_error =
  le_code :: error_code
  le_message :: string
  le_pos :: position

type_synonym 'a lexed = "(lex_error, 'a) res"

record lexer =
  lx_src :: string
  lx_pos :: nat
  lx_line :: nat
  lx_col :: nat
  lx_comments :: "comment list"

section \<open>Slices and characters of Rust strings\<close>

definition is_char_boundary :: "string \<Rightarrow> nat \<Rightarrow> bool" where
  "is_char_boundary s i \<longleftrightarrow> i = length s \<or> i < length s \<and> \<not> is_cont_byte (of_char (s ! i))"

definition str_slice :: "string \<Rightarrow> nat \<Rightarrow> nat \<Rightarrow> ('e, string) res" where
  "str_slice s a b =
     (if a \<le> b \<and> is_char_boundary s a \<and> is_char_boundary s b then Inr (take (b - a) (drop a s))
      else Inl (Panicked ''byte index is not a char boundary''))"

text \<open>The UTF-8 encoding \<open>String::push\<close> appends for a code point.\<close>

definition utf8_of :: "nat \<Rightarrow> string" where
  "utf8_of n =
     (if n < 0x80 then [char_of n]
      else if n < 0x800 then [char_of (0xC0 + n div 64), char_of (0x80 + n mod 64)]
      else if n < 0x10000 then
        [char_of (0xE0 + n div 4096), char_of (0x80 + n div 64 mod 64), char_of (0x80 + n mod 64)]
      else [char_of (0xF0 + n div 262144), char_of (0x80 + n div 4096 mod 64),
            char_of (0x80 + n div 64 mod 64), char_of (0x80 + n mod 64)])"

definition char_from_u32 :: "nat \<Rightarrow> nat option" where
  "char_from_u32 n = (if n < 0xD800 \<or> 0xE000 \<le> n \<and> n < 0x110000 then Some n else None)"

definition is_alpha :: "char \<Rightarrow> bool" where
  "is_alpha c = (let n = of_char c :: nat in 65 \<le> n \<and> n \<le> 90 \<or> 97 \<le> n \<and> n \<le> 122)"

definition hex_digit :: "char \<Rightarrow> nat option" where
  "hex_digit c = (let n = of_char c :: nat
     in if 48 \<le> n \<and> n \<le> 57 then Some (n - 48)
        else if 65 \<le> n \<and> n \<le> 70 then Some (n - 55)
        else if 97 \<le> n \<and> n \<le> 102 then Some (n - 87) else None)"

fun hex_value :: "nat \<Rightarrow> string \<Rightarrow> nat option" where
  "hex_value acc [] = Some acc"
| "hex_value acc (c # cs) =
     (case hex_digit c of None \<Rightarrow> None | Some d \<Rightarrow> hex_value (16 * acc + d) cs)"

text \<open>\<open>i64::from_str_radix(s, 16)\<close>.\<close>

definition parse_hex_i64 :: "string \<Rightarrow> int option" where
  "parse_hex_i64 s =
     (let neg = (case s of c # _ \<Rightarrow> c = CHR ''-'' | [] \<Rightarrow> False);
          ds = (case s of c # cs \<Rightarrow> if c = CHR ''+'' \<or> c = CHR ''-'' then cs else s | [] \<Rightarrow> [])
      in if ds = [] then None
         else (case hex_value 0 ds of None \<Rightarrow> None
               | Some n \<Rightarrow> (let i = if neg then - int n else int n
                   in if - (2 ^ 63) \<le> i \<and> i < 2 ^ 63 then Some i else None)))"

section \<open>Moving through the source\<close>

definition newline :: char where
  "newline = CHR 0x0A"

definition Lexer_new :: "string \<Rightarrow> lexer" where
  "Lexer_new src = \<lparr>lx_src = src, lx_pos = 0, lx_line = 1, lx_col = 1, lx_comments = []\<rparr>"

definition nth_opt :: "'a list \<Rightarrow> nat \<Rightarrow> 'a option" where
  "nth_opt xs i = (if i < length xs then Some (xs ! i) else None)"

definition lx_peek :: "lexer \<Rightarrow> char option" where
  "lx_peek lx = nth_opt (lx_src lx) (lx_pos lx)"

definition lx_peek1 :: "lexer \<Rightarrow> char option" where
  "lx_peek1 lx = nth_opt (lx_src lx) (lx_pos lx + 1)"

definition bump :: "lexer \<Rightarrow> char option \<times> lexer" where
  "bump lx =
     (case lx_peek lx of
        None \<Rightarrow> (None, lx)
      | Some b \<Rightarrow>
          (Some b, if b = newline then lx\<lparr>lx_pos := lx_pos lx + 1, lx_line := lx_line lx + 1, lx_col := 1\<rparr>
                   else lx\<lparr>lx_pos := lx_pos lx + 1, lx_col := lx_col lx + 1\<rparr>))"

abbreviation bumped :: "lexer \<Rightarrow> lexer" where
  "bumped lx \<equiv> snd (bump lx)"

definition line_col_at :: "string \<Rightarrow> nat \<Rightarrow> nat \<times> nat" where
  "line_col_at src offset =
     foldl (\<lambda>(line, col) b. if b = newline then (line + 1, 1) else (line, col + 1)) (1, 1)
       (take (min offset (length src)) src)"

definition pos_of :: "lexer \<Rightarrow> nat \<Rightarrow> position" where
  "pos_of lx offset =
     (case line_col_at (lx_src lx) offset of (line, col) \<Rightarrow> \<lparr>p_line = line, p_column = col, p_offset = offset\<rparr>)"

definition lx_span :: "lexer \<Rightarrow> position \<Rightarrow> nat \<Rightarrow> span" where
  "lx_span lx start end_offset = \<lparr>sp_start = start, sp_end = pos_of lx end_offset\<rparr>"

definition unlexed :: "lexer \<Rightarrow> string" where
  "unlexed lx = drop (lx_pos lx) (lx_src lx)"

lemma lx_peek_eq: "lx_peek lx = (case unlexed lx of [] \<Rightarrow> None | c # _ \<Rightarrow> Some c)"
  by (auto simp: lx_peek_def nth_opt_def unlexed_def Cons_nth_drop_Suc [symmetric])

lemma lx_peek1_eq: "lx_peek1 lx = (case unlexed lx of _ # c # _ \<Rightarrow> Some c | _ \<Rightarrow> None)"
proof (cases "lx_pos lx + 1 < length (lx_src lx)")
  case True
  then have "unlexed lx = lx_src lx ! lx_pos lx # lx_src lx ! Suc (lx_pos lx) # drop (Suc (Suc (lx_pos lx))) (lx_src lx)"
    by (simp add: unlexed_def Cons_nth_drop_Suc)
  with True show ?thesis by (simp add: lx_peek1_def nth_opt_def)
next
  case False
  then have "length (unlexed lx) \<le> 1"
    by (simp add: unlexed_def)
  with False show ?thesis
    by (auto simp: lx_peek1_def nth_opt_def split: list.split)
qed

lemma unlexed_bumped: "unlexed (bumped lx) = tl (unlexed lx)"
  by (auto simp: bump_def lx_peek_def nth_opt_def unlexed_def drop_Suc tl_drop)

lemma bump_Some: "lx_peek lx = Some b \<Longrightarrow> bump lx = (Some b, bumped lx)"
  by (simp add: bump_def)

lemma bump_None: "lx_peek lx = None \<Longrightarrow> bump lx = (None, lx)"
  by (simp add: bump_def)

lemma bumped_src [simp]: "lx_src (bumped lx) = lx_src lx" "lx_comments (bumped lx) = lx_comments lx"
  by (auto simp: bump_def split: option.split)

lemma bumped_less: "lx_peek lx \<noteq> None \<Longrightarrow> length (unlexed (bumped lx)) < length (unlexed lx)"
  by (auto simp: unlexed_bumped lx_peek_eq split: list.splits)

text \<open>\<open>while let Some(b) = self.peek() { if p(b) { self.bump(); } else { break; } }\<close>\<close>

function bump_while :: "(char \<Rightarrow> bool) \<Rightarrow> lexer \<Rightarrow> lexer" where
  "bump_while p lx =
     (case lx_peek lx of
        None \<Rightarrow> lx
      | Some b \<Rightarrow> if p b then bump_while p (bumped lx) else lx)"
  by pat_completeness auto
termination
  by (relation "measure (\<lambda>(p, lx). length (unlexed lx))") (auto simp: bumped_less)

declare bump_while.simps [simp del]

section \<open>Whitespace and comments\<close>

function skip_block :: "nat \<Rightarrow> lexer \<Rightarrow> lexer" where
  "skip_block depth lx =
     (if depth = 0 then lx
      else (case lx_peek lx of
          None \<Rightarrow> lx
        | Some b \<Rightarrow>
            if b = CHR ''*'' \<and> lx_peek1 lx = Some (CHR ''/'') then skip_block (depth - 1) (bumped (bumped lx))
            else if b = CHR ''/'' \<and> lx_peek1 lx = Some (CHR ''*'') then skip_block (depth + 1) (bumped (bumped lx))
            else skip_block depth (bumped lx)))"
  by pat_completeness auto
termination
  by (relation "measure (\<lambda>(depth, lx). length (unlexed lx))")
    (auto simp: unlexed_bumped lx_peek_eq lx_peek1_eq split: list.splits)

declare skip_block.simps [simp del]

definition trim_end_newlines :: "string \<Rightarrow> string" where
  "trim_end_newlines s = rev (dropWhile (\<lambda>c. c = newline \<or> c = CHR 0x0D) (rev s))"

definition record_comment :: "nat \<Rightarrow> position \<Rightarrow> lexer \<Rightarrow> lexer lexed" where
  "record_comment off0 p0 lx =
     bind_result (str_slice (lx_src lx) off0 (min (lx_pos lx) (length (lx_src lx)))) (\<lambda>t.
       Inr (lx\<lparr>lx_comments := lx_comments lx
         @ [\<lparr>cm_span = lx_span lx p0 (lx_pos lx), cm_text = trim_end_newlines t\<rparr>]\<rparr>))"

definition skip_line_comment :: "lexer \<Rightarrow> lexer lexed" where
  "skip_line_comment lx =
     record_comment (lx_pos lx) (pos_of lx (lx_pos lx)) (bump_while (\<lambda>b. b \<noteq> newline) lx)"

definition skip_block_comment :: "lexer \<Rightarrow> lexer lexed" where
  "skip_block_comment lx =
     record_comment (lx_pos lx) (pos_of lx (lx_pos lx)) (skip_block 1 (bumped (bumped lx)))"

definition is_blank :: "char \<Rightarrow> bool" where
  "is_blank b \<longleftrightarrow> b = CHR '' '' \<or> b = CHR 0x09 \<or> b = CHR 0x0D \<or> b = newline"

definition opens_line :: "lexer \<Rightarrow> bool" where
  "opens_line lx \<longleftrightarrow> lx_peek lx = Some (CHR ''/'') \<and> lx_peek1 lx = Some (CHR ''/'')"

definition opens_block :: "lexer \<Rightarrow> bool" where
  "opens_block lx \<longleftrightarrow> lx_peek lx = Some (CHR ''/'') \<and> lx_peek1 lx = Some (CHR ''*'')"

definition opens_comment :: "lexer \<Rightarrow> bool" where
  "opens_comment lx \<longleftrightarrow> opens_line lx \<or> opens_block lx"

definition skip_comment :: "lexer \<Rightarrow> lexer lexed" where
  "skip_comment lx = (if opens_line lx then skip_line_comment lx else skip_block_comment lx)"

lemma bump_while_rest: "unlexed (bump_while p lx) = dropWhile p (unlexed lx)"
proof (induction p lx rule: bump_while.induct)
  case (1 p lx)
  then show ?case
    by (cases "unlexed lx") (simp_all add: bump_while.simps [of p lx] lx_peek_eq unlexed_bumped)
qed

lemma skip_block_le: "length (unlexed (skip_block depth lx)) \<le> length (unlexed lx)"
proof (induction depth lx rule: skip_block.induct)
  case (1 depth lx)
  show ?case
  proof (cases "depth = 0 \<or> lx_peek lx = None")
    case True
    then show ?thesis by (auto simp: skip_block.simps [of depth lx])
  next
    case False
    then obtain b where b: "lx_peek lx = Some b" by auto
    note step = 1 [OF _ b]
    show ?thesis
      using False step b
      by (auto simp: skip_block.simps [of depth lx] unlexed_bumped lx_peek_eq split: list.splits)
  qed
qed

lemma unlexed_comments [simp]: "unlexed (lx\<lparr>lx_comments := cs\<rparr>) = unlexed lx"
  by (simp add: unlexed_def)

lemma record_comment_rest: "record_comment off p0 lx = Inr lx' \<Longrightarrow> unlexed lx' = unlexed lx"
  by (auto simp: record_comment_def bind_result_eq_Inr)

lemma skip_comment_less:
  assumes "opens_comment lx" and "skip_comment lx = Inr lx'"
  shows "length (unlexed lx') < length (unlexed lx)"
proof -
  have two: "\<exists>c cs. unlexed lx = CHR ''/'' # c # cs"
    using assms(1) by (auto simp: opens_comment_def opens_line_def opens_block_def lx_peek_eq lx_peek1_eq split: list.splits)
  show ?thesis
  proof (cases "opens_line lx")
    case True
    then have "unlexed lx' = dropWhile (\<lambda>b. b \<noteq> newline) (unlexed lx)"
      using assms(2) by (auto simp: skip_comment_def skip_line_comment_def bump_while_rest dest: record_comment_rest)
    moreover have "CHR ''/'' \<noteq> newline" by (simp add: newline_def)
    ultimately show ?thesis
      using two length_dropWhile_le [of "\<lambda>b. b \<noteq> newline"] by (fastforce simp: less_Suc_eq_le intro: le_SucI)
  next
    case False
    then have "unlexed lx' = unlexed (skip_block 1 (bumped (bumped lx)))"
      using assms(2) by (auto simp: skip_comment_def skip_block_comment_def dest: record_comment_rest)
    then show ?thesis
      using two skip_block_le [of 1 "bumped (bumped lx)"] by (auto simp: unlexed_bumped)
  qed
qed

function skip_trivia :: "lexer \<Rightarrow> lexer lexed" where
  "skip_trivia lx =
     (case lx_peek lx of
        None \<Rightarrow> Inr lx
      | Some b \<Rightarrow>
          if is_blank b then skip_trivia (bumped lx)
          else if opens_comment lx then bind_result (skip_comment lx) skip_trivia
          else Inr lx)"
  by pat_completeness auto
termination
  by (relation "measure (\<lambda>lx. length (unlexed lx))") (auto simp: bumped_less skip_comment_less)

declare skip_trivia.simps [simp del]

section \<open>Literals\<close>

definition is_ident_char :: "char \<Rightarrow> bool" where
  "is_ident_char b \<longleftrightarrow> is_alpha b \<or> is_digit b \<or> b = CHR ''_''"

definition lex_ident :: "lexer \<Rightarrow> (string \<times> lexer) lexed" where
  "lex_ident lx =
     (let lx' = bump_while is_ident_char lx
      in bind_result (str_slice (lx_src lx) (lx_pos lx) (lx_pos lx')) (\<lambda>t. Inr (t, lx')))"

definition lex_fail :: "error_code \<Rightarrow> string \<Rightarrow> position \<Rightarrow> 'a lexed" where
  "lex_fail code msg p = Inl (Raised \<lparr>le_code = code, le_message = msg, le_pos = p\<rparr>)"

definition remove_underscores :: "string \<Rightarrow> string" where
  "remove_underscores = filter (\<lambda>c. c \<noteq> CHR ''_'')"

text \<open>The main loop of \<open>lex_number\<close>: the flags are \<open>saw_dot\<close> and \<open>saw_exp\<close>.\<close>

function number_loop :: "bool \<Rightarrow> bool \<Rightarrow> lexer \<Rightarrow> (bool \<times> bool) \<times> lexer" where
  "number_loop saw_dot saw_exp lx =
     (case lx_peek lx of
        None \<Rightarrow> ((saw_dot, saw_exp), lx)
      | Some b \<Rightarrow>
          if is_digit b \<or> b = CHR ''_'' then number_loop saw_dot saw_exp (bumped lx)
          else if b = CHR ''.'' \<and> \<not> saw_dot \<and> \<not> saw_exp then number_loop True saw_exp (bumped lx)
          else if (b = CHR ''e'' \<or> b = CHR ''E'') \<and> \<not> saw_exp
          then number_loop saw_dot True
                 (if lx_peek (bumped lx) = Some (CHR ''+'') \<or> lx_peek (bumped lx) = Some (CHR ''-'')
                  then bumped (bumped lx) else bumped lx)
          else ((saw_dot, saw_exp), lx))"
  by pat_completeness auto
termination
  by (relation "measure (\<lambda>(saw_dot, saw_exp, lx). length (unlexed lx))")
    (auto simp: unlexed_bumped lx_peek_eq split: list.splits)

declare number_loop.simps [simp del]

definition lex_hex :: "lexer \<Rightarrow> (token_kind \<times> lexer) lexed" where
  "lex_hex lx =
     (let lx' = bump_while (\<lambda>b. hex_digit b \<noteq> None \<or> b = CHR ''_'') (bumped (bumped lx))
      in bind_result (str_slice (lx_src lx) (lx_pos lx) (lx_pos lx')) (\<lambda>t.
        let text = remove_underscores t
        in bind_result (str_slice text 2 (length text)) (\<lambda>digits.
             case parse_hex_i64 digits of
               Some v \<Rightarrow> Inr (TkInt v, lx')
             | None \<Rightarrow> lex_fail UnexpectedToken ''invalid hexadecimal literal'' (pos_of lx' (lx_pos lx)))))"

definition lex_decimal :: "lexer \<Rightarrow> (token_kind \<times> lexer) lexed" where
  "lex_decimal lx =
     (case number_loop False False lx of ((saw_dot, saw_exp), lx') \<Rightarrow>
        bind_result (str_slice (lx_src lx) (lx_pos lx) (lx_pos lx')) (\<lambda>t.
          let text = remove_underscores t
          in if saw_dot \<or> saw_exp
             then (case parse_f64 text of
                 Some v \<Rightarrow> Inr (TkFloat v, lx')
               | None \<Rightarrow> lex_fail UnexpectedToken ''invalid floating-point literal'' (pos_of lx' (lx_pos lx)))
             else (case parse_signed 64 text of
                 Some v \<Rightarrow> Inr (TkInt v, lx')
               | None \<Rightarrow> lex_fail UnexpectedToken ''invalid integer literal'' (pos_of lx' (lx_pos lx)))))"

definition lex_number :: "lexer \<Rightarrow> (token_kind \<times> lexer) lexed" where
  "lex_number lx =
     (if lx_peek lx = Some (CHR ''0'') \<and> (lx_peek1 lx = Some (CHR ''x'') \<or> lx_peek1 lx = Some (CHR ''X''))
      then lex_hex lx else lex_decimal lx)"

text \<open>The loop of \<open>read_hex\<close>: at most eight digits, so the \<open>u32\<close> does not overflow.\<close>

fun read_hex_loop :: "position \<Rightarrow> nat \<Rightarrow> nat \<Rightarrow> lexer \<Rightarrow> (nat \<times> lexer) lexed" where
  "read_hex_loop start 0 v lx = Inr (v, lx)"
| "read_hex_loop start (Suc n) v lx =
     (case lx_peek lx of
        None \<Rightarrow> lex_fail UnexpectedEof ''truncated escape'' start
      | Some b \<Rightarrow> (case hex_digit b of
            None \<Rightarrow> lex_fail UnexpectedToken ''invalid hex digit'' start
          | Some d \<Rightarrow> read_hex_loop start n (v * 16 + d) (bumped lx)))"

definition read_hex :: "nat \<Rightarrow> lexer \<Rightarrow> (nat \<times> lexer) lexed" where
  "read_hex n lx = read_hex_loop (pos_of lx (lx_pos lx)) n 0 lx"

definition simple_escape :: "char \<Rightarrow> char option" where
  "simple_escape esc =
     map_of [(CHR ''n'', CHR 0x0A), (CHR ''t'', CHR 0x09), (CHR ''r'', CHR 0x0D), (CHR 0x5C, CHR 0x5C),
       (CHR 0x27, CHR 0x27), (CHR 0x22, CHR 0x22), (CHR ''0'', CHR 0x00), (CHR ''a'', CHR 0x07),
       (CHR ''b'', CHR 0x08), (CHR ''f'', CHR 0x0C), (CHR ''v'', CHR 0x0B)] esc"

text \<open>The arms behind a backslash; \<open>start\<close> is the position of the opening quote.\<close>

definition lex_escape :: "position \<Rightarrow> char \<Rightarrow> lexer \<Rightarrow> (string \<times> lexer) lexed" where
  "lex_escape start esc lx =
     (case simple_escape esc of
        Some c \<Rightarrow> Inr ([c], lx)
      | None \<Rightarrow>
          if esc = CHR ''x'' then bind_result (read_hex 2 lx) (\<lambda>(h, lx).
            Inr (utf8_of (case char_from_u32 h of Some c \<Rightarrow> c | None \<Rightarrow> 0xFFFD), lx))
          else if esc = CHR ''u'' \<or> esc = CHR ''U''
          then bind_result (read_hex (if esc = CHR ''u'' then 4 else 8) lx) (\<lambda>(h, lx).
            case char_from_u32 h of
              Some c \<Rightarrow> Inr (utf8_of c, lx)
            | None \<Rightarrow> lex_fail UnexpectedToken ''invalid unicode escape'' start)
          else lex_fail UnexpectedToken
            (''invalid escape '' @ [CHR 0x27, CHR 0x5C] @ utf8_of (of_char esc) @ [CHR 0x27]) start)"

lemma read_hex_loop_le:
  "read_hex_loop start n v lx = Inr (v', lx') \<Longrightarrow> length (unlexed lx') \<le> length (unlexed lx)"
proof (induction n arbitrary: v lx)
  case (Suc n)
  then obtain b d where "lx_peek lx = Some b" "read_hex_loop start n (v * 16 + d) (bumped lx) = Inr (v', lx')"
    by (auto simp: lex_fail_def split: option.splits)
  with Suc.IH [of "v * 16 + d" "bumped lx"] bumped_less [of lx] show ?case by simp
qed simp

lemma lex_escape_le: "lex_escape start esc lx = Inr (t, lx') \<Longrightarrow> length (unlexed lx') \<le> length (unlexed lx)"
  by (auto simp: lex_escape_def read_hex_def bind_result_eq_Inr lex_fail_def dest: read_hex_loop_le
      split: option.splits if_splits)

text \<open>The loop of \<open>lex_string\<close>, behind the opening quote.\<close>

function string_loop :: "position \<Rightarrow> char \<Rightarrow> string \<Rightarrow> lexer \<Rightarrow> (string \<times> lexer) lexed" where
  "string_loop start quote out lx =
     (case lx_peek lx of
        None \<Rightarrow> lex_fail UnexpectedEof ''unterminated string literal'' start
      | Some c \<Rightarrow>
          if c = quote then Inr (out, bumped lx)
          else if c = CHR 0x5C
          then (case lx_peek (bumped lx) of
              None \<Rightarrow> lex_fail UnexpectedEof ''unterminated escape'' start
            | Some esc \<Rightarrow> bind_result (lex_escape start esc (bumped (bumped lx))) (\<lambda>(t, lx).
                string_loop start quote (out @ t) lx))
          else string_loop start quote (out @ utf8_of (of_char c)) (bumped lx))"
  by pat_completeness auto
termination
  apply (relation "measure (\<lambda>(start, quote, out, lx). length (unlexed lx))")
    apply (auto simp: bumped_less)
  apply (fastforce dest!: lex_escape_le simp: unlexed_bumped lx_peek_eq split: list.splits)
  done

declare string_loop.simps [simp del]

definition lex_string :: "char \<Rightarrow> lexer \<Rightarrow> (string \<times> lexer) lexed" where
  "lex_string quote lx = string_loop (pos_of lx (lx_pos lx)) quote [] (bumped lx)"

section \<open>Tokens of a source\<close>

definition simple_token :: "char \<Rightarrow> token_kind option" where
  "simple_token b =
     map_of [(CHR 0x7B, LBrace), (CHR 0x7D, RBrace), (CHR ''('', LParen), (CHR '')'', RParen),
       (CHR ''['', LBracket), (CHR '']'', RBracket), (CHR ''<'', Lt), (CHR ''>'', Gt), (CHR '','', Comma),
       (CHR '';'', Semicolon), (CHR ''.'', Dot), (CHR ''='', Equals), (CHR '':'', Colon)] b"

definition lex_kind :: "char \<Rightarrow> lexer \<Rightarrow> (token_kind \<times> lexer) lexed" where
  "lex_kind b lx =
     (case simple_token b of
        Some k \<Rightarrow> Inr (k, bumped lx)
      | None \<Rightarrow>
          if b = CHR 0x22 \<or> b = CHR 0x27 then bind_result (lex_string b lx) (\<lambda>(s, lx). Inr (TkStr s, lx))
          else if is_alpha b \<or> b = CHR ''_'' then bind_result (lex_ident lx) (\<lambda>(s, lx). Inr (TkIdent s, lx))
          else if is_digit b then lex_number lx
          else lex_fail UnexpectedToken
            (''unexpected character '' @ [CHR 0x27] @ utf8_of (of_char b) @ [CHR 0x27]) (pos_of lx (lx_pos lx)))"

definition next_token :: "lexer \<Rightarrow> (token option \<times> lexer) lexed" where
  "next_token lx =
     bind_result (skip_trivia lx) (\<lambda>lx.
       case lx_peek lx of
         None \<Rightarrow> Inr (None, lx)
       | Some b \<Rightarrow> bind_result (lex_kind b lx) (\<lambda>(kind, lx').
           Inr (Some \<lparr>tk_kind = kind, tk_span = lx_span lx' (pos_of lx (lx_pos lx)) (lx_pos lx')\<rparr>, lx')))"

lemma bump_while_le: "length (unlexed (bump_while p lx)) \<le> length (unlexed lx)"
  by (simp add: bump_while_rest length_dropWhile_le)

lemma bumped_le: "length (unlexed (bumped lx)) \<le> length (unlexed lx)"
  by (simp add: unlexed_bumped)

lemma number_loop_le:
  "number_loop d e lx = (fl, lx') \<Longrightarrow> length (unlexed lx') \<le> length (unlexed lx)"
proof (induction d e lx rule: number_loop.induct)
  case (1 d e lx)
  show ?case
  proof (cases "lx_peek lx")
    case None
    then show ?thesis using "1.prems" by (simp add: number_loop.simps [of d e lx])
  next
    case (Some b)
    note prem = "1.prems" [unfolded number_loop.simps [of d e lx]]
    note le = order_trans [OF _ bumped_le [of lx]] order_trans [OF _ order_trans [OF bumped_le bumped_le [of lx]]]
    consider "is_digit b \<or> b = CHR ''_''" | "\<not> (is_digit b \<or> b = CHR ''_'')" "b = CHR ''.'' \<and> \<not> d \<and> \<not> e"
      | "\<not> (is_digit b \<or> b = CHR ''_'')" "\<not> (b = CHR ''.'' \<and> \<not> d \<and> \<not> e)" "(b = CHR ''e'' \<or> b = CHR ''E'') \<and> \<not> e"
      | "\<not> (is_digit b \<or> b = CHR ''_'')" "\<not> (b = CHR ''.'' \<and> \<not> d \<and> \<not> e)" "\<not> ((b = CHR ''e'' \<or> b = CHR ''E'') \<and> \<not> e)"
      by blast
    then show ?thesis
    proof cases
      case 1
      with prem "1.IH"(1) [OF Some 1] show ?thesis by (auto simp: Some intro: le)
    next
      case 2
      with prem "1.IH"(2) [OF Some 2] show ?thesis by (auto simp: Some intro: le)
    next
      case 3
      with prem "1.IH"(3) [OF Some 3] show ?thesis by (auto simp: Some intro: le split: if_splits)
    next
      case 4
      with prem show ?thesis by (auto simp: Some)
    qed
  qed
qed

lemma number_loop_less:
  assumes "number_loop False False lx = (fl, lx')" and "lx_peek lx = Some b" and "is_digit b"
  shows "length (unlexed lx') < length (unlexed lx)"
  using assms number_loop_le [of False False "bumped lx" fl lx'] bumped_less [of lx]
  by (simp add: number_loop.simps [of False False lx])

lemma string_loop_le:
  "string_loop start quote out lx = Inr (t, lx') \<Longrightarrow> length (unlexed lx') \<le> length (unlexed lx)"
proof (induction start quote out lx rule: string_loop.induct)
  case (1 start quote out lx)
  show ?case
  proof (cases "unlexed lx")
    case Nil
    then show ?thesis using "1.prems" by (simp add: string_loop.simps [of start quote out lx] lx_peek_eq lex_fail_def)
  next
    case (Cons c cs)
    then have p: "lx_peek lx = Some c" by (simp add: lx_peek_eq)
    consider "c = quote" | "c \<noteq> quote" "c = CHR 0x5C" | "c \<noteq> quote" "c \<noteq> CHR 0x5C" by blast
    then show ?thesis
    proof cases
      case 1
      then show ?thesis
        using "1.prems" Cons by (auto simp: string_loop.simps [of start quote out lx] p unlexed_bumped)
    next
      case 2
      then obtain esc u lx1 where e: "lx_peek (bumped lx) = Some esc"
        and x: "lex_escape start esc (bumped (bumped lx)) = Inr (u, lx1)"
        and l: "string_loop start quote (out @ u) lx1 = Inr (t, lx')"
        using "1.prems" p
        by (auto simp: string_loop.simps [of start quote out lx] lex_fail_def bind_result_eq_Inr split: option.splits)
      from "1.IH"(1) [OF p 2 e x refl l] lex_escape_le [OF x] show ?thesis
        by (simp add: unlexed_bumped)
    next
      case 3
      then have "string_loop start quote (out @ utf8_of (of_char c)) (bumped lx) = Inr (t, lx')"
        using "1.prems" p by (auto simp: string_loop.simps [of start quote out lx])
      from "1.IH"(2) [OF p 3 this] show ?thesis by (simp add: unlexed_bumped)
    qed
  qed
qed

lemma dropWhile_less: "xs = x # ys \<Longrightarrow> p x \<Longrightarrow> length (dropWhile p xs) < length xs"
  using length_dropWhile_le [of p ys] by simp

lemma lex_kind_less:
  assumes "lx_peek lx = Some b" and "lex_kind b lx = Inr (k, lx')"
  shows "length (unlexed lx') < length (unlexed lx)"
proof (cases "simple_token b")
  case (Some k')
  then show ?thesis using assms bumped_less [of lx] by (auto simp: lex_kind_def)
next
  case None
  obtain cs where s: "unlexed lx = b # cs"
    using assms(1) by (auto simp: lx_peek_eq split: list.splits)
  consider "b = CHR 0x22 \<or> b = CHR 0x27" | "\<not> (b = CHR 0x22 \<or> b = CHR 0x27)" "is_alpha b \<or> b = CHR ''_''"
    | "\<not> (b = CHR 0x22 \<or> b = CHR 0x27)" "\<not> (is_alpha b \<or> b = CHR ''_'')" "is_digit b"
    using assms(2) None by (auto simp: lex_kind_def lex_fail_def split: if_splits)
  then show ?thesis
  proof cases
    case 1
    then show ?thesis
      using assms(2) None s by (auto simp: lex_kind_def lex_string_def bind_result_eq_Inr unlexed_bumped dest!: string_loop_le)
  next
    case 2
    then have "is_ident_char b" by (auto simp: is_ident_char_def)
    moreover from 2 have "unlexed lx' = dropWhile is_ident_char (unlexed lx)"
      using assms(2) None by (auto simp: lex_kind_def lex_ident_def Let_def bind_result_eq_Inr bump_while_rest)
    ultimately show ?thesis using dropWhile_less [OF s] by simp
  next
    case 3
    then have n: "lex_number lx = Inr (k, lx')" using assms(2) None by (simp add: lex_kind_def)
    show ?thesis
    proof (cases "lx_peek lx = Some (CHR ''0'') \<and> (lx_peek1 lx = Some (CHR ''x'') \<or> lx_peek1 lx = Some (CHR ''X''))")
      case True
      with n have "lx' = bump_while (\<lambda>b. hex_digit b \<noteq> None \<or> b = CHR ''_'') (bumped (bumped lx))"
        by (auto simp: lex_number_def lex_hex_def Let_def bind_result_eq_Inr lex_fail_def split: option.splits)
      then show ?thesis
        using bump_while_le [of _ "bumped (bumped lx)"] bumped_less [of lx] assms(1)
        by (simp add: unlexed_bumped s) (meson le_imp_less_Suc le_trans diff_le_self)
    next
      case False
      with n obtain fl where "number_loop False False lx = (fl, lx')"
        by (auto simp: lex_number_def lex_decimal_def Let_def bind_result_eq_Inr lex_fail_def split: option.splits prod.splits if_splits)
      from number_loop_less [OF this assms(1) 3(3)] show ?thesis .
    qed
  qed
qed

lemma skip_trivia_le: "skip_trivia lx = Inr lx' \<Longrightarrow> length (unlexed lx') \<le> length (unlexed lx)"
proof (induction lx rule: skip_trivia.induct)
  case (1 lx)
  show ?case
  proof (cases "lx_peek lx")
    case None
    then show ?thesis using "1.prems" by (simp add: skip_trivia.simps [of lx])
  next
    case (Some b)
    note p = this
    consider "is_blank b" | "\<not> is_blank b" "opens_comment lx" | "\<not> is_blank b" "\<not> opens_comment lx" by blast
    then show ?thesis
    proof cases
      case 1
      with "1.IH"(1) [OF p] "1.prems" p bumped_less [of lx] show ?thesis by (simp add: skip_trivia.simps [of lx])
    next
      case 2
      with "1.prems" p obtain lx1 where c: "skip_comment lx = Inr lx1" "skip_trivia lx1 = Inr lx'"
        by (auto simp: skip_trivia.simps [of lx] bind_result_eq_Inr)
      from "1.IH"(2) [OF p 2 c] skip_comment_less [OF 2(2) c(1)] show ?thesis by simp
    next
      case 3
      then show ?thesis using "1.prems" p by (simp add: skip_trivia.simps [of lx])
    qed
  qed
qed

lemma next_token_less: "next_token lx = Inr (Some t, lx') \<Longrightarrow> length (unlexed lx') < length (unlexed lx)"
  by (fastforce simp: next_token_def bind_result_eq_Inr split: option.splits dest: lex_kind_less skip_trivia_le)

function lex_loop :: "token list \<Rightarrow> lexer \<Rightarrow> (token list \<times> lexer) lexed" where
  "lex_loop out lx =
     bind_result (next_token lx) (\<lambda>(t, lx').
       case t of None \<Rightarrow> Inr (out, lx') | Some tok \<Rightarrow> lex_loop (out @ [tok]) lx')"
  by pat_completeness auto
termination
  by (relation "measure (\<lambda>(out, lx). length (unlexed lx))") (auto dest: next_token_less)

declare lex_loop.simps [simp del]

definition lex_with_comments :: "string \<Rightarrow> (token list \<times> comment list) lexed" where
  "lex_with_comments src =
     bind_result (lex_loop [] (Lexer_new src)) (\<lambda>(out, lx). Inr (out, lx_comments lx))"

definition lex :: "string \<Rightarrow> token list lexed" where
  "lex src = bind_result (lex_with_comments src) (\<lambda>(toks, cms). Inr toks)"

end
