(* ===== verification/Ast.thy ===== *)
theory Ast
  imports Diagnostic
begin

text \<open>
  The syntax tree of the proto language (\<open>crates/tpt-proto-language/src/ast.rs\<close>). The structs are
  datatypes with the struct's fields as selectors, because messages nest; \<open>'p\<close> is the type of the
  source spans, \<open>span\<close> in the trees the parser builds. Mapping every span to \<open>()\<close> leaves the tree
  without its positions.
\<close>

section \<open>Names, imports, constants\<close>

datatype 'p ident = Ident (id_name: string) (id_span: 'p)

datatype 'p syntax_decl = Syntax (syn_span: 'p) (syn_value: string)

datatype import_kind = ImportDefault | ImportPublic | ImportWeak

datatype 'p import_stmt = Import (imp_span: 'p) (imp_path: string) (imp_kind: import_kind)

datatype const_value =
    CInt int
  | CFloat u64
  | CString string
  | CBool bool
  | CIdent string
  | CAggregate "(string \<times> const_value) list"
  | CList "const_value list"

datatype 'p proto_option = ProtoOption (opt_span: 'p) (opt_name: string) (opt_value: const_value)

section \<open>Types\<close>

datatype scalar_type =
    ScDouble | ScFloat | ScInt32 | ScInt64 | ScUint32 | ScUint64 | ScSint32 | ScSint64
  | ScFixed32 | ScFixed64 | ScSfixed32 | ScSfixed64 | ScBool | ScString | ScBytes

fun ScalarType_as_str :: "scalar_type \<Rightarrow> string" where
  "ScalarType_as_str ScDouble = ''double''"
| "ScalarType_as_str ScFloat = ''float''"
| "ScalarType_as_str ScInt32 = ''int32''"
| "ScalarType_as_str ScInt64 = ''int64''"
| "ScalarType_as_str ScUint32 = ''uint32''"
| "ScalarType_as_str ScUint64 = ''uint64''"
| "ScalarType_as_str ScSint32 = ''sint32''"
| "ScalarType_as_str ScSint64 = ''sint64''"
| "ScalarType_as_str ScFixed32 = ''fixed32''"
| "ScalarType_as_str ScFixed64 = ''fixed64''"
| "ScalarType_as_str ScSfixed32 = ''sfixed32''"
| "ScalarType_as_str ScSfixed64 = ''sfixed64''"
| "ScalarType_as_str ScBool = ''bool''"
| "ScalarType_as_str ScString = ''string''"
| "ScalarType_as_str ScBytes = ''bytes''"

definition ScalarType_from_keyword :: "string \<Rightarrow> scalar_type option" where
  "ScalarType_from_keyword s =
     (if s = ''double'' then Some ScDouble
      else if s = ''float'' then Some ScFloat
      else if s = ''int32'' then Some ScInt32
      else if s = ''int64'' then Some ScInt64
      else if s = ''uint32'' then Some ScUint32
      else if s = ''uint64'' then Some ScUint64
      else if s = ''sint32'' then Some ScSint32
      else if s = ''sint64'' then Some ScSint64
      else if s = ''fixed32'' then Some ScFixed32
      else if s = ''fixed64'' then Some ScFixed64
      else if s = ''sfixed32'' then Some ScSfixed32
      else if s = ''sfixed64'' then Some ScSfixed64
      else if s = ''bool'' then Some ScBool
      else if s = ''string'' then Some ScString
      else if s = ''bytes'' then Some ScBytes
      else None)"

lemma ScalarType_keyword_as_str [simp]: "ScalarType_from_keyword (ScalarType_as_str t) = Some t"
  by (cases t) (simp_all add: ScalarType_from_keyword_def)

lemma ScalarType_keyword_Some: "ScalarType_from_keyword s = Some t \<longleftrightarrow> s = ScalarType_as_str t"
proof
  assume "ScalarType_from_keyword s = Some t"
  then show "s = ScalarType_as_str t"
    unfolding ScalarType_from_keyword_def by (auto split: if_splits)
qed simp

datatype 'p type_ref = TScalar scalar_type | TNamed "'p ident"

datatype label = LabelOptional | LabelRequired | LabelRepeated | LabelSingular

record int_range =
  ir_start :: int
  ir_end :: "int option"

section \<open>Declarations\<close>

datatype 'p field = Field
  (fd_span: 'p) (fd_name: "'p ident") (fd_number: int) (fd_ty: "'p type_ref") (fd_label: label)
  (fd_json_name: "string option") (fd_default: "const_value option") (fd_options: "'p proto_option list")

datatype 'p oneof = Oneof
  (oo_span: 'p) (oo_name: "'p ident") (oo_fields: "'p field list") (oo_options: "'p proto_option list")

datatype 'p map_field = MapField
  (mf_span: 'p) (mf_name: "'p ident") (mf_number: int) (mf_key: "'p type_ref") (mf_value: "'p type_ref")
  (mf_options: "'p proto_option list")

datatype 'p enum_value = EnumValue
  (ev_span: 'p) (ev_name: "'p ident") (ev_number: int) (ev_options: "'p proto_option list")

datatype 'p enum = Enum
  (en_span: 'p) (en_name: "'p ident") (en_values: "'p enum_value list")
  (en_reserved_ranges: "int_range list") (en_reserved_names: "'p ident list")
  (en_options: "'p proto_option list") (en_allow_alias: bool)

datatype 'p extension = Extension
  (ex_span: 'p) (ex_extendee: "'p ident") (ex_fields: "'p field list") (ex_options: "'p proto_option list")

datatype 'p message = Message
  (msg_span: 'p) (msg_name: "'p ident") (msg_fields: "'p field list") (msg_oneofs: "'p oneof list")
  (msg_maps: "'p map_field list") (msg_nested_messages: "'p message list") (msg_nested_enums: "'p enum list")
  (msg_nested_extends: "'p extension list") (msg_reserved_ranges: "int_range list")
  (msg_reserved_names: "'p ident list") (msg_extension_ranges: "int_range list")
  (msg_options: "'p proto_option list") (msg_is_group: bool)

datatype 'p method_decl = Method
  (me_span: 'p) (me_name: "'p ident") (me_input: "'p type_ref") (me_output: "'p type_ref")
  (me_client_streaming: bool) (me_server_streaming: bool) (me_options: "'p proto_option list")

datatype 'p service = Service
  (sv_span: 'p) (sv_name: "'p ident") (sv_methods: "'p method_decl list") (sv_options: "'p proto_option list")

datatype 'p proto_file = File
  (f_name: string) (f_syntax: "'p syntax_decl option") (f_edition: "string option") (f_package: "'p ident option")
  (f_imports: "'p import_stmt list") (f_options: "'p proto_option list") (f_messages: "'p message list")
  (f_enums: "'p enum list") (f_services: "'p service list") (f_extensions: "'p extension list")

definition File_default :: "'p proto_file" where
  "File_default = File [] None None None [] [] [] [] [] []"

end
