(* ===== verification/Parser.thy ===== *)
theory Parser
  imports Lexer Ast
begin

text \<open>
  The recursive-descent parser of the proto language (\<open>crates/tpt-proto-language/src/parser.rs\<close>). The
  parser works on a vector of tokens and a position, collects diagnostics and never fails: a function
  of the code that returns \<open>Option\<close> returns an option here, next to the new state.

  Loops run \<open>while_tokens\<close>, which allows one iteration more than there are tokens left. An iteration
  that consumes a token uses up one; an iteration that consumes nothing would be repeated for ever by
  the code, and the model then returns \<open>Inl Diverges\<close>. No function panics: \<open>peek().unwrap()\<close> is
  reached only behind a check of the current token.
\<close>

section \<open>State and primitives\<close>

type_synonym parse_diag = "token_kind diagnostic"

record parser =
  ps_name :: string
  ps_tokens :: "token list"
  ps_pos :: nat
  ps_diags :: "parse_diag list"
  ps_depth :: nat

type_synonym 'a action = "parser \<Rightarrow> (unit, 'a \<times> parser) res"

definition MAX_PROTO_NESTING :: nat where
  "MAX_PROTO_NESTING = 200"

definition ps_peek :: "parser \<Rightarrow> token option" where
  "ps_peek p = nth_opt (ps_tokens p) (ps_pos p)"

definition peek_kind :: "parser \<Rightarrow> token_kind option" where
  "peek_kind p = map_option tk_kind (ps_peek p)"

definition ps_advance :: "parser \<Rightarrow> token option \<times> parser" where
  "ps_advance p = (case ps_peek p of Some t \<Rightarrow> (Some t, p\<lparr>ps_pos := ps_pos p + 1\<rparr>) | None \<Rightarrow> (None, p))"

abbreviation advanced :: "parser \<Rightarrow> parser" where
  "advanced p \<equiv> snd (ps_advance p)"

definition ident_text :: "parser \<Rightarrow> string option" where
  "ident_text p = (case peek_kind p of Some (TkIdent s) \<Rightarrow> Some s | _ \<Rightarrow> None)"

definition at_keyword :: "parser \<Rightarrow> string \<Rightarrow> bool" where
  "at_keyword p kw \<longleftrightarrow> peek_kind p = Some (TkIdent kw)"

definition is_scalar_keyword :: "parser \<Rightarrow> bool" where
  "is_scalar_keyword p \<longleftrightarrow> (case peek_kind p of Some (TkIdent s) \<Rightarrow> ScalarType_from_keyword s \<noteq> None | _ \<Rightarrow> False)"

definition ps_error :: "error_code \<Rightarrow> token_kind diag_message \<Rightarrow> span option \<Rightarrow> parser \<Rightarrow> parser" where
  "ps_error code msg sp p = p\<lparr>ps_diags := diag_push (Diagnostic_error code msg sp) (ps_diags p)\<rparr>"

definition peek_span :: "parser \<Rightarrow> span option" where
  "peek_span p = map_option tk_span (ps_peek p)"

definition expect :: "token_kind \<Rightarrow> parser \<Rightarrow> token option \<times> parser" where
  "expect k p =
     (if peek_kind p = Some k then ps_advance p
      else (None, ps_error UnexpectedToken (Expected_found k (peek_kind p)) (peek_span p) p))"

abbreviation expected :: "token_kind \<Rightarrow> parser \<Rightarrow> parser" where
  "expected k p \<equiv> snd (expect k p)"

definition expect_ident :: "parser \<Rightarrow> span ident option \<times> parser" where
  "expect_ident p =
     (case ps_advance p of
        (None, p) \<Rightarrow> (None, p)
      | (Some tok, p) \<Rightarrow> (case tk_kind tok of
            TkIdent name \<Rightarrow> (Some (Ident name (tk_span tok)), p)
          | _ \<Rightarrow> (None, ps_error UnexpectedToken (Literal ''expected identifier'') (Some (tk_span tok)) p)))"

text \<open>The span from the one of a first token to the one of the token just consumed.\<close>

definition span_from :: "span \<Rightarrow> parser \<Rightarrow> span" where
  "span_from sp p =
     (let e = (case nth_opt (ps_tokens p) (ps_pos p - 1) of Some t \<Rightarrow> tk_span t | None \<Rightarrow> sp)
      in \<lparr>sp_start = sp_start sp, sp_end = sp_end e\<rparr>)"

text \<open>\<open>self.peek().unwrap().span\<close>, where there is a token.\<close>

definition here :: "parser \<Rightarrow> span" where
  "here p = (case ps_peek p of Some t \<Rightarrow> tk_span t | None \<Rightarrow> Span_default)"

text \<open>The \<open>match\<close> that takes a number and complains otherwise.\<close>

definition take_int :: "string \<Rightarrow> parser \<Rightarrow> int option \<times> parser" where
  "take_int msg p =
     (case peek_kind p of
        Some (TkInt n) \<Rightarrow> (Some n, advanced p)
      | _ \<Rightarrow> (None, ps_error UnexpectedToken (Literal msg) (peek_span p) p))"

section \<open>Loops\<close>

definition tokens_left :: "parser \<Rightarrow> nat" where
  "tokens_left p = length (ps_tokens p) - ps_pos p"

datatype 's flow = Continue 's | Break 's

fun token_loop :: "nat \<Rightarrow> (parser \<Rightarrow> bool) \<Rightarrow> ('s \<Rightarrow> 's flow action) \<Rightarrow> 's \<Rightarrow> 's action" where
  "token_loop 0 c step s p = Inl Diverges"
| "token_loop (Suc n) c step s p =
     (if \<not> c p then Inr (s, p)
      else bind_result (step s p) (\<lambda>(f, p). case f of
          Continue s \<Rightarrow> token_loop n c step s p
        | Break s \<Rightarrow> Inr (s, p)))"

definition while_tokens :: "(parser \<Rightarrow> bool) \<Rightarrow> ('s \<Rightarrow> 's flow action) \<Rightarrow> 's \<Rightarrow> 's action" where
  "while_tokens c step s p = token_loop (Suc (tokens_left p)) c step s p"

text \<open>A loop in a function that may return \<open>None\<close> from inside it: the state is then \<open>None\<close>.\<close>

definition try_tokens :: "(parser \<Rightarrow> bool) \<Rightarrow> ('s \<Rightarrow> 's option flow action) \<Rightarrow> 's \<Rightarrow> 's option action" where
  "try_tokens c step s =
     while_tokens c (\<lambda>s p. case s of None \<Rightarrow> Inr (Break None, p) | Some s \<Rightarrow> step s p) (Some s)"

text \<open>The condition of the loops up to a closing bracket.\<close>

definition before :: "token_kind \<Rightarrow> parser \<Rightarrow> bool" where
  "before k p \<longleftrightarrow> peek_kind p \<noteq> Some k \<and> peek_kind p \<noteq> None"

text \<open>The \<open>?\<close> on an option.\<close>

definition try_opt :: "'a option \<times> parser \<Rightarrow> ('a \<Rightarrow> 'b option action) \<Rightarrow> (unit, 'b option \<times> parser) res" where
  "try_opt r f = (case r of (None, p) \<Rightarrow> Inr (None, p) | (Some x, p) \<Rightarrow> f x p)"

definition try_act :: "(unit, 'a option \<times> parser) res \<Rightarrow> ('a \<Rightarrow> 'b option action) \<Rightarrow> (unit, 'b option \<times> parser) res" where
  "try_act m f = bind_result m (\<lambda>r. try_opt r f)"

definition recover :: "parser \<Rightarrow> (unit, parser) res" where
  "recover p =
     bind_result (while_tokens (\<lambda>p. peek_kind p \<noteq> None) (\<lambda>_ p.
       if peek_kind p = Some Semicolon \<or> peek_kind p = Some RBrace then Inr (Break (), p)
       else Inr (Continue (), advanced p)) () p) (\<lambda>(_, p). Inr p)"

section \<open>Syntax, imports, names\<close>

definition parse_syntax :: "parser \<Rightarrow> span syntax_decl option \<times> parser" where
  "parse_syntax p =
     (let start = here p; p = expected Equals (advanced p)
      in case peek_kind p of
           Some (TkStr v) \<Rightarrow>
             (let p = expected Semicolon (advanced p) in (Some (Syntax (span_from start p) v), p))
         | _ \<Rightarrow> (None, ps_error InvalidSyntax (Literal ''syntax value must be a string literal'') (peek_span p) p))"

definition parse_import :: "parser \<Rightarrow> span import_stmt option \<times> parser" where
  "parse_import p =
     (let sp = here p; p = advanced p;
          (kind, p) = (if at_keyword p ''public'' then (ImportPublic, advanced p)
             else if at_keyword p ''weak'' then (ImportWeak, advanced p) else (ImportDefault, p))
      in case peek_kind p of
           Some (TkStr path) \<Rightarrow>
             (let p = expected Semicolon (advanced p) in (Some (Import (span_from sp p) path kind), p))
         | _ \<Rightarrow> (None, ps_error UnexpectedToken (Literal ''import path must be a string literal'') (peek_span p) p))"

text \<open>\<open>while self.peek_kind() == Some(&Dot)\<close>, of an option name: a segment that fails is left out.\<close>

definition option_segments :: "string \<Rightarrow> string action" where
  "option_segments =
     while_tokens (\<lambda>p. peek_kind p = Some Dot) (\<lambda>name p.
       let (i, p) = expect_ident (advanced p)
       in Inr (Continue (name @ ''.'' @ (case i of Some i \<Rightarrow> id_name i | None \<Rightarrow> [])), p))"

definition parenthesised_name :: "string action" where
  "parenthesised_name p =
     while_tokens (\<lambda>p. peek_kind p \<noteq> None) (\<lambda>name p.
       case peek_kind p of
         Some (TkIdent s) \<Rightarrow> Inr (Continue (name @ s), advanced p)
       | Some Dot \<Rightarrow> Inr (Continue (name @ ''.''), advanced p)
       | Some RParen \<Rightarrow> Inr (Break (name @ '')''), advanced p)
       | _ \<Rightarrow> Inr (Break name, p)) ''('' (advanced p)"

definition parse_option_name :: "string option action" where
  "parse_option_name p =
     (if peek_kind p = Some LParen
      then bind_result (parenthesised_name p) (\<lambda>(name, p).
        bind_result (option_segments name p) (\<lambda>(name, p). Inr (Some name, p)))
      else try_opt (expect_ident p) (\<lambda>i p.
        bind_result (option_segments (id_name i) p) (\<lambda>(name, p). Inr (Some name, p))))"

section \<open>Constants and options\<close>

text \<open>The two loops of \<open>parse_constant\<close>; \<open>rec\<close> is the recursive call.\<close>

definition aggregate_step ::
  "const_value option action \<Rightarrow> (string \<times> const_value) list \<Rightarrow> (string \<times> const_value) list option flow action" where
  "aggregate_step rec fs p =
     bind_result (parse_option_name p) (\<lambda>(key, p). case key of
         None \<Rightarrow> Inr (Break None, p)
       | Some key \<Rightarrow>
           if peek_kind p = Some LBrace
           then bind_result (rec p) (\<lambda>(v, p). case v of
               None \<Rightarrow> Inr (Break None, p) | Some v \<Rightarrow> Inr (Continue (Some (fs @ [(key, v)])), p))
           else bind_result (rec (expected Colon p)) (\<lambda>(v, p). case v of
               None \<Rightarrow> Inr (Break None, p)
             | Some v \<Rightarrow> Inr (Continue (Some (fs @ [(key, v)])), expected Semicolon p)))"

definition skip_comma :: "parser \<Rightarrow> parser" where
  "skip_comma p = (if peek_kind p = Some Comma then advanced p else p)"

definition list_step :: "const_value option action \<Rightarrow> const_value list \<Rightarrow> const_value list flow action" where
  "list_step rec items p =
     bind_result (rec p) (\<lambda>(c, p).
       Inr (Continue (case c of Some c \<Rightarrow> items @ [c] | None \<Rightarrow> items), skip_comma p))"

text \<open>
  Every nested constant lies behind a bracket of its own, so the tokens left bound the nesting. The source has no such
  bound: it recurses on the call stack, once per nested aggregate or list, so a deep nesting that overflows the
  stack there is a value here.
\<close>

fun constant_fuel :: "nat \<Rightarrow> const_value option action" where
  "constant_fuel 0 p = Inl Diverges"
| "constant_fuel (Suc n) p =
     (case ps_peek p of
        None \<Rightarrow> Inr (None, p)
      | Some tok \<Rightarrow> (case tk_kind tok of
            TkInt v \<Rightarrow> Inr (Some (CInt v), advanced p)
          | TkFloat v \<Rightarrow> Inr (Some (CFloat v), advanced p)
          | TkStr s \<Rightarrow> Inr (Some (CString s), advanced p)
          | TkIdent s \<Rightarrow> Inr (Some (if s = ''true'' then CBool True else if s = ''false'' then CBool False else CIdent s),
              advanced p)
          | LBrace \<Rightarrow>
              try_act (try_tokens (before RBrace) (aggregate_step (constant_fuel n)) [] (advanced p)) (\<lambda>fs p.
                Inr (Some (CAggregate fs), expected RBrace p))
          | LBracket \<Rightarrow>
              bind_result (while_tokens (before RBracket) (list_step (constant_fuel n)) [] (advanced p)) (\<lambda>(items, p).
                Inr (Some (CList items), expected RBracket p))
          | _ \<Rightarrow> Inr (None, ps_error InvalidOption (Literal ''expected a constant value'') (Some (tk_span tok)) p)))"

definition parse_constant :: "const_value option action" where
  "parse_constant p = constant_fuel (Suc (tokens_left p)) p"

definition parse_option_stmt :: "span proto_option option action" where
  "parse_option_stmt p =
     (let sp = here p
      in try_act (parse_option_name (advanced p)) (\<lambda>name p.
           try_act (parse_constant (expected Equals p)) (\<lambda>value p.
             let p = expected Semicolon p in Inr (Some (ProtoOption (span_from sp p) name value), p))))"

section \<open>Type references\<close>

definition type_segments :: "string \<Rightarrow> string option action" where
  "type_segments =
     try_tokens (\<lambda>p. peek_kind p = Some Dot) (\<lambda>name p.
       case expect_ident (advanced p) of
         (None, p) \<Rightarrow> Inr (Break None, p)
       | (Some i, p) \<Rightarrow> Inr (Continue (Some (name @ ''.'' @ id_name i)), p))"

definition parse_type_ref :: "span type_ref option action" where
  "parse_type_ref p =
     (case ps_peek p of
        None \<Rightarrow> Inr (None, p)
      | Some tok \<Rightarrow> (case (case tk_kind tok of TkIdent s \<Rightarrow> ScalarType_from_keyword s | _ \<Rightarrow> None) of
            Some sc \<Rightarrow> Inr (Some (TScalar sc), advanced p)
          | None \<Rightarrow>
              let (dot, p) = (if peek_kind p = Some Dot then (''.'', advanced p) else ([], p))
              in try_opt (expect_ident p) (\<lambda>first p.
                   try_act (type_segments (dot @ id_name first) p) (\<lambda>name p.
                     Inr (Some (TNamed (Ident name
                       \<lparr>sp_start = sp_start (tk_span tok),
                        sp_end = (case ps_peek p of Some t \<Rightarrow> sp_end (tk_span t) | None \<Rightarrow> sp_end (tk_span tok))\<rparr>)), p)))))"

section \<open>Fields\<close>

definition parse_label :: "parser \<Rightarrow> label \<times> parser" where
  "parse_label p =
     (if at_keyword p ''optional'' then (LabelOptional, advanced p)
      else if at_keyword p ''required'' then (LabelRequired, advanced p)
      else if at_keyword p ''repeated'' then (LabelRepeated, advanced p)
      else (LabelSingular, p))"

text \<open>The targets of the two \<open>&mut\<close> arguments are the first components of the state.\<close>

type_synonym field_extras = "string option \<times> const_value option"

definition parse_field_option :: "field_extras \<Rightarrow> (span proto_option option \<times> field_extras) action" where
  "parse_field_option x p =
     bind_result (parse_option_name p) (\<lambda>(name, p). case name of
         None \<Rightarrow> Inr ((None, x), p)
       | Some name \<Rightarrow>
           if name = ''json_name''
           then (let p = expected Equals p
             in case peek_kind p of
                  Some (TkStr s) \<Rightarrow> Inr ((None, (Some s, snd x)), advanced p)
                | _ \<Rightarrow> Inr ((None, x), p))
           else if name = ''default''
           then bind_result (parse_constant (expected Equals p)) (\<lambda>(c, p). case c of
               Some c \<Rightarrow> Inr ((None, (fst x, Some c)), p)
             | None \<Rightarrow> Inr ((None, x), p))
           else bind_result (parse_constant (expected Equals p)) (\<lambda>(v, p). case v of
               None \<Rightarrow> Inr ((None, x), p)
             | Some v \<Rightarrow> Inr ((Some (ProtoOption (case peek_span p of Some sp \<Rightarrow> sp | None \<Rightarrow> Span_default) name v), x), p)))"

definition field_options_step :: "field_extras \<times> span proto_option list \<Rightarrow> (field_extras \<times> span proto_option list) flow action" where
  "field_options_step s p =
     bind_result (parse_field_option (fst s) p) (\<lambda>((opt, x), p).
       Inr (Continue (x, case opt of Some opt \<Rightarrow> snd s @ [opt] | None \<Rightarrow> snd s), skip_comma p))"

text \<open>The bracketed options behind a field, a map field or an enum value.\<close>

definition parse_field_options :: "(field_extras \<times> span proto_option list) action" where
  "parse_field_options p =
     (if peek_kind p = Some LBracket
      then bind_result (while_tokens (before RBracket) field_options_step ((None, None), []) (advanced p)) (\<lambda>(s, p).
        Inr (s, expected RBracket p))
      else Inr (((None, None), []), p))"

definition parse_field :: "span field option action" where
  "parse_field p =
     (let sp = here p; (lbl, p) = parse_label p
      in try_act (parse_type_ref p) (\<lambda>ty p.
           try_opt (expect_ident p) (\<lambda>name p.
             try_opt (take_int ''expected field number'' (expected Equals p)) (\<lambda>number p.
               bind_result (parse_field_options p) (\<lambda>(((jn, df), opts), p).
                 let p = expected Semicolon p
                 in Inr (Some (Field (span_from sp p) name number ty lbl jn df opts), p))))))"

text \<open>The fields of a \<open>oneof\<close>: their JSON name and default are parsed into a throw-away target.\<close>

definition oneof_step :: "span \<Rightarrow> span field list \<Rightarrow> span field list option flow action" where
  "oneof_step sp fs p =
     bind_result
       (let (lbl, p) = parse_label p
        in try_act (parse_type_ref p) (\<lambda>ty p.
             try_opt (expect_ident p) (\<lambda>name p.
               try_opt (take_int ''expected field number'' (expected Equals p)) (\<lambda>number p.
                 bind_result (parse_field_options p) (\<lambda>((_, opts), p).
                   let p = expected Semicolon p
                   in Inr (Some (Field (span_from sp p) name number ty lbl None None opts), p))))))
       (\<lambda>(f, p). case f of
           None \<Rightarrow> Inr (Break None, p)
         | Some f \<Rightarrow> Inr (Continue (Some (fs @ [f])), p))"

definition parse_oneof :: "span oneof option action" where
  "parse_oneof p =
     (let sp = here p
      in try_opt (expect_ident (advanced p)) (\<lambda>name p.
           bind_result (if at_keyword p ''option'' then parse_option_stmt p else Inr (None, p)) (\<lambda>(opt, p).
             try_act (try_tokens (before RBrace) (oneof_step sp) [] (expected LBrace p)) (\<lambda>fs p.
               let p = expected RBrace p
               in Inr (Some (Oneof (span_from sp p) name fs (case opt of Some o1 \<Rightarrow> [o1] | None \<Rightarrow> [])), p)))))"

definition parse_map :: "span map_field option action" where
  "parse_map p =
     (let sp = here p
      in try_act (parse_type_ref (expected Lt (advanced p))) (\<lambda>key p.
           try_act (parse_type_ref (expected Comma p)) (\<lambda>val p.
             try_opt (expect_ident (expected Gt p)) (\<lambda>name p.
               try_opt (take_int ''expected field number'' (expected Equals p)) (\<lambda>number p.
                 bind_result (parse_field_options p) (\<lambda>((_, opts), p).
                   let p = expected Semicolon p
                   in Inr (Some (MapField (span_from sp p) name number key val opts), p)))))))"

section \<open>Reserved and extension ranges\<close>

text \<open>One round of the loop: \<open>continue\<close> behind a comma, \<open>break\<close> otherwise.\<close>

definition range_end :: "parser \<Rightarrow> int option \<times> parser" where
  "range_end p =
     (if at_keyword p ''to''
      then (let p = advanced p
        in if at_keyword p ''max'' then (Some (2 ^ 63 - 1), advanced p)
           else (case peek_kind p of Some (TkInt n) \<Rightarrow> (Some n, advanced p) | _ \<Rightarrow> (None, p)))
      else (None, p))"

definition ranges_step :: "int_range list \<Rightarrow> int_range list flow action" where
  "ranges_step rs p =
     (case take_int ''expected integer range bound'' p of
        (None, p) \<Rightarrow> Inr (Break rs, p)
      | (Some n, p) \<Rightarrow>
          (let (e, p) = range_end p; rs = rs @ [\<lparr>ir_start = n, ir_end = e\<rparr>]
           in if peek_kind p = Some Comma then Inr (Continue rs, advanced p) else Inr (Break rs, p)))"

definition parse_ranges :: "int_range list action" where
  "parse_ranges = while_tokens (\<lambda>_. True) ranges_step []"

text \<open>The names of a \<open>reserved\<close> statement; \<open>sp\<close> gives the span a name gets.\<close>

definition reserved_names_step :: "(parser \<Rightarrow> span) \<Rightarrow> span ident list \<Rightarrow> span ident list flow action" where
  "reserved_names_step sp names p =
     (case peek_kind p of
        Some (TkStr s) \<Rightarrow>
          (let p = advanced p; names = names @ [Ident s (sp p)]
           in if peek_kind p = Some Comma then Inr (Continue names, advanced p) else Inr (Break names, p))
      | _ \<Rightarrow> Inr (Break names, p))"

definition at_string :: "parser \<Rightarrow> bool" where
  "at_string p \<longleftrightarrow> (case peek_kind p of Some (TkStr _) \<Rightarrow> True | _ \<Rightarrow> False)"

text \<open>
  The common part of \<open>parse_reserved\<close> and of the \<open>reserved\<close> arm of \<open>parse_enum\<close>: the names and the
  ranges reserved so far come in, and the names are extended but the ranges replaced.
\<close>

definition parse_reserved ::
  "(parser \<Rightarrow> span) \<Rightarrow> span ident list \<times> int_range list \<Rightarrow> (span ident list \<times> int_range list) action" where
  "parse_reserved sp s p =
     (let p = advanced p
      in bind_result
           (if at_string p
            then bind_result (while_tokens (\<lambda>_. True) (reserved_names_step sp) (fst s) p) (\<lambda>(names, p). Inr ((names, snd s), p))
            else bind_result (parse_ranges p) (\<lambda>(rs, p). Inr ((fst s, rs), p)))
           (\<lambda>(s, p). Inr (s, expected Semicolon p)))"

definition next_span :: "parser \<Rightarrow> span" where
  "next_span p = (case peek_span p of Some sp \<Rightarrow> sp | None \<Rightarrow> Span_default)"

definition parse_extensions :: "int_range list action" where
  "parse_extensions p =
     bind_result (parse_ranges (advanced p)) (\<lambda>(rs, p). Inr (rs, expected Semicolon p))"

text \<open>The last arm of the statement loops: a diagnostic for the token, which is skipped.\<close>

definition unexpected :: "string \<Rightarrow> parser \<Rightarrow> parser" where
  "unexpected msg p =
     (let kw = (case ident_text p of Some s \<Rightarrow> s | None \<Rightarrow> [])
      in advanced (ps_error UnexpectedToken (Literal (msg @ [CHR 0x27] @ kw @ [CHR 0x27])) (peek_span p) p))"

section \<open>Enums\<close>

definition at_ident :: "parser \<Rightarrow> bool" where
  "at_ident p \<longleftrightarrow> (case peek_kind p of Some (TkIdent _) \<Rightarrow> True | _ \<Rightarrow> False)"

definition parse_enum_value :: "span \<Rightarrow> span enum_value option action" where
  "parse_enum_value sp p =
     try_opt (expect_ident p) (\<lambda>name p.
       try_opt (take_int ''expected enum value number'' (expected Equals p)) (\<lambda>number p.
         bind_result (parse_field_options p) (\<lambda>((_, opts), p).
           Inr (Some (EnumValue sp name number opts), expected Semicolon p))))"

definition enum_step :: "span \<Rightarrow> span enum \<Rightarrow> span enum option flow action" where
  "enum_step sp en p =
     (if at_keyword p ''option''
      then bind_result (parse_option_stmt p) (\<lambda>(opt, p). case opt of
          None \<Rightarrow> Inr (Continue (Some en), p)
        | Some opt \<Rightarrow> Inr (Continue (Some (case en of Enum esp name vs rr rn opts alias \<Rightarrow>
            Enum esp name vs rr rn (opts @ [opt])
              (alias \<or> opt_name opt = ''allow_alias'' \<and> opt_value opt = CBool True))), p))
      else if at_keyword p ''reserved''
      then bind_result (parse_reserved (\<lambda>_. Span_default) (en_reserved_names en, en_reserved_ranges en) p) (\<lambda>((rn, rr), p).
        Inr (Continue (Some (case en of Enum esp name vs _ _ opts alias \<Rightarrow> Enum esp name vs rr rn opts alias)), p))
      else if at_ident p
      then bind_result (parse_enum_value sp p) (\<lambda>(v, p). case v of
          None \<Rightarrow> Inr (Break None, p)
        | Some v \<Rightarrow> Inr (Continue (Some (case en of Enum esp name vs rr rn opts alias \<Rightarrow>
            Enum esp name (vs @ [v]) rr rn opts alias)), p))
      else Inr (Continue (Some en), unexpected ''unexpected token in enum body: '' p))"

definition parse_enum :: "span enum option action" where
  "parse_enum p =
     (let sp = here p
      in try_opt (expect_ident (advanced p)) (\<lambda>name p.
           try_act (try_tokens (before RBrace) (enum_step sp) (Enum sp name [] [] [] [] False) (expected LBrace p)) (\<lambda>en p.
             let p = expected RBrace p
             in Inr (Some (case en of Enum _ name vs rr rn opts alias \<Rightarrow> Enum (span_from sp p) name vs rr rn opts alias), p))))"

section \<open>Services and extensions\<close>

definition method_options_step :: "span proto_option list \<Rightarrow> span proto_option list flow action" where
  "method_options_step opts p =
     bind_result (parse_option_stmt p) (\<lambda>(opt, p). case opt of
         Some opt \<Rightarrow> Inr (Continue (opts @ [opt]), p)
       | None \<Rightarrow> Inr (Continue opts, advanced p))"

definition skip_stream :: "parser \<Rightarrow> bool \<times> parser" where
  "skip_stream p = (if at_keyword p ''stream'' then (True, advanced p) else (False, p))"

definition parse_method :: "span method_decl option action" where
  "parse_method p =
     (let sp = here p
      in try_opt (expect_ident (advanced p)) (\<lambda>name p.
           let (cs, p) = skip_stream (expected LParen p)
           in try_act (parse_type_ref p) (\<lambda>input p.
                let p = expected RParen p
                in if \<not> at_keyword p ''returns''
                   then Inr (None, ps_error UnexpectedToken (Literal (''expected '' @ [CHR 0x27] @ ''returns'' @ [CHR 0x27])) (peek_span p) p)
                   else let (ss, p) = skip_stream (expected LParen (advanced p))
                     in try_act (parse_type_ref p) (\<lambda>output p.
                          let p = expected RParen p
                          in bind_result
                               (if peek_kind p = Some LBrace
                                then bind_result (while_tokens (before RBrace) method_options_step [] (advanced p)) (\<lambda>(opts, p).
                                  Inr (opts, expected RBrace p))
                                else Inr ([], expected Semicolon p))
                               (\<lambda>(opts, p). Inr (Some (Method (span_from sp p) name input output cs ss opts), p))))))"

definition service_step :: "span service \<Rightarrow> span service flow action" where
  "service_step sv p =
     (if at_keyword p ''option''
      then bind_result (parse_option_stmt p) (\<lambda>(opt, p).
        Inr (Continue (case sv of Service sp name ms opts \<Rightarrow>
          Service sp name ms (case opt of Some opt \<Rightarrow> opts @ [opt] | None \<Rightarrow> opts)), p))
      else if at_keyword p ''rpc''
      then bind_result (parse_method p) (\<lambda>(m, p). case m of
          Some m \<Rightarrow> Inr (Continue (case sv of Service sp name ms opts \<Rightarrow> Service sp name (ms @ [m]) opts), p)
        | None \<Rightarrow> bind_result (recover p) (\<lambda>p. Inr (Continue sv, p)))
      else Inr (Continue sv, unexpected ''unexpected token in service body: '' p))"

definition parse_service :: "span service option action" where
  "parse_service p =
     (let sp = here p
      in try_opt (expect_ident (advanced p)) (\<lambda>name p.
           bind_result (while_tokens (before RBrace) service_step (Service sp name [] []) (expected LBrace p)) (\<lambda>(sv, p).
             let p = expected RBrace p
             in Inr (Some (case sv of Service _ name ms opts \<Rightarrow> Service (span_from sp p) name ms opts), p))))"

definition extend_step :: "span extension \<Rightarrow> span extension flow action" where
  "extend_step ex p =
     (if at_keyword p ''option''
      then bind_result (parse_option_stmt p) (\<lambda>(opt, p).
        Inr (Continue (case ex of Extension sp n fs opts \<Rightarrow>
          Extension sp n fs (case opt of Some opt \<Rightarrow> opts @ [opt] | None \<Rightarrow> opts)), p))
      else bind_result (parse_field p) (\<lambda>(f, p). case f of
          Some f \<Rightarrow> Inr (Continue (case ex of Extension sp n fs opts \<Rightarrow> Extension sp n (fs @ [f]) opts), p)
        | None \<Rightarrow> bind_result (recover p) (\<lambda>p. Inr (Continue ex, p))))"

definition parse_extend :: "span extension option action" where
  "parse_extend p =
     (let sp = here p
      in try_opt (expect_ident (advanced p)) (\<lambda>extendee p.
           bind_result (while_tokens (before RBrace) extend_step (Extension sp extendee [] []) (expected LBrace p)) (\<lambda>(ex, p).
             let p = expected RBrace p
             in Inr (Some (case ex of Extension _ n fs opts \<Rightarrow> Extension (span_from sp p) n fs opts), p))))"

section \<open>Messages\<close>

definition balanced_step :: "int \<Rightarrow> int flow action" where
  "balanced_step level p =
     (case peek_kind p of
        None \<Rightarrow> Inr (Break level, p)
      | Some LBrace \<Rightarrow> Inr (Continue (level + 1), advanced p)
      | Some RBrace \<Rightarrow> if level - 1 \<le> 0 then Inr (Break (level - 1), advanced p) else Inr (Continue (level - 1), advanced p)
      | _ \<Rightarrow> Inr (Continue level, advanced p))"

text \<open>The \<open>i32\<close> level is an integer: it is at most the number of tokens.\<close>

definition skip_balanced_block :: "parser \<Rightarrow> (unit, parser) res" where
  "skip_balanced_block p =
     bind_result (while_tokens (\<lambda>_. True) balanced_step 0 p) (\<lambda>(_, p). Inr p)"

text \<open>The result of a part of the body: the message with it, or as it was, behind a recovery.\<close>

definition add_or_recover :: "('a \<Rightarrow> span message) \<Rightarrow> span message \<Rightarrow> 'a option \<times> parser \<Rightarrow> (unit, span message flow \<times> parser) res" where
  "add_or_recover add m r = (case r of
      (Some x, p) \<Rightarrow> Inr (Continue (add x), p)
    | (None, p) \<Rightarrow> bind_result (recover p) (\<lambda>p. Inr (Continue m, p)))"

text \<open>One round of \<open>parse_message_body\<close>; \<open>rec\<close> parses a nested message or group.\<close>

definition message_step :: "(bool \<Rightarrow> span message option action) \<Rightarrow> span message \<Rightarrow> span message flow action" where
  "message_step rec m p =
     (case m of Message sp name fds oneofs maps msgs enums exts rr rn er opts grp \<Rightarrow>
        if at_keyword p ''option''
        then bind_result (parse_option_stmt p) (\<lambda>(opt, p). Inr (Continue (case opt of
            Some opt \<Rightarrow> Message sp name fds oneofs maps msgs enums exts rr rn er (opts @ [opt]) grp | None \<Rightarrow> m), p))
        else if at_keyword p ''message''
        then bind_result (rec False p) (add_or_recover (\<lambda>x. Message sp name fds oneofs maps (msgs @ [x]) enums exts rr rn er opts grp) m)
        else if at_keyword p ''enum''
        then bind_result (parse_enum p) (add_or_recover (\<lambda>x. Message sp name fds oneofs maps msgs (enums @ [x]) exts rr rn er opts grp) m)
        else if at_keyword p ''oneof''
        then bind_result (parse_oneof p) (add_or_recover (\<lambda>x. Message sp name fds (oneofs @ [x]) maps msgs enums exts rr rn er opts grp) m)
        else if at_keyword p ''map''
        then bind_result (parse_map p) (add_or_recover (\<lambda>x. Message sp name fds oneofs (maps @ [x]) msgs enums exts rr rn er opts grp) m)
        else if at_keyword p ''reserved''
        then bind_result (parse_reserved next_span (rn, rr) p) (\<lambda>((rn, rr), p).
          Inr (Continue (Message sp name fds oneofs maps msgs enums exts rr rn er opts grp), p))
        else if at_keyword p ''extensions''
        then bind_result (parse_extensions p) (\<lambda>(er, p).
          Inr (Continue (Message sp name fds oneofs maps msgs enums exts rr rn er opts grp), p))
        else if at_keyword p ''extend''
        then bind_result (parse_extend p) (add_or_recover (\<lambda>x. Message sp name fds oneofs maps msgs enums (exts @ [x]) rr rn er opts grp) m)
        else if at_keyword p ''group''
        then bind_result (rec True p) (add_or_recover (\<lambda>x. Message sp name fds oneofs maps (msgs @ [x]) enums exts rr rn er opts grp) m)
        else if is_scalar_keyword p \<or> peek_kind p = Some Dot \<or> at_ident p
        then bind_result (parse_field p) (add_or_recover (\<lambda>x. Message sp name (fds @ [x]) oneofs maps msgs enums exts rr rn er opts grp) m)
        else Inr (Continue m, unexpected ''unexpected token in message body: '' p))"

definition parse_message_body :: "(bool \<Rightarrow> span message option action) \<Rightarrow> span message \<Rightarrow> span message action" where
  "parse_message_body rec m p =
     bind_result (while_tokens (before RBrace) (message_step rec) m p) (\<lambda>(m, p). Inr (m, expected RBrace p))"

definition group_number :: "bool \<Rightarrow> parser \<Rightarrow> int \<times> parser" where
  "group_number is_group p =
     (if is_group
      then (case take_int ''group requires a field number'' (expected Equals p) of
          (Some n, p) \<Rightarrow> (n, p) | (None, p) \<Rightarrow> (0, p))
      else (0, p))"

definition group_field :: "span \<Rightarrow> span ident \<Rightarrow> int \<Rightarrow> span field" where
  "group_field sp name number = Field sp name number (TNamed name) LabelOptional None None []"

definition parse_message_inner :: "(bool \<Rightarrow> span message option action) \<Rightarrow> bool \<Rightarrow> span message option action" where
  "parse_message_inner rec is_group p =
     (let sp = here p
      in try_opt (expect_ident (advanced p)) (\<lambda>name p.
           let (number, p) = group_number is_group p;
               p = expected LBrace p;
               m = Message sp name (if is_group then [group_field sp name number] else []) [] [] [] [] [] [] [] [] [] is_group
           in bind_result (parse_message_body rec m p) (\<lambda>(m, p). Inr (Some m, p))))"

definition too_deep_message :: string where
  "too_deep_message = ''`.proto` nesting exceeds maximum depth of '' @ show_nat MAX_PROTO_NESTING"

text \<open>The fuel bounds the nesting: each level raises \<open>ps_depth\<close>, up to the maximum.\<close>

fun message_fuel :: "nat \<Rightarrow> bool \<Rightarrow> span message option action" where
  "message_fuel 0 is_group p = Inl Diverges"
| "message_fuel (Suc n) is_group p =
     (if MAX_PROTO_NESTING \<le> ps_depth p
      then let p = advanced (ps_error Other_error (Literal too_deep_message) (peek_span p) p)
        in bind_result (if peek_kind p = Some LBrace then skip_balanced_block p else Inr p) (\<lambda>p. Inr (None, p))
      else bind_result (parse_message_inner (message_fuel n) is_group (p\<lparr>ps_depth := ps_depth p + 1\<rparr>)) (\<lambda>(m, p).
        Inr (m, p\<lparr>ps_depth := ps_depth p - 1\<rparr>)))"

definition parse_message :: "bool \<Rightarrow> span message option action" where
  "parse_message is_group p = message_fuel (Suc (MAX_PROTO_NESTING - ps_depth p)) is_group p"

section \<open>Files\<close>

definition package_segments :: "span ident \<Rightarrow> span ident action" where
  "package_segments =
     while_tokens (\<lambda>p. peek_kind p = Some Dot) (\<lambda>pkg p.
       case expect_ident (advanced p) of
         (Some seg, p) \<Rightarrow> Inr (Continue (Ident (id_name pkg @ ''.'' @ id_name seg) (id_span pkg)), p)
       | (None, p) \<Rightarrow> Inr (Break (Ident (id_name pkg @ ''.'') (id_span pkg)), p))"

definition parse_edition :: "parser \<Rightarrow> string option \<times> parser" where
  "parse_edition p =
     (let p = expected Equals (advanced p)
      in case peek_kind p of
           Some (TkStr s) \<Rightarrow> (Some s, expected Semicolon (advanced p))
         | _ \<Rightarrow> (None, expected Semicolon p))"

definition file_or_recover :: "('a \<Rightarrow> span proto_file) \<Rightarrow> span proto_file \<Rightarrow> 'a option \<times> parser \<Rightarrow> (unit, span proto_file flow \<times> parser) res" where
  "file_or_recover add f r = (case r of
      (Some x, p) \<Rightarrow> Inr (Continue (add x), p)
    | (None, p) \<Rightarrow> bind_result (recover p) (\<lambda>p. Inr (Continue f, p)))"

definition file_step :: "span proto_file \<Rightarrow> span proto_file flow action" where
  "file_step f p =
     (case f of File n syn ed pkg imps opts msgs enums svcs exts \<Rightarrow>
        if at_keyword p ''syntax''
        then (case parse_syntax p of (s, p) \<Rightarrow>
          Inr (Continue (File n (case s of Some s \<Rightarrow> Some s | None \<Rightarrow> syn) ed pkg imps opts msgs enums svcs exts), p))
        else if at_keyword p ''edition''
        then (case parse_edition p of (s, p) \<Rightarrow>
          Inr (Continue (File n syn (case s of Some s \<Rightarrow> Some s | None \<Rightarrow> ed) pkg imps opts msgs enums svcs exts), p))
        else if at_keyword p ''package''
        then (case expect_ident (advanced p) of
            (None, p) \<Rightarrow> Inr (Continue f, expected Semicolon p)
          | (Some i, p) \<Rightarrow> bind_result (package_segments i p) (\<lambda>(i, p).
              Inr (Continue (File n syn ed (Some i) imps opts msgs enums svcs exts), expected Semicolon p)))
        else if at_keyword p ''import''
        then (case parse_import p of (i, p) \<Rightarrow>
          Inr (Continue (case i of Some i \<Rightarrow> File n syn ed pkg (imps @ [i]) opts msgs enums svcs exts | None \<Rightarrow> f), p))
        else if at_keyword p ''option''
        then bind_result (parse_option_stmt p) (\<lambda>(opt, p). Inr (Continue (case opt of
            Some opt \<Rightarrow> File n syn ed pkg imps (opts @ [opt]) msgs enums svcs exts | None \<Rightarrow> f), p))
        else if at_keyword p ''message''
        then bind_result (parse_message False p) (file_or_recover (\<lambda>x. File n syn ed pkg imps opts (msgs @ [x]) enums svcs exts) f)
        else if at_keyword p ''enum''
        then bind_result (parse_enum p) (file_or_recover (\<lambda>x. File n syn ed pkg imps opts msgs (enums @ [x]) svcs exts) f)
        else if at_keyword p ''service''
        then bind_result (parse_service p) (file_or_recover (\<lambda>x. File n syn ed pkg imps opts msgs enums (svcs @ [x]) exts) f)
        else if at_keyword p ''extend''
        then bind_result (parse_extend p) (file_or_recover (\<lambda>x. File n syn ed pkg imps opts msgs enums svcs (exts @ [x])) f)
        else Inr (Continue f, unexpected ''unexpected top-level token '' p))"

definition parse_tokens :: "span proto_file action" where
  "parse_tokens p =
     while_tokens (\<lambda>p. peek_kind p \<noteq> None) file_step (File (ps_name p) None None None [] [] [] [] [] []) p"

record parse_result =
  pr_file :: "span proto_file"
  pr_diagnostics :: "parse_diag list"
  pr_comments :: "comment list"

definition Parser_new :: "string \<Rightarrow> token list \<Rightarrow> parser" where
  "Parser_new name toks = \<lparr>ps_name = name, ps_tokens = toks, ps_pos = 0, ps_diags = [], ps_depth = 0\<rparr>"

text \<open>A lexical error becomes the only diagnostic, with an empty file.\<close>

definition parse_file :: "string \<Rightarrow> string \<Rightarrow> (unit, parse_result) res" where
  "parse_file name src =
     (case lex_with_comments src of
        Inl (Raised e) \<Rightarrow>
          Inr \<lparr>pr_file = File name None None None [] [] [] [] [] [],
               pr_diagnostics = [with_suggestion ''check the highlighted token''
                 (Diagnostic_error UnexpectedToken (Literal (le_message e)) (Some \<lparr>sp_start = le_pos e, sp_end = le_pos e\<rparr>))],
               pr_comments = []\<rparr>
      | Inl (Panicked m) \<Rightarrow> Inl (Panicked m)
      | Inl Diverges \<Rightarrow> Inl Diverges
      | Inr (tokens, comments) \<Rightarrow>
          bind_result (parse_tokens (Parser_new name tokens)) (\<lambda>(file, p).
            Inr \<lparr>pr_file = file, pr_diagnostics = ps_diags p, pr_comments = comments\<rparr>))"

end
