(* ===== verification/Lexer_Local.thy ===== *)
theory Lexer_Local
  imports Lexer
begin

text \<open>
  Lexing is local: what the lexer makes of a literal or token depends on its own text and on the
  character behind it alone, wherever it stands in a source. A lexeme is a text that is one token.
\<close>

section \<open>Character boundaries\<close>

lemma utf8_head_not_cont: "utf8_valid (b # bs) \<Longrightarrow> \<not> is_cont_byte b"
proof
  assume v: "utf8_valid (b # bs)" and c: "is_cont_byte b"
  have "utf8_lead b = 0"
    using c by (auto simp: is_cont_byte_def utf8_lead_def word_le_nat_alt word_less_nat_alt)
  then have "utf8_char_len (b # bs) = 0"
    by (cases bs) simp_all
  with v show False
    by (simp add: utf8_valid_def utf8_error_def utf8_error_from.simps [of 0 "b # bs"])
qed

lemma utf8_char_bytes:
  assumes "utf8_char_len bs = n" and "2 \<le> n" and "i < n"
  shows "0x80 \<le> bs ! i"
proof (cases bs rule: utf8_char_len.cases)
  case 1
  then show ?thesis using assms by simp
next
  case (2 b)
  then show ?thesis using assms by (simp split: if_splits)
next
  case (3 b c cs)
  then have n: "n = utf8_lead b" and c: "utf8_second b c" and l: "n - 2 \<le> length cs"
    and all: "list_all is_cont_byte (take (n - 2) cs)"
    using assms(1,2) by (auto simp: Let_def split: if_splits)
  consider "i = 0" | "i = 1" | j where "i = j + 2"
    by (metis One_nat_def Suc_1 add.commute add_2_eq_Suc less_2_cases not_less_eq le_Suc_ex not_less)
  then show ?thesis
  proof cases
    case 1
    have "\<not> b < 0x80" using n assms(2) by (auto simp: utf8_lead_def)
    with 1 3 show ?thesis by simp
  next
    case 2
    with 3 c show ?thesis by (simp add: utf8_second_def is_cont_byte_def)
  next
    case (3 j)
    with assms(3) have "j < n - 2" by simp
    with l have "is_cont_byte (cs ! j)"
      using all by (auto simp: list_all_length)
    with 3 \<open>bs = b # c # cs\<close> show ?thesis by (simp add: is_cont_byte_def)
  qed
qed

lemma utf8_after_ascii:
  "utf8_error_from off bs = None \<Longrightarrow> Suc i < length bs \<Longrightarrow> bs ! i < 0x80 \<Longrightarrow> \<not> is_cont_byte (bs ! Suc i)"
proof (induction off bs arbitrary: i rule: utf8_error_from.induct)
  case (1 off bs)
  let ?n = "utf8_char_len bs"
  from "1.prems" have ne: "bs \<noteq> []" by auto
  with "1.prems" have n: "?n \<noteq> 0" and r: "utf8_error_from (off + ?n) (drop ?n bs) = None"
    by (auto simp: utf8_error_from.simps [of off bs] split: if_splits)
  show ?case
  proof (cases "i < ?n")
    case True
    then have "?n = 1"
      using utf8_char_bytes [of bs ?n i] n "1.prems"(3) by (cases "?n = 1") (auto simp: not_less [symmetric])
    with True "1.prems"(2) have "drop ?n bs = bs ! Suc i # drop (Suc (Suc i)) bs"
      by (simp add: Cons_nth_drop_Suc)
    with r show ?thesis
      using utf8_head_not_cont by (metis utf8_error_from_None)
  next
    case False
    then show ?thesis
      using "1.IH" [OF ne n r, of "i - ?n"] "1.prems" utf8_char_len_le [of bs] by (simp add: Suc_diff_le)
  qed
qed

definition ascii :: "char \<Rightarrow> bool" where
  "ascii c \<longleftrightarrow> (of_char c :: nat) < 128"

lemma ascii_byte: "ascii c \<longleftrightarrow> (of_char c :: byte) < 0x80"
  by (simp add: ascii_def word_less_nat_alt unat_of_char)

lemma ascii_not_cont: "ascii c \<Longrightarrow> \<not> is_cont_byte (of_char c)"
  by (auto simp: ascii_byte is_cont_byte_def)

lemma boundary_ascii: "i < length s \<Longrightarrow> ascii (s ! i) \<Longrightarrow> is_char_boundary s i"
  by (simp add: is_char_boundary_def ascii_not_cont)

lemma boundary_after_ascii: "str_ok s \<Longrightarrow> i < length s \<Longrightarrow> ascii (s ! i) \<Longrightarrow> is_char_boundary s (Suc i)"
  using utf8_after_ascii [of 0 "as_bytes s" i]
  by (auto simp: is_char_boundary_def str_ok_def utf8_error_from_None ascii_byte as_bytes_def)

lemma ascii_chars:
  "is_digit c \<Longrightarrow> ascii c" "is_ident_char c \<Longrightarrow> ascii c" "hex_digit c \<noteq> None \<Longrightarrow> ascii c"
  "is_blank c \<Longrightarrow> ascii c"
  by (auto simp: ascii_def is_digit_def digit_of_def is_ident_char_def is_alpha_def hex_digit_def is_blank_def
      newline_def Let_def split: if_splits)

section \<open>What an operation consumes\<close>

definition consumed :: "lexer \<Rightarrow> string \<Rightarrow> lexer \<Rightarrow> bool" where
  "consumed lx s lx' \<longleftrightarrow> lx_src lx' = lx_src lx \<and> lx_comments lx' = lx_comments lx
     \<and> lx_pos lx' = lx_pos lx + length s \<and> unlexed lx = s @ unlexed lx'"

lemma consumed_refl: "consumed lx [] lx"
  by (simp add: consumed_def)

lemma consumed_trans: "consumed lx s lx1 \<Longrightarrow> consumed lx1 t lx2 \<Longrightarrow> consumed lx (s @ t) lx2"
  by (simp add: consumed_def)

lemma consumed_bump: "lx_peek lx = Some b \<Longrightarrow> consumed lx [b] (bumped lx)"
  by (auto simp: consumed_def unlexed_bumped lx_peek_eq split: list.splits) (simp add: bump_def lx_peek_eq)

lemma consumed_Cons: "lx_peek lx = Some b \<Longrightarrow> consumed (bumped lx) s lx' \<Longrightarrow> consumed lx (b # s) lx'"
  using consumed_trans [OF consumed_bump] by fastforce

lemma consumed_rest: "consumed lx s lx' \<Longrightarrow> unlexed lx = s @ unlexed lx'"
  by (simp add: consumed_def)

lemma peek_Cons: "unlexed lx = b # s \<Longrightarrow> lx_peek lx = Some b"
  by (simp add: lx_peek_eq)

lemma bump_while_consumed: "consumed lx (takeWhile p (unlexed lx)) (bump_while p lx)"
proof (induction p lx rule: bump_while.induct)
  case (1 p lx)
  show ?case
  proof (cases "unlexed lx")
    case Nil
    then show ?thesis by (simp add: bump_while.simps [of p lx] lx_peek_eq consumed_refl)
  next
    case (Cons b s)
    note p = peek_Cons [OF Cons]
    from "1.IH" [OF p] Cons show ?thesis
      by (auto simp: bump_while.simps [of p lx] p consumed_refl unlexed_bumped intro: consumed_Cons)
  qed
qed

text \<open>
  \<open>f\<close> took \<open>v\<close> from some text \<open>s\<close>, and takes it from the same text wherever it stands, in front of any
  rest that fulfils \<open>P\<close>.
\<close>

definition local_to :: "(string \<Rightarrow> bool) \<Rightarrow> (lexer \<Rightarrow> ('v \<times> lexer) lexed) \<Rightarrow> lexer \<Rightarrow> 'v \<Rightarrow> lexer \<Rightarrow> bool" where
  "local_to P f lx v lx' \<longleftrightarrow> (\<exists>s. consumed lx s lx' \<and>
     (\<forall>ly r. unlexed ly = s @ r \<longrightarrow> P r \<longrightarrow> (\<exists>ly'. f ly = Inr (v, ly') \<and> consumed ly s ly')))"

lemma slice_consumed:
  assumes "consumed lx s lx'"
  shows "str_slice (lx_src lx) (lx_pos lx) (lx_pos lx') =
    (if is_char_boundary (lx_src lx) (lx_pos lx) \<and> is_char_boundary (lx_src lx) (lx_pos lx') then Inr s
     else Inl (Panicked ''byte index is not a char boundary''))"
  using assms by (simp add: str_slice_def consumed_def unlexed_def)

lemma slice_consumed_eq: "consumed lx s lx' \<Longrightarrow> str_slice (lx_src lx) (lx_pos lx) (lx_pos lx') = Inr v \<Longrightarrow> v = s"
  by (cases "is_char_boundary (lx_src lx) (lx_pos lx) \<and> is_char_boundary (lx_src lx) (lx_pos lx')")
    (simp_all add: slice_consumed)

definition at_boundary :: "string \<Rightarrow> bool" where
  "at_boundary r \<longleftrightarrow> (case r of [] \<Rightarrow> True | c # _ \<Rightarrow> \<not> is_cont_byte (of_char c))"

lemma boundary_unlexed: "lx_pos lx \<le> length (lx_src lx) \<Longrightarrow> is_char_boundary (lx_src lx) (lx_pos lx) = at_boundary (unlexed lx)"
  by (cases "lx_pos lx = length (lx_src lx)")
    (auto simp: is_char_boundary_def at_boundary_def unlexed_def Cons_nth_drop_Suc [symmetric])

section \<open>Literals are local\<close>

text \<open>What may stand behind an identifier and behind a number.\<close>

definition ends_word :: "string \<Rightarrow> bool" where
  "ends_word r \<longleftrightarrow> (case r of [] \<Rightarrow> True | c # _ \<Rightarrow> \<not> is_ident_char c \<and> \<not> is_cont_byte (of_char c))"

definition ends_number :: "string \<Rightarrow> bool" where
  "ends_number r \<longleftrightarrow> ends_word r \<and> (case r of [] \<Rightarrow> True | c # _ \<Rightarrow> c \<notin> {CHR ''.'', CHR ''+'', CHR ''-''})"

lemma ends_word_simps [simp]:
  "ends_word []" "ends_word (c # r) \<longleftrightarrow> \<not> is_ident_char c \<and> \<not> is_cont_byte (of_char c)"
  by (simp_all add: ends_word_def)

lemma ends_number_simps [simp]:
  "ends_number []"
  "ends_number (c # r) \<longleftrightarrow> ends_word (c # r) \<and> c \<noteq> CHR ''.'' \<and> c \<noteq> CHR ''+'' \<and> c \<noteq> CHR ''-''"
  by (auto simp: ends_number_def)

lemma ends_word_boundary: "ends_word r \<Longrightarrow> at_boundary r"
  by (auto simp: at_boundary_def split: list.split)

lemma slice_local:
  assumes "consumed ly s ly'" and "s = c # cs" and "ascii c" and "at_boundary (unlexed ly')"
  shows "str_slice (lx_src ly) (lx_pos ly) (lx_pos ly') = Inr s"
proof -
  have ne: "unlexed ly \<noteq> []" and s: "unlexed ly = s @ unlexed ly'"
    using assms(1,2) by (auto simp: consumed_def)
  have p: "lx_pos ly \<le> length (lx_src ly)" "lx_pos ly' \<le> length (lx_src ly)"
  proof -
    have "length s \<le> length (unlexed ly)" using s by simp
    with ne show "lx_pos ly \<le> length (lx_src ly)" "lx_pos ly' \<le> length (lx_src ly)"
      using assms(1) by (simp_all add: consumed_def unlexed_def)
  qed
  have "is_char_boundary (lx_src ly) (lx_pos ly)"
    using boundary_unlexed [OF p(1)] assms(2,3) s by (simp add: at_boundary_def ascii_not_cont)
  moreover have "is_char_boundary (lx_src ly) (lx_pos ly')"
    using boundary_unlexed [of ly'] p(2) assms(1,4) by (simp add: consumed_def)
  ultimately show ?thesis
    using slice_consumed [OF assms(1)] by simp
qed

lemma dropWhile_split:
  assumes "\<forall>c \<in> set s. p c" and "r = [] \<or> \<not> p (hd r)"
  shows "takeWhile p (s @ r) = s" "dropWhile p (s @ r) = r"
  using assms by (auto simp: takeWhile_append dropWhile_append takeWhile_eq_Nil_iff dropWhile_eq_self_iff)

lemma bump_while_local:
  assumes "unlexed ly = s @ r" and "\<forall>c \<in> set s. p c" and "r = [] \<or> \<not> p (hd r)"
  shows "consumed ly s (bump_while p ly)" "unlexed (bump_while p ly) = r"
  using bump_while_consumed [of ly p] dropWhile_split [OF assms(2,3)] assms(1)
  by (simp_all add: bump_while_rest)

lemma lex_ident_local:
  assumes "lex_ident lx = Inr (v, lx')" and "unlexed lx = c # cs" and "is_ident_char c"
  shows "local_to ends_word lex_ident lx v lx'"
proof -
  let ?s = "takeWhile is_ident_char (unlexed lx)"
  have lx': "lx' = bump_while is_ident_char lx"
    using assms(1) by (auto simp: lex_ident_def Let_def bind_result_eq_Inr)
  then have c: "consumed lx ?s lx'"
    by (simp add: bump_while_consumed)
  then have v: "v = ?s"
    using assms(1) lx' by (auto simp: lex_ident_def Let_def bind_result_eq_Inr intro: slice_consumed_eq)
  have "lex_ident ly = Inr (v, bump_while is_ident_char ly) \<and> consumed ly ?s (bump_while is_ident_char ly)"
    if u: "unlexed ly = ?s @ r" and e: "ends_word r" for ly r
  proof -
    have "\<forall>c \<in> set ?s. is_ident_char c" "r = [] \<or> \<not> is_ident_char (hd r)"
      using e by (auto dest: set_takeWhileD simp: ends_word_def split: list.splits)
    note b = bump_while_local [OF u this]
    have "str_slice (lx_src ly) (lx_pos ly) (lx_pos (bump_while is_ident_char ly)) = (Inr ?s :: string lexed)"
      using slice_local [OF b(1), of c] b(2) e assms(2,3) by (simp add: ascii_chars ends_word_boundary)
    with b(1) v show ?thesis by (simp add: lex_ident_def Let_def)
  qed
  with c show ?thesis unfolding local_to_def by blast
qed

lemma number_loop_stop: "ends_number (unlexed ly) \<Longrightarrow> number_loop d e ly = ((d, e), ly)"
proof (cases "unlexed ly")
  case Nil
  then show ?thesis by (simp add: number_loop.simps [of d e ly] lx_peek_eq)
next
  case (Cons c cs)
  moreover assume "ends_number (unlexed ly)"
  ultimately have "\<not> is_digit c" "c \<noteq> CHR ''_''" "c \<noteq> CHR ''.''" "c \<noteq> CHR ''e''" "c \<noteq> CHR ''E''"
    by (auto simp: is_ident_char_def is_alpha_def)
  then show ?thesis
    by (simp add: number_loop.simps [of d e ly] peek_Cons [OF Cons])
qed

lemma number_loop_local:
  "number_loop d e lx = (fl, lx') \<Longrightarrow>
   \<exists>s. consumed lx s lx' \<and> (\<forall>ly r. unlexed ly = s @ r \<longrightarrow> ends_number r \<longrightarrow>
     (\<exists>ly'. number_loop d e ly = (fl, ly') \<and> consumed ly s ly'))"
proof (induction d e lx rule: number_loop.induct)
  case (1 d e lx)
  show ?case
  proof (cases "unlexed lx")
    case Nil
    then have "lx' = lx" "fl = (d, e)"
      using "1.prems" by (simp_all add: number_loop.simps [of d e lx] lx_peek_eq)
    then show ?thesis
      by (intro exI [of _ "[]"]) (auto simp: consumed_refl number_loop_stop)
  next
    case (Cons b cs)
    note p = peek_Cons [OF Cons]
    have step: ?thesis
      if eq: "\<And>ly. lx_peek ly = Some b \<Longrightarrow> number_loop d e ly = number_loop d' e' (bumped ly)"
        and IH: "\<exists>s. consumed (bumped lx) s lx' \<and> (\<forall>ly r. unlexed ly = s @ r \<longrightarrow> ends_number r \<longrightarrow>
          (\<exists>ly'. number_loop d' e' ly = (fl, ly') \<and> consumed ly s ly'))" for d' e'
    proof -
      obtain s where s: "consumed (bumped lx) s lx'" "\<And>ly r. unlexed ly = s @ r \<Longrightarrow> ends_number r \<Longrightarrow>
          \<exists>ly'. number_loop d' e' ly = (fl, ly') \<and> consumed ly s ly'"
        using IH by blast
      have "\<exists>ly'. number_loop d e ly = (fl, ly') \<and> consumed ly (b # s) ly'"
        if "unlexed ly = (b # s) @ r" "ends_number r" for ly r
        using that s(2) [of "bumped ly" r] eq [of ly] peek_Cons [of ly b]
        by (auto simp: unlexed_bumped intro: consumed_Cons)
      with consumed_Cons [OF p s(1)] show ?thesis by blast
    qed
    consider "is_digit b \<or> b = CHR ''_''" | "\<not> (is_digit b \<or> b = CHR ''_'')" "b = CHR ''.'' \<and> \<not> d \<and> \<not> e"
      | "\<not> (is_digit b \<or> b = CHR ''_'')" "\<not> (b = CHR ''.'' \<and> \<not> d \<and> \<not> e)" "(b = CHR ''e'' \<or> b = CHR ''E'') \<and> \<not> e"
      | "\<not> (is_digit b \<or> b = CHR ''_'')" "\<not> (b = CHR ''.'' \<and> \<not> d \<and> \<not> e)" "\<not> ((b = CHR ''e'' \<or> b = CHR ''E'') \<and> \<not> e)"
      by blast
    then show ?thesis
    proof cases
      case 1
      have eq: "number_loop d e ly = number_loop d e (bumped ly)" if "lx_peek ly = Some b" for ly
        unfolding number_loop.simps [of d e ly] using 1 that by auto
      with "1.IH"(1) [OF p 1] "1.prems" p show ?thesis by (intro step [OF eq]) simp_all
    next
      case 2
      have eq: "number_loop d e ly = number_loop True e (bumped ly)" if "lx_peek ly = Some b" for ly
        unfolding number_loop.simps [of d e ly] using 2 that by auto
      with "1.IH"(2) [OF p 2] "1.prems" p show ?thesis by (intro step [OF eq]) simp_all
    next
      case 3
      let ?signed = "\<lambda>lx. lx_peek (bumped lx) = Some (CHR ''+'') \<or> lx_peek (bumped lx) = Some (CHR ''-'')"
      have eq: "number_loop d e ly = number_loop d True (if ?signed ly then bumped (bumped ly) else bumped ly)"
        if "lx_peek ly = Some b" for ly
        unfolding number_loop.simps [of d e ly] using 3 that by auto
      from "1.IH"(3) [OF p 3] "1.prems" eq [OF p] obtain s where
        s: "consumed (if ?signed lx then bumped (bumped lx) else bumped lx) s lx'"
          "\<And>ly r. unlexed ly = s @ r \<Longrightarrow> ends_number r \<Longrightarrow>
            \<exists>ly'. number_loop d True ly = (fl, ly') \<and> consumed ly s ly'"
        by auto
      show ?thesis
      proof (cases "?signed lx")
        case True
        then obtain c where c: "lx_peek (bumped lx) = Some c" "c = CHR ''+'' \<or> c = CHR ''-''" by auto
        have "\<exists>ly'. number_loop d e ly = (fl, ly') \<and> consumed ly (b # c # s) ly'"
          if u: "unlexed ly = (b # c # s) @ r" and r: "ends_number r" for ly r
        proof -
          have pl: "lx_peek ly = Some b" "lx_peek (bumped ly) = Some c"
            using u by (simp_all add: lx_peek_eq unlexed_bumped)
          with c(2) eq have "number_loop d e ly = number_loop d True (bumped (bumped ly))" by auto
          with s(2) [of "bumped (bumped ly)" r] u r pl show ?thesis
            by (auto simp: unlexed_bumped intro: consumed_Cons)
        qed
        moreover have "consumed lx (b # c # s) lx'"
          using s(1) True by (auto intro: consumed_Cons [OF p] consumed_Cons [OF c(1)])
        ultimately show ?thesis by blast
      next
        case False
        have "\<exists>ly'. number_loop d e ly = (fl, ly') \<and> consumed ly (b # s) ly'"
          if u: "unlexed ly = (b # s) @ r" and r: "ends_number r" for ly r
        proof -
          have pl: "lx_peek ly = Some b" using u by (simp add: lx_peek_eq)
          have "\<not> ?signed ly"
          proof (cases s)
            case Nil
            then show ?thesis using u r by (cases r) (auto simp: lx_peek_eq unlexed_bumped)
          next
            case (Cons c cs')
            with s(1) False have "lx_peek (bumped lx) = Some c"
              by (auto simp: lx_peek_eq dest: consumed_rest)
            with False Cons u show ?thesis by (auto simp: lx_peek_eq unlexed_bumped)
          qed
          with eq [OF pl] s(2) [of "bumped ly" r] u r pl show ?thesis
            by (auto simp: unlexed_bumped intro: consumed_Cons)
        qed
        moreover have "consumed lx (b # s) lx'"
          using s(1) False by (auto intro: consumed_Cons [OF p])
        ultimately show ?thesis by blast
      qed
    next
      case 4
      then have lx': "lx' = lx" "fl = (d, e)"
        using "1.prems" p by (auto simp: number_loop.simps [of d e lx])
      then show ?thesis
        by (intro exI [of _ "[]"]) (auto simp: consumed_refl number_loop_stop)
    qed
  qed
qed

lemma peek_append: "unlexed lx = (c # s) @ r \<Longrightarrow> lx_peek lx = Some c"
  by (simp add: lx_peek_eq)

lemma lex_decimal_local:
  assumes "lex_decimal lx = Inr (k, lx')" and "lx_peek lx = Some c" and "is_digit c"
  shows "local_to ends_number lex_decimal lx k lx'"
proof -
  obtain sd se where n: "number_loop False False lx = ((sd, se), lx')"
    using assms(1) by (auto simp: lex_decimal_def bind_result_eq_Inr Let_def lex_fail_def
        split: prod.splits option.splits if_splits)
  obtain s where s: "consumed lx s lx'" "\<And>ly r. unlexed ly = s @ r \<Longrightarrow> ends_number r \<Longrightarrow>
      \<exists>ly'. number_loop False False ly = ((sd, se), ly') \<and> consumed ly s ly'"
    using number_loop_local [OF n] by blast
  have ne: "\<exists>cs. s = c # cs"
    using number_loop_less [OF n assms(2,3)] s(1) assms(2)
    by (cases s) (auto simp: consumed_def lx_peek_eq split: list.splits)
  let ?k = "let text = remove_underscores s in if sd \<or> se
      then map_option TkFloat (parse_f64 text) else map_option TkInt (parse_signed 64 text)"
  have k: "?k = Some k"
  proof -
    obtain t where "str_slice (lx_src lx) (lx_pos lx) (lx_pos lx') = (Inr t :: string lexed)"
      using assms(1) n by (auto simp: lex_decimal_def bind_result_eq_Inr)
    with slice_consumed_eq [OF s(1) this] assms(1) n show ?thesis
      by (auto simp: lex_decimal_def bind_result_def Let_def lex_fail_def split: option.splits if_splits)
  qed
  have "\<exists>ly'. lex_decimal ly = Inr (k, ly') \<and> consumed ly s ly'" if u: "unlexed ly = s @ r" and r: "ends_number r" for ly r
  proof -
    obtain ly' where ly': "number_loop False False ly = ((sd, se), ly')" "consumed ly s ly'"
      using s(2) [OF u r] by blast
    then have "unlexed ly' = r" using u by (simp add: consumed_def)
    then have "str_slice (lx_src ly) (lx_pos ly) (lx_pos ly') = (Inr s :: string lexed)"
      using slice_local [OF ly'(2)] ne r ascii_chars(1) [OF assms(3)] by (auto simp: ends_word_boundary ends_number_def)
    with ly' k show ?thesis
      by (auto simp: lex_decimal_def Let_def split: option.splits if_splits)
  qed
  with s(1) show ?thesis unfolding local_to_def by blast
qed

lemma lex_hex_local:
  assumes "lex_hex lx = Inr (k, lx')" and "unlexed lx = CHR ''0'' # x # cs"
  shows "\<exists>h. consumed lx (CHR ''0'' # x # h) lx' \<and> (\<forall>ly r. unlexed ly = (CHR ''0'' # x # h) @ r \<longrightarrow> ends_number r \<longrightarrow>
    (\<exists>ly'. lex_hex ly = Inr (k, ly') \<and> consumed ly (CHR ''0'' # x # h) ly'))"
proof -
  let ?p = "\<lambda>b. hex_digit b \<noteq> None \<or> b = CHR ''_''"
  let ?h = "takeWhile ?p cs" let ?s = "CHR ''0'' # x # ?h"
  have two: "unlexed (bumped (bumped lx)) = cs"
    using assms(2) by (simp add: unlexed_bumped)
  have lx': "lx' = bump_while ?p (bumped (bumped lx))"
    using assms(1) by (auto simp: lex_hex_def Let_def bind_result_eq_Inr lex_fail_def split: option.splits)
  have c: "consumed lx ?s lx'"
    using bump_while_consumed [of "bumped (bumped lx)" ?p] two assms(2) lx'
    by (auto intro!: consumed_Cons simp: lx_peek_eq unlexed_bumped)
  let ?t = "remove_underscores ?s"
  obtain ds where ds: "str_slice ?t 2 (length ?t) = (Inr ds :: string lexed)" "\<exists>v. parse_hex_i64 ds = Some v \<and> k = TkInt v"
  proof -
    obtain t where "str_slice (lx_src lx) (lx_pos lx) (lx_pos lx') = (Inr t :: string lexed)"
      using assms(1) lx' by (auto simp: lex_hex_def Let_def bind_result_eq_Inr)
    with slice_consumed_eq [OF c this] assms(1) lx' that show ?thesis
      by (auto simp: lex_hex_def bind_result_eq_Inr Let_def lex_fail_def split: option.splits)
  qed
  have "\<exists>ly'. lex_hex ly = Inr (k, ly') \<and> consumed ly ?s ly'" if u: "unlexed ly = ?s @ r" and r: "ends_number r" for ly r
  proof -
    let ?ly' = "bump_while ?p (bumped (bumped ly))"
    have "is_ident_char b" if "hex_digit b \<noteq> None" for b
      using that by (auto simp: hex_digit_def is_ident_char_def is_alpha_def is_digit_def digit_of_def Let_def split: if_splits)
    then have "\<not> ?p b" if "\<not> is_ident_char b" for b
      using that by (cases "hex_digit b") (auto simp: is_ident_char_def)
    then have "r = [] \<or> \<not> ?p (hd r)"
      using r by (cases r) (auto simp: ends_number_def)
    then have b: "consumed (bumped (bumped ly)) ?h ?ly'" "unlexed ?ly' = r"
      using bump_while_local [of "bumped (bumped ly)" ?h r ?p] u by (auto simp: unlexed_bumped dest: set_takeWhileD)
    then have c': "consumed ly ?s ?ly'"
      using u by (auto intro!: consumed_Cons simp: lx_peek_eq unlexed_bumped)
    have "str_slice (lx_src ly) (lx_pos ly) (lx_pos ?ly') = (Inr ?s :: string lexed)"
      using slice_local [OF c'] b(2) r by (auto simp: ends_word_boundary ends_number_def ascii_def)
    with ds c' show ?thesis by (auto simp: lex_hex_def Let_def)
  qed
  with c show ?thesis by blast
qed

lemma lex_number_local:
  assumes "lex_number lx = Inr (k, lx')" and "lx_peek lx = Some c" and "is_digit c"
  shows "local_to ends_number lex_number lx k lx'"
proof (cases "lx_peek lx = Some (CHR ''0'') \<and> (lx_peek1 lx = Some (CHR ''x'') \<or> lx_peek1 lx = Some (CHR ''X''))")
  case True
  then obtain x cs where u: "unlexed lx = CHR ''0'' # x # cs" and x: "x = CHR ''x'' \<or> x = CHR ''X''"
    by (auto simp: lx_peek_eq lx_peek1_eq split: list.splits)
  have "lex_hex lx = Inr (k, lx')" using assms(1) True by (simp add: lex_number_def)
  from lex_hex_local [OF this u] obtain h where h: "consumed lx (CHR ''0'' # x # h) lx'"
    "\<And>ly r. unlexed ly = (CHR ''0'' # x # h) @ r \<Longrightarrow> ends_number r \<Longrightarrow>
      \<exists>ly'. lex_hex ly = Inr (k, ly') \<and> consumed ly (CHR ''0'' # x # h) ly'"
    by blast
  have "lex_number ly = lex_hex ly" if "unlexed ly = (CHR ''0'' # x # h) @ r" for ly r
    using that x by (auto simp: lex_number_def lx_peek_eq lx_peek1_eq)
  with h show ?thesis unfolding local_to_def by metis
next
  case False
  have d: "lex_decimal lx = Inr (k, lx')" by (rule assms(1) [unfolded lex_number_def if_not_P [OF False]])
  then obtain s where s: "consumed lx s lx'" "\<And>ly r. unlexed ly = s @ r \<Longrightarrow> ends_number r \<Longrightarrow>
      \<exists>ly'. lex_decimal ly = Inr (k, ly') \<and> consumed ly s ly'"
    using lex_decimal_local [OF _ assms(2,3)] unfolding local_to_def by blast
  have ne: "\<exists>t. s = c # t"
  proof -
    obtain fl where "number_loop False False lx = (fl, lx')"
      using d by (auto simp: lex_decimal_def bind_result_eq_Inr Let_def lex_fail_def split: prod.splits option.splits if_splits)
    from number_loop_less [OF this assms(2,3)] s(1) assms(2) show ?thesis
      by (cases s) (auto simp: consumed_def lx_peek_eq split: list.splits)
  qed
  have "lex_number ly = lex_decimal ly" if u: "unlexed ly = s @ r" and r: "ends_number r" for ly r
  proof -
    obtain t where t: "s = c # t" using ne by blast
    have "\<not> (c = CHR ''0'' \<and> (lx_peek1 ly = Some (CHR ''x'') \<or> lx_peek1 ly = Some (CHR ''X'')))"
    proof (cases t)
      case Nil
      then show ?thesis
        using u t r by (auto simp: lx_peek1_eq is_ident_char_def is_alpha_def split: list.splits)
    next
      case (Cons x t')
      then have "lx_peek1 ly = Some x" "lx_peek1 lx = Some x"
        using u t s(1) by (auto simp: lx_peek1_eq consumed_def)
      with False assms(2) show ?thesis by auto
    qed
    then show ?thesis using u t by (auto simp: lex_number_def lx_peek_eq)
  qed
  with s show ?thesis unfolding local_to_def by metis
qed

text \<open>Strings end with their quote, so that any rest may follow them.\<close>

lemma read_hex_loop_local:
  "read_hex_loop start n v lx = Inr (v', lx') \<Longrightarrow> \<exists>s. consumed lx s lx' \<and>
     (\<forall>ly r start'. unlexed ly = s @ r \<longrightarrow> (\<exists>ly'. read_hex_loop start' n v ly = Inr (v', ly') \<and> consumed ly s ly'))"
proof (induction n arbitrary: v lx)
  case 0
  then show ?case by (auto intro!: exI [of _ "[]"] simp: consumed_refl)
next
  case (Suc n)
  then obtain b d where b: "lx_peek lx = Some b" and d: "hex_digit b = Some d"
    and l: "read_hex_loop start n (v * 16 + d) (bumped lx) = Inr (v', lx')"
    by (auto simp: lex_fail_def split: option.splits)
  obtain s where s: "consumed (bumped lx) s lx'" "\<And>ly r start'. unlexed ly = s @ r \<Longrightarrow>
      \<exists>ly'. read_hex_loop start' n (v * 16 + d) ly = Inr (v', ly') \<and> consumed ly s ly'"
    using Suc.IH [OF l] by blast
  have "\<exists>ly'. read_hex_loop start' (Suc n) v ly = Inr (v', ly') \<and> consumed ly (b # s) ly'"
    if "unlexed ly = (b # s) @ r" for ly r start'
    using s(2) [of "bumped ly" r start'] that peek_append [OF that] d
    by (auto simp: unlexed_bumped intro: consumed_Cons)
  with consumed_Cons [OF b s(1)] show ?case by blast
qed

lemma lex_escape_local:
  assumes "lex_escape start esc lx = Inr (t, lx')"
  shows "\<exists>s. consumed lx s lx' \<and>
     (\<forall>ly r start'. unlexed ly = s @ r \<longrightarrow> (\<exists>ly'. lex_escape start' esc ly = Inr (t, ly') \<and> consumed ly s ly'))"
proof -
  have hex: ?thesis
    if eq: "\<And>st ly. lex_escape st esc ly = bind_result (read_hex n ly) (\<lambda>(h, ly). g st h ly)"
      and g: "\<And>st h ly t ly'. g st h ly = Inr (t, ly') \<Longrightarrow> ly' = ly \<and> (\<forall>st' lz. g st' h lz = Inr (t, lz))" for n g
  proof -
    obtain h lx1 where h: "read_hex n lx = Inr (h, lx1)" "g start h lx1 = Inr (t, lx')"
      using assms unfolding eq by (auto simp: bind_result_eq_Inr)
    obtain s where s: "consumed lx s lx1" "\<And>ly r start'. unlexed ly = s @ r \<Longrightarrow>
        \<exists>ly'. read_hex_loop start' n 0 ly = Inr (h, ly') \<and> consumed ly s ly'"
      using read_hex_loop_local [OF h(1) [unfolded read_hex_def]] by blast
    have "\<exists>ly'. lex_escape start' esc ly = Inr (t, ly') \<and> consumed ly s ly'" if "unlexed ly = s @ r" for ly r start'
      using s(2) [OF that, of "pos_of ly (lx_pos ly)"] g [OF h(2)] unfolding eq by (auto simp: read_hex_def)
    with s(1) g [OF h(2)] show ?thesis by blast
  qed
  consider c where "simple_escape esc = Some c" | "simple_escape esc = None" "esc = CHR ''x''"
    | "simple_escape esc = None" "esc \<noteq> CHR ''x''" "esc = CHR ''u'' \<or> esc = CHR ''U''"
    using assms by (cases "simple_escape esc") (auto simp: lex_escape_def lex_fail_def split: if_splits)
  then show ?thesis
  proof cases
    case 1
    with assms show ?thesis by (auto intro!: exI [of _ "[]"] simp: lex_escape_def consumed_refl)
  next
    case 2
    show ?thesis
      by (rule hex [where n = 2 and g = "\<lambda>st h ly. Inr (utf8_of (case char_from_u32 h of Some c \<Rightarrow> c | None \<Rightarrow> 0xFFFD), ly)"])
        (auto simp: lex_escape_def 2(2) 2(1) [unfolded 2(2)])
  next
    case 3
    show ?thesis
      by (rule hex [where n = "if esc = CHR ''u'' then 4 else 8" and g = "\<lambda>st h ly. case char_from_u32 h of
            Some c \<Rightarrow> Inr (utf8_of c, ly) | None \<Rightarrow> lex_fail UnexpectedToken ''invalid unicode escape'' st"])
        (use 3 in \<open>auto simp: lex_escape_def lex_fail_def split: option.splits\<close>)
  qed
qed

lemma string_loop_local:
  "string_loop start quote out lx = Inr (t, lx') \<Longrightarrow> \<exists>s. consumed lx s lx' \<and>
     (\<forall>ly r start'. unlexed ly = s @ r \<longrightarrow> (\<exists>ly'. string_loop start' quote out ly = Inr (t, ly') \<and> consumed ly s ly'))"
proof (induction start quote out lx rule: string_loop.induct)
  case (1 start quote out lx)
  obtain c where p: "lx_peek lx = Some c"
    using "1.prems" by (cases "lx_peek lx") (auto simp: string_loop.simps [of start quote out lx] lex_fail_def)
  consider "c = quote" | "c \<noteq> quote" "c = CHR 0x5C" | "c \<noteq> quote" "c \<noteq> CHR 0x5C" by blast
  then show ?case
  proof cases
    case 1
    then have "t = out" "lx' = bumped lx"
      using "1.prems" p by (auto simp: string_loop.simps [of start quote out lx])
    moreover have "string_loop start' quote out ly = Inr (out, bumped ly) \<and> consumed ly [c] (bumped ly)"
      if "unlexed ly = [c] @ r" for ly r start'
      using that 1 peek_append [of ly c "[]" r]
      by (simp add: string_loop.simps [of start' quote out ly] consumed_bump)
    ultimately show ?thesis using consumed_bump [OF p] by blast
  next
    case 2
    then obtain esc u lx1 where e: "lx_peek (bumped lx) = Some esc"
      and x: "lex_escape start esc (bumped (bumped lx)) = Inr (u, lx1)"
      and l: "string_loop start quote (out @ u) lx1 = Inr (t, lx')"
      using "1.prems" p
      by (auto simp: string_loop.simps [of start quote out lx] lex_fail_def bind_result_eq_Inr split: option.splits)
    obtain s2 where s2: "consumed lx1 s2 lx'" "\<And>ly r start'. unlexed ly = s2 @ r \<Longrightarrow>
        \<exists>ly'. string_loop start' quote (out @ u) ly = Inr (t, ly') \<and> consumed ly s2 ly'"
      using "1.IH"(1) [OF p 2 e x refl l] by blast
    obtain s1 where s1: "consumed (bumped (bumped lx)) s1 lx1" "\<And>ly r start'. unlexed ly = s1 @ r \<Longrightarrow>
        \<exists>ly'. lex_escape start' esc ly = Inr (u, ly') \<and> consumed ly s1 ly'"
      using lex_escape_local [OF x] by blast
    let ?s = "c # esc # s1 @ s2"
    have "\<exists>ly'. string_loop start' quote out ly = Inr (t, ly') \<and> consumed ly ?s ly'"
      if v: "unlexed ly = ?s @ r" for ly r start'
    proof -
      have ps: "lx_peek ly = Some c" "lx_peek (bumped ly) = Some esc" "unlexed (bumped (bumped ly)) = s1 @ s2 @ r"
        using v by (simp_all add: lx_peek_eq unlexed_bumped)
      obtain ly1 where ly1: "lex_escape start' esc (bumped (bumped ly)) = Inr (u, ly1)" "consumed (bumped (bumped ly)) s1 ly1"
        using s1(2) [OF ps(3)] by blast
      then obtain ly' where "string_loop start' quote (out @ u) ly1 = Inr (t, ly')" "consumed ly1 s2 ly'"
        using s2(2) [of ly1 r start'] ps(3) by (auto simp: consumed_def)
      with ly1 ps(1,2) 2 show ?thesis
        by (auto simp: string_loop.simps [of start' quote out ly] intro!: consumed_Cons intro: consumed_trans)
    qed
    moreover have "consumed lx ?s lx'"
      using consumed_trans [OF s1(1) s2(1)] p e by (auto intro!: consumed_Cons)
    ultimately show ?thesis by blast
  next
    case 3
    then have l: "string_loop start quote (out @ utf8_of (of_char c)) (bumped lx) = Inr (t, lx')"
      using "1.prems" p by (auto simp: string_loop.simps [of start quote out lx])
    obtain s where s: "consumed (bumped lx) s lx'" "\<And>ly r start'. unlexed ly = s @ r \<Longrightarrow>
        \<exists>ly'. string_loop start' quote (out @ utf8_of (of_char c)) ly = Inr (t, ly') \<and> consumed ly s ly'"
      using "1.IH"(2) [OF p 3 l] by blast
    have "\<exists>ly'. string_loop start' quote out ly = Inr (t, ly') \<and> consumed ly (c # s) ly'"
      if v: "unlexed ly = (c # s) @ r" for ly r start'
    proof -
      have "unlexed (bumped ly) = s @ r" using v by (simp add: unlexed_bumped)
      from s(2) [OF this, of start'] obtain ly' where
        "string_loop start' quote (out @ utf8_of (of_char c)) (bumped ly) = Inr (t, ly')" "consumed (bumped ly) s ly'"
        by blast
      with peek_append [OF v] 3 show ?thesis
        by (auto simp: string_loop.simps [of start' quote out ly] intro: consumed_Cons)
    qed
    with consumed_Cons [OF p s(1)] show ?thesis by blast
  qed
qed

section \<open>Tokens are local\<close>

text \<open>What may follow a token so that it is still the same token.\<close>

definition may_follow :: "token_kind \<Rightarrow> string \<Rightarrow> bool" where
  "may_follow k r \<longleftrightarrow> (case k of
      TkIdent _ \<Rightarrow> ends_word r | TkInt _ \<Rightarrow> ends_number r | TkFloat _ \<Rightarrow> ends_number r | _ \<Rightarrow> True)"

lemma simple_token_kind: "simple_token b = Some k \<Longrightarrow> may_follow k r"
  by (auto simp: simple_token_def may_follow_def split: if_splits)

lemma lex_number_kind: "lex_number lx = Inr (k, lx') \<Longrightarrow> (\<exists>n. k = TkInt n) \<or> (\<exists>v. k = TkFloat v)"
  by (auto simp: lex_number_def lex_hex_def lex_decimal_def Let_def bind_result_eq_Inr lex_fail_def
      split: if_splits option.splits prod.splits)

lemma local_toE:
  assumes "local_to P f lx v lx'"
  obtains s where "consumed lx s lx'"
    "\<And>ly r. unlexed ly = s @ r \<Longrightarrow> P r \<Longrightarrow> \<exists>ly'. f ly = Inr (v, ly') \<and> consumed ly s ly'"
  using assms unfolding local_to_def by blast

lemma lex_kind_local:
  assumes "lex_kind b lx = Inr (k, lx')" and p: "lx_peek lx = Some b"
  shows "local_to (may_follow k) (lex_kind b) lx k lx'"
proof (cases "simple_token b")
  case (Some k')
  with assms(1) have k: "k = k'" "lx' = bumped lx" by (simp_all add: lex_kind_def)
  have "\<exists>ly'. lex_kind b ly = Inr (k, ly') \<and> consumed ly [b] ly'" if "unlexed ly = [b] @ r" for ly r
    using that Some k consumed_bump [of ly b] by (simp add: lex_kind_def lx_peek_eq)
  with k consumed_bump [OF p] show ?thesis unfolding local_to_def by blast
next
  case None
  consider "b = CHR 0x22 \<or> b = CHR 0x27" | "\<not> (b = CHR 0x22 \<or> b = CHR 0x27)" "is_alpha b \<or> b = CHR ''_''"
    | "\<not> (b = CHR 0x22 \<or> b = CHR 0x27)" "\<not> (is_alpha b \<or> b = CHR ''_'')" "is_digit b"
    using assms(1) None by (auto simp: lex_kind_def lex_fail_def split: if_splits)
  then show ?thesis
  proof cases
    case 1
    then obtain t where k: "k = TkStr t" and l: "string_loop (pos_of lx (lx_pos lx)) b [] (bumped lx) = Inr (t, lx')"
      using assms(1) None by (auto simp: lex_kind_def lex_string_def bind_result_eq_Inr)
    obtain s where s: "consumed (bumped lx) s lx'" "\<And>ly r start'. unlexed ly = s @ r \<Longrightarrow>
        \<exists>ly'. string_loop start' b [] ly = Inr (t, ly') \<and> consumed ly s ly'"
      using string_loop_local [OF l] by blast
    have "\<exists>ly'. lex_kind b ly = Inr (k, ly') \<and> consumed ly (b # s) ly'" if v: "unlexed ly = (b # s) @ r" for ly r
    proof -
      have "unlexed (bumped ly) = s @ r" using v by (simp add: unlexed_bumped)
      from s(2) [OF this, of "pos_of ly (lx_pos ly)"] obtain ly' where
        "string_loop (pos_of ly (lx_pos ly)) b [] (bumped ly) = Inr (t, ly')" "consumed (bumped ly) s ly'"
        by blast
      with peek_append [OF v] None 1 k show ?thesis
        by (auto simp: lex_kind_def lex_string_def intro: consumed_Cons)
    qed
    with consumed_Cons [OF p s(1)] show ?thesis unfolding local_to_def by blast
  next
    case 2
    then obtain t where k: "k = TkIdent t" and l: "lex_ident lx = Inr (t, lx')"
      using assms(1) None by (auto simp: lex_kind_def bind_result_eq_Inr)
    have "is_ident_char b" using 2 by (auto simp: is_ident_char_def)
    with l p obtain s where s: "consumed lx s lx'" "\<And>ly r. unlexed ly = s @ r \<Longrightarrow> ends_word r \<Longrightarrow>
        \<exists>ly'. lex_ident ly = Inr (t, ly') \<and> consumed ly s ly'"
      by (auto simp: lx_peek_eq split: list.splits elim: local_toE [OF lex_ident_local])
    have "\<exists>ly'. lex_kind b ly = Inr (k, ly') \<and> consumed ly s ly'" if "unlexed ly = s @ r" "may_follow k r" for ly r
      using s(2) [OF that(1)] that(2) None 2 k by (auto simp: lex_kind_def may_follow_def)
    with s(1) show ?thesis unfolding local_to_def by blast
  next
    case 3
    then have l: "lex_number lx = Inr (k, lx')"
      using assms(1) None by (simp add: lex_kind_def)
    from local_toE [OF lex_number_local [OF l p 3(3)]] obtain s where
      s: "consumed lx s lx'" "\<And>ly r. unlexed ly = s @ r \<Longrightarrow> ends_number r \<Longrightarrow>
        \<exists>ly'. lex_number ly = Inr (k, ly') \<and> consumed ly s ly'"
      by blast
    have "\<exists>ly'. lex_kind b ly = Inr (k, ly') \<and> consumed ly s ly'" if "unlexed ly = s @ r" "may_follow k r" for ly r
      using s(2) [OF that(1)] that(2) None 3 lex_number_kind [OF l] by (auto simp: lex_kind_def may_follow_def)
    with s(1) show ?thesis unfolding local_to_def by blast
  qed
qed

text \<open>
  A lexeme of a kind: a text from which the lexer takes exactly a token of the kind. It may stand in
  any source, in front of any rest that may follow its kind.
\<close>

definition lexeme :: "string \<Rightarrow> token_kind \<Rightarrow> bool" where
  "lexeme s k \<longleftrightarrow> s \<noteq> [] \<and> (\<exists>lx lx'. lex_kind (hd s) lx = Inr (k, lx') \<and> consumed lx s lx')"

lemma lexeme_consumed:
  assumes "lx_peek lx = Some b" and "lex_kind b lx = Inr (k, lx')"
  shows "\<exists>s. lexeme (b # s) k \<and> consumed lx (b # s) lx'"
proof -
  obtain s where s: "consumed lx s lx'"
    using lex_kind_local [OF assms(2,1)] by (rule local_toE)
  moreover have "s \<noteq> [] \<and> hd s = b"
    using s assms lex_kind_less [OF assms] by (cases s) (auto simp: consumed_def lx_peek_eq split: list.splits)
  ultimately show ?thesis
    using assms(2) unfolding lexeme_def by (metis hd_Cons_tl list.distinct(1))
qed

lemma lexeme_anywhere:
  assumes "lexeme s k" and "unlexed ly = s @ r" and "may_follow k r"
  shows "\<exists>ly'. lex_kind (hd s) ly = Inr (k, ly') \<and> consumed ly s ly'"
proof -
  obtain lx lx' where l: "s \<noteq> []" "lex_kind (hd s) lx = Inr (k, lx')" "consumed lx s lx'"
    using assms(1) by (auto simp: lexeme_def)
  have p: "lx_peek lx = Some (hd s)"
    using l(1,3) by (cases s) (auto simp: consumed_def lx_peek_eq)
  from local_toE [OF lex_kind_local [OF l(2) p]] obtain s' where
    s': "consumed lx s' lx'" "\<And>ly r. unlexed ly = s' @ r \<Longrightarrow> may_follow k r \<Longrightarrow>
        \<exists>ly'. lex_kind (hd s) ly = Inr (k, ly') \<and> consumed ly s' ly'"
    by blast
  have "s' = s" using s'(1) l(3) by (simp add: consumed_def)
  with s'(2) [OF _ assms(3)] assms(2) show ?thesis by blast
qed

end
