(* ===== verification/Lexer_Properties.thy ===== *)
theory Lexer_Properties
  imports Lexer_Local
begin

text \<open>
  What the lexer guarantees: it never panics, it accounts for every byte of the source in exactly
  one blank, comment or token; and what it does to string literals outside ASCII.
\<close>

section \<open>The lexer accounts for the whole source\<close>

datatype piece = Blank_piece char | Comment_piece comment | Token_piece token

fun tokens_of :: "piece list \<Rightarrow> token list" where
  "tokens_of [] = []"
| "tokens_of (Token_piece t # ps) = t # tokens_of ps"
| "tokens_of (p # ps) = tokens_of ps"

fun comments_of :: "piece list \<Rightarrow> comment list" where
  "comments_of [] = []"
| "comments_of (Comment_piece c # ps) = c # comments_of ps"
| "comments_of (p # ps) = comments_of ps"

definition pos_in :: "string \<Rightarrow> nat \<Rightarrow> position" where
  "pos_in src i = pos_of (Lexer_new src) i"

definition span_in :: "string \<Rightarrow> nat \<Rightarrow> nat \<Rightarrow> span" where
  "span_in src i j = \<lparr>sp_start = pos_in src i, sp_end = pos_in src j\<rparr>"

text \<open>A comment is a line comment without its line end, or a block comment.\<close>

definition comment_text :: "string \<Rightarrow> bool" where
  "comment_text s \<longleftrightarrow> (\<exists>t. s = ''//'' @ t \<and> newline \<notin> set t) \<or> (\<exists>t. s = ''/*'' @ t)"

text \<open>
  The pieces lie one behind the other from offset \<open>i\<close> to the end of the source, each with the span
  where it lies; a token is a lexeme of its kind, a comment keeps its text.
\<close>

fun layout :: "string \<Rightarrow> nat \<Rightarrow> piece list \<Rightarrow> bool" where
  "layout src i [] \<longleftrightarrow> i = length src"
| "layout src i (Blank_piece c # ps) \<longleftrightarrow> i < length src \<and> src ! i = c \<and> is_blank c \<and> layout src (i + 1) ps"
| "layout src i (Comment_piece c # ps) \<longleftrightarrow> (\<exists>j s. j \<le> length src \<and> take (j - i) (drop i src) = s \<and> i < j
     \<and> comment_text s \<and> cm_text c = trim_end_newlines s \<and> cm_span c = span_in src i j \<and> layout src j ps)"
| "layout src i (Token_piece t # ps) \<longleftrightarrow> (\<exists>j s. j \<le> length src \<and> take (j - i) (drop i src) = s \<and> i < j
     \<and> lexeme s (tk_kind t) \<and> tk_span t = span_in src i j \<and> layout src j ps)"

lemma tokens_of_append [simp]: "tokens_of (ps @ qs) = tokens_of ps @ tokens_of qs"
  by (induction ps rule: tokens_of.induct) simp_all

lemma comments_of_append [simp]: "comments_of (ps @ qs) = comments_of ps @ comments_of qs"
  by (induction ps rule: comments_of.induct) simp_all

text \<open>The run of the lexer from one state to a later one that went over some pieces.\<close>

definition laid :: "lexer \<Rightarrow> piece list \<Rightarrow> lexer \<Rightarrow> bool" where
  "laid lx ps lx' \<longleftrightarrow> lx_src lx' = lx_src lx \<and> lx_comments lx' = lx_comments lx @ comments_of ps
     \<and> lx_pos lx \<le> lx_pos lx' \<and> lx_pos lx' \<le> length (lx_src lx)
     \<and> (\<forall>qs. layout (lx_src lx) (lx_pos lx') qs \<longrightarrow> layout (lx_src lx) (lx_pos lx) (ps @ qs))"

lemma laid_refl: "lx_pos lx \<le> length (lx_src lx) \<Longrightarrow> laid lx [] lx"
  by (simp add: laid_def)

lemma laid_trans: "laid lx ps lx1 \<Longrightarrow> laid lx1 qs lx2 \<Longrightarrow> laid lx (ps @ qs) lx2"
  by (simp add: laid_def)

lemma laid_pos: "laid lx ps lx' \<Longrightarrow> lx_pos lx' \<le> length (lx_src lx')"
  by (simp add: laid_def)

lemma pos_of_src: "pos_of lx i = pos_in (lx_src lx) i"
  by (simp add: pos_of_def pos_in_def Lexer_new_def)

lemma lx_span_src: "lx_span lx (pos_of ly i) j = span_in (lx_src lx) i j" if "lx_src ly = lx_src lx"
  using that by (simp add: lx_span_def span_in_def pos_of_src)

lemma peek_less: "lx_peek lx = Some b \<Longrightarrow> lx_pos lx < length (lx_src lx)"
  by (auto simp: lx_peek_def nth_opt_def split: if_splits)

lemma consumed_pos:
  "consumed lx s lx' \<Longrightarrow> s \<noteq> [] \<Longrightarrow> lx_pos lx < lx_pos lx' \<and> lx_pos lx' \<le> length (lx_src lx)
     \<and> take (lx_pos lx' - lx_pos lx) (drop (lx_pos lx) (lx_src lx)) = s"
proof -
  assume c: "consumed lx s lx'" and "s \<noteq> []"
  then have "length s \<le> length (unlexed lx)" "0 < length s" by (auto simp: consumed_def)
  then have "lx_pos lx + length s \<le> length (lx_src lx)" "0 < length s" unfolding unlexed_def length_drop by linarith+
  with c show ?thesis by (simp add: consumed_def) (simp add: unlexed_def)
qed

lemma laid_blank: "lx_peek lx = Some b \<Longrightarrow> is_blank b \<Longrightarrow> laid lx [Blank_piece b] (bumped lx)"
  using consumed_bump [of lx b] peek_less [of lx b]
  by (simp add: laid_def consumed_def) (simp add: lx_peek_def nth_opt_def)

lemma laid_token:
  assumes "lx_peek lx = Some b" and "lex_kind b lx = Inr (k, lx')"
  shows "laid lx [Token_piece \<lparr>tk_kind = k, tk_span = lx_span lx' (pos_of lx (lx_pos lx)) (lx_pos lx')\<rparr>] lx'"
proof -
  obtain s where s: "lexeme (b # s) k" "consumed lx (b # s) lx'"
    using lexeme_consumed [OF assms] by blast
  note p = consumed_pos [OF s(2)]
  have src: "lx_src lx' = lx_src lx" using s(2) by (simp add: consumed_def)
  then show ?thesis
    using s p by (auto simp: laid_def consumed_def lx_span_src)
qed

lemma skip_block_consumed:
  "\<exists>s. consumed lx s (skip_block d lx) \<and> (d \<noteq> 0 \<longrightarrow> unlexed (skip_block d lx) = [] \<or> (\<exists>t. s = t @ [CHR ''/'']))"
proof (induction d lx rule: skip_block.induct)
  case (1 d lx)
  show ?case
  proof (cases "d = 0 \<or> lx_peek lx = None")
    case True
    then have "skip_block d lx = lx" by (auto simp: skip_block.simps [of d lx])
    with True show ?thesis
      by (intro exI [of _ "[]"]) (auto simp: consumed_refl lx_peek_eq split: list.splits)
  next
    case False
    then obtain b where d: "d \<noteq> 0" and p: "lx_peek lx = Some b" by auto
    consider "b = CHR ''*'' \<and> lx_peek1 lx = Some (CHR ''/'')"
      | "\<not> (b = CHR ''*'' \<and> lx_peek1 lx = Some (CHR ''/''))" "b = CHR ''/'' \<and> lx_peek1 lx = Some (CHR ''*'')"
      | "\<not> (b = CHR ''*'' \<and> lx_peek1 lx = Some (CHR ''/''))" "\<not> (b = CHR ''/'' \<and> lx_peek1 lx = Some (CHR ''*''))"
      by blast
    then show ?thesis
    proof cases
      case 1
      then have two: "consumed lx [b, CHR ''/''] (bumped (bumped lx))"
        using p by (auto intro!: consumed_Cons consumed_refl simp: lx_peek_eq lx_peek1_eq unlexed_bumped split: list.splits)
      obtain s where s: "consumed (bumped (bumped lx)) s (skip_block (d - 1) (bumped (bumped lx)))"
        "d - 1 \<noteq> 0 \<longrightarrow> unlexed (skip_block (d - 1) (bumped (bumped lx))) = [] \<or> (\<exists>t. s = t @ [CHR ''/''])"
        using "1.IH"(1) [OF d p 1] by blast
      have eq: "skip_block d lx = skip_block (d - 1) (bumped (bumped lx))"
        using 1 d p by (simp add: skip_block.simps [of d lx])
      show ?thesis
      proof (cases "d = 1")
        case True
        then have "skip_block d lx = bumped (bumped lx)" unfolding eq by (simp add: skip_block.simps [of 0])
        with two show ?thesis by (intro exI [of _ "[b, CHR ''/'']"]) simp
      next
        case False
        with s consumed_trans [OF two s(1)] d show ?thesis
          by (intro exI [of _ "[b, CHR ''/''] @ s"]) (auto simp: eq)
      qed
    next
      case 2
      then have two: "consumed lx [b, CHR ''*''] (bumped (bumped lx))"
        using p by (auto intro!: consumed_Cons consumed_refl simp: lx_peek_eq lx_peek1_eq unlexed_bumped split: list.splits)
      have eq: "skip_block d lx = skip_block (d + 1) (bumped (bumped lx))"
        using 2 d p by (auto simp: skip_block.simps [of d lx])
      obtain s where s: "consumed (bumped (bumped lx)) s (skip_block (d + 1) (bumped (bumped lx)))"
        "unlexed (skip_block (d + 1) (bumped (bumped lx))) = [] \<or> (\<exists>t. s = t @ [CHR ''/''])"
        using "1.IH"(2) [OF d p 2] by auto
      with consumed_trans [OF two s(1)] show ?thesis
        by (intro exI [of _ "[b, CHR ''*''] @ s"]) (auto simp: eq)
    next
      case 3
      have eq: "skip_block d lx = skip_block d (bumped lx)"
        using 3 d p by (auto simp: skip_block.simps [of d lx])
      obtain s where s: "consumed (bumped lx) s (skip_block d (bumped lx))"
        "unlexed (skip_block d (bumped lx)) = [] \<or> (\<exists>t. s = t @ [CHR ''/''])"
        using "1.IH"(3) [OF d p 3] d by auto
      with consumed_Cons [OF p s(1)] show ?thesis
        by (intro exI [of _ "b # s"]) (auto simp: eq)
    qed
  qed
qed

text \<open>The cut of a comment: its end is the end of the source, a line end, or behind an ASCII character.\<close>

lemma skip_comment_cut:
  assumes "opens_comment lx"
  obtains s lx1 where "consumed lx s lx1" "comment_text s" "s \<noteq> []" "lx_peek lx = Some (CHR ''/'')"
    "skip_comment lx = record_comment (lx_pos lx) (pos_of lx (lx_pos lx)) lx1"
    "unlexed lx1 = [] \<or> (\<exists>r. unlexed lx1 = newline # r) \<or> (\<exists>t. s = t @ [CHR ''/''])"
proof (cases "opens_line lx")
  case True
  let ?p = "\<lambda>b. b \<noteq> newline"
  have slash: "?p (CHR ''/'')" by (simp add: newline_def)
  obtain cs where u: "unlexed lx = ''//'' @ cs"
    using True by (auto simp: opens_line_def lx_peek_eq lx_peek1_eq split: list.splits)
  have "comment_text (takeWhile ?p (unlexed lx))"
    using u slash by (auto simp: comment_text_def dest: set_takeWhileD)
  moreover have "unlexed (bump_while ?p lx) = [] \<or> (\<exists>r. unlexed (bump_while ?p lx) = newline # r)"
    using hd_dropWhile [of ?p "unlexed lx"] by (cases "dropWhile ?p (unlexed lx)") (auto simp: bump_while_rest)
  ultimately show ?thesis
    using that [OF bump_while_consumed [of lx ?p]] True u slash
    by (auto simp: skip_comment_def skip_line_comment_def opens_line_def)
next
  case False
  with assms have o: "lx_peek lx = Some (CHR ''/'')" "lx_peek1 lx = Some (CHR ''*'')"
    by (auto simp: opens_comment_def opens_block_def)
  then have two: "consumed lx ''/*'' (bumped (bumped lx))"
    by (auto intro!: consumed_Cons consumed_refl simp: lx_peek_eq lx_peek1_eq unlexed_bumped split: list.splits)
  obtain s where s: "consumed (bumped (bumped lx)) s (skip_block 1 (bumped (bumped lx)))"
    "unlexed (skip_block 1 (bumped (bumped lx))) = [] \<or> (\<exists>t. s = t @ [CHR ''/''])"
    using skip_block_consumed [of "bumped (bumped lx)" 1] by auto
  show ?thesis
    using that [OF consumed_trans [OF two s(1)]] False s(2) o
    by (auto simp: skip_comment_def skip_block_comment_def comment_text_def)
qed

lemma skip_comment_laid:
  assumes "opens_comment lx" and "skip_comment lx = Inr lx'"
  shows "\<exists>c. laid lx [Comment_piece c] lx'"
proof -
  obtain s lx1 where s: "consumed lx s lx1" "comment_text s" "s \<noteq> []"
    "skip_comment lx = record_comment (lx_pos lx) (pos_of lx (lx_pos lx)) lx1"
    by (rule skip_comment_cut [OF assms(1)])
  note p = consumed_pos [OF s(1,3)]
  have src: "lx_src lx1 = lx_src lx" using s(1) by (simp add: consumed_def)
  obtain t where t: "str_slice (lx_src lx1) (lx_pos lx) (lx_pos lx1) = (Inr t :: string lexed)"
    and lx': "lx' = lx1\<lparr>lx_comments := lx_comments lx1
      @ [\<lparr>cm_span = lx_span lx1 (pos_of lx (lx_pos lx)) (lx_pos lx1), cm_text = trim_end_newlines t\<rparr>]\<rparr>"
    using assms(2) p unfolding s(4) record_comment_def src by (auto simp: bind_result_eq_Inr min_absorb1)
  have "t = s" using slice_consumed_eq [OF s(1)] t src by metis
  then have "laid lx [Comment_piece \<lparr>cm_span = span_in (lx_src lx) (lx_pos lx) (lx_pos lx1), cm_text = trim_end_newlines s\<rparr>] lx'"
    using p s lx' src by (auto simp: laid_def consumed_def lx_span_src)
  then show ?thesis by blast
qed

lemma skip_comment_ok:
  assumes "opens_comment lx" and ok: "str_ok (lx_src lx)"
  shows "\<exists>lx'. skip_comment lx = Inr lx'"
proof -
  obtain s lx1 where s: "consumed lx s lx1" "s \<noteq> []" "lx_peek lx = Some (CHR ''/'')"
    "skip_comment lx = record_comment (lx_pos lx) (pos_of lx (lx_pos lx)) lx1"
    "unlexed lx1 = [] \<or> (\<exists>r. unlexed lx1 = newline # r) \<or> (\<exists>t. s = t @ [CHR ''/''])"
    by (rule skip_comment_cut [OF assms(1)])
  note p = consumed_pos [OF s(1,2)]
  have src: "lx_src lx1 = lx_src lx" using s(1) by (simp add: consumed_def)
  have "is_char_boundary (lx_src lx) (lx_pos lx)"
    using s(3) by (intro boundary_ascii) (auto simp: lx_peek_def nth_opt_def ascii_def split: if_splits)
  moreover have "is_char_boundary (lx_src lx) (lx_pos lx1)"
  proof -
    consider "unlexed lx1 = []" | r where "unlexed lx1 = newline # r" | t where "s = t @ [CHR ''/'']"
      using s(5) by blast
    then show ?thesis
    proof cases
      case 1
      with p src show ?thesis by (auto simp: unlexed_def is_char_boundary_def)
    next
      case 2
      then show ?thesis
        using p src boundary_unlexed [of lx1] by (simp add: at_boundary_def newline_def is_cont_byte_def)
    next
      case 3
      then have "lx_src lx ! (lx_pos lx1 - 1) = CHR ''/''" "lx_pos lx1 - 1 < length (lx_src lx)" "Suc (lx_pos lx1 - 1) = lx_pos lx1"
        using p s(1) by (auto simp: consumed_def nth_append dest!: arg_cong [where f = "\<lambda>xs. xs ! length t"])
      with boundary_after_ascii [OF ok, of "lx_pos lx1 - 1"] show ?thesis by (simp add: ascii_def)
    qed
  qed
  ultimately have "str_slice (lx_src lx) (lx_pos lx) (lx_pos lx1) = (Inr s :: string lexed)"
    by (simp add: slice_consumed [OF s(1)])
  then show ?thesis
    using p src unfolding s(4) record_comment_def by (simp add: min_absorb1)
qed

lemma skip_trivia_laid:
  "skip_trivia lx = Inr lx' \<Longrightarrow> lx_pos lx \<le> length (lx_src lx) \<Longrightarrow> \<exists>ps. laid lx ps lx' \<and> tokens_of ps = []"
proof (induction lx rule: skip_trivia.induct)
  case (1 lx)
  have stop: ?case if "lx' = lx"
    using that "1.prems"(2) by (intro exI [of _ "[]"]) (simp add: laid_refl)
  show ?case
  proof (cases "lx_peek lx")
    case None
    then show ?thesis using "1.prems" stop by (simp add: skip_trivia.simps [of lx])
  next
    case (Some b)
    note p = this
    consider "is_blank b" | "\<not> is_blank b" "opens_comment lx" | "\<not> is_blank b" "\<not> opens_comment lx" by blast
    then show ?thesis
    proof cases
      case 1
      note l = laid_blank [OF p 1]
      have "skip_trivia (bumped lx) = Inr lx'" using "1.prems" p 1 by (simp add: skip_trivia.simps [of lx])
      from "1.IH"(1) [OF p 1 this laid_pos [OF l]] obtain ps where "laid (bumped lx) ps lx'" "tokens_of ps = []" by blast
      with laid_trans [OF l] show ?thesis by fastforce
    next
      case 2
      then obtain lx1 where c: "skip_comment lx = Inr lx1" "skip_trivia lx1 = Inr lx'"
        using "1.prems" p by (auto simp: skip_trivia.simps [of lx] bind_result_eq_Inr)
      obtain cm where l: "laid lx [Comment_piece cm] lx1"
        using skip_comment_laid [OF 2(2) c(1)] by blast
      from "1.IH"(2) [OF p 2 c laid_pos [OF l]] obtain ps where "laid lx1 ps lx'" "tokens_of ps = []" by blast
      with laid_trans [OF l] show ?thesis by fastforce
    next
      case 3
      then show ?thesis using "1.prems" p stop by (simp add: skip_trivia.simps [of lx])
    qed
  qed
qed

lemma next_token_laid:
  assumes "next_token lx = Inr (t, lx')" and "lx_pos lx \<le> length (lx_src lx)"
  shows "\<exists>ps. laid lx ps lx' \<and> tokens_of ps = (case t of None \<Rightarrow> [] | Some tok \<Rightarrow> [tok])
    \<and> (t = None \<longrightarrow> lx_pos lx' = length (lx_src lx'))"
proof -
  obtain lx1 where lx1: "skip_trivia lx = Inr lx1"
    using assms(1) by (auto simp: next_token_def bind_result_eq_Inr)
  obtain ps where ps: "laid lx ps lx1" "tokens_of ps = []"
    using skip_trivia_laid [OF lx1 assms(2)] by blast
  show ?thesis
  proof (cases "lx_peek lx1")
    case None
    then have "t = None" "lx' = lx1" "lx_pos lx1 = length (lx_src lx1)"
      using assms(1) lx1 laid_pos [OF ps(1)] by (simp_all add: next_token_def lx_peek_def nth_opt_def split: if_splits)
    with ps show ?thesis by auto
  next
    case (Some b)
    with assms(1) lx1 obtain k where k: "lex_kind b lx1 = Inr (k, lx')"
      and t: "t = Some \<lparr>tk_kind = k, tk_span = lx_span lx' (pos_of lx1 (lx_pos lx1)) (lx_pos lx')\<rparr>"
      by (auto simp: next_token_def bind_result_eq_Inr)
    from laid_trans [OF ps(1) laid_token [OF Some k]] ps(2) t show ?thesis by fastforce
  qed
qed

lemma lex_loop_laid:
  "lex_loop out lx = Inr (toks, lx') \<Longrightarrow> lx_pos lx \<le> length (lx_src lx) \<Longrightarrow>
   \<exists>ps. laid lx ps lx' \<and> toks = out @ tokens_of ps \<and> lx_pos lx' = length (lx_src lx')"
proof (induction out lx rule: lex_loop.induct)
  case (1 out lx)
  obtain t lx1 where t: "next_token lx = Inr (t, lx1)"
    using "1.prems" by (auto simp: lex_loop.simps [of out lx] bind_result_eq_Inr)
  obtain ps where ps: "laid lx ps lx1" "tokens_of ps = (case t of None \<Rightarrow> [] | Some tok \<Rightarrow> [tok])"
    "t = None \<longrightarrow> lx_pos lx1 = length (lx_src lx1)"
    using next_token_laid [OF t "1.prems"(2)] by blast
  show ?case
  proof (cases t)
    case None
    then have "toks = out" "lx' = lx1" using "1.prems" t by (auto simp: lex_loop.simps [of out lx])
    with None ps show ?thesis by auto
  next
    case (Some tok)
    with "1.prems" t have l: "lex_loop (out @ [tok]) lx1 = Inr (toks, lx')" by (simp add: lex_loop.simps [of out lx])
    from "1.IH" [OF t refl Some l laid_pos [OF ps(1)]] obtain qs where
      "laid lx1 qs lx'" "toks = (out @ [tok]) @ tokens_of qs" "lx_pos lx' = length (lx_src lx')" by blast
    with laid_trans [OF ps(1)] ps(2) Some show ?thesis by fastforce
  qed
qed

section \<open>No panic\<close>

lemma slice_ascii:
  assumes "consumed lx s lx'" and "s \<noteq> []" and "\<forall>c \<in> set s. ascii c" and "str_ok (lx_src lx)"
  shows "str_slice (lx_src lx) (lx_pos lx) (lx_pos lx') = (Inr s :: string lexed)"
proof -
  note p = consumed_pos [OF assms(1,2)]
  have nth: "lx_src lx ! (lx_pos lx + i) = s ! i" if "i < length s" for i
    using assms(1) p that by (auto simp: consumed_def unlexed_def dest!: arg_cong [where f = "\<lambda>xs. xs ! i"] simp: nth_append)
  have len: "lx_pos lx' = lx_pos lx + length s" using assms(1) by (simp add: consumed_def)
  have "is_char_boundary (lx_src lx) (lx_pos lx)"
    using nth [of 0] assms(2,3) p by (intro boundary_ascii) auto
  moreover have "is_char_boundary (lx_src lx) (Suc (lx_pos lx + (length s - 1)))"
  proof (rule boundary_after_ascii [OF assms(4)])
    have "0 < length s" using assms(2) by simp
    then show "lx_pos lx + (length s - 1) < length (lx_src lx)" using p len by linarith
    show "ascii (lx_src lx ! (lx_pos lx + (length s - 1)))"
      using nth [of "length s - 1"] assms(2,3) by simp
  qed
  moreover have "Suc (lx_pos lx + (length s - 1)) = lx_pos lx'"
    using len assms(2) by (cases s) simp_all
  ultimately show ?thesis by (simp add: slice_consumed [OF assms(1)])
qed

text \<open>The characters tokens begin and end with.\<close>

definition solid :: "char \<Rightarrow> bool" where
  "solid c \<longleftrightarrow> ascii c \<and> \<not> is_blank c"

lemma solid_chars [simp]:
  "is_digit c \<Longrightarrow> solid c" "is_ident_char c \<Longrightarrow> solid c" "hex_digit c = Some d \<Longrightarrow> solid c"
  "solid (CHR ''_'')" "solid (CHR ''.'')" "solid (CHR ''e'')" "solid (CHR ''E'')" "solid (CHR ''+'')" "solid (CHR ''-'')"
  "solid (CHR ''0'')" "solid (CHR ''x'')" "solid (CHR ''X'')" "solid (CHR 0x22)" "solid (CHR 0x27)"
proof -
  have blank: "is_blank c \<Longrightarrow> \<not> is_digit c \<and> \<not> is_ident_char c \<and> hex_digit c = None" for c
    by (auto simp: is_blank_def newline_def is_digit_def digit_of_def is_ident_char_def is_alpha_def hex_digit_def)
  show "is_digit c \<Longrightarrow> solid c" "is_ident_char c \<Longrightarrow> solid c" "hex_digit c = Some d \<Longrightarrow> solid c"
    using blank [of c] ascii_chars [of c] by (auto simp: solid_def)
qed (simp_all add: solid_def ascii_def is_blank_def newline_def)

lemma number_loop_solid:
  "number_loop d e lx = (fl, lx') \<Longrightarrow> \<exists>s. consumed lx s lx' \<and> (\<forall>c \<in> set s. solid c)"
proof (induction d e lx rule: number_loop.induct)
  case (1 d e lx)
  have stop: ?case if "lx' = lx"
    using that by (intro exI [of _ "[]"]) (simp add: consumed_refl)
  show ?case
  proof (cases "lx_peek lx")
    case None
    then show ?thesis using "1.prems" stop by (simp add: number_loop.simps [of d e lx])
  next
    case (Some b)
    note prem = "1.prems" [unfolded number_loop.simps [of d e lx]]
    have cons: ?thesis if "\<exists>s. consumed (bumped lx) s lx' \<and> (\<forall>c \<in> set s. solid c)" "solid b"
      using that consumed_Cons [OF Some] by fastforce
    consider "is_digit b \<or> b = CHR ''_''" | "\<not> (is_digit b \<or> b = CHR ''_'')" "b = CHR ''.'' \<and> \<not> d \<and> \<not> e"
      | "\<not> (is_digit b \<or> b = CHR ''_'')" "\<not> (b = CHR ''.'' \<and> \<not> d \<and> \<not> e)" "(b = CHR ''e'' \<or> b = CHR ''E'') \<and> \<not> e"
      | "\<not> (is_digit b \<or> b = CHR ''_'')" "\<not> (b = CHR ''.'' \<and> \<not> d \<and> \<not> e)" "\<not> ((b = CHR ''e'' \<or> b = CHR ''E'') \<and> \<not> e)"
      by blast
    then show ?thesis
    proof cases
      case 1
      then have "solid b" by (auto simp: solid_chars)
      with prem "1.IH"(1) [OF Some 1] 1 Some show ?thesis by (intro cons) auto
    next
      case 2
      then have "solid b" by (simp add: solid_chars)
      with prem "1.IH"(2) [OF Some 2] 2 Some show ?thesis by (intro cons) auto
    next
      case 3
      then have b: "solid b" by (auto simp: solid_chars)
      let ?lx = "if lx_peek (bumped lx) = Some (CHR ''+'') \<or> lx_peek (bumped lx) = Some (CHR ''-'') then bumped (bumped lx) else bumped lx"
      have "number_loop d True ?lx = (fl, lx')" using prem 3 Some by auto
      from "1.IH"(3) [OF Some 3 this] obtain s where s: "consumed ?lx s lx'" "\<forall>c \<in> set s. solid c" by blast
      show ?thesis
      proof (rule cons [OF _ b])
        show "\<exists>s. consumed (bumped lx) s lx' \<and> (\<forall>c \<in> set s. solid c)"
        proof (cases "lx_peek (bumped lx) = Some (CHR ''+'') \<or> lx_peek (bumped lx) = Some (CHR ''-'')")
          case True
          then obtain c where "lx_peek (bumped lx) = Some c" "solid c" by (auto simp: solid_chars)
          with s True consumed_Cons [of "bumped lx" c s lx'] show ?thesis
            by (intro exI [of _ "c # s"]) auto
        qed (use s in auto)
      qed
    next
      case 4
      then show ?thesis using prem Some stop by auto
    qed
  qed
qed

lemma panics_lex_fail [simp]: "\<not> panics (lex_fail c m p)" "\<not> diverges (lex_fail c m p)"
  by (simp_all add: lex_fail_def)

lemma lex_ident_ok:
  assumes "lx_peek lx = Some b" and "is_ident_char b" and "str_ok (lx_src lx)"
  shows "\<not> panics (lex_ident lx)"
proof -
  have "takeWhile is_ident_char (unlexed lx) \<noteq> []"
    using assms(1,2) by (auto simp: lx_peek_eq split: list.splits)
  moreover have "\<forall>c \<in> set (takeWhile is_ident_char (unlexed lx)). ascii c"
    using ascii_chars(2) by (auto dest: set_takeWhileD)
  ultimately have "str_slice (lx_src lx) (lx_pos lx) (lx_pos (bump_while is_ident_char lx))
      = (Inr (takeWhile is_ident_char (unlexed lx)) :: string lexed)"
    by (rule slice_ascii [OF bump_while_consumed _ _ assms(3)])
  then show ?thesis by (simp add: lex_ident_def Let_def)
qed

lemma remove_underscores_ascii: "\<forall>c \<in> set s. ascii c \<Longrightarrow> \<forall>c \<in> set (remove_underscores s). ascii c"
  by (simp add: remove_underscores_def)

lemma lex_hex_ok:
  assumes "unlexed lx = CHR ''0'' # x # cs" and "x = CHR ''x'' \<or> x = CHR ''X''" and "str_ok (lx_src lx)"
  shows "\<not> panics (lex_hex lx)"
proof -
  let ?p = "\<lambda>b. hex_digit b \<noteq> None \<or> b = CHR ''_''"
  let ?h = "takeWhile ?p cs" let ?s = "CHR ''0'' # x # ?h" let ?lx' = "bump_while ?p (bumped (bumped lx))"
  have "consumed (bumped (bumped lx)) ?h ?lx'"
    using bump_while_consumed [of "bumped (bumped lx)" ?p] assms(1) by (simp add: unlexed_bumped)
  then have c: "consumed lx ?s ?lx'"
    using assms(1) by (auto intro!: consumed_Cons simp: lx_peek_eq unlexed_bumped)
  have "ascii (CHR ''0'')" "ascii x" "ascii (CHR ''_'')" using assms(2) by (auto simp: ascii_def)
  then have a: "\<forall>c \<in> set ?s. ascii c"
    using ascii_chars(3) by (auto dest!: set_takeWhileD)
  have cut: "str_slice (lx_src lx) (lx_pos lx) (lx_pos ?lx') = (Inr ?s :: string lexed)"
    using slice_ascii [OF c _ a assms(3)] by simp
  have t: "remove_underscores ?s = CHR ''0'' # x # remove_underscores ?h"
    using assms(2) by (auto simp: remove_underscores_def)
  have "is_char_boundary (remove_underscores ?s) 2"
  proof (cases "remove_underscores ?h")
    case Nil
    then show ?thesis unfolding t is_char_boundary_def by simp
  next
    case (Cons c r)
    then have "ascii c" using remove_underscores_ascii [of ?h] a by auto
    with Cons show ?thesis unfolding t is_char_boundary_def by (simp add: ascii_not_cont)
  qed
  then have "str_slice (remove_underscores ?s) 2 (length (remove_underscores ?s)) = (Inr (remove_underscores ?h) :: string lexed)"
    unfolding t str_slice_def by (simp add: is_char_boundary_def)
  with cut show ?thesis
    by (auto simp: lex_hex_def Let_def split: option.splits)
qed

lemma lex_kind_ok:
  assumes p: "lx_peek lx = Some b" and ok: "str_ok (lx_src lx)"
  shows "\<not> panics (lex_kind b lx)"
proof (cases "simple_token b")
  case (Some k)
  then show ?thesis by (simp add: lex_kind_def)
next
  case None
  have str: "\<not> panics (string_loop st q out ly)" for st q out ly
  proof (induction st q out ly rule: string_loop.induct)
    case (1 st q out ly)
    have hex: "\<not> panics (read_hex_loop st n v lz)" for st n v lz
      by (induction n arbitrary: v lz) (auto split: option.split)
    have esc: "\<not> panics (lex_escape st e lz)" for st e lz
      by (simp add: lex_escape_def read_hex_def hex panics_bind split: option.split prod.split)
    show ?case
      using 1 by (simp add: string_loop.simps [of st q out ly] esc panics_bind split: option.split prod.split)
  qed
  have num: "\<not> panics (lex_number lx)" if d: "is_digit b"
  proof (cases "lx_peek lx = Some (CHR ''0'') \<and> (lx_peek1 lx = Some (CHR ''x'') \<or> lx_peek1 lx = Some (CHR ''X''))")
    case True
    then obtain x cs where "unlexed lx = CHR ''0'' # x # cs" "x = CHR ''x'' \<or> x = CHR ''X''"
      by (auto simp: lx_peek_eq lx_peek1_eq split: list.splits)
    from lex_hex_ok [OF this ok] True show ?thesis by (simp add: lex_number_def)
  next
    case False
    obtain fl lx' where n: "number_loop False False lx = (fl, lx')" by (cases "number_loop False False lx")
    obtain s where s: "consumed lx s lx'" "\<forall>c \<in> set s. ascii c"
      using number_loop_solid [OF n] unfolding solid_def by blast
    have "s \<noteq> []" using number_loop_less [OF n p d] s(1) by (auto simp: consumed_def)
    from slice_ascii [OF s(1) this s(2) ok] n False show ?thesis
      unfolding lex_number_def if_not_P [OF False]
      by (cases fl) (auto simp: lex_decimal_def Let_def split: option.splits)
  qed
  show ?thesis
    using None str num lex_ident_ok [OF p _ ok]
    by (simp add: lex_kind_def lex_string_def is_ident_char_def panics_bind split: prod.split)
qed

lemma skip_trivia_ok:
  "str_ok (lx_src lx) \<Longrightarrow> lx_pos lx \<le> length (lx_src lx) \<Longrightarrow> \<exists>lx'. skip_trivia lx = Inr lx'"
proof (induction lx rule: skip_trivia.induct)
  case (1 lx)
  show ?case
  proof (cases "lx_peek lx")
    case None
    then show ?thesis by (simp add: skip_trivia.simps [of lx])
  next
    case (Some b)
    note p = this
    consider "is_blank b" | "\<not> is_blank b" "opens_comment lx" | "\<not> is_blank b" "\<not> opens_comment lx" by blast
    then show ?thesis
    proof cases
      case 1
      then show ?thesis
        using "1.IH"(1) [OF p 1] "1.prems" p laid_pos [OF laid_blank [OF p 1]] by (simp add: skip_trivia.simps [of lx])
    next
      case 2
      obtain lx1 where c: "skip_comment lx = Inr lx1" using skip_comment_ok [OF 2(2) "1.prems"(1)] by blast
      obtain cm where "laid lx [Comment_piece cm] lx1" using skip_comment_laid [OF 2(2) c] by blast
      then have "lx_src lx1 = lx_src lx" "lx_pos lx1 \<le> length (lx_src lx1)" by (simp_all add: laid_def)
      with "1.IH"(2) [OF p 2 c] "1.prems" show ?thesis using p 2 c by (simp add: skip_trivia.simps [of lx])
    next
      case 3
      with p show ?thesis by (simp add: skip_trivia.simps [of lx])
    qed
  qed
qed

lemma lex_loop_ok:
  "str_ok (lx_src lx) \<Longrightarrow> lx_pos lx \<le> length (lx_src lx) \<Longrightarrow> \<not> panics (lex_loop out lx)"
proof (induction out lx rule: lex_loop.induct)
  case (1 out lx)
  have n: "\<not> panics (next_token lx)"
  proof -
    obtain lx1 where t: "skip_trivia lx = Inr lx1" using skip_trivia_ok [OF "1.prems"] by blast
    then have "str_ok (lx_src lx1)" using skip_trivia_laid [OF t "1.prems"(2)] "1.prems"(1) by (auto simp: laid_def)
    with t show ?thesis
      by (simp add: next_token_def panics_bind lex_kind_ok split: option.split prod.split)
  qed
  have "\<not> panics (lex_loop (out @ [tok]) lx1)" if t: "next_token lx = Inr (Some tok, lx1)" for tok lx1
    using "1.IH" [OF t refl refl] next_token_laid [OF t "1.prems"(2)] "1.prems"(1) by (auto simp: laid_def)
  with n show ?case
    by (simp add: lex_loop.simps [of out lx] panics_bind split: option.split prod.split)
qed

lemma diverges_lexer:
  "\<not> diverges (record_comment off p lx)" "\<not> diverges (skip_comment lx)" "\<not> diverges (skip_trivia lx)"
  "\<not> diverges (lex_loop out lx)"
proof -
  have sl: "\<not> diverges (str_slice s a b)" for s a b by (simp add: str_slice_def)
  show c: "\<not> diverges (record_comment off p lx)" for off p lx
    by (simp add: record_comment_def diverges_bind sl)
  show d: "\<not> diverges (skip_comment lx)" for lx
    by (simp add: skip_comment_def skip_line_comment_def skip_block_comment_def c)
  show t: "\<not> diverges (skip_trivia lx)" for lx
  proof (induction lx rule: skip_trivia.induct)
    case (1 lx)
    then show ?case by (simp add: skip_trivia.simps [of lx] diverges_bind d split: option.split)
  qed
  have num: "\<not> diverges (lex_number lx)" for lx
    by (simp add: lex_number_def lex_hex_def lex_decimal_def Let_def diverges_bind sl split: option.split prod.split)
  have hex: "\<not> diverges (read_hex_loop st n v lz)" for st n v lz
    by (induction n arbitrary: v lz) (simp_all split: option.split)
  have esc: "\<not> diverges (lex_escape st e lz)" for st e lz
    by (simp add: lex_escape_def read_hex_def hex diverges_bind split: option.split prod.split)
  have str: "\<not> diverges (string_loop st q out ly)" for st q out ly
  proof (induction st q out ly rule: string_loop.induct)
    case (1 st q out ly)
    then show ?case by (simp add: string_loop.simps [of st q out ly] esc diverges_bind split: option.split prod.split)
  qed
  have k: "\<not> diverges (lex_kind b lx)" for b lx
    by (simp add: lex_kind_def lex_string_def lex_ident_def Let_def diverges_bind str num sl split: option.split prod.split)
  have n: "\<not> diverges (next_token lx)" for lx
    by (simp add: next_token_def diverges_bind t k split: option.split prod.split)
  show "\<not> diverges (lex_loop out lx)"
  proof (induction out lx rule: lex_loop.induct)
    case (1 out lx)
    then show ?case by (simp add: lex_loop.simps [of out lx] diverges_bind n split: option.split prod.split)
  qed
qed

section \<open>Ends of lexemes\<close>

lemma string_loop_quote:
  "string_loop start quote out lx = Inr (t, lx') \<Longrightarrow> \<exists>s. consumed lx (s @ [quote]) lx'"
proof (induction start quote out lx rule: string_loop.induct)
  case (1 start quote out lx)
  obtain c where p: "lx_peek lx = Some c"
    using "1.prems" by (cases "lx_peek lx") (auto simp: string_loop.simps [of start quote out lx] lex_fail_def)
  consider "c = quote" | "c \<noteq> quote" "c = CHR 0x5C" | "c \<noteq> quote" "c \<noteq> CHR 0x5C" by blast
  then show ?case
  proof cases
    case 1
    then have "lx' = bumped lx" using "1.prems" p by (auto simp: string_loop.simps [of start quote out lx])
    with consumed_bump [OF p] 1 show ?thesis by (intro exI [of _ "[]"]) simp
  next
    case 2
    then obtain esc u lx1 where e: "lx_peek (bumped lx) = Some esc"
      and x: "lex_escape start esc (bumped (bumped lx)) = Inr (u, lx1)"
      and l: "string_loop start quote (out @ u) lx1 = Inr (t, lx')"
      using "1.prems" p
      by (auto simp: string_loop.simps [of start quote out lx] lex_fail_def bind_result_eq_Inr split: option.splits)
    obtain s2 where s2: "consumed lx1 (s2 @ [quote]) lx'" using "1.IH"(1) [OF p 2 e x refl l] by blast
    obtain s1 where s1: "consumed (bumped (bumped lx)) s1 lx1" using lex_escape_local [OF x] by blast
    from consumed_Cons [OF p consumed_Cons [OF e consumed_trans [OF s1 s2]]]
    show ?thesis by (intro exI [of _ "c # esc # s1 @ s2"]) simp
  next
    case 3
    then have l: "string_loop start quote (out @ utf8_of (of_char c)) (bumped lx) = Inr (t, lx')"
      using "1.prems" p by (auto simp: string_loop.simps [of start quote out lx])
    obtain s where s: "consumed (bumped lx) (s @ [quote]) lx'" using "1.IH"(2) [OF p 3 l] by blast
    from consumed_Cons [OF p s] show ?thesis by (intro exI [of _ "c # s"]) simp
  qed
qed

lemma consumed_unique: "consumed lx s lx' \<Longrightarrow> consumed lx t lx' \<Longrightarrow> s = t"
  by (auto simp: consumed_def)

lemma simple_token_solid: "simple_token b = Some k \<Longrightarrow> solid b \<and> b \<noteq> CHR ''/''"
  by (auto simp: simple_token_def solid_def ascii_def is_blank_def newline_def split: if_splits)

lemma lexeme_ends:
  assumes "lexeme s k"
  shows "solid (hd s) \<and> hd s \<noteq> CHR ''/'' \<and> solid (last s)"
proof -
  obtain lx lx' where ne: "s \<noteq> []" and k: "lex_kind (hd s) lx = Inr (k, lx')" and c: "consumed lx s lx'"
    using assms by (auto simp: lexeme_def)
  let ?b = "hd s"
  obtain cs where s: "s = ?b # cs" using ne by (cases s) auto
  have u: "unlexed lx = ?b # cs @ unlexed lx'" using c s by (metis append_Cons consumed_def)
  then have p: "lx_peek lx = Some ?b" by (simp add: lx_peek_eq)
  consider k' where "simple_token ?b = Some k'"
    | "simple_token ?b = None" "?b = CHR 0x22 \<or> ?b = CHR 0x27"
    | "simple_token ?b = None" "\<not> (?b = CHR 0x22 \<or> ?b = CHR 0x27)" "is_alpha ?b \<or> ?b = CHR ''_''"
    | "simple_token ?b = None" "\<not> (?b = CHR 0x22 \<or> ?b = CHR 0x27)" "\<not> (is_alpha ?b \<or> ?b = CHR ''_'')" "is_digit ?b"
    using k by (cases "simple_token ?b") (auto simp: lex_kind_def lex_fail_def split: if_splits)
  then show ?thesis
  proof cases
    case 1
    then have "lx' = bumped lx" using k by (simp add: lex_kind_def)
    then have "s = [?b]" using consumed_unique [OF c] consumed_bump [OF p] by blast
    with simple_token_solid [OF 1] show ?thesis by (metis last.simps)
  next
    case 2
    obtain t where "string_loop (pos_of lx (lx_pos lx)) ?b [] (bumped lx) = Inr (t, lx')"
      using k 2 by (auto simp: lex_kind_def lex_string_def bind_result_eq_Inr)
    from string_loop_quote [OF this] obtain t where "consumed (bumped lx) (t @ [?b]) lx'" by blast
    from consumed_unique [OF c consumed_Cons [OF p this]] have "last s = ?b" by (metis last_snoc append_Cons)
    with 2(2) show ?thesis by auto
  next
    case 3
    then have "lx' = bump_while is_ident_char lx"
      using k by (auto simp: lex_kind_def lex_ident_def Let_def bind_result_eq_Inr)
    then have "s = takeWhile is_ident_char (unlexed lx)"
      using consumed_unique [OF c] bump_while_consumed by blast
    then have "is_ident_char c" if "c \<in> set s" for c using that by (auto dest: set_takeWhileD)
    then have "solid ?b" "solid (last s)" using ne by simp_all
    moreover have "?b \<noteq> CHR ''/''" using 3(3) by (auto simp: is_alpha_def)
    ultimately show ?thesis by blast
  next
    case 4
    then have n: "lex_number lx = Inr (k, lx')" using k by (simp add: lex_kind_def)
    have b: "?b \<noteq> CHR ''/''" using 4(4) by (auto simp: is_digit_def digit_of_def)
    have "solid c" if mem: "c \<in> set s" for c
    proof (cases "lx_peek lx = Some (CHR ''0'') \<and> (lx_peek1 lx = Some (CHR ''x'') \<or> lx_peek1 lx = Some (CHR ''X''))")
      case True
      let ?p = "\<lambda>b. hex_digit b \<noteq> None \<or> b = CHR ''_''"
      obtain x r where x: "unlexed lx = CHR ''0'' # x # r" "x = CHR ''x'' \<or> x = CHR ''X''"
        using True by (auto simp: lx_peek_eq lx_peek1_eq split: list.splits)
      have "lx' = bump_while ?p (bumped (bumped lx))"
        using n True by (auto simp: lex_number_def lex_hex_def Let_def bind_result_eq_Inr lex_fail_def split: option.splits)
      then have "consumed lx (CHR ''0'' # x # takeWhile ?p r) lx'"
        using bump_while_consumed [of "bumped (bumped lx)" ?p] x
        by (auto intro!: consumed_Cons simp: lx_peek_eq unlexed_bumped)
      from consumed_unique [OF c this] mem x(2) show ?thesis
        by (auto dest!: set_takeWhileD)
    next
      case False
      have "lex_decimal lx = Inr (k, lx')" by (rule n [unfolded lex_number_def if_not_P [OF False]])
      then obtain fl where "number_loop False False lx = (fl, lx')"
        by (auto simp: lex_decimal_def bind_result_eq_Inr Let_def lex_fail_def split: prod.splits option.splits if_splits)
      from number_loop_solid [OF this] consumed_unique [OF c] mem show ?thesis by blast
    qed
    then show ?thesis using ne b by simp
  qed
qed

section \<open>The properties\<close>

lemma lexer_lossless_pieces:
  assumes "str_ok src" and "lex_with_comments src = Inr (toks, cms)"
  shows "\<exists>ps. layout src 0 ps \<and> toks = tokens_of ps \<and> cms = comments_of ps"
proof -
  obtain lx where lx: "lex_loop [] (Lexer_new src) = Inr (toks, lx)" "cms = lx_comments lx"
    using assms(2) by (auto simp: lex_with_comments_def bind_result_eq_Inr)
  from lex_loop_laid [OF lx(1)] obtain ps where
    ps: "laid (Lexer_new src) ps lx" "toks = tokens_of ps" "lx_pos lx = length (lx_src lx)"
    by (auto simp: Lexer_new_def)
  then have "layout src (lx_pos lx) [] \<longrightarrow> layout src 0 (ps @ [])" "lx_comments lx = comments_of ps" "lx_src lx = src"
    unfolding laid_def Lexer_new_def by (simp_all del: layout.simps append_Nil2)
  with ps(2,3) lx(2) show ?thesis by auto
qed

lemma lex_with_comments_ok:
  assumes "str_ok src"
  shows "\<not> panics (lex_with_comments src)" "\<not> diverges (lex_with_comments src)"
  using lex_loop_ok [of "Lexer_new src" "[]"] assms diverges_lexer(4) [of "[]" "Lexer_new src"]
  by (simp_all add: lex_with_comments_def panics_bind diverges_bind Lexer_new_def split: prod.split)

text \<open>
  C28: The lexer is total and loses nothing. On every source it ends without a panic, with tokens and
  comments or with an error; and when it succeeds, the source is one run of pieces, each a blank, a
  comment or a token, lying gaplessly one behind the other from the first byte to the last: the
  tokens and comments returned are exactly those pieces in order, every token is a lexeme of its
  kind and its span is the place it was cut from, every comment is a line or block comment and its
  text is its piece of the source.
\<close>

theorem lexer_lossless:
  assumes "str_ok src"
  shows "\<not> panics (lex_with_comments src) \<and> \<not> diverges (lex_with_comments src)
    \<and> (\<forall>toks cms. lex_with_comments src = Inr (toks, cms) \<longrightarrow>
        (\<exists>ps. layout src 0 ps \<and> toks = tokens_of ps \<and> cms = comments_of ps))"
  using lex_with_comments_ok [OF assms] lexer_lossless_pieces [OF assms] by blast

theorem lexer_lossless_witness:
  "\<not> panics (lex_with_comments ''a = 0x1F; // c'') \<and> \<not> diverges (lex_with_comments ''a = 0x1F; // c'')"
proof -
  have "str_ok ''a = 0x1F; // c''"
    by (rule str_ascii_ok) (simp add: str_ascii_def)
  from lexer_lossless [OF this] show ?thesis by blast
qed

text \<open>The text of a string literal without escapes is decoded byte by byte.\<close>

lemma string_loop_plain:
  assumes "quote \<notin> set s" and "CHR 0x5C \<notin> set s" and "unlexed lx = s @ quote # r"
  shows "\<exists>lx'. string_loop start quote out lx = Inr (out @ concat (map (\<lambda>c. utf8_of (of_char c)) s), lx') \<and> consumed lx (s @ [quote]) lx'"
  using assms
proof (induction s arbitrary: out lx)
  case Nil
  then have p: "lx_peek lx = Some quote" by (simp add: lx_peek_eq)
  then show ?case
    by (auto simp: string_loop.simps [of start quote out lx] intro: consumed_bump)
next
  case (Cons c s)
  then have p: "lx_peek lx = Some c" "c \<noteq> quote" "c \<noteq> CHR 0x5C" and u: "unlexed (bumped lx) = s @ quote # r"
    by (auto simp: lx_peek_eq unlexed_bumped)
  from Cons.IH [OF _ _ u, of "out @ utf8_of (of_char c)"] Cons.prems obtain lx' where
    "string_loop start quote (out @ utf8_of (of_char c)) (bumped lx)
       = Inr ((out @ utf8_of (of_char c)) @ concat (map (\<lambda>c. utf8_of (of_char c)) s), lx')"
    "consumed (bumped lx) (s @ [quote]) lx'" by auto
  with p show ?case
    by (auto simp: string_loop.simps [of start quote out lx] intro: consumed_Cons)
qed

lemma utf8_of_ascii: "ascii c \<Longrightarrow> utf8_of (of_char c) = [c]"
  by (simp add: utf8_of_def ascii_def)

lemma length_utf8_of: "length (utf8_of (of_char c)) = (if ascii c then 1 else 2)"
proof -
  have "(of_char c :: nat) < 2048"
    by (rule less_trans [OF nat_of_char_less_256]) simp
  then show ?thesis by (simp add: utf8_of_def ascii_def)
qed

lemma latin1_decoding: "concat (map (\<lambda>c. utf8_of (of_char c)) s) = s \<longleftrightarrow> list_all ascii s"
proof -
  have len: "length (concat (map (\<lambda>c. utf8_of (of_char c)) s)) = length s + length (filter (\<lambda>c. \<not> ascii c) s)" for s
    by (induction s) (simp_all add: length_utf8_of)
  show ?thesis
  proof
    assume "concat (map (\<lambda>c. utf8_of (of_char c)) s) = s"
    with len [of s] have "filter (\<lambda>c. \<not> ascii c) s = []" by simp
    then show "list_all ascii s" by (simp add: filter_empty_conv list_all_iff)
  qed (induction s, simp_all add: utf8_of_ascii)
qed

lemma skip_trivia_stop:
  "lx_peek lx = Some b \<Longrightarrow> \<not> is_blank b \<Longrightarrow> b \<noteq> CHR ''/'' \<Longrightarrow> skip_trivia lx = Inr lx"
  by (simp add: skip_trivia.simps [of lx] opens_comment_def opens_line_def opens_block_def)

lemma skip_trivia_end: "unlexed lx = [] \<Longrightarrow> skip_trivia lx = Inr lx"
  by (simp add: skip_trivia.simps [of lx] lx_peek_eq)

text \<open>
  C29: String literals are garbled outside ASCII. A literal without escapes is decoded byte by byte
  as Latin-1: its value is its text exactly when the text is ASCII, and otherwise each byte of a
  multi-byte character becomes a character of its own.
\<close>

theorem string_literal_latin1:
  assumes "quote = CHR 0x22 \<or> quote = CHR 0x27" and "quote \<notin> set s" and "CHR 0x5C \<notin> set s"
  shows "\<exists>sp v. lex (quote # s @ [quote]) = Inr [\<lparr>tk_kind = TkStr v, tk_span = sp\<rparr>] \<and> (v = s \<longleftrightarrow> list_all ascii s)"
proof -
  let ?lx = "Lexer_new (quote # s @ [quote])" let ?v = "concat (map (\<lambda>c. utf8_of (of_char c)) s)"
  have "unlexed ?lx = quote # s @ [quote]"
    by (simp add: unlexed_def Lexer_new_def)
  then have p: "lx_peek ?lx = Some quote" and u: "unlexed (bumped ?lx) = s @ quote # []"
    by (simp_all add: lx_peek_eq unlexed_bumped)
  obtain lx' where l: "string_loop (pos_of ?lx (lx_pos ?lx)) quote [] (bumped ?lx) = Inr (?v, lx')"
    and c: "consumed (bumped ?lx) (s @ [quote]) lx'"
    using string_loop_plain [OF assms(2,3) u, of "pos_of ?lx (lx_pos ?lx)" "[]"] by auto
  have k: "lex_kind quote ?lx = Inr (TkStr ?v, lx')"
  proof -
    have "simple_token quote = None" using assms(1) by (elim disjE) (simp_all add: simple_token_def)
    with assms(1) l show ?thesis by (simp only: lex_kind_def lex_string_def option.case if_True bind_result_Inr prod.case)
  qed
  have t: "skip_trivia ?lx = Inr ?lx"
    using assms(1) by (intro skip_trivia_stop [OF p]) (auto simp: is_blank_def newline_def)
  have e: "unlexed lx' = []" using c u by (simp add: consumed_def)
  then have n: "next_token lx' = Inr (None, lx')"
    by (simp add: next_token_def skip_trivia_end lx_peek_eq)
  show ?thesis
    using k t p n latin1_decoding [of s]
    by (simp add: lex_def lex_with_comments_def lex_loop.simps [of "[]" ?lx] lex_loop.simps [of _ lx'] next_token_def)
qed

theorem string_literal_latin1_witness:
  "\<exists>sp v. lex (CHR 0x22 # [CHR 0xC3, CHR 0xA9] @ [CHR 0x22]) = Inr [\<lparr>tk_kind = TkStr v, tk_span = sp\<rparr>] \<and> v \<noteq> [CHR 0xC3, CHR 0xA9]"
  using string_literal_latin1 [of "CHR 0x22" "[CHR 0xC3, CHR 0xA9]"] by (simp add: ascii_def)

end
