(* ===== verification/Parser_Total.thy ===== *)
theory Parser_Total
  imports Parser Lexer_Properties
begin

text \<open>
  The parser returns: every loop of it consumes a token in every round, with one exception. The list
  loop of \<open>parse_constant\<close> goes round without consuming anything at a token that starts no constant,
  and then for ever. On a token vector whose opening brackets stand behind \<open>= number\<close> the parser
  ends. The depth of its recursion is not counted here.
\<close>

section \<open>Results that end with a property\<close>

definition ends :: "(unit, 'a \<times> parser) res \<Rightarrow> ('a \<Rightarrow> parser \<Rightarrow> bool) \<Rightarrow> bool" where
  "ends m Q \<longleftrightarrow> (case m of Inr (x, p) \<Rightarrow> Q x p | Inl _ \<Rightarrow> False)"

lemma ends_Inr [simp]: "ends (Inr (x, p)) Q \<longleftrightarrow> Q x p"
  by (simp add: ends_def)

lemma ends_bind [simp]: "ends (bind_result m f) Q \<longleftrightarrow> ends m (\<lambda>x p. ends (f (x, p)) Q)"
  by (auto simp: ends_def split: sum.splits)

lemma ends_mono: "ends m P \<Longrightarrow> (\<And>x p. P x p \<Longrightarrow> Q x p) \<Longrightarrow> ends m Q"
  by (auto simp: ends_def split: sum.splits)

lemma ends_try_act:
  "ends (try_act m f) Q \<longleftrightarrow> ends m (\<lambda>x p. case x of None \<Rightarrow> Q None p | Some x \<Rightarrow> ends (f x p) Q)"
  by (auto simp: try_act_def try_opt_def split: option.split intro!: arg_cong [where f = "ends m"])

lemma ends_ex: "ends m Q \<longleftrightarrow> (\<exists>x p. m = Inr (x, p) \<and> Q x p)"
  by (auto simp: ends_def split: sum.splits)

section \<open>Progress\<close>

text \<open>The state after some steps: the same tokens, at the same depth, and no step back.\<close>

definition follows :: "parser \<Rightarrow> parser \<Rightarrow> bool" where
  "follows p q \<longleftrightarrow> ps_tokens q = ps_tokens p \<and> ps_depth q = ps_depth p \<and> ps_pos p \<le> ps_pos q"

text \<open>Besides, a token was consumed when there was one.\<close>

definition eats :: "parser \<Rightarrow> parser \<Rightarrow> bool" where
  "eats p q \<longleftrightarrow> follows p q \<and> (ps_pos p < length (ps_tokens p) \<longrightarrow> ps_pos p < ps_pos q)"

lemma follows_refl [simp]: "follows p p"
  by (simp add: follows_def)

lemma follows_trans: "follows p q \<Longrightarrow> follows q r \<Longrightarrow> follows p r"
  by (simp add: follows_def)

lemma eats_follows: "eats p q \<Longrightarrow> follows p q"
  by (simp add: eats_def)

lemma eats_trans: "eats p q \<Longrightarrow> follows q r \<Longrightarrow> eats p r"
  by (auto simp: eats_def follows_def)

lemma follows_eats: "follows p q \<Longrightarrow> eats q r \<Longrightarrow> eats p r"
  by (auto simp: eats_def follows_def)

lemma peek_kind_None [simp]: "peek_kind p = None \<longleftrightarrow> length (ps_tokens p) \<le> ps_pos p"
  by (auto simp: peek_kind_def ps_peek_def nth_opt_def)

lemma ps_peek_None [simp]: "ps_peek p = None \<longleftrightarrow> length (ps_tokens p) \<le> ps_pos p"
  by (auto simp: ps_peek_def nth_opt_def)

lemma peek_kind_Some: "peek_kind p = Some k \<longleftrightarrow> ps_pos p < length (ps_tokens p) \<and> tk_kind (ps_tokens p ! ps_pos p) = k"
  by (auto simp: peek_kind_def ps_peek_def nth_opt_def)

lemma ps_peek_Some: "ps_peek p = Some t \<longleftrightarrow> ps_pos p < length (ps_tokens p) \<and> ps_tokens p ! ps_pos p = t"
  by (auto simp: ps_peek_def nth_opt_def)

lemma ps_error_simps [simp]:
  "ps_tokens (ps_error c m sp p) = ps_tokens p" "ps_pos (ps_error c m sp p) = ps_pos p"
  "ps_depth (ps_error c m sp p) = ps_depth p" "peek_kind (ps_error c m sp p) = peek_kind p"
  by (simp_all add: ps_error_def peek_kind_def ps_peek_def)

lemma advanced_simps [simp]:
  "ps_tokens (advanced p) = ps_tokens p" "ps_depth (advanced p) = ps_depth p"
  "ps_pos (advanced p) = (if ps_pos p < length (ps_tokens p) then ps_pos p + 1 else ps_pos p)"
  by (auto simp: ps_advance_def ps_peek_def nth_opt_def)

lemma eats_advanced [simp]: "eats p (advanced p)"
  by (simp add: eats_def follows_def)

lemma follows_advanced [simp]: "follows p (advanced p)"
  by (simp add: follows_def)

lemma follows_error [simp]: "follows p (ps_error c m sp p)"
  by (simp add: follows_def)

lemma follows_expected [simp]: "follows p (expected k p)"
  by (auto simp: expect_def)

lemma expected_simps [simp]:
  "ps_tokens (expected k p) = ps_tokens p" "ps_depth (expected k p) = ps_depth p"
  "ps_pos (expected k p) = (if peek_kind p = Some k then ps_pos p + 1 else ps_pos p)"
  by (auto simp: expect_def peek_kind_Some)

lemma expect_ident_cases:
  obtains (eof) "expect_ident p = (None, p)" "ps_peek p = None"
  | (name) s where "expect_ident p = (Some (Ident s (here p)), advanced p)" "peek_kind p = Some (TkIdent s)"
  | (other) k q where "expect_ident p = (None, q)" "follows (advanced p) q" "ps_pos q = ps_pos (advanced p)"
      "peek_kind p = Some k" "\<nexists>s. k = TkIdent s"
proof (cases "ps_peek p")
  case None
  then show thesis by (intro eof) (simp_all add: expect_ident_def ps_advance_def del: ps_peek_None)
next
  case (Some t)
  then have k: "peek_kind p = Some (tk_kind t)" by (simp add: peek_kind_def)
  show thesis
  proof (cases "\<exists>s. tk_kind t = TkIdent s")
    case True
    with Some k show thesis by (auto intro!: name simp: expect_ident_def ps_advance_def here_def)
  next
    case False
    with Some k show thesis
      by (intro other [of "snd (expect_ident p)"])
        (auto simp: expect_ident_def ps_advance_def follows_def split: token_kind.splits)
  qed
qed

lemma eats_expect_ident: "expect_ident p = (x, q) \<Longrightarrow> eats p q"
  by (rule expect_ident_cases [of p]) (auto simp: eats_def follows_def)

lemma follows_take_int: "take_int msg p = (x, q) \<Longrightarrow> follows p q"
  by (auto simp: take_int_def follows_def split: option.splits token_kind.splits if_splits)

lemma take_int_Some: "take_int msg p = (Some n, q) \<Longrightarrow> peek_kind p = Some (TkInt n) \<and> q = advanced p"
  by (auto simp: take_int_def split: option.splits token_kind.splits)

lemma follows_parse_label: "parse_label p = (x, q) \<Longrightarrow> follows p q"
  by (auto simp: parse_label_def split: if_splits)

lemma follows_skip_comma [simp]: "follows p (skip_comma p)"
  by (simp add: skip_comma_def)

lemma follows_skip_stream: "skip_stream p = (x, q) \<Longrightarrow> follows p q"
  by (auto simp: skip_stream_def split: if_splits)

lemma eats_unexpected [simp]: "eats p (unexpected m p)"
  by (simp add: unexpected_def eats_def follows_def)

text \<open>Chains of such steps; the first collection searches, the second one computes.\<close>

lemmas positions = eats_def follows_def

lemmas progress = follows_trans eats_follows eats_trans follows_eats eats_expect_ident follows_take_int
  follows_parse_label follows_skip_stream

section \<open>Loops\<close>

text \<open>A round that continues consumed a token.\<close>

lemma ends_loop:
  assumes step: "\<And>s q. I s q \<Longrightarrow> c q \<Longrightarrow> ends (step s q) (\<lambda>f r. case f of
      Continue s' \<Rightarrow> I s' r \<and> tokens_left r < tokens_left q | Break s' \<Rightarrow> J s' r)"
    and stop: "\<And>s q. I s q \<Longrightarrow> \<not> c q \<Longrightarrow> J s q"
  shows "I s p \<Longrightarrow> tokens_left p < n \<Longrightarrow> ends (token_loop n c step s p) J"
proof (induction n arbitrary: s p)
  case (Suc n)
  show ?case
  proof (cases "c p")
    case True
    from step [OF Suc.prems(1) True] obtain f q where *: "step s p = Inr (f, q)"
      "case f of Continue s' \<Rightarrow> I s' q \<and> tokens_left q < tokens_left p | Break s' \<Rightarrow> J s' q"
      by (auto simp: ends_ex)
    with True Suc show ?thesis by (cases f) auto
  qed (use Suc.prems stop in simp)
qed simp

lemma ends_while:
  assumes step: "\<And>s q. I s q \<Longrightarrow> c q \<Longrightarrow> ends (step s q) (\<lambda>f r. case f of
      Continue s' \<Rightarrow> I s' r \<and> tokens_left r < tokens_left q | Break s' \<Rightarrow> J s' r)"
    and "\<And>s q. I s q \<Longrightarrow> \<not> c q \<Longrightarrow> J s q" "I s p"
  shows "ends (while_tokens c step s p) J"
  unfolding while_tokens_def by (rule ends_loop [where I = I]) (use assms in auto)

lemma eats_left: "eats p q \<Longrightarrow> ps_pos p < length (ps_tokens p) \<Longrightarrow> tokens_left q < tokens_left p"
  by (auto simp: eats_def follows_def tokens_left_def)

definition goes_on :: "'s flow \<Rightarrow> bool" where
  "goes_on f \<longleftrightarrow> (case f of Continue _ \<Rightarrow> True | Break _ \<Rightarrow> False)"

lemma goes_on_simps [simp]: "goes_on (Continue s)" "\<not> goes_on (Break s)"
  by (simp_all add: goes_on_def)

text \<open>The two forms the parser needs.\<close>

lemma ends_while_follows:
  assumes "\<And>s q. follows p q \<Longrightarrow> c q \<Longrightarrow> ends (step s q) (\<lambda>f r. follows q r
      \<and> (goes_on f \<longrightarrow> eats q r \<and> ps_pos q < length (ps_tokens q)))"
    and "\<And>s q. follows p q \<Longrightarrow> Q s q"
  shows "ends (while_tokens c step s p) Q"
  by (rule ends_while [where I = "\<lambda>_ q. follows p q"])
    (auto intro!: ends_mono [OF assms(1)] intro: assms(2) follows_trans eats_left simp: goes_on_def split: flow.splits)

lemma ends_try_tokens:
  assumes "\<And>s q. follows p q \<Longrightarrow> c q \<Longrightarrow> ends (step s q) (\<lambda>f r. follows q r
      \<and> (goes_on f \<longrightarrow> eats q r \<and> ps_pos q < length (ps_tokens q)))"
    and "\<And>s q. follows p q \<Longrightarrow> Q s q"
  shows "ends (try_tokens c step s p) Q"
  unfolding try_tokens_def
  by (rule ends_while_follows) (auto split: option.split intro: assms)

lemma before_peek: "before k p \<Longrightarrow> ps_pos p < length (ps_tokens p)"
  by (simp add: before_def)

lemma ends_recover: "(\<And>q. follows p q \<Longrightarrow> Q q) \<Longrightarrow> ends (bind_result (recover p) (\<lambda>q. Inr (x, q))) (\<lambda>_. Q)"
  unfolding recover_def bind_result_assoc
  by (simp, rule ends_while_follows) auto


section \<open>Token vectors without list constants\<close>

text \<open>Every opening bracket follows \<open>= number\<close>, as the one of a field's options does.\<close>

definition is_int_token :: "token_kind \<Rightarrow> bool" where
  "is_int_token k \<longleftrightarrow> (case k of TkInt _ \<Rightarrow> True | _ \<Rightarrow> False)"

lemma is_int_token_simps [simp]:
  "is_int_token (TkInt n)" "\<not> is_int_token (TkIdent s)" "\<not> is_int_token Dot" "\<not> is_int_token Equals"
  "\<not> is_int_token LParen" "\<not> is_int_token RParen" "\<not> is_int_token Colon"
  by (simp_all add: is_int_token_def)

lemma is_int_token_iff: "is_int_token k \<longleftrightarrow> (\<exists>n. k = TkInt n)"
  by (cases k) (simp_all add: is_int_token_def)

definition only_option_brackets :: "token_kind list \<Rightarrow> bool" where
  "only_option_brackets ks \<longleftrightarrow> (\<forall>i < length ks. ks ! i = LBracket \<longrightarrow>
     2 \<le> i \<and> ks ! (i - 2) = Equals \<and> is_int_token (ks ! (i - 1)))"

definition calm :: "parser \<Rightarrow> bool" where
  "calm p \<longleftrightarrow> only_option_brackets (map tk_kind (ps_tokens p))"

definition behind_number :: "parser \<Rightarrow> bool" where
  "behind_number p \<longleftrightarrow> 2 \<le> ps_pos p \<and> tk_kind (ps_tokens p ! (ps_pos p - 2)) = Equals
     \<and> is_int_token (tk_kind (ps_tokens p ! (ps_pos p - 1)))"

lemma calm_bracket: "calm p \<Longrightarrow> peek_kind p = Some LBracket \<Longrightarrow> behind_number p"
  by (auto simp: calm_def only_option_brackets_def peek_kind_Some behind_number_def)

lemma calm_follows: "calm p \<Longrightarrow> follows p q \<Longrightarrow> calm q"
  by (simp add: calm_def follows_def)

lemma calm_eats: "calm p \<Longrightarrow> eats p q \<Longrightarrow> calm q"
  by (simp add: calm_follows eats_follows)

lemma behind_number_advanced:
  "peek_kind p = Some k \<Longrightarrow> \<not> is_int_token k \<Longrightarrow> \<not> behind_number (advanced p)"
  by (auto simp: behind_number_def peek_kind_Some)

lemma behind_number_error [simp]: "behind_number (ps_error c m sp p) = behind_number p"
  by (simp add: behind_number_def)

lemma behind_number_expected:
  "\<not> behind_number p \<Longrightarrow> \<not> is_int_token k \<Longrightarrow> \<not> behind_number (expected k p)"
  by (auto simp: expect_def behind_number_advanced)

lemma not_behind_number_2:
  assumes "peek_kind p = Some k" "k \<noteq> Equals" "ps_pos q = Suc (Suc (ps_pos p))" "ps_tokens q = ps_tokens p"
  shows "\<not> behind_number q"
  using assms by (auto simp: behind_number_def peek_kind_Some)

lemma segment_not_behind:
  assumes "peek_kind p = Some Dot" "expect_ident (advanced p) = (i, q)"
  shows "\<not> behind_number q"
proof (cases rule: expect_ident_cases [of "advanced p"])
  case eof
  with assms show ?thesis using behind_number_advanced [of p Dot] by simp
next
  case (name s)
  with assms show ?thesis using behind_number_advanced [of "advanced p" "TkIdent s"] by simp
next
  case (other k r)
  with assms show ?thesis using not_behind_number_2 [of p Dot q]
    by (auto simp: follows_def peek_kind_Some)
qed

lemma peek_kind_less: "peek_kind p = Some k \<Longrightarrow> ps_pos p < length (ps_tokens p)"
  by (simp add: peek_kind_Some)

lemma segment_eats: "expect_ident (advanced p) = (i, q) \<Longrightarrow> eats p q"
  by (rule eats_trans [OF eats_advanced eats_follows [OF eats_expect_ident]])

lemma segment_left: "peek_kind p = Some k \<Longrightarrow> expect_ident (advanced p) = (i, q) \<Longrightarrow> tokens_left q < tokens_left p"
  by (rule eats_left [OF segment_eats peek_kind_less])

lemma option_segments_ends:
  "\<not> behind_number p \<Longrightarrow> ends (option_segments name p) (\<lambda>_ q. follows p q \<and> \<not> behind_number q)"
  unfolding option_segments_def
  by (rule ends_while [where I = "\<lambda>_ q. follows p q \<and> \<not> behind_number q"])
    (auto split: prod.split intro: follows_trans [OF _ eats_follows [OF segment_eats]] segment_left
      dest: segment_not_behind)

lemma parenthesised_name_ends:
  assumes "peek_kind p = Some LParen"
  shows "ends (parenthesised_name p) (\<lambda>_ q. eats p q \<and> \<not> behind_number q)"
  unfolding parenthesised_name_def
proof (rule ends_while [where I = "\<lambda>_ q. eats p q \<and> \<not> behind_number q"])
  show "eats p (advanced p) \<and> \<not> behind_number (advanced p)"
    using behind_number_advanced [OF assms] by simp
qed (auto split: option.split token_kind.split intro: eats_trans eats_left peek_kind_less
      dest: behind_number_advanced)

lemma parse_option_name_ends:
  "ends (parse_option_name p) (\<lambda>x q. eats p q \<and> (x \<noteq> None \<longrightarrow> \<not> behind_number q))"
proof (cases "peek_kind p = Some LParen")
  case True
  then show ?thesis
    by (auto simp: parse_option_name_def intro!: ends_mono [OF parenthesised_name_ends]
        ends_mono [OF option_segments_ends] intro: progress)
next
  case False
  show ?thesis
  proof (cases rule: expect_ident_cases [of p])
    case (name s)
    with behind_number_advanced [of p "TkIdent s"] False show ?thesis
      by (auto simp: parse_option_name_def try_opt_def intro!: ends_mono [OF option_segments_ends] intro: progress)
  qed (use False in \<open>auto simp: parse_option_name_def try_opt_def eats_def follows_def split: if_splits\<close>)
qed


section \<open>Constants, options, types\<close>

text \<open>Where a constant may stand: not at the bracket of a list.\<close>

definition plain :: "parser \<Rightarrow> bool" where
  "plain p \<longleftrightarrow> calm p \<and> peek_kind p \<noteq> Some LBracket"

lemma plain_behind: "calm p \<Longrightarrow> \<not> behind_number p \<Longrightarrow> plain p"
  unfolding plain_def using calm_bracket by blast

lemma plain_expected:
  "calm p \<Longrightarrow> \<not> behind_number p \<Longrightarrow> k = Equals \<or> k = Colon \<Longrightarrow> plain (expected k p)"
  by (rule plain_behind) (auto intro: calm_follows [OF _ follows_expected] simp: behind_number_expected)

abbreviation const_ends :: "parser \<Rightarrow> const_value option \<Rightarrow> parser \<Rightarrow> bool" where
  "const_ends p x q \<equiv> follows p q \<and> (x \<noteq> None \<longrightarrow> eats p q)"

lemma aggregate_step_ends:
  assumes rec: "\<And>q. plain q \<Longrightarrow> follows p q \<Longrightarrow> ends (rec q) (const_ends q)" and p: "calm p"
  shows "ends (aggregate_step rec fs p) (\<lambda>_ r. eats p r)"
  unfolding aggregate_step_def
proof (simp, rule ends_mono [OF parse_option_name_ends], goal_cases)
  case (1 key q)
  then have q: "follows p q" "calm q" using p by (auto intro: eats_follows calm_eats)
  show ?case
  proof (cases key)
    case None
    with 1 show ?thesis by simp
  next
    case (Some k)
    with 1 q have "plain q" "plain (expected Colon q)" by (auto intro: plain_behind plain_expected)
    with 1 q Some show ?thesis
      by (auto intro!: ends_mono [OF rec] simp: positions split: option.split if_splits)
  qed
qed

lemma constant_fuel_ends:
  "tokens_left p < n \<Longrightarrow> plain p \<Longrightarrow> ends (constant_fuel n p) (const_ends p)"
proof (induction n arbitrary: p)
  case (Suc n)
  show ?case
  proof (cases "ps_peek p")
    case None
    then show ?thesis by (simp add: eats_def del: ps_peek_None)
  next
    case (Some t)
    then have less: "ps_pos p < length (ps_tokens p)" and k: "peek_kind p = Some (tk_kind t)"
      by (auto simp: ps_peek_Some peek_kind_Some)
    have agg: "ends (try_tokens (before RBrace) (aggregate_step (constant_fuel n)) [] (advanced p)) (\<lambda>_ q. eats p q)"
    proof (rule ends_try_tokens)
      fix s q assume q: "follows (advanced p) q" "before RBrace q"
      then have "eats p q" by (auto intro: eats_trans [OF eats_advanced])
      then have "tokens_left q < tokens_left p" using less by (rule eats_left)
      moreover have "tokens_left r \<le> tokens_left q" if "follows q r" for r
        using that by (auto simp: follows_def tokens_left_def)
      ultimately have "ends (aggregate_step (constant_fuel n) s q) (\<lambda>_ r. eats q r)"
        using Suc \<open>eats p q\<close> by (intro aggregate_step_ends Suc.IH) (fastforce simp: plain_def intro: calm_eats)+
      with q show "ends (aggregate_step (constant_fuel n) s q)
          (\<lambda>f r. follows q r \<and> (goes_on f \<longrightarrow> eats q r \<and> ps_pos q < length (ps_tokens q)))"
        by (auto elim!: ends_mono intro: eats_follows before_peek)
    qed (auto intro: eats_trans [OF eats_advanced])
    from Some Suc.prems(2) k less show ?thesis
      by (auto simp: ends_try_act plain_def intro!: ends_mono [OF agg]
          simp: positions split: token_kind.split option.split if_splits)
  qed
qed simp

lemma parse_constant_ends: "plain p \<Longrightarrow> ends (parse_constant p) (const_ends p)"
  unfolding parse_constant_def by (rule constant_fuel_ends) simp

lemma parse_option_stmt_ends: "calm p \<Longrightarrow> ends (parse_option_stmt p) (\<lambda>_ q. eats p q)"
  unfolding parse_option_stmt_def
  by (auto simp: ends_try_act Let_def intro!: ends_mono [OF parse_option_name_ends]
      ends_mono [OF parse_constant_ends] plain_expected
      simp: positions calm_def split: option.split if_splits)

lemma type_segments_ends: "ends (type_segments name p) (\<lambda>_ q. follows p q)"
  unfolding type_segments_def
  by (rule ends_try_tokens)
    (auto split: prod.split option.split dest: segment_eats eats_follows peek_kind_less)

lemma parse_type_ref_ends: "ends (parse_type_ref p) (\<lambda>_ q. eats p q)"
  unfolding parse_type_ref_def try_opt_def Let_def
  by (auto simp: ends_try_act positions dest!: eats_expect_ident intro!: ends_mono [OF type_segments_ends]
      split: option.split prod.split if_splits)


section \<open>Fields, enums, services\<close>

lemma ends_expect_ident:
  assumes "\<And>q. eats p q \<Longrightarrow> Q None q" "\<And>i q. eats p q \<Longrightarrow> ends (f i q) Q"
  shows "ends (try_opt (expect_ident p) f) Q"
  using assms eats_expect_ident [of p] by (auto simp: try_opt_def split: prod.split option.split)

lemma ends_take_int:
  assumes "\<And>q. follows p q \<Longrightarrow> Q None q" "\<And>n q. follows p q \<Longrightarrow> ends (f n q) Q"
  shows "ends (try_opt (take_int msg p) f) Q"
  using assms follows_take_int [of msg p] by (auto simp: try_opt_def split: prod.split option.split)

lemma steps_back:
  "follows (expected k p) q \<Longrightarrow> follows p q" "eats (expected k p) q \<Longrightarrow> follows p q"
  "follows (advanced p) q \<Longrightarrow> eats p q" "eats (advanced p) q \<Longrightarrow> eats p q"
  "follows (skip_comma p) q \<Longrightarrow> follows p q"
  by (blast intro: follows_trans follows_expected eats_follows eats_trans eats_advanced follows_advanced
      follows_skip_comma)+

lemma steps_on:
  "follows p q \<Longrightarrow> follows p (expected k q)" "eats p q \<Longrightarrow> eats p (expected k q)"
  "follows p q \<Longrightarrow> follows p (advanced q)" "eats p q \<Longrightarrow> eats p (advanced q)"
  "follows p q \<Longrightarrow> follows p (skip_comma q)" "eats p q \<Longrightarrow> eats p (skip_comma q)"
  "follows p q \<Longrightarrow> follows p (ps_error c m sp q)" "eats p q \<Longrightarrow> eats p (ps_error c m sp q)"
  by (blast intro: follows_trans eats_trans follows_expected follows_advanced follows_skip_comma follows_error)+

lemmas chains = follows_trans eats_trans follows_eats eats_follows

lemma parse_field_option_ends: "calm p \<Longrightarrow> ends (parse_field_option x p) (\<lambda>_ q. eats p q)"
  unfolding parse_field_option_def Let_def
  by (auto intro!: ends_mono [OF parse_option_name_ends] ends_mono [OF parse_constant_ends]
      plain_expected steps_on simp: calm_eats dest!: steps_back intro: chains
      split: option.split token_kind.split)

lemma parse_field_options_ends: "calm p \<Longrightarrow> ends (parse_field_options p) (\<lambda>_ q. follows p q)"
  unfolding parse_field_options_def field_options_step_def
  by (auto intro!: ends_while_follows ends_mono [OF parse_field_option_ends] steps_on
      dest!: steps_back split: option.split)
    (auto simp: positions calm_def before_def)

lemma parse_field_ends: "calm p \<Longrightarrow> ends (parse_field p) (\<lambda>_ q. eats p q)"
  unfolding parse_field_def Let_def
  by (auto simp: ends_try_act intro!: ends_mono [OF parse_type_ref_ends] ends_expect_ident ends_take_int
      ends_mono [OF parse_field_options_ends] steps_on
      dest!: steps_back follows_parse_label split: option.split prod.split)
    (auto simp: positions calm_def)

lemma oneof_step_ends: "calm p \<Longrightarrow> ends (oneof_step sp fs p) (\<lambda>_ q. eats p q)"
  unfolding oneof_step_def Let_def
  by (auto simp: ends_try_act intro!: ends_mono [OF parse_type_ref_ends] ends_expect_ident ends_take_int
      ends_mono [OF parse_field_options_ends] steps_on
      dest!: steps_back follows_parse_label split: option.split prod.split)
    (auto simp: positions calm_def)


lemma parse_oneof_ends: "calm p \<Longrightarrow> ends (parse_oneof p) (\<lambda>_ q. eats p q)"
  unfolding parse_oneof_def Let_def
  by (auto simp: ends_try_act intro!: ends_expect_ident ends_mono [OF parse_option_stmt_ends]
      ends_try_tokens ends_mono [OF oneof_step_ends] steps_on
      dest!: steps_back split: option.split)
    (auto simp: positions calm_def before_def)

lemma parse_map_ends: "calm p \<Longrightarrow> ends (parse_map p) (\<lambda>_ q. eats p q)"
  unfolding parse_map_def Let_def
  by (auto simp: ends_try_act intro!: ends_mono [OF parse_type_ref_ends] ends_expect_ident ends_take_int
      ends_mono [OF parse_field_options_ends] steps_on
      dest!: steps_back split: option.split)
    (auto simp: positions calm_def)

lemma follows_range_end: "range_end p = (x, q) \<Longrightarrow> follows p q"
  by (auto simp: range_end_def Let_def positions split: if_splits option.splits token_kind.splits)

lemma parse_ranges_ends: "ends (parse_ranges p) (\<lambda>_ q. follows p q)"
  unfolding parse_ranges_def ranges_step_def Let_def
  by (rule ends_while_follows)
    (auto split: prod.split option.split dest!: follows_take_int follows_range_end take_int_Some steps_back
      intro!: steps_on simp: positions peek_kind_Some)

lemma parse_reserved_ends: "ends (parse_reserved sp s p) (\<lambda>_ q. eats p q)"
  unfolding parse_reserved_def reserved_names_step_def Let_def
  by (auto intro!: ends_while_follows ends_mono [OF parse_ranges_ends] dest!: steps_back
      split: option.split token_kind.split)
    (auto simp: positions peek_kind_Some)

lemma parse_extensions_ends: "ends (parse_extensions p) (\<lambda>_ q. eats p q)"
  unfolding parse_extensions_def
  by (auto intro!: ends_mono [OF parse_ranges_ends] steps_on dest!: steps_back)

lemma parse_enum_value_ends: "calm p \<Longrightarrow> ends (parse_enum_value sp p) (\<lambda>_ q. eats p q)"
  unfolding parse_enum_value_def
  by (auto intro!: ends_expect_ident ends_take_int ends_mono [OF parse_field_options_ends] steps_on
      dest!: steps_back)
    (auto simp: positions calm_def)

lemma enum_step_ends: "calm p \<Longrightarrow> ends (enum_step sp en p) (\<lambda>_ q. eats p q)"
  unfolding enum_step_def
  by (auto intro!: ends_mono [OF parse_option_stmt_ends] ends_mono [OF parse_reserved_ends]
      ends_mono [OF parse_enum_value_ends] split: option.split)

lemma parse_enum_ends: "calm p \<Longrightarrow> ends (parse_enum p) (\<lambda>_ q. eats p q)"
  unfolding parse_enum_def Let_def
  by (auto simp: ends_try_act intro!: ends_expect_ident ends_try_tokens ends_mono [OF enum_step_ends] steps_on
      dest!: steps_back split: option.split)
    (auto simp: positions calm_def before_def)

lemma parse_method_ends: "calm p \<Longrightarrow> ends (parse_method p) (\<lambda>_ q. eats p q)"
  unfolding parse_method_def method_options_step_def Let_def
  by (auto simp: ends_try_act intro!: ends_expect_ident ends_mono [OF parse_type_ref_ends] ends_while_follows
      ends_mono [OF parse_option_stmt_ends] steps_on
      dest!: steps_back follows_skip_stream split: option.split prod.split)
    (auto simp: positions calm_def before_def)

lemma ends_recover_eats: "eats p q \<Longrightarrow> ends (bind_result (recover q) (\<lambda>r. Inr (x, r))) (\<lambda>_ r. eats p r)"
  by (rule ends_recover) (rule eats_trans)

lemma ends_recover_flow:
  "eats p q \<Longrightarrow> ends (bind_result (recover q) (\<lambda>r. Inr (Continue x, r))) (\<lambda>f r. goes_on f \<and> eats p r)"
  using ends_recover_eats [of p q "Continue x"] by (auto simp: ends_ex bind_result_eq_Inr)

lemma service_step_ends: "calm p \<Longrightarrow> ends (service_step sv p) (\<lambda>_ q. eats p q)"
  unfolding service_step_def
  by (auto simp del: ends_bind simp: ends_bind [of "parse_option_stmt p"] ends_bind [of "parse_method p"]
      intro!: ends_mono [OF parse_option_stmt_ends] ends_mono [OF parse_method_ends] ends_recover_eats
      split: option.split)

lemma parse_service_ends: "calm p \<Longrightarrow> ends (parse_service p) (\<lambda>_ q. eats p q)"
  unfolding parse_service_def Let_def
  by (auto intro!: ends_expect_ident ends_while_follows ends_mono [OF service_step_ends] steps_on
      dest!: steps_back)
    (auto simp: positions calm_def before_def)

lemma extend_step_ends: "calm p \<Longrightarrow> ends (extend_step ex p) (\<lambda>_ q. eats p q)"
  unfolding extend_step_def
  by (auto simp del: ends_bind simp: ends_bind [of "parse_option_stmt p"] ends_bind [of "parse_field p"]
      intro!: ends_mono [OF parse_option_stmt_ends] ends_mono [OF parse_field_ends] ends_recover_eats
      split: option.split)

lemma parse_extend_ends: "calm p \<Longrightarrow> ends (parse_extend p) (\<lambda>_ q. eats p q)"
  unfolding parse_extend_def Let_def
  by (auto intro!: ends_expect_ident ends_while_follows ends_mono [OF extend_step_ends] steps_on
      dest!: steps_back)
    (auto simp: positions calm_def before_def)


section \<open>Messages and files\<close>

lemma add_or_recover_ends: "eats p q \<Longrightarrow> ends (add_or_recover f m (x, q)) (\<lambda>_ r. eats p r)"
  by (auto simp: add_or_recover_def simp del: ends_bind intro: ends_recover_eats split: option.split)

lemma file_or_recover_ends: "eats p q \<Longrightarrow> ends (file_or_recover f m (x, q)) (\<lambda>f r. goes_on f \<and> eats p r)"
  by (auto simp: file_or_recover_def simp del: ends_bind intro!: ends_mono [OF ends_recover_flow] split: option.split)

lemma skip_balanced_block_ends: "ends (bind_result (skip_balanced_block p) (\<lambda>q. Inr (x, q))) (\<lambda>_ q. follows p q)"
  unfolding skip_balanced_block_def balanced_step_def bind_result_assoc
  by (simp, rule ends_while_follows)
    (auto split: option.split token_kind.split dest: peek_kind_less)

lemma message_step_ends:
  assumes rec: "\<And>g. ends (rec g p) (\<lambda>_ q. eats p q)" and p: "calm p"
  shows "ends (message_step rec m p) (\<lambda>_ q. eats p q)"
  using p unfolding message_step_def
  by (cases m)
    (auto simp: Let_def intro!: ends_mono [OF rec] ends_mono [OF parse_option_stmt_ends] ends_mono [OF parse_enum_ends]
      ends_mono [OF parse_oneof_ends] ends_mono [OF parse_map_ends] ends_mono [OF parse_reserved_ends]
      ends_mono [OF parse_extensions_ends] ends_mono [OF parse_extend_ends] ends_mono [OF parse_field_ends]
      add_or_recover_ends split: option.split prod.split)

lemma parse_message_body_ends:
  assumes rec: "\<And>g q. follows p q \<Longrightarrow> ends (rec g q) (\<lambda>_ r. eats q r)" and p: "calm p"
  shows "ends (parse_message_body rec m p) (\<lambda>_ q. follows p q)"
  unfolding parse_message_body_def
  by (auto intro!: ends_while_follows ends_mono [OF message_step_ends] rec steps_on intro: calm_follows [OF p]
      before_peek eats_follows)

lemma follows_group_number: "group_number g p = (n, q) \<Longrightarrow> follows p q"
  by (auto simp: group_number_def split: if_splits option.splits prod.splits
      dest!: follows_take_int steps_back)

lemma parse_message_inner_ends:
  assumes rec: "\<And>g q. ps_depth q = ps_depth p \<Longrightarrow> calm q \<Longrightarrow> ends (rec g q) (\<lambda>_ r. eats q r)" and p: "calm p"
  shows "ends (parse_message_inner rec g p) (\<lambda>_ q. eats p q)"
  unfolding parse_message_inner_def Let_def
  by (auto intro!: ends_expect_ident ends_mono [OF parse_message_body_ends] rec
      dest!: steps_back follows_group_number split: prod.split)
    (use p in \<open>auto simp: positions calm_def\<close>)

lemma message_fuel_ends:
  "MAX_PROTO_NESTING - ps_depth p < n \<Longrightarrow> calm p \<Longrightarrow> ends (message_fuel n g p) (\<lambda>_ q. eats p q)"
proof (induction n arbitrary: g p)
  case (Suc n)
  show ?case
  proof (cases "MAX_PROTO_NESTING \<le> ps_depth p")
    case True
    let ?q = "advanced (ps_error Other_error (Literal too_deep_message) (peek_span p) p)"
    have "eats p ?q" by (simp add: positions)
    with True show ?thesis
      by (auto simp: Let_def intro!: ends_mono [OF skip_balanced_block_ends [simplified]] intro: eats_trans)
  next
    case False
    let ?q = "p\<lparr>ps_depth := ps_depth p + 1\<rparr>"
    have "ends (parse_message_inner (message_fuel n) g ?q) (\<lambda>_ r. eats ?q r)"
      using Suc False by (intro parse_message_inner_ends Suc.IH) (auto simp: calm_def)
    with False show ?thesis by (auto simp: positions elim!: ends_mono)
  qed
qed simp

lemma parse_message_ends: "calm p \<Longrightarrow> ends (parse_message g p) (\<lambda>_ q. eats p q)"
  unfolding parse_message_def by (rule message_fuel_ends) auto

lemma package_segments_ends: "ends (package_segments i p) (\<lambda>_ q. follows p q)"
  unfolding package_segments_def
  by (rule ends_while_follows)
    (auto split: prod.split option.split dest: segment_eats eats_follows peek_kind_less)

lemma eats_parse_syntax: "parse_syntax p = (x, q) \<Longrightarrow> eats p q"
  by (auto simp: parse_syntax_def Let_def positions split: option.splits token_kind.splits if_splits)

lemma eats_parse_import: "parse_import p = (x, q) \<Longrightarrow> eats p q"
  by (auto simp: parse_import_def Let_def positions split: option.splits token_kind.splits if_splits)

lemma eats_parse_edition: "parse_edition p = (x, q) \<Longrightarrow> eats p q"
  by (auto simp: parse_edition_def Let_def positions split: option.splits token_kind.splits if_splits)

lemma file_step_ends: "calm p \<Longrightarrow> ends (file_step f p) (\<lambda>f q. goes_on f \<and> eats p q)"
  unfolding file_step_def
  by (cases f)
    (auto simp: Let_def intro!: ends_mono [OF parse_option_stmt_ends] ends_mono [OF parse_enum_ends]
      ends_mono [OF parse_message_ends] ends_mono [OF parse_service_ends] ends_mono [OF parse_extend_ends]
      ends_mono [OF package_segments_ends] file_or_recover_ends steps_on
      dest!: eats_parse_syntax eats_parse_import eats_parse_edition segment_eats
      intro: eats_trans split: option.split prod.split)

lemma parse_tokens_ends: "calm p \<Longrightarrow> ends (parse_tokens p) (\<lambda>_ q. follows p q \<and> peek_kind q = None)"
  unfolding parse_tokens_def
  by (rule ends_while [where I = "\<lambda>_ q. follows p q"])
    (auto intro!: ends_mono [OF file_step_ends] eats_left split: flow.split intro: calm_follows chains)


section \<open>The parser returns\<close>

lemma parse_tokens_returns:
  assumes "only_option_brackets (map tk_kind toks)"
  shows "\<exists>f q. parse_tokens (Parser_new name toks) = Inr (f, q) \<and> peek_kind q = None"
  using parse_tokens_ends [of "Parser_new name toks"] assms by (auto simp: ends_ex calm_def Parser_new_def)

text \<open>
  C31: The parser returns on every source text in which each opening bracket token stands directly behind the two tokens
  \<open>=\<close> and a number, the place of the options of a field or enum value (so there are no list constants, and no brackets elsewhere):
  neither the lexer nor the parser panics and no loop runs for ever. The tokens are otherwise
  arbitrary and in any order: unbalanced braces, missing names and messages nested beyond the limit are included. The theorem is
  about loops and panics, not about the call stack: \<open>parse_constant\<close> recurses once per nested aggregate without a guard
  (lemma \<open>aggregate_needs_depth\<close> in \<open>Parser_Roundtrip\<close>).
\<close>

theorem parse_file_total:
  assumes "str_ok src"
    and "\<And>toks cms. lex_with_comments src = Inr (toks, cms) \<Longrightarrow> only_option_brackets (map tk_kind toks)"
  shows "\<exists>r. parse_file name src = Inr r"
proof (cases "lex_with_comments src")
  case (Inl e)
  with lex_with_comments_ok [OF assms(1)] show ?thesis
    by (cases e) (auto simp: parse_file_def)
next
  case (Inr r)
  with assms(2) parse_tokens_returns [of "fst r" name] show ?thesis
    by (cases r) (auto simp: parse_file_def)
qed

lemma lex_bracket_example: "map_sum id (map tk_kind) (lex ''=1['') = Inr [Equals, TkInt 1, LBracket]"
  by code_simp

theorem parse_file_total_witness: "\<exists>r. parse_file ''f'' ''=1['' = Inr r"
proof (rule parse_file_total)
  show "str_ok ''=1[''" by (rule str_ascii_ok) (simp add: str_ascii_def)
  fix toks cms
  assume "lex_with_comments ''=1['' = Inr (toks, cms)"
  then have "map tk_kind toks = [Equals, TkInt 1, LBracket]"
    using lex_bracket_example by (simp add: lex_def)
  then show "only_option_brackets (map tk_kind toks)"
    by (simp add: only_option_brackets_def less_Suc_eq numeral_2_eq_2)
qed

section \<open>The loop that does not end\<close>

definition no_constant :: "token_kind \<Rightarrow> bool" where
  "no_constant k \<longleftrightarrow> k \<in> {LParen, RParen, RBrace, Lt, Gt, Semicolon, Dot, Equals, Colon}"

lemma list_step_stuck:
  assumes "peek_kind p = Some k" "no_constant k"
  shows "\<exists>q. list_step (constant_fuel (Suc n)) items p = Inr (Continue items, q) \<and> peek_kind q = Some k
    \<and> ps_pos q = ps_pos p \<and> length (ps_diags q) = Suc (length (ps_diags p))"
proof -
  obtain t where t: "ps_peek p = Some t" "tk_kind t = k" using assms(1) by (auto simp: peek_kind_def)
  let ?q = "ps_error InvalidOption (Literal ''expected a constant value'') (Some (tk_span t)) p"
  have "constant_fuel (Suc n) p = Inr (None, ?q)"
    using t assms(2) by (auto simp: no_constant_def)
  moreover have "skip_comma ?q = ?q" using assms by (auto simp: skip_comma_def no_constant_def)
  moreover have "length (ps_diags ?q) = Suc (length (ps_diags p))" by (simp add: ps_error_def diag_push_def)
  ultimately show ?thesis using assms(1) by (simp add: list_step_def del: constant_fuel.simps)
qed

lemma list_loop_stuck:
  "peek_kind p = Some k \<Longrightarrow> no_constant k
     \<Longrightarrow> token_loop m (before RBracket) (list_step (constant_fuel n)) items p = Inl Diverges"
proof (induction m arbitrary: p)
  case (Suc m)
  have b: "before RBracket p" using Suc.prems by (auto simp: before_def no_constant_def peek_kind_Some)
  show ?case
  proof (cases n)
    case 0
    with b show ?thesis by (simp add: list_step_def)
  next
    case (Suc n')
    obtain q where "list_step (constant_fuel n) items p = Inr (Continue items, q)" "peek_kind q = Some k"
      using list_step_stuck [OF Suc.prems] Suc by blast
    with b Suc.IH Suc.prems(2) show ?thesis by simp
  qed
qed simp

text \<open>
  C34: The list loop of \<open>parse_constant\<close> never ends when it meets a token that starts no constant
  and is neither the closing bracket nor a comma, as in \<open>option a = [;];\<close>: no number of rounds is
  enough, for the loop and for the parser, every round stays at the token and adds a diagnostic, so
  that the code runs until its memory is used up.
\<close>

theorem list_constant_diverges:
  assumes "peek_kind p = Some LBracket" and "peek_kind (advanced p) = Some k" and "no_constant k"
  shows "(\<forall>m n. token_loop m (before RBracket) (list_step (constant_fuel n)) [] (advanced p) = Inl Diverges)
    \<and> parse_constant p = Inl Diverges
    \<and> (\<forall>n items. \<exists>q. list_step (constant_fuel (Suc n)) items (advanced p) = Inr (Continue items, q)
         \<and> ps_pos q = ps_pos (advanced p) \<and> length (ps_diags q) = Suc (length (ps_diags (advanced p))))"
proof (intro conjI allI)
  obtain t where "ps_peek p = Some t" "tk_kind t = LBracket" using assms(1) by (auto simp: peek_kind_def)
  then show "parse_constant p = Inl Diverges"
    by (simp add: parse_constant_def while_tokens_def list_loop_stuck [OF assms(2,3)])
qed (use list_loop_stuck [OF assms(2,3)] list_step_stuck [OF assms(2,3)] in blast)+

theorem list_constant_diverges_witness:
  "parse_constant (Parser_new ''f'' [\<lparr>tk_kind = LBracket, tk_span = Span_default\<rparr>, \<lparr>tk_kind = Semicolon, tk_span = Span_default\<rparr>])
     = Inl Diverges"
  using list_constant_diverges [of "Parser_new ''f'' [\<lparr>tk_kind = LBracket, tk_span = Span_default\<rparr>,
      \<lparr>tk_kind = Semicolon, tk_span = Span_default\<rparr>]" Semicolon]
  by (simp add: peek_kind_Some Parser_new_def no_constant_def)

text \<open>A source text on which the whole parser does not return.\<close>

lemma parse_file_diverges: "parse_file ''f'' ''option a=[;];'' = Inl Diverges"
  by code_simp

end
