(* ===== verification/Fmt.thy ===== *)
theory Fmt
  imports Lexer
begin

text \<open>
  The formatter of \<open>.proto\<close> sources (\<open>crates/tpt-proto-fmt/src/lib.rs\<close>): the tokens and comments of
  a source, merged by offset, are printed again with a layout of their own; the tokens from their
  slices of the source.
\<close>

section \<open>Events\<close>

datatype ev = Ev_tok token | Ev_cmt comment

fun ev_span :: "ev \<Rightarrow> span" where
  "ev_span (Ev_tok t) = tk_span t"
| "ev_span (Ev_cmt c) = cm_span c"

definition start_offset :: "ev \<Rightarrow> nat" where
  "start_offset e = p_offset (sp_start (ev_span e))"

definition start_line :: "ev \<Rightarrow> nat" where
  "start_line e = p_line (sp_start (ev_span e))"

definition end_line :: "ev \<Rightarrow> nat" where
  "end_line e = p_line (sp_end (ev_span e))"

fun ev_kind :: "ev \<Rightarrow> token_kind option" where
  "ev_kind (Ev_tok t) = Some (tk_kind t)"
| "ev_kind (Ev_cmt c) = None"

definition merge_events :: "token list \<Rightarrow> comment list \<Rightarrow> ev list" where
  "merge_events toks cms = sort_key start_offset (map Ev_tok toks @ map Ev_cmt cms)"

section \<open>Printing\<close>

record printer =
  pr_out :: string
  pr_indent :: nat
  pr_bol :: bool
  pr_brace :: bool
  pr_prev :: "ev option"

definition pop_blanks :: "string \<Rightarrow> string" where
  "pop_blanks out = rev (dropWhile (\<lambda>c. c = CHR '' '' \<or> c = CHR 0x09) (rev out))"

definition put :: "string \<Rightarrow> printer \<Rightarrow> printer" where
  "put s p = p\<lparr>pr_out := pr_out p @ s\<rparr>"

definition put_newline :: "printer \<Rightarrow> printer" where
  "put_newline p = p\<lparr>pr_out := pop_blanks (pr_out p) @ [newline], pr_bol := True\<rparr>"

definition indent_if_bol :: "printer \<Rightarrow> printer" where
  "indent_if_bol p = (if pr_bol p then put (replicate (2 * pr_indent p) (CHR '' '')) p else p)"

definition ensure_indent :: "printer \<Rightarrow> printer" where
  "ensure_indent p = (indent_if_bol p)\<lparr>pr_bol := False\<rparr>"

definition has_gap :: "printer \<Rightarrow> ev \<Rightarrow> bool" where
  "has_gap p e \<longleftrightarrow> (case pr_prev p of None \<Rightarrow> False | Some q \<Rightarrow> end_line q + 1 < start_line e)"

definition open_brace :: "printer \<Rightarrow> printer" where
  "open_brace p = (if pr_brace p then p\<lparr>pr_indent := pr_indent p + 1, pr_brace := False\<rparr> else p)"

section \<open>Comments\<close>

text \<open>\<open>str::lines\<close>: without line ends, \<open>\\n\<close> or \<open>\\r\\n\<close>, and without an empty last line.\<close>

fun split_lines :: "string \<Rightarrow> string \<Rightarrow> string list" where
  "split_lines cur [] = (if cur = [] then [] else [cur])"
| "split_lines cur (c # cs) = (if c = newline then cur # split_lines [] cs else split_lines (cur @ [c]) cs)"

definition strip_cr :: "string \<Rightarrow> string" where
  "strip_cr l = (if l \<noteq> [] \<and> last l = CHR 0x0D then butlast l else l)"

text \<open>The text behind the last line end loses no carriage return.\<close>

definition str_lines :: "string \<Rightarrow> string list" where
  "str_lines s =
     (let ls = split_lines [] s
      in if s \<noteq> [] \<and> last s \<noteq> newline then map strip_cr (butlast ls) @ [last ls] else map strip_cr ls)"

definition put_comment_line :: "string \<Rightarrow> printer \<Rightarrow> printer" where
  "put_comment_line line p =
     put (trim_end line) (ensure_indent (if \<not> pr_bol p then put_newline p else p))"

definition format_comment :: "comment \<Rightarrow> printer \<Rightarrow> printer" where
  "format_comment c p =
     (let e = Ev_cmt c;
          gap = has_gap p e;
          trailing = (case pr_prev p of None \<Rightarrow> False | Some q \<Rightarrow> end_line q = start_line e);
          p' = (if trailing \<and> \<not> pr_bol p
                then put (str_trim (dropWhile (\<lambda>x. x = CHR ''/'') (cm_text c))) (put ''//'' (put '' '' p))
                else let p1 = (if \<not> pr_bol p \<or> pr_brace p then put_newline (open_brace p) else p);
                         p2 = ensure_indent (if gap then put [newline] p1 else p1)
                     in if starts_with (trim_start (cm_text c)) ''/*''
                        then put_newline (fold put_comment_line (str_lines (cm_text c)) p2)
                        else put_newline (put (str_trim (cm_text c)) p2))
      in p'\<lparr>pr_prev := Some e\<rparr>)"

section \<open>Tokens\<close>

definition is_tight_after :: "token_kind \<Rightarrow> bool" where
  "is_tight_after k \<longleftrightarrow> k \<in> {Comma, Semicolon, RParen, RBracket, Gt, Dot}"

definition is_tight_both :: "token_kind \<Rightarrow> bool" where
  "is_tight_both k \<longleftrightarrow> k \<in> {LParen, LBracket, Lt}"

text \<open>The \<open>match\<close> on the kinds of the event before and of the token.\<close>

definition need_space :: "token_kind option \<Rightarrow> token_kind \<Rightarrow> bool" where
  "need_space q k \<longleftrightarrow>
     (if is_tight_after k then False
      else if q = Some Dot \<or> (case q of Some k' \<Rightarrow> is_tight_both k' | None \<Rightarrow> False) \<or> is_tight_both k then False
      else True)"

definition format_token :: "string \<Rightarrow> token \<Rightarrow> printer \<Rightarrow> ('e, printer) res" where
  "format_token src t p =
     (let e = Ev_tok t; kind = tk_kind t; gap = has_gap p e
      in if kind = RBrace \<and> pr_brace p
         then Inr ((put_newline (put ''}'' (indent_if_bol (p\<lparr>pr_brace := False\<rparr>))))\<lparr>pr_prev := Some e\<rparr>)
         else let p2 =
             (if kind = RBrace
              then let p1 = (if \<not> pr_bol p then put_newline p else p);
                       p1 = (if gap then put [newline] p1 else p1)
                   in p1\<lparr>pr_indent := pr_indent p1 - 1\<rparr>
              else let p1 = (if pr_brace p then put_newline (open_brace p) else p)
                   in if gap \<and> pr_bol p1 then put [newline] p1
                      else if \<not> pr_bol p1 \<and> need_space (Option.bind (pr_prev p1) ev_kind) kind then put '' '' p1
                      else p1);
             p3 = ensure_indent p2
           in bind_result (str_slice src (p_offset (sp_start (tk_span t))) (min (p_offset (sp_end (tk_span t))) (length src)))
                (\<lambda>text.
                  let p4 = put text p3;
                      p5 = (if kind = LBrace then p4\<lparr>pr_brace := True\<rparr>
                            else if kind = Semicolon \<or> kind = RBrace then put_newline p4 else p4)
                  in Inr (p5\<lparr>pr_prev := Some e\<rparr>)))"

section \<open>Sources\<close>

fun format_events :: "string \<Rightarrow> ev list \<Rightarrow> printer \<Rightarrow> ('e, printer) res" where
  "format_events src [] p = Inr p"
| "format_events src (Ev_cmt c # es) p = format_events src es (format_comment c p)"
| "format_events src (Ev_tok t # es) p = bind_result (format_token src t p) (format_events src es)"

definition printer_start :: printer where
  "printer_start = \<lparr>pr_out = [], pr_indent = 0, pr_bol = True, pr_brace = False, pr_prev = None\<rparr>"

definition format_source :: "string \<Rightarrow> string lexed" where
  "format_source src =
     bind_result (lex_with_comments src) (\<lambda>(tokens, comments).
       bind_result (format_events src (merge_events tokens comments) printer_start) (\<lambda>p.
         Inr (let out = pr_out p
              in if ends_with out [newline] then out else pop_blanks out @ [newline])))"

definition check_source :: "string \<Rightarrow> bool lexed" where
  "check_source src = bind_result (format_source src) (\<lambda>out. Inr (out = src))"

end
