(* ===== verification/Fmt_Properties.thy ===== *)
theory Fmt_Properties
  imports Fmt Lexer_Properties
begin

text \<open>
  What the formatter does to the meaning of a source: without comments the printed text lexes to the
  tokens of the source, unless a number stands before a dot; a comment inside a line turns the rest of its line into a comment.
\<close>

section \<open>Texts that spell tokens\<close>

text \<open>Lexemes with the blanks in front of them, each allowed to follow the one before.\<close>

type_synonym item_text = "string \<times> string \<times> token_kind"

definition flat :: "item_text list \<Rightarrow> string" where
  "flat its = concat (map (\<lambda>(sep, t, k). sep @ t) its)"

fun spelled :: "token_kind option \<Rightarrow> item_text list \<Rightarrow> bool" where
  "spelled q [] \<longleftrightarrow> True"
| "spelled q ((sep, t, k) # its) \<longleftrightarrow> list_all is_blank sep \<and> lexeme t k
     \<and> (\<forall>q'. q = Some q' \<longrightarrow> (\<forall>r. may_follow q' (sep @ t @ r))) \<and> spelled (Some k) its"

definition last_kind :: "token_kind option \<Rightarrow> item_text list \<Rightarrow> token_kind option" where
  "last_kind q its = (if its = [] then q else Some (snd (snd (last its))))"

lemma flat_simps [simp]: "flat [] = []" "flat (its @ [(sep, t, k)]) = flat its @ sep @ t"
  by (simp_all add: flat_def)

lemma flat_ev_Cons: "flat ((sep, t, k) # its) = sep @ t @ flat its"
  by (simp add: flat_def)

lemma last_kind_simps [simp]: "last_kind q [] = q" "last_kind q (its @ [(sep, t, k)]) = Some k"
  by (simp_all add: last_kind_def)

lemma spelled_snoc:
  "spelled q (its @ [(sep, t, k)]) \<longleftrightarrow> spelled q its \<and> list_all is_blank sep \<and> lexeme t k
     \<and> (\<forall>q'. last_kind q its = Some q' \<longrightarrow> (\<forall>r. may_follow q' (sep @ t @ r)))"
  by (induction q its rule: spelled.induct) (auto simp: last_kind_def)

lemma blank_ends_word: "is_blank c \<Longrightarrow> ends_number (c # r)"
  by (auto simp: is_blank_def newline_def is_ident_char_def is_alpha_def is_digit_def digit_of_def is_cont_byte_def)

lemma may_follow_blank: "is_blank c \<Longrightarrow> may_follow k (c # r)"
  using blank_ends_word [of c r] by (auto simp: may_follow_def simp del: ends_word_simps split: token_kind.split)

lemma may_follow_Nil: "may_follow k []"
  by (simp add: may_follow_def split: token_kind.split)

lemma skip_blanks:
  assumes "unlexed lx = sep @ r" and "list_all is_blank sep" and "r = [] \<or> \<not> is_blank (hd r) \<and> hd r \<noteq> CHR ''/''"
  shows "\<exists>lx'. skip_trivia lx = Inr lx' \<and> consumed lx sep lx'"
  using assms
proof (induction sep arbitrary: lx)
  case Nil
  have "skip_trivia lx = Inr lx"
  proof (cases r)
    case Nil
    then show ?thesis using Nil.prems(1) by (simp add: skip_trivia_end)
  next
    case (Cons c r')
    with Nil.prems show ?thesis by (intro skip_trivia_stop [of lx c]) (simp_all add: lx_peek_eq)
  qed
  with consumed_refl show ?case by blast
next
  case (Cons c sep)
  then have p: "lx_peek lx = Some c" by (simp add: lx_peek_eq)
  from Cons.IH [of "bumped lx"] Cons.prems obtain lx' where "skip_trivia (bumped lx) = Inr lx'" "consumed (bumped lx) sep lx'"
    by (auto simp: unlexed_bumped)
  with p Cons.prems show ?case by (auto simp: skip_trivia.simps [of lx] intro: consumed_Cons)
qed

text \<open>The lexer reads a spelled text back.\<close>

lemma lex_spelled:
  assumes "spelled q its" and "list_all is_blank tail" and "unlexed lx = flat its @ tail"
  shows "\<exists>toks lx'. lex_loop out lx = Inr (out @ toks, lx') \<and> map tk_kind toks = map (snd \<circ> snd) its
     \<and> lx_comments lx' = lx_comments lx"
  using assms
proof (induction its arbitrary: q lx out)
  case Nil
  then obtain lx' where "skip_trivia lx = Inr lx'" "consumed lx tail lx'"
    using skip_blanks [of lx tail "[]"] by auto
  with Nil show ?case
    by (intro exI [of _ "[]"]) (auto simp: lex_loop.simps [of out lx] next_token_def consumed_def lx_peek_eq)
next
  case (Cons it its)
  obtain sep t k where it: "it = (sep, t, k)" by (cases it)
  have b: "list_all is_blank sep" and l: "lexeme t k" and sp: "spelled (Some k) its"
    using Cons.prems(1) by (auto simp: it)
  have ne: "t \<noteq> []" using l by (simp add: lexeme_def)
  have u: "unlexed lx = sep @ t @ flat its @ tail" using Cons.prems(3) by (simp add: it flat_ev_Cons)
  from lexeme_ends [OF l] ne obtain lx1 where lx1: "skip_trivia lx = Inr lx1" "consumed lx sep lx1"
    using skip_blanks [OF u b] by (auto simp: solid_def)
  have u1: "unlexed lx1 = t @ flat its @ tail" using lx1(2) u by (simp add: consumed_def)
  have mf: "may_follow k (flat its @ tail)"
  proof (cases its)
    case Nil
    then show ?thesis using Cons.prems(2) may_follow_blank may_follow_Nil by (cases tail) auto
  next
    case (Cons it' its')
    then show ?thesis using sp by (cases it') (auto simp: flat_ev_Cons)
  qed
  obtain lx2 where lx2: "lex_kind (hd t) lx1 = Inr (k, lx2)" "consumed lx1 t lx2"
    using lexeme_anywhere [OF l u1 mf] by blast
  have u2: "unlexed lx2 = flat its @ tail" using lx2(2) u1 by (simp add: consumed_def)
  have p: "lx_peek lx1 = Some (hd t)" using u1 ne by (cases t) (simp_all add: lx_peek_eq)
  let ?tok = "\<lparr>tk_kind = k, tk_span = lx_span lx2 (pos_of lx1 (lx_pos lx1)) (lx_pos lx2)\<rparr>"
  have n: "next_token lx = Inr (Some ?tok, lx2)" using lx1(1) p lx2(1) by (simp add: next_token_def)
  from Cons.IH [OF sp Cons.prems(2) u2, of "out @ [?tok]"] obtain toks lx' where
    "lex_loop (out @ [?tok]) lx2 = Inr (out @ ?tok # toks, lx')" "map tk_kind toks = map (snd \<circ> snd) its"
    "lx_comments lx' = lx_comments lx2" by auto
  with n lx1(2) lx2(2) show ?case
    by (intro exI [of _ "?tok # toks"]) (auto simp: lex_loop.simps [of out lx] it consumed_def)
qed

section \<open>The tokens of a source without comments\<close>

text \<open>A token that can be cut from the source as a lexeme.\<close>

definition cuts :: "string \<Rightarrow> token \<Rightarrow> string \<Rightarrow> bool" where
  "cuts src t s \<longleftrightarrow> lexeme s (tk_kind t)
     \<and> str_slice src (p_offset (sp_start (tk_span t))) (min (p_offset (sp_end (tk_span t))) (length src)) = (Inr s :: string lexed)"

lemma offset_span_in [simp]: "p_offset (sp_start (span_in src i j)) = i" "p_offset (sp_end (span_in src i j)) = j"
  by (simp_all add: span_in_def pos_in_def pos_of_def split: prod.split)

lemma slice_lexeme:
  assumes "lexeme s k" and "take (j - i) (drop i src) = s" and "i < j" and "j \<le> length src" and "str_ok src"
  shows "str_slice src i j = (Inr s :: string lexed)"
proof -
  have ne: "s \<noteq> []" using assms(1) by (simp add: lexeme_def)
  have len: "length s = j - i" using assms(2-4) by auto
  have nth: "src ! (i + m) = s ! m" if "m < j - i" for m
    using that assms(2-4) by auto
  have "is_char_boundary src i"
    using lexeme_ends [OF assms(1)] nth [of 0] assms(3,4) ne by (intro boundary_ascii) (auto simp: hd_conv_nth solid_def)
  moreover have "is_char_boundary src (Suc (j - 1))"
    using lexeme_ends [OF assms(1)] nth [of "j - i - 1"] assms(3,4) ne len
    by (intro boundary_after_ascii [OF assms(5)]) (auto simp: last_conv_nth solid_def)
  ultimately show ?thesis
    using assms(2,3) by (simp add: str_slice_def)
qed

lemma layout_tokens:
  "layout src i ps \<Longrightarrow> comments_of ps = [] \<Longrightarrow> str_ok src \<Longrightarrow>
   (\<forall>t \<in> set (tokens_of ps). i \<le> start_offset (Ev_tok t) \<and> (\<exists>s. cuts src t s))
   \<and> sorted (map (start_offset \<circ> Ev_tok) (tokens_of ps))"
proof (induction src i ps rule: layout.induct)
  case (4 src i t ps)
  then obtain j s where j: "j \<le> length src" "take (j - i) (drop i src) = s" "i < j" "lexeme s (tk_kind t)"
    "tk_span t = span_in src i j" "layout src j ps" by auto
  have "cuts src t s"
    using j slice_lexeme [OF j(4,2,3,1) "4.prems"(3)] by (simp add: cuts_def min_absorb1)
  moreover have "start_offset (Ev_tok t) = i" by (simp add: start_offset_def j(5))
  moreover have "(\<forall>t \<in> set (tokens_of ps). j \<le> start_offset (Ev_tok t) \<and> (\<exists>s. cuts src t s))
     \<and> sorted (map (start_offset \<circ> Ev_tok) (tokens_of ps))"
    using "4.IH" j(6) "4.prems" by (simp add: comp_def)
  ultimately show ?case using j(3) by (auto simp: comp_def intro: less_imp_le less_le_trans)
next
  case (2 src i c ps)
  then show ?case by (auto dest: Suc_leD)
qed simp_all

lemma sort_key_sorted: "sorted (map f xs) \<Longrightarrow> sort_key f xs = xs"
proof (induction xs)
  case (Cons x xs)
  then show ?case by (cases xs) simp_all
qed simp

section \<open>The printer\<close>

definition printed :: "printer \<Rightarrow> item_text list \<Rightarrow> string \<Rightarrow> bool" where
  "printed p its tail \<longleftrightarrow> pr_out p = flat its @ tail \<and> list_all is_blank tail \<and> spelled None its"

text \<open>At the beginning of a line something blank was printed, unless nothing was.\<close>

definition printer_inv :: "printer \<Rightarrow> item_text list \<Rightarrow> bool" where
  "printer_inv p its \<longleftrightarrow> (\<exists>tail. printed p its tail \<and> (pr_bol p \<longrightarrow> tail \<noteq> [] \<or> its = []))
     \<and> Option.bind (pr_prev p) ev_kind = last_kind None its
     \<and> (pr_brace p \<longrightarrow> last_kind None its = Some LBrace)"

lemma last_flat: "spelled q its \<Longrightarrow> its \<noteq> [] \<Longrightarrow> flat its \<noteq> [] \<and> solid (last (flat its))"
proof (induction its rule: rev_induct)
  case (snoc it its)
  obtain sep t k where "it = (sep, t, k)" by (cases it)
  moreover have "lexeme t k" using snoc.prems(1) by (simp add: calculation spelled_snoc)
  ultimately show ?case using lexeme_ends [of t k] by (simp add: lexeme_def)
qed simp

lemma pop_blanks_append:
  assumes "w = [] \<or> solid (last w)"
  shows "\<exists>n. pop_blanks (w @ tail) = w @ take n tail"
proof -
  let ?p = "\<lambda>c. c = CHR '' '' \<or> c = CHR 0x09"
  have w: "dropWhile ?p (rev w) = rev w"
    using assms by (cases w rule: rev_cases) (auto simp: solid_def is_blank_def)
  show ?thesis
  proof (cases "\<forall>c \<in> set tail. ?p c")
    case True
    then have "dropWhile ?p (rev tail @ rev w) = dropWhile ?p (rev w)" by (intro dropWhile_append2) auto
    with w show ?thesis by (intro exI [of _ 0]) (simp add: pop_blanks_def)
  next
    case False
    then obtain c where "c \<in> set (rev tail)" "\<not> ?p c" by auto
    then have "dropWhile ?p (rev tail @ rev w) = dropWhile ?p (rev tail) @ rev w" by (rule dropWhile_append1)
    moreover have "dropWhile ?p (rev tail) = drop (length (takeWhile ?p (rev tail))) (rev tail)" by (rule dropWhile_eq_drop)
    ultimately show ?thesis by (auto simp: pop_blanks_def rev_drop)
  qed
qed

lemma printed_put_blank: "printed p its tail \<Longrightarrow> list_all is_blank s \<Longrightarrow> printed (put s p) its (tail @ s)"
  by (simp add: printed_def put_def)

lemma printed_newline: "printed p its tail \<Longrightarrow> \<exists>tail'. printed (put_newline p) its (tail' @ [newline])"
proof -
  assume p: "printed p its tail"
  then have "flat its = [] \<or> solid (last (flat its))"
    using last_flat [of None its] by (cases its) (auto simp: printed_def)
  from pop_blanks_append [OF this, of tail] obtain n where "pop_blanks (flat its @ tail) = flat its @ take n tail" by blast
  with p show ?thesis
    by (intro exI [of _ "take n tail"])
      (auto simp: printed_def put_newline_def is_blank_def list_all_iff dest: in_set_takeD)
qed

lemma printed_update [simp]:
  "printed (p\<lparr>pr_indent := i\<rparr>) its tail = printed p its tail"
  "printed (p\<lparr>pr_bol := b\<rparr>) its tail = printed p its tail"
  "printed (p\<lparr>pr_brace := b\<rparr>) its tail = printed p its tail"
  "printed (p\<lparr>pr_prev := e\<rparr>) its tail = printed p its tail"
  by (simp_all add: printed_def)

lemma printed_open_brace [simp]: "printed (open_brace p) its tail = printed p its tail"
  by (simp add: open_brace_def)

lemma blank_space: "is_blank (CHR '' '')" "is_blank newline"
  by (simp_all add: is_blank_def)

lemma printed_indent:
  assumes "printed p its tail"
  shows "\<exists>n. printed (indent_if_bol p) its (tail @ replicate n (CHR '' ''))"
proof (cases "pr_bol p")
  case True
  have "list_all is_blank (replicate (2 * pr_indent p) (CHR '' ''))"
    by (simp add: list_all_iff blank_space)
  from printed_put_blank [OF assms this] True show ?thesis by (auto simp: indent_if_bol_def)
next
  case False
  with assms show ?thesis by (intro exI [of _ 0]) (simp add: indent_if_bol_def)
qed

lemma printed_ensure_indent:
  "printed p its tail \<Longrightarrow> \<exists>n. printed (ensure_indent p) its (tail @ replicate n (CHR '' ''))"
  using printed_indent [of p its tail] by (simp add: ensure_indent_def)

lemma printer_fields [simp]:
  "pr_bol (put s p) = pr_bol p" "pr_brace (put s p) = pr_brace p" "pr_prev (put s p) = pr_prev p"
  "pr_bol (put_newline p)" "pr_brace (put_newline p) = pr_brace p" "pr_prev (put_newline p) = pr_prev p"
  "\<not> pr_bol (ensure_indent p)" "pr_brace (ensure_indent p) = pr_brace p" "pr_prev (ensure_indent p) = pr_prev p"
  "pr_bol (open_brace p) = pr_bol p" "\<not> pr_brace (open_brace p)" "pr_prev (open_brace p) = pr_prev p"
  "pr_brace (indent_if_bol p) = pr_brace p" "pr_prev (indent_if_bol p) = pr_prev p"
  by (simp_all add: put_def put_newline_def ensure_indent_def indent_if_bol_def open_brace_def)

section \<open>One token\<close>

text \<open>The kinds of the single characters, and what they look like.\<close>

lemma simple_lexeme:
  assumes "lexeme t k" and "simple_token c = Some k" and "\<forall>x. k \<noteq> TkIdent x" and "\<forall>x. k \<noteq> TkInt x"
    and "\<forall>x. k \<noteq> TkFloat x" and "\<forall>x. k \<noteq> TkStr x"
  shows "t = [c]"
proof -
  obtain lx lx' where ne: "t \<noteq> []" and l: "lex_kind (hd t) lx = Inr (k, lx')" and c: "consumed lx t lx'"
    using assms(1) by (auto simp: lexeme_def)
  have p: "lx_peek lx = Some (hd t)" using ne c by (cases t) (auto simp: consumed_def lx_peek_eq)
  obtain k' where s: "simple_token (hd t) = Some k'"
  proof (cases "simple_token (hd t)")
    case None
    then show ?thesis
      using l assms(3-6) lex_number_kind [of lx k lx']
      by (auto simp: lex_kind_def bind_result_eq_Inr lex_fail_def split: if_splits)
  qed
  then have "k' = k" "lx' = bumped lx" using l by (simp_all add: lex_kind_def)
  then have "t = [hd t]" using consumed_unique [OF c] consumed_bump [OF p] by blast
  moreover have "hd t = c"
    using s assms(2) \<open>k' = k\<close> by (auto simp: simple_token_def split: if_splits)
  ultimately show ?thesis by simp
qed

lemma tight_char:
  assumes "is_tight_after k \<or> is_tight_both k"
  shows "\<exists>c. simple_token c = Some k \<and> (k \<noteq> Dot \<longrightarrow> ends_number (c # r)) \<and> ends_word (c # r)"
proof -
  have "ends_word (c # r) \<and> (c \<noteq> CHR ''.'' \<longrightarrow> ends_number (c # r))"
    if "c \<in> set '',;)]>.([<''" for c
    using that by (auto simp: is_ident_char_def is_alpha_def is_digit_def digit_of_def is_cont_byte_def)
  then have e: "(c \<noteq> CHR ''.'' \<longrightarrow> ends_number (c # r)) \<and> ends_word (c # r)" if "c \<in> set '',;)]>.([<''" for c
    using that by blast
  have "\<exists>c \<in> set '',;)]>.([<''. simple_token c = Some k \<and> (c = CHR ''.'' \<longrightarrow> k = Dot)"
    using assms unfolding is_tight_after_def is_tight_both_def
    by (elim disjE insertE emptyE) (simp_all add: simple_token_def)
  with e show ?thesis by blast
qed

lemma tight_lexeme:
  assumes "lexeme t k" and "is_tight_after k \<or> is_tight_both k"
  shows "\<exists>c. t = [c] \<and> (k \<noteq> Dot \<longrightarrow> ends_number (c # r)) \<and> ends_word (c # r)"
proof -
  obtain c where "simple_token c = Some k" "(k \<noteq> Dot \<longrightarrow> ends_number (c # r)) \<and> ends_word (c # r)"
    using tight_char [OF assms(2), of r] by blast
  moreover have "t = [c]"
    using assms(2) by (intro simple_lexeme [OF assms(1) calculation(1)]) (auto simp: is_tight_after_def is_tight_both_def)
  ultimately show ?thesis by blast
qed

definition is_number :: "token_kind \<Rightarrow> bool" where
  "is_number k \<longleftrightarrow> (case k of TkInt _ \<Rightarrow> True | TkFloat _ \<Rightarrow> True | _ \<Rightarrow> False)"

text \<open>Where no space is printed, none is needed, except between a number and a dot.\<close>

lemma no_space_needed:
  assumes "\<not> need_space (Some q) k" and "lexeme t k" and "\<not> (is_number q \<and> k = Dot)"
  shows "may_follow q (t @ r)"
proof (cases "q = Dot \<or> is_tight_both q")
  case True
  then show ?thesis by (auto simp: may_follow_def is_tight_both_def)
next
  case False
  then have "is_tight_after k \<or> is_tight_both k"
    using assms(1) by (auto simp: need_space_def split: if_splits)
  from tight_lexeme [OF assms(2) this, of r] assms(3) show ?thesis
    by (auto simp: may_follow_def is_number_def simp del: ends_word_simps ends_number_simps split: token_kind.split)
qed

lemma lexeme_simple: "simple_token c = Some k \<Longrightarrow> lexeme [c] k"
proof -
  assume s: "simple_token c = Some k"
  let ?lx = "Lexer_new [c]"
  have "lx_peek ?lx = Some c" by (simp add: lx_peek_eq unlexed_def Lexer_new_def)
  with s show ?thesis
    unfolding lexeme_def by (intro conjI exI [of _ ?lx] exI [of _ "bumped ?lx"]) (simp_all add: lex_kind_def consumed_bump)
qed

text \<open>The last step of a token: its text is printed behind blanks that let it stand there.\<close>

lemma printed_token:
  assumes "printed p its sep" and "lexeme t k"
    and "sep = [] \<longrightarrow> (\<forall>q r. last_kind None its = Some q \<longrightarrow> may_follow q (t @ r))"
  shows "printed (put t p) (its @ [(sep, t, k)]) []"
proof -
  have "may_follow q (sep @ t @ r)" if "last_kind None its = Some q" for q r
  proof (cases sep)
    case Nil
    then show ?thesis using assms(3) that by simp
  next
    case (Cons c cs)
    then show ?thesis using assms(1) by (simp add: printed_def may_follow_blank)
  qed
  then show ?thesis
    using assms(1,2) by (simp add: printed_def put_def spelled_snoc)
qed

lemma printer_inv_step:
  assumes "printed p its []" and "Option.bind (pr_prev p') ev_kind = last_kind None its"
    and "p' = p\<lparr>pr_prev := e\<rparr> \<or> p' = (put_newline p)\<lparr>pr_prev := e\<rparr>" and "\<not> pr_bol p"
    and "pr_brace p' \<longrightarrow> last_kind None its = Some LBrace"
  shows "printer_inv p' its"
  using assms(3)
proof
  assume "p' = p\<lparr>pr_prev := e\<rparr>"
  with assms show ?thesis by (auto simp: printer_inv_def intro!: exI [of _ "[]"])
next
  assume p': "p' = (put_newline p)\<lparr>pr_prev := e\<rparr>"
  obtain tail where "printed (put_newline p) its (tail @ [newline])" using printed_newline [OF assms(1)] by blast
  then have "printed p' its (tail @ [newline]) \<and> (pr_bol p' \<longrightarrow> tail @ [newline] \<noteq> [] \<or> its = [])" by (simp add: p')
  with assms(2,5) show ?thesis unfolding printer_inv_def by blast
qed

lemma format_token_inv:
  assumes inv: "printer_inv p its" and c: "cuts src t s"
    and dot: "\<forall>q. last_kind None its = Some q \<longrightarrow> \<not> (is_number q \<and> tk_kind t = Dot)"
  shows "\<exists>p' sep s. format_token src t p = (Inr p' :: printer lexed) \<and> printer_inv p' (its @ [(sep, s, tk_kind t)])"
proof -
  let ?k = "tk_kind t" let ?e = "Ev_tok t" let ?gap = "has_gap p ?e"
  have lex: "lexeme s ?k" and cut: "str_slice src (p_offset (sp_start (tk_span t))) (min (p_offset (sp_end (tk_span t))) (length src)) = (Inr s :: string lexed)"
    using c by (simp_all add: cuts_def)
  obtain tail where tail: "printed p its tail" "pr_bol p \<longrightarrow> tail \<noteq> [] \<or> its = []"
    using inv by (auto simp: printer_inv_def)
  have prev: "Option.bind (pr_prev p) ev_kind = last_kind None its" and brace: "pr_brace p \<longrightarrow> last_kind None its = Some LBrace"
    using inv by (simp_all add: printer_inv_def)
  show ?thesis
  proof (cases "?k = RBrace \<and> pr_brace p")
    case True
    obtain n where "printed (indent_if_bol (p\<lparr>pr_brace := False\<rparr>)) its (tail @ replicate n (CHR '' ''))"
      using printed_indent [of "p\<lparr>pr_brace := False\<rparr>" its tail] tail(1) by auto
    moreover have "lexeme ''}'' ?k" using True by (intro lexeme_simple) (simp add: simple_token_def)
    moreover have "last_kind None its = Some q \<longrightarrow> may_follow q r" for q r
      using brace True by (auto simp: may_follow_def)
    ultimately have "printed (put ''}'' (indent_if_bol (p\<lparr>pr_brace := False\<rparr>))) (its @ [(tail @ replicate n (CHR '' ''), ''}'', ?k)]) []"
      by (intro printed_token) auto
    then obtain tail' where "printed (put_newline (put ''}'' (indent_if_bol (p\<lparr>pr_brace := False\<rparr>))))
        (its @ [(tail @ replicate n (CHR '' ''), ''}'', ?k)]) (tail' @ [newline])"
      using printed_newline by blast
    then show ?thesis
      using True unfolding format_token_def printer_inv_def by (auto simp: Let_def)
  next
    case False
    define p2 where "p2 =
       (if ?k = RBrace
        then let p1 = (if \<not> pr_bol p then put_newline p else p);
                 p1 = (if ?gap then put [newline] p1 else p1)
             in p1\<lparr>pr_indent := pr_indent p1 - 1\<rparr>
        else let p1 = (if pr_brace p then put_newline (open_brace p) else p)
             in if ?gap \<and> pr_bol p1 then put [newline] p1
                else if \<not> pr_bol p1 \<and> need_space (Option.bind (pr_prev p1) ev_kind) ?k then put '' '' p1
                else p1)"
    have nl: "list_all is_blank [newline]" "list_all is_blank '' ''" by (simp_all add: blank_space)
    have line: "\<exists>sep. printed (if b then put [newline] p1 else p1) its sep \<and> (sep \<noteq> [] \<or> its = [])"
      if "printed p1 its s1" "s1 \<noteq> [] \<or> its = []" for p1 s1 b
      using that printed_put_blank [OF that(1) nl(1)] by (cases b) (auto intro: exI [of _ s1])
    have nline: "\<exists>s1. printed (put_newline p1) its s1 \<and> s1 \<noteq> []" if "printed p1 its s0" for p1 s0
      using printed_newline [OF that] by blast
    have "\<exists>sep. printed p2 its sep \<and> (sep \<noteq> [] \<or> its = [] \<or> \<not> need_space (last_kind None its) ?k)"
    proof (cases "?k = RBrace")
      case True
      let ?p1 = "if \<not> pr_bol p then put_newline p else p"
      have p2: "printed p2 its sep = printed (if ?gap then put [newline] ?p1 else ?p1) its sep" for sep
        unfolding p2_def Let_def if_P [OF True] by (simp only: printed_update)
      have "\<exists>s1. printed ?p1 its s1 \<and> (s1 \<noteq> [] \<or> its = [])"
        using tail nline [OF tail(1)] by auto
      then obtain s1 where "printed ?p1 its s1" "s1 \<noteq> [] \<or> its = []" by blast
      from line [OF this, of ?gap] show ?thesis unfolding p2 by blast
    next
      case k: False
      show ?thesis
      proof (cases "pr_brace p")
        case True
        obtain s1 where "printed (put_newline (open_brace p)) its s1" "s1 \<noteq> []"
          using nline [of "open_brace p" tail] tail(1) by auto
        moreover have "p2 = (if ?gap then put [newline] (put_newline (open_brace p)) else put_newline (open_brace p))"
          unfolding p2_def Let_def if_not_P [OF k] if_P [OF True] by simp
        ultimately show ?thesis using line [of "put_newline (open_brace p)" s1 ?gap] by auto
      next
        case br: False
        then have p2: "p2 = (if ?gap \<and> pr_bol p then put [newline] p
            else if \<not> pr_bol p \<and> need_space (last_kind None its) ?k then put '' '' p else p)"
          using k prev by (simp add: p2_def Let_def)
        show ?thesis
          unfolding p2 using tail printed_put_blank [OF tail(1) nl(1)] printed_put_blank [OF tail(1) nl(2)] by auto
      qed
    qed
    then obtain sep where sep: "printed p2 its sep" "sep \<noteq> [] \<or> its = [] \<or> \<not> need_space (last_kind None its) ?k" by blast
    obtain n where n: "printed (ensure_indent p2) its (sep @ replicate n (CHR '' ''))"
      using printed_ensure_indent [OF sep(1)] by blast
    have "may_follow q (s @ r)" if "sep = []" "last_kind None its = Some q" for q r
      using that sep(2) dot no_space_needed [OF _ lex, of q] by auto
    then have tok: "printed (put s (ensure_indent p2)) (its @ [(sep @ replicate n (CHR '' ''), s, ?k)]) []"
      by (intro printed_token [OF n lex]) auto
    have "pr_brace p2 \<longrightarrow> ?k = RBrace" "\<not> (?k = RBrace \<and> pr_brace p2)"
      using False by (auto simp: p2_def Let_def)
    then have br: "\<not> pr_brace p2" by blast
    let ?p4 = "put s (ensure_indent p2)"
    let ?p' = "(if ?k = LBrace then ?p4\<lparr>pr_brace := True\<rparr>
        else if ?k = Semicolon \<or> ?k = RBrace then put_newline ?p4 else ?p4)\<lparr>pr_prev := Some ?e\<rparr>"
    have f: "format_token src t p = (Inr ?p' :: printer lexed)"
      unfolding format_token_def Let_def if_not_P [OF False] p2_def [unfolded Let_def, symmetric] cut bind_result_Inr ..
    have "printer_inv ?p' (its @ [(sep @ replicate n (CHR '' ''), s, ?k)])"
    proof (cases "?k = LBrace")
      case True
      then show ?thesis using tok by (intro printer_inv_step [of "?p4\<lparr>pr_brace := True\<rparr>" _ _ "Some ?e"]) auto
    next
      case False
      then show ?thesis using tok br by (intro printer_inv_step [of ?p4 _ _ "Some ?e"]) auto
    qed
    with f show ?thesis by blast
  qed
qed

section \<open>A source without comments\<close>

fun undotted :: "token_kind list \<Rightarrow> bool" where
  "undotted (q # k # ks) \<longleftrightarrow> \<not> (is_number q \<and> k = Dot) \<and> undotted (k # ks)"
| "undotted ks \<longleftrightarrow> True"

lemma format_events_inv:
  assumes "printer_inv p its" and "\<forall>t \<in> set toks. \<exists>s. cuts src t s"
    and "undotted ((case last_kind None its of None \<Rightarrow> [] | Some q \<Rightarrow> [q]) @ map tk_kind toks)"
  shows "\<exists>p' its'. format_events src (map Ev_tok toks) p = (Inr p' :: printer lexed) \<and> printer_inv p' (its @ its')
    \<and> map (snd \<circ> snd) its' = map tk_kind toks"
  using assms
proof (induction toks arbitrary: p its)
  case Nil
  then show ?case by (intro exI [of _ p] exI [of _ "[]"]) simp
next
  case (Cons t toks)
  obtain s where "cuts src t s" using Cons.prems(2) by auto
  from format_token_inv [OF Cons.prems(1) this] Cons.prems(3) obtain p1 sep s' where
    p1: "format_token src t p = (Inr p1 :: printer lexed)" "printer_inv p1 (its @ [(sep, s', tk_kind t)])"
    by (fastforce split: option.splits)
  have "undotted (tk_kind t # map tk_kind toks)"
    using Cons.prems(3) by (auto split: option.splits)
  with Cons.IH [OF p1(2)] Cons.prems(2) obtain p' its' where
    "format_events src (map Ev_tok toks) p1 = (Inr p' :: printer lexed)" "printer_inv p' ((its @ [(sep, s', tk_kind t)]) @ its')"
    "map (snd \<circ> snd) its' = map tk_kind toks" by (auto simp: comp_def)
  with p1(1) show ?case
    by (intro exI [of _ p'] exI [of _ "(sep, s', tk_kind t) # its'"]) (simp add: comp_def)
qed

lemma format_same_tokens:
  assumes "str_ok src" and "lex_with_comments src = Inr (toks, [])" and "undotted (map tk_kind toks)"
  shows "\<exists>out toks'. format_source src = Inr out \<and> lex_with_comments out = Inr (toks', [])
    \<and> map tk_kind toks' = map tk_kind toks"
proof -
  from lexer_lossless_pieces [OF assms(1,2)] obtain ps where
    ps: "layout src 0 ps" "toks = tokens_of ps" "comments_of ps = []" by auto
  note l = layout_tokens [OF ps(1,3) assms(1)]
  have ev: "merge_events toks [] = map Ev_tok toks"
    using l by (simp add: merge_events_def ps(2) sort_key_sorted comp_def)
  have "printer_inv printer_start []"
    by (simp add: printer_inv_def printer_start_def printed_def)
  from format_events_inv [OF this, of toks src] l assms(3) ps(2) obtain p its where
    p: "format_events src (map Ev_tok toks) printer_start = (Inr p :: printer lexed)" "printer_inv p its"
    "map (snd \<circ> snd) its = map tk_kind toks" by auto
  obtain tail where tail: "printed p its tail" using p(2) by (auto simp: printer_inv_def)
  define out where "out = (if ends_with (pr_out p) [newline] then pr_out p else pop_blanks (pr_out p) @ [newline])"
  have "\<exists>tail. out = flat its @ tail \<and> list_all is_blank tail"
    using tail printed_newline [OF tail] by (auto simp: out_def printed_def put_newline_def)
  then obtain tail' where out: "out = flat its @ tail'" "list_all is_blank tail'" by blast
  have "spelled None its" using tail by (simp add: printed_def)
  from lex_spelled [OF this out(2), of "Lexer_new out" "[]"] obtain toks' lx where
    "lex_loop [] (Lexer_new out) = Inr (toks', lx)" "map tk_kind toks' = map (snd \<circ> snd) its" "lx_comments lx = []"
    by (auto simp: unlexed_def Lexer_new_def out)
  then have "lex_with_comments out = Inr (toks', [])" "map tk_kind toks' = map tk_kind toks"
    using p(3) by (simp_all add: lex_with_comments_def)
  moreover have "format_source src = Inr out"
    using p(1) by (simp add: format_source_def assms(2) ev out_def Let_def)
  ultimately show ?thesis by blast
qed

text \<open>
  C30: Formatting keeps the tokens of a source without comments in which no number token is directly followed
  by a dot token. On such a source the formatter succeeds and its output lexes,
  without comments, to tokens of exactly the same kinds and values in the same order: layout is all
  it changes. The condition on numbers is needed, see \<open>format_joins_number\<close> below.
\<close>

theorem format_keeps_tokens:
  assumes "str_ok src" and "lex_with_comments src = Inr (toks, [])" and "undotted (map tk_kind toks)"
  shows "\<exists>out toks'. format_source src = Inr out \<and> lex_with_comments out = Inr (toks', [])
    \<and> map tk_kind toks' = map tk_kind toks"
  by (rule format_same_tokens [OF assms])

theorem format_keeps_tokens_witness:
  "\<exists>toks out toks'. lex_with_comments ''a;'' = Inr (toks, []) \<and> format_source ''a;'' = Inr out
     \<and> lex_with_comments out = Inr (toks', []) \<and> map tk_kind toks' = [TkIdent ''a'', Semicolon]"
proof -
  let ?sp = "\<lambda>i j. \<lparr>sp_start = \<lparr>p_line = 1, p_column = i + 1, p_offset = i\<rparr>, sp_end = \<lparr>p_line = 1, p_column = j + 1, p_offset = j\<rparr>\<rparr>"
  let ?toks = "[\<lparr>tk_kind = TkIdent ''a'', tk_span = ?sp 0 1\<rparr>, \<lparr>tk_kind = Semicolon, tk_span = ?sp 1 2\<rparr>]"
  have l: "lex_with_comments ''a;'' = Inr (?toks, [])"
    by code_simp
  have "str_ok ''a;''"
    by (rule str_ascii_ok) (simp add: str_ascii_def)
  from format_keeps_tokens [OF this l] l show ?thesis
    by (auto simp: is_number_def)
qed

section \<open>A number before a dot\<close>

text \<open>
  The printer writes no space before a dot, and the lexer takes a dot behind digits as part of the
  number. So \<open>1 .b\<close> is printed as \<open>1.b\<close>, which begins with a floating-point number, and \<open>1 .e\<close>, whose tokens are
  a number, a dot and an identifier, is printed as \<open>1.e\<close>, which is not accepted by the lexer at all.
\<close>

lemma format_joins_number:
  "format_source ''1 .b'' = Inr (''1.b'' @ [newline])"
  "map_sum id (map tk_kind) (lex ''1 .e'') = Inr [TkInt 1, Dot, TkIdent ''e'']"
  "format_source ''1 .e'' = Inr (''1.e'' @ [newline])"
  "case lex (''1.e'' @ [newline]) of Inl (Raised d) \<Rightarrow> True | _ \<Rightarrow> False"
  by code_simp+

section \<open>A comment inside a line\<close>

text \<open>
  A comment inside a line swallows the rest of the line. The printer writes a comment that does
  not begin a line as a line comment, whatever its delimiters were, and stays on that line: the text
  \<open>s\<close> of the next token, unless it is a closing brace, is printed behind \<open>//\<close> and the comment's
  words with nothing but spaces between, so that it becomes part of the comment. In the example
  \<open>a/*c*/;\<close> is formatted to \<open>a //*c*/;\<close>.
\<close>

lemma format_comment_swallows:
  assumes "pr_prev p = Some q" and "end_line q = p_line (sp_start (cm_span c))" and "\<not> pr_bol p"
    and "\<not> pr_brace p" and "tk_kind t \<noteq> RBrace" and "cuts src t s"
  shows "\<exists>p' sep line_end. format_token src t (format_comment c p) = (Inr p' :: printer lexed)
    \<and> pr_out p' = pr_out p @ '' //'' @ str_trim (dropWhile (\<lambda>x. x = CHR ''/'') (cm_text c)) @ sep @ s @ line_end
    \<and> set sep \<subseteq> {CHR '' ''} \<and> line_end \<in> {[], [newline]}"
proof -
  let ?body = "str_trim (dropWhile (\<lambda>x. x = CHR ''/'') (cm_text c))"
  let ?p = "(put ?body (put ''//'' (put '' '' p)))\<lparr>pr_prev := Some (Ev_cmt c)\<rparr>"
  have c: "format_comment c p = ?p"
    using assms(1-3) by (simp add: format_comment_def Let_def start_line_def)
  have lex: "lexeme s (tk_kind t)"
    and cut: "str_slice src (p_offset (sp_start (tk_span t))) (min (p_offset (sp_end (tk_span t))) (length src)) = (Inr s :: string lexed)"
    using assms(6) by (simp_all add: cuts_def)
  define sep where "sep = (if need_space None (tk_kind t) then [CHR '' ''] else [])"
  have sp: "(if need_space None (tk_kind t) then put '' '' ?p else ?p) = put sep ?p"
    by (simp add: sep_def put_def)
  define p4 where "p4 = put s (ensure_indent (put sep ?p))"
  have out: "pr_out p4 = pr_out p @ '' //'' @ ?body @ sep @ s"
    using assms(3) by (simp add: p4_def ensure_indent_def indent_if_bol_def put_def)
  have "pop_blanks ((pr_out p @ '' //'' @ ?body @ sep) @ s) = (pr_out p @ '' //'' @ ?body @ sep) @ s"
    using pop_blanks_append [of "(pr_out p @ '' //'' @ ?body @ sep) @ s" "[]"] lexeme_ends [OF lex] lex
    by (simp add: lexeme_def)
  then have nl: "pr_out (put_newline p4) = pr_out p4 @ [newline]"
    by (simp add: put_newline_def out)
  have "format_token src t ?p = (Inr ((if tk_kind t = LBrace then p4\<lparr>pr_brace := True\<rparr>
      else if tk_kind t = Semicolon then put_newline p4 else p4)\<lparr>pr_prev := Some (Ev_tok t)\<rparr>) :: printer lexed)"
  proof -
    have f: "pr_brace ?p = False" "pr_bol ?p = False" "(tk_kind t = RBrace) = False" "Option.bind (pr_prev ?p) ev_kind = None"
      using assms(3-5) by simp_all
    show ?thesis
      by (simp only: format_token_def Let_def f simp_thms if_False sp cut bind_result_Inr p4_def)
  qed
  moreover have "set sep \<subseteq> {CHR '' ''}" by (auto simp: sep_def)
  ultimately show ?thesis
    unfolding c using out nl
    by (intro exI [of _ "if tk_kind t = Semicolon then [newline] else []"] exI [of _ sep] exI conjI) auto
qed

lemma format_comment_swallows_witness:
  "\<exists>p' sep line_end. format_token ''a/*c*/;''
       \<lparr>tk_kind = Semicolon, tk_span = \<lparr>sp_start = \<lparr>p_line = 1, p_column = 7, p_offset = 6\<rparr>, sp_end = \<lparr>p_line = 1, p_column = 8, p_offset = 7\<rparr>\<rparr>\<rparr>
       (format_comment \<lparr>cm_span = \<lparr>sp_start = \<lparr>p_line = 1, p_column = 2, p_offset = 1\<rparr>, sp_end = \<lparr>p_line = 1, p_column = 7, p_offset = 6\<rparr>\<rparr>, cm_text = ''/*c*/''\<rparr>
         \<lparr>pr_out = ''a'', pr_indent = 0, pr_bol = False, pr_brace = False,
           pr_prev = Some (Ev_cmt \<lparr>cm_span = \<lparr>sp_start = Position_default, sp_end = \<lparr>p_line = 1, p_column = 2, p_offset = 1\<rparr>\<rparr>, cm_text = []\<rparr>)\<rparr>)
       = (Inr p' :: printer lexed)
     \<and> pr_out p' = ''a //'' @ str_trim ''*c*/'' @ sep @ '';'' @ line_end \<and> set sep \<subseteq> {CHR '' ''} \<and> line_end \<in> {[], [newline]}"
proof -
  let ?t = "\<lparr>tk_kind = Semicolon, tk_span = \<lparr>sp_start = \<lparr>p_line = 1, p_column = 7, p_offset = 6\<rparr>, sp_end = \<lparr>p_line = 1, p_column = 8, p_offset = 7\<rparr>\<rparr>\<rparr>"
  have "lexeme '';'' Semicolon" by (rule lexeme_simple) (simp add: simple_token_def)
  moreover have "str_slice ''a/*c*/;'' 6 7 = (Inr '';'' :: string lexed)"
    by (simp add: str_slice_def is_char_boundary_def is_cont_byte_def)
  ultimately have "cuts ''a/*c*/;'' ?t '';''"
    by (simp add: cuts_def min_def)
  from format_comment_swallows [OF _ _ _ _ _ this, where
      p = "\<lparr>pr_out = ''a'', pr_indent = 0, pr_bol = False, pr_brace = False,
           pr_prev = Some (Ev_cmt \<lparr>cm_span = \<lparr>sp_start = Position_default, sp_end = \<lparr>p_line = 1, p_column = 2, p_offset = 1\<rparr>\<rparr>, cm_text = []\<rparr>)\<rparr>"
      and c = "\<lparr>cm_span = \<lparr>sp_start = \<lparr>p_line = 1, p_column = 2, p_offset = 1\<rparr>, sp_end = \<lparr>p_line = 1, p_column = 7, p_offset = 6\<rparr>\<rparr>, cm_text = ''/*c*/''\<rparr>"]
  show ?thesis by (simp add: end_line_def)
qed

text \<open>The whole example, and what is left of its tokens.\<close>

lemma format_drops_semicolon:
  "map_sum id (map tk_kind) (lex ''a/*c*/;'') = Inr [TkIdent ''a'', Semicolon]"
  "format_source ''a/*c*/;'' = Inr (''a //*c*/;'' @ [newline])"
  "map_sum id (map tk_kind) (lex (''a //*c*/;'' @ [newline])) = Inr [TkIdent ''a'']"
  by code_simp+

end
