(* ===== verification/Parser_Roundtrip.thy ===== *)
theory Parser_Roundtrip
  imports Parser_Total Fmt_Properties
begin

text \<open>
  What the parser accepts: the tokens of a syntax tree, written out in the grammar of proto files, are
  parsed back to the tree, without a diagnostic. The trees have the span \<open>()\<close>; a tree of the parser is
  compared after its spans are erased.
\<close>

section \<open>The tokens ahead\<close>

definition ahead :: "parser \<Rightarrow> token_kind list" where
  "ahead p = map tk_kind (drop (ps_pos p) (ps_tokens p))"

lemma peek_kind_ahead: "peek_kind p = (case ahead p of [] \<Rightarrow> None | k # _ \<Rightarrow> Some k)"
  by (cases "ps_pos p < length (ps_tokens p)")
    (auto simp: ahead_def peek_kind_def ps_peek_def nth_opt_def Cons_nth_drop_Suc [symmetric])

lemma length_ahead: "length (ahead p) = tokens_left p"
  by (simp add: ahead_def tokens_left_def)

lemma ahead_advanced [simp]: "ahead (advanced p) = tl (ahead p)"
  by (auto simp: ahead_def Cons_nth_drop_Suc [symmetric])

lemma advanced_quiet [simp]: "ps_diags (advanced p) = ps_diags p"
  by (auto simp: ps_advance_def split: option.split)

lemma at_keyword_ahead: "at_keyword p kw \<longleftrightarrow> (case ahead p of k # _ \<Rightarrow> k = TkIdent kw | [] \<Rightarrow> False)"
  by (auto simp: at_keyword_def peek_kind_ahead split: list.split)

lemma at_ident_ahead: "at_ident p \<longleftrightarrow> (case ahead p of TkIdent _ # _ \<Rightarrow> True | _ \<Rightarrow> False)"
  by (auto simp: at_ident_def peek_kind_ahead split: list.split)

lemma before_ahead: "before k p \<longleftrightarrow> (case ahead p of k' # _ \<Rightarrow> k' \<noteq> k | [] \<Rightarrow> False)"
  by (auto simp: before_def peek_kind_ahead simp del: peek_kind_None split: list.split)

lemma expected_ahead: "ahead p = k # ks \<Longrightarrow> expected k p = advanced p"
  by (simp add: expect_def peek_kind_ahead)

lemma ps_peek_ahead: "ahead p = k # ks \<Longrightarrow> \<exists>t. ps_peek p = Some t \<and> tk_kind t = k"
  using peek_kind_ahead [of p] by (auto simp: peek_kind_def)

text \<open>The state behind some tokens that were read without a complaint.\<close>

definition quiet :: "parser \<Rightarrow> token_kind list \<Rightarrow> parser \<Rightarrow> bool" where
  "quiet p rest q \<longleftrightarrow> ahead q = rest \<and> ps_diags q = ps_diags p \<and> ps_depth q = ps_depth p"

lemma quietD: "quiet p rest q \<Longrightarrow> ahead q = rest \<and> ps_diags q = ps_diags p \<and> ps_depth q = ps_depth p"
  by (simp add: quiet_def)

lemma quiet_trans: "quiet p r1 q \<Longrightarrow> quiet q r2 r \<Longrightarrow> quiet p r2 r"
  by (simp add: quiet_def)

lemma quiet_advanced: "quiet p (k # rest) q \<Longrightarrow> quiet p rest (advanced q)"
  by (simp add: quiet_def)

lemma quiet_expected: "quiet p (k # rest) q \<Longrightarrow> quiet p rest (expected k q)"
  by (simp add: quiet_def expected_ahead)

lemma quiet_start: "ahead p = ks \<Longrightarrow> quiet p ks p"
  by (simp add: quiet_def)

lemma expect_ident_ahead:
  "ahead p = TkIdent s # ks \<Longrightarrow> \<exists>sp. expect_ident p = (Some (Ident s sp), advanced p)"
  using ps_peek_ahead [of p] by (auto simp: expect_ident_def ps_advance_def)

lemma try_expect_ident:
  assumes "ahead p = TkIdent s # ks" and "\<And>sp. ends (f (Ident s sp) (advanced p)) Q"
  shows "ends (try_opt (expect_ident p) f) Q"
  using expect_ident_ahead [OF assms(1)] assms(2) by (auto simp: try_opt_def)

lemma take_int_ahead: "ahead p = TkInt n # ks \<Longrightarrow> take_int msg p = (Some n, advanced p)"
  by (simp add: take_int_def peek_kind_ahead)

section \<open>Loops over the tokens of a list\<close>

text \<open>
  Items one behind the other; \<open>R\<close> relates what was read so far to the state of the loop, and \<open>last\<close>
  says what the loop does behind the items.
\<close>

definition within :: "parser \<Rightarrow> parser \<Rightarrow> bool" where
  "within p q \<longleftrightarrow> tokens_left q \<le> tokens_left p \<and> ps_depth q = ps_depth p"

lemma within_refl [simp]: "within p p"
  by (simp add: within_def)

lemma loop_items:
  assumes step: "\<And>x a s q rest. x \<in> set xs \<Longrightarrow> R a s \<Longrightarrow> ahead q = emit x @ rest \<Longrightarrow> within p0 q \<Longrightarrow> c q
      \<and> ends (step s q) (\<lambda>f r. \<exists>s'. f = Continue s' \<and> R (upd x a) s' \<and> quiet q rest r)"
    and ne: "\<And>x. x \<in> set xs \<Longrightarrow> emit x \<noteq> []"
  shows "ahead p = concat (map emit xs) @ stop \<Longrightarrow> within p0 p \<Longrightarrow> tokens_left p < n \<Longrightarrow> R a s
    \<Longrightarrow> (\<And>m s' q. R (fold upd xs a) s' \<Longrightarrow> quiet p stop q \<Longrightarrow> within p0 q \<Longrightarrow> tokens_left q < Suc m
          \<Longrightarrow> ends (token_loop (Suc m) c step s' q) Q)
    \<Longrightarrow> ends (token_loop n c step s p) Q"
  using step ne
proof (induction xs arbitrary: n a s p)
  case Nil
  then show ?case by (cases n) (auto simp: quiet_def)
next
  case (Cons x xs)
  obtain m where n: "n = Suc m" using Cons.prems(3) by (cases n) auto
  from Cons.prems(1,2) Cons.prems(6) [of x a s p "concat (map emit xs) @ stop"] Cons.prems(4)
  obtain s' q where *: "c p" "step s p = Inr (Continue s', q)"
    "R (upd x a) s'" "quiet p (concat (map emit xs) @ stop) q"
    by (fastforce simp: ends_ex)
  have less: "length (ahead q) < length (ahead p)"
    using * Cons.prems(1,7) by (auto simp: quiet_def)
  then have "tokens_left q < m" using Cons.prems(3) n by (simp add: length_ahead)
  have "ends (token_loop m c step s' q) Q"
  proof (rule Cons.IH)
    show "ahead q = concat (map emit xs) @ stop" using * by (simp add: quiet_def)
    show "within p0 q" using Cons.prems(2) less *(4) by (simp add: within_def quiet_def length_ahead)
    show "ends (token_loop (Suc k) c step t r) Q"
      if "R (fold upd xs (upd x a)) t" "quiet q stop r" "within p0 r" "tokens_left r < Suc k" for k t r
      using Cons.prems(5) [of t r k] that quiet_trans [OF *(4)] by simp
    show "c r \<and> ends (step t r) (\<lambda>f r'. \<exists>s'. f = Continue s' \<and> R (upd y b) s' \<and> quiet r rest r')"
      if "y \<in> set xs" "R b t" "ahead r = emit y @ rest" "within p0 r" for y b t r rest
      using Cons.prems(6) [of y b t r rest] that by simp
  qed (use * Cons.prems(7) \<open>tokens_left q < m\<close> in auto)
  with * n show ?case by simp
qed

text \<open>The loop ends behind the items, because its condition fails or by a \<open>break\<close>.\<close>

lemma while_items:
  assumes step: "\<And>x a s q rest. x \<in> set xs \<Longrightarrow> R a s \<Longrightarrow> ahead q = emit x @ rest \<Longrightarrow> within p q \<Longrightarrow> c q
      \<and> ends (step s q) (\<lambda>f r. \<exists>s'. f = Continue s' \<and> R (upd x a) s' \<and> quiet q rest r)"
    and ne: "\<And>x. x \<in> set xs \<Longrightarrow> emit x \<noteq> []" and stop: "\<And>q. ahead q = stop \<Longrightarrow> \<not> c q"
    and p: "ahead p = concat (map emit xs) @ stop" "R a s"
  shows "ends (while_tokens c step s p) (\<lambda>s' q. R (fold upd xs a) s' \<and> quiet p stop q)"
  unfolding while_tokens_def
  by (rule loop_items [where ?p0.0 = p and R = R and emit = emit and upd = upd and xs = xs and a = a and stop = stop])
    (use step ne p stop in \<open>auto dest: quietD\<close>)

lemma while_items_last:
  assumes step: "\<And>x a s q rest. x \<in> set xs \<Longrightarrow> R a s \<Longrightarrow> ahead q = emit x @ rest \<Longrightarrow> within p q \<Longrightarrow> c q
      \<and> ends (step s q) (\<lambda>f r. \<exists>s'. f = Continue s' \<and> R (upd x a) s' \<and> quiet q rest r)"
    and ne: "\<And>x. x \<in> set xs \<Longrightarrow> emit x \<noteq> []"
    and last: "\<And>a s q. R a s \<Longrightarrow> ahead q = stop \<Longrightarrow> within p q \<Longrightarrow> c q
      \<and> ends (step s q) (\<lambda>f r. \<exists>s'. f = Break s' \<and> R (fin a) s' \<and> quiet q rest r)"
    and p: "ahead p = concat (map emit xs) @ stop" "R a s"
  shows "ends (while_tokens c step s p) (\<lambda>s' q. R (fin (fold upd xs a)) s' \<and> quiet p rest q)"
  unfolding while_tokens_def
proof (rule loop_items [where ?p0.0 = p and R = R and emit = emit and upd = upd and xs = xs and a = a and stop = stop])
  fix m s' q
  assume "R (fold upd xs a) s'" "quiet p stop q" "within p q"
  with last [of "fold upd xs a" s' q] show "ends (token_loop (Suc m) c step s' q)
      (\<lambda>s' q. R (fin (fold upd xs a)) s' \<and> quiet p rest q)"
    by (auto simp: ends_ex quiet_def)
qed (use step ne p in auto)

text \<open>Items with commas in between, where the loop steps over a comma when there is one.\<close>

fun commas :: "token_kind list list \<Rightarrow> token_kind list" where
  "commas [] = []"
| "commas [ks] = ks"
| "commas (ks # kss) = ks @ Comma # commas kss"

lemma commas_snoc: "commas (kss @ [ks]) = concat (map (\<lambda>ks. ks @ [Comma]) kss) @ ks"
  by (induction kss rule: commas.induct) auto

lemma while_commas:
  assumes step: "\<And>x a s q rest. x \<in> set xs \<Longrightarrow> R a s \<Longrightarrow> ahead q = emit x @ rest \<Longrightarrow> within p q \<Longrightarrow> rest \<noteq> []
      \<Longrightarrow> hd rest \<in> {Comma, RBracket} \<Longrightarrow> before RBracket q
      \<and> ends (step s q) (\<lambda>f r. \<exists>s'. f = Continue s' \<and> R (upd x a) s'
           \<and> quiet q (if hd rest = Comma then tl rest else rest) r)"
    and ne: "\<And>x. x \<in> set xs \<Longrightarrow> emit x \<noteq> []"
    and p: "ahead p = commas (map emit xs) @ RBracket # stop" "R a s"
  shows "ends (while_tokens (before RBracket) step s p) (\<lambda>s' q. R (fold upd xs a) s' \<and> quiet p (RBracket # stop) q)"
proof (cases xs rule: rev_cases)
  case Nil
  with p show ?thesis by (auto simp: while_tokens_def quiet_def before_ahead)
next
  case (snoc ys y)
  show ?thesis
    unfolding while_tokens_def
  proof (rule loop_items [where ?p0.0 = p and R = R and emit = "\<lambda>x. emit x @ [Comma]" and upd = upd and xs = ys and a = a
        and stop = "emit y @ RBracket # stop"])
    fix x a s q rest
    assume "x \<in> set ys" "R a s" "ahead q = (emit x @ [Comma]) @ rest" "within p q"
    with step [of x a s q "Comma # rest"] snoc show "before RBracket q
        \<and> ends (step s q) (\<lambda>f r. \<exists>s'. f = Continue s' \<and> R (upd x a) s' \<and> quiet q rest r)"
      by simp
  next
    fix m s' q
    assume *: "R (fold upd ys a) s'" "quiet p (emit y @ RBracket # stop) q" "within p q" "tokens_left q < Suc m"
    with step [of y "fold upd ys a" s' q "RBracket # stop"] snoc obtain t r where
      r: "before RBracket q" "step s' q = Inr (Continue t, r)" "R (fold upd xs a) t" "quiet q (RBracket # stop) r"
      by (auto simp: ends_ex quiet_def)
    have "length (ahead r) < length (ahead q)"
      using r * ne [of y] snoc by (auto simp: quiet_def)
    then obtain k where "m = Suc k" using *(4) by (cases m) (auto simp: length_ahead)
    with r * show "ends (token_loop (Suc m) (before RBracket) step s' q)
        (\<lambda>s' q. R (fold upd xs a) s' \<and> quiet p (RBracket # stop) q)"
      by (auto simp: before_ahead quiet_def)
  qed (use p snoc ne in \<open>auto simp: commas_snoc comp_def\<close>)
qed


section \<open>Names\<close>

fun dot_split :: "string \<Rightarrow> string list" where
  "dot_split [] = [[]]"
| "dot_split (c # cs) = (if c = CHR ''.'' then [] # dot_split cs
     else (case dot_split cs of s # ss \<Rightarrow> (c # s) # ss | [] \<Rightarrow> [[c]]))"

definition dot_segments :: "string list \<Rightarrow> token_kind list" where
  "dot_segments ss = concat (map (\<lambda>s. [Dot, TkIdent s]) ss)"

definition emit_dotted :: "string \<Rightarrow> token_kind list" where
  "emit_dotted s = TkIdent (hd (dot_split s)) # dot_segments (tl (dot_split s))"

text \<open>A name that may start with a dot.\<close>

definition emit_name :: "string \<Rightarrow> token_kind list" where
  "emit_name s = (case s of c # r \<Rightarrow> if c = CHR ''.'' then Dot # emit_dotted r else emit_dotted s | [] \<Rightarrow> emit_dotted s)"

definition dot_join :: "string \<Rightarrow> string list \<Rightarrow> string" where
  "dot_join s ss = fold (\<lambda>x a. a @ ''.'' @ x) ss s"

lemma dot_join_eq: "dot_join s ss = s @ concat (map (\<lambda>x. ''.'' @ x) ss)"
  unfolding dot_join_def by (induction ss arbitrary: s) simp_all

lemma dot_split_ne [simp]: "dot_split s \<noteq> []"
  by (induction s) (auto split: list.split)

lemma dot_join_split [simp]: "dot_join (hd (dot_split s)) (tl (dot_split s)) = s"
  unfolding dot_join_eq
proof (induction s)
  case (Cons c s)
  then show ?case by (cases "dot_split s") auto
qed simp

text \<open>What must not follow a name.\<close>

definition no_dot :: "token_kind list \<Rightarrow> bool" where
  "no_dot ks \<longleftrightarrow> (case ks of k # _ \<Rightarrow> k \<noteq> Dot | [] \<Rightarrow> True)"

lemma no_dot_Cons [simp]: "no_dot (k # ks) \<longleftrightarrow> k \<noteq> Dot" "no_dot []"
  by (simp_all add: no_dot_def)

lemma no_dot_peek: "no_dot (ahead p) \<Longrightarrow> peek_kind p \<noteq> Some Dot"
  by (auto simp: no_dot_def peek_kind_ahead split: list.splits)

lemma segment_ahead:
  "ahead p = Dot # TkIdent s # ks \<Longrightarrow> \<exists>sp. expect_ident (advanced p) = (Some (Ident s sp), advanced (advanced p))
     \<and> tl (tl (ahead p)) = ks"
  using expect_ident_ahead [of "advanced p"] by simp

lemma option_segments_reads:
  assumes "ahead p = dot_segments ss @ rest" "no_dot rest"
  shows "ends (option_segments name p) (\<lambda>s q. s = dot_join name ss \<and> quiet p rest q)"
  unfolding option_segments_def dot_join_def
  by (rule while_items [where R = "\<lambda>a s. s = a" and emit = "\<lambda>s. [Dot, TkIdent s]" and xs = ss])
    (use assms in \<open>auto simp: dot_segments_def quiet_def peek_kind_ahead no_dot_def dest!: segment_ahead
      split: list.splits\<close>)

text \<open>The name of an option: \<open>a.b\<close> or \<open>(a.b).c\<close>.\<close>

definition emit_option_name :: "string \<Rightarrow> token_kind list" where
  "emit_option_name s =
     (if take 1 s = ''(''
      then LParen # emit_name (takeWhile (\<lambda>c. c \<noteq> CHR '')'') (tl s)) @ RParen
        # dot_segments (tl (dot_split (tl (dropWhile (\<lambda>c. c \<noteq> CHR '')'') (tl s)))))
      else emit_dotted s)"

definition wf_option_name :: "string \<Rightarrow> bool" where
  "wf_option_name s \<longleftrightarrow> (take 1 s = ''('' \<longrightarrow>
     CHR '')'' \<in> set s \<and> hd (dot_split (tl (dropWhile (\<lambda>c. c \<noteq> CHR '')'') s))) = [])"

fun name_text :: "token_kind \<Rightarrow> string" where
  "name_text (TkIdent s) = s"
| "name_text Dot = ''.''"
| "name_text k = []"

lemma name_text_emit: "concat (map name_text (emit_dotted s)) = s" "concat (map name_text (emit_name s)) = s"
proof -
  have "concat (map name_text (dot_segments ss)) = concat (map (\<lambda>x. ''.'' @ x) ss)" for ss
    by (induction ss) (simp_all add: dot_segments_def)
  then show "concat (map name_text (emit_dotted s)) = s" for s
    using dot_join_split [of s] by (simp add: emit_dotted_def dot_join_eq)
  then show "concat (map name_text (emit_name s)) = s"
    by (auto simp: emit_name_def split: list.split)
qed

lemma emit_name_tokens: "k \<in> set (emit_name s) \<Longrightarrow> k = Dot \<or> (\<exists>x. k = TkIdent x)"
  by (auto simp: emit_name_def emit_dotted_def dot_segments_def split: list.splits if_splits)

lemma parenthesised_name_reads:
  assumes "ahead p = LParen # emit_name s @ RParen # rest"
  shows "ends (parenthesised_name p) (\<lambda>n q. n = ''('' @ s @ '')'' \<and> quiet p rest q)"
proof -
  let ?upd = "\<lambda>k a. a @ name_text k"
  have fold: "fold ?upd ks a = a @ concat (map name_text ks)" for ks a
    by (induction ks arbitrary: a) simp_all
  have "ends (parenthesised_name p) (\<lambda>n q. n = fold ?upd (emit_name s) ''('' @ '')'' \<and> quiet (advanced p) rest q)"
    unfolding parenthesised_name_def
    by (rule while_items_last [where R = "\<lambda>a s. s = a" and emit = "\<lambda>k. [k]" and xs = "emit_name s"
          and stop = "RParen # rest" and fin = "\<lambda>a. a @ '')''" and rest = rest and upd = ?upd])
      (use assms in \<open>auto simp: peek_kind_ahead quiet_def concat_map_singleton dest!: emit_name_tokens\<close>)
  then show ?thesis by (rule ends_mono) (simp add: fold name_text_emit quiet_def)
qed

lemma parse_option_name_reads:
  assumes "ahead p = emit_option_name s @ rest" "no_dot rest" "wf_option_name s"
  shows "ends (parse_option_name p) (\<lambda>n q. n = Some s \<and> quiet p rest q)"
proof (cases "take 1 s = ''(''")
  case True
  then obtain r where s: "s = CHR ''('' # r" by (cases s) auto
  define inner where "inner = takeWhile (\<lambda>c. c \<noteq> CHR '')'') r"
  define after where "after = tl (dropWhile (\<lambda>c. c \<noteq> CHR '')'') r)"
  have r: "r = inner @ '')'' @ after" "hd (dot_split after) = []"
  proof -
    have "CHR '')'' \<in> set r" using assms(3) s by (simp add: wf_option_name_def)
    then obtain u v where "r = u @ CHR '')'' # v" "\<forall>c \<in> set u. c \<noteq> CHR '')''" by (auto dest!: split_list_first)
    then show "r = inner @ '')'' @ after"
      using takeWhile_append2 [of u "\<lambda>c. c \<noteq> CHR '')''" "CHR '')'' # v"]
        dropWhile_append2 [of u "\<lambda>c. c \<noteq> CHR '')''" "CHR '')'' # v"]
      by (simp add: inner_def after_def)
    show "hd (dot_split after) = []" using assms(3) s by (simp add: wf_option_name_def after_def)
  qed
  have "ahead p = LParen # emit_name inner @ RParen # dot_segments (tl (dot_split after)) @ rest"
    using assms(1) s by (simp add: emit_option_name_def inner_def after_def)
  then show ?thesis
    using dot_join_split [of after] assms(2) r s
    by (auto simp: parse_option_name_def peek_kind_ahead dot_join_eq quiet_def
        intro!: ends_mono [OF parenthesised_name_reads] ends_mono [OF option_segments_reads])
next
  case False
  then have "emit_option_name s = emit_dotted s"
    by (simp add: emit_option_name_def)
  then show ?thesis
    using assms(1,2) dot_join_split [of s]
    by (auto simp: parse_option_name_def peek_kind_ahead emit_dotted_def quiet_def
        intro!: try_expect_ident ends_mono [OF option_segments_reads])
qed


section \<open>Constants and options\<close>

fun emit_const :: "const_value \<Rightarrow> token_kind list" where
  "emit_const (CInt n) = [TkInt n]"
| "emit_const (CFloat v) = [TkFloat v]"
| "emit_const (CString s) = [TkStr s]"
| "emit_const (CBool b) = [TkIdent (if b then ''true'' else ''false'')]"
| "emit_const (CIdent s) = [TkIdent s]"
| "emit_const (CAggregate fs) =
     LBrace # concat (map (\<lambda>(k, v). emit_option_name k @ Colon # emit_const v @ [Semicolon]) fs) @ [RBrace]"
| "emit_const (CList cs) = LBracket # commas (map emit_const cs) @ [RBracket]"

fun wf_const :: "const_value \<Rightarrow> bool" where
  "wf_const (CIdent s) \<longleftrightarrow> s \<noteq> ''true'' \<and> s \<noteq> ''false''"
| "wf_const (CAggregate fs) \<longleftrightarrow> list_all (\<lambda>(k, v). wf_option_name k \<and> wf_const v) fs"
| "wf_const (CList cs) \<longleftrightarrow> list_all wf_const cs"
| "wf_const c \<longleftrightarrow> True"

definition starts_value :: "token_kind \<Rightarrow> bool" where
  "starts_value k \<longleftrightarrow> k \<notin> {RBracket, RBrace, Comma, Dot, Colon, Semicolon}"

lemma emit_const_Cons: "\<exists>k ks. emit_const c = k # ks \<and> starts_value k"
  by (cases c) (simp_all add: starts_value_def)

lemma emit_option_name_Cons:
  "\<exists>k ks. emit_option_name s = k # ks \<and> (k = LParen \<or> (\<exists>x. k = TkIdent x))"
  by (simp add: emit_option_name_def emit_dotted_def)

lemma try_tokens_items:
  assumes step: "\<And>x a s q rest. x \<in> set xs \<Longrightarrow> R a s \<Longrightarrow> ahead q = emit x @ rest \<Longrightarrow> within p q \<Longrightarrow> c q
      \<and> ends (step s q) (\<lambda>f r. \<exists>s'. f = Continue (Some s') \<and> R (upd x a) s' \<and> quiet q rest r)"
    and "\<And>x. x \<in> set xs \<Longrightarrow> emit x \<noteq> []" and "\<And>q. ahead q = stop \<Longrightarrow> \<not> c q"
    and "ahead p = concat (map emit xs) @ stop" "R a s"
  shows "ends (try_tokens c step s p) (\<lambda>s' q. \<exists>t. s' = Some t \<and> R (fold upd xs a) t \<and> quiet p stop q)"
proof -
  have "ends (try_tokens c step s p) (\<lambda>s' q. (\<exists>t. s' = Some t \<and> R (fold upd xs a) t) \<and> quiet p stop q)"
    unfolding try_tokens_def
  proof (rule while_items [where R = "\<lambda>a s. \<exists>t. s = Some t \<and> R a t" and emit = emit and upd = upd and xs = xs])
    fix x a s q rest
    assume "x \<in> set xs" "\<exists>t. s = Some t \<and> R a t" "ahead q = emit x @ rest" "within p q"
    with step [of x a "the s" q rest] show "c q \<and> ends (case s of None \<Rightarrow> Inr (Break None, q) | Some s \<Rightarrow> step s q)
        (\<lambda>f r. \<exists>s'. f = Continue s' \<and> (\<exists>t. s' = Some t \<and> R (upd x a) t) \<and> quiet q rest r)"
      by (auto elim!: ends_mono)
  qed (use assms in auto)
  then show ?thesis by (rule ends_mono) auto
qed

lemma fold_snoc: "fold (\<lambda>x a. a @ [f x]) xs a = a @ map f xs"
  by (induction xs arbitrary: a) simp_all

lemma before_RBrace: "ahead q = RBrace # ks \<Longrightarrow> \<not> before RBrace q"
  by (simp add: before_ahead)

lemma aggregate_reads:
  assumes rec: "\<And>k v q rest. (k, v) \<in> set fs \<Longrightarrow> ahead q = emit_const v @ rest \<Longrightarrow> tokens_left q \<le> tokens_left p
      \<Longrightarrow> ends (rec q) (\<lambda>r q'. r = Some v \<and> quiet q rest q')"
    and wf: "\<And>k v. (k, v) \<in> set fs \<Longrightarrow> wf_option_name k"
    and p: "ahead p = concat (map (\<lambda>(k, v). emit_option_name k @ Colon # emit_const v @ [Semicolon]) fs) @ RBrace # rest"
  shows "ends (try_tokens (before RBrace) (aggregate_step rec) [] p) (\<lambda>r q. r = Some fs \<and> quiet p (RBrace # rest) q)"
proof -
  let ?emit = "\<lambda>(k, v). emit_option_name k @ Colon # emit_const v @ [Semicolon]"
  have "ends (try_tokens (before RBrace) (aggregate_step rec) [] p)
      (\<lambda>s' q. \<exists>t. s' = Some t \<and> t = fold (\<lambda>x a. a @ [id x]) fs [] \<and> quiet p (RBrace # rest) q)"
  proof (rule try_tokens_items [where R = "\<lambda>a t. t = a" and emit = ?emit])
    fix x and a s :: "(string \<times> const_value) list" and q rest'
    assume x: "x \<in> set fs" and s: "s = a" and q: "ahead q = ?emit x @ rest'" "within p q"
    obtain k v where kv: "x = (k, v)" by (cases x)
    have q': "ahead q = emit_option_name k @ Colon # emit_const v @ Semicolon # rest'" using q kv by simp
    have "ends (aggregate_step rec s q) (\<lambda>f r. f = Continue (Some (s @ [x])) \<and> quiet q rest' r)"
      unfolding aggregate_step_def
    proof (simp, rule ends_mono [OF parse_option_name_reads [OF q']], goal_cases)
      case (3 n r)
      then have r: "ahead r = Colon # emit_const v @ Semicolon # rest'" by (simp add: quiet_def)
      have "tokens_left (expected Colon r) \<le> tokens_left p"
        using r q q' by (simp add: expected_ahead [OF r] within_def flip: length_ahead)
      with 3 r kv x show ?case
        by (auto simp: peek_kind_ahead expected_ahead [OF r] quiet_def expected_ahead
            intro!: ends_mono [OF rec [of k v _ "Semicolon # rest'"]])
    qed (use wf x kv in auto)
    moreover have "before RBrace q"
      using q' emit_option_name_Cons [of k] by (auto simp: before_ahead)
    ultimately show "before RBrace q \<and> ends (aggregate_step rec s q)
        (\<lambda>f r. \<exists>s'. f = Continue (Some s') \<and> s' = a @ [id x] \<and> quiet q rest' r)"
      using s by (auto elim!: ends_mono)
  qed (use p in \<open>auto simp: before_RBrace\<close>)
  then show ?thesis by (rule ends_mono) (simp add: fold_snoc)
qed

lemma skip_comma_simps [simp]:
  "ps_diags (skip_comma p) = ps_diags p" "ps_depth (skip_comma p) = ps_depth p"
  "ahead (skip_comma p) = (case ahead p of k # ks \<Rightarrow> if k = Comma then ks else k # ks | [] \<Rightarrow> [])"
  by (auto simp: skip_comma_def peek_kind_ahead split: list.splits)

lemma skip_comma_quiet:
  "quiet p rest q \<Longrightarrow> rest \<noteq> [] \<Longrightarrow> hd rest = Comma \<Longrightarrow> quiet p (tl rest) (skip_comma q)"
  "quiet p rest q \<Longrightarrow> rest \<noteq> [] \<Longrightarrow> hd rest \<noteq> Comma \<Longrightarrow> quiet p rest (skip_comma q)"
  by (cases rest; auto simp: skip_comma_def peek_kind_ahead quiet_def)+

lemma list_reads:
  assumes rec: "\<And>c q rest. c \<in> set cs \<Longrightarrow> ahead q = emit_const c @ rest \<Longrightarrow> tokens_left q \<le> tokens_left p
      \<Longrightarrow> ends (rec q) (\<lambda>r q'. r = Some c \<and> quiet q rest q')"
    and p: "ahead p = commas (map emit_const cs) @ RBracket # rest"
  shows "ends (while_tokens (before RBracket) (list_step rec) [] p) (\<lambda>r q. r = cs \<and> quiet p (RBracket # rest) q)"
proof -
  have "ends (while_tokens (before RBracket) (list_step rec) [] p)
      (\<lambda>s' q. s' = fold (\<lambda>x a. a @ [id x]) cs [] \<and> quiet p (RBracket # rest) q)"
  proof (rule while_commas [where R = "\<lambda>a t. t = a" and emit = emit_const, OF _ _ p])
    fix x and a s :: "const_value list" and q rest'
    assume "x \<in> set cs" "s = a" "ahead q = emit_const x @ rest'" "within p q" "rest' \<noteq> []"
    then show "before RBracket q \<and> ends (list_step rec s q) (\<lambda>f r. \<exists>s'. f = Continue s' \<and> s' = a @ [id x]
        \<and> quiet q (if hd rest' = Comma then tl rest' else rest') r)"
      using emit_const_Cons [of x]
      by (auto simp: list_step_def within_def before_ahead starts_value_def intro!: ends_mono [OF rec]
          intro: skip_comma_quiet)
  next
    show "emit_const x \<noteq> []" for x using emit_const_Cons [of x] by auto
  qed auto
  then show ?thesis by (rule ends_mono) (simp add: fold_snoc)
qed

lemma leaf_ahead: "ahead p = k # ks \<Longrightarrow> (\<exists>t. ps_peek p = Some t \<and> tk_kind t = k) \<and> tl (ahead p) = ks"
  using ps_peek_ahead [of p] by simp

lemma constant_fuel_leaf:
  assumes "ps_peek p = Some t" "tokens_left p < n"
  shows "tk_kind t = TkInt i \<Longrightarrow> constant_fuel n p = Inr (Some (CInt i), advanced p)"
    and "tk_kind t = TkFloat v \<Longrightarrow> constant_fuel n p = Inr (Some (CFloat v), advanced p)"
    and "tk_kind t = TkStr s \<Longrightarrow> constant_fuel n p = Inr (Some (CString s), advanced p)"
    and "tk_kind t = TkIdent s \<Longrightarrow> constant_fuel n p
      = Inr (Some (if s = ''true'' then CBool True else if s = ''false'' then CBool False else CIdent s), advanced p)"
  using assms by (cases n; simp)+

lemma constant_reads:
  "ahead p = emit_const c @ rest \<Longrightarrow> wf_const c \<Longrightarrow> tokens_left p < n
     \<Longrightarrow> ends (constant_fuel n p) (\<lambda>r q. r = Some c \<and> quiet p rest q)"
proof (induction c arbitrary: n p rest rule: emit_const.induct)
  case (6 fs)
  obtain t m where *: "ps_peek p = Some t" "tk_kind t = LBrace" "n = Suc m"
    using ps_peek_ahead [of p LBrace] 6 by (cases n) auto
  have left: "tokens_left (advanced p) < m" using * 6 by (simp flip: length_ahead)
  have "ends (try_tokens (before RBrace) (aggregate_step (constant_fuel m)) [] (advanced p))
      (\<lambda>r q. r = Some fs \<and> quiet (advanced p) (RBrace # rest) q)"
  proof (rule aggregate_reads)
    fix k v q rest'
    assume "(k, v) \<in> set fs" "ahead q = emit_const v @ rest'" "tokens_left q \<le> tokens_left (advanced p)"
    with 6 left show "ends (constant_fuel m q) (\<lambda>r q'. r = Some v \<and> quiet q rest' q')"
      by (intro "6.IH") (auto simp: list_all_iff)
  qed (use 6 in \<open>auto simp: list_all_iff\<close>)
  with * show ?case
    by (auto simp: ends_try_act quiet_def expected_ahead elim!: ends_mono)
next
  case (7 cs)
  obtain t m where *: "ps_peek p = Some t" "tk_kind t = LBracket" "n = Suc m"
    using ps_peek_ahead [of p LBracket] 7 by (cases n) auto
  have left: "tokens_left (advanced p) < m" using * 7 by (simp flip: length_ahead)
  have "ends (while_tokens (before RBracket) (list_step (constant_fuel m)) [] (advanced p))
      (\<lambda>r q. r = cs \<and> quiet (advanced p) (RBracket # rest) q)"
  proof (rule list_reads)
    fix c q rest'
    assume "c \<in> set cs" "ahead q = emit_const c @ rest'" "tokens_left q \<le> tokens_left (advanced p)"
    with 7 left show "ends (constant_fuel m q) (\<lambda>r q'. r = Some c \<and> quiet q rest' q')"
      by (intro "7.IH") (auto simp: list_all_iff)
  qed (use 7 in simp)
  with * show ?case
    by (auto simp: quiet_def expected_ahead elim!: ends_mono)
qed (auto simp: quiet_def constant_fuel_leaf dest!: leaf_ahead)


text \<open>
  The recursion on nested aggregates has no depth guard: to get through \<open>n\<close> openings \<open>{ a\<close> in front of one more
  brace, \<open>parse_constant\<close> has to be more than \<open>n\<close> calls deep, whatever follows. The model's fuel is the number of tokens, so it
  always returns; the source runs on a call stack and overflows it on such an input when \<open>n\<close> is large.
\<close>

definition aggregate_tower :: "nat \<Rightarrow> token_kind list" where
  "aggregate_tower n = concat (replicate n [LBrace, TkIdent ''a''])"

lemma aggregate_needs_depth:
  "k \<le> n \<Longrightarrow> ahead p = aggregate_tower n @ LBrace # rest \<Longrightarrow> constant_fuel k p = Inl Diverges"
proof (induction k arbitrary: n p)
  case (Suc m)
  then obtain n' where n: "n = Suc n'" "m \<le> n'" by (cases n) auto
  let ?ks = "aggregate_tower n' @ LBrace # rest"
  have a: "ahead p = LBrace # TkIdent ''a'' # ?ks"
    using Suc.prems(2) by (simp add: n aggregate_tower_def)
  obtain t where t: "ps_peek p = Some t" "tk_kind t = LBrace" using ps_peek_ahead [OF a] by blast
  have name: "emit_option_name ''a'' = [TkIdent ''a'']"
    by (simp add: emit_option_name_def emit_dotted_def dot_segments_def)
  have ks: "\<exists>ks. ?ks = LBrace # ks" by (cases n') (simp_all add: aggregate_tower_def)
  have "ends (parse_option_name (advanced p)) (\<lambda>x q. x = Some ''a'' \<and> quiet (advanced p) ?ks q)"
    by (rule parse_option_name_reads) (use a ks in \<open>auto simp: name wf_option_name_def\<close>)
  then obtain q where q: "parse_option_name (advanced p) = Inr (Some ''a'', q)" "ahead q = ?ks"
    by (auto simp: ends_ex quiet_def)
  have "peek_kind q = Some LBrace" using q(2) ks by (auto simp: peek_kind_ahead)
  moreover have "constant_fuel m q = Inl Diverges" by (rule Suc.IH [OF n(2) q(2)])
  ultimately have "aggregate_step (constant_fuel m) [] (advanced p) = Inl Diverges"
    by (simp add: aggregate_step_def q(1))
  moreover have "before RBrace (advanced p)" using a by (simp add: before_ahead)
  ultimately show ?case
    by (simp add: t try_tokens_def while_tokens_def try_act_def)
qed simp

text \<open>Trees without spans.\<close>

abbreviation bare_option :: "'p proto_option \<Rightarrow> unit proto_option" where "bare_option \<equiv> map_proto_option (\<lambda>_. ())"
abbreviation bare_type :: "'p type_ref \<Rightarrow> unit type_ref" where "bare_type \<equiv> map_type_ref (\<lambda>_. ())"
abbreviation bare_field :: "'p field \<Rightarrow> unit field" where "bare_field \<equiv> map_field (\<lambda>_. ())"
abbreviation bare_ident :: "'p ident \<Rightarrow> unit ident" where "bare_ident \<equiv> map_ident (\<lambda>_. ())"

definition emit_setting :: "'p proto_option \<Rightarrow> token_kind list" where
  "emit_setting opt = emit_option_name (opt_name opt) @ Equals # emit_const (opt_value opt)"

definition emit_option :: "'p proto_option \<Rightarrow> token_kind list" where
  "emit_option opt = TkIdent ''option'' # emit_setting opt @ [Semicolon]"

definition wf_option :: "'p proto_option \<Rightarrow> bool" where
  "wf_option opt \<longleftrightarrow> wf_option_name (opt_name opt) \<and> wf_const (opt_value opt)"

lemma parse_constant_reads:
  "ahead p = emit_const c @ rest \<Longrightarrow> wf_const c \<Longrightarrow> ends (parse_constant p) (\<lambda>r q. r = Some c \<and> quiet p rest q)"
  unfolding parse_constant_def by (rule constant_reads) auto

lemma bare_option_iff: "bare_option x = opt \<longleftrightarrow> opt_name x = opt_name opt \<and> opt_value x = opt_value opt"
  by (cases x; cases opt) auto

text \<open>The tokens of a tree are read one construct after the other; a rule for each.\<close>

lemma setting_reads:
  assumes p: "ahead p = emit_setting opt @ rest" and wf: "wf_option opt"
    and f: "\<And>q. quiet p rest q \<Longrightarrow> ends (f (opt_name opt) (opt_value opt) q) Q"
  shows "ends (try_act (parse_option_name p) (\<lambda>n q. try_act (parse_constant (expected Equals q)) (\<lambda>v q. f n v q))) Q"
  unfolding ends_try_act
  by (rule ends_mono [OF parse_option_name_reads [where s = "opt_name opt" and rest = "Equals # emit_const (opt_value opt) @ rest"]])
    (use assms in \<open>auto simp: emit_setting_def wf_option_def quiet_def expected_ahead
      intro!: ends_mono [OF parse_constant_reads [where c = "opt_value opt" and rest = rest]]\<close>)

lemma option_eta [simp]: "ProtoOption () (opt_name opt) (opt_value opt) = opt"
  by (cases opt) simp

lemma parse_option_stmt_reads:
  assumes p: "ahead p = emit_option opt @ rest" and wf: "wf_option opt"
  shows "ends (parse_option_stmt p) (\<lambda>r q. (\<exists>x. r = Some x \<and> bare_option x = opt) \<and> quiet p rest q)"
  unfolding parse_option_stmt_def Let_def
  by (rule setting_reads [where opt = opt and rest = "Semicolon # rest"])
    (use assms in \<open>auto simp: emit_option_def quiet_def expected_ahead bare_option_iff\<close>)

section \<open>Fields\<close>

text \<open>The settings in the brackets behind a field.\<close>

datatype field_setting = Json_name string | Default_value const_value | Field_option "unit proto_option"

fun setting_of :: "field_setting \<Rightarrow> unit proto_option" where
  "setting_of (Json_name s) = ProtoOption () ''json_name'' (CString s)"
| "setting_of (Default_value c) = ProtoOption () ''default'' c"
| "setting_of (Field_option opt) = opt"

fun wf_setting :: "field_setting \<Rightarrow> bool" where
  "wf_setting (Field_option opt) \<longleftrightarrow> wf_option opt \<and> opt_name opt \<noteq> ''json_name'' \<and> opt_name opt \<noteq> ''default''"
| "wf_setting (Default_value c) \<longleftrightarrow> wf_const c"
| "wf_setting (Json_name s) \<longleftrightarrow> True"

type_synonym settings = "(string option \<times> const_value option) \<times> unit proto_option list"

fun add_setting :: "field_setting \<Rightarrow> settings \<Rightarrow> settings" where
  "add_setting (Json_name s) ((jn, df), opts) = ((Some s, df), opts)"
| "add_setting (Default_value c) ((jn, df), opts) = ((jn, Some c), opts)"
| "add_setting (Field_option opt) ((jn, df), opts) = ((jn, df), opts @ [opt])"

definition field_settings :: "string option \<Rightarrow> const_value option \<Rightarrow> unit proto_option list \<Rightarrow> field_setting list" where
  "field_settings jn df opts = (case jn of Some s \<Rightarrow> [Json_name s] | None \<Rightarrow> [])
     @ (case df of Some c \<Rightarrow> [Default_value c] | None \<Rightarrow> []) @ map Field_option opts"

lemma fold_field_settings: "fold add_setting (field_settings jn df opts) ((None, None), []) = ((jn, df), opts)"
proof -
  have "fold add_setting (map Field_option opts) (x, os) = (x, os @ opts)" for x os
    by (induction opts arbitrary: os) (cases x; simp)+
  then show ?thesis by (cases jn; cases df) (simp_all add: field_settings_def)
qed

definition emit_settings :: "field_setting list \<Rightarrow> token_kind list" where
  "emit_settings xs = (if xs = [] then [] else LBracket # commas (map (\<lambda>x. emit_setting (setting_of x)) xs) @ [RBracket])"

text \<open>Erased results of the loop: the settings read so far.\<close>

definition settings_are :: "settings \<Rightarrow> field_extras \<times> span proto_option list \<Rightarrow> bool" where
  "settings_are a s \<longleftrightarrow> (fst s, map bare_option (snd s)) = a"

lemma emit_keyword_name: "emit_option_name ''json_name'' = [TkIdent ''json_name'']" "emit_option_name ''default'' = [TkIdent ''default'']"
  by (simp_all add: emit_option_name_def emit_dotted_def dot_segments_def)

lemma wf_option_setting: "wf_setting x \<Longrightarrow> wf_option (setting_of x)"
  by (cases x) (simp_all add: wf_option_def wf_option_name_def)

lemma field_options_step_reads:
  assumes q: "ahead q = emit_setting (setting_of x) @ rest" and wf: "wf_setting x" and s: "settings_are a s"
    and r: "rest \<noteq> []"
  shows "ends (field_options_step s q) (\<lambda>f r. \<exists>s'. f = Continue s' \<and> settings_are (add_setting x a) s'
    \<and> quiet q (if hd rest = Comma then tl rest else rest) r)"
proof -
  have *: "ends (parse_option_name q) (\<lambda>n r. n = Some (opt_name (setting_of x)) \<and> quiet q (Equals # emit_const (opt_value (setting_of x)) @ rest) r)"
    using q wf_option_setting [OF wf] by (intro parse_option_name_reads) (auto simp: emit_setting_def wf_option_def)
  have c: "ends (parse_constant r) (\<lambda>v r'. v = Some (opt_value (setting_of x)) \<and> quiet r rest r')"
    if "ahead r = emit_const (opt_value (setting_of x)) @ rest" for r
    using that wf_option_setting [OF wf] by (intro parse_constant_reads) (auto simp: wf_option_def)
  obtain k ks where "rest = k # ks" using r by (cases rest) auto
  have n: "opt_name (setting_of x) = ''json_name'' \<longleftrightarrow> (\<exists>t. x = Json_name t)"
    "opt_name (setting_of x) = ''default'' \<longleftrightarrow> (\<exists>t. x = Default_value t)"
    using wf by (cases x; simp)+
  obtain jn df opts where s': "s = ((jn, df), opts)" by (metis surj_pair)
  show ?thesis
    unfolding field_options_step_def parse_field_option_def Let_def
    using s s' \<open>rest = k # ks\<close> wf
    by (cases x)
      (auto simp: n settings_are_def bare_option_iff expected_ahead peek_kind_ahead quiet_def
        intro!: ends_mono [OF *] ends_mono [OF c])
qed


lemma parse_field_options_reads:
  assumes p: "ahead p = emit_settings (field_settings jn df opts) @ rest"
    and wf: "list_all wf_setting (field_settings jn df opts)" and r: "hd rest \<noteq> LBracket"
  shows "ends (parse_field_options p) (\<lambda>s q. fst s = (jn, df) \<and> map bare_option (snd s) = opts \<and> quiet p rest q)"
proof (cases "field_settings jn df opts = []")
  case True
  then have "jn = None" "df = None" "opts = []" by (auto simp: field_settings_def split: option.splits)
  with p r True show ?thesis
    by (cases rest) (auto simp: parse_field_options_def emit_settings_def peek_kind_ahead quiet_def)
next
  case False
  have "ends (while_tokens (before RBracket) field_options_step ((None, None), []) (advanced p))
      (\<lambda>s' q. settings_are (fold add_setting (field_settings jn df opts) ((None, None), [])) s'
        \<and> quiet (advanced p) (RBracket # rest) q)"
  proof (rule while_commas [where R = settings_are and emit = "\<lambda>x. emit_setting (setting_of x)"])
    fix x a s q rest'
    assume x: "x \<in> set (field_settings jn df opts)" "settings_are a s" "ahead q = emit_setting (setting_of x) @ rest'" "rest' \<noteq> []"
    moreover have "before RBracket q"
      using x(3) emit_option_name_Cons [of "opt_name (setting_of x)"] by (auto simp: before_ahead emit_setting_def)
    ultimately show "before RBracket q \<and> ends (field_options_step s q) (\<lambda>f r. \<exists>s'. f = Continue s'
        \<and> settings_are (add_setting x a) s' \<and> quiet q (if hd rest' = Comma then tl rest' else rest') r)"
      using field_options_step_reads [of q x rest' a s] wf by (simp add: list_all_iff)
  qed (use p False in \<open>auto simp: emit_settings_def emit_setting_def settings_are_def\<close>)
  with p False show ?thesis
    by (auto simp: parse_field_options_def emit_settings_def peek_kind_ahead quiet_def settings_are_def
        fold_field_settings expected_ahead elim!: ends_mono)
qed

fun emit_type :: "'p type_ref \<Rightarrow> token_kind list" where
  "emit_type (TScalar t) = [TkIdent (ScalarType_as_str t)]"
| "emit_type (TNamed n) = emit_name (id_name n)"

definition first_word :: "'p type_ref \<Rightarrow> string option" where
  "first_word ty = (case hd (emit_type ty) of TkIdent s \<Rightarrow> Some s | _ \<Rightarrow> None)"

fun wf_type :: "'p type_ref \<Rightarrow> bool" where
  "wf_type (TNamed n) \<longleftrightarrow> (case first_word (TNamed n) of Some s \<Rightarrow> ScalarType_from_keyword s = None | None \<Rightarrow> True)"
| "wf_type (TScalar t) \<longleftrightarrow> True"

lemma type_segments_reads:
  assumes "ahead p = dot_segments ss @ rest" "no_dot rest"
  shows "ends (type_segments name p) (\<lambda>s q. s = Some (dot_join name ss) \<and> quiet p rest q)"
proof -
  have "ends (type_segments name p) (\<lambda>s' q. \<exists>t. s' = Some t \<and> t = fold (\<lambda>x a. a @ ''.'' @ x) ss name \<and> quiet p rest q)"
    unfolding type_segments_def
    by (rule try_tokens_items [where R = "\<lambda>a s. s = a" and emit = "\<lambda>s. [Dot, TkIdent s]" and xs = ss])
      (use assms in \<open>auto simp: dot_segments_def quiet_def peek_kind_ahead no_dot_def dest!: segment_ahead
        split: list.splits\<close>)
  then show ?thesis by (auto simp: dot_join_def elim!: ends_mono)
qed

lemma bare_ident_eq: "bare_ident x = Ident (id_name x) ()"
  by (cases x) auto

lemma parse_type_ref_reads:
  assumes p: "ahead p = emit_type ty @ rest" and "no_dot rest" and wf: "wf_type ty"
  shows "ends (parse_type_ref p) (\<lambda>r q. (\<exists>x. r = Some x \<and> bare_type x = bare_type ty) \<and> quiet p rest q)"
proof (cases ty)
  case (TScalar t)
  with leaf_ahead [of p "TkIdent (ScalarType_as_str t)"] p show ?thesis
    by (auto simp: parse_type_ref_def quiet_def)
next
  case (TNamed n)
  define s where "s = id_name n"
  define dot where "dot = (take 1 s = ''.'')"
  define r where "r = (if dot then tl s else s)"
  have s: "emit_name s = (if dot then Dot # emit_dotted r else emit_dotted r)" "s = (if dot then ''.'' @ r else r)"
    by (cases s; auto simp: emit_name_def dot_def r_def)+
  let ?w = "hd (dot_split r)" and ?ss = "tl (dot_split r)"
  let ?p = "if dot then advanced p else p"
  have p': "ahead ?p = TkIdent ?w # dot_segments ?ss @ rest"
    using p TNamed s by (auto simp: s_def [symmetric] emit_dotted_def)
  obtain t where t: "ps_peek p = Some t" "tk_kind t = (if dot then Dot else TkIdent ?w)"
    using p TNamed s leaf_ahead [of p] by (cases dot) (auto simp: s_def [symmetric] emit_dotted_def)
  have kw: "\<not> dot \<Longrightarrow> ScalarType_from_keyword ?w = None"
    using wf TNamed s by (auto simp: first_word_def s_def [symmetric] emit_dotted_def)
  have tail: "ends (type_segments (x @ ?w) q) (\<lambda>o1 q'. o1 = Some (x @ r) \<and> quiet q rest q')"
    if "ahead q = dot_segments ?ss @ rest" for x q
    using type_segments_reads [OF that assms(2), of "x @ ?w"] dot_join_split [of r] by (simp add: dot_join_eq)
  have "peek_kind p = Some Dot \<longleftrightarrow> dot" using t by (auto simp: peek_kind_def)
  with t kw p' s show ?thesis
    unfolding parse_type_ref_def TNamed
    by (auto simp: ends_try_act bare_ident_eq s_def [symmetric] quiet_def
        intro!: try_expect_ident [where ks = "dot_segments ?ss @ rest"]
          ends_mono [OF tail [of _ "''.''", simplified]] ends_mono [OF tail [of _ "[]", simplified]] split: if_splits)
qed


fun emit_label :: "label \<Rightarrow> token_kind list" where
  "emit_label LabelOptional = [TkIdent ''optional'']"
| "emit_label LabelRequired = [TkIdent ''required'']"
| "emit_label LabelRepeated = [TkIdent ''repeated'']"
| "emit_label LabelSingular = []"

definition emit_numbered :: "unit ident \<Rightarrow> int \<Rightarrow> field_setting list \<Rightarrow> token_kind list" where
  "emit_numbered name n xs = TkIdent (id_name name) # Equals # TkInt n # emit_settings xs @ [Semicolon]"

definition all_settings :: "unit field \<Rightarrow> field_setting list" where
  "all_settings f = field_settings (fd_json_name f) (fd_default f) (fd_options f)"

definition emit_field :: "unit field \<Rightarrow> token_kind list" where
  "emit_field f = emit_label (fd_label f) @ emit_type (fd_ty f) @ emit_numbered (fd_name f) (fd_number f) (all_settings f)"

text \<open>A type without a label must not look like one.\<close>

definition wf_field :: "unit field \<Rightarrow> bool" where
  "wf_field f \<longleftrightarrow> wf_type (fd_ty f) \<and> list_all wf_setting (all_settings f)
     \<and> (fd_label f = LabelSingular \<longrightarrow> first_word (fd_ty f) \<notin> {Some ''optional'', Some ''required'', Some ''repeated''})"

lemma type_reads:
  assumes "ahead p = emit_type ty @ rest" "no_dot rest" "wf_type ty"
    and "\<And>x q. bare_type x = bare_type ty \<Longrightarrow> quiet p rest q \<Longrightarrow> ends (f x q) Q"
  shows "ends (try_act (parse_type_ref p) f) Q"
  unfolding ends_try_act
  by (rule ends_mono [OF parse_type_ref_reads [OF assms(1-3)]]) (auto intro: assms(4))

lemma emit_type_ne [simp]: "emit_type ty \<noteq> []"
  by (cases ty) (auto simp: emit_name_def emit_dotted_def split: list.split)

lemma ident_eta [simp]: "Ident (id_name i) () = i"
  by (cases i) simp

lemma parse_label_reads:
  assumes "ahead p = emit_label lbl @ emit_type ty @ rest"
    and "lbl = LabelSingular \<longrightarrow> first_word ty \<notin> {Some ''optional'', Some ''required'', Some ''repeated''}"
  shows "\<exists>q. parse_label p = (lbl, q) \<and> quiet p (emit_type ty @ rest) q"
proof -
  obtain k ks where "emit_type ty = k # ks"
    using emit_type_ne [of ty] by (cases "emit_type ty") auto
  with assms show ?thesis
    by (cases lbl) (auto simp: parse_label_def at_keyword_ahead quiet_def first_word_def)
qed

text \<open>The name, number and settings with which a field, a map field and an enum value end.\<close>

lemma numbered_reads:
  assumes p: "ahead p = emit_numbered name n (field_settings jn df opts) @ rest"
    and wf: "list_all wf_setting (field_settings jn df opts)"
    and Q: "\<And>i os q. bare_ident i = name \<Longrightarrow> map bare_option os = opts
      \<Longrightarrow> quiet p (Semicolon # rest) q \<Longrightarrow> ends (g i n (((jn, df), os), q)) Q"
  shows "ends (try_opt (expect_ident p) (\<lambda>i p. try_opt (take_int msg (expected Equals p)) (\<lambda>n p.
    bind_result (parse_field_options p) (g i n)))) Q"
proof (rule try_expect_ident)
  show ahead: "ahead p = TkIdent (id_name name) # Equals # TkInt n # emit_settings (field_settings jn df opts) @ Semicolon # rest"
    using p by (simp add: emit_numbered_def)
  fix sp
  have "ends (parse_field_options (advanced (advanced (advanced p))))
      (\<lambda>s q. fst s = (jn, df) \<and> map bare_option (snd s) = opts \<and> quiet (advanced (advanced (advanced p))) (Semicolon # rest) q)"
    by (rule parse_field_options_reads) (use ahead wf in simp_all)
  then show "ends (try_opt (take_int msg (expected Equals (advanced p))) (\<lambda>m p. bind_result (parse_field_options p)
      (g (Ident (id_name name) sp) m))) Q"
    using ahead Q [of "Ident (id_name name) sp"]
    by (auto simp: expected_ahead take_int_ahead try_opt_def quiet_def elim!: ends_mono)
qed

lemma emit_numbered_no_dot: "no_dot (emit_numbered name n xs @ rest)"
  by (simp add: emit_numbered_def)

lemma bare_field_iff:
  "bare_field x = f \<longleftrightarrow> bare_ident (fd_name x) = fd_name f \<and> fd_number x = fd_number f \<and> bare_type (fd_ty x) = fd_ty f
     \<and> fd_label x = fd_label f \<and> fd_json_name x = fd_json_name f \<and> fd_default x = fd_default f
     \<and> map bare_option (fd_options x) = fd_options f"
  by (cases x; cases f) auto

lemma bare_type_unit [simp]: "bare_type ty = ty" for ty :: "unit type_ref"
  by (cases ty) (auto simp: bare_ident_eq)

text \<open>A field as it stands in a message or, without JSON name and default, in a oneof.\<close>

lemma labelled_field_reads:
  assumes p: "ahead p = emit_field f @ rest" and wf: "wf_field f"
    and Q: "\<And>i (x :: span type_ref) os q. bare_ident i = fd_name f \<Longrightarrow> bare_type x = fd_ty f \<Longrightarrow> map bare_option os = fd_options f
      \<Longrightarrow> quiet p (Semicolon # rest) q
      \<Longrightarrow> ends (g (fd_label f) x i (fd_number f) (((fd_json_name f, fd_default f), os), q)) Q"
  shows "ends (case parse_label p of (lbl, p) \<Rightarrow> try_act (parse_type_ref p) (\<lambda>ty p. try_opt (expect_ident p) (\<lambda>i p.
    try_opt (take_int msg (expected Equals p)) (\<lambda>n p. bind_result (parse_field_options p) (g lbl ty i n))))) Q"
proof -
  let ?num = "emit_numbered (fd_name f) (fd_number f) (field_settings (fd_json_name f) (fd_default f) (fd_options f))"
  have p': "ahead p = emit_label (fd_label f) @ emit_type (fd_ty f) @ ?num @ rest"
    using p by (simp add: emit_field_def all_settings_def)
  obtain q where q: "parse_label p = (fd_label f, q)" "quiet p (emit_type (fd_ty f) @ ?num @ rest) q"
    using parse_label_reads [OF p'] wf by (auto simp: wf_field_def)
  show ?thesis
    unfolding q(1) prod.case
  proof (rule type_reads)
    show "ahead q = emit_type (fd_ty f) @ ?num @ rest" using q(2) by (simp add: quiet_def)
    show "no_dot (?num @ rest)" by (rule emit_numbered_no_dot)
    fix x :: "span type_ref" and r
    assume x: "bare_type x = bare_type (fd_ty f)" "quiet q (?num @ rest) r"
    show "ends (try_opt (expect_ident r) (\<lambda>i p. try_opt (take_int msg (expected Equals p)) (\<lambda>n p.
        bind_result (parse_field_options p) (g (fd_label f) x i n)))) Q"
      by (rule numbered_reads [where jn = "fd_json_name f" and df = "fd_default f" and opts = "fd_options f" and rest = rest])
        (use x q wf Q in \<open>auto simp: quiet_def wf_field_def all_settings_def\<close>)
  qed (use wf in \<open>simp add: wf_field_def\<close>)
qed

lemma parse_field_reads:
  assumes p: "ahead p = emit_field f @ rest" and wf: "wf_field f"
  shows "ends (parse_field p) (\<lambda>r q. (\<exists>x. r = Some x \<and> bare_field x = f) \<and> quiet p rest q)"
  unfolding parse_field_def Let_def
  by (rule labelled_field_reads [OF assms]) (auto simp: bare_field_iff quiet_def expected_ahead)


section \<open>Oneofs, map fields, ranges\<close>

abbreviation bare_oneof :: "'p oneof \<Rightarrow> unit oneof" where "bare_oneof \<equiv> map_oneof (\<lambda>_. ())"
abbreviation bare_map_field :: "'p map_field \<Rightarrow> unit map_field" where "bare_map_field \<equiv> map_map_field (\<lambda>_. ())"

definition emit_block :: "token_kind list list \<Rightarrow> token_kind list" where
  "emit_block kss = LBrace # concat kss @ [RBrace]"

definition emit_oneof :: "unit oneof \<Rightarrow> token_kind list" where
  "emit_oneof oo = TkIdent ''oneof'' # TkIdent (id_name (oo_name oo)) # concat (map emit_option (oo_options oo))
     @ emit_block (map emit_field (oo_fields oo))"

text \<open>The code reads at most one option, in front of the body, and drops JSON names and defaults.\<close>

definition wf_oneof :: "unit oneof \<Rightarrow> bool" where
  "wf_oneof oo \<longleftrightarrow> length (oo_options oo) \<le> 1 \<and> list_all wf_option (oo_options oo)
     \<and> list_all (\<lambda>f. wf_field f \<and> fd_json_name f = None \<and> fd_default f = None) (oo_fields oo)"

lemma emit_type_not_brace: "k # ks = emit_type ty \<Longrightarrow> k \<noteq> RBrace"
  by (cases ty) (auto simp: emit_name_def emit_dotted_def split: list.splits if_splits)

lemma emit_field_Cons: "\<exists>k ks. emit_field f = k # ks \<and> k \<noteq> RBrace"
proof (cases "emit_label (fd_label f)")
  case Nil
  obtain k ks where "emit_type (fd_ty f) = k # ks" using emit_type_ne by (cases "emit_type (fd_ty f)") auto
  with Nil emit_type_not_brace [of k ks "fd_ty f"] show ?thesis by (auto simp: emit_field_def)
next
  case (Cons k ks)
  then show ?thesis by (cases "fd_label f") (auto simp: emit_field_def)
qed

lemma oneof_step_reads:
  assumes "ahead p = emit_field f @ rest" "wf_field f" "fd_json_name f = None" "fd_default f = None"
  shows "ends (oneof_step sp fs p) (\<lambda>r q. \<exists>x. r = Continue (Some (fs @ [x])) \<and> bare_field x = f \<and> quiet p rest q)"
  unfolding oneof_step_def Let_def ends_bind
  by (rule labelled_field_reads [OF assms(1,2)]) (use assms in \<open>auto simp: bare_field_iff quiet_def expected_ahead\<close>)

lemma oneof_fields_reads:
  assumes "ahead p = concat (map emit_field fs) @ RBrace # rest"
    and "list_all (\<lambda>f. wf_field f \<and> fd_json_name f = None \<and> fd_default f = None) fs"
  shows "ends (try_tokens (before RBrace) (oneof_step sp) [] p)
    (\<lambda>r q. \<exists>xs. r = Some xs \<and> map bare_field xs = fs \<and> quiet p (RBrace # rest) q)"
proof -
  have "ends (try_tokens (before RBrace) (oneof_step sp) [] p)
    (\<lambda>r q. \<exists>t. r = Some t \<and> map bare_field t = fold (\<lambda>x a. a @ [id x]) fs [] \<and> quiet p (RBrace # rest) q)"
  proof (rule try_tokens_items [where R = "\<lambda>a t. map bare_field t = a" and emit = emit_field])
    fix x a and s :: "span field list" and q rest'
    assume "x \<in> set fs" "map bare_field s = a" "ahead q = emit_field x @ rest'"
    with assms(2) emit_field_Cons [of x] show "before RBrace q \<and> ends (oneof_step sp s q)
        (\<lambda>f r. \<exists>s'. f = Continue (Some s') \<and> map bare_field s' = a @ [id x] \<and> quiet q rest' r)"
      by (auto simp: list_all_iff before_ahead intro!: ends_mono [OF oneof_step_reads])
  next
    show "emit_field x \<noteq> []" for x using emit_field_Cons [of x] by auto
  qed (use assms in \<open>auto simp: before_RBrace\<close>)
  then show ?thesis by (rule ends_mono) (simp add: fold_snoc)
qed

lemma parse_oneof_reads:
  assumes p: "ahead p = emit_oneof oo @ rest" and wf: "wf_oneof oo"
  shows "ends (parse_oneof p) (\<lambda>r q. (\<exists>x. r = Some x \<and> bare_oneof x = oo) \<and> quiet p rest q)"
proof -
  obtain n fs opts where oo: "oo = Oneof () n fs opts" by (cases oo) auto
  have body: "ends (try_tokens (before RBrace) (oneof_step sp) [] q)
      (\<lambda>r q'. \<exists>xs. r = Some xs \<and> map bare_field xs = fs \<and> quiet q (RBrace # rest) q')"
    if "ahead q = concat (map emit_field fs) @ RBrace # rest" for sp q
    using that wf oo by (intro oneof_fields_reads) (auto simp: wf_oneof_def)
  show ?thesis
  proof (cases opts)
    case Nil
    with p oo show ?thesis
      unfolding parse_oneof_def Let_def
      by (auto simp: emit_oneof_def emit_block_def at_keyword_ahead ends_try_act quiet_def expected_ahead
          intro!: try_expect_ident ends_mono [OF body])
  next
    case (Cons opt os)
    with oo wf have opts: "opts = [opt]" "wf_option opt" by (auto simp: wf_oneof_def)
    let ?rest = "LBrace # concat (map emit_field fs) @ RBrace # rest"
    have p': "ahead p = TkIdent ''oneof'' # TkIdent (id_name n) # emit_option opt @ ?rest"
      using p oo opts by (simp add: emit_oneof_def emit_block_def)
    have opt: "ends (parse_option_stmt q) (\<lambda>r q'. (\<exists>x. r = Some x \<and> bare_option x = opt) \<and> quiet q ?rest q')"
      if "ahead q = emit_option opt @ ?rest" for q
      using that opts(2) by (rule parse_option_stmt_reads)
    have kw: "at_keyword q ''option''" if "ahead q = emit_option opt @ ?rest" for q
      using that by (simp add: at_keyword_ahead emit_option_def)
    show ?thesis
      unfolding parse_oneof_def Let_def
      by (rule try_expect_ident [where s = "id_name n" and ks = "emit_option opt @ ?rest"])
        (use p' oo opts in \<open>auto simp: kw ends_try_act quiet_def expected_ahead
          intro!: ends_mono [OF opt] ends_mono [OF body]\<close>)
  qed
qed

definition emit_map_field :: "unit map_field \<Rightarrow> token_kind list" where
  "emit_map_field mf = TkIdent ''map'' # Lt # emit_type (mf_key mf) @ Comma # emit_type (mf_value mf) @ Gt
     # emit_numbered (mf_name mf) (mf_number mf) (field_settings None None (mf_options mf))"

definition wf_map_field :: "unit map_field \<Rightarrow> bool" where
  "wf_map_field mf \<longleftrightarrow> wf_type (mf_key mf) \<and> wf_type (mf_value mf)
     \<and> list_all wf_setting (field_settings None None (mf_options mf))"

lemma bare_map_field_iff:
  "bare_map_field x = mf \<longleftrightarrow> bare_ident (mf_name x) = mf_name mf \<and> mf_number x = mf_number mf
     \<and> bare_type (mf_key x) = mf_key mf \<and> bare_type (mf_value x) = mf_value mf \<and> map bare_option (mf_options x) = mf_options mf"
  by (cases x; cases mf) auto

lemma parse_map_reads:
  assumes p: "ahead p = emit_map_field mf @ rest" and wf: "wf_map_field mf"
  shows "ends (parse_map p) (\<lambda>r q. (\<exists>x. r = Some x \<and> bare_map_field x = mf) \<and> quiet p rest q)"
proof -
  let ?num = "emit_numbered (mf_name mf) (mf_number mf) (field_settings None None (mf_options mf))"
  have num: "ends (try_opt (expect_ident q) (\<lambda>i p. try_opt (take_int ''expected field number'' (expected Equals p)) (\<lambda>n p.
      bind_result (parse_field_options p) (g i n)))) Q"
    if "ahead q = ?num @ rest" "\<And>i os r. bare_ident i = mf_name mf \<Longrightarrow> map bare_option os = mf_options mf
      \<Longrightarrow> quiet q (Semicolon # rest) r \<Longrightarrow> ends (g i (mf_number mf) (((None, None), os), r)) Q" for q g Q
    using that wf by (intro numbered_reads [where rest = rest]) (auto simp: wf_map_field_def)
  have start: "ahead (expected Lt (advanced p)) = emit_type (mf_key mf) @ Comma # emit_type (mf_value mf) @ Gt # ?num @ rest"
    "ps_diags (expected Lt (advanced p)) = ps_diags p"
    using p by (simp_all add: emit_map_field_def expected_ahead)
  show ?thesis
    unfolding parse_map_def Let_def
    by (rule type_reads [OF start(1)])
      (use start wf in \<open>auto simp: wf_map_field_def quiet_def expected_ahead bare_map_field_iff
        intro!: type_reads [where ty = "mf_value mf" and rest = "Gt # ?num @ rest"] num\<close>)
qed

definition emit_range :: "int_range \<Rightarrow> token_kind list" where
  "emit_range r = TkInt (ir_start r) # (case ir_end r of None \<Rightarrow> [] | Some e \<Rightarrow> [TkIdent ''to'', TkInt e])"

definition emit_ranges :: "int_range list \<Rightarrow> token_kind list" where
  "emit_ranges rs = commas (map emit_range rs)"

lemma range_end_reads:
  assumes "ahead p = (case e of None \<Rightarrow> [] | Some e \<Rightarrow> [TkIdent ''to'', TkInt e]) @ k # ks" "k = Comma \<or> k = Semicolon"
  shows "\<exists>q. range_end p = (e, q) \<and> quiet p (k # ks) q"
  using assms by (auto simp: range_end_def at_keyword_ahead peek_kind_ahead quiet_def split: option.splits)

lemma ranges_step_reads:
  assumes "ahead p = emit_range r @ k # ks" "k = Comma \<or> k = Semicolon"
  shows "ends (ranges_step rs p) (\<lambda>f q. if k = Comma then f = Continue (rs @ [r]) \<and> quiet p ks q
    else f = Break (rs @ [r]) \<and> quiet p (k # ks) q)"
proof -
  have p: "ahead p = TkInt (ir_start r) # (case ir_end r of None \<Rightarrow> [] | Some e \<Rightarrow> [TkIdent ''to'', TkInt e]) @ k # ks"
    using assms(1) by (simp add: emit_range_def)
  obtain q where q: "range_end (advanced p) = (ir_end r, q)" "quiet (advanced p) (k # ks) q"
    using range_end_reads [of "advanced p" "ir_end r" k ks] p assms(2) by auto
  have "peek_kind q = Some k" using q by (simp add: peek_kind_ahead quiet_def)
  then show ?thesis
    using q assms(2) by (auto simp: ranges_step_def take_int_ahead [OF p] quiet_def)
qed

lemma parse_ranges_reads:
  assumes "ahead p = emit_ranges rs @ Semicolon # rest" "rs \<noteq> []"
  shows "ends (parse_ranges p) (\<lambda>r q. r = rs \<and> quiet p (Semicolon # rest) q)"
proof -
  obtain ys y where rs: "rs = ys @ [y]" using assms(2) by (cases rs rule: rev_cases) auto
  have "ends (parse_ranges p) (\<lambda>r q. r = fold (\<lambda>x a. a @ [id x]) ys [] @ [y] \<and> quiet p (Semicolon # rest) q)"
    unfolding parse_ranges_def
  proof (rule while_items_last [where R = "\<lambda>a s. s = a" and emit = "\<lambda>r. emit_range r @ [Comma]" and xs = ys
        and stop = "emit_range y @ Semicolon # rest" and fin = "\<lambda>a. a @ [y]" and rest = "Semicolon # rest"])
    fix x and a s :: "int_range list" and q rest' assume "s = a" "ahead q = (emit_range x @ [Comma]) @ rest'"
    with ranges_step_reads [of q x Comma rest' s] show "True \<and> ends (ranges_step s q)
        (\<lambda>f r. \<exists>s'. f = Continue s' \<and> s' = a @ [id x] \<and> quiet q rest' r)" by simp
  next
    fix a s :: "int_range list" and q assume "s = a" "ahead q = emit_range y @ Semicolon # rest"
    with ranges_step_reads [of q y Semicolon rest s] show "True \<and> ends (ranges_step s q)
        (\<lambda>f r. \<exists>s'. f = Break s' \<and> s' = a @ [y] \<and> quiet q (Semicolon # rest) r)" by simp
  qed (use assms rs in \<open>simp_all add: emit_ranges_def commas_snoc comp_def\<close>)
  then show ?thesis by (rule ends_mono) (simp add: fold_snoc rs)
qed


section \<open>Reserved statements and enums\<close>

definition emit_reserved_names :: "unit ident list \<Rightarrow> token_kind list" where
  "emit_reserved_names ns = TkIdent ''reserved'' # commas (map (\<lambda>n. [TkStr (id_name n)]) ns) @ [Semicolon]"

definition emit_reserved_ranges :: "int_range list \<Rightarrow> token_kind list" where
  "emit_reserved_ranges rs = TkIdent ''reserved'' # emit_ranges rs @ [Semicolon]"

lemma reserved_names_step_reads:
  assumes "ahead p = TkStr s # k # ks" "k = Comma \<or> k = Semicolon"
  shows "ends (reserved_names_step sp ns p) (\<lambda>f q. \<exists>x. bare_ident x = Ident s () \<and>
    (if k = Comma then f = Continue (ns @ [x]) \<and> quiet p ks q else f = Break (ns @ [x]) \<and> quiet p (k # ks) q))"
  using assms by (auto simp: reserved_names_step_def peek_kind_ahead quiet_def Let_def)

lemma parse_reserved_names_reads:
  assumes p: "ahead p = emit_reserved_names ns @ rest" and ne: "ns \<noteq> []"
  shows "ends (parse_reserved sp (names, rs) p) (\<lambda>r q. (\<exists>xs. r = (names @ xs, rs) \<and> map bare_ident xs = ns) \<and> quiet p rest q)"
proof -
  obtain ys y where ns: "ns = ys @ [y]" using ne by (cases ns rule: rev_cases) auto
  have p': "ahead (advanced p) = concat (map (\<lambda>n. [TkStr (id_name n), Comma]) ys) @ TkStr (id_name y) # Semicolon # rest"
    using p ns by (simp add: emit_reserved_names_def commas_snoc comp_def)
  have "ends (while_tokens (\<lambda>_. True) (reserved_names_step sp) names (advanced p))
      (\<lambda>s' q. (\<exists>xs. s' = names @ xs \<and> map bare_ident xs = fold (\<lambda>x a. a @ [id x]) ys [] @ [y]) \<and> quiet (advanced p) (Semicolon # rest) q)"
  proof (rule while_items_last [where R = "\<lambda>a s. \<exists>xs. s = names @ xs \<and> map bare_ident xs = a" and emit = "\<lambda>n. [TkStr (id_name n), Comma]"
        and xs = ys and stop = "TkStr (id_name y) # Semicolon # rest" and fin = "\<lambda>a. a @ [y]" and rest = "Semicolon # rest"])
    fix x :: "unit ident" and a s q rest' assume "\<exists>xs. s = names @ xs \<and> map bare_ident xs = a" "ahead q = [TkStr (id_name x), Comma] @ rest'"
    with reserved_names_step_reads [of q "id_name x" Comma rest' sp s] show "True \<and> ends (reserved_names_step sp s q)
        (\<lambda>f r. \<exists>s'. f = Continue s' \<and> (\<exists>xs. s' = names @ xs \<and> map bare_ident xs = a @ [id x]) \<and> quiet q rest' r)"
      by (auto elim!: ends_mono)
  next
    fix a s q assume "\<exists>xs. s = names @ xs \<and> map bare_ident xs = a" "ahead q = TkStr (id_name y) # Semicolon # rest"
    with reserved_names_step_reads [of q "id_name y" Semicolon rest sp s] show "True \<and> ends (reserved_names_step sp s q)
        (\<lambda>f r. \<exists>s'. f = Break s' \<and> (\<exists>xs. s' = names @ xs \<and> map bare_ident xs = a @ [y]) \<and> quiet q (Semicolon # rest) r)"
      by (auto elim!: ends_mono)
  qed (use p' in auto)
  moreover have "at_string (advanced p)"
    using p' by (cases ys) (simp_all add: at_string_def peek_kind_ahead)
  ultimately show ?thesis
    by (auto simp: parse_reserved_def Let_def fold_snoc ns quiet_def expected_ahead elim!: ends_mono)
qed

lemma parse_reserved_ranges_reads:
  assumes p: "ahead p = emit_reserved_ranges rs @ rest" and ne: "rs \<noteq> []"
  shows "ends (parse_reserved sp (names, old) p) (\<lambda>r q. r = (names, rs) \<and> quiet p rest q)"
proof -
  have p': "ahead (advanced p) = emit_ranges rs @ Semicolon # rest"
    using p by (simp add: emit_reserved_ranges_def)
  have "\<not> at_string (advanced p)"
    using p' ne by (cases rs rule: rev_cases; cases "butlast rs")
      (auto simp: at_string_def peek_kind_ahead emit_ranges_def commas_snoc emit_range_def)
  with p' show ?thesis
    by (auto simp: parse_reserved_def Let_def quiet_def expected_ahead
        intro!: ends_mono [OF parse_ranges_reads [OF p' ne]])
qed

definition emit_extensions :: "int_range list \<Rightarrow> token_kind list" where
  "emit_extensions rs = TkIdent ''extensions'' # emit_ranges rs @ [Semicolon]"

lemma parse_extensions_reads:
  assumes p: "ahead p = emit_extensions rs @ rest" and ne: "rs \<noteq> []"
  shows "ends (parse_extensions p) (\<lambda>r q. r = rs \<and> quiet p rest q)"
proof -
  have p': "ahead (advanced p) = emit_ranges rs @ Semicolon # rest"
    using p by (simp add: emit_extensions_def)
  then show ?thesis
    by (auto simp: parse_extensions_def quiet_def expected_ahead intro!: ends_mono [OF parse_ranges_reads [OF p' ne]])
qed

text \<open>The statements of an enum, and what each adds.\<close>

abbreviation bare_enum :: "'p enum \<Rightarrow> unit enum" where "bare_enum \<equiv> map_enum (\<lambda>_. ())"
abbreviation bare_value :: "'p enum_value \<Rightarrow> unit enum_value" where "bare_value \<equiv> map_enum_value (\<lambda>_. ())"

datatype enum_item =
    EI_option "unit proto_option" | EI_names "unit ident list" | EI_ranges "int_range list" | EI_value "unit enum_value"

definition sets_alias :: "'p proto_option \<Rightarrow> bool" where
  "sets_alias opt \<longleftrightarrow> opt_name opt = ''allow_alias'' \<and> opt_value opt = CBool True"

fun emit_enum_item :: "enum_item \<Rightarrow> token_kind list" where
  "emit_enum_item (EI_option opt) = emit_option opt"
| "emit_enum_item (EI_names ns) = emit_reserved_names ns"
| "emit_enum_item (EI_ranges rs) = emit_reserved_ranges rs"
| "emit_enum_item (EI_value v) = emit_numbered (ev_name v) (ev_number v) (field_settings None None (ev_options v))"

fun wf_enum_item :: "enum_item \<Rightarrow> bool" where
  "wf_enum_item (EI_option opt) \<longleftrightarrow> wf_option opt"
| "wf_enum_item (EI_names ns) \<longleftrightarrow> ns \<noteq> []"
| "wf_enum_item (EI_ranges rs) \<longleftrightarrow> rs \<noteq> []"
| "wf_enum_item (EI_value v) \<longleftrightarrow> id_name (ev_name v) \<notin> {''option'', ''reserved''}
     \<and> list_all wf_setting (field_settings None None (ev_options v))"

fun add_enum_item :: "enum_item \<Rightarrow> unit enum \<Rightarrow> unit enum" where
  "add_enum_item (EI_option opt) (Enum sp n vs rr rn opts al) = Enum sp n vs rr rn (opts @ [opt]) (al \<or> sets_alias opt)"
| "add_enum_item (EI_names ns) (Enum sp n vs rr rn opts al) = Enum sp n vs rr (rn @ ns) opts al"
| "add_enum_item (EI_ranges rs) (Enum sp n vs rr rn opts al) = Enum sp n vs rs rn opts al"
| "add_enum_item (EI_value v) (Enum sp n vs rr rn opts al) = Enum sp n (vs @ [v]) rr rn opts al"

lemma parse_enum_value_reads:
  assumes "ahead p = emit_numbered (ev_name v) (ev_number v) (field_settings None None (ev_options v)) @ rest"
    and "list_all wf_setting (field_settings None None (ev_options v))"
  shows "ends (parse_enum_value sp p) (\<lambda>r q. (\<exists>x. r = Some x \<and> bare_value x = v) \<and> quiet p rest q)"
  unfolding parse_enum_value_def
  by (rule numbered_reads [OF assms]) (cases v, auto simp: quiet_def expected_ahead)

lemma enum_step_reads:
  assumes q: "ahead q = emit_enum_item x @ rest" and wf: "wf_enum_item x" and s: "bare_enum s = a"
  shows "ends (enum_step sp s q) (\<lambda>f r. \<exists>s'. f = Continue (Some s') \<and> bare_enum s' = add_enum_item x a \<and> quiet q rest r)"
proof -
  obtain esp n vs rr rn opts al where s': "s = Enum esp n vs rr rn opts al" by (cases s)
  show ?thesis
  proof (cases x)
    case (EI_option opt)
    with q wf have o: "ahead q = emit_option opt @ rest" "wf_option opt" by simp_all
    have "at_keyword q ''option''" using o(1) by (simp add: at_keyword_ahead emit_option_def)
    then show ?thesis
      using s s' EI_option
      by (auto simp: enum_step_def sets_alias_def proto_option.map_sel intro!: ends_mono [OF parse_option_stmt_reads [OF o]])
  next
    case (EI_names ns)
    with q wf have r: "ahead q = emit_reserved_names ns @ rest" "ns \<noteq> []" by simp_all
    have "at_keyword q ''reserved''" "\<not> at_keyword q ''option''"
      using r(1) by (simp_all add: at_keyword_ahead emit_reserved_names_def)
    then show ?thesis
      using s s' EI_names by (auto simp: enum_step_def intro!: ends_mono [OF parse_reserved_names_reads [OF r]])
  next
    case (EI_ranges rs)
    with q wf have r: "ahead q = emit_reserved_ranges rs @ rest" "rs \<noteq> []" by simp_all
    have "at_keyword q ''reserved''" "\<not> at_keyword q ''option''"
      using r(1) by (simp_all add: at_keyword_ahead emit_reserved_ranges_def)
    then show ?thesis
      using s s' EI_ranges by (auto simp: enum_step_def intro!: ends_mono [OF parse_reserved_ranges_reads [OF r]])
  next
    case (EI_value v)
    with q wf have v: "ahead q = emit_numbered (ev_name v) (ev_number v) (field_settings None None (ev_options v)) @ rest"
      "list_all wf_setting (field_settings None None (ev_options v))" by simp_all
    have "\<not> at_keyword q ''reserved''" "\<not> at_keyword q ''option''" "at_ident q"
      using v(1) wf EI_value by (auto simp: at_keyword_ahead at_ident_ahead emit_numbered_def)
    then show ?thesis
      using s s' EI_value by (auto simp: enum_step_def intro!: ends_mono [OF parse_enum_value_reads [OF v]])
  qed
qed

text \<open>The order of the statements, and the whole enum.\<close>

definition enum_items :: "unit enum \<Rightarrow> enum_item list" where
  "enum_items en = map EI_option (en_options en)
     @ (if en_reserved_names en = [] then [] else [EI_names (en_reserved_names en)])
     @ (if en_reserved_ranges en = [] then [] else [EI_ranges (en_reserved_ranges en)])
     @ map EI_value (en_values en)"

definition emit_enum :: "unit enum \<Rightarrow> token_kind list" where
  "emit_enum en = TkIdent ''enum'' # TkIdent (id_name (en_name en)) # emit_block (map emit_enum_item (enum_items en))"

definition wf_enum :: "unit enum \<Rightarrow> bool" where
  "wf_enum en \<longleftrightarrow> list_all wf_enum_item (enum_items en) \<and> en_allow_alias en = list_ex sets_alias (en_options en)"

lemma fold_enum_items: "wf_enum en \<Longrightarrow> fold add_enum_item (enum_items en) (Enum () (en_name en) [] [] [] [] False) = en"
proof -
  have "fold add_enum_item (map EI_option os) (Enum sp n vs rr rn opts al) = Enum sp n vs rr rn (opts @ os) (al \<or> list_ex sets_alias os)"
    for os sp n vs rr rn opts al by (induction os arbitrary: opts al) auto
  moreover have "fold add_enum_item (map EI_value ws) (Enum sp n vs rr rn opts al) = Enum sp n (vs @ ws) rr rn opts al"
    for ws sp n vs rr rn opts al by (induction ws arbitrary: vs) auto
  ultimately show "wf_enum en \<Longrightarrow> ?thesis"
    by (cases en) (auto simp: enum_items_def wf_enum_def)
qed

lemma emit_enum_item_Cons: "\<exists>s ks. emit_enum_item x = TkIdent s # ks"
  by (cases x) (simp_all add: emit_option_def emit_reserved_names_def emit_reserved_ranges_def emit_numbered_def)

lemma before_ident: "ahead q = TkIdent s # ks \<Longrightarrow> before RBrace q"
  by (simp add: before_ahead)

lemma parse_enum_reads:
  assumes p: "ahead p = emit_enum en @ rest" and wf: "wf_enum en"
  shows "ends (parse_enum p) (\<lambda>r q. (\<exists>x. r = Some x \<and> bare_enum x = en) \<and> quiet p rest q)"
proof -
  have p': "ahead p = TkIdent ''enum'' # TkIdent (id_name (en_name en)) # LBrace
      # concat (map emit_enum_item (enum_items en)) @ RBrace # rest"
    using p by (simp add: emit_enum_def emit_block_def)
  have body: "ends (try_tokens (before RBrace) (enum_step sp) s q)
      (\<lambda>s' q'. \<exists>t. s' = Some t \<and> bare_enum t = fold add_enum_item (enum_items en) (bare_enum s) \<and> quiet q (RBrace # rest) q')"
    if "ahead q = concat (map emit_enum_item (enum_items en)) @ RBrace # rest" for sp s q
  proof (rule try_tokens_items [where R = "\<lambda>a t. bare_enum t = a" and emit = emit_enum_item])
    fix x a and t :: "span enum" and r rest'
    assume "x \<in> set (enum_items en)" "bare_enum t = a" "ahead r = emit_enum_item x @ rest'"
    with wf emit_enum_item_Cons [of x] enum_step_reads [of r x rest' t a sp] show "before RBrace r
        \<and> ends (enum_step sp t r) (\<lambda>f r'. \<exists>s'. f = Continue (Some s') \<and> bare_enum s' = add_enum_item x a \<and> quiet r rest' r')"
      by (auto simp: wf_enum_def list_all_iff intro: before_ident)
  next
    show "emit_enum_item x \<noteq> []" for x using emit_enum_item_Cons [of x] by auto
  qed (use that in \<open>auto simp: before_RBrace\<close>)
  have enum: "bare_enum t = en \<Longrightarrow> bare_enum (case t of Enum _ name vs rr rn opts alias \<Rightarrow> Enum sp name vs rr rn opts alias) = en"
    for t :: "span enum" and sp by (cases t; cases en) auto
  show ?thesis
    unfolding parse_enum_def Let_def
    by (rule try_expect_ident [where s = "id_name (en_name en)"])
      (use p' fold_enum_items [OF wf] in \<open>auto simp: ends_try_act quiet_def expected_ahead enum intro!: ends_mono [OF body]\<close>)
qed

end
