(* ===== verification/Parser_Spans.thy ===== *)
theory Parser_Spans
  imports Parser
begin

text \<open>
  The parser does not look at source positions. Forgetting every span, in the tokens and in the diagnostics,
  before a part of the parser runs gives the same as forgetting them in its result: \<open>forget\<close> is a homomorphism of
  every function of \<open>Parser\<close>. So sources with the same tokens at other places are parsed to the same
  tree with the same diagnostics, up to positions, in whatever order their declarations stand and whether or not they are valid.
\<close>

section \<open>Forgetting spans\<close>

abbreviation nowhere :: "span \<Rightarrow> span" where "nowhere \<equiv> \<lambda>_. Span_default"

definition forget_token :: "token \<Rightarrow> token" where
  "forget_token t = t\<lparr>tk_span := Span_default\<rparr>"

definition forget_diag :: "'k diagnostic \<Rightarrow> 'k diagnostic" where
  "forget_diag d = d\<lparr>dg_span := map_option nowhere (dg_span d)\<rparr>"

definition forget :: "parser \<Rightarrow> parser" where
  "forget p = p\<lparr>ps_tokens := map forget_token (ps_tokens p), ps_diags := map forget_diag (ps_diags p)\<rparr>"

lemma forget_token_simps [simp]: "tk_kind (forget_token t) = tk_kind t" "tk_span (forget_token t) = Span_default"
  by (simp_all add: forget_token_def)

lemma forget_sels [simp]:
  "ps_pos (forget p) = ps_pos p" "ps_depth (forget p) = ps_depth p" "ps_name (forget p) = ps_name p"
  "tokens_left (forget p) = tokens_left p"
  by (simp_all add: forget_def tokens_left_def)

lemma forget_depth [simp]: "(forget p)\<lparr>ps_depth := n\<rparr> = forget (p\<lparr>ps_depth := n\<rparr>)"
  by (simp add: forget_def)

lemma nth_opt_map: "nth_opt (map f xs) n = map_option f (nth_opt xs n)"
  by (simp add: nth_opt_def)

lemma forget_peek [simp]:
  "ps_peek (forget p) = map_option forget_token (ps_peek p)" "peek_kind (forget p) = peek_kind p"
  "peek_span (forget p) = map_option nowhere (peek_span p)"
  by (simp_all add: ps_peek_def peek_kind_def peek_span_def forget_def nth_opt_map option.map_comp comp_def)

lemma forget_tests [simp]:
  "at_keyword (forget p) = at_keyword p" "ident_text (forget p) = ident_text p"
  "is_scalar_keyword (forget p) = is_scalar_keyword p" "before k (forget p) = before k p"
  "at_string (forget p) = at_string p" "at_ident (forget p) = at_ident p"
  by (simp_all add: at_keyword_def ident_text_def is_scalar_keyword_def before_def at_string_def at_ident_def fun_eq_iff)

lemma forget_advance [simp]: "ps_advance (forget p) = map_prod (map_option forget_token) forget (ps_advance p)"
  by (simp add: ps_advance_def split: option.split) (simp add: forget_def)

lemma forget_spans [simp]:
  "here (forget p) = Span_default" "next_span (forget p) = Span_default" "span_from Span_default (forget p) = Span_default"
  by (auto simp: here_def next_span_def split: option.split)
    (simp_all add: span_from_def Span_default_def forget_def nth_opt_map split: option.split)

lemma forget_error [simp]:
  "ps_error code msg (map_option nowhere sp) (forget p) = forget (ps_error code msg sp p)"
  "ps_error code msg (Some Span_default) (forget p) = forget (ps_error code msg (Some s) p)"
  by (simp_all add: ps_error_def forget_def diag_push_def Diagnostic_error_def forget_diag_def)

section \<open>Results\<close>

text \<open>\<open>over g m\<close>: the result of \<open>m\<close> with \<open>g\<close> applied to the value and the spans of the state forgotten.\<close>

definition over :: "('a \<Rightarrow> 'b) \<Rightarrow> ('e, 'a \<times> parser) res \<Rightarrow> ('e, 'b \<times> parser) res" where
  "over g m = bind_result m (\<lambda>(x, p). Inr (g x, forget p))"

definition just :: "('e, parser) res \<Rightarrow> ('e, parser) res" where
  "just m = bind_result m (\<lambda>p. Inr (forget p))"

lemma over_simps [simp]: "over g (Inr (x, p)) = Inr (g x, forget p)" "over g (Inl e) = Inl e"
  "just (Inr p) = Inr (forget p)" "just (Inl e) = Inl e"
  by (simp_all add: over_def just_def)

lemma over_ident [simp]: "over (\<lambda>x. x) = over id"
  by (simp add: id_def)

lemma over_bind [simp]:
  "over g (bind_result m f) = bind_result m (\<lambda>x. over g (f x))"
  by (cases m) simp_all

lemma bind_over [simp]: "bind_result (over g m) h = bind_result m (\<lambda>(x, p). h (g x, forget p))"
  by (cases m) auto

lemma bind_if: "bind_result (if c then m else m') f = (if c then bind_result m f else bind_result m' f)"
  by simp

lemma just_bind [simp]: "just (bind_result m f) = bind_result m (\<lambda>x. just (f x))"
  by (cases m) simp_all

lemma bind_just [simp]: "bind_result (just m) h = bind_result m (\<lambda>p. h (forget p))"
  by (cases m) auto

lemma over_if [simp]: "over g (if c then m else m') = (if c then over g m else over g m')"
  by simp

lemma over_if_intro:
  "a = over g b \<Longrightarrow> a' = over g b' \<Longrightarrow> (if c then a else a') = over g (if c then b else b')"
  by simp

lemma over_case_prod [simp]: "over g (case x of (a, b) \<Rightarrow> f a b) = (case x of (a, b) \<Rightarrow> over g (f a b))"
  by (cases x) simp

lemma over_case_option [simp]:
  "over g (case x of None \<Rightarrow> m | Some y \<Rightarrow> f y) = (case x of None \<Rightarrow> over g m | Some y \<Rightarrow> over g (f y))"
  by (cases x) simp_all

text \<open>The \<open>?\<close> on an option, when the state that is handed on with \<open>None\<close> is forgotten.\<close>

definition tried_opt :: "'a option \<times> parser \<Rightarrow> ('a \<Rightarrow> 'b option action) \<Rightarrow> (unit, 'b option \<times> parser) res" where
  "tried_opt r f = (case r of (None, p) \<Rightarrow> Inr (None, forget p) | (Some x, p) \<Rightarrow> f x p)"

definition tried_act :: "(unit, 'a option \<times> parser) res \<Rightarrow> ('a \<Rightarrow> 'b option action) \<Rightarrow> (unit, 'b option \<times> parser) res" where
  "tried_act m f = bind_result m (\<lambda>r. tried_opt r f)"

lemma over_try_opt [simp]: "over (map_option g) (try_opt r f) = tried_opt r (\<lambda>x p. over (map_option g) (f x p))"
  by (auto simp: try_opt_def tried_opt_def split: prod.split option.split)

lemma try_opt_forget [simp]: "try_opt (map_prod (map_option h) forget r) f = tried_opt r (\<lambda>x p. f (h x) (forget p))"
  by (auto simp: try_opt_def tried_opt_def split: prod.split option.split)

lemma over_try_act [simp]: "over (map_option g) (try_act m f) = tried_act m (\<lambda>x p. over (map_option g) (f x p))"
  by (simp add: try_act_def tried_act_def)

lemma try_act_over [simp]: "try_act (over (map_option h) m) f = tried_act m (\<lambda>x p. f (h x) (forget p))"
  by (cases m) (auto simp: try_act_def tried_act_def try_opt_def tried_opt_def split: option.split)

lemma try_id [simp]:
  "over id (try_opt r f) = tried_opt r (\<lambda>x p. over id (f x p))"
  "try_opt (map_prod id forget r) f = tried_opt r (\<lambda>x p. f x (forget p))"
  "over id (try_act m f) = tried_act m (\<lambda>x p. over id (f x p))"
  "try_act (over id m) f = tried_act m (\<lambda>x p. f x (forget p))"
  using over_try_opt [of id r f] try_opt_forget [of id r f] over_try_act [of id m f] try_act_over [of id m f]
  by (simp_all add: option.map_id0 del: over_try_opt over_try_act)

section \<open>Loops\<close>

lemma forget_token_loop:
  assumes "\<And>q. c (forget q) = c q" and "\<And>s q. step' (g s) (forget q) = over (map_flow g) (step s q)"
  shows "token_loop n c step' (g s) (forget p) = over g (token_loop n c step s p)"
proof (induction n arbitrary: s p)
  case (Suc n)
  then show ?case
    by (auto simp: assms case_prod_unfold intro!: bind_result_cong split: flow.split)
qed simp

lemma forget_while:
  assumes "\<And>q. c (forget q) = c q" and "\<And>s q. step' (g s) (forget q) = over (map_flow g) (step s q)"
  shows "while_tokens c step' (g s) (forget p) = over g (while_tokens c step s p)"
  unfolding while_tokens_def by (simp add: forget_token_loop [where step = step and step' = step' and g = g] assms del: token_loop.simps)

lemma forget_try_tokens:
  assumes "\<And>q. c (forget q) = c q"
    and "\<And>s q. step' (g s) (forget q) = over (map_flow (map_option g)) (step s q)"
  shows "try_tokens c step' (g s) (forget p) = over (map_option g) (try_tokens c step s p)"
proof -
  have "while_tokens c (\<lambda>s p. case s of None \<Rightarrow> Inr (Break None, p) | Some s \<Rightarrow> step' s p) (map_option g (Some s)) (forget p)
      = over (map_option g) (while_tokens c (\<lambda>s p. case s of None \<Rightarrow> Inr (Break None, p) | Some s \<Rightarrow> step s p) (Some s) p)"
    by (rule forget_while) (simp_all add: assms split: option.split)
  then show ?thesis by (simp add: try_tokens_def)
qed

text \<open>Loops over states without spans.\<close>

lemma forget_while_id:
  assumes "\<And>q. c (forget q) = c q" and "\<And>s q. step s (forget q) = over id (step s q)"
  shows "while_tokens c step s (forget p) = over id (while_tokens c step s p)"
  using forget_while [of c step id step s p] assms by (simp add: flow.map_id0)

lemma forget_try_tokens_id:
  assumes "\<And>q. c (forget q) = c q" and "\<And>s q. step s (forget q) = over id (step s q)"
  shows "try_tokens c step s (forget p) = over id (try_tokens c step s p)"
  using forget_try_tokens [of c step id step s p] assms by (simp add: flow.map_id0 option.map_id0)

section \<open>Names and constants\<close>

lemma forget_expect [simp]: "expect k (forget p) = map_prod (map_option forget_token) forget (expect k p)"
  using forget_error(1) [of _ _ "peek_span p" p] by (simp add: expect_def)

lemma forget_expect_ident [simp]: "expect_ident (forget p) = map_prod (map_option (map_ident nowhere)) forget (expect_ident p)"
  using forget_error(2)
  by (auto simp: expect_ident_def split: prod.split option.split token_kind.split)

lemma forget_take_int [simp]: "take_int msg (forget p) = map_prod id forget (take_int msg p)"
  using forget_error(1) [of _ _ "peek_span p" p]
  by (auto simp: take_int_def split: option.split token_kind.split)

lemma forget_skip_comma [simp]: "skip_comma (forget p) = forget (skip_comma p)"
  by (simp add: skip_comma_def)

lemma forget_recover [simp]: "recover (forget p) = just (recover p)"
proof -
  have "while_tokens (\<lambda>p. peek_kind p \<noteq> None) (\<lambda>_ p.
       if peek_kind p = Some Semicolon \<or> peek_kind p = Some RBrace then Inr (Break (), p)
       else Inr (Continue (), advanced p)) (id ()) (forget p)
     = over id (while_tokens (\<lambda>p. peek_kind p \<noteq> None) (\<lambda>_ p.
       if peek_kind p = Some Semicolon \<or> peek_kind p = Some RBrace then Inr (Break (), p)
       else Inr (Continue (), advanced p)) () p)"
    by (rule forget_while) simp_all
  then show ?thesis by (simp add: recover_def case_prod_unfold)
qed

lemma forget_option_segments [simp]: "option_segments s (forget p) = over id (option_segments s p)"
  unfolding option_segments_def
  by (rule forget_while_id)
    (auto simp: Let_def case_prod_unfold ident.map_sel split: option.split)

lemma forget_parenthesised_name [simp]: "parenthesised_name (forget p) = over id (parenthesised_name p)"
  unfolding parenthesised_name_def forget_advance snd_map_prod
  by (rule forget_while_id) (auto split: option.split token_kind.split)

lemma forget_parse_option_name [simp]: "parse_option_name (forget p) = over id (parse_option_name p)"
  by (simp add: parse_option_name_def ident.map_sel)

lemma forget_aggregate_step:
  assumes "\<And>q. rec (forget q) = over id (rec q)"
  shows "aggregate_step rec fs (forget p) = over id (aggregate_step rec fs p)"
  by (auto simp: aggregate_step_def assms case_prod_unfold intro!: bind_result_cong split: option.split)

lemma forget_list_step:
  assumes "\<And>q. rec (forget q) = over id (rec q)"
  shows "list_step rec items (forget p) = over id (list_step rec items p)"
  by (auto simp: list_step_def assms case_prod_unfold intro!: bind_result_cong split: option.split)

lemma forget_constant_fuel [simp]: "constant_fuel n (forget p) = over id (constant_fuel n p)"
proof (induction n arbitrary: p)
  case (Suc n)
  have agg: "try_tokens (before RBrace) (aggregate_step (constant_fuel n)) fs (forget p)
      = over id (try_tokens (before RBrace) (aggregate_step (constant_fuel n)) fs p)" for fs p
    by (rule forget_try_tokens_id, simp, rule forget_aggregate_step, rule Suc.IH)
  have lst: "while_tokens (before RBracket) (list_step (constant_fuel n)) cs (forget p)
      = over id (while_tokens (before RBracket) (list_step (constant_fuel n)) cs p)" for cs p
    by (rule forget_while_id, simp, rule forget_list_step, rule Suc.IH)
  show ?case
    using forget_error(2)
    by (auto simp: agg lst case_prod_unfold split: option.split token_kind.split)
qed simp

lemma forget_parse_constant [simp]: "parse_constant (forget p) = over id (parse_constant p)"
  by (simp add: parse_constant_def del: constant_fuel.simps)

lemma forget_parse_option_stmt [simp]:
  "parse_option_stmt (forget p) = over (map_option (map_proto_option nowhere)) (parse_option_stmt p)"
  by (simp add: parse_option_stmt_def Let_def)

section \<open>Types and fields\<close>

lemma forget_type_segments [simp]: "type_segments s (forget p) = over id (type_segments s p)"
  unfolding type_segments_def
  by (rule forget_try_tokens_id) (auto simp: case_prod_unfold ident.map_sel split: option.split)

lemma case_option_same: "(case x of None \<Rightarrow> c | Some y \<Rightarrow> c) = c"
  by (cases x) simp_all

lemma forget_parse_type_ref [simp]:
  "parse_type_ref (forget p) = over (map_option (map_type_ref nowhere)) (parse_type_ref p)"
  by (auto simp: parse_type_ref_def Let_def ident.map_sel Span_default_def comp_def case_option_same split: option.split
      cong: option.case_cong)

lemma forget_parse_label [simp]: "parse_label (forget p) = map_prod id forget (parse_label p)"
  by (simp add: parse_label_def)

abbreviation no_options :: "field_extras \<times> span proto_option list \<Rightarrow> field_extras \<times> span proto_option list" where
  "no_options \<equiv> map_prod id (map (map_proto_option nowhere))"

lemma forget_parse_field_option [simp]:
  "parse_field_option x (forget p) = over (map_prod (map_option (map_proto_option nowhere)) id) (parse_field_option x p)"
  by (auto simp: parse_field_option_def Let_def case_prod_unfold intro!: bind_result_cong split: option.split token_kind.split)

lemma forget_parse_field_options [simp]:
  "parse_field_options (forget p) = over no_options (parse_field_options p)"
proof -
  have "while_tokens (before RBracket) field_options_step (no_options ((None, None), [])) (forget p)
      = over no_options (while_tokens (before RBracket) field_options_step ((None, None), []) p)" for p
    by (rule forget_while)
      (auto simp: field_options_step_def case_prod_unfold intro!: bind_result_cong split: option.split)
  then show ?thesis by (simp add: parse_field_options_def case_prod_unfold)
qed

lemma forget_parse_field [simp]: "parse_field (forget p) = over (map_option (map_field nowhere)) (parse_field p)"
  by (simp add: parse_field_def Let_def case_prod_unfold)

lemma forget_oneof_step: "oneof_step Span_default (map (map_field nowhere) fs) (forget p)
    = over (map_flow (map_option (map (map_field nowhere)))) (oneof_step sp fs p)"
proof -
  let ?body = "\<lambda>sp p. (let (lbl, p) = parse_label p
        in try_act (parse_type_ref p) (\<lambda>ty p.
             try_opt (expect_ident p) (\<lambda>name p.
               try_opt (take_int ''expected field number'' (expected Equals p)) (\<lambda>number p.
                 bind_result (parse_field_options p) (\<lambda>((_, opts), p).
                   let p = expected Semicolon p
                   in Inr (Some (Field (span_from sp p) name number ty lbl None None opts), p))))))"
  have "?body Span_default (forget p) = over (map_option (map_field nowhere)) (?body sp p)"
    by (simp add: Let_def case_prod_unfold)
  then show ?thesis
    by (auto simp: oneof_step_def case_prod_unfold intro!: bind_result_cong split: option.split)
qed

lemma map_case_option: "map f (case x of None \<Rightarrow> a | Some y \<Rightarrow> b y) = (case x of None \<Rightarrow> map f a | Some y \<Rightarrow> map f (b y))"
  by (cases x) simp_all

lemma forget_parse_oneof [simp]: "parse_oneof (forget p) = over (map_option (map_oneof nowhere)) (parse_oneof p)"
proof -
  have "try_tokens (before RBrace) (oneof_step Span_default) (map (map_field nowhere) []) (forget p)
      = over (map_option (map (map_field nowhere))) (try_tokens (before RBrace) (oneof_step sp) [] p)" for sp p
    by (rule forget_try_tokens) (simp_all add: forget_oneof_step)
  then have fs: "try_tokens (before RBrace) (oneof_step Span_default) [] (forget p)
      = over (map_option (map (map_field nowhere))) (try_tokens (before RBrace) (oneof_step sp) [] p)" for sp p
    by simp
  have opt: "(if at_keyword p ''option'' then parse_option_stmt (forget p) else Inr (None, forget p))
      = over (map_option (map_proto_option nowhere)) (if at_keyword p ''option'' then parse_option_stmt p else Inr (None, p))" for p
    by simp
  show ?thesis
    by (simp add: parse_oneof_def Let_def opt fs [where sp = "here p"] case_prod_unfold comp_def map_case_option del: over_if cong: option.case_cong)
qed

lemma forget_parse_map [simp]: "parse_map (forget p) = over (map_option (map_map_field nowhere)) (parse_map p)"
  by (simp add: parse_map_def Let_def case_prod_unfold)

section \<open>Ranges and names\<close>

lemma forget_range_end [simp]: "range_end (forget p) = map_prod id forget (range_end p)"
  by (auto simp: range_end_def Let_def split: option.split token_kind.split)

lemma forget_ranges_step: "ranges_step rs (forget p) = over id (ranges_step rs p)"
  by (auto simp: ranges_step_def Let_def case_prod_unfold split: option.split)

lemma forget_parse_ranges [simp]: "parse_ranges (forget p) = over id (parse_ranges p)"
  unfolding parse_ranges_def by (rule forget_while_id) (simp_all add: forget_ranges_step)

lemma forget_parse_reserved:
  assumes "\<And>q. sp (forget q) = Span_default"
  shows "parse_reserved sp (map_prod (map (map_ident nowhere)) id s) (forget p)
    = over (map_prod (map (map_ident nowhere)) id) (parse_reserved sp s p)"
proof -
  have "while_tokens (\<lambda>_. True) (reserved_names_step sp) (map (map_ident nowhere) ns) (forget p)
      = over (map (map_ident nowhere)) (while_tokens (\<lambda>_. True) (reserved_names_step sp) ns p)" for ns p
    by (rule forget_while)
      (auto simp: reserved_names_step_def Let_def assms split: option.split token_kind.split)
  then show ?thesis by (simp add: parse_reserved_def Let_def case_prod_unfold bind_result_assoc)
qed

lemma forget_parse_extensions [simp]: "parse_extensions (forget p) = over id (parse_extensions p)"
  by (simp add: parse_extensions_def case_prod_unfold)

lemma forget_unexpected [simp]: "unexpected msg (forget p) = forget (unexpected msg p)"
  using forget_error(1) [of _ _ "peek_span p" p] by (simp add: unexpected_def Let_def)

section \<open>Enums, services, extensions\<close>

lemma forget_parse_enum_value [simp]:
  "parse_enum_value Span_default (forget p) = over (map_option (map_enum_value nowhere)) (parse_enum_value sp p)"
  by (simp add: parse_enum_value_def case_prod_unfold)

lemma forget_enum_step:
  "enum_step Span_default (map_enum nowhere en) (forget p) = over (map_flow (map_option (map_enum nowhere))) (enum_step sp en p)"
  using forget_parse_reserved [of "\<lambda>_. Span_default" "(en_reserved_names en, en_reserved_ranges en)" p]
  by (cases en) (auto simp: enum_step_def case_prod_unfold proto_option.map_sel forget_parse_enum_value [of _ sp]
      intro!: bind_result_cong split: option.split)

lemma forget_parse_enum [simp]: "parse_enum (forget p) = over (map_option (map_enum nowhere)) (parse_enum p)"
proof -
  have "try_tokens (before RBrace) (enum_step Span_default) (map_enum nowhere en) (forget p)
      = over (map_option (map_enum nowhere)) (try_tokens (before RBrace) (enum_step sp) en p)" for sp en p
    by (rule forget_try_tokens) (simp_all add: forget_enum_step [of _ _ sp])
  from this [of "Enum sp name [] [] [] [] False" for sp name]
  have e: "try_tokens (before RBrace) (enum_step Span_default) (Enum Span_default (map_ident nowhere name) [] [] [] [] False) (forget p)
      = over (map_option (map_enum nowhere)) (try_tokens (before RBrace) (enum_step sp) (Enum sp name [] [] [] [] False) p)" for sp name p
    by simp
  show ?thesis
    by (simp add: parse_enum_def Let_def e [of _ _ "here p"] enum.case_eq_if enum.map_sel)
qed

lemma forget_skip_stream [simp]: "skip_stream (forget p) = map_prod id forget (skip_stream p)"
  by (simp add: skip_stream_def)

lemma forget_method_options:
  "while_tokens (before RBrace) method_options_step (map (map_proto_option nowhere) opts) (forget p)
     = over (map (map_proto_option nowhere)) (while_tokens (before RBrace) method_options_step opts p)"
  by (rule forget_while)
    (auto simp: method_options_step_def case_prod_unfold intro!: bind_result_cong split: option.split)

lemma forget_parse_method [simp]: "parse_method (forget p) = over (map_option (map_method_decl nowhere)) (parse_method p)"
proof -
  have o: "while_tokens (before RBrace) method_options_step [] (forget p)
      = over (map (map_proto_option nowhere)) (while_tokens (before RBrace) method_options_step [] p)" for p
    using forget_method_options [of "[]"] by simp
  show ?thesis
    using forget_error(1)
    by (simp add: parse_method_def Let_def case_prod_unfold o bind_if bind_result_assoc cong: if_cong)
qed

lemma forget_service_step:
  "service_step (map_service nowhere sv) (forget p) = over (map_flow (map_service nowhere)) (service_step sv p)"
  by (cases sv) (auto simp: service_step_def case_prod_unfold intro!: bind_result_cong split: option.split)

lemma forget_parse_service [simp]: "parse_service (forget p) = over (map_option (map_service nowhere)) (parse_service p)"
proof -
  have "while_tokens (before RBrace) service_step (map_service nowhere sv) (forget p)
      = over (map_service nowhere) (while_tokens (before RBrace) service_step sv p)" for sv p
    by (rule forget_while) (simp_all add: forget_service_step)
  from this [of "Service sp name [] []" for sp name]
  have s: "while_tokens (before RBrace) service_step (Service Span_default (map_ident nowhere name) [] []) (forget p)
      = over (map_service nowhere) (while_tokens (before RBrace) service_step (Service sp name [] []) p)" for sp name p
    by simp
  show ?thesis
    by (simp add: parse_service_def Let_def s [of _ _ "here p"] case_prod_unfold service.case_eq_if service.map_sel)
qed

lemma forget_extend_step:
  "extend_step (map_extension nowhere ex) (forget p) = over (map_flow (map_extension nowhere)) (extend_step ex p)"
  by (cases ex) (auto simp: extend_step_def case_prod_unfold intro!: bind_result_cong split: option.split)

lemma forget_parse_extend [simp]: "parse_extend (forget p) = over (map_option (map_extension nowhere)) (parse_extend p)"
proof -
  have "while_tokens (before RBrace) extend_step (map_extension nowhere ex) (forget p)
      = over (map_extension nowhere) (while_tokens (before RBrace) extend_step ex p)" for ex p
    by (rule forget_while) (simp_all add: forget_extend_step)
  from this [of "Extension sp name [] []" for sp name]
  have s: "while_tokens (before RBrace) extend_step (Extension Span_default (map_ident nowhere name) [] []) (forget p)
      = over (map_extension nowhere) (while_tokens (before RBrace) extend_step (Extension sp name [] []) p)" for sp name p
    by simp
  show ?thesis
    by (simp add: parse_extend_def Let_def s [of _ _ "here p"] case_prod_unfold extension.case_eq_if extension.map_sel)
qed

section \<open>Messages and files\<close>

lemma forget_skip_balanced_block [simp]: "skip_balanced_block (forget p) = just (skip_balanced_block p)"
proof -
  have "while_tokens (\<lambda>_. True) balanced_step n (forget p) = over id (while_tokens (\<lambda>_. True) balanced_step n p)" for n p
    by (rule forget_while_id) (auto simp: balanced_step_def split: option.split token_kind.split)
  then show ?thesis by (simp add: skip_balanced_block_def case_prod_unfold)
qed

lemma forget_add_or_recover:
  assumes "\<And>x. add' (h x) = map_message nowhere (add x)" and "m' = map_message nowhere m"
  shows "add_or_recover add' m' (map_option h (fst r), forget (snd r))
    = over (map_flow (map_message nowhere)) (add_or_recover add m r)"
  using assms by (cases r) (auto simp: add_or_recover_def split: option.split)

lemma forget_message_step:
  assumes "\<And>b q. rec (b :: bool) (forget q) = over (map_option (map_message nowhere)) (rec b q)"
  shows "message_step rec (map_message nowhere m) (forget p) = over (map_flow (map_message nowhere)) (message_step rec m p)"
proof -
  obtain sp name fds oneofs maps msgs enums exts rr rn er opts grp
    where m: "m = Message sp name fds oneofs maps msgs enums exts rr rn er opts grp" by (cases m)
  have r: "parse_reserved next_span (map (map_ident nowhere) rn, rr) (forget p)
      = over (map_prod (map (map_ident nowhere)) id) (parse_reserved next_span (rn, rr) p)"
    using forget_parse_reserved [of next_span "(rn, rr)" p] by simp
  show ?thesis
    unfolding m message_step_def message.map message.case forget_tests forget_peek
    by (intro over_if_intro)
      (auto simp: assms r case_prod_unfold intro!: bind_result_cong forget_add_or_recover split: option.split)
qed

lemma forget_group_number [simp]: "group_number g (forget p) = map_prod id forget (group_number g p)"
  by (auto simp: group_number_def case_prod_unfold split: option.split)

lemma forget_message_body:
  assumes "\<And>b q. rec (b :: bool) (forget q) = over (map_option (map_message nowhere)) (rec b q)"
  shows "parse_message_body rec (map_message nowhere m) (forget p) = over (map_message nowhere) (parse_message_body rec m p)"
proof -
  have "while_tokens (before RBrace) (message_step rec) (map_message nowhere m) (forget p)
      = over (map_message nowhere) (while_tokens (before RBrace) (message_step rec) m p)"
    by (rule forget_while) (simp_all add: forget_message_step assms)
  then show ?thesis by (simp add: parse_message_body_def case_prod_unfold)
qed

lemma forget_message_inner:
  assumes "\<And>b q. rec (b :: bool) (forget q) = over (map_option (map_message nowhere)) (rec b q)"
  shows "parse_message_inner rec g (forget p) = over (map_option (map_message nowhere)) (parse_message_inner rec g p)"
proof -
  let ?m = "\<lambda>sp name n. Message sp name (if g then [group_field sp name n] else []) [] [] [] [] [] [] [] [] [] g"
  have b: "parse_message_body rec (?m Span_default (map_ident nowhere name) n) (forget p)
      = over (map_message nowhere) (parse_message_body rec (?m sp name n) p)" for sp name n p
    using forget_message_body [of rec "?m sp name n" p] assms by (cases g) (simp_all add: group_field_def)
  show ?thesis
    by (simp add: parse_message_inner_def Let_def case_prod_unfold b [of _ _ _ "here p"] cong: if_cong)
qed

lemma forget_message_fuel: "message_fuel n g (forget p) = over (map_option (map_message nowhere)) (message_fuel n g p)"
proof (induction n arbitrary: g p)
  case (Suc n)
  note e = forget_error(1) [of _ _ "peek_span p" p]
  have inner: "parse_message_inner (message_fuel n) g (forget p)
      = over (map_option (map_message nowhere)) (parse_message_inner (message_fuel n) g p)" for g p
    by (rule forget_message_inner) (rule Suc.IH)
  show ?case
    by (simp add: e inner Let_def case_prod_unfold bind_if bind_result_assoc)
qed simp

lemma forget_parse_message [simp]:
  "parse_message g (forget p) = over (map_option (map_message nowhere)) (parse_message g p)"
  by (simp add: parse_message_def forget_message_fuel del: message_fuel.simps)

lemma forget_package_segments [simp]:
  "package_segments (map_ident nowhere i) (forget p) = over (map_ident nowhere) (package_segments i p)"
  unfolding package_segments_def
  by (rule forget_while) (auto simp: case_prod_unfold ident.map_sel split: option.split)

lemma forget_parse_edition [simp]: "parse_edition (forget p) = map_prod id forget (parse_edition p)"
  by (auto simp: parse_edition_def Let_def split: option.split token_kind.split)

lemma forget_parse_syntax [simp]:
  "parse_syntax (forget p) = map_prod (map_option (map_syntax_decl nowhere)) forget (parse_syntax p)"
  using forget_error(1)
  by (auto simp: parse_syntax_def Let_def split: option.split token_kind.split)

lemma forget_parse_import [simp]:
  "parse_import (forget p) = map_prod (map_option (map_import_stmt nowhere)) forget (parse_import p)"
  using forget_error(1)
  by (auto simp: parse_import_def Let_def case_prod_unfold split: option.split token_kind.split)

lemma forget_file_or_recover:
  assumes "\<And>x. add' (h x) = map_proto_file nowhere (add x)" and "f' = map_proto_file nowhere f"
  shows "file_or_recover add' f' (map_option h (fst r), forget (snd r))
    = over (map_flow (map_proto_file nowhere)) (file_or_recover add f r)"
  using assms by (cases r) (auto simp: file_or_recover_def split: option.split)

lemma forget_file_step:
  "file_step (map_proto_file nowhere f) (forget p) = over (map_flow (map_proto_file nowhere)) (file_step f p)"
proof -
  obtain n syn ed pkg imps opts msgs enums svcs exts
    where f: "f = File n syn ed pkg imps opts msgs enums svcs exts" by (cases f)
  show ?thesis
    unfolding f file_step_def proto_file.map proto_file.case forget_tests forget_peek
    by (intro over_if_intro)
      (auto simp: case_prod_unfold intro!: bind_result_cong forget_file_or_recover split: option.split)
qed

text \<open>The parser is the same on tokens without spans, up to the spans of the tree and the diagnostics.\<close>

theorem forget_parse_tokens: "parse_tokens (forget p) = over (map_proto_file nowhere) (parse_tokens p)"
proof -
  have "while_tokens (\<lambda>p. peek_kind p \<noteq> None) file_step (map_proto_file nowhere f) (forget p)
      = over (map_proto_file nowhere) (while_tokens (\<lambda>p. peek_kind p \<noteq> None) file_step f p)" for f p
    by (rule forget_while) (simp_all add: forget_file_step)
  from this [of "File (ps_name p) None None None [] [] [] [] [] []"] show ?thesis
    by (simp add: parse_tokens_def)
qed

section \<open>The same tokens, the same result\<close>

text \<open>
  Two results of \<open>parse_file\<close> that differ in source positions only: the same tree, the same diagnostics in the same order, the
  same comments; or the same failure.
\<close>

definition same_parse :: "(unit, parse_result) res \<Rightarrow> (unit, parse_result) res \<Rightarrow> bool" where
  "same_parse a b \<longleftrightarrow> (case (a, b) of
      (Inr r, Inr r') \<Rightarrow> map_proto_file (\<lambda>_. ()) (pr_file r) = map_proto_file (\<lambda>_. ()) (pr_file r')
        \<and> map forget_diag (pr_diagnostics r) = map forget_diag (pr_diagnostics r') \<and> pr_comments r = pr_comments r'
    | (Inl e, Inl e') \<Rightarrow> e = e'
    | _ \<Rightarrow> False)"

lemma map_forget_token: "map tk_kind ts = map tk_kind ts' \<Longrightarrow> map forget_token ts = map forget_token ts'"
proof (induction ts arbitrary: ts')
  case (Cons t ts)
  then obtain t' us where "ts' = t' # us" "tk_kind t = tk_kind t'" "map tk_kind ts = map tk_kind us" by (cases ts') auto
  with Cons.IH [of us] show ?case by (simp add: forget_token_def)
qed simp

lemma bare_nowhere: "map_proto_file nowhere f = map_proto_file nowhere f' \<Longrightarrow>
  map_proto_file (\<lambda>_. ()) f = map_proto_file (\<lambda>_. ()) f'"
proof -
  assume "map_proto_file nowhere f = map_proto_file nowhere f'"
  then have "map_proto_file (\<lambda>_. ()) (map_proto_file nowhere f) = map_proto_file (\<lambda>_. ()) (map_proto_file nowhere f')"
    by simp
  then show ?thesis by (simp add: proto_file.map_comp comp_def)
qed

lemma parse_file_same_tokens:
  assumes "lex_with_comments src = Inr (toks, cms)" and "lex_with_comments src' = Inr (toks', cms)"
    and "map tk_kind toks = map tk_kind toks'"
  shows "same_parse (parse_file name src) (parse_file name src')"
proof -
  have "forget (Parser_new name toks) = forget (Parser_new name toks')"
    using map_forget_token [OF assms(3)] by (simp add: forget_def Parser_new_def)
  then have "over (map_proto_file nowhere) (parse_tokens (Parser_new name toks))
      = over (map_proto_file nowhere) (parse_tokens (Parser_new name toks'))"
    using forget_parse_tokens [of "Parser_new name toks"] forget_parse_tokens [of "Parser_new name toks'"] by simp
  note eq = this
  show ?thesis
  proof (cases "parse_tokens (Parser_new name toks)")
    case (Inl e)
    then have "parse_tokens (Parser_new name toks') = Inl e"
      using eq by (cases "parse_tokens (Parser_new name toks')") (auto simp: over_def)
    with Inl show ?thesis by (simp add: same_parse_def parse_file_def assms)
  next
    case (Inr r)
    obtain f p where r: "r = (f, p)" by (cases r)
    obtain f' p' where r': "parse_tokens (Parser_new name toks') = Inr (f', p')"
      using eq Inr r by (cases "parse_tokens (Parser_new name toks')") auto
    have "map_proto_file nowhere f = map_proto_file nowhere f'" and p: "forget p = forget p'"
      using eq by (simp_all add: Inr r r')
    then have "map_proto_file (\<lambda>_. ()) f = map_proto_file (\<lambda>_. ()) f'" by (intro bare_nowhere)
    moreover have "map forget_diag (ps_diags p) = map forget_diag (ps_diags p')"
      using arg_cong [OF p, of ps_diags] by (simp add: forget_def)
    ultimately show ?thesis by (simp add: same_parse_def parse_file_def assms Inr r r')
  qed
qed

end
