(* ===== verification/Parser_File.thy ===== *)
theory Parser_File
  imports Parser_Roundtrip Parser_Spans
begin

text \<open>
  The parser on whole files: services, extensions, messages and files are written out as tokens and
  read back; a source text whose tokens spell a tree is parsed to that tree. The tokens of a tree are in one canonical order, the
  declarations of each kind together; for sources in other orders \<open>Parser_Spans\<close> says that the tree depends on the
  tokens alone, so the formatter does not change it.
\<close>

section \<open>Services\<close>

abbreviation bare_method :: "'p method_decl \<Rightarrow> unit method_decl" where "bare_method \<equiv> map_method_decl (\<lambda>_. ())"
abbreviation bare_service :: "'p service \<Rightarrow> unit service" where "bare_service \<equiv> map_service (\<lambda>_. ())"
abbreviation bare_extension :: "'p extension \<Rightarrow> unit extension" where "bare_extension \<equiv> map_extension (\<lambda>_. ())"
abbreviation bare_message :: "'p message \<Rightarrow> unit message" where "bare_message \<equiv> map_message (\<lambda>_. ())"
abbreviation bare_file :: "'p proto_file \<Rightarrow> unit proto_file" where "bare_file \<equiv> map_proto_file (\<lambda>_. ())"

definition emit_stream :: "bool \<Rightarrow> token_kind list" where
  "emit_stream b = (if b then [TkIdent ''stream''] else [])"

definition emit_method :: "unit method_decl \<Rightarrow> token_kind list" where
  "emit_method me = TkIdent ''rpc'' # TkIdent (id_name (me_name me)) # LParen # emit_stream (me_client_streaming me)
     @ emit_type (me_input me) @ RParen # TkIdent ''returns'' # LParen # emit_stream (me_server_streaming me)
     @ emit_type (me_output me) @ RParen
     # (if me_options me = [] then [Semicolon] else emit_block (map emit_option (me_options me)))"

definition wf_method :: "unit method_decl \<Rightarrow> bool" where
  "wf_method me \<longleftrightarrow> wf_type (me_input me) \<and> wf_type (me_output me) \<and> list_all wf_option (me_options me)
     \<and> (\<not> me_client_streaming me \<longrightarrow> first_word (me_input me) \<noteq> Some ''stream'')
     \<and> (\<not> me_server_streaming me \<longrightarrow> first_word (me_output me) \<noteq> Some ''stream'')"

lemma skip_stream_reads:
  assumes "ahead p = emit_stream b @ emit_type ty @ rest" "\<not> b \<longrightarrow> first_word ty \<noteq> Some ''stream''"
  shows "\<exists>q. skip_stream p = (b, q) \<and> quiet p (emit_type ty @ rest) q"
proof -
  obtain k ks where "emit_type ty = k # ks" using emit_type_ne [of ty] by (cases "emit_type ty") auto
  with assms show ?thesis
    by (cases b) (auto simp: skip_stream_def emit_stream_def at_keyword_ahead quiet_def first_word_def)
qed

lemma emit_option_Cons: "\<exists>ks. emit_option opt = TkIdent ''option'' # ks"
  by (simp add: emit_option_def)

lemma method_options_reads:
  assumes "ahead p = concat (map emit_option opts) @ RBrace # rest" "list_all wf_option opts"
  shows "ends (while_tokens (before RBrace) method_options_step [] p)
    (\<lambda>xs q. map bare_option xs = opts \<and> quiet p (RBrace # rest) q)"
proof -
  have "ends (while_tokens (before RBrace) method_options_step [] p)
    (\<lambda>xs q. map bare_option xs = fold (\<lambda>x a. a @ [id x]) opts [] \<and> quiet p (RBrace # rest) q)"
  proof (rule while_items [where R = "\<lambda>a t. map bare_option t = a" and emit = emit_option])
    fix x a and s :: "span proto_option list" and q rest'
    assume "x \<in> set opts" "map bare_option s = a" "ahead q = emit_option x @ rest'"
    moreover from this have "ends (parse_option_stmt q) (\<lambda>r q'. (\<exists>y. r = Some y \<and> bare_option y = x) \<and> quiet q rest' q')"
      using assms(2) by (intro parse_option_stmt_reads) (auto simp: list_all_iff)
    ultimately show "before RBrace q \<and> ends (method_options_step s q)
        (\<lambda>f r. \<exists>s'. f = Continue s' \<and> map bare_option s' = a @ [id x] \<and> quiet q rest' r)"
      using emit_option_Cons [of x] by (auto simp: method_options_step_def before_ahead elim!: ends_mono)
  qed (use assms emit_option_Cons in \<open>auto simp: before_RBrace emit_option_def\<close>)
  then show ?thesis by (rule ends_mono) (simp add: fold_snoc)
qed

lemma bare_method_iff:
  "bare_method x = me \<longleftrightarrow> bare_ident (me_name x) = me_name me \<and> bare_type (me_input x) = me_input me
     \<and> bare_type (me_output x) = me_output me \<and> me_client_streaming x = me_client_streaming me
     \<and> me_server_streaming x = me_server_streaming me \<and> map bare_option (me_options x) = me_options me"
  by (cases x; cases me) auto

text \<open>The end of a method: a semicolon or a block of options.\<close>

lemma method_end_reads:
  assumes p: "ahead p = (if opts = [] then [Semicolon] else emit_block (map emit_option opts)) @ rest"
    and wf: "list_all wf_option opts"
    and Q: "\<And>xs q. map bare_option xs = opts \<Longrightarrow> quiet p rest q \<Longrightarrow> ends (f (xs, q)) Q"
  shows "ends (bind_result (if peek_kind p = Some LBrace
      then bind_result (while_tokens (before RBrace) method_options_step [] (advanced p)) (\<lambda>(opts, p). Inr (opts, expected RBrace p))
      else Inr ([], expected Semicolon p)) f) Q"
proof (cases opts)
  case Nil
  with p Q [of "[]"] show ?thesis by (auto simp: peek_kind_ahead quiet_def expected_ahead)
next
  case Cons
  with p have p': "ahead (advanced p) = concat (map emit_option opts) @ RBrace # rest" "peek_kind p = Some LBrace"
    by (auto simp: emit_block_def peek_kind_ahead)
  with wf Q show ?thesis
    by (auto simp: quiet_def expected_ahead intro!: ends_mono [OF method_options_reads [OF p'(1)]])
qed

lemma stream_type_reads:
  assumes p: "ahead p = emit_stream b @ emit_type ty @ rest" and s: "\<not> b \<longrightarrow> first_word ty \<noteq> Some ''stream''"
    and ty: "no_dot rest" "wf_type ty"
    and Q: "\<And>x q. bare_type x = bare_type ty \<Longrightarrow> quiet p rest q \<Longrightarrow> ends (f b x q) Q"
  shows "ends (case skip_stream p of (cs, p) \<Rightarrow> try_act (parse_type_ref p) (f cs)) Q"
proof -
  obtain q where q: "skip_stream p = (b, q)" "quiet p (emit_type ty @ rest) q"
    using skip_stream_reads [OF p s] by blast
  then have "ahead q = emit_type ty @ rest" by (simp add: quiet_def)
  then show ?thesis
    unfolding q(1) prod.case by (rule type_reads) (use ty Q q quiet_trans in blast)+
qed

lemma parse_method_reads:
  assumes p: "ahead p = emit_method me @ rest" and wf: "wf_method me"
  shows "ends (parse_method p) (\<lambda>r q. (\<exists>x. r = Some x \<and> bare_method x = me) \<and> quiet p rest q)"
proof -
  let ?fin = "(if me_options me = [] then [Semicolon] else emit_block (map emit_option (me_options me))) @ rest"
  let ?out = "emit_stream (me_server_streaming me) @ emit_type (me_output me) @ RParen # ?fin"
  let ?in = "emit_stream (me_client_streaming me) @ emit_type (me_input me) @ RParen # TkIdent ''returns'' # LParen # ?out"
  have p': "ahead p = TkIdent ''rpc'' # TkIdent (id_name (me_name me)) # LParen # ?in"
    using p by (simp add: emit_method_def)
  show ?thesis
    unfolding parse_method_def Let_def
    by (rule try_expect_ident [where s = "id_name (me_name me)" and ks = "LParen # ?in"], use p' in simp,
        rule stream_type_reads [where b = "me_client_streaming me" and ty = "me_input me"
          and rest = "RParen # TkIdent ''returns'' # LParen # ?out"])
      (use p' wf in \<open>auto simp: wf_method_def quiet_def expected_ahead at_keyword_ahead bare_method_iff
        intro!: stream_type_reads [where b = "me_server_streaming me" and ty = "me_output me" and rest = "RParen # ?fin"]
          method_end_reads [where opts = "me_options me" and rest = rest]\<close>)
qed


datatype service_item = SI_option "unit proto_option" | SI_method "unit method_decl"

fun emit_service_item :: "service_item \<Rightarrow> token_kind list" where
  "emit_service_item (SI_option opt) = emit_option opt"
| "emit_service_item (SI_method me) = emit_method me"

fun wf_service_item :: "service_item \<Rightarrow> bool" where
  "wf_service_item (SI_option opt) \<longleftrightarrow> wf_option opt"
| "wf_service_item (SI_method me) \<longleftrightarrow> wf_method me"

fun add_service_item :: "service_item \<Rightarrow> unit service \<Rightarrow> unit service" where
  "add_service_item (SI_option opt) (Service sp n ms opts) = Service sp n ms (opts @ [opt])"
| "add_service_item (SI_method me) (Service sp n ms opts) = Service sp n (ms @ [me]) opts"

definition service_items :: "unit service \<Rightarrow> service_item list" where
  "service_items sv = map SI_option (sv_options sv) @ map SI_method (sv_methods sv)"

definition emit_service :: "unit service \<Rightarrow> token_kind list" where
  "emit_service sv = TkIdent ''service'' # TkIdent (id_name (sv_name sv)) # emit_block (map emit_service_item (service_items sv))"

definition wf_service :: "unit service \<Rightarrow> bool" where
  "wf_service sv \<longleftrightarrow> list_all wf_service_item (service_items sv)"

lemma fold_service_items: "fold add_service_item (service_items sv) (Service () (sv_name sv) [] []) = sv"
proof -
  have "fold add_service_item (map SI_option os) (Service sp n ms opts) = Service sp n ms (opts @ os)" for os sp n ms opts
    by (induction os arbitrary: opts) auto
  moreover have "fold add_service_item (map SI_method os) (Service sp n ms opts) = Service sp n (ms @ os) opts" for os sp n ms opts
    by (induction os arbitrary: ms) auto
  ultimately show ?thesis by (cases sv) (simp add: service_items_def)
qed

lemma emit_service_item_Cons: "\<exists>k ks. emit_service_item x = k # ks \<and> k \<noteq> RBrace"
  by (cases x) (simp_all add: emit_option_def emit_method_def)

lemma service_step_reads:
  assumes q: "ahead q = emit_service_item x @ rest" and wf: "wf_service_item x" and s: "bare_service s = a"
  shows "ends (service_step s q) (\<lambda>f r. \<exists>s'. f = Continue s' \<and> bare_service s' = add_service_item x a \<and> quiet q rest r)"
proof (cases x)
  case (SI_option opt)
  with q wf have o: "ahead q = emit_option opt @ rest" "wf_option opt" by simp_all
  have "at_keyword q ''option''" using o(1) by (simp add: at_keyword_ahead emit_option_def)
  then show ?thesis
    using s SI_option by (cases s) (auto simp: service_step_def intro!: ends_mono [OF parse_option_stmt_reads [OF o]])
next
  case (SI_method me)
  with q wf have m: "ahead q = emit_method me @ rest" "wf_method me" by simp_all
  have "at_keyword q ''rpc''" "\<not> at_keyword q ''option''" using m(1) by (simp_all add: at_keyword_ahead emit_method_def)
  then show ?thesis
    using s SI_method by (cases s) (auto simp: service_step_def intro!: ends_mono [OF parse_method_reads [OF m]])
qed

text \<open>A body in braces, of any kind of declaration.\<close>

lemma body_reads:
  assumes step: "\<And>x a s q rest. x \<in> set xs \<Longrightarrow> ab s = a \<Longrightarrow> ahead q = emit x @ rest \<Longrightarrow> within p q
      \<Longrightarrow> ends (step s q) (\<lambda>f r. \<exists>s'. f = Continue s' \<and> ab s' = upd x a \<and> quiet q rest r)"
    and head: "\<And>x. \<exists>k ks. emit x = k # ks \<and> k \<noteq> RBrace"
    and p: "ahead p = concat (map emit xs) @ RBrace # rest"
  shows "ends (while_tokens (before RBrace) step s p) (\<lambda>t q. ab t = fold upd xs (ab s) \<and> quiet p (RBrace # rest) q)"
proof (rule while_items [where R = "\<lambda>a t. ab t = a" and emit = emit])
  fix x a t q rest'
  assume "x \<in> set xs" "ab t = a" "ahead q = emit x @ rest'" "within p q"
  with step [of x t a q rest'] head [of x] show "before RBrace q
      \<and> ends (step t q) (\<lambda>f r. \<exists>s'. f = Continue s' \<and> ab s' = upd x a \<and> quiet q rest' r)"
    by (auto simp: before_ahead)
next
  show "emit x \<noteq> []" for x using head [of x] by auto
qed (use p in \<open>auto simp: before_RBrace\<close>)

lemma parse_service_reads:
  assumes p: "ahead p = emit_service sv @ rest" and wf: "wf_service sv"
  shows "ends (parse_service p) (\<lambda>r q. (\<exists>x. r = Some x \<and> bare_service x = sv) \<and> quiet p rest q)"
proof -
  have p': "ahead p = TkIdent ''service'' # TkIdent (id_name (sv_name sv)) # LBrace
      # concat (map emit_service_item (service_items sv)) @ RBrace # rest"
    using p by (simp add: emit_service_def emit_block_def)
  have body: "ends (while_tokens (before RBrace) service_step s q)
      (\<lambda>t q'. bare_service t = fold add_service_item (service_items sv) (bare_service s) \<and> quiet q (RBrace # rest) q')"
    if "ahead q = concat (map emit_service_item (service_items sv)) @ RBrace # rest" for s q
    by (rule body_reads [where ab = bare_service and emit = emit_service_item])
      (use that wf emit_service_item_Cons in \<open>auto simp: wf_service_def list_all_iff intro!: service_step_reads\<close>)
  have sv: "bare_service t = sv \<Longrightarrow> bare_service (case t of Service _ n ms opts \<Rightarrow> Service sp n ms opts) = sv"
    for t :: "span service" and sp by (cases t; cases sv) auto
  show ?thesis
    unfolding parse_service_def Let_def
    by (rule try_expect_ident [where s = "id_name (sv_name sv)"])
      (use p' fold_service_items [of sv] in \<open>auto simp: quiet_def expected_ahead sv intro!: ends_mono [OF body]\<close>)
qed

section \<open>Extensions\<close>

datatype extend_item = XI_option "unit proto_option" | XI_field "unit field"

fun emit_extend_item :: "extend_item \<Rightarrow> token_kind list" where
  "emit_extend_item (XI_option opt) = emit_option opt"
| "emit_extend_item (XI_field f) = emit_field f"

text \<open>The first word of a field without a label must not be a statement of the body.\<close>

definition wf_member :: "string list \<Rightarrow> unit field \<Rightarrow> bool" where
  "wf_member kws f \<longleftrightarrow> wf_field f \<and> (fd_label f = LabelSingular \<longrightarrow> (case first_word (fd_ty f) of Some s \<Rightarrow> s \<notin> set kws | None \<Rightarrow> True))"

fun wf_extend_item :: "extend_item \<Rightarrow> bool" where
  "wf_extend_item (XI_option opt) \<longleftrightarrow> wf_option opt"
| "wf_extend_item (XI_field f) \<longleftrightarrow> wf_member [''option''] f"

fun add_extend_item :: "extend_item \<Rightarrow> unit extension \<Rightarrow> unit extension" where
  "add_extend_item (XI_option opt) (Extension sp n fs opts) = Extension sp n fs (opts @ [opt])"
| "add_extend_item (XI_field f) (Extension sp n fs opts) = Extension sp n (fs @ [f]) opts"

definition extend_items :: "unit extension \<Rightarrow> extend_item list" where
  "extend_items ex = map XI_option (ex_options ex) @ map XI_field (ex_fields ex)"

definition emit_extension :: "unit extension \<Rightarrow> token_kind list" where
  "emit_extension ex = TkIdent ''extend'' # TkIdent (id_name (ex_extendee ex)) # emit_block (map emit_extend_item (extend_items ex))"

definition wf_extension :: "unit extension \<Rightarrow> bool" where
  "wf_extension ex \<longleftrightarrow> list_all wf_extend_item (extend_items ex)"

lemma fold_extend_items: "fold add_extend_item (extend_items ex) (Extension () (ex_extendee ex) [] []) = ex"
proof -
  have "fold add_extend_item (map XI_option os) (Extension sp n fs opts) = Extension sp n fs (opts @ os)" for os sp n fs opts
    by (induction os arbitrary: opts) auto
  moreover have "fold add_extend_item (map XI_field os) (Extension sp n fs opts) = Extension sp n (fs @ os) opts" for os sp n fs opts
    by (induction os arbitrary: fs) auto
  ultimately show ?thesis by (cases ex) (simp add: extend_items_def)
qed

lemma emit_extend_item_Cons: "\<exists>k ks. emit_extend_item x = k # ks \<and> k \<noteq> RBrace"
  using emit_field_Cons by (cases x) (simp_all add: emit_option_def)

text \<open>A member of a body starts with none of the words, but with an identifier or a dot.\<close>

lemma member_words:
  assumes p: "ahead p = emit_field f @ rest" and wf: "wf_member kws f" and kw: "kw \<in> set kws"
    and no_label: "kw \<notin> {''optional'', ''required'', ''repeated''}"
  shows "\<not> at_keyword p kw"
proof (cases "fd_label f = LabelSingular")
  case True
  obtain k ks where k: "emit_type (fd_ty f) = k # ks" using emit_type_ne by (cases "emit_type (fd_ty f)") auto
  with p True have "ahead p = k # ks @ emit_numbered (fd_name f) (fd_number f) (all_settings f) @ rest"
    by (simp add: emit_field_def)
  with wf True k kw show ?thesis
    by (auto simp: at_keyword_ahead wf_member_def first_word_def)
next
  case False
  with p no_label show ?thesis by (cases "fd_label f") (auto simp: at_keyword_ahead emit_field_def)
qed

lemma emit_type_head: "emit_type ty = k # ks \<Longrightarrow> k = Dot \<or> (\<exists>s. k = TkIdent s)"
  by (cases ty) (auto simp: emit_name_def emit_dotted_def split: list.splits if_splits)

lemma member_head: "ahead p = emit_field f @ rest \<Longrightarrow> peek_kind p = Some Dot \<or> at_ident p"
proof -
  assume p: "ahead p = emit_field f @ rest"
  obtain k ks where k: "emit_type (fd_ty f) = k # ks" using emit_type_ne by (cases "emit_type (fd_ty f)") auto
  with p emit_type_head [OF k] show ?thesis
    by (cases "fd_label f") (auto simp: emit_field_def peek_kind_ahead at_ident_ahead)
qed

lemma extend_step_reads:
  assumes q: "ahead q = emit_extend_item x @ rest" and wf: "wf_extend_item x" and s: "bare_extension s = a"
  shows "ends (extend_step s q) (\<lambda>f r. \<exists>s'. f = Continue s' \<and> bare_extension s' = add_extend_item x a \<and> quiet q rest r)"
proof (cases x)
  case (XI_option opt)
  with q wf have o: "ahead q = emit_option opt @ rest" "wf_option opt" by simp_all
  have "at_keyword q ''option''" using o(1) by (simp add: at_keyword_ahead emit_option_def)
  then show ?thesis
    using s XI_option by (cases s) (auto simp: extend_step_def intro!: ends_mono [OF parse_option_stmt_reads [OF o]])
next
  case (XI_field f)
  with q wf have f: "ahead q = emit_field f @ rest" "wf_field f" "wf_member [''option''] f" by (simp_all add: wf_member_def)
  have "\<not> at_keyword q ''option''" by (rule member_words [OF f(1,3)]) simp_all
  then show ?thesis
    using s XI_field by (cases s) (auto simp: extend_step_def intro!: ends_mono [OF parse_field_reads [OF f(1,2)]])
qed

lemma parse_extend_reads:
  assumes p: "ahead p = emit_extension ex @ rest" and wf: "wf_extension ex"
  shows "ends (parse_extend p) (\<lambda>r q. (\<exists>x. r = Some x \<and> bare_extension x = ex) \<and> quiet p rest q)"
proof -
  have p': "ahead p = TkIdent ''extend'' # TkIdent (id_name (ex_extendee ex)) # LBrace
      # concat (map emit_extend_item (extend_items ex)) @ RBrace # rest"
    using p by (simp add: emit_extension_def emit_block_def)
  have body: "ends (while_tokens (before RBrace) extend_step s q)
      (\<lambda>t q'. bare_extension t = fold add_extend_item (extend_items ex) (bare_extension s) \<and> quiet q (RBrace # rest) q')"
    if "ahead q = concat (map emit_extend_item (extend_items ex)) @ RBrace # rest" for s q
    by (rule body_reads [where ab = bare_extension and emit = emit_extend_item])
      (use that wf emit_extend_item_Cons in \<open>auto simp: wf_extension_def list_all_iff intro!: extend_step_reads\<close>)
  have ex: "bare_extension t = ex \<Longrightarrow> bare_extension (case t of Extension _ n fs opts \<Rightarrow> Extension sp n fs opts) = ex"
    for t :: "span extension" and sp by (cases t; cases ex) auto
  show ?thesis
    unfolding parse_extend_def Let_def
    by (rule try_expect_ident [where s = "id_name (ex_extendee ex)"])
      (use p' fold_extend_items [of ex] in \<open>auto simp: quiet_def expected_ahead ex intro!: ends_mono [OF body]\<close>)
qed


section \<open>Messages\<close>

datatype message_item =
    MI_option "unit proto_option" | MI_message "unit message" | MI_enum "unit enum" | MI_oneof "unit oneof"
  | MI_map "unit map_field" | MI_names "unit ident list" | MI_ranges "int_range list"
  | MI_extensions "int_range list" | MI_extend "unit extension" | MI_field "unit field"

definition if_any :: "('a list \<Rightarrow> 'b) \<Rightarrow> 'a list \<Rightarrow> 'b list" where
  "if_any f xs = (if xs = [] then [] else [f xs])"

text \<open>The fields written in the body: a group's first field is the one the parser makes up for it.\<close>

fun body_fields :: "unit message \<Rightarrow> unit field list" where
  "body_fields (Message sp n fds oneofs maps msgs enums exts rr rn er opts grp) = (if grp then tl fds else fds)"

fun message_items :: "unit message \<Rightarrow> message_item list" where
  "message_items (Message sp n fds oneofs maps msgs enums exts rr rn er opts grp) =
     map MI_option opts @ map MI_message msgs @ map MI_enum enums @ map MI_oneof oneofs @ map MI_map maps
     @ if_any MI_names rn @ if_any MI_ranges rr @ if_any MI_extensions er @ map MI_extend exts
     @ map MI_field (if grp then tl fds else fds)"

definition message_head :: "unit message \<Rightarrow> token_kind list" where
  "message_head m = (if msg_is_group m
     then [TkIdent ''group'', TkIdent (id_name (msg_name m)), Equals, TkInt (fd_number (hd (msg_fields m)))]
     else [TkIdent ''message'', TkIdent (id_name (msg_name m))])"

fun emit_message :: "unit message \<Rightarrow> token_kind list" where
  "emit_message (Message sp n fds oneofs maps msgs enums exts rr rn er opts grp) =
     message_head (Message sp n fds oneofs maps msgs enums exts rr rn er opts grp)
     @ emit_block (map emit_option opts @ map emit_message msgs @ map emit_enum enums @ map emit_oneof oneofs
       @ map emit_map_field maps @ if_any emit_reserved_names rn @ if_any emit_reserved_ranges rr
       @ if_any emit_extensions er @ map emit_extension exts @ map emit_field (if grp then tl fds else fds))"

fun emit_message_item :: "message_item \<Rightarrow> token_kind list" where
  "emit_message_item (MI_option opt) = emit_option opt"
| "emit_message_item (MI_message m) = emit_message m"
| "emit_message_item (MI_enum en) = emit_enum en"
| "emit_message_item (MI_oneof oo) = emit_oneof oo"
| "emit_message_item (MI_map mf) = emit_map_field mf"
| "emit_message_item (MI_names ns) = emit_reserved_names ns"
| "emit_message_item (MI_ranges rs) = emit_reserved_ranges rs"
| "emit_message_item (MI_extensions rs) = emit_extensions rs"
| "emit_message_item (MI_extend ex) = emit_extension ex"
| "emit_message_item (MI_field f) = emit_field f"

definition statement_words :: "string list" where
  "statement_words = [''option'', ''message'', ''enum'', ''oneof'', ''map'', ''reserved'', ''extensions'', ''extend'', ''group'']"

text \<open>A message with at most \<open>d\<close> levels of messages, itself included.\<close>

fun wf_message :: "nat \<Rightarrow> unit message \<Rightarrow> bool" where
  "wf_message d (Message sp n fds oneofs maps msgs enums exts rr rn er opts grp) \<longleftrightarrow>
     0 < d \<and> list_all wf_option opts \<and> list_all (wf_message (d - 1)) msgs \<and> list_all wf_enum enums
     \<and> list_all wf_oneof oneofs \<and> list_all wf_map_field maps \<and> list_all wf_extension exts
     \<and> list_all (wf_member statement_words) (if grp then tl fds else fds)
     \<and> (grp \<longrightarrow> fds \<noteq> [] \<and> hd fds = Field () n (fd_number (hd fds)) (TNamed n) LabelOptional None None [])"

fun add_message_item :: "message_item \<Rightarrow> unit message \<Rightarrow> unit message" where
  "add_message_item (MI_option opt) (Message sp n fds oneofs maps msgs enums exts rr rn er opts grp)
     = Message sp n fds oneofs maps msgs enums exts rr rn er (opts @ [opt]) grp"
| "add_message_item (MI_message m) (Message sp n fds oneofs maps msgs enums exts rr rn er opts grp)
     = Message sp n fds oneofs maps (msgs @ [m]) enums exts rr rn er opts grp"
| "add_message_item (MI_enum en) (Message sp n fds oneofs maps msgs enums exts rr rn er opts grp)
     = Message sp n fds oneofs maps msgs (enums @ [en]) exts rr rn er opts grp"
| "add_message_item (MI_oneof oo) (Message sp n fds oneofs maps msgs enums exts rr rn er opts grp)
     = Message sp n fds (oneofs @ [oo]) maps msgs enums exts rr rn er opts grp"
| "add_message_item (MI_map mf) (Message sp n fds oneofs maps msgs enums exts rr rn er opts grp)
     = Message sp n fds oneofs (maps @ [mf]) msgs enums exts rr rn er opts grp"
| "add_message_item (MI_names ns) (Message sp n fds oneofs maps msgs enums exts rr rn er opts grp)
     = Message sp n fds oneofs maps msgs enums exts rr (rn @ ns) er opts grp"
| "add_message_item (MI_ranges rs) (Message sp n fds oneofs maps msgs enums exts rr rn er opts grp)
     = Message sp n fds oneofs maps msgs enums exts rs rn er opts grp"
| "add_message_item (MI_extensions rs) (Message sp n fds oneofs maps msgs enums exts rr rn er opts grp)
     = Message sp n fds oneofs maps msgs enums exts rr rn rs opts grp"
| "add_message_item (MI_extend ex) (Message sp n fds oneofs maps msgs enums exts rr rn er opts grp)
     = Message sp n fds oneofs maps msgs enums (exts @ [ex]) rr rn er opts grp"
| "add_message_item (MI_field f) (Message sp n fds oneofs maps msgs enums exts rr rn er opts grp)
     = Message sp n (fds @ [f]) oneofs maps msgs enums exts rr rn er opts grp"

text \<open>The message the parser starts with.\<close>

fun message_start :: "unit message \<Rightarrow> unit message" where
  "message_start (Message sp n fds oneofs maps msgs enums exts rr rn er opts grp) =
     Message () n (if grp then [hd fds] else []) [] [] [] [] [] [] [] [] [] grp"

lemma fold_message_items:
  assumes "wf_message d m"
  shows "fold add_message_item (message_items m) (message_start m) = m"
proof -
  have o1: "fold add_message_item (map MI_option xs) (Message sp n fds oneofs maps msgs enums exts rr rn er opts grp)
    = Message sp n fds oneofs maps msgs enums exts rr rn er (opts @ xs) grp"
    for xs sp n fds oneofs maps msgs enums exts rr rn er opts grp by (induction xs arbitrary: opts) auto
  have m1: "fold add_message_item (map MI_message xs) (Message sp n fds oneofs maps msgs enums exts rr rn er opts grp)
    = Message sp n fds oneofs maps (msgs @ xs) enums exts rr rn er opts grp"
    for xs sp n fds oneofs maps msgs enums exts rr rn er opts grp by (induction xs arbitrary: msgs) auto
  have e1: "fold add_message_item (map MI_enum xs) (Message sp n fds oneofs maps msgs enums exts rr rn er opts grp)
    = Message sp n fds oneofs maps msgs (enums @ xs) exts rr rn er opts grp"
    for xs sp n fds oneofs maps msgs enums exts rr rn er opts grp by (induction xs arbitrary: enums) auto
  have oo1: "fold add_message_item (map MI_oneof xs) (Message sp n fds oneofs maps msgs enums exts rr rn er opts grp)
    = Message sp n fds (oneofs @ xs) maps msgs enums exts rr rn er opts grp"
    for xs sp n fds oneofs maps msgs enums exts rr rn er opts grp by (induction xs arbitrary: oneofs) auto
  have mp1: "fold add_message_item (map MI_map xs) (Message sp n fds oneofs maps msgs enums exts rr rn er opts grp)
    = Message sp n fds oneofs (maps @ xs) msgs enums exts rr rn er opts grp"
    for xs sp n fds oneofs maps msgs enums exts rr rn er opts grp by (induction xs arbitrary: maps) auto
  have x1: "fold add_message_item (map MI_extend xs) (Message sp n fds oneofs maps msgs enums exts rr rn er opts grp)
    = Message sp n fds oneofs maps msgs enums (exts @ xs) rr rn er opts grp"
    for xs sp n fds oneofs maps msgs enums exts rr rn er opts grp by (induction xs arbitrary: exts) auto
  have f1: "fold add_message_item (map MI_field xs) (Message sp n fds oneofs maps msgs enums exts rr rn er opts grp)
    = Message sp n (fds @ xs) oneofs maps msgs enums exts rr rn er opts grp"
    for xs sp n fds oneofs maps msgs enums exts rr rn er opts grp by (induction xs arbitrary: fds) auto
  show ?thesis
    using assms by (cases m) (auto simp: o1 m1 e1 oo1 mp1 x1 f1 if_any_def)
qed

lemma emit_message_items:
  "emit_message m = message_head m @ emit_block (map emit_message_item (message_items m))"
  by (cases m) (auto simp: if_any_def comp_def)

lemma emit_message_item_Cons: "\<exists>k ks. emit_message_item x = k # ks \<and> k \<noteq> RBrace"
  using emit_field_Cons
  by (cases x) (simp_all add: emit_option_def emit_message_items message_head_def emit_enum_def emit_oneof_def
      emit_map_field_def emit_reserved_names_def emit_reserved_ranges_def emit_extensions_def emit_extension_def)

fun wf_message_item :: "nat \<Rightarrow> message_item \<Rightarrow> bool" where
  "wf_message_item d (MI_option opt) \<longleftrightarrow> wf_option opt"
| "wf_message_item d (MI_message m) \<longleftrightarrow> wf_message d m"
| "wf_message_item d (MI_enum en) \<longleftrightarrow> wf_enum en"
| "wf_message_item d (MI_oneof oo) \<longleftrightarrow> wf_oneof oo"
| "wf_message_item d (MI_map mf) \<longleftrightarrow> wf_map_field mf"
| "wf_message_item d (MI_names ns) \<longleftrightarrow> ns \<noteq> []"
| "wf_message_item d (MI_ranges rs) \<longleftrightarrow> rs \<noteq> []"
| "wf_message_item d (MI_extensions rs) \<longleftrightarrow> rs \<noteq> []"
| "wf_message_item d (MI_extend ex) \<longleftrightarrow> wf_extension ex"
| "wf_message_item d (MI_field f) \<longleftrightarrow> wf_member statement_words f"

lemma wf_message_items: "wf_message d m \<Longrightarrow> x \<in> set (message_items m) \<Longrightarrow> wf_message_item (d - 1) x"
  by (cases m) (auto simp: list_all_iff if_any_def split: if_splits)

lemma add_or_recover_Some: "add_or_recover f m (Some x, q) = Inr (Continue (f x), q)"
  by (simp add: add_or_recover_def)

text \<open>What the first word of a statement says about the tests of the body.\<close>

lemma keyword_tests:
  "ahead q = TkIdent s # ks \<Longrightarrow> at_keyword q kw \<longleftrightarrow> s = kw"
  by (simp add: at_keyword_ahead)

lemma message_step_reads:
  assumes q: "ahead q = emit_message_item x @ rest" and wf: "wf_message_item d x" and s: "bare_message s = a"
    and rec: "\<And>m. x = MI_message m \<Longrightarrow> ends (rec (msg_is_group m) q) (\<lambda>r q'. (\<exists>y. r = Some y \<and> bare_message y = m) \<and> quiet q rest q')"
  shows "ends (message_step rec s q) (\<lambda>f r. \<exists>s'. f = Continue s' \<and> bare_message s' = add_message_item x a \<and> quiet q rest r)"
proof -
  obtain sp n fds oneofs maps msgs enums exts rr rn er opts grp where
    s': "s = Message sp n fds oneofs maps msgs enums exts rr rn er opts grp" by (cases s)
  note simps = message_step_def s' s [symmetric] add_or_recover_Some
  show ?thesis
  proof (cases x)
    case (MI_option opt)
    with q wf have o: "ahead q = emit_option opt @ rest" "wf_option opt" by simp_all
    then obtain ks where "ahead q = TkIdent ''option'' # ks" by (simp add: emit_option_def)
    then show ?thesis
      using MI_option by (auto simp: simps keyword_tests intro!: ends_mono [OF parse_option_stmt_reads [OF o]])
  next
    case (MI_message m)
    then obtain ks where "ahead q = TkIdent (if msg_is_group m then ''group'' else ''message'') # ks"
      using q by (cases "msg_is_group m") (auto simp: emit_message_items message_head_def)
    then show ?thesis
      using MI_message rec [OF MI_message]
      by (cases "msg_is_group m") (auto simp: simps keyword_tests elim!: ends_mono)
  next
    case (MI_enum en)
    with q wf have e: "ahead q = emit_enum en @ rest" "wf_enum en" by simp_all
    then obtain ks where "ahead q = TkIdent ''enum'' # ks" by (simp add: emit_enum_def)
    then show ?thesis
      using MI_enum by (auto simp: simps keyword_tests intro!: ends_mono [OF parse_enum_reads [OF e]])
  next
    case (MI_oneof oo)
    with q wf have e: "ahead q = emit_oneof oo @ rest" "wf_oneof oo" by simp_all
    then obtain ks where "ahead q = TkIdent ''oneof'' # ks" by (simp add: emit_oneof_def)
    then show ?thesis
      using MI_oneof by (auto simp: simps keyword_tests intro!: ends_mono [OF parse_oneof_reads [OF e]])
  next
    case (MI_map mf)
    with q wf have e: "ahead q = emit_map_field mf @ rest" "wf_map_field mf" by simp_all
    then obtain ks where "ahead q = TkIdent ''map'' # ks" by (simp add: emit_map_field_def)
    then show ?thesis
      using MI_map by (auto simp: simps keyword_tests intro!: ends_mono [OF parse_map_reads [OF e]])
  next
    case (MI_names ns)
    with q wf have e: "ahead q = emit_reserved_names ns @ rest" "ns \<noteq> []" by simp_all
    then obtain ks where "ahead q = TkIdent ''reserved'' # ks" by (simp add: emit_reserved_names_def)
    then show ?thesis
      using MI_names by (auto simp: simps keyword_tests intro!: ends_mono [OF parse_reserved_names_reads [OF e]])
  next
    case (MI_ranges rs)
    with q wf have e: "ahead q = emit_reserved_ranges rs @ rest" "rs \<noteq> []" by simp_all
    then obtain ks where "ahead q = TkIdent ''reserved'' # ks" by (simp add: emit_reserved_ranges_def)
    then show ?thesis
      using MI_ranges by (auto simp: simps keyword_tests intro!: ends_mono [OF parse_reserved_ranges_reads [OF e]])
  next
    case (MI_extensions rs)
    with q wf have e: "ahead q = emit_extensions rs @ rest" "rs \<noteq> []" by simp_all
    then obtain ks where "ahead q = TkIdent ''extensions'' # ks" by (simp add: emit_extensions_def)
    then show ?thesis
      using MI_extensions by (auto simp: simps keyword_tests intro!: ends_mono [OF parse_extensions_reads [OF e]])
  next
    case (MI_extend ex)
    with q wf have e: "ahead q = emit_extension ex @ rest" "wf_extension ex" by simp_all
    then obtain ks where "ahead q = TkIdent ''extend'' # ks" by (simp add: emit_extension_def)
    then show ?thesis
      using MI_extend by (auto simp: simps keyword_tests intro!: ends_mono [OF parse_extend_reads [OF e]])
  next
    case (MI_field f)
    with q wf have f: "ahead q = emit_field f @ rest" "wf_field f" "wf_member statement_words f" by (simp_all add: wf_member_def)
    have "\<not> at_keyword q kw" if "kw \<in> set statement_words" for kw
      using member_words [OF f(1,3) that] that by (auto simp: statement_words_def)
    then have "\<not> at_keyword q ''option''" "\<not> at_keyword q ''message''" "\<not> at_keyword q ''enum''" "\<not> at_keyword q ''oneof''"
      "\<not> at_keyword q ''map''" "\<not> at_keyword q ''reserved''" "\<not> at_keyword q ''extensions''" "\<not> at_keyword q ''extend''"
      "\<not> at_keyword q ''group''" by (simp_all add: statement_words_def)
    then show ?thesis
      using MI_field member_head [OF f(1)] by (auto simp: simps intro!: ends_mono [OF parse_field_reads [OF f(1,2)]])
  qed
qed


lemma group_number_reads:
  assumes "ahead p = (if grp then [Equals, TkInt n] else []) @ LBrace # rest"
  shows "\<exists>q. group_number grp p = (if grp then n else 0, q) \<and> quiet p (LBrace # rest) q"
  using assms by (auto simp: group_number_def expected_ahead take_int_ahead quiet_def)

lemma emit_message_head:
  "emit_message m = TkIdent (if msg_is_group m then ''group'' else ''message'') # TkIdent (id_name (msg_name m))
     # (if msg_is_group m then [Equals, TkInt (fd_number (hd (msg_fields m)))] else [])
     @ LBrace # concat (map emit_message_item (message_items m)) @ [RBrace]"
  by (simp add: emit_message_items message_head_def emit_block_def)

lemma message_start_bare:
  assumes "wf_message d m"
  shows "bare_message (Message sp (Ident (id_name (msg_name m)) sp1)
      (if msg_is_group m then [group_field sp (Ident (id_name (msg_name m)) sp1) (fd_number (hd (msg_fields m)))] else [])
      [] [] [] [] [] [] [] [] [] (msg_is_group m)) = message_start m"
proof (cases m)
  case (Message sp2 n fds oneofs maps msgs enums exts rr rn er opts grp)
  show ?thesis
  proof (cases grp)
    case True
    with assms Message have "hd fds = Field () n (fd_number (hd fds)) (TNamed n) LabelOptional None None []" by simp
    then show ?thesis using Message True by (simp add: group_field_def)
  qed (use Message in simp)
qed

lemma parse_message_inner_reads:
  assumes p: "ahead p = emit_message m @ rest" and wf: "wf_message d m"
    and rec: "\<And>x q rest'. MI_message x \<in> set (message_items m) \<Longrightarrow> ahead q = emit_message x @ rest' \<Longrightarrow> ps_depth q = ps_depth p
      \<Longrightarrow> ends (rec (msg_is_group x) q) (\<lambda>r q'. (\<exists>y. r = Some y \<and> bare_message y = x) \<and> quiet q rest' q')"
  shows "ends (parse_message_inner rec (msg_is_group m) p) (\<lambda>r q. (\<exists>y. r = Some y \<and> bare_message y = m) \<and> quiet p rest q)"
proof -
  let ?tail = "LBrace # concat (map emit_message_item (message_items m)) @ RBrace # rest"
  have p': "ahead (advanced p) = TkIdent (id_name (msg_name m))
      # (if msg_is_group m then [Equals, TkInt (fd_number (hd (msg_fields m)))] else []) @ ?tail"
    using p by (simp add: emit_message_head)
  have body: "ends (while_tokens (before RBrace) (message_step rec) s q)
      (\<lambda>t q'. bare_message t = fold add_message_item (message_items m) (bare_message s) \<and> quiet q (RBrace # rest) q')"
    if q: "ahead q = concat (map emit_message_item (message_items m)) @ RBrace # rest" "ps_depth q = ps_depth p" for s q
  proof (rule body_reads [where ab = bare_message and emit = emit_message_item])
    fix x a and s :: "span message" and r rest'
    assume x: "x \<in> set (message_items m)" "bare_message s = a" "ahead r = emit_message_item x @ rest'" "within q r"
    show "ends (message_step rec s r) (\<lambda>f r'. \<exists>s'. f = Continue s' \<and> bare_message s' = add_message_item x a \<and> quiet r rest' r')"
    proof (rule message_step_reads [OF x(3) wf_message_items [OF wf x(1)] x(2)])
      fix m' assume "x = MI_message m'"
      with x q show "ends (rec (msg_is_group m') r) (\<lambda>r0 q'. (\<exists>y. r0 = Some y \<and> bare_message y = m') \<and> quiet r rest' q')"
        by (intro rec) (simp_all add: within_def)
    qed
  qed (use q emit_message_item_Cons in auto)
  show ?thesis
    unfolding parse_message_inner_def Let_def
  proof (rule try_expect_ident [OF p'])
    fix sp :: span
    let ?n = "Ident (id_name (msg_name m)) sp" and ?num = "if msg_is_group m then fd_number (hd (msg_fields m)) else 0"
    obtain q where q: "group_number (msg_is_group m) (advanced (advanced p)) = (?num, q)" "quiet (advanced (advanced p)) ?tail q"
      using group_number_reads [of "advanced (advanced p)" "msg_is_group m" "fd_number (hd (msg_fields m))"] p' by auto
    then have q': "ahead (expected LBrace q) = concat (map emit_message_item (message_items m)) @ RBrace # rest"
      "ps_diags (expected LBrace q) = ps_diags p" "ps_depth (expected LBrace q) = ps_depth p"
      by (simp_all add: quiet_def expected_ahead)
    have start: "fold add_message_item (message_items m) (bare_message (Message (here p) ?n
        (if msg_is_group m then [group_field (here p) ?n ?num] else []) [] [] [] [] [] [] [] [] [] (msg_is_group m))) = m"
      using message_start_bare [OF wf] fold_message_items [OF wf] by (cases "msg_is_group m") simp_all
    show "ends (case group_number (msg_is_group m) (advanced (advanced p)) of (number, p') \<Rightarrow>
        bind_result (parse_message_body rec (Message (here p) ?n (if msg_is_group m then [group_field (here p) ?n number] else [])
          [] [] [] [] [] [] [] [] [] (msg_is_group m)) (expected LBrace p')) (\<lambda>(m, p). Inr (Some m, p)))
        (\<lambda>r q. (\<exists>y. r = Some y \<and> bare_message y = m) \<and> quiet p rest q)"
      unfolding q(1) prod.case parse_message_body_def ends_bind
      by (rule ends_mono [OF body [OF q'(1,3)]]) (use start q' in \<open>auto simp: quiet_def expected_ahead\<close>)
  qed
qed

lemma message_fuel_reads:
  "ahead p = emit_message m @ rest \<Longrightarrow> wf_message d m \<Longrightarrow> d + ps_depth p \<le> MAX_PROTO_NESTING \<Longrightarrow> d \<le> n
    \<Longrightarrow> ends (message_fuel n (msg_is_group m) p) (\<lambda>r q. (\<exists>y. r = Some y \<and> bare_message y = m) \<and> quiet p rest q)"
proof (induction n arbitrary: d m p rest)
  case 0
  then show ?case by (cases m) simp
next
  case (Suc n)
  let ?p = "p\<lparr>ps_depth := ps_depth p + 1\<rparr>"
  have d: "0 < d" using Suc.prems(2) by (cases m) simp
  have ahead [simp]: "ahead (q\<lparr>ps_depth := k\<rparr>) = ahead q" for q k by (simp add: ahead_def)
  have "ends (parse_message_inner (message_fuel n) (msg_is_group m) ?p) (\<lambda>r q. (\<exists>y. r = Some y \<and> bare_message y = m) \<and> quiet ?p rest q)"
  proof (rule parse_message_inner_reads)
    fix x q rest'
    assume x: "MI_message x \<in> set (message_items m)" "ahead q = emit_message x @ rest'" "ps_depth q = ps_depth ?p"
    have "wf_message (d - 1) x" using wf_message_items [OF Suc.prems(2) x(1)] by simp
    with x d Suc.prems(3,4) show "ends (message_fuel n (msg_is_group x) q)
        (\<lambda>r q'. (\<exists>y. r = Some y \<and> bare_message y = x) \<and> quiet q rest' q')"
      by (intro Suc.IH [where d = "d - 1"]) auto
  qed (use Suc.prems in auto)
  then show ?case
    using d Suc.prems(3) by (auto simp: quiet_def elim!: ends_mono)
qed

lemma parse_message_reads:
  assumes "ahead p = emit_message m @ rest" "wf_message d m" "d + ps_depth p \<le> MAX_PROTO_NESTING"
  shows "ends (parse_message (msg_is_group m) p) (\<lambda>r q. (\<exists>y. r = Some y \<and> bare_message y = m) \<and> quiet p rest q)"
  unfolding parse_message_def by (rule message_fuel_reads [OF assms]) (use assms(3) in simp)

section \<open>Files\<close>

datatype file_item =
    FI_syntax string | FI_edition string | FI_package string | FI_import "unit import_stmt" | FI_option "unit proto_option"
  | FI_message "unit message" | FI_enum "unit enum" | FI_service "unit service" | FI_extend "unit extension"

definition emit_import :: "unit import_stmt \<Rightarrow> token_kind list" where
  "emit_import im = TkIdent ''import'' # (case imp_kind im of
      ImportDefault \<Rightarrow> [] | ImportPublic \<Rightarrow> [TkIdent ''public''] | ImportWeak \<Rightarrow> [TkIdent ''weak'']) @ [TkStr (imp_path im), Semicolon]"

fun emit_file_item :: "file_item \<Rightarrow> token_kind list" where
  "emit_file_item (FI_syntax s) = [TkIdent ''syntax'', Equals, TkStr s, Semicolon]"
| "emit_file_item (FI_edition s) = [TkIdent ''edition'', Equals, TkStr s, Semicolon]"
| "emit_file_item (FI_package s) = TkIdent ''package'' # emit_dotted s @ [Semicolon]"
| "emit_file_item (FI_import im) = emit_import im"
| "emit_file_item (FI_option opt) = emit_option opt"
| "emit_file_item (FI_message m) = emit_message m"
| "emit_file_item (FI_enum en) = emit_enum en"
| "emit_file_item (FI_service sv) = emit_service sv"
| "emit_file_item (FI_extend ex) = emit_extension ex"

fun wf_file_item :: "file_item \<Rightarrow> bool" where
  "wf_file_item (FI_option opt) \<longleftrightarrow> wf_option opt"
| "wf_file_item (FI_message m) \<longleftrightarrow> wf_message MAX_PROTO_NESTING m \<and> \<not> msg_is_group m"
| "wf_file_item (FI_enum en) \<longleftrightarrow> wf_enum en"
| "wf_file_item (FI_service sv) \<longleftrightarrow> wf_service sv"
| "wf_file_item (FI_extend ex) \<longleftrightarrow> wf_extension ex"
| "wf_file_item _ \<longleftrightarrow> True"

fun add_file_item :: "file_item \<Rightarrow> unit proto_file \<Rightarrow> unit proto_file" where
  "add_file_item (FI_syntax s) (File n syn ed pkg imps opts msgs enums svcs exts) = File n (Some (Syntax () s)) ed pkg imps opts msgs enums svcs exts"
| "add_file_item (FI_edition s) (File n syn ed pkg imps opts msgs enums svcs exts) = File n syn (Some s) pkg imps opts msgs enums svcs exts"
| "add_file_item (FI_package s) (File n syn ed pkg imps opts msgs enums svcs exts) = File n syn ed (Some (Ident s ())) imps opts msgs enums svcs exts"
| "add_file_item (FI_import im) (File n syn ed pkg imps opts msgs enums svcs exts) = File n syn ed pkg (imps @ [im]) opts msgs enums svcs exts"
| "add_file_item (FI_option opt) (File n syn ed pkg imps opts msgs enums svcs exts) = File n syn ed pkg imps (opts @ [opt]) msgs enums svcs exts"
| "add_file_item (FI_message m) (File n syn ed pkg imps opts msgs enums svcs exts) = File n syn ed pkg imps opts (msgs @ [m]) enums svcs exts"
| "add_file_item (FI_enum en) (File n syn ed pkg imps opts msgs enums svcs exts) = File n syn ed pkg imps opts msgs (enums @ [en]) svcs exts"
| "add_file_item (FI_service sv) (File n syn ed pkg imps opts msgs enums svcs exts) = File n syn ed pkg imps opts msgs enums (svcs @ [sv]) exts"
| "add_file_item (FI_extend ex) (File n syn ed pkg imps opts msgs enums svcs exts) = File n syn ed pkg imps opts msgs enums svcs (exts @ [ex])"

definition file_items :: "unit proto_file \<Rightarrow> file_item list" where
  "file_items f = (case f_syntax f of Some s \<Rightarrow> [FI_syntax (syn_value s)] | None \<Rightarrow> [])
     @ (case f_edition f of Some s \<Rightarrow> [FI_edition s] | None \<Rightarrow> [])
     @ (case f_package f of Some s \<Rightarrow> [FI_package (id_name s)] | None \<Rightarrow> [])
     @ map FI_import (f_imports f) @ map FI_option (f_options f) @ map FI_message (f_messages f)
     @ map FI_enum (f_enums f) @ map FI_service (f_services f) @ map FI_extend (f_extensions f)"

definition emit_file :: "unit proto_file \<Rightarrow> token_kind list" where
  "emit_file f = concat (map emit_file_item (file_items f))"

definition wf_file :: "unit proto_file \<Rightarrow> bool" where
  "wf_file f \<longleftrightarrow> list_all wf_file_item (file_items f)"

lemma fold_file_items: "fold add_file_item (file_items f) (File (f_name f) None None None [] [] [] [] [] []) = f"
proof -
  have i: "fold add_file_item (map FI_import xs) (File n syn ed pkg imps opts msgs enums svcs exts)
    = File n syn ed pkg (imps @ xs) opts msgs enums svcs exts" for xs n syn ed pkg imps opts msgs enums svcs exts
    by (induction xs arbitrary: imps) auto
  have opt: "fold add_file_item (map FI_option xs) (File n syn ed pkg imps opts msgs enums svcs exts)
    = File n syn ed pkg imps (opts @ xs) msgs enums svcs exts" for xs n syn ed pkg imps opts msgs enums svcs exts
    by (induction xs arbitrary: opts) auto
  have m: "fold add_file_item (map FI_message xs) (File n syn ed pkg imps opts msgs enums svcs exts)
    = File n syn ed pkg imps opts (msgs @ xs) enums svcs exts" for xs n syn ed pkg imps opts msgs enums svcs exts
    by (induction xs arbitrary: msgs) auto
  have e: "fold add_file_item (map FI_enum xs) (File n syn ed pkg imps opts msgs enums svcs exts)
    = File n syn ed pkg imps opts msgs (enums @ xs) svcs exts" for xs n syn ed pkg imps opts msgs enums svcs exts
    by (induction xs arbitrary: enums) auto
  have s: "fold add_file_item (map FI_service xs) (File n syn ed pkg imps opts msgs enums svcs exts)
    = File n syn ed pkg imps opts msgs enums (svcs @ xs) exts" for xs n syn ed pkg imps opts msgs enums svcs exts
    by (induction xs arbitrary: svcs) auto
  have x: "fold add_file_item (map FI_extend xs) (File n syn ed pkg imps opts msgs enums svcs exts)
    = File n syn ed pkg imps opts msgs enums svcs (exts @ xs)" for xs n syn ed pkg imps opts msgs enums svcs exts
    by (induction xs arbitrary: exts) auto
  have syn: "Syntax () (syn_value y) = y" for y by (cases y) simp
  show ?thesis
    by (cases f) (auto simp: file_items_def i opt m e s x syn split: option.split)
qed


lemma package_segments_reads:
  assumes "ahead p = dot_segments ss @ Semicolon # rest"
  shows "ends (package_segments i p) (\<lambda>j q. bare_ident j = Ident (dot_join (id_name i) ss) () \<and> quiet p (Semicolon # rest) q)"
proof -
  have "ends (package_segments i p) (\<lambda>j q. id_name j = fold (\<lambda>x a. a @ ''.'' @ x) ss (id_name i) \<and> quiet p (Semicolon # rest) q)"
    unfolding package_segments_def
    by (rule while_items [where R = "\<lambda>a s. id_name s = a" and emit = "\<lambda>s. [Dot, TkIdent s]" and xs = ss])
      (use assms in \<open>auto simp: dot_segments_def quiet_def peek_kind_ahead dest!: segment_ahead\<close>)
  then show ?thesis by (rule ends_mono) (simp add: dot_join_def bare_ident_eq)
qed

lemma file_or_recover_Some: "file_or_recover f m (Some x, q) = Inr (Continue (f x), q)"
  by (simp add: file_or_recover_def)

lemma parse_import_reads:
  assumes "ahead p = emit_import im @ rest"
  shows "\<exists>x q. parse_import p = (Some x, q) \<and> map_import_stmt (\<lambda>_. ()) x = im \<and> quiet p rest q"
proof -
  obtain path k where im: "im = Import () path k" by (cases im) auto
  with assms show ?thesis
    by (cases k) (auto simp: parse_import_def Let_def emit_import_def at_keyword_ahead peek_kind_ahead quiet_def expected_ahead)
qed

lemma file_step_reads:
  assumes q: "ahead q = emit_file_item x @ rest" and wf: "wf_file_item x" and s: "bare_file s = a" and d: "ps_depth q = 0"
  shows "ends (file_step s q) (\<lambda>f r. \<exists>s'. f = Continue s' \<and> bare_file s' = add_file_item x a \<and> quiet q rest r)"
proof -
  obtain n syn ed pkg imps opts msgs enums svcs exts where
    s': "s = File n syn ed pkg imps opts msgs enums svcs exts" by (cases s)
  note simps = file_step_def s' s [symmetric] file_or_recover_Some
  show ?thesis
  proof (cases x)
    case (FI_syntax v)
    with q show ?thesis
      by (auto simp: simps keyword_tests parse_syntax_def Let_def peek_kind_ahead quiet_def expected_ahead)
  next
    case (FI_edition v)
    with q show ?thesis
      by (auto simp: simps keyword_tests parse_edition_def Let_def peek_kind_ahead quiet_def expected_ahead)
  next
    case (FI_package v)
    with q have e: "ahead q = TkIdent ''package'' # TkIdent (hd (dot_split v)) # dot_segments (tl (dot_split v)) @ Semicolon # rest"
      by (simp add: emit_dotted_def)
    then obtain sp where i: "expect_ident (advanced q) = (Some (Ident (hd (dot_split v)) sp), advanced (advanced q))"
      using expect_ident_ahead [of "advanced q"] by auto
    have "ahead (advanced (advanced q)) = dot_segments (tl (dot_split v)) @ Semicolon # rest" using e by simp
    from package_segments_reads [OF this] show ?thesis
      using FI_package e
      by (auto simp: simps keyword_tests i quiet_def expected_ahead
          intro!: ends_mono [OF package_segments_reads [where ss = "tl (dot_split v)" and rest = rest]])
  next
    case (FI_import im)
    with q parse_import_reads [of q im rest] obtain y r where
      i: "parse_import q = (Some y, r)" "map_import_stmt (\<lambda>_. ()) y = im" "quiet q rest r" by auto
    obtain ks where "ahead q = TkIdent ''import'' # ks" using q FI_import by (simp add: emit_import_def)
    with i FI_import show ?thesis by (auto simp: simps keyword_tests)
  next
    case (FI_option opt)
    with q wf have o: "ahead q = emit_option opt @ rest" "wf_option opt" by simp_all
    then obtain ks where "ahead q = TkIdent ''option'' # ks" by (simp add: emit_option_def)
    then show ?thesis
      using FI_option by (auto simp: simps keyword_tests intro!: ends_mono [OF parse_option_stmt_reads [OF o]])
  next
    case (FI_message m)
    with q wf d have m: "ahead q = emit_message m @ rest" "wf_message MAX_PROTO_NESTING m" "\<not> msg_is_group m"
      "MAX_PROTO_NESTING + ps_depth q \<le> MAX_PROTO_NESTING" by simp_all
    then obtain ks where "ahead q = TkIdent ''message'' # ks" by (simp add: emit_message_head)
    with m(3) parse_message_reads [OF m(1,2,4)] show ?thesis
      using FI_message by (auto simp: simps keyword_tests elim!: ends_mono)
  next
    case (FI_enum en)
    with q wf have e: "ahead q = emit_enum en @ rest" "wf_enum en" by simp_all
    then obtain ks where "ahead q = TkIdent ''enum'' # ks" by (simp add: emit_enum_def)
    then show ?thesis
      using FI_enum by (auto simp: simps keyword_tests intro!: ends_mono [OF parse_enum_reads [OF e]])
  next
    case (FI_service sv)
    with q wf have e: "ahead q = emit_service sv @ rest" "wf_service sv" by simp_all
    then obtain ks where "ahead q = TkIdent ''service'' # ks" by (simp add: emit_service_def)
    then show ?thesis
      using FI_service by (auto simp: simps keyword_tests intro!: ends_mono [OF parse_service_reads [OF e]])
  next
    case (FI_extend ex)
    with q wf have e: "ahead q = emit_extension ex @ rest" "wf_extension ex" by simp_all
    then obtain ks where "ahead q = TkIdent ''extend'' # ks" by (simp add: emit_extension_def)
    then show ?thesis
      using FI_extend by (auto simp: simps keyword_tests intro!: ends_mono [OF parse_extend_reads [OF e]])
  qed
qed

lemma emit_file_item_ne: "emit_file_item x \<noteq> []"
  by (cases x) (simp_all add: emit_import_def emit_option_def emit_message_head emit_enum_def emit_service_def emit_extension_def)

lemma parse_tokens_reads:
  assumes toks: "map tk_kind toks = emit_file f" and wf: "wf_file f"
  shows "ends (parse_tokens (Parser_new (f_name f) toks)) (\<lambda>r q. bare_file r = f \<and> ps_diags q = [])"
proof -
  let ?p = "Parser_new (f_name f) toks" and ?s = "File (f_name f) None None None [] [] [] [] [] []"
  have p: "ahead ?p = concat (map emit_file_item (file_items f)) @ []" "ps_depth ?p = 0" "ps_diags ?p = []" "ps_name ?p = f_name f"
    using toks by (simp_all add: ahead_def Parser_new_def emit_file_def)
  have "ends (parse_tokens ?p) (\<lambda>t q. bare_file t = fold add_file_item (file_items f) (bare_file ?s) \<and> quiet ?p [] q)"
    unfolding parse_tokens_def p(4)
  proof (rule while_items [where R = "\<lambda>a t. bare_file t = a" and emit = emit_file_item, OF _ emit_file_item_ne _ p(1)])
    fix x a and s :: "span proto_file" and q rest'
    assume x: "x \<in> set (file_items f)" "bare_file s = a" "ahead q = emit_file_item x @ rest'" "within ?p q"
    have "peek_kind q \<noteq> None"
      using x(3) emit_file_item_ne [of x] by (auto simp: peek_kind_ahead simp del: peek_kind_None split: list.split)
    moreover have "ends (file_step s q) (\<lambda>f r. \<exists>s'. f = Continue s' \<and> bare_file s' = add_file_item x a \<and> quiet q rest' r)"
      using x wf p(2) by (intro file_step_reads) (auto simp: wf_file_def list_all_iff within_def)
    ultimately show "peek_kind q \<noteq> None
        \<and> ends (file_step s q) (\<lambda>f r. \<exists>s'. f = Continue s' \<and> bare_file s' = add_file_item x a \<and> quiet q rest' r)" by blast
  next
    show "\<not> peek_kind q \<noteq> None" if "ahead q = []" for q using that by (simp add: peek_kind_ahead del: peek_kind_None)
  qed simp
  then show ?thesis using p(3) fold_file_items [of f] by (auto simp: quiet_def elim!: ends_mono)
qed


section \<open>Source texts\<close>

lemma parse_file_tokens:
  assumes "lex_with_comments src = Inr (toks, cms)" and "map tk_kind toks = emit_file f" and "wf_file f"
  shows "\<exists>r. parse_file (f_name f) src = Inr r \<and> bare_file (pr_file r) = f \<and> pr_diagnostics r = [] \<and> pr_comments r = cms"
  using parse_tokens_reads [OF assms(2,3)] by (auto simp: ends_ex parse_file_def assms(1))

text \<open>
  C32: The parser understands the language. Every well-formed syntax tree, written out in the grammar
  of proto files (statements of all kinds, nested messages and groups up to the nesting limit, options
  with nested aggregate and list constants) with the declarations of each kind together, is what the parser returns for a source text that spells
  these tokens, however the text is laid out and commented: the same tree up to source positions, no
  diagnostic, and the comments of the text.
\<close>

theorem parse_file_roundtrip:
  assumes "lex_with_comments src = Inr (toks, cms)" and "map tk_kind toks = emit_file f" and "wf_file f"
  shows "\<exists>r. parse_file (f_name f) src = Inr r \<and> bare_file (pr_file r) = f \<and> pr_diagnostics r = [] \<and> pr_comments r = cms"
  by (rule parse_file_tokens [OF assms])

definition enum_example :: "unit proto_file" where
  "enum_example = File ''f'' None None None [] [] []
     [Enum () (Ident ''E'' ()) [EnumValue () (Ident ''A'' ()) 0 []] [] [] [] False] [] []"

lemma lex_enum_example:
  "map_sum id (\<lambda>(toks, cms). (map tk_kind toks, cms)) (lex_with_comments ''enum E{A=0;}'') = Inr (emit_file enum_example, [])"
  by code_simp

lemma wf_enum_example: "wf_file enum_example"
  by (simp add: wf_file_def enum_example_def file_items_def wf_enum_def enum_items_def field_settings_def)

theorem parse_file_roundtrip_witness:
  "\<exists>r. parse_file ''f'' ''enum E{A=0;}'' = Inr r \<and> bare_file (pr_file r) = enum_example \<and> pr_diagnostics r = []"
proof -
  obtain toks where l: "lex_with_comments ''enum E{A=0;}'' = Inr (toks, [])" "map tk_kind toks = emit_file enum_example"
    using lex_enum_example by (cases "lex_with_comments ''enum E{A=0;}''") auto
  have "f_name enum_example = ''f''" by (simp add: enum_example_def)
  with parse_file_roundtrip [OF l wf_enum_example] show ?thesis by auto
qed

text \<open>
  C33: Formatting does not change what a source means to the parser. For every source that lexes without comments and in
  which no number token is directly followed by a dot token, in whatever order its declarations stand and whether or not it is
  a valid file, the formatter succeeds, and parsing its output gives what parsing the source gives: the same tree and the
  same diagnostics in the same order, up to source positions (or both do not return).
\<close>

theorem format_keeps_tree:
  assumes "str_ok src" and "lex_with_comments src = Inr (toks, [])" and "undotted (map tk_kind toks)"
  shows "\<exists>out. format_source src = Inr out \<and> same_parse (parse_file name src) (parse_file name out)"
proof -
  obtain out toks' where out: "format_source src = Inr out" "lex_with_comments out = Inr (toks', [])"
    "map tk_kind toks' = map tk_kind toks"
    using format_same_tokens [OF assms] by blast
  then show ?thesis
    using parse_file_same_tokens [OF assms(2) out(2)] by auto
qed

text \<open>A field in front of a nested enum, and a statement that is an error.\<close>

lemma lex_mixed_example:
  "map_sum id (\<lambda>(ts, cs). (map tk_kind ts, cs)) (lex_with_comments ''message M{a b=1;enum E{};}'')
     = Inr ([TkIdent ''message'', TkIdent ''M'', LBrace, TkIdent ''a'', TkIdent ''b'', Equals, TkInt 1, Semicolon,
        TkIdent ''enum'', TkIdent ''E'', LBrace, RBrace, Semicolon, RBrace], [])"
  by code_simp

theorem format_keeps_tree_witness:
  "\<exists>out. format_source ''message M{a b=1;enum E{};}'' = Inr out
     \<and> same_parse (parse_file ''f'' ''message M{a b=1;enum E{};}'') (parse_file ''f'' out)"
proof -
  obtain toks where l: "lex_with_comments ''message M{a b=1;enum E{};}'' = Inr (toks, [])"
      "map tk_kind toks = [TkIdent ''message'', TkIdent ''M'', LBrace, TkIdent ''a'', TkIdent ''b'', Equals, TkInt 1, Semicolon,
        TkIdent ''enum'', TkIdent ''E'', LBrace, RBrace, Semicolon, RBrace]"
    using lex_mixed_example by (cases "lex_with_comments ''message M{a b=1;enum E{};}''") auto
  have "str_ok ''message M{a b=1;enum E{};}''" by (rule str_ascii_ok) (simp add: str_ascii_def)
  from format_keeps_tree [OF this l(1)] show ?thesis
    using l(2) by (simp add: is_number_def)
qed

end
