(* ===== verification/Float_Show.thy ===== *)
theory Float_Show
  imports Float_Text
begin

text \<open>
  What \<open>f64::to_string\<close> of Rust's standard library writes: the decimal with the fewest digits
  that \<open>f64_of_decimal\<close> rounds back to the same double, the nearest one of these, without an
  exponent.
\<close>

section \<open>The value of a double\<close>

definition f64_exponent :: "u64 \<Rightarrow> nat" where
  "f64_exponent b = unat (drop_bit 52 b) mod 2048"

definition f64_mantissa :: "u64 \<Rightarrow> nat" where
  "f64_mantissa b = unat b mod 2 ^ 52"

definition f64_negative :: "u64 \<Rightarrow> bool" where
  "f64_negative b \<longleftrightarrow> 2 ^ 63 \<le> unat b"

text \<open>The absolute value of a finite double as a fraction.\<close>

definition f64_fraction :: "u64 \<Rightarrow> nat \<times> nat" where
  "f64_fraction b =
     (let e = f64_exponent b;
          m = (if e = 0 then f64_mantissa b else f64_mantissa b + 2 ^ 52);
          x = max e 1
      in if 1075 \<le> x then (m * 2 ^ (x - 1075), 1) else (m, 2 ^ (1075 - x)))"

section \<open>Shortest digits\<close>

text \<open>How often a fraction below one is multiplied by ten until it is not.\<close>

function decimal_shift :: "nat \<Rightarrow> nat \<Rightarrow> nat" where
  "decimal_shift n d = (if n = 0 \<or> d \<le> n then 0 else Suc (decimal_shift (10 * n) d))"
  by pat_completeness auto
termination
  by (relation "measure (\<lambda>(n, d). d - n)") auto

declare decimal_shift.simps [simp del]

text \<open>The \<open>p\<close> with \<open>10 ^ (p - 1) <= n / d < 10 ^ p\<close>.\<close>

definition decimal_point :: "nat \<Rightarrow> nat \<Rightarrow> int" where
  "decimal_point n d =
     (if d \<le> n then int (length (show_nat (n div d))) else 1 - int (decimal_shift n d))"

text \<open>The fraction \<open>n / (d * 10 ^ q)\<close>.\<close>

definition scaled10 :: "nat \<Rightarrow> nat \<Rightarrow> int \<Rightarrow> nat \<times> nat" where
  "scaled10 n d q = (if 0 \<le> q then (n, d * 10 ^ nat q) else (n * 10 ^ nat (- q), d))"

definition shortest_with :: "nat \<Rightarrow> nat \<Rightarrow> nat \<Rightarrow> int \<Rightarrow> nat option" where
  "shortest_with b n d q =
     (case scaled10 n d q of (x, y) \<Rightarrow>
        let lo = x div y;
            down = f64_of_decimal lo q = b;
            up = f64_of_decimal (lo + 1) q = b
        in if down \<and> up then Some (if y \<le> 2 * (x mod y) then lo + 1 else lo)
           else if down then Some lo
           else if up then Some (lo + 1)
           else None)"

fun shortest_from :: "nat \<Rightarrow> nat \<Rightarrow> nat \<Rightarrow> nat \<Rightarrow> int \<Rightarrow> nat \<times> int" where
  "shortest_from 0 b n d q = (case scaled10 n d q of (x, y) \<Rightarrow> (x div y, q))"
| "shortest_from (Suc k) b n d q = (case shortest_with b n d q of
      Some m \<Rightarrow> (m, q)
    | None \<Rightarrow> shortest_from k b n d (q - 1))"

text \<open>Seventeen digits identify a double.\<close>

definition shortest_decimal :: "u64 \<Rightarrow> nat \<times> int" where
  "shortest_decimal b =
     (case f64_fraction b of (n, d) \<Rightarrow>
        shortest_from 17 (unat b mod 2 ^ 63) n d (decimal_point n d - 1))"

section \<open>Display\<close>

definition show_decimal :: "nat \<Rightarrow> int \<Rightarrow> string" where
  "show_decimal m e =
     (if 0 \<le> e then show_nat (m * 10 ^ nat e)
      else let w = nat (- e); f = show_nat (m mod 10 ^ w);
               fs = rev (dropWhile (\<lambda>c. c = CHR ''0'') (rev (replicate (w - length f) CHR ''0'' @ f)))
           in show_nat (m div 10 ^ w) @ (if fs = [] then [] else CHR ''.'' # fs))"

definition show_f64 :: "u64 \<Rightarrow> string" where
  "show_f64 b =
     (if f64_exponent b = 2047 \<and> f64_mantissa b \<noteq> 0 then ''NaN''
      else (if f64_negative b then ''-'' else []) @
           (if f64_exponent b = 2047 then ''inf''
            else if f64_exponent b = 0 \<and> f64_mantissa b = 0 then ''0''
            else case shortest_decimal b of (m, e) \<Rightarrow> show_decimal m e))"

end
