(* ===== verification/Compiler.thy ===== *)
theory Compiler
  imports Ast Descriptor_Types Float_Show
begin

text \<open>
  The single-file step of the schema compiler (\<open>crates/tpt-proto-compiler/src/lib.rs\<close>): from a
  syntax tree to a file descriptor, with the checks of field numbers, enum numbers and names. The
  functions that take \<open>&mut Diagnostics\<close> return the diagnostics updated. A number the tree holds
  as \<open>i64\<close> is an integer, and the casts \<open>as i32\<close> are \<open>word_of_int\<close>. Field names are
  identifiers of the lexer, so the case conversions of \<open>to_json_name\<close> are those of ASCII.
\<close>

section \<open>Loops over a diagnostics state\<close>

text \<open>\<open>for x in xs { out.push(f(x, state)) }\<close>.\<close>

fun thread :: "('a \<Rightarrow> 's \<Rightarrow> 'b \<times> 's) \<Rightarrow> 'a list \<Rightarrow> 's \<Rightarrow> 'b list \<times> 's" where
  "thread f [] s = ([], s)"
| "thread f (x # xs) s = (let (y, s) = f x s; (ys, s) = thread f xs s in (y # ys, s))"

lemma thread_cong [fundef_cong]:
  assumes "xs = ys" and "s = t" and "\<And>x s. x \<in> set ys \<Longrightarrow> f x s = g x s"
  shows "thread f xs s = thread g ys t"
proof -
  have "thread f ys t = thread g ys t"
    using assms(3) by (induction ys arbitrary: t) simp_all
  then show ?thesis by (simp add: assms(1,2))
qed

lemma length_thread [simp]: "length (fst (thread f xs s)) = length xs"
  by (induction xs arbitrary: s) (simp_all add: case_prod_beta Let_def)

lemma thread_pointwise:
  assumes "\<And>x s. x \<in> set xs \<Longrightarrow> fst (f x s) = g x"
  shows "fst (thread f xs s) = map g xs"
  using assms by (induction xs arbitrary: s) (simp_all add: case_prod_beta Let_def)

section \<open>Names declared in a file\<close>

fun collect_enum_names_in_message :: "'p message \<Rightarrow> string list" where
  "collect_enum_names_in_message
     (Message sp name flds oneofs maps msgs enums exts rr rn er opts grp) =
     map (\<lambda>e. id_name (enum.en_name e)) enums @ concat (map collect_enum_names_in_message msgs)"

definition collect_enum_names :: "'p proto_file \<Rightarrow> string list" where
  "collect_enum_names file =
     map (\<lambda>e. id_name (enum.en_name e)) (f_enums file)
     @ concat (map collect_enum_names_in_message (f_messages file))"

fun collect_message_names_in_message :: "'p message \<Rightarrow> string list" where
  "collect_message_names_in_message
     (Message sp name flds oneofs maps msgs enums exts rr rn er opts grp) =
     concat (map (\<lambda>n. id_name (message.msg_name n) # collect_message_names_in_message n) msgs)"

definition collect_message_names :: "'p proto_file \<Rightarrow> string list" where
  "collect_message_names file =
     concat (map (\<lambda>m. id_name (message.msg_name m) # collect_message_names_in_message m) (f_messages file))"

section \<open>Fields\<close>

definition check_field_number :: "int \<Rightarrow> span \<Rightarrow> 'k diagnostics \<Rightarrow> 'k diagnostics" where
  "check_field_number number sp ds =
     (let ds = (if \<not> (1 \<le> number \<and> number \<le> 536870911)
                then diag_push (Diagnostic_error InvalidFieldNumber
                       (Literal (''field number '' @ show_int number
                          @ '' is out of range (must be 1..=536870911)'')) (Some sp)) ds
                else ds)
      in if 19000 \<le> number \<and> number \<le> 19999
         then diag_push (Diagnostic_warning InvalidFieldNumber
                (Literal (''field number '' @ show_int number
                   @ '' is in the reserved implementation range 19000..=19999'')) (Some sp)) ds
         else ds)"

fun scalar_to_field_type :: "scalar_type \<Rightarrow> FieldType" where
  "scalar_to_field_type ScDouble = TDouble"
| "scalar_to_field_type ScFloat = TFloat"
| "scalar_to_field_type ScInt64 = TInt64"
| "scalar_to_field_type ScUint64 = TUint64"
| "scalar_to_field_type ScInt32 = TInt32"
| "scalar_to_field_type ScFixed64 = TFixed64"
| "scalar_to_field_type ScFixed32 = TFixed32"
| "scalar_to_field_type ScBool = TBool"
| "scalar_to_field_type ScString = TString"
| "scalar_to_field_type ScBytes = TBytes"
| "scalar_to_field_type ScUint32 = TUint32"
| "scalar_to_field_type ScSfixed32 = TSfixed32"
| "scalar_to_field_type ScSfixed64 = TSfixed64"
| "scalar_to_field_type ScSint32 = TSint32"
| "scalar_to_field_type ScSint64 = TSint64"

text \<open>\<open>trim_start_matches('.')\<close>, then the last piece of \<open>split('.')\<close>.\<close>

definition simple_name :: "string \<Rightarrow> string" where
  "simple_name s = rev (takeWhile (\<lambda>c. c \<noteq> CHR ''.'') (rev (dropWhile (\<lambda>c. c = CHR ''.'') s)))"

fun resolve_type :: "'p type_ref \<Rightarrow> string list \<Rightarrow> string list \<Rightarrow> FieldType \<times> string option" where
  "resolve_type (TScalar s) enum_names msg_names = (scalar_to_field_type s, None)"
| "resolve_type (TNamed ident) enum_names msg_names =
     (let simple = simple_name (id_name ident);
          t = (if simple \<in> set enum_names then TEnum
               else if simple \<in> set msg_names then TMessage
               else TMessage)
      in (t, Some (id_name ident)))"

fun convert_label :: "label \<Rightarrow> Label" where
  "convert_label LabelOptional = Optional"
| "convert_label LabelRequired = Required"
| "convert_label LabelRepeated = Repeated"
| "convert_label LabelSingular = Optional"

definition ascii_upper :: "char \<Rightarrow> char" where
  "ascii_upper c = (let n = of_char c :: nat in if 97 \<le> n \<and> n \<le> 122 then char_of (n - 32) else c)"

text \<open>The loop of \<open>to_json_name\<close> at index \<open>i\<close> with its flag \<open>upper\<close>.\<close>

fun json_name_from :: "nat \<Rightarrow> bool \<Rightarrow> string \<Rightarrow> string" where
  "json_name_from i upper [] = []"
| "json_name_from i upper (c # cs) =
     (if c = CHR ''_'' then json_name_from (Suc i) True cs
      else if i = 0 then ascii_lower c # json_name_from (Suc i) upper cs
      else if upper then ascii_upper c # json_name_from (Suc i) False cs
      else c # json_name_from (Suc i) upper cs)"

definition to_json_name :: "string \<Rightarrow> string" where
  "to_json_name field = json_name_from 0 False field"

fun constant_to_text :: "const_value \<Rightarrow> string" where
  "constant_to_text (CInt i) = show_int i"
| "constant_to_text (CFloat f) = show_f64 f"
| "constant_to_text (CString s) = s"
| "constant_to_text (CBool b) = (if b then ''true'' else ''false'')"
| "constant_to_text (CIdent s) = s"
| "constant_to_text (CAggregate _) = []"
| "constant_to_text (CList _) = []"

definition convert_field :: "string list \<Rightarrow> string list \<Rightarrow> string \<Rightarrow> span field \<Rightarrow> 'k diagnostics
    \<Rightarrow> FieldDescriptorProto \<times> 'k diagnostics" where
  "convert_field enum_names msg_names syn f ds =
     (let ds = check_field_number (fd_number f) (fd_span f) ds;
          (ty, type_name) = resolve_type (fd_ty f) enum_names msg_names;
          proto3_optional = (if fd_label f = LabelOptional \<and> syn = ''proto3'' then Some True else None)
      in (FieldDescriptorProto_default
            \<lparr>fld_name := Some (id_name (fd_name f)),
             fld_number := Some (word_of_int (fd_number f)),
             fld_label := Some (convert_label (fd_label f)),
             fld_type := Some ty,
             fld_type_name := type_name,
             fld_default_value := map_option constant_to_text (fd_default f),
             fld_json_name := (case fd_json_name f of Some n \<Rightarrow> Some n
                               | None \<Rightarrow> Some (to_json_name (id_name (fd_name f)))),
             fld_proto3_optional := proto3_optional\<rparr>, ds))"

section \<open>Enums and services\<close>

text \<open>A range of the tree, with the missing end of a single number filled in.\<close>

definition range_last :: "int_range \<Rightarrow> i32" where
  "range_last r = word_of_int (case ir_end r of Some e \<Rightarrow> e | None \<Rightarrow> ir_start r)"

definition convert_reserved :: "int_range \<Rightarrow> ReservedRange" where
  "convert_reserved r = \<lparr>rr_start = word_of_int (ir_start r), rr_end = range_last r\<rparr>"

definition convert_extension_range :: "int_range \<Rightarrow> ExtensionRange" where
  "convert_extension_range r = \<lparr>er_start = word_of_int (ir_start r), er_end = range_last r\<rparr>"

text \<open>One round of the loop over the values: the state holds \<open>seen\<close> and the diagnostics.\<close>

definition convert_enum_value :: "bool \<Rightarrow> span enum_value \<Rightarrow> int set \<times> 'k diagnostics
    \<Rightarrow> EnumValueDescriptorProto \<times> int set \<times> 'k diagnostics" where
  "convert_enum_value allow_alias v st =
     (case st of (seen, ds) \<Rightarrow>
        (let n = enum_value.ev_number v;
             reuses = (\<not> allow_alias \<and> n \<in> seen);
             seen = (if allow_alias then seen else insert n seen);
             ds = (if reuses
                   then diag_push (Diagnostic_warning Other_error
                          (Literal (''enum value '' @ id_name (enum_value.ev_name v) @ '' reuses number ''
                             @ show_int n @ '' without allow_alias'')) (Some (ev_span v))) ds
                   else ds)
         in (EnumValueDescriptorProto_default
               \<lparr>ev_name := Some (id_name (enum_value.ev_name v)), ev_number := Some (word_of_int n)\<rparr>,
             seen, ds)))"

definition convert_enum :: "span enum \<Rightarrow> 'k diagnostics \<Rightarrow> EnumDescriptorProto \<times> 'k diagnostics" where
  "convert_enum e ds =
     (let (vals, _, ds) = thread (convert_enum_value (en_allow_alias e)) (en_values e) ({}, ds)
      in (EnumDescriptorProto_default
            \<lparr>en_name := Some (id_name (enum.en_name e)),
             en_value := vals,
             en_reserved_range := map convert_reserved (en_reserved_ranges e),
             en_reserved_name := map id_name (en_reserved_names e)\<rparr>, ds))"

fun type_ref_name :: "'p type_ref \<Rightarrow> string option" where
  "type_ref_name (TNamed i) = Some (id_name i)"
| "type_ref_name (TScalar _) = None"

definition convert_method :: "'p method_decl \<Rightarrow> MethodDescriptorProto" where
  "convert_method m = MethodDescriptorProto_default
     \<lparr>mth_name := Some (id_name (me_name m)),
      mth_input_type := type_ref_name (me_input m),
      mth_output_type := type_ref_name (me_output m),
      mth_client_streaming := Some (me_client_streaming m),
      mth_server_streaming := Some (me_server_streaming m)\<rparr>"

definition convert_service :: "'p service \<Rightarrow> ServiceDescriptorProto" where
  "convert_service s = ServiceDescriptorProto_default
     \<lparr>svc_name := Some (id_name (sv_name s)), svc_method := map convert_method (sv_methods s)\<rparr>"

section \<open>Messages\<close>

definition make_map_entry_options :: "byte list" where
  "make_map_entry_options =
     (case (encode_bool Writer_new 7 True :: writer core_res) of Inr w \<Rightarrow> into_vec w | Inl _ \<Rightarrow> [])"

lemma make_map_entry_options_eq: "make_map_entry_options = [0x38, 0x01]"
  by code_simp

definition convert_oneof_field :: "string list \<Rightarrow> string list \<Rightarrow> string \<Rightarrow> nat \<Rightarrow> span field
    \<Rightarrow> 'k diagnostics \<Rightarrow> FieldDescriptorProto \<times> 'k diagnostics" where
  "convert_oneof_field enum_names msg_names syn i f ds =
     (let (fd, ds) = convert_field enum_names msg_names syn f ds
      in (fd\<lparr>fld_oneof_index := Some (word_of_nat i), fld_label := Some Optional,
             fld_proto3_optional := None\<rparr>, ds))"

definition convert_oneofs :: "string list \<Rightarrow> string list \<Rightarrow> string \<Rightarrow> span oneof list
    \<Rightarrow> 'k diagnostics \<Rightarrow> FieldDescriptorProto list \<times> 'k diagnostics" where
  "convert_oneofs enum_names msg_names syn oneofs ds =
     (let (fss, ds) = thread (\<lambda>(i, o'). thread (convert_oneof_field enum_names msg_names syn i) (oo_fields o'))
                        (enumerate 0 oneofs) ds
      in (concat fss, ds))"

text \<open>A map field becomes a nested entry message and a repeated field of that type.\<close>

definition convert_map :: "string list \<Rightarrow> string list \<Rightarrow> string \<Rightarrow> span map_field \<Rightarrow> 'k diagnostics
    \<Rightarrow> (DescriptorProto \<times> FieldDescriptorProto) \<times> 'k diagnostics" where
  "convert_map enum_names msg_names self_path mf ds =
     (let ds = check_field_number (mf_number mf) (mf_span mf) ds;
          (kty, kname) = resolve_type (mf_key mf) enum_names msg_names;
          (vty, vname) = resolve_type (mf_value mf) enum_names msg_names;
          entry_name = id_name (mf_name mf) @ ''Entry'';
          key = FieldDescriptorProto_default
            \<lparr>fld_name := Some ''key'', fld_number := Some 1, fld_label := Some Optional,
             fld_type := Some kty, fld_type_name := kname\<rparr>;
          val = FieldDescriptorProto_default
            \<lparr>fld_name := Some ''value'', fld_number := Some 2, fld_label := Some Optional,
             fld_type := Some vty, fld_type_name := vname\<rparr>;
          entry = DescriptorProto ((msg_own DescriptorProto_default)
            \<lparr>msg_name := Some entry_name, msg_field := [key, val],
             msg_options := Some make_map_entry_options\<rparr>) [];
          fd = FieldDescriptorProto_default
            \<lparr>fld_name := Some (id_name (mf_name mf)), fld_number := Some (word_of_int (mf_number mf)),
             fld_label := Some Repeated, fld_type := Some TMessage,
             fld_type_name := Some (''.'' @ self_path @ ''.'' @ entry_name)\<rparr>
      in ((entry, fd), ds))"

definition join_path :: "string \<Rightarrow> string \<Rightarrow> string" where
  "join_path prefix name = (if prefix = [] then name else prefix @ ''.'' @ name)"

fun convert_message :: "string list \<Rightarrow> string list \<Rightarrow> string \<Rightarrow> string \<Rightarrow> span message \<Rightarrow> 'k diagnostics
    \<Rightarrow> DescriptorProto \<times> 'k diagnostics" where
  "convert_message enum_names msg_names syn path_prefix
     (Message sp name flds oneofs maps msgs enums exts rr rn er opts grp) ds =
     (let self_path = join_path path_prefix (id_name name);
          (ofds, ds) = convert_oneofs enum_names msg_names syn oneofs ds;
          (fds, ds) = thread (convert_field enum_names msg_names syn) flds ds;
          (mfs, ds) = thread (convert_map enum_names msg_names self_path) maps ds;
          (nested, ds) = thread (convert_message enum_names msg_names syn self_path) msgs ds;
          (ens, ds) = thread convert_enum enums ds;
          (exs, ds) = thread (\<lambda>ext. thread (convert_field enum_names msg_names syn) (ex_fields ext)) exts ds
      in (DescriptorProto
            \<lparr>msg_name = Some (id_name name),
             msg_field = ofds @ fds @ map snd mfs,
             msg_extension = concat exs,
             msg_enum_type = ens,
             msg_extension_range = map convert_extension_range er,
             msg_oneof_decl = map (\<lambda>o'. OneofDescriptorProto_default\<lparr>oo_name := Some (id_name (oneof.oo_name o'))\<rparr>) oneofs,
             msg_options = None,
             msg_reserved_range = map convert_reserved rr,
             msg_reserved_name = map id_name rn\<rparr>
            (map fst mfs @ nested), ds))"

section \<open>Duplicate names\<close>

text \<open>A name between the single quotes of a message.\<close>

definition quoted :: "string \<Rightarrow> string" where
  "quoted s = [CHR 0x27] @ s @ [CHR 0x27]"

text \<open>A loop that inserts the name of each item into a set and reports the ones already there.\<close>

fun report_repeats :: "('a \<Rightarrow> string) \<Rightarrow> ('a \<Rightarrow> 'k diagnostic) \<Rightarrow> 'a list \<Rightarrow> string set \<times> 'k diagnostics
    \<Rightarrow> string set \<times> 'k diagnostics" where
  "report_repeats name diag [] st = st"
| "report_repeats name diag (x # xs) (seen, ds) =
     report_repeats name diag xs
       (insert (name x) seen, if name x \<in> seen then diag_push (diag x) ds else ds)"

definition duplicate_field :: "string \<Rightarrow> span field \<Rightarrow> 'k diagnostic" where
  "duplicate_field msg f = Diagnostic_error DuplicateSymbol
     (Literal (''duplicate field '' @ quoted (id_name (fd_name f)) @ '' in message '' @ quoted msg))
     (Some (fd_span f))"

fun check_message_duplicates :: "span message \<Rightarrow> 'k diagnostics \<Rightarrow> 'k diagnostics" where
  "check_message_duplicates (Message sp name flds oneofs maps msgs enums exts rr rn er opts grp) ds =
     (let report = report_repeats (\<lambda>f. id_name (fd_name f)) (duplicate_field (id_name name));
          (_, ds) = fold (\<lambda>o'. report (oo_fields o')) oneofs (report flds ({}, ds))
      in fold check_message_duplicates msgs ds)"

definition duplicate_message :: "span message \<Rightarrow> 'k diagnostic" where
  "duplicate_message m = Diagnostic_error DuplicateSymbol
     (Literal (''duplicate top-level message '' @ quoted (id_name (message.msg_name m))))
     (Some (msg_span m))"

definition duplicate_enum :: "span enum \<Rightarrow> 'k diagnostic" where
  "duplicate_enum e = Diagnostic_error DuplicateSymbol
     (Literal (''duplicate top-level symbol '' @ quoted (id_name (enum.en_name e))))
     (Some (en_span e))"

definition check_duplicates :: "span proto_file \<Rightarrow> 'k diagnostics \<Rightarrow> 'k diagnostics" where
  "check_duplicates file ds =
     (let (top, ds) = report_repeats (\<lambda>m. id_name (message.msg_name m)) duplicate_message (f_messages file) ({}, ds);
          (_, ds) = report_repeats (\<lambda>e. id_name (enum.en_name e)) duplicate_enum (f_enums file) (top, ds)
      in fold check_message_duplicates (f_messages file) ds)"

section \<open>The file\<close>

definition compiled_syntax :: "'p proto_file \<Rightarrow> string" where
  "compiled_syntax file =
     (if f_edition file \<noteq> None then ''editions''
      else case f_syntax file of Some s \<Rightarrow> syn_value s | None \<Rightarrow> ''proto2'')"

text \<open>The indices of the imports of a kind, as \<open>i32\<close>.\<close>

definition import_indices :: "import_kind \<Rightarrow> 'p import_stmt list \<Rightarrow> i32 list" where
  "import_indices k imps = map (\<lambda>(i, _). word_of_nat i) (filter (\<lambda>(_, imp). imp_kind imp = k) (enumerate 0 imps))"

definition compile :: "span proto_file \<Rightarrow> FileDescriptorProto \<times> 'k diagnostics" where
  "compile file =
     (let enum_names = collect_enum_names file;
          msg_names = collect_message_names file;
          syn = compiled_syntax file;
          package = map_option id_name (f_package file);
          pkg = (case package of Some p \<Rightarrow> p | None \<Rightarrow> []);
          ds = check_duplicates file [];
          (exs, ds) = thread (\<lambda>ext. thread (convert_field enum_names msg_names syn) (ex_fields ext)) (f_extensions file) ds;
          (msgs, ds) = thread (convert_message enum_names msg_names syn pkg) (f_messages file) ds;
          (ens, ds) = thread convert_enum (f_enums file) ds
      in (FileDescriptorProto_default
            \<lparr>file_name := Some (f_name file),
             file_package := package,
             file_dependency := map imp_path (f_imports file),
             file_public_dependency := import_indices ImportPublic (f_imports file),
             file_weak_dependency := import_indices ImportWeak (f_imports file),
             file_message_type := msgs,
             file_enum_type := ens,
             file_service := map convert_service (f_services file),
             file_extension := concat exs,
             file_syntax := Some syn\<rparr>, ds))"

definition serialize_file_descriptor :: "FileDescriptorProto \<Rightarrow> byte list core_res" where
  "serialize_file_descriptor fd = encode_to_vec FileDescriptorProto_encode fd"

definition parse_file_descriptor :: "byte list \<Rightarrow> FileDescriptorProto core_res" where
  "parse_file_descriptor bs = decode FileDescriptorProto_default (while_unread FileDescriptorProto_step) bs"

end
