(* ===== verification/Features.thy ===== *)
theory Features
  imports Prelude
begin

text \<open>
  Editions feature resolution (\<open>crates/tpt-proto-compiler/src/features.rs\<close>): the defaults of each
  syntax and edition, the merge of explicit overrides on an inherited base.
\<close>

section \<open>Feature sets\<close>

datatype FieldPresence = Explicit | Implicit | LegacyRequired

datatype EnumType = OpenEnum | ClosedEnum

datatype RepeatedFieldEncoding = PackedEncoding | ExpandedEncoding

datatype Utf8Validation = Verify | NoValidation

datatype JsonFormat = Allow | LegacyBestEffort

datatype MessageEncoding = LengthPrefixed | Delimited

record FeatureSet =
  fs_field_presence :: FieldPresence
  fs_enum_type :: EnumType
  fs_repeated_field_encoding :: RepeatedFieldEncoding
  fs_utf8_validation :: Utf8Validation
  fs_json_format :: JsonFormat
  fs_message_encoding :: MessageEncoding

record FeatureOverrides =
  fo_field_presence :: "FieldPresence option"
  fo_enum_type :: "EnumType option"
  fo_repeated_field_encoding :: "RepeatedFieldEncoding option"
  fo_utf8_validation :: "Utf8Validation option"
  fo_json_format :: "JsonFormat option"
  fo_message_encoding :: "MessageEncoding option"

definition FeatureOverrides_default :: FeatureOverrides where
  "FeatureOverrides_default =
     \<lparr>fo_field_presence = None, fo_enum_type = None, fo_repeated_field_encoding = None,
      fo_utf8_validation = None, fo_json_format = None, fo_message_encoding = None\<rparr>"

section \<open>Defaults\<close>

definition for_proto2 :: FeatureSet where
  "for_proto2 =
     \<lparr>fs_field_presence = LegacyRequired, fs_enum_type = ClosedEnum,
      fs_repeated_field_encoding = ExpandedEncoding, fs_utf8_validation = NoValidation,
      fs_json_format = LegacyBestEffort, fs_message_encoding = LengthPrefixed\<rparr>"

definition for_proto3 :: FeatureSet where
  "for_proto3 =
     \<lparr>fs_field_presence = Implicit, fs_enum_type = OpenEnum,
      fs_repeated_field_encoding = PackedEncoding, fs_utf8_validation = Verify,
      fs_json_format = Allow, fs_message_encoding = LengthPrefixed\<rparr>"

text \<open>The catch-all branch calls the function again with \<open>"2023"\<close>: its value is that branch's.\<close>

definition for_edition :: "string \<Rightarrow> FeatureSet" where
  "for_edition edition =
     (if edition = ''2024''
      then \<lparr>fs_field_presence = Explicit, fs_enum_type = ClosedEnum,
            fs_repeated_field_encoding = PackedEncoding, fs_utf8_validation = Verify,
            fs_json_format = Allow, fs_message_encoding = LengthPrefixed\<rparr>
      else \<lparr>fs_field_presence = Implicit, fs_enum_type = OpenEnum,
            fs_repeated_field_encoding = PackedEncoding, fs_utf8_validation = Verify,
            fs_json_format = Allow, fs_message_encoding = LengthPrefixed\<rparr>)"

definition for_syntax :: "string \<Rightarrow> string option \<Rightarrow> FeatureSet" where
  "for_syntax syn edition = (case edition of
      Some e \<Rightarrow> for_edition e
    | None \<Rightarrow> if syn = ''proto2'' then for_proto2
              else if syn = ''proto3'' then for_proto3
              else for_proto2)"

section \<open>Inheritance\<close>

definition unwrap_or :: "'a \<Rightarrow> 'a option \<Rightarrow> 'a" where
  "unwrap_or d x = (case x of Some v \<Rightarrow> v | None \<Rightarrow> d)"

definition merge_features :: "FeatureSet \<Rightarrow> FeatureOverrides \<Rightarrow> FeatureSet" where
  "merge_features fs ov =
     \<lparr>fs_field_presence = unwrap_or (fs_field_presence fs) (fo_field_presence ov),
      fs_enum_type = unwrap_or (fs_enum_type fs) (fo_enum_type ov),
      fs_repeated_field_encoding = unwrap_or (fs_repeated_field_encoding fs) (fo_repeated_field_encoding ov),
      fs_utf8_validation = unwrap_or (fs_utf8_validation fs) (fo_utf8_validation ov),
      fs_json_format = unwrap_or (fs_json_format fs) (fo_json_format ov),
      fs_message_encoding = unwrap_or (fs_message_encoding fs) (fo_message_encoding ov)\<rparr>"

definition legacy_equivalent :: "FeatureSet \<Rightarrow> string" where
  "legacy_equivalent fs =
     (if fs_field_presence fs = Explicit \<and> fs_enum_type fs = ClosedEnum then ''proto2'' else ''proto3'')"

text \<open>
  Overrides compose: merging twice is merging once with the later override taking precedence, so
  a chain of declarations resolves the same way however it is grouped.
\<close>

definition over :: "FeatureOverrides \<Rightarrow> FeatureOverrides \<Rightarrow> FeatureOverrides" where
  "over a b =
     \<lparr>fo_field_presence = (case fo_field_presence b of None \<Rightarrow> fo_field_presence a | v \<Rightarrow> v),
      fo_enum_type = (case fo_enum_type b of None \<Rightarrow> fo_enum_type a | v \<Rightarrow> v),
      fo_repeated_field_encoding = (case fo_repeated_field_encoding b of None \<Rightarrow> fo_repeated_field_encoding a | v \<Rightarrow> v),
      fo_utf8_validation = (case fo_utf8_validation b of None \<Rightarrow> fo_utf8_validation a | v \<Rightarrow> v),
      fo_json_format = (case fo_json_format b of None \<Rightarrow> fo_json_format a | v \<Rightarrow> v),
      fo_message_encoding = (case fo_message_encoding b of None \<Rightarrow> fo_message_encoding a | v \<Rightarrow> v)\<rparr>"

lemma merge_features_over: "merge_features (merge_features fs a) b = merge_features fs (over a b)"
  by (simp add: merge_features_def over_def unwrap_or_def split: option.splits)

lemma merge_features_none [simp]: "merge_features fs FeatureOverrides_default = fs"
  by (simp add: merge_features_def FeatureOverrides_default_def unwrap_or_def)

text \<open>
  Only edition 2024 counts as proto2-like: the defaults of proto2 itself, whose presence is
  \<open>LegacyRequired\<close>, are reported as closest to proto3.
\<close>

lemma legacy_equivalent_defaults:
  "legacy_equivalent (for_syntax s e) = (if e = Some ''2024'' then ''proto2'' else ''proto3'')"
  by (simp add: legacy_equivalent_def for_syntax_def for_edition_def for_proto2_def for_proto3_def
      split: option.splits)

end
