(* ===== verification/Pipeline.thy ===== *)
theory Pipeline
  imports Compiler Features
begin

text \<open>
  Compilation of a set of files (\<open>crates/tpt-proto-compiler/src/pipeline.rs\<close>): import cycles and
  visibility, the symbol table, resolution of type references, validation of options. The pairs of
  \<open>diags\<close> and \<open>lint\<close> that the functions update together are one \<open>report\<close>. A \<open>HashMap\<close> is a map, a
  \<open>HashSet\<close> a set: the code never depends on their iteration order. The two traversals of the
  import graph take fuel, one unit for each level of their recursion.
\<close>

section \<open>Findings\<close>

record 'k lint_finding =
  lf_severity :: severity
  lf_code :: error_code
  lf_message :: "'k diag_message"
  lf_file :: string
  lf_span :: "span option"

type_synonym 'k lint_report = "'k lint_finding list"

definition lint_has_errors :: "'k lint_report \<Rightarrow> bool" where
  "lint_has_errors fs \<longleftrightarrow> list_ex (\<lambda>f. lf_severity f = Error) fs"

record 'k report =
  rp_diags :: "'k diagnostics"
  rp_lint :: "'k lint_report"

definition report_empty :: "'k report" where
  "report_empty = \<lparr>rp_diags = [], rp_lint = []\<rparr>"

text \<open>A diagnostic and the finding that repeats it with the name of its file.\<close>

definition add_note :: "string \<Rightarrow> 'k diagnostic \<Rightarrow> 'k report \<Rightarrow> 'k report" where
  "add_note file d rep =
     \<lparr>rp_diags = diag_push d (rp_diags rep),
      rp_lint = rp_lint rep @ [\<lparr>lf_severity = dg_severity d, lf_code = dg_code d,
        lf_message = dg_message d, lf_file = file, lf_span = dg_span d\<rparr>]\<rparr>"

definition note_error :: "error_code \<Rightarrow> string \<Rightarrow> string \<Rightarrow> span option \<Rightarrow> 'k report \<Rightarrow> 'k report" where
  "note_error code msg file sp = add_note file (Diagnostic_error code (Literal msg) sp)"

definition note_warning :: "error_code \<Rightarrow> string \<Rightarrow> string \<Rightarrow> span option \<Rightarrow> 'k report \<Rightarrow> 'k report" where
  "note_warning code msg file sp = add_note file (Diagnostic_warning code (Literal msg) sp)"

definition file_syntax :: "'p proto_file \<Rightarrow> string \<times> string option" where
  "file_syntax f = (case f_edition f of
      Some e \<Rightarrow> (''editions'', Some e)
    | None \<Rightarrow> (case f_syntax f of Some s \<Rightarrow> syn_value s | None \<Rightarrow> ''proto2'', None))"

section \<open>The import graph\<close>

type_synonym file_index = "string \<Rightarrow> span proto_file option"

definition index_file :: "span proto_file \<Rightarrow> file_index \<times> 'k report \<Rightarrow> file_index \<times> 'k report" where
  "index_file f st = (case st of (by_name, rep) \<Rightarrow>
     (by_name(f_name f \<mapsto> f),
      if by_name (f_name f) \<noteq> None
      then note_error DuplicateSymbol (''duplicate file name '' @ quoted (f_name f)) (f_name f) None rep
      else rep))"

definition index_files :: "span proto_file list \<Rightarrow> file_index \<times> 'k report" where
  "index_files files = fold index_file files (\<lambda>_. None, report_empty)"

text \<open>A loop whose body may fail.\<close>

fun fold_result :: "('a \<Rightarrow> 's \<Rightarrow> ('e, 's) res) \<Rightarrow> 'a list \<Rightarrow> 's \<Rightarrow> ('e, 's) res" where
  "fold_result f [] s = Inr s"
| "fold_result f (x # xs) s = bind_result (f x s) (fold_result f xs)"

lemma fold_result_cong [fundef_cong]:
  assumes "xs = ys" and "s = t" and "\<And>x s. x \<in> set ys \<Longrightarrow> f x s = g x s"
  shows "fold_result f xs s = fold_result g ys t"
proof -
  have "fold_result f ys t = fold_result g ys t"
    using assms(3) by (induction ys arbitrary: t) (auto intro: bind_result_cong)
  then show ?thesis by (simp add: assms(1,2))
qed

text \<open>The imports of a file that are in the pool, by path.\<close>

definition known_imports :: "file_index \<Rightarrow> string \<Rightarrow> string list" where
  "known_imports by_name name = (case by_name name of
      Some f \<Rightarrow> filter (\<lambda>p. by_name p \<noteq> None) (map imp_path (f_imports f))
    | None \<Rightarrow> [])"

type_synonym colors = "string \<Rightarrow> nat option"

fun visit_cycle :: "nat \<Rightarrow> file_index \<Rightarrow> string \<Rightarrow> colors \<times> 'k report \<Rightarrow> (unit, colors \<times> 'k report) res" where
  "visit_cycle 0 by_name name st = Inl Diverges"
| "visit_cycle (Suc n) by_name name (color, rep) =
     (if color name = Some 2 then Inr (color, rep)
      else if color name = Some 1
      then Inr (color, note_error Other_error (''import cycle detected involving '' @ quoted name) name None rep)
      else bind_result (fold_result (visit_cycle n by_name) (known_imports by_name name) (color(name \<mapsto> 1), rep))
             (\<lambda>(color, rep). Inr (color(name \<mapsto> 2), rep)))"

definition detect_import_cycles :: "span proto_file list \<Rightarrow> file_index \<Rightarrow> 'k report \<Rightarrow> (unit, 'k report) res" where
  "detect_import_cycles files by_name rep =
     bind_result (fold_result (\<lambda>f. visit_cycle (Suc (length files)) by_name (f_name f)) files (\<lambda>_. None, rep))
       (\<lambda>(_, rep). Inr rep)"

section \<open>Visibility\<close>

definition missing_import :: "file_index \<Rightarrow> span proto_file \<Rightarrow> span import_stmt \<Rightarrow> 'k report \<Rightarrow> 'k report" where
  "missing_import by_name f imp rep =
     (if by_name (imp_path imp) = None \<and> imp_kind imp \<noteq> ImportWeak
      then note_error Other_error
             (''cannot find imported file '' @ quoted (imp_path imp) @ '' (imported by '' @ quoted (f_name f) @ '')'')
             (f_name f) (Some (imp_span imp)) rep
      else rep)"

definition report_missing :: "span proto_file list \<Rightarrow> file_index \<Rightarrow> 'k report \<Rightarrow> 'k report" where
  "report_missing files by_name = fold (\<lambda>f. fold (missing_import by_name f) (f_imports f)) files"

definition public_imports :: "file_index \<Rightarrow> string \<Rightarrow> string list" where
  "public_imports by_name name = (case by_name name of
      Some f \<Rightarrow> map imp_path (filter (\<lambda>i. imp_kind i = ImportPublic \<and> by_name (imp_path i) \<noteq> None) (f_imports f))
    | None \<Rightarrow> [])"

type_synonym memo = "string \<Rightarrow> string set option option"

fun reexported_of :: "nat \<Rightarrow> file_index \<Rightarrow> string \<Rightarrow> memo \<Rightarrow> (unit, string set \<times> memo) res" where
  "reexported_of 0 by_name name memo = Inl Diverges"
| "reexported_of (Suc n) by_name name memo = (case memo name of
      Some cached \<Rightarrow> Inr (case cached of Some s \<Rightarrow> s | None \<Rightarrow> {}, memo)
    | None \<Rightarrow>
        bind_result
          (fold_result (\<lambda>p (acc, memo).
               bind_result (reexported_of n by_name p memo) (\<lambda>(s, memo). Inr (insert p (acc \<union> s), memo)))
             (public_imports by_name name) ({}, memo(name \<mapsto> None)))
          (\<lambda>(acc, memo). Inr (acc, memo(name \<mapsto> Some acc))))"

text \<open>The body of the loop over the files: the files whose symbols \<open>f\<close> sees.\<close>

definition visible_from :: "nat \<Rightarrow> file_index \<Rightarrow> span proto_file \<Rightarrow> memo \<Rightarrow> (unit, string set \<times> memo) res" where
  "visible_from n by_name f memo =
     fold_result (\<lambda>imp (vis, memo).
         if by_name (imp_path imp) = None then Inr (vis, memo)
         else bind_result (reexported_of n by_name (imp_path imp) memo)
                (\<lambda>(s, memo). Inr (insert (imp_path imp) (vis \<union> s), memo)))
       (f_imports f) ({}, memo)"

type_synonym visibility = "string \<Rightarrow> string set option"

definition compute_visibility :: "span proto_file list \<Rightarrow> file_index \<Rightarrow> 'k report
    \<Rightarrow> (unit, visibility \<times> 'k report) res" where
  "compute_visibility files by_name rep =
     (let rep = report_missing files by_name rep
      in bind_result
           (fold_result (\<lambda>f (out, memo).
                bind_result (visible_from (Suc (length files)) by_name f memo)
                  (\<lambda>(vis, memo). Inr (out(f_name f \<mapsto> vis), memo)))
              files (\<lambda>_. None, \<lambda>_. None))
           (\<lambda>(out, _). Inr (out, rep)))"

section \<open>Symbol table\<close>

record 'k symbol_state =
  ss_symbols :: "string \<Rightarrow> string option"
  ss_by_file :: "string set"
  ss_report :: "'k report"

text \<open>The name with a leading dot; the prefix may have one already.\<close>

definition strip_dot :: "string \<Rightarrow> string" where
  "strip_dot s = (case strip_prefix ''.'' s of Some t \<Rightarrow> t | None \<Rightarrow> s)"

definition qualify :: "string \<Rightarrow> string \<Rightarrow> string" where
  "qualify prefix name =
     (let prefix = strip_dot prefix
      in if prefix = [] then ''.'' @ name else ''.'' @ prefix @ ''.'' @ name)"

definition or_empty :: "string option \<Rightarrow> string" where
  "or_empty s = (case s of Some t \<Rightarrow> t | None \<Rightarrow> [])"

definition insert_symbol :: "string \<Rightarrow> string \<Rightarrow> 'k symbol_state \<Rightarrow> 'k symbol_state" where
  "insert_symbol fname fqn st =
     (let st = st\<lparr>ss_by_file := insert fqn (ss_by_file st)\<rparr>
      in case ss_symbols st fqn of
           Some prev \<Rightarrow>
             if prev \<noteq> fname
             then st\<lparr>ss_report := note_error DuplicateSymbol
                       (''symbol '' @ quoted fqn @ '' defined in both '' @ quoted prev @ '' and '' @ quoted fname)
                       fname None (ss_report st)\<rparr>
             else st
         | None \<Rightarrow> st\<lparr>ss_symbols := (ss_symbols st)(fqn \<mapsto> fname)\<rparr>)"

fun collect_message :: "string \<Rightarrow> string \<Rightarrow> DescriptorProto \<Rightarrow> 'k symbol_state \<Rightarrow> 'k symbol_state" where
  "collect_message fname prefix (DescriptorProto own inner) st =
     (let fqn = qualify prefix (or_empty (msg_name own));
          st = insert_symbol fname fqn st;
          st = fold (collect_message fname fqn) inner st
      in fold (\<lambda>e. insert_symbol fname (qualify fqn (or_empty (en_name e)))) (msg_enum_type own) st)"

definition collect_symbols :: "string \<Rightarrow> FileDescriptorProto \<Rightarrow> 'k symbol_state \<Rightarrow> 'k symbol_state" where
  "collect_symbols fname fd st =
     (let pkg = or_empty (file_package fd);
          st = fold (collect_message fname pkg) (file_message_type fd) st
      in fold (\<lambda>e. insert_symbol fname (qualify pkg (or_empty (en_name e)))) (file_enum_type fd) st)"

section \<open>Type references\<close>

text \<open>\<open>split('.')\<close>, and \<open>join(".")\<close>.\<close>

fun split_dots :: "string \<Rightarrow> string list" where
  "split_dots [] = [[]]"
| "split_dots (c # cs) =
     (if c = CHR ''.'' then [] # split_dots cs
      else case split_dots cs of p # ps \<Rightarrow> (c # p) # ps | [] \<Rightarrow> [[c]])"

fun join_dots :: "string list \<Rightarrow> string" where
  "join_dots [] = []"
| "join_dots [p] = p"
| "join_dots (p # ps) = p @ ''.'' @ join_dots ps"

definition scope_candidate :: "string \<Rightarrow> string list \<Rightarrow> string" where
  "scope_candidate name prefix =
     (if prefix = [] then ''.'' @ name else ''.'' @ join_dots prefix @ ''.'' @ name)"

definition resolve_type_name :: "string \<Rightarrow> string \<Rightarrow> string set \<Rightarrow> string option" where
  "resolve_type_name name pkg visible =
     (if starts_with name ''.'' then (if name \<in> visible then Some name else None)
      else let pkg = strip_dot pkg;
               parts = (if pkg = [] then [] else split_dots pkg)
           in find (\<lambda>c. c \<in> visible)
                (map (\<lambda>i. scope_candidate name (take i parts)) (rev [0..<Suc (length parts)])))"

definition references_type :: "FieldType option \<Rightarrow> bool" where
  "references_type ty \<longleftrightarrow> ty = Some TMessage \<or> ty = Some TEnum \<or> ty = Some TGroup"

definition resolve_field_type :: "string \<Rightarrow> string \<Rightarrow> string set \<Rightarrow> FieldDescriptorProto \<Rightarrow> 'k report
    \<Rightarrow> FieldDescriptorProto \<times> 'k report" where
  "resolve_field_type fname pkg visible f rep =
     (if references_type (fld_type f)
      then case fld_type_name f of
             None \<Rightarrow> (f, rep)
           | Some tn \<Rightarrow>
               (case resolve_type_name tn pkg visible of
                  Some resolved \<Rightarrow> (f\<lparr>fld_type_name := Some resolved\<rparr>, rep)
                | None \<Rightarrow> (f, note_error UnknownType
                    (''unknown type '' @ quoted tn @ '' referenced by field '' @ quoted (or_empty (fld_name f)))
                    fname None rep))
      else (f, rep))"

text \<open>The fields are resolved in the scope \<open>prefix\<close> that contains the message.\<close>

fun resolve_message :: "string \<Rightarrow> string set \<Rightarrow> string \<Rightarrow> DescriptorProto \<Rightarrow> 'k report
    \<Rightarrow> DescriptorProto \<times> 'k report" where
  "resolve_message fname visible prefix (DescriptorProto own inner) rep =
     (let self_path = qualify prefix (or_empty (msg_name own));
          (fds, rep) = thread (resolve_field_type fname prefix visible) (msg_field own) rep;
          (inner, rep) = thread (resolve_message fname visible self_path) inner rep
      in (DescriptorProto (own\<lparr>msg_field := fds\<rparr>) inner, rep))"

definition unknown_type :: "string \<Rightarrow> string \<Rightarrow> 'k report \<Rightarrow> 'k report" where
  "unknown_type name ctx rep = note_error UnknownType
     (''unknown type '' @ quoted name @ '' referenced by method '' @ quoted ctx) [] None rep"

definition resolve_method_type :: "string \<Rightarrow> string set \<Rightarrow> string \<Rightarrow> string option \<Rightarrow> 'k report
    \<Rightarrow> string option \<times> 'k report" where
  "resolve_method_type pkg visible name ty rep = (case ty of
      None \<Rightarrow> (None, rep)
    | Some t \<Rightarrow> (case resolve_type_name t pkg visible of
          Some r \<Rightarrow> (Some r, rep)
        | None \<Rightarrow> (Some t, unknown_type t name rep)))"

definition resolve_method :: "string \<Rightarrow> string set \<Rightarrow> MethodDescriptorProto \<Rightarrow> 'k report
    \<Rightarrow> MethodDescriptorProto \<times> 'k report" where
  "resolve_method pkg visible m rep =
     (let name = or_empty (mth_name m);
          (inp, rep) = resolve_method_type pkg visible name (mth_input_type m) rep;
          (out, rep) = resolve_method_type pkg visible name (mth_output_type m) rep
      in (m\<lparr>mth_input_type := inp, mth_output_type := out\<rparr>, rep))"

definition resolve_service :: "string \<Rightarrow> string set \<Rightarrow> ServiceDescriptorProto \<Rightarrow> 'k report
    \<Rightarrow> ServiceDescriptorProto \<times> 'k report" where
  "resolve_service pkg visible s rep =
     (let (ms, rep) = thread (resolve_method pkg visible) (svc_method s) rep
      in (s\<lparr>svc_method := ms\<rparr>, rep))"

definition resolve_references :: "string \<Rightarrow> string set \<Rightarrow> FileDescriptorProto \<Rightarrow> 'k report
    \<Rightarrow> FileDescriptorProto \<times> 'k report" where
  "resolve_references fname visible fd rep =
     (let pkg = or_empty (file_package fd);
          (msgs, rep) = thread (resolve_message fname visible pkg) (file_message_type fd) rep;
          (svcs, rep) = thread (resolve_service pkg visible) (file_service fd) rep
      in (fd\<lparr>file_message_type := msgs, file_service := svcs\<rparr>, rep))"

section \<open>Options\<close>

datatype opt_kind = OptStr | OptBool | OptEnum "string list"

definition value_matches :: "const_value \<Rightarrow> opt_kind \<Rightarrow> bool" where
  "value_matches c kind = (case kind of
      OptStr \<Rightarrow> (case c of CString _ \<Rightarrow> True | _ \<Rightarrow> False)
    | OptBool \<Rightarrow> (case c of CBool _ \<Rightarrow> True | _ \<Rightarrow> False)
    | OptEnum variants \<Rightarrow> (case c of CIdent s \<Rightarrow> s \<in> set variants | _ \<Rightarrow> False))"

type_synonym option_table = "(string \<times> opt_kind) list"

definition validate_option :: "option_table \<Rightarrow> string \<Rightarrow> string \<Rightarrow> span proto_option \<Rightarrow> 'k report \<Rightarrow> 'k report" where
  "validate_option known ctx file o' rep =
     (if starts_with (opt_name o') ''('' then rep
      else case map_of known (opt_name o') of
             Some kind \<Rightarrow>
               if value_matches (opt_value o') kind then rep
               else note_error InvalidOption
                      (''option '' @ quoted (opt_name o') @ '' has a value of the wrong type ('' @ ctx @ '')'')
                      file (Some (opt_span o')) rep
           | None \<Rightarrow>
               note_warning InvalidOption (''unknown option '' @ quoted (opt_name o') @ '' ('' @ ctx @ '')'')
                 file (Some (opt_span o')) rep)"

definition validate_options :: "option_table \<Rightarrow> string \<Rightarrow> string \<Rightarrow> span proto_option list \<Rightarrow> 'k report \<Rightarrow> 'k report" where
  "validate_options known ctx file opts = fold (validate_option known ctx file) opts"

definition FILE_OPTIONS :: option_table where
  "FILE_OPTIONS =
     [(''java_package'', OptStr), (''java_outer_classname'', OptStr), (''java_multiple_files'', OptBool),
      (''go_package'', OptStr), (''cc_enable_arenas'', OptBool), (''cc_generic_services'', OptBool),
      (''java_generic_services'', OptBool), (''py_generic_services'', OptBool),
      (''optimize_for'', OptEnum [''SPEED'', ''CODE_SIZE'', ''LITE_RUNTIME'']), (''deprecated'', OptBool)]"

definition MESSAGE_OPTIONS :: option_table where
  "MESSAGE_OPTIONS = [(''deprecated'', OptBool), (''message_set_wire_format'', OptBool)]"

definition FIELD_OPTIONS :: option_table where
  "FIELD_OPTIONS =
     [(''deprecated'', OptBool), (''packed'', OptBool),
      (''ctype'', OptEnum [''STRING'', ''CORD'', ''STRING_PIECE''])]"

definition ENUM_OPTIONS :: option_table where
  "ENUM_OPTIONS = [(''allow_alias'', OptBool), (''deprecated'', OptBool)]"

definition ENUM_VALUE_OPTIONS :: option_table where
  "ENUM_VALUE_OPTIONS = [(''deprecated'', OptBool)]"

definition METHOD_OPTIONS :: option_table where
  "METHOD_OPTIONS =
     [(''deprecated'', OptBool),
      (''idempotency_level'', OptEnum [''IDEMPOTENCY_UNKNOWN'', ''NO_SIDE_EFFECTS'', ''IDEMPOTENT''])]"

definition validate_fields :: "string \<Rightarrow> span field list \<Rightarrow> 'k report \<Rightarrow> 'k report" where
  "validate_fields file = fold (\<lambda>f. validate_options FIELD_OPTIONS ''field option'' file (fd_options f))"

definition validate_enum :: "string \<Rightarrow> span enum \<Rightarrow> 'k report \<Rightarrow> 'k report" where
  "validate_enum file e rep =
     fold (\<lambda>v. validate_options ENUM_VALUE_OPTIONS ''enum value option'' file (enum_value.ev_options v)) (en_values e)
       (validate_options ENUM_OPTIONS ''enum option'' file (enum.en_options e) rep)"

definition validate_extension :: "string \<Rightarrow> span extension \<Rightarrow> 'k report \<Rightarrow> 'k report" where
  "validate_extension file ext rep =
     validate_fields file (ex_fields ext)
       (validate_options [] ''extension option'' file (ex_options ext) rep)"

definition validate_oneof :: "string \<Rightarrow> span oneof \<Rightarrow> 'k report \<Rightarrow> 'k report" where
  "validate_oneof file o' rep =
     validate_fields file (oo_fields o')
       (validate_options [(''deprecated'', OptBool)] ''oneof option'' file (oneof.oo_options o') rep)"

fun validate_message_options :: "string \<Rightarrow> span message \<Rightarrow> 'k report \<Rightarrow> 'k report" where
  "validate_message_options file (Message sp name flds oneofs maps msgs enums exts rr rn er opts grp) rep =
     (let rep = validate_options MESSAGE_OPTIONS ''message option'' file opts rep;
          rep = validate_fields file flds rep;
          rep = fold (validate_oneof file) oneofs rep;
          rep = fold (\<lambda>mf. validate_options [(''deprecated'', OptBool)] ''map field option'' file (mf_options mf)) maps rep;
          rep = fold (validate_message_options file) msgs rep;
          rep = fold (validate_enum file) enums rep
      in fold (validate_extension file) exts rep)"

definition validate_service :: "string \<Rightarrow> span service \<Rightarrow> 'k report \<Rightarrow> 'k report" where
  "validate_service file s rep =
     fold (\<lambda>m. validate_options METHOD_OPTIONS ''method option'' file (me_options m)) (sv_methods s)
       (validate_options [] ''service option'' file (sv_options s) rep)"

definition validate_options_in_file :: "span proto_file \<Rightarrow> 'k report \<Rightarrow> 'k report" where
  "validate_options_in_file f rep =
     (let file = f_name f;
          rep = validate_options FILE_OPTIONS ''file option'' file (f_options f) rep;
          rep = fold (validate_message_options file) (f_messages f) rep;
          rep = fold (validate_enum file) (f_enums f) rep;
          rep = fold (validate_service file) (f_services f) rep
      in fold (validate_extension file) (f_extensions f) rep)"

section \<open>The pipeline\<close>

record 'k compile_result =
  cr_set :: FileDescriptorSet
  cr_diagnostics :: "'k diagnostics"
  cr_lint :: "'k lint_report"
  cr_features :: "string \<Rightarrow> FeatureSet option"

text \<open>The conversion of one file, with its diagnostics copied to the report.\<close>

definition convert_file :: "span proto_file \<Rightarrow> (string \<Rightarrow> FeatureSet option) \<times> 'k report
    \<Rightarrow> FileDescriptorProto \<times> (string \<Rightarrow> FeatureSet option) \<times> 'k report" where
  "convert_file f st = (case st of (features, rep) \<Rightarrow>
     (let (fd, fdiags) = compile f;
          rep = fold (add_note (f_name f)) fdiags rep;
          (syn, ed) = file_syntax f
      in (fd, features(f_name f \<mapsto> for_syntax syn ed), rep)))"

type_synonym symbol_table = "(string \<Rightarrow> string option) \<times> (string \<Rightarrow> string set option)"

definition add_symbols :: "FileDescriptorProto \<Rightarrow> symbol_table \<times> 'k report \<Rightarrow> symbol_table \<times> 'k report" where
  "add_symbols fd st = (case st of ((symbols, by_file), rep) \<Rightarrow>
     (let fname = or_empty (file_name fd);
          own = (case by_file fname of Some s \<Rightarrow> s | None \<Rightarrow> {});
          st = collect_symbols fname fd \<lparr>ss_symbols = symbols, ss_by_file = own, ss_report = rep\<rparr>
      in ((ss_symbols st, by_file(fname \<mapsto> ss_by_file st)), ss_report st)))"

definition symbols_of :: "(string \<Rightarrow> string set option) \<Rightarrow> string \<Rightarrow> string set" where
  "symbols_of by_file name = (case by_file name of Some s \<Rightarrow> s | None \<Rightarrow> {})"

text \<open>The names a file may refer to: its own and those of the files it sees.\<close>

definition visible_names :: "visibility \<Rightarrow> (string \<Rightarrow> string set option) \<Rightarrow> string \<Rightarrow> string set" where
  "visible_names vis by_file name =
     symbols_of by_file name
     \<union> (case vis name of Some deps \<Rightarrow> \<Union> (symbols_of by_file ` deps) | None \<Rightarrow> {})"

definition resolve_file :: "visibility \<Rightarrow> (string \<Rightarrow> string set option) \<Rightarrow> span proto_file \<times> FileDescriptorProto
    \<Rightarrow> 'k report \<Rightarrow> FileDescriptorProto \<times> 'k report" where
  "resolve_file vis by_file p rep = (case p of (f, fd) \<Rightarrow>
     (let (fd, rep) = resolve_references (f_name f) (visible_names vis by_file (f_name f)) fd rep
      in (fd, validate_options_in_file f rep)))"

definition compile_set :: "span proto_file list \<Rightarrow> (unit, 'k compile_result) res" where
  "compile_set files =
     (let (by_name, rep) = index_files files
      in bind_result (detect_import_cycles files by_name rep) (\<lambda>rep.
         bind_result (compute_visibility files by_name rep) (\<lambda>(vis, rep).
           (let (converted, features, rep) = thread convert_file files (\<lambda>_. None, rep);
                ((symbols, by_file), rep) = fold add_symbols converted ((\<lambda>_. None, \<lambda>_. None), rep);
                (fds, rep) = thread (resolve_file vis by_file) (zip files converted) rep
            in Inr \<lparr>cr_set = \<lparr>fds_file = fds\<rparr>, cr_diagnostics = rp_diags rep, cr_lint = rp_lint rep,
                    cr_features = features\<rparr>))))"

end
