(* ===== verification/Import_Graph.thy ===== *)
theory Import_Graph
  imports Pipeline
begin

text \<open>
  The two traversals of the import graph: cycle detection always ends and reports exactly the
  cyclic graphs; visibility always ends and never shows a file the importing file cannot reach
  over a direct import followed by public ones, and without cycles of public imports it
  shows all of them.
\<close>

section \<open>The graphs\<close>

definition import_graph :: "file_index \<Rightarrow> (string \<times> string) set" where
  "import_graph by_name = {(a, b). b \<in> set (known_imports by_name a)}"

definition public_graph :: "file_index \<Rightarrow> (string \<times> string) set" where
  "public_graph by_name = {(a, b). b \<in> set (public_imports by_name a)}"

lemma known_imports_in_dom: "b \<in> set (known_imports by_name a) \<Longrightarrow> b \<in> dom by_name"
  by (auto simp: known_imports_def split: option.splits)

lemma public_imports_in_dom: "b \<in> set (public_imports by_name a) \<Longrightarrow> b \<in> dom by_name"
  by (auto simp: public_imports_def split: option.splits)

lemma public_graph_subset: "public_graph by_name \<subseteq> import_graph by_name"
  by (auto simp: public_graph_def import_graph_def public_imports_def known_imports_def split: option.splits)

lemma import_graph_in_dom: "(a, b) \<in> import_graph by_name \<Longrightarrow> a \<in> dom by_name"
  by (cases "by_name a") (auto simp: import_graph_def known_imports_def)

lemma index_file_dom: "dom (fst (fold index_file files (m, rep))) = dom m \<union> f_name ` set files"
  by (induction files arbitrary: m rep) (auto simp: index_file_def)

lemma dom_index_files: "index_files files = (m, rep :: 'k report) \<Longrightarrow> dom m = f_name ` set files"
  using index_file_dom [of files "\<lambda>_. None" "report_empty :: 'k report"] by (simp add: index_files_def)

lemma finite_index_files: "index_files files = (m, rep) \<Longrightarrow> finite (dom m)"
  by (simp add: dom_index_files)

lemma card_index_files: "index_files files = (m, rep) \<Longrightarrow> card (dom m) < Suc (length files)"
  using card_image_le [of "set files" f_name] card_length [of files] by (simp add: dom_index_files)

text \<open>A node less to visit.\<close>

lemma unvisited_less:
  assumes "finite (dom m)" and "x \<in> dom m" and "x \<notin> dom c" and "card (dom m - dom c) < Suc n"
  shows "card (dom m - dom (c(x \<mapsto> v))) < n"
proof -
  have "dom m - dom (c(x \<mapsto> v)) = (dom m - dom c) - {x}"
    by auto
  moreover have "0 < card (dom m - dom c)"
    using assms(1-3) by (auto simp: card_gt_0_iff)
  ultimately show ?thesis
    using assms by (simp add: card_Diff_singleton)
qed

lemma unvisited_mono:
  assumes "finite (dom m)" and "dom c \<subseteq> dom c'" and "card (dom m - dom c) < n"
  shows "card (dom m - dom c') < n"
  using card_mono [of "dom m - dom c" "dom m - dom c'"] assms by fastforce

lemma fold_result_map: "fold_result f (map g xs) s = fold_result (\<lambda>x. f (g x)) xs s"
proof (induction xs arbitrary: s)
  case (Cons x xs)
  then show ?case by (cases "f (g x) s") simp_all
qed simp

section \<open>Cycle detection\<close>

text \<open>The report with an error for each of the names.\<close>

definition add_cycles :: "string list \<Rightarrow> 'k report \<Rightarrow> 'k report" where
  "add_cycles ns = fold (\<lambda>n. note_error Other_error (''import cycle detected involving '' @ quoted n) n None) ns"

lemma add_cycles_Nil [simp]: "add_cycles [] rep = rep"
  by (simp add: add_cycles_def)

lemma add_cycles_append: "add_cycles ns (add_cycles ms rep) = add_cycles (ms @ ns) rep"
  by (simp add: add_cycles_def)

text \<open>
  What a visit does to the colours: the nodes in progress (1) stay the same, the done ones (2) only
  grow. \<open>done_ok\<close> holds as long as no error is reported: a node that is done lies on no cycle
  and its imports are done.
\<close>

definition advances :: "colors \<Rightarrow> colors \<Rightarrow> bool" where
  "advances c c' \<longleftrightarrow> ran c' \<subseteq> {1, 2} \<and> (\<forall>x. c' x = Some 1 \<longleftrightarrow> c x = Some 1)
     \<and> (\<forall>x. c x = Some 2 \<longrightarrow> c' x = Some 2)"

definition done_ok :: "(string \<times> string) set \<Rightarrow> colors \<Rightarrow> bool" where
  "done_ok E c \<longleftrightarrow> (\<forall>x. c x = Some 2 \<longrightarrow> (x, x) \<notin> E\<^sup>+ \<and> (\<forall>y. (x, y) \<in> E \<longrightarrow> c y = Some 2))"

definition on_path :: "(string \<times> string) set \<Rightarrow> colors \<Rightarrow> string \<Rightarrow> bool" where
  "on_path E c x \<longleftrightarrow> (\<forall>g. c g = Some 1 \<longrightarrow> (g, x) \<in> E\<^sup>+)"

text \<open>The outcome of visiting the names \<open>xs\<close> one after the other.\<close>

definition visits :: "(string \<times> string) set \<Rightarrow> colors \<Rightarrow> 'k report \<Rightarrow> string list \<Rightarrow> (unit, colors \<times> 'k report) res \<Rightarrow> bool" where
  "visits E c rep xs r \<longleftrightarrow> (\<exists>c' ns. r = Inr (c', add_cycles ns rep) \<and> advances c c'
     \<and> (\<forall>m \<in> set ns. (m, m) \<in> E\<^sup>+)
     \<and> (ns = [] \<longrightarrow> done_ok E c \<longrightarrow> done_ok E c' \<and> (\<forall>x \<in> set xs. c' x = Some 2)))"

lemma advances_refl: "ran c \<subseteq> {1, 2} \<Longrightarrow> advances c c"
  by (simp add: advances_def)

lemma advances_trans: "advances a b \<Longrightarrow> advances b c \<Longrightarrow> advances a c"
  by (simp add: advances_def)

lemma advances_ran: "advances c c' \<Longrightarrow> ran c' \<subseteq> {1, 2}"
  by (simp add: advances_def)

lemma advances_dom: "advances c c' \<Longrightarrow> ran c \<subseteq> {1, 2} \<Longrightarrow> dom c \<subseteq> dom c'"
proof
  fix x
  assume a: "advances c c'" "ran c \<subseteq> {1, 2}" "x \<in> dom c"
  then have "c x = Some 1 \<or> c x = Some 2"
    by (auto simp: ran_def)
  with a(1) show "x \<in> dom c'"
    by (auto simp: advances_def dom_def)
qed

lemma on_path_advances: "advances c c' \<Longrightarrow> on_path E c x \<Longrightarrow> on_path E c' x"
  by (simp add: advances_def on_path_def)

lemma visits_still:
  assumes "ran c \<subseteq> {1, 2}" and "\<forall>x \<in> set xs. c x = Some 2"
  shows "visits E c rep xs (Inr (c, rep))"
  unfolding visits_def using assms advances_refl [of c] by (intro exI [of _ c] exI [of _ "[]"]) auto

lemma visits_fold:
  assumes fin: "finite (dom m)"
    and visit: "\<And>x c rep. \<lbrakk>x \<in> set xs; ran c \<subseteq> {1, 2}; on_path E c x; card (dom m - dom c) < n\<rbrakk>
      \<Longrightarrow> visits E c rep [x] (f x (c, rep :: 'k report))"
    and "ran c \<subseteq> {1, 2}" and "\<forall>x \<in> set xs. on_path E c x" and "card (dom m - dom c) < n"
  shows "visits E c rep xs (fold_result f xs (c, rep))"
  using assms(2-)
proof (induction xs arbitrary: c rep)
  case Nil
  then show ?case by (simp add: visits_still del: One_nat_def)
next
  case (Cons x xs)
  have "visits E c rep [x] (f x (c, rep))"
    using Cons.prems by simp
  then obtain c1 ns1 where r1: "f x (c, rep) = Inr (c1, add_cycles ns1 rep)" and a1: "advances c c1"
    and m1: "\<forall>m \<in> set ns1. (m, m) \<in> E\<^sup>+"
    and d1: "ns1 = [] \<longrightarrow> done_ok E c \<longrightarrow> done_ok E c1 \<and> c1 x = Some 2"
    by (auto simp: visits_def)
  have "visits E c1 (add_cycles ns1 rep) xs (fold_result f xs (c1, add_cycles ns1 rep))"
  proof (rule Cons.IH)
    show "\<forall>x \<in> set xs. on_path E c1 x"
      using Cons.prems(3) on_path_advances [OF a1] by simp
    show "card (dom m - dom c1) < n"
      using unvisited_mono [OF fin advances_dom [OF a1 Cons.prems(2)] Cons.prems(4)] .
  qed (use Cons.prems(1) advances_ran [OF a1] in simp_all)
  then obtain c2 ns2 where r2: "fold_result f xs (c1, add_cycles ns1 rep) = Inr (c2, add_cycles ns2 (add_cycles ns1 rep))"
    and a2: "advances c1 c2" and m2: "\<forall>m \<in> set ns2. (m, m) \<in> E\<^sup>+"
    and d2: "ns2 = [] \<longrightarrow> done_ok E c1 \<longrightarrow> done_ok E c2 \<and> (\<forall>x \<in> set xs. c2 x = Some 2)"
    by (auto simp: visits_def)
  show ?case
    unfolding visits_def
  proof (intro exI conjI)
    show "fold_result f (x # xs) (c, rep) = Inr (c2, add_cycles (ns1 @ ns2) rep)"
      by (simp add: r1 r2 add_cycles_append)
    show "advances c c2"
      using a1 a2 by (rule advances_trans)
    show "ns1 @ ns2 = [] \<longrightarrow> done_ok E c \<longrightarrow> done_ok E c2 \<and> (\<forall>x \<in> set (x # xs). c2 x = Some 2)"
      using d1 d2 a2 by (auto simp: advances_def)
  qed (use m1 m2 in auto)
qed

text \<open>From a done node only done nodes are reached.\<close>

lemma done_ok_closed: "(x, y) \<in> E\<^sup>* \<Longrightarrow> done_ok E c \<Longrightarrow> c x = Some 2 \<Longrightarrow> c y = Some 2"
  by (induction rule: rtrancl_induct) (auto simp: done_ok_def)

lemma done_ok_finish:
  assumes "done_ok E c" and "c x = Some 1" and "\<forall>y. (x, y) \<in> E \<longrightarrow> c y = Some 2"
  shows "done_ok E (c(x \<mapsto> 2))"
proof -
  have "(x, x) \<notin> E\<^sup>+"
  proof
    assume "(x, x) \<in> E\<^sup>+"
    then obtain y where "(x, y) \<in> E" "(y, x) \<in> E\<^sup>*"
      by (meson tranclD)
    then have "c x = Some 2"
      using assms(1,3) done_ok_closed by blast
    then show False
      using assms(2) by simp
  qed
  then show ?thesis
    using assms by (auto simp: done_ok_def)
qed

lemma visit_cycle_visits:
  assumes "finite (dom by_name)" and "name \<in> dom by_name" and "ran c \<subseteq> {1, 2}"
    and "on_path (import_graph by_name) c name" and "card (dom by_name - dom c) < n"
  shows "visits (import_graph by_name) c rep [name] (visit_cycle n by_name name (c, rep :: 'k report))"
  using assms
proof (induction n arbitrary: name c rep)
  case (Suc n)
  let ?E = "import_graph by_name"
  consider (black) "c name = Some 2" | (grey) "c name = Some 1" | (white) "c name = None"
    using Suc.prems(3) by (cases "c name") (auto simp: ran_def)
  then show ?case
  proof cases
    case black
    then show ?thesis
      using Suc.prems(3) by (simp add: visits_still del: One_nat_def)
  next
    case grey
    then have "(name, name) \<in> ?E\<^sup>+"
      using Suc.prems(4) by (simp add: on_path_def)
    then show ?thesis
      using grey Suc.prems(3) by (auto simp: visits_def add_cycles_def intro!: advances_refl exI [of _ "[name]"])
  next
    case white
    let ?c = "c(name \<mapsto> 1)" and ?ps = "known_imports by_name name"
    have "visits ?E ?c rep ?ps (fold_result (visit_cycle n by_name) ?ps (?c, rep))"
    proof (rule visits_fold [OF Suc.prems(1)])
      show "\<forall>p \<in> set ?ps. on_path ?E ?c p"
      proof
        fix p
        assume "p \<in> set ?ps"
        then have "(name, p) \<in> ?E"
          by (simp add: import_graph_def)
        then show "on_path ?E ?c p"
          using Suc.prems(4) by (auto simp: on_path_def intro: trancl_into_trancl)
      qed
      show "card (dom by_name - dom ?c) < n"
        using unvisited_less [OF Suc.prems(1,2) _ Suc.prems(5)] white by auto
      show "ran ?c \<subseteq> {1, 2}"
        using Suc.prems(3) by (auto simp: ran_def)
    qed (use Suc.IH [OF Suc.prems(1)] known_imports_in_dom in blast)
    then obtain c2 ns where r: "fold_result (visit_cycle n by_name) ?ps (?c, rep) = Inr (c2, add_cycles ns rep)"
      and a: "advances ?c c2" and m: "\<forall>m \<in> set ns. (m, m) \<in> ?E\<^sup>+"
      and d: "ns = [] \<longrightarrow> done_ok ?E ?c \<longrightarrow> done_ok ?E c2 \<and> (\<forall>p \<in> set ?ps. c2 p = Some 2)"
      by (auto simp: visits_def)
    have c2: "c2 name = Some 1"
      using a by (simp add: advances_def)
    show ?thesis
      unfolding visits_def
    proof (intro exI conjI)
      show "visit_cycle (Suc n) by_name name (c, rep) = Inr (c2(name \<mapsto> 2), add_cycles ns rep)"
        using white by (simp add: r del: One_nat_def)
      show "advances c (c2(name \<mapsto> 2))"
        using a white by (auto simp: advances_def ran_def)
      have "done_ok ?E (c2(name \<mapsto> 2))" if "ns = []" "done_ok ?E c"
      proof (rule done_ok_finish [where c = c2, OF _ c2])
        have "done_ok ?E ?c"
          using that(2) white by (auto simp: done_ok_def)
        then show "done_ok ?E c2" "\<forall>y. (name, y) \<in> ?E \<longrightarrow> c2 y = Some 2"
          using d that(1) by (auto simp: import_graph_def)
      qed
      then show "ns = [] \<longrightarrow> done_ok ?E c \<longrightarrow> done_ok ?E (c2(name \<mapsto> 2)) \<and> (\<forall>x \<in> set [name]. (c2(name \<mapsto> 2)) x = Some 2)"
        by simp
    qed (rule m)
  qed
qed simp

lemma detect_import_cycles_spec:
  assumes i: "index_files files = (m, rep0 :: 'k report)"
  shows "\<exists>ns. detect_import_cycles files m rep = Inr (add_cycles ns rep)
    \<and> set ns \<subseteq> {x. (x, x) \<in> (import_graph m)\<^sup>+} \<and> (ns = [] \<longleftrightarrow> acyclic (import_graph m))"
proof -
  let ?E = "import_graph m" and ?f = "visit_cycle (Suc (length files)) m"
  have "visits ?E (\<lambda>_. None) rep (map f_name files) (fold_result ?f (map f_name files) (\<lambda>_. None, rep))"
    using card_index_files [OF i] finite_index_files [OF i] dom_index_files [OF i]
    by (intro visits_fold [where m = m and n = "Suc (length files)"] visit_cycle_visits) (auto simp: on_path_def)
  then obtain c ns where r: "fold_result ?f (map f_name files) (\<lambda>_. None, rep) = Inr (c, add_cycles ns rep)"
    and cyc: "\<forall>m \<in> set ns. (m, m) \<in> ?E\<^sup>+"
    and d: "ns = [] \<Longrightarrow> done_ok ?E c \<and> (\<forall>x \<in> dom m. c x = Some 2)"
    by (auto simp: visits_def done_ok_def dom_index_files [OF i])
  have "acyclic ?E" if "ns = []"
    unfolding acyclic_def
  proof (intro allI notI)
    fix x
    assume x: "(x, x) \<in> ?E\<^sup>+"
    then have "x \<in> dom m"
      by (meson tranclD import_graph_in_dom)
    with x d [OF that] show False
      by (simp add: done_ok_def)
  qed
  then have "ns = [] \<longleftrightarrow> acyclic ?E"
    using cyc by (cases ns) (auto simp: acyclic_def)
  with r cyc show ?thesis
    by (auto simp: detect_import_cycles_def fold_result_map)
qed

text \<open>
  C35: On a set of files the search for import cycles always ends. It adds one error for
  each of some files that lie on an import cycle, and it adds none exactly when the import graph of
  the set is acyclic.
\<close>

theorem import_cycles_exact:
  "case index_files files of (by_name, rep :: 'k report) \<Rightarrow>
     \<exists>ns. detect_import_cycles files by_name rep = Inr (add_cycles ns rep)
       \<and> set ns \<subseteq> {m. (m, m) \<in> (import_graph by_name)\<^sup>+}
       \<and> (ns = [] \<longleftrightarrow> acyclic (import_graph by_name))"
proof (cases "index_files files :: file_index \<times> 'k report")
  case (Pair m rep)
  show ?thesis
    unfolding Pair prod.case by (rule detect_import_cycles_spec [OF Pair])
qed

section \<open>Visibility\<close>

text \<open>What is visible over the files \<open>ps\<close>: themselves and what they re-export.\<close>

definition reach :: "(string \<times> string) set \<Rightarrow> string list \<Rightarrow> string set" where
  "reach P ps = (\<Union>p \<in> set ps. insert p (P\<^sup>+ `` {p}))"

definition approximates :: "(string \<times> string) set \<Rightarrow> string set \<Rightarrow> string set \<Rightarrow> bool" where
  "approximates P s t \<longleftrightarrow> s \<subseteq> t \<and> (acyclic P \<longrightarrow> s = t)"

lemma approximates_empty [simp]: "approximates P {} {}"
  by (simp add: approximates_def)

lemma approximates_Un: "approximates P a b \<Longrightarrow> approximates P s t \<Longrightarrow> approximates P (a \<union> s) (b \<union> t)"
  by (auto simp: approximates_def)

lemma approximates_insert: "approximates P a b \<Longrightarrow> approximates P (insert p a) (insert p b)"
  by (auto simp: approximates_def)

lemma reach_simps [simp]:
  "reach P [] = {}" "reach P (p # ps) = insert p (P\<^sup>+ `` {p}) \<union> reach P ps"
  by (simp_all add: reach_def)

lemma public_graph_iff: "(a, b) \<in> public_graph m \<longleftrightarrow> b \<in> set (public_imports m a)"
  by (simp add: public_graph_def)

lemma trancl_reach: "(public_graph m)\<^sup>+ `` {a} = reach (public_graph m) (public_imports m a)"
proof -
  have "(a, c) \<in> (public_graph m)\<^sup>+ \<longleftrightarrow> c \<in> reach (public_graph m) (public_imports m a)" for c
    by (auto simp: reach_def simp flip: public_graph_iff elim!: converse_tranclE [of a] intro: trancl_into_trancl2)
  then show ?thesis by auto
qed

text \<open>
  The memo holds what was computed; \<open>None\<close> in it marks a node in progress, which the traversal
  reaches again only over a cycle.
\<close>

definition memo_ok :: "(string \<times> string) set \<Rightarrow> memo \<Rightarrow> bool" where
  "memo_ok P memo \<longleftrightarrow> (\<forall>x s. memo x = Some (Some s) \<longrightarrow> approximates P s (P\<^sup>+ `` {x}))"

definition memo_step :: "memo \<Rightarrow> memo \<Rightarrow> bool" where
  "memo_step a b \<longleftrightarrow> dom a \<subseteq> dom b \<and> (\<forall>x. b x = Some None \<longleftrightarrow> a x = Some None)"

definition memo_path :: "(string \<times> string) set \<Rightarrow> memo \<Rightarrow> string \<Rightarrow> bool" where
  "memo_path P memo x \<longleftrightarrow> (\<forall>g. memo g = Some None \<longrightarrow> (g, x) \<in> P\<^sup>+)"

definition gathers :: "(string \<times> string) set \<Rightarrow> memo \<Rightarrow> string set \<Rightarrow> (unit, string set \<times> memo) res \<Rightarrow> bool" where
  "gathers P memo t r \<longleftrightarrow> (\<exists>s memo'. r = Inr (s, memo') \<and> approximates P s t \<and> memo_ok P memo' \<and> memo_step memo memo')"

lemma memo_step_refl [simp]: "memo_step a a"
  by (simp add: memo_step_def)

lemma memo_step_trans: "memo_step a b \<Longrightarrow> memo_step b c \<Longrightarrow> memo_step a c"
  unfolding memo_step_def by (meson order_trans)

lemma memo_path_step: "memo_step a b \<Longrightarrow> memo_path P a x \<Longrightarrow> memo_path P b x"
  by (simp add: memo_step_def memo_path_def)

text \<open>The loop body that both traversals run on a path.\<close>

abbreviation gather :: "nat \<Rightarrow> file_index \<Rightarrow> string \<Rightarrow> string set \<times> memo \<Rightarrow> (unit, string set \<times> memo) res" where
  "gather n m p st \<equiv> (case st of (acc, memo) \<Rightarrow>
     bind_result (reexported_of n m p memo) (\<lambda>(s, memo). Inr (insert p (acc \<union> s), memo)))"

lemma gather_fold:
  assumes fin: "finite (dom m)"
    and one: "\<And>p memo. \<lbrakk>p \<in> set ps; memo_ok P memo; memo_path P memo p; card (dom m - dom memo) < n\<rbrakk>
      \<Longrightarrow> gathers P memo (P\<^sup>+ `` {p}) (reexported_of n m p memo)"
    and "memo_ok P memo" and "\<forall>p \<in> set ps. memo_path P memo p" and "card (dom m - dom memo) < n"
    and "approximates P acc t"
  shows "gathers P memo (t \<union> reach P ps) (fold_result (gather n m) ps (acc, memo))"
  using assms(2-)
proof (induction ps arbitrary: acc memo t)
  case Nil
  then show ?case by (simp add: gathers_def)
next
  case (Cons p ps)
  have "gathers P memo (P\<^sup>+ `` {p}) (reexported_of n m p memo)"
    using Cons.prems by simp
  then obtain s memo1 where r: "reexported_of n m p memo = Inr (s, memo1)"
    and s: "approximates P s (P\<^sup>+ `` {p})" and ok: "memo_ok P memo1" and st: "memo_step memo memo1"
    by (auto simp: gathers_def)
  have "gathers P memo1 (insert p (t \<union> P\<^sup>+ `` {p}) \<union> reach P ps)
      (fold_result (gather n m) ps (insert p (acc \<union> s), memo1))"
  proof (rule Cons.IH)
    show "\<forall>p \<in> set ps. memo_path P memo1 p"
      using Cons.prems(3) memo_path_step [OF st] by simp
    show "card (dom m - dom memo1) < n"
      using st unvisited_mono [OF fin _ Cons.prems(4), of memo1] by (simp add: memo_step_def)
    show "approximates P (insert p (acc \<union> s)) (insert p (t \<union> P\<^sup>+ `` {p}))"
      using Cons.prems(5) s by (intro approximates_Un approximates_insert)
  qed (use Cons.prems(1) ok in simp_all)
  moreover have "t \<union> reach P (p # ps) = insert p (t \<union> P\<^sup>+ `` {p}) \<union> reach P ps"
    by auto
  ultimately show ?case
    using memo_step_trans [OF st] by (auto simp: r gathers_def)
qed

lemma reexported_of_gathers:
  assumes "finite (dom m)" and "name \<in> dom m" and "memo_ok (public_graph m) memo"
    and "memo_path (public_graph m) memo name" and "card (dom m - dom memo) < n"
  shows "gathers (public_graph m) memo ((public_graph m)\<^sup>+ `` {name}) (reexported_of n m name memo)"
  using assms
proof (induction n arbitrary: name memo)
  case (Suc n)
  let ?P = "public_graph m" and ?ps = "public_imports m name"
  consider (old) s where "memo name = Some (Some s)" | (loop) "memo name = Some None" | (fresh) "memo name = None"
    by (metis not_None_eq)
  then show ?case
  proof cases
    case (old s)
    then show ?thesis
      using Suc.prems(3) by (simp add: gathers_def memo_ok_def)
  next
    case loop
    then have "(name, name) \<in> ?P\<^sup>+"
      using Suc.prems(4) by (simp add: memo_path_def)
    then have "approximates ?P {} (?P\<^sup>+ `` {name})"
      by (auto simp: approximates_def acyclic_def)
    then show ?thesis
      using loop Suc.prems(3) by (simp add: gathers_def)
  next
    case fresh
    let ?memo = "memo(name \<mapsto> None)"
    have "gathers ?P ?memo ({} \<union> reach ?P ?ps) (fold_result (gather n m) ?ps ({}, ?memo))"
    proof (rule gather_fold [OF Suc.prems(1)])
      show "memo_ok ?P ?memo"
        using Suc.prems(3) by (simp add: memo_ok_def)
      show "\<forall>p \<in> set ?ps. memo_path ?P ?memo p"
        using Suc.prems(4) by (auto simp: memo_path_def simp flip: public_graph_iff intro: trancl_into_trancl)
      show "card (dom m - dom ?memo) < n"
        using unvisited_less [OF Suc.prems(1,2) _ Suc.prems(5)] fresh by auto
    qed (use Suc.IH [OF Suc.prems(1)] public_imports_in_dom in simp_all)
    then obtain acc memo1 where r: "fold_result (gather n m) ?ps ({}, ?memo) = Inr (acc, memo1)"
      and a: "approximates ?P acc (?P\<^sup>+ `` {name})" and ok: "memo_ok ?P memo1" and st: "memo_step ?memo memo1"
      by (auto simp: gathers_def trancl_reach)
    have "memo_ok ?P (memo1(name \<mapsto> Some acc))"
      using ok a by (simp add: memo_ok_def)
    moreover have "memo_step memo (memo1(name \<mapsto> Some acc))"
      using st fresh by (auto simp: memo_step_def)
    ultimately show ?thesis
      using a fresh by (auto simp: gathers_def r)
  qed
qed simp

lemma visible_from_gather:
  "visible_from n m f memo =
   fold_result (gather n m) (filter (\<lambda>p. m p \<noteq> None) (map imp_path (f_imports f))) ({}, memo)"
proof -
  have "fold_result (\<lambda>imp (vis, memo).
         if m (imp_path imp) = None then Inr (vis, memo)
         else bind_result (reexported_of n m (imp_path imp) memo)
                (\<lambda>(s, memo). Inr (insert (imp_path imp) (vis \<union> s), memo))) imps st
      = fold_result (gather n m) (filter (\<lambda>p. m p \<noteq> None) (map imp_path imps)) st" for imps st
    by (induction imps arbitrary: st) (auto simp: case_prod_beta intro!: bind_result_cong)
  then show ?thesis
    by (simp add: visible_from_def)
qed

text \<open>
  The files \<open>f\<close> sees, against its direct imports and their public closure.
\<close>

definition sees :: "file_index \<Rightarrow> span proto_file \<Rightarrow> string set \<Rightarrow> bool" where
  "sees m f s \<longleftrightarrow> approximates (public_graph m) s
     (reach (public_graph m) (filter (\<lambda>p. m p \<noteq> None) (map imp_path (f_imports f))))"

lemma visible_from_sees:
  assumes "finite (dom m)" and "memo_ok (public_graph m) memo" and "None \<notin> ran memo"
    and "card (dom m) < n"
  obtains s memo' where "visible_from n m f memo = Inr (s, memo')" and "sees m f s"
    and "memo_ok (public_graph m) memo'" and "None \<notin> ran memo'"
proof -
  let ?ps = "filter (\<lambda>p. m p \<noteq> None) (map imp_path (f_imports f))"
  have idle: "memo_path (public_graph m) memo p" for p
    using assms(3) by (auto simp: memo_path_def ran_def)
  have less: "card (dom m - dom memo) < n"
    using unvisited_mono [OF assms(1), of Map.empty memo n] assms(4) by simp
  have "gathers (public_graph m) memo ({} \<union> reach (public_graph m) ?ps) (fold_result (gather n m) ?ps ({}, memo))"
    using assms(2) idle less
    by (intro gather_fold [OF assms(1)] reexported_of_gathers [OF assms(1)]) auto
  then show thesis
    using that assms(3) by (auto simp: gathers_def visible_from_gather sees_def memo_step_def ran_def)
qed

text \<open>The loop over the files: the last file of a name counts, in the index and in the result.\<close>

lemma visibility_loop:
  assumes "finite (dom m)" and "card (dom m) < n" and "memo_ok (public_graph m) memo" and "None \<notin> ran memo"
    and "\<forall>x. rel_option (sees m) (idx x) (out x)"
  shows "\<exists>out' memo'. fold_result (\<lambda>f (out, memo).
      bind_result (visible_from n m f memo) (\<lambda>(vis, memo). Inr (out(f_name f \<mapsto> vis), memo))) files (out, memo)
      = Inr (out', memo')
    \<and> (\<forall>x. rel_option (sees m) (fst (fold index_file files (idx, rep)) x) (out' x))"
  using assms(3-)
proof (induction files arbitrary: memo idx out rep)
  case (Cons f files)
  obtain s memo1 where r: "visible_from n m f memo = Inr (s, memo1)" and s: "sees m f s"
    and memo1: "memo_ok (public_graph m) memo1" "None \<notin> ran memo1"
    using visible_from_sees [OF assms(1) Cons.prems(1,2) assms(2)] .
  have "\<forall>x. rel_option (sees m) ((idx(f_name f \<mapsto> f)) x) ((out(f_name f \<mapsto> s)) x)"
    using s Cons.prems(3) by simp
  note rest = Cons.IH [OF memo1 this]
  obtain rep' where "index_file f (idx, rep) = (idx(f_name f \<mapsto> f), rep')"
    by (simp add: index_file_def)
  then show ?case
    using rest [of rep'] by (simp add: r del: fun_upd_apply)
qed auto

lemma compute_visibility_spec:
  assumes i: "index_files files = (m, rep0 :: 'k report)"
  shows "\<exists>vis. compute_visibility files m rep = Inr (vis, report_missing files m rep) \<and> dom vis = dom m
    \<and> (\<forall>name f s. m name = Some f \<and> vis name = Some s \<longrightarrow>
         s \<subseteq> reach (public_graph m) (known_imports m name)
         \<and> (acyclic (public_graph m) \<longrightarrow> s = reach (public_graph m) (known_imports m name)))"
proof -
  obtain vis memo where r: "fold_result (\<lambda>f (out, memo).
      bind_result (visible_from (Suc (length files)) m f memo) (\<lambda>(vis, memo). Inr (out(f_name f \<mapsto> vis), memo)))
        files (\<lambda>_. None, \<lambda>_. None) = Inr (vis, memo)"
    and v: "\<forall>x. rel_option (sees m) (fst (fold index_file files (\<lambda>_. None, report_empty :: 'k report)) x) (vis x)"
    using visibility_loop [OF finite_index_files [OF i] card_index_files [OF i], of "\<lambda>_. None" "\<lambda>_. None" "\<lambda>_. None" files
        "report_empty :: 'k report"]
    by (auto simp: memo_ok_def)
  have rel: "rel_option (sees m) (m x) (vis x)" for x
    using v i by (simp add: index_files_def)
  have "sees m f s" if "m x = Some f" "vis x = Some s" for x f s
    using rel [of x] that by simp
  moreover have "known_imports m x = filter (\<lambda>p. m p \<noteq> None) (map imp_path (f_imports f))" if "m x = Some f" for x f
    using that by (simp add: known_imports_def)
  moreover have "dom vis = dom m"
    using rel by (metis (mono_tags, lifting) domIff option.rel_sel Collect_cong dom_def)
  ultimately show ?thesis
    by (simp add: compute_visibility_def Let_def r sees_def approximates_def) blast
qed

text \<open>
  C36: Visibility is always computed. Each file of the pool sees only files that it imports
  directly or that a direct import re-exports over a chain of public imports; it sees
  all of these when no public imports form a cycle.
\<close>

theorem visibility_exact:
  "case index_files files of (by_name, rep :: 'k report) \<Rightarrow>
     \<exists>vis. compute_visibility files by_name rep = Inr (vis, report_missing files by_name rep)
       \<and> dom vis = dom by_name
       \<and> (\<forall>name f s. by_name name = Some f \<and> vis name = Some s \<longrightarrow>
            s \<subseteq> reach (public_graph by_name) (known_imports by_name name)
            \<and> (acyclic (public_graph by_name) \<longrightarrow> s = reach (public_graph by_name) (known_imports by_name name)))"
proof (cases "index_files files :: file_index \<times> 'k report")
  case (Pair m rep)
  show ?thesis
    unfolding Pair prod.case by (rule compute_visibility_spec [OF Pair])
qed

definition import_file :: "string \<Rightarrow> (string \<times> import_kind) list \<Rightarrow> span proto_file" where
  "import_file name imps = File name None None None (map (\<lambda>(p, k). Import Span_default p k) imps) [] [] [] [] []"

definition sample_files :: "span proto_file list" where
  "sample_files = [import_file ''m'' [(''a'', ImportDefault)], import_file ''a'' [(''b'', ImportPublic)],
     import_file ''b'' [], import_file ''n'' [(''m'', ImportDefault)]]"

definition sample_index :: file_index where
  "sample_index = [''m'' \<mapsto> import_file ''m'' [(''a'', ImportDefault)], ''a'' \<mapsto> import_file ''a'' [(''b'', ImportPublic)],
     ''b'' \<mapsto> import_file ''b'' [], ''n'' \<mapsto> import_file ''n'' [(''m'', ImportDefault)]]"

lemma index_sample: "index_files sample_files = (sample_index, report_empty)"
  by (simp add: index_files_def sample_files_def sample_index_def index_file_def import_file_def)

lemma imports_sample:
  "known_imports sample_index ''m'' = [''a'']" "known_imports sample_index ''n'' = [''m'']"
  "public_imports sample_index x = (if x = ''a'' then [''b''] else [])"
  by (simp_all add: known_imports_def public_imports_def sample_index_def import_file_def)

lemma public_sample: "public_graph sample_index = {(''a'', ''b'')}"
  by (auto simp: public_graph_def imports_sample split: if_splits)

theorem visibility_exact_witness:
  "case index_files sample_files of (by_name, rep :: unit report) \<Rightarrow>
     \<exists>vis. compute_visibility sample_files by_name rep = Inr (vis, rep)
       \<and> vis ''m'' = Some {''a'', ''b''} \<and> vis ''n'' = Some {''m''}"
proof -
  have acyc: "acyclic (public_graph sample_index)"
    by (simp add: public_sample acyclic_insert acyclicI)
  have closure: "(public_graph sample_index)\<^sup>+ `` {x} = (if x = ''a'' then {''b''} else {})" for x
    by (simp add: trancl_reach imports_sample)
  have quiet: "report_missing sample_files sample_index rep = rep" for rep :: "unit report"
    by (simp add: report_missing_def sample_files_def missing_import_def import_file_def sample_index_def)
  obtain vis where vis: "compute_visibility sample_files sample_index (report_empty :: unit report) = Inr (vis, report_empty)"
    and d: "dom vis = dom sample_index"
    and s: "\<And>name f s. sample_index name = Some f \<Longrightarrow> vis name = Some s \<Longrightarrow>
      s = reach (public_graph sample_index) (known_imports sample_index name)"
    using visibility_exact [of sample_files, where 'k = unit] acyc by (simp add: index_sample quiet) blast
  have in_index: "''m'' \<in> dom sample_index" "''n'' \<in> dom sample_index"
    by (simp_all add: sample_index_def)
  then obtain f g where fg: "sample_index ''m'' = Some f" "sample_index ''n'' = Some g"
    by blast
  moreover obtain u v where uv: "vis ''m'' = Some u" "vis ''n'' = Some v"
    using in_index d by blast
  ultimately have "u = {''a'', ''b''}" "v = {''m''}"
    using s [OF fg(1) uv(1)] s [OF fg(2) uv(2)] by (simp_all add: imports_sample closure)
  with uv vis show ?thesis
    by (simp add: index_sample)
qed

end
