(* ===== verification/Type_Resolution.thy ===== *)
theory Type_Resolution
  imports Import_Graph
begin

text \<open>
  What a compilation without unknown-type errors guarantees: every type a field or a method
  refers to is the absolute name of a message or enum declared in the file itself, in a
  file it imports or in one these re-export.
\<close>

section \<open>Loops and the absence of unknown-type errors\<close>

definition clean :: "'k report \<Rightarrow> bool" where
  "clean rep \<longleftrightarrow> (\<forall>d \<in> set (rp_diags rep). dg_code d \<noteq> UnknownType)"

lemma clean_add_note [simp]: "clean (add_note file d rep) \<longleftrightarrow> clean rep \<and> dg_code d \<noteq> UnknownType"
  by (auto simp: clean_def add_note_def diag_push_def)

lemma clean_note_error [simp]: "clean (note_error code msg file sp rep) \<longleftrightarrow> clean rep \<and> code \<noteq> UnknownType"
  by (simp add: note_error_def Diagnostic_error_def)

lemma clean_note_warning [simp]: "clean (note_warning code msg file sp rep) \<longleftrightarrow> clean rep \<and> code \<noteq> UnknownType"
  by (simp add: note_warning_def Diagnostic_warning_def)

lemma fold_clean: "(\<And>x s. x \<in> set xs \<Longrightarrow> clean (f x s) \<Longrightarrow> clean s) \<Longrightarrow> clean (fold f xs s) \<Longrightarrow> clean s"
  by (induction xs arbitrary: s) auto

lemma thread_clean:
  assumes "\<And>x s. x \<in> set xs \<Longrightarrow> clean (snd (f x s)) \<Longrightarrow> clean s \<and> R x (fst (f x s))"
    and "clean (snd (thread f xs s))"
  shows "clean s \<and> list_all2 R xs (fst (thread f xs s))"
  using assms
proof (induction xs arbitrary: s)
  case (Cons x xs)
  have "clean (snd (f x s)) \<and> list_all2 R xs (fst (thread f xs (snd (f x s))))"
    using Cons.prems(2) by (intro Cons.IH Cons.prems(1)) (simp_all add: case_prod_beta Let_def)
  then show ?case
    using Cons.prems(1) [of x s] by (simp add: case_prod_beta Let_def)
qed simp

lemma thread_all:
  assumes "\<And>x s. x \<in> set xs \<Longrightarrow> R x (fst (f x s))"
  shows "list_all2 R xs (fst (thread f xs s))"
  using assms by (induction xs arbitrary: s) (simp_all add: case_prod_beta Let_def)

lemma list_all2_ball: "list_all2 R xs ys \<Longrightarrow> (\<And>x y. x \<in> set xs \<Longrightarrow> R x y \<Longrightarrow> Q y) \<Longrightarrow> \<forall>y \<in> set ys. Q y"
  by (induction rule: list_all2_induct) auto

lemma list_all2_image: "list_all2 (\<lambda>x y. \<forall>p. g p y = g p x) xs ys \<Longrightarrow> g p ` set ys = g p ` set xs"
  by (induction rule: list_all2_induct) auto

lemma list_all2_const: "list_all2 (\<lambda>_. Q) xs ys \<Longrightarrow> \<forall>y \<in> set ys. Q y"
  by (induction rule: list_all2_induct) auto

section \<open>Declared names and typed descriptors\<close>

fun declared_in :: "string \<Rightarrow> DescriptorProto \<Rightarrow> string set" where
  "declared_in prefix (DescriptorProto own inner) =
     (let fqn = qualify prefix (or_empty (msg_name own))
      in insert fqn (\<Union> (declared_in fqn ` set inner)
           \<union> (\<lambda>e. qualify fqn (or_empty (en_name e))) ` set (msg_enum_type own)))"

definition declared_names :: "FileDescriptorProto \<Rightarrow> string set" where
  "declared_names fd =
     (let pkg = or_empty (file_package fd)
      in \<Union> (declared_in pkg ` set (file_message_type fd))
         \<union> (\<lambda>e. qualify pkg (or_empty (en_name e))) ` set (file_enum_type fd))"

definition field_typed :: "string set \<Rightarrow> FieldDescriptorProto \<Rightarrow> bool" where
  "field_typed V f \<longleftrightarrow> (references_type (fld_type f) \<longrightarrow> (\<exists>t \<in> V. fld_type_name f = Some t))"

fun message_typed :: "string set \<Rightarrow> DescriptorProto \<Rightarrow> bool" where
  "message_typed V (DescriptorProto own inner) \<longleftrightarrow>
     (\<forall>f \<in> set (msg_field own). field_typed V f) \<and> (\<forall>d \<in> set inner. message_typed V d)"

definition service_typed :: "string set \<Rightarrow> ServiceDescriptorProto \<Rightarrow> bool" where
  "service_typed V s \<longleftrightarrow> (\<forall>m \<in> set (svc_method s). set_option (mth_input_type m) \<union> set_option (mth_output_type m) \<subseteq> V)"

definition file_typed :: "string set \<Rightarrow> FileDescriptorProto \<Rightarrow> bool" where
  "file_typed V fd \<longleftrightarrow> (\<forall>m \<in> set (file_message_type fd). message_typed V m) \<and> (\<forall>s \<in> set (file_service fd). service_typed V s)"

section \<open>The conversion names every referenced type\<close>

text \<open>\<open>UNIV\<close> as the visible names: the references have a name at all.\<close>

lemma resolve_type_named: "references_type (Some (fst (resolve_type ty es ms))) \<Longrightarrow> snd (resolve_type ty es ms) \<noteq> None"
proof (cases ty)
  case (TScalar s)
  then show "references_type (Some (fst (resolve_type ty es ms))) \<Longrightarrow> ?thesis"
    by (cases s) (simp_all add: references_type_def)
qed (simp add: Let_def)

lemma field_typed_UNIV: "field_typed UNIV f \<longleftrightarrow> (references_type (fld_type f) \<longrightarrow> fld_type_name f \<noteq> None)"
  by (auto simp: field_typed_def)

lemma convert_field_named: "field_typed UNIV (fst (convert_field es ms syn f ds))"
  using resolve_type_named [of "fd_ty f" es ms] by (simp add: convert_field_def field_typed_UNIV Let_def case_prod_beta)

lemma convert_oneof_field_named: "field_typed UNIV (fst (convert_oneof_field es ms syn i f ds))"
  using convert_field_named [of es ms syn f ds] by (simp add: convert_oneof_field_def field_typed_UNIV Let_def case_prod_beta)

lemma convert_oneofs_named: "\<forall>f \<in> set (fst (convert_oneofs es ms syn oneofs (ds :: 'k diagnostics))). field_typed UNIV f"
proof -
  have "\<forall>f \<in> set (fst (thread (convert_oneof_field es ms syn i) fs ds)). field_typed UNIV f" for i fs and ds :: "'k diagnostics"
    by (rule list_all2_ball [OF thread_all [where R = "\<lambda>_. field_typed UNIV"]]) (rule convert_oneof_field_named)
  then have "\<forall>fs \<in> set (fst (thread (\<lambda>(i, o'). thread (convert_oneof_field es ms syn i) (oo_fields o')) xs ds)).
      \<forall>f \<in> set fs. field_typed UNIV f" for xs :: "(nat \<times> span oneof) list"
    by (intro list_all2_ball [OF thread_all [where R = "\<lambda>_ fs. \<forall>f \<in> set fs. field_typed UNIV f"]]) auto
  then show ?thesis
    by (simp add: convert_oneofs_def case_prod_beta)
qed

lemma convert_map_named:
  "message_typed UNIV (fst (fst (convert_map es ms path mf ds))) \<and> field_typed UNIV (snd (fst (convert_map es ms path mf ds)))"
  using resolve_type_named [of "mf_key mf" es ms] resolve_type_named [of "mf_value mf" es ms]
  by (simp add: convert_map_def field_typed_UNIV references_type_def FieldDescriptorProto_default_def
      DescriptorProto_default_def Let_def case_prod_beta)

lemma convert_message_named: "message_typed UNIV (fst (convert_message es ms syn prefix m (ds :: 'k diagnostics)))"
proof (induction m arbitrary: prefix ds)
  case (Message sp name flds oneofs maps msgs enums exts rr rn er opts grp)
  have flds: "\<forall>f \<in> set (fst (thread (convert_field es ms syn) flds ds)). field_typed UNIV f" for ds :: "'k diagnostics"
    by (rule list_all2_ball [OF thread_all [where R = "\<lambda>_. field_typed UNIV"]]) (rule convert_field_named)
  have maps: "\<forall>p \<in> set (fst (thread (convert_map es ms path) maps ds)).
      message_typed UNIV (fst p) \<and> field_typed UNIV (snd p)" for path and ds :: "'k diagnostics"
    by (rule list_all2_ball [OF thread_all [where R = "\<lambda>_ p. message_typed UNIV (fst p) \<and> field_typed UNIV (snd p)"]])
       (rule convert_map_named)
  have msgs: "\<forall>d \<in> set (fst (thread (convert_message es ms syn path) msgs ds)). message_typed UNIV d"
    for path and ds :: "'k diagnostics"
    by (rule list_all2_ball [OF thread_all [where R = "\<lambda>_. message_typed UNIV"]]) (use Message.IH in auto)
  show ?case
    using convert_oneofs_named flds maps msgs
    by (simp add: Let_def case_prod_beta ball_Un image_iff) blast
qed

lemma compile_named: "file_typed UNIV (fst (compile f :: FileDescriptorProto \<times> 'k diagnostics))"
proof -
  have "\<forall>d \<in> set (fst (thread (convert_message es ms syn path) msgs ds)). message_typed UNIV d"
    for es ms syn path msgs and ds :: "'k diagnostics"
    by (rule list_all2_ball [OF thread_all [where R = "\<lambda>_. message_typed UNIV"]]) (rule convert_message_named)
  then show ?thesis
    by (simp add: compile_def Let_def case_prod_beta file_typed_def service_typed_def)
qed

section \<open>Resolution\<close>

lemma resolve_type_name_visible: "resolve_type_name tn pkg V = Some t \<Longrightarrow> t \<in> V"
  by (auto simp: resolve_type_name_def Let_def find_Some_iff split: if_splits)

lemma resolve_field_type_clean:
  assumes "field_typed UNIV f" and "clean (snd (resolve_field_type fname pkg V f rep))"
  shows "clean rep \<and> field_typed V (fst (resolve_field_type fname pkg V f rep))"
  using assms resolve_type_name_visible
  by (auto simp: resolve_field_type_def field_typed_def split: option.splits if_splits)

text \<open>Names and nesting stay as they are.\<close>

lemma resolve_message_declared: "declared_in prefix (fst (resolve_message fname V scope m (rep :: 'k report))) = declared_in prefix m"
proof (induction m arbitrary: prefix scope rep)
  case (DescriptorProto own inner)
  have "list_all2 (\<lambda>d d'. \<forall>p. declared_in p d' = declared_in p d) inner
      (fst (thread (resolve_message fname V path) inner rep))" for path and rep :: "'k report"
    using DescriptorProto.IH by (intro thread_all) auto
  then have "declared_in p ` set (fst (thread (resolve_message fname V path) inner rep)) = declared_in p ` set inner" for p path and rep :: "'k report"
    by (rule list_all2_image)
  then show ?case
    by (simp add: Let_def case_prod_beta)
qed

lemma resolve_message_clean:
  assumes "message_typed UNIV m" and "clean (snd (resolve_message fname V scope m (rep :: 'k report)))"
  shows "clean rep \<and> message_typed V (fst (resolve_message fname V scope m rep))"
  using assms
proof (induction m arbitrary: scope rep)
  case (DescriptorProto own inner)
  let ?path = "qualify scope (or_empty (msg_name own))"
  let ?fs = "thread (resolve_field_type fname scope V) (msg_field own) rep"
  let ?ds = "thread (resolve_message fname V ?path) inner (snd ?fs)"
  have "clean (snd ?fs) \<and> list_all2 (\<lambda>_. message_typed V) inner (fst ?ds)"
    using DescriptorProto by (intro thread_clean) (auto simp: Let_def case_prod_beta)
  moreover from this have "clean rep \<and> list_all2 (\<lambda>_. field_typed V) (msg_field own) (fst ?fs)"
    using DescriptorProto.prems(1) by (intro thread_clean) (auto dest: resolve_field_type_clean)
  ultimately show ?case
    by (simp add: Let_def case_prod_beta) (blast dest: list_all2_const)
qed

lemma resolve_method_type_clean:
  assumes "clean (snd (resolve_method_type pkg V name ty rep))"
  shows "clean rep \<and> set_option (fst (resolve_method_type pkg V name ty rep)) \<subseteq> V"
  using assms resolve_type_name_visible
  by (auto simp: resolve_method_type_def unknown_type_def split: option.splits)

lemma resolve_service_clean:
  assumes "clean (snd (resolve_service pkg V s (rep :: 'k report)))"
  shows "clean rep \<and> service_typed V (fst (resolve_service pkg V s rep))"
proof -
  have one: "clean rep \<and> set_option (mth_input_type m') \<union> set_option (mth_output_type m') \<subseteq> V"
    if "m' = fst (resolve_method pkg V m rep)" and "clean (snd (resolve_method pkg V m rep))" for m m' and rep :: "'k report"
    using that by (auto simp: resolve_method_def Let_def case_prod_beta dest: resolve_method_type_clean)
  have "clean rep \<and> list_all2 (\<lambda>_ m. set_option (mth_input_type m) \<union> set_option (mth_output_type m) \<subseteq> V)
      (svc_method s) (fst (thread (resolve_method pkg V) (svc_method s) rep))"
    using assms by (intro thread_clean) (auto simp: resolve_service_def case_prod_beta dest: one [OF refl])
  then show ?thesis
    by (simp add: resolve_service_def service_typed_def case_prod_beta) (blast dest: list_all2_const)
qed

lemma resolve_references_clean:
  assumes "file_typed UNIV fd" and "clean (snd (resolve_references fname V fd (rep :: 'k report)))"
  shows "clean rep \<and> file_typed V (fst (resolve_references fname V fd rep))"
proof -
  let ?pkg = "or_empty (file_package fd)"
  let ?ms = "thread (resolve_message fname V ?pkg) (file_message_type fd) rep"
  let ?ss = "thread (resolve_service ?pkg V) (file_service fd) (snd ?ms)"
  have "clean (snd ?ms) \<and> list_all2 (\<lambda>_. service_typed V) (file_service fd) (fst ?ss)"
    using assms(2) by (intro thread_clean resolve_service_clean) (simp_all add: resolve_references_def Let_def case_prod_beta)
  moreover from this have "clean rep \<and> list_all2 (\<lambda>_. message_typed V) (file_message_type fd) (fst ?ms)"
    using assms(1) by (intro thread_clean resolve_message_clean) (simp_all add: file_typed_def)
  ultimately show ?thesis
    by (simp add: resolve_references_def file_typed_def Let_def case_prod_beta) (blast dest: list_all2_const)
qed

lemma resolve_references_names:
  "declared_names (fst (resolve_references fname V fd (rep :: 'k report))) = declared_names fd
   \<and> file_name (fst (resolve_references fname V fd rep)) = file_name fd"
proof -
  have "list_all2 (\<lambda>d d'. \<forall>p. declared_in p d' = declared_in p d) ms (fst (thread (resolve_message fname V path) ms rep))"
    for ms path and rep :: "'k report"
    by (intro thread_all allI resolve_message_declared)
  then have "declared_in p ` set (fst (thread (resolve_message fname V path) ms rep)) = declared_in p ` set ms"
    for p ms path and rep :: "'k report"
    by (rule list_all2_image)
  then show ?thesis
    by (simp add: resolve_references_def declared_names_def Let_def case_prod_beta)
qed

section \<open>Option validation reports no unknown types\<close>

lemma validate_options_clean: "clean (validate_options known ctx file opts rep) \<Longrightarrow> clean rep"
  unfolding validate_options_def
  by (erule fold_clean [rotated]) (auto simp: validate_option_def split: if_splits option.splits)

lemma validate_fields_clean: "clean (validate_fields file fs rep) \<Longrightarrow> clean rep"
  unfolding validate_fields_def by (erule fold_clean [rotated]) (rule validate_options_clean)

lemma validate_enum_clean: "clean (validate_enum file e rep) \<Longrightarrow> clean rep"
  unfolding validate_enum_def by (rule validate_options_clean) (erule fold_clean [rotated], rule validate_options_clean)

lemma validate_extension_clean: "clean (validate_extension file e rep) \<Longrightarrow> clean rep"
  unfolding validate_extension_def by (blast dest: validate_fields_clean validate_options_clean)

lemma validate_oneof_clean: "clean (validate_oneof file e rep) \<Longrightarrow> clean rep"
  unfolding validate_oneof_def by (blast dest: validate_fields_clean validate_options_clean)

lemma validate_service_clean: "clean (validate_service file e rep) \<Longrightarrow> clean rep"
  unfolding validate_service_def by (rule validate_options_clean) (erule fold_clean [rotated], rule validate_options_clean)

lemma validate_folds_clean:
  "clean (fold (validate_oneof file) os rep) \<Longrightarrow> clean rep"
  "clean (fold (validate_enum file) es rep) \<Longrightarrow> clean rep"
  "clean (fold (validate_service file) ss rep) \<Longrightarrow> clean rep"
  "clean (fold (validate_extension file) xs rep) \<Longrightarrow> clean rep"
  "clean (fold (\<lambda>mf. validate_options known ctx file (mf_options mf)) ms rep) \<Longrightarrow> clean rep"
  by (erule fold_clean [rotated], blast dest: validate_oneof_clean validate_enum_clean validate_service_clean
      validate_extension_clean validate_options_clean)+

lemma validate_message_options_clean: "clean (validate_message_options file m (rep :: 'k report)) \<Longrightarrow> clean rep"
proof (induction m arbitrary: rep)
  case (Message sp name flds oneofs maps msgs enums exts rr rn er opts grp)
  have "clean (fold (validate_message_options file) msgs rep) \<Longrightarrow> clean rep" for rep :: "'k report"
    by (erule fold_clean [rotated]) (rule Message.IH)
  with Message.prems show ?case
    by (simp add: Let_def) (blast dest: validate_folds_clean validate_fields_clean validate_options_clean)
qed

lemma validate_options_in_file_clean: "clean (validate_options_in_file f (rep :: 'k report)) \<Longrightarrow> clean rep"
proof -
  have "clean (fold (validate_message_options (f_name f)) msgs rep) \<Longrightarrow> clean rep" for msgs and rep :: "'k report"
    by (erule fold_clean [rotated]) (rule validate_message_options_clean)
  then show "clean (validate_options_in_file f (rep :: 'k report)) \<Longrightarrow> clean rep"
    by (simp add: validate_options_in_file_def Let_def) (blast dest: validate_folds_clean validate_options_clean)
qed

section \<open>The symbol table\<close>

lemma insert_symbol_by_file [simp]: "ss_by_file (insert_symbol fname fqn st) = insert fqn (ss_by_file st)"
  by (simp add: insert_symbol_def Let_def split: option.splits)

lemma fold_by_file:
  assumes "\<And>x s. x \<in> set xs \<Longrightarrow> ss_by_file (f x s) = ss_by_file s \<union> g x"
  shows "ss_by_file (fold f xs st) = ss_by_file st \<union> \<Union> (g ` set xs)"
  using assms by (induction xs arbitrary: st) auto

lemma collect_enums_by_file:
  "ss_by_file (fold (\<lambda>e. insert_symbol fname (q e)) es st) = ss_by_file st \<union> q ` set es"
  by (induction es arbitrary: st) auto

lemma collect_message_by_file: "ss_by_file (collect_message fname p m (st :: 'k symbol_state)) = ss_by_file st \<union> declared_in p m"
proof (induction m arbitrary: p st)
  case (DescriptorProto own inner)
  have "ss_by_file (fold (collect_message fname q) inner st) = ss_by_file st \<union> \<Union> (declared_in q ` set inner)"
    for q and st :: "'k symbol_state"
    by (intro fold_by_file DescriptorProto.IH)
  then show ?case
    by (auto simp: Let_def collect_enums_by_file)
qed

lemma collect_symbols_by_file: "ss_by_file (collect_symbols fname fd st) = ss_by_file st \<union> declared_names fd"
  using fold_by_file [of "file_message_type fd" "collect_message fname (or_empty (file_package fd))"
      "declared_in (or_empty (file_package fd))" st]
  by (simp add: collect_symbols_def declared_names_def Let_def collect_enums_by_file collect_message_by_file Un_assoc)

text \<open>The names declared in the files of some names.\<close>

definition declared_by :: "FileDescriptorProto list \<Rightarrow> string set \<Rightarrow> string set" where
  "declared_by fds names = \<Union> (declared_names ` {fd \<in> set fds. or_empty (file_name fd) \<in> names})"

lemma declared_by_simps [simp]:
  "declared_by [] names = {}"
  "declared_by (fd # fds) names = (if or_empty (file_name fd) \<in> names then declared_names fd else {}) \<union> declared_by fds names"
  by (auto simp: declared_by_def)

lemma add_symbols_step:
  "symbols_of (snd (fst (add_symbols fd (tbl, rep)))) name =
     symbols_of (snd tbl) name \<union> (if or_empty (file_name fd) = name then declared_names fd else {})"
  by (cases tbl) (auto simp: add_symbols_def Let_def symbols_of_def collect_symbols_by_file)

lemma add_symbols_names:
  "symbols_of (snd (fst (fold add_symbols fds st))) name = symbols_of (snd (fst st)) name \<union> declared_by fds {name}"
proof (induction fds arbitrary: st)
  case (Cons fd fds)
  show ?case
    using add_symbols_step [of fd "fst st" "snd st" name] by (simp add: Cons.IH Un_assoc)
qed simp

lemma symbol_table_names: "symbols_of (snd (fst (fold add_symbols fds ((\<lambda>_. None, \<lambda>_. None), rep)))) name = declared_by fds {name}"
  by (simp add: add_symbols_names) (simp add: symbols_of_def)

lemma visible_names_declared:
  assumes "\<And>x. symbols_of by_file x = declared_by fds {x}" and "\<And>deps. vis name = Some deps \<Longrightarrow> deps \<subseteq> W"
  shows "visible_names vis by_file name \<subseteq> declared_by fds (insert name W)"
  using assms(2) by (fastforce simp: visible_names_def assms(1) declared_by_def split: option.splits)

section \<open>Monotonicity\<close>

lemma message_typed_mono: "V \<subseteq> W \<Longrightarrow> message_typed V m \<Longrightarrow> message_typed W m"
proof (induction m)
  case (DescriptorProto own inner)
  have "field_typed V f \<Longrightarrow> field_typed W f" for f
    using DescriptorProto.prems(1) by (auto simp: field_typed_def)
  with DescriptorProto show ?case by simp
qed

lemma file_typed_mono: "V \<subseteq> W \<Longrightarrow> file_typed V fd \<Longrightarrow> file_typed W fd"
  unfolding file_typed_def service_typed_def using message_typed_mono by blast

section \<open>The compiled set\<close>

lemma declared_by_cong:
  "list_all2 (\<lambda>a b. declared_names b = declared_names a \<and> file_name b = file_name a) as bs
   \<Longrightarrow> declared_by bs names = declared_by as names"
  by (induction rule: list_all2_induct) auto

lemma compile_file_name: "file_name (fst (compile f)) = Some (f_name f)"
  by (simp add: compile_def Let_def case_prod_beta)

lemma convert_files: "fst (thread convert_file files st) = map (\<lambda>f. fst (compile f :: FileDescriptorProto \<times> 'k diagnostics)) files"
  for st :: "(string \<Rightarrow> FeatureSet option) \<times> 'k report"
  by (rule thread_pointwise) (simp add: convert_file_def case_prod_beta Let_def split: prod.splits)

lemma resolve_files:
  assumes "clean (snd (thread (resolve_file vis by_file) (zip files (map (\<lambda>f. fst (compile f :: FileDescriptorProto \<times> 'k diagnostics)) files)) rep))"
    and "fds = fst (thread (resolve_file vis by_file) (zip files (map (\<lambda>f. fst (compile f :: FileDescriptorProto \<times> 'k diagnostics)) files)) (rep :: 'k report))"
  shows "length fds = length files"
    and "i < length files \<Longrightarrow> file_typed (visible_names vis by_file (f_name (files ! i))) (fds ! i)"
    and "declared_by fds names = declared_by (map (\<lambda>f. fst (compile f :: FileDescriptorProto \<times> 'k diagnostics)) files) names"
proof -
  let ?cs = "map (\<lambda>f. fst (compile f :: FileDescriptorProto \<times> 'k diagnostics)) files"
  let ?R = "\<lambda>(f, fd) fd'. file_typed (visible_names vis by_file (f_name f)) fd'
    \<and> declared_names fd' = declared_names fd \<and> file_name fd' = file_name fd"
  have "clean rep \<and> list_all2 ?R (zip files ?cs) fds"
    unfolding assms(2)
  proof (rule thread_clean [OF _ assms(1)])
    fix p and s :: "'k report"
    assume p: "p \<in> set (zip files ?cs)" and c: "clean (snd (resolve_file vis by_file p s))"
    then obtain f where f: "p = (f, fst (compile f :: FileDescriptorProto \<times> 'k diagnostics))"
      by (auto simp: zip_map2 in_set_zip)
    let ?V = "visible_names vis by_file (f_name f)"
    have "clean (snd (resolve_references (f_name f) ?V (snd p) s))"
      using c by (auto simp: f resolve_file_def case_prod_beta Let_def dest: validate_options_in_file_clean)
    then have "clean s \<and> file_typed ?V (fst (resolve_references (f_name f) ?V (snd p) s))"
      using resolve_references_clean [OF compile_named] by (simp add: f)
    then show "clean s \<and> ?R p (fst (resolve_file vis by_file p s))"
      using resolve_references_names by (simp add: f resolve_file_def case_prod_beta Let_def)
  qed
  then show "length fds = length files"
    and "i < length files \<Longrightarrow> file_typed (visible_names vis by_file (f_name (files ! i))) (fds ! i)"
    and "declared_by fds names = declared_by ?cs names"
    by (auto simp: list_all2_conv_all_nth intro!: declared_by_cong)
qed

text \<open>What the stages of a compilation hand to each other.\<close>

lemma compile_set_stages:
  assumes i: "index_files files = (m, rep0 :: 'k report)"
    and cs: "cs = map (\<lambda>f. fst (compile f :: FileDescriptorProto \<times> 'k diagnostics)) files"
  obtains vis by_file fds feat and rep rep' :: "'k report" where
    "\<And>name f s. m name = Some f \<Longrightarrow> vis name = Some s \<Longrightarrow> s \<subseteq> reach (public_graph m) (known_imports m name)"
    and "\<And>x. symbols_of by_file x = declared_by cs {x}"
    and "thread (resolve_file vis by_file) (zip files cs) rep = (fds, rep')"
    and "compile_set files = Inr \<lparr>cr_set = \<lparr>fds_file = fds\<rparr>, cr_diagnostics = rp_diags rep', cr_lint = rp_lint rep',
      cr_features = feat\<rparr>"
proof -
  obtain ns where cyc: "detect_import_cycles files m rep0 = Inr (add_cycles ns rep0)"
    using detect_import_cycles_spec [OF i] by blast
  define repv where "repv = report_missing files m (add_cycles ns rep0)"
  obtain vis where vis: "compute_visibility files m (add_cycles ns rep0) = Inr (vis, repv)"
    and see: "\<forall>name f s. m name = Some f \<and> vis name = Some s \<longrightarrow>
      s \<subseteq> reach (public_graph m) (known_imports m name)
      \<and> (acyclic (public_graph m) \<longrightarrow> s = reach (public_graph m) (known_imports m name))"
    using compute_visibility_spec [OF i, of "add_cycles ns rep0", folded repv_def] by (elim exE conjE) (rule that)
  obtain feat rep1 where conv: "thread convert_file files (\<lambda>_. None, repv) = (cs, feat, rep1)"
    using convert_files [of files "(\<lambda>_. None, repv)"] cs by (cases "thread convert_file files (\<lambda>_. None, repv)") auto
  obtain symbols by_file rep2 where sym: "fold add_symbols cs ((\<lambda>_. None, \<lambda>_. None), rep1) = ((symbols, by_file), rep2)"
    by (metis prod.collapse)
  obtain fds rep3 where fin: "thread (resolve_file vis by_file) (zip files cs) rep2 = (fds, rep3)"
    by fastforce
  show thesis
  proof (rule that [OF _ _ fin])
    show "symbols_of by_file x = declared_by cs {x}" for x
      using symbol_table_names [of cs rep1 x] by (simp add: sym)
  qed (use see in \<open>simp_all add: compile_set_def i cyc vis conv sym fin\<close>)
qed

text \<open>
  C37: Compiling a set of files always ends with one descriptor per file. When no diagnostic
  says that a type is unknown, every type a field of a message or a method refers to is the absolute
  name of a message or enum that is declared in the file, in one of its imports or in a file these
  re-export.
\<close>

theorem references_well_typed:
  "case index_files files of (by_name, rep :: 'k report) \<Rightarrow>
     \<exists>res :: 'k compile_result. compile_set files = Inr res
       \<and> length (fds_file (cr_set res)) = length files
       \<and> ((\<forall>d \<in> set (cr_diagnostics res). dg_code d \<noteq> UnknownType) \<longrightarrow>
          (\<forall>i < length files.
             file_typed (declared_by (fds_file (cr_set res))
                 (insert (f_name (files ! i)) (reach (public_graph by_name) (known_imports by_name (f_name (files ! i))))))
               (fds_file (cr_set res) ! i)))"
proof -
  obtain m and rep0 :: "'k report" where i: "index_files files = (m, rep0)"
    by fastforce
  obtain vis by_file fds feat and rep rep' :: "'k report" where
      see: "\<And>name f s. m name = Some f \<Longrightarrow> vis name = Some s \<Longrightarrow> s \<subseteq> reach (public_graph m) (known_imports m name)"
    and names: "\<And>x. symbols_of by_file x = declared_by (map (\<lambda>f. fst (compile f :: FileDescriptorProto \<times> 'k diagnostics)) files) {x}"
    and fin: "thread (resolve_file vis by_file) (zip files (map (\<lambda>f. fst (compile f :: FileDescriptorProto \<times> 'k diagnostics)) files)) rep = (fds, rep')"
    and res: "compile_set files = Inr \<lparr>cr_set = \<lparr>fds_file = fds\<rparr>, cr_diagnostics = rp_diags rep', cr_lint = rp_lint rep',
      cr_features = feat\<rparr>"
    by (rule compile_set_stages [OF i refl]) (rule that)
  let ?W = "\<lambda>f. reach (public_graph m) (known_imports m (f_name f))"
  have "length fds = length files"
    using arg_cong [where f = "\<lambda>p. length (fst p)", OF fin] by simp
  moreover have "file_typed (declared_by fds (insert (f_name (files ! k)) (?W (files ! k)))) (fds ! k)"
    if "clean rep'" "k < length files" for k
  proof -
    note files = resolve_files [of vis by_file files rep fds, unfolded fin fst_conv snd_conv, OF that(1) refl]
    have "f_name (files ! k) \<in> dom m"
      using that(2) by (auto simp: dom_index_files [OF i])
    then have "visible_names vis by_file (f_name (files ! k)) \<subseteq> declared_by fds (insert (f_name (files ! k)) (?W (files ! k)))"
      using see unfolding files(3) [simplified] by (intro visible_names_declared [OF names]) blast
    then show ?thesis
      using files(2) that(2) by (auto intro: file_typed_mono)
  qed
  ultimately show ?thesis
    by (simp add: i res clean_def)
qed

definition sample_ident :: "string \<Rightarrow> span ident" where
  "sample_ident s = Ident s Span_default"

definition sample_message :: "string \<Rightarrow> (string \<times> string) list \<Rightarrow> span message list \<Rightarrow> span message" where
  "sample_message name flds inner =
     Message Span_default (sample_ident name)
       (map (\<lambda>(n, ty). Field Span_default (sample_ident n) 1 (TNamed (sample_ident ty)) LabelSingular None None []) flds)
       [] [] inner [] [] [] [] [] [] False"

definition sample_file :: "string \<Rightarrow> (string \<times> import_kind) list \<Rightarrow> span message list \<Rightarrow> span proto_file" where
  "sample_file name imps msgs =
     File name None None None (map (\<lambda>(p, k). Import Span_default p k) imps) [] msgs [] [] []"

text \<open>\<open>m\<close> uses the message \<open>N\<close> of \<open>b\<close>, which \<open>a\<close> re-exports.\<close>

definition sample_set :: "span proto_file list" where
  "sample_set = [sample_file ''m'' [(''a'', ImportDefault)] [sample_message ''M'' [(''n'', ''N'')] []],
     sample_file ''a'' [(''b'', ImportPublic)] [], sample_file ''b'' [] [sample_message ''N'' [] []]]"

definition codes_of :: "(unit, unit compile_result) res \<Rightarrow> error_code list option" where
  "codes_of r = (case r of Inr res \<Rightarrow> Some (map dg_code (cr_diagnostics res)) | Inl _ \<Rightarrow> None)"

lemma codes_sample: "codes_of (compile_set sample_set) = Some []"
  by code_simp

text \<open>A field that names a message nested in its own message is reported as unknown.\<close>

lemma own_nested_type_unknown:
  "codes_of (compile_set [sample_file ''m'' [] [sample_message ''M'' [(''n'', ''N'')] [sample_message ''N'' [] []]]])
   = Some [UnknownType]"
  by code_simp

theorem references_well_typed_witness:
  "case index_files sample_set of (by_name, rep :: unit report) \<Rightarrow>
     \<exists>res :: unit compile_result. compile_set sample_set = Inr res
       \<and> file_typed (declared_by (fds_file (cr_set res))
             (insert ''m'' (reach (public_graph by_name) (known_imports by_name ''m''))))
           (fds_file (cr_set res) ! 0)"
proof (cases "index_files sample_set :: file_index \<times> unit report")
  case (Pair m rep)
  obtain res :: "unit compile_result" where res: "compile_set sample_set = Inr res"
    and typed: "(\<forall>d \<in> set (cr_diagnostics res). dg_code d \<noteq> UnknownType) \<longrightarrow> (\<forall>i < length sample_set.
       file_typed (declared_by (fds_file (cr_set res))
           (insert (f_name (sample_set ! i)) (reach (public_graph m) (known_imports m (f_name (sample_set ! i))))))
         (fds_file (cr_set res) ! i))"
    using references_well_typed [of sample_set, where 'k = unit, unfolded Pair prod.case] by (elim exE conjE) (rule that)
  have "cr_diagnostics res = []"
    using codes_sample by (simp add: res codes_of_def)
  then have "\<forall>i < length sample_set. file_typed (declared_by (fds_file (cr_set res))
      (insert (f_name (sample_set ! i)) (reach (public_graph m) (known_imports m (f_name (sample_set ! i))))))
    (fds_file (cr_set res) ! i)"
    using typed by simp
  moreover have "0 < length sample_set" "f_name (sample_set ! 0) = ''m''"
    by (simp_all add: sample_set_def sample_file_def)
  ultimately show ?thesis
    unfolding Pair prod.case using res by metis
qed

text \<open>
  More that the conversion loses: a reference to an enum of another file is compiled as a message
  reference, a range up to \<open>max\<close> (\<open>i64::MAX\<close> in the tree) ends at \<open>-1\<close>, and the type of an extension
  field keeps its relative name.
\<close>

lemma imported_enum_is_message:
  assumes "e \<notin> set enum_names" and "CHR ''.'' \<notin> set e"
  shows "resolve_type (TNamed (Ident e sp)) enum_names msg_names = (TMessage, Some e)"
proof -
  have "takeWhile (\<lambda>c. c \<noteq> CHR ''.'') (rev e) = rev e"
    using assms(2) by (auto simp: takeWhile_eq_all_conv)
  moreover have "dropWhile (\<lambda>c. c = CHR ''.'') e = e"
    using assms(2) by (cases e) auto
  ultimately have "simple_name e = e"
    by (simp only: simple_name_def rev_rev_ident)
  then show ?thesis
    using assms(1) by (simp add: Let_def)
qed

lemma range_to_max_is_negative: "rr_end (convert_reserved \<lparr>ir_start = n, ir_end = Some (2 ^ 63 - 1)\<rparr>) = - 1"
  by (simp add: convert_reserved_def range_last_def)

lemma extensions_not_resolved:
  "file_extension (fst (resolve_references fname V fd rep)) = file_extension fd"
  by (simp add: resolve_references_def Let_def case_prod_beta)

end
