(* ===== verification/Health.thy ===== *)
theory Health
  imports Service_Handler
begin

text \<open>
  The health service (\<open>crates/tpt-proto-grpc/src/health.rs\<close>): its two messages, the registry, the
  handler of \<open>Check\<close> and \<open>Watch\<close>. The broadcast channel of tokio is the list of the messages sent
  through it; what a receiver gets from it, lagging or closing included, is an argument of the
  watch stream. \<open>dbg\<close> is the debug rendering of a string that one error message contains.
\<close>

section \<open>Messages\<close>

datatype serving_status = StUnknown | Serving | NotServing | ServiceUnknown

definition ServingStatus_from_i32 :: "i32 \<Rightarrow> serving_status" where
  "ServingStatus_from_i32 v =
     (if v = 0 then StUnknown else if v = 1 then Serving else if v = 2 then NotServing
      else if v = 3 then ServiceUnknown else StUnknown)"

fun ServingStatus_as_i32 :: "serving_status \<Rightarrow> i32" where
  "ServingStatus_as_i32 StUnknown = 0"
| "ServingStatus_as_i32 Serving = 1"
| "ServingStatus_as_i32 NotServing = 2"
| "ServingStatus_as_i32 ServiceUnknown = 3"

fun ServingStatus_as_str :: "serving_status \<Rightarrow> string" where
  "ServingStatus_as_str StUnknown = ''UNKNOWN''"
| "ServingStatus_as_str Serving = ''SERVING''"
| "ServingStatus_as_str NotServing = ''NOT_SERVING''"
| "ServingStatus_as_str ServiceUnknown = ''SERVICE_UNKNOWN''"

record health_request =
  hq_service :: string

record health_response =
  hp_status :: serving_status

definition HealthCheckRequest_default :: health_request where
  "HealthCheckRequest_default = \<lparr>hq_service = []\<rparr>"

definition HealthCheckResponse_default :: health_response where
  "HealthCheckResponse_default = \<lparr>hp_status = StUnknown\<rparr>"

definition HealthCheckRequest_encode :: "health_request \<Rightarrow> writer \<Rightarrow> writer core_res" where
  "HealthCheckRequest_encode m w = (if hq_service m \<noteq> [] then encode_string w 1 (hq_service m) else Inr w)"

text \<open>Field 1 is read whatever its wire type.\<close>

definition HealthCheckRequest_step :: "health_request \<Rightarrow> reader \<Rightarrow> (health_request \<times> reader) core_res" where
  "HealthCheckRequest_step m r = bind_result (read_tag r) (\<lambda>(t, r).
     if field_number t = 1
     then bind_result (read_string_owned r) (\<lambda>(s, r). Inr (m\<lparr>hq_service := s\<rparr>, r))
     else bind_result (skip r (wire_type t)) (\<lambda>r. Inr (m, r)))"

definition HealthCheckResponse_encode :: "health_response \<Rightarrow> writer \<Rightarrow> writer core_res" where
  "HealthCheckResponse_encode m w = encode_int32 w 1 (ServingStatus_as_i32 (hp_status m))"

definition HealthCheckResponse_step :: "health_response \<Rightarrow> reader \<Rightarrow> (health_response \<times> reader) core_res" where
  "HealthCheckResponse_step m r = bind_result (read_tag r) (\<lambda>(t, r).
     if field_number t = 1
     then bind_result (read_int32 r) (\<lambda>(v, r). Inr (m\<lparr>hp_status := ServingStatus_from_i32 v\<rparr>, r))
     else bind_result (skip r (wire_type t)) (\<lambda>r. Inr (m, r)))"

section \<open>The registry\<close>

text \<open>\<open>hr_sent\<close> is \<open>None\<close> until the first subscription makes the channel.\<close>

record health_registry =
  hr_inner :: "(string \<times> serving_status) list"
  hr_sent :: "(string \<times> serving_status) list option"

definition HealthRegistry_new :: health_registry where
  "HealthRegistry_new = \<lparr>hr_inner = [], hr_sent = None\<rparr>"

definition set_inner :: "string \<Rightarrow> serving_status \<Rightarrow> health_registry \<Rightarrow> health_registry" where
  "set_inner service st reg = reg\<lparr>hr_inner := hm_insert service st (hr_inner reg)\<rparr>"

definition broadcast :: "string \<Rightarrow> serving_status \<Rightarrow> health_registry \<Rightarrow> health_registry" where
  "broadcast service st reg = reg\<lparr>hr_sent := map_option (\<lambda>log. log @ [(service, st)]) (hr_sent reg)\<rparr>"

definition set_status :: "string \<Rightarrow> serving_status \<Rightarrow> health_registry \<Rightarrow> health_registry" where
  "set_status service st reg = broadcast service st (set_inner service st reg)"

text \<open>The loop over the values, with the flag \<open>has_serving\<close>.\<close>

fun overall_from :: "bool \<Rightarrow> serving_status list \<Rightarrow> serving_status" where
  "overall_from has_serving [] = (if has_serving then Serving else StUnknown)"
| "overall_from has_serving (s # ss) =
     (if s = NotServing then NotServing else overall_from (has_serving \<or> s = Serving) ss)"

definition get_status :: "string \<Rightarrow> health_registry \<Rightarrow> serving_status" where
  "get_status service reg =
     (if service = []
      then (if hr_inner reg = [] then StUnknown else overall_from False (map snd (hr_inner reg)))
      else case map_of (hr_inner reg) service of Some s \<Rightarrow> s | None \<Rightarrow> StUnknown)"

definition registry_check :: "string \<Rightarrow> health_registry \<Rightarrow> serving_status" where
  "registry_check service reg =
     (if service = [] then get_status [] reg
      else case map_of (hr_inner reg) service of Some s \<Rightarrow> s | None \<Rightarrow> ServiceUnknown)"

text \<open>The receiver is the position in the channel from which it reads.\<close>

definition subscribe :: "health_registry \<Rightarrow> nat \<times> health_registry" where
  "subscribe reg =
     (let log = (case hr_sent reg of Some l \<Rightarrow> l | None \<Rightarrow> []) in (length log, reg\<lparr>hr_sent := Some log\<rparr>))"

definition services :: "health_registry \<Rightarrow> string list" where
  "services reg = filter (\<lambda>k. k \<noteq> []) (map fst (hr_inner reg))"

section \<open>The service\<close>

definition HEALTH_SERVICE_NAME :: string where
  "HEALTH_SERVICE_NAME = ''grpc.health.v1.Health''"

definition health_check :: "(string \<Rightarrow> string) \<Rightarrow> health_registry \<Rightarrow> health_request \<Rightarrow> health_response response item" where
  "health_check dbg reg req =
     (let st = registry_check (hq_service req) reg
      in if st = ServiceUnknown
         then Inl (Raised (Status_new NotFound (''unknown service '' @ dbg (hq_service req))))
         else Inr (Response_new \<lparr>hp_status = st\<rparr>))"

datatype recv_event = Received string serving_status | RecvError

fun watch_loop :: "string \<Rightarrow> recv_event list \<Rightarrow> health_response list" where
  "watch_loop service [] = []"
| "watch_loop service (Received svc st # es) =
     (if svc = service \<or> svc = [] then \<lparr>hp_status = st\<rparr> # watch_loop service es else watch_loop service es)"
| "watch_loop service (RecvError # es) = []"

text \<open>
  The subscription of \<open>watch\<close> and its first item; the stream then follows the events the receiver
  gets.
\<close>

definition health_watch :: "health_registry \<Rightarrow> health_request \<Rightarrow> (nat \<times> health_registry) \<times> (recv_event list \<Rightarrow> health_response list)" where
  "health_watch reg req =
     (let (start, reg) = subscribe reg; current = registry_check (hq_service req) reg
      in ((start, reg), \<lambda>events. \<lparr>hp_status = current\<rparr> # watch_loop (hq_service req) events))"

definition core_internal :: "'a core_res \<Rightarrow> 'a item" where
  "core_internal = map_fault (\<lambda>e. Status_new Internal (error_display e))"

definition decode_health_request :: "byte list \<Rightarrow> health_request item" where
  "decode_health_request bs = core_internal (decode HealthCheckRequest_default (while_unread HealthCheckRequest_step) bs)"

definition health_call_unary :: "(string \<Rightarrow> string) \<Rightarrow> health_registry \<Rightarrow> string \<Rightarrow> byte list \<Rightarrow> byte list item" where
  "health_call_unary dbg reg meth req =
     (if meth = ''Check''
      then bind_result (decode_health_request req) (\<lambda>req.
           bind_result (health_check dbg reg req) (\<lambda>resp.
             core_internal (encode_to_vec HealthCheckResponse_encode (resp_message resp))))
      else Inl (Raised (Status_new Unimplemented (''health method '' @ meth @ '' is not unary''))))"

definition health_call_server_streaming ::
  "health_registry \<Rightarrow> string \<Rightarrow> byte list \<Rightarrow> ((nat \<times> health_registry) \<times> (recv_event list \<Rightarrow> byte list item list)) item" where
  "health_call_server_streaming reg meth req =
     (if meth = ''Watch''
      then bind_result (decode_health_request req) (\<lambda>req.
           (let (sub, items) = health_watch reg req
            in Inr (sub, \<lambda>events. map (\<lambda>m. core_internal (encode_to_vec HealthCheckResponse_encode m)) (items events))))
      else Inl (Raised (Status_new Unimplemented (''health method '' @ meth @ '' is not server-streaming''))))"

definition health_call_client_streaming :: "string \<Rightarrow> byte list item" where
  "health_call_client_streaming meth =
     Inl (Raised (Status_new Unimplemented (''health method '' @ meth @ '' is not client-streaming'')))"

definition health_call_bidi_streaming :: "string \<Rightarrow> byte list item list item" where
  "health_call_bidi_streaming meth =
     Inl (Raised (Status_new Unimplemented (''health method '' @ meth @ '' is not bidi-streaming'')))"

definition health_methods :: "(string \<times> method_kind) list" where
  "health_methods =
     [(''/'' @ HEALTH_SERVICE_NAME @ ''/Check'', Unary), (''/'' @ HEALTH_SERVICE_NAME @ ''/Watch'', ServerStreaming)]"

section \<open>The messages round-trip\<close>

lemma ServingStatus_roundtrip [simp]: "ServingStatus_from_i32 (ServingStatus_as_i32 s) = s"
  by (cases s) (simp_all add: ServingStatus_from_i32_def)

interpretation health_request: field_message "\<lambda>m. str_ok (hq_service m)" "\<lambda>_. 0"
  "\<lambda>m. if hq_service m = [] then [] else tag_bytes 1 LengthDelimited @ length_delimited (as_bytes (hq_service m))"
  HealthCheckRequest_default HealthCheckRequest_encode HealthCheckRequest_step "{1}"
proof unfold_locales
  fix m :: health_request
  assume "str_ok (hq_service m)"
  then have "loops 0 HealthCheckRequest_step HealthCheckRequest_default
      (tag_bytes 1 LengthDelimited @ length_delimited (as_bytes (hq_service m))) m"
    unfolding HealthCheckRequest_step_def
    by (intro loops_one reads_field)
      (auto simp: tag_bytes_not_Nil HealthCheckRequest_default_def intro!: reads_map [OF scalar_reads(8)])
  moreover have "loops 0 HealthCheckRequest_step HealthCheckRequest_default [] HealthCheckRequest_default"
    by (rule loops_done)
  moreover have "m = HealthCheckRequest_default" if "hq_service m = []"
    using that by (cases m) (simp add: HealthCheckRequest_default_def)
  ultimately show "loops 0 HealthCheckRequest_step HealthCheckRequest_default
      (if hq_service m = [] then [] else tag_bytes 1 LengthDelimited @ length_delimited (as_bytes (hq_service m))) m"
    by (metis (full_types))
next
  show "sound_step n (HealthCheckRequest_step m)" for n m
    unfolding HealthCheckRequest_step_def by (intro sound_rules)
next
  show "reads d (HealthCheckRequest_step m) (tag_bytes f wt @ v) m"
    if "0 < f" "f < 2 ^ 29" "f \<notin> {1}" "wire_value d wt v" for f d wt v m
    unfolding HealthCheckRequest_step_def using that by (intro reads_field) (simp_all add: reads_skip)
qed (simp add: HealthCheckRequest_encode_def scalar_enc)

interpretation health_response: field_message "\<lambda>_. True" "\<lambda>_. 0"
  "\<lambda>m. tag_bytes 1 Varint @ varint (scast (ServingStatus_as_i32 (hp_status m)))"
  HealthCheckResponse_default HealthCheckResponse_encode HealthCheckResponse_step "{1}"
proof unfold_locales
  show "loops 0 HealthCheckResponse_step HealthCheckResponse_default
      (tag_bytes 1 Varint @ varint (scast (ServingStatus_as_i32 (hp_status m)))) m" for m :: health_response
    unfolding HealthCheckResponse_step_def
    by (intro loops_one reads_field)
      (auto simp: tag_bytes_not_Nil HealthCheckResponse_default_def intro!: reads_map [OF scalar_reads(1)])
next
  show "sound_step n (HealthCheckResponse_step m)" for n m
    unfolding HealthCheckResponse_step_def by (intro sound_rules)
next
  show "reads d (HealthCheckResponse_step m) (tag_bytes f wt @ v) m"
    if "0 < f" "f < 2 ^ 29" "f \<notin> {1}" "wire_value d wt v" for f d wt v m
    unfolding HealthCheckResponse_step_def using that by (intro reads_field) (simp_all add: reads_skip)
qed (simp add: HealthCheckResponse_encode_def scalar_enc)

section \<open>Overall status and checks\<close>

lemma overall_from_eq:
  "overall_from b ss = (if NotServing \<in> set ss then NotServing else if b \<or> Serving \<in> set ss then Serving else StUnknown)"
  by (induction b ss rule: overall_from.induct) auto

text \<open>The order in which the map is walked does not matter.\<close>

lemma get_status_overall:
  "get_status [] reg = (let ss = snd ` set (hr_inner reg)
     in if NotServing \<in> ss then NotServing else if Serving \<in> ss then Serving else StUnknown)"
  by (simp add: get_status_def overall_from_eq Let_def)

text \<open>
  \<open>Check\<close> over the wire: the answer to an encoded request is \<open>NOT_FOUND\<close> for a service that the
  registry does not know, otherwise bytes that decode to its status.
\<close>

lemma health_check_on_the_wire:
  assumes "str_ok s" and "length s \<le> 900000"
    and "encode_to_vec HealthCheckRequest_encode \<lparr>hq_service = s\<rparr> = Inr bs"
  shows "case registry_check s reg of
      ServiceUnknown \<Rightarrow> health_call_unary dbg reg ''Check'' bs
        = Inl (Raised (Status_new NotFound (''unknown service '' @ dbg s)))
    | st \<Rightarrow> (\<exists>out. health_call_unary dbg reg ''Check'' bs = Inr out
        \<and> decode HealthCheckResponse_default (while_unread HealthCheckResponse_step) out = Inr \<lparr>hp_status = st\<rparr>)"
proof -
  have l: "length (tag_bytes 1 wt) \<le> 10" "length (varint v) \<le> 10" for wt v
    by (rule length_tag_bytes_10, rule length_varint_le_10)
  have "length (tag_bytes 1 LengthDelimited @ length_delimited (as_bytes s)) \<le> 1000000"
    using assms(2) l(1) [of LengthDelimited] l(2) [of "word_of_nat (length s)"]
    by (simp add: length_delimited_def as_bytes_def)
  then have req: "decode_health_request bs = Inr \<lparr>hq_service = s\<rparr>"
    using assms(1,3) health_request.encode_to_vec_eq [of "\<lparr>hq_service = s\<rparr>"] health_request.decode_eq [of "\<lparr>hq_service = s\<rparr>"]
    by (auto simp: decode_health_request_def core_internal_def split: if_splits)
  have "length (tag_bytes 1 Varint @ varint (scast (ServingStatus_as_i32 st))) \<le> 1000000" for st
    using l(1) [of Varint] l(2) [of "scast (ServingStatus_as_i32 st)"] by simp
  then have resp: "encode_to_vec HealthCheckResponse_encode m = Inr (tag_bytes 1 Varint @ varint (scast (ServingStatus_as_i32 (hp_status m))))"
    "decode HealthCheckResponse_default (while_unread HealthCheckResponse_step)
       (tag_bytes 1 Varint @ varint (scast (ServingStatus_as_i32 (hp_status m)))) = Inr m" for m
    by (simp_all add: health_response.encode_to_vec_eq health_response.decode_eq)
  have "health_call_unary dbg reg ''Check'' bs = (if registry_check s reg = ServiceUnknown
      then Inl (Raised (Status_new NotFound (''unknown service '' @ dbg s)))
      else Inr (tag_bytes 1 Varint @ varint (scast (ServingStatus_as_i32 (registry_check s reg)))))"
    by (simp add: health_call_unary_def req health_check_def Let_def core_internal_def Response_new_def resp(1))
  then show ?thesis
    using resp(2) [of "\<lparr>hp_status = registry_check s reg\<rparr>"] by (cases "registry_check s reg") simp_all
qed

section \<open>What a watcher sees\<close>

text \<open>
  Updates that are made one after the other reach a receiver that does not lag in their order. As
  long as the overall status is not set, the last item of a watcher is then what \<open>Check\<close> says.
\<close>

definition set_all :: "(string \<times> serving_status) list \<Rightarrow> health_registry \<Rightarrow> health_registry" where
  "set_all us = fold (\<lambda>(s, st). set_status s st) us"

definition delivered :: "nat \<Rightarrow> health_registry \<Rightarrow> recv_event list" where
  "delivered start reg = map (\<lambda>(s, st). Received s st) (drop start (case hr_sent reg of Some l \<Rightarrow> l | None \<Rightarrow> []))"

lemma set_all_sent: "hr_sent reg = Some l \<Longrightarrow> hr_sent (set_all us reg) = Some (l @ us)"
  by (induction us arbitrary: reg l) (auto simp: set_all_def set_status_def broadcast_def set_inner_def)

lemma watch_last:
  assumes "s \<noteq> []" and "\<forall>u \<in> set us. fst u \<noteq> []"
  shows "registry_check s (set_all us reg) =
    hp_status (last (\<lparr>hp_status = registry_check s reg\<rparr> # watch_loop s (map (\<lambda>(s, st). Received s st) us)))"
  using assms(2)
proof (induction us arbitrary: reg)
  case (Cons u us)
  obtain k st where u: "u = (k, st)" by (cases u)
  have "registry_check s (set_status k st reg) = (if s = k then st else registry_check s reg)"
    using assms(1) by (simp add: registry_check_def set_status_def broadcast_def set_inner_def)
  then show ?case
    using Cons.IH [of "set_status k st reg"] Cons.prems by (auto simp: u set_all_def)
qed (simp add: set_all_def)

text \<open>
  C38: A watcher whose receiver does not lag is in step with \<open>Check\<close>: after any sequence of
  updates of named services, made one after the other, the last item of its stream is the
  status that \<open>Check\<close> reports for its service.
\<close>

theorem watch_follows_check:
  assumes "hq_service req \<noteq> []" and "\<forall>u \<in> set us. fst u \<noteq> []"
    and "health_watch reg req = ((start, reg1), items)"
  shows "hp_status (last (items (delivered start (set_all us reg1)))) = registry_check (hq_service req) (set_all us reg1)"
proof -
  obtain l where l: "hr_sent reg1 = Some l" "start = length l" and check: "registry_check (hq_service req) reg1 = registry_check (hq_service req) reg"
    and items: "items = (\<lambda>events. \<lparr>hp_status = registry_check (hq_service req) reg1\<rparr> # watch_loop (hq_service req) events)"
    using assms(3) by (auto simp: health_watch_def subscribe_def registry_check_def get_status_def Let_def split: option.splits)
  show ?thesis
    unfolding items delivered_def using set_all_sent [OF l(1)] l(2) watch_last [OF assms(1,2), of reg1] by simp
qed

theorem watch_follows_check_witness:
  "let reg = set_status ''a'' Serving HealthRegistry_new; w = health_watch reg \<lparr>hq_service = ''a''\<rparr>;
       reg2 = set_all [(''a'', NotServing), (''b'', Serving)] (snd (fst w))
   in hp_status (last (snd w (delivered (fst (fst w)) reg2))) = registry_check ''a'' reg2"
  using watch_follows_check [of "\<lparr>hq_service = ''a''\<rparr>" "[(''a'', NotServing), (''b'', Serving)]"
      "set_status ''a'' Serving HealthRegistry_new"]
  by (simp add: Let_def)

text \<open>An update of the overall status reaches the watchers of every service as if it were theirs.\<close>

lemma overall_update_misleads_watchers:
  assumes "s \<noteq> []" and "hr_inner reg = [(s, Serving)]"
  shows "watch_loop s (map (\<lambda>(s, st). Received s st) [([], NotServing)]) = [\<lparr>hp_status = NotServing\<rparr>]"
    and "registry_check s (set_status [] NotServing reg) = Serving"
  using assms by (simp_all add: registry_check_def set_status_def broadcast_def set_inner_def)

section \<open>Concurrent updates\<close>

text \<open>
  \<open>set_status\<close> changes the map and sends to the channel under two locks. A state holds the registry
  and the updates that have changed the map but not yet been sent.
\<close>

inductive health_step :: "health_registry \<times> (string \<times> serving_status) list \<Rightarrow> health_registry \<times> (string \<times> serving_status) list \<Rightarrow> bool" where
  insert_step: "health_step (reg, fl) (set_inner s st reg, fl @ [(s, st)])"
| send_step: "health_step (reg, xs @ (s, st) # ys) (broadcast s st reg, xs @ ys)"

inductive_cases health_stepE: "health_step a b"

abbreviation health_steps :: "health_registry \<times> (string \<times> serving_status) list \<Rightarrow> health_registry \<times> (string \<times> serving_status) list \<Rightarrow> bool" where
  "health_steps \<equiv> health_step\<^sup>*\<^sup>*"

text \<open>An update that is not interrupted is one insertion and one send.\<close>

lemma set_status_steps: "health_steps (reg, fl) (set_status s st reg, fl)"
proof -
  have "health_step (reg, fl) (set_inner s st reg, fl @ [(s, st)])"
    by (rule insert_step)
  moreover have "health_step (set_inner s st reg, fl @ [(s, st)]) (broadcast s st (set_inner s st reg), fl)"
    using send_step [of "set_inner s st reg" fl s st "[]"] by simp
  ultimately show ?thesis
    by (simp add: set_status_def)
qed

text \<open>
  Two concurrent updates of a service can be sent in the other order than they changed the map:
  its watcher ends on a status that is not the one the registry holds.
\<close>

lemma watcher_ends_on_stale_status:
  assumes "hr_sent reg = Some []"
  shows "\<exists>reg'. health_steps (reg, []) (reg', []) \<and> registry_check ''a'' reg' = NotServing
    \<and> hp_status (last (watch_loop ''a'' (delivered 0 reg'))) = Serving"
proof (intro exI conjI)
  let ?r = "set_inner ''a'' NotServing (set_inner ''a'' Serving reg)"
  let ?r' = "broadcast ''a'' Serving (broadcast ''a'' NotServing ?r)"
  have s1: "health_step (reg, []) (set_inner ''a'' Serving reg, [(''a'', Serving)])"
    using insert_step [of reg "[]"] by simp
  have s2: "health_step (set_inner ''a'' Serving reg, [(''a'', Serving)]) (?r, [(''a'', Serving), (''a'', NotServing)])"
    using insert_step [of "set_inner ''a'' Serving reg" "[(''a'', Serving)]"] by simp
  have s3: "health_step (?r, [(''a'', Serving), (''a'', NotServing)]) (broadcast ''a'' NotServing ?r, [(''a'', Serving)])"
    using send_step [of ?r "[(''a'', Serving)]" "''a''" NotServing "[]"] by simp
  have s4: "health_step (broadcast ''a'' NotServing ?r, [(''a'', Serving)]) (?r', [])"
    using send_step [of "broadcast ''a'' NotServing ?r" "[]" "''a''" Serving "[]"] by simp
  note step = converse_rtranclp_into_rtranclp [of health_step]
  show "health_steps (reg, []) (?r', [])"
    by (rule step [OF s1 step [OF s2 step [OF s3 step [OF s4 rtranclp.rtrancl_refl]]]])
  show "registry_check ''a'' ?r' = NotServing"
    by (simp add: registry_check_def broadcast_def set_inner_def)
  show "hp_status (last (watch_loop ''a'' (delivered 0 ?r'))) = Serving"
    using assms by (simp add: delivered_def broadcast_def set_inner_def)
qed

end
