(* ===== verification/Reflection.thy ===== *)
theory Reflection
  imports Health Descriptor_Properties
begin

text \<open>
  Server reflection (\<open>crates/tpt-proto-grpc/src/reflection.rs\<close>): its messages, the lookups over a set
  of file descriptors, and the bidirectional stream that answers requests. The \<open>mpsc\<close> channel to
  the response stream is the list of what is sent through it.
\<close>

section \<open>Messages\<close>

text \<open>\<open>X::decode(b)?\<close> on the payload of a field.\<close>

definition read_decoded :: "'a \<Rightarrow> ('a \<Rightarrow> reader \<Rightarrow> ('a \<times> reader) core_res) \<Rightarrow> reader \<Rightarrow> ('a \<times> reader) core_res" where
  "read_decoded empty_msg merge r =
     bind_result (read_length_delimited r) (\<lambda>(b, r).
       bind_result (decode empty_msg merge b) (\<lambda>x. Inr (x, r)))"

text \<open>\<open>for m in ms { let bytes = m.encode_to_vec()?; encode_message(w, f, &bytes) }\<close>, also for \<open>if let Some(m)\<close>.\<close>

fun encode_sub_messages :: "('a \<Rightarrow> writer \<Rightarrow> writer core_res) \<Rightarrow> writer \<Rightarrow> u32 \<Rightarrow> 'a list \<Rightarrow> writer core_res" where
  "encode_sub_messages enc w f [] = Inr w"
| "encode_sub_messages enc w f (m # ms) =
     bind_result (encode_to_vec enc m) (\<lambda>bs.
       bind_result (encode_message w f bs) (\<lambda>w. encode_sub_messages enc w f ms))"

fun encode_repeated_bytes :: "writer \<Rightarrow> u32 \<Rightarrow> byte list list \<Rightarrow> writer core_res" where
  "encode_repeated_bytes w f [] = Inr w"
| "encode_repeated_bytes w f (b # bs) = bind_result (encode_bytes w f b) (\<lambda>w. encode_repeated_bytes w f bs)"

abbreviation option_list :: "'a option \<Rightarrow> 'a list" where
  "option_list v \<equiv> (case v of None \<Rightarrow> [] | Some x \<Rightarrow> [x])"

record ErrorResponse =
  ec_error_code :: i32
  ec_error_message :: string

record ServiceResponse =
  sr_name :: string

record ListServiceResponse =
  ls_service :: "ServiceResponse list"

record FileDescriptorResponse =
  fr_file_descriptor_proto :: "byte list list"

record AllExtensionNumbersResponse =
  an_base_type_name :: string
  an_extension_number :: "i32 list"

record ExtensionRequest =
  xr_containing_type :: string
  xr_extension_number :: i32

record ServerReflectionRequest =
  rq_host :: string
  rq_file_by_filename :: string
  rq_file_containing_symbol :: string
  rq_file_containing_extension_str :: string
  rq_file_containing_extension :: "ExtensionRequest option"
  rq_all_extension_numbers_of_type :: string
  rq_list_services_marker :: bool

record ServerReflectionResponse =
  rp_valid_host :: string
  rp_error_response :: "ErrorResponse option"
  rp_list_services_response :: "ListServiceResponse option"
  rp_file_descriptor_response :: "FileDescriptorResponse option"
  rp_all_extension_numbers_response :: "AllExtensionNumbersResponse option"

text \<open>The derived \<open>Default\<close> instances.\<close>

definition ErrorResponse_default :: ErrorResponse where
  "ErrorResponse_default = \<lparr>ec_error_code = 0, ec_error_message = []\<rparr>"

definition ServiceResponse_default :: ServiceResponse where
  "ServiceResponse_default = \<lparr>sr_name = []\<rparr>"

definition ListServiceResponse_default :: ListServiceResponse where
  "ListServiceResponse_default = \<lparr>ls_service = []\<rparr>"

definition FileDescriptorResponse_default :: FileDescriptorResponse where
  "FileDescriptorResponse_default = \<lparr>fr_file_descriptor_proto = []\<rparr>"

definition AllExtensionNumbersResponse_default :: AllExtensionNumbersResponse where
  "AllExtensionNumbersResponse_default = \<lparr>an_base_type_name = [], an_extension_number = []\<rparr>"

definition ExtensionRequest_default :: ExtensionRequest where
  "ExtensionRequest_default = \<lparr>xr_containing_type = [], xr_extension_number = 0\<rparr>"

definition ServerReflectionRequest_default :: ServerReflectionRequest where
  "ServerReflectionRequest_default =
     \<lparr>rq_host = [], rq_file_by_filename = [], rq_file_containing_symbol = [],
      rq_file_containing_extension_str = [], rq_file_containing_extension = None,
      rq_all_extension_numbers_of_type = [], rq_list_services_marker = False\<rparr>"

definition ServerReflectionResponse_default :: ServerReflectionResponse where
  "ServerReflectionResponse_default =
     \<lparr>rp_valid_host = [], rp_error_response = None, rp_list_services_response = None,
      rp_file_descriptor_response = None, rp_all_extension_numbers_response = None\<rparr>"

definition ErrorResponse_encode :: "ErrorResponse \<Rightarrow> writer \<Rightarrow> writer core_res" where
  "ErrorResponse_encode m w =
     bind_result (if ec_error_code m \<noteq> 0 then encode_int32 w 1 (ec_error_code m) else Inr w) (\<lambda>w.
     if ec_error_message m \<noteq> [] then encode_string w 2 (ec_error_message m) else Inr w)"

definition ErrorResponse_step :: "ErrorResponse \<Rightarrow> reader \<Rightarrow> (ErrorResponse \<times> reader) core_res" where
  "ErrorResponse_step m r = bind_result (read_tag r) (\<lambda>(t, r).
     if field_number t = 1 then read_into read_int32 r (\<lambda>v. m\<lparr>ec_error_code := v\<rparr>)
     else if field_number t = 2 then read_into read_string_owned r (\<lambda>v. m\<lparr>ec_error_message := v\<rparr>)
     else skip_field m t r)"

definition ServiceResponse_encode :: "ServiceResponse \<Rightarrow> writer \<Rightarrow> writer core_res" where
  "ServiceResponse_encode m w =
     (if sr_name m \<noteq> [] then encode_string w 1 (sr_name m) else Inr w)"

definition ServiceResponse_step :: "ServiceResponse \<Rightarrow> reader \<Rightarrow> (ServiceResponse \<times> reader) core_res" where
  "ServiceResponse_step m r = bind_result (read_tag r) (\<lambda>(t, r).
     if field_number t = 1 then read_into read_string_owned r (\<lambda>v. m\<lparr>sr_name := v\<rparr>)
     else skip_field m t r)"

definition ListServiceResponse_encode :: "ListServiceResponse \<Rightarrow> writer \<Rightarrow> writer core_res" where
  "ListServiceResponse_encode m w =
     encode_sub_messages ServiceResponse_encode w 1 (ls_service m)"

definition ListServiceResponse_step :: "ListServiceResponse \<Rightarrow> reader \<Rightarrow> (ListServiceResponse \<times> reader) core_res" where
  "ListServiceResponse_step m r = bind_result (read_tag r) (\<lambda>(t, r).
     if field_number t = 1 then read_into (read_decoded ServiceResponse_default (while_unread ServiceResponse_step)) r (\<lambda>v. m\<lparr>ls_service := ls_service m @ [v]\<rparr>)
     else skip_field m t r)"

definition FileDescriptorResponse_encode :: "FileDescriptorResponse \<Rightarrow> writer \<Rightarrow> writer core_res" where
  "FileDescriptorResponse_encode m w =
     encode_repeated_bytes w 1 (fr_file_descriptor_proto m)"

definition FileDescriptorResponse_step :: "FileDescriptorResponse \<Rightarrow> reader \<Rightarrow> (FileDescriptorResponse \<times> reader) core_res" where
  "FileDescriptorResponse_step m r = bind_result (read_tag r) (\<lambda>(t, r).
     if field_number t = 1 then read_into read_length_delimited r (\<lambda>v. m\<lparr>fr_file_descriptor_proto := fr_file_descriptor_proto m @ [v]\<rparr>)
     else skip_field m t r)"

definition AllExtensionNumbersResponse_encode :: "AllExtensionNumbersResponse \<Rightarrow> writer \<Rightarrow> writer core_res" where
  "AllExtensionNumbersResponse_encode m w =
     bind_result (if an_base_type_name m \<noteq> [] then encode_string w 1 (an_base_type_name m) else Inr w) (\<lambda>w.
     encode_repeated_i32 w 2 (an_extension_number m))"

definition AllExtensionNumbersResponse_step :: "AllExtensionNumbersResponse \<Rightarrow> reader \<Rightarrow> (AllExtensionNumbersResponse \<times> reader) core_res" where
  "AllExtensionNumbersResponse_step m r = bind_result (read_tag r) (\<lambda>(t, r).
     if field_number t = 1 then read_into read_string_owned r (\<lambda>v. m\<lparr>an_base_type_name := v\<rparr>)
     else if field_number t = 2 then read_into read_int32 r (\<lambda>v. m\<lparr>an_extension_number := an_extension_number m @ [v]\<rparr>)
     else skip_field m t r)"

definition ExtensionRequest_encode :: "ExtensionRequest \<Rightarrow> writer \<Rightarrow> writer core_res" where
  "ExtensionRequest_encode m w =
     bind_result (if xr_containing_type m \<noteq> [] then encode_string w 1 (xr_containing_type m) else Inr w) (\<lambda>w.
     if xr_extension_number m \<noteq> 0 then encode_int32 w 2 (xr_extension_number m) else Inr w)"

definition ExtensionRequest_step :: "ExtensionRequest \<Rightarrow> reader \<Rightarrow> (ExtensionRequest \<times> reader) core_res" where
  "ExtensionRequest_step m r = bind_result (read_tag r) (\<lambda>(t, r).
     if field_number t = 1 then read_into read_string_owned r (\<lambda>v. m\<lparr>xr_containing_type := v\<rparr>)
     else if field_number t = 2 then read_into read_int32 r (\<lambda>v. m\<lparr>xr_extension_number := v\<rparr>)
     else skip_field m t r)"

definition ServerReflectionRequest_encode :: "ServerReflectionRequest \<Rightarrow> writer \<Rightarrow> writer core_res" where
  "ServerReflectionRequest_encode m w =
     bind_result (if rq_host m \<noteq> [] then encode_string w 1 (rq_host m) else Inr w) (\<lambda>w.
     bind_result (if rq_file_by_filename m \<noteq> [] then encode_string w 3 (rq_file_by_filename m) else Inr w) (\<lambda>w.
     bind_result (if rq_file_containing_symbol m \<noteq> [] then encode_string w 4 (rq_file_containing_symbol m) else Inr w) (\<lambda>w.
     bind_result (if rq_file_containing_extension_str m \<noteq> [] then encode_string w 5 (rq_file_containing_extension_str m) else Inr w) (\<lambda>w.
     bind_result (encode_sub_messages ExtensionRequest_encode w 6 (option_list (rq_file_containing_extension m))) (\<lambda>w.
     bind_result (if rq_all_extension_numbers_of_type m \<noteq> [] then encode_string w 7 (rq_all_extension_numbers_of_type m) else Inr w) (\<lambda>w.
     if rq_list_services_marker m then encode_string w 8 '''' else Inr w))))))"

definition ServerReflectionRequest_step :: "ServerReflectionRequest \<Rightarrow> reader \<Rightarrow> (ServerReflectionRequest \<times> reader) core_res" where
  "ServerReflectionRequest_step m r = bind_result (read_tag r) (\<lambda>(t, r).
     if field_number t = 1 then read_into read_string_owned r (\<lambda>v. m\<lparr>rq_host := v\<rparr>)
     else if field_number t = 3 then read_into read_string_owned r (\<lambda>v. m\<lparr>rq_file_by_filename := v\<rparr>)
     else if field_number t = 4 then read_into read_string_owned r (\<lambda>v. m\<lparr>rq_file_containing_symbol := v\<rparr>)
     else if field_number t = 5 then read_into read_string_owned r (\<lambda>v. m\<lparr>rq_file_containing_extension_str := v\<rparr>)
     else if field_number t = 6 then read_into (read_decoded ExtensionRequest_default (while_unread ExtensionRequest_step)) r (\<lambda>v. m\<lparr>rq_file_containing_extension := Some v\<rparr>)
     else if field_number t = 7 then read_into read_string_owned r (\<lambda>v. m\<lparr>rq_all_extension_numbers_of_type := v\<rparr>)
     else if field_number t = 8 then read_into read_string_owned r (\<lambda>v. m\<lparr>rq_list_services_marker := True\<rparr>)
     else skip_field m t r)"

definition ServerReflectionResponse_encode :: "ServerReflectionResponse \<Rightarrow> writer \<Rightarrow> writer core_res" where
  "ServerReflectionResponse_encode m w =
     bind_result (if rp_valid_host m \<noteq> [] then encode_string w 1 (rp_valid_host m) else Inr w) (\<lambda>w.
     bind_result (encode_sub_messages ErrorResponse_encode w 2 (option_list (rp_error_response m))) (\<lambda>w.
     bind_result (encode_sub_messages ListServiceResponse_encode w 3 (option_list (rp_list_services_response m))) (\<lambda>w.
     bind_result (encode_sub_messages FileDescriptorResponse_encode w 4 (option_list (rp_file_descriptor_response m))) (\<lambda>w.
     encode_sub_messages AllExtensionNumbersResponse_encode w 5 (option_list (rp_all_extension_numbers_response m))))))"

definition ServerReflectionResponse_step :: "ServerReflectionResponse \<Rightarrow> reader \<Rightarrow> (ServerReflectionResponse \<times> reader) core_res" where
  "ServerReflectionResponse_step m r = bind_result (read_tag r) (\<lambda>(t, r).
     if field_number t = 1 then read_into read_string_owned r (\<lambda>v. m\<lparr>rp_valid_host := v\<rparr>)
     else if field_number t = 2 then read_into (read_decoded ErrorResponse_default (while_unread ErrorResponse_step)) r (\<lambda>v. m\<lparr>rp_error_response := Some v\<rparr>)
     else if field_number t = 3 then read_into (read_decoded ListServiceResponse_default (while_unread ListServiceResponse_step)) r (\<lambda>v. m\<lparr>rp_list_services_response := Some v\<rparr>)
     else if field_number t = 4 then read_into (read_decoded FileDescriptorResponse_default (while_unread FileDescriptorResponse_step)) r (\<lambda>v. m\<lparr>rp_file_descriptor_response := Some v\<rparr>)
     else if field_number t = 5 then read_into (read_decoded AllExtensionNumbersResponse_default (while_unread AllExtensionNumbersResponse_step)) r (\<lambda>v. m\<lparr>rp_all_extension_numbers_response := Some v\<rparr>)
     else skip_field m t r)"

section \<open>Lookups\<close>

record ReflectionService =
  rs_set :: FileDescriptorSet

definition ReflectionService_new :: "FileDescriptorSet \<Rightarrow> ReflectionService" where
  "ReflectionService_new s = \<lparr>rs_set = s\<rparr>"

definition REFLECTION_SERVICE_NAME :: string where
  "REFLECTION_SERVICE_NAME = ''grpc.reflection.v1alpha.ServerReflection''"

text \<open>\<open>trim_start_matches('.')\<close>.\<close>

definition trim_dots :: "string \<Rightarrow> string" where
  "trim_dots = dropWhile (\<lambda>c. c = CHR ''.'')"

definition symbol_name :: "string \<Rightarrow> string \<Rightarrow> string" where
  "symbol_name prefix name =
     (let prefix = (case strip_prefix ''.'' prefix of Some p \<Rightarrow> p | None \<Rightarrow> prefix)
      in if prefix = [] then name else prefix @ ''.'' @ name)"

definition service_fqn :: "FileDescriptorProto \<Rightarrow> ServiceDescriptorProto \<Rightarrow> string" where
  "service_fqn f svc = symbol_name (or_default (file_package f)) (or_default (svc_name svc))"

definition list_service_names :: "ReflectionService \<Rightarrow> string list" where
  "list_service_names rs = sort (concat (map (\<lambda>f. map (service_fqn f) (file_service f)) (fds_file (rs_set rs))))"

text \<open>\<open>f.encode_to_vec().ok()\<close>; encoding does not panic.\<close>

definition file_encoding :: "FileDescriptorProto \<Rightarrow> byte list option" where
  "file_encoding f = (case encode_to_vec FileDescriptorProto_encode f of Inr bs \<Rightarrow> Some bs | Inl _ \<Rightarrow> None)"

text \<open>A \<open>for\<close> loop whose body may return early.\<close>

fun search :: "('a \<Rightarrow> 'r option) \<Rightarrow> 'a list \<Rightarrow> 'r option" where
  "search body [] = None"
| "search body (x # xs) = (case body x of Some r \<Rightarrow> Some r | None \<Rightarrow> search body xs)"

lemma search_cong [fundef_cong]:
  "xs = ys \<Longrightarrow> (\<And>x. x \<in> set ys \<Longrightarrow> f x = g x) \<Longrightarrow> search f xs = search g ys"
  by (induction ys arbitrary: xs) (auto split: option.split)

definition enum_symbol :: "FileDescriptorProto \<Rightarrow> string \<Rightarrow> string \<Rightarrow> EnumDescriptorProto \<Rightarrow> byte list option option" where
  "enum_symbol f prefix norm e =
     (if trim_dots (symbol_name prefix (or_default (en_name e))) = norm then Some (file_encoding f) else None)"

function nested_message_symbol :: "FileDescriptorProto \<Rightarrow> string \<Rightarrow> DescriptorProto \<Rightarrow> string \<Rightarrow> byte list option" where
  "nested_message_symbol f prefix (DescriptorProto d ns) norm =
     (case search (\<lambda>n. let fqn = symbol_name prefix (or_default (msg_name (msg_own n)))
             in if trim_dots fqn = norm then Some (file_encoding f)
                else map_option Some (nested_message_symbol f fqn n norm)) ns of
        Some r \<Rightarrow> r
      | None \<Rightarrow> (case search (enum_symbol f prefix norm) (msg_enum_type d) of Some r \<Rightarrow> r | None \<Rightarrow> None))"
  by pat_completeness auto
termination nested_message_symbol
  by (relation "measure (\<lambda>(f, prefix, m, norm). size m)") (auto dest: size_list_estimation' [of _ _ _ size])

definition file_bytes_for_message_symbol :: "FileDescriptorProto \<Rightarrow> string \<Rightarrow> string \<Rightarrow> byte list option" where
  "file_bytes_for_message_symbol f prefix norm =
     (case search (\<lambda>m. let fqn = symbol_name prefix (or_default (msg_name (msg_own m)))
             in if trim_dots fqn = norm then Some (file_encoding f)
                else map_option Some (nested_message_symbol f fqn m norm)) (file_message_type f) of
        Some r \<Rightarrow> r
      | None \<Rightarrow> (case search (enum_symbol f prefix norm) (file_enum_type f) of Some r \<Rightarrow> r | None \<Rightarrow> None))"

definition service_symbol :: "FileDescriptorProto \<Rightarrow> string \<Rightarrow> ServiceDescriptorProto \<Rightarrow> byte list option option" where
  "service_symbol f norm svc =
     (let base = trim_dots (service_fqn f svc)
      in if base = norm \<or> trim_dots (base @ ''.'' @ or_default (svc_name svc)) = norm then Some (file_encoding f)
         else search (\<lambda>m. if trim_dots (base @ ''.'' @ or_default (mth_name m)) = norm
                then Some (file_encoding f) else None) (svc_method svc))"

definition file_bytes_for_symbol :: "ReflectionService \<Rightarrow> string \<Rightarrow> byte list option" where
  "file_bytes_for_symbol rs symbol =
     (let norm = trim_dots symbol
      in case search (\<lambda>f. case search (service_symbol f norm) (file_service f) of
             Some r \<Rightarrow> Some r
           | None \<Rightarrow> map_option Some (file_bytes_for_message_symbol f (or_default (file_package f)) norm))
           (fds_file (rs_set rs)) of
        Some r \<Rightarrow> r
      | None \<Rightarrow> None)"

definition file_bytes_for_symbol_query :: "ReflectionService \<Rightarrow> string \<Rightarrow> byte list option" where
  "file_bytes_for_symbol_query rs symbol = file_bytes_for_symbol rs symbol"

text \<open>
  The set of numbers is a \<open>BTreeSet<i32>\<close>: the list of its elements in ascending signed order. The
  loops carry the flag \<open>found\<close> with it.
\<close>

definition collect_extension :: "string \<Rightarrow> FieldDescriptorProto \<Rightarrow> bool \<times> i32 list \<Rightarrow> bool \<times> i32 list" where
  "collect_extension norm ext = (\<lambda>(found, numbers).
     if (case fld_extendee ext of Some e \<Rightarrow> trim_dots e = norm | None \<Rightarrow> False)
     then (case fld_number ext of Some n \<Rightarrow> (True, insort_insert_key sint n numbers) | None \<Rightarrow> (found, numbers))
     else (found, numbers))"

function nested_extensions :: "string \<Rightarrow> DescriptorProto \<Rightarrow> string \<Rightarrow> i32 list \<Rightarrow> bool option \<times> i32 list" where
  "nested_extensions prefix (DescriptorProto d ns) norm numbers =
     (let (found, numbers) = fold (collect_extension norm) (msg_extension d) (False, numbers);
          (found, numbers) = fold (\<lambda>n (found, numbers).
             (let (b, numbers) = nested_extensions (symbol_name prefix (or_default (msg_name (msg_own n)))) n norm numbers
              in (case b of Some b \<Rightarrow> found \<or> b | None \<Rightarrow> found, numbers))) ns (found, numbers)
      in (Some found, numbers))"
  by pat_completeness auto
termination nested_extensions
  by (relation "measure (\<lambda>(prefix, m, norm, numbers). size m)") (auto dest: size_list_estimation' [of _ _ _ size])

definition file_extensions :: "string \<Rightarrow> FileDescriptorProto \<Rightarrow> bool \<times> i32 list \<Rightarrow> bool \<times> i32 list" where
  "file_extensions norm f acc =
     fold (\<lambda>m (found, numbers).
         (let (b, numbers) = nested_extensions (symbol_name (or_default (file_package f)) (or_default (msg_name (msg_own m)))) m norm numbers
          in (case b of Some b \<Rightarrow> found \<or> b | None \<Rightarrow> found, numbers)))
       (file_message_type f) (fold (collect_extension norm) (file_extension f) acc)"

definition all_extension_numbers :: "ReflectionService \<Rightarrow> string \<Rightarrow> AllExtensionNumbersResponse option" where
  "all_extension_numbers rs type_name =
     (let norm = trim_dots type_name;
          (found, numbers) = fold (file_extensions norm) (fds_file (rs_set rs)) (False, [])
      in if \<not> found then None else Some \<lparr>an_base_type_name = norm, an_extension_number = numbers\<rparr>)"

section \<open>Requests\<close>

definition reflection_error :: "string \<Rightarrow> i32 \<Rightarrow> string \<Rightarrow> ServerReflectionResponse list" where
  "reflection_error host c msg =
     [ServerReflectionResponse_default\<lparr>rp_valid_host := host,
        rp_error_response := Some \<lparr>ec_error_code = c, ec_error_message = msg\<rparr>\<rparr>]"

definition single_file :: "string \<Rightarrow> byte list \<Rightarrow> ServerReflectionResponse list" where
  "single_file host bytes =
     [ServerReflectionResponse_default\<lparr>rp_valid_host := host,
        rp_file_descriptor_response := Some \<lparr>fr_file_descriptor_proto = [bytes]\<rparr>\<rparr>]"

definition ok_file :: "string \<Rightarrow> FileDescriptorProto \<Rightarrow> ServerReflectionResponse list" where
  "ok_file host f =
     (case encode_to_vec FileDescriptorProto_encode f of
        Inr bytes \<Rightarrow> single_file host bytes
      | Inl _ \<Rightarrow> reflection_error host 13 ''failed to encode descriptor'')"

definition reflection_handle :: "ReflectionService \<Rightarrow> ServerReflectionRequest \<Rightarrow> ServerReflectionResponse list" where
  "reflection_handle rs req =
     (let host = rq_host req; err = reflection_error host
      in if rq_list_services_marker req
         then [ServerReflectionResponse_default\<lparr>rp_valid_host := host, rp_list_services_response :=
                 Some \<lparr>ls_service = map (\<lambda>n. \<lparr>sr_name = n\<rparr>) (list_service_names rs)\<rparr>\<rparr>]
         else if rq_file_by_filename req \<noteq> []
         then (case find (\<lambda>f. file_name f = Some (rq_file_by_filename req)) (fds_file (rs_set rs)) of
                 Some f \<Rightarrow> ok_file host f
               | None \<Rightarrow> err 5 (''file not found: '' @ rq_file_by_filename req))
         else if rq_file_containing_symbol req \<noteq> []
         then (case file_bytes_for_symbol rs (rq_file_containing_symbol req) of
                 Some bytes \<Rightarrow> single_file host bytes
               | None \<Rightarrow> err 5 (''symbol not found: '' @ rq_file_containing_symbol req))
         else if rq_file_containing_extension_str req \<noteq> [] \<or> rq_file_containing_extension req \<noteq> None
         then (let type_name = (case rq_file_containing_extension req of
                     Some e \<Rightarrow> xr_containing_type e | None \<Rightarrow> rq_file_containing_extension_str req)
               in case file_bytes_for_symbol_query rs type_name of
                    Some bytes \<Rightarrow> single_file host bytes
                  | None \<Rightarrow> err 5 (''extension host not found: '' @ type_name))
         else if rq_all_extension_numbers_of_type req \<noteq> []
         then (case all_extension_numbers rs (rq_all_extension_numbers_of_type req) of
                 Some resp \<Rightarrow> [ServerReflectionResponse_default\<lparr>rp_valid_host := host,
                     rp_all_extension_numbers_response := Some resp\<rparr>]
               | None \<Rightarrow> err 5 (''type not found: '' @ rq_all_extension_numbers_of_type req))
         else err 3 ''no recognized reflection request'')"

section \<open>The stream\<close>

text \<open>
  The spawned task: it stops at the first error of the request stream, a request that is not decoded is
  answered with an error and the stream goes on. A panic would close the channel.
\<close>

fun reflection_stream :: "ReflectionService \<Rightarrow> byte list item list \<Rightarrow> byte list item list" where
  "reflection_stream rs [] = []"
| "reflection_stream rs (Inl e # items) = [Inl e]"
| "reflection_stream rs (Inr raw # items) =
     (case core_internal (decode ServerReflectionRequest_default (while_unread ServerReflectionRequest_step) raw) of
        Inl (Raised e) \<Rightarrow> Inl (Raised e) # reflection_stream rs items
      | Inl _ \<Rightarrow> []
      | Inr req \<Rightarrow> map (\<lambda>resp. core_internal (encode_to_vec ServerReflectionResponse_encode resp)) (reflection_handle rs req)
          @ reflection_stream rs items)"

definition reflection_methods :: "(string \<times> method_kind) list" where
  "reflection_methods = [(''/'' @ REFLECTION_SERVICE_NAME @ ''/ServerReflectionInfo'', BidiStreaming)]"

definition reflection_not :: "string \<Rightarrow> string \<Rightarrow> status" where
  "reflection_not meth kind = Status_new Unimplemented (''reflection method '' @ meth @ '' is not '' @ kind)"

definition ReflectionService_handler :: "ReflectionService \<Rightarrow> 'x service_handler" where
  "ReflectionService_handler rs =
     \<lparr>sh_full_name = REFLECTION_SERVICE_NAME, sh_methods = reflection_methods,
      sh_unary = (\<lambda>meth ctx req. Inl (Raised (reflection_not meth ''unary''))),
      sh_server_streaming = (\<lambda>meth ctx req. Inl (Raised (reflection_not meth ''server-streaming''))),
      sh_client_streaming = (\<lambda>meth ctx req. Inl (Raised (reflection_not meth ''client-streaming''))),
      sh_bidi_streaming = (\<lambda>meth ctx req. Inr (reflection_stream rs req))\<rparr>"

end
