(* ===== verification/Reflection_Messages.thy ===== *)
theory Reflection_Messages
  imports Reflection
begin

text \<open>
  The messages of server reflection satisfy the contract \<open>field_message\<close>. Messages inside a message are
  decoded from scratch, so each has to fit the default limits on its own.
\<close>

section \<open>Fields\<close>

lemma read_decoded_eq:
  assumes "\<And>n m. sound_step n (step m)"
  shows "read_decoded m0 (while_unread step) = read_fresh m0 (while_unread step)"
proof -
  have "decode m0 (while_unread step) b = bind_result (while_unread step m0 (Reader_new b)) (\<lambda>(x, _). Inr x)" for b
    unfolding decode_def Reader_new_def [symmetric]
    using while_unread_forward [OF sound_step_progressive [OF assms], where s = m0 and r = "Reader_new b"]
    by (auto intro!: bind_result_cong simp: Reader_new_def Reader_with_limits_def)
  then show ?thesis
    by (simp add: fun_eq_iff read_decoded_def read_fresh_def bind_result_assoc case_prod_unfold)
qed

lemma sound_read_decoded:
  assumes "\<And>n m. sound_step n (step m)"
  shows "sound_step n (read_decoded m0 (while_unread step))"
  unfolding read_decoded_eq [OF assms] by (intro sound_read_fresh sound_while_unread assms)

lemma reads_decoded_field:
  assumes "\<And>n m. sound_step n (step m)" and "loops e step m0 bs x" and "e \<le> 100" and "length bs \<le> 1000000" and "k x = y"
  shows "reads d (\<lambda>r. read_into (read_decoded m0 (while_unread step)) r k) (length_delimited bs) y"
  unfolding read_decoded_eq [OF assms(1)]
  by (rule reads_into) (rule reads_fresh [where merge = "while_unread step" and e = e], rule decodes_loops, fact+)

lemma encode_sub_messages_eq:
  assumes "\<And>m w. m \<in> set ms \<Longrightarrow> enc m w = Inr (emit w (pay m))" and "f \<noteq> 0"
  shows "encode_sub_messages enc w f ms = Inr (emit w (rep_bytes f LengthDelimited (\<lambda>m. length_delimited (pay m)) ms))"
  using assms(1)
  by (induction ms arbitrary: w) (simp_all add: assms(2) buffer_simps encode_to_vec_def encode_message_def scalar_enc)

lemma rep_bytes_option: "rep_bytes f wt pay (option_list v) = opt_bytes f wt pay v"
  by (cases v) simp_all

abbreviation nonempty :: "string \<Rightarrow> string option" where
  "nonempty s \<equiv> if s \<noteq> [] then Some s else None"

lemma field_conditionals:
  "f \<noteq> 0 \<Longrightarrow> ((if s \<noteq> [] then encode_string w f s else Inr w) :: writer core_res)
    = Inr (emit w (opt_bytes f LengthDelimited str_payload (nonempty s)))"
  "f \<noteq> 0 \<Longrightarrow> ((if i \<noteq> 0 then encode_int32 w f i else Inr w) :: writer core_res)
    = Inr (emit w (opt_bytes f Varint i32_payload (nonzero i)))"
  "f \<noteq> 0 \<Longrightarrow> ((if b then encode_string w f '''' else Inr w) :: writer core_res)
    = Inr (emit w (opt_bytes f LengthDelimited str_payload (if b then Some '''' else None)))"
  "f \<noteq> 0 \<Longrightarrow> encode_repeated_bytes w f bs = Inr (emit w (rep_bytes f LengthDelimited length_delimited bs))"
  by (simp_all add: scalar_enc) (induction bs arbitrary: w, simp_all add: scalar_enc)

lemmas field_reads_any = reads_into [OF scalar_reads(1)] reads_into [OF scalar_reads(8)] reads_into [OF scalar_reads(9)]

lemma reads_marker: "k [] = y \<Longrightarrow> reads d (\<lambda>r. read_into read_string_owned r k) (length_delimited []) y"
  using reads_into [OF scalar_reads(8) [OF str_ok_Nil]] by (simp add: as_bytes_def)

section \<open>\<open>ErrorResponse\<close>\<close>

definition ErrorResponse_bytes :: "ErrorResponse \<Rightarrow> byte list" where
  "ErrorResponse_bytes m =
     opt_bytes 1 Varint i32_payload (nonzero (ec_error_code m))
     @ opt_bytes 2 LengthDelimited str_payload (nonempty (ec_error_message m))"

definition ErrorResponse_ok :: "ErrorResponse \<Rightarrow> bool" where
  "ErrorResponse_ok m \<longleftrightarrow> str_ok (ec_error_message m)"

lemma ErrorResponse_reads:
  "reads l (ErrorResponse_step m) (tag_bytes 1 Varint @ i32_payload x1) (m\<lparr>ec_error_code := x1\<rparr>)"
  "str_ok x2 \<Longrightarrow> reads l (ErrorResponse_step m) (tag_bytes 2 LengthDelimited @ str_payload x2) (m\<lparr>ec_error_message := x2\<rparr>)"
  unfolding ErrorResponse_step_def by ((rule reads_field; auto split del: if_split intro!: field_reads_any reads_marker)+)

lemma ErrorResponse_loops:
  assumes "ErrorResponse_ok m"
  shows "loops l ErrorResponse_step ErrorResponse_default (ErrorResponse_bytes m) m"
proof -
  have "loops l ErrorResponse_step ErrorResponse_default (
     opt_bytes 1 Varint i32_payload (nonzero (ec_error_code m))
     @ opt_bytes 2 LengthDelimited str_payload (nonempty (ec_error_message m)) @ []) m"
    by (rule loops_opt_then [where put = "\<lambda>v s. s\<lparr>ec_error_code := (case v of None \<Rightarrow> 0 | Some x \<Rightarrow> x)\<rparr>"],
        use assms in \<open>force intro: ErrorResponse_reads(1) simp: ErrorResponse_ok_def split: if_splits\<close>, simp add: ErrorResponse_default_def,
      rule loops_opt_then [where put = "\<lambda>v s. s\<lparr>ec_error_message := (case v of None \<Rightarrow> [] | Some x \<Rightarrow> x)\<rparr>"],
        use assms in \<open>force intro: ErrorResponse_reads(2) simp: ErrorResponse_ok_def split: if_splits\<close>, simp add: ErrorResponse_default_def,
      rule loops_end, cases m, simp add: ErrorResponse_default_def)
  then show ?thesis by (simp add: ErrorResponse_bytes_def)
qed

interpretation ErrorResponse: field_message ErrorResponse_ok "\<lambda>_. 0" ErrorResponse_bytes
  ErrorResponse_default ErrorResponse_encode ErrorResponse_step "{1, 2}"
proof unfold_locales
  show "ErrorResponse_encode m w = Inr (emit w (ErrorResponse_bytes m))" if "ErrorResponse_ok m" for m w
    using that by (simp add: ErrorResponse_encode_def ErrorResponse_bytes_def ErrorResponse_ok_def field_encodings field_conditionals rep_bytes_option)
  show "loops 0 ErrorResponse_step ErrorResponse_default (ErrorResponse_bytes m) m" if "ErrorResponse_ok m" for m
    using that by (rule ErrorResponse_loops)
  show "sound_step n (ErrorResponse_step m)" for n m
    unfolding ErrorResponse_step_def
    by ((rule sound_case_tag sound_read_into sound_if sound_skip_field sound_reads scalar_sound scalar_sound_weak)+)
  show "reads d (ErrorResponse_step m) (tag_bytes f wt @ v) m"
    if "0 < f" "f < 2 ^ 29" "f \<notin> {1, 2}" "wire_value d wt v" for f d wt v m
    unfolding ErrorResponse_step_def using that by (intro reads_field) (simp_all add: reads_skip_field)
qed

text \<open>As a field it is decoded from scratch, so it has to fit the default limits on its own.\<close>

definition ErrorResponse_fits :: "ErrorResponse \<Rightarrow> bool" where
  "ErrorResponse_fits m \<longleftrightarrow> ErrorResponse_ok m \<and> length (ErrorResponse_bytes m) \<le> 1000000"

lemma ErrorResponse_read_decoded:
  "ErrorResponse_fits x \<Longrightarrow> k x = y \<Longrightarrow>
   reads d (\<lambda>r. read_into (read_decoded ErrorResponse_default (while_unread ErrorResponse_step)) r k) (length_delimited (ErrorResponse_bytes x)) y"
  by (rule reads_decoded_field [OF ErrorResponse.step_sound ErrorResponse.step_fields]) (simp_all add: ErrorResponse_fits_def)

lemma ErrorResponse_encodes:
  "\<forall>x \<in> set xs. ErrorResponse_fits x \<Longrightarrow> f \<noteq> 0 \<Longrightarrow> encode_sub_messages ErrorResponse_encode w f xs
   = Inr (emit w (rep_bytes f LengthDelimited (\<lambda>m. length_delimited (ErrorResponse_bytes m)) xs))"
  by (rule encode_sub_messages_eq) (simp_all add: ErrorResponse_fits_def ErrorResponse.encode_emits)

section \<open>\<open>ServiceResponse\<close>\<close>

definition ServiceResponse_bytes :: "ServiceResponse \<Rightarrow> byte list" where
  "ServiceResponse_bytes m =
     opt_bytes 1 LengthDelimited str_payload (nonempty (sr_name m))"

definition ServiceResponse_ok :: "ServiceResponse \<Rightarrow> bool" where
  "ServiceResponse_ok m \<longleftrightarrow> str_ok (sr_name m)"

lemma ServiceResponse_reads:
  "str_ok x1 \<Longrightarrow> reads l (ServiceResponse_step m) (tag_bytes 1 LengthDelimited @ str_payload x1) (m\<lparr>sr_name := x1\<rparr>)"
  unfolding ServiceResponse_step_def by ((rule reads_field; auto split del: if_split intro!: field_reads_any reads_marker)+)

lemma ServiceResponse_loops:
  assumes "ServiceResponse_ok m"
  shows "loops l ServiceResponse_step ServiceResponse_default (ServiceResponse_bytes m) m"
proof -
  have "loops l ServiceResponse_step ServiceResponse_default (
     opt_bytes 1 LengthDelimited str_payload (nonempty (sr_name m)) @ []) m"
    by (rule loops_opt_then [where put = "\<lambda>v s. s\<lparr>sr_name := (case v of None \<Rightarrow> [] | Some x \<Rightarrow> x)\<rparr>"],
        use assms in \<open>force intro: ServiceResponse_reads simp: ServiceResponse_ok_def split: if_splits\<close>, simp add: ServiceResponse_default_def,
      rule loops_end, cases m, simp add: ServiceResponse_default_def)
  then show ?thesis by (simp add: ServiceResponse_bytes_def)
qed

interpretation ServiceResponse: field_message ServiceResponse_ok "\<lambda>_. 0" ServiceResponse_bytes
  ServiceResponse_default ServiceResponse_encode ServiceResponse_step "{1}"
proof unfold_locales
  show "ServiceResponse_encode m w = Inr (emit w (ServiceResponse_bytes m))" if "ServiceResponse_ok m" for m w
    using that by (simp add: ServiceResponse_encode_def ServiceResponse_bytes_def ServiceResponse_ok_def field_encodings field_conditionals rep_bytes_option)
  show "loops 0 ServiceResponse_step ServiceResponse_default (ServiceResponse_bytes m) m" if "ServiceResponse_ok m" for m
    using that by (rule ServiceResponse_loops)
  show "sound_step n (ServiceResponse_step m)" for n m
    unfolding ServiceResponse_step_def
    by ((rule sound_case_tag sound_read_into sound_if sound_skip_field sound_reads scalar_sound scalar_sound_weak)+)
  show "reads d (ServiceResponse_step m) (tag_bytes f wt @ v) m"
    if "0 < f" "f < 2 ^ 29" "f \<notin> {1}" "wire_value d wt v" for f d wt v m
    unfolding ServiceResponse_step_def using that by (intro reads_field) (simp_all add: reads_skip_field)
qed

text \<open>As a field it is decoded from scratch, so it has to fit the default limits on its own.\<close>

definition ServiceResponse_fits :: "ServiceResponse \<Rightarrow> bool" where
  "ServiceResponse_fits m \<longleftrightarrow> ServiceResponse_ok m \<and> length (ServiceResponse_bytes m) \<le> 1000000"

lemma ServiceResponse_read_decoded:
  "ServiceResponse_fits x \<Longrightarrow> k x = y \<Longrightarrow>
   reads d (\<lambda>r. read_into (read_decoded ServiceResponse_default (while_unread ServiceResponse_step)) r k) (length_delimited (ServiceResponse_bytes x)) y"
  by (rule reads_decoded_field [OF ServiceResponse.step_sound ServiceResponse.step_fields]) (simp_all add: ServiceResponse_fits_def)

lemma ServiceResponse_encodes:
  "\<forall>x \<in> set xs. ServiceResponse_fits x \<Longrightarrow> f \<noteq> 0 \<Longrightarrow> encode_sub_messages ServiceResponse_encode w f xs
   = Inr (emit w (rep_bytes f LengthDelimited (\<lambda>m. length_delimited (ServiceResponse_bytes m)) xs))"
  by (rule encode_sub_messages_eq) (simp_all add: ServiceResponse_fits_def ServiceResponse.encode_emits)

section \<open>\<open>ListServiceResponse\<close>\<close>

definition ListServiceResponse_bytes :: "ListServiceResponse \<Rightarrow> byte list" where
  "ListServiceResponse_bytes m =
     rep_bytes 1 LengthDelimited (\<lambda>m. length_delimited (ServiceResponse_bytes m)) (ls_service m)"

definition ListServiceResponse_ok :: "ListServiceResponse \<Rightarrow> bool" where
  "ListServiceResponse_ok m \<longleftrightarrow> list_all ServiceResponse_fits (ls_service m)"

lemma ListServiceResponse_reads:
  "ServiceResponse_fits x1 \<Longrightarrow> reads l (ListServiceResponse_step m) (tag_bytes 1 LengthDelimited @ (\<lambda>m. length_delimited (ServiceResponse_bytes m)) x1) (m\<lparr>ls_service := ls_service m @ [x1]\<rparr>)"
  unfolding ListServiceResponse_step_def by ((rule reads_field; auto split del: if_split intro!: field_reads_any reads_marker ServiceResponse_read_decoded)+)

lemma ListServiceResponse_loops:
  assumes "ListServiceResponse_ok m"
  shows "loops l ListServiceResponse_step ListServiceResponse_default (ListServiceResponse_bytes m) m"
proof -
  have "loops l ListServiceResponse_step ListServiceResponse_default (
     rep_bytes 1 LengthDelimited (\<lambda>m. length_delimited (ServiceResponse_bytes m)) (ls_service m) @ []) m"
    by (rule loops_rep_then [where put = "\<lambda>v s. s\<lparr>ls_service := v\<rparr>" and get = ls_service],
        (rule ListServiceResponse_reads; use assms in \<open>force simp: ListServiceResponse_ok_def list_all_iff\<close>), simp, simp, simp, simp add: ListServiceResponse_default_def,
      rule loops_end, cases m, simp add: ListServiceResponse_default_def)
  then show ?thesis by (simp add: ListServiceResponse_bytes_def)
qed

interpretation ListServiceResponse: field_message ListServiceResponse_ok "\<lambda>_. 0" ListServiceResponse_bytes
  ListServiceResponse_default ListServiceResponse_encode ListServiceResponse_step "{1}"
proof unfold_locales
  show "ListServiceResponse_encode m w = Inr (emit w (ListServiceResponse_bytes m))" if "ListServiceResponse_ok m" for m w
    using that by (simp add: ListServiceResponse_encode_def ListServiceResponse_bytes_def ListServiceResponse_ok_def field_encodings field_conditionals rep_bytes_option ServiceResponse_encodes list_all_iff pred_option_def)
  show "loops 0 ListServiceResponse_step ListServiceResponse_default (ListServiceResponse_bytes m) m" if "ListServiceResponse_ok m" for m
    using that by (rule ListServiceResponse_loops)
  show "sound_step n (ListServiceResponse_step m)" for n m
    unfolding ListServiceResponse_step_def
    by ((rule sound_case_tag sound_read_into sound_if sound_skip_field sound_reads scalar_sound scalar_sound_weak sound_read_decoded sound_read_decoded [THEN sound_step_sound] ServiceResponse.step_sound)+)
  show "reads d (ListServiceResponse_step m) (tag_bytes f wt @ v) m"
    if "0 < f" "f < 2 ^ 29" "f \<notin> {1}" "wire_value d wt v" for f d wt v m
    unfolding ListServiceResponse_step_def using that by (intro reads_field) (simp_all add: reads_skip_field)
qed

text \<open>As a field it is decoded from scratch, so it has to fit the default limits on its own.\<close>

definition ListServiceResponse_fits :: "ListServiceResponse \<Rightarrow> bool" where
  "ListServiceResponse_fits m \<longleftrightarrow> ListServiceResponse_ok m \<and> length (ListServiceResponse_bytes m) \<le> 1000000"

lemma ListServiceResponse_read_decoded:
  "ListServiceResponse_fits x \<Longrightarrow> k x = y \<Longrightarrow>
   reads d (\<lambda>r. read_into (read_decoded ListServiceResponse_default (while_unread ListServiceResponse_step)) r k) (length_delimited (ListServiceResponse_bytes x)) y"
  by (rule reads_decoded_field [OF ListServiceResponse.step_sound ListServiceResponse.step_fields]) (simp_all add: ListServiceResponse_fits_def)

lemma ListServiceResponse_encodes:
  "\<forall>x \<in> set xs. ListServiceResponse_fits x \<Longrightarrow> f \<noteq> 0 \<Longrightarrow> encode_sub_messages ListServiceResponse_encode w f xs
   = Inr (emit w (rep_bytes f LengthDelimited (\<lambda>m. length_delimited (ListServiceResponse_bytes m)) xs))"
  by (rule encode_sub_messages_eq) (simp_all add: ListServiceResponse_fits_def ListServiceResponse.encode_emits)

section \<open>\<open>FileDescriptorResponse\<close>\<close>

definition FileDescriptorResponse_bytes :: "FileDescriptorResponse \<Rightarrow> byte list" where
  "FileDescriptorResponse_bytes m =
     rep_bytes 1 LengthDelimited length_delimited (fr_file_descriptor_proto m)"

definition FileDescriptorResponse_ok :: "FileDescriptorResponse \<Rightarrow> bool" where
  "FileDescriptorResponse_ok m \<longleftrightarrow> True"

lemma FileDescriptorResponse_reads:
  "reads l (FileDescriptorResponse_step m) (tag_bytes 1 LengthDelimited @ length_delimited x1) (m\<lparr>fr_file_descriptor_proto := fr_file_descriptor_proto m @ [x1]\<rparr>)"
  unfolding FileDescriptorResponse_step_def by ((rule reads_field; auto split del: if_split intro!: field_reads_any reads_marker)+)

lemma FileDescriptorResponse_loops:
  assumes "FileDescriptorResponse_ok m"
  shows "loops l FileDescriptorResponse_step FileDescriptorResponse_default (FileDescriptorResponse_bytes m) m"
proof -
  have "loops l FileDescriptorResponse_step FileDescriptorResponse_default (
     rep_bytes 1 LengthDelimited length_delimited (fr_file_descriptor_proto m) @ []) m"
    by (rule loops_rep_then [where put = "\<lambda>v s. s\<lparr>fr_file_descriptor_proto := v\<rparr>" and get = fr_file_descriptor_proto],
        (rule FileDescriptorResponse_reads; use assms in \<open>force simp: FileDescriptorResponse_ok_def list_all_iff\<close>), simp, simp, simp, simp add: FileDescriptorResponse_default_def,
      rule loops_end, cases m, simp add: FileDescriptorResponse_default_def)
  then show ?thesis by (simp add: FileDescriptorResponse_bytes_def)
qed

interpretation FileDescriptorResponse: field_message FileDescriptorResponse_ok "\<lambda>_. 0" FileDescriptorResponse_bytes
  FileDescriptorResponse_default FileDescriptorResponse_encode FileDescriptorResponse_step "{1}"
proof unfold_locales
  show "FileDescriptorResponse_encode m w = Inr (emit w (FileDescriptorResponse_bytes m))" if "FileDescriptorResponse_ok m" for m w
    using that by (simp add: FileDescriptorResponse_encode_def FileDescriptorResponse_bytes_def FileDescriptorResponse_ok_def field_encodings field_conditionals rep_bytes_option)
  show "loops 0 FileDescriptorResponse_step FileDescriptorResponse_default (FileDescriptorResponse_bytes m) m" if "FileDescriptorResponse_ok m" for m
    using that by (rule FileDescriptorResponse_loops)
  show "sound_step n (FileDescriptorResponse_step m)" for n m
    unfolding FileDescriptorResponse_step_def
    by ((rule sound_case_tag sound_read_into sound_if sound_skip_field sound_reads scalar_sound scalar_sound_weak)+)
  show "reads d (FileDescriptorResponse_step m) (tag_bytes f wt @ v) m"
    if "0 < f" "f < 2 ^ 29" "f \<notin> {1}" "wire_value d wt v" for f d wt v m
    unfolding FileDescriptorResponse_step_def using that by (intro reads_field) (simp_all add: reads_skip_field)
qed

text \<open>As a field it is decoded from scratch, so it has to fit the default limits on its own.\<close>

definition FileDescriptorResponse_fits :: "FileDescriptorResponse \<Rightarrow> bool" where
  "FileDescriptorResponse_fits m \<longleftrightarrow> FileDescriptorResponse_ok m \<and> length (FileDescriptorResponse_bytes m) \<le> 1000000"

lemma FileDescriptorResponse_read_decoded:
  "FileDescriptorResponse_fits x \<Longrightarrow> k x = y \<Longrightarrow>
   reads d (\<lambda>r. read_into (read_decoded FileDescriptorResponse_default (while_unread FileDescriptorResponse_step)) r k) (length_delimited (FileDescriptorResponse_bytes x)) y"
  by (rule reads_decoded_field [OF FileDescriptorResponse.step_sound FileDescriptorResponse.step_fields]) (simp_all add: FileDescriptorResponse_fits_def)

lemma FileDescriptorResponse_encodes:
  "\<forall>x \<in> set xs. FileDescriptorResponse_fits x \<Longrightarrow> f \<noteq> 0 \<Longrightarrow> encode_sub_messages FileDescriptorResponse_encode w f xs
   = Inr (emit w (rep_bytes f LengthDelimited (\<lambda>m. length_delimited (FileDescriptorResponse_bytes m)) xs))"
  by (rule encode_sub_messages_eq) (simp_all add: FileDescriptorResponse_fits_def FileDescriptorResponse.encode_emits)

section \<open>\<open>AllExtensionNumbersResponse\<close>\<close>

definition AllExtensionNumbersResponse_bytes :: "AllExtensionNumbersResponse \<Rightarrow> byte list" where
  "AllExtensionNumbersResponse_bytes m =
     opt_bytes 1 LengthDelimited str_payload (nonempty (an_base_type_name m))
     @ rep_bytes 2 Varint i32_payload (an_extension_number m)"

definition AllExtensionNumbersResponse_ok :: "AllExtensionNumbersResponse \<Rightarrow> bool" where
  "AllExtensionNumbersResponse_ok m \<longleftrightarrow> str_ok (an_base_type_name m)"

lemma AllExtensionNumbersResponse_reads:
  "str_ok x1 \<Longrightarrow> reads l (AllExtensionNumbersResponse_step m) (tag_bytes 1 LengthDelimited @ str_payload x1) (m\<lparr>an_base_type_name := x1\<rparr>)"
  "reads l (AllExtensionNumbersResponse_step m) (tag_bytes 2 Varint @ i32_payload x2) (m\<lparr>an_extension_number := an_extension_number m @ [x2]\<rparr>)"
  unfolding AllExtensionNumbersResponse_step_def by ((rule reads_field; auto split del: if_split intro!: field_reads_any reads_marker)+)

lemma AllExtensionNumbersResponse_loops:
  assumes "AllExtensionNumbersResponse_ok m"
  shows "loops l AllExtensionNumbersResponse_step AllExtensionNumbersResponse_default (AllExtensionNumbersResponse_bytes m) m"
proof -
  have "loops l AllExtensionNumbersResponse_step AllExtensionNumbersResponse_default (
     opt_bytes 1 LengthDelimited str_payload (nonempty (an_base_type_name m))
     @ rep_bytes 2 Varint i32_payload (an_extension_number m) @ []) m"
    by (rule loops_opt_then [where put = "\<lambda>v s. s\<lparr>an_base_type_name := (case v of None \<Rightarrow> [] | Some x \<Rightarrow> x)\<rparr>"],
        use assms in \<open>force intro: AllExtensionNumbersResponse_reads(1) simp: AllExtensionNumbersResponse_ok_def split: if_splits\<close>, simp add: AllExtensionNumbersResponse_default_def,
      rule loops_rep_then [where put = "\<lambda>v s. s\<lparr>an_extension_number := v\<rparr>" and get = an_extension_number],
        (rule AllExtensionNumbersResponse_reads(2); use assms in \<open>force simp: AllExtensionNumbersResponse_ok_def list_all_iff\<close>), simp, simp, simp, simp add: AllExtensionNumbersResponse_default_def,
      rule loops_end, cases m, simp add: AllExtensionNumbersResponse_default_def)
  then show ?thesis by (simp add: AllExtensionNumbersResponse_bytes_def)
qed

interpretation AllExtensionNumbersResponse: field_message AllExtensionNumbersResponse_ok "\<lambda>_. 0" AllExtensionNumbersResponse_bytes
  AllExtensionNumbersResponse_default AllExtensionNumbersResponse_encode AllExtensionNumbersResponse_step "{1, 2}"
proof unfold_locales
  show "AllExtensionNumbersResponse_encode m w = Inr (emit w (AllExtensionNumbersResponse_bytes m))" if "AllExtensionNumbersResponse_ok m" for m w
    using that by (simp add: AllExtensionNumbersResponse_encode_def AllExtensionNumbersResponse_bytes_def AllExtensionNumbersResponse_ok_def field_encodings field_conditionals rep_bytes_option)
  show "loops 0 AllExtensionNumbersResponse_step AllExtensionNumbersResponse_default (AllExtensionNumbersResponse_bytes m) m" if "AllExtensionNumbersResponse_ok m" for m
    using that by (rule AllExtensionNumbersResponse_loops)
  show "sound_step n (AllExtensionNumbersResponse_step m)" for n m
    unfolding AllExtensionNumbersResponse_step_def
    by ((rule sound_case_tag sound_read_into sound_if sound_skip_field sound_reads scalar_sound scalar_sound_weak)+)
  show "reads d (AllExtensionNumbersResponse_step m) (tag_bytes f wt @ v) m"
    if "0 < f" "f < 2 ^ 29" "f \<notin> {1, 2}" "wire_value d wt v" for f d wt v m
    unfolding AllExtensionNumbersResponse_step_def using that by (intro reads_field) (simp_all add: reads_skip_field)
qed

text \<open>As a field it is decoded from scratch, so it has to fit the default limits on its own.\<close>

definition AllExtensionNumbersResponse_fits :: "AllExtensionNumbersResponse \<Rightarrow> bool" where
  "AllExtensionNumbersResponse_fits m \<longleftrightarrow> AllExtensionNumbersResponse_ok m \<and> length (AllExtensionNumbersResponse_bytes m) \<le> 1000000"

lemma AllExtensionNumbersResponse_read_decoded:
  "AllExtensionNumbersResponse_fits x \<Longrightarrow> k x = y \<Longrightarrow>
   reads d (\<lambda>r. read_into (read_decoded AllExtensionNumbersResponse_default (while_unread AllExtensionNumbersResponse_step)) r k) (length_delimited (AllExtensionNumbersResponse_bytes x)) y"
  by (rule reads_decoded_field [OF AllExtensionNumbersResponse.step_sound AllExtensionNumbersResponse.step_fields]) (simp_all add: AllExtensionNumbersResponse_fits_def)

lemma AllExtensionNumbersResponse_encodes:
  "\<forall>x \<in> set xs. AllExtensionNumbersResponse_fits x \<Longrightarrow> f \<noteq> 0 \<Longrightarrow> encode_sub_messages AllExtensionNumbersResponse_encode w f xs
   = Inr (emit w (rep_bytes f LengthDelimited (\<lambda>m. length_delimited (AllExtensionNumbersResponse_bytes m)) xs))"
  by (rule encode_sub_messages_eq) (simp_all add: AllExtensionNumbersResponse_fits_def AllExtensionNumbersResponse.encode_emits)

section \<open>\<open>ExtensionRequest\<close>\<close>

definition ExtensionRequest_bytes :: "ExtensionRequest \<Rightarrow> byte list" where
  "ExtensionRequest_bytes m =
     opt_bytes 1 LengthDelimited str_payload (nonempty (xr_containing_type m))
     @ opt_bytes 2 Varint i32_payload (nonzero (xr_extension_number m))"

definition ExtensionRequest_ok :: "ExtensionRequest \<Rightarrow> bool" where
  "ExtensionRequest_ok m \<longleftrightarrow> str_ok (xr_containing_type m)"

lemma ExtensionRequest_reads:
  "str_ok x1 \<Longrightarrow> reads l (ExtensionRequest_step m) (tag_bytes 1 LengthDelimited @ str_payload x1) (m\<lparr>xr_containing_type := x1\<rparr>)"
  "reads l (ExtensionRequest_step m) (tag_bytes 2 Varint @ i32_payload x2) (m\<lparr>xr_extension_number := x2\<rparr>)"
  unfolding ExtensionRequest_step_def by ((rule reads_field; auto split del: if_split intro!: field_reads_any reads_marker)+)

lemma ExtensionRequest_loops:
  assumes "ExtensionRequest_ok m"
  shows "loops l ExtensionRequest_step ExtensionRequest_default (ExtensionRequest_bytes m) m"
proof -
  have "loops l ExtensionRequest_step ExtensionRequest_default (
     opt_bytes 1 LengthDelimited str_payload (nonempty (xr_containing_type m))
     @ opt_bytes 2 Varint i32_payload (nonzero (xr_extension_number m)) @ []) m"
    by (rule loops_opt_then [where put = "\<lambda>v s. s\<lparr>xr_containing_type := (case v of None \<Rightarrow> [] | Some x \<Rightarrow> x)\<rparr>"],
        use assms in \<open>force intro: ExtensionRequest_reads(1) simp: ExtensionRequest_ok_def split: if_splits\<close>, simp add: ExtensionRequest_default_def,
      rule loops_opt_then [where put = "\<lambda>v s. s\<lparr>xr_extension_number := (case v of None \<Rightarrow> 0 | Some x \<Rightarrow> x)\<rparr>"],
        use assms in \<open>force intro: ExtensionRequest_reads(2) simp: ExtensionRequest_ok_def split: if_splits\<close>, simp add: ExtensionRequest_default_def,
      rule loops_end, cases m, simp add: ExtensionRequest_default_def)
  then show ?thesis by (simp add: ExtensionRequest_bytes_def)
qed

interpretation ExtensionRequest: field_message ExtensionRequest_ok "\<lambda>_. 0" ExtensionRequest_bytes
  ExtensionRequest_default ExtensionRequest_encode ExtensionRequest_step "{1, 2}"
proof unfold_locales
  show "ExtensionRequest_encode m w = Inr (emit w (ExtensionRequest_bytes m))" if "ExtensionRequest_ok m" for m w
    using that by (simp add: ExtensionRequest_encode_def ExtensionRequest_bytes_def ExtensionRequest_ok_def field_encodings field_conditionals rep_bytes_option)
  show "loops 0 ExtensionRequest_step ExtensionRequest_default (ExtensionRequest_bytes m) m" if "ExtensionRequest_ok m" for m
    using that by (rule ExtensionRequest_loops)
  show "sound_step n (ExtensionRequest_step m)" for n m
    unfolding ExtensionRequest_step_def
    by ((rule sound_case_tag sound_read_into sound_if sound_skip_field sound_reads scalar_sound scalar_sound_weak)+)
  show "reads d (ExtensionRequest_step m) (tag_bytes f wt @ v) m"
    if "0 < f" "f < 2 ^ 29" "f \<notin> {1, 2}" "wire_value d wt v" for f d wt v m
    unfolding ExtensionRequest_step_def using that by (intro reads_field) (simp_all add: reads_skip_field)
qed

text \<open>As a field it is decoded from scratch, so it has to fit the default limits on its own.\<close>

definition ExtensionRequest_fits :: "ExtensionRequest \<Rightarrow> bool" where
  "ExtensionRequest_fits m \<longleftrightarrow> ExtensionRequest_ok m \<and> length (ExtensionRequest_bytes m) \<le> 1000000"

lemma ExtensionRequest_read_decoded:
  "ExtensionRequest_fits x \<Longrightarrow> k x = y \<Longrightarrow>
   reads d (\<lambda>r. read_into (read_decoded ExtensionRequest_default (while_unread ExtensionRequest_step)) r k) (length_delimited (ExtensionRequest_bytes x)) y"
  by (rule reads_decoded_field [OF ExtensionRequest.step_sound ExtensionRequest.step_fields]) (simp_all add: ExtensionRequest_fits_def)

lemma ExtensionRequest_encodes:
  "\<forall>x \<in> set xs. ExtensionRequest_fits x \<Longrightarrow> f \<noteq> 0 \<Longrightarrow> encode_sub_messages ExtensionRequest_encode w f xs
   = Inr (emit w (rep_bytes f LengthDelimited (\<lambda>m. length_delimited (ExtensionRequest_bytes m)) xs))"
  by (rule encode_sub_messages_eq) (simp_all add: ExtensionRequest_fits_def ExtensionRequest.encode_emits)

section \<open>\<open>ServerReflectionRequest\<close>\<close>

definition ServerReflectionRequest_bytes :: "ServerReflectionRequest \<Rightarrow> byte list" where
  "ServerReflectionRequest_bytes m =
     opt_bytes 1 LengthDelimited str_payload (nonempty (rq_host m))
     @ opt_bytes 3 LengthDelimited str_payload (nonempty (rq_file_by_filename m))
     @ opt_bytes 4 LengthDelimited str_payload (nonempty (rq_file_containing_symbol m))
     @ opt_bytes 5 LengthDelimited str_payload (nonempty (rq_file_containing_extension_str m))
     @ opt_bytes 6 LengthDelimited (\<lambda>m. length_delimited (ExtensionRequest_bytes m)) (rq_file_containing_extension m)
     @ opt_bytes 7 LengthDelimited str_payload (nonempty (rq_all_extension_numbers_of_type m))
     @ opt_bytes 8 LengthDelimited str_payload (if rq_list_services_marker m then Some '''' else None)"

definition ServerReflectionRequest_ok :: "ServerReflectionRequest \<Rightarrow> bool" where
  "ServerReflectionRequest_ok m \<longleftrightarrow> str_ok (rq_host m) \<and> str_ok (rq_file_by_filename m) \<and> str_ok (rq_file_containing_symbol m) \<and> str_ok (rq_file_containing_extension_str m) \<and> pred_option ExtensionRequest_fits (rq_file_containing_extension m) \<and> str_ok (rq_all_extension_numbers_of_type m)"

lemma ServerReflectionRequest_reads:
  "str_ok x1 \<Longrightarrow> reads l (ServerReflectionRequest_step m) (tag_bytes 1 LengthDelimited @ str_payload x1) (m\<lparr>rq_host := x1\<rparr>)"
  "str_ok x2 \<Longrightarrow> reads l (ServerReflectionRequest_step m) (tag_bytes 3 LengthDelimited @ str_payload x2) (m\<lparr>rq_file_by_filename := x2\<rparr>)"
  "str_ok x3 \<Longrightarrow> reads l (ServerReflectionRequest_step m) (tag_bytes 4 LengthDelimited @ str_payload x3) (m\<lparr>rq_file_containing_symbol := x3\<rparr>)"
  "str_ok x4 \<Longrightarrow> reads l (ServerReflectionRequest_step m) (tag_bytes 5 LengthDelimited @ str_payload x4) (m\<lparr>rq_file_containing_extension_str := x4\<rparr>)"
  "ExtensionRequest_fits x5 \<Longrightarrow> reads l (ServerReflectionRequest_step m) (tag_bytes 6 LengthDelimited @ (\<lambda>m. length_delimited (ExtensionRequest_bytes m)) x5) (m\<lparr>rq_file_containing_extension := Some x5\<rparr>)"
  "str_ok x6 \<Longrightarrow> reads l (ServerReflectionRequest_step m) (tag_bytes 7 LengthDelimited @ str_payload x6) (m\<lparr>rq_all_extension_numbers_of_type := x6\<rparr>)"
  "reads l (ServerReflectionRequest_step m) (tag_bytes 8 LengthDelimited @ str_payload '''') (m\<lparr>rq_list_services_marker := True\<rparr>)"
  unfolding ServerReflectionRequest_step_def by ((rule reads_field; auto split del: if_split intro!: field_reads_any reads_marker ExtensionRequest_read_decoded)+)

lemma ServerReflectionRequest_loops:
  assumes "ServerReflectionRequest_ok m"
  shows "loops l ServerReflectionRequest_step ServerReflectionRequest_default (ServerReflectionRequest_bytes m) m"
proof -
  have "loops l ServerReflectionRequest_step ServerReflectionRequest_default (
     opt_bytes 1 LengthDelimited str_payload (nonempty (rq_host m))
     @ opt_bytes 3 LengthDelimited str_payload (nonempty (rq_file_by_filename m))
     @ opt_bytes 4 LengthDelimited str_payload (nonempty (rq_file_containing_symbol m))
     @ opt_bytes 5 LengthDelimited str_payload (nonempty (rq_file_containing_extension_str m))
     @ opt_bytes 6 LengthDelimited (\<lambda>m. length_delimited (ExtensionRequest_bytes m)) (rq_file_containing_extension m)
     @ opt_bytes 7 LengthDelimited str_payload (nonempty (rq_all_extension_numbers_of_type m))
     @ opt_bytes 8 LengthDelimited str_payload (if rq_list_services_marker m then Some '''' else None) @ []) m"
    by (rule loops_opt_then [where put = "\<lambda>v s. s\<lparr>rq_host := (case v of None \<Rightarrow> [] | Some x \<Rightarrow> x)\<rparr>"],
        use assms in \<open>force intro: ServerReflectionRequest_reads(1) simp: ServerReflectionRequest_ok_def split: if_splits\<close>, simp add: ServerReflectionRequest_default_def,
      rule loops_opt_then [where put = "\<lambda>v s. s\<lparr>rq_file_by_filename := (case v of None \<Rightarrow> [] | Some x \<Rightarrow> x)\<rparr>"],
        use assms in \<open>force intro: ServerReflectionRequest_reads(2) simp: ServerReflectionRequest_ok_def split: if_splits\<close>, simp add: ServerReflectionRequest_default_def,
      rule loops_opt_then [where put = "\<lambda>v s. s\<lparr>rq_file_containing_symbol := (case v of None \<Rightarrow> [] | Some x \<Rightarrow> x)\<rparr>"],
        use assms in \<open>force intro: ServerReflectionRequest_reads(3) simp: ServerReflectionRequest_ok_def split: if_splits\<close>, simp add: ServerReflectionRequest_default_def,
      rule loops_opt_then [where put = "\<lambda>v s. s\<lparr>rq_file_containing_extension_str := (case v of None \<Rightarrow> [] | Some x \<Rightarrow> x)\<rparr>"],
        use assms in \<open>force intro: ServerReflectionRequest_reads(4) simp: ServerReflectionRequest_ok_def split: if_splits\<close>, simp add: ServerReflectionRequest_default_def,
      rule loops_opt_then [where put = "\<lambda>v s. s\<lparr>rq_file_containing_extension := v\<rparr>"],
        use assms in \<open>force intro: ServerReflectionRequest_reads(5) simp: ServerReflectionRequest_ok_def split: if_splits\<close>, simp add: ServerReflectionRequest_default_def,
      rule loops_opt_then [where put = "\<lambda>v s. s\<lparr>rq_all_extension_numbers_of_type := (case v of None \<Rightarrow> [] | Some x \<Rightarrow> x)\<rparr>"],
        use assms in \<open>force intro: ServerReflectionRequest_reads(6) simp: ServerReflectionRequest_ok_def split: if_splits\<close>, simp add: ServerReflectionRequest_default_def,
      rule loops_opt_then [where put = "\<lambda>v s. s\<lparr>rq_list_services_marker := (v \<noteq> None)\<rparr>"],
        use assms in \<open>force intro: ServerReflectionRequest_reads(7) [simplified] simp: ServerReflectionRequest_ok_def split: if_splits\<close>, simp add: ServerReflectionRequest_default_def,
      rule loops_end, cases m, simp add: ServerReflectionRequest_default_def)
  then show ?thesis by (simp add: ServerReflectionRequest_bytes_def)
qed

interpretation ServerReflectionRequest: field_message ServerReflectionRequest_ok "\<lambda>_. 0" ServerReflectionRequest_bytes
  ServerReflectionRequest_default ServerReflectionRequest_encode ServerReflectionRequest_step "{1, 3, 4, 5, 6, 7, 8}"
proof unfold_locales
  show "ServerReflectionRequest_encode m w = Inr (emit w (ServerReflectionRequest_bytes m))" if "ServerReflectionRequest_ok m" for m w
    using that by (simp add: ServerReflectionRequest_encode_def ServerReflectionRequest_bytes_def ServerReflectionRequest_ok_def field_encodings field_conditionals rep_bytes_option ExtensionRequest_encodes list_all_iff pred_option_def)
  show "loops 0 ServerReflectionRequest_step ServerReflectionRequest_default (ServerReflectionRequest_bytes m) m" if "ServerReflectionRequest_ok m" for m
    using that by (rule ServerReflectionRequest_loops)
  show "sound_step n (ServerReflectionRequest_step m)" for n m
    unfolding ServerReflectionRequest_step_def
    by ((rule sound_case_tag sound_read_into sound_if sound_skip_field sound_reads scalar_sound scalar_sound_weak sound_read_decoded sound_read_decoded [THEN sound_step_sound] ExtensionRequest.step_sound)+)
  show "reads d (ServerReflectionRequest_step m) (tag_bytes f wt @ v) m"
    if "0 < f" "f < 2 ^ 29" "f \<notin> {1, 3, 4, 5, 6, 7, 8}" "wire_value d wt v" for f d wt v m
    unfolding ServerReflectionRequest_step_def using that by (intro reads_field) (simp_all add: reads_skip_field)
qed

section \<open>\<open>ServerReflectionResponse\<close>\<close>

definition ServerReflectionResponse_bytes :: "ServerReflectionResponse \<Rightarrow> byte list" where
  "ServerReflectionResponse_bytes m =
     opt_bytes 1 LengthDelimited str_payload (nonempty (rp_valid_host m))
     @ opt_bytes 2 LengthDelimited (\<lambda>m. length_delimited (ErrorResponse_bytes m)) (rp_error_response m)
     @ opt_bytes 3 LengthDelimited (\<lambda>m. length_delimited (ListServiceResponse_bytes m)) (rp_list_services_response m)
     @ opt_bytes 4 LengthDelimited (\<lambda>m. length_delimited (FileDescriptorResponse_bytes m)) (rp_file_descriptor_response m)
     @ opt_bytes 5 LengthDelimited (\<lambda>m. length_delimited (AllExtensionNumbersResponse_bytes m)) (rp_all_extension_numbers_response m)"

definition ServerReflectionResponse_ok :: "ServerReflectionResponse \<Rightarrow> bool" where
  "ServerReflectionResponse_ok m \<longleftrightarrow> str_ok (rp_valid_host m) \<and> pred_option ErrorResponse_fits (rp_error_response m) \<and> pred_option ListServiceResponse_fits (rp_list_services_response m) \<and> pred_option FileDescriptorResponse_fits (rp_file_descriptor_response m) \<and> pred_option AllExtensionNumbersResponse_fits (rp_all_extension_numbers_response m)"

lemma ServerReflectionResponse_reads:
  "str_ok x1 \<Longrightarrow> reads l (ServerReflectionResponse_step m) (tag_bytes 1 LengthDelimited @ str_payload x1) (m\<lparr>rp_valid_host := x1\<rparr>)"
  "ErrorResponse_fits x2 \<Longrightarrow> reads l (ServerReflectionResponse_step m) (tag_bytes 2 LengthDelimited @ (\<lambda>m. length_delimited (ErrorResponse_bytes m)) x2) (m\<lparr>rp_error_response := Some x2\<rparr>)"
  "ListServiceResponse_fits x3 \<Longrightarrow> reads l (ServerReflectionResponse_step m) (tag_bytes 3 LengthDelimited @ (\<lambda>m. length_delimited (ListServiceResponse_bytes m)) x3) (m\<lparr>rp_list_services_response := Some x3\<rparr>)"
  "FileDescriptorResponse_fits x4 \<Longrightarrow> reads l (ServerReflectionResponse_step m) (tag_bytes 4 LengthDelimited @ (\<lambda>m. length_delimited (FileDescriptorResponse_bytes m)) x4) (m\<lparr>rp_file_descriptor_response := Some x4\<rparr>)"
  "AllExtensionNumbersResponse_fits x5 \<Longrightarrow> reads l (ServerReflectionResponse_step m) (tag_bytes 5 LengthDelimited @ (\<lambda>m. length_delimited (AllExtensionNumbersResponse_bytes m)) x5) (m\<lparr>rp_all_extension_numbers_response := Some x5\<rparr>)"
  unfolding ServerReflectionResponse_step_def by ((rule reads_field; auto split del: if_split intro!: field_reads_any reads_marker ErrorResponse_read_decoded ListServiceResponse_read_decoded FileDescriptorResponse_read_decoded AllExtensionNumbersResponse_read_decoded)+)

lemma ServerReflectionResponse_loops:
  assumes "ServerReflectionResponse_ok m"
  shows "loops l ServerReflectionResponse_step ServerReflectionResponse_default (ServerReflectionResponse_bytes m) m"
proof -
  have "loops l ServerReflectionResponse_step ServerReflectionResponse_default (
     opt_bytes 1 LengthDelimited str_payload (nonempty (rp_valid_host m))
     @ opt_bytes 2 LengthDelimited (\<lambda>m. length_delimited (ErrorResponse_bytes m)) (rp_error_response m)
     @ opt_bytes 3 LengthDelimited (\<lambda>m. length_delimited (ListServiceResponse_bytes m)) (rp_list_services_response m)
     @ opt_bytes 4 LengthDelimited (\<lambda>m. length_delimited (FileDescriptorResponse_bytes m)) (rp_file_descriptor_response m)
     @ opt_bytes 5 LengthDelimited (\<lambda>m. length_delimited (AllExtensionNumbersResponse_bytes m)) (rp_all_extension_numbers_response m) @ []) m"
    by (rule loops_opt_then [where put = "\<lambda>v s. s\<lparr>rp_valid_host := (case v of None \<Rightarrow> [] | Some x \<Rightarrow> x)\<rparr>"],
        use assms in \<open>force intro: ServerReflectionResponse_reads(1) simp: ServerReflectionResponse_ok_def split: if_splits\<close>, simp add: ServerReflectionResponse_default_def,
      rule loops_opt_then [where put = "\<lambda>v s. s\<lparr>rp_error_response := v\<rparr>"],
        use assms in \<open>force intro: ServerReflectionResponse_reads(2) simp: ServerReflectionResponse_ok_def split: if_splits\<close>, simp add: ServerReflectionResponse_default_def,
      rule loops_opt_then [where put = "\<lambda>v s. s\<lparr>rp_list_services_response := v\<rparr>"],
        use assms in \<open>force intro: ServerReflectionResponse_reads(3) simp: ServerReflectionResponse_ok_def split: if_splits\<close>, simp add: ServerReflectionResponse_default_def,
      rule loops_opt_then [where put = "\<lambda>v s. s\<lparr>rp_file_descriptor_response := v\<rparr>"],
        use assms in \<open>force intro: ServerReflectionResponse_reads(4) simp: ServerReflectionResponse_ok_def split: if_splits\<close>, simp add: ServerReflectionResponse_default_def,
      rule loops_opt_then [where put = "\<lambda>v s. s\<lparr>rp_all_extension_numbers_response := v\<rparr>"],
        use assms in \<open>force intro: ServerReflectionResponse_reads(5) simp: ServerReflectionResponse_ok_def split: if_splits\<close>, simp add: ServerReflectionResponse_default_def,
      rule loops_end, cases m, simp add: ServerReflectionResponse_default_def)
  then show ?thesis by (simp add: ServerReflectionResponse_bytes_def)
qed

interpretation ServerReflectionResponse: field_message ServerReflectionResponse_ok "\<lambda>_. 0" ServerReflectionResponse_bytes
  ServerReflectionResponse_default ServerReflectionResponse_encode ServerReflectionResponse_step "{1, 2, 3, 4, 5}"
proof unfold_locales
  show "ServerReflectionResponse_encode m w = Inr (emit w (ServerReflectionResponse_bytes m))" if "ServerReflectionResponse_ok m" for m w
    using that by (simp add: ServerReflectionResponse_encode_def ServerReflectionResponse_bytes_def ServerReflectionResponse_ok_def field_encodings field_conditionals rep_bytes_option ErrorResponse_encodes list_all_iff pred_option_def ListServiceResponse_encodes FileDescriptorResponse_encodes AllExtensionNumbersResponse_encodes)
  show "loops 0 ServerReflectionResponse_step ServerReflectionResponse_default (ServerReflectionResponse_bytes m) m" if "ServerReflectionResponse_ok m" for m
    using that by (rule ServerReflectionResponse_loops)
  show "sound_step n (ServerReflectionResponse_step m)" for n m
    unfolding ServerReflectionResponse_step_def
    by ((rule sound_case_tag sound_read_into sound_if sound_skip_field sound_reads scalar_sound scalar_sound_weak sound_read_decoded sound_read_decoded [THEN sound_step_sound] ErrorResponse.step_sound ListServiceResponse.step_sound FileDescriptorResponse.step_sound AllExtensionNumbersResponse.step_sound)+)
  show "reads d (ServerReflectionResponse_step m) (tag_bytes f wt @ v) m"
    if "0 < f" "f < 2 ^ 29" "f \<notin> {1, 2, 3, 4, 5}" "wire_value d wt v" for f d wt v m
    unfolding ServerReflectionResponse_step_def using that by (intro reads_field) (simp_all add: reads_skip_field)
qed

end
