(* ===== verification/Reflection_Properties.thy ===== *)
theory Reflection_Properties
  imports Reflection_Messages
begin

text \<open>
  What server reflection guarantees: a lookup by symbol finds exactly the symbols that the files
  declare (besides the doubled names of services) and returns the first file that declares one, over the wire and back; and where the lookups
  and the field numbers of the messages deviate from the protocol.
\<close>

section \<open>The declared symbols\<close>

definition dotted :: "string \<Rightarrow> string \<Rightarrow> string" where
  "dotted prefix name = (if prefix = [] then name else prefix @ ''.'' @ name)"

abbreviation message_name :: "DescriptorProto \<Rightarrow> string" where
  "message_name m \<equiv> or_default (msg_name (msg_own m))"

text \<open>\<open>lies_in s m t k\<close>: \<open>k\<close>, with the full name \<open>t\<close>, is \<open>m\<close> or lies in \<open>m\<close>, whose full name is \<open>s\<close>.\<close>

inductive lies_in :: "string \<Rightarrow> DescriptorProto \<Rightarrow> string \<Rightarrow> DescriptorProto \<Rightarrow> bool" for s m where
  lies_in_self: "lies_in s m s m"
| lies_in_nested: "lies_in s m t k \<Longrightarrow> n \<in> set (msg_nested_type k) \<Longrightarrow> lies_in s m (dotted t (message_name n)) n"

definition enum_names :: "string \<Rightarrow> EnumDescriptorProto list \<Rightarrow> string set" where
  "enum_names s es = (\<lambda>e. dotted s (or_default (en_name e))) ` set es"

text \<open>The messages and enums declared directly in a message with the full name \<open>s\<close>, and those at any depth.\<close>

definition member_symbols :: "string \<Rightarrow> DescriptorProto \<Rightarrow> string set" where
  "member_symbols s m =
     (\<lambda>n. dotted s (message_name n)) ` set (msg_nested_type m) \<union> enum_names s (msg_enum_type (msg_own m))"

definition inner_symbols :: "string \<Rightarrow> DescriptorProto \<Rightarrow> string set" where
  "inner_symbols s m = {x. \<exists>t k. lies_in s m t k \<and> x \<in> member_symbols t k}"

definition service_symbols :: "string \<Rightarrow> ServiceDescriptorProto \<Rightarrow> string set" where
  "service_symbols pkg svc = (let s = dotted pkg (or_default (svc_name svc))
     in {s} \<union> (\<lambda>m. dotted s (or_default (mth_name m))) ` set (svc_method svc))"

text \<open>
  The symbols a file declares that the protocol lets a client ask for: services, methods, messages and enums.
\<close>

definition symbols :: "FileDescriptorProto \<Rightarrow> string set" where
  "symbols f = (let pkg = or_default (file_package f)
     in (\<Union>svc \<in> set (file_service f). service_symbols pkg svc)
      \<union> (\<Union>m \<in> set (file_message_type f). {dotted pkg (message_name m)} \<union> inner_symbols (dotted pkg (message_name m)) m)
      \<union> enum_names pkg (file_enum_type f))"

text \<open>
  The names of the services with the name of the service appended once more, \<open>pkg.S.S\<close>. The lookup finds them too, although
  no declaration has that name (unless the service has a method of its own name).
\<close>

definition doubled_names :: "FileDescriptorProto \<Rightarrow> string set" where
  "doubled_names f = (let pkg = or_default (file_package f)
     in (\<lambda>svc. dotted (dotted pkg (or_default (svc_name svc))) (or_default (svc_name svc))) ` set (file_service f))"

text \<open>No name begins with a dot.\<close>

definition plain_start :: "string \<Rightarrow> bool" where
  "plain_start s \<longleftrightarrow> s = [] \<or> hd s \<noteq> CHR ''.''"

definition enums_plain_start :: "EnumDescriptorProto list \<Rightarrow> bool" where
  "enums_plain_start es \<longleftrightarrow> list_all (\<lambda>e. plain_start (or_default (en_name e))) es"

function names_plain_start :: "DescriptorProto \<Rightarrow> bool" where
  "names_plain_start (DescriptorProto d ns) \<longleftrightarrow>
     plain_start (or_default (msg_name d)) \<and> enums_plain_start (msg_enum_type d) \<and> list_all names_plain_start ns"
  by pat_completeness auto
termination names_plain_start
  by (relation "measure size") (auto dest: size_list_estimation' [of _ _ _ size])

definition well_named :: "FileDescriptorProto \<Rightarrow> bool" where
  "well_named f \<longleftrightarrow> plain_start (or_default (file_package f))
     \<and> list_all names_plain_start (file_message_type f) \<and> enums_plain_start (file_enum_type f)
     \<and> list_all (\<lambda>svc. plain_start (or_default (svc_name svc))
          \<and> list_all (\<lambda>m. plain_start (or_default (mth_name m))) (svc_method svc)) (file_service f)"

section \<open>Names\<close>

lemma trim_plain_start: "plain_start s \<Longrightarrow> trim_dots s = s"
  by (cases s) (auto simp: plain_start_def trim_dots_def)

lemma plain_start_dotted: "plain_start p \<Longrightarrow> plain_start n \<Longrightarrow> plain_start (dotted p n)"
  by (auto simp: plain_start_def dotted_def)

lemma plain_start_simps [simp]: "plain_start []" "or_default None = []" "or_default (Some s) = s"
  by (simp_all add: plain_start_def or_default_def)

lemma symbol_name_plain: "plain_start p \<Longrightarrow> symbol_name p n = dotted p n"
  by (cases p) (auto simp: symbol_name_def dotted_def plain_start_def strip_prefix_def starts_with_def Let_def)

lemma trim_symbol_name: "plain_start p \<Longrightarrow> plain_start n \<Longrightarrow> trim_dots (symbol_name p n) = dotted p n"
  by (simp add: symbol_name_plain trim_plain_start plain_start_dotted)

lemma trim_member: "plain_start p \<Longrightarrow> plain_start n \<Longrightarrow> trim_dots (p @ CHR ''.'' # n) = dotted p n"
  using trim_plain_start [OF plain_start_dotted, of p n] trim_plain_start [of n]
  by (cases "p = []") (simp_all add: dotted_def trim_dots_def)

lemma names_plain_start_name: "names_plain_start m \<Longrightarrow> plain_start (message_name m)"
  by (cases m) simp

section \<open>Lookups\<close>

lemma search_if:
  assumes "\<And>x. x \<in> set xs \<Longrightarrow> body x = (if P x then Some r else None)"
  shows "search body xs = (if \<exists>x \<in> set xs. P x then Some r else None)"
  using assms by (induction xs) auto

lemma lies_in_first:
  "lies_in s m t k \<longleftrightarrow> (t = s \<and> k = m) \<or> (\<exists>n \<in> set (msg_nested_type m). lies_in (dotted s (message_name n)) n t k)"
  (is "?l \<longleftrightarrow> ?r")
proof
  show ?r if ?l
    using that by (induction rule: lies_in.induct) (blast intro: lies_in.intros)+
  have step: "lies_in s m t k" if "lies_in (dotted s (message_name n)) n t k" "n \<in> set (msg_nested_type m)" for n
    using that(1)
  proof (induction rule: lies_in.induct)
    case lies_in_self
    show ?case by (rule lies_in_nested [OF lies_in.lies_in_self that(2)])
  next
    case (lies_in_nested t k n')
    show ?case by (rule lies_in.lies_in_nested [OF lies_in_nested.IH lies_in_nested.hyps(2)])
  qed
  show ?l if ?r
    using that step by (blast intro: lies_in_self)
qed

lemma inner_symbols_unfold:
  "inner_symbols s m = member_symbols s m \<union> (\<Union>n \<in> set (msg_nested_type m). inner_symbols (dotted s (message_name n)) n)"
proof -
  have "x \<in> inner_symbols s m \<longleftrightarrow>
      x \<in> member_symbols s m \<or> (\<exists>n \<in> set (msg_nested_type m). x \<in> inner_symbols (dotted s (message_name n)) n)" for x
    unfolding inner_symbols_def mem_Collect_eq by (subst lies_in_first) blast
  then show ?thesis by blast
qed

lemma search_enums:
  assumes "plain_start p" and "enums_plain_start es" and "file_encoding f = Some b"
  shows "search (enum_symbol f p norm) es = (if norm \<in> enum_names p es then Some (Some b) else None)"
proof -
  have "search (enum_symbol f p norm) es = (if \<exists>e \<in> set es. dotted p (or_default (en_name e)) = norm then Some (Some b) else None)"
    using assms by (intro search_if) (auto simp: enum_symbol_def enums_plain_start_def list_all_iff trim_symbol_name)
  then show ?thesis
    by (auto simp: enum_names_def)
qed

lemma nested_message_symbol_eq:
  assumes "plain_start p" and "names_plain_start m" and "file_encoding f = Some b"
  shows "nested_message_symbol f p m norm = (if norm \<in> inner_symbols p m then Some b else None)"
  using assms
proof (induction f p m norm rule: nested_message_symbol.induct)
  case (1 f p d ns norm)
  have "search (\<lambda>n. let fqn = symbol_name p (message_name n) in if trim_dots fqn = norm then Some (file_encoding f)
          else map_option Some (nested_message_symbol f fqn n norm)) ns
    = (if \<exists>n \<in> set ns. norm \<in> {dotted p (message_name n)} \<union> inner_symbols (dotted p (message_name n)) n then Some (Some b) else None)"
  proof (rule search_if)
    fix n assume n: "n \<in> set ns"
    then have u: "names_plain_start n" "plain_start (message_name n)"
      using "1.prems"(2) by (auto simp: list_all_iff intro: names_plain_start_name)
    have "nested_message_symbol f (dotted p (message_name n)) n norm
        = (if norm \<in> inner_symbols (dotted p (message_name n)) n then Some b else None)"
      if "dotted p (message_name n) \<noteq> norm"
      using "1.IH" [OF n refl] that "1.prems"(1,3) u by (simp add: symbol_name_plain trim_plain_start plain_start_dotted)
    then show "(let fqn = symbol_name p (message_name n) in if trim_dots fqn = norm then Some (file_encoding f)
          else map_option Some (nested_message_symbol f fqn n norm))
      = (if norm \<in> {dotted p (message_name n)} \<union> inner_symbols (dotted p (message_name n)) n then Some (Some b) else None)"
      using "1.prems"(1,3) u by (auto simp: Let_def symbol_name_plain trim_plain_start plain_start_dotted)
  qed
  moreover have "search (enum_symbol f p norm) (msg_enum_type d)
      = (if norm \<in> enum_names p (msg_enum_type d) then Some (Some b) else None)"
    using "1.prems" by (intro search_enums) simp_all
  ultimately show ?case
    by (subst inner_symbols_unfold) (auto simp: member_symbols_def)
qed

lemma top_message_symbol_eq:
  assumes "well_named f" and "file_encoding f = Some b"
  defines "pkg \<equiv> or_default (file_package f)"
  shows "file_bytes_for_message_symbol f pkg norm
    = (if (\<exists>m \<in> set (file_message_type f). norm \<in> {dotted pkg (message_name m)} \<union> inner_symbols (dotted pkg (message_name m)) m)
         \<or> norm \<in> enum_names pkg (file_enum_type f) then Some b else None)"
proof -
  have u: "plain_start pkg" "enums_plain_start (file_enum_type f)"
    using assms(1) by (simp_all add: well_named_def pkg_def)
  have "search (\<lambda>m. let fqn = symbol_name pkg (message_name m) in if trim_dots fqn = norm then Some (file_encoding f)
          else map_option Some (nested_message_symbol f fqn m norm)) (file_message_type f)
    = (if \<exists>m \<in> set (file_message_type f). norm \<in> {dotted pkg (message_name m)} \<union> inner_symbols (dotted pkg (message_name m)) m
       then Some (Some b) else None)"
  proof (rule search_if)
    fix m assume "m \<in> set (file_message_type f)"
    then have m: "names_plain_start m" "plain_start (message_name m)"
      using assms(1) by (auto simp: well_named_def list_all_iff intro: names_plain_start_name)
    then show "(let fqn = symbol_name pkg (message_name m) in if trim_dots fqn = norm then Some (file_encoding f)
          else map_option Some (nested_message_symbol f fqn m norm))
      = (if norm \<in> {dotted pkg (message_name m)} \<union> inner_symbols (dotted pkg (message_name m)) m then Some (Some b) else None)"
      using u(1) by (auto simp: Let_def symbol_name_plain trim_plain_start plain_start_dotted assms(2)
          nested_message_symbol_eq [OF plain_start_dotted m(1) assms(2)])
  qed
  then show ?thesis
    by (simp add: file_bytes_for_message_symbol_def search_enums [OF u assms(2)])
qed

lemma service_symbol_eq:
  assumes "plain_start (or_default (file_package f))" and "plain_start (or_default (svc_name svc))"
    and "list_all (\<lambda>m. plain_start (or_default (mth_name m))) (svc_method svc)" and "file_encoding f = Some b"
  shows "service_symbol f norm svc
    = (if norm \<in> service_symbols (or_default (file_package f)) svc
         \<union> {dotted (dotted (or_default (file_package f)) (or_default (svc_name svc))) (or_default (svc_name svc))}
       then Some (Some b) else None)"
proof -
  define base where "base = dotted (or_default (file_package f)) (or_default (svc_name svc))"
  have base: "plain_start base" "trim_dots (service_fqn f svc) = base"
    using assms(1,2) by (simp_all add: base_def plain_start_dotted service_fqn_def trim_symbol_name)
  have "search (\<lambda>m. if trim_dots (base @ ''.'' @ or_default (mth_name m)) = norm then Some (file_encoding f) else None) (svc_method svc)
    = (if \<exists>m \<in> set (svc_method svc). dotted base (or_default (mth_name m)) = norm then Some (Some b) else None)"
    using assms(3) base(1) by (intro search_if) (simp add: list_all_iff trim_member assms(4))
  then show ?thesis
    unfolding service_symbol_def base(2) Let_def base_def [symmetric] service_symbols_def
    using assms(2) base(1) by (auto simp: trim_member assms(4))
qed

lemma file_symbol_eq:
  assumes "well_named f" and "file_encoding f = Some b"
  shows "(case search (service_symbol f norm) (file_service f) of
      Some r \<Rightarrow> Some r
    | None \<Rightarrow> map_option Some (file_bytes_for_message_symbol f (or_default (file_package f)) norm))
    = (if norm \<in> symbols f \<union> doubled_names f then Some (Some b) else None)"
proof -
  have "search (service_symbol f norm) (file_service f)
    = (if \<exists>svc \<in> set (file_service f). norm \<in> service_symbols (or_default (file_package f)) svc
         \<union> {dotted (dotted (or_default (file_package f)) (or_default (svc_name svc))) (or_default (svc_name svc))}
       then Some (Some b) else None)"
    using assms by (intro search_if service_symbol_eq) (auto simp: well_named_def list_all_iff)
  then show ?thesis
    by (auto simp: top_message_symbol_eq [OF assms] symbols_def doubled_names_def Let_def)
qed

lemma file_bytes_for_symbol_eq:
  assumes "\<forall>f \<in> set (fds_file (rs_set rs)). well_named f \<and> file_encoding f = Some (FileDescriptorProto_bytes f)"
  shows "file_bytes_for_symbol rs s
    = map_option FileDescriptorProto_bytes (find (\<lambda>f. trim_dots s \<in> symbols f \<union> doubled_names f) (fds_file (rs_set rs)))"
proof -
  have "(case search (\<lambda>f. case search (service_symbol f norm) (file_service f) of
        Some r \<Rightarrow> Some r
      | None \<Rightarrow> map_option Some (file_bytes_for_message_symbol f (or_default (file_package f)) norm)) fs of
      Some r \<Rightarrow> r | None \<Rightarrow> None)
    = map_option FileDescriptorProto_bytes (find (\<lambda>f. norm \<in> symbols f \<union> doubled_names f) fs)"
    if "set fs \<subseteq> set (fds_file (rs_set rs))" for fs norm
    using that assms by (induction fs) (simp_all add: file_symbol_eq)
  then show ?thesis
    by (simp add: file_bytes_for_symbol_def Let_def)
qed


section \<open>A symbol over the wire\<close>

definition servable :: "FileDescriptorProto \<Rightarrow> bool" where
  "servable f \<longleftrightarrow> file_fits f \<and> well_named f \<and> length (FileDescriptorProto_bytes f) \<le> 500000"

definition symbol_request :: "string \<Rightarrow> string \<Rightarrow> ServerReflectionRequest" where
  "symbol_request host s = ServerReflectionRequest_default\<lparr>rq_host := host, rq_file_containing_symbol := s\<rparr>"

lemma file_encoding_servable: "servable f \<Longrightarrow> file_encoding f = Some (FileDescriptorProto_bytes f)"
  by (simp add: servable_def file_fits_def file_encoding_def FileDescriptorProto.encode_to_vec_eq)

lemma length_delimited_le: "length (tag_bytes f wt @ length_delimited b) \<le> length b + 20"
  using length_tag_bytes_10 [of f wt] length_varint_le_10 [of "word_of_nat (length b)"] by (simp add: length_delimited_def)

lemma symbol_request_decodes:
  assumes "str_ok host" and "str_ok s" and "length host + length s \<le> 100000"
  shows "encode_to_vec ServerReflectionRequest_encode (symbol_request host s) = Inr (ServerReflectionRequest_bytes (symbol_request host s))"
    and "decode ServerReflectionRequest_default (while_unread ServerReflectionRequest_step)
      (ServerReflectionRequest_bytes (symbol_request host s)) = Inr (symbol_request host s)"
proof -
  have ok: "ServerReflectionRequest_ok (symbol_request host s)"
    using assms by (simp add: ServerReflectionRequest_ok_def symbol_request_def ServerReflectionRequest_default_def)
  have "length (ServerReflectionRequest_bytes (symbol_request host s)) \<le> 1000000"
    using assms(3) length_delimited_le [of 1 LengthDelimited "as_bytes host"] length_delimited_le [of 4 LengthDelimited "as_bytes s"]
    by (simp add: ServerReflectionRequest_bytes_def symbol_request_def ServerReflectionRequest_default_def as_bytes_def)
  then show "decode ServerReflectionRequest_default (while_unread ServerReflectionRequest_step)
      (ServerReflectionRequest_bytes (symbol_request host s)) = Inr (symbol_request host s)"
    using ok by (intro ServerReflectionRequest.decode_eq) simp_all
  show "encode_to_vec ServerReflectionRequest_encode (symbol_request host s) = Inr (ServerReflectionRequest_bytes (symbol_request host s))"
    using ok by (rule ServerReflectionRequest.encode_to_vec_eq)
qed

lemma reflection_stream_single:
  assumes "decode ServerReflectionRequest_default (while_unread ServerReflectionRequest_step) bs = Inr req"
    and "reflection_handle rs req = [resp]" and "ServerReflectionResponse_ok resp"
  shows "reflection_stream rs [Inr bs] = [Inr (ServerReflectionResponse_bytes resp)]"
  using assms by (simp add: core_internal_def map_fault_def ServerReflectionResponse.encode_to_vec_eq)

lemma single_file_ok:
  assumes "str_ok host" and "length host \<le> 100000" and "length b \<le> 500000" and "single_file host b = [resp]"
  shows "ServerReflectionResponse_ok resp \<and> length (ServerReflectionResponse_bytes resp) \<le> 1000000"
proof -
  have l: "length (FileDescriptorResponse_bytes \<lparr>fr_file_descriptor_proto = [b]\<rparr>) \<le> 500020"
    using assms(3) length_delimited_le [of 1 LengthDelimited b] by (simp add: FileDescriptorResponse_bytes_def)
  then have "FileDescriptorResponse_fits \<lparr>fr_file_descriptor_proto = [b]\<rparr>"
    by (simp add: FileDescriptorResponse_fits_def FileDescriptorResponse_ok_def)
  then show ?thesis
    using assms l length_delimited_le [of 1 LengthDelimited "as_bytes host"]
      length_delimited_le [of 4 LengthDelimited "FileDescriptorResponse_bytes \<lparr>fr_file_descriptor_proto = [b]\<rparr>"]
    by (auto simp: single_file_def ServerReflectionResponse_ok_def ServerReflectionResponse_bytes_def
        ServerReflectionResponse_default_def as_bytes_def)
qed

lemma reflection_error_ok:
  assumes "str_ok host" and "length host \<le> 100000" and "str_ok msg" and "length msg \<le> 200000" and "reflection_error host c msg = [resp]"
  shows "ServerReflectionResponse_ok resp \<and> length (ServerReflectionResponse_bytes resp) \<le> 1000000"
proof -
  let ?e = "\<lparr>ec_error_code = c, ec_error_message = msg\<rparr>"
  have l: "length (ErrorResponse_bytes ?e) \<le> 200040"
    using assms(4) length_delimited_le [of 2 LengthDelimited "as_bytes msg"] length_tag_bytes_10 [of 1 Varint] length_varint_le_10 [of "scast c"]
    by (simp add: ErrorResponse_bytes_def as_bytes_def)
  then have "ErrorResponse_fits ?e"
    using assms(3) by (simp add: ErrorResponse_fits_def ErrorResponse_ok_def)
  then show ?thesis
    using assms l length_delimited_le [of 1 LengthDelimited "as_bytes host"] length_delimited_le [of 2 LengthDelimited "ErrorResponse_bytes ?e"]
    by (auto simp: reflection_error_def ServerReflectionResponse_ok_def ServerReflectionResponse_bytes_def
        ServerReflectionResponse_default_def as_bytes_def)
qed

lemma symbol_not_found_ok: "str_ok s \<Longrightarrow> str_ok (''symbol not found: '' @ s)"
proof -
  have "str_ok ''symbol not found: ''" by (rule str_ascii_ok) (simp add: str_ascii_def)
  then show "str_ok s \<Longrightarrow> str_ok (''symbol not found: '' @ s)"
    by (simp add: str_ok_def as_bytes_def utf8_valid_append del: append.simps)
qed


lemma handle_symbol_request:
  "s \<noteq> [] \<Longrightarrow> reflection_handle rs (symbol_request host s) = (case file_bytes_for_symbol rs s of
      Some bytes \<Rightarrow> single_file host bytes
    | None \<Rightarrow> reflection_error host 5 (''symbol not found: '' @ s))"
  by (simp add: reflection_handle_def symbol_request_def ServerReflectionRequest_default_def Let_def split: option.split)

lemma symbol_answer:
  assumes "list_all servable (fds_file (rs_set rs))" and "str_ok host" and "str_ok s" and "s \<noteq> []"
    and "length host + length s \<le> 100000"
    and "\<forall>f \<in> set (fds_file (rs_set rs)). trim_dots s \<in> doubled_names f \<longrightarrow> trim_dots s \<in> symbols f"
  obtains resp where "reflection_handle rs (symbol_request host s) = [resp]"
    and "ServerReflectionResponse_ok resp" and "length (ServerReflectionResponse_bytes resp) \<le> 1000000"
    and "[resp] = (case find (\<lambda>f. trim_dots s \<in> symbols f) (fds_file (rs_set rs)) of
        Some f \<Rightarrow> single_file host (FileDescriptorProto_bytes f)
      | None \<Rightarrow> reflection_error host 5 (''symbol not found: '' @ s))"
proof -
  let ?found = "find (\<lambda>f. trim_dots s \<in> symbols f) (fds_file (rs_set rs))"
  have "file_bytes_for_symbol rs s
      = map_option FileDescriptorProto_bytes (find (\<lambda>f. trim_dots s \<in> symbols f \<union> doubled_names f) (fds_file (rs_set rs)))"
    using assms(1) by (intro file_bytes_for_symbol_eq) (auto simp: list_all_iff file_encoding_servable servable_def)
  also have "find (\<lambda>f. trim_dots s \<in> symbols f \<union> doubled_names f) (fds_file (rs_set rs)) = ?found"
    using assms(6) by (intro find_cong) auto
  finally have "file_bytes_for_symbol rs s = map_option FileDescriptorProto_bytes ?found" .
  then have h: "reflection_handle rs (symbol_request host s) = (case ?found of
      Some f \<Rightarrow> single_file host (FileDescriptorProto_bytes f) | None \<Rightarrow> reflection_error host 5 (''symbol not found: '' @ s))"
    using handle_symbol_request [OF assms(4)] by (auto split: option.split)
  have small: "length (FileDescriptorProto_bytes f) \<le> 500000" if "?found = Some f" for f
    using that assms(1) by (auto simp: find_Some_iff list_all_iff servable_def)
  show thesis
  proof (cases ?found)
    case None
    obtain resp where r: "reflection_error host 5 (''symbol not found: '' @ s) = [resp]"
      by (simp add: reflection_error_def)
    show thesis
      by (rule that [of resp])
        (use reflection_error_ok [OF assms(2) _ symbol_not_found_ok [OF assms(3)] _ r] h r assms(5) None in simp_all)
  next
    case (Some f)
    obtain resp where r: "single_file host (FileDescriptorProto_bytes f) = [resp]"
      by (simp add: single_file_def)
    show thesis
      by (rule that [of resp]) (use single_file_ok [OF assms(2) _ small [OF Some] r] h r assms(5) Some in simp_all)
  qed
qed

text \<open>
  C40: Reflection finds the symbols the files declare, and only them: over a set of well-formed
  files, a request for a symbol that is not the doubled name \<open>pkg.S.S\<close> of a service (or is declared all the same by the file that has that
  service), sent as bytes through the reflection stream, is answered by one
  response that repeats the host. If a file declares the symbol (a service, a method, a message or an
  enum at any depth, leading dots of the request aside), the response carries the bytes
  of the first such file, and they decode to it; otherwise the response is the error 5
  (\<open>NOT_FOUND\<close>) and no file. For doubled names this is false, see \<open>doubled_name_found\<close> below.
\<close>

theorem reflection_answers_symbol:
  assumes "list_all servable (fds_file (rs_set rs))" and "str_ok host" and "str_ok s" and "s \<noteq> []"
    and "length host + length s \<le> 100000"
    and "\<forall>f \<in> set (fds_file (rs_set rs)). trim_dots s \<in> doubled_names f \<longrightarrow> trim_dots s \<in> symbols f"
  shows "\<exists>bs out resp. encode_to_vec ServerReflectionRequest_encode (symbol_request host s) = Inr bs
    \<and> reflection_stream rs [Inr bs] = [Inr out]
    \<and> decode ServerReflectionResponse_default (while_unread ServerReflectionResponse_step) out = Inr resp
    \<and> rp_valid_host resp = host
    \<and> (case find (\<lambda>f. trim_dots s \<in> symbols f) (fds_file (rs_set rs)) of
        Some f \<Rightarrow> rp_error_response resp = None
          \<and> (\<exists>fb. rp_file_descriptor_response resp = Some \<lparr>fr_file_descriptor_proto = [fb]\<rparr>
              \<and> decode FileDescriptorProto_default (while_unread FileDescriptorProto_step) fb = Inr f)
      | None \<Rightarrow> rp_file_descriptor_response resp = None
          \<and> rp_error_response resp = Some \<lparr>ec_error_code = 5, ec_error_message = ''symbol not found: '' @ s\<rparr>)"
proof -
  obtain resp where r: "reflection_handle rs (symbol_request host s) = [resp]" "ServerReflectionResponse_ok resp"
      "length (ServerReflectionResponse_bytes resp) \<le> 1000000"
    and answer: "[resp] = (case find (\<lambda>f. trim_dots s \<in> symbols f) (fds_file (rs_set rs)) of
        Some f \<Rightarrow> single_file host (FileDescriptorProto_bytes f)
      | None \<Rightarrow> reflection_error host 5 (''symbol not found: '' @ s))"
    by (rule symbol_answer [OF assms])
  note request = symbol_request_decodes [OF assms(2,3,5)]
  have "decode ServerReflectionResponse_default (while_unread ServerReflectionResponse_step) (ServerReflectionResponse_bytes resp) = Inr resp"
    using r(2,3) by (intro ServerReflectionResponse.decode_eq) simp_all
  moreover have "decode FileDescriptorProto_default (while_unread FileDescriptorProto_step) (FileDescriptorProto_bytes f) = Inr f"
    if "find (\<lambda>f. trim_dots s \<in> symbols f) (fds_file (rs_set rs)) = Some f" for f
    using that assms(1)
    by (intro FileDescriptorProto.decode_eq) (auto simp: find_Some_iff list_all_iff servable_def file_fits_def)
  ultimately show ?thesis
    using request(1) reflection_stream_single [OF request(2) r(1,2)] answer
    by (auto simp: single_file_def reflection_error_def ServerReflectionResponse_default_def split: option.splits)
qed

text \<open>
  A doubled name is answered with a file although none declares it: the file \<open>service S {}\<close> is returned for \<open>S.S\<close>.
\<close>

lemma doubled_name_found:
  assumes "\<forall>f \<in> set (fds_file (rs_set rs)). well_named f \<and> file_encoding f = Some (FileDescriptorProto_bytes f)"
    and "f \<in> set (fds_file (rs_set rs))" and "trim_dots s \<in> doubled_names f"
  shows "\<exists>g \<in> set (fds_file (rs_set rs)). file_bytes_for_symbol rs s = Some (FileDescriptorProto_bytes g)"
proof -
  obtain g where g: "find (\<lambda>f. trim_dots s \<in> symbols f \<union> doubled_names f) (fds_file (rs_set rs)) = Some g"
    using assms(2,3) by (cases "find (\<lambda>f. trim_dots s \<in> symbols f \<union> doubled_names f) (fds_file (rs_set rs))")
      (auto simp: find_None_iff)
  then have "g \<in> set (fds_file (rs_set rs))" by (auto simp: find_Some_iff)
  moreover have "file_bytes_for_symbol rs s = Some (FileDescriptorProto_bytes g)"
    unfolding file_bytes_for_symbol_eq [OF assms(1)] g by simp
  ultimately show ?thesis by blast
qed

lemma doubled_name_undeclared:
  assumes "f = FileDescriptorProto_default\<lparr>file_service := [\<lparr>svc_name = Some ''S'', svc_method = [], svc_options = None\<rparr>]\<rparr>"
  shows "well_named f" "''S.S'' \<in> doubled_names f" "''S.S'' \<notin> symbols f"
  by (simp_all add: assms well_named_def doubled_names_def symbols_def service_symbols_def enum_names_def dotted_def
      FileDescriptorProto_default_def enums_plain_start_def plain_start_def)

lemma sample_servable: "servable sample_file" "''M'' \<in> symbols sample_file"
proof -
  have "well_named sample_file"
    by (simp add: well_named_def sample_file_def FileDescriptorProto_default_def DescriptorProto_default_def
        enums_plain_start_def plain_start_def)
  then show "servable sample_file"
    using sample_file_fits by (simp add: servable_def)
  show "''M'' \<in> symbols sample_file"
    by (simp add: symbols_def sample_file_def FileDescriptorProto_default_def dotted_def)
qed

theorem reflection_answers_symbol_witness:
  "\<exists>bs out resp fb. encode_to_vec ServerReflectionRequest_encode (symbol_request ''h'' ''M'') = Inr bs
    \<and> reflection_stream \<lparr>rs_set = \<lparr>fds_file = [sample_file]\<rparr>\<rparr> [Inr bs] = [Inr out]
    \<and> decode ServerReflectionResponse_default (while_unread ServerReflectionResponse_step) out = Inr resp
    \<and> rp_file_descriptor_response resp = Some \<lparr>fr_file_descriptor_proto = [fb]\<rparr>
    \<and> decode FileDescriptorProto_default (while_unread FileDescriptorProto_step) fb = Inr sample_file"
proof -
  have "str_ok ''h''" "str_ok ''M''"
    by (intro str_ascii_ok; simp add: str_ascii_def)+
  moreover have "trim_dots ''M'' = ''M''"
    by (simp add: trim_dots_def)
  ultimately show ?thesis
    using reflection_answers_symbol [of "\<lparr>rs_set = \<lparr>fds_file = [sample_file]\<rparr>\<rparr>" "''h''" "''M''"] sample_servable
    by simp blast
qed


section \<open>Extension numbers\<close>

function extensions_in :: "DescriptorProto \<Rightarrow> FieldDescriptorProto list" where
  "extensions_in (DescriptorProto d ns) = msg_extension d @ concat (map extensions_in ns)"
  by pat_completeness auto
termination extensions_in
  by (relation "measure size") (auto dest: size_list_estimation' [of _ _ _ size])

definition file_extensions_all :: "FileDescriptorProto \<Rightarrow> FieldDescriptorProto list" where
  "file_extensions_all f = file_extension f @ concat (map extensions_in (file_message_type f))"

definition numbers_for :: "string \<Rightarrow> FieldDescriptorProto list \<Rightarrow> i32 set" where
  "numbers_for norm exts =
     {n. \<exists>e \<in> set exts. fld_number e = Some n \<and> (\<exists>t. fld_extendee e = Some t \<and> trim_dots t = norm)}"

lemma collect_extension_found:
  "fold (collect_extension norm) xs (found, ns)
    = (found \<or> fst (fold (collect_extension norm) xs (False, ns)), snd (fold (collect_extension norm) xs (False, ns)))"
proof (induction xs arbitrary: found ns)
  case (Cons x xs)
  obtain b ms where x: "collect_extension norm x (False, ns) = (b, ms)" by fastforce
  then have "collect_extension norm x (found, ns) = (found \<or> b, ms)"
    by (auto simp: collect_extension_def split: if_splits option.splits)
  then show ?case
    using Cons.IH [of "found \<or> b" ms] Cons.IH [of b ms] by (simp add: x)
qed simp

lemma fold_collect_nested:
  assumes "\<And>m ns. m \<in> set ms \<Longrightarrow> g m ns = (let (b, ns) = fold (collect_extension norm) (h m) (False, ns) in (Some b, ns))"
  shows "fold (\<lambda>m (found, ns). let (b, ns) = g m ns in (case b of Some b \<Rightarrow> found \<or> b | None \<Rightarrow> found, ns)) ms acc
    = fold (collect_extension norm) (concat (map h ms)) acc"
  using assms
proof (induction ms arbitrary: acc)
  case (Cons m ms)
  obtain found ns where acc: "acc = (found, ns)" by fastforce
  obtain b ns' where b: "fold (collect_extension norm) (h m) (False, ns) = (b, ns')" by fastforce
  have "fold (collect_extension norm) (h m) (found, ns) = (found \<or> b, ns')"
    using collect_extension_found [of norm "h m" found ns] by (simp add: b)
  then show ?case
    using Cons.IH [of "(found \<or> b, ns')"] Cons.prems by (simp add: acc b)
qed simp

lemma nested_extensions_eq:
  "nested_extensions prefix m norm ns = (let (b, ns) = fold (collect_extension norm) (extensions_in m) (False, ns) in (Some b, ns))"
proof (induction prefix m norm ns rule: nested_extensions.induct)
  case (1 prefix d kids norm ns)
  obtain b ms where b: "fold (collect_extension norm) (msg_extension d) (False, ns) = (b, ms)" by fastforce
  have "fold (\<lambda>n (found, ns). let (b, ns) = nested_extensions (symbol_name prefix (message_name n)) n norm ns
        in (case b of Some b \<Rightarrow> found \<or> b | None \<Rightarrow> found, ns)) kids (b, ms)
      = fold (collect_extension norm) (concat (map extensions_in kids)) (b, ms)"
    by (rule fold_collect_nested) (use 1 b in auto)
  then show ?case
    by (simp add: b Let_def case_prod_unfold)
qed

lemma file_extensions_eq:
  "file_extensions norm f acc = fold (collect_extension norm) (file_extensions_all f) acc"
  unfolding file_extensions_def file_extensions_all_def fold_append comp_def
  by (rule fold_collect_nested) (rule nested_extensions_eq)

lemma fold_file_extensions:
  "fold (file_extensions norm) fs acc = fold (collect_extension norm) (concat (map file_extensions_all fs)) acc"
  by (induction fs arbitrary: acc) (simp_all add: file_extensions_eq)

lemma set_insort_number: "set (insort_insert_key sint (n :: i32) ns) = insert n (set ns)"
proof (cases "sint n \<in> sint ` set ns")
  case True
  then have "n \<in> set ns" by (auto simp flip: word_eq_iff_signed)
  then show ?thesis using True by (auto simp: insort_insert_key_def)
next
  case False
  then show ?thesis by (simp add: insort_insert_insort_key set_insort_key)
qed

lemma collect_extension_numbers:
  assumes "sorted (map sint ns)" and "distinct ns" and "fold (collect_extension norm) xs (found, ns) = (found', ns')"
  shows "set ns' = set ns \<union> numbers_for norm xs \<and> sorted (map sint ns') \<and> distinct ns' \<and> (found' \<longleftrightarrow> found \<or> numbers_for norm xs \<noteq> {})"
  using assms
proof (induction xs arbitrary: found ns)
  case Nil
  then show ?case by (simp add: numbers_for_def)
next
  case (Cons x xs)
  define new where "new = numbers_for norm [x]"
  obtain b ms where x: "collect_extension norm x (found, ns) = (b, ms)" by fastforce
  have "set ms = set ns \<union> new" "sorted (map sint ms)" "distinct ms" "b \<longleftrightarrow> found \<or> new \<noteq> {}"
    using x Cons.prems(1,2)
    by (auto simp: collect_extension_def new_def numbers_for_def set_insort_number
        split: if_splits option.splits intro!: sorted_insort_insert_key distinct_insort_insert)
  moreover have "numbers_for norm (x # xs) = new \<union> numbers_for norm xs"
    by (auto simp: new_def numbers_for_def)
  ultimately show ?case
    using Cons.IH [of ms b] Cons.prems(3) x by auto
qed

text \<open>
  The answer to a request for extension numbers lists, in ascending order and without repetition,
  exactly the numbers of the extensions that the files declare for the type, at any depth; there is none if
  the set is empty, whether the type exists or not.
\<close>

lemma all_extension_numbers_exact:
  defines "declared rs t \<equiv> numbers_for (trim_dots t) (concat (map file_extensions_all (fds_file (rs_set rs))))"
  shows "case all_extension_numbers rs t of
      None \<Rightarrow> declared rs t = {}
    | Some r \<Rightarrow> an_base_type_name r = trim_dots t \<and> set (an_extension_number r) = declared rs t
        \<and> sorted (map sint (an_extension_number r)) \<and> distinct (an_extension_number r) \<and> declared rs t \<noteq> {}"
proof -
  obtain found ns where f: "fold (file_extensions (trim_dots t)) (fds_file (rs_set rs)) (False, []) = (found, ns)" by fastforce
  from collect_extension_numbers [OF _ _ this [unfolded fold_file_extensions]] show ?thesis
    by (auto simp: all_extension_numbers_def f declared_def Let_def)
qed

section \<open>Deviations from the protocol\<close>

text \<open>A lookup by extension is a lookup of the type it extends; the number of the extension plays no role.\<close>

lemma extension_lookup_is_symbol_lookup:
  "reflection_handle rs (ServerReflectionRequest_default\<lparr>rq_host := host,
      rq_file_containing_extension := Some \<lparr>xr_containing_type = s, xr_extension_number = n\<rparr>\<rparr>)
    = (case file_bytes_for_symbol rs s of
        Some bytes \<Rightarrow> single_file host bytes
      | None \<Rightarrow> reflection_error host 5 (''extension host not found: '' @ s))"
  by (simp add: reflection_handle_def ServerReflectionRequest_default_def Let_def file_bytes_for_symbol_query_def split: option.split)

text \<open>
  In the published protocol \<open>grpc.reflection.v1alpha\<close> a request to list the services sets field 7;
  here field 7 asks for extension numbers, so the request \<open>*\<close> of a standard client is answered
  with an error whatever services there are.
\<close>

lemma standard_list_services_refused:
  assumes "numbers_for ''*'' (concat (map file_extensions_all (fds_file (rs_set rs)))) = {}"
  shows "\<exists>out resp. reflection_stream rs [Inr (tag_bytes 7 LengthDelimited @ length_delimited (as_bytes ''*''))] = [Inr out]
    \<and> decode ServerReflectionResponse_default (while_unread ServerReflectionResponse_step) out = Inr resp
    \<and> rp_list_services_response resp = None
    \<and> rp_error_response resp = Some \<lparr>ec_error_code = 5, ec_error_message = ''type not found: *''\<rparr>"
proof -
  let ?req = "ServerReflectionRequest_default\<lparr>rq_all_extension_numbers_of_type := ''*''\<rparr>"
  let ?bytes = "tag_bytes 7 LengthDelimited @ length_delimited (as_bytes ''*'')"
  have ok: "str_ok ''*''" "str_ok ''type not found: *''"
    by (intro str_ascii_ok; simp add: str_ascii_def)+
  have bytes: "ServerReflectionRequest_bytes ?req = ?bytes"
    by (simp add: ServerReflectionRequest_bytes_def ServerReflectionRequest_default_def)
  have "decode ServerReflectionRequest_default (while_unread ServerReflectionRequest_step) (ServerReflectionRequest_bytes ?req) = Inr ?req"
  proof (rule ServerReflectionRequest.decode_eq)
    show "ServerReflectionRequest_ok ?req"
      using ok(1) by (simp add: ServerReflectionRequest_ok_def ServerReflectionRequest_default_def)
    show "length (ServerReflectionRequest_bytes ?req) \<le> 1000000"
      using length_delimited_le [of 7 LengthDelimited "as_bytes ''*''"] by (simp add: bytes as_bytes_def)
  qed simp
  note req = this [unfolded bytes]
  have "trim_dots ''*'' = ''*''" by (simp add: trim_dots_def)
  then have "all_extension_numbers rs ''*'' = None"
    using all_extension_numbers_exact [where rs = rs and t = "''*''"] assms by (auto split: option.splits)
  moreover obtain resp where r: "reflection_error [] 5 ''type not found: *'' = [resp]"
    by (simp add: reflection_error_def)
  ultimately have h: "reflection_handle rs ?req = [resp]"
    by (simp add: reflection_handle_def ServerReflectionRequest_default_def Let_def)
  have "ServerReflectionResponse_ok resp \<and> length (ServerReflectionResponse_bytes resp) \<le> 1000000"
    by (rule reflection_error_ok [OF _ _ ok(2) _ r]) simp_all
  then have "decode ServerReflectionResponse_default (while_unread ServerReflectionResponse_step) (ServerReflectionResponse_bytes resp) = Inr resp"
    and "reflection_stream rs [Inr ?bytes] = [Inr (ServerReflectionResponse_bytes resp)]"
    using reflection_stream_single [OF req h] by (auto intro: ServerReflectionResponse.decode_eq)
  then show ?thesis
    using r by (auto simp: reflection_error_def ServerReflectionResponse_default_def)
qed

end
