(* ===== verification/Lint.thy ===== *)
theory Lint
  imports Descriptor_Types
begin

text \<open>
  Breaking-change detection (\<open>crates/tpt-proto-lint/src/lib.rs\<close>): the findings about the step from
  an old file descriptor to a new one. The functions of the source push findings on a report; here
  each returns the findings it pushes, in order. \<open>dbg\<close> is the debug rendering of a string, which
  one message contains.
\<close>

section \<open>Findings\<close>

datatype lint_severity = SevSafe | SevWarning | SevBreaking

fun severity_tag :: "lint_severity \<Rightarrow> string" where
  "severity_tag SevSafe = ''SAFE''"
| "severity_tag SevWarning = ''WARNING''"
| "severity_tag SevBreaking = ''BREAKING''"

record finding =
  fi_severity :: lint_severity
  fi_code :: string
  fi_message :: string

type_synonym lint_findings = "finding list"

definition new_finding :: "lint_severity \<Rightarrow> string \<Rightarrow> string \<Rightarrow> finding" where
  "new_finding sev code msg = \<lparr>fi_severity = sev, fi_code = code, fi_message = msg\<rparr>"

definition has_breaking :: "lint_findings \<Rightarrow> bool" where
  "has_breaking fs \<longleftrightarrow> list_ex (\<lambda>f. fi_severity f = SevBreaking) fs"

definition render :: "lint_findings \<Rightarrow> string" where
  "render fs =
     (if fs = [] then ''(no changes detected)'' @ [CHR 0x0A]
      else concat (map (\<lambda>f. ''['' @ severity_tag (fi_severity f) @ ''] '' @ fi_code f @ '': '' @ fi_message f
             @ [CHR 0x0A]) fs))"

definition json_escape_char :: "char \<Rightarrow> string" where
  "json_escape_char c =
     (if c = CHR 0x22 then [CHR 0x5C, CHR 0x22]
      else if c = CHR 0x5C then [CHR 0x5C, CHR 0x5C]
      else if c = CHR 0x0A then [CHR 0x5C, CHR ''n'']
      else if c = CHR 0x0D then [CHR 0x5C, CHR ''r'']
      else if c = CHR 0x09 then [CHR 0x5C, CHR ''t'']
      else [c])"

definition serde_json_escape :: "string \<Rightarrow> string" where
  "serde_json_escape s = [CHR 0x22] @ concat (map json_escape_char s) @ [CHR 0x22]"

definition render_json_finding :: "nat \<Rightarrow> nat \<times> finding \<Rightarrow> string" where
  "render_json_finding n p = (case p of (i, f) \<Rightarrow>
     (let q = [CHR 0x22]
      in ''  {'' @ q @ ''severity'' @ q @ '':'' @ q @ severity_tag (fi_severity f) @ q @ '','' @ q @ ''code'' @ q @ '':''
         @ q @ fi_code f @ q @ '','' @ q @ ''message'' @ q @ '':'' @ serde_json_escape (fi_message f) @ ''}'' @ [CHR 0x0A]
         @ (if i + 1 < n then '','' else []) @ [CHR 0x0A]))"

definition render_json :: "lint_findings \<Rightarrow> string" where
  "render_json fs =
     ''['' @ [CHR 0x0A] @ concat (map (render_json_finding (length fs)) (enumerate 0 fs)) @ '']'' @ [CHR 0x0A]"

section \<open>Fields\<close>

definition name_of :: "string option \<Rightarrow> string" where
  "name_of n = (case n of Some s \<Rightarrow> s | None \<Rightarrow> [])"

definition number_of :: "i32 option \<Rightarrow> i32" where
  "number_of n = (case n of Some v \<Rightarrow> v | None \<Rightarrow> 0)"

definition show_i32 :: "i32 \<Rightarrow> string" where
  "show_i32 n = show_int (sint n)"

definition ticked :: "string \<Rightarrow> string" where
  "ticked s = [CHR 0x60] @ s @ [CHR 0x60]"

definition debug_option :: "('a \<Rightarrow> string) \<Rightarrow> 'a option \<Rightarrow> string" where
  "debug_option f x = (case x of Some v \<Rightarrow> ''Some('' @ f v @ '')'' | None \<Rightarrow> ''None'')"

fun FieldType_debug :: "FieldType \<Rightarrow> string" where
  "FieldType_debug TDouble = ''Double''"
| "FieldType_debug TFloat = ''Float''"
| "FieldType_debug TInt64 = ''Int64''"
| "FieldType_debug TUint64 = ''Uint64''"
| "FieldType_debug TInt32 = ''Int32''"
| "FieldType_debug TFixed64 = ''Fixed64''"
| "FieldType_debug TFixed32 = ''Fixed32''"
| "FieldType_debug TBool = ''Bool''"
| "FieldType_debug TString = ''String''"
| "FieldType_debug TGroup = ''Group''"
| "FieldType_debug TMessage = ''Message''"
| "FieldType_debug TBytes = ''Bytes''"
| "FieldType_debug TUint32 = ''Uint32''"
| "FieldType_debug TEnum = ''Enum''"
| "FieldType_debug TSfixed32 = ''Sfixed32''"
| "FieldType_debug TSfixed64 = ''Sfixed64''"
| "FieldType_debug TSint32 = ''Sint32''"
| "FieldType_debug TSint64 = ''Sint64''"

fun Label_debug :: "Label \<Rightarrow> string" where
  "Label_debug Optional = ''Optional''"
| "Label_debug Required = ''Required''"
| "Label_debug Repeated = ''Repeated''"

definition push_if :: "bool \<Rightarrow> finding \<Rightarrow> lint_findings" where
  "push_if b f = (if b then [f] else [])"

definition json_name_findings :: "string \<Rightarrow> string option \<Rightarrow> string option \<Rightarrow> lint_findings" where
  "json_name_findings place a b = (case (a, b) of
      (Some x, Some y) \<Rightarrow> push_if (x \<noteq> y) (new_finding SevBreaking ''JSON_NAME_CHANGED''
         (place @ '' json_name changed from '' @ ticked x @ '' to '' @ ticked y))
    | (Some x, None) \<Rightarrow> [new_finding SevWarning ''JSON_NAME_CHANGED''
         (place @ '' explicit json_name '' @ ticked x @ '' removed; JSON key now derived from the field name'')]
    | _ \<Rightarrow> [])"

definition default_text :: "string option \<Rightarrow> string" where
  "default_text v = (case v of Some s \<Rightarrow> s | None \<Rightarrow> ''(unset)'')"

definition check_field_compat :: "(string \<Rightarrow> string) \<Rightarrow> string \<Rightarrow> FieldDescriptorProto \<Rightarrow> FieldDescriptorProto \<Rightarrow> lint_findings" where
  "check_field_compat dbg msg old new =
     (let place = ''message '' @ ticked msg @ '': field '' @ ticked (name_of (fld_name new))
      in push_if (fld_type old \<noteq> fld_type new) (new_finding SevBreaking ''FIELD_TYPE_CHANGED''
           (place @ '' type changed from '' @ debug_option FieldType_debug (fld_type old) @ '' to ''
              @ debug_option FieldType_debug (fld_type new)))
         @ push_if (fld_label old \<noteq> fld_label new) (new_finding SevBreaking ''FIELD_LABEL_CHANGED''
           (place @ '' label changed from '' @ debug_option Label_debug (fld_label old) @ '' to ''
              @ debug_option Label_debug (fld_label new)))
         @ push_if (fld_type_name old \<noteq> fld_type_name new) (new_finding SevBreaking ''FIELD_TYPE_NAME_CHANGED''
           (place @ '' type name changed from '' @ debug_option dbg (fld_type_name old) @ '' to ''
              @ debug_option dbg (fld_type_name new)))
         @ json_name_findings place (fld_json_name old) (fld_json_name new)
         @ push_if (fld_default_value old \<noteq> fld_default_value new) (new_finding SevWarning ''DEFAULT_VALUE_CHANGED''
           (place @ '' default changed from '' @ default_text (fld_default_value old) @ '' to ''
              @ default_text (fld_default_value new))))"

text \<open>The fields by number; a later field of a number replaces an earlier one.\<close>

definition fields_by_number :: "FieldDescriptorProto list \<Rightarrow> i32 \<Rightarrow> FieldDescriptorProto option" where
  "fields_by_number fs = map_of (rev (map (\<lambda>f. (number_of (fld_number f), f)) fs))"

definition lint_new_field :: "(string \<Rightarrow> string) \<Rightarrow> string \<Rightarrow> FieldDescriptorProto list \<Rightarrow> FieldDescriptorProto \<Rightarrow> lint_findings" where
  "lint_new_field dbg msg olds nf =
     (let num = number_of (fld_number nf); nname = name_of (fld_name nf)
      in case fields_by_number olds num of
           None \<Rightarrow> [new_finding SevWarning ''FIELD_ADDED''
             (''message '' @ ticked msg @ '': field '' @ ticked nname @ '' (#'' @ show_i32 num @ '') added'')]
         | Some old \<Rightarrow>
             (if name_of (fld_name old) \<noteq> nname
              then [new_finding SevBreaking ''FIELD_NUMBER_REUSED''
                (''message '' @ ticked msg @ '': field number #'' @ show_i32 num @ '' reused (was ''
                   @ ticked (name_of (fld_name old)) @ '', now '' @ ticked nname @ '')'')]
              else check_field_compat dbg msg old nf))"

definition reserves :: "descriptor_fields \<Rightarrow> FieldDescriptorProto \<Rightarrow> bool" where
  "reserves new old =
     (let num = number_of (fld_number old)
      in list_ex (\<lambda>rr. sint (rr_start rr) \<le> sint num
           \<and> (rr_end rr = 0 \<and> rr_start rr = num \<or> sint num \<le> sint (rr_end rr))) (msg_reserved_range new)
         \<or> name_of (fld_name old) \<in> set (msg_reserved_name new))"

definition lint_old_field :: "string \<Rightarrow> descriptor_fields \<Rightarrow> FieldDescriptorProto \<Rightarrow> lint_findings" where
  "lint_old_field msg new old =
     (let num = number_of (fld_number old);
          place = ''message '' @ ticked msg @ '': field '' @ ticked (name_of (fld_name old)) @ '' (#'' @ show_i32 num @ '')''
      in if list_ex (\<lambda>f. fld_number f = Some num) (msg_field new) then []
         else if reserves new old
         then [new_finding SevSafe ''FIELD_RESERVED'' (place @ '' removed but declared reserved'')]
         else [new_finding SevBreaking ''FIELD_REMOVED'' (place @ '' removed without reservation'')])"

definition lint_message_fields :: "(string \<Rightarrow> string) \<Rightarrow> string \<Rightarrow> descriptor_fields \<Rightarrow> descriptor_fields \<Rightarrow> lint_findings" where
  "lint_message_fields dbg msg old new =
     concat (map (lint_new_field dbg msg (msg_field old)) (msg_field new))
     @ concat (map (lint_old_field msg new) (msg_field old))"

section \<open>Reserved numbers, names and extension ranges\<close>

definition range_covers :: "i32 \<Rightarrow> i32 \<Rightarrow> i32 \<Rightarrow> bool" where
  "range_covers start stop num =
     (if sint num < sint start then False
      else if stop = 0 then start = num
      else sint num \<le> sint stop)"

definition range_covers_range :: "i32 \<Rightarrow> i32 \<Rightarrow> i32 \<Rightarrow> i32 \<Rightarrow> bool" where
  "range_covers_range start_a end_a start_b end_b =
     (if \<not> range_covers start_a end_a start_b then False
      else range_covers start_a end_a (if end_b = 0 then start_b else end_b))"

definition range_text :: "i32 \<Rightarrow> i32 \<Rightarrow> string" where
  "range_text start stop = show_i32 start @ ''..'' @ show_i32 (if stop = 0 then start else stop)"

definition lint_reserved_range :: "string \<Rightarrow> descriptor_fields \<Rightarrow> ReservedRange \<Rightarrow> lint_findings" where
  "lint_reserved_range msg new old =
     push_if (\<not> list_ex (\<lambda>n. range_covers_range (rr_start n) (rr_end n) (rr_start old) (rr_end old)) (msg_reserved_range new))
       (new_finding SevBreaking ''RESERVED_RANGE_SHRUNK''
         (''message '' @ ticked msg @ '': reserved range '' @ range_text (rr_start old) (rr_end old)
            @ '' narrowed or removed; previously reserved numbers may now be reused''))"

definition lint_reserved_name :: "string \<Rightarrow> descriptor_fields \<Rightarrow> string \<Rightarrow> lint_findings" where
  "lint_reserved_name msg new name =
     push_if (name \<notin> set (msg_reserved_name new))
       (new_finding SevBreaking ''RESERVED_NAME_REMOVED''
         (''message '' @ ticked msg @ '': reserved name '' @ ticked name @ '' removed; the name may now be reused''))"

definition lint_extension_range :: "string \<Rightarrow> descriptor_fields \<Rightarrow> ExtensionRange \<Rightarrow> lint_findings" where
  "lint_extension_range msg new old =
     push_if (\<not> list_ex (\<lambda>n. range_covers_range (er_start n) (er_end n) (er_start old) (er_end old)) (msg_extension_range new))
       (new_finding SevWarning ''EXTENSION_RANGE_REMOVED''
         (''message '' @ ticked msg @ '': extension range '' @ range_text (er_start old) (er_end old)
            @ '' removed or narrowed''))"

definition check_reserved_and_extensions :: "string \<Rightarrow> descriptor_fields \<Rightarrow> descriptor_fields \<Rightarrow> lint_findings" where
  "check_reserved_and_extensions msg old new =
     concat (map (lint_reserved_range msg new) (msg_reserved_range old))
     @ concat (map (lint_reserved_name msg new) (msg_reserved_name old))
     @ concat (map (lint_extension_range msg new) (msg_extension_range old))"

section \<open>Enums\<close>

definition lint_enum_values :: "string \<Rightarrow> EnumDescriptorProto \<Rightarrow> EnumDescriptorProto \<Rightarrow> lint_findings" where
  "lint_enum_values name old new =
     (let text = \<lambda>v what. ''enum '' @ ticked name @ '': value '' @ ticked (name_of (ev_name v))
                   @ '' (#'' @ show_i32 (number_of (ev_number v)) @ '') '' @ what
      in concat (map (\<lambda>ov. push_if (\<not> list_ex (\<lambda>v. ev_number v = ev_number ov) (en_value new))
              (new_finding SevBreaking ''ENUM_VALUE_REMOVED'' (text ov ''removed''))) (en_value old))
         @ concat (map (\<lambda>nv. push_if (\<not> list_ex (\<lambda>v. ev_number v = ev_number nv) (en_value old))
              (new_finding SevWarning ''ENUM_VALUE_ADDED'' (text nv ''added''))) (en_value new)))"

definition lint_enum :: "EnumDescriptorProto list \<Rightarrow> string \<Rightarrow> EnumDescriptorProto \<Rightarrow> lint_findings" where
  "lint_enum olds prefix new =
     (let name = prefix @ name_of (en_name new)
      in case find (\<lambda>e. en_name e = en_name new) olds of
           None \<Rightarrow> [new_finding SevSafe ''ENUM_ADDED'' (''enum '' @ ticked name @ '' added'')]
         | Some old \<Rightarrow> lint_enum_values name old new)"

definition lint_enums :: "EnumDescriptorProto list \<Rightarrow> EnumDescriptorProto list \<Rightarrow> string \<Rightarrow> lint_findings" where
  "lint_enums olds news prefix =
     concat (map (lint_enum olds prefix) news)
     @ concat (map (\<lambda>old. push_if (\<not> list_ex (\<lambda>e. en_name e = en_name old) news)
         (new_finding SevBreaking ''ENUM_REMOVED'' (''enum '' @ ticked (prefix @ name_of (en_name old)) @ '' removed''))) olds)"

section \<open>Messages\<close>

definition removed_messages :: "DescriptorProto list \<Rightarrow> DescriptorProto list \<Rightarrow> string \<Rightarrow> lint_findings" where
  "removed_messages olds news prefix =
     concat (map (\<lambda>old. push_if (\<not> list_ex (\<lambda>m. msg_name (msg_own m) = msg_name (msg_own old)) news)
       (new_finding SevBreaking ''MESSAGE_REMOVED''
         (''message '' @ ticked (prefix @ name_of (msg_name (msg_own old))) @ '' removed''))) olds)"

text \<open>The body of the loop over the new messages; the nested ones are linted by the same loop.\<close>

fun lint_message :: "(string \<Rightarrow> string) \<Rightarrow> DescriptorProto list \<Rightarrow> string \<Rightarrow> DescriptorProto \<Rightarrow> lint_findings" where
  "lint_message dbg olds prefix (DescriptorProto own inner) =
     (let name = prefix @ name_of (msg_name own)
      in case find (\<lambda>m. msg_name (msg_own m) = msg_name own) olds of
           None \<Rightarrow> [new_finding SevSafe ''MESSAGE_ADDED'' (''message '' @ ticked name @ '' added'')]
         | Some old \<Rightarrow>
             lint_message_fields dbg name (msg_own old) own
             @ check_reserved_and_extensions name (msg_own old) own
             @ concat (map (lint_message dbg (msg_nested_type old) (name @ ''.'')) inner)
             @ removed_messages (msg_nested_type old) inner (name @ ''.'')
             @ lint_enums (msg_enum_type (msg_own old)) (msg_enum_type own) name)"

definition lint_messages :: "(string \<Rightarrow> string) \<Rightarrow> DescriptorProto list \<Rightarrow> DescriptorProto list \<Rightarrow> string \<Rightarrow> lint_findings" where
  "lint_messages dbg olds news prefix = concat (map (lint_message dbg olds prefix) news) @ removed_messages olds news prefix"

section \<open>Services\<close>

definition check_method_compat :: "string \<Rightarrow> MethodDescriptorProto \<Rightarrow> MethodDescriptorProto \<Rightarrow> lint_findings" where
  "check_method_compat service new old =
     (let place = ''service '' @ ticked service @ '': method '' @ ticked (name_of (mth_name new))
      in push_if (mth_input_type old \<noteq> mth_input_type new)
           (new_finding SevBreaking ''METHOD_INPUT_CHANGED'' (place @ '' input type changed''))
         @ push_if (mth_output_type old \<noteq> mth_output_type new)
           (new_finding SevBreaking ''METHOD_OUTPUT_CHANGED'' (place @ '' output type changed''))
         @ push_if (mth_client_streaming old \<noteq> mth_client_streaming new \<or> mth_server_streaming old \<noteq> mth_server_streaming new)
           (new_finding SevBreaking ''METHOD_STREAMING_CHANGED'' (place @ '' streaming mode changed'')))"

definition lint_methods :: "ServiceDescriptorProto \<Rightarrow> ServiceDescriptorProto \<Rightarrow> lint_findings" where
  "lint_methods old new =
     (let service = name_of (svc_name new);
          text = \<lambda>m what. ''service '' @ ticked service @ '': method '' @ ticked (name_of (mth_name m)) @ what
      in concat (map (\<lambda>nm. case find (\<lambda>m. mth_name m = mth_name nm) (svc_method old) of
             None \<Rightarrow> [new_finding SevWarning ''METHOD_ADDED'' (text nm '' added'')]
           | Some om \<Rightarrow> check_method_compat service nm om) (svc_method new))
         @ concat (map (\<lambda>om. push_if (\<not> list_ex (\<lambda>m. mth_name m = mth_name om) (svc_method new))
             (new_finding SevBreaking ''METHOD_REMOVED'' (text om '' removed''))) (svc_method old)))"

definition lint_services :: "ServiceDescriptorProto list \<Rightarrow> ServiceDescriptorProto list \<Rightarrow> lint_findings" where
  "lint_services olds news =
     concat (map (\<lambda>ns. case find (\<lambda>s. svc_name s = svc_name ns) olds of
         None \<Rightarrow> [new_finding SevSafe ''SERVICE_ADDED'' (''service '' @ ticked (name_of (svc_name ns)) @ '' added'')]
       | Some os \<Rightarrow> lint_methods os ns) news)
     @ concat (map (\<lambda>os. push_if (\<not> list_ex (\<lambda>s. svc_name s = svc_name os) news)
         (new_finding SevBreaking ''SERVICE_REMOVED'' (''service '' @ ticked (name_of (svc_name os)) @ '' removed''))) olds)"

section \<open>Files\<close>

definition lint_package :: "FileDescriptorProto \<Rightarrow> FileDescriptorProto \<Rightarrow> lint_findings" where
  "lint_package old new =
     (let a = name_of (file_package old); b = name_of (file_package new)
      in push_if (a \<noteq> b)
           (new_finding SevBreaking ''PACKAGE_CHANGED'' (''package changed from '' @ ticked a @ '' to '' @ ticked b)))"

definition lint :: "(string \<Rightarrow> string) \<Rightarrow> FileDescriptorProto \<Rightarrow> FileDescriptorProto \<Rightarrow> lint_findings" where
  "lint dbg old new =
     lint_package old new
     @ lint_messages dbg (file_message_type old) (file_message_type new) []
     @ lint_enums (file_enum_type old) (file_enum_type new) []
     @ lint_services (file_service old) (file_service new)"

end
