(* ===== verification/Lint_Properties.thy ===== *)
theory Lint_Properties
  imports Lint
begin

text \<open>
  What the lint guarantees: a report without breaking findings means that everything the old file
  declares is still there in the new one, and a well-formed file does not differ from itself.
\<close>

section \<open>Breaking findings\<close>

lemma has_breaking_simps [simp]:
  "\<not> has_breaking []"
  "has_breaking (f # fs) \<longleftrightarrow> fi_severity f = SevBreaking \<or> has_breaking fs"
  "has_breaking (fs @ gs) \<longleftrightarrow> has_breaking fs \<or> has_breaking gs"
  "has_breaking (push_if b f) \<longleftrightarrow> b \<and> fi_severity f = SevBreaking"
  by (auto simp: has_breaking_def push_if_def)

lemma has_breaking_concat [simp]: "has_breaking (concat (map f xs)) \<longleftrightarrow> (\<exists>x \<in> set xs. has_breaking (f x))"
  by (induction xs) auto

lemma new_finding_severity [simp]: "fi_severity (new_finding s c m) = s"
  by (simp add: new_finding_def)

lemma find_distinct:
  assumes "distinct (map f xs)" and "x \<in> set xs"
  shows "find (\<lambda>y. f y = f x) xs = Some x"
  using assms by (induction xs) (auto simp: rev_image_eqI)

lemma fields_by_number_distinct:
  assumes "distinct (map (\<lambda>f. number_of (fld_number f)) fs)" and "f \<in> set fs"
  shows "fields_by_number fs (number_of (fld_number f)) = Some f"
  using assms unfolding fields_by_number_def
  by (subst map_of_eq_Some_iff) (auto simp: rev_map comp_def distinct_rev simp flip: rev_map)

section \<open>What a compatible file keeps\<close>

definition field_kept :: "descriptor_fields \<Rightarrow> FieldDescriptorProto \<Rightarrow> bool" where
  "field_kept new old \<longleftrightarrow>
     (\<exists>f \<in> set (msg_field new). fld_number f = Some (number_of (fld_number old))
        \<and> name_of (fld_name f) = name_of (fld_name old) \<and> fld_type f = fld_type old
        \<and> fld_label f = fld_label old \<and> fld_type_name f = fld_type_name old)
     \<or> reserves new old"

definition enum_kept :: "EnumDescriptorProto list \<Rightarrow> EnumDescriptorProto \<Rightarrow> bool" where
  "enum_kept news old \<longleftrightarrow> (\<exists>e \<in> set news. en_name e = en_name old
     \<and> ev_number ` set (en_value old) \<subseteq> ev_number ` set (en_value e))"

text \<open>The numbers and names the old message reserves are reserved in the new one.\<close>

definition reservations_kept :: "descriptor_fields \<Rightarrow> descriptor_fields \<Rightarrow> bool" where
  "reservations_kept new old \<longleftrightarrow> set (msg_reserved_name old) \<subseteq> set (msg_reserved_name new)
     \<and> (\<forall>r \<in> set (msg_reserved_range old). \<forall>n. range_covers (rr_start r) (rr_end r) n \<longrightarrow>
          (\<exists>s \<in> set (msg_reserved_range new). range_covers (rr_start s) (rr_end s) n))"

fun message_kept :: "DescriptorProto list \<Rightarrow> DescriptorProto \<Rightarrow> bool" where
  "message_kept news (DescriptorProto own inner) \<longleftrightarrow>
     (\<exists>m \<in> set news. msg_name (msg_own m) = msg_name own
        \<and> (\<forall>f \<in> set (msg_field own). field_kept (msg_own m) f)
        \<and> reservations_kept (msg_own m) own
        \<and> (\<forall>e \<in> set (msg_enum_type own). enum_kept (msg_enum_type (msg_own m)) e)
        \<and> (\<forall>d \<in> set inner. message_kept (msg_nested_type m) d))"

definition method_signature :: "MethodDescriptorProto \<Rightarrow> string option \<times> string option \<times> string option \<times> bool option \<times> bool option" where
  "method_signature m = (mth_name m, mth_input_type m, mth_output_type m, mth_client_streaming m, mth_server_streaming m)"

definition service_kept :: "ServiceDescriptorProto list \<Rightarrow> ServiceDescriptorProto \<Rightarrow> bool" where
  "service_kept news old \<longleftrightarrow> (\<exists>s \<in> set news. svc_name s = svc_name old
     \<and> method_signature ` set (svc_method old) \<subseteq> method_signature ` set (svc_method s))"

definition file_kept :: "FileDescriptorProto \<Rightarrow> FileDescriptorProto \<Rightarrow> bool" where
  "file_kept new old \<longleftrightarrow> name_of (file_package new) = name_of (file_package old)
     \<and> (\<forall>m \<in> set (file_message_type old). message_kept (file_message_type new) m)
     \<and> (\<forall>e \<in> set (file_enum_type old). enum_kept (file_enum_type new) e)
     \<and> (\<forall>s \<in> set (file_service old). service_kept (file_service new) s)"

text \<open>No two declarations of a scope share a name, no two fields of a message a number.\<close>

fun message_unambiguous :: "DescriptorProto \<Rightarrow> bool" where
  "message_unambiguous (DescriptorProto own inner) \<longleftrightarrow>
     distinct (map (\<lambda>f. number_of (fld_number f)) (msg_field own))
     \<and> distinct (map en_name (msg_enum_type own))
     \<and> distinct (map (\<lambda>d. msg_name (msg_own d)) inner)
     \<and> (\<forall>d \<in> set inner. message_unambiguous d)"

definition file_unambiguous :: "FileDescriptorProto \<Rightarrow> bool" where
  "file_unambiguous fd \<longleftrightarrow> distinct (map (\<lambda>d. msg_name (msg_own d)) (file_message_type fd))
     \<and> (\<forall>m \<in> set (file_message_type fd). message_unambiguous m)
     \<and> distinct (map en_name (file_enum_type fd))
     \<and> distinct (map svc_name (file_service fd))
     \<and> (\<forall>s \<in> set (file_service fd). distinct (map mth_name (svc_method s)))"

section \<open>Fields, reservations and enums\<close>

lemma check_field_compat_kept:
  "\<not> has_breaking (check_field_compat dbg msg old new) \<Longrightarrow>
   fld_type new = fld_type old \<and> fld_label new = fld_label old \<and> fld_type_name new = fld_type_name old"
  by (auto simp: check_field_compat_def Let_def)

lemma lint_new_field_kept:
  assumes "distinct (map (\<lambda>f. number_of (fld_number f)) olds)" and "old \<in> set olds"
    and "fld_number new = Some (number_of (fld_number old))"
    and "\<not> has_breaking (lint_new_field dbg msg olds new)"
  shows "name_of (fld_name new) = name_of (fld_name old) \<and> \<not> has_breaking (check_field_compat dbg msg old new)"
proof -
  have "number_of (fld_number new) = number_of (fld_number old)"
    by (simp add: assms(3) number_of_def)
  then show ?thesis
    using assms(4) fields_by_number_distinct [OF assms(1,2)] by (auto simp: lint_new_field_def Let_def split: if_splits)
qed

lemma lint_message_fields_kept:
  assumes "distinct (map (\<lambda>f. number_of (fld_number f)) (msg_field old))" and "f \<in> set (msg_field old)"
    and "\<not> has_breaking (lint_message_fields dbg msg old new)"
  shows "field_kept new f"
proof (cases "list_ex (\<lambda>g. fld_number g = Some (number_of (fld_number f))) (msg_field new)")
  case True
  then obtain g where g: "g \<in> set (msg_field new)" "fld_number g = Some (number_of (fld_number f))"
    by (auto simp: list_ex_iff)
  then have "\<not> has_breaking (lint_new_field dbg msg (msg_field old) g)"
    using assms(3) by (simp add: lint_message_fields_def)
  from lint_new_field_kept [OF assms(1,2) g(2) this] have "name_of (fld_name g) = name_of (fld_name f)"
    "fld_type g = fld_type f" "fld_label g = fld_label f" "fld_type_name g = fld_type_name f"
    by (auto dest: check_field_compat_kept)
  with g show ?thesis
    by (auto simp: field_kept_def)
next
  case False
  then show ?thesis
    using assms(2,3) by (auto simp: lint_message_fields_def lint_old_field_def field_kept_def Let_def split: if_splits)
qed

lemma range_covers_trans:
  assumes "range_covers_range a b c d" and "range_covers c d n"
  shows "range_covers a b n"
  using assms by (auto simp: range_covers_range_def range_covers_def simp flip: word_eq_iff_signed split: if_splits)

lemma reservations_linted:
  assumes "\<not> has_breaking (check_reserved_and_extensions msg old new)"
  shows "reservations_kept new old"
  using assms range_covers_trans
  by (fastforce simp: check_reserved_and_extensions_def lint_reserved_range_def lint_reserved_name_def
      reservations_kept_def list_ex_iff)

lemma lint_enums_kept:
  assumes "distinct (map en_name olds)" and "e \<in> set olds" and "\<not> has_breaking (lint_enums olds news prefix)"
  shows "enum_kept news e"
proof -
  obtain n where n: "n \<in> set news" "en_name n = en_name e"
    using assms(2,3) by (auto simp: lint_enums_def list_ex_iff)
  then have "\<not> has_breaking (lint_enum olds prefix n)" "find (\<lambda>x. en_name x = en_name n) olds = Some e"
    using assms find_distinct [OF assms(1,2)] by (auto simp: lint_enums_def)
  then have "\<not> has_breaking (lint_enum_values (prefix @ name_of (en_name n)) e n)"
    by (simp add: lint_enum_def Let_def)
  then have "ev_number ` set (en_value e) \<subseteq> ev_number ` set (en_value n)"
    by (simp add: lint_enum_values_def Let_def list_ex_iff image_subset_iff image_iff) metis
  with n show ?thesis
    by (auto simp: enum_kept_def)
qed

section \<open>Messages, services and files\<close>

lemma lint_message_nested:
  "lint_message dbg olds prefix new =
     (let own = msg_own new; name = prefix @ name_of (msg_name own)
      in case find (\<lambda>m. msg_name (msg_own m) = msg_name own) olds of
           None \<Rightarrow> [new_finding SevSafe ''MESSAGE_ADDED'' (''message '' @ ticked name @ '' added'')]
         | Some old \<Rightarrow>
             lint_message_fields dbg name (msg_own old) own
             @ check_reserved_and_extensions name (msg_own old) own
             @ lint_messages dbg (msg_nested_type old) (msg_nested_type new) (name @ ''.'')
             @ lint_enums (msg_enum_type (msg_own old)) (msg_enum_type own) name)"
  by (cases new) (auto simp: lint_messages_def Let_def split: option.split)

lemma lint_messages_kept:
  assumes "distinct (map (\<lambda>d. msg_name (msg_own d)) olds)" and "old \<in> set olds" and "message_unambiguous old"
    and "\<not> has_breaking (lint_messages dbg olds news prefix)"
  shows "message_kept news old"
  using assms
proof (induction old arbitrary: olds news prefix)
  case (DescriptorProto own inner)
  obtain m where m: "m \<in> set news" "msg_name (msg_own m) = msg_name own"
    using DescriptorProto.prems(2,4) by (force simp: lint_messages_def removed_messages_def list_ex_iff)
  have found: "find (\<lambda>d. msg_name (msg_own d) = msg_name (msg_own m)) olds = Some (DescriptorProto own inner)"
    using find_distinct [OF DescriptorProto.prems(1,2)] m(2) by simp
  let ?name = "prefix @ name_of (msg_name (msg_own m))"
  have "\<not> has_breaking (lint_message dbg olds prefix m)"
    using DescriptorProto.prems(4) m(1) by (simp add: lint_messages_def)
  then have parts: "\<not> has_breaking (lint_message_fields dbg ?name own (msg_own m))"
    "\<not> has_breaking (check_reserved_and_extensions ?name own (msg_own m))"
    "\<not> has_breaking (lint_messages dbg inner (msg_nested_type m) (?name @ ''.''))"
    "\<not> has_breaking (lint_enums (msg_enum_type own) (msg_enum_type (msg_own m)) ?name)"
    by (simp_all add: lint_message_nested found Let_def)
  have "message_kept (msg_nested_type m) d" if "d \<in> set inner" for d
    using DescriptorProto.IH [OF that _ that _ parts(3)] DescriptorProto.prems(3) that by simp
  then show ?case
    using m DescriptorProto.prems(3) lint_message_fields_kept [OF _ _ parts(1)] reservations_linted [OF parts(2)]
      lint_enums_kept [OF _ _ parts(4)]
    by auto
qed

lemma lint_methods_kept:
  assumes "distinct (map mth_name (svc_method old))" and "\<not> has_breaking (lint_methods old new)"
  shows "method_signature ` set (svc_method old) \<subseteq> method_signature ` set (svc_method new)"
proof
  fix sig
  assume "sig \<in> method_signature ` set (svc_method old)"
  then obtain om where om: "om \<in> set (svc_method old)" "sig = method_signature om"
    by blast
  obtain nm where nm: "nm \<in> set (svc_method new)" "mth_name nm = mth_name om"
    using assms(2) om(1) by (auto simp: lint_methods_def Let_def list_ex_iff)
  have "find (\<lambda>m. mth_name m = mth_name nm) (svc_method old) = Some om"
    using find_distinct [OF assms(1) om(1)] nm(2) by simp
  then have "\<not> has_breaking (check_method_compat (name_of (svc_name new)) nm om)"
    using assms(2) nm(1) by (force simp: lint_methods_def Let_def)
  then have "method_signature nm = sig"
    using nm(2) by (simp add: om(2) method_signature_def check_method_compat_def Let_def)
  with nm(1) show "sig \<in> method_signature ` set (svc_method new)"
    by auto
qed

lemma lint_services_kept:
  assumes "distinct (map svc_name olds)" and "old \<in> set olds" and "distinct (map mth_name (svc_method old))"
    and "\<not> has_breaking (lint_services olds news)"
  shows "service_kept news old"
proof -
  obtain n where n: "n \<in> set news" "svc_name n = svc_name old"
    using assms(2,4) by (auto simp: lint_services_def list_ex_iff)
  have "find (\<lambda>s. svc_name s = svc_name n) olds = Some old"
    using find_distinct [OF assms(1,2)] n(2) by simp
  then have "\<not> has_breaking (lint_methods old n)"
    using assms(4) n(1) by (force simp: lint_services_def)
  from n lint_methods_kept [OF assms(3) this] show ?thesis
    unfolding service_kept_def by blast
qed

text \<open>
  C39: A lint report without breaking findings is trustworthy: when no two declarations of
  one scope of the old file share a name or field number, everything in it is kept by the new one. Each
  field is still there under its number with its name, type and label, or is reserved; no reserved
  number or name is given up; enum numbers, methods and their signatures and the package stay.
\<close>

theorem lint_sound:
  assumes "file_unambiguous old" and "\<not> has_breaking (lint dbg old new)"
  shows "file_kept new old"
proof -
  have "\<not> has_breaking (lint_messages dbg (file_message_type old) (file_message_type new) [])"
    "\<not> has_breaking (lint_enums (file_enum_type old) (file_enum_type new) [])"
    "\<not> has_breaking (lint_services (file_service old) (file_service new))"
    "name_of (file_package new) = name_of (file_package old)"
    using assms(2) by (auto simp: lint_def lint_package_def Let_def)
  then show ?thesis
    using assms(1) lint_messages_kept lint_enums_kept lint_services_kept
    unfolding file_kept_def file_unambiguous_def by blast
qed

definition lint_sample :: "FieldDescriptorProto list \<Rightarrow> FileDescriptorProto" where
  "lint_sample flds = FileDescriptorProto_default\<lparr>file_message_type :=
     [DescriptorProto ((msg_own DescriptorProto_default)\<lparr>msg_name := Some ''M'', msg_field := flds\<rparr>) []]\<rparr>"

definition lint_sample_field :: "string \<Rightarrow> i32 \<Rightarrow> FieldDescriptorProto" where
  "lint_sample_field name n = FieldDescriptorProto_default\<lparr>fld_name := Some name, fld_number := Some n\<rparr>"

theorem lint_sound_witness:
  "file_kept (lint_sample [lint_sample_field ''b'' 2, lint_sample_field ''a'' 1]) (lint_sample [lint_sample_field ''a'' 1])"
proof (rule lint_sound)
  show "file_unambiguous (lint_sample [lint_sample_field ''a'' 1])"
    by code_simp
  show "\<not> has_breaking (lint id (lint_sample [lint_sample_field ''a'' 1])
      (lint_sample [lint_sample_field ''b'' 2, lint_sample_field ''a'' 1]))"
    by code_simp
qed

section \<open>Unchanged files\<close>

text \<open>The numbers are present and no range ends before it starts.\<close>

fun message_wf :: "DescriptorProto \<Rightarrow> bool" where
  "message_wf (DescriptorProto own inner) \<longleftrightarrow>
     (\<forall>f \<in> set (msg_field own). fld_number f \<noteq> None)
     \<and> (\<forall>r \<in> set (msg_reserved_range own). rr_end r = 0 \<or> sint (rr_start r) \<le> sint (rr_end r))
     \<and> (\<forall>r \<in> set (msg_extension_range own). er_end r = 0 \<or> sint (er_start r) \<le> sint (er_end r))
     \<and> (\<forall>d \<in> set inner. message_wf d)"

lemma push_if_False [simp]: "push_if False f = []"
  by (simp add: push_if_def)

lemma concat_nil: "(\<And>x. x \<in> set xs \<Longrightarrow> f x = []) \<Longrightarrow> concat (map f xs) = []"
  by simp

lemma range_covers_self: "e = 0 \<or> sint s \<le> sint e \<Longrightarrow> range_covers_range s e s e"
  by (auto simp: range_covers_range_def range_covers_def)

lemma check_field_compat_self: "check_field_compat dbg msg f f = []"
  by (simp add: check_field_compat_def json_name_findings_def Let_def split: option.split)

lemma lint_message_fields_self:
  assumes "distinct (map (\<lambda>f. number_of (fld_number f)) (msg_field m))" and "\<forall>f \<in> set (msg_field m). fld_number f \<noteq> None"
  shows "lint_message_fields dbg msg m m = []"
proof -
  have "lint_new_field dbg msg (msg_field m) f = []" if "f \<in> set (msg_field m)" for f
    using fields_by_number_distinct [OF assms(1) that] by (simp add: lint_new_field_def check_field_compat_self Let_def)
  moreover have "lint_old_field msg m f = []" if "f \<in> set (msg_field m)" for f
    using assms(2) that by (force simp: lint_old_field_def list_ex_iff number_of_def Let_def)
  ultimately show ?thesis
    by (simp add: lint_message_fields_def)
qed

lemma reservations_self:
  assumes "message_wf (DescriptorProto m inner)"
  shows "check_reserved_and_extensions msg m m = []"
  using assms range_covers_self
  by (fastforce simp: check_reserved_and_extensions_def lint_reserved_range_def lint_reserved_name_def
      lint_extension_range_def list_ex_iff push_if_def)

lemma lint_enums_self:
  assumes "distinct (map en_name es)"
  shows "lint_enums es es prefix = []"
proof -
  have "lint_enum es prefix e = []" if "e \<in> set es" for e
    using find_distinct [OF assms that] by (auto simp: lint_enum_def lint_enum_values_def Let_def list_ex_iff push_if_def)
  then show ?thesis
    by (auto simp: lint_enums_def list_ex_iff push_if_def)
qed

lemma lint_message_self:
  assumes "distinct (map (\<lambda>d. msg_name (msg_own d)) ms)" and "m \<in> set ms" and "message_unambiguous m" and "message_wf m"
  shows "lint_message dbg ms prefix m = []"
  using assms
proof (induction m arbitrary: ms prefix)
  case (DescriptorProto own inner)
  have "find (\<lambda>d. msg_name (msg_own d) = msg_name own) ms = Some (DescriptorProto own inner)"
    using find_distinct [OF DescriptorProto.prems(1,2)] by simp
  moreover have "lint_messages dbg inner inner p = []" for p
    using DescriptorProto.IH DescriptorProto.prems(3,4) by (auto simp: lint_messages_def removed_messages_def list_ex_iff push_if_def)
  ultimately show ?case
    using DescriptorProto.prems(3,4) lint_message_fields_self reservations_self [OF DescriptorProto.prems(4)] lint_enums_self
    by (simp add: lint_message_nested Let_def)
qed

lemma lint_methods_self:
  assumes "distinct (map mth_name (svc_method s))"
  shows "lint_methods s s = []"
  using find_distinct [OF assms]
  by (auto simp: lint_methods_def check_method_compat_def Let_def list_ex_iff push_if_def)

text \<open>A well-formed file does not differ from itself.\<close>

lemma lint_unchanged:
  assumes "file_unambiguous fd" and "\<forall>m \<in> set (file_message_type fd). message_wf m"
  shows "lint dbg fd fd = []"
proof -
  have "lint_messages dbg (file_message_type fd) (file_message_type fd) [] = []"
    using assms lint_message_self by (auto simp: lint_messages_def removed_messages_def file_unambiguous_def list_ex_iff push_if_def)
  moreover have "lint_services (file_service fd) (file_service fd) = []"
    using assms(1) find_distinct [of svc_name "file_service fd"] lint_methods_self
    by (auto simp: lint_services_def file_unambiguous_def list_ex_iff push_if_def)
  ultimately show ?thesis
    using assms(1) lint_enums_self by (simp add: lint_def lint_package_def file_unambiguous_def)
qed

end
