(* ===== verification/Lint_Compiled.thy ===== *)
theory Lint_Compiled
  imports Lint_Properties Compiler
begin

text \<open>The lint on the output of the compiler.\<close>

text \<open>
  Ranges that reach \<open>max\<close> are not well-formed: the compiler stores the end \<open>-1\<close>. A file that
  reserves \<open>5 to max\<close> is reported as a breaking change of itself.
\<close>

definition reserved_to_max :: "span proto_file" where
  "reserved_to_max = File ''m'' None None None [] []
     [Message Span_default (Ident ''M'' Span_default) [] [] [] [] [] []
        [\<lparr>ir_start = 5, ir_end = Some 9223372036854775807\<rparr>] [] [] [] False] [] [] []"

lemma reserved_to_max_breaks_itself:
  "map fi_code (lint id (fst (compile reserved_to_max :: FileDescriptorProto \<times> unit diagnostics))
      (fst (compile reserved_to_max :: FileDescriptorProto \<times> unit diagnostics))) = [''RESERVED_RANGE_SHRUNK'']"
  by code_simp

end
