(* ===== verification/Spec2Isabelle.thy ===== *)
theory Spec2Isabelle
  imports Descriptor_Properties Wkt_Properties Reader_Safety Scalar Packed Transport_Http2
    Method Rpc_End_To_End Parser_File Type_Resolution Reflection_Properties Lint_Compiled
begin

text \<open>
  A verification development of the tpt-proto workspace: a Protocol Buffers implementation in Rust,
  from the wire format over the schema language and its compiler to a gRPC stack on HTTP/2.

  \<^bold>\<open>The program.\<close> \<open>tpt-proto-core\<close> is the wire-format runtime: every message type, generated or
  written by hand, encodes itself with its \<open>Writer\<close> and decodes itself with a loop over its
  \<open>Reader\<close>. \<open>tpt-proto-wkt\<close> and \<open>tpt-proto-descriptor\<close> hold such message types: the well-known types
  and the descriptors. \<open>tpt-proto-language\<close> turns \<open>.proto\<close> text into a syntax tree,
  \<open>tpt-proto-fmt\<close> prints its tokens in a layout of its own, \<open>tpt-proto-compiler\<close> makes descriptors of
  a set of trees, and \<open>tpt-proto-lint\<close> compares two descriptors for breaking changes.
  \<open>tpt-proto-grpc\<close> carries encoded messages in frames over HTTP/2, with metadata, deadlines, security,
  retries, observability, a health and a reflection service around them.

  \<^bold>\<open>Conventions.\<close> A struct is a \<open>record\<close> (a \<open>datatype\<close> where it contains itself), an enum a \<open>datatype\<close>
  with the constructors of the source, a fixed-width integer a word of that width, \<open>usize\<close> a natural
  number whose checked arithmetic is written out where it matters. A \<open>String\<close> or \<open>&str\<close> is the list of its
  UTF-8 bytes as characters. A function that can fail returns \<open>('e, 'a) res\<close>: \<open>Inl (Raised e)\<close> is the
  \<open>Err\<close> of the source, \<open>Inl\<close> of a panic is a panic, \<open>Inr\<close> a value; in the parser \<open>Inl Diverges\<close> is a loop that
  never stops. A method on \<open>&mut self\<close> returns the updated state. Definitions keep the names of the
  source, with the type as a prefix where two clash.

  \<^bold>\<open>Shared theories.\<close> \<open>Prelude\<close>: machine types, results, bytes. \<open>Text\<close>: UTF-8 validation, decimal
  formatting and parsing, the predicates of \<open>str\<close>. \<open>Float_Text\<close> and \<open>Float_Show\<close>: \<open>f64\<close> from and to decimal
  text. \<open>Ordered_Map\<close>: \<open>BTreeMap\<close>, with the locale \<open>ordered_map\<close> interpreted on sorted association lists.
  \<open>Hash_Map\<close>: \<open>HashMap\<close> and \<open>HashSet\<close> with an open iteration order. \<open>Reading\<close>: the calculus \<open>reads\<close> and
  \<open>loops\<close>, by which an operation consumes exactly the bytes an encoder wrote. \<open>Sound\<close>: the
  contract of a decoder on arbitrary input, with its rules in \<open>sound_rules\<close>. \<open>Message_Fields\<close>:
  what hand-written messages are made of. \<open>Http_Env\<close>: the third-party functions of the
  HTTP/2 client and server in one record.

  \<^bold>\<open>Wire-format runtime\<close> (\<open>crates/tpt-proto-core/src\<close>): \<open>Core_Error\<close> (\<open>error.rs\<close>), \<open>Varint\<close>, \<open>Wire_Type\<close>,
  \<open>Limits\<close>, \<open>Writer\<close>, \<open>Reader\<close>, \<open>Scalar\<close>, \<open>Packed\<close>, \<open>Unknown\<close> and \<open>Message\<close> model the files of the same
  names. \<open>Reader_State\<close> has the operations of the reader once more with the reader they leave behind after an error, and
  \<open>Reader_Safety\<close> holds what the reader guarantees. Shown are: \<open>decode_varint\<close> accepts exactly the base-128 numbers of
  at most ten bytes and returns them modulo \<open>2 ^ 64\<close>; zigzag, tags, scalars, packed fields and unknown fields are read back as
  written; every reader a client can hold, errors and \<open>set_pos\<close> included, is inside its buffer and depth limit, no operation
  succeeds beyond the byte or field limit, and with capped limits none
  panics; \<open>skip\<close> consumes one value and refuses groups that open more levels than \<open>max_depth\<close> leaves, whatever stands between them. The locale
  \<open>scalar_codec\<close> is the contract of a pair of scalar functions, \<open>message\<close> that of the \<open>Message\<close> trait and
  \<open>field_message\<close> that of a message with the standard field loop; each is interpreted on every codec
  and message type of the model.

  \<^bold>\<open>Message types.\<close> \<open>Wkt\<close>, \<open>Wkt_Value\<close> and \<open>Wkt_Properties\<close> (\<open>tpt-proto-wkt/src/lib.rs\<close>);
  \<open>Descriptor_Types\<close>, \<open>Descriptor\<close> and \<open>Descriptor_Properties\<close> (\<open>tpt-proto-descriptor/src/types.rs\<close> and
  \<open>lib.rs\<close>). Every type decodes what it encodes, skips what it does not know, and decoding returns on every
  input. Types that contain themselves are decoded with fuel, one level for each byte of input;
  the locale \<open>recursive_decoder\<close> shows that the fuel is enough.

  \<^bold>\<open>Language and formatter\<close> (\<open>tpt-proto-language/src\<close>, \<open>tpt-proto-fmt/src/lib.rs\<close>): \<open>Diagnostic\<close>, \<open>Lexer\<close>, \<open>Ast\<close>,
  \<open>Parser\<close> and \<open>Fmt\<close>. \<open>Lexer_Properties\<close>: the lexer returns on every valid text, never panics, and
  its blanks, comments and tokens make up the source without gaps. \<open>Lexer_Local\<close>: a token depends on
  its own text and the next character alone. \<open>Parser_Total\<close>: the parser returns on every source
  whose opening brackets stand behind \<open>= number\<close>, and the list loop of \<open>parse_constant\<close> can run for ever. \<open>Parser_Roundtrip\<close>
  and \<open>Parser_File\<close>: the grammar as functions from trees to tokens, in one canonical order of the declarations, which the parser
  inverts. \<open>Parser_Spans\<close>: what the parser returns depends on the tokens but not on their positions, for every
  source. \<open>Fmt_Properties\<close>: formatting a source without comments and without a number before a dot keeps its tokens, and so
  (\<open>Parser_File\<close>) its tree and diagnostics.

  \<^bold>\<open>Compiler and lint\<close> (\<open>tpt-proto-compiler/src\<close>, \<open>tpt-proto-lint/src/lib.rs\<close>): \<open>Features\<close>
  (\<open>features.rs\<close>), \<open>Compiler\<close> (one file, \<open>lib.rs\<close>), \<open>Pipeline\<close> (a set of files, \<open>pipeline.rs\<close>), \<open>Lint\<close>.
  \<open>Import_Graph\<close>: the search for cycles is exact against the transitive closure of the imports, and
  so is visibility against the public imports. \<open>Type_Resolution\<close>: without an unknown-type error every
  reference of the descriptors names a visible message or enum. \<open>Lint_Properties\<close>: a report
  without breaking findings means that nothing the old file promises is gone. \<open>Lint_Compiled\<close>: the lint on a range up
  to \<open>max\<close> as the compiler writes it.

  \<^bold>\<open>gRPC\<close> (\<open>tpt-proto-grpc/src\<close>): \<open>Metadata\<close>, \<open>Status\<close>, \<open>Codec\<close> (\<open>codec.rs\<close>, \<open>compression.rs\<close>), \<open>Framing\<close>
  (\<open>framed.rs\<close>), \<open>Timeout\<close>, \<open>Method\<close>, \<open>Context\<close>, \<open>Cancel_Token\<close> (\<open>cancellation.rs\<close>), \<open>Security\<close>,
  \<open>Observability\<close>, \<open>Service_Handler\<close> (\<open>service.rs\<close>, \<open>interceptor.rs\<close>), \<open>Server\<close>, \<open>Client\<close>, \<open>Transport_Http2\<close>,
  \<open>Health\<close> and \<open>Reflection\<close>. Metadata, status and timeouts survive their header forms; the deframer is the refinement of the
  one-shot split of a body for every way of cutting it into chunks; \<open>cancelled()\<close> against
  \<open>cancel()\<close> is a step relation whose invariant shows where a wake-up is lost. The locales
  \<open>authenticating\<close>, \<open>authorizing\<close> and \<open>policed\<close> carry the security policy over every implementation of the
  two traits. \<open>Server_Properties\<close> and \<open>Client_Properties\<close> say what each side does alone;
  \<open>Rpc_End_To_End\<close> joins them: what the server sends is what the client reads, so a unary call
  returns the handler's message or its error. \<open>Health\<close> compares a watcher with \<open>Check\<close>.
  \<open>Reflection_Messages\<close> and \<open>Reflection_Properties\<close> (\<open>reflection.rs\<close>): a symbol is found exactly if a file declares it (the doubled names of services aside),
  over the wire and back; extension numbers are listed exactly.

  \<^bold>\<open>Fuel.\<close> Loops over a body, a reader or a list are recursive functions with termination proofs.
  Fuel stands for a recursion in five places. The decoders of recursive messages get one level for each
  remaining byte, and the result does not depend on more (\<open>Message_Fields\<close>, \<open>Wkt_Value\<close>). The loops of the
  parser get one round more than there are tokens left: a round that consumes a token uses one up, and a round
  that consumes none is repeated by the code for ever, for nothing but its diagnostics has changed. Nested constants get the tokens that
  are left, which is always enough; the code recurses on the call stack there without a guard, and the overflow of that stack is not
  modelled (\<open>aggregate_needs_depth\<close> in \<open>Parser_Roundtrip\<close> says how deep it has to go). Nested messages
  get the rest of \<open>MAX_PROTO_NESTING\<close>, which the code itself checks. The traversals of the import
  graph get one level for each file, and \<open>Import_Graph\<close> proves that this is enough.

  \<^bold>\<open>Third-party code\<close> is a parameter: gzip, base64, the checks of the \<open>http\<close> crate on header
  names and values, the order in which the events of an \<open>h2\<close> body arrive, \<open>Notify\<close>,
  \<open>select!\<close> and the broadcast channel of \<open>tokio\<close>, the clock, the debug rendering of strings. What a property needs
  of them (decoding inverts encoding, say) is a premise of it, and its witness puts a concrete function there.

  \<^bold>\<open>Not modelled.\<close> The mappings of dynamic messages (\<open>tpt-proto-reflect\<close>, \<open>tpt-proto-json\<close>,
  \<open>tpt-proto-text\<close>): left out for their size; the JSON side rests on \<open>serde_json\<close>, whose
  numbers and texts would be parameters throughout. The code generator
  (\<open>tpt-proto-codegen-rust\<close>), whose output is Rust text and needs a semantics of Rust
  to be right. Sockets, TLS, files, processes and command lines: \<open>tls.rs\<close>, \<open>transport.rs\<close>,
  the accept loop of \<open>server.rs\<close>, \<open>exchange\<close> in \<open>transport_http2.rs\<close>, the search for imported files in the compiler,
  \<open>tpt-proto-build\<close>, \<open>tpt-proto-cli\<close> and \<open>bin/tpt-grpc.rs\<close>. Drivers of tests and
  measurements: conformance, bench, fuzz and the examples. Memory and stack exhaustion, sources of
  4 GiB and more, and lock poisoning are outside the model.
\<close>

end
